(* ===== verification/Prelude.thy ===== *)
theory Prelude
  imports Main "HOL-Library.Word" "HOL-Library.Monad_Syntax"
begin

text \<open>
  What every component of the development shares: the error codes of the C sources, the
  search loop over a table that nearly every server repeats, the mailbox reply sequence, and
  the generic facts on lists and sums the component proofs rewrite with.

  Conventions of the translation.
  \<^item> A C function that returns a negative error code or a non-negative value returns
    \<open>errno + 'a\<close>, with \<open>Inl e\<close> for \<open>return (-e)\<close>.
  \<^item> Static tables are lists, a loop \<open>for (i = 0; i < N; i++) if (p(tab[i])) ...\<close> that leaves
    at the first hit is \<^term>\<open>first_index\<close>.
  \<^item> A failed \<open>uassert\<close>, an \<open>upanic\<close>, an access outside an array and a loop that never ends
    are the value \<open>None\<close> of an \<open>option\<close>.
  \<^item> Signed C integers are \<open>int\<close>. Signed overflow is undefined in C; where requests can drive a
    value to the bounds, as the counters of semaphores, the wrap-around is written out, and a
    reference count, which a request changes by one, is unbounded. Unsigned integers whose width
    matters are words.
\<close>

unbundle bit_operations_syntax

named_theorems tab_simps \<open>search and update of tables\<close>
named_theorems step_defs \<open>definitions of the operations of a server\<close>

section \<open>Error codes\<close>

datatype errno =
    EINVAL | ENOENT | EAGAIN | EEXIST | ENOSPC | ENOMEM | ENOTSUP | ENAMETOOLONG | EFAULT
  | EFBIG | EACCES | EBUSY | ENFILE | EMFILE | EBADF | ESPIPE | EIO | EPERM | ENOMSG | ENOSYS

type_synonym 'a result = "errno + 'a"

section \<open>Table search\<close>

fun first_index :: "('a \<Rightarrow> bool) \<Rightarrow> 'a list \<Rightarrow> nat option" where
  "first_index P [] = None"
| "first_index P (x # xs) = (if P x then Some 0 else map_option Suc (first_index P xs))"

lemma first_index_Some_iff:
  "first_index P xs = Some i \<longleftrightarrow> i < length xs \<and> P (xs ! i) \<and> (\<forall>j<i. \<not> P (xs ! j))"
proof (induction xs arbitrary: i)
  case Nil
  then show ?case by simp
next
  case (Cons x xs)
  show ?case
  proof (cases i)
    case 0
    then show ?thesis by auto
  next
    case (Suc k)
    have "(\<forall>j<Suc k. \<not> P ((x # xs) ! j)) \<longleftrightarrow> \<not> P x \<and> (\<forall>j<k. \<not> P (xs ! j))"
      by (auto simp: less_Suc_eq_0_disj)
    with Suc Cons.IH [of k] show ?thesis by auto
  qed
qed

lemma first_index_None_iff [tab_simps]:
  "first_index P xs = None \<longleftrightarrow> (\<forall>i<length xs. \<not> P (xs ! i))"
  by (induction xs) (auto simp: less_Suc_eq_0_disj)

lemma first_index_replicate: "first_index P (replicate n x) = (if P x \<and> 0 < n then Some 0 else None)"
  by (induction n) auto

lemma first_index_SomeD:
  assumes "first_index P xs = Some i"
  shows first_index_bound: "i < length xs" and first_index_sat: "P (xs ! i)"
    and first_index_least: "j < i \<Longrightarrow> \<not> P (xs ! j)"
  using assms by (auto simp: first_index_Some_iff)

lemma first_index_ex: "x \<in> set xs \<Longrightarrow> P x \<Longrightarrow> \<exists>i. first_index P xs = Some i"
  by (induction xs) auto

lemma first_index_append:
  "(\<And>x. x \<in> set xs \<Longrightarrow> \<not> P x) \<Longrightarrow> P y \<Longrightarrow> first_index P (xs @ y # ys) = Some (length xs)"
  by (induction xs) auto

lemma first_index_unique:
  assumes "i < length xs" "P (xs ! i)" "\<And>j. j < length xs \<Longrightarrow> P (xs ! j) \<Longrightarrow> j = i"
  shows "first_index P xs = Some i"
proof -
  have "\<not> P (xs ! j)" if "j < i" for j
    using that assms(1) assms(3) [of j] by auto
  with assms(1,2) show ?thesis by (simp add: first_index_Some_iff)
qed

lemma first_index_cong:
  assumes "length xs = length ys" "\<And>i. i < length ys \<Longrightarrow> P (xs ! i) = Q (ys ! i)"
  shows "first_index P xs = first_index Q ys"
  using assms
proof (induction xs ys rule: list_induct2)
  case Nil
  then show ?case by simp
next
  case (Cons x xs y ys)
  have "P (xs ! i) = Q (ys ! i)" if "i < length ys" for i
    using Cons.prems [of "Suc i"] that by simp
  with Cons.IH Cons.prems [of 0] show ?case by simp
qed

lemma uint_eq_iff: "uint a = uint b \<longleftrightarrow> a = b"
  using word_uint_eqI by blast

lemma unat_of_nat_lt: "n < 2 ^ LENGTH('a) \<Longrightarrow> unat (of_nat n :: 'a :: len word) = n"
  by (simp add: unat_of_nat take_bit_nat_eq_self)

section \<open>Sums over tables\<close>

lemma sum_list_update_int:
  fixes f :: "'a \<Rightarrow> int"
  assumes "i < length xs"
  shows "sum_list (map f (xs[i := x])) = sum_list (map f xs) - f (xs ! i) + f x"
  using assms
proof (induction xs arbitrary: i)
  case Nil
  then show ?case by simp
next
  case (Cons y ys)
  then show ?case by (cases i) auto
qed

lemma sum_list_ge_member:
  fixes f :: "'a \<Rightarrow> int"
  assumes "\<And>x. x \<in> set xs \<Longrightarrow> 0 \<le> f x" "i < length xs"
  shows "f (xs ! i) \<le> sum_list (map f xs)"
  using assms
proof (induction xs arbitrary: i)
  case Nil
  then show ?case by simp
next
  case (Cons y ys)
  have ge: "0 \<le> sum_list (map f ys)"
    by (rule sum_list_nonneg) (use Cons.prems(1) in auto)
  show ?case
  proof (cases i)
    case 0
    with ge show ?thesis by simp
  next
    case (Suc k)
    with Cons.prems have "f (ys ! k) \<le> sum_list (map f ys)" by (intro Cons.IH) auto
    with Suc Cons.prems(1)[of y] show ?thesis by simp
  qed
qed

section \<open>Arrays\<close>

text \<open>Access by index, undefined outside the array.\<close>

definition arr_get :: "'a list \<Rightarrow> nat \<Rightarrow> 'a option" where
  "arr_get xs i = (if i < length xs then Some (xs ! i) else None)"

definition arr_set :: "'a list \<Rightarrow> nat \<Rightarrow> 'a \<Rightarrow> 'a list option" where
  "arr_set xs i v = (if i < length xs then Some (xs[i := v]) else None)"

lemma arr_simps [simp]:
  "i < length xs \<Longrightarrow> arr_get xs i = Some (xs ! i)" "i < length xs \<Longrightarrow> arr_set xs i v = Some (xs[i := v])"
  by (simp_all add: arr_get_def arr_set_def)

section \<open>Replying through a mailbox\<close>

text \<open>
  The kernel's mailbox calls are a parameter: the descriptor \<open>kmailbox_open\<close> returns, whether
  \<open>kmailbox_write\<close> transfers the whole message, whether \<open>kmailbox_close\<close> returns zero. Every
  server asserts all three when it replies, so a failing call aborts it.
\<close>

record kmailbox =
  kmailbox_open :: "int \<Rightarrow> int \<Rightarrow> int"
  kmailbox_write_all :: "int \<Rightarrow> bool"
  kmailbox_close_ok :: "int \<Rightarrow> bool"

definition uassert :: "bool \<Rightarrow> unit option" where
  "uassert b = (if b then Some () else None)"

lemma uassert_simps [simp]: "uassert True = Some ()" "uassert False = None"
  by (simp_all add: uassert_def)

lemma uassert_Some_iff [simp]: "uassert b = Some u \<longleftrightarrow> b"
  by (simp add: uassert_def)

definition mailbox_send :: "kmailbox \<Rightarrow> int \<Rightarrow> int \<Rightarrow> unit option" where
  "mailbox_send K node port =
     do { let outbox = kmailbox_open K node port;
          uassert (0 \<le> outbox);
          uassert (kmailbox_write_all K outbox);
          uassert (kmailbox_close_ok K outbox) }"

definition mailboxes_up :: "kmailbox \<Rightarrow> bool" where
  "mailboxes_up K \<longleftrightarrow> (\<forall>node port. 0 \<le> kmailbox_open K node port) \<and>
     (\<forall>box. kmailbox_write_all K box \<and> kmailbox_close_ok K box)"

lemma mailbox_send_up: "mailboxes_up K \<Longrightarrow> mailbox_send K node port = Some ()"
  by (simp add: mailboxes_up_def mailbox_send_def Let_def)

definition kmailbox_ideal :: kmailbox where
  "kmailbox_ideal = \<lparr>kmailbox_open = (\<lambda>_ _. 0), kmailbox_write_all = (\<lambda>_. True),
     kmailbox_close_ok = (\<lambda>_. True)\<rparr>"

lemma kmailbox_ideal_up [simp]: "mailboxes_up kmailbox_ideal"
  by (simp add: mailboxes_up_def kmailbox_ideal_def)

section \<open>Portals\<close>

type_synonym byte = "8 word"

text \<open>
  The kernel's portals, which carry bulk data. \<open>kportal_read P portal n\<close> is the data a read of \<open>n\<close>
  bytes transfers; the servers assert that it has the size they asked for.
\<close>

record kportal =
  kportal_allow_ok :: "int \<Rightarrow> int \<Rightarrow> int \<Rightarrow> bool"
  kportal_read :: "int \<Rightarrow> nat \<Rightarrow> byte list"
  kportal_open :: "int \<Rightarrow> int \<Rightarrow> int"
  kportal_write_all :: "int \<Rightarrow> nat \<Rightarrow> bool"
  kportal_close_ok :: "int \<Rightarrow> bool"

definition portal_receive :: "kportal \<Rightarrow> int \<Rightarrow> int \<Rightarrow> int \<Rightarrow> nat \<Rightarrow> byte list option" where
  "portal_receive P inportal remote port n =
     do { uassert (kportal_allow_ok P inportal remote port);
          let data = kportal_read P inportal n;
          uassert (length data = n);
          Some data }"

text \<open>
  The portal while one sender writes to it: a receiver that allows another node or port is never
  given the data and waits for ever.
\<close>

definition portal_from :: "int \<Rightarrow> int \<Rightarrow> kportal \<Rightarrow> kportal" where
  "portal_from node port P = P\<lparr>kportal_allow_ok := (\<lambda>i r p. kportal_allow_ok P i r p \<and> r = node \<and> p = port)\<rparr>"

text \<open>A reply with data: open both channels, acknowledge, write the data, close both.\<close>

definition portal_reply :: "kmailbox \<Rightarrow> kportal \<Rightarrow> int \<Rightarrow> int \<Rightarrow> int \<Rightarrow> nat \<Rightarrow> unit option" where
  "portal_reply K P remote mport pport n =
     do { let outbox = kmailbox_open K remote mport;
          uassert (0 \<le> outbox);
          let outportal = kportal_open P remote pport;
          uassert (0 \<le> outportal);
          uassert (kmailbox_write_all K outbox);
          uassert (kportal_write_all P outportal n);
          uassert (kportal_close_ok P outportal);
          uassert (kmailbox_close_ok K outbox) }"

text \<open>
  A portal on which every call of the server succeeds: the sender it allows has written what it
  reads. For data that one known sender writes, \<^term>\<open>portal_from\<close> says which sender that must be.
\<close>

definition portals_up :: "kportal \<Rightarrow> bool" where
  "portals_up P \<longleftrightarrow> (\<forall>i r p. kportal_allow_ok P i r p) \<and> (\<forall>i n. length (kportal_read P i n) = n) \<and>
     (\<forall>r p. 0 \<le> kportal_open P r p) \<and> (\<forall>q n. kportal_write_all P q n \<and> kportal_close_ok P q)"

lemma portal_receive_up: "portals_up P \<Longrightarrow> portal_receive P i r p n = Some (kportal_read P i n)"
  by (simp add: portals_up_def portal_receive_def Let_def)

lemma portal_receive_from:
  "portal_receive (portal_from node port P) i r p n = (if r = node \<and> p = port then portal_receive P i r p n else None)"
  by (cases "kportal_allow_ok P i r p") (auto simp: portal_receive_def portal_from_def Let_def)

lemma portal_reply_from [simp]: "portal_reply K (portal_from node port P) r m p n = portal_reply K P r m p n"
  by (simp add: portal_reply_def portal_from_def)

lemma portal_receive_length: "portal_receive P i r p n = Some d \<Longrightarrow> length d = n"
  by (auto simp: portal_receive_def Let_def bind_eq_Some_conv)

lemma portal_reply_up: "mailboxes_up K \<Longrightarrow> portals_up P \<Longrightarrow> portal_reply K P r m p n = Some ()"
  by (simp add: mailboxes_up_def portals_up_def portal_reply_def Let_def)

definition kportal_ideal :: "(nat \<Rightarrow> byte list) \<Rightarrow> kportal" where
  "kportal_ideal data = \<lparr>kportal_allow_ok = (\<lambda>_ _ _. True), kportal_read = (\<lambda>_. data), kportal_open = (\<lambda>_ _. 0),
     kportal_write_all = (\<lambda>_ _. True), kportal_close_ok = (\<lambda>_. True)\<rparr>"

lemma kportal_ideal_up: "(\<And>n. length (data n) = n) \<Longrightarrow> portals_up (kportal_ideal data)"
  by (simp add: portals_up_def kportal_ideal_def)

end
