(* ===== verification/Ramdisk.thy ===== *)
theory Ramdisk
  imports Prelude
begin

text \<open>
  The RAM disk, \<open>src/sys/fs/vfs/disk/ramdisk.c\<close>, and the block device wrappers of
  \<open>include/nanvix/dev.h\<close>. A disk is a byte array; \<open>None\<close> for a buffer is the \<open>NULL\<close> pointer. The
  locale \<^term>\<open>block_device\<close> is what the block cache relies on: an array of blocks that returns the
  last contents written.
\<close>

definition NANVIX_DISK_SIZE :: nat where "NANVIX_DISK_SIZE = 64 * 1024"
definition NANVIX_RAMDISK_SIZE :: nat where "NANVIX_RAMDISK_SIZE = NANVIX_DISK_SIZE"
definition NANVIX_NR_RAMDISKS :: nat where "NANVIX_NR_RAMDISKS = 1"
definition NANVIX_FS_BLOCK_SIZE :: nat where "NANVIX_FS_BLOCK_SIZE = 1024"

type_synonym disks = "byte list list"

text \<open>The checks both transfers make before they touch the disk.\<close>

definition ramdisk_check :: "nat \<Rightarrow> bool \<Rightarrow> nat \<Rightarrow> int \<Rightarrow> bool" where
  "ramdisk_check minor buf_null n off \<longleftrightarrow>
     \<not> NANVIX_NR_RAMDISKS \<le> minor \<and> \<not> buf_null \<and> \<not> off < 0 \<and> \<not> NANVIX_RAMDISK_SIZE < n \<and>
     \<not> int NANVIX_RAMDISK_SIZE \<le> off \<and> \<not> int NANVIX_RAMDISK_SIZE < off + int n"

definition ramdisk_write :: "disks \<Rightarrow> nat \<Rightarrow> byte list option \<Rightarrow> nat \<Rightarrow> int \<Rightarrow> int result \<times> disks" where
  "ramdisk_write ds minor buf n off =
     (if \<not> ramdisk_check minor (buf = None) n off then (Inl EINVAL, ds)
      else (let d = ds ! minor; o' = nat off
            in (Inr (int n), ds[minor := take o' d @ take n (the buf) @ drop (o' + n) d])))"

definition ramdisk_read :: "disks \<Rightarrow> nat \<Rightarrow> bool \<Rightarrow> nat \<Rightarrow> int \<Rightarrow> errno + (int \<times> byte list)" where
  "ramdisk_read ds minor buf_null n off =
     (if \<not> ramdisk_check minor buf_null n off then Inl EINVAL
      else Inr (int n, take n (drop (nat off) (ds ! minor))))"

definition ramdisk_init :: "disks \<Rightarrow> disks" where
  "ramdisk_init ds = map (\<lambda>_. replicate NANVIX_RAMDISK_SIZE 0) ds"

text \<open>
  The wrappers: the byte offset is \<open>num * NANVIX_FS_BLOCK_SIZE\<close> in the 32-bit arithmetic of
  \<open>block_t\<close>.
\<close>

type_synonym block_t = "32 word"

definition blk_off :: "block_t \<Rightarrow> int" where
  "blk_off num = uint (num * of_nat NANVIX_FS_BLOCK_SIZE)"

definition bdev_readblk :: "disks \<Rightarrow> nat \<Rightarrow> block_t \<Rightarrow> errno + (int \<times> byte list)" where
  "bdev_readblk ds dev num = ramdisk_read ds dev False NANVIX_FS_BLOCK_SIZE (blk_off num)"

definition bdev_writeblk :: "disks \<Rightarrow> nat \<Rightarrow> block_t \<Rightarrow> byte list \<Rightarrow> int result \<times> disks" where
  "bdev_writeblk ds dev num data = ramdisk_write ds dev (Some data) NANVIX_FS_BLOCK_SIZE (blk_off num)"

section \<open>Byte ranges\<close>

definition disks_ok :: "disks \<Rightarrow> bool" where
  "disks_ok ds \<longleftrightarrow> length ds = NANVIX_NR_RAMDISKS \<and> (\<forall>d\<in>set ds. length d = NANVIX_RAMDISK_SIZE)"

lemma disks_ok_init: "length ds = NANVIX_NR_RAMDISKS \<Longrightarrow> disks_ok (ramdisk_init ds)"
  by (auto simp: disks_ok_def ramdisk_init_def)

lemma disks_ok_length: "disks_ok ds \<Longrightarrow> minor < NANVIX_NR_RAMDISKS \<Longrightarrow> length (ds ! minor) = NANVIX_RAMDISK_SIZE"
  by (auto simp: disks_ok_def)

lemma splice_nth:
  assumes "o' + n \<le> length d" "length b = n" "i < length d"
  shows "(take o' d @ b @ drop (o' + n) d) ! i = (if o' \<le> i \<and> i < o' + n then b ! (i - o') else d ! i)"
  using assms by (auto simp: nth_append min_def)

lemma ramdisk_write_ok:
  assumes "disks_ok ds" "ramdisk_check minor False n off" "length b = n"
  obtains ds' where "ramdisk_write ds minor (Some b) n off = (Inr (int n), ds')" "disks_ok ds'"
    "\<And>i. i < NANVIX_RAMDISK_SIZE \<Longrightarrow>
      ds' ! minor ! i = (if off \<le> int i \<and> int i < off + int n then b ! (i - nat off) else ds ! minor ! i)"
proof -
  let ?d = "ds ! minor" and ?o = "nat off"
  let ?e = "take ?o ?d @ b @ drop (?o + n) ?d"
  from assms(2) have off: "0 \<le> off" "?o + n \<le> NANVIX_RAMDISK_SIZE" and minor: "minor < NANVIX_NR_RAMDISKS"
    by (auto simp: ramdisk_check_def)
  have len: "length ?d = NANVIX_RAMDISK_SIZE" "minor < length ds"
    using assms(1) minor by (auto simp: disks_ok_def)
  have elen: "length ?e = NANVIX_RAMDISK_SIZE" using len off assms(3) by simp
  show thesis
  proof (rule that)
    show "ramdisk_write ds minor (Some b) n off = (Inr (int n), ds[minor := ?e])"
      using assms by (simp add: ramdisk_write_def Let_def)
    show "disks_ok (ds[minor := ?e])"
      using assms(1) elen set_update_subset_insert [of ds minor ?e] by (auto simp: disks_ok_def)
    show "ds[minor := ?e] ! minor ! i = (if off \<le> int i \<and> int i < off + int n then b ! (i - nat off) else ds ! minor ! i)"
      if "i < NANVIX_RAMDISK_SIZE" for i
    proof -
      have "?e ! i = (if ?o \<le> i \<and> i < ?o + n then b ! (i - ?o) else ?d ! i)"
        using splice_nth [of ?o n ?d b i] off len assms(3) that by simp
      moreover have "?o \<le> i \<and> i < ?o + n \<longleftrightarrow> off \<le> int i \<and> int i < off + int n" using off(1) by linarith
      ultimately show ?thesis using len(2) by simp
    qed
  qed
qed

lemma ramdisk_read_ok:
  assumes "disks_ok ds" "ramdisk_check minor False n off"
  obtains b where "ramdisk_read ds minor False n off = Inr (int n, b)" "length b = n"
    "\<And>i. i < n \<Longrightarrow> b ! i = ds ! minor ! (nat off + i)"
proof -
  from assms(2) have off: "nat off + n \<le> NANVIX_RAMDISK_SIZE" and minor: "minor < NANVIX_NR_RAMDISKS"
    by (auto simp: ramdisk_check_def)
  with disks_ok_length [OF assms(1) minor] assms(2) show thesis
    by (intro that [of "take n (drop (nat off) (ds ! minor))"]) (auto simp: ramdisk_read_def)
qed

section \<open>Block devices\<close>

locale block_device =
  fixes dev_ok :: "'d \<Rightarrow> bool" and nblk :: nat and bsize :: nat
    and contents :: "'d \<Rightarrow> nat \<Rightarrow> byte list"
    and rdblk :: "'d \<Rightarrow> nat \<Rightarrow> byte list option"
    and wrblk :: "'d \<Rightarrow> nat \<Rightarrow> byte list \<Rightarrow> 'd"
  assumes contents_length: "dev_ok d \<Longrightarrow> b < nblk \<Longrightarrow> length (contents d b) = bsize"
    and read_ok: "dev_ok d \<Longrightarrow> b < nblk \<Longrightarrow> rdblk d b = Some (contents d b)"
    and write_ok: "dev_ok d \<Longrightarrow> b < nblk \<Longrightarrow> length x = bsize \<Longrightarrow> dev_ok (wrblk d b x)"
    and write_contents: "dev_ok d \<Longrightarrow> b < nblk \<Longrightarrow> length x = bsize \<Longrightarrow> c < nblk \<Longrightarrow>
      contents (wrblk d b x) c = (if c = b then x else contents d c)"
begin

lemma read_after_write:
  "dev_ok d \<Longrightarrow> b < nblk \<Longrightarrow> length x = bsize \<Longrightarrow> rdblk (wrblk d b x) b = Some x"
  by (simp add: read_ok write_ok write_contents)

text \<open>After any sequence of block writes, each block holds the last data written to it.\<close>

definition good_writes :: "(nat \<times> byte list) list \<Rightarrow> bool" where
  "good_writes ws \<longleftrightarrow> (\<forall>(b, x)\<in>set ws. b < nblk \<and> length x = bsize)"

lemma last_write_wins:
  assumes "dev_ok d" "good_writes ws" "c < nblk"
  shows "dev_ok (foldl (\<lambda>d (b, x). wrblk d b x) d ws) \<and>
    rdblk (foldl (\<lambda>d (b, x). wrblk d b x) d ws) c =
      Some (case map_of (rev ws) c of Some x \<Rightarrow> x | None \<Rightarrow> contents d c)"
  using assms
proof (induction ws arbitrary: d)
  case Nil
  then show ?case by (simp add: read_ok)
next
  case (Cons w ws)
  obtain b x where w: "w = (b, x)" by (cases w)
  with Cons.prems have b: "b < nblk" "length x = bsize" "good_writes ws" by (auto simp: good_writes_def)
  have "map_of (rev (w # ws)) c = (case map_of (rev ws) c of Some y \<Rightarrow> Some y | None \<Rightarrow> if b = c then Some x else None)"
    by (auto simp: w map_add_def split: option.split)
  with Cons.IH [of "wrblk d b x"] Cons.prems b show ?case
    by (auto simp: w write_ok write_contents split: option.splits)
qed

end

definition disk_block :: "disks \<Rightarrow> nat \<Rightarrow> byte list" where
  "disk_block ds b = take NANVIX_FS_BLOCK_SIZE (drop (NANVIX_FS_BLOCK_SIZE * b) (ds ! 0))"

lemmas disk_consts = NANVIX_RAMDISK_SIZE_def NANVIX_DISK_SIZE_def NANVIX_FS_BLOCK_SIZE_def NANVIX_NR_RAMDISKS_def

lemma blk_off_small: "b < 2 ^ 22 \<Longrightarrow> blk_off (of_nat b) = int (1024 * b)"
proof -
  assume "b < 2 ^ 22"
  have "of_nat b * of_nat NANVIX_FS_BLOCK_SIZE = (of_nat (1024 * b) :: block_t)"
    by (simp add: NANVIX_FS_BLOCK_SIZE_def)
  moreover have "unat (of_nat (1024 * b) :: block_t) = 1024 * b"
    using \<open>b < 2 ^ 22\<close> by (intro unat_of_nat_lt) simp
  moreover have "uint w = int (unat w)" for w :: block_t by simp
  ultimately show ?thesis by (metis blk_off_def)
qed

lemma blk_check: "b < 64 \<Longrightarrow> ramdisk_check 0 False NANVIX_FS_BLOCK_SIZE (blk_off (of_nat b))"
  using blk_off_small [of b] by (simp add: ramdisk_check_def disk_consts)

lemma bdev_readblk_ok:
  assumes "disks_ok ds" "b < 64"
  shows "bdev_readblk ds 0 (of_nat b) = Inr (int NANVIX_FS_BLOCK_SIZE, disk_block ds b)"
  using blk_check [OF assms(2)] blk_off_small [of b] assms
  by (simp add: bdev_readblk_def ramdisk_read_def disk_block_def disk_consts nat_mult_distrib)

lemma bdev_readblk_out: "64 \<le> b \<Longrightarrow> b < 2 ^ 22 \<Longrightarrow> bdev_readblk ds 0 (of_nat b) = Inl EINVAL"
  using blk_off_small [of b] by (simp add: bdev_readblk_def ramdisk_read_def ramdisk_check_def disk_consts)

lemma bdev_writeblk_ok:
  assumes "disks_ok ds" "b < 64" "length x = NANVIX_FS_BLOCK_SIZE"
  obtains ds' where "bdev_writeblk ds 0 (of_nat b) x = (Inr (int NANVIX_FS_BLOCK_SIZE), ds')" "disks_ok ds'"
    "\<And>c. c < 64 \<Longrightarrow> disk_block ds' c = (if c = b then x else disk_block ds c)"
proof -
  obtain ds' where ds': "ramdisk_write ds 0 (Some x) NANVIX_FS_BLOCK_SIZE (blk_off (of_nat b)) = (Inr (int NANVIX_FS_BLOCK_SIZE), ds')"
    "disks_ok ds'" and nth: "\<And>i. i < NANVIX_RAMDISK_SIZE \<Longrightarrow> ds' ! 0 ! i =
      (if blk_off (of_nat b) \<le> int i \<and> int i < blk_off (of_nat b) + int NANVIX_FS_BLOCK_SIZE
       then x ! (i - nat (blk_off (of_nat b))) else ds ! 0 ! i)"
    using ramdisk_write_ok [OF assms(1) blk_check [OF assms(2)] assms(3)] by blast
  have off: "blk_off (of_nat b) = int (1024 * b)" using assms(2) by (intro blk_off_small) simp
  have len: "length (ds' ! 0) = 65536" "length (ds ! 0) = 65536"
    using disks_ok_length [OF ds'(2), of 0] disks_ok_length [OF assms(1), of 0] by (simp_all add: disk_consts)
  have "disk_block ds' c = (if c = b then x else disk_block ds c)" if "c < 64" for c
  proof (rule nth_equalityI)
    have "1024 * c + 1024 \<le> 65536" using that by simp
    then show "length (disk_block ds' c) = length (if c = b then x else disk_block ds c)"
      using len assms(3) by (simp add: disk_block_def disk_consts)
    fix i
    assume "i < length (disk_block ds' c)"
    then have i: "i < 1024" by (simp add: disk_block_def disk_consts)
    have "1024 * c + i < 65536" using i that by simp
    moreover have "1024 * b \<le> 1024 * c + i \<and> 1024 * c + i < 1024 * b + 1024 \<longleftrightarrow> c = b" using i by auto
    ultimately show "disk_block ds' c ! i = (if c = b then x else disk_block ds c) ! i"
      using nth [of "1024 * c + i"] i len off by (auto simp: disk_block_def disk_consts nat_mult_distrib)
  qed
  with ds' that show thesis by (auto simp: bdev_writeblk_def)
qed

interpretation ramdisk: block_device disks_ok 64 NANVIX_FS_BLOCK_SIZE disk_block
  "\<lambda>ds b. case bdev_readblk ds 0 (of_nat b) of Inr (_, x) \<Rightarrow> Some x | Inl _ \<Rightarrow> None"
  "\<lambda>ds b x. snd (bdev_writeblk ds 0 (of_nat b) x)"
proof
  fix ds :: disks and b c :: nat and x :: "byte list"
  assume ds: "disks_ok ds" and b: "b < 64"
  show "length (disk_block ds b) = NANVIX_FS_BLOCK_SIZE"
    using disks_ok_length [OF ds, of 0] b by (simp add: disk_block_def disk_consts)
  show "(case bdev_readblk ds 0 (of_nat b) of Inr (_, x) \<Rightarrow> Some x | Inl _ \<Rightarrow> None) = Some (disk_block ds b)"
    by (simp add: bdev_readblk_ok [OF ds b])
  assume x: "length x = NANVIX_FS_BLOCK_SIZE"
  show "disks_ok (snd (bdev_writeblk ds 0 (of_nat b) x))"
    by (rule bdev_writeblk_ok [OF ds b x]) simp
  show "disk_block (snd (bdev_writeblk ds 0 (of_nat b) x)) c = (if c = b then x else disk_block ds c)" if "c < 64"
    by (rule bdev_writeblk_ok [OF ds b x]) (use that in simp)
qed

section \<open>Properties\<close>

text \<open>
  A RAM disk stores bytes. A write is accepted exactly when the device exists and the range lies in the
  disk (\<open>EINVAL\<close> otherwise, and then nothing changes); after an accepted write, a read of any range
  returns the new bytes where the ranges overlap and the old ones elsewhere.
\<close>

theorem ramdisk_write_read:
  assumes "disks_ok ds" "length b = n"
  shows "if ramdisk_check minor False n off
    then \<exists>ds'. ramdisk_write ds minor (Some b) n off = (Inr (int n), ds') \<and> disks_ok ds' \<and>
      (\<forall>m off'. ramdisk_check minor False m off' \<longrightarrow>
        (\<exists>c. ramdisk_read ds' minor False m off' = Inr (int m, c) \<and> length c = m \<and>
          (\<forall>i<m. let p = off' + int i in
            c ! i = (if off \<le> p \<and> p < off + int n then b ! nat (p - off) else ds ! minor ! nat p))))
    else ramdisk_write ds minor (Some b) n off = (Inl EINVAL, ds)"
proof (cases "ramdisk_check minor False n off")
  case False
  then show ?thesis by (simp add: ramdisk_write_def)
next
  case True
  obtain ds' where w: "ramdisk_write ds minor (Some b) n off = (Inr (int n), ds')" "disks_ok ds'"
    and nth: "\<And>i. i < NANVIX_RAMDISK_SIZE \<Longrightarrow>
      ds' ! minor ! i = (if off \<le> int i \<and> int i < off + int n then b ! (i - nat off) else ds ! minor ! i)"
    by (rule ramdisk_write_ok [OF assms(1) True assms(2)]) blast
  have "\<exists>c. ramdisk_read ds' minor False m off' = Inr (int m, c) \<and> length c = m \<and>
      (\<forall>i<m. let p = off' + int i in
        c ! i = (if off \<le> p \<and> p < off + int n then b ! nat (p - off) else ds ! minor ! nat p))"
    if r: "ramdisk_check minor False m off'" for m off'
  proof -
    obtain c where c: "ramdisk_read ds' minor False m off' = Inr (int m, c)" "length c = m"
      "\<And>i. i < m \<Longrightarrow> c ! i = ds' ! minor ! (nat off' + i)"
      by (rule ramdisk_read_ok [OF w(2) r]) blast
    have "c ! i = (if off \<le> off' + int i \<and> off' + int i < off + int n then b ! nat (off' + int i - off)
        else ds ! minor ! nat (off' + int i))" if i: "i < m" for i
    proof -
      have o: "0 \<le> off'" "nat off' + i < NANVIX_RAMDISK_SIZE" using r i by (auto simp: ramdisk_check_def)
      moreover have "0 \<le> off" using True by (simp add: ramdisk_check_def)
      moreover have "nat (off' + int i) = nat off' + i" using o by simp
      moreover have "nat (off' + int i - off) = nat off' + i - nat off" using o \<open>0 \<le> off\<close> by linarith
      ultimately show ?thesis using nth [of "nat off' + i"] c(3) [OF i] by simp
    qed
    with c(1,2) show ?thesis by (auto simp: Let_def)
  qed
  with True w show ?thesis by auto
qed

theorem ramdisk_write_read_witness:
  "\<exists>ds'. ramdisk_write [replicate NANVIX_RAMDISK_SIZE 0] 0 (Some [1, 2]) 2 10 = (Inr 2, ds') \<and> disks_ok ds'"
proof -
  have "disks_ok [replicate NANVIX_RAMDISK_SIZE 0]" by (simp add: disks_ok_def NANVIX_NR_RAMDISKS_def)
  moreover have "ramdisk_check 0 False 2 10" by (simp add: ramdisk_check_def disk_consts)
  ultimately show ?thesis using ramdisk_write_read [of "[replicate NANVIX_RAMDISK_SIZE 0]" "[1, 2]" 2 0 10] by auto
qed

end
