(* ===== verification/Bitmap.thy ===== *)
theory Bitmap
  imports Prelude
begin

text \<open>
  Bitmaps, \<open>src/libruntime/utils/bitmap.c\<close> and the macros of \<open>include/nanvix/runtime/utils.h\<close>: an
  array of 32-bit words read as one row of bits. Sizes are in bytes, as in the source. An access
  outside the array is \<open>None\<close>.

  \<^term>\<open>bits\<close> is the set of positions that are set. The locale \<^term>\<open>bit_allocator\<close> is what the
  allocators of the system (remote memory blocks, disk blocks, disk inodes) rely on: a search
  that finds a clear position, and set, clear and test of a position.
\<close>

type_synonym bitmap_t = "32 word"

definition BITMAP_WORD_SHIFT :: nat where "BITMAP_WORD_SHIFT = 5"

definition BITMAP_FULL :: bitmap_t where "BITMAP_FULL = 0xffffffff"

definition IDX :: "bitmap_t \<Rightarrow> bitmap_t" where "IDX a = drop_bit BITMAP_WORD_SHIFT a"

definition OFF :: "bitmap_t \<Rightarrow> bitmap_t" where "OFF a = a AND 0x1F"

definition bitmap_set :: "bitmap_t list \<Rightarrow> bitmap_t \<Rightarrow> bitmap_t list option" where
  "bitmap_set bm pos =
     (let i = unat (IDX pos) in
      if i < length bm then Some (bm[i := bm ! i OR push_bit (unat (OFF pos)) 1]) else None)"

definition bitmap_clear :: "bitmap_t list \<Rightarrow> bitmap_t \<Rightarrow> bitmap_t list option" where
  "bitmap_clear bm pos =
     (let i = unat (IDX pos) in
      if i < length bm then Some (bm[i := bm ! i AND NOT (push_bit (unat (OFF pos)) 1)]) else None)"

definition bitmap_check_bit :: "bitmap_t list \<Rightarrow> bitmap_t \<Rightarrow> bitmap_t option" where
  "bitmap_check_bit bm pos =
     (let i = unat (IDX pos) in
      if i < length bm then Some (bm ! i AND push_bit (unat (OFF pos)) 1) else None)"

text \<open>The inner loop of \<open>bitmap_first_free\<close>: skip the set bits of a word.\<close>

function find_offset :: "bitmap_t \<Rightarrow> nat \<Rightarrow> nat" where
  "find_offset w off = (if w AND push_bit off 1 \<noteq> 0 then find_offset w (Suc off) else off)"
  by pat_completeness auto
termination
proof (relation "measure (\<lambda>(w, off). 32 - off)")
  fix w :: bitmap_t and off :: nat
  assume "w AND push_bit off 1 \<noteq> 0"
  then have "bit w off" unfolding bit_iff_and_push_bit_not_eq_0 .
  then have "off < 32" using bit_imp_le_length [of w off] by simp
  then show "((w, Suc off), w, off) \<in> measure (\<lambda>(w, off). 32 - off)" by simp
qed simp

declare find_offset.simps [simp del]

text \<open>The outer loop: the first word, from index \<open>idx\<close> to below \<open>lim\<close> (\<open>max\<close> in the source), that is not full.\<close>

function first_free_from :: "bitmap_t list \<Rightarrow> nat \<Rightarrow> nat \<Rightarrow> bitmap_t option" where
  "first_free_from bm idx lim =
     (if idx < lim
      then (if idx < length bm
            then (if bm ! idx \<noteq> 0xffffffff
                  then Some (push_bit BITMAP_WORD_SHIFT (of_nat idx) + of_nat (find_offset (bm ! idx) 0))
                  else first_free_from bm (Suc idx) lim)
            else None)
      else Some BITMAP_FULL)"
  by pat_completeness auto
termination by (relation "measure (\<lambda>(bm, idx, lim). lim - idx)") simp_all

declare first_free_from.simps [simp del]

definition bitmap_first_free :: "bitmap_t list \<Rightarrow> nat \<Rightarrow> bitmap_t option" where
  "bitmap_first_free bm sz = first_free_from bm 0 (drop_bit 2 sz)"

text \<open>The population count of one word and its sum over a bitmap.\<close>

definition chunk_count :: "bitmap_t \<Rightarrow> bitmap_t" where
  "chunk_count c0 =
     (let c1 = c0 - (drop_bit 1 c0 AND 0x55555555);
          c2 = (c1 AND 0x33333333) + (drop_bit 2 c1 AND 0x33333333)
      in drop_bit 24 (((c2 + drop_bit 4 c2) AND 0x0F0F0F0F) * 0x01010101))"

definition bitmap_nset :: "bitmap_t list \<Rightarrow> nat \<Rightarrow> bitmap_t option" where
  "bitmap_nset bm sz =
     (if drop_bit 2 sz \<le> length bm
      then Some (foldl (\<lambda>count chunk. count + chunk_count chunk) 0 (take (drop_bit 2 sz) bm))
      else None)"

definition bitmap_nclear :: "bitmap_t list \<Rightarrow> nat \<Rightarrow> bitmap_t option" where
  "bitmap_nclear bm sz = do { n \<leftarrow> bitmap_nset bm sz; Some (of_nat (push_bit 3 sz) - n) }"

section \<open>Bits of a bitmap\<close>

definition bits :: "bitmap_t list \<Rightarrow> nat set" where
  "bits bm = {i. i < 32 * length bm \<and> bit (bm ! (i div 32)) (i mod 32)}"

lemma unat_IDX: "unat (IDX a) = unat a div 32"
  by (simp add: IDX_def BITMAP_WORD_SHIFT_def drop_bit_eq_div unat_div_distrib)

lemma unat_OFF: "unat (OFF a) = unat a mod 32"
proof -
  have "OFF a = take_bit 5 a" by (simp add: OFF_def take_bit_eq_mask mask_eq_exp_minus_1)
  then show ?thesis by (simp add: take_bit_eq_mod unat_mod_distrib)
qed

lemma idx_bound_iff: "unat (IDX a) < length bm \<longleftrightarrow> unat a < 32 * length bm"
  by (simp add: unat_IDX) (metis div_less_iff_less_mult mult.commute zero_less_numeral)

lemma bits_update:
  assumes "i < length bm"
    and "\<And>k. k < 32 \<Longrightarrow> bit w k \<longleftrightarrow> (if k = j then b else bit (bm ! i) k)" "j < 32"
  shows "bits (bm[i := w]) = (if b then insert (i * 32 + j) (bits bm) else bits bm - {i * 32 + j})"
proof (rule set_eqI)
  fix x
  have x: "x = i * 32 + j \<longleftrightarrow> x div 32 = i \<and> x mod 32 = j"
    using assms(3) by (metis add.commute div_mult_self3 div_less mod_mult_self2 mod_less add_0
        mult.commute mult_div_mod_eq zero_neq_numeral)
  have "x \<in> bits (bm[i := w]) \<longleftrightarrow> x < 32 * length bm \<and>
      (if x div 32 = i then (if x mod 32 = j then b else bit (bm ! i) (x mod 32))
       else bit (bm ! (x div 32)) (x mod 32))"
    using assms(1,2) by (auto simp: bits_def nth_list_update)
  moreover have "x < 32 * length bm" if "x = i * 32 + j" using that assms(1,3) by linarith
  ultimately show "x \<in> bits (bm[i := w]) \<longleftrightarrow>
      x \<in> (if b then insert (i * 32 + j) (bits bm) else bits bm - {i * 32 + j})"
    by (auto simp: bits_def x)
qed

lemma split_pos: "unat pos div 32 * 32 + unat pos mod 32 = unat pos"
  by simp

lemma bitmap_set_bits:
  assumes "unat pos < 32 * length bm"
  obtains bm' where "bitmap_set bm pos = Some bm'" "length bm' = length bm"
    "bits bm' = insert (unat pos) (bits bm)"
proof -
  let ?i = "unat (IDX pos)" and ?j = "unat (OFF pos)"
  have i: "?i < length bm" using assms by (simp add: idx_bound_iff)
  have "bits (bm[?i := set_bit ?j (bm ! ?i)]) = insert (?i * 32 + ?j) (bits bm)"
    using bits_update [OF i, of "set_bit ?j (bm ! ?i)" ?j True]
    by (simp add: unat_OFF bit_set_bit_iff)
  with i show thesis
    by (intro that [of "bm[?i := set_bit ?j (bm ! ?i)]"])
      (simp_all add: bitmap_set_def Let_def set_bit_def unat_IDX unat_OFF)
qed

lemma bitmap_clear_bits:
  assumes "unat pos < 32 * length bm"
  obtains bm' where "bitmap_clear bm pos = Some bm'" "length bm' = length bm"
    "bits bm' = bits bm - {unat pos}"
proof -
  let ?i = "unat (IDX pos)" and ?j = "unat (OFF pos)"
  let ?w = "bm ! ?i AND NOT (push_bit ?j 1)"
  have i: "?i < length bm" using assms by (simp add: idx_bound_iff)
  have "bits (bm[?i := ?w]) = bits bm - {?i * 32 + ?j}"
    using bits_update [OF i, of ?w ?j False]
    by (simp add: unat_OFF bit_and_iff bit_not_iff bit_exp_iff)
  with i show thesis
    by (intro that [of "bm[?i := ?w]"]) (simp_all add: bitmap_clear_def Let_def unat_IDX unat_OFF)
qed

lemma bitmap_check_bits:
  assumes "unat pos < 32 * length bm"
  obtains w where "bitmap_check_bit bm pos = Some w" "w \<noteq> 0 \<longleftrightarrow> unat pos \<in> bits bm"
proof -
  let ?w = "bm ! unat (IDX pos) AND push_bit (unat (OFF pos)) 1"
  have "?w \<noteq> 0 \<longleftrightarrow> bit (bm ! unat (IDX pos)) (unat (OFF pos))"
    by (simp only: bit_iff_and_push_bit_not_eq_0)
  with assms show thesis
    by (intro that [of ?w]) (simp_all add: bitmap_check_bit_def Let_def idx_bound_iff bits_def unat_IDX unat_OFF)
qed

section \<open>First free bit\<close>

lemma find_offset_spec:
  assumes "w \<noteq> 0xffffffff" "\<And>k. k < off \<Longrightarrow> bit w k"
  shows "find_offset w off < 32 \<and> \<not> bit w (find_offset w off) \<and> (\<forall>k<find_offset w off. bit w k)"
  using assms
proof (induction w off rule: find_offset.induct)
  case (1 w off)
  show ?case
  proof (cases "bit w off")
    case True
    with "1.prems"(2) have "bit w k" if "k < Suc off" for k using that by (auto simp: less_Suc_eq)
    moreover have "find_offset w off = find_offset w (Suc off)"
      using True by (subst find_offset.simps) (simp add: and_exp_eq_0_iff_not_bit)
    moreover have "w AND push_bit off 1 \<noteq> 0" using True by (simp add: and_exp_eq_0_iff_not_bit)
    ultimately show ?thesis using "1.IH" "1.prems"(1) by presburger
  next
    case False
    have "off < 32"
    proof (rule ccontr)
      assume "\<not> off < 32"
      with "1.prems"(2) have "\<And>k. k < 32 \<Longrightarrow> bit w k" by simp
      then have "w = mask 32" by (intro bit_word_eqI) (simp add: bit_mask_iff)
      with "1.prems"(1) show False by (simp add: mask_eq_exp_minus_1)
    qed
    moreover have "find_offset w off = off"
      using False by (subst find_offset.simps) (simp add: and_exp_eq_0_iff_not_bit)
    ultimately show ?thesis using False "1.prems"(2) by simp
  qed
qed

lemma bit_full: "k < 32 \<Longrightarrow> bit (0xffffffff :: bitmap_t) k"
proof -
  have "(0xffffffff :: bitmap_t) = mask 32" by (simp add: mask_eq_exp_minus_1)
  then show "k < 32 \<Longrightarrow> bit (0xffffffff :: bitmap_t) k" by (simp only: bit_mask_iff) simp
qed

lemma first_free_from_spec:
  assumes "lim \<le> length bm" "32 * lim < 2 ^ 32" "\<And>i. i < 32 * idx \<Longrightarrow> i \<in> bits bm" "idx \<le> lim"
  shows "\<exists>w. first_free_from bm idx lim = Some w \<and>
    (if {..<32 * lim} \<subseteq> bits bm then w = BITMAP_FULL
     else unat w < 32 * lim \<and> unat w \<notin> bits bm \<and> {..<unat w} \<subseteq> bits bm)"
  using assms
proof (induction bm idx lim rule: first_free_from.induct)
  case (1 bm idx lim)
  show ?case
  proof (cases "idx < lim")
    case False
    with "1.prems" have "{..<32 * lim} \<subseteq> bits bm" by auto
    with False show ?thesis by (simp add: first_free_from.simps [of bm idx lim])
  next
    case True
    with "1.prems"(1) have len: "idx < length bm" by simp
    show ?thesis
    proof (cases "bm ! idx = 0xffffffff")
      case full: True
      have "i \<in> bits bm" if "i < 32 * Suc idx" for i
      proof (cases "i < 32 * idx")
        case False
        with that have "i div 32 = idx" by simp
        moreover have "bit (bm ! idx) (i mod 32)" unfolding full by (rule bit_full) simp
        moreover have "i < 32 * length bm" using that len by simp
        ultimately show ?thesis by (simp add: bits_def)
      qed (use "1.prems"(3) in simp)
      with "1.IH" True len full "1.prems"(1,2) show ?thesis
        by (simp add: first_free_from.simps [of bm idx lim])
    next
      case free: False
      define off where "off = find_offset (bm ! idx) 0"
      have off: "off < 32" "\<not> bit (bm ! idx) off" "\<forall>k<off. bit (bm ! idx) k"
        using find_offset_spec [OF free, of 0] by (simp_all add: off_def)
      have lt: "32 * idx + off < 32 * lim" using True off(1) by linarith
      have "push_bit BITMAP_WORD_SHIFT (of_nat idx) + of_nat off = (of_nat (32 * idx + off) :: bitmap_t)"
        by (simp add: BITMAP_WORD_SHIFT_def push_bit_eq_mult mult.commute)
      moreover have "unat (of_nat (32 * idx + off) :: bitmap_t) = 32 * idx + off"
        using lt "1.prems"(2) by (intro unat_of_nat_lt) simp
      moreover have clear: "32 * idx + off \<notin> bits bm" using off by (simp add: bits_def)
      moreover have "i \<in> bits bm" if "i < 32 * idx + off" for i
      proof (cases "i < 32 * idx")
        case False
        define r where "r = i - 32 * idx"
        have r: "i = 32 * idx + r" "r < off" using False that by (simp_all add: r_def)
        then have "i div 32 = idx" "i mod 32 = r" using off(1) by simp_all
        moreover have "i < 32 * length bm" using r off(1) len by simp
        ultimately show ?thesis using off(3) r(2) by (simp add: bits_def)
      qed (use "1.prems"(3) in simp)
      ultimately show ?thesis
        using True len free lt by (auto simp: first_free_from.simps [of bm idx lim] off_def)
    qed
  qed
qed

section \<open>Population count\<close>

text \<open>
  The counting trick works on the eight hexadecimal digits of a word at once: subtracting the
  shifted odd bits leaves pair counts, adding neighbouring pairs leaves digit counts, adding
  neighbouring digits leaves byte counts, and the product gathers the byte counts in the top
  byte. No step carries into the next digit, which is what the lemmas below show.
\<close>

lemma and_split:
  fixes a m :: nat
  assumes "a < 2 ^ k" "m < 2 ^ (k - s)" "s \<le> k"
  shows "drop_bit s (a + 2 ^ k * b) AND (m + 2 ^ k * M) = (drop_bit s a AND m) + 2 ^ k * (drop_bit s b AND M)"
proof -
  let ?X = "a + 2 ^ k * b" and ?N = "m + 2 ^ k * M"
  let ?y = "drop_bit s ?X AND ?N"
  have "(2::nat) ^ (k - s) \<le> 2 ^ k" by (rule power_increasing) simp_all
  then have m: "m < 2 ^ k" using assms(2) by linarith
  have X: "take_bit k ?X = a" "drop_bit k ?X = b" and N: "take_bit k ?N = m" "drop_bit k ?N = M"
    using assms(1) m by (simp_all add: take_bit_eq_mod drop_bit_eq_div)
  have tm: "take_bit (k - s) m = m" using assms(2) by (simp add: take_bit_eq_mod)
  have "take_bit k ?y = take_bit k (drop_bit s ?X) AND take_bit (k - s) m"
    by (simp add: take_bit_and N tm)
  also have "\<dots> = take_bit (k - s) (drop_bit s ?X) AND take_bit (k - s) m"
    by (rule bit_eqI) (auto simp: bit_and_iff bit_take_bit_iff)
  also have "\<dots> = take_bit (k - s) (drop_bit s ?X) AND m" by (simp only: tm)
  also have "\<dots> = drop_bit s a AND m" by (metis X(1) drop_bit_take_bit)
  finally have low: "take_bit k ?y = drop_bit s a AND m" .
  have "drop_bit k ?y = drop_bit s (drop_bit k ?X) AND drop_bit k ?N"
    by (simp add: drop_bit_and ac_simps)
  then have "drop_bit k ?y = drop_bit s b AND M" by (simp only: X N)
  moreover have "?y = push_bit k (drop_bit k ?y) + take_bit k ?y" by (rule bits_ident [symmetric])
  ultimately have "?y = push_bit k (drop_bit s b AND M) + (drop_bit s a AND m)" by (simp only: low)
  then show ?thesis by (simp add: push_bit_eq_mult)
qed

text \<open>A word as eight base-16 digits, lowest first.\<close>

definition octet :: "(nat \<Rightarrow> nat) \<Rightarrow> nat" where
  "octet d = d 0 + 16 * (d 1 + 16 * (d 2 + 16 * (d 3 + 16 * (d 4 + 16 * (d 5 + 16 * (d 6 + 16 * d 7))))))"

lemma and_octet:
  assumes "\<And>i. d i < 16" "\<And>i. m i < 2 ^ (4 - s)" "s \<le> 4"
  shows "drop_bit s (octet d) AND octet m = octet (\<lambda>i. drop_bit s (d i) AND m i)"
proof -
  have a: "drop_bit s (d i + 16 * y) AND (m j + 16 * M) = (drop_bit s (d i) AND m j) + 16 * (drop_bit s y AND M)"
    for i j y M using and_split [of "d i" 4 "m j" s y M] assms by simp
  show ?thesis unfolding octet_def by (simp only: a)
qed

definition nib_pairs :: "nat \<Rightarrow> nat" where "nib_pairs x = x - (drop_bit 1 x AND 5)"
definition nib_count :: "nat \<Rightarrow> nat" where
  "nib_count x = (nib_pairs x AND 3) + (drop_bit 2 (nib_pairs x) AND 3)"

lemma nib_table: "list_all (\<lambda>x. drop_bit 1 x AND 5 \<le> x \<and> nib_pairs x < 16 \<and> nib_count x \<le> 4 \<and>
   nib_count x = of_bool (bit x 0) + of_bool (bit x 1) + of_bool (bit x 2) + of_bool (bit x 3)) [0..<16]"
  by code_simp

lemma nib:
  assumes "x < 16"
  shows "drop_bit 1 x AND 5 \<le> x" "nib_pairs x < 16" "nib_count x \<le> 4"
    "nib_count x = of_bool (bit x 0) + of_bool (bit x 1) + of_bool (bit x 2) + of_bool (bit x 3)"
  using nib_table assms by (auto simp: list_all_iff)

lemma octet_bound: "(\<And>i. d i < 16) \<Longrightarrow> octet d < 2 ^ 32"
proof -
  assume d: "\<And>i. d i < 16"
  show ?thesis unfolding octet_def using d [of 0] d [of 1] d [of 2] d [of 3] d [of 4] d [of 5] d [of 6] d [of 7] by simp
qed

lemma octet_add: "octet d + octet e = octet (\<lambda>i. d i + e i)" by (simp add: octet_def)
lemma octet_diff: "(\<And>i. e i \<le> d i) \<Longrightarrow> octet d - octet e = octet (\<lambda>i. d i - e i)"
proof -
  assume "\<And>i. e i \<le> d i"
  then have "octet d = octet (\<lambda>i. d i - e i) + octet e" by (simp add: octet_add)
  then show ?thesis by simp
qed

lemma drop_bit_of_nat_word:
  assumes "n < 2 ^ LENGTH('a)"
  shows "drop_bit s (of_nat n :: 'a :: len word) = of_nat (drop_bit s n)"
proof -
  have "drop_bit s n < 2 ^ LENGTH('a)"
    using assms by (simp add: drop_bit_eq_div) (meson div_le_dividend le_less_trans)
  with assms show ?thesis by (simp add: word_unat_eq_iff unsigned_drop_bit_eq unat_of_nat take_bit_nat_eq_self)
qed

lemma and_octet_word:
  assumes "\<And>i. d i < 16" "\<And>i. m i < 2 ^ (4 - s)" "s \<le> 4"
  shows "drop_bit s (of_nat (octet d) :: bitmap_t) AND of_nat (octet m) =
    of_nat (octet (\<lambda>i. drop_bit s (d i) AND m i))"
proof -
  have "octet d < 2 ^ LENGTH(32)" using octet_bound [of d] assms(1) by simp
  then show ?thesis
    using and_octet [OF assms] by (simp add: drop_bit_of_nat_word flip: of_nat_and_eq)
qed

lemma octet_pairs:
  assumes q: "\<And>i. q i \<le> 4"
  shows "(octet q + drop_bit 4 (octet q)) AND 0x0F0F0F0F = octet (\<lambda>i. if even i then q i + q (i + 1) else 0)"
proof -
  define r where "r i = q i + (if i = 7 then 0 else q (i + 1))" for i
  have r: "r i < 16" for i using q [of i] q [of "i + 1"] by (auto simp: r_def)
  have "drop_bit 4 (octet q) = q 1 + 16 * (q 2 + 16 * (q 3 + 16 * (q 4 + 16 * (q 5 + 16 * (q 6 + 16 * q 7)))))"
    using q [of 0] by (simp add: octet_def drop_bit_eq_div)
  then have "octet q + drop_bit 4 (octet q) = octet r" by (simp add: octet_def r_def flip: numeral_2_eq_2)
  moreover have "0x0F0F0F0F = octet (\<lambda>i. if even i then 15 else 0)" by (simp add: octet_def)
  moreover have "octet r AND octet (\<lambda>i. if even i then 15 else 0) = octet (\<lambda>i. r i AND (if even i then 15 else 0))"
    using and_octet [of r "\<lambda>i. if even i then 15 else 0" 0] r by simp
  moreover have "r i AND 15 = r i" for i
  proof -
    have "r i AND 15 = take_bit 4 (r i)" by (simp add: take_bit_eq_mask mask_eq_exp_minus_1)
    with r [of i] show ?thesis by (simp add: take_bit_eq_mod)
  qed
  moreover from this have "r i AND (if even i then 15 else 0) = (if even i then r i else 0)" for i by simp
  moreover have "octet (\<lambda>i. if even i then r i else 0) = octet (\<lambda>i. if even i then q i + q (i + 1) else 0)"
    by (simp add: octet_def r_def)
  ultimately show ?thesis by (simp only:)
qed

lemma octet_gather:
  assumes e: "\<And>i. e i \<le> 8"
  shows "drop_bit 24 (octet (\<lambda>i. if even i then e i else 0) * 0x01010101 mod 2 ^ 32) = e 0 + e 2 + e 4 + e 6"
proof -
  have split: "drop_bit 24 ((lo + 2 ^ 24 * (s :: nat) + 2 ^ 32 * hi) mod 2 ^ 32) = s"
    if "lo < 2 ^ 24" "s < 256" for lo s hi
  proof -
    have "lo + 2 ^ 24 * s < 2 ^ 32" using that by simp
    then have "(lo + 2 ^ 24 * s + 2 ^ 32 * hi) mod 2 ^ 32 = lo + 2 ^ 24 * s" by simp
    with that(1) show ?thesis by (simp add: drop_bit_eq_div)
  qed
  let ?lo = "e 0 + 256 * (e 0 + e 2) + 65536 * (e 0 + e 2 + e 4)"
  let ?hi = "(e 2 + e 4 + e 6) + 256 * (e 4 + e 6) + 65536 * e 6"
  have "octet (\<lambda>i. if even i then e i else 0) * 0x01010101 =
      ?lo + 2 ^ 24 * (e 0 + e 2 + e 4 + e 6) + 2 ^ 32 * ?hi" by (simp add: octet_def)
  moreover have "?lo < 2 ^ 24" "e 0 + e 2 + e 4 + e 6 < 256"
    using e [of 0] e [of 2] e [of 4] e [of 6] by simp_all
  ultimately show ?thesis by (simp only: split)
qed

lemma unat_drop_bit_of_nat: "unat (drop_bit s (of_nat n :: bitmap_t)) = drop_bit s (n mod 2 ^ 32)"
  by (simp add: unsigned_drop_bit_eq unat_of_nat take_bit_eq_mod)

lemma chunk_count_octet:
  assumes d: "\<And>i. d i < 16"
  shows "unat (chunk_count (of_nat (octet d))) = (\<Sum>i<8. nib_count (d i))"
proof -
  let ?w = "of_nat :: nat \<Rightarrow> bitmap_t"
  let ?p = "\<lambda>i. nib_pairs (d i)" and ?q = "\<lambda>i. nib_count (d i)"
  let ?c1 = "?w (octet d) - (drop_bit 1 (?w (octet d)) AND 0x55555555)"
  let ?c2 = "(?c1 AND 0x33333333) + (drop_bit 2 ?c1 AND 0x33333333)"
  have p: "?p i < 16" and q: "?q i \<le> 4" for i using nib [OF d] by auto
  have K: "0x55555555 = ?w (octet (\<lambda>_. 5))" "0x33333333 = ?w (octet (\<lambda>_. 3))" by (simp_all add: octet_def)
  have "drop_bit 1 (?w (octet d)) AND 0x55555555 = ?w (octet (\<lambda>i. drop_bit 1 (d i) AND 5))"
    unfolding K by (rule and_octet_word) (simp_all add: d)
  moreover have "octet (\<lambda>i. drop_bit 1 (d i) AND 5) \<le> octet d"
    unfolding octet_def by (intro add_mono mult_le_mono nib(1) d le_refl)
  moreover have "octet d - octet (\<lambda>i. drop_bit 1 (d i) AND 5) = octet ?p"
    unfolding nib_pairs_def by (rule octet_diff) (rule nib(1) [OF d])
  ultimately have c1: "?c1 = ?w (octet ?p)" by (metis of_nat_diff)
  have "?w (octet ?p) AND 0x33333333 = ?w (octet (\<lambda>i. ?p i AND 3))"
    unfolding K using and_octet_word [of ?p "\<lambda>_. 3" 0] p by simp
  moreover have "drop_bit 2 (?w (octet ?p)) AND 0x33333333 = ?w (octet (\<lambda>i. drop_bit 2 (?p i) AND 3))"
    unfolding K using p by (intro and_octet_word) simp_all
  ultimately have c2: "?c2 = ?w (octet ?q)"
    unfolding c1 by (simp add: octet_add nib_count_def flip: of_nat_add)
  have "?q i < 16" for i using q [of i] by simp
  then have lt: "octet ?q < 2 ^ LENGTH(32)" using octet_bound [of ?q] by simp
  have "(?c2 + drop_bit 4 ?c2) AND 0x0F0F0F0F = ?w ((octet ?q + drop_bit 4 (octet ?q)) AND 0x0F0F0F0F)"
    unfolding c2 drop_bit_of_nat_word [OF lt] by (simp add: of_nat_and_eq)
  then have "chunk_count (?w (octet d)) =
      drop_bit 24 (?w (octet (\<lambda>i. if even i then ?q i + ?q (i + 1) else 0) * 0x01010101))"
    unfolding chunk_count_def Let_def octet_pairs [OF q] by simp
  also have "unat \<dots> = ?q 0 + ?q 1 + (?q 2 + ?q 3) + (?q 4 + ?q 5) + (?q 6 + ?q 7)"
    unfolding unat_drop_bit_of_nat
    using octet_gather [of "\<lambda>i. ?q i + ?q (i + 1)"] add_mono [OF q q] by simp
  finally show ?thesis by (simp add: eval_nat_numeral)
qed

definition nibble :: "nat \<Rightarrow> nat \<Rightarrow> nat" where "nibble x i = drop_bit (4 * i) x mod 16"

lemma octet_nibbles: "x < 2 ^ 32 \<Longrightarrow> octet (nibble x) = x"
proof -
  assume "x < 2 ^ 32"
  have split: "x div k mod 16 + 16 * (x div (k * 16)) = x div k" for k by (simp add: div_mult2_eq)
  from \<open>x < 2 ^ 32\<close> have "x div 268435456 mod 16 = x div 268435456" by simp
  then show ?thesis
    using split [of 1] split [of 16] split [of 256] split [of 4096] split [of 65536] split [of 1048576]
      split [of 16777216]
    by (simp add: octet_def nibble_def drop_bit_eq_div)
qed

lemma bit_nibble: "k < 4 \<Longrightarrow> bit (nibble x i) k \<longleftrightarrow> bit x (4 * i + k)"
  using bit_take_bit_iff [of 4 "drop_bit (4 * i) x" k]
  by (simp add: nibble_def bit_drop_bit_eq take_bit_eq_mod)

lemma chunk_count_card: "unat (chunk_count w) = card {i. i < 32 \<and> bit w i}"
proof -
  let ?x = "unat w"
  have lt: "?x < 2 ^ 32" using unsigned_less [of w] by simp
  have n: "nibble ?x i < 16" for i by (simp add: nibble_def)
  have "unat (chunk_count w) = (\<Sum>i<8. nib_count (nibble ?x i))"
    using chunk_count_octet [of "nibble ?x", OF n] by (simp add: octet_nibbles [OF lt])
  also have "\<dots> = (\<Sum>i<8. of_bool (bit ?x (4 * i)) + of_bool (bit ?x (4 * i + 1)) +
      of_bool (bit ?x (4 * i + 2)) + of_bool (bit ?x (4 * i + 3)))"
    by (simp add: nib(4) [OF n] bit_nibble)
  also have "\<dots> = (\<Sum>i<32. of_bool (bit ?x i))" by (simp add: eval_nat_numeral)
  also have "\<dots> = card {i. i < 32 \<and> bit w i}"
    by (simp add: sum.If_cases of_bool_def Int_def bit_unsigned_iff conj_commute)
  finally show ?thesis .
qed

lemma card_bits_Cons: "card (bits (w # bm)) = card {i. i < 32 \<and> bit w i} + card (bits bm)"
proof -
  have "bits (w # bm) = {i. i < 32 \<and> bit w i} \<union> (+) 32 ` bits bm" (is "_ = ?A \<union> ?B")
  proof (rule set_eqI)
    fix i
    show "i \<in> bits (w # bm) \<longleftrightarrow> i \<in> ?A \<union> ?B"
    proof (cases "i < 32")
      case True
      then show ?thesis by (auto simp: bits_def)
    next
      case False
      then obtain k where "i = k + 32" by (metis add.commute le_Suc_ex linorder_not_less)
      moreover have "(k + 32) div 32 = Suc (k div 32)" by simp
      ultimately show ?thesis by (auto simp: bits_def image_iff)
    qed
  qed
  moreover have "?A \<inter> ?B = {}" by auto
  moreover have "finite ?A" "finite ?B" by (auto simp: bits_def)
  ultimately show ?thesis by (simp add: card_Un_disjoint card_image)
qed

lemma nset_fold: "foldl (\<lambda>count chunk. count + chunk_count chunk) c bm = c + of_nat (card (bits bm))"
proof (induction bm arbitrary: c)
  case Nil
  then show ?case by (simp add: bits_def)
next
  case (Cons w bm)
  have "chunk_count w = of_nat (card {i. i < 32 \<and> bit w i})"
    by (simp flip: chunk_count_card)
  then show ?case by (simp add: Cons.IH card_bits_Cons add.assoc)
qed

lemma card_bits_le: "card (bits bm) \<le> 32 * length bm"
  using card_mono [of "{..<32 * length bm}" "bits bm"] by (auto simp: bits_def)

section \<open>Allocation from a bitmap\<close>

locale bit_allocator =
  fixes valid :: "'b \<Rightarrow> bool" and capacity :: "'b \<Rightarrow> nat" and used :: "'b \<Rightarrow> nat set"
    and find :: "'b \<Rightarrow> nat option" and mark :: "'b \<Rightarrow> nat \<Rightarrow> 'b option"
    and unmark :: "'b \<Rightarrow> nat \<Rightarrow> 'b option"
  assumes used_bound: "valid b \<Longrightarrow> used b \<subseteq> {..<capacity b}"
    and find_Some: "valid b \<Longrightarrow> find b = Some i \<Longrightarrow>
      i < capacity b \<and> i \<notin> used b \<and> {..<i} \<subseteq> used b"
    and find_None: "valid b \<Longrightarrow> find b = None \<Longrightarrow> used b = {..<capacity b}"
    and mark_ok: "valid b \<Longrightarrow> i < capacity b \<Longrightarrow>
      \<exists>b'. mark b i = Some b' \<and> valid b' \<and> capacity b' = capacity b \<and> used b' = insert i (used b)"
    and unmark_ok: "valid b \<Longrightarrow> i < capacity b \<Longrightarrow>
      \<exists>b'. unmark b i = Some b' \<and> valid b' \<and> capacity b' = capacity b \<and> used b' = used b - {i}"
begin

definition take_bit_slot :: "'b \<Rightarrow> (nat \<times> 'b) option" where
  "take_bit_slot b = (case find b of None \<Rightarrow> None | Some i \<Rightarrow> map_option (Pair i) (mark b i))"

lemma find_iff_room: "valid b \<Longrightarrow> find b = None \<longleftrightarrow> card (used b) = capacity b"
proof -
  assume b: "valid b"
  show ?thesis
  proof (cases "find b")
    case None
    with find_None [OF b] show ?thesis by simp
  next
    case (Some i)
    have "used b \<subset> {..<capacity b}" using find_Some [OF b Some] used_bound [OF b] by blast
    then have "card (used b) < capacity b" using psubset_card_mono [of "{..<capacity b}"] by simp
    with Some show ?thesis by simp
  qed
qed

lemma take_slot_fresh:
  assumes "valid b" "take_bit_slot b = Some (i, b')"
  shows "valid b' \<and> i \<notin> used b \<and> i < capacity b \<and> used b' = insert i (used b) \<and>
    capacity b' = capacity b \<and> card (used b') = Suc (card (used b))"
proof -
  from assms(2) have f: "find b = Some i" and m: "mark b i = Some b'"
    by (auto simp: take_bit_slot_def split: option.splits)
  note i = find_Some [OF assms(1) f]
  have "finite (used b)" using used_bound [OF assms(1)] by (rule finite_subset) simp
  with i m mark_ok [OF assms(1), of i] show ?thesis by auto
qed

lemma take_slot_total: "valid b \<Longrightarrow> card (used b) < capacity b \<Longrightarrow> \<exists>i b'. take_bit_slot b = Some (i, b')"
  using find_iff_room [of b] find_Some [of b] mark_ok [of b]
  by (cases "find b") (fastforce simp: take_bit_slot_def)+

lemma take_then_unmark:
  assumes "valid b" "take_bit_slot b = Some (i, b')"
  shows "\<exists>b''. unmark b' i = Some b'' \<and> used b'' = used b"
  using take_slot_fresh [OF assms] unmark_ok [of b' i] by auto

end

definition bitmap_valid :: "bitmap_t list \<Rightarrow> bool" where
  "bitmap_valid bm \<longleftrightarrow> 32 * length bm < 2 ^ 32"

definition bitmap_find :: "bitmap_t list \<Rightarrow> nat option" where
  "bitmap_find bm = (case bitmap_first_free bm (4 * length bm) of None \<Rightarrow> None
     | Some w \<Rightarrow> if w = BITMAP_FULL then None else Some (unat w))"

lemma first_free_whole:
  assumes "bitmap_valid bm"
  shows "\<exists>w. bitmap_first_free bm (4 * length bm) = Some w \<and>
    (if bits bm = {..<32 * length bm} then w = BITMAP_FULL
     else unat w < 32 * length bm \<and> unat w \<notin> bits bm \<and> {..<unat w} \<subseteq> bits bm)"
proof -
  have "bits bm = {..<32 * length bm} \<longleftrightarrow> {..<32 * length bm} \<subseteq> bits bm" by (auto simp: bits_def)
  with first_free_from_spec [of "length bm" bm 0] assms show ?thesis
    by (simp add: bitmap_first_free_def drop_bit_eq_div bitmap_valid_def)
qed

lemma not_full_pos: "bitmap_valid bm \<Longrightarrow> unat w < 32 * length bm \<Longrightarrow> w \<noteq> BITMAP_FULL"
  by (auto simp: bitmap_valid_def BITMAP_FULL_def)

interpretation bitmaps: bit_allocator bitmap_valid "\<lambda>bm. 32 * length bm" bits bitmap_find
  "\<lambda>bm i. bitmap_set bm (of_nat i)" "\<lambda>bm i. bitmap_clear bm (of_nat i)"
proof
  fix bm :: "bitmap_t list" and i :: nat
  assume v: "bitmap_valid bm"
  show "bits bm \<subseteq> {..<32 * length bm}" by (auto simp: bits_def)
  show "i < 32 * length bm \<and> i \<notin> bits bm \<and> {..<i} \<subseteq> bits bm" if "bitmap_find bm = Some i"
    using that first_free_whole [OF v] not_full_pos [OF v]
    by (auto simp: bitmap_find_def split: if_splits)
  show "bits bm = {..<32 * length bm}" if "bitmap_find bm = None"
    using that first_free_whole [OF v] not_full_pos [OF v]
    by (auto simp: bitmap_find_def split: if_splits)
  assume i: "i < 32 * length bm"
  have u: "unat (of_nat i :: bitmap_t) = i"
    using i v by (intro unat_of_nat_lt) (simp add: bitmap_valid_def)
  show "\<exists>b'. bitmap_set bm (of_nat i) = Some b' \<and> bitmap_valid b' \<and>
      32 * length b' = 32 * length bm \<and> bits b' = insert i (bits bm)"
    using bitmap_set_bits [of "of_nat i" bm] i v unfolding u bitmap_valid_def by metis
  show "\<exists>b'. bitmap_clear bm (of_nat i) = Some b' \<and> bitmap_valid b' \<and>
      32 * length b' = 32 * length bm \<and> bits b' = bits bm - {i}"
    using bitmap_clear_bits [of "of_nat i" bm] i v unfolding u bitmap_valid_def by metis
qed

section \<open>Properties\<close>

text \<open>
  For a bitmap of fewer than \<open>2 ^ 32\<close> bits, \<open>bitmap_first_free\<close> stays inside the array and
  returns the least clear position, or \<open>BITMAP_FULL\<close> exactly when every bit is set; setting the
  position it returned changes that bit alone, and clearing it again restores the bitmap's bits.
\<close>

theorem bitmap_first_free_correct:
  assumes "32 * length bm < 2 ^ 32"
  shows "\<exists>w. bitmap_first_free bm (4 * length bm) = Some w \<and>
    (w = BITMAP_FULL \<longleftrightarrow> bits bm = {..<32 * length bm}) \<and>
    (w \<noteq> BITMAP_FULL \<longrightarrow> unat w < 32 * length bm \<and> unat w \<notin> bits bm \<and> {..<unat w} \<subseteq> bits bm \<and>
      (\<exists>bm' bm''. bitmap_set bm w = Some bm' \<and> bits bm' = insert (unat w) (bits bm) \<and>
         bitmap_clear bm' w = Some bm'' \<and> bits bm'' = bits bm))"
proof -
  have v: "bitmap_valid bm" using assms by (simp add: bitmap_valid_def)
  obtain w where w: "bitmap_first_free bm (4 * length bm) = Some w" and
    spec: "if bits bm = {..<32 * length bm} then w = BITMAP_FULL
      else unat w < 32 * length bm \<and> unat w \<notin> bits bm \<and> {..<unat w} \<subseteq> bits bm"
    using first_free_whole [OF v] by blast
  show ?thesis
  proof (cases "bits bm = {..<32 * length bm}")
    case True
    with w spec show ?thesis by simp
  next
    case False
    then have "find": "bitmap_find bm = Some (unat w)"
      using w spec not_full_pos [OF v, of w] by (simp add: bitmap_find_def)
    then obtain bm' where bm': "bitmap_set bm w = Some bm'"
      "bitmaps.take_bit_slot bm = Some (unat w, bm')"
      using bitmaps.mark_ok [OF v, of "unat w"] spec False by (auto simp: bitmaps.take_bit_slot_def)
    with w spec False not_full_pos [OF v, of w] bitmaps.take_slot_fresh [OF v bm'(2)]
      bitmaps.take_then_unmark [OF v bm'(2)]
    show ?thesis by auto
  qed
qed

theorem bitmap_first_free_correct_witness:
  "\<exists>w. bitmap_first_free [0xffffffff, 0x7] 8 = Some w \<and>
     (w = BITMAP_FULL \<longleftrightarrow> bits [0xffffffff, 0x7] = {..<64})"
  using bitmap_first_free_correct [of "[0xffffffff, 0x7]"] by auto

text \<open>
  C37. \<open>bitmap_nset\<close> computes the number of set bits of the bitmap, and \<open>bitmap_nclear\<close> the number
  of clear ones: the word-parallel counting trick of the source agrees with the cardinality of
  the set of positions that are set.
\<close>

theorem bitmap_nset_counts:
  "bitmap_nset bm (4 * length bm) = Some (of_nat (card (bits bm))) \<and>
   bitmap_nclear bm (4 * length bm) = Some (of_nat (card ({..<32 * length bm} - bits bm)))"
proof -
  have "bits bm \<subseteq> {..<32 * length bm}" by (auto simp: bits_def)
  then have "card ({..<32 * length bm} - bits bm) = 32 * length bm - card (bits bm)"
    by (simp add: card_Diff_subset finite_subset)
  with card_bits_le [of bm] show ?thesis
    by (simp add: bitmap_nclear_def bitmap_nset_def nset_fold drop_bit_eq_div push_bit_eq_mult)
qed

end
