(* ===== verification/DiskLayout.thy ===== *)
theory DiskLayout
  imports Ramdisk Bitmap
begin

text \<open>
  The on-disk structures of \<open>include/fs/minix.h\<close> and their images in memory. The file system moves
  them between memory and the RAM disk as raw bytes, so the layout of the packed structures is
  what both sides agree on: fields in order, integers in the byte order of the machine, which is
  little endian on both targets that \<open>nanvix/config.h\<close> names (\<open>mppa256\<close>, \<open>unix64\<close>). The lemmas show
  that decoding inverts encoding and how reads of a disk see the writes before them.
\<close>

section \<open>Integers as bytes\<close>

definition le :: "nat \<Rightarrow> 'w :: len word \<Rightarrow> byte list" where
  "le n w = map (\<lambda>i. ucast (drop_bit (8 * i) w)) [0..<n]"

fun unle :: "byte list \<Rightarrow> 'w :: len word" where
  "unle [] = 0"
| "unle (b # bs) = ucast b OR push_bit 8 (unle bs)"

definition le_array :: "nat \<Rightarrow> 'w :: len word list \<Rightarrow> byte list" where
  "le_array n ws = concat (map (le n) ws)"

definition unle_array :: "nat \<Rightarrow> nat \<Rightarrow> byte list \<Rightarrow> 'w :: len word list" where
  "unle_array n k bs = map (\<lambda>i. unle (take n (drop (n * i) bs))) [0..<k]"

lemma length_le [simp]: "length (le n w) = n"
  by (simp add: le_def)

lemma length_le_array [simp]: "length (le_array n ws) = n * length ws"
  by (induction ws) (simp_all add: le_array_def)

lemma length_unle_array [simp]: "length (unle_array n k bs) = k"
  by (simp add: unle_array_def)

lemma bit_unle:
  "bit (unle bs :: 'w :: len word) k \<longleftrightarrow> k < LENGTH('w) \<and> k < 8 * length bs \<and> bit (bs ! (k div 8)) (k mod 8)"
proof (induction bs arbitrary: k)
  case Nil
  then show ?case by simp
next
  case (Cons b bs)
  show ?case
  proof (cases "k < 8")
    case True
    then show ?thesis by (auto simp: bit_or_iff bit_push_bit_iff bit_ucast_iff bit_simps dest: bit_imp_le_length)
  next
    case False
    then obtain j where j: "k = 8 + j" using le_Suc_ex [of 8 k] by auto
    have "bit b (8 + j) = False" using bit_imp_le_length [of b "8 + j"] by auto
    moreover have "(8 + j) div 8 = Suc (j div 8)" "(8 + j) mod 8 = j mod 8" by simp_all
    ultimately show ?thesis using Cons.IH [of j] by (auto simp: j bit_or_iff bit_push_bit_iff bit_ucast_iff)
  qed
qed

lemma unle_le [simp]:
  fixes w :: "'w :: len word"
  assumes "8 * n = LENGTH('w)"
  shows "unle (le n w) = w"
proof (rule bit_word_eqI)
  fix k
  assume k: "k < LENGTH('w)"
  then have "k div 8 < n" using assms by (simp add: div_less_iff_less_mult mult.commute)
  then show "bit (unle (le n w) :: 'w word) k = bit w k"
    using k assms by (auto simp: bit_unle le_def bit_ucast_iff bit_drop_bit_eq)
qed

lemma le_array_nth:
  "i < length ws \<Longrightarrow> take n (drop (n * i) (le_array n ws)) = le n (ws ! i)"
proof (induction ws arbitrary: i)
  case Nil
  then show ?case by simp
next
  case (Cons w ws)
  then show ?case by (cases i) (auto simp: le_array_def)
qed

lemma unle_le_array:
  fixes ws :: "'w :: len word list"
  assumes "8 * n = LENGTH('w)" "k = length ws"
  shows "unle_array n k (le_array n ws) = ws"
  by (rule nth_equalityI) (simp_all add: assms unle_array_def le_array_nth)

section \<open>Structures\<close>

type_synonym minix_block_t = "16 word"
type_synonym minix_ino_t = "16 word"

record d_superblock =
  s_ninodes :: "16 word"
  s_nblocks :: "16 word"
  s_imap_nblocks :: "16 word"
  s_bmap_nblocks :: "16 word"
  s_first_data_block :: "16 word"
  unused1 :: "16 word"
  s_max_size :: "32 word"
  s_magic :: "16 word"

record d_inode =
  i_mode :: "16 word"
  i_uid :: "16 word"
  i_size :: "32 word"
  i_time :: "32 word"
  i_gid :: byte
  i_nlinks :: byte
  i_zones :: "16 word list"

record d_dirent =
  d_ino :: "16 word"
  d_name :: string

definition MINIX_BLOCK_SIZE :: nat where "MINIX_BLOCK_SIZE = 1024"
definition MINIX_BLOCK_NULL :: minix_block_t where "MINIX_BLOCK_NULL = 0"
definition MINIX_SUPER_MAGIC :: "16 word" where "MINIX_SUPER_MAGIC = 0x137f"
definition MINIX_INODE_NULL :: minix_ino_t where "MINIX_INODE_NULL = 0"
definition MINIX_INODE_ROOT :: minix_ino_t where "MINIX_INODE_ROOT = 1"
definition MINIX_NR_ZONES_DIRECT :: nat where "MINIX_NR_ZONES_DIRECT = 7"
definition MINIX_NR_ZONES :: nat where "MINIX_NR_ZONES = 9"
definition MINIX_ZONE_SINGLE :: nat where "MINIX_ZONE_SINGLE = MINIX_NR_ZONES_DIRECT"
definition MINIX_NR_SINGLE :: nat where "MINIX_NR_SINGLE = 512"
definition MINIX_NAME_MAX :: nat where "MINIX_NAME_MAX = 14"
definition MINIX_BLOCK_BIT_LENGTH :: nat where "MINIX_BLOCK_BIT_LENGTH = 8 * MINIX_BLOCK_SIZE"

text \<open>The sizes \<open>sizeof\<close> gives for the packed structures.\<close>

definition SUPER_SIZE :: nat where "SUPER_SIZE = 18"
definition INODE_SIZE :: nat where "INODE_SIZE = 32"
definition DIRENT_SIZE :: nat where "DIRENT_SIZE = 16"

lemmas minix_consts = MINIX_BLOCK_SIZE_def MINIX_BLOCK_NULL_def MINIX_INODE_NULL_def MINIX_INODE_ROOT_def
  MINIX_NR_ZONES_DIRECT_def MINIX_NR_ZONES_def MINIX_ZONE_SINGLE_def MINIX_NR_SINGLE_def MINIX_NAME_MAX_def
  MINIX_BLOCK_BIT_LENGTH_def SUPER_SIZE_def INODE_SIZE_def DIRENT_SIZE_def

definition enc_super :: "d_superblock \<Rightarrow> byte list" where
  "enc_super s = le 2 (s_ninodes s) @ le 2 (s_nblocks s) @ le 2 (s_imap_nblocks s) @ le 2 (s_bmap_nblocks s) @
     le 2 (s_first_data_block s) @ le 2 (unused1 s) @ le 4 (s_max_size s) @ le 2 (s_magic s)"

definition dec_super :: "byte list \<Rightarrow> d_superblock" where
  "dec_super b = \<lparr>s_ninodes = unle (take 2 b), s_nblocks = unle (take 2 (drop 2 b)),
     s_imap_nblocks = unle (take 2 (drop 4 b)), s_bmap_nblocks = unle (take 2 (drop 6 b)),
     s_first_data_block = unle (take 2 (drop 8 b)), unused1 = unle (take 2 (drop 10 b)),
     s_max_size = unle (take 4 (drop 12 b)), s_magic = unle (take 2 (drop 16 b))\<rparr>"

definition enc_inode :: "d_inode \<Rightarrow> byte list" where
  "enc_inode p = le 2 (i_mode p) @ le 2 (i_uid p) @ le 4 (i_size p) @ le 4 (i_time p) @
     [i_gid p, i_nlinks p] @ le_array 2 (i_zones p)"

definition dec_inode :: "byte list \<Rightarrow> d_inode" where
  "dec_inode b = \<lparr>i_mode = unle (take 2 b), i_uid = unle (take 2 (drop 2 b)), i_size = unle (take 4 (drop 4 b)),
     i_time = unle (take 4 (drop 8 b)), i_gid = b ! 12, i_nlinks = b ! 13,
     i_zones = unle_array 2 MINIX_NR_ZONES (drop 14 b)\<rparr>"

definition char_byte :: "char \<Rightarrow> byte" where "char_byte c = of_nat (of_char c)"
definition byte_char :: "byte \<Rightarrow> char" where "byte_char b = char_of (unat b)"

definition enc_dirent :: "d_dirent \<Rightarrow> byte list" where
  "enc_dirent d = le 2 (d_ino d) @ map char_byte (d_name d)"

definition dec_dirent :: "byte list \<Rightarrow> d_dirent" where
  "dec_dirent b = \<lparr>d_ino = unle (take 2 b), d_name = map byte_char (take MINIX_NAME_MAX (drop 2 b))\<rparr>"

lemma byte_char_byte [simp]: "byte_char (char_byte c) = c"
  by (simp add: byte_char_def char_byte_def unat_of_nat_lt)

lemma dec_enc_super [simp]: "dec_super (enc_super s) = s"
  by (simp add: dec_super_def enc_super_def)

lemma length_enc_super [simp]: "length (enc_super s) = SUPER_SIZE"
  by (simp add: enc_super_def SUPER_SIZE_def)

definition inode_wf :: "d_inode \<Rightarrow> bool" where
  "inode_wf p \<longleftrightarrow> length (i_zones p) = MINIX_NR_ZONES"

lemma dec_enc_inode [simp]: "inode_wf p \<Longrightarrow> dec_inode (enc_inode p) = p"
  by (simp add: dec_inode_def enc_inode_def inode_wf_def unle_le_array nth_append)

lemma length_enc_inode [simp]: "inode_wf p \<Longrightarrow> length (enc_inode p) = INODE_SIZE"
  by (simp add: enc_inode_def inode_wf_def minix_consts)

lemma dec_inode_wf [simp]: "inode_wf (dec_inode b)"
  by (simp add: dec_inode_def inode_wf_def)

lemma dec_enc_dirent [simp]: "length (d_name d) = MINIX_NAME_MAX \<Longrightarrow> dec_dirent (enc_dirent d) = d"
  by (simp add: dec_dirent_def enc_dirent_def comp_def)

lemma length_enc_dirent [simp]: "length (d_name d) = MINIX_NAME_MAX \<Longrightarrow> length (enc_dirent d) = DIRENT_SIZE"
  by (simp add: enc_dirent_def minix_consts)

section \<open>Byte ranges of the disk\<close>

definition disk_get :: "disks \<Rightarrow> nat \<Rightarrow> nat \<Rightarrow> byte list" where
  "disk_get ds off n = take n (drop off (ds ! 0))"

definition disk_put :: "disks \<Rightarrow> nat \<Rightarrow> byte list \<Rightarrow> disks" where
  "disk_put ds off b = ds[0 := take off (ds ! 0) @ b @ drop (off + length b) (ds ! 0)]"

lemma ramdisk_check_nat:
  "ramdisk_check dev False n (int off) \<longleftrightarrow> dev = 0 \<and> off < NANVIX_RAMDISK_SIZE \<and> off + n \<le> NANVIX_RAMDISK_SIZE"
  by (auto simp: ramdisk_check_def NANVIX_NR_RAMDISKS_def)

lemma ramdisk_read_get:
  "ramdisk_read ds dev False n (int off) =
     (if dev = 0 \<and> off < NANVIX_RAMDISK_SIZE \<and> off + n \<le> NANVIX_RAMDISK_SIZE
      then Inr (int n, disk_get ds off n) else Inl EINVAL)"
  by (auto simp: ramdisk_read_def ramdisk_check_nat disk_get_def)

lemma ramdisk_write_put:
  "length b = n \<Longrightarrow> ramdisk_write ds dev (Some b) n (int off) =
     (if dev = 0 \<and> off < NANVIX_RAMDISK_SIZE \<and> off + n \<le> NANVIX_RAMDISK_SIZE
      then (Inr (int n), disk_put ds off b) else (Inl EINVAL, ds))"
  by (auto simp: ramdisk_write_def ramdisk_check_nat disk_put_def Let_def)

lemma disks_ok_0: "disks_ok ds \<Longrightarrow> length (ds ! 0) = NANVIX_RAMDISK_SIZE \<and> 0 < length ds"
  by (auto simp: disks_ok_def NANVIX_NR_RAMDISKS_def)

lemma length_disk_get [simp]:
  "disks_ok ds \<Longrightarrow> off + n \<le> NANVIX_RAMDISK_SIZE \<Longrightarrow> length (disk_get ds off n) = n"
  using disks_ok_0 [of ds] by (simp add: disk_get_def)

lemma disk_put_ok [simp]:
  assumes "disks_ok ds" "off + length b \<le> NANVIX_RAMDISK_SIZE"
  shows "disks_ok (disk_put ds off b)"
proof -
  let ?e = "take off (ds ! 0) @ b @ drop (off + length b) (ds ! 0)"
  have "length ?e = NANVIX_RAMDISK_SIZE" using assms disks_ok_0 [of ds] by simp
  then show ?thesis
    using assms(1) set_update_subset_insert [of ds 0 ?e] by (auto simp: disks_ok_def disk_put_def)
qed

lemma disk_put_nth:
  assumes "disks_ok ds" "off + length b \<le> NANVIX_RAMDISK_SIZE" "i < NANVIX_RAMDISK_SIZE"
  shows "disk_put ds off b ! 0 ! i = (if off \<le> i \<and> i < off + length b then b ! (i - off) else ds ! 0 ! i)"
  using splice_nth [of off "length b" "ds ! 0" b i] assms disks_ok_0 [of ds] by (simp add: disk_put_def)

lemma disk_get_nth:
  "disks_ok ds \<Longrightarrow> off + n \<le> NANVIX_RAMDISK_SIZE \<Longrightarrow> i < n \<Longrightarrow> disk_get ds off n ! i = ds ! 0 ! (off + i)"
  using disks_ok_0 [of ds] by (simp add: disk_get_def)

lemma disk_get_put_same:
  "disks_ok ds \<Longrightarrow> off + length b \<le> NANVIX_RAMDISK_SIZE \<Longrightarrow> n = length b \<Longrightarrow> disk_get (disk_put ds off b) off n = b"
  by (rule nth_equalityI) (simp_all add: disk_get_nth disk_put_nth)

lemma disk_get_put_other:
  assumes "disks_ok ds" "off + length b \<le> NANVIX_RAMDISK_SIZE" "o' + n \<le> NANVIX_RAMDISK_SIZE"
    and "o' + n \<le> off \<or> off + length b \<le> o'"
  shows "disk_get (disk_put ds off b) o' n = disk_get ds o' n"
  by (rule nth_equalityI) (use assms in \<open>auto simp: disk_get_nth disk_put_nth\<close>)

text \<open>A read inside a range that was written, as one sees a field of a structure.\<close>

lemma disk_get_put_inside:
  assumes "disks_ok ds" "off + length b \<le> NANVIX_RAMDISK_SIZE" "off \<le> o'" "o' + n \<le> off + length b"
  shows "disk_get (disk_put ds off b) o' n = take n (drop (o' - off) b)"
  by (rule nth_equalityI) (use assms in \<open>auto simp: disk_get_nth disk_put_nth\<close>)

end
