(* ===== verification/Resource.thy ===== *)
theory Resource
  imports Prelude
begin

text \<open>
  The interface of \<open>nanvix/hal/resource.h\<close>, the hardware abstraction layer's status flags and
  resource pools. The header is not part of the repository, so its operations are a parameter
  of every definition that uses them: a record of functions over an opaque flag type \<open>'r\<close>.
  \<^term>\<open>resource_laws\<close> collects what the sources rely on: each setter changes the observers it
  is named after and no other, \<open>RESOURCE_INITIALIZER\<close> is a clear entry, \<open>resource_alloc\<close> gives an
  unused entry and marks it used or fails when none is left, and \<open>resource_free\<close> leaves an
  entry unused. \<^term>\<open>plain_resource\<close> is an instance of the laws over a record of booleans.
\<close>

record flags =
  f_used :: bool
  f_busy :: bool
  f_mapped :: bool
  f_readable :: bool
  f_writable :: bool
  f_dirty :: bool
  f_valid :: bool

record 'r resource_ops =
  resource_initializer :: 'r
  resource_is_used :: "'r \<Rightarrow> bool"
  resource_is_busy :: "'r \<Rightarrow> bool"
  resource_is_mapped :: "'r \<Rightarrow> bool"
  resource_is_readable :: "'r \<Rightarrow> bool"
  resource_is_writable :: "'r \<Rightarrow> bool"
  resource_is_dirty :: "'r \<Rightarrow> bool"
  resource_is_valid :: "'r \<Rightarrow> bool"
  resource_is_rdonly :: "'r \<Rightarrow> bool"
  resource_is_wronly :: "'r \<Rightarrow> bool"
  resource_set_used :: "'r \<Rightarrow> 'r"
  resource_set_unused :: "'r \<Rightarrow> 'r"
  resource_set_busy :: "'r \<Rightarrow> 'r"
  resource_set_notbusy :: "'r \<Rightarrow> 'r"
  resource_set_rdonly :: "'r \<Rightarrow> 'r"
  resource_set_wronly :: "'r \<Rightarrow> 'r"
  resource_set_rdwr :: "'r \<Rightarrow> 'r"
  resource_set_dirty :: "'r \<Rightarrow> 'r"
  resource_set_clean :: "'r \<Rightarrow> 'r"
  resource_set_valid :: "'r \<Rightarrow> 'r"
  resource_set_invalid :: "'r \<Rightarrow> 'r"
  resource_alloc :: "'r list \<Rightarrow> (nat \<times> 'r) option"
  resource_free :: "'r \<Rightarrow> 'r"

text \<open>
  \<open>resource_alloc R\<close> reads the flags of a pool's entries and gives the index of the entry it
  allocates with its new flags; \<open>resource_free R\<close> gives the flags of the entry it releases.
\<close>

definition resource_view :: "'r resource_ops \<Rightarrow> 'r \<Rightarrow> flags" where
  "resource_view R r =
     \<lparr>f_used = resource_is_used R r, f_busy = resource_is_busy R r,
      f_mapped = resource_is_mapped R r, f_readable = resource_is_readable R r,
      f_writable = resource_is_writable R r, f_dirty = resource_is_dirty R r,
      f_valid = resource_is_valid R r\<rparr>"

definition resource_setter_laws :: "'r resource_ops \<Rightarrow> bool" where
  "resource_setter_laws R \<longleftrightarrow> (\<forall>r.
     resource_view R (resource_set_used R r) = (resource_view R r)\<lparr>f_used := True\<rparr> \<and>
     resource_view R (resource_set_unused R r) = (resource_view R r)\<lparr>f_used := False\<rparr> \<and>
     resource_view R (resource_set_busy R r) = (resource_view R r)\<lparr>f_busy := True\<rparr> \<and>
     resource_view R (resource_set_notbusy R r) = (resource_view R r)\<lparr>f_busy := False\<rparr> \<and>
     resource_view R (resource_set_rdonly R r) =
       (resource_view R r)\<lparr>f_readable := True, f_writable := False\<rparr> \<and>
     resource_view R (resource_set_wronly R r) =
       (resource_view R r)\<lparr>f_readable := False, f_writable := True\<rparr> \<and>
     resource_view R (resource_set_rdwr R r) =
       (resource_view R r)\<lparr>f_readable := True, f_writable := True\<rparr> \<and>
     resource_view R (resource_set_dirty R r) = (resource_view R r)\<lparr>f_dirty := True\<rparr> \<and>
     resource_view R (resource_set_clean R r) = (resource_view R r)\<lparr>f_dirty := False\<rparr> \<and>
     resource_view R (resource_set_valid R r) = (resource_view R r)\<lparr>f_valid := True\<rparr> \<and>
     resource_view R (resource_set_invalid R r) = (resource_view R r)\<lparr>f_valid := False\<rparr>)"

definition resource_mode_laws :: "'r resource_ops \<Rightarrow> bool" where
  "resource_mode_laws R \<longleftrightarrow> (\<forall>r.
     resource_is_rdonly R r = (resource_is_readable R r \<and> \<not> resource_is_writable R r) \<and>
     resource_is_wronly R r = (\<not> resource_is_readable R r \<and> resource_is_writable R r))"

definition resource_initializer_laws :: "'r resource_ops \<Rightarrow> bool" where
  "resource_initializer_laws R \<longleftrightarrow>
     \<not> resource_is_used R (resource_initializer R) \<and>
     \<not> resource_is_busy R (resource_initializer R) \<and>
     \<not> resource_is_dirty R (resource_initializer R) \<and>
     \<not> resource_is_valid R (resource_initializer R)"

definition resource_pool_laws :: "'r resource_ops \<Rightarrow> bool" where
  "resource_pool_laws R \<longleftrightarrow>
     (\<forall>rs. resource_alloc R rs = None \<longleftrightarrow> (\<forall>r\<in>set rs. resource_is_used R r)) \<and>
     (\<forall>rs i r. resource_alloc R rs = Some (i, r) \<longrightarrow>
        i < length rs \<and> \<not> resource_is_used R (rs ! i) \<and> resource_is_used R r) \<and>
     (\<forall>r. \<not> resource_is_used R (resource_free R r))"

definition resource_laws :: "'r resource_ops \<Rightarrow> bool" where
  "resource_laws R \<longleftrightarrow>
     resource_setter_laws R \<and> resource_mode_laws R \<and> resource_initializer_laws R \<and> resource_pool_laws R"

lemma resource_allocD:
  assumes "resource_laws R" "resource_alloc R rs = Some (i, r)"
  shows "i < length rs" "\<not> resource_is_used R (rs ! i)" "resource_is_used R r"
  using assms unfolding resource_laws_def resource_pool_laws_def by blast+

lemma resource_alloc_NoneD:
  "resource_laws R \<Longrightarrow> resource_alloc R rs = None \<longleftrightarrow> (\<forall>r\<in>set rs. resource_is_used R r)"
  by (simp add: resource_laws_def resource_pool_laws_def)

lemma resource_free_unused [simp]:
  "resource_laws R \<Longrightarrow> \<not> resource_is_used R (resource_free R r)"
  by (simp add: resource_laws_def resource_pool_laws_def)

lemma resource_initializer_clear [simp]:
  assumes "resource_laws R"
  shows "\<not> resource_is_used R (resource_initializer R)"
    and "\<not> resource_is_busy R (resource_initializer R)"
    and "\<not> resource_is_dirty R (resource_initializer R)"
    and "\<not> resource_is_valid R (resource_initializer R)"
  using assms by (simp_all add: resource_laws_def resource_initializer_laws_def)

lemma resource_view_sel:
  "resource_is_used R r = f_used (resource_view R r)"
  "resource_is_busy R r = f_busy (resource_view R r)"
  "resource_is_mapped R r = f_mapped (resource_view R r)"
  "resource_is_readable R r = f_readable (resource_view R r)"
  "resource_is_writable R r = f_writable (resource_view R r)"
  "resource_is_dirty R r = f_dirty (resource_view R r)"
  "resource_is_valid R r = f_valid (resource_view R r)"
  by (simp_all add: resource_view_def)

lemma resource_views:
  assumes "resource_laws R"
  shows
    "resource_view R (resource_set_used R r) = (resource_view R r)\<lparr>f_used := True\<rparr>"
    "resource_view R (resource_set_unused R r) = (resource_view R r)\<lparr>f_used := False\<rparr>"
    "resource_view R (resource_set_busy R r) = (resource_view R r)\<lparr>f_busy := True\<rparr>"
    "resource_view R (resource_set_notbusy R r) = (resource_view R r)\<lparr>f_busy := False\<rparr>"
    "resource_view R (resource_set_rdonly R r) =
       (resource_view R r)\<lparr>f_readable := True, f_writable := False\<rparr>"
    "resource_view R (resource_set_wronly R r) =
       (resource_view R r)\<lparr>f_readable := False, f_writable := True\<rparr>"
    "resource_view R (resource_set_rdwr R r) =
       (resource_view R r)\<lparr>f_readable := True, f_writable := True\<rparr>"
    "resource_view R (resource_set_dirty R r) = (resource_view R r)\<lparr>f_dirty := True\<rparr>"
    "resource_view R (resource_set_clean R r) = (resource_view R r)\<lparr>f_dirty := False\<rparr>"
    "resource_view R (resource_set_valid R r) = (resource_view R r)\<lparr>f_valid := True\<rparr>"
    "resource_view R (resource_set_invalid R r) = (resource_view R r)\<lparr>f_valid := False\<rparr>"
  using assms unfolding resource_laws_def resource_setter_laws_def by blast+

lemma resource_setters:
  assumes "resource_laws R"
  shows
    "resource_is_used R (resource_set_used R r)"
    "resource_is_dirty R (resource_set_used R r) = resource_is_dirty R r"
    "resource_is_valid R (resource_set_used R r) = resource_is_valid R r"
    "\<not> resource_is_used R (resource_set_unused R r)"
    "resource_is_dirty R (resource_set_unused R r) = resource_is_dirty R r"
    "resource_is_valid R (resource_set_unused R r) = resource_is_valid R r"
    "resource_is_dirty R (resource_set_dirty R r)"
    "resource_is_used R (resource_set_dirty R r) = resource_is_used R r"
    "resource_is_valid R (resource_set_dirty R r) = resource_is_valid R r"
    "\<not> resource_is_dirty R (resource_set_clean R r)"
    "resource_is_used R (resource_set_clean R r) = resource_is_used R r"
    "resource_is_valid R (resource_set_clean R r) = resource_is_valid R r"
    "resource_is_valid R (resource_set_valid R r)"
    "resource_is_used R (resource_set_valid R r) = resource_is_used R r"
    "resource_is_dirty R (resource_set_valid R r) = resource_is_dirty R r"
    "\<not> resource_is_valid R (resource_set_invalid R r)"
    "resource_is_used R (resource_set_invalid R r) = resource_is_used R r"
    "resource_is_dirty R (resource_set_invalid R r) = resource_is_dirty R r"
  by (simp_all add: resource_view_sel resource_views [OF assms])

lemma resource_mode_setters:
  assumes "resource_laws R"
  shows
    "resource_is_busy R (resource_set_busy R r)"
    "resource_is_used R (resource_set_busy R r) = resource_is_used R r"
    "resource_is_writable R (resource_set_busy R r) = resource_is_writable R r"
    "\<not> resource_is_busy R (resource_set_notbusy R r)"
    "resource_is_used R (resource_set_notbusy R r) = resource_is_used R r"
    "resource_is_writable R (resource_set_notbusy R r) = resource_is_writable R r"
    "resource_is_busy R (resource_set_rdonly R r) = resource_is_busy R r"
    "resource_is_used R (resource_set_rdonly R r) = resource_is_used R r"
    "\<not> resource_is_writable R (resource_set_rdonly R r)"
    "resource_is_busy R (resource_set_rdwr R r) = resource_is_busy R r"
    "resource_is_used R (resource_set_rdwr R r) = resource_is_used R r"
    "resource_is_writable R (resource_set_rdwr R r)"
    "resource_is_mapped R (resource_set_busy R r) = resource_is_mapped R r"
    "resource_is_mapped R (resource_set_rdonly R r) = resource_is_mapped R r"
    "resource_is_mapped R (resource_set_rdwr R r) = resource_is_mapped R r"
  by (simp_all add: resource_view_sel resource_views [OF assms])

lemma resource_modes:
  assumes "resource_laws R"
  shows
    "resource_is_rdonly R r \<longleftrightarrow> resource_is_readable R r \<and> \<not> resource_is_writable R r"
    "resource_is_wronly R r \<longleftrightarrow> \<not> resource_is_readable R r \<and> resource_is_writable R r"
    "resource_is_used R (resource_set_wronly R r) = resource_is_used R r"
    "resource_is_readable R (resource_set_rdonly R r)"
    "\<not> resource_is_readable R (resource_set_wronly R r)"
    "resource_is_writable R (resource_set_wronly R r)"
proof -
  show "resource_is_rdonly R r \<longleftrightarrow> resource_is_readable R r \<and> \<not> resource_is_writable R r"
    "resource_is_wronly R r \<longleftrightarrow> \<not> resource_is_readable R r \<and> resource_is_writable R r"
    using assms by (simp_all add: resource_laws_def resource_mode_laws_def)
qed (simp_all add: resource_view_sel resource_views [OF assms])

declare resource_setters [simp] resource_mode_setters [simp]

section \<open>An instance of the laws\<close>

definition plain_alloc :: "flags list \<Rightarrow> (nat \<times> flags) option" where
  "plain_alloc rs = map_option (\<lambda>i. (i, (rs ! i)\<lparr>f_used := True\<rparr>))
     (first_index (\<lambda>r. \<not> f_used r) rs)"

definition plain_clear :: flags where
  "plain_clear = \<lparr>f_used = False, f_busy = False, f_mapped = False, f_readable = False,
     f_writable = False, f_dirty = False, f_valid = False\<rparr>"

definition plain_resource :: "flags resource_ops" where
  "plain_resource =
     \<lparr>resource_initializer = plain_clear,
      resource_is_used = f_used, resource_is_busy = f_busy, resource_is_mapped = f_mapped,
      resource_is_readable = f_readable, resource_is_writable = f_writable,
      resource_is_dirty = f_dirty, resource_is_valid = f_valid,
      resource_is_rdonly = (\<lambda>r. f_readable r \<and> \<not> f_writable r),
      resource_is_wronly = (\<lambda>r. \<not> f_readable r \<and> f_writable r),
      resource_set_used = f_used_update (\<lambda>_. True),
      resource_set_unused = f_used_update (\<lambda>_. False),
      resource_set_busy = f_busy_update (\<lambda>_. True),
      resource_set_notbusy = f_busy_update (\<lambda>_. False),
      resource_set_rdonly = (\<lambda>r. r\<lparr>f_readable := True, f_writable := False\<rparr>),
      resource_set_wronly = (\<lambda>r. r\<lparr>f_readable := False, f_writable := True\<rparr>),
      resource_set_rdwr = (\<lambda>r. r\<lparr>f_readable := True, f_writable := True\<rparr>),
      resource_set_dirty = f_dirty_update (\<lambda>_. True),
      resource_set_clean = f_dirty_update (\<lambda>_. False),
      resource_set_valid = f_valid_update (\<lambda>_. True),
      resource_set_invalid = f_valid_update (\<lambda>_. False),
      resource_alloc = plain_alloc,
      resource_free = (\<lambda>_. plain_clear)\<rparr>"

lemma plain_resource_sel [simp]:
  "resource_initializer plain_resource = plain_clear"
  "resource_is_used plain_resource = f_used"
  "resource_is_busy plain_resource = f_busy"
  "resource_is_mapped plain_resource = f_mapped"
  "resource_is_readable plain_resource = f_readable"
  "resource_is_writable plain_resource = f_writable"
  "resource_is_dirty plain_resource = f_dirty"
  "resource_is_valid plain_resource = f_valid"
  "resource_is_rdonly plain_resource r \<longleftrightarrow> f_readable r \<and> \<not> f_writable r"
  "resource_is_wronly plain_resource r \<longleftrightarrow> \<not> f_readable r \<and> f_writable r"
  "resource_set_used plain_resource r = r\<lparr>f_used := True\<rparr>"
  "resource_set_unused plain_resource r = r\<lparr>f_used := False\<rparr>"
  "resource_set_busy plain_resource r = r\<lparr>f_busy := True\<rparr>"
  "resource_set_notbusy plain_resource r = r\<lparr>f_busy := False\<rparr>"
  "resource_set_rdonly plain_resource r = r\<lparr>f_readable := True, f_writable := False\<rparr>"
  "resource_set_wronly plain_resource r = r\<lparr>f_readable := False, f_writable := True\<rparr>"
  "resource_set_rdwr plain_resource r = r\<lparr>f_readable := True, f_writable := True\<rparr>"
  "resource_set_dirty plain_resource r = r\<lparr>f_dirty := True\<rparr>"
  "resource_set_clean plain_resource r = r\<lparr>f_dirty := False\<rparr>"
  "resource_set_valid plain_resource r = r\<lparr>f_valid := True\<rparr>"
  "resource_set_invalid plain_resource r = r\<lparr>f_valid := False\<rparr>"
  "resource_alloc plain_resource = plain_alloc"
  "resource_free plain_resource r = plain_clear"
  by (simp_all add: plain_resource_def)

lemma plain_view: "resource_view plain_resource r = r"
  by (simp add: resource_view_def)

lemma plain_alloc_None: "plain_alloc rs = None \<longleftrightarrow> (\<forall>r\<in>set rs. f_used r)"
  by (simp add: plain_alloc_def first_index_None_iff all_set_conv_all_nth)

lemma plain_alloc_Some:
  assumes "plain_alloc rs = Some (i, r)"
  shows "i < length rs" "\<not> f_used (rs ! i)" "f_used r"
  using assms by (auto simp: plain_alloc_def first_index_Some_iff)

lemma plain_resource_laws [simp]: "resource_laws plain_resource"
  unfolding resource_laws_def
proof (intro conjI)
  show "resource_setter_laws plain_resource"
    by (simp add: resource_setter_laws_def plain_view)
  show "resource_mode_laws plain_resource"
    by (simp add: resource_mode_laws_def)
  show "resource_initializer_laws plain_resource"
    by (simp add: resource_initializer_laws_def plain_clear_def)
  show "resource_pool_laws plain_resource"
    unfolding resource_pool_laws_def plain_resource_sel
    by (intro conjI allI impI plain_alloc_None) (auto simp: plain_clear_def dest: plain_alloc_Some)
qed

end
