(* ===== verification/Minix.thy ===== *)
theory Minix
  imports DiskLayout Resource
begin

text \<open>
  The MINIX file system of \<open>src/sys/fs/vfs/minix/\<close>: the super block (\<open>super.c\<close>), disk blocks
  (\<open>block.c\<close>) and disk inodes (\<open>inode.c\<close>). The functions take the super block and the maps by pointer;
  \<open>None\<close> is the \<open>NULL\<close> pointer, which most of them refuse, and what they store through a pointer is
  returned. \<open>umalloc_ok\<close> says whether the allocator of the user library grants a size. The last
  sections show that what is written is read back, that inodes and blocks do not overlap, and what
  allocation gives.
\<close>

section \<open>Super block\<close>

type_synonym bitmap_ptr = "bitmap_t list option"

definition minix_super_ok :: "d_superblock option \<Rightarrow> bool" where
  "minix_super_ok sb = (case sb of None \<Rightarrow> False | Some s \<Rightarrow> s_magic s = MINIX_SUPER_MAGIC)"

definition map_size :: "16 word \<Rightarrow> nat" where
  "map_size nblocks = unat nblocks * MINIX_BLOCK_SIZE"

text \<open>
  \<open>locations\<close> is whether all three places for the results are given. A failed call stores nothing
  its callers look at.
\<close>

definition minix_super_read :: "(nat \<Rightarrow> bool) \<Rightarrow> disks \<Rightarrow> nat \<Rightarrow> bool \<Rightarrow>
    errno + (d_superblock \<times> bitmap_t list \<times> bitmap_t list)" where
  "minix_super_read umalloc_ok ds dev locations =
     (if \<not> locations then Inl EINVAL
      else case ramdisk_read ds dev False SUPER_SIZE (int MINIX_BLOCK_SIZE) of
        Inl e \<Rightarrow> Inl e
      | Inr (_, b) \<Rightarrow>
          (let sb = dec_super b; ni = map_size (s_imap_nblocks sb); nz = map_size (s_bmap_nblocks sb) in
           if s_magic sb \<noteq> MINIX_SUPER_MAGIC then Inl EINVAL
           else if \<not> umalloc_ok ni then Inl ENOMEM
           else case ramdisk_read ds dev False ni (int (2 * MINIX_BLOCK_SIZE)) of
             Inl e \<Rightarrow> Inl e
           | Inr (_, bi) \<Rightarrow>
               if \<not> umalloc_ok nz then Inl ENOMEM
               else case ramdisk_read ds dev False nz (int ((2 + unat (s_imap_nblocks sb)) * MINIX_BLOCK_SIZE)) of
                 Inl e \<Rightarrow> Inl e
               | Inr (_, bz) \<Rightarrow> Inr (sb, unle_array 4 (nz div 4) bz, unle_array 4 (ni div 4) bi)))"

definition minix_super_write :: "disks \<Rightarrow> nat \<Rightarrow> d_superblock option \<Rightarrow> bitmap_ptr \<Rightarrow> bitmap_ptr \<Rightarrow> int result \<times> disks" where
  "minix_super_write ds dev sb zmap imap =
     (case (sb, zmap, imap) of
        (Some s, Some z, Some m) \<Rightarrow>
          (case ramdisk_write ds dev (Some (enc_super s)) SUPER_SIZE (int MINIX_BLOCK_SIZE) of
             (Inl e, ds1) \<Rightarrow> (Inl e, ds1)
           | (Inr _, ds1) \<Rightarrow>
               if s_magic s \<noteq> MINIX_SUPER_MAGIC then (Inl EINVAL, ds1)
               else case ramdisk_write ds1 dev (Some (le_array 4 m)) (map_size (s_imap_nblocks s)) (int (2 * MINIX_BLOCK_SIZE)) of
                 (Inl e, ds2) \<Rightarrow> (Inl e, ds2)
               | (Inr _, ds2) \<Rightarrow>
                   (case ramdisk_write ds2 dev (Some (le_array 4 z)) (map_size (s_bmap_nblocks s))
                           (int ((2 + unat (s_imap_nblocks s)) * MINIX_BLOCK_SIZE)) of
                      (Inl e, ds3) \<Rightarrow> (Inl e, ds3)
                    | (Inr _, ds3) \<Rightarrow> (Inr 0, ds3)))
      | _ \<Rightarrow> (Inl EINVAL, ds))"

section \<open>Disk blocks\<close>

definition minix_block_alloc :: "d_superblock option \<Rightarrow> bitmap_ptr \<Rightarrow> (minix_block_t \<times> bitmap_ptr) option" where
  "minix_block_alloc sb zmap =
     (if \<not> minix_super_ok sb then Some (MINIX_BLOCK_NULL, zmap)
      else case zmap of
        None \<Rightarrow> Some (MINIX_BLOCK_NULL, zmap)
      | Some z \<Rightarrow> do {
          bit \<leftarrow> bitmap_first_free z (map_size (s_bmap_nblocks (the sb)));
          if bit = BITMAP_FULL then Some (MINIX_BLOCK_NULL, zmap)
          else do {
            z' \<leftarrow> bitmap_set z bit;
            Some (ucast (ucast (s_first_data_block (the sb)) + bit), Some z') } })"

text \<open>
  The file offset \<open>off\<close> is mapped to a block of the file \<open>ip\<close>, which is allocated when it lies in the
  file or \<open>create\<close> is set. The indirect block is read and written on device zero; a failed read would
  leave the buffer undefined, a failed write is ignored.
\<close>

definition map_direct :: "d_superblock \<Rightarrow> bitmap_ptr \<Rightarrow> d_inode \<Rightarrow> nat \<Rightarrow> bool \<Rightarrow>
    (minix_block_t \<times> bitmap_ptr \<times> d_inode) option" where
  "map_direct s zmap ip k create =
     do { z \<leftarrow> arr_get (i_zones ip) k;
          if z = MINIX_BLOCK_NULL \<and> create
          then do { (phys, zmap') \<leftarrow> minix_block_alloc (Some s) zmap;
                    Some (phys, zmap', ip\<lparr>i_zones := (i_zones ip)[k := phys]\<rparr>) }
          else Some (z, zmap, ip) }"

definition minix_block_map :: "d_superblock option \<Rightarrow> bitmap_ptr \<Rightarrow> d_inode \<Rightarrow> disks \<Rightarrow> nat \<Rightarrow> bool \<Rightarrow>
    (minix_block_t \<times> bitmap_ptr \<times> d_inode \<times> disks) option" where
  "minix_block_map sb zmap ip ds off create =
     do { s \<leftarrow> sb;
          let logic = unat (of_nat (off div MINIX_BLOCK_SIZE) :: minix_block_t);
          if s_magic s \<noteq> MINIX_SUPER_MAGIC then Some (MINIX_BLOCK_NULL, zmap, ip, ds)
          else if s_max_size s \<le> of_nat off then Some (MINIX_BLOCK_NULL, zmap, ip, ds)
          else let create = (create \<or> of_nat off < i_size ip) in
            if logic < MINIX_NR_ZONES_DIRECT
            then do { (b, zmap1, ip1) \<leftarrow> map_direct s zmap ip logic create; Some (b, zmap1, ip1, ds) }
            else let logic = logic - MINIX_NR_ZONES_DIRECT in
              if logic < MINIX_NR_SINGLE
              then do {
                (phys, zmap1, ip1) \<leftarrow> map_direct s zmap ip MINIX_ZONE_SINGLE create;
                uassert (phys \<noteq> MINIX_BLOCK_NULL);
                let pos = int (unat phys * MINIX_BLOCK_SIZE);
                bytes \<leftarrow> (case ramdisk_read ds 0 False MINIX_BLOCK_SIZE pos of Inl _ \<Rightarrow> None | Inr (_, b) \<Rightarrow> Some b);
                let buf = unle_array 2 MINIX_NR_SINGLE bytes;
                if buf ! logic = MINIX_BLOCK_NULL \<and> create
                then do {
                  (phys2, zmap2) \<leftarrow> minix_block_alloc sb zmap1;
                  let buf2 = buf[logic := phys2];
                  Some (phys2, zmap2, ip1, snd (ramdisk_write ds 0 (Some (le_array 2 buf2)) MINIX_BLOCK_SIZE pos)) }
                else Some (buf ! logic, zmap1, ip1, ds) }
              else None }"

definition minix_block_free_direct :: "d_superblock option \<Rightarrow> bitmap_ptr \<Rightarrow> minix_block_t \<Rightarrow> (int result \<times> bitmap_ptr) option" where
  "minix_block_free_direct sb zmap num =
     (if \<not> minix_super_ok sb then Some (Inl EINVAL, zmap)
      else case zmap of
        None \<Rightarrow> Some (Inl EINVAL, zmap)
      | Some z \<Rightarrow>
          if num = MINIX_BLOCK_NULL then Some (Inl EINVAL, zmap)
          else let n = num - s_first_data_block (the sb) in
            if s_nblocks (the sb) \<le> n then Some (Inl EINVAL, zmap)
            else do { z' \<leftarrow> bitmap_clear z (ucast n); Some (Inr 0, Some z') })"

fun repeat_free :: "nat \<Rightarrow> (bitmap_ptr \<Rightarrow> (int result \<times> bitmap_ptr) option) \<Rightarrow> bitmap_ptr \<Rightarrow> bitmap_ptr option" where
  "repeat_free 0 f zmap = Some zmap"
| "repeat_free (Suc n) f zmap = do { (_, zmap') \<leftarrow> f zmap; repeat_free n f zmap' }"

definition minix_block_free_indirect :: "d_superblock option \<Rightarrow> bitmap_ptr \<Rightarrow> minix_block_t \<Rightarrow> (int result \<times> bitmap_ptr) option" where
  "minix_block_free_indirect sb zmap num =
     (if \<not> minix_super_ok sb \<or> zmap = None \<or> num = MINIX_BLOCK_NULL then Some (Inl EINVAL, zmap)
      else do {
        zmap1 \<leftarrow> repeat_free MINIX_NR_SINGLE (\<lambda>z. minix_block_free_direct sb z num) zmap;
        (_, zmap2) \<leftarrow> minix_block_free_direct sb zmap1 num;
        Some (Inr 0, zmap2) })"

definition minix_block_free_dindirect :: "d_superblock option \<Rightarrow> bitmap_ptr \<Rightarrow> minix_block_t \<Rightarrow> (int result \<times> bitmap_ptr) option" where
  "minix_block_free_dindirect sb zmap num =
     (if \<not> minix_super_ok sb \<or> zmap = None \<or> num = MINIX_BLOCK_NULL then Some (Inl EINVAL, zmap)
      else do {
        zmap1 \<leftarrow> repeat_free MINIX_NR_SINGLE (\<lambda>z. minix_block_free_indirect sb z num) zmap;
        (_, zmap2) \<leftarrow> minix_block_free_direct sb zmap1 num;
        Some (Inr 0, zmap2) })"

definition minix_block_free :: "d_superblock option \<Rightarrow> bitmap_ptr \<Rightarrow> minix_block_t \<Rightarrow> int \<Rightarrow> (int result \<times> bitmap_ptr) option" where
  "minix_block_free sb zmap num lvl =
     (if \<not> minix_super_ok sb \<or> zmap = None then Some (Inl EINVAL, zmap)
      else if lvl = 0 then map_option (\<lambda>(_, z). (Inr 0, z)) (minix_block_free_direct sb zmap num)
      else if lvl = 1 then map_option (\<lambda>(_, z). (Inr 0, z)) (minix_block_free_indirect sb zmap num)
      else if lvl = 2 then map_option (\<lambda>(_, z). (Inr 0, z)) (minix_block_free_dindirect sb zmap num)
      else Some (Inl EINVAL, zmap))"

section \<open>Disk inodes\<close>

definition MINIX_INODES_PER_BLOCK :: nat where "MINIX_INODES_PER_BLOCK = MINIX_BLOCK_SIZE div INODE_SIZE"

definition minix_inode_offset :: "d_superblock \<Rightarrow> minix_ino_t \<Rightarrow> nat" where
  "minix_inode_offset s num =
     (let idx = unat num div MINIX_INODES_PER_BLOCK; off = unat num mod MINIX_INODES_PER_BLOCK in
      (2 + unat (s_imap_nblocks s) + unat (s_bmap_nblocks s) + idx) * MINIX_BLOCK_SIZE + off * INODE_SIZE)"

text \<open>Inodes are counted from one; the number is decremented first, in sixteen bits.\<close>

definition minix_inode_read :: "disks \<Rightarrow> nat \<Rightarrow> d_superblock option \<Rightarrow> minix_ino_t \<Rightarrow> d_inode result" where
  "minix_inode_read ds dev sb num =
     (if \<not> minix_super_ok sb then Inl EINVAL
      else let n = num - 1 in
        if s_ninodes (the sb) \<le> n then Inl EINVAL
        else case ramdisk_read ds dev False INODE_SIZE (int (minix_inode_offset (the sb) n)) of
          Inl _ \<Rightarrow> Inl EAGAIN
        | Inr (_, b) \<Rightarrow> Inr (dec_inode b))"

definition minix_inode_write :: "disks \<Rightarrow> nat \<Rightarrow> d_superblock option \<Rightarrow> d_inode \<Rightarrow> minix_ino_t \<Rightarrow> int result \<times> disks" where
  "minix_inode_write ds dev sb ip num =
     (if \<not> minix_super_ok sb then (Inl EINVAL, ds)
      else let n = num - 1 in
        if s_ninodes (the sb) \<le> n then (Inl EINVAL, ds)
        else case ramdisk_write ds dev (Some (enc_inode ip)) INODE_SIZE (int (minix_inode_offset (the sb) n)) of
          (Inl _, ds') \<Rightarrow> (Inl EAGAIN, ds')
        | (Inr _, ds') \<Rightarrow> (Inr 0, ds'))"

text \<open>
  A new inode. The code reads the old contents first, but then sets every field, so the result of
  that read does not matter. \<open>now\<close> is the time \<open>kclock\<close> reports.
\<close>

definition new_inode :: "16 word \<Rightarrow> 16 word \<Rightarrow> 16 word \<Rightarrow> 64 word \<Rightarrow> d_inode" where
  "new_inode mode uid gid now =
     \<lparr>i_mode = mode, i_uid = uid, i_size = 0, i_time = ucast now, i_gid = ucast gid, i_nlinks = 1,
      i_zones = replicate MINIX_NR_ZONES MINIX_BLOCK_NULL\<rparr>"

definition minix_inode_alloc :: "disks \<Rightarrow> nat \<Rightarrow> d_superblock option \<Rightarrow> bitmap_ptr \<Rightarrow> 16 word \<Rightarrow> 16 word \<Rightarrow> 16 word \<Rightarrow> 64 word \<Rightarrow>
    (minix_ino_t \<times> bitmap_ptr \<times> disks) option" where
  "minix_inode_alloc ds dev sb imap mode uid gid now =
     (if \<not> minix_super_ok sb then Some (MINIX_INODE_NULL, imap, ds)
      else case imap of
        None \<Rightarrow> Some (MINIX_INODE_NULL, imap, ds)
      | Some m \<Rightarrow> do {
          bit \<leftarrow> bitmap_first_free m (unat (s_ninodes (the sb)));
          if bit = BITMAP_FULL then Some (MINIX_INODE_NULL, imap, ds)
          else do {
            m' \<leftarrow> bitmap_set m bit;
            let num = ucast (bit + 1);
            case minix_inode_write ds dev sb (new_inode mode uid gid now) num of
              (Inl _, ds') \<Rightarrow> do { m'' \<leftarrow> bitmap_clear m' bit; Some (MINIX_INODE_NULL, Some m'', ds') }
            | (Inr _, ds') \<Rightarrow> Some (num, Some m', ds') } })"

definition minix_inode_free :: "d_superblock option \<Rightarrow> bitmap_ptr \<Rightarrow> minix_ino_t \<Rightarrow> (int result \<times> bitmap_ptr) option" where
  "minix_inode_free sb imap num =
     (if \<not> minix_super_ok sb then Some (Inl EINVAL, imap)
      else case imap of
        None \<Rightarrow> Some (Inl EINVAL, imap)
      | Some m \<Rightarrow>
          let n = num - 1 in
          if s_ninodes (the sb) \<le> n then Some (Inl EINVAL, imap)
          else do { m' \<leftarrow> bitmap_clear m (ucast n); Some (Inr 0, Some m') })"

section \<open>Layout of a file system\<close>

definition table_off :: "d_superblock \<Rightarrow> nat" where
  "table_off s = (2 + unat (s_imap_nblocks s) + unat (s_bmap_nblocks s)) * MINIX_BLOCK_SIZE"

definition data_off :: "d_superblock \<Rightarrow> nat" where
  "data_off s = unat (s_first_data_block s) * MINIX_BLOCK_SIZE"

text \<open>The table of inodes lies between the maps and the data, on the disk, and the maps are long enough.\<close>

definition super_wf :: "d_superblock \<Rightarrow> bool" where
  "super_wf s \<longleftrightarrow> s_magic s = MINIX_SUPER_MAGIC \<and>
     table_off s + INODE_SIZE * unat (s_ninodes s) \<le> data_off s \<and> data_off s \<le> NANVIX_RAMDISK_SIZE \<and>
     unat (s_ninodes s) \<le> map_size (s_imap_nblocks s) \<and> 0 < unat (s_bmap_nblocks s)"

definition map_wf :: "16 word \<Rightarrow> bitmap_t list \<Rightarrow> bool" where
  "map_wf nblocks m \<longleftrightarrow> 4 * length m = map_size nblocks"

definition ino_ok :: "d_superblock \<Rightarrow> minix_ino_t \<Rightarrow> bool" where
  "ino_ok s num \<longleftrightarrow> 0 < unat num \<and> unat num \<le> unat (s_ninodes s)"

definition ino_off :: "d_superblock \<Rightarrow> minix_ino_t \<Rightarrow> nat" where
  "ino_off s num = table_off s + INODE_SIZE * (unat num - 1)"

definition inode_at :: "disks \<Rightarrow> d_superblock \<Rightarrow> minix_ino_t \<Rightarrow> d_inode" where
  "inode_at ds s num = dec_inode (disk_get ds (ino_off s num) INODE_SIZE)"

lemma super_wf_ok [simp]: "super_wf s \<Longrightarrow> minix_super_ok (Some s)"
  by (simp add: super_wf_def minix_super_ok_def)

lemma minix_super_ok_None [simp]: "\<not> minix_super_ok None"
  by (simp add: minix_super_ok_def)

lemma unat_pred: "(w :: 16 word) \<noteq> 0 \<Longrightarrow> unat (w - 1) = unat w - 1"
  using unat_eq_0 unat_minus_one by blast

lemma ino_ok_iff: "s_ninodes s \<le> num - 1 \<longleftrightarrow> \<not> ino_ok s num"
proof (cases "num = 0")
  case True
  have "s_ninodes s \<le> - 1" by (rule word_order.extremum)
  with True show ?thesis by (simp add: ino_ok_def)
next
  case False
  moreover have "0 < unat num" using False by (simp add: unat_gt_0)
  ultimately show ?thesis by (auto simp: ino_ok_def word_le_nat_alt unat_pred)
qed

lemma minix_inode_offset_eq: "ino_ok s num \<Longrightarrow> minix_inode_offset s (num - 1) = ino_off s num"
proof -
  assume ok: "ino_ok s num"
  define k where "k = unat num - 1"
  have k: "unat (num - 1) = k" using ok by (auto simp: ino_ok_def k_def unat_pred unat_gt_0)
  have "k div 32 * 1024 + k mod 32 * 32 = 32 * k"
    using div_mult_mod_eq [of k 32] by linarith
  moreover have "minix_inode_offset s (num - 1) = table_off s + (k div 32 * 1024 + k mod 32 * 32)"
    unfolding minix_inode_offset_def table_off_def MINIX_INODES_PER_BLOCK_def Let_def k
    by (simp add: minix_consts)
  ultimately show ?thesis by (simp add: ino_off_def INODE_SIZE_def k_def)
qed

lemma ino_off_bound: "super_wf s \<Longrightarrow> ino_ok s num \<Longrightarrow> ino_off s num + INODE_SIZE \<le> data_off s"
proof -
  assume s: "super_wf s" and n: "ino_ok s num"
  have "INODE_SIZE * (unat num - 1) + INODE_SIZE = INODE_SIZE * unat num"
    using n by (cases "unat num") (simp_all add: ino_ok_def)
  also have "\<dots> \<le> INODE_SIZE * unat (s_ninodes s)" using n by (simp add: ino_ok_def)
  finally show ?thesis using s by (simp add: super_wf_def ino_off_def)
qed

lemma data_off_bound: "super_wf s \<Longrightarrow> data_off s \<le> NANVIX_RAMDISK_SIZE"
  by (simp add: super_wf_def)

lemma ino_off_disk: "super_wf s \<Longrightarrow> ino_ok s num \<Longrightarrow> ino_off s num < NANVIX_RAMDISK_SIZE \<and> ino_off s num + INODE_SIZE \<le> NANVIX_RAMDISK_SIZE"
  using ino_off_bound [of s num] data_off_bound [of s] by (simp add: INODE_SIZE_def)

lemma ino_off_disjoint:
  assumes "unat i \<noteq> unat j" "0 < unat i" "0 < unat j"
  shows "ino_off s i + INODE_SIZE \<le> ino_off s j \<or> ino_off s j + INODE_SIZE \<le> ino_off s i"
  using assms by (auto simp: ino_off_def INODE_SIZE_def)

section \<open>Inodes\<close>

lemma minix_inode_read_eq:
  "super_wf s \<Longrightarrow> minix_inode_read ds 0 (Some s) num = (if ino_ok s num then Inr (inode_at ds s num) else Inl EINVAL)"
  using ino_off_disk [of s num]
  by (simp add: minix_inode_read_def ino_ok_iff Let_def ramdisk_read_get minix_inode_offset_eq inode_at_def)

lemma minix_inode_write_eq:
  "super_wf s \<Longrightarrow> inode_wf ip \<Longrightarrow> minix_inode_write ds 0 (Some s) ip num =
     (if ino_ok s num then (Inr 0, disk_put ds (ino_off s num) (enc_inode ip)) else (Inl EINVAL, ds))"
  using ino_off_disk [of s num]
  by (simp add: minix_inode_write_def ino_ok_iff Let_def ramdisk_write_put minix_inode_offset_eq)

lemma inode_put_ok:
  "disks_ok ds \<Longrightarrow> super_wf s \<Longrightarrow> ino_ok s num \<Longrightarrow> inode_wf ip \<Longrightarrow> disks_ok (disk_put ds (ino_off s num) (enc_inode ip))"
  using ino_off_disk [of s num] by simp

lemma inode_at_put:
  assumes "disks_ok ds" "super_wf s" "ino_ok s num" "inode_wf ip" "ino_ok s k"
  shows "inode_at (disk_put ds (ino_off s num) (enc_inode ip)) s k = (if k = num then ip else inode_at ds s k)"
proof (cases "k = num")
  case True
  with assms ino_off_disk [of s num] show ?thesis by (simp add: inode_at_def disk_get_put_same)
next
  case False
  then have "unat k \<noteq> unat num" by (simp add: word_unat_eq_iff)
  then have "ino_off s k + INODE_SIZE \<le> ino_off s num \<or> ino_off s num + INODE_SIZE \<le> ino_off s k"
    using assms by (intro ino_off_disjoint) (auto simp: ino_ok_def)
  with False assms ino_off_disk [of s num] ino_off_disk [of s k] show ?thesis
    by (simp add: inode_at_def disk_get_put_other)
qed

text \<open>An inode occupies its slot of the table: the blocks before the table and the data blocks are not touched.\<close>

lemma inode_put_frame:
  assumes "disks_ok ds" "super_wf s" "ino_ok s num" "inode_wf ip" "off + n \<le> NANVIX_RAMDISK_SIZE"
    and "off + n \<le> table_off s \<or> data_off s \<le> off"
  shows "disk_get (disk_put ds (ino_off s num) (enc_inode ip)) off n = disk_get ds off n"
  using assms ino_off_disk [of s num] ino_off_bound [of s num]
  by (intro disk_get_put_other) (auto simp: ino_off_def)

lemma new_inode_wf [simp]: "inode_wf (new_inode mode uid gid now)"
  by (simp add: new_inode_def inode_wf_def)

section \<open>Super block and maps\<close>

lemma map_size_bits: "map_wf n m \<Longrightarrow> 32 * length m < 2 ^ 32"
  using unsigned_less [of n, where ?'a = nat] by (simp add: map_wf_def map_size_def MINIX_BLOCK_SIZE_def)

lemma super_write_ok:
  assumes "super_wf s" "map_wf (s_imap_nblocks s) m" "map_wf (s_bmap_nblocks s) z" "disks_ok ds"
  defines "ds1 \<equiv> disk_put ds MINIX_BLOCK_SIZE (enc_super s)"
  defines "ds2 \<equiv> disk_put ds1 (2 * MINIX_BLOCK_SIZE) (le_array 4 m)"
  defines "ds3 \<equiv> disk_put ds2 ((2 + unat (s_imap_nblocks s)) * MINIX_BLOCK_SIZE) (le_array 4 z)"
  shows "minix_super_write ds 0 (Some s) (Some z) (Some m) = (Inr 0, ds3) \<and> disks_ok ds3 \<and>
    (\<forall>off n. table_off s \<le> off \<longrightarrow> off + n \<le> NANVIX_RAMDISK_SIZE \<longrightarrow> disk_get ds3 off n = disk_get ds off n) \<and>
    disk_get ds3 MINIX_BLOCK_SIZE SUPER_SIZE = enc_super s \<and>
    disk_get ds3 (2 * MINIX_BLOCK_SIZE) (map_size (s_imap_nblocks s)) = le_array 4 m \<and>
    disk_get ds3 ((2 + unat (s_imap_nblocks s)) * MINIX_BLOCK_SIZE) (map_size (s_bmap_nblocks s)) = le_array 4 z"
proof -
  let ?ni = "unat (s_imap_nblocks s)" and ?nz = "unat (s_bmap_nblocks s)"
  have tab: "(2 + ?ni + ?nz) * 1024 \<le> NANVIX_RAMDISK_SIZE" "0 < ?nz"
    using assms(1) by (simp_all add: super_wf_def table_off_def MINIX_BLOCK_SIZE_def)
  have len: "4 * length m = ?ni * 1024" "4 * length z = ?nz * 1024"
    using assms(2,3) by (simp_all add: map_wf_def map_size_def MINIX_BLOCK_SIZE_def)
  have ok1: "disks_ok ds1" unfolding ds1_def using assms(4) tab by (intro disk_put_ok) (simp_all add: minix_consts)
  have ok2: "disks_ok ds2" unfolding ds2_def using ok1 tab len by (intro disk_put_ok) (simp_all add: minix_consts)
  have ok3: "disks_ok ds3" unfolding ds3_def using ok2 tab len by (intro disk_put_ok) (simp_all add: minix_consts)
  have w1: "ramdisk_write ds 0 (Some (enc_super s)) SUPER_SIZE (int MINIX_BLOCK_SIZE) = (Inr (int SUPER_SIZE), ds1)"
    using tab by (subst ramdisk_write_put) (simp_all add: ds1_def minix_consts)
  have w2: "ramdisk_write ds1 0 (Some (le_array 4 m)) (map_size (s_imap_nblocks s)) (int (2 * MINIX_BLOCK_SIZE)) =
      (Inr (int (map_size (s_imap_nblocks s))), ds2)"
    using tab len by (subst ramdisk_write_put) (simp_all add: ds2_def map_size_def minix_consts)
  have w3: "ramdisk_write ds2 0 (Some (le_array 4 z)) (map_size (s_bmap_nblocks s)) (int ((2 + ?ni) * MINIX_BLOCK_SIZE)) =
      (Inr (int (map_size (s_bmap_nblocks s))), ds3)"
    using tab len by (subst ramdisk_write_put) (simp_all add: ds3_def map_size_def minix_consts)
  have "disk_get ds3 off n = disk_get ds off n" if "table_off s \<le> off" "off + n \<le> NANVIX_RAMDISK_SIZE" for off n
    using that assms(4) ok1 ok2 tab len
    by (simp add: ds3_def ds2_def ds1_def disk_get_put_other table_off_def minix_consts)
  moreover have "disk_get ds3 MINIX_BLOCK_SIZE SUPER_SIZE = enc_super s"
    using assms(4) ok1 ok2 tab len
    by (simp add: ds3_def ds2_def ds1_def disk_get_put_other disk_get_put_same minix_consts)
  moreover have "disk_get ds3 (2 * MINIX_BLOCK_SIZE) (map_size (s_imap_nblocks s)) = le_array 4 m"
    using ok1 ok2 tab len
    by (simp add: ds3_def ds2_def disk_get_put_other disk_get_put_same map_size_def minix_consts)
  moreover have "disk_get ds3 ((2 + ?ni) * MINIX_BLOCK_SIZE) (map_size (s_bmap_nblocks s)) = le_array 4 z"
    using ok2 tab len by (simp add: ds3_def disk_get_put_same map_size_def minix_consts)
  moreover have "minix_super_write ds 0 (Some s) (Some z) (Some m) = (Inr 0, ds3)"
    using assms(1) by (simp add: minix_super_write_def w1 w2 [simplified] w3 [simplified] super_wf_def)
  ultimately show ?thesis using ok3 by blast
qed

lemma super_read_ok:
  assumes "super_wf s" "map_wf (s_imap_nblocks s) m" "map_wf (s_bmap_nblocks s) z"
    and "umalloc_ok (map_size (s_imap_nblocks s))" "umalloc_ok (map_size (s_bmap_nblocks s))"
    and "disk_get ds MINIX_BLOCK_SIZE SUPER_SIZE = enc_super s"
    and "disk_get ds (2 * MINIX_BLOCK_SIZE) (map_size (s_imap_nblocks s)) = le_array 4 m"
    and "disk_get ds ((2 + unat (s_imap_nblocks s)) * MINIX_BLOCK_SIZE) (map_size (s_bmap_nblocks s)) = le_array 4 z"
  shows "minix_super_read umalloc_ok ds 0 True = Inr (s, z, m)"
proof -
  let ?ni = "unat (s_imap_nblocks s)" and ?nz = "unat (s_bmap_nblocks s)"
  have tab: "(2 + ?ni + ?nz) * 1024 \<le> NANVIX_RAMDISK_SIZE" "0 < ?nz"
    using assms(1) by (simp_all add: super_wf_def table_off_def MINIX_BLOCK_SIZE_def)
  have len: "length m = map_size (s_imap_nblocks s) div 4" "length z = map_size (s_bmap_nblocks s) div 4"
    using assms(2,3) by (simp_all add: map_wf_def map_size_def MINIX_BLOCK_SIZE_def)
  have r1: "ramdisk_read ds 0 False SUPER_SIZE (int MINIX_BLOCK_SIZE) = Inr (int SUPER_SIZE, enc_super s)"
    using tab assms(6) by (subst ramdisk_read_get) (simp_all add: minix_consts)
  have r2: "ramdisk_read ds 0 False (map_size (s_imap_nblocks s)) (int (2 * MINIX_BLOCK_SIZE)) =
      Inr (int (map_size (s_imap_nblocks s)), le_array 4 m)"
    using tab assms(7) by (subst ramdisk_read_get) (simp_all add: map_size_def minix_consts)
  have r3: "ramdisk_read ds 0 False (map_size (s_bmap_nblocks s)) (int ((2 + ?ni) * MINIX_BLOCK_SIZE)) =
      Inr (int (map_size (s_bmap_nblocks s)), le_array 4 z)"
    using tab assms(8) by (subst ramdisk_read_get) (simp_all add: map_size_def minix_consts)
  have "unle_array 4 (map_size (s_imap_nblocks s) div 4) (le_array 4 m) = m"
    "unle_array 4 (map_size (s_bmap_nblocks s) div 4) (le_array 4 z) = z"
    by (simp_all add: unle_le_array len)
  then show ?thesis
    unfolding minix_super_read_def Let_def r1 using assms(1,4,5)
    by (simp add: r2 [simplified] r3 [simplified] super_wf_def)
qed

section \<open>Allocation\<close>

lemma first_free_ok:
  assumes "lim \<le> length bm" "32 * lim < 2 ^ 32" "sz div 4 = lim"
  obtains w where "bitmap_first_free bm sz = Some w" "{..<32 * lim} \<subseteq> bits bm \<Longrightarrow> w = BITMAP_FULL"
    "\<not> {..<32 * lim} \<subseteq> bits bm \<Longrightarrow> w \<noteq> BITMAP_FULL \<and> unat w < 32 * lim \<and> unat w \<notin> bits bm \<and> {..<unat w} \<subseteq> bits bm"
proof -
  obtain w where w: "bitmap_first_free bm sz = Some w" "if {..<32 * lim} \<subseteq> bits bm then w = BITMAP_FULL
     else unat w < 32 * lim \<and> unat w \<notin> bits bm \<and> {..<unat w} \<subseteq> bits bm"
    using first_free_from_spec [of lim bm 0] assms by (auto simp: bitmap_first_free_def drop_bit_eq_div)
  have "w \<noteq> BITMAP_FULL" if "unat w < 32 * lim"
    using that assms(2) by (auto simp: BITMAP_FULL_def)
  with w that show thesis by presburger
qed

definition imap_wf :: "d_superblock \<Rightarrow> bitmap_t list \<Rightarrow> bool" where
  "imap_wf s m \<longleftrightarrow> map_wf (s_imap_nblocks s) m \<and> bits m \<subseteq> {..<unat (s_ninodes s)}"

lemma inode_alloc_ok:
  assumes "super_wf s" "imap_wf s m" "disks_ok ds" "4 \<le> unat (s_ninodes s)" "bits m \<noteq> {..<unat (s_ninodes s)}"
  obtains num m' where
    "minix_inode_alloc ds 0 (Some s) (Some m) mode uid gid now =
       Some (num, Some m', disk_put ds (ino_off s num) (enc_inode (new_inode mode uid gid now)))"
    "ino_ok s num" "unat num - 1 \<notin> bits m" "{..<unat num - 1} \<subseteq> bits m"
    "imap_wf s m'" "bits m' = insert (unat num - 1) (bits m)"
proof -
  let ?n = "unat (s_ninodes s)"
  define lim where "lim = ?n div 4"
  have m: "map_wf (s_imap_nblocks s) m" "bits m \<subseteq> {..<?n}" using assms(2) by (simp_all add: imap_wf_def)
  have "4 * lim \<le> ?n" by (simp add: lim_def)
  then have "4 * lim \<le> 4 * length m" using assms(1) m(1) by (simp add: super_wf_def map_wf_def)
  then have lim: "lim \<le> length m" "32 * lim < 2 ^ 32" "?n \<le> 32 * lim"
    using map_size_bits [OF m(1)] assms(4) by (simp_all add: lim_def)
  have "\<exists>i<?n. i \<notin> bits m" using m(2) assms(5) by auto
  then obtain i where i: "i < ?n" "i \<notin> bits m" by blast
  then have "i \<in> {..<32 * lim}" using lim(3) by simp
  with i(2) have "\<not> {..<32 * lim} \<subseteq> bits m" by blast
  then obtain w where w: "bitmap_first_free m ?n = Some w" "w \<noteq> BITMAP_FULL" "unat w < 32 * lim" "unat w \<notin> bits m"
    "{..<unat w} \<subseteq> bits m"
    by (rule_tac first_free_ok [OF lim(1,2), of ?n]) (auto simp: lim_def)
  have wn: "unat w < ?n"
  proof (rule ccontr)
    assume "\<not> unat w < ?n"
    with i(1) have "i \<in> {..<unat w}" by simp
    with i(2) w(5) show False by blast
  qed
  obtain m' where m': "bitmap_set m w = Some m'" "length m' = length m" "bits m' = insert (unat w) (bits m)"
    using bitmap_set_bits [of w m] w(3) lim(1) by (metis less_le_trans mult_le_mono2)
  define num :: minix_ino_t where "num = ucast (w + 1)"
  have n16: "?n < 2 ^ 16" using unsigned_less [of "s_ninodes s", where ?'a = nat] by simp
  then have "unat (w + 1) = unat w + 1" using wn by (simp add: unat_word_ariths)
  then have num: "unat num = unat w + 1" using wn n16 by (simp add: num_def unsigned_ucast_eq take_bit_nat_eq_self)
  then have ok: "ino_ok s num" using wn by (simp add: ino_ok_def)
  have "minix_inode_alloc ds 0 (Some s) (Some m) mode uid gid now =
      Some (num, Some m', disk_put ds (ino_off s num) (enc_inode (new_inode mode uid gid now)))"
    using assms(1) w(1,2) m'(1) ok by (simp add: minix_inode_alloc_def Let_def minix_inode_write_eq flip: num_def)
  moreover have "imap_wf s m'" using m m' wn by (simp add: imap_wf_def map_wf_def)
  ultimately show thesis using that [of num m'] ok num w(4,5) m'(3) by simp
qed

lemma inode_alloc_full:
  assumes "super_wf s" "imap_wf s m" "4 \<le> unat (s_ninodes s)" "bits m = {..<unat (s_ninodes s)}"
  obtains m' where "minix_inode_alloc ds 0 (Some s) (Some m) mode uid gid now = Some (MINIX_INODE_NULL, Some m', ds)"
    "imap_wf s m'" "bits m' = bits m"
proof -
  let ?n = "unat (s_ninodes s)"
  define lim where "lim = ?n div 4"
  have m: "map_wf (s_imap_nblocks s) m" using assms(2) by (simp_all add: imap_wf_def)
  have "4 * lim \<le> ?n" by (simp add: lim_def)
  then have "4 * lim \<le> 4 * length m" using assms(1) m by (simp add: super_wf_def map_wf_def)
  then have lim: "lim \<le> length m" "32 * lim < 2 ^ 32" "?n < 32 * lim"
    using map_size_bits [OF m] assms(3) by (simp_all add: lim_def)
  then have "\<not> {..<32 * lim} \<subseteq> bits m" using assms(4) by auto
  then obtain w where w: "bitmap_first_free m ?n = Some w" "w \<noteq> BITMAP_FULL" "unat w < 32 * lim" "unat w \<notin> bits m"
    "{..<unat w} \<subseteq> bits m"
    by (rule_tac first_free_ok [OF lim(1,2), of ?n]) (auto simp: lim_def)
  have "\<not> ?n < unat w" using w(5) assms(4) by auto
  with w(4) assms(4) have wn: "unat w = ?n" by simp
  have wl: "unat w < 32 * length m" using w(3) lim(1) by linarith
  obtain m' where m': "bitmap_set m w = Some m'" "length m' = length m" "bits m' = insert (unat w) (bits m)"
    using bitmap_set_bits [OF wl] by blast
  obtain m'' where m'': "bitmap_clear m' w = Some m''" "length m'' = length m'" "bits m'' = bits m' - {unat w}"
    using bitmap_clear_bits [of w m'] wl m'(2) by auto
  define num :: minix_ino_t where "num = ucast (w + 1)"
  have n16: "?n < 2 ^ 16" using unsigned_less [of "s_ninodes s", where ?'a = nat] by simp
  then have "unat (w + 1) = ?n + 1" using wn by (simp add: unat_word_ariths)
  then have "unat num = (?n + 1) mod 2 ^ 16" by (simp add: num_def unsigned_ucast_eq take_bit_eq_mod)
  then have "\<not> ino_ok s num" using n16 by (cases "?n + 1 = 2 ^ 16") (auto simp: ino_ok_def)
  then have "minix_inode_alloc ds 0 (Some s) (Some m) mode uid gid now = Some (MINIX_INODE_NULL, Some m'', ds)"
    using assms(1) w(1,2) m'(1) m''(1) by (simp add: minix_inode_alloc_def Let_def minix_inode_write_eq flip: num_def)
  moreover have "bits m'' = bits m" using m'(3) m''(3) w(4) by auto
  ultimately show thesis using that m'(2) m''(2) assms(2) by (simp add: imap_wf_def map_wf_def)
qed

lemma unat_ucast32: "unat (ucast (w :: 16 word) :: bitmap_t) = unat w"
proof -
  have "unat w < 2 ^ 32" using unsigned_less [of w, where ?'a = nat] by simp
  then show ?thesis by (simp add: unsigned_ucast_eq take_bit_nat_eq_self)
qed

lemma inode_free_ok:
  assumes "super_wf s" "imap_wf s m" "ino_ok s num"
  obtains m' where "minix_inode_free (Some s) (Some m) num = Some (Inr 0, Some m')" "imap_wf s m'"
    "bits m' = bits m - {unat num - 1}"
proof -
  have n: "num \<noteq> 0" "0 < unat num" "unat num \<le> unat (s_ninodes s)" using assms(3) by (auto simp: ino_ok_def)
  have u: "unat (ucast (num - 1) :: bitmap_t) = unat num - 1" by (simp add: unat_ucast32 unat_pred n(1))
  have "unat (s_ninodes s) \<le> map_size (s_imap_nblocks s)" using assms(1) by (simp add: super_wf_def)
  also have "\<dots> \<le> 32 * length m" using assms(2) by (simp add: imap_wf_def map_wf_def)
  finally have "unat (ucast (num - 1) :: bitmap_t) < 32 * length m" using n u by linarith
  then obtain m' where m': "bitmap_clear m (ucast (num - 1)) = Some m'" "length m' = length m"
    "bits m' = bits m - {unat num - 1}"
    using bitmap_clear_bits [of "ucast (num - 1)" m] unfolding u by blast
  have "minix_inode_free (Some s) (Some m) num = Some (Inr 0, Some m')"
    using assms(1,3) m'(1) by (simp add: minix_inode_free_def Let_def ino_ok_iff)
  moreover have "imap_wf s m'" using assms(2) m' by (auto simp: imap_wf_def map_wf_def)
  ultimately show thesis using that m'(3) by blast
qed

text \<open>
  Blocks. \<open>least_clear z b\<close> names the position \<open>minix_block_alloc\<close> takes; it is a block of the file
  system when it lies below \<open>s_nblocks\<close>.
\<close>

definition least_clear :: "bitmap_t list \<Rightarrow> nat \<Rightarrow> bool" where
  "least_clear z b \<longleftrightarrow> b < 32 * length z \<and> b \<notin> bits z \<and> {..<b} \<subseteq> bits z"

definition data_block :: "d_superblock \<Rightarrow> nat \<Rightarrow> minix_block_t" where
  "data_block s b = of_nat (unat (s_first_data_block s) + b)"

lemma least_clear_unique: "least_clear z b \<Longrightarrow> c \<notin> bits z \<Longrightarrow> {..<c} \<subseteq> bits z \<Longrightarrow> c = b"
  unfolding least_clear_def by (metis lessThan_iff linorder_neqE_nat subsetD)

lemma block_alloc_ok:
  assumes "super_wf s" "map_wf (s_bmap_nblocks s) z" "least_clear z b"
  obtains z' where "minix_block_alloc (Some s) (Some z) = Some (data_block s b, Some z')"
    "map_wf (s_bmap_nblocks s) z'" "bits z' = insert b (bits z)"
proof -
  have bits32: "32 * length z < 2 ^ 32" using assms(2) by (rule map_size_bits)
  have sz: "map_size (s_bmap_nblocks s) div 4 = length z" using assms(2) by (simp add: map_wf_def flip: mult.commute)
  have "\<not> {..<32 * length z} \<subseteq> bits z" using assms(3) by (auto simp: least_clear_def)
  then obtain w where w: "bitmap_first_free z (map_size (s_bmap_nblocks s)) = Some w" "w \<noteq> BITMAP_FULL"
    "unat w < 32 * length z" "unat w \<notin> bits z" "{..<unat w} \<subseteq> bits z"
    by (rule_tac first_free_ok [OF order_refl bits32 sz]) auto
  have wb: "unat w = b" using w(4,5) least_clear_unique [OF assms(3)] by blast
  obtain z' where z': "bitmap_set z w = Some z'" "length z' = length z" "bits z' = insert b (bits z)"
    using bitmap_set_bits [OF w(3)] wb by blast
  have "unat (ucast (s_first_data_block s) + w) = unat (s_first_data_block s) + b"
  proof -
    have "unat (s_first_data_block s) < 2 ^ 16" using unsigned_less [of "s_first_data_block s", where ?'a = nat] by simp
    moreover have "b < 2 ^ 29"
      using w(3) wb assms(2) unsigned_less [of "s_bmap_nblocks s", where ?'a = nat]
      by (simp add: map_wf_def map_size_def MINIX_BLOCK_SIZE_def)
    ultimately show ?thesis using wb by (simp add: unat_word_ariths unat_ucast32)
  qed
  then have "ucast (ucast (s_first_data_block s) + w) = data_block s b"
    unfolding data_block_def by (metis of_nat_unat)
  then have "minix_block_alloc (Some s) (Some z) = Some (data_block s b, Some z')"
    using assms(1) w(1,2) z'(1) by (simp add: minix_block_alloc_def)
  then show thesis using that z' assms(2) by (simp add: map_wf_def)
qed

lemma block_free_direct_ok:
  assumes "super_wf s" "map_wf (s_bmap_nblocks s) z" "b < unat (s_nblocks s)" "unat (s_first_data_block s) + b < 2 ^ 16"
    and "unat (s_nblocks s) \<le> 32 * length z"
  obtains z' where "minix_block_free_direct (Some s) (Some z) (data_block s b) = Some (Inr 0, Some z')"
    "map_wf (s_bmap_nblocks s) z'" "bits z' = bits z - {b}"
proof -
  have fd: "0 < unat (s_first_data_block s)"
    using assms(1) by (auto simp: super_wf_def table_off_def data_off_def minix_consts)
  have "unat (data_block s b) = unat (s_first_data_block s) + b"
    unfolding data_block_def by (rule unat_of_nat_lt) (use assms(4) in simp)
  then have nz: "data_block s b \<noteq> 0" using fd by (metis add_is_0 unat_0 less_irrefl)
  have "data_block s b - s_first_data_block s = of_nat b" by (simp add: data_block_def)
  moreover have ub: "unat (of_nat b :: minix_block_t) = b" by (rule unat_of_nat_lt) (use assms(4) in simp)
  ultimately have d: "unat (data_block s b - s_first_data_block s) = b" by simp
  then have le: "\<not> s_nblocks s \<le> data_block s b - s_first_data_block s"
    using assms(3) by (simp add: word_le_nat_alt)
  have u: "unat (ucast (data_block s b - s_first_data_block s) :: bitmap_t) = b" by (simp only: unat_ucast32 d)
  have "b < 32 * length z" using assms(3,5) by simp
  then obtain z' where z': "bitmap_clear z (ucast (data_block s b - s_first_data_block s)) = Some z'"
    "length z' = length z" "bits z' = bits z - {b}"
    using bitmap_clear_bits [of "ucast (data_block s b - s_first_data_block s)" z] unfolding u by blast
  have "minix_block_free_direct (Some s) (Some z) (data_block s b) = Some (Inr 0, Some z')"
    using assms(1) nz le z'(1) by (simp add: minix_block_free_direct_def Let_def MINIX_BLOCK_NULL_def)
  then show thesis using that z' assms(2) by (simp add: map_wf_def)
qed

lemma repeat_free_ok:
  assumes "\<And>z. good z \<Longrightarrow> \<exists>r z'. f (Some z) = Some (r, Some z') \<and> good z' \<and> bits z' = bits z - {b}" "good z"
  shows "\<exists>z'. repeat_free n f (Some z) = Some (Some z') \<and> good z' \<and> bits z' = (if n = 0 then bits z else bits z - {b})"
  using assms(2)
proof (induction n arbitrary: z)
  case 0
  then show ?case by simp
next
  case (Suc n)
  obtain r z1 where z1: "f (Some z) = Some (r, Some z1)" "good z1" "bits z1 = bits z - {b}" using assms(1) [OF Suc.prems] by blast
  with Suc.IH [OF z1(2)] show ?case by auto
qed

text \<open>Whatever the level, only the block itself is released; the blocks an indirect block lists are not.\<close>

lemma block_free_ok:
  assumes "super_wf s" "map_wf (s_bmap_nblocks s) z" "b < unat (s_nblocks s)" "unat (s_first_data_block s) + b < 2 ^ 16"
    and "unat (s_nblocks s) \<le> 32 * length z" "lvl \<in> {0, 1, 2}"
  shows "\<exists>z'. minix_block_free (Some s) (Some z) (data_block s b) lvl = Some (Inr 0, Some z') \<and> bits z' = bits z - {b}"
proof -
  define good where "good z \<longleftrightarrow> map_wf (s_bmap_nblocks s) z \<and> unat (s_nblocks s) \<le> 32 * length z" for z
  have nz: "data_block s b \<noteq> MINIX_BLOCK_NULL"
  proof -
    have "0 < unat (s_first_data_block s)"
      using assms(1) by (auto simp: super_wf_def table_off_def data_off_def minix_consts)
    moreover have "unat (data_block s b) = unat (s_first_data_block s) + b"
      unfolding data_block_def by (rule unat_of_nat_lt) (use assms(4) in simp)
    ultimately show ?thesis by (metis MINIX_BLOCK_NULL_def add_is_0 unat_0 less_irrefl)
  qed
  have dir: "\<exists>r z'. minix_block_free_direct (Some s) (Some z) (data_block s b) = Some (r, Some z') \<and> good z' \<and> bits z' = bits z - {b}"
    if good: "good z" for z
  proof -
    obtain z' where "minix_block_free_direct (Some s) (Some z) (data_block s b) = Some (Inr 0, Some z')"
      "map_wf (s_bmap_nblocks s) z'" "bits z' = bits z - {b}"
      using block_free_direct_ok [OF assms(1) _ assms(3,4), of z] \<open>good z\<close> unfolding good_def by blast
    with \<open>good z\<close> show ?thesis by (auto simp: good_def map_wf_def)
  qed
  have ind: "\<exists>r z'. minix_block_free_indirect (Some s) (Some z) (data_block s b) = Some (r, Some z') \<and> good z' \<and> bits z' = bits z - {b}"
    if good: "good z" for z
  proof -
    obtain z1 where z1: "repeat_free MINIX_NR_SINGLE (\<lambda>z. minix_block_free_direct (Some s) z (data_block s b)) (Some z) = Some (Some z1)"
      "good z1" "bits z1 = bits z - {b}"
      using repeat_free_ok [of good "\<lambda>z. minix_block_free_direct (Some s) z (data_block s b)" b, OF dir good, of MINIX_NR_SINGLE]
      by (auto simp: MINIX_NR_SINGLE_def)
    with dir [OF z1(2)] show ?thesis
      using assms(1) nz by (auto simp: minix_block_free_indirect_def)
  qed
  have dind: "\<exists>r z'. minix_block_free_dindirect (Some s) (Some z) (data_block s b) = Some (r, Some z') \<and> bits z' = bits z - {b}"
    if good: "good z" for z
  proof -
    obtain z1 where z1: "repeat_free MINIX_NR_SINGLE (\<lambda>z. minix_block_free_indirect (Some s) z (data_block s b)) (Some z) = Some (Some z1)"
      "good z1" "bits z1 = bits z - {b}"
      using repeat_free_ok [of good "\<lambda>z. minix_block_free_indirect (Some s) z (data_block s b)" b, OF ind good, of MINIX_NR_SINGLE]
      by (auto simp: MINIX_NR_SINGLE_def)
    with dir [OF z1(2)] show ?thesis
      using assms(1) nz by (auto simp: minix_block_free_dindirect_def)
  qed
  have "good z" using assms(2,5) by (simp add: good_def)
  from dir [OF this] ind [OF this] dind [OF this] show ?thesis
    using assms(1,6) by (auto simp: minix_block_free_def)
qed

section \<open>Properties\<close>

text \<open>The super block that \<open>minix_mkfs\<close> writes at boot, and maps as they are then.\<close>

definition boot_super :: d_superblock where
  "boot_super = \<lparr>s_ninodes = 64, s_nblocks = 64, s_imap_nblocks = 1, s_bmap_nblocks = 1, s_first_data_block = 6,
     unused1 = 0, s_max_size = 64 * 1024 * 1024, s_magic = MINIX_SUPER_MAGIC\<rparr>"

definition zero_disks :: disks where "zero_disks = [replicate NANVIX_RAMDISK_SIZE 0]"

lemma boot_super_sel [simp]:
  "s_ninodes boot_super = 64" "s_nblocks boot_super = 64" "s_imap_nblocks boot_super = 1" "s_bmap_nblocks boot_super = 1"
  "s_first_data_block boot_super = 6" "s_max_size boot_super = 64 * 1024 * 1024" "s_magic boot_super = MINIX_SUPER_MAGIC"
  by (simp_all add: boot_super_def)

lemma boot_super_wf [simp]: "super_wf boot_super"
  by (simp add: super_wf_def table_off_def data_off_def map_size_def minix_consts disk_consts)

lemma zero_disks_ok [simp]: "disks_ok zero_disks"
  by (simp add: disks_ok_def zero_disks_def NANVIX_NR_RAMDISKS_def)

lemma map_wf_zero [simp]: "n = 1 \<Longrightarrow> map_wf n (replicate 256 w)"
  by (simp add: map_wf_def map_size_def MINIX_BLOCK_SIZE_def)

lemma bits_zero [simp]: "bits (replicate k 0) = {}"
  by (auto simp: bits_def div_less_iff_less_mult mult.commute)

text \<open>
  Disk inodes. An inode that is written is read back as it was; every other inode, the super block and
  the maps, and the data blocks stay as they were. Numbers outside the table, zero among them, are refused with
  \<open>EINVAL\<close> by both functions.
\<close>

theorem minix_inode_roundtrip:
  assumes "super_wf s" "disks_ok ds" "inode_wf ip"
  shows "if ino_ok s num
    then \<exists>ds'. minix_inode_write ds 0 (Some s) ip num = (Inr 0, ds') \<and> disks_ok ds' \<and>
      minix_inode_read ds' 0 (Some s) num = Inr ip \<and>
      (\<forall>k. k \<noteq> num \<longrightarrow> minix_inode_read ds' 0 (Some s) k = minix_inode_read ds 0 (Some s) k) \<and>
      (\<forall>off n. off + n \<le> NANVIX_RAMDISK_SIZE \<longrightarrow> off + n \<le> table_off s \<or> data_off s \<le> off \<longrightarrow>
        disk_get ds' off n = disk_get ds off n)
    else minix_inode_write ds 0 (Some s) ip num = (Inl EINVAL, ds) \<and> minix_inode_read ds 0 (Some s) num = Inl EINVAL"
proof (cases "ino_ok s num")
  case True
  let ?ds = "disk_put ds (ino_off s num) (enc_inode ip)"
  have "minix_inode_write ds 0 (Some s) ip num = (Inr 0, ?ds)" using assms True by (simp add: minix_inode_write_eq)
  moreover have "disks_ok ?ds" using assms True by (simp add: inode_put_ok)
  moreover have "minix_inode_read ?ds 0 (Some s) num = Inr ip"
    using assms True by (simp add: minix_inode_read_eq inode_at_put)
  moreover have "minix_inode_read ?ds 0 (Some s) k = minix_inode_read ds 0 (Some s) k" if "k \<noteq> num" for k
    using assms True that by (simp add: minix_inode_read_eq inode_at_put)
  ultimately show ?thesis using True assms inode_put_frame [OF assms(2,1) True assms(3)] by auto
next
  case False
  with assms show ?thesis by (simp add: minix_inode_write_eq minix_inode_read_eq)
qed

theorem minix_inode_roundtrip_witness:
  "\<exists>ds'. minix_inode_write zero_disks 0 (Some boot_super) (new_inode 0x41ed 0 0 7) 64 = (Inr 0, ds') \<and>
     minix_inode_read ds' 0 (Some boot_super) 64 = Inr (new_inode 0x41ed 0 0 7)"
  using minix_inode_roundtrip [of boot_super zero_disks "new_inode 0x41ed 0 0 7" 64]
  by (auto simp: ino_ok_def)

text \<open>
  Allocation of inodes. While some inode of the table is free, \<open>minix_inode_alloc\<close> returns the
  least free number, marks it in the map and writes the fresh inode there, changing no other inode; when all are in
  use it returns \<open>MINIX_INODE_NULL\<close> and neither the disk nor the map changes, although the search of the map runs past
  the last inode. Releasing the number makes it free again.
\<close>

theorem minix_inode_alloc_correct:
  assumes "super_wf s" "imap_wf s imap" "disks_ok ds" "4 \<le> unat (s_ninodes s)"
  shows "if bits imap = {..<unat (s_ninodes s)}
    then \<exists>imap'. minix_inode_alloc ds 0 (Some s) (Some imap) mode uid gid now = Some (MINIX_INODE_NULL, Some imap', ds) \<and>
      bits imap' = bits imap
    else \<exists>num imap' ds' imap''. minix_inode_alloc ds 0 (Some s) (Some imap) mode uid gid now = Some (num, Some imap', ds') \<and>
      ino_ok s num \<and> unat num - 1 \<notin> bits imap \<and> {..<unat num - 1} \<subseteq> bits imap \<and>
      imap_wf s imap' \<and> bits imap' = insert (unat num - 1) (bits imap) \<and> disks_ok ds' \<and>
      minix_inode_read ds' 0 (Some s) num = Inr (new_inode mode uid gid now) \<and>
      (\<forall>k. k \<noteq> num \<longrightarrow> minix_inode_read ds' 0 (Some s) k = minix_inode_read ds 0 (Some s) k) \<and>
      minix_inode_free (Some s) (Some imap') num = Some (Inr 0, Some imap'') \<and> bits imap'' = bits imap"
proof (cases "bits imap = {..<unat (s_ninodes s)}")
  case True
  then show ?thesis by (rule_tac inode_alloc_full [OF assms(1,2,4) True, of ds mode uid gid now]) auto
next
  case False
  obtain num m' where a: "minix_inode_alloc ds 0 (Some s) (Some imap) mode uid gid now =
       Some (num, Some m', disk_put ds (ino_off s num) (enc_inode (new_inode mode uid gid now)))"
    "ino_ok s num" "unat num - 1 \<notin> bits imap" "{..<unat num - 1} \<subseteq> bits imap"
    "imap_wf s m'" "bits m' = insert (unat num - 1) (bits imap)"
    by (rule inode_alloc_ok [OF assms False])
  obtain m'' where f: "minix_inode_free (Some s) (Some m') num = Some (Inr 0, Some m'')" "bits m'' = bits m' - {unat num - 1}"
    using inode_free_ok [OF assms(1) a(5,2)] by blast
  have "bits m'' = bits imap" using f(2) a(3,6) by simp
  with a f(1) False assms show ?thesis
    by (simp add: minix_inode_read_eq inode_at_put inode_put_ok)
qed

theorem minix_inode_alloc_correct_witness:
  "\<exists>num imap' ds'. minix_inode_alloc zero_disks 0 (Some boot_super) (Some (replicate 256 0)) 0x41ed 0 0 7 = Some (num, Some imap', ds') \<and>
     bits imap' = {unat num - 1} \<and> minix_inode_read ds' 0 (Some boot_super) num = Inr (new_inode 0x41ed 0 0 7)"
proof -
  have "imap_wf boot_super (replicate 256 0)" by (simp add: imap_wf_def)
  moreover have "{} \<noteq> {..<64 :: nat}" by (metis empty_iff lessThan_iff zero_less_numeral)
  ultimately show ?thesis
    using minix_inode_alloc_correct [of boot_super "replicate 256 0" zero_disks "0x41ed" 0 0 7] by (auto split: if_splits)
qed

text \<open>
  Allocation of blocks. \<open>minix_block_alloc\<close> takes the least free block of the map and marks it, and
  \<open>minix_block_free\<close> makes it free again; at the levels of single and double indirection too it releases that
  block alone, never the blocks it lists.
\<close>

theorem minix_block_alloc_free:
  assumes "super_wf s" "map_wf (s_bmap_nblocks s) zmap" "least_clear zmap b" "b < unat (s_nblocks s)"
    and "unat (s_first_data_block s) + b < 2 ^ 16" "unat (s_nblocks s) \<le> 32 * length zmap" "lvl \<in> {0, 1, 2}"
  shows "\<exists>zmap' zmap''. minix_block_alloc (Some s) (Some zmap) = Some (data_block s b, Some zmap') \<and>
    bits zmap' = insert b (bits zmap) \<and>
    minix_block_free (Some s) (Some zmap') (data_block s b) lvl = Some (Inr 0, Some zmap'') \<and> bits zmap'' = bits zmap"
proof -
  obtain z' where z': "minix_block_alloc (Some s) (Some zmap) = Some (data_block s b, Some z')"
    "map_wf (s_bmap_nblocks s) z'" "bits z' = insert b (bits zmap)"
    by (rule block_alloc_ok [OF assms(1-3)])
  have "length z' = length zmap" using z'(2) assms(2) by (simp add: map_wf_def)
  then obtain z'' where "minix_block_free (Some s) (Some z') (data_block s b) lvl = Some (Inr 0, Some z'')" "bits z'' = bits z' - {b}"
    using block_free_ok [OF assms(1) z'(2) assms(4,5) _ assms(7)] assms(6) by auto
  with z' assms(3) show ?thesis by (auto simp: least_clear_def)
qed

theorem minix_block_alloc_free_witness:
  "\<exists>zmap' zmap''. minix_block_alloc (Some boot_super) (Some (replicate 256 0)) = Some (6, Some zmap') \<and>
     minix_block_free (Some boot_super) (Some zmap') 6 1 = Some (Inr 0, Some zmap'') \<and> bits zmap'' = {}"
  using minix_block_alloc_free [of boot_super "replicate 256 0" 0 1]
  by (auto simp: least_clear_def data_block_def)

text \<open>
  The file system does not notice that it is full. The search of \<open>minix_block_alloc\<close> covers the whole blocks of
  the map, so when all \<open>s_nblocks\<close> blocks are in use it hands out the next number after the last, a block outside the
  file system, which \<open>minix_block_free\<close> at level zero then ignores.
\<close>

theorem minix_block_overrun:
  assumes "super_wf s" "map_wf (s_bmap_nblocks s) zmap" "bits zmap = {..<unat (s_nblocks s)}"
    and "unat (s_nblocks s) < 32 * length zmap" "unat (s_first_data_block s) + unat (s_nblocks s) < 2 ^ 16"
  shows "\<exists>zmap'. minix_block_alloc (Some s) (Some zmap) = Some (s_first_data_block s + s_nblocks s, Some zmap') \<and>
    bits zmap' = {..unat (s_nblocks s)} \<and>
    minix_block_free (Some s) (Some zmap') (s_first_data_block s + s_nblocks s) 0 = Some (Inr 0, Some zmap')"
proof -
  let ?b = "s_first_data_block s + s_nblocks s"
  have "least_clear zmap (unat (s_nblocks s))" using assms(3,4) by (simp add: least_clear_def)
  then obtain z' where z': "minix_block_alloc (Some s) (Some zmap) = Some (?b, Some z')" "bits z' = insert (unat (s_nblocks s)) (bits zmap)"
    using block_alloc_ok [OF assms(1,2)] by (metis data_block_def word_arith_nat_add)
  have "minix_block_free_direct (Some s) (Some z') ?b = Some (Inl EINVAL, Some z')"
    using assms(1) by (simp add: minix_block_free_direct_def Let_def)
  then have "minix_block_free (Some s) (Some z') ?b 0 = Some (Inr 0, Some z')"
    using assms(1) by (simp add: minix_block_free_def)
  moreover have "bits z' = {..unat (s_nblocks s)}" using z'(2) assms(3) by (simp add: lessThan_Suc_atMost flip: lessThan_Suc)
  ultimately show ?thesis using z'(1) by blast
qed

definition full_map :: "bitmap_t list" where "full_map = replicate 2 0xffffffff @ replicate 254 0"

lemma full_map_length [simp]: "length full_map = 256"
  by (simp add: full_map_def)

lemma full_map_bits: "bits full_map = {..<64}"
proof (rule set_eqI)
  fix i
  have "bit (full_map ! (i div 32)) (i mod 32) \<longleftrightarrow> i div 32 < 2" if "i < 8192"
    using that bit_full [of "i mod 32"] by (auto simp: full_map_def nth_append)
  then show "i \<in> bits full_map \<longleftrightarrow> i \<in> {..<64}" by (auto simp: bits_def full_map_def)
qed

theorem minix_block_overrun_witness:
  "\<exists>zmap'. minix_block_alloc (Some boot_super) (Some full_map) = Some (70, Some zmap') \<and>
     minix_block_free (Some boot_super) (Some zmap') 70 0 = Some (Inr 0, Some zmap')"
  using minix_block_overrun [of boot_super full_map]
  by (auto simp: full_map_bits map_wf_def map_size_def MINIX_BLOCK_SIZE_def)

end
