(* ===== verification/MinixDir.thy ===== *)
theory MinixDir
  imports Minix
begin

text \<open>
  Directories and whole file systems, \<open>src/sys/fs/vfs/minix/minix.c\<close>. A directory is a file whose blocks hold
  entries of sixteen bytes. The functions take the directory's inode, the zone map and the disk, and
  return them changed; a \<open>NULL\<close> directory is \<open>None\<close>. The development shows that a directory is a finite
  map from names to inode numbers: searching looks a name up, adding extends the map, removing shrinks it.
\<close>

section \<open>File types and names\<close>

definition S_IFMT :: "16 word" where "S_IFMT = 0xF000"
definition S_IFREG :: "16 word" where "S_IFREG = 0x8000"
definition S_IFBLK :: "16 word" where "S_IFBLK = 0x6000"
definition S_IFDIR :: "16 word" where "S_IFDIR = 0x4000"
definition S_IFIFO :: "16 word" where "S_IFIFO = 0x1000"

definition S_ISREG :: "16 word \<Rightarrow> bool" where "S_ISREG m \<longleftrightarrow> m AND S_IFMT = S_IFREG"
definition S_ISDIR :: "16 word \<Rightarrow> bool" where "S_ISDIR m \<longleftrightarrow> m AND S_IFMT = S_IFDIR"
definition S_ISBLK :: "16 word \<Rightarrow> bool" where "S_ISBLK m \<longleftrightarrow> m AND S_IFMT = S_IFBLK"
definition S_ISFIFO :: "16 word \<Rightarrow> bool" where "S_ISFIFO m \<longleftrightarrow> m AND S_IFMT = S_IFIFO"

lemmas mode_defs = S_IFMT_def S_IFREG_def S_IFBLK_def S_IFDIR_def S_IFIFO_def S_ISREG_def S_ISDIR_def S_ISBLK_def S_ISFIFO_def

text \<open>
  The string functions: whether \<open>ustrncmp\<close> finds no difference in the first \<open>n\<close> characters, a list
  that ends standing for the terminating null, and the characters \<open>ustrncpy\<close> stores.
\<close>

abbreviation NUL :: char where "NUL \<equiv> CHR 0x00"

fun ustrncmp_eq :: "nat \<Rightarrow> string \<Rightarrow> string \<Rightarrow> bool" where
  "ustrncmp_eq 0 s t = True"
| "ustrncmp_eq (Suc n) s t =
     (let a = (case s of [] \<Rightarrow> NUL | c # _ \<Rightarrow> c); b = (case t of [] \<Rightarrow> NUL | c # _ \<Rightarrow> c) in
      a = b \<and> (a = NUL \<or> ustrncmp_eq n (tl s) (tl t)))"

definition ustrncpy :: "nat \<Rightarrow> string \<Rightarrow> string" where
  "ustrncpy n s = take n (s @ replicate n NUL)"

section \<open>Search\<close>

text \<open>
  The loop over the entries. \<open>base\<close> is \<open>None\<close> for \<open>-1\<close>, \<open>entry\<close> the last free entry seen. The loop returns
  from the function (\<open>Inl\<close>) or ends with the free entry (\<open>Inr\<close>).
\<close>

type_synonym dir_state = "bitmap_ptr \<times> d_inode \<times> disks"

function dirent_scan :: "nat \<Rightarrow> d_superblock option \<Rightarrow> string \<Rightarrow> bool \<Rightarrow> nat \<Rightarrow> dir_state \<Rightarrow> nat \<Rightarrow> nat option \<Rightarrow>
    minix_block_t \<Rightarrow> nat option \<Rightarrow> nat \<Rightarrow> ((nat result + nat option) \<times> dir_state) option" where
  "dirent_scan dev sb name create nentries (zmap, dip, ds) i entry blk base off =
     (if \<not> i < nentries then Some (Inr entry, zmap, dip, ds)
      else if blk = MINIX_BLOCK_NULL then
        (let i' = i + MINIX_BLOCK_SIZE div DIRENT_SIZE in
         case minix_block_map sb zmap dip ds (i' * DIRENT_SIZE) False of
           None \<Rightarrow> None
         | Some (blk', st') \<Rightarrow> dirent_scan dev sb name create nentries st' i' entry blk' base off)
      else if base \<noteq> None \<and> MINIX_BLOCK_SIZE \<le> off then
        (case minix_block_map sb zmap dip ds (i * DIRENT_SIZE) False of
           None \<Rightarrow> None
         | Some (blk', st') \<Rightarrow> dirent_scan dev sb name create nentries st' i entry blk' None off)
      else
        (let off' = (if base = None then 0 else off);
             base' = (case base of None \<Rightarrow> unat blk * MINIX_BLOCK_SIZE | Some b \<Rightarrow> b) in
         case ramdisk_read ds dev False DIRENT_SIZE (int (base' + off')) of
           Inl _ \<Rightarrow> None
         | Inr (_, b) \<Rightarrow>
             let d = dec_dirent b in
             if d_ino d \<noteq> MINIX_INODE_NULL \<and> ustrncmp_eq MINIX_NAME_MAX (d_name d) name
             then Some (Inl (if create then Inl EEXIST else Inr (base' + off')), zmap, dip, ds)
             else dirent_scan dev sb name create nentries (zmap, dip, ds) (Suc i)
                    (if d_ino d = MINIX_INODE_NULL then Some i else entry) blk (Some base') (off' + DIRENT_SIZE)))"
  by pat_completeness auto
termination
  by (relation "measures [\<lambda>(_, _, _, _, n, _, i, _). n - i, \<lambda>(_, _, _, _, _, _, _, _, _, base, _). if base = None then 0 else 1]")
    (auto simp: minix_consts)

declare dirent_scan.simps [simp del]

text \<open>\<open>return (-1)\<close> is the error code of \<open>EPERM\<close>; the callers only test the sign.\<close>

definition minix_dirent_search :: "nat \<Rightarrow> d_superblock option \<Rightarrow> bitmap_ptr \<Rightarrow> d_inode option \<Rightarrow> disks \<Rightarrow> string option \<Rightarrow> bool \<Rightarrow>
    (nat result \<times> bitmap_ptr \<times> d_inode option \<times> disks) option" where
  "minix_dirent_search dev sb zmap dp ds name create =
     (case (sb, zmap, dp, name) of
        (Some _, Some _, Some dip, Some nm) \<Rightarrow>
          if \<not> S_ISDIR (i_mode dip) then Some (Inl EINVAL, zmap, dp, ds)
          else if MINIX_NAME_MAX < length nm then Some (Inl ENAMETOOLONG, zmap, dp, ds)
          else let nentries = unat (i_size dip) div DIRENT_SIZE in do {
            blk0 \<leftarrow> arr_get (i_zones dip) 0;
            (r, zmap1, dip1, ds1) \<leftarrow> dirent_scan dev sb nm create nentries (zmap, dip, ds) 0 None blk0 None 0;
            case r of
              Inl ret \<Rightarrow> Some (ret, zmap1, Some dip1, ds1)
            | Inr found \<Rightarrow>
                if \<not> create then Some (Inl EPERM, zmap1, Some dip1, ds1)
                else do {
                  let entry = (case found of None \<Rightarrow> nentries | Some k \<Rightarrow> k);
                  (blk, zmap2, dip2, ds2) \<leftarrow> minix_block_map sb zmap1 dip1 ds1 (entry * DIRENT_SIZE) (found = None);
                  let dip3 = (if found = None then dip2\<lparr>i_size := i_size dip2 + of_nat DIRENT_SIZE\<rparr> else dip2);
                  let off = entry mod (MINIX_BLOCK_SIZE div DIRENT_SIZE) * DIRENT_SIZE;
                  Some (Inr (unat blk * MINIX_BLOCK_SIZE + off), zmap2, Some dip3, ds2) } }
      | _ \<Rightarrow> Some (Inl EINVAL, zmap, dp, ds))"

section \<open>Adding and removing\<close>

definition bdev_read_all :: "disks \<Rightarrow> nat \<Rightarrow> nat \<Rightarrow> nat \<Rightarrow> byte list option" where
  "bdev_read_all ds dev n off =
     (case ramdisk_read ds dev False n (int off) of Inr (k, b) \<Rightarrow> do { uassert (k = int n); Some b } | Inl _ \<Rightarrow> None)"

definition bdev_write_all :: "disks \<Rightarrow> nat \<Rightarrow> byte list \<Rightarrow> nat \<Rightarrow> nat \<Rightarrow> disks option" where
  "bdev_write_all ds dev b n off =
     (case ramdisk_write ds dev (Some b) n (int off) of (Inr k, ds') \<Rightarrow> do { uassert (k = int n); Some ds' } | (Inl _, _) \<Rightarrow> None)"

definition minix_dirent_add :: "nat \<Rightarrow> d_superblock option \<Rightarrow> bitmap_ptr \<Rightarrow> d_inode option \<Rightarrow> disks \<Rightarrow> string option \<Rightarrow> minix_ino_t \<Rightarrow>
    (int result \<times> bitmap_ptr \<times> d_inode option \<times> disks) option" where
  "minix_dirent_add dev sb zmap dp ds name num =
     (case (sb, zmap, dp, name) of
        (Some _, Some _, Some dip, Some nm) \<Rightarrow>
          if \<not> S_ISDIR (i_mode dip) then Some (Inl EINVAL, zmap, dp, ds)
          else if MINIX_NAME_MAX < length nm then Some (Inl ENAMETOOLONG, zmap, dp, ds)
          else if num = MINIX_INODE_NULL then Some (Inl EINVAL, zmap, dp, ds)
          else do {
            (r, zmap1, dp1, ds1) \<leftarrow> minix_dirent_search dev sb zmap dp ds name True;
            case r of
              Inl _ \<Rightarrow> Some (Inl EAGAIN, zmap1, dp1, ds1)
            | Inr off \<Rightarrow> do {
                b \<leftarrow> bdev_read_all ds1 dev DIRENT_SIZE off;
                let d = (dec_dirent b)\<lparr>d_ino := num, d_name := ustrncpy MINIX_NAME_MAX nm\<rparr>;
                ds2 \<leftarrow> bdev_write_all ds1 dev (enc_dirent d) DIRENT_SIZE off;
                dip1 \<leftarrow> dp1;
                Some (Inr 0, zmap1, Some (dip1\<lparr>i_nlinks := i_nlinks dip1 + 1, i_time := 0\<rparr>), ds2) } }
      | _ \<Rightarrow> Some (Inl EINVAL, zmap, dp, ds))"

definition minix_dirent_remove :: "nat \<Rightarrow> d_superblock option \<Rightarrow> bitmap_ptr \<Rightarrow> d_inode option \<Rightarrow> disks \<Rightarrow> string option \<Rightarrow>
    (int result \<times> bitmap_ptr \<times> d_inode option \<times> disks) option" where
  "minix_dirent_remove dev sb zmap dp ds name =
     (case (sb, zmap, dp, name) of
        (Some _, Some _, Some dip, Some nm) \<Rightarrow>
          if \<not> S_ISDIR (i_mode dip) then Some (Inl EINVAL, zmap, dp, ds)
          else if MINIX_NAME_MAX < length nm then Some (Inl ENAMETOOLONG, zmap, dp, ds)
          else if nm = ''.'' then Some (Inl EBUSY, zmap, dp, ds)
          else do {
            (r, zmap1, dp1, ds1) \<leftarrow> minix_dirent_search dev sb zmap dp ds name False;
            case r of
              Inl _ \<Rightarrow> Some (Inl ENOENT, zmap1, dp1, ds1)
            | Inr off \<Rightarrow> do {
                b \<leftarrow> bdev_read_all ds1 dev DIRENT_SIZE off;
                let d = dec_dirent b;
                case minix_inode_read ds1 dev sb (d_ino d) of
                  Inl _ \<Rightarrow> Some (Inl ENOENT, zmap1, dp1, ds1)
                | Inr ip \<Rightarrow>
                    if S_ISDIR (i_mode ip) \<and> 0 < i_size ip then Some (Inl EBUSY, zmap1, dp1, ds1)
                    else (case minix_inode_write ds1 dev sb (ip\<lparr>i_nlinks := i_nlinks ip - 1\<rparr>) (d_ino d) of
                      (Inl _, ds2) \<Rightarrow> Some (Inl EAGAIN, zmap1, dp1, ds2)
                    | (Inr _, ds2) \<Rightarrow> do {
                        ds3 \<leftarrow> bdev_write_all ds2 dev (enc_dirent (d\<lparr>d_ino := MINIX_INODE_NULL, d_name := ustrncpy MINIX_NAME_MAX []\<rparr>)) DIRENT_SIZE off;
                        Some (Inr 0, zmap1, dp1, ds3) }) } }
      | _ \<Rightarrow> Some (Inl EINVAL, zmap, dp, ds))"

section \<open>Making and mounting\<close>

definition ROUND :: "nat \<Rightarrow> nat" where "ROUND x = (if x = 0 then 1 else x)"

definition NANVIX_MAX_FILE_SIZE :: "32 word" where "NANVIX_MAX_FILE_SIZE = 64 * 1024 * 1024"

text \<open>The super block of a file system with the given dimensions; the field the code leaves unset is \<open>junk\<close>.\<close>

definition mkfs_super :: "minix_ino_t \<Rightarrow> minix_block_t \<Rightarrow> 16 word \<Rightarrow> d_superblock" where
  "mkfs_super ninodes nblocks junk =
     (let imap_nblocks = of_nat (ROUND (unat ninodes div MINIX_BLOCK_BIT_LENGTH));
          bmap_nblocks = of_nat (ROUND (unat nblocks div MINIX_BLOCK_BIT_LENGTH));
          inode_nblocks = of_nat (ROUND (unat ninodes * INODE_SIZE div MINIX_BLOCK_SIZE)) in
      \<lparr>s_ninodes = ninodes, s_nblocks = nblocks, s_imap_nblocks = imap_nblocks, s_bmap_nblocks = bmap_nblocks,
       s_first_data_block = 0 + 1 + 1 + imap_nblocks + bmap_nblocks + inode_nblocks, unused1 = junk,
       s_max_size = NANVIX_MAX_FILE_SIZE, s_magic = MINIX_SUPER_MAGIC\<rparr>)"

text \<open>The loop that clears the disk, block after block.\<close>

fun mkfs_clear :: "nat \<Rightarrow> disks \<Rightarrow> nat list \<Rightarrow> disks option" where
  "mkfs_clear dev ds [] = Some ds"
| "mkfs_clear dev ds (k # ks) =
     do { ds' \<leftarrow> bdev_write_all ds dev (replicate MINIX_BLOCK_SIZE 0) MINIX_BLOCK_SIZE (k * MINIX_BLOCK_SIZE);
          mkfs_clear dev ds' ks }"

definition root_mode :: "16 word" where
  "root_mode = S_IFDIR OR 0x1C0 OR 0x20 OR 0x8 OR 0x4 OR 0x1"

text \<open>\<open>t1\<close> and \<open>t2\<close> are the times the clock shows when the two inodes are made.\<close>

definition minix_mkfs :: "(nat \<Rightarrow> bool) \<Rightarrow> 64 word \<Rightarrow> 64 word \<Rightarrow> 16 word \<Rightarrow> disks \<Rightarrow> nat \<Rightarrow> minix_ino_t \<Rightarrow> minix_block_t \<Rightarrow> 16 word \<Rightarrow> 16 word \<Rightarrow>
    (int result \<times> disks) option" where
  "minix_mkfs umalloc_ok t1 t2 junk ds dev ninodes nblocks uid gid =
     do { let super = mkfs_super ninodes nblocks junk;
          ds1 \<leftarrow> mkfs_clear dev ds [0..<unat nblocks];
          uassert (umalloc_ok (map_size (s_imap_nblocks super)));
          let imap = replicate (map_size (s_imap_nblocks super) div 4) 0;
          uassert (umalloc_ok (map_size (s_bmap_nblocks super)));
          let bmap = replicate (map_size (s_bmap_nblocks super) div 4) 0;
          (root_num, imap1, ds2) \<leftarrow> minix_inode_alloc ds1 dev (Some super) (Some imap) root_mode uid gid t1;
          uassert (root_num = MINIX_INODE_ROOT);
          root \<leftarrow> (case minix_inode_read ds2 dev (Some super) MINIX_INODE_ROOT of Inl _ \<Rightarrow> None | Inr ip \<Rightarrow> Some ip);
          (_, bmap1, root1, ds3) \<leftarrow> minix_dirent_add dev (Some super) (Some bmap) (Some root) ds2 (Some ''.'') MINIX_INODE_ROOT;
          (_, bmap2, root2, ds4) \<leftarrow> minix_dirent_add dev (Some super) bmap1 root1 ds3 (Some ''..'') MINIX_INODE_ROOT;
          root2' \<leftarrow> root2;
          let (e5, ds5) = minix_inode_write ds4 dev (Some super) root2' MINIX_INODE_ROOT;
          uassert (e5 = Inr 0);
          (num, imap2, ds6) \<leftarrow> minix_inode_alloc ds5 dev (Some super) imap1 (root_mode OR S_IFBLK) uid gid t2;
          uassert (num \<noteq> MINIX_INODE_NULL);
          winode \<leftarrow> (case minix_inode_read ds6 dev (Some super) num of Inl _ \<Rightarrow> None | Inr ip \<Rightarrow> Some ip);
          let winode1 = winode\<lparr>i_size := of_nat NANVIX_DISK_SIZE\<rparr>;
          (_, bmap3, root3, ds7) \<leftarrow> minix_dirent_add dev (Some super) bmap2 root2 ds6 (Some ''disk'') num;
          let (e8, ds8) = minix_inode_write ds7 dev (Some super) winode1 MINIX_INODE_ROOT;
          uassert (e8 = Inr 0);
          root3' \<leftarrow> root3;
          let (e9, ds9) = minix_inode_write ds8 dev (Some super) root3' MINIX_INODE_ROOT;
          uassert (e9 = Inr 0);
          let (e10, ds10) = minix_super_write ds9 dev (Some super) bmap3 imap2;
          uassert (e10 = Inr 0);
          Some (Inr 0, ds10) }"

definition minix_sync :: "d_superblock option \<Rightarrow> bitmap_ptr \<Rightarrow> bitmap_ptr \<Rightarrow> disks \<Rightarrow> nat \<Rightarrow> int result \<times> disks" where
  "minix_sync super imap bmap ds dev =
     (if super = None \<or> imap = None \<or> bmap = None then (Inl EINVAL, ds)
      else case minix_super_write ds dev super bmap imap of
        (Inl _, ds') \<Rightarrow> (Inl EIO, ds')
      | (Inr _, ds') \<Rightarrow> (Inr 0, ds'))"

definition minix_mount :: "(nat \<Rightarrow> bool) \<Rightarrow> disks \<Rightarrow> nat \<Rightarrow> bool \<Rightarrow> errno + (d_superblock \<times> bitmap_t list \<times> bitmap_t list)" where
  "minix_mount umalloc_ok ds dev locations =
     (if \<not> locations then Inl EINVAL
      else case minix_super_read umalloc_ok ds dev locations of
        Inl _ \<Rightarrow> Inl EIO
      | Inr (super, bmap, imap) \<Rightarrow> Inr (super, imap, bmap))"

definition minix_unmount :: "d_superblock option \<Rightarrow> bitmap_ptr \<Rightarrow> bitmap_ptr \<Rightarrow> disks \<Rightarrow> nat \<Rightarrow> int result \<times> disks" where
  "minix_unmount super imap bmap ds dev = minix_sync super imap bmap ds dev"

section \<open>Names\<close>

definition name_ok :: "string \<Rightarrow> bool" where
  "name_ok nm \<longleftrightarrow> length nm \<le> MINIX_NAME_MAX \<and> NUL \<notin> set nm"

definition cname :: "string \<Rightarrow> string" where
  "cname s = takeWhile (\<lambda>c. c \<noteq> NUL) s"

lemma ustrncmp_eq_iff:
  "length s = n \<Longrightarrow> length t \<le> n \<Longrightarrow> NUL \<notin> set t \<Longrightarrow> ustrncmp_eq n s t \<longleftrightarrow> cname s = t"
proof (induction n arbitrary: s t)
  case 0
  then show ?case by (simp add: cname_def)
next
  case (Suc n)
  then obtain c s' where s: "s = c # s'" "length s' = n" by (cases s) auto
  show ?case
  proof (cases t)
    case Nil
    with s show ?thesis by (auto simp: cname_def)
  next
    case (Cons d t')
    with Suc.prems s Suc.IH [of s' t'] show ?thesis by (auto simp: cname_def)
  qed
qed

lemma length_ustrncpy [simp]: "length (ustrncpy n s) = n"
  by (simp add: ustrncpy_def)

lemma cname_ustrncpy [simp]: "name_ok nm \<Longrightarrow> cname (ustrncpy MINIX_NAME_MAX nm) = nm"
proof -
  assume "name_ok nm"
  then have nm: "length nm \<le> MINIX_NAME_MAX" "\<And>c. c \<in> set nm \<Longrightarrow> c \<noteq> NUL" by (auto simp: name_ok_def)
  have "takeWhile (\<lambda>c. c \<noteq> NUL) (nm @ replicate k NUL) = nm" for k
    using nm(2) by (induction nm) (auto intro: takeWhile_eq_Nil_iff [THEN iffD2])
  with nm(1) show ?thesis by (simp add: cname_def ustrncpy_def)
qed

lemma length_d_name [simp]: "length b = DIRENT_SIZE \<Longrightarrow> length (d_name (dec_dirent b)) = MINIX_NAME_MAX"
  by (simp add: dec_dirent_def minix_consts)

section \<open>Entries of a directory\<close>

definition ents :: "d_inode \<Rightarrow> nat" where "ents dip = unat (i_size dip) div DIRENT_SIZE"

abbreviation zone :: "d_inode \<Rightarrow> nat \<Rightarrow> minix_block_t" where "zone dip k \<equiv> i_zones dip ! k"

definition ent_off :: "d_inode \<Rightarrow> nat \<Rightarrow> nat" where
  "ent_off dip k = unat (zone dip (k div 64)) * MINIX_BLOCK_SIZE + k mod 64 * DIRENT_SIZE"

definition dirent_at :: "disks \<Rightarrow> d_inode \<Rightarrow> nat \<Rightarrow> d_dirent" where
  "dirent_at ds dip k = dec_dirent (disk_get ds (ent_off dip k) DIRENT_SIZE)"

definition names :: "d_dirent \<Rightarrow> string \<Rightarrow> bool" where
  "names d nm \<longleftrightarrow> d_ino d \<noteq> MINIX_INODE_NULL \<and> cname (d_name d) = nm"

definition dir_list :: "disks \<Rightarrow> d_inode \<Rightarrow> d_dirent list" where
  "dir_list ds dip = map (dirent_at ds dip) [0..<ents dip]"

definition dir_lookup :: "disks \<Rightarrow> d_inode \<Rightarrow> string \<Rightarrow> minix_ino_t option" where
  "dir_lookup ds dip nm = map_option (\<lambda>k. d_ino (dirent_at ds dip k)) (first_index (\<lambda>d. names d nm) (dir_list ds dip))"

text \<open>The blocks of a directory of \<open>n\<close> entries, all of them direct.\<close>

definition nzones :: "nat \<Rightarrow> nat" where "nzones n = (n + 63) div 64"

definition zone_ok :: "d_superblock \<Rightarrow> bitmap_t list \<Rightarrow> minix_block_t \<Rightarrow> bool" where
  "zone_ok s z b \<longleftrightarrow> unat (s_first_data_block s) \<le> unat b \<and> unat b < 64 \<and> unat b - unat (s_first_data_block s) \<in> bits z"

definition dir_struct :: "d_superblock \<Rightarrow> bitmap_t list \<Rightarrow> d_inode \<Rightarrow> disks \<Rightarrow> bool" where
  "dir_struct s z dip ds \<longleftrightarrow> super_wf s \<and> map_wf (s_bmap_nblocks s) z \<and> disks_ok ds \<and> inode_wf dip \<and> S_ISDIR (i_mode dip) \<and>
     7168 \<le> unat (s_max_size s) \<and> unat (i_size dip) = DIRENT_SIZE * ents dip \<and> ents dip \<le> 448 \<and>
     (\<forall>k<7. if k < nzones (ents dip) then zone_ok s z (zone dip k) else zone dip k = MINIX_BLOCK_NULL) \<and>
     inj_on (zone dip) {..<nzones (ents dip)}"

definition dir_wf :: "d_superblock \<Rightarrow> bitmap_t list \<Rightarrow> d_inode \<Rightarrow> disks \<Rightarrow> bool" where
  "dir_wf s z dip ds \<longleftrightarrow> dir_struct s z dip ds \<and>
     (\<forall>i<ents dip. \<forall>j<ents dip. \<forall>nm. names (dirent_at ds dip i) nm \<and> names (dirent_at ds dip j) nm \<longrightarrow> i = j)"

lemma dir_structD:
  assumes "dir_struct s z dip ds"
  shows "super_wf s" "map_wf (s_bmap_nblocks s) z" "disks_ok ds" "inode_wf dip" "S_ISDIR (i_mode dip)"
    "7168 \<le> unat (s_max_size s)" "unat (i_size dip) = DIRENT_SIZE * ents dip" "ents dip \<le> 448"
    "inj_on (zone dip) {..<nzones (ents dip)}"
    "\<And>k. k < nzones (ents dip) \<Longrightarrow> zone_ok s z (zone dip k)"
    "\<And>k. \<not> k < nzones (ents dip) \<Longrightarrow> k < 7 \<Longrightarrow> zone dip k = MINIX_BLOCK_NULL"
    "length (i_zones dip) = 9" "nzones (ents dip) \<le> 7"
proof -
  note d = assms [unfolded dir_struct_def]
  show "super_wf s" "map_wf (s_bmap_nblocks s) z" "disks_ok ds" "inode_wf dip" "S_ISDIR (i_mode dip)"
    "7168 \<le> unat (s_max_size s)" "unat (i_size dip) = DIRENT_SIZE * ents dip" "ents dip \<le> 448"
    "inj_on (zone dip) {..<nzones (ents dip)}"
    using d by blast+
  then show "nzones (ents dip) \<le> 7" by (simp add: nzones_def)
  then show "zone_ok s z (zone dip k)" if "k < nzones (ents dip)" for k using d that by (auto split: if_splits)
  show "zone dip k = MINIX_BLOCK_NULL" if "\<not> k < nzones (ents dip)" "k < 7" for k using d that by auto
  show "length (i_zones dip) = 9" using d by (simp add: inode_wf_def MINIX_NR_ZONES_def)
qed

lemma dir_wfD:
  assumes "dir_wf s z dip ds"
  shows "dir_struct s z dip ds"
    "\<And>i j nm. i < ents dip \<Longrightarrow> j < ents dip \<Longrightarrow> names (dirent_at ds dip i) nm \<Longrightarrow> names (dirent_at ds dip j) nm \<Longrightarrow> i = j"
  using assms unfolding dir_wf_def by blast+

lemma nzones_iff: "k < n \<Longrightarrow> k div 64 < nzones n"
  by (simp add: nzones_def)

lemma zone_ok_nz: "super_wf s \<Longrightarrow> zone_ok s z b \<Longrightarrow> b \<noteq> MINIX_BLOCK_NULL"
proof -
  assume "super_wf s" "zone_ok s z b"
  moreover from this have "0 < unat (s_first_data_block s)"
    by (auto simp: super_wf_def table_off_def data_off_def minix_consts)
  ultimately show ?thesis by (auto simp: zone_ok_def MINIX_BLOCK_NULL_def)
qed

lemma dir_zone_nz: "dir_struct s z dip ds \<Longrightarrow> k < nzones (ents dip) \<Longrightarrow> zone dip k \<noteq> MINIX_BLOCK_NULL"
  by (rule zone_ok_nz [OF dir_structD(1) dir_structD(10)])

lemma zone_bound: "zone_ok s z b \<Longrightarrow> data_off s \<le> unat b * 1024 \<and> unat b * 1024 + 1024 \<le> NANVIX_RAMDISK_SIZE"
  by (auto simp: zone_ok_def data_off_def minix_consts disk_consts)

text \<open>The entry \<open>k\<close> lies in the data blocks of the disk; different entries do not overlap.\<close>

lemma ent_off_bound:
  assumes "dir_struct s z dip ds" "k div 64 < nzones (ents dip)"
  shows "data_off s \<le> ent_off dip k" "ent_off dip k < NANVIX_RAMDISK_SIZE" "ent_off dip k + DIRENT_SIZE \<le> NANVIX_RAMDISK_SIZE"
proof -
  have "zone_ok s z (zone dip (k div 64))" using dir_structD(10) [OF assms(1)] assms(2) by blast
  from zone_bound [OF this] have b: "data_off s \<le> unat (zone dip (k div 64)) * 1024"
    "unat (zone dip (k div 64)) * 1024 + 1024 \<le> NANVIX_RAMDISK_SIZE" by auto
  moreover have "k mod 64 * 16 + 16 \<le> 1024" using mod_less_divisor [of 64 k] by linarith
  ultimately show "data_off s \<le> ent_off dip k" "ent_off dip k < NANVIX_RAMDISK_SIZE" "ent_off dip k + DIRENT_SIZE \<le> NANVIX_RAMDISK_SIZE"
    by (simp_all add: ent_off_def minix_consts)
qed

lemma ent_off_disjoint:
  assumes "inj_on (zone dip) {..<m}" "i div 64 < m" "j div 64 < m" "i \<noteq> j"
  shows "ent_off dip i + DIRENT_SIZE \<le> ent_off dip j \<or> ent_off dip j + DIRENT_SIZE \<le> ent_off dip i"
proof (cases "i div 64 = j div 64")
  case True
  then have "i mod 64 \<noteq> j mod 64" using assms(4) by (metis mod_div_decomp)
  with True show ?thesis by (auto simp: ent_off_def minix_consts)
next
  case False
  then have "unat (zone dip (i div 64)) \<noteq> unat (zone dip (j div 64))"
    using assms(1-3) by (auto simp: inj_on_def simp flip: word_unat_eq_iff)
  moreover have "i mod 64 * 16 + 16 \<le> 1024" "j mod 64 * 16 + 16 \<le> 1024"
    using mod_less_divisor [of 64 i] mod_less_divisor [of 64 j] by linarith+
  ultimately show ?thesis by (auto simp: ent_off_def minix_consts)
qed

lemma dir_list_nth: "k < ents dip \<Longrightarrow> dir_list ds dip ! k = dirent_at ds dip k"
  by (simp add: dir_list_def)

lemma length_dir_list [simp]: "length (dir_list ds dip) = ents dip"
  by (simp add: dir_list_def)

lemma dir_lookup_eq:
  assumes "dir_wf s z dip ds" "k < ents dip" "names (dirent_at ds dip k) nm"
  shows "dir_lookup ds dip nm = Some (d_ino (dirent_at ds dip k))"
proof -
  have "first_index (\<lambda>d. names d nm) (dir_list ds dip) = Some k"
    using assms dir_wfD(2) [OF assms(1)] by (intro first_index_unique) (auto simp: dir_list_nth)
  then show ?thesis by (simp add: dir_lookup_def)
qed

lemma dir_lookup_None: "dir_lookup ds dip nm = None \<longleftrightarrow> (\<forall>k<ents dip. \<not> names (dirent_at ds dip k) nm)"
  by (auto simp: dir_lookup_def first_index_None_iff dir_list_nth)

lemma dir_lookup_SomeE:
  assumes "dir_lookup ds dip nm = Some num"
  obtains k where "k < ents dip" "names (dirent_at ds dip k) nm" "d_ino (dirent_at ds dip k) = num"
  using assms by (auto simp: dir_lookup_def first_index_Some_iff dir_list_nth)

lemma names_scan:
  assumes "disks_ok ds" "ent_off dip k + DIRENT_SIZE \<le> NANVIX_RAMDISK_SIZE" "name_ok nm"
  shows "d_ino (dirent_at ds dip k) \<noteq> MINIX_INODE_NULL \<and> ustrncmp_eq MINIX_NAME_MAX (d_name (dirent_at ds dip k)) nm \<longleftrightarrow>
    names (dirent_at ds dip k) nm"
  using assms ustrncmp_eq_iff [of "d_name (dirent_at ds dip k)" MINIX_NAME_MAX nm]
  by (simp add: names_def dirent_at_def name_ok_def)

section \<open>Searching a directory\<close>

text \<open>Inside a directory the block map reads the inode and changes nothing.\<close>

lemma block_map_dir:
  assumes "dir_struct s z dip ds" "k div 64 < nzones (ents dip)"
  shows "minix_block_map (Some s) zm dip ds (k * DIRENT_SIZE) c = Some (zone dip (k div 64), zm, dip, ds)"
proof -
  note d = dir_structD [OF assms(1)]
  have k7: "k div 64 < 7" using assms(2) d(13) by simp
  have k: "k * 16 div 1024 = k div 64" using div_mult2_eq [of "k * 16" 16 64] by simp
  have "unat (of_nat (k div 64) :: minix_block_t) = k div 64" using k7 by (intro unat_of_nat_lt) simp
  moreover have "unat (of_nat (k * 16) :: 32 word) = k * 16" using k7 by (intro unat_of_nat_lt) simp
  then have "\<not> s_max_size s \<le> of_nat (k * 16)" using d(6) k7 by (simp add: word_le_nat_alt)
  moreover have "zone dip (k div 64) \<noteq> MINIX_BLOCK_NULL" by (rule dir_zone_nz [OF assms])
  ultimately show ?thesis
    using k k7 d(1,12) by (simp add: minix_block_map_def map_direct_def minix_consts Let_def super_wf_def)
qed

definition scan_at :: "d_inode \<Rightarrow> nat \<Rightarrow> minix_block_t \<Rightarrow> nat option \<Rightarrow> nat \<Rightarrow> bool" where
  "scan_at dip i blk base off \<longleftrightarrow> blk = zone dip (i div 64) \<and>
     (if i mod 64 = 0 then base = None else base = Some (unat blk * MINIX_BLOCK_SIZE) \<and> off = i mod 64 * DIRENT_SIZE)"

definition last_free :: "disks \<Rightarrow> d_inode \<Rightarrow> nat \<Rightarrow> nat option \<Rightarrow> bool" where
  "last_free ds dip n found \<longleftrightarrow> (case found of None \<Rightarrow> \<forall>k<n. d_ino (dirent_at ds dip k) \<noteq> MINIX_INODE_NULL
     | Some k \<Rightarrow> k < n \<and> d_ino (dirent_at ds dip k) = MINIX_INODE_NULL)"

lemma scan_entry:
  assumes "dir_struct s z dip ds" "i < ents dip" "scan_at dip i blk base off" "name_ok nm"
  shows "dirent_scan 0 (Some s) nm create (ents dip) (zm, dip, ds) i entry blk base off =
    (if names (dirent_at ds dip i) nm then Some (Inl (if create then Inl EEXIST else Inr (ent_off dip i)), zm, dip, ds)
     else dirent_scan 0 (Some s) nm create (ents dip) (zm, dip, ds) (Suc i)
       (if d_ino (dirent_at ds dip i) = MINIX_INODE_NULL then Some i else entry)
       blk (Some (unat blk * MINIX_BLOCK_SIZE)) (i mod 64 * DIRENT_SIZE + DIRENT_SIZE))"
proof -
  note d = dir_structD [OF assms(1)]
  have z: "i div 64 < nzones (ents dip)" using assms(2) by (rule nzones_iff)
  have blk: "blk = zone dip (i div 64)" using assms(3) by (simp add: scan_at_def)
  have nz: "blk \<noteq> MINIX_BLOCK_NULL" using dir_zone_nz [OF assms(1) z] blk by simp
  have lt: "i mod 64 * DIRENT_SIZE < MINIX_BLOCK_SIZE" using mod_less_divisor [of 64 i] by (simp add: minix_consts)
  have pos: "\<not> (base \<noteq> None \<and> MINIX_BLOCK_SIZE \<le> off)"
    "(case base of None \<Rightarrow> unat blk * MINIX_BLOCK_SIZE | Some b \<Rightarrow> b) = unat blk * MINIX_BLOCK_SIZE"
    "(if base = None then 0 else off) = i mod 64 * DIRENT_SIZE"
    using assms(3) lt by (auto simp: scan_at_def split: if_splits)
  have o: "unat blk * MINIX_BLOCK_SIZE + i mod 64 * DIRENT_SIZE = ent_off dip i" by (simp add: ent_off_def blk)
  have r: "ramdisk_read ds 0 False DIRENT_SIZE (int (ent_off dip i)) = Inr (int DIRENT_SIZE, disk_get ds (ent_off dip i) DIRENT_SIZE)"
    using ent_off_bound [OF assms(1) z] by (simp add: ramdisk_read_get)
  have n: "names (dirent_at ds dip i) nm \<longleftrightarrow> d_ino (dirent_at ds dip i) \<noteq> MINIX_INODE_NULL \<and>
      ustrncmp_eq MINIX_NAME_MAX (d_name (dirent_at ds dip i)) nm"
    using names_scan [OF d(3) ent_off_bound(3) [OF assms(1) z] assms(4)] by simp
  show ?thesis
    unfolding dirent_scan.simps [of 0 "Some s" nm create "ents dip" zm dip ds i entry blk base off]
    by (simp only: Let_def pos o r nz assms(2) not_True_eq_False if_False sum.case prod.case n flip: dirent_at_def)
qed

lemma scan_next:
  assumes "dir_struct s z dip ds" "Suc i < ents dip" "blk = zone dip (i div 64)"
  obtains blk' base' off' where "scan_at dip (Suc i) blk' base' off'"
    "dirent_scan 0 (Some s) nm create (ents dip) (zm, dip, ds) (Suc i) entry blk (Some (unat blk * MINIX_BLOCK_SIZE)) (i mod 64 * DIRENT_SIZE + DIRENT_SIZE) =
     dirent_scan 0 (Some s) nm create (ents dip) (zm, dip, ds) (Suc i) entry blk' base' off'"
proof (cases "Suc i mod 64 = 0")
  case False
  then have "Suc i div 64 = i div 64" "Suc i mod 64 = Suc (i mod 64)" by (auto simp: div_Suc mod_Suc split: if_splits)
  with False assms(3) show thesis
    by (intro that [of blk "Some (unat blk * MINIX_BLOCK_SIZE)" "i mod 64 * DIRENT_SIZE + DIRENT_SIZE"])
      (simp_all add: scan_at_def)
next
  case True
  then have i: "i mod 64 = 63" by (auto simp: mod_Suc split: if_splits)
  note d = dir_structD [OF assms(1)]
  have z: "i div 64 < nzones (ents dip)" "Suc i div 64 < nzones (ents dip)" using assms(2) by (auto intro: nzones_iff)
  have nz: "blk \<noteq> MINIX_BLOCK_NULL" using dir_zone_nz [OF assms(1) z(1)] assms(3) by simp
  have "dirent_scan 0 (Some s) nm create (ents dip) (zm, dip, ds) (Suc i) entry blk (Some (unat blk * MINIX_BLOCK_SIZE)) (i mod 64 * DIRENT_SIZE + DIRENT_SIZE) =
     dirent_scan 0 (Some s) nm create (ents dip) (zm, dip, ds) (Suc i) entry (zone dip (Suc i div 64)) None (i mod 64 * DIRENT_SIZE + DIRENT_SIZE)"
    using assms(2) nz i block_map_dir [OF assms(1) z(2)]
    by (subst dirent_scan.simps) (simp add: minix_consts)
  with True show thesis by (intro that [of "zone dip (Suc i div 64)" None]) (simp_all add: scan_at_def)
qed

lemma dirent_scan_spec:
  assumes "dir_struct s z dip ds" "scan_at dip i blk base off" "name_ok nm" "i \<le> ents dip"
    and "\<forall>k<i. \<not> names (dirent_at ds dip k) nm" "last_free ds dip i entry"
  shows "(\<exists>k<ents dip. names (dirent_at ds dip k) nm \<and>
      dirent_scan 0 (Some s) nm create (ents dip) (zm, dip, ds) i entry blk base off =
        Some (Inl (if create then Inl EEXIST else Inr (ent_off dip k)), zm, dip, ds)) \<or>
    (\<forall>k<ents dip. \<not> names (dirent_at ds dip k) nm) \<and> (\<exists>found. last_free ds dip (ents dip) found \<and>
      dirent_scan 0 (Some s) nm create (ents dip) (zm, dip, ds) i entry blk base off = Some (Inr found, zm, dip, ds))"
  using assms(2,4-6)
proof (induction "ents dip - i" arbitrary: i blk base off entry)
  case 0
  then have "i = ents dip" by simp
  with 0 show ?case by (subst (1 2) dirent_scan.simps) auto
next
  case (Suc m)
  then have i: "i < ents dip" by simp
  note e = scan_entry [OF assms(1) i Suc.prems(1) assms(3), of create zm entry]
  show ?case
  proof (cases "names (dirent_at ds dip i) nm")
    case True
    with e i show ?thesis by auto
  next
    case False
    let ?entry = "if d_ino (dirent_at ds dip i) = MINIX_INODE_NULL then Some i else entry"
    have blk: "blk = zone dip (i div 64)" using Suc.prems(1) by (simp add: scan_at_def)
    have lf: "last_free ds dip (Suc i) ?entry"
      using Suc.prems(4) by (auto simp: last_free_def less_Suc_eq split: option.splits)
    have nn: "\<forall>k<Suc i. \<not> names (dirent_at ds dip k) nm" using Suc.prems(3) False by (auto simp: less_Suc_eq)
    show ?thesis
    proof (cases "Suc i = ents dip")
      case True
      with e False lf nn show ?thesis by (subst (asm) (2) dirent_scan.simps) auto
    next
      case neq: False
      then have "Suc i < ents dip" using i by simp
      then obtain blk' base' off' where n: "scan_at dip (Suc i) blk' base' off'"
        "dirent_scan 0 (Some s) nm create (ents dip) (zm, dip, ds) (Suc i) ?entry blk (Some (unat blk * MINIX_BLOCK_SIZE)) (i mod 64 * DIRENT_SIZE + DIRENT_SIZE) =
         dirent_scan 0 (Some s) nm create (ents dip) (zm, dip, ds) (Suc i) ?entry blk' base' off'"
        by (rule scan_next [OF assms(1) _ blk])
      have "m = ents dip - Suc i" using Suc.hyps(2) by simp
      from Suc.hyps(1) [OF this n(1) _ nn lf] i e n(2) False show ?thesis by simp
    qed
  qed
qed

lemma ents_per_block: "MINIX_BLOCK_SIZE div DIRENT_SIZE = 64"
  by (simp add: minix_consts)

lemma search_by_scan:
  assumes "dir_struct s z dip ds" "name_ok nm"
  shows "dirent_scan 0 (Some s) nm create (ents dip) (Some z, dip, ds) 0 None (zone dip 0) None 0 = Some (Inl ret, Some z, dip, ds) \<Longrightarrow>
      minix_dirent_search 0 (Some s) (Some z) (Some dip) ds (Some nm) create = Some (ret, Some z, Some dip, ds)"
    and "dirent_scan 0 (Some s) nm False (ents dip) (Some z, dip, ds) 0 None (zone dip 0) None 0 = Some (Inr found, Some z, dip, ds) \<Longrightarrow>
      minix_dirent_search 0 (Some s) (Some z) (Some dip) ds (Some nm) False = Some (Inl EPERM, Some z, Some dip, ds)"
    and "dirent_scan 0 (Some s) nm True (ents dip) (Some z, dip, ds) 0 None (zone dip 0) None 0 = Some (Inr found, Some z, dip, ds) \<Longrightarrow>
      minix_block_map (Some s) (Some z) dip ds ((case found of None \<Rightarrow> ents dip | Some k \<Rightarrow> k) * DIRENT_SIZE) (found = None) = Some (blk, z2, dip2, ds2) \<Longrightarrow>
      minix_dirent_search 0 (Some s) (Some z) (Some dip) ds (Some nm) True =
        Some (Inr (unat blk * MINIX_BLOCK_SIZE + (case found of None \<Rightarrow> ents dip | Some k \<Rightarrow> k) mod 64 * DIRENT_SIZE), z2,
          Some (if found = None then dip2\<lparr>i_size := i_size dip2 + of_nat DIRENT_SIZE\<rparr> else dip2), ds2)"
  using assms dir_structD(5,12) [OF assms(1)]
  by (simp_all add: minix_dirent_search_def name_ok_def ents_def [symmetric] ents_per_block Let_def)

lemma scan_start: "scan_at dip 0 (zone dip 0) None 0"
  by (simp add: scan_at_def)

lemma dir_search_hit:
  assumes "dir_wf s z dip ds" "name_ok nm" "k < ents dip" "names (dirent_at ds dip k) nm"
  shows "minix_dirent_search 0 (Some s) (Some z) (Some dip) ds (Some nm) create =
    Some (if create then Inl EEXIST else Inr (ent_off dip k), Some z, Some dip, ds)"
proof -
  note d = dir_wfD [OF assms(1)]
  obtain k' where k': "k' < ents dip" "names (dirent_at ds dip k') nm"
    "dirent_scan 0 (Some s) nm create (ents dip) (Some z, dip, ds) 0 None (zone dip 0) None 0 =
      Some (Inl (if create then Inl EEXIST else Inr (ent_off dip k')), Some z, dip, ds)"
    using dirent_scan_spec [OF d(1) scan_start assms(2), of None create "Some z"] assms(3,4)
    by (auto simp: last_free_def)
  from d(2) [OF k'(1) assms(3) k'(2) assms(4)] k'(3) search_by_scan(1) [OF d(1) assms(2)] show ?thesis by auto
qed

lemma dir_scan_miss:
  assumes "dir_struct s z dip ds" "name_ok nm" "dir_lookup ds dip nm = None"
  obtains found where "last_free ds dip (ents dip) found"
    "dirent_scan 0 (Some s) nm create (ents dip) (Some z, dip, ds) 0 None (zone dip 0) None 0 = Some (Inr found, Some z, dip, ds)"
  using dirent_scan_spec [OF assms(1) scan_start assms(2), of None create "Some z"] assms(3)
  by (auto simp: last_free_def dir_lookup_None)

lemma dir_search_miss:
  assumes "dir_struct s z dip ds" "name_ok nm" "dir_lookup ds dip nm = None"
  shows "minix_dirent_search 0 (Some s) (Some z) (Some dip) ds (Some nm) False = Some (Inl EPERM, Some z, Some dip, ds)"
  by (rule dir_scan_miss [OF assms, of False]) (rule search_by_scan(2) [OF assms(1,2)])

section \<open>Changing a directory\<close>

lemma ent_off_cong: "i_zones dip' = i_zones dip \<Longrightarrow> ent_off dip' k = ent_off dip k"
  by (simp add: ent_off_def)

lemma dirent_at_cong: "i_zones dip' = i_zones dip \<Longrightarrow> dirent_at ds dip' k = dirent_at ds dip k"
  using ent_off_cong [of dip' dip k] by (simp add: dirent_at_def)

lemma dir_struct_cong:
  assumes "dir_struct s z dip ds" "disks_ok ds'" "i_zones dip' = i_zones dip" "i_size dip' = i_size dip" "i_mode dip' = i_mode dip"
  shows "dir_struct s z dip' ds'"
  using assms by (simp add: dir_struct_def ents_def inode_wf_def)

lemma dirent_put:
  assumes "dir_struct s z dip ds" "k < ents dip" "length (d_name d) = MINIX_NAME_MAX"
  defines "ds' \<equiv> disk_put ds (ent_off dip k) (enc_dirent d)"
  shows "bdev_write_all ds 0 (enc_dirent d) DIRENT_SIZE (ent_off dip k) = Some ds'"
    and "dir_struct s z dip ds'" "j < ents dip \<Longrightarrow> dirent_at ds' dip j = (if j = k then d else dirent_at ds dip j)"
    and "off + n \<le> data_off s \<Longrightarrow> disk_get ds' off n = disk_get ds off n"
proof -
  note D = dir_structD [OF assms(1)]
  note b = ent_off_bound [OF assms(1) nzones_iff [OF assms(2)]]
  show "bdev_write_all ds 0 (enc_dirent d) DIRENT_SIZE (ent_off dip k) = Some ds'"
    using b assms(3) by (simp add: bdev_write_all_def ramdisk_write_put ds'_def)
  have ok: "disks_ok ds'" unfolding ds'_def using D(3) b(3) assms(3) by simp
  then show "dir_struct s z dip ds'" by (rule dir_struct_cong [OF assms(1)]) simp_all
  show "dirent_at ds' dip j = (if j = k then d else dirent_at ds dip j)" if j: "j < ents dip"
  proof (cases "j = k")
    case True
    with D(3) b(3) assms(3) show ?thesis by (simp add: dirent_at_def ds'_def disk_get_put_same)
  next
    case False
    from ent_off_disjoint [OF D(9) nzones_iff [OF j] nzones_iff [OF assms(2)] False]
    have "disk_get ds' (ent_off dip j) DIRENT_SIZE = disk_get ds (ent_off dip j) DIRENT_SIZE"
      unfolding ds'_def using D(3) b(3) assms(3) ent_off_bound(3) [OF assms(1) nzones_iff [OF j]]
      by (intro disk_get_put_other) auto
    with False show ?thesis by (simp add: dirent_at_def)
  qed
  show "disk_get ds' off n = disk_get ds off n" if "off + n \<le> data_off s"
    unfolding ds'_def using D(1,3) b assms(3) that data_off_bound [of s] by (intro disk_get_put_other) auto
qed

text \<open>Room for one more entry: a free one, space in the last block, or a free block on the disk.\<close>

definition dir_room :: "d_superblock \<Rightarrow> bitmap_t list \<Rightarrow> d_inode \<Rightarrow> disks \<Rightarrow> bool" where
  "dir_room s z dip ds \<longleftrightarrow> (\<exists>k<ents dip. d_ino (dirent_at ds dip k) = MINIX_INODE_NULL) \<or>
     ents dip < 448 \<and> (ents dip mod 64 \<noteq> 0 \<or> (\<exists>b. least_clear z b \<and> unat (s_first_data_block s) + b < 64))"

text \<open>The place an added entry gets.\<close>

definition dir_slot :: "d_superblock \<Rightarrow> bitmap_t list \<Rightarrow> d_inode \<Rightarrow> disks \<Rightarrow> nat \<Rightarrow> bitmap_t list \<Rightarrow> d_inode \<Rightarrow> bool" where
  "dir_slot s z dip ds k z' dip' \<longleftrightarrow> dir_struct s z' dip' ds \<and> k < ents dip' \<and> bits z \<subseteq> bits z' \<and>
     i_nlinks dip' = i_nlinks dip \<and>
     (if k < ents dip then ents dip' = ents dip \<and> d_ino (dirent_at ds dip k) = MINIX_INODE_NULL else k = ents dip \<and> ents dip' = Suc k) \<and>
     (\<forall>j<ents dip. dirent_at ds dip' j = dirent_at ds dip j)"

lemma nzones_Suc: "nzones (Suc n) = Suc (n div 64)"
  by (simp add: nzones_def)

lemma nzones_partial: "n mod 64 \<noteq> 0 \<Longrightarrow> nzones n = Suc (n div 64) \<and> nzones (Suc n) = Suc (n div 64)"
proof -
  assume r: "n mod 64 \<noteq> 0"
  have "n mod 64 < 64" by simp
  then have "(n mod 64 + 63) div 64 = 1" using r by (intro div_nat_eqI) auto
  moreover have "n + 63 = (n mod 64 + 63) + 64 * (n div 64)" by simp
  ultimately have "(n + 63) div 64 = 1 + n div 64" by (metis add.commute div_mult_self2 zero_neq_numeral)
  then show ?thesis by (simp add: nzones_def)
qed

lemma size_grow:
  assumes "dir_struct s z dip ds" "ents dip < 448" "i_size dip' = i_size dip + of_nat DIRENT_SIZE"
  shows "unat (i_size dip') = DIRENT_SIZE * Suc (ents dip)" "ents dip' = Suc (ents dip)"
proof -
  have "unat (i_size dip) = 16 * ents dip" using dir_structD(7) [OF assms(1)] by (simp add: DIRENT_SIZE_def)
  then show u: "unat (i_size dip') = DIRENT_SIZE * Suc (ents dip)"
    using assms(2,3) by (simp add: unat_word_ariths DIRENT_SIZE_def)
  then show "ents dip' = Suc (ents dip)" by (simp add: ents_def [of dip'] DIRENT_SIZE_def)
qed

lemma dir_grow_inside:
  assumes "dir_struct s z dip ds" "ents dip < 448" "ents dip mod 64 \<noteq> 0"
  defines "dip' \<equiv> dip\<lparr>i_size := i_size dip + of_nat DIRENT_SIZE\<rparr>"
  shows "minix_block_map (Some s) (Some z) dip ds (ents dip * DIRENT_SIZE) True = Some (zone dip (ents dip div 64), Some z, dip, ds)"
    and "dir_slot s z dip ds (ents dip) z dip'"
proof -
  note D = dir_structD [OF assms(1)]
  have sz: "unat (i_size dip') = DIRENT_SIZE * Suc (ents dip)" "ents dip' = Suc (ents dip)"
    using size_grow [OF assms(1,2), of dip'] by (simp_all add: dip'_def)
  have nz: "nzones (Suc (ents dip)) = nzones (ents dip)" "ents dip div 64 < nzones (ents dip)"
    using nzones_partial [OF assms(3)] by simp_all
  from block_map_dir [OF assms(1) nz(2)]
  show "minix_block_map (Some s) (Some z) dip ds (ents dip * DIRENT_SIZE) True = Some (zone dip (ents dip div 64), Some z, dip, ds)" .
  have "dir_struct s z dip' ds"
    using assms(1,2) sz nz by (simp add: dir_struct_def dip'_def inode_wf_def)
  moreover have "dirent_at ds dip' j = dirent_at ds dip j" for j by (rule dirent_at_cong) (simp add: dip'_def)
  ultimately show "dir_slot s z dip ds (ents dip) z dip'"
    using sz by (simp add: dir_slot_def) (simp add: dip'_def)
qed

lemma dir_grow_block:
  assumes "dir_struct s z dip ds" "ents dip < 448" "ents dip mod 64 = 0" "least_clear z b" "unat (s_first_data_block s) + b < 64"
  defines "dip1 \<equiv> dip\<lparr>i_zones := (i_zones dip)[ents dip div 64 := data_block s b]\<rparr>"
  obtains z' where
    "minix_block_map (Some s) (Some z) dip ds (ents dip * DIRENT_SIZE) True = Some (data_block s b, Some z', dip1, ds)"
    "dir_slot s z dip ds (ents dip) z' (dip1\<lparr>i_size := i_size dip1 + of_nat DIRENT_SIZE\<rparr>)"
proof -
  note D = dir_structD [OF assms(1)]
  let ?m = "ents dip div 64" and ?dip' = "dip1\<lparr>i_size := i_size dip1 + of_nat DIRENT_SIZE\<rparr>"
  have m: "?m < 7" "64 * ?m = ents dip" using assms(2,3) by auto
  then have nz: "nzones (ents dip) = ?m" "nzones (Suc (ents dip)) = Suc ?m" by (simp_all add: nzones_def)
  obtain z' where z': "minix_block_alloc (Some s) (Some z) = Some (data_block s b, Some z')"
    "map_wf (s_bmap_nblocks s) z'" "bits z' = insert b (bits z)"
    by (rule block_alloc_ok [OF D(1,2) assms(4)])
  have sz: "unat (i_size ?dip') = DIRENT_SIZE * Suc (ents dip)" "ents ?dip' = Suc (ents dip)"
    using size_grow [OF assms(1,2), of ?dip'] by (simp_all add: dip1_def)
  have null: "zone dip ?m = MINIX_BLOCK_NULL" using D(11) [of ?m] m nz by simp
  have ub: "unat (data_block s b) = unat (s_first_data_block s) + b"
    unfolding data_block_def by (rule unat_of_nat_lt) (use assms(5) in simp)
  have zones: "zone ?dip' k = (if k = ?m then data_block s b else zone dip k)" if "k < 9" for k
    using that m D(12) by (simp add: dip1_def)
  have old: "zone_ok s z (zone dip k)" if "k < ?m" for k using D(10) [of k] that nz by simp
  have fresh: "zone dip k \<noteq> data_block s b" if "k < ?m" for k
    using old [OF that] assms(4) ub by (auto simp: zone_ok_def least_clear_def)
  have map: "minix_block_map (Some s) (Some z) dip ds (ents dip * DIRENT_SIZE) True = Some (data_block s b, Some z', dip1, ds)"
  proof -
    have k: "ents dip * 16 div 1024 = ?m" using div_mult2_eq [of "ents dip * 16" 16 64] by simp
    have "unat (of_nat ?m :: minix_block_t) = ?m" using m by (intro unat_of_nat_lt) simp
    moreover have "unat (of_nat (ents dip * 16) :: 32 word) = ents dip * 16" using assms(2) by (intro unat_of_nat_lt) simp
    then have "\<not> s_max_size s \<le> of_nat (ents dip * 16)" using D(6) assms(2) by (simp add: word_le_nat_alt)
    ultimately show ?thesis
      using k m D(1,12) null z'(1)
      by (simp add: minix_block_map_def map_direct_def minix_consts Let_def super_wf_def dip1_def)
  qed
  have "dir_struct s z' ?dip' ds"
    unfolding dir_struct_def
  proof (intro conjI allI impI)
    show "super_wf s" "map_wf (s_bmap_nblocks s) z'" "disks_ok ds" "inode_wf ?dip'" "S_ISDIR (i_mode ?dip')"
      "7168 \<le> unat (s_max_size s)" "unat (i_size ?dip') = DIRENT_SIZE * ents ?dip'" "ents ?dip' \<le> 448"
      using D z' sz assms(2) by (simp_all add: dip1_def inode_wf_def)
    show "if k < nzones (ents ?dip') then zone_ok s z' (zone ?dip' k) else zone ?dip' k = MINIX_BLOCK_NULL" if "k < 7" for k
    proof (cases "k < ?m")
      case True
      with old [of k] z'(3) nz sz zones [of k] that show ?thesis by (auto simp: zone_ok_def)
    next
      case False
      have "zone_ok s z' (data_block s b)" using ub assms(5) z'(3) by (simp add: zone_ok_def)
      with False nz sz zones [of k] that D(11) [of k] show ?thesis by simp
    qed
    show "inj_on (zone ?dip') {..<nzones (ents ?dip')}"
      unfolding sz nz
    proof (rule inj_onI)
      fix i j
      assume ij: "i \<in> {..<Suc ?m}" "j \<in> {..<Suc ?m}" "zone ?dip' i = zone ?dip' j"
      then have ij9: "i < 9" "j < 9" using m by auto
      show "i = j"
      proof (cases "i = ?m \<or> j = ?m")
        case True
        with ij zones [OF ij9(1)] zones [OF ij9(2)] fresh [of i] fresh [of j] show ?thesis by (auto simp: less_Suc_eq split: if_splits)
      next
        case False
        with ij zones [OF ij9(1)] zones [OF ij9(2)] D(9) nz show ?thesis by (auto simp: inj_on_def less_Suc_eq)
      qed
    qed
  qed
  moreover have "dirent_at ds ?dip' j = dirent_at ds dip j" if "j < ents dip" for j
  proof -
    have "j div 64 < ?m" using that m(2) by (simp add: div_less_iff_less_mult)
    then have "zone ?dip' (j div 64) = zone dip (j div 64)" using zones [of "j div 64"] m(1) by simp
    then show ?thesis by (simp add: dirent_at_def ent_off_def)
  qed
  ultimately have "dir_slot s z dip ds (ents dip) z' ?dip'"
    using sz z'(3) by (simp add: dir_slot_def subset_insertI) (simp add: dip1_def)
  with map that show thesis by blast
qed

lemma dir_search_slot:
  assumes "dir_struct s z dip ds" "name_ok nm" "dir_lookup ds dip nm = None" "dir_room s z dip ds"
  obtains k z' dip' where "dir_slot s z dip ds k z' dip'"
    "minix_dirent_search 0 (Some s) (Some z) (Some dip) ds (Some nm) True = Some (Inr (ent_off dip' k), Some z', Some dip', ds)"
proof -
  obtain found where f: "last_free ds dip (ents dip) found"
    "dirent_scan 0 (Some s) nm True (ents dip) (Some z, dip, ds) 0 None (zone dip 0) None 0 = Some (Inr found, Some z, dip, ds)"
    by (rule dir_scan_miss [OF assms(1-3)])
  note srch = search_by_scan(3) [OF assms(1,2) f(2)]
  show thesis
  proof (cases found)
    case (Some k)
    with f(1) have k: "k < ents dip" "d_ino (dirent_at ds dip k) = MINIX_INODE_NULL" by (auto simp: last_free_def)
    have "dir_slot s z dip ds k z dip" using assms(1) k by (simp add: dir_slot_def)
    moreover have "minix_dirent_search 0 (Some s) (Some z) (Some dip) ds (Some nm) True = Some (Inr (ent_off dip k), Some z, Some dip, ds)"
      using srch block_map_dir [OF assms(1) nzones_iff [OF k(1)]] by (simp add: Some ent_off_def)
    ultimately show thesis by (rule that)
  next
    case None
    with f(1) assms(4) have room: "ents dip < 448" "ents dip mod 64 \<noteq> 0 \<or> (\<exists>b. least_clear z b \<and> unat (s_first_data_block s) + b < 64)"
      by (auto simp: last_free_def dir_room_def)
    show thesis
    proof (cases "ents dip mod 64 = 0")
      case False
      note g = dir_grow_inside [OF assms(1) room(1) False]
      show thesis by (rule that [OF g(2)]) (use srch g(1) in \<open>simp add: None ent_off_def\<close>)
    next
      case True
      with room(2) obtain b where "least_clear z b" "unat (s_first_data_block s) + b < 64" by blast
      from dir_grow_block [OF assms(1) room(1) True this] obtain z' where g:
        "minix_block_map (Some s) (Some z) dip ds (ents dip * DIRENT_SIZE) True =
           Some (data_block s b, Some z', dip\<lparr>i_zones := (i_zones dip)[ents dip div 64 := data_block s b]\<rparr>, ds)"
        "dir_slot s z dip ds (ents dip) z' (dip\<lparr>i_zones := (i_zones dip)[ents dip div 64 := data_block s b], i_size := i_size dip + of_nat DIRENT_SIZE\<rparr>)"
        by auto
      have "ents dip div 64 < length (i_zones dip)" using room(1) dir_structD(12) [OF assms(1)] by simp
      then show thesis by (intro that [OF g(2)]) (use srch g(1) in \<open>simp add: None ent_off_def\<close>)
    qed
  qed
qed

text \<open>What adding and removing do to the map of names.\<close>

lemma lookup_slot_put:
  assumes "dir_wf s z dip ds" "dir_slot s z dip ds k z' dip'" "name_ok nm" "dir_lookup ds dip nm = None"
    and "num \<noteq> MINIX_INODE_NULL" "length (d_name d) = MINIX_NAME_MAX"
  defines "e \<equiv> d\<lparr>d_ino := num, d_name := ustrncpy MINIX_NAME_MAX nm\<rparr>"
  defines "ds' \<equiv> disk_put ds (ent_off dip' k) (enc_dirent e)"
  shows "dir_wf s z' dip' ds'" "dir_lookup ds' dip' = (dir_lookup ds dip)(nm \<mapsto> num)"
proof -
  have sl: "dir_struct s z' dip' ds" "k < ents dip'"
    "if k < ents dip then ents dip' = ents dip \<and> d_ino (dirent_at ds dip k) = MINIX_INODE_NULL else k = ents dip \<and> ents dip' = Suc k"
    "\<And>j. j < ents dip \<Longrightarrow> dirent_at ds dip' j = dirent_at ds dip j"
    using assms(2) by (simp_all add: dir_slot_def)
  have len: "length (d_name e) = MINIX_NAME_MAX" by (simp add: e_def)
  have st: "dir_struct s z' dip' ds'" unfolding ds'_def by (rule dirent_put(2) [OF sl(1,2) len])
  have at: "dirent_at ds' dip' j = (if j = k then e else dirent_at ds dip' j)" if "j < ents dip'" for j
    unfolding ds'_def by (rule dirent_put(3) [OF sl(1,2) len that])
  have e: "names e n \<longleftrightarrow> n = nm" for n using assms(3,5) by (auto simp: names_def e_def)
  have other: "j < ents dip \<and> names (dirent_at ds' dip' j) n = names (dirent_at ds dip j) n \<and> dirent_at ds' dip' j = dirent_at ds dip j"
    if "j < ents dip'" "j \<noteq> k" for j n
    using at [OF that(1)] that sl(3,4) by (auto split: if_splits)
  have notk: "\<not> names (dirent_at ds dip k) n" if "k < ents dip" for n using that sl(3) by (simp add: names_def)
  have none: "\<not> names (dirent_at ds dip j) nm" if "j < ents dip" for j using assms(4) that by (simp add: dir_lookup_None)
  have atk: "dirent_at ds' dip' k = e" using at [OF sl(2)] by simp
  show wf: "dir_wf s z' dip' ds'"
    unfolding dir_wf_def
  proof (intro conjI allI impI)
    show "dir_struct s z' dip' ds'" by (rule st)
    fix i j n
    assume ij: "i < ents dip'" "j < ents dip'" "names (dirent_at ds' dip' i) n \<and> names (dirent_at ds' dip' j) n"
    show "i = j"
    proof (cases "i = k \<or> j = k")
      case True
      then show ?thesis using ij other [of i n] other [of j n] atk e none by metis
    next
      case False
      with ij other [of i n] other [of j n] dir_wfD(2) [OF assms(1), of i j n] show ?thesis by auto
    qed
  qed
  show "dir_lookup ds' dip' = (dir_lookup ds dip)(nm \<mapsto> num)"
  proof
    fix n
    show "dir_lookup ds' dip' n = ((dir_lookup ds dip)(nm \<mapsto> num)) n"
    proof (cases "n = nm")
      case True
      with dir_lookup_eq [OF wf sl(2), of nm] atk e show ?thesis by (simp add: e_def)
    next
      case False
      show ?thesis
      proof (cases "dir_lookup ds dip n")
        case None
        then have "\<not> names (dirent_at ds' dip' j) n" if "j < ents dip'" for j
          using that other [of j n] atk e False by (cases "j = k") (auto simp: dir_lookup_None)
        then have "dir_lookup ds' dip' n = None" by (simp add: dir_lookup_None)
        with None False show ?thesis by simp
      next
        case (Some m)
        then obtain j where j: "j < ents dip" "names (dirent_at ds dip j) n" "d_ino (dirent_at ds dip j) = m"
          by (rule dir_lookup_SomeE)
        have "j \<noteq> k" using j notk by auto
        moreover have "j < ents dip'" using j(1) sl(3) by (auto split: if_splits)
        ultimately show ?thesis
          using dir_lookup_eq [OF wf, of j n] other [of j n] j Some False by simp
      qed
    qed
  qed
qed

lemma dirent_add_ok:
  assumes "dir_wf s z dip ds" "name_ok nm" "num \<noteq> MINIX_INODE_NULL" "dir_lookup ds dip nm = None" "dir_room s z dip ds"
  obtains z' dip' ds' where
    "minix_dirent_add 0 (Some s) (Some z) (Some dip) ds (Some nm) num = Some (Inr 0, Some z', Some dip', ds')"
    "dir_wf s z' dip' ds'" "dir_lookup ds' dip' = (dir_lookup ds dip)(nm \<mapsto> num)" "bits z \<subseteq> bits z'"
    "i_nlinks dip' = i_nlinks dip + 1" "ents dip' \<le> Suc (ents dip)"
    "\<And>off n. off + n \<le> data_off s \<Longrightarrow> disk_get ds' off n = disk_get ds off n"
proof -
  note d = dir_wfD(1) [OF assms(1)]
  obtain k z' dip1 where sl: "dir_slot s z dip ds k z' dip1" and
    srch: "minix_dirent_search 0 (Some s) (Some z) (Some dip) ds (Some nm) True = Some (Inr (ent_off dip1 k), Some z', Some dip1, ds)"
    by (rule dir_search_slot [OF d assms(2,4,5)])
  have sl': "dir_struct s z' dip1 ds" "k < ents dip1" "bits z \<subseteq> bits z'" "i_nlinks dip1 = i_nlinks dip" "ents dip1 \<le> Suc (ents dip)"
    using sl by (auto simp: dir_slot_def split: if_splits)
  note b = ent_off_bound [OF sl'(1) nzones_iff [OF sl'(2)]]
  let ?d = "dirent_at ds dip1 k"
  let ?e = "?d\<lparr>d_ino := num, d_name := ustrncpy MINIX_NAME_MAX nm\<rparr>"
  let ?ds' = "disk_put ds (ent_off dip1 k) (enc_dirent ?e)" and ?dip' = "dip1\<lparr>i_nlinks := i_nlinks dip1 + 1, i_time := 0\<rparr>"
  have dl: "length (d_name ?d) = MINIX_NAME_MAX" "length (d_name ?e) = MINIX_NAME_MAX"
    using dir_structD(3) [OF sl'(1)] b by (simp_all add: dirent_at_def)
  have rd: "bdev_read_all ds 0 DIRENT_SIZE (ent_off dip1 k) = Some (disk_get ds (ent_off dip1 k) DIRENT_SIZE)"
    using b by (simp add: bdev_read_all_def ramdisk_read_get)
  have "minix_dirent_add 0 (Some s) (Some z) (Some dip) ds (Some nm) num = Some (Inr 0, Some z', Some ?dip', ?ds')"
    using dir_structD(5) [OF d] assms(2,3) srch rd dirent_put(1) [OF sl'(1,2) dl(2)]
    by (simp add: minix_dirent_add_def name_ok_def dirent_at_def Let_def)
  moreover note put = lookup_slot_put [OF assms(1) sl assms(2,4,3) dl(1)]
  have same: "dirent_at ?ds' ?dip' = dirent_at ?ds' dip1" "ents ?dip' = ents dip1"
    using dirent_at_cong [of ?dip' dip1 ?ds'] by (auto simp: ents_def)
  have "dir_wf s z' ?dip' ?ds'"
    using put(1) dir_struct_cong [of s z' dip1 ?ds' ?ds' ?dip'] dir_structD(3) [OF dir_wfD(1) [OF put(1)]]
    unfolding dir_wf_def same by simp
  moreover have "dir_lookup ?ds' ?dip' = (dir_lookup ds dip)(nm \<mapsto> num)"
    using put(2) by (simp add: dir_lookup_def [abs_def] dir_list_def same)
  ultimately show thesis
    using that [of z' ?dip' ?ds'] sl'(3-5) same(2) dirent_put(4) [OF sl'(1,2) dl(2)] by simp
qed

lemma dir_wf_frame:
  assumes "dir_wf s z dip ds" "disks_ok ds'"
    and "\<And>off n. data_off s \<le> off \<Longrightarrow> off + n \<le> NANVIX_RAMDISK_SIZE \<Longrightarrow> disk_get ds' off n = disk_get ds off n"
  shows "dir_wf s z dip ds'" "k < ents dip \<Longrightarrow> dirent_at ds' dip k = dirent_at ds dip k" "dir_lookup ds' dip = dir_lookup ds dip"
proof -
  note d = dir_wfD [OF assms(1)]
  show at: "dirent_at ds' dip k = dirent_at ds dip k" if "k < ents dip" for k
    using assms(3) ent_off_bound [OF d(1) nzones_iff [OF that]] by (simp add: dirent_at_def)
  have "dir_struct s z dip ds'" by (rule dir_struct_cong [OF d(1) assms(2)]) simp_all
  with d(2) at show "dir_wf s z dip ds'" unfolding dir_wf_def by metis
  have "dir_list ds' dip = dir_list ds dip" using at by (simp add: dir_list_def)
  then show "dir_lookup ds' dip = dir_lookup ds dip"
    by (auto simp: dir_lookup_def fun_eq_iff at dest!: first_index_bound intro!: option.map_cong)
qed

lemma dir_wf_table:
  assumes "dir_wf s z dip ds" "ino_ok s num" "inode_wf ip"
  defines "ds' \<equiv> disk_put ds (ino_off s num) (enc_inode ip)"
  shows "dir_wf s z dip ds'" "k < ents dip \<Longrightarrow> dirent_at ds' dip k = dirent_at ds dip k" "dir_lookup ds' dip = dir_lookup ds dip"
proof -
  note D = dir_structD [OF dir_wfD(1) [OF assms(1)]]
  have "disks_ok ds'" unfolding ds'_def using D(1,3) assms(2,3) by (simp add: inode_put_ok)
  moreover have "disk_get ds' off n = disk_get ds off n" if "data_off s \<le> off" "off + n \<le> NANVIX_RAMDISK_SIZE" for off n
    unfolding ds'_def using inode_put_frame [OF D(3,1) assms(2,3) that(2)] that(1) by blast
  ultimately show "dir_wf s z dip ds'" "k < ents dip \<Longrightarrow> dirent_at ds' dip k = dirent_at ds dip k" "dir_lookup ds' dip = dir_lookup ds dip"
    using dir_wf_frame [OF assms(1)] by blast+
qed

lemma inode_at_cong: "disk_get ds' (ino_off s k) INODE_SIZE = disk_get ds (ino_off s k) INODE_SIZE \<Longrightarrow> inode_at ds' s k = inode_at ds s k"
  by (simp add: inode_at_def)

lemma lookup_clear:
  assumes "dir_wf s z dip ds" "k < ents dip" "names (dirent_at ds dip k) nm"
    and "length (d_name e) = MINIX_NAME_MAX" "d_ino e = MINIX_INODE_NULL"
  defines "ds' \<equiv> disk_put ds (ent_off dip k) (enc_dirent e)"
  shows "dir_wf s z dip ds'" "dir_lookup ds' dip = (dir_lookup ds dip)(nm := None)"
proof -
  note d = dir_wfD [OF assms(1)]
  have at: "dirent_at ds' dip j = (if j = k then e else dirent_at ds dip j)" if "j < ents dip" for j
    unfolding ds'_def by (rule dirent_put(3) [OF d(1) assms(2,4) that])
  have e: "\<not> names e n" for n by (simp add: names_def assms(5))
  have "dir_struct s z dip ds'" unfolding ds'_def by (rule dirent_put(2) [OF d(1) assms(2,4)])
  with at e d(2) show wf: "dir_wf s z dip ds'" unfolding dir_wf_def by metis
  show "dir_lookup ds' dip = (dir_lookup ds dip)(nm := None)"
  proof
    fix n
    show "dir_lookup ds' dip n = ((dir_lookup ds dip)(nm := None)) n"
    proof (cases "n \<noteq> nm \<and> dir_lookup ds dip n \<noteq> None")
      case True
      then obtain j where j: "j < ents dip" "names (dirent_at ds dip j) n" "dir_lookup ds dip n = Some (d_ino (dirent_at ds dip j))"
        by (metis dir_lookup_SomeE not_None_eq)
      then have "j \<noteq> k" using True assms(3) by (auto simp: names_def)
      with dir_lookup_eq [OF wf j(1), of n] at [OF j(1)] j True show ?thesis by simp
    next
      case False
      have "\<not> names (dirent_at ds' dip j) n" if "j < ents dip" for j
      proof (cases "j = k \<or> n = nm")
        case True
        with at [OF that] e d(2) [OF that assms(2), of nm] assms(3) show ?thesis by (cases "j = k") auto
      next
        case other: False
        with False have "dir_lookup ds dip n = None" by simp
        with other at [OF that] that show ?thesis by (simp add: dir_lookup_None)
      qed
      then have "dir_lookup ds' dip n = None" by (simp add: dir_lookup_None)
      with False show ?thesis by auto
    qed
  qed
qed

lemma dirent_remove_ok:
  assumes "dir_wf s z dip ds" "name_ok nm" "nm \<noteq> ''.''" "dir_lookup ds dip nm = Some num" "ino_ok s num"
    and "\<not> (S_ISDIR (i_mode (inode_at ds s num)) \<and> 0 < i_size (inode_at ds s num))"
  obtains ds' where
    "minix_dirent_remove 0 (Some s) (Some z) (Some dip) ds (Some nm) = Some (Inr 0, Some z, Some dip, ds')"
    "dir_wf s z dip ds'" "dir_lookup ds' dip = (dir_lookup ds dip)(nm := None)"
    "\<And>k. ino_ok s k \<Longrightarrow> inode_at ds' s k = (if k = num then (inode_at ds s num)\<lparr>i_nlinks := i_nlinks (inode_at ds s num) - 1\<rparr> else inode_at ds s k)"
proof -
  note d = dir_wfD(1) [OF assms(1)] and D = dir_structD [OF dir_wfD(1) [OF assms(1)]]
  obtain k where k: "k < ents dip" "names (dirent_at ds dip k) nm" "d_ino (dirent_at ds dip k) = num"
    using assms(4) by (rule dir_lookup_SomeE)
  note b = ent_off_bound [OF d nzones_iff [OF k(1)]]
  let ?ip = "(inode_at ds s num)\<lparr>i_nlinks := i_nlinks (inode_at ds s num) - 1\<rparr>"
  let ?ds1 = "disk_put ds (ino_off s num) (enc_inode ?ip)"
  let ?e = "(dirent_at ds dip k)\<lparr>d_ino := MINIX_INODE_NULL, d_name := ustrncpy MINIX_NAME_MAX []\<rparr>"
  let ?ds2 = "disk_put ?ds1 (ent_off dip k) (enc_dirent ?e)"
  have ipwf: "inode_wf ?ip" using dec_inode_wf by (simp add: inode_wf_def inode_at_def)
  have rd: "bdev_read_all ds 0 DIRENT_SIZE (ent_off dip k) = Some (disk_get ds (ent_off dip k) DIRENT_SIZE)"
    using b by (simp add: bdev_read_all_def ramdisk_read_get)
  note t = dir_wf_table [OF assms(1,5) ipwf]
  have el: "length (d_name ?e) = MINIX_NAME_MAX" by simp
  have nm1: "names (dirent_at ?ds1 dip k) nm" using t(2) [OF k(1)] k(2) by simp
  note c = lookup_clear [OF t(1) k(1) nm1 el] and p = dirent_put [OF dir_wfD(1) [OF t(1)] k(1) el]
  have "minix_dirent_remove 0 (Some s) (Some z) (Some dip) ds (Some nm) = Some (Inr 0, Some z, Some dip, ?ds2)"
    using D(1,5) assms(2,3,5,6) dir_search_hit [OF assms(1,2) k(1,2), of False] rd k(3) ipwf p(1)
    by (simp add: minix_dirent_remove_def name_ok_def Let_def minix_inode_read_eq minix_inode_write_eq
        flip: dirent_at_def)
  moreover have "inode_at ?ds2 s j = (if j = num then ?ip else inode_at ds s j)" if "ino_ok s j" for j
  proof -
    have "inode_at ?ds2 s j = inode_at ?ds1 s j"
      by (rule inode_at_cong) (rule p(4) [OF ino_off_bound [OF D(1) that]])
    with inode_at_put [OF D(3,1) assms(5) ipwf that] show ?thesis by simp
  qed
  ultimately show thesis using that c t(3) by simp
qed

section \<open>Directories as maps\<close>

text \<open>
  What a directory promises: adding a new name that fits extends the map, removing one shrinks it,
  searching looks it up.
\<close>

locale directory =
  fixes ok :: "'d \<Rightarrow> bool" and look :: "'d \<Rightarrow> 'n \<Rightarrow> 'v option" and valid :: "'n \<Rightarrow> bool" and good :: "'v \<Rightarrow> bool"
    and room :: "'d \<Rightarrow> bool" and removable :: "'d \<Rightarrow> 'n \<Rightarrow> bool"
    and search :: "'d \<Rightarrow> 'n \<Rightarrow> 'v option" and add :: "'d \<Rightarrow> 'n \<Rightarrow> 'v \<Rightarrow> 'd option" and remove :: "'d \<Rightarrow> 'n \<Rightarrow> 'd option"
  assumes search_law: "ok d \<Longrightarrow> valid n \<Longrightarrow> search d n = look d n"
    and add_law: "ok d \<Longrightarrow> valid n \<Longrightarrow> good v \<Longrightarrow> look d n = None \<Longrightarrow> room d \<Longrightarrow>
      \<exists>d'. add d n v = Some d' \<and> ok d' \<and> look d' = (look d)(n \<mapsto> v)"
    and add_twice: "ok d \<Longrightarrow> valid n \<Longrightarrow> good v \<Longrightarrow> look d n \<noteq> None \<Longrightarrow> add d n v = None"
    and remove_law: "ok d \<Longrightarrow> valid n \<Longrightarrow> look d n = Some v \<Longrightarrow> removable d n \<Longrightarrow>
      \<exists>d'. remove d n = Some d' \<and> ok d' \<and> look d' = (look d)(n := None)"
    and remove_missing: "ok d \<Longrightarrow> valid n \<Longrightarrow> look d n = None \<Longrightarrow> remove d n = None"
begin

lemma add_search:
  assumes "ok d" "valid n" "good v" "look d n = None" "room d" "valid m"
  shows "\<exists>d'. add d n v = Some d' \<and> ok d' \<and> search d' m = (if m = n then Some v else search d m)"
  using add_law [OF assms(1-5)] assms(1,6) search_law by auto

lemma remove_search:
  assumes "ok d" "valid n" "look d n = Some v" "removable d n" "valid m"
  shows "\<exists>d'. remove d n = Some d' \<and> ok d' \<and> search d' m = (if m = n then None else search d m)"
  using remove_law [OF assms(1-4)] assms(1,5) search_law by auto

text \<open>A name is bound once: until it is removed, a second binding is refused; afterwards it is free.\<close>

lemma add_then_add:
  assumes "ok d" "valid n" "good v" "good w" "look d n = None" "room d"
  shows "\<exists>d'. add d n v = Some d' \<and> add d' n w = None \<and>
    (removable d' n \<longrightarrow> (\<exists>d''. remove d' n = Some d'' \<and> ok d'' \<and> look d'' = look d))"
proof -
  obtain d' where d': "add d n v = Some d'" "ok d'" "look d' = (look d)(n \<mapsto> v)" using add_law assms by blast
  have "add d' n w = None" using add_twice [OF d'(2) assms(2,4)] d'(3) by simp
  moreover have "\<exists>d''. remove d' n = Some d'' \<and> ok d'' \<and> look d'' = look d" if r: "removable d' n"
  proof -
    obtain d'' where "remove d' n = Some d''" "ok d''" "look d'' = (look d')(n := None)"
      using remove_law [OF d'(2) assms(2) _ r, of v] d'(3) by auto
    moreover have "(look d')(n := None) = look d" using d'(3) assms(5) by (simp add: fun_upd_idem)
    ultimately show ?thesis by auto
  qed
  ultimately show ?thesis using d'(1) by blast
qed

end

type_synonym mdir = "bitmap_t list \<times> d_inode \<times> disks"

definition mdir_search :: "d_superblock \<Rightarrow> mdir \<Rightarrow> string \<Rightarrow> minix_ino_t option" where
  "mdir_search s d nm = (case d of (z, dip, ds) \<Rightarrow>
     (case minix_dirent_search 0 (Some s) (Some z) (Some dip) ds (Some nm) False of
        Some (Inr off, _) \<Rightarrow> Some (d_ino (dec_dirent (disk_get ds off DIRENT_SIZE)))
      | _ \<Rightarrow> None))"

definition mdir_result :: "(int result \<times> bitmap_ptr \<times> d_inode option \<times> disks) option \<Rightarrow> mdir option" where
  "mdir_result r = (case r of Some (Inr _, Some z, Some dip, ds) \<Rightarrow> Some (z, dip, ds) | _ \<Rightarrow> None)"

definition mdir_removable :: "d_superblock \<Rightarrow> mdir \<Rightarrow> string \<Rightarrow> bool" where
  "mdir_removable s d nm = (case d of (z, dip, ds) \<Rightarrow> nm \<noteq> ''.'' \<and>
     (case dir_lookup ds dip nm of None \<Rightarrow> False | Some num \<Rightarrow> ino_ok s num \<and>
        \<not> (S_ISDIR (i_mode (inode_at ds s num)) \<and> 0 < i_size (inode_at ds s num))))"

lemma mdir_search_eq:
  assumes "dir_wf s z dip ds" "name_ok nm"
  shows "mdir_search s (z, dip, ds) nm = dir_lookup ds dip nm"
proof (cases "dir_lookup ds dip nm")
  case None
  with dir_search_miss [OF dir_wfD(1) [OF assms(1)] assms(2)] show ?thesis by (simp add: mdir_search_def)
next
  case (Some num)
  then obtain k where k: "k < ents dip" "names (dirent_at ds dip k) nm" "d_ino (dirent_at ds dip k) = num" by (rule dir_lookup_SomeE)
  with dir_search_hit [OF assms k(1,2), of False] Some show ?thesis by (simp add: mdir_search_def dirent_at_def)
qed

lemma dirent_add_twice:
  assumes "dir_wf s z dip ds" "name_ok nm" "num \<noteq> MINIX_INODE_NULL" "dir_lookup ds dip nm \<noteq> None"
  shows "minix_dirent_add 0 (Some s) (Some z) (Some dip) ds (Some nm) num = Some (Inl EAGAIN, Some z, Some dip, ds)"
proof -
  obtain k where k: "k < ents dip" "names (dirent_at ds dip k) nm" using assms(4) by (auto simp: dir_lookup_None)
  with dir_search_hit [OF assms(1,2) k, of True] assms(2,3) dir_structD(5) [OF dir_wfD(1) [OF assms(1)]] show ?thesis
    by (simp add: minix_dirent_add_def name_ok_def)
qed

lemma dirent_remove_missing:
  assumes "dir_wf s z dip ds" "name_ok nm" "dir_lookup ds dip nm = None" "nm \<noteq> ''.''"
  shows "minix_dirent_remove 0 (Some s) (Some z) (Some dip) ds (Some nm) = Some (Inl ENOENT, Some z, Some dip, ds)"
  using dir_search_miss [OF dir_wfD(1) [OF assms(1)] assms(2,3)] assms(2,4) dir_structD(5) [OF dir_wfD(1) [OF assms(1)]]
  by (simp add: minix_dirent_remove_def name_ok_def)

lemma dirent_remove_refused:
  assumes "dir_wf s z dip ds" "name_ok nm" "nm \<noteq> ''.''" "dir_lookup ds dip nm = Some num"
    and "\<not> ino_ok s num \<or> S_ISDIR (i_mode (inode_at ds s num)) \<and> 0 < i_size (inode_at ds s num)"
  shows "minix_dirent_remove 0 (Some s) (Some z) (Some dip) ds (Some nm) =
    Some (Inl (if ino_ok s num then EBUSY else ENOENT), Some z, Some dip, ds)"
proof -
  note D = dir_structD [OF dir_wfD(1) [OF assms(1)]]
  obtain k where k: "k < ents dip" "names (dirent_at ds dip k) nm" "d_ino (dirent_at ds dip k) = num"
    using assms(4) by (rule dir_lookup_SomeE)
  have "bdev_read_all ds 0 DIRENT_SIZE (ent_off dip k) = Some (disk_get ds (ent_off dip k) DIRENT_SIZE)"
    using ent_off_bound [OF dir_wfD(1) [OF assms(1)] nzones_iff [OF k(1)]] by (simp add: bdev_read_all_def ramdisk_read_get)
  with D(1,5) assms(2,3,5) dir_search_hit [OF assms(1,2) k(1,2), of False] k(3) show ?thesis
    by (auto simp: minix_dirent_remove_def name_ok_def Let_def minix_inode_read_eq simp flip: dirent_at_def)
qed

interpretation minixdir: directory "\<lambda>(z, dip, ds). dir_wf s z dip ds" "\<lambda>(z, dip, ds). dir_lookup ds dip" name_ok
  "\<lambda>v. v \<noteq> MINIX_INODE_NULL" "\<lambda>(z, dip, ds). dir_room s z dip ds" "mdir_removable s" "mdir_search s"
  "\<lambda>(z, dip, ds) nm num. mdir_result (minix_dirent_add 0 (Some s) (Some z) (Some dip) ds (Some nm) num)"
  "\<lambda>(z, dip, ds) nm. mdir_result (minix_dirent_remove 0 (Some s) (Some z) (Some dip) ds (Some nm))" for s
proof
  fix d :: mdir and n :: string and v :: minix_ino_t
  obtain z dip ds where d: "d = (z, dip, ds)" by (cases d)
  assume ok: "case d of (z, dip, ds) \<Rightarrow> dir_wf s z dip ds" and n: "name_ok n"
  then have wf: "dir_wf s z dip ds" by (simp add: d)
  show "mdir_search s d n = (case d of (z, dip, ds) \<Rightarrow> dir_lookup ds dip) n" using mdir_search_eq [OF wf n] by (simp add: d)
  show "(case d of (z, dip, ds) \<Rightarrow> \<lambda>nm. mdir_result (minix_dirent_remove 0 (Some s) (Some z) (Some dip) ds (Some nm))) n = None"
    if "(case d of (z, dip, ds) \<Rightarrow> dir_lookup ds dip) n = None"
  proof (cases "n = ''.''")
    case True
    with dir_structD(5) [OF dir_wfD(1) [OF wf]] n show ?thesis by (simp add: d mdir_result_def minix_dirent_remove_def MINIX_NAME_MAX_def)
  next
    case False
    with dirent_remove_missing [OF wf n] that show ?thesis by (simp add: d mdir_result_def)
  qed
  show "\<exists>d'. (case d of (z, dip, ds) \<Rightarrow> \<lambda>nm. mdir_result (minix_dirent_remove 0 (Some s) (Some z) (Some dip) ds (Some nm))) n = Some d' \<and>
      (case d' of (z, dip, ds) \<Rightarrow> dir_wf s z dip ds) \<and>
      (case d' of (z, dip, ds) \<Rightarrow> dir_lookup ds dip) = (case d of (z, dip, ds) \<Rightarrow> dir_lookup ds dip)(n := None)"
    if "(case d of (z, dip, ds) \<Rightarrow> dir_lookup ds dip) n = Some v" "mdir_removable s d n"
  proof -
    have "n \<noteq> ''.''" "dir_lookup ds dip n = Some v" "ino_ok s v"
      "\<not> (S_ISDIR (i_mode (inode_at ds s v)) \<and> 0 < i_size (inode_at ds s v))"
      using that by (auto simp: d mdir_removable_def)
    then obtain ds' where "minix_dirent_remove 0 (Some s) (Some z) (Some dip) ds (Some n) = Some (Inr 0, Some z, Some dip, ds')"
      "dir_wf s z dip ds'" "dir_lookup ds' dip = (dir_lookup ds dip)(n := None)"
      using dirent_remove_ok [OF wf n] by blast
    then show ?thesis by (auto simp: d mdir_result_def)
  qed
  assume v: "v \<noteq> MINIX_INODE_NULL"
  show "(case d of (z, dip, ds) \<Rightarrow> \<lambda>nm num. mdir_result (minix_dirent_add 0 (Some s) (Some z) (Some dip) ds (Some nm) num)) n v = None"
    if "(case d of (z, dip, ds) \<Rightarrow> dir_lookup ds dip) n \<noteq> None"
    using dirent_add_twice [OF wf n v] that by (simp add: d mdir_result_def)
  assume "(case d of (z, dip, ds) \<Rightarrow> dir_lookup ds dip) n = None" "case d of (z, dip, ds) \<Rightarrow> dir_room s z dip ds"
  then have l: "dir_lookup ds dip n = None" "dir_room s z dip ds" by (simp_all add: d)
  obtain z' dip' ds' where "minix_dirent_add 0 (Some s) (Some z) (Some dip) ds (Some n) v = Some (Inr 0, Some z', Some dip', ds')"
    "dir_wf s z' dip' ds'" "dir_lookup ds' dip' = (dir_lookup ds dip)(n \<mapsto> v)"
    by (rule dirent_add_ok [OF wf n v l])
  then show "\<exists>d'. (case d of (z, dip, ds) \<Rightarrow> \<lambda>nm num. mdir_result (minix_dirent_add 0 (Some s) (Some z) (Some dip) ds (Some nm) num)) n v = Some d' \<and>
      (case d' of (z, dip, ds) \<Rightarrow> dir_wf s z dip ds) \<and>
      (case d' of (z, dip, ds) \<Rightarrow> dir_lookup ds dip) = (case d of (z, dip, ds) \<Rightarrow> dir_lookup ds dip)(n \<mapsto> v)"
    by (auto simp: d mdir_result_def)
qed

section \<open>A new file system\<close>

lemma mkfs_clear_ok:
  "disks_ok ds \<Longrightarrow> \<forall>k\<in>set ks. k < 64 \<Longrightarrow> \<exists>ds'. mkfs_clear 0 ds ks = Some ds' \<and> disks_ok ds'"
proof (induction ks arbitrary: ds)
  case Nil
  then show ?case by simp
next
  case (Cons k ks)
  then have k: "k * 1024 + 1024 \<le> NANVIX_RAMDISK_SIZE" by (simp add: disk_consts)
  then have "bdev_write_all ds 0 (replicate MINIX_BLOCK_SIZE 0) MINIX_BLOCK_SIZE (k * MINIX_BLOCK_SIZE) =
      Some (disk_put ds (k * MINIX_BLOCK_SIZE) (replicate MINIX_BLOCK_SIZE 0))"
    by (simp add: bdev_write_all_def ramdisk_write_put MINIX_BLOCK_SIZE_def del: of_nat_mult)
  moreover have "disks_ok (disk_put ds (k * MINIX_BLOCK_SIZE) (replicate MINIX_BLOCK_SIZE 0))"
    using k Cons.prems(1) by (intro disk_put_ok) (simp_all add: MINIX_BLOCK_SIZE_def)
  ultimately show ?case using Cons.IH Cons.prems(2) by simp
qed

abbreviation boot_fs :: "16 word \<Rightarrow> d_superblock" where "boot_fs junk \<equiv> mkfs_super 64 64 junk"

lemma boot_fs_eq: "boot_fs junk = boot_super\<lparr>unused1 := junk\<rparr>"
  by (simp add: mkfs_super_def boot_super_def Let_def ROUND_def minix_consts NANVIX_MAX_FILE_SIZE_def)

lemma boot_fs_sel [simp]:
  "s_ninodes (boot_fs junk) = 64" "s_nblocks (boot_fs junk) = 64" "s_imap_nblocks (boot_fs junk) = 1" "s_bmap_nblocks (boot_fs junk) = 1"
  "s_first_data_block (boot_fs junk) = 6" "s_max_size (boot_fs junk) = 64 * 1024 * 1024" "s_magic (boot_fs junk) = MINIX_SUPER_MAGIC"
  by (simp_all add: boot_fs_eq)

lemma boot_fs_wf [simp]: "super_wf (boot_fs junk)"
  by (simp add: super_wf_def table_off_def data_off_def map_size_def minix_consts disk_consts)

lemma boot_ino_ok [simp]: "ino_ok (boot_fs junk) 1" "ino_ok (boot_fs junk) 2"
  by (simp_all add: ino_ok_def)

definition boot_names :: "string \<Rightarrow> minix_ino_t option" where
  "boot_names = [''.'' \<mapsto> 1, ''..'' \<mapsto> 1, ''disk'' \<mapsto> 2]"

lemma root_mode_dir: "S_ISDIR root_mode" "S_ISBLK (root_mode OR S_IFBLK)"
  by (simp_all add: mode_defs root_mode_def)

lemma empty_dir_wf:
  assumes "super_wf s" "map_wf (s_bmap_nblocks s) z" "disks_ok ds" "S_ISDIR mode" "7168 \<le> unat (s_max_size s)"
  shows "dir_wf s z (new_inode mode uid gid now) ds" "dir_lookup ds (new_inode mode uid gid now) = Map.empty"
    "ents (new_inode mode uid gid now) = 0"
proof -
  show e: "ents (new_inode mode uid gid now) = 0" by (simp add: ents_def new_inode_def)
  show "dir_lookup ds (new_inode mode uid gid now) = Map.empty" by (auto simp: dir_lookup_None e)
  show "dir_wf s z (new_inode mode uid gid now) ds"
    using assms e new_inode_wf [of mode uid gid now]
    by (simp add: dir_wf_def dir_struct_def nzones_def) (simp add: new_inode_def minix_consts)
qed

lemma dir_room_boot: "dir_wf s z dip ds \<Longrightarrow> 0 < ents dip \<Longrightarrow> ents dip < 64 \<Longrightarrow> dir_room s z dip ds"
  by (simp add: dir_room_def)

lemma ents_pos: "dir_lookup ds dip nm \<noteq> None \<Longrightarrow> 0 < ents dip"
  using dir_lookup_None [of ds dip nm] by (cases "ents dip") auto

lemma dir_add_boot:
  assumes "dir_wf s z dip ds" "name_ok nm" "num \<noteq> MINIX_INODE_NULL" "dir_lookup ds dip = m" "m nm = None" "dir_room s z dip ds"
    and "ents dip \<le> n"
  obtains z' dip' ds' where
    "minix_dirent_add 0 (Some s) (Some z) (Some dip) ds (Some nm) num = Some (Inr 0, Some z', Some dip', ds')"
    "dir_wf s z' dip' ds'" "dir_lookup ds' dip' = m(nm \<mapsto> num)" "i_nlinks dip' = i_nlinks dip + 1"
    "ents dip' \<le> Suc n" "0 < ents dip'" "\<And>k. ino_ok s k \<Longrightarrow> inode_at ds' s k = inode_at ds s k"
proof -
  note D = dir_structD [OF dir_wfD(1) [OF assms(1)]]
  have l: "dir_lookup ds dip nm = None" using assms(4,5) by simp
  obtain z' dip' ds' where a: "minix_dirent_add 0 (Some s) (Some z) (Some dip) ds (Some nm) num = Some (Inr 0, Some z', Some dip', ds')"
    "dir_wf s z' dip' ds'" "dir_lookup ds' dip' = (dir_lookup ds dip)(nm \<mapsto> num)" "bits z \<subseteq> bits z'"
    "i_nlinks dip' = i_nlinks dip + 1" "ents dip' \<le> Suc (ents dip)"
    and f: "\<And>off n. off + n \<le> data_off s \<Longrightarrow> disk_get ds' off n = disk_get ds off n"
    by (rule dirent_add_ok [OF assms(1-3) l assms(6)]) (rule that; assumption)
  have "0 < ents dip'" by (rule ents_pos [of ds' dip' nm]) (simp add: a(3))
  moreover have "inode_at ds' s k = inode_at ds s k" if "ino_ok s k" for k
    by (rule inode_at_cong) (rule f [OF ino_off_bound [OF D(1) that]])
  ultimately show thesis using that a assms(4,7) by simp
qed

text \<open>The root directory with its first two names, written to disk.\<close>

lemma mkfs_root:
  assumes "disks_ok ds" and s: "s = boot_fs junk"
  obtains m1 ds2 root z1 root1 ds3 z2 root2 ds4 where
    "minix_inode_alloc ds 0 (Some s) (Some (replicate 256 0)) root_mode 0 0 t1 = Some (MINIX_INODE_ROOT, Some m1, ds2)"
    "imap_wf s m1" "bits m1 = {0}" "minix_inode_read ds2 0 (Some s) MINIX_INODE_ROOT = Inr root"
    "minix_dirent_add 0 (Some s) (Some (replicate 256 0)) (Some root) ds2 (Some ''.'') MINIX_INODE_ROOT = Some (Inr 0, Some z1, Some root1, ds3)"
    "minix_dirent_add 0 (Some s) (Some z1) (Some root1) ds3 (Some ''..'') MINIX_INODE_ROOT = Some (Inr 0, Some z2, Some root2, ds4)"
    "dir_wf s z2 root2 ds4" "dir_lookup ds4 root2 = [''.'' \<mapsto> 1, ''..'' \<mapsto> 1]" "i_nlinks root2 = 3" "ents root2 \<le> 2" "0 < ents root2"
proof -
  have sw: "super_wf s" "s_ninodes s = 64" by (simp_all add: s)
  have im: "imap_wf s (replicate 256 0)" by (simp add: imap_wf_def s)
  have free: "bits (replicate 256 0) \<noteq> {..<unat (s_ninodes s)}"
    by (simp add: s) (metis empty_iff lessThan_iff zero_less_numeral)
  have four: "4 \<le> unat (s_ninodes s)" by (simp add: s)
  let ?ip = "new_inode root_mode 0 0 t1"
  obtain num m1 where a: "minix_inode_alloc ds 0 (Some s) (Some (replicate 256 0)) root_mode 0 0 t1 =
      Some (num, Some m1, disk_put ds (ino_off s num) (enc_inode ?ip))"
    "ino_ok s num" "{..<unat num - 1} \<subseteq> bits (replicate 256 0)" "imap_wf s m1" "bits m1 = insert (unat num - 1) (bits (replicate 256 0))"
    by (rule inode_alloc_ok [OF sw(1) im assms(1) four free])
  have "unat num - 1 = 0" using a(3) by (auto simp: lessThan_empty_iff)
  then have "unat num = 1" using a(2) by (simp add: ino_ok_def)
  then have num: "num = MINIX_INODE_ROOT" by (simp add: MINIX_INODE_ROOT_def word_unat_eq_iff)
  define ds2 where "ds2 = disk_put ds (ino_off s num) (enc_inode ?ip)"
  have ok2: "disks_ok ds2" unfolding ds2_def using assms(1) sw a(2) by (simp add: inode_put_ok)
  have rd: "minix_inode_read ds2 0 (Some s) MINIX_INODE_ROOT = Inr ?ip"
    using sw a(2) assms(1) num unfolding ds2_def by (simp add: minix_inode_read_eq inode_at_put)
  have z0: "map_wf (s_bmap_nblocks s) (replicate 256 0)" and mx: "7168 \<le> unat (s_max_size s)" by (simp_all add: s)
  note e = empty_dir_wf [OF sw(1) z0 ok2 root_mode_dir(1) mx, of 0 0 t1]
  have nk: "name_ok ''.''" "name_ok ''..''" and nz: "MINIX_INODE_ROOT \<noteq> MINIX_INODE_NULL" by (simp_all add: name_ok_def minix_consts)
  have "least_clear (replicate 256 0) 0" by (simp add: least_clear_def)
  then have room: "dir_room s (replicate 256 0) ?ip ds2" using e(3) by (auto simp: dir_room_def s)
  obtain z1 root1 ds3 where b: "minix_dirent_add 0 (Some s) (Some (replicate 256 0)) (Some ?ip) ds2 (Some ''.'') MINIX_INODE_ROOT =
      Some (Inr 0, Some z1, Some root1, ds3)"
    "dir_wf s z1 root1 ds3" "dir_lookup ds3 root1 = Map.empty(''.'' \<mapsto> MINIX_INODE_ROOT)" "i_nlinks root1 = i_nlinks ?ip + 1" "ents root1 \<le> Suc 0" "0 < ents root1"
    by (rule dir_add_boot [OF e(1) nk(1) nz e(2) _ room, of 0]) (simp_all add: e(3))
  have room1: "dir_room s z1 root1 ds3" using b by (intro dir_room_boot) auto
  obtain z2 root2 ds4 where c: "minix_dirent_add 0 (Some s) (Some z1) (Some root1) ds3 (Some ''..'') MINIX_INODE_ROOT =
      Some (Inr 0, Some z2, Some root2, ds4)"
    "dir_wf s z2 root2 ds4" "dir_lookup ds4 root2 = (Map.empty(''.'' \<mapsto> MINIX_INODE_ROOT))(''..'' \<mapsto> MINIX_INODE_ROOT)"
    "i_nlinks root2 = i_nlinks root1 + 1" "ents root2 \<le> Suc (Suc 0)" "0 < ents root2"
    by (rule dir_add_boot [OF b(2) nk(2) nz b(3) _ room1 b(5)]) simp_all
  show thesis
    by (rule that [OF a(1) [unfolded num, folded ds2_def [unfolded num]] a(4) _ rd b(1) c(1,2)])
      (use a(5) b(4) c \<open>unat num - 1 = 0\<close> in \<open>simp_all add: new_inode_def minix_consts\<close>)
qed

text \<open>The rest of \<open>minix_mkfs\<close>: the disk inode and its name. The inode of the disk is written over the root inode and that is then rewritten.\<close>

lemma mkfs_disk:
  assumes "dir_wf s z2 root2 ds4" "dir_lookup ds4 root2 = [''.'' \<mapsto> 1, ''..'' \<mapsto> 1]" "i_nlinks root2 = 3" "ents root2 \<le> 2" "0 < ents root2"
    and "imap_wf s m1" "bits m1 = {0}" and s: "s = boot_fs junk"
  obtains ds5 m2 ds6 z3 root3 ds7 ds8 ds9 where
    "minix_inode_write ds4 0 (Some s) root2 MINIX_INODE_ROOT = (Inr 0, ds5)"
    "minix_inode_alloc ds5 0 (Some s) (Some m1) (root_mode OR S_IFBLK) 0 0 t2 = Some (2, Some m2, ds6)"
    "imap_wf s m2" "bits m2 = {0, 1}" "minix_inode_read ds6 0 (Some s) 2 = Inr (new_inode (root_mode OR S_IFBLK) 0 0 t2)"
    "minix_dirent_add 0 (Some s) (Some z2) (Some root2) ds6 (Some ''disk'') 2 = Some (Inr 0, Some z3, Some root3, ds7)"
    "minix_inode_write ds7 0 (Some s) ((new_inode (root_mode OR S_IFBLK) 0 0 t2)\<lparr>i_size := of_nat NANVIX_DISK_SIZE\<rparr>) MINIX_INODE_ROOT = (Inr 0, ds8)"
    "minix_inode_write ds8 0 (Some s) root3 MINIX_INODE_ROOT = (Inr 0, ds9)"
    "dir_wf s z3 root3 ds9" "dir_lookup ds9 root3 = boot_names" "i_nlinks root3 = 4"
    "inode_at ds9 s 1 = root3" "inode_at ds9 s 2 = new_inode (root_mode OR S_IFBLK) 0 0 t2"
proof -
  have sw: "super_wf s" "ino_ok s 1" "ino_ok s 2" "4 \<le> unat (s_ninodes s)" by (simp_all add: s)
  note ok4 = dir_structD(3,4) [OF dir_wfD(1) [OF assms(1)]]
  let ?disk = "new_inode (root_mode OR S_IFBLK) 0 0 t2"
  let ?w = "?disk\<lparr>i_size := of_nat NANVIX_DISK_SIZE\<rparr>"
  define ds5 where "ds5 = disk_put ds4 (ino_off s 1) (enc_inode root2)"
  have w5: "minix_inode_write ds4 0 (Some s) root2 MINIX_INODE_ROOT = (Inr 0, ds5)"
    using sw ok4 by (simp add: minix_inode_write_eq ds5_def MINIX_INODE_ROOT_def)
  note t5 = dir_wf_table(1,3) [OF assms(1) sw(2) ok4(2), folded ds5_def]
  note ok5 = dir_structD(3) [OF dir_wfD(1) [OF t5(1)]]
  have "bits m1 \<noteq> {..<unat (s_ninodes s)}"
  proof
    assume "bits m1 = {..<unat (s_ninodes s)}"
    then have "(1 :: nat) \<in> {0}" unfolding assms(7) using sw(4) by simp
    then show False by simp
  qed
  then obtain num m2 where a: "minix_inode_alloc ds5 0 (Some s) (Some m1) (root_mode OR S_IFBLK) 0 0 t2 =
      Some (num, Some m2, disk_put ds5 (ino_off s num) (enc_inode ?disk))"
    "ino_ok s num" "unat num - 1 \<notin> bits m1" "{..<unat num - 1} \<subseteq> bits m1" "imap_wf s m2" "bits m2 = insert (unat num - 1) (bits m1)"
    by (rule inode_alloc_ok [OF sw(1) assms(6) ok5 sw(4)])
  have "unat num - 1 = 1"
  proof (rule ccontr)
    assume "unat num - 1 \<noteq> 1"
    with a(3) assms(7) have "1 < unat num - 1" by auto
    then have "(1 :: nat) \<in> {..<unat num - 1}" by simp
    with a(4) assms(7) show False by auto
  qed
  then have "unat num = 2" by simp
  then have num: "num = 2" by (simp add: word_unat_eq_iff)
  define ds6 where "ds6 = disk_put ds5 (ino_off s 2) (enc_inode ?disk)"
  note t6 = dir_wf_table(1,3) [OF t5(1) sw(3) new_inode_wf, of "root_mode OR S_IFBLK" 0 0 t2, folded ds6_def]
  have at6: "inode_at ds6 s 2 = ?disk" unfolding ds6_def by (simp add: inode_at_put [OF ok5 sw(1) sw(3)] sw)
  have nk: "name_ok ''disk''" "(2 :: minix_ino_t) \<noteq> MINIX_INODE_NULL" by (simp_all add: name_ok_def minix_consts)
  have l6: "dir_lookup ds6 root2 = [''.'' \<mapsto> 1, ''..'' \<mapsto> 1]" using t6(2) t5(2) assms(2) by simp
  have nd: "[''.'' \<mapsto> 1, ''..'' \<mapsto> 1] ''disk'' = (None :: minix_ino_t option)" by simp
  have room: "dir_room s z2 root2 ds6" using assms(4,5) t6(1) by (intro dir_room_boot) auto
  obtain z3 root3 ds7 where d: "minix_dirent_add 0 (Some s) (Some z2) (Some root2) ds6 (Some ''disk'') 2 = Some (Inr 0, Some z3, Some root3, ds7)"
    "dir_wf s z3 root3 ds7" "dir_lookup ds7 root3 = [''.'' \<mapsto> 1, ''..'' \<mapsto> 1](''disk'' \<mapsto> 2)" "i_nlinks root3 = i_nlinks root2 + 1"
    and f7: "\<And>k. ino_ok s k \<Longrightarrow> inode_at ds7 s k = inode_at ds6 s k"
    by (rule dir_add_boot [OF t6(1) nk l6 nd room assms(4)]) (rule that; assumption)
  note ok7 = dir_structD(3,4) [OF dir_wfD(1) [OF d(2)]]
  have ww: "inode_wf ?w" using new_inode_wf [of "root_mode OR S_IFBLK" 0 0 t2] by (simp add: inode_wf_def)
  define ds8 where "ds8 = disk_put ds7 (ino_off s 1) (enc_inode ?w)"
  note t8 = dir_wf_table(1,3) [OF d(2) sw(2) ww, folded ds8_def]
  note ok8 = dir_structD(3) [OF dir_wfD(1) [OF t8(1)]]
  define ds9 where "ds9 = disk_put ds8 (ino_off s 1) (enc_inode root3)"
  note t9 = dir_wf_table(1,3) [OF t8(1) sw(2) ok7(2), folded ds9_def]
  have "inode_at ds9 s 1 = root3" "inode_at ds9 s 2 = ?disk"
    using at6 f7 [OF sw(3)] unfolding ds9_def ds8_def
    by (simp_all add: inode_at_put [OF ok8 [unfolded ds8_def] sw(1,2) ok7(2)] inode_at_put [OF ok7(1) sw(1,2) ww] sw)
  moreover have "minix_inode_write ds7 0 (Some s) ?w MINIX_INODE_ROOT = (Inr 0, ds8)"
    "minix_inode_write ds8 0 (Some s) root3 MINIX_INODE_ROOT = (Inr 0, ds9)"
    using sw ok7(2) ww by (simp_all add: minix_inode_write_eq ds8_def ds9_def MINIX_INODE_ROOT_def)
  moreover have "dir_lookup ds9 root3 = boot_names" using t9(2) t8(2) d(3) by (simp add: boot_names_def)
  moreover have "minix_inode_read ds6 0 (Some s) 2 = Inr ?disk" using sw at6 by (simp add: minix_inode_read_eq)
  ultimately show thesis
    using that [OF w5 a(1) [unfolded num, folded ds6_def] a(5) _ _ d(1)] t9(1) a(6) \<open>unat num - 1 = 1\<close> assms(3,7) d(4)
    by (simp add: insert_commute)
qed

definition fresh_fs :: "64 word \<Rightarrow> d_superblock \<Rightarrow> bitmap_t list \<Rightarrow> bitmap_t list \<Rightarrow> d_inode \<Rightarrow> disks \<Rightarrow> bool" where
  "fresh_fs t2 s imap bmap root ds \<longleftrightarrow> imap_wf s imap \<and> bits imap = {0, 1} \<and> dir_wf s bmap root ds \<and>
     inode_at ds s 1 = root \<and> i_nlinks root = 4 \<and> dir_lookup ds root = boot_names \<and>
     inode_at ds s 2 = new_inode (root_mode OR S_IFBLK) 0 0 t2"

lemma mkfs_boot:
  assumes "disks_ok ds" "umalloc_ok MINIX_BLOCK_SIZE" and s: "s = boot_fs junk"
  obtains ds' imap bmap root where "minix_mkfs umalloc_ok t1 t2 junk ds 0 64 64 0 0 = Some (Inr 0, ds')"
    "minix_mount umalloc_ok ds' 0 True = Inr (s, imap, bmap)" "fresh_fs t2 s imap bmap root ds'"
proof -
  obtain ds1 where ds1: "mkfs_clear 0 ds [0..<64] = Some ds1" "disks_ok ds1"
    using mkfs_clear_ok [OF assms(1), of "[0..<64]"] by auto
  obtain m1 ds2 root z1 root1 ds3 z2 root2 ds4 where r:
    "minix_inode_alloc ds1 0 (Some s) (Some (replicate 256 0)) root_mode 0 0 t1 = Some (MINIX_INODE_ROOT, Some m1, ds2)"
    "imap_wf s m1" "bits m1 = {0}" "minix_inode_read ds2 0 (Some s) MINIX_INODE_ROOT = Inr root"
    "minix_dirent_add 0 (Some s) (Some (replicate 256 0)) (Some root) ds2 (Some ''.'') MINIX_INODE_ROOT = Some (Inr 0, Some z1, Some root1, ds3)"
    "minix_dirent_add 0 (Some s) (Some z1) (Some root1) ds3 (Some ''..'') MINIX_INODE_ROOT = Some (Inr 0, Some z2, Some root2, ds4)"
    "dir_wf s z2 root2 ds4" "dir_lookup ds4 root2 = [''.'' \<mapsto> 1, ''..'' \<mapsto> 1]" "i_nlinks root2 = 3" "ents root2 \<le> 2" "0 < ents root2"
    by (rule mkfs_root [OF ds1(2) s])
  obtain ds5 m2 ds6 z3 root3 ds7 ds8 ds9 where d:
    "minix_inode_write ds4 0 (Some s) root2 MINIX_INODE_ROOT = (Inr 0, ds5)"
    "minix_inode_alloc ds5 0 (Some s) (Some m1) (root_mode OR S_IFBLK) 0 0 t2 = Some (2, Some m2, ds6)"
    "imap_wf s m2" "bits m2 = {0, 1}" "minix_inode_read ds6 0 (Some s) 2 = Inr (new_inode (root_mode OR S_IFBLK) 0 0 t2)"
    "minix_dirent_add 0 (Some s) (Some z2) (Some root2) ds6 (Some ''disk'') 2 = Some (Inr 0, Some z3, Some root3, ds7)"
    "minix_inode_write ds7 0 (Some s) ((new_inode (root_mode OR S_IFBLK) 0 0 t2)\<lparr>i_size := of_nat NANVIX_DISK_SIZE\<rparr>) MINIX_INODE_ROOT = (Inr 0, ds8)"
    "minix_inode_write ds8 0 (Some s) root3 MINIX_INODE_ROOT = (Inr 0, ds9)"
    "dir_wf s z3 root3 ds9" "dir_lookup ds9 root3 = boot_names" "i_nlinks root3 = 4"
    "inode_at ds9 s 1 = root3" "inode_at ds9 s 2 = new_inode (root_mode OR S_IFBLK) 0 0 t2"
    by (rule mkfs_disk [OF r(7-11,2,3) s])
  note D = dir_structD [OF dir_wfD(1) [OF d(9)]]
  have m: "map_wf (s_imap_nblocks s) m2" using d(3) by (simp add: imap_wf_def)
  obtain ds' where w: "minix_super_write ds9 0 (Some s) (Some z3) (Some m2) = (Inr 0, ds')" "disks_ok ds'"
    "minix_super_read umalloc_ok ds' 0 True = Inr (s, z3, m2)"
    and f: "\<And>off n. table_off s \<le> off \<Longrightarrow> off + n \<le> NANVIX_RAMDISK_SIZE \<Longrightarrow> disk_get ds' off n = disk_get ds9 off n"
    using super_write_ok [OF D(1) m D(2,3)] super_read_ok [OF D(1) m D(2), of umalloc_ok] assms(2)
    by (auto simp: s map_size_def)
  have sz: "map_size (s_imap_nblocks s) = 1024" "map_size (s_bmap_nblocks s) = 1024" by (simp_all add: s map_size_def MINIX_BLOCK_SIZE_def)
  have "minix_mkfs umalloc_ok t1 t2 junk ds 0 64 64 0 0 = Some (Inr 0, ds')"
    unfolding minix_mkfs_def Let_def s [symmetric] sz
    using assms(2) ds1(1) r(1,4-6) d(1,2,5-8) w(1) by (simp add: MINIX_BLOCK_SIZE_def MINIX_INODE_NULL_def)
  moreover have "minix_mount umalloc_ok ds' 0 True = Inr (s, m2, z3)" using w(3) by (simp add: minix_mount_def)
  moreover have td: "table_off s \<le> data_off s" using D(1) by (simp add: super_wf_def)
  have at: "inode_at ds' s k = inode_at ds9 s k" if "ino_ok s k" for k
    by (rule inode_at_cong, rule f) (use ino_off_disk [OF D(1) that] in \<open>simp_all add: ino_off_def\<close>)
  have "fresh_fs t2 s m2 z3 root3 ds'"
    using d(3,4,9-13) at [of 1] at [of 2] dir_wf_frame(1,3) [OF d(9) w(2)] f td by (simp add: fresh_fs_def s)
  ultimately show thesis by (rule that)
qed

section \<open>Properties\<close>

text \<open>
  Unmounting a file system and mounting it again gives back the super block and both maps as they were in memory,
  provided the allocator grants their sizes; inodes and data are not touched.
\<close>

theorem minix_unmount_mount:
  assumes "super_wf s" "map_wf (s_imap_nblocks s) imap" "map_wf (s_bmap_nblocks s) bmap" "disks_ok ds"
    and "umalloc_ok (map_size (s_imap_nblocks s))" "umalloc_ok (map_size (s_bmap_nblocks s))"
  shows "\<exists>ds'. minix_unmount (Some s) (Some imap) (Some bmap) ds 0 = (Inr 0, ds') \<and> disks_ok ds' \<and>
    minix_mount umalloc_ok ds' 0 True = Inr (s, imap, bmap) \<and>
    (\<forall>off n. table_off s \<le> off \<longrightarrow> off + n \<le> NANVIX_RAMDISK_SIZE \<longrightarrow> disk_get ds' off n = disk_get ds off n)"
  using super_write_ok [OF assms(1-4)] super_read_ok [OF assms(1-3,5,6)]
  by (auto simp: minix_unmount_def minix_sync_def minix_mount_def)

theorem minix_unmount_mount_witness:
  "\<exists>ds'. minix_unmount (Some boot_super) (Some (replicate 256 3)) (Some (replicate 256 1)) zero_disks 0 = (Inr 0, ds') \<and>
     minix_mount (\<lambda>n. n \<le> 4096) ds' 0 True = Inr (boot_super, replicate 256 3, replicate 256 1)"
  using minix_unmount_mount [of boot_super "replicate 256 3" "replicate 256 1" zero_disks "\<lambda>n. n \<le> 4096"]
  by (auto simp: map_size_def MINIX_BLOCK_SIZE_def)

text \<open>
  C11. A directory is a map from names to inode numbers, and \<open>minix_dirent_add\<close> extends it. If the directory has
  a free entry, or fills less than its seven direct blocks and either has room in its last block or the first free block of
  the map lies on the disk, a new name is bound to the number, the directory stays well formed, the search finds the new name and every other as before,
  and no inode of the table changes; a name that is already bound is refused with \<open>EAGAIN\<close> and nothing changes.
\<close>

theorem minix_dirent_add_correct:
  assumes "dir_wf s z dip ds" "name_ok nm" "num \<noteq> MINIX_INODE_NULL" "dir_room s z dip ds"
  shows "if dir_lookup ds dip nm = None
    then \<exists>z' dip' ds'. minix_dirent_add 0 (Some s) (Some z) (Some dip) ds (Some nm) num = Some (Inr 0, Some z', Some dip', ds') \<and>
      dir_wf s z' dip' ds' \<and> dir_lookup ds' dip' = (dir_lookup ds dip)(nm \<mapsto> num) \<and>
      (\<forall>m. name_ok m \<longrightarrow> mdir_search s (z', dip', ds') m = (if m = nm then Some num else mdir_search s (z, dip, ds) m)) \<and>
      i_nlinks dip' = i_nlinks dip + 1 \<and> (\<forall>k. ino_ok s k \<longrightarrow> inode_at ds' s k = inode_at ds s k)
    else minix_dirent_add 0 (Some s) (Some z) (Some dip) ds (Some nm) num = Some (Inl EAGAIN, Some z, Some dip, ds)"
proof (cases "dir_lookup ds dip nm")
  case None
  obtain z' dip' ds' where a: "minix_dirent_add 0 (Some s) (Some z) (Some dip) ds (Some nm) num = Some (Inr 0, Some z', Some dip', ds')"
    "dir_wf s z' dip' ds'" "dir_lookup ds' dip' = (dir_lookup ds dip)(nm \<mapsto> num)" "i_nlinks dip' = i_nlinks dip + 1"
    "\<And>k. ino_ok s k \<Longrightarrow> inode_at ds' s k = inode_at ds s k"
    by (rule dir_add_boot [OF assms(1-3) refl None assms(4) order_refl]) (rule that; assumption)
  have "mdir_search s (z', dip', ds') m = (if m = nm then Some num else mdir_search s (z, dip, ds) m)" if "name_ok m" for m
    using minixdir.add_search [of s "(z, dip, ds)" nm num m] assms None that a(1) by (simp add: mdir_result_def)
  with a None show ?thesis by auto
next
  case (Some k)
  with dirent_add_twice [OF assms(1-3)] show ?thesis by simp
qed

definition boot_root :: d_inode where "boot_root = new_inode root_mode 0 0 0"

lemma boot_root_dir: "dir_wf boot_super (replicate 256 0) boot_root zero_disks" "dir_lookup zero_disks boot_root = Map.empty"
  "dir_room boot_super (replicate 256 0) boot_root zero_disks"
proof -
  note e = empty_dir_wf [OF boot_super_wf, of "replicate 256 0" zero_disks root_mode 0 0 0, folded boot_root_def]
  then show "dir_wf boot_super (replicate 256 0) boot_root zero_disks" "dir_lookup zero_disks boot_root = Map.empty"
    using root_mode_dir by simp_all
  have "least_clear (replicate 256 0) 0" by (simp add: least_clear_def)
  then show "dir_room boot_super (replicate 256 0) boot_root zero_disks" using e(3) root_mode_dir by (auto simp: dir_room_def)
qed

theorem minix_dirent_add_correct_witness:
  "\<exists>z' dip' ds'. minix_dirent_add 0 (Some boot_super) (Some (replicate 256 0)) (Some boot_root) zero_disks (Some ''passwd'') 7 =
       Some (Inr 0, Some z', Some dip', ds') \<and> mdir_search boot_super (z', dip', ds') ''passwd'' = Some 7"
proof -
  have "name_ok ''passwd''" "(7 :: minix_ino_t) \<noteq> MINIX_INODE_NULL" by (simp_all add: name_ok_def minix_consts)
  from minix_dirent_add_correct [OF boot_root_dir(1) this boot_root_dir(3)] \<open>name_ok ''passwd''\<close> boot_root_dir(2) show ?thesis by auto
qed

text \<open>
  C12. Removing a name, on every path: \<open>.\<close> is refused with \<open>EBUSY\<close>, a name that is not bound or whose inode number
  lies outside the table with \<open>ENOENT\<close>, a directory that has entries with \<open>EBUSY\<close>, each without a change; otherwise the name
  is gone, every other name stays, and the inode it was bound to has one link less.
\<close>

theorem minix_dirent_remove_correct:
  assumes "dir_wf s z dip ds" "name_ok nm"
  shows "let r = minix_dirent_remove 0 (Some s) (Some z) (Some dip) ds (Some nm) in
    if nm = ''.'' then r = Some (Inl EBUSY, Some z, Some dip, ds)
    else case dir_lookup ds dip nm of
      None \<Rightarrow> r = Some (Inl ENOENT, Some z, Some dip, ds)
    | Some num \<Rightarrow>
        if \<not> ino_ok s num then r = Some (Inl ENOENT, Some z, Some dip, ds)
        else if S_ISDIR (i_mode (inode_at ds s num)) \<and> 0 < i_size (inode_at ds s num) then r = Some (Inl EBUSY, Some z, Some dip, ds)
        else \<exists>ds'. r = Some (Inr 0, Some z, Some dip, ds') \<and> dir_wf s z dip ds' \<and>
          dir_lookup ds' dip = (dir_lookup ds dip)(nm := None) \<and>
          (\<forall>k. ino_ok s k \<longrightarrow> inode_at ds' s k = (if k = num
             then (inode_at ds s k)\<lparr>i_nlinks := i_nlinks (inode_at ds s k) - 1\<rparr> else inode_at ds s k))"
proof (cases "nm = ''.''")
  case True
  with dir_structD(5) [OF dir_wfD(1) [OF assms(1)]] show ?thesis by (simp add: minix_dirent_remove_def MINIX_NAME_MAX_def)
next
  case dot: False
  show ?thesis
  proof (cases "dir_lookup ds dip nm")
    case None
    with dirent_remove_missing [OF assms None dot] dot show ?thesis by simp
  next
    case (Some num)
    show ?thesis
    proof (cases "\<not> ino_ok s num \<or> S_ISDIR (i_mode (inode_at ds s num)) \<and> 0 < i_size (inode_at ds s num)")
      case True
      with dirent_remove_refused [OF assms dot Some True] Some dot show ?thesis by (auto simp: Let_def)
    next
      case False
      then have n: "ino_ok s num" "\<not> (S_ISDIR (i_mode (inode_at ds s num)) \<and> 0 < i_size (inode_at ds s num))" by auto
      obtain ds' where "minix_dirent_remove 0 (Some s) (Some z) (Some dip) ds (Some nm) = Some (Inr 0, Some z, Some dip, ds')"
        "dir_wf s z dip ds'" "dir_lookup ds' dip = (dir_lookup ds dip)(nm := None)"
        "\<And>k. ino_ok s k \<Longrightarrow> inode_at ds' s k = (if k = num then (inode_at ds s num)\<lparr>i_nlinks := i_nlinks (inode_at ds s num) - 1\<rparr> else inode_at ds s k)"
        by (rule dirent_remove_ok [OF assms dot Some n]) (rule that; assumption)
      with Some dot n show ?thesis by (auto simp: Let_def)
    qed
  qed
qed

lemma unle_zero [simp]: "unle (replicate k 0) = 0"
  by (induction k) simp_all

lemma disk_get_zero: "off + n \<le> NANVIX_RAMDISK_SIZE \<Longrightarrow> disk_get zero_disks off n = replicate n 0"
  by (simp add: disk_get_def zero_disks_def min_def)

theorem minix_dirent_remove_correct_witness:
  "minix_dirent_remove 0 (Some boot_super) (Some (replicate 256 0)) (Some boot_root) zero_disks (Some ''passwd'') =
     Some (Inl ENOENT, Some (replicate 256 0), Some boot_root, zero_disks) \<and>
   (\<exists>z dip ds ds'. dir_lookup ds dip ''passwd'' = Some 7 \<and>
      minix_dirent_remove 0 (Some boot_super) (Some z) (Some dip) ds (Some ''passwd'') = Some (Inr 0, Some z, Some dip, ds') \<and>
      dir_lookup ds' dip ''passwd'' = None)"
proof -
  have nm: "name_ok ''passwd''" "(7 :: minix_ino_t) \<noteq> MINIX_INODE_NULL" by (simp_all add: name_ok_def minix_consts)
  have "dir_lookup zero_disks boot_root ''passwd'' = None" by (simp add: boot_root_dir)
  obtain z dip ds where d: "dir_wf boot_super z dip ds" "dir_lookup ds dip = Map.empty(''passwd'' \<mapsto> 7)"
    and i: "\<And>k. ino_ok boot_super k \<Longrightarrow> inode_at ds boot_super k = inode_at zero_disks boot_super k"
    by (rule dir_add_boot [OF boot_root_dir(1) nm boot_root_dir(2) refl boot_root_dir(3) order_refl]) (rule that; assumption)
  have "ino_ok boot_super 7" by (simp add: ino_ok_def)
  moreover have "i_size (inode_at zero_disks boot_super 7) = 0"
    using ino_off_disk [OF boot_super_wf, of 7] by (simp add: inode_at_def dec_inode_def ino_ok_def disk_get_zero INODE_SIZE_def)
  ultimately obtain ds' where "minix_dirent_remove 0 (Some boot_super) (Some z) (Some dip) ds (Some ''passwd'') = Some (Inr 0, Some z, Some dip, ds')"
    "dir_lookup ds' dip ''passwd'' = None"
    using minix_dirent_remove_correct [OF d(1) nm(1)] d(2) i [of 7] by (auto simp: Let_def)
  moreover have "dir_lookup ds dip ''passwd'' = Some 7" by (simp add: d(2))
  ultimately show ?thesis
    using minix_dirent_remove_correct [OF boot_root_dir(1) nm(1)] \<open>dir_lookup zero_disks boot_root ''passwd'' = None\<close>
    by (auto simp: Let_def)
qed

text \<open>
  C13. Making a file system on a disk of 64 blocks with 64 inodes succeeds, and mounting it finds it: the super block with
  the dimensions, a map of inodes with the first two in use, a root directory with four links and the names \<open>.\<close>, \<open>..\<close> and
  \<open>disk\<close>, and an inode for \<open>disk\<close>, a block special file on device zero. The size of that file is recorded as zero, although
  the code sets it to the size of the disk: it writes the changed inode over the root inode instead.
\<close>

theorem minix_mkfs_correct:
  assumes "disks_ok ds" "umalloc_ok MINIX_BLOCK_SIZE"
  shows "\<exists>ds' imap bmap root disk. minix_mkfs umalloc_ok t1 t2 junk ds 0 64 64 0 0 = Some (Inr 0, ds') \<and>
    minix_mount umalloc_ok ds' 0 True = Inr (boot_fs junk, imap, bmap) \<and> bits imap = {0, 1} \<and>
    minix_inode_read ds' 0 (Some (boot_fs junk)) MINIX_INODE_ROOT = Inr root \<and>
    dir_wf (boot_fs junk) bmap root ds' \<and> i_nlinks root = 4 \<and>
    dir_lookup ds' root = [''.'' \<mapsto> 1, ''..'' \<mapsto> 1, ''disk'' \<mapsto> 2] \<and>
    minix_inode_read ds' 0 (Some (boot_fs junk)) 2 = Inr disk \<and>
    S_ISBLK (i_mode disk) \<and> i_zones disk ! 0 = 0 \<and> i_size disk = 0"
proof -
  obtain ds' imap bmap root where "minix_mkfs umalloc_ok t1 t2 junk ds 0 64 64 0 0 = Some (Inr 0, ds')"
    "minix_mount umalloc_ok ds' 0 True = Inr (boot_fs junk, imap, bmap)" "fresh_fs t2 (boot_fs junk) imap bmap root ds'"
    by (rule mkfs_boot [where umalloc_ok = umalloc_ok, OF assms refl])
  then show ?thesis using root_mode_dir(2)
    by (auto simp: fresh_fs_def minix_inode_read_eq MINIX_INODE_ROOT_def boot_names_def new_inode_def minix_consts)
qed

theorem minix_mkfs_correct_witness:
  "\<exists>ds' imap bmap root. minix_mkfs (\<lambda>n. n \<le> 4096) 5 6 0 zero_disks 0 64 64 0 0 = Some (Inr 0, ds') \<and>
     minix_mount (\<lambda>n. n \<le> 4096) ds' 0 True = Inr (boot_fs 0, imap, bmap) \<and>
     minix_inode_read ds' 0 (Some (boot_fs 0)) MINIX_INODE_ROOT = Inr root \<and> dir_lookup ds' root ''disk'' = Some 2"
  using minix_mkfs_correct [of zero_disks "\<lambda>n. n \<le> 4096" 5 6 0] by (auto simp: MINIX_BLOCK_SIZE_def)

end
