(* ===== verification/Slots.thy ===== *)
theory Slots
  imports Prelude
begin

text \<open>
  Tables of slots. Every server of the system keeps its objects in a fixed table whose slots
  are either free or hold an object with an identity (a client, a name, an IPC key) and a
  reference count. \<open>key e\<close> is the identity slot \<open>e\<close> holds, \<open>None\<close> when the slot is free, and
  \<open>cnt e\<close> its reference count. A table is well formed when no two slots hold the same identity
  and every held slot has a positive count. The facts here carry the invariants of all the
  tables of the development.
\<close>

definition slots_unique :: "('e \<Rightarrow> 'k option) \<Rightarrow> 'e list \<Rightarrow> bool" where
  "slots_unique key t \<longleftrightarrow> (\<forall>i<length t. \<forall>j<length t.
     key (t ! i) \<noteq> None \<longrightarrow> key (t ! i) = key (t ! j) \<longrightarrow> i = j)"

definition slots_wf :: "('e \<Rightarrow> 'k option) \<Rightarrow> ('e \<Rightarrow> int) \<Rightarrow> 'e list \<Rightarrow> bool" where
  "slots_wf key cnt t \<longleftrightarrow>
     (\<forall>i<length t. key (t ! i) \<noteq> None \<longrightarrow> 1 \<le> cnt (t ! i)) \<and> slots_unique key t"

definition slot_refs :: "('e \<Rightarrow> 'k option) \<Rightarrow> ('e \<Rightarrow> int) \<Rightarrow> 'e list \<Rightarrow> 'k \<Rightarrow> int" where
  "slot_refs key cnt t k = sum_list (map (\<lambda>e. if key e = Some k then cnt e else 0) t)"

lemma slots_uniqueD:
  "slots_unique key t \<Longrightarrow> i < length t \<Longrightarrow> j < length t \<Longrightarrow> key (t ! i) = Some k \<Longrightarrow>
     key (t ! j) = Some k \<Longrightarrow> j = i"
  unfolding slots_unique_def by (metis option.distinct(1))

lemma slots_wf_unique: "slots_wf key cnt t \<Longrightarrow> slots_unique key t"
  by (simp add: slots_wf_def)

lemma slots_wf_count: "slots_wf key cnt t \<Longrightarrow> i < length t \<Longrightarrow> key (t ! i) = Some k \<Longrightarrow> 1 \<le> cnt (t ! i)"
  by (auto simp: slots_wf_def)

lemma slots_unique_replicate: "key e = None \<Longrightarrow> slots_unique key (replicate n e)"
  by (simp add: slots_unique_def)

lemma slots_wf_replicate: "key e = None \<Longrightarrow> slots_wf key cnt (replicate n e)"
  by (simp add: slots_wf_def slots_unique_replicate)

lemma slots_unique_update:
  assumes un: "slots_unique key t" and i: "i < length t"
    and new: "\<And>j. key e \<noteq> None \<Longrightarrow> j < length t \<Longrightarrow> key (t ! j) = key e \<Longrightarrow> j = i"
  shows "slots_unique key (t[i := e])"
  unfolding slots_unique_def
proof (intro allI impI)
  fix j k
  assume *: "j < length (t[i := e])" "k < length (t[i := e])" "key (t[i := e] ! j) \<noteq> None"
    "key (t[i := e] ! j) = key (t[i := e] ! k)"
  show "j = k"
  proof -
    consider "j = k" | "j = i" "k \<noteq> i" | "j \<noteq> i" "k = i" | "j \<noteq> i" "k \<noteq> i" by blast
    then show ?thesis
    proof cases
      case 2
      then have "k = i" by (intro new) (use * i in auto)
      with 2 show ?thesis by simp
    next
      case 3
      then have "j = i" by (intro new) (use * i in auto)
      with 3 show ?thesis by simp
    next
      case 4
      with * un show ?thesis unfolding slots_unique_def by (metis length_list_update nth_list_update_neq)
    qed
  qed
qed

lemma slots_wf_update:
  assumes "slots_wf key cnt t" "i < length t"
    and "key e \<noteq> None \<Longrightarrow> 1 \<le> cnt e"
    and "\<And>j. key e \<noteq> None \<Longrightarrow> j < length t \<Longrightarrow> key (t ! j) = key e \<Longrightarrow> j = i"
  shows "slots_wf key cnt (t[i := e])"
  using assms slots_unique_update [of key t i e] by (auto simp: slots_wf_def nth_list_update)

text \<open>Three ways a slot changes: it keeps its identity, it is released, it takes a new one.\<close>

lemma slots_wf_keep:
  assumes "slots_wf key cnt t" "i < length t" "key e = key (t ! i)" "key e \<noteq> None \<Longrightarrow> 1 \<le> cnt e"
  shows "slots_wf key cnt (t[i := e])"
proof (rule slots_wf_update [OF assms(1,2,4)])
  fix j
  assume "key e \<noteq> None" "j < length t" "key (t ! j) = key e"
  then show "j = i" using slots_uniqueD [OF slots_wf_unique [OF assms(1)] assms(2), of j] assms(3) by auto
qed

lemma slots_wf_release:
  "slots_wf key cnt t \<Longrightarrow> i < length t \<Longrightarrow> key e = None \<Longrightarrow> slots_wf key cnt (t[i := e])"
  by (rule slots_wf_update) simp_all

lemma slots_wf_take:
  assumes "slots_wf key cnt t" "i < length t" "key e = Some k" "1 \<le> cnt e"
    and "\<And>j. j < length t \<Longrightarrow> key (t ! j) \<noteq> Some k"
  shows "slots_wf key cnt (t[i := e])"
  using assms by (intro slots_wf_update) auto

lemma slots_find:
  assumes "slots_unique key t" "i < length t" "key (t ! i) = Some k"
  shows "first_index (\<lambda>e. key e = Some k) t = Some i"
  by (rule first_index_unique [where P = "\<lambda>e. key e = Some k", OF assms(2,3)])
    (rule slots_uniqueD [OF assms(1,2)], use assms(3) in auto)

lemma slot_refs_update:
  "i < length t \<Longrightarrow> slot_refs key cnt (t[i := e]) k = slot_refs key cnt t k +
     (if key e = Some k then cnt e else 0) - (if key (t ! i) = Some k then cnt (t ! i) else 0)"
  by (simp add: slot_refs_def sum_list_update_int)

lemma slot_refs_nonneg: "slots_wf key cnt t \<Longrightarrow> 0 \<le> slot_refs key cnt t k"
  by (force simp: slot_refs_def slots_wf_def in_set_conv_nth intro!: sum_list_nonneg)

lemma slot_refs_absent:
  assumes "\<And>i. i < length t \<Longrightarrow> key (t ! i) \<noteq> Some k"
  shows "slot_refs key cnt t k = 0"
proof -
  have "map (\<lambda>e. if key e = Some k then cnt e else 0) t = map (\<lambda>_. 0) t"
    using assms by (auto simp: in_set_conv_nth)
  then show ?thesis by (simp only: slot_refs_def) simp
qed

lemma slot_refs_entry:
  assumes "slots_unique key t" "i < length t" "key (t ! i) = Some k"
  shows "slot_refs key cnt t k = cnt (t ! i)"
proof -
  have "slot_refs key cnt t k = (\<Sum>j<length t. if key (t ! j) = Some k then cnt (t ! j) else 0)"
    by (simp add: slot_refs_def sum_list_sum_nth atLeast0LessThan)
  also have "\<dots> = (\<Sum>j<length t. if j = i then cnt (t ! i) else 0)"
  proof (rule sum.cong [OF refl])
    fix j
    assume "j \<in> {..<length t}"
    then have "key (t ! j) = Some k \<longleftrightarrow> j = i"
      using assms by (auto intro: slots_uniqueD)
    then show "(if key (t ! j) = Some k then cnt (t ! j) else 0) = (if j = i then cnt (t ! i) else 0)"
      by auto
  qed
  finally show ?thesis using assms(2) by simp
qed

lemma slot_refs_pos_iff:
  assumes "slots_wf key cnt t"
  shows "0 < slot_refs key cnt t k \<longleftrightarrow> (\<exists>i<length t. key (t ! i) = Some k)"
proof
  show "0 < slot_refs key cnt t k \<Longrightarrow> \<exists>i<length t. key (t ! i) = Some k"
    using slot_refs_absent [of t key k cnt] by force
next
  assume "\<exists>i<length t. key (t ! i) = Some k"
  then obtain i where i: "i < length t" "key (t ! i) = Some k" by blast
  then show "0 < slot_refs key cnt t k"
    using slots_wf_count [OF assms i] slot_refs_entry [OF slots_wf_unique [OF assms] i, of cnt] by simp
qed

lemma slot_refs_zero_iff:
  "slots_wf key cnt t \<Longrightarrow> slot_refs key cnt t k = 0 \<longleftrightarrow> (\<forall>i<length t. key (t ! i) \<noteq> Some k)"
  using slot_refs_pos_iff [of key cnt t k] slot_refs_nonneg [of key cnt t k] by auto

lemma slots_distinct:
  assumes "slots_unique key t"
  shows "distinct (map key (filter (\<lambda>e. key e \<noteq> None) t))"
  using assms
proof (induction t)
  case Nil
  then show ?case by simp
next
  case (Cons e t)
  have "slots_unique key t"
    unfolding slots_unique_def
    using Cons.prems [unfolded slots_unique_def, rule_format, of "Suc _" "Suc _"] by auto
  moreover have "key e \<notin> key ` set t" if "key e \<noteq> None"
  proof
    assume "key e \<in> key ` set t"
    then obtain j where "j < length t" "key (t ! j) = key e" by (auto simp: in_set_conv_nth)
    with that Cons.prems [unfolded slots_unique_def, rule_format, of 0 "Suc j"] show False by simp
  qed
  ultimately show ?case using Cons.IH by auto
qed

section \<open>Counted tables\<close>

text \<open>
  The System V objects count references without resetting the counter when a slot is taken, so
  they also rely on free slots having the count zero.
\<close>

definition slots_counted :: "('e \<Rightarrow> 'k option) \<Rightarrow> ('e \<Rightarrow> int) \<Rightarrow> 'e list \<Rightarrow> bool" where
  "slots_counted key cnt t \<longleftrightarrow> slots_wf key cnt t \<and> (\<forall>e\<in>set t. key e = None \<longrightarrow> cnt e = 0)"

lemma slots_countedD:
  assumes "slots_counted key cnt t"
  shows slots_counted_wf: "slots_wf key cnt t"
    and slots_counted_unique: "slots_unique key t"
    and slots_counted_zero: "i < length t \<Longrightarrow> key (t ! i) = None \<Longrightarrow> cnt (t ! i) = 0"
    and slots_counted_pos: "i < length t \<Longrightarrow> key (t ! i) = Some k \<Longrightarrow> 1 \<le> cnt (t ! i)"
  using assms by (auto simp: slots_counted_def slots_wf_unique dest: slots_wf_count)

lemma ball_update: "\<forall>x\<in>set t. P x \<Longrightarrow> P e \<Longrightarrow> \<forall>x\<in>set (t[i := e]). P x"
  using set_update_subset_insert [of t i e] by auto

lemma slots_counted_update:
  assumes "slots_counted key cnt t" "slots_wf key cnt (t[i := e])" "key e = None \<longrightarrow> cnt e = 0"
  shows "slots_counted key cnt (t[i := e])"
  unfolding slots_counted_def
  by (intro conjI ball_update assms(2,3)) (use assms(1) in \<open>simp add: slots_counted_def\<close>)

lemma slots_counted_init:
  "(\<And>e. e \<in> set t \<Longrightarrow> key e = None \<and> cnt e = 0) \<Longrightarrow> slots_counted key cnt t"
  by (simp add: slots_counted_def slots_wf_def slots_unique_def)

lemma slots_counted_keep:
  assumes "slots_counted key cnt t" "i < length t" "key e = key (t ! i)" "key e \<noteq> None" "1 \<le> cnt e"
  shows "slots_counted key cnt (t[i := e])"
  by (rule slots_counted_update [OF assms(1)], rule slots_wf_keep [OF slots_counted_wf [OF assms(1)]]) (use assms in auto)

lemma slots_counted_release:
  assumes "slots_counted key cnt t" "i < length t" "key e = None" "cnt e = 0"
  shows "slots_counted key cnt (t[i := e])"
  by (rule slots_counted_update [OF assms(1)], rule slots_wf_release [OF slots_counted_wf [OF assms(1)]]) (use assms in auto)

lemma slots_counted_take:
  assumes "slots_counted key cnt t" "i < length t" "key e = Some k" "1 \<le> cnt e"
    and "\<And>j. j < length t \<Longrightarrow> key (t ! j) \<noteq> Some k"
  shows "slots_counted key cnt (t[i := e])"
  by (rule slots_counted_update [OF assms(1)], rule slots_wf_take [OF slots_counted_wf [OF assms(1)]]) (use assms in auto)

end
