(* ===== verification/BCache.thy ===== *)
theory BCache
  imports Ramdisk Resource Slots "HOL-Library.Signed_Division"
begin

text \<open>
  The block cache of the file system server, \<open>src/sys/fs/vfs/bcache/bcache.c\<close>, over the RAM disk.
  A buffer pointer is \<open>None\<close> for \<open>NULL\<close> or the index of the buffer, an index outside the table
  being a bad pointer. \<open>R\<close> is the resource interface. The search of \<open>evict\<close> may run forever, so it
  is a partial function whose value is then \<open>None\<close>.

  \<^term>\<open>bc_view\<close> is the contents of the disk as a client of the cache sees them.
\<close>

definition NANVIX_FS_NR_BUFFERS :: nat where "NANVIX_FS_NR_BUFFERS = 32"

record 'r buffer =
  b_flags :: 'r
  b_dev :: nat
  b_num :: block_t
  b_data :: "byte list"
  b_count :: int

record 'r bcache =
  bc_buffers :: "'r buffer list"
  bc_k :: int
  bc_disks :: disks

type_synonym buf_ptr = "nat option"

definition buf_ok :: "buf_ptr \<Rightarrow> bool" where
  "buf_ok p \<longleftrightarrow> (case p of None \<Rightarrow> False | Some i \<Rightarrow> i < NANVIX_FS_NR_BUFFERS)"

definition buf_update :: "'r bcache \<Rightarrow> nat \<Rightarrow> ('r buffer \<Rightarrow> 'r buffer) \<Rightarrow> 'r bcache" where
  "buf_update st i f = st\<lparr>bc_buffers := (bc_buffers st)[i := f (bc_buffers st ! i)]\<rparr>"

definition buffer_get_data :: "'r bcache \<Rightarrow> buf_ptr \<Rightarrow> byte list option" where
  "buffer_get_data st p = (if \<not> buf_ok p then None else Some (b_data (bc_buffers st ! the p)))"

definition buffer_set_dirty :: "'r resource_ops \<Rightarrow> 'r bcache \<Rightarrow> buf_ptr \<Rightarrow> int result \<times> 'r bcache" where
  "buffer_set_dirty R st p =
     (if \<not> buf_ok p then (Inl EINVAL, st)
      else (Inr 0, buf_update st (the p) (\<lambda>b. b\<lparr>b_flags := resource_set_dirty R (b_flags b)\<rparr>)))"

definition buffer_is_dirty :: "'r resource_ops \<Rightarrow> 'r bcache \<Rightarrow> buf_ptr \<Rightarrow> bool" where
  "buffer_is_dirty R st p = (if \<not> buf_ok p then False else resource_is_dirty R (b_flags (bc_buffers st ! the p)))"

text \<open>
  The loop of \<open>evict\<close>, from position \<open>i\<close> up to \<open>stop\<close>, with the candidate found so far.
\<close>

partial_function (option) evict_search :: "'r resource_ops \<Rightarrow> 'r buffer list \<Rightarrow> int \<Rightarrow> int \<Rightarrow> buf_ptr \<Rightarrow> buf_ptr option" where
  "evict_search R bs stop i cand =
     (if i = stop then Some cand
      else if resource_is_used R (b_flags (bs ! nat i))
        then evict_search R bs stop ((i + 1) smod int NANVIX_FS_NR_BUFFERS) cand
      else if resource_is_dirty R (b_flags (bs ! nat i))
        then evict_search R bs stop ((i + 1) smod int NANVIX_FS_NR_BUFFERS) (Some (nat i))
      else Some (Some (nat i)))"

definition evict :: "'r resource_ops \<Rightarrow> 'r bcache \<Rightarrow> (buf_ptr \<times> 'r bcache) option" where
  "evict R st =
     do { p \<leftarrow> evict_search R (bc_buffers st) ((bc_k st - 1) smod int NANVIX_FS_NR_BUFFERS) (bc_k st) None;
          let st1 = st\<lparr>bc_k := (bc_k st + 1) smod int NANVIX_FS_NR_BUFFERS\<rparr>;
          case p of
            None \<Rightarrow> Some (None, st1)
          | Some i \<Rightarrow>
              (let b = bc_buffers st1 ! i;
                   st2 = (if resource_is_dirty R (b_flags b)
                          then buf_update (st1\<lparr>bc_disks := snd (bdev_writeblk (bc_disks st1) (b_dev b) (b_num b) (b_data b))\<rparr>) i
                                 (\<lambda>b. b\<lparr>b_flags := resource_set_clean R (b_flags b)\<rparr>)
                          else st1)
               in Some (Some i, buf_update st2 i (\<lambda>b. b\<lparr>b_flags := resource_set_invalid R (b_flags b)\<rparr>))) }"

definition getblk :: "'r resource_ops \<Rightarrow> 'r bcache \<Rightarrow> nat \<Rightarrow> block_t \<Rightarrow> (buf_ptr \<times> 'r bcache) option" where
  "getblk R st dev num =
     do { (p, st1) \<leftarrow>
            (case first_index (\<lambda>b. resource_is_valid R (b_flags b) \<and> b_dev b = dev \<and> b_num b = num) (bc_buffers st) of
               Some i \<Rightarrow> Some (Some i, st)
             | None \<Rightarrow> do { (p, st1) \<leftarrow> evict R st;
                            case p of None \<Rightarrow> Some (None, st1)
                            | Some i \<Rightarrow> Some (Some i, buf_update st1 i (\<lambda>b. b\<lparr>b_dev := dev, b_num := num\<rparr>)) });
          case p of
            None \<Rightarrow> Some (None, st1)
          | Some i \<Rightarrow> Some (Some i, buf_update st1 i (\<lambda>b.
              b\<lparr>b_flags := resource_set_used R (b_flags b), b_count := b_count b + 1\<rparr>)) }"

definition brelse :: "'r resource_ops \<Rightarrow> 'r bcache \<Rightarrow> buf_ptr \<Rightarrow> int result \<times> 'r bcache" where
  "brelse R st p =
     (if \<not> buf_ok p then (Inl EINVAL, st)
      else (let b = bc_buffers st ! the p in
            if b_count b = 0 then (Inl EINVAL, st)
            else (Inr 0, buf_update st (the p) (\<lambda>b. b\<lparr>b_flags := if b_count b = 1 then resource_set_unused R (b_flags b) else b_flags b,
                                                         b_count := b_count b - 1\<rparr>))))"

definition bread :: "'r resource_ops \<Rightarrow> 'r bcache \<Rightarrow> nat \<Rightarrow> block_t \<Rightarrow> (buf_ptr \<times> 'r bcache) option" where
  "bread R st dev num =
     do { (p, st1) \<leftarrow> getblk R st dev num;
          case p of
            None \<Rightarrow> Some (None, st1)
          | Some i \<Rightarrow>
              if \<not> resource_is_valid R (b_flags (bc_buffers st1 ! i))
              then (case bdev_readblk (bc_disks st1) (b_dev (bc_buffers st1 ! i)) (b_num (bc_buffers st1 ! i)) of
                      Inl _ \<Rightarrow> do { let (r, st2) = brelse R st1 (Some i); uassert (r = Inr 0); Some (None, st2) }
                    | Inr (_, data) \<Rightarrow> Some (Some i, buf_update st1 i (\<lambda>b.
                        b\<lparr>b_flags := resource_set_valid R (b_flags b), b_data := data\<rparr>)))
              else Some (Some i, st1) }"

definition bwrite2 :: "'r resource_ops \<Rightarrow> 'r bcache \<Rightarrow> buf_ptr \<Rightarrow> int result \<times> 'r bcache" where
  "bwrite2 R st p =
     (if \<not> buf_ok p then (Inl EINVAL, st)
      else (let b = bc_buffers st ! the p in
            if b_count b = 0 then (Inl EINVAL, st)
            else if resource_is_valid R (b_flags b) \<and> resource_is_dirty R (b_flags b)
              then (Inr 0, buf_update (st\<lparr>bc_disks := snd (bdev_writeblk (bc_disks st) (b_dev b) (b_num b) (b_data b))\<rparr>) (the p)
                      (\<lambda>b. b\<lparr>b_flags := resource_set_clean R (b_flags b)\<rparr>))
              else (Inr 0, st)))"

definition bwrite :: "'r resource_ops \<Rightarrow> 'r bcache \<Rightarrow> buf_ptr \<Rightarrow> int result \<times> 'r bcache" where
  "bwrite R st p = (case bwrite2 R st p of (Inl e, st') \<Rightarrow> (Inl e, st') | (Inr _, st') \<Rightarrow> brelse R st' p)"

definition binit :: "'r resource_ops \<Rightarrow> 'r bcache \<Rightarrow> 'r bcache" where
  "binit R st = st\<lparr>bc_buffers := map (\<lambda>b. b\<lparr>b_flags := resource_initializer R, b_dev := 0, b_num := 0, b_count := 0\<rparr>) (bc_buffers st)\<rparr>"

text \<open>A client storing through the pointer \<open>buffer_get_data\<close> gave it.\<close>

definition buffer_store :: "'r bcache \<Rightarrow> nat \<Rightarrow> byte list \<Rightarrow> 'r bcache" where
  "buffer_store st i data = buf_update st i (\<lambda>b. b\<lparr>b_data := data\<rparr>)"

section \<open>Invariant and view\<close>

definition bc_key :: "'r resource_ops \<Rightarrow> 'r buffer \<Rightarrow> nat option" where
  "bc_key R b = (if resource_is_valid R (b_flags b) then Some (unat (b_num b)) else None)"

text \<open>
  A buffer holds a whole block; a valid one holds a block of the disk, equal to the disk's copy
  unless it is dirty; only valid buffers are dirty; a buffer is in use while it is referenced.
\<close>

definition buf_wf :: "'r resource_ops \<Rightarrow> disks \<Rightarrow> 'r buffer \<Rightarrow> bool" where
  "buf_wf R ds b \<longleftrightarrow> length (b_data b) = NANVIX_FS_BLOCK_SIZE \<and>
     (resource_is_valid R (b_flags b) \<longrightarrow> b_dev b = 0 \<and> unat (b_num b) < 64 \<and>
        (\<not> resource_is_dirty R (b_flags b) \<longrightarrow> b_data b = disk_block ds (unat (b_num b)))) \<and>
     (resource_is_dirty R (b_flags b) \<longrightarrow> resource_is_valid R (b_flags b)) \<and>
     0 \<le> b_count b \<and> (resource_is_used R (b_flags b) \<longleftrightarrow> 0 < b_count b)"

definition bc_inv :: "'r resource_ops \<Rightarrow> 'r bcache \<Rightarrow> bool" where
  "bc_inv R st \<longleftrightarrow> length (bc_buffers st) = NANVIX_FS_NR_BUFFERS \<and>
     0 \<le> bc_k st \<and> bc_k st < int NANVIX_FS_NR_BUFFERS \<and> disks_ok (bc_disks st) \<and>
     slots_unique (bc_key R) (bc_buffers st) \<and> (\<forall>b\<in>set (bc_buffers st). buf_wf R (bc_disks st) b)"

definition bc_view :: "'r resource_ops \<Rightarrow> 'r bcache \<Rightarrow> nat \<Rightarrow> byte list" where
  "bc_view R st c = (case first_index (\<lambda>b. bc_key R b = Some c) (bc_buffers st) of
     Some i \<Rightarrow> b_data (bc_buffers st ! i) | None \<Rightarrow> disk_block (bc_disks st) c)"

lemma bc_view_hit:
  assumes "slots_unique (bc_key R) (bc_buffers st)" "i < length (bc_buffers st)" "bc_key R (bc_buffers st ! i) = Some c"
  shows "bc_view R st c = b_data (bc_buffers st ! i)"
  using slots_find [OF assms] by (simp add: bc_view_def)

lemma bc_view_miss:
  assumes "\<And>i. i < length (bc_buffers st) \<Longrightarrow> bc_key R (bc_buffers st ! i) \<noteq> Some c"
  shows "bc_view R st c = disk_block (bc_disks st) c"
proof -
  have "first_index (\<lambda>b. bc_key R b = Some c) (bc_buffers st) = None" using assms by (simp add: first_index_None_iff)
  then show ?thesis by (simp add: bc_view_def)
qed

lemma bc_invD:
  assumes "bc_inv R st"
  shows bc_inv_length: "length (bc_buffers st) = NANVIX_FS_NR_BUFFERS"
    and bc_inv_unique: "slots_unique (bc_key R) (bc_buffers st)"
    and bc_inv_disks: "disks_ok (bc_disks st)"
    and bc_inv_wf: "i < NANVIX_FS_NR_BUFFERS \<Longrightarrow> buf_wf R (bc_disks st) (bc_buffers st ! i)"
    and bc_inv_k: "0 \<le> bc_k st" "bc_k st < int NANVIX_FS_NR_BUFFERS"
  using assms by (auto simp: bc_inv_def)

text \<open>
  Replacing buffer \<open>i\<close> and, possibly, the disk. The view is kept if the disk keeps the blocks of the
  other buffers and the blocks that no buffer holds, and buffer \<open>i\<close> keeps its own.
\<close>

lemma bc_change:
  assumes inv: "bc_inv R st" and i: "i < NANVIX_FS_NR_BUFFERS"
    and k: "0 \<le> k" "k < int NANVIX_FS_NR_BUFFERS" and ds: "disks_ok ds" and b: "buf_wf R ds b"
    and new: "bc_key R b = None \<or> bc_key R b = bc_key R (bc_buffers st ! i) \<or>
      (\<forall>j<NANVIX_FS_NR_BUFFERS. bc_key R (bc_buffers st ! j) \<noteq> bc_key R b)"
    and disk: "\<And>c. c < 64 \<Longrightarrow> bc_key R (bc_buffers st ! i) \<noteq> Some c \<Longrightarrow> disk_block ds c = disk_block (bc_disks st) c"
  shows "bc_inv R (st\<lparr>bc_buffers := (bc_buffers st)[i := b], bc_k := k, bc_disks := ds\<rparr>)" (is "bc_inv R ?st")
proof -
  let ?bs = "bc_buffers st"
  note len = bc_inv_length [OF inv] and un = bc_inv_unique [OF inv]
  have "slots_unique (bc_key R) (?bs[i := b])"
  proof (rule slots_unique_update [OF un])
    show "i < length ?bs" using i len by simp
    fix j
    assume j: "bc_key R b \<noteq> None" "j < length ?bs" "bc_key R (?bs ! j) = bc_key R b"
    with new len have "bc_key R b = bc_key R (?bs ! i)" by auto
    with j i len show "j = i" using slots_uniqueD [OF un, of i j] by auto
  qed
  moreover have "buf_wf R ds (?bs ! j)" if j: "j < NANVIX_FS_NR_BUFFERS" "j \<noteq> i" for j
  proof (cases "bc_key R (?bs ! j)")
    case None
    with bc_inv_wf [OF inv j(1)] show ?thesis by (auto simp: buf_wf_def bc_key_def)
  next
    case (Some c)
    then have "bc_key R (?bs ! i) \<noteq> Some c" using slots_uniqueD [OF un, of i j c] j i len by auto
    with bc_inv_wf [OF inv j(1)] Some disk [of c] show ?thesis by (auto simp: buf_wf_def bc_key_def)
  qed
  then have "buf_wf R ds (?bs[i := b] ! j)" if "j < NANVIX_FS_NR_BUFFERS" for j
    using that b len by (cases "j = i") simp_all
  then have "\<forall>x\<in>set (?bs[i := b]). buf_wf R ds x" using len by (auto simp: in_set_conv_nth)
  ultimately show ?thesis using k ds len by (simp add: bc_inv_def)
qed

lemma bc_change_view:
  assumes inv: "bc_inv R st" and i: "i < NANVIX_FS_NR_BUFFERS" and inv': "bc_inv R (st\<lparr>bc_buffers := (bc_buffers st)[i := b], bc_k := k, bc_disks := ds\<rparr>)" (is "bc_inv R ?st")
    and disk: "bc_key R (bc_buffers st ! i) \<noteq> Some c \<Longrightarrow> disk_block ds c = disk_block (bc_disks st) c"
    and own: "bc_key R b = Some c \<Longrightarrow> b_data b = bc_view R st c"
    and gone: "bc_key R (bc_buffers st ! i) = Some c \<Longrightarrow> bc_key R b \<noteq> Some c \<Longrightarrow> disk_block ds c = b_data (bc_buffers st ! i)"
  shows "bc_view R ?st c = bc_view R st c"
proof -
  let ?bs = "bc_buffers st"
  have len: "length ?bs = NANVIX_FS_NR_BUFFERS" by (rule bc_inv_length [OF inv])
  note un = bc_inv_unique [OF inv] and un' = bc_inv_unique [OF inv']
  consider (new) "bc_key R b = Some c" | (other) j where "j < NANVIX_FS_NR_BUFFERS" "j \<noteq> i" "bc_key R (?bs ! j) = Some c"
    | (out) "bc_key R b \<noteq> Some c" "\<And>j. j < NANVIX_FS_NR_BUFFERS \<Longrightarrow> j \<noteq> i \<Longrightarrow> bc_key R (?bs ! j) \<noteq> Some c" by blast
  then show ?thesis
  proof cases
    case new
    with bc_view_hit [OF un', of i c] own i len show ?thesis by simp
  next
    case other
    with bc_view_hit [OF un', of j c] bc_view_hit [OF un, of j c] len show ?thesis by simp
  next
    case out
    then have "bc_key R (?bs[i := b] ! j) \<noteq> Some c" if "j < NANVIX_FS_NR_BUFFERS" for j
      using that len by (cases "j = i") auto
    then have v': "bc_view R ?st c = disk_block ds c" using bc_view_miss [of ?st R c] len by simp
    show ?thesis
    proof (cases "bc_key R (?bs ! i) = Some c")
      case True
      with v' gone out(1) bc_view_hit [OF un, of i c] i len show ?thesis by simp
    next
      case False
      then have "bc_key R (?bs ! j) \<noteq> Some c" if "j < NANVIX_FS_NR_BUFFERS" for j
        using that out(2) by (cases "j = i") auto
      then have "bc_view R st c = disk_block (bc_disks st) c" using len by (intro bc_view_miss) simp
      with v' disk False show ?thesis by simp
    qed
  qed
qed

section \<open>The search of evict\<close>

lemma evict_search_unused:
  assumes "evict_search R bs stop i cand = Some p"
    and "0 \<le> i" "i < 32" "\<And>j. cand = Some j \<Longrightarrow> j < 32 \<and> \<not> resource_is_used R (b_flags (bs ! j))"
  shows "p = Some j \<Longrightarrow> j < 32 \<and> \<not> resource_is_used R (b_flags (bs ! j))"
proof -
  define ok where "ok R bs p \<longleftrightarrow> (\<forall>j. p = Some j \<longrightarrow> j < 32 \<and> \<not> resource_is_used R (b_flags (bs ! j)))"
    for R :: "'a resource_ops" and bs :: "'a buffer list" and p
  have "0 \<le> i \<longrightarrow> i < 32 \<longrightarrow> ok R bs cand \<longrightarrow> ok R bs p"
    using assms(1)
  proof (rule evict_search.raw_induct [rotated], goal_cases)
    case (1 f R bs stop i cand p)
    show ?case
    proof (intro impI)
      assume i: "0 \<le> i" "i < 32" and c: "ok R bs cand"
      have n: "0 \<le> (i + 1) smod int NANVIX_FS_NR_BUFFERS" "(i + 1) smod int NANVIX_FS_NR_BUFFERS < 32"
        using i smod_int_compares [of "i + 1" 32] by (simp_all add: NANVIX_FS_NR_BUFFERS_def)
      have IH: "ok R bs p" if "f R bs stop ((i + 1) smod int NANVIX_FS_NR_BUFFERS) c' = Some p" "ok R bs c'" for c'
        using 1(1) [OF that(1)] n that(2) by blast
      have here: "ok R bs (Some (nat i))" if "\<not> resource_is_used R (b_flags (bs ! nat i))"
        using that i by (simp add: ok_def)
      show "ok R bs p"
        using 1(2) c IH [of cand] IH [of "Some (nat i)"] here by (simp split: if_splits)
    qed
  qed
  with assms(2-4) show "p = Some j \<Longrightarrow> j < 32 \<and> \<not> resource_is_used R (b_flags (bs ! j))" by (simp add: ok_def)
qed

lemma evict_search_diverges:
  assumes "evict_search R bs stop i cand = Some p" "stop < 0" "0 \<le> i" "i < 32"
  shows "\<exists>j<32. \<not> resource_is_used R (b_flags (bs ! j)) \<and> \<not> resource_is_dirty R (b_flags (bs ! j))"
proof -
  have "stop < 0 \<longrightarrow> 0 \<le> i \<longrightarrow> i < 32 \<longrightarrow> (\<exists>j<32. \<not> resource_is_used R (b_flags (bs ! j)) \<and> \<not> resource_is_dirty R (b_flags (bs ! j)))"
    using assms(1)
  proof (rule evict_search.raw_induct [rotated], goal_cases)
    case (1 f R bs stop i cand p)
    show ?case
    proof (intro impI)
      assume i: "stop < 0" "0 \<le> i" "i < 32"
      have "0 \<le> (i + 1) smod int NANVIX_FS_NR_BUFFERS" "(i + 1) smod int NANVIX_FS_NR_BUFFERS < 32"
        using i smod_int_compares [of "i + 1" 32] by (simp_all add: NANVIX_FS_NR_BUFFERS_def)
      moreover have "nat i < 32" using i by simp
      ultimately show "\<exists>j<32. \<not> resource_is_used R (b_flags (bs ! j)) \<and> \<not> resource_is_dirty R (b_flags (bs ! j))"
        using i 1 by (auto split: if_splits)
    qed
  qed
  with assms(2-4) show ?thesis by simp
qed

lemma evict_search_total:
  assumes "0 \<le> stop" "stop < 32" "0 \<le> i" "i < 32"
  shows "\<exists>p. evict_search R bs stop i cand = Some p"
  using assms(3,4)
proof (induction "nat ((stop - i) mod 32)" arbitrary: i cand rule: less_induct)
  case less
  show ?case
  proof (cases "i = stop")
    case True
    then show ?thesis by (simp add: evict_search.simps)
  next
    case False
    let ?i = "(i + 1) smod int NANVIX_FS_NR_BUFFERS"
    have i: "?i = (i + 1) mod 32" using less.prems by (simp add: NANVIX_FS_NR_BUFFERS_def smod_int_alt_def)
    have "nat ((stop - ?i) mod 32) < nat ((stop - i) mod 32)"
    proof -
      have "(stop - i) mod 32 \<noteq> 0"
      proof
        assume "(stop - i) mod 32 = 0"
        then have "stop mod 32 = i mod 32" by (simp add: mod_eq_dvd_iff mod_eq_0_iff_dvd)
        with False less.prems assms(1,2) show False by simp
      qed
      moreover have "(stop - ?i) mod 32 = ((stop - i) - 1) mod 32" unfolding i by (simp add: mod_diff_right_eq algebra_simps)
      moreover have "(x - 1) mod 32 = x mod 32 - 1" if "x mod 32 \<noteq> 0" for x :: int
      proof -
        have "0 \<le> x mod 32 - 1" "x mod 32 - 1 < 32" using that pos_mod_sign [of 32 x] pos_mod_bound [of 32 x] by linarith+
        then have "(x mod 32 - 1) mod 32 = x mod 32 - 1" by (rule mod_pos_pos_trivial)
        then show ?thesis by (simp add: mod_diff_left_eq)
      qed
      moreover have "0 \<le> (stop - i) mod 32" by simp
      ultimately show ?thesis by simp
    qed
    with less.hyps [of ?i] i have "\<exists>p. evict_search R bs stop ?i c = Some p" for c by simp
    then show ?thesis by (subst evict_search.simps) auto
  qed
qed

section \<open>The operations keep the view\<close>

lemma bc_unchanged: "st\<lparr>bc_buffers := (bc_buffers st)[i := bc_buffers st ! i], bc_k := bc_k st, bc_disks := bc_disks st\<rparr> = st"
  by simp

text \<open>Writing back buffer \<open>i\<close> makes the disk agree with it and leaves every other block alone.\<close>

lemma writeback:
  assumes "bc_inv R st" "i < NANVIX_FS_NR_BUFFERS" "resource_is_valid R (b_flags (bc_buffers st ! i))"
  defines "b \<equiv> bc_buffers st ! i"
  obtains ds where "bdev_writeblk (bc_disks st) (b_dev b) (b_num b) (b_data b) = (Inr (int NANVIX_FS_BLOCK_SIZE), ds)"
    "disks_ok ds" "\<And>c. c < 64 \<Longrightarrow> disk_block ds c = (if bc_key R b = Some c then b_data b else disk_block (bc_disks st) c)"
proof -
  have wf: "buf_wf R (bc_disks st) b" using bc_inv_wf [OF assms(1,2)] by (simp add: b_def)
  then have b: "b_dev b = 0" "unat (b_num b) < 64" "length (b_data b) = NANVIX_FS_BLOCK_SIZE"
    using assms(3) by (auto simp: buf_wf_def b_def)
  obtain ds where "bdev_writeblk (bc_disks st) 0 (of_nat (unat (b_num b))) (b_data b) = (Inr (int NANVIX_FS_BLOCK_SIZE), ds)"
    "disks_ok ds" "\<And>c. c < 64 \<Longrightarrow> disk_block ds c = (if c = unat (b_num b) then b_data b else disk_block (bc_disks st) c)"
    by (rule bdev_writeblk_ok [OF bc_inv_disks [OF assms(1)] b(2,3)]) blast
  then show thesis using b assms(3) by (intro that [of ds]) (auto simp: bc_key_def b_def)
qed

lemma next_k: "bc_inv R st \<Longrightarrow> 0 \<le> (bc_k st + 1) smod int NANVIX_FS_NR_BUFFERS \<and>
    (bc_k st + 1) smod int NANVIX_FS_NR_BUFFERS < int NANVIX_FS_NR_BUFFERS"
  using bc_inv_k [of R st] smod_int_compares [of "bc_k st + 1" 32] by (simp add: NANVIX_FS_NR_BUFFERS_def)

lemma evict_spec:
  assumes R: "resource_laws R" and inv: "bc_inv R st" and e: "evict R st = Some (p, st')"
  shows "bc_inv R st'" "c < 64 \<Longrightarrow> bc_view R st' c = bc_view R st c"
    "\<forall>i. p = Some i \<longrightarrow> i < NANVIX_FS_NR_BUFFERS \<and> bc_key R (bc_buffers st' ! i) = None \<and>
      \<not> resource_is_dirty R (b_flags (bc_buffers st' ! i)) \<and> \<not> resource_is_used R (b_flags (bc_buffers st' ! i)) \<and>
      b_count (bc_buffers st' ! i) = 0 \<and> (\<forall>j<NANVIX_FS_NR_BUFFERS. j \<noteq> i \<longrightarrow> bc_buffers st' ! j = bc_buffers st ! j)"
proof -
  let ?k = "(bc_k st + 1) smod int NANVIX_FS_NR_BUFFERS"
  note k = next_k [OF inv] and len = bc_inv_length [OF inv]
  obtain q where q: "evict_search R (bc_buffers st) ((bc_k st - 1) smod int NANVIX_FS_NR_BUFFERS) (bc_k st) None = Some q"
    using e by (auto simp: evict_def bind_eq_Some_conv)
  have "bc_inv R st' \<and> (\<forall>c<64. bc_view R st' c = bc_view R st c) \<and>
    (\<forall>i. p = Some i \<longrightarrow> i < NANVIX_FS_NR_BUFFERS \<and> bc_key R (bc_buffers st' ! i) = None \<and>
      \<not> resource_is_dirty R (b_flags (bc_buffers st' ! i)) \<and> \<not> resource_is_used R (b_flags (bc_buffers st' ! i)) \<and>
      b_count (bc_buffers st' ! i) = 0 \<and> (\<forall>j<NANVIX_FS_NR_BUFFERS. j \<noteq> i \<longrightarrow> bc_buffers st' ! j = bc_buffers st ! j))"
  proof (cases q)
    case None
    with e q have st': "p = None" "st' = st\<lparr>bc_k := ?k\<rparr>" by (auto simp: evict_def)
    moreover have "bc_view R (st\<lparr>bc_k := ?k\<rparr>) c = bc_view R st c" for c by (simp add: bc_view_def split: option.split)
    ultimately show ?thesis using inv k by (simp add: bc_inv_def)
  next
    case (Some i)
    have i: "i < NANVIX_FS_NR_BUFFERS" "\<not> resource_is_used R (b_flags (bc_buffers st ! i))"
      using evict_search_unused [OF q _ _ _ Some] bc_inv_k [OF inv] by (auto simp: NANVIX_FS_NR_BUFFERS_def)
    let ?b = "bc_buffers st ! i"
    note wf = bc_inv_wf [OF inv i(1)]
    define ds where "ds = (if resource_is_dirty R (b_flags ?b)
      then snd (bdev_writeblk (bc_disks st) (b_dev ?b) (b_num ?b) (b_data ?b)) else bc_disks st)"
    define b where "b = ?b\<lparr>b_flags := resource_set_invalid R (if resource_is_dirty R (b_flags ?b)
      then resource_set_clean R (b_flags ?b) else b_flags ?b)\<rparr>"
    have st': "p = Some i" "st' = st\<lparr>bc_buffers := (bc_buffers st)[i := b], bc_k := ?k, bc_disks := ds\<rparr>"
      using e q Some i len by (auto simp: evict_def Let_def buf_update_def b_def ds_def)
    have ds: "disks_ok ds" "\<And>c. c < 64 \<Longrightarrow> disk_block ds c = (if bc_key R ?b = Some c then b_data ?b else disk_block (bc_disks st) c)"
    proof -
      have "disks_ok ds \<and> (\<forall>c<64. disk_block ds c = (if bc_key R ?b = Some c then b_data ?b else disk_block (bc_disks st) c))"
      proof (cases "resource_is_dirty R (b_flags ?b)")
        case True
        then have v: "resource_is_valid R (b_flags ?b)" using wf by (simp add: buf_wf_def)
        show ?thesis by (rule writeback [OF inv i(1) v]) (simp add: ds_def True)
      next
        case False
        with wf bc_inv_disks [OF inv] show ?thesis by (auto simp: ds_def buf_wf_def bc_key_def)
      qed
      then show "disks_ok ds" "\<And>c. c < 64 \<Longrightarrow> disk_block ds c = (if bc_key R ?b = Some c then b_data ?b else disk_block (bc_disks st) c)"
        by auto
    qed
    have flags: "bc_key R b = None" "\<not> resource_is_dirty R (b_flags b)" "\<not> resource_is_used R (b_flags b)" "b_count b = 0"
      using R i(2) wf by (auto simp: b_def bc_key_def buf_wf_def)
    have "buf_wf R ds b" using wf flags by (simp add: buf_wf_def bc_key_def b_def split: if_splits)
    then have inv': "bc_inv R st'"
      unfolding st' using k ds flags by (intro bc_change [OF inv i(1)]) auto
    moreover have "bc_view R st' c = bc_view R st c" if "c < 64" for c
      unfolding st' by (rule bc_change_view [OF inv i(1) inv' [unfolded st']]) (use that ds flags in auto)
    ultimately show ?thesis using st' i len flags by simp
  qed
  then show "bc_inv R st'" "c < 64 \<Longrightarrow> bc_view R st' c = bc_view R st c"
    "\<forall>i. p = Some i \<longrightarrow> i < NANVIX_FS_NR_BUFFERS \<and> bc_key R (bc_buffers st' ! i) = None \<and>
      \<not> resource_is_dirty R (b_flags (bc_buffers st' ! i)) \<and> \<not> resource_is_used R (b_flags (bc_buffers st' ! i)) \<and>
      b_count (bc_buffers st' ! i) = 0 \<and> (\<forall>j<NANVIX_FS_NR_BUFFERS. j \<noteq> i \<longrightarrow> bc_buffers st' ! j = bc_buffers st ! j)"
    by blast+
qed

lemma bc_touch:
  assumes inv: "bc_inv R st" and i: "i < NANVIX_FS_NR_BUFFERS"
    and f: "buf_wf R (bc_disks st) (f (bc_buffers st ! i))" "bc_key R (f (bc_buffers st ! i)) = bc_key R (bc_buffers st ! i)"
      "b_data (f (bc_buffers st ! i)) = b_data (bc_buffers st ! i)"
  shows "bc_inv R (buf_update st i f)" "bc_view R (buf_update st i f) c = bc_view R st c"
proof -
  have st': "buf_update st i f = st\<lparr>bc_buffers := (bc_buffers st)[i := f (bc_buffers st ! i)], bc_k := bc_k st, bc_disks := bc_disks st\<rparr>"
    by (simp add: buf_update_def)
  show inv': "bc_inv R (buf_update st i f)"
    unfolding st' using f bc_inv_k [OF inv] bc_inv_disks [OF inv] by (intro bc_change [OF inv i]) auto
  show "bc_view R (buf_update st i f) c = bc_view R st c"
    unfolding st'
    by (rule bc_change_view [OF inv i inv' [unfolded st']])
      (use f i bc_inv_length [OF inv] bc_view_hit [OF bc_inv_unique [OF inv], of i c] in auto)
qed

lemma bread_hit:
  assumes R: "resource_laws R" and inv: "bc_inv R st"
    and f: "first_index (\<lambda>b. resource_is_valid R (b_flags b) \<and> b_dev b = dev \<and> b_num b = num) (bc_buffers st) = Some i"
  defines "st' \<equiv> buf_update st i (\<lambda>b. b\<lparr>b_flags := resource_set_used R (b_flags b), b_count := b_count b + 1\<rparr>)"
  shows "bread R st dev num = Some (Some i, st')" "bc_inv R st'" "bc_view R st' c = bc_view R st c"
    "i < NANVIX_FS_NR_BUFFERS" "unat num < 64" "b_data (bc_buffers st' ! i) = bc_view R st (unat num)"
    "bc_key R (bc_buffers st' ! i) = Some (unat num)" "0 < b_count (bc_buffers st' ! i)"
proof -
  let ?b = "bc_buffers st ! i"
  have i: "i < length (bc_buffers st)" "resource_is_valid R (b_flags ?b)" "b_dev ?b = dev" "b_num ?b = num"
    using first_index_bound [OF f] first_index_sat [OF f] by auto
  then show i': "i < NANVIX_FS_NR_BUFFERS" by (simp add: bc_inv_length [OF inv])
  note wf = bc_inv_wf [OF inv i']
  then show "unat num < 64" using i by (simp add: buf_wf_def)
  have "buf_wf R (bc_disks st) (?b\<lparr>b_flags := resource_set_used R (b_flags ?b), b_count := b_count ?b + 1\<rparr>)"
    using wf R by (simp add: buf_wf_def)
  from bc_touch [OF inv i', of "\<lambda>b. b\<lparr>b_flags := resource_set_used R (b_flags b), b_count := b_count b + 1\<rparr>"] this R
  show "bc_inv R st'" "bc_view R st' c = bc_view R st c" by (simp_all add: st'_def bc_key_def)
  show "bread R st dev num = Some (Some i, st')"
    using f i R by (simp add: bread_def getblk_def buf_update_def st'_def)
  show "b_data (bc_buffers st' ! i) = bc_view R st (unat num)"
    using i bc_view_hit [OF bc_inv_unique [OF inv] i(1), of "unat num"] by (simp add: st'_def buf_update_def bc_key_def)
  show "bc_key R (bc_buffers st' ! i) = Some (unat num)" "0 < b_count (bc_buffers st' ! i)"
    using i R wf by (simp_all add: st'_def buf_update_def bc_key_def buf_wf_def)
qed

lemma bread_miss:
  assumes R: "resource_laws R" and inv: "bc_inv R st" and num: "unat num < 2 ^ 22"
    and f: "first_index (\<lambda>b. resource_is_valid R (b_flags b) \<and> b_dev b = 0 \<and> b_num b = num) (bc_buffers st) = None"
    and e: "evict R st = Some (Some i, st1)"
  shows "\<exists>p st'. bread R st 0 num = Some (p, st') \<and> bc_inv R st' \<and> (\<forall>c<64. bc_view R st' c = bc_view R st c) \<and>
    (if unat num < 64 then p = Some i \<and> b_data (bc_buffers st' ! i) = bc_view R st (unat num) \<and>
       bc_key R (bc_buffers st' ! i) = Some (unat num) \<and> 0 < b_count (bc_buffers st' ! i)
     else p = None)"
proof -
  note E = evict_spec [OF R inv e]
  have i: "i < NANVIX_FS_NR_BUFFERS" "bc_key R (bc_buffers st1 ! i) = None" "\<not> resource_is_dirty R (b_flags (bc_buffers st1 ! i))"
    "\<not> resource_is_used R (b_flags (bc_buffers st1 ! i))" "b_count (bc_buffers st1 ! i) = 0"
    using E(3) by auto
  have len: "length (bc_buffers st1) = NANVIX_FS_NR_BUFFERS" by (rule bc_inv_length [OF E(1)])
  have old: "bc_key R (bc_buffers st ! j) \<noteq> Some (unat num)" if "j < NANVIX_FS_NR_BUFFERS" for j
    using f that bc_inv_wf [OF inv that] bc_inv_length [OF inv]
    by (auto simp: first_index_None_iff bc_key_def buf_wf_def word_unat_eq_iff)
  have absent: "bc_key R (bc_buffers st1 ! j) \<noteq> Some (unat num)" if "j < NANVIX_FS_NR_BUFFERS" for j
    using old [OF that] i(2) E(3) that by (cases "j = i") auto
  let ?b = "bc_buffers st1 ! i"
  have wf: "buf_wf R (bc_disks st1) ?b" by (rule bc_inv_wf [OF E(1) i(1)])
  have inval: "\<not> resource_is_valid R (b_flags ?b)" using i(2) by (simp add: bc_key_def split: if_splits)
  define b where "b = (if unat num < 64 then ?b\<lparr>b_dev := 0, b_num := num, b_count := 1,
      b_flags := resource_set_valid R (resource_set_used R (b_flags ?b)), b_data := disk_block (bc_disks st1) (unat num)\<rparr>
    else ?b\<lparr>b_dev := 0, b_num := num, b_flags := resource_set_unused R (resource_set_used R (b_flags ?b)), b_count := 0\<rparr>)"
  let ?st = "st1\<lparr>bc_buffers := (bc_buffers st1)[i := b], bc_k := bc_k st1, bc_disks := bc_disks st1\<rparr>"
  have read: "bdev_readblk (bc_disks st1) 0 num = (if unat num < 64 then Inr (int NANVIX_FS_BLOCK_SIZE, disk_block (bc_disks st1) (unat num)) else Inl EINVAL)"
    using bdev_readblk_ok [OF bc_inv_disks [OF E(1)], of "unat num"] bdev_readblk_out [of "unat num"] num by simp
  have eq: "bread R st 0 num = Some (if unat num < 64 then Some i else None, ?st)"
    using f e i len inval read R
    by (simp add: bread_def getblk_def buf_update_def brelse_def buf_ok_def b_def Let_def)
  have key: "bc_key R b = (if unat num < 64 then Some (unat num) else None)"
    using R inval by (simp add: b_def bc_key_def)
  have "length (disk_block (bc_disks st1) (unat num)) = NANVIX_FS_BLOCK_SIZE" if "unat num < 64"
    by (rule ramdisk.contents_length [OF bc_inv_disks [OF E(1)] that])
  then have "buf_wf R (bc_disks st1) b" using R wf i inval by (simp add: b_def buf_wf_def)
  then have inv': "bc_inv R ?st"
    using key absent bc_inv_k [OF E(1)] bc_inv_disks [OF E(1)] by (intro bc_change [OF E(1) i(1)]) auto
  have miss: "bc_view R st1 (unat num) = disk_block (bc_disks st1) (unat num)" using absent len by (intro bc_view_miss) auto
  have "bc_view R ?st c = bc_view R st1 c" for c
    by (rule bc_change_view [OF E(1) i(1) inv']) (use i key miss in \<open>auto simp: b_def split: if_splits\<close>)
  with E(2) have view: "\<forall>c<64. bc_view R ?st c = bc_view R st c" by simp
  show ?thesis
    using eq inv' view key len i(1) miss E(2) [of "unat num"] by (auto simp: b_def)
qed

lemma bread_cases:
  assumes R: "resource_laws R" and inv: "bc_inv R st" and num: "unat num < 2 ^ 22" and b: "bread R st 0 num = Some (p, st')"
  shows "bc_inv R st' \<and> (\<forall>c<64. bc_view R st' c = bc_view R st c) \<and>
    (\<forall>i. p = Some i \<longrightarrow> i < NANVIX_FS_NR_BUFFERS \<and> unat num < 64 \<and> b_data (bc_buffers st' ! i) = bc_view R st (unat num) \<and>
       bc_key R (bc_buffers st' ! i) = Some (unat num) \<and> 0 < b_count (bc_buffers st' ! i))"
proof (cases "first_index (\<lambda>b. resource_is_valid R (b_flags b) \<and> b_dev b = 0 \<and> b_num b = num) (bc_buffers st)")
  case (Some i)
  note H = bread_hit [OF R inv Some]
  from b H(1) have "p = Some i" "st' = buf_update st i (\<lambda>b. b\<lparr>b_flags := resource_set_used R (b_flags b), b_count := b_count b + 1\<rparr>)"
    by auto
  with H show ?thesis by auto
next
  case None
  obtain q st1 where e: "evict R st = Some (q, st1)"
    using b None by (auto simp: bread_def getblk_def bind_eq_Some_conv split: option.splits)
  show ?thesis
  proof (cases q)
    case q: None
    with b None e have "p = None" "st' = st1" by (auto simp: bread_def getblk_def)
    with evict_spec [OF R inv e] show ?thesis by auto
  next
    case (Some i)
    have "i < NANVIX_FS_NR_BUFFERS" using evict_spec(3) [OF R inv e] Some by auto
    with bread_miss [OF R inv num None e [unfolded Some]] b show ?thesis by (auto split: if_splits)
  qed
qed

lemma evict_search_finds:
  assumes "i \<le> j" "j < 32" "\<not> resource_is_used R (b_flags (bs ! j))" "\<not> resource_is_dirty R (b_flags (bs ! j))" "stop < 0"
  shows "\<exists>p. evict_search R bs stop (int i) cand = Some p"
  using assms(1)
proof (induction "j - i" arbitrary: i cand)
  case 0
  with assms show ?case by (simp add: evict_search.simps [of R bs stop "int i"])
next
  case (Suc n)
  have "(int i + 1) smod int NANVIX_FS_NR_BUFFERS = int (Suc i)"
    using Suc.hyps(2) assms(2) by (simp add: NANVIX_FS_NR_BUFFERS_def smod_int_alt_def)
  with Suc.hyps(1) [of "Suc i"] Suc.hyps(2) have "\<exists>p. evict_search R bs stop ((int i + 1) smod int NANVIX_FS_NR_BUFFERS) c = Some p" for c
    by simp
  then show ?case by (subst evict_search.simps) auto
qed

lemma evict_search_first:
  "\<not> resource_is_used R (b_flags (bs ! 0)) \<Longrightarrow> \<not> resource_is_dirty R (b_flags (bs ! 0)) \<Longrightarrow> stop \<noteq> 0 \<Longrightarrow>
     evict_search R bs stop 0 cand = Some (Some 0)"
  by (simp add: evict_search.simps [of R bs stop 0])

lemma evict_returns: "evict R st \<noteq> None \<longleftrightarrow>
    evict_search R (bc_buffers st) ((bc_k st - 1) smod int NANVIX_FS_NR_BUFFERS) (bc_k st) None \<noteq> None"
proof (cases "evict_search R (bc_buffers st) ((bc_k st - 1) smod int NANVIX_FS_NR_BUFFERS) (bc_k st) None")
  case None
  then show ?thesis by (simp add: evict_def)
next
  case (Some p)
  then show ?thesis by (cases p) (simp_all add: evict_def Let_def)
qed

lemma evict_returns_iff:
  assumes "bc_inv R st"
  shows "evict R st \<noteq> None \<longleftrightarrow> bc_k st \<noteq> 0 \<or> (\<exists>j<NANVIX_FS_NR_BUFFERS.
    \<not> resource_is_used R (b_flags (bc_buffers st ! j)) \<and> \<not> resource_is_dirty R (b_flags (bc_buffers st ! j)))"
proof (cases "bc_k st = 0")
  case True
  then have stop: "(bc_k st - 1) smod int NANVIX_FS_NR_BUFFERS = -1" by (simp add: NANVIX_FS_NR_BUFFERS_def smod_int_alt_def)
  show ?thesis
    using evict_search_diverges [of R "bc_buffers st" "-1" 0 None]
      evict_search_finds [of 0 _ R "bc_buffers st" "-1" None]
    unfolding evict_returns stop by (auto simp: True NANVIX_FS_NR_BUFFERS_def)
next
  case False
  then have "(bc_k st - 1) smod int NANVIX_FS_NR_BUFFERS = bc_k st - 1"
    using bc_inv_k [OF assms] by (simp add: NANVIX_FS_NR_BUFFERS_def smod_int_alt_def sgn_if)
  with False evict_search_total [of "bc_k st - 1" "bc_k st" R "bc_buffers st" None] bc_inv_k [OF assms]
  show ?thesis unfolding evict_returns by (simp add: NANVIX_FS_NR_BUFFERS_def)
qed

lemma bread_returns:
  assumes R: "resource_laws R" and inv: "bc_inv R st" and num: "unat num < 2 ^ 22"
    and ev: "evict R st \<noteq> None"
  shows "\<exists>p st'. bread R st 0 num = Some (p, st')"
proof (cases "first_index (\<lambda>b. resource_is_valid R (b_flags b) \<and> b_dev b = 0 \<and> b_num b = num) (bc_buffers st)")
  case (Some i)
  from bread_hit(1) [OF R inv Some] show ?thesis by blast
next
  case None
  obtain q st1 where e: "evict R st = Some (q, st1)" using ev by auto
  show ?thesis
  proof (cases q)
    case q: None
    with None e show ?thesis by (simp add: bread_def getblk_def)
  next
    case (Some i)
    from bread_miss [OF R inv num None e [unfolded Some]] show ?thesis by blast
  qed
qed

definition bc_static :: "flags bcache" where
  "bc_static = \<lparr>bc_buffers = replicate NANVIX_FS_NR_BUFFERS \<lparr>b_flags = plain_clear, b_dev = 0, b_num = 0,
     b_data = replicate NANVIX_FS_BLOCK_SIZE 0, b_count = 0\<rparr>, bc_k = 0, bc_disks = [replicate NANVIX_RAMDISK_SIZE 0]\<rparr>"

lemma bc_inv_init:
  assumes "resource_laws R" "length (bc_buffers st) = NANVIX_FS_NR_BUFFERS" "0 \<le> bc_k st" "bc_k st < int NANVIX_FS_NR_BUFFERS"
    "disks_ok (bc_disks st)" "\<forall>b\<in>set (bc_buffers st). length (b_data b) = NANVIX_FS_BLOCK_SIZE"
  shows "bc_inv R (binit R st)"
  using assms by (auto simp: bc_inv_def binit_def slots_unique_def bc_key_def buf_wf_def)

lemma bc_static_inv: "bc_inv plain_resource (binit plain_resource bc_static)"
  by (rule bc_inv_init) (simp_all add: bc_static_def disks_ok_def NANVIX_FS_NR_BUFFERS_def NANVIX_NR_RAMDISKS_def)

lemma bc_static_evict: "evict plain_resource (binit plain_resource bc_static) \<noteq> None"
  unfolding evict_returns_iff [OF bc_static_inv]
  by (rule disjI2, rule exI [of _ 0]) (simp add: binit_def bc_static_def plain_clear_def NANVIX_FS_NR_BUFFERS_def)

section \<open>Properties\<close>

text \<open>
  C4. The block cache is transparent for block numbers below \<open>2 ^ 22\<close>, those whose byte offset fits in the 32 bits
  that the driver computes it in (a larger number reads the block at the offset cut to 32 bits).
  Whenever \<open>bread\<close> returns for such a number, whether it hits, evicts a clean buffer or writes a dirty one back, the contents of every block as the clients see them are unchanged, and the
  buffer it returns is referenced, holds the block asked for and its current contents; it returns no
  buffer for a block outside the disk.
\<close>

theorem bcache_coherent:
  assumes "resource_laws R" "bc_inv R st" "unat num < 2 ^ 22" "bread R st 0 num = Some (p, st')"
  shows "bc_inv R st' \<and> (\<forall>c<64. bc_view R st' c = bc_view R st c) \<and>
    (\<forall>i. p = Some i \<longrightarrow> unat num < 64 \<and> buffer_get_data st' p = Some (bc_view R st (unat num)) \<and>
       b_num (bc_buffers st' ! i) = num \<and> 0 < b_count (bc_buffers st' ! i))"
proof -
  note B = bread_cases [OF assms]
  then show ?thesis
    by (auto simp: buffer_get_data_def buf_ok_def bc_key_def word_unat_eq_iff split: if_splits)
qed

theorem bcache_coherent_witness:
  "\<exists>p st'. bread plain_resource (binit plain_resource bc_static) 0 5 = Some (p, st') \<and> bc_inv plain_resource st'"
proof -
  obtain p st' where b: "bread plain_resource (binit plain_resource bc_static) 0 5 = Some (p, st')"
    using bread_returns [OF _ bc_static_inv, of 5] bc_static_evict by auto
  from bcache_coherent [OF _ bc_static_inv _ b] b show ?thesis by auto
qed

text \<open>
  A change made through a held buffer reaches the disk. Storing a block in a referenced valid buffer and
  marking it dirty changes the contents of that block alone, for every client; \<open>bwrite\<close> then puts
  exactly that data on the disk, releases the reference and changes nothing else the clients see.
\<close>

theorem bcache_modify_flush:
  assumes R: "resource_laws R" and inv: "bc_inv R st" and i: "i < NANVIX_FS_NR_BUFFERS"
    and key: "bc_key R (bc_buffers st ! i) = Some n" and cnt: "0 < b_count (bc_buffers st ! i)"
    and len: "length data = NANVIX_FS_BLOCK_SIZE"
  shows "\<exists>st1 st2. buffer_set_dirty R (buffer_store st i data) (Some i) = (Inr 0, st1) \<and> bc_inv R st1 \<and>
    (\<forall>c<64. bc_view R st1 c = (if c = n then data else bc_view R st c)) \<and>
    bwrite R st1 (Some i) = (Inr 0, st2) \<and> bc_inv R st2 \<and> (\<forall>c<64. bc_view R st2 c = bc_view R st1 c) \<and>
    disk_block (bc_disks st2) n = data \<and> b_count (bc_buffers st2 ! i) = b_count (bc_buffers st ! i) - 1"
proof -
  let ?b = "bc_buffers st ! i"
  let ?d = "?b\<lparr>b_data := data, b_flags := resource_set_dirty R (b_flags ?b)\<rparr>"
  let ?st1 = "st\<lparr>bc_buffers := (bc_buffers st)[i := ?d], bc_k := bc_k st, bc_disks := bc_disks st\<rparr>"
  note wf = bc_inv_wf [OF inv i] and blen = bc_inv_length [OF inv]
  have v: "resource_is_valid R (b_flags ?b)" "unat (b_num ?b) = n" "n < 64"
    using key wf by (auto simp: bc_key_def buf_wf_def split: if_splits)
  have kd: "bc_key R ?d = Some n" using R v by (simp add: bc_key_def)
  have st1: "buffer_set_dirty R (buffer_store st i data) (Some i) = (Inr 0, ?st1)"
    using i blen by (simp add: buffer_set_dirty_def buf_ok_def buffer_store_def buf_update_def)
  have "buf_wf R (bc_disks st) ?d" using wf R v len by (simp add: buf_wf_def)
  then have inv1: "bc_inv R ?st1"
    using bc_inv_k [OF inv] bc_inv_disks [OF inv] kd key by (intro bc_change [OF inv i]) auto
  have v1: "bc_view R ?st1 c = (if c = n then data else bc_view R st c)" if "c < 64" for c
  proof (cases "c = n")
    case True
    with bc_view_hit [OF bc_inv_unique [OF inv1], of i n] kd i blen show ?thesis by simp
  next
    case False
    have "bc_view R ?st1 c = bc_view R st c"
      by (rule bc_change_view [OF inv i inv1]) (use False kd key in auto)
    with False show ?thesis by (simp only: if_False)
  qed
  have e: "bc_buffers ?st1 ! i = ?d" "i < length (bc_buffers ?st1)" using i blen by simp_all
  have v2: "resource_is_valid R (b_flags (bc_buffers ?st1 ! i))" using R v e by simp
  obtain ds where ds: "bdev_writeblk (bc_disks st) (b_dev ?b) (b_num ?b) data = (Inr (int NANVIX_FS_BLOCK_SIZE), ds)" "disks_ok ds"
    "\<And>c. c < 64 \<Longrightarrow> disk_block ds c = (if c = n then data else disk_block (bc_disks st) c)"
  proof (rule writeback [OF inv1 i v2], goal_cases)
    case (1 ds)
    have "disk_block ds c = (if c = n then data else disk_block (bc_disks st) c)" if "c < 64" for c
      using 1(4) [OF that] kd unfolding e by simp
    with 1(2,3) show ?case unfolding e by (intro 1(1) [of ds]) simp_all
  qed
  define f where "f = resource_set_clean R (resource_set_dirty R (b_flags ?b))"
  let ?c = "?b\<lparr>b_data := data, b_flags := if b_count ?b = 1 then resource_set_unused R f else f, b_count := b_count ?b - 1\<rparr>"
  let ?st2 = "?st1\<lparr>bc_buffers := (bc_buffers ?st1)[i := ?c], bc_k := bc_k ?st1, bc_disks := ds\<rparr>"
  have st2: "bwrite R ?st1 (Some i) = (Inr 0, ?st2)"
    using i blen cnt R v ds(1) by (simp add: bwrite_def bwrite2_def brelse_def buf_ok_def buf_update_def Let_def f_def)
  have kc: "bc_key R ?c = Some n" using R v by (simp add: bc_key_def f_def)
  have wfc: "buf_wf R ds ?c" using wf R v len cnt ds(3) [of n] by (auto simp: buf_wf_def f_def)
  have inv2: "bc_inv R ?st2"
    by (rule bc_change [OF inv1 i _ _ ds(2) wfc]) (use bc_inv_k [OF inv] kc kd e ds(3) in auto)
  have view2: "bc_view R ?st2 c = bc_view R ?st1 c" if "c < 64" for c
    by (rule bc_change_view [OF inv1 i inv2]) (use kc kd e ds(3) v1 v that in auto)
  show ?thesis
    using st1 inv1 v1 st2 inv2 view2 ds(3) [of n] v i blen
    by (intro exI [of _ ?st1] exI [of _ ?st2]) auto
qed

theorem bcache_modify_flush_witness:
  "\<exists>st i st1 st2. buffer_set_dirty plain_resource (buffer_store st i (replicate NANVIX_FS_BLOCK_SIZE 7)) (Some i) = (Inr 0, st1) \<and>
     bwrite plain_resource st1 (Some i) = (Inr 0, st2) \<and> disk_block (bc_disks st2) 5 = replicate NANVIX_FS_BLOCK_SIZE 7"
proof -
  let ?st = "binit plain_resource bc_static"
  obtain q st1 where e: "evict plain_resource ?st = Some (q, st1)" using bc_static_evict by auto
  have inv: "\<not> resource_is_valid plain_resource (b_flags b)" if "b \<in> set (bc_buffers ?st)" for b
    using that by (auto simp: binit_def plain_clear_def)
  then have f: "first_index (\<lambda>b. resource_is_valid plain_resource (b_flags b) \<and> b_dev b = 0 \<and> b_num b = 5) (bc_buffers ?st) = None"
    by (auto simp: first_index_None_iff)
  have "q \<noteq> None"
    using e evict_search_first [of plain_resource "bc_buffers ?st"]
    by (auto simp: evict_def binit_def bc_static_def plain_clear_def NANVIX_FS_NR_BUFFERS_def smod_int_alt_def)
  then obtain i where i: "q = Some i" by auto
  obtain st' where st': "bc_inv plain_resource st'" "bc_key plain_resource (bc_buffers st' ! i) = Some 5" "0 < b_count (bc_buffers st' ! i)"
    using bread_miss [OF _ bc_static_inv _ f e [unfolded i]] by auto
  have "i < NANVIX_FS_NR_BUFFERS" using evict_spec(3) [OF _ bc_static_inv e] i by auto
  from bcache_modify_flush [OF _ st'(1) this st'(2,3), of "replicate NANVIX_FS_BLOCK_SIZE 7"] show ?thesis by auto
qed

text \<open>
  C39. When \<open>evict\<close> returns. With the starting position \<open>k\<close> at zero the loop's end \<open>(k - 1) % 32\<close> is \<open>-1\<close>, which
  the index never takes: the search ends only at a buffer that is neither in use nor dirty, and with
  none it never ends; from any other position it always ends.
\<close>

theorem bcache_evict_returns_iff:
  assumes "bc_inv R st"
  shows "evict R st \<noteq> None \<longleftrightarrow> bc_k st \<noteq> 0 \<or> (\<exists>j<NANVIX_FS_NR_BUFFERS.
    \<not> resource_is_used R (b_flags (bc_buffers st ! j)) \<and> \<not> resource_is_dirty R (b_flags (bc_buffers st ! j)))"
  by (rule evict_returns_iff [OF assms])

theorem bcache_evict_returns_iff_witness: "evict plain_resource (binit plain_resource bc_static) \<noteq> None"
  unfolding bcache_evict_returns_iff [OF bc_static_inv]
  by (rule disjI2, rule exI [of _ 0]) (simp add: binit_def bc_static_def plain_clear_def NANVIX_FS_NR_BUFFERS_def)

end
