(* ===== verification/Inode.thy ===== *)
theory Inode
  imports MinixDir BCache
begin

text \<open>
  The state of the file system server and its table of in-memory inodes, \<open>src/sys/fs/vfs/inode.c\<close>. A pointer to
  an entry of a static table is its index, \<open>None\<close> for \<open>NULL\<close>; the functions are called with the one file
  system \<open>fs_root\<close>, which is part of the state, and the flag \<open>fs\<close> says whether the pointer to it is given. An
  error code is left in the current process, so with no current process (\<open>curr_proc\<close> is \<open>NULL\<close>) a failing
  call is undefined.
\<close>

section \<open>State\<close>

definition NANVIX_NR_INODES :: nat where "NANVIX_NR_INODES = 64"
definition NANVIX_INODES_TABLE_LENGTH :: nat where "NANVIX_INODES_TABLE_LENGTH = NANVIX_NR_INODES div 4"
definition NANVIX_NR_FILES :: nat where "NANVIX_NR_FILES = 64"
definition NANVIX_OPEN_MAX :: nat where "NANVIX_OPEN_MAX = 16"
definition NANVIX_DEV_NULL :: "32 word" where "NANVIX_DEV_NULL = 0"

lemmas vfs_consts = NANVIX_NR_INODES_def NANVIX_INODES_TABLE_LENGTH_def NANVIX_NR_FILES_def NANVIX_OPEN_MAX_def

type_synonym dev_t = "32 word"
type_synonym inode_ptr = "nat option"

record 'r inode =
  in_resource :: 'r
  in_data :: d_inode
  in_dev :: dev_t
  in_num :: minix_ino_t
  in_count :: int

text \<open>The device field of the super block in memory is never written nor read and is left out.\<close>

record superblock =
  sb_data :: d_superblock
  sb_imap :: bitmap_ptr
  sb_bmap :: bitmap_ptr

record filesystem =
  fs_dev :: dev_t
  fs_root :: inode_ptr
  fs_super :: "superblock option"

record vfile =
  f_oflag :: "32 word"
  f_count :: int
  f_pos :: int
  f_inode :: inode_ptr

text \<open>\<open>None\<close> is the error code zero.\<close>

record fprocess =
  errcode :: "errno option"
  pwd :: inode_ptr
  root :: inode_ptr
  ofiles :: "nat option list"

record 'r vfs =
  v_inodes :: "'r inode list"
  v_filetab :: "vfile list"
  v_procs :: "fprocess list"
  v_curr :: "nat option"
  v_fs :: filesystem
  v_cache :: "'r bcache"

definition v_disk :: "'r vfs \<Rightarrow> disks" where
  "v_disk st = bc_disks (v_cache st)"

definition set_disk :: "disks \<Rightarrow> 'r vfs \<Rightarrow> 'r vfs" where
  "set_disk ds st = st\<lparr>v_cache := (v_cache st)\<lparr>bc_disks := ds\<rparr>\<rparr>"

definition inode_update :: "nat \<Rightarrow> ('r inode \<Rightarrow> 'r inode) \<Rightarrow> 'r vfs \<Rightarrow> 'r vfs" where
  "inode_update i f st = st\<lparr>v_inodes := (v_inodes st)[i := f (v_inodes st ! i)]\<rparr>"

definition super_update :: "(superblock \<Rightarrow> superblock) \<Rightarrow> 'r vfs \<Rightarrow> 'r vfs" where
  "super_update f st = st\<lparr>v_fs := (v_fs st)\<lparr>fs_super := map_option f (fs_super (v_fs st))\<rparr>\<rparr>"

text \<open>Leaving an error code in the current process, and returning with it.\<close>

definition set_err :: "errno \<Rightarrow> 'r vfs \<Rightarrow> 'r vfs option" where
  "set_err e st =
     do { p \<leftarrow> v_curr st;
          q \<leftarrow> arr_get (v_procs st) p;
          Some (st\<lparr>v_procs := (v_procs st)[p := q\<lparr>errcode := Some e\<rparr>]\<rparr>) }"

definition fail :: "errno \<Rightarrow> 'r vfs \<Rightarrow> (int result \<times> 'r vfs) option" where
  "fail e st = do { st' \<leftarrow> set_err e st; Some (Inl e, st') }"

definition fail_null :: "errno \<Rightarrow> 'r vfs \<Rightarrow> (inode_ptr \<times> 'r vfs) option" where
  "fail_null e st = do { st' \<leftarrow> set_err e st; Some (None, st') }"

section \<open>Accessors\<close>

definition inode_disk_get :: "'r vfs \<Rightarrow> inode_ptr \<Rightarrow> d_inode option" where
  "inode_disk_get st ip =
     (case ip of
        None \<Rightarrow> None
      | Some i \<Rightarrow> if in_count (v_inodes st ! i) = 0 then None else Some (in_data (v_inodes st ! i)))"

definition inode_get_num :: "'r vfs \<Rightarrow> inode_ptr \<Rightarrow> (minix_ino_t \<times> 'r vfs) option" where
  "inode_get_num st ip =
     (case ip of
        None \<Rightarrow> do { st' \<leftarrow> set_err EINVAL st; Some (MINIX_INODE_NULL, st') }
      | Some i \<Rightarrow> if in_count (v_inodes st ! i) = 0 then do { st' \<leftarrow> set_err EINVAL st; Some (MINIX_INODE_NULL, st') }
                  else Some (in_num (v_inodes st ! i), st))"

definition inode_get_dev :: "'r vfs \<Rightarrow> inode_ptr \<Rightarrow> (dev_t \<times> 'r vfs) option" where
  "inode_get_dev st ip =
     (case ip of
        None \<Rightarrow> do { st' \<leftarrow> set_err EINVAL st; Some (NANVIX_DEV_NULL, st') }
      | Some i \<Rightarrow> if in_count (v_inodes st ! i) = 0 then do { st' \<leftarrow> set_err EINVAL st; Some (NANVIX_DEV_NULL, st') }
                  else Some (in_dev (v_inodes st ! i), st))"

definition inode_set_dirty :: "'r resource_ops \<Rightarrow> 'r vfs \<Rightarrow> inode_ptr \<Rightarrow> (int result \<times> 'r vfs) option" where
  "inode_set_dirty R st ip =
     (case ip of
        None \<Rightarrow> fail EINVAL st
      | Some i \<Rightarrow>
          if in_count (v_inodes st ! i) = 0 then fail EINVAL st
          else if \<not> i < NANVIX_INODES_TABLE_LENGTH then fail EINVAL st
          else Some (Inr 0, inode_update i (\<lambda>n. n\<lparr>in_resource := resource_set_dirty R (in_resource n)\<rparr>) st))"

definition inode_touch :: "64 word \<Rightarrow> 'r vfs \<Rightarrow> inode_ptr \<Rightarrow> (int result \<times> 'r vfs) option" where
  "inode_touch now st ip =
     (case ip of
        None \<Rightarrow> fail EINVAL st
      | Some i \<Rightarrow>
          if in_count (v_inodes st ! i) = 0 then fail EINVAL st
          else Some (Inr 0, inode_update i (\<lambda>n. n\<lparr>in_data := (in_data n)\<lparr>i_time := ucast now\<rparr>\<rparr>) st))"

section \<open>Reading and releasing\<close>

text \<open>Releasing a number in the map of the mounted file system.\<close>

definition fs_inode_free :: "'r vfs \<Rightarrow> minix_ino_t \<Rightarrow> (int result \<times> 'r vfs) option" where
  "fs_inode_free st num =
     do { sb \<leftarrow> fs_super (v_fs st);
          (r, imap) \<leftarrow> minix_inode_free (Some (sb_data sb)) (sb_imap sb) num;
          Some (r, super_update (\<lambda>sb. sb\<lparr>sb_imap := imap\<rparr>) st) }"

definition inode_read :: "'r resource_ops \<Rightarrow> 'r vfs \<Rightarrow> bool \<Rightarrow> minix_ino_t \<Rightarrow> (inode_ptr \<times> 'r vfs) option" where
  "inode_read R st fs num =
     (if \<not> fs then Some (None, st)
      else do {
        (res, st1) \<leftarrow> (case resource_alloc R (map in_resource (v_inodes st)) of
            None \<Rightarrow> do { st' \<leftarrow> set_err ENOMEM st; Some (None, st') }
          | Some (idx, r) \<Rightarrow> do {
              let st' = inode_update idx (\<lambda>n. n\<lparr>in_resource := r\<rparr>) st;
              sb \<leftarrow> fs_super (v_fs st');
              case minix_inode_read (v_disk st') (unat (fs_dev (v_fs st'))) (Some (sb_data sb)) num of
                Inl _ \<Rightarrow> Some (None, inode_update idx (\<lambda>n. n\<lparr>in_resource := resource_free R (in_resource n)\<rparr>) st')
              | Inr data \<Rightarrow> Some (Some idx, inode_update idx (\<lambda>n. n\<lparr>in_data := data, in_count := 1, in_num := num,
                  in_dev := fs_dev (v_fs st')\<rparr>) st') });
        case res of
          Some idx \<Rightarrow> Some (Some idx, st1)
        | None \<Rightarrow> do { (r, st2) \<leftarrow> fs_inode_free st1 num; uassert (r = Inr 0); Some (None, st2) } })"

definition inode_free :: "'r resource_ops \<Rightarrow> 'r vfs \<Rightarrow> nat \<Rightarrow> (int result \<times> 'r vfs) option" where
  "inode_free R st i =
     (if \<not> i < NANVIX_INODES_TABLE_LENGTH then fail EINVAL st
      else let n = v_inodes st ! i in
        if in_count n = 0 then fail EBUSY st
        else let st1 = inode_update i (\<lambda>n. n\<lparr>in_count := in_count n - 1\<rparr>) st in
          if in_count n = 1
          then do {
            let st2 = inode_update i (\<lambda>n. n\<lparr>in_data := (in_data n)\<lparr>i_nlinks := i_nlinks (in_data n) - 1\<rparr>\<rparr>) st1;
            (r, st3) \<leftarrow> (if i_nlinks (in_data n) = 1 then fs_inode_free st2 (in_num n) else Some (Inr 0, st2));
            case r of
              Inl _ \<Rightarrow> fail EAGAIN st3
            | Inr _ \<Rightarrow> Some (Inr 0, inode_update i (\<lambda>n. n\<lparr>in_resource := resource_free R (in_resource n)\<rparr>) st3) }
          else Some (Inr 0, st1))"

definition inode_write :: "'r vfs \<Rightarrow> bool \<Rightarrow> inode_ptr \<Rightarrow> (int result \<times> 'r vfs) option" where
  "inode_write st fs ip =
     (if \<not> fs then fail EINVAL st
      else case ip of
        None \<Rightarrow> fail EINVAL st
      | Some i \<Rightarrow>
          let n = v_inodes st ! i in
          if fs_dev (v_fs st) \<noteq> in_dev n then fail EINVAL st
          else if in_count n = 0 then fail EINVAL st
          else do {
            sb \<leftarrow> fs_super (v_fs st);
            case minix_inode_write (v_disk st) (unat (in_dev n)) (Some (sb_data sb)) (in_data n) (in_num n) of
              (Inl _, ds) \<Rightarrow> fail EAGAIN (set_disk ds st)
            | (Inr _, ds) \<Rightarrow> Some (Inr 0, set_disk ds st) })"

definition inode_put :: "'r resource_ops \<Rightarrow> 'r vfs \<Rightarrow> bool \<Rightarrow> inode_ptr \<Rightarrow> (int result \<times> 'r vfs) option" where
  "inode_put R st fs ip =
     (if \<not> fs then fail EINVAL st
      else case ip of
        None \<Rightarrow> fail EINVAL st
      | Some i \<Rightarrow>
          let n = v_inodes st ! i in
          if \<not> i < NANVIX_INODES_TABLE_LENGTH then fail EINVAL st
          else if fs_dev (v_fs st) \<noteq> in_dev n then fail EINVAL st
          else if in_count n = 0 then fail EINVAL st
          else do {
            sb \<leftarrow> fs_super (v_fs st);
            case minix_inode_write (v_disk st) (unat (in_dev n)) (Some (sb_data sb)) (in_data n) (in_num n) of
              (Inl _, ds) \<Rightarrow> fail EAGAIN (set_disk ds st)
            | (Inr _, ds) \<Rightarrow> inode_free R (set_disk ds st) i })"

section \<open>Getting an inode\<close>

definition inode_get :: "'r resource_ops \<Rightarrow> 'r vfs \<Rightarrow> bool \<Rightarrow> minix_ino_t \<Rightarrow> (inode_ptr \<times> 'r vfs) option" where
  "inode_get R st fs num =
     (if \<not> fs then fail_null EINVAL st
      else if NANVIX_NR_INODES \<le> unat num then fail_null EINVAL st
      else case first_index (\<lambda>n. resource_is_used R (in_resource n) \<and> in_dev n = fs_dev (v_fs st) \<and> in_num n = num) (v_inodes st) of
        Some i \<Rightarrow> Some (Some i, inode_update i (\<lambda>n. n\<lparr>in_count := in_count n + 1\<rparr>) st)
      | None \<Rightarrow> inode_read R st fs num)"

definition inode_alloc :: "'r resource_ops \<Rightarrow> 64 word \<Rightarrow> 'r vfs \<Rightarrow> bool \<Rightarrow> 16 word \<Rightarrow> 16 word \<Rightarrow> 16 word \<Rightarrow> (inode_ptr \<times> 'r vfs) option" where
  "inode_alloc R now st fs mode uid gid =
     (if \<not> fs then fail_null EINVAL st
      else if fs_root (v_fs st) = None then fail_null EINVAL st
      else do {
        sb \<leftarrow> fs_super (v_fs st);
        (num, imap, ds) \<leftarrow> minix_inode_alloc (v_disk st) (unat (fs_dev (v_fs st))) (Some (sb_data sb)) (sb_imap sb) mode uid gid now;
        let st1 = set_disk ds (super_update (\<lambda>sb. sb\<lparr>sb_imap := imap\<rparr>) st);
        if num = MINIX_INODE_NULL then fail_null EAGAIN st1
        else inode_read R st1 fs num })"

text \<open>
  The lookup of a name in the root directory of the current process. The search works on the directory's
  inode in place.
\<close>

definition inode_name :: "'r resource_ops \<Rightarrow> 'r vfs \<Rightarrow> bool \<Rightarrow> string option \<Rightarrow> (inode_ptr \<times> 'r vfs) option" where
  "inode_name R st fs name =
     (if \<not> fs then fail_null EINVAL st
      else if name = None then fail_null EINVAL st
      else do {
        p \<leftarrow> v_curr st;
        q \<leftarrow> arr_get (v_procs st) p;
        case root q of
          None \<Rightarrow> fail_null EINVAL st
        | Some d \<Rightarrow> do {
            sb \<leftarrow> fs_super (v_fs st);
            (r, bmap, dip, ds) \<leftarrow> minix_dirent_search (unat (fs_dev (v_fs st))) (Some (sb_data sb)) (sb_bmap sb)
              (inode_disk_get st (Some d)) (v_disk st) name False;
            let st1 = set_disk ds (super_update (\<lambda>sb. sb\<lparr>sb_bmap := bmap\<rparr>)
              (case dip of None \<Rightarrow> st | Some data \<Rightarrow> inode_update d (\<lambda>n. n\<lparr>in_data := data\<rparr>) st));
            case r of
              Inl _ \<Rightarrow> fail_null ENOENT st1
            | Inr off \<Rightarrow>
                (case ramdisk_read (v_disk st1) (unat (fs_dev (v_fs st1))) False DIRENT_SIZE (int off) of
                   Inl _ \<Rightarrow> fail_null EIO st1
                 | Inr (_, b) \<Rightarrow> inode_get R st1 True (d_ino (dec_dirent b))) } })"

text \<open>\<open>inode_init\<close> is not called by the server, which relies on the zeroes of static storage.\<close>

definition inode_init :: "'r resource_ops \<Rightarrow> 'r vfs \<Rightarrow> 'r vfs" where
  "inode_init R st = st\<lparr>v_inodes := map (\<lambda>n. n\<lparr>in_resource := resource_initializer R, in_dev := -1,
     in_num := MINIX_INODE_NULL, in_count := 0\<rparr>) (v_inodes st)\<rparr>"


section \<open>Invariant\<close>

text \<open>
  An entry of the table is in use exactly when it is counted, and a counted entry holds an inode of the mounted
  file system; no inode has two entries.
\<close>

definition inode_ok :: "'r resource_ops \<Rightarrow> 'r inode \<Rightarrow> bool" where
  "inode_ok R n \<longleftrightarrow> 0 \<le> in_count n \<and> (resource_is_used R (in_resource n) \<longleftrightarrow> 0 < in_count n) \<and>
     (0 < in_count n \<longrightarrow> in_dev n = 0 \<and> 0 < unat (in_num n) \<and> unat (in_num n) < NANVIX_NR_INODES \<and> inode_wf (in_data n))"

definition itab_ok :: "'r resource_ops \<Rightarrow> 'r inode list \<Rightarrow> bool" where
  "itab_ok R ns \<longleftrightarrow> length ns = NANVIX_INODES_TABLE_LENGTH \<and> (\<forall>i<length ns. inode_ok R (ns ! i)) \<and>
     (\<forall>i<length ns. \<forall>j<length ns. 0 < in_count (ns ! i) \<and> 0 < in_count (ns ! j) \<and> in_num (ns ! i) = in_num (ns ! j) \<longrightarrow> i = j)"

definition mounted :: "'r vfs \<Rightarrow> d_superblock \<Rightarrow> bitmap_t list \<Rightarrow> bitmap_t list \<Rightarrow> nat \<Rightarrow> bool" where
  "mounted st s imap bmap r \<longleftrightarrow>
     v_fs st = \<lparr>fs_dev = 0, fs_root = Some r, fs_super = Some \<lparr>sb_data = s, sb_imap = Some imap, sb_bmap = Some bmap\<rparr>\<rparr> \<and>
     NANVIX_NR_INODES \<le> unat (s_ninodes s) \<and> imap_wf s imap \<and> r < NANVIX_INODES_TABLE_LENGTH \<and>
     0 < in_count (v_inodes st ! r) \<and> in_num (v_inodes st ! r) = MINIX_INODE_ROOT \<and>
     dir_struct s bmap (in_data (v_inodes st ! r)) (v_disk st)"

definition curr_ok :: "'r vfs \<Rightarrow> bool" where
  "curr_ok st \<longleftrightarrow> (\<exists>p. v_curr st = Some p \<and> p < length (v_procs st))"

abbreviation icount :: "'r vfs \<Rightarrow> nat \<Rightarrow> int" where
  "icount st i \<equiv> in_count (v_inodes st ! i)"

text \<open>What an operation on inodes keeps: everything of the processes but their error codes, and the files.\<close>

definition same_procs :: "fprocess list \<Rightarrow> fprocess list \<Rightarrow> bool" where
  "same_procs ps qs \<longleftrightarrow> map (errcode_update (\<lambda>_. None)) ps = map (errcode_update (\<lambda>_. None)) qs"

definition frame :: "'r vfs \<Rightarrow> 'r vfs \<Rightarrow> bool" where
  "frame st st' \<longleftrightarrow> v_filetab st' = v_filetab st \<and> v_curr st' = v_curr st \<and> same_procs (v_procs st') (v_procs st)"

lemma frame_refl [simp]: "frame st st"
  by (simp add: frame_def same_procs_def)

lemma frame_trans: "frame a b \<Longrightarrow> frame b c \<Longrightarrow> frame a c"
  by (simp add: frame_def same_procs_def)

lemma same_procs_length: "same_procs ps qs \<Longrightarrow> length ps = length qs"
  unfolding same_procs_def by (drule map_eq_imp_length_eq)

lemma same_procs_nth:
  assumes "same_procs ps qs" "i < length qs"
  shows "root (ps ! i) = root (qs ! i)" "ofiles (ps ! i) = ofiles (qs ! i)"
proof -
  have "map (errcode_update (\<lambda>_. None)) ps ! i = map (errcode_update (\<lambda>_. None)) qs ! i" using assms by (simp add: same_procs_def)
  then have "(ps ! i)\<lparr>errcode := None\<rparr> = (qs ! i)\<lparr>errcode := None\<rparr>" using same_procs_length [OF assms(1)] assms(2) by simp
  then have "root ((ps ! i)\<lparr>errcode := None\<rparr>) = root ((qs ! i)\<lparr>errcode := None\<rparr>)" "ofiles ((ps ! i)\<lparr>errcode := None\<rparr>) = ofiles ((qs ! i)\<lparr>errcode := None\<rparr>)"
    by simp_all
  then show "root (ps ! i) = root (qs ! i)" "ofiles (ps ! i) = ofiles (qs ! i)" by simp_all
qed

lemma frame_curr: "frame st st' \<Longrightarrow> curr_ok st \<Longrightarrow> curr_ok st'"
  using same_procs_length by (fastforce simp: frame_def curr_ok_def)

text \<open>The parts of the state the operations change, one by one.\<close>

lemma v_disk_simps [simp]:
  "v_disk (set_disk ds st) = ds" "v_disk (inode_update i f st) = v_disk st" "v_disk (super_update g st) = v_disk st"
  "v_disk (v_procs_update h st) = v_disk st" "v_disk (v_curr_update h1 st) = v_disk st" "v_disk (v_filetab_update h2 st) = v_disk st"
  "v_disk (v_fs_update h3 st) = v_disk st"
  by (simp_all add: v_disk_def set_disk_def inode_update_def super_update_def)

lemma set_disk_simps [simp]:
  "v_inodes (set_disk ds st) = v_inodes st" "v_fs (set_disk ds st) = v_fs st" "v_procs (set_disk ds st) = v_procs st"
  "v_curr (set_disk ds st) = v_curr st" "v_filetab (set_disk ds st) = v_filetab st" "frame st (set_disk ds st)"
  by (simp_all add: set_disk_def frame_def same_procs_def)

lemma inode_update_simps [simp]:
  "v_inodes (inode_update i f st) = (v_inodes st)[i := f (v_inodes st ! i)]" "v_fs (inode_update i f st) = v_fs st"
  "v_procs (inode_update i f st) = v_procs st" "v_curr (inode_update i f st) = v_curr st"
  "v_filetab (inode_update i f st) = v_filetab st" "frame st (inode_update i f st)"
  by (simp_all add: inode_update_def frame_def same_procs_def)

lemma super_update_simps [simp]:
  "v_inodes (super_update g st) = v_inodes st" "v_fs (super_update g st) = (v_fs st)\<lparr>fs_super := map_option g (fs_super (v_fs st))\<rparr>"
  "v_procs (super_update g st) = v_procs st" "v_curr (super_update g st) = v_curr st"
  "v_filetab (super_update g st) = v_filetab st" "frame st (super_update g st)"
  by (simp_all add: super_update_def frame_def same_procs_def)

lemma mountedD:
  assumes "mounted st s imap bmap r"
  shows "fs_dev (v_fs st) = 0" "fs_root (v_fs st) = Some r" "fs_super (v_fs st) = Some \<lparr>sb_data = s, sb_imap = Some imap, sb_bmap = Some bmap\<rparr>"
    "super_wf s" "imap_wf s imap" "r < NANVIX_INODES_TABLE_LENGTH" "0 < icount st r" "in_num (v_inodes st ! r) = MINIX_INODE_ROOT"
    "dir_struct s bmap (in_data (v_inodes st ! r)) (v_disk st)"
    "\<And>num. 0 < unat num \<Longrightarrow> unat num < NANVIX_NR_INODES \<Longrightarrow> ino_ok s num"
  using assms by (auto simp: mounted_def ino_ok_def dest: dir_structD(1))

lemma itab_okD:
  assumes "itab_ok R ns"
  shows "length ns = NANVIX_INODES_TABLE_LENGTH" "\<And>i. i < length ns \<Longrightarrow> inode_ok R (ns ! i)"
    "\<And>i j. i < length ns \<Longrightarrow> j < length ns \<Longrightarrow> 0 < in_count (ns ! i) \<Longrightarrow> 0 < in_count (ns ! j) \<Longrightarrow> in_num (ns ! i) = in_num (ns ! j) \<Longrightarrow> i = j"
  using assms unfolding itab_ok_def by blast+

lemma itab_update:
  assumes "itab_ok R ns" "inode_ok R n"
    and "\<And>j. j < length ns \<Longrightarrow> j \<noteq> i \<Longrightarrow> 0 < in_count (ns ! j) \<Longrightarrow> 0 < in_count n \<Longrightarrow> in_num (ns ! j) \<noteq> in_num n"
  shows "itab_ok R (ns[i := n])"
proof (cases "i < length ns")
  case True
  note t = itab_okD [OF assms(1)]
  show ?thesis
    unfolding itab_ok_def length_list_update
  proof (intro conjI allI impI)
    show "length ns = NANVIX_INODES_TABLE_LENGTH" by (rule t(1))
    show "inode_ok R (ns[i := n] ! j)" if "j < length ns" for j using that t(2) assms(2) True by (cases "j = i") simp_all
    show "j = k" if "j < length ns" "k < length ns" "0 < in_count (ns[i := n] ! j) \<and> 0 < in_count (ns[i := n] ! k) \<and> in_num (ns[i := n] ! j) = in_num (ns[i := n] ! k)" for j k
      using that True t(3) [of j k] assms(3) [of j] assms(3) [of k] by (cases "j = i"; cases "k = i") auto
  qed
qed (use assms in \<open>simp add: list_update_beyond\<close>)

text \<open>An update of an entry that keeps its number.\<close>

lemma itab_keep:
  assumes "itab_ok R ns" "i < length ns" "0 < in_count (ns ! i)" "inode_ok R n" "in_num n = in_num (ns ! i)"
  shows "itab_ok R (ns[i := n])"
proof (rule itab_update [OF assms(1,4)])
  show "in_num (ns ! j) \<noteq> in_num n" if "j < length ns" "j \<noteq> i" "0 < in_count (ns ! j)" for j
    using itab_okD(3) [OF assms(1,2) that(1) assms(3) that(3)] assms(5) that(2) by auto
qed

lemma set_err_ok:
  assumes "curr_ok st"
  obtains st' where "set_err e st = Some st'" "frame st st'" "v_inodes st' = v_inodes st" "v_fs st' = v_fs st" "v_cache st' = v_cache st"
    "v_disk st' = v_disk st" "\<And>p. v_curr st = Some p \<Longrightarrow> errcode (v_procs st' ! p) = Some e"
proof -
  obtain p where p: "v_curr st = Some p" "p < length (v_procs st)" using assms by (auto simp: curr_ok_def)
  let ?st = "st\<lparr>v_procs := (v_procs st)[p := (v_procs st ! p)\<lparr>errcode := Some e\<rparr>]\<rparr>"
  have "same_procs ((v_procs st)[p := (v_procs st ! p)\<lparr>errcode := Some e\<rparr>]) (v_procs st)"
    by (simp add: same_procs_def map_update list_update_same_conv p(2))
  then have "frame st ?st" by (simp add: frame_def)
  moreover have "set_err e st = Some ?st" using p by (simp add: set_err_def)
  ultimately show thesis using p by (intro that [of ?st]) simp_all
qed

lemma mounted_cong:
  assumes "mounted st s imap bmap r" "v_fs st' = v_fs st" "v_inodes st' ! r = v_inodes st ! r" "v_disk st' = v_disk st"
  shows "mounted st' s imap bmap r"
  using assms by (simp add: mounted_def)

lemma mounted_imap:
  assumes "mounted st s imap bmap r" "imap_wf s m"
  shows "mounted (super_update (\<lambda>sb. sb\<lparr>sb_imap := Some m\<rparr>) st) s m bmap r"
  using assms by (simp add: mounted_def)

section \<open>The operations keep the invariant\<close>

lemma fs_inode_free_ok:
  assumes "mounted st s imap bmap r" "ino_ok s num"
  obtains m where "fs_inode_free st num = Some (Inr 0, super_update (\<lambda>sb. sb\<lparr>sb_imap := Some m\<rparr>) st)"
    "imap_wf s m" "bits m = bits imap - {unat num - 1}"
proof -
  note M = mountedD [OF assms(1)]
  obtain m where "minix_inode_free (Some s) (Some imap) num = Some (Inr 0, Some m)" "imap_wf s m" "bits m = bits imap - {unat num - 1}"
    by (rule inode_free_ok [OF M(4,5) assms(2)])
  then show thesis using that M(3) by (simp add: fs_inode_free_def)
qed

text \<open>
  Getting an inode either counts one more reference of its entry, taking an entry when there was none, or finds the
  table full; then its number is released in the map and the table is as before.
\<close>

lemma inode_get_ok:
  assumes R: "resource_laws R" and inv: "itab_ok R (v_inodes st)" "mounted st s imap bmap r" and curr: "curr_ok st"
    and num: "0 < unat num" "unat num < NANVIX_NR_INODES"
  obtains (got) i st' where "inode_get R st True num = Some (Some i, st')" "itab_ok R (v_inodes st')" "mounted st' s imap bmap r" "frame st st'"
      "v_disk st' = v_disk st" "i < NANVIX_INODES_TABLE_LENGTH" "in_num (v_inodes st' ! i) = num"
      "\<And>j. icount st' j = icount st j + (if j = i then 1 else 0)"
      "in_data (v_inodes st' ! i) = (if 0 < icount st i then in_data (v_inodes st ! i) else inode_at (v_disk st) s num)"
      "\<And>j. j \<noteq> i \<Longrightarrow> v_inodes st' ! j = v_inodes st ! j" "v_fs st' = v_fs st" "0 < icount st i \<Longrightarrow> in_num (v_inodes st ! i) = num"
  | (full) m st' where "inode_get R st True num = Some (None, st')" "mounted st' s m bmap r" "frame st st'" "v_disk st' = v_disk st"
      "v_inodes st' = v_inodes st" "\<forall>i<NANVIX_INODES_TABLE_LENGTH. 0 < icount st i \<and> in_num (v_inodes st ! i) \<noteq> num"
proof -
  note M = mountedD [OF inv(2)] and T = itab_okD [OF inv(1)]
  have iok: "ino_ok s num" by (rule M(10) [OF num])
  have used: "resource_is_used R (in_resource (v_inodes st ! i)) \<longleftrightarrow> 0 < icount st i" if "i < length (v_inodes st)" for i
    using T(2) [OF that] by (simp add: inode_ok_def)
  let ?P = "\<lambda>n. resource_is_used R (in_resource n) \<and> in_dev n = fs_dev (v_fs st) \<and> in_num n = num"
  show thesis
  proof (cases "first_index ?P (v_inodes st)")
    case (Some i)
    note i = first_index_SomeD(1,2) [OF Some]
    have c: "0 < icount st i" using i used by blast
    let ?n = "(v_inodes st ! i)\<lparr>in_count := icount st i + 1\<rparr>"
    let ?st = "inode_update i (\<lambda>n. n\<lparr>in_count := in_count n + 1\<rparr>) st"
    have ns: "v_inodes ?st = (v_inodes st)[i := ?n]" by simp
    have ok: "inode_ok R ?n" using T(2) [OF i(1)] c by (simp add: inode_ok_def)
    have t: "itab_ok R (v_inodes ?st)" unfolding ns using itab_keep [OF inv(1) i(1) c ok] by simp
    have m: "mounted ?st s imap bmap r" using inv(2) i(1) by (cases "i = r") (simp_all add: mounted_def)
    have "inode_get R st True num = Some (Some i, ?st)" using Some num by (simp add: inode_get_def)
    from got [OF this t m] show thesis using i c T(1) by (auto simp: nth_list_update)
  next
    case None
    have miss: "0 < icount st j \<Longrightarrow> in_num (v_inodes st ! j) \<noteq> num" if "j < length (v_inodes st)" for j
      using None that T(2) [OF that] used [OF that] M(1) by (auto simp: first_index_None_iff inode_ok_def)
    have get: "inode_get R st True num = inode_read R st True num" using None num by (simp add: inode_get_def)
    show thesis
    proof (cases "resource_alloc R (map in_resource (v_inodes st))")
      case nores: None
      have "\<forall>x\<in>set (map in_resource (v_inodes st)). resource_is_used R x" using nores resource_alloc_NoneD [OF R] by blast
      then have all: "\<forall>i<length (v_inodes st). 0 < icount st i" using used by simp
      obtain st1 where st1: "set_err ENOMEM st = Some st1" "frame st st1" "v_inodes st1 = v_inodes st" "v_fs st1 = v_fs st" "v_disk st1 = v_disk st"
        by (rule set_err_ok [OF curr])
      have m1: "mounted st1 s imap bmap r" by (rule mounted_cong [OF inv(2)]) (simp_all add: st1)
      obtain m where m: "fs_inode_free st1 num = Some (Inr 0, super_update (\<lambda>sb. sb\<lparr>sb_imap := Some m\<rparr>) st1)" "imap_wf s m"
        by (rule fs_inode_free_ok [OF m1 iok])
      have "inode_get R st True num = Some (None, super_update (\<lambda>sb. sb\<lparr>sb_imap := Some m\<rparr>) st1)"
        using m(1) st1(1) nores by (simp add: get inode_read_def)
      from full [OF this mounted_imap [OF m1 m(2)]] show thesis
        using st1 all miss T(1) frame_trans [OF st1(2)] by simp
    next
      case (Some a)
      obtain idx fl where a: "a = (idx, fl)" by (cases a)
      note al = resource_allocD [OF R Some [unfolded a]]
      have idx: "idx < length (v_inodes st)" using al(1) by simp
      have c: "icount st idx = 0" using al(2) used [OF idx] T(2) [OF idx] idx by (auto simp: inode_ok_def)
      let ?n = "(v_inodes st ! idx)\<lparr>in_resource := fl, in_data := inode_at (v_disk st) s num, in_count := 1, in_num := num, in_dev := 0\<rparr>"
      let ?st = "inode_update idx (\<lambda>n. n\<lparr>in_data := inode_at (v_disk st) s num, in_count := 1, in_num := num, in_dev := 0\<rparr>)
        (inode_update idx (\<lambda>n. n\<lparr>in_resource := fl\<rparr>) st)"
      have ns: "v_inodes ?st = (v_inodes st)[idx := ?n]" using idx by simp
      have ok: "inode_ok R ?n" using al(3) num by (simp add: inode_ok_def inode_at_def)
      have t: "itab_ok R (v_inodes ?st)" unfolding ns using miss by (intro itab_update [OF inv(1) ok]) auto
      have "idx \<noteq> r" using c M(7) by auto
      then have m: "mounted ?st s imap bmap r" using inv(2) by (simp add: mounted_def)
      have "inode_get R st True num = Some (Some idx, ?st)"
        using Some a M(1,3,4) iok by (simp add: get inode_read_def Let_def minix_inode_read_eq)
      note eq = this
      have fr: "frame st ?st" by (rule frame_trans [of _ "inode_update idx (\<lambda>n. n\<lparr>in_resource := fl\<rparr>) st"]) simp_all
      have ic: "icount ?st j = icount st j + (if j = idx then 1 else 0)" for j unfolding ns using idx c by (simp add: nth_list_update)
      have "v_disk ?st = v_disk st" "idx < NANVIX_INODES_TABLE_LENGTH" "in_num (v_inodes ?st ! idx) = num" using idx T(1) by simp_all
      from got [OF eq t m fr this ic] show thesis using idx c by simp
    qed
  qed
qed

text \<open>
  Putting an inode back writes it to its place in the table of the disk and drops one reference; the last reference releases
  the entry, and with it the number in the map when the inode has one link.
\<close>

lemma inode_put_core:
  assumes R: "resource_laws R" and inv: "itab_ok R (v_inodes st)" "mounted st s imap bmap r" and i: "i < NANVIX_INODES_TABLE_LENGTH" "0 < icount st i"
  obtains m st' where "inode_put R st True (Some i) = Some (Inr 0, st')" "itab_ok R (v_inodes st')" "frame st st'" "v_procs st' = v_procs st"
    "v_fs st' = \<lparr>fs_dev = 0, fs_root = Some r, fs_super = Some \<lparr>sb_data = s, sb_imap = Some m, sb_bmap = Some bmap\<rparr>\<rparr>" "imap_wf s m"
    "v_disk st' = disk_put (v_disk st) (ino_off s (in_num (v_inodes st ! i))) (enc_inode (in_data (v_inodes st ! i)))"
    "\<And>j. icount st' j = icount st j - (if j = i then 1 else 0)" "\<And>j. j \<noteq> i \<Longrightarrow> v_inodes st' ! j = v_inodes st ! j"
    "1 < icount st i \<Longrightarrow> in_data (v_inodes st' ! i) = in_data (v_inodes st ! i)" "\<And>j. in_num (v_inodes st' ! j) = in_num (v_inodes st ! j)"
    "bits m = (if icount st i = 1 \<and> i_nlinks (in_data (v_inodes st ! i)) = 1 then bits imap - {unat (in_num (v_inodes st ! i)) - 1} else bits imap)"
proof -
  note M = mountedD [OF inv(2)] and T = itab_okD [OF inv(1)]
  have il: "i < length (v_inodes st)" using i(1) T(1) by simp
  let ?n = "v_inodes st ! i"
  have ok: "in_dev ?n = 0" "0 < unat (in_num ?n)" "unat (in_num ?n) < NANVIX_NR_INODES" "inode_wf (in_data ?n)" "resource_is_used R (in_resource ?n)"
    using T(2) [OF il] i(2) by (simp_all add: inode_ok_def)
  have iok: "ino_ok s (in_num ?n)" by (rule M(10) [OF ok(2,3)])
  let ?ds = "disk_put (v_disk st) (ino_off s (in_num ?n)) (enc_inode (in_data ?n))"
  have fs: "v_fs st = \<lparr>fs_dev = 0, fs_root = Some r, fs_super = Some \<lparr>sb_data = s, sb_imap = Some imap, sb_bmap = Some bmap\<rparr>\<rparr>"
    using inv(2) by (simp add: mounted_def)
  have put: "inode_put R st True (Some i) = inode_free R (set_disk ?ds st) i"
    using i M(1,3,4) ok iok by (simp add: inode_put_def Let_def minix_inode_write_eq)
  show thesis
  proof (cases "icount st i = 1")
    case False
    let ?st = "inode_update i (\<lambda>n. n\<lparr>in_count := in_count n - 1\<rparr>) (set_disk ?ds st)"
    have eq: "inode_put R st True (Some i) = Some (Inr 0, ?st)" using i False by (simp add: put inode_free_def Let_def)
    have t: "itab_ok R (v_inodes ?st)"
      using itab_keep [OF inv(1) il i(2), of "?n\<lparr>in_count := icount st i - 1\<rparr>"] T(2) [OF il] False i(2) by (simp add: inode_ok_def)
    show thesis
    proof (rule that [OF eq t])
      show "frame st ?st" by (rule frame_trans [of _ "set_disk ?ds st"]) simp_all
      show "v_fs ?st = \<lparr>fs_dev = 0, fs_root = Some r, fs_super = Some \<lparr>sb_data = s, sb_imap = Some imap, sb_bmap = Some bmap\<rparr>\<rparr>" by (simp add: fs)
      show "icount ?st j = icount st j - (if j = i then 1 else 0)" for j using il by (simp add: nth_list_update)
      show "in_num (v_inodes ?st ! j) = in_num (v_inodes st ! j)" for j using il by (simp add: nth_list_update)
    qed (use M(5) False il in simp_all)
  next
    case one: True
    let ?n2 = "?n\<lparr>in_count := 0, in_data := (in_data ?n)\<lparr>i_nlinks := i_nlinks (in_data ?n) - 1\<rparr>\<rparr>"
    let ?st1 = "inode_update i (\<lambda>n. n\<lparr>in_count := in_count n - 1\<rparr>) (set_disk ?ds st)"
    let ?st2 = "inode_update i (\<lambda>n. n\<lparr>in_data := (in_data n)\<lparr>i_nlinks := i_nlinks (in_data n) - 1\<rparr>\<rparr>) ?st1"
    have sup: "fs_super (v_fs ?st2) = Some \<lparr>sb_data = s, sb_imap = Some imap, sb_bmap = Some bmap\<rparr>" by (simp add: fs)
    obtain m0 where m0: "minix_inode_free (Some s) (Some imap) (in_num ?n) = Some (Inr 0, Some m0)" "imap_wf s m0"
      "bits m0 = bits imap - {unat (in_num ?n) - 1}"
      by (rule inode_free_ok [OF M(4,5) iok])
    define m where "m = (if i_nlinks (in_data ?n) = 1 then m0 else imap)"
    define st3 where "st3 = super_update (\<lambda>sb. sb\<lparr>sb_imap := Some m\<rparr>) ?st2"
    let ?st = "inode_update i (\<lambda>n. n\<lparr>in_resource := resource_free R (in_resource n)\<rparr>) st3"
    have same: "super_update (\<lambda>sb. sb\<lparr>sb_imap := Some imap\<rparr>) ?st2 = ?st2"
      by (simp add: super_update_def sup) (simp add: fs)
    have "(if i_nlinks (in_data ?n) = 1 then fs_inode_free ?st2 (in_num ?n) else Some (Inr 0, ?st2)) = Some (Inr 0, st3)"
      using m0(1) sup same by (simp add: st3_def m_def fs_inode_free_def)
    then have eq: "inode_put R st True (Some i) = Some (Inr 0, ?st)" using i one by (simp add: put inode_free_def Let_def)
    have ns: "v_inodes ?st = (v_inodes st)[i := ?n2\<lparr>in_resource := resource_free R (in_resource ?n)\<rparr>]" using il one by (simp add: st3_def)
    have t: "itab_ok R (v_inodes ?st)" unfolding ns by (rule itab_update [OF inv(1)]) (use R in \<open>simp_all add: inode_ok_def\<close>)
    show thesis
    proof (rule that [OF eq t])
      show "frame st ?st" unfolding st3_def
        by (rule frame_trans [of _ "set_disk ?ds st"], simp, rule frame_trans [of _ ?st1], simp, rule frame_trans [of _ ?st2], simp,
          rule frame_trans [of _ "super_update (\<lambda>sb. sb\<lparr>sb_imap := Some m\<rparr>) ?st2"]) simp_all
      show "v_fs ?st = \<lparr>fs_dev = 0, fs_root = Some r, fs_super = Some \<lparr>sb_data = s, sb_imap = Some m, sb_bmap = Some bmap\<rparr>\<rparr>" by (simp add: st3_def fs)
      show "imap_wf s m" using m0(2) M(5) by (simp add: m_def)
      show "icount ?st j = icount st j - (if j = i then 1 else 0)" for j using il one unfolding ns by (simp add: nth_list_update)
      show "v_inodes ?st ! j = v_inodes st ! j" if "j \<noteq> i" for j using that unfolding ns by simp
      show "in_num (v_inodes ?st ! j) = in_num (v_inodes st ! j)" for j unfolding ns using il by (simp add: nth_list_update)
      show "bits m = (if icount st i = 1 \<and> i_nlinks (in_data ?n) = 1 then bits imap - {unat (in_num ?n) - 1} else bits imap)"
        using m0(3) one by (simp add: m_def)
    qed (use one in \<open>simp_all add: st3_def\<close>)
  qed
qed

lemma inode_put_keeps:
  assumes R: "resource_laws R" and inv: "itab_ok R (v_inodes st)" "mounted st s imap bmap r"
    and i: "i < NANVIX_INODES_TABLE_LENGTH" "0 < icount st i" "i = r \<longrightarrow> 1 < icount st i"
  obtains m st' where "inode_put R st True (Some i) = Some (Inr 0, st')" "itab_ok R (v_inodes st')" "mounted st' s m bmap r" "frame st st'"
    "v_procs st' = v_procs st" "1 < icount st i \<Longrightarrow> in_data (v_inodes st' ! i) = in_data (v_inodes st ! i)"
    "\<And>j. in_num (v_inodes st' ! j) = in_num (v_inodes st ! j)"
    "v_disk st' = disk_put (v_disk st) (ino_off s (in_num (v_inodes st ! i))) (enc_inode (in_data (v_inodes st ! i)))"
    "\<And>j. icount st' j = icount st j - (if j = i then 1 else 0)" "\<And>j. j \<noteq> i \<Longrightarrow> v_inodes st' ! j = v_inodes st ! j"
    "bits m = (if icount st i = 1 \<and> i_nlinks (in_data (v_inodes st ! i)) = 1 then bits imap - {unat (in_num (v_inodes st ! i)) - 1} else bits imap)"
proof -
  note M = mountedD [OF inv(2)] and T = itab_okD [OF inv(1)]
  let ?n = "v_inodes st ! i"
  obtain m st' where p: "inode_put R st True (Some i) = Some (Inr 0, st')" "itab_ok R (v_inodes st')" "frame st st'" "v_procs st' = v_procs st"
    "v_fs st' = \<lparr>fs_dev = 0, fs_root = Some r, fs_super = Some \<lparr>sb_data = s, sb_imap = Some m, sb_bmap = Some bmap\<rparr>\<rparr>" "imap_wf s m"
    "v_disk st' = disk_put (v_disk st) (ino_off s (in_num ?n)) (enc_inode (in_data ?n))"
    "\<And>j. icount st' j = icount st j - (if j = i then 1 else 0)" "\<And>j. j \<noteq> i \<Longrightarrow> v_inodes st' ! j = v_inodes st ! j"
    "1 < icount st i \<Longrightarrow> in_data (v_inodes st' ! i) = in_data ?n" "\<And>j. in_num (v_inodes st' ! j) = in_num (v_inodes st ! j)"
    "bits m = (if icount st i = 1 \<and> i_nlinks (in_data ?n) = 1 then bits imap - {unat (in_num ?n) - 1} else bits imap)"
    by (rule inode_put_core [OF R inv i(1,2)]) (rule that; assumption)
  have ok: "0 < unat (in_num ?n)" "unat (in_num ?n) < NANVIX_NR_INODES" "inode_wf (in_data ?n)"
    using T(2) [of i] T(1) i(1,2) by (simp_all add: inode_ok_def)
  have "disks_ok (v_disk st')"
    unfolding p(7) using dir_structD(3) [OF M(9)] M(4) M(10) [OF ok(1,2)] ok(3) by (rule inode_put_ok)
  then have "dir_struct s bmap (in_data (v_inodes st ! r)) (v_disk st')"
    by (rule dir_struct_cong [OF M(9)]) simp_all
  moreover have "in_data (v_inodes st' ! r) = in_data (v_inodes st ! r)" "in_num (v_inodes st' ! r) = in_num (v_inodes st ! r)"
    using p(9) [of r] p(10,11) i(3) by (cases "i = r"; simp)+
  moreover have "0 < icount st' r" using p(8) [of r] M(7) i(3) by (auto split: if_splits)
  ultimately have "mounted st' s m bmap r" using inv(2) p(5,6) by (simp add: mounted_def)
  from that [OF p(1,2) this p(3,4) _ p(11) p(7-9,12)] p(10) show thesis by blast
qed

text \<open>The lookup of a name: whatever the directory's blocks hold, the search ends, at an entry that has the name or at none.\<close>

lemma dir_search_any:
  assumes "dir_struct s z dip ds" "NUL \<notin> set nm"
  obtains (hit) k where "k < ents dip" "names (dirent_at ds dip k) nm" "name_ok nm"
      "minix_dirent_search 0 (Some s) (Some z) (Some dip) ds (Some nm) False = Some (Inr (ent_off dip k), Some z, Some dip, ds)"
  | (miss) e where "dir_lookup ds dip nm = None \<or> \<not> name_ok nm"
      "minix_dirent_search 0 (Some s) (Some z) (Some dip) ds (Some nm) False = Some (Inl e, Some z, Some dip, ds)"
proof (cases "name_ok nm")
  case False
  then have "MINIX_NAME_MAX < length nm" using assms(2) by (simp add: name_ok_def)
  with dir_structD(5) [OF assms(1)] show thesis by (intro miss [of ENAMETOOLONG]) (simp_all add: False minix_dirent_search_def)
next
  case ok: True
  show thesis
  proof (cases "dir_lookup ds dip nm")
    case None
    with dir_search_miss [OF assms(1) ok] show thesis by (intro miss) simp_all
  next
    case (Some num)
    then obtain k where "k < ents dip" "names (dirent_at ds dip k) nm" by (auto elim: dir_lookup_SomeE)
    then obtain k' where "k' < ents dip" "names (dirent_at ds dip k') nm"
      "dirent_scan 0 (Some s) nm False (ents dip) (Some z, dip, ds) 0 None (zone dip 0) None 0 = Some (Inl (Inr (ent_off dip k')), Some z, dip, ds)"
      using dirent_scan_spec [OF assms(1) scan_start ok, of None False "Some z"] by (auto simp: last_free_def)
    with search_by_scan(1) [OF assms(1) ok] ok show thesis by (intro hit) simp_all
  qed
qed

lemma inode_name_ok:
  assumes R: "resource_laws R" and inv: "itab_ok R (v_inodes st)" "mounted st s imap bmap r"
    and p: "v_curr st = Some p" "p < length (v_procs st)" "root (v_procs st ! p) = None \<or> root (v_procs st ! p) = Some r" and nm: "NUL \<notin> set nm"
  defines "dip \<equiv> in_data (v_inodes st ! r)"
  obtains (got) k i st' where "inode_name R st True (Some nm) = Some (Some i, st')" "itab_ok R (v_inodes st')" "mounted st' s imap bmap r" "frame st st'"
      "v_disk st' = v_disk st" "i < NANVIX_INODES_TABLE_LENGTH" "in_num (v_inodes st' ! i) = d_ino (dirent_at (v_disk st) dip k)"
      "\<And>j. icount st' j = icount st j + (if j = i then 1 else 0)"
      "in_data (v_inodes st' ! i) = (if 0 < icount st i then in_data (v_inodes st ! i) else inode_at (v_disk st) s (in_num (v_inodes st' ! i)))"
      "\<And>j. j \<noteq> i \<Longrightarrow> v_inodes st' ! j = v_inodes st ! j" "v_fs st' = v_fs st" "k < ents dip" "names (dirent_at (v_disk st) dip k) nm" "name_ok nm"
      "root (v_procs st ! p) = Some r" "0 < icount st i \<Longrightarrow> in_num (v_inodes st ! i) = in_num (v_inodes st' ! i)"
  | (none) m st' where "inode_name R st True (Some nm) = Some (None, st')" "mounted st' s m bmap r" "frame st st'" "v_disk st' = v_disk st"
      "v_inodes st' = v_inodes st"
      "root (v_procs st ! p) = None \<or> \<not> name_ok nm \<or> dir_lookup (v_disk st) dip nm = None \<or>
        (\<exists>k<ents dip. names (dirent_at (v_disk st) dip k) nm \<and> NANVIX_NR_INODES \<le> unat (d_ino (dirent_at (v_disk st) dip k))) \<or>
        (\<forall>i<NANVIX_INODES_TABLE_LENGTH. 0 < icount st i)"
proof -
  note M = mountedD [OF inv(2)] and T = itab_okD [OF inv(1)]
  have curr: "curr_ok st" using p by (simp add: curr_ok_def)
  have err: "\<exists>st'. fail_null e st = Some (None, st') \<and> mounted st' s imap bmap r \<and> frame st st' \<and> v_disk st' = v_disk st \<and> v_inodes st' = v_inodes st" for e
  proof -
    obtain st' where "set_err e st = Some st'" "frame st st'" "v_inodes st' = v_inodes st" "v_fs st' = v_fs st" "v_disk st' = v_disk st"
      by (rule set_err_ok [OF curr])
    then show ?thesis using mounted_cong [OF inv(2), of st'] by (simp add: fail_null_def)
  qed
  show thesis
  proof (cases "root (v_procs st ! p)")
    case None
    with p have "inode_name R st True (Some nm) = fail_null EINVAL st" by (simp add: inode_name_def)
    with err [of EINVAL] None none show thesis by auto
  next
    case (Some d)
    then have d: "d = r" using p(3) by simp
    have dg: "inode_disk_get st (Some r) = Some dip" using M(7) by (simp add: inode_disk_get_def dip_def)
    have upd: "inode_update r (\<lambda>n. n\<lparr>in_data := dip\<rparr>) st = st" by (simp add: inode_update_def dip_def)
    have sup: "super_update (\<lambda>sb. sb\<lparr>sb_bmap := Some bmap\<rparr>) st = st" using inv(2) by (simp add: super_update_def mounted_def)
    have dsk: "set_disk (v_disk st) st = st" by (simp add: set_disk_def v_disk_def)
    have name: "inode_name R st True (Some nm) = do {
        (q, bm, dp, ds) \<leftarrow> minix_dirent_search 0 (Some s) (Some bmap) (Some dip) (v_disk st) (Some nm) False;
        let st1 = set_disk ds (super_update (\<lambda>sb. sb\<lparr>sb_bmap := bm\<rparr>)
              (case dp of None \<Rightarrow> st | Some data \<Rightarrow> inode_update r (\<lambda>n. n\<lparr>in_data := data\<rparr>) st));
        case q of
          Inl _ \<Rightarrow> fail_null ENOENT st1
        | Inr off \<Rightarrow>
            (case ramdisk_read (v_disk st1) (unat (fs_dev (v_fs st1))) False DIRENT_SIZE (int off) of
               Inl _ \<Rightarrow> fail_null EIO st1
             | Inr (_, b) \<Rightarrow> inode_get R st1 True (d_ino (dec_dirent b))) }"
      using p(1,2) Some d M(1,3) dg by (simp add: inode_name_def)
    from M(9) [folded dip_def] nm show thesis
    proof (cases rule: dir_search_any)
      case (miss e)
      then have "inode_name R st True (Some nm) = fail_null ENOENT st" by (simp add: name upd sup dsk)
      with err [of ENOENT] miss(1) none show thesis by auto
    next
      case (hit k)
      let ?num = "d_ino (dirent_at (v_disk st) dip k)"
      have rd: "ramdisk_read (v_disk st) 0 False DIRENT_SIZE (int (ent_off dip k)) = Inr (int DIRENT_SIZE, disk_get (v_disk st) (ent_off dip k) DIRENT_SIZE)"
        using ent_off_bound [OF M(9) [folded dip_def] nzones_iff [OF hit(1)]] by (simp add: ramdisk_read_get DIRENT_SIZE_def)
      have get: "inode_name R st True (Some nm) = inode_get R st True ?num"
        using hit(4) rd M(1) by (simp add: name upd sup dsk dirent_at_def)
      have nz: "0 < unat ?num" using hit(2) by (simp add: names_def MINIX_INODE_NULL_def unat_gt_0)
      show thesis
      proof (cases "unat ?num < NANVIX_NR_INODES")
        case False
        then have "inode_name R st True (Some nm) = fail_null EINVAL st" by (simp add: get inode_get_def)
        with err [of EINVAL] False hit(1,2) none show thesis by (metis not_less)
      next
        case True
        from R inv curr nz True show thesis
        proof (cases rule: inode_get_ok)
          case (got i st')
          show thesis by (rule that(1) [of i st' k]) (use got get hit Some d in simp_all)
        next
          case (full m st')
          show thesis by (rule none [of st' m]) (use full get in simp_all)
        qed
      qed
    qed
  qed
qed

text \<open>The current contents of an inode: the copy in memory if there is one, else the one on disk.\<close>

definition cur_inode :: "'r vfs \<Rightarrow> d_superblock \<Rightarrow> minix_ino_t \<Rightarrow> d_inode" where
  "cur_inode st s num =
     (case first_index (\<lambda>n. 0 < in_count n \<and> in_num n = num) (v_inodes st) of
        Some i \<Rightarrow> in_data (v_inodes st ! i)
      | None \<Rightarrow> inode_at (v_disk st) s num)"

lemma cur_inode_cong: "v_inodes st' = v_inodes st \<Longrightarrow> v_disk st' = v_disk st \<Longrightarrow> cur_inode st' s num = cur_inode st s num"
  by (simp add: cur_inode_def split: option.split)

lemma cur_inode_got:
  assumes "itab_ok R (v_inodes st)" "itab_ok R (v_inodes st')" "i < NANVIX_INODES_TABLE_LENGTH" "in_num (v_inodes st' ! i) = num" "0 < icount st' i"
    "\<And>j. j \<noteq> i \<Longrightarrow> v_inodes st' ! j = v_inodes st ! j" "0 < icount st i \<Longrightarrow> in_num (v_inodes st ! i) = num"
    "in_data (v_inodes st' ! i) = (if 0 < icount st i then in_data (v_inodes st ! i) else inode_at (v_disk st) s num)"
  shows "in_data (v_inodes st' ! i) = cur_inode st s num"
proof -
  note T = itab_okD [OF assms(1)] and T' = itab_okD [OF assms(2)]
  have only: "j = i" if "j < length (v_inodes st)" "0 < icount st j" "in_num (v_inodes st ! j) = num" for j
    using T'(3) [of j i] that assms(3-6) T(1) T'(1) by (cases "j = i") auto
  show ?thesis
  proof (cases "0 < icount st i")
    case True
    have "first_index (\<lambda>n. 0 < in_count n \<and> in_num n = num) (v_inodes st) = Some i"
    proof (rule first_index_unique)
      show "i < length (v_inodes st)" using assms(3) T(1) by simp
      show "0 < icount st i \<and> in_num (v_inodes st ! i) = num" using True assms(7) by simp
    qed (use only in blast)
    with True assms(8) show ?thesis by (simp add: cur_inode_def)
  next
    case False
    then have "first_index (\<lambda>n. 0 < in_count n \<and> in_num n = num) (v_inodes st) = None" using only by (auto simp: first_index_None_iff)
    with False assms(8) show ?thesis by (simp add: cur_inode_def)
  qed
qed

end
