(* ===== verification/FileSys.thy ===== *)
theory FileSys
  imports Inode
begin

text \<open>
  Open files: \<open>src/sys/fs/vfs/fs.c\<close>, \<open>file.c\<close>, \<open>fprocess.c\<close> and \<open>vfs.c\<close>. Each client connection has a process with a table
  of descriptors, whose entries point to the table of open files, whose entries point to in-memory inodes. Only
  block special files can be opened; reads and writes of them go to the device.
\<close>

section \<open>Processes\<close>

definition fprocess_launch :: "nat \<Rightarrow> 'r vfs \<Rightarrow> int \<Rightarrow> int result \<times> 'r vfs" where
  "fprocess_launch nconn st connection =
     (if \<not> (0 \<le> connection \<and> connection < int nconn) then (Inl EINVAL, st)
      else let p = nat connection in
        (Inr 0, st\<lparr>v_curr := Some p, v_procs := (v_procs st)[p := (v_procs st ! p)\<lparr>errcode := None\<rparr>]\<rparr>))"

text \<open>Only the first \<open>NANVIX_PROC_MAX\<close> of the \<open>NANVIX_CONNECTIONS_MAX\<close> processes are initialised.\<close>

definition fprocess_init :: "nat \<Rightarrow> 'r vfs \<Rightarrow> 'r vfs" where
  "fprocess_init nproc st =
     (let r = fs_root (v_fs st) in
      st\<lparr>v_procs := map (\<lambda>q. q\<lparr>errcode := None, pwd := r, root := r, ofiles := replicate NANVIX_OPEN_MAX None\<rparr>) (take nproc (v_procs st)) @
         drop nproc (v_procs st)\<rparr>)"

definition curr_proc :: "'r vfs \<Rightarrow> fprocess option" where
  "curr_proc st = do { p \<leftarrow> v_curr st; arr_get (v_procs st) p }"

definition curr_update :: "(fprocess \<Rightarrow> fprocess) \<Rightarrow> 'r vfs \<Rightarrow> 'r vfs option" where
  "curr_update f st = do { p \<leftarrow> v_curr st; q \<leftarrow> arr_get (v_procs st) p; Some (st\<lparr>v_procs := (v_procs st)[p := f q]\<rparr>) }"

definition file_update :: "nat \<Rightarrow> (vfile \<Rightarrow> vfile) \<Rightarrow> 'r vfs \<Rightarrow> 'r vfs" where
  "file_update k f st = st\<lparr>v_filetab := (v_filetab st)[k := f (v_filetab st ! k)]\<rparr>"

section \<open>Opening and closing\<close>

definition O_ACCMODE :: "32 word" where "O_ACCMODE = 3"
definition O_RDONLY :: "32 word" where "O_RDONLY = 0"
definition O_WRONLY :: "32 word" where "O_WRONLY = 1"
definition O_APPEND :: "32 word" where "O_APPEND = 0x400"
definition ACCMODE :: "32 word \<Rightarrow> 32 word" where "ACCMODE m = m AND O_ACCMODE"

definition getfile :: "'r vfs \<Rightarrow> nat option" where
  "getfile st = first_index (\<lambda>f. f_count f = 0) (v_filetab st)"

definition getfildes :: "'r vfs \<Rightarrow> nat result option" where
  "getfildes st = do { q \<leftarrow> curr_proc st;
     Some (case first_index (\<lambda>f. f = None) (ofiles q) of Some fd \<Rightarrow> Inr fd | None \<Rightarrow> Inl EMFILE) }"

definition do_creat :: "'r vfs \<Rightarrow> string option \<Rightarrow> 16 word \<Rightarrow> 32 word \<Rightarrow> (inode_ptr \<times> 'r vfs) option" where
  "do_creat st name mode oflag = fail_null ENOENT st"

definition do_open :: "'r resource_ops \<Rightarrow> 'r vfs \<Rightarrow> string option \<Rightarrow> 32 word \<Rightarrow> 16 word \<Rightarrow> (inode_ptr \<times> 'r vfs) option" where
  "do_open R st filename oflag mode =
     (if filename = None then fail_null EINVAL st
      else do {
        (p, st1) \<leftarrow> inode_name R st True filename;
        case p of
          None \<Rightarrow> do_creat st1 filename mode oflag
        | Some i \<Rightarrow> do {
            d \<leftarrow> inode_disk_get st1 (Some i);
            if S_ISBLK (i_mode d) then Some (Some i, st1)
            else if S_ISREG (i_mode d) \<or> S_ISDIR (i_mode d) then do {
              st2 \<leftarrow> set_err ENOTSUP st1;
              (_, st3) \<leftarrow> inode_put R st2 True (Some i);
              Some (None, st3) }
            else Some (Some i, st1) } })"

definition fs_open :: "'r resource_ops \<Rightarrow> 'r vfs \<Rightarrow> string option \<Rightarrow> 32 word \<Rightarrow> 16 word \<Rightarrow> (int result \<times> 'r vfs) option" where
  "fs_open R st filename oflag mode =
     do { slot \<leftarrow> getfildes st;
          case slot of
            Inl _ \<Rightarrow> Some (Inl EMFILE, st)
          | Inr fd \<Rightarrow>
              (case getfile st of
                 None \<Rightarrow> Some (Inl ENFILE, st)
               | Some k \<Rightarrow> do {
                   let st1 = file_update k (\<lambda>f. f\<lparr>f_count := 1\<rparr>) st;
                   (p, st2) \<leftarrow> do_open R st1 filename oflag mode;
                   case p of
                     None \<Rightarrow> do {
                       let st3 = file_update k (\<lambda>f. f\<lparr>f_count := 0\<rparr>) st2;
                       q \<leftarrow> curr_proc st3;
                       Some (case errcode q of Some e \<Rightarrow> Inl e | None \<Rightarrow> Inr 0, st3) }
                   | Some i \<Rightarrow> do {
                       st3 \<leftarrow> curr_update (\<lambda>q. q\<lparr>ofiles := (ofiles q)[fd := Some k]\<rparr>)
                         (file_update k (\<lambda>f. f\<lparr>f_oflag := oflag, f_pos := 0, f_inode := Some i\<rparr>) st2);
                       Some (Inr (int fd), st3) } }) }"

text \<open>The file behind a descriptor of the current process.\<close>

definition fd_file :: "'r vfs \<Rightarrow> nat \<Rightarrow> nat option option" where
  "fd_file st fd = do { q \<leftarrow> curr_proc st; arr_get (ofiles q) fd }"

definition fs_close :: "'r resource_ops \<Rightarrow> 'r vfs \<Rightarrow> nat \<Rightarrow> (int result \<times> 'r vfs) option" where
  "fs_close R st fd =
     do { entry \<leftarrow> fd_file st fd;
          case entry of
            None \<Rightarrow> fail EBADF st
          | Some k \<Rightarrow> do {
              st1 \<leftarrow> curr_update (\<lambda>q. q\<lparr>ofiles := (ofiles q)[fd := None]\<rparr>) st;
              let f = v_filetab st1 ! k;
              let st2 = file_update k (\<lambda>f. f\<lparr>f_count := f_count f - 1\<rparr>) st1;
              if 1 < f_count f then Some (Inr 0, st2)
              else do {
                d \<leftarrow> inode_disk_get st2 (f_inode f);
                if S_ISBLK (i_mode d) then inode_put R st2 True (f_inode f)
                else fail ENOTSUP st2 } } }"

section \<open>Reading and writing\<close>

definition file_read :: "int result" where "file_read = Inl ENOTSUP"
definition file_write :: "int result" where "file_write = Inl ENOTSUP"

text \<open>
  A failed transfer returns the error code of the process, whatever it is; zero when none was set. The data read goes to
  the caller's buffer.
\<close>

definition errcode_result :: "'r vfs \<Rightarrow> int result option" where
  "errcode_result st = do { q \<leftarrow> curr_proc st; Some (case errcode q of Some e \<Rightarrow> Inl e | None \<Rightarrow> Inr 0) }"

definition fs_read :: "'r vfs \<Rightarrow> nat \<Rightarrow> nat \<Rightarrow> (int result \<times> byte list option \<times> 'r vfs) option" where
  "fs_read st fd n =
     do { entry \<leftarrow> fd_file st fd;
          case entry of
            None \<Rightarrow> Some (Inl EBADF, None, st)
          | Some k \<Rightarrow>
              let f = v_filetab st ! k in
              if ACCMODE (f_oflag f) = O_WRONLY then Some (Inl EBADF, None, st)
              else if n = 0 then Some (Inr 0, None, st)
              else do {
                d \<leftarrow> inode_disk_get st (f_inode f);
                if S_ISBLK (i_mode d) then
                  (case ramdisk_read (v_disk st) (unat (i_zones d ! 0)) False n (f_pos f) of
                     Inl _ \<Rightarrow> do { r \<leftarrow> errcode_result st; Some (r, None, st) }
                   | Inr (count, b) \<Rightarrow> Some (Inr count, Some b, file_update k (\<lambda>f. f\<lparr>f_pos := f_pos f + count\<rparr>) st))
                else if S_ISDIR (i_mode d) \<or> S_ISREG (i_mode d) then
                  (case file_read of
                     Inl _ \<Rightarrow> do { r \<leftarrow> errcode_result st; Some (r, None, st) }
                   | Inr count \<Rightarrow> Some (Inr count, None, file_update k (\<lambda>f. f\<lparr>f_pos := f_pos f + count\<rparr>) st))
                else Some (Inl ENOTSUP, None, st) } }"

definition fs_write :: "'r vfs \<Rightarrow> nat \<Rightarrow> byte list \<Rightarrow> nat \<Rightarrow> (int result \<times> 'r vfs) option" where
  "fs_write st fd buf n =
     do { entry \<leftarrow> fd_file st fd;
          case entry of
            None \<Rightarrow> Some (Inl EBADF, st)
          | Some k \<Rightarrow>
              let f = v_filetab st ! k in
              if ACCMODE (f_oflag f) = O_RDONLY then Some (Inl EBADF, st)
              else if n = 0 then Some (Inr 0, st)
              else do {
                d \<leftarrow> inode_disk_get st (f_inode f);
                let st1 = (if f_oflag f AND O_APPEND \<noteq> 0 then file_update k (\<lambda>f. f\<lparr>f_pos := uint (i_size d)\<rparr>) st else st);
                let pos = f_pos (v_filetab st1 ! k);
                let (count, st2) =
                  (if S_ISBLK (i_mode d) then
                     (case ramdisk_write (v_disk st1) (unat (i_zones d ! 0)) (Some buf) n pos of (r, ds) \<Rightarrow> (r, set_disk ds st1))
                   else if S_ISREG (i_mode d) then (file_write, st1)
                   else (Inr 0, st1));
                case count of
                  Inl _ \<Rightarrow> do { r \<leftarrow> errcode_result st2; Some (r, st2) }
                | Inr c \<Rightarrow> Some (Inr c, file_update k (\<lambda>f. f\<lparr>f_pos := f_pos f + c\<rparr>) st2) } }"

definition SEEK_CUR :: int where "SEEK_CUR = 0"
definition SEEK_END :: int where "SEEK_END = 1"
definition SEEK_SET :: int where "SEEK_SET = 2"

text \<open>Offsets are mathematical integers; sums that leave the range of \<open>off_t\<close> are undefined in C and not considered.\<close>

definition fs_lseek :: "'r vfs \<Rightarrow> nat \<Rightarrow> int \<Rightarrow> int \<Rightarrow> (int result \<times> 'r vfs) option" where
  "fs_lseek st fd offset whence =
     do { entry \<leftarrow> fd_file st fd;
          case entry of
            None \<Rightarrow> Some (Inl EBADF, st)
          | Some k \<Rightarrow> do {
              let f = v_filetab st ! k;
              d \<leftarrow> inode_disk_get st (f_inode f);
              if S_ISFIFO (i_mode d) then Some (Inl ESPIPE, st)
              else let target = (if whence = SEEK_CUR then Some (f_pos f + offset)
                                 else if whence = SEEK_END then Some (uint (i_size d) + offset)
                                 else if whence = SEEK_SET then Some offset else None) in
                case target of
                  None \<Rightarrow> Some (Inl EINVAL, st)
                | Some pos \<Rightarrow> if pos < 0 then Some (Inl EINVAL, st)
                              else Some (Inr pos, file_update k (\<lambda>f. f\<lparr>f_pos := pos\<rparr>) st) } }"

section \<open>Mounting\<close>

definition NANVIX_ROOT_DEV :: dev_t where "NANVIX_ROOT_DEV = 0"

text \<open>\<open>SUPERBLOCK_SIZE\<close> stands for \<open>sizeof(struct superblock)\<close>.\<close>

definition fs_make :: "(nat \<Rightarrow> bool) \<Rightarrow> 64 word \<Rightarrow> 64 word \<Rightarrow> 16 word \<Rightarrow> 'r vfs \<Rightarrow> dev_t \<Rightarrow> 16 word \<Rightarrow> 32 word \<Rightarrow> 16 word \<Rightarrow> 16 word \<Rightarrow>
    (int result \<times> 'r vfs) option" where
  "fs_make umalloc_ok t1 t2 junk st dev ninodes nblocks uid gid =
     do { (r, ds) \<leftarrow> minix_mkfs umalloc_ok t1 t2 junk (v_disk st) (unat dev) ninodes (ucast nblocks) uid gid;
          Some (r, set_disk ds st) }"

text \<open>A super block that is not filled in, or released again, is \<open>None\<close>: its contents must not be used.\<close>

definition fs_mount :: "'r resource_ops \<Rightarrow> (nat \<Rightarrow> bool) \<Rightarrow> nat \<Rightarrow> 'r vfs \<Rightarrow> bool \<Rightarrow> dev_t \<Rightarrow> (int result \<times> 'r vfs) option" where
  "fs_mount R umalloc_ok SUPERBLOCK_SIZE st fs dev =
     (if \<not> fs then fail EINVAL st
      else if \<not> umalloc_ok SUPERBLOCK_SIZE then fail ENOMEM (st\<lparr>v_fs := (v_fs st)\<lparr>fs_super := None\<rparr>\<rparr>)
      else let st1 = st\<lparr>v_fs := (v_fs st)\<lparr>fs_dev := dev, fs_super := None\<rparr>\<rparr> in
        case minix_mount umalloc_ok (v_disk st1) (unat dev) True of
          Inl _ \<Rightarrow> do { r \<leftarrow> errcode_result st1; Some (r, st1) }
        | Inr (super, imap, bmap) \<Rightarrow> do {
            let st2 = st1\<lparr>v_fs := (v_fs st1)\<lparr>fs_super := Some \<lparr>sb_data = super, sb_imap = Some imap, sb_bmap = Some bmap\<rparr>\<rparr>\<rparr>;
            (p, st3) \<leftarrow> inode_get R st2 True MINIX_INODE_ROOT;
            let st4 = st3\<lparr>v_fs := (v_fs st3)\<lparr>fs_root := p\<rparr>\<rparr>;
            if p = None then do { st5 \<leftarrow> set_err ENOMEM (st4\<lparr>v_fs := (v_fs st4)\<lparr>fs_super := None\<rparr>\<rparr>); r \<leftarrow> errcode_result st5; Some (r, st5) }
            else Some (Inr 0, st4) })"

definition fs_unmount :: "'r resource_ops \<Rightarrow> 'r vfs \<Rightarrow> bool \<Rightarrow> (int result \<times> 'r vfs) option" where
  "fs_unmount R st fs =
     (if \<not> fs then fail EINVAL st
      else do {
        (e, st1) \<leftarrow> inode_put R st True (fs_root (v_fs st));
        case e of
          Inl err \<Rightarrow> fail err st1
        | Inr _ \<Rightarrow> do {
            sb \<leftarrow> fs_super (v_fs st1);
            let (r, ds) = minix_unmount (Some (sb_data sb)) (sb_imap sb) (sb_bmap sb) (v_disk st1) (unat (fs_dev (v_fs st1)));
            let st2 = set_disk ds st1;
            case r of
              Inl err \<Rightarrow> fail err st2
            | Inr _ \<Rightarrow> Some (Inr 0, st2\<lparr>v_fs := (v_fs st2)\<lparr>fs_super := None\<rparr>\<rparr>) } })"

definition fs_init :: "'r resource_ops \<Rightarrow> (nat \<Rightarrow> bool) \<Rightarrow> nat \<Rightarrow> 64 word \<Rightarrow> 64 word \<Rightarrow> 16 word \<Rightarrow> 'r vfs \<Rightarrow> 'r vfs option" where
  "fs_init R umalloc_ok SUPERBLOCK_SIZE t1 t2 junk st =
     do { let st1 = set_disk (ramdisk_init (v_disk st)) st;
          let st2 = st1\<lparr>v_cache := binit R (v_cache st1)\<rparr>;
          (r, st3) \<leftarrow> fs_make umalloc_ok t1 t2 junk st2 NANVIX_ROOT_DEV (of_nat NANVIX_NR_INODES)
            (of_nat (NANVIX_DISK_SIZE div NANVIX_FS_BLOCK_SIZE)) 0 0;
          uassert (r = Inr 0);
          (r', st4) \<leftarrow> fs_mount R umalloc_ok SUPERBLOCK_SIZE st3 True NANVIX_ROOT_DEV;
          uassert (r' = Inr 0);
          Some (st4\<lparr>v_filetab := map (\<lambda>f. f\<lparr>f_oflag := 0, f_count := 0, f_pos := 0, f_inode := None\<rparr>) (v_filetab st4)\<rparr>) }"

definition fs_shutdown :: "'r resource_ops \<Rightarrow> 'r vfs \<Rightarrow> 'r vfs option" where
  "fs_shutdown R st = do { (r, st') \<leftarrow> fs_unmount R st True; uassert (r = Inr 0); Some st' }"

section \<open>Calls on behalf of a connection\<close>

definition vfs_open :: "'r resource_ops \<Rightarrow> nat \<Rightarrow> 'r vfs \<Rightarrow> int \<Rightarrow> string option \<Rightarrow> 32 word \<Rightarrow> 16 word \<Rightarrow> (int result \<times> 'r vfs) option" where
  "vfs_open R nconn st connection filename oflag mode =
     (if filename = None then Some (Inl EINVAL, st)
      else case fprocess_launch nconn st connection of
        (Inl _, st1) \<Rightarrow> Some (Inl EINVAL, st1)
      | (Inr _, st1) \<Rightarrow> fs_open R st1 filename oflag mode)"

definition fd_within :: "int \<Rightarrow> bool" where
  "fd_within fd \<longleftrightarrow> 0 \<le> fd \<and> fd < int NANVIX_OPEN_MAX"

definition vfs_close :: "'r resource_ops \<Rightarrow> nat \<Rightarrow> 'r vfs \<Rightarrow> int \<Rightarrow> int \<Rightarrow> (int result \<times> 'r vfs) option" where
  "vfs_close R nconn st connection fd =
     (if \<not> fd_within fd then Some (Inl EINVAL, st)
      else case fprocess_launch nconn st connection of
        (Inl _, st1) \<Rightarrow> Some (Inl EINVAL, st1)
      | (Inr _, st1) \<Rightarrow> fs_close R st1 (nat fd))"

definition vfs_read :: "nat \<Rightarrow> 'r vfs \<Rightarrow> int \<Rightarrow> int \<Rightarrow> bool \<Rightarrow> nat \<Rightarrow> (int result \<times> byte list option \<times> 'r vfs) option" where
  "vfs_read nconn st connection fd buf_null n =
     (if \<not> fd_within fd then Some (Inl EINVAL, None, st)
      else if buf_null then Some (Inl EINVAL, None, st)
      else case fprocess_launch nconn st connection of
        (Inl _, st1) \<Rightarrow> Some (Inl EINVAL, None, st1)
      | (Inr _, st1) \<Rightarrow> fs_read st1 (nat fd) n)"

definition vfs_write :: "nat \<Rightarrow> 'r vfs \<Rightarrow> int \<Rightarrow> int \<Rightarrow> byte list option \<Rightarrow> nat \<Rightarrow> (int result \<times> 'r vfs) option" where
  "vfs_write nconn st connection fd buf n =
     (if \<not> fd_within fd then Some (Inl EINVAL, st)
      else case buf of
        None \<Rightarrow> Some (Inl EINVAL, st)
      | Some b \<Rightarrow>
          (case fprocess_launch nconn st connection of
             (Inl _, st1) \<Rightarrow> Some (Inl EINVAL, st1)
           | (Inr _, st1) \<Rightarrow> fs_write st1 (nat fd) b n))"

definition vfs_seek :: "nat \<Rightarrow> 'r vfs \<Rightarrow> int \<Rightarrow> int \<Rightarrow> int \<Rightarrow> int \<Rightarrow> (int result \<times> 'r vfs) option" where
  "vfs_seek nconn st connection fd offset whence =
     (if \<not> fd_within fd then Some (Inl EINVAL, st)
      else case fprocess_launch nconn st connection of
        (Inl _, st1) \<Rightarrow> Some (Inl EINVAL, st1)
      | (Inr _, st1) \<Rightarrow> fs_lseek st1 (nat fd) offset whence)"

definition vfs_init :: "'r resource_ops \<Rightarrow> (nat \<Rightarrow> bool) \<Rightarrow> nat \<Rightarrow> 64 word \<Rightarrow> 64 word \<Rightarrow> 16 word \<Rightarrow> nat \<Rightarrow> 'r vfs \<Rightarrow> 'r vfs option" where
  "vfs_init R umalloc_ok SUPERBLOCK_SIZE t1 t2 junk nproc st =
     map_option (fprocess_init nproc) (fs_init R umalloc_ok SUPERBLOCK_SIZE t1 t2 junk st)"

definition vfs_shutdown :: "'r resource_ops \<Rightarrow> 'r vfs \<Rightarrow> 'r vfs option" where
  "vfs_shutdown R st = fs_shutdown R st"

section \<open>Invariant\<close>

text \<open>
  A file is free or has one reference, from one descriptor of one process; the inode of a file in use is counted at
  least once for each such file, and once more if it is the root.
\<close>

definition file_on :: "nat \<Rightarrow> vfile \<Rightarrow> int" where
  "file_on i f = (if f_count f = 1 \<and> f_inode f = Some i then 1 else 0)"

definition held :: "vfile list \<Rightarrow> nat \<Rightarrow> int" where
  "held ft i = sum_list (map (file_on i) ft)"

definition file_ok :: "vfile \<Rightarrow> bool" where
  "file_ok f \<longleftrightarrow> f_count f \<in> {0, 1} \<and> 0 \<le> f_pos f \<and> (f_count f = 1 \<longrightarrow> (\<exists>i<NANVIX_INODES_TABLE_LENGTH. f_inode f = Some i))"

abbreviation desc :: "fprocess list \<Rightarrow> nat \<Rightarrow> nat \<Rightarrow> nat option" where
  "desc ps p fd \<equiv> ofiles (ps ! p) ! fd"

definition procs_ok :: "nat \<Rightarrow> fprocess list \<Rightarrow> inode_ptr \<Rightarrow> bool" where
  "procs_ok nconn ps rt \<longleftrightarrow> length ps = nconn \<and> (\<forall>p<nconn. length (ofiles (ps ! p)) = NANVIX_OPEN_MAX \<and> (root (ps ! p) = None \<or> root (ps ! p) = rt))"

definition desc_ok :: "nat \<Rightarrow> fprocess list \<Rightarrow> vfile list \<Rightarrow> bool" where
  "desc_ok nconn ps ft \<longleftrightarrow>
     (\<forall>p<nconn. \<forall>fd<NANVIX_OPEN_MAX. \<forall>k. desc ps p fd = Some k \<longrightarrow> k < NANVIX_NR_FILES \<and> f_count (ft ! k) = 1) \<and>
     (\<forall>p<nconn. \<forall>fd<NANVIX_OPEN_MAX. \<forall>p'<nconn. \<forall>fd'<NANVIX_OPEN_MAX. \<forall>k.
        desc ps p fd = Some k \<and> desc ps p' fd' = Some k \<longrightarrow> p = p' \<and> fd = fd')"

definition files_ok :: "vfile list \<Rightarrow> inode_ptr \<Rightarrow> (nat \<Rightarrow> int) \<Rightarrow> bool" where
  "files_ok ft rt cnt \<longleftrightarrow> length ft = NANVIX_NR_FILES \<and> (\<forall>k<NANVIX_NR_FILES. file_ok (ft ! k)) \<and>
     (\<forall>i<NANVIX_INODES_TABLE_LENGTH. held ft i + (if rt = Some i then 1 else 0) \<le> cnt i)"

definition vfs_inv :: "'r resource_ops \<Rightarrow> nat \<Rightarrow> 'r vfs \<Rightarrow> bool" where
  "vfs_inv R nconn st \<longleftrightarrow> itab_ok R (v_inodes st) \<and> (\<exists>s imap bmap r. mounted st s imap bmap r) \<and>
     procs_ok nconn (v_procs st) (fs_root (v_fs st)) \<and> desc_ok nconn (v_procs st) (v_filetab st) \<and>
     files_ok (v_filetab st) (fs_root (v_fs st)) (icount st)"

text \<open>A state in which process \<open>p\<close> is the current one, as the calls below find it.\<close>

definition running :: "'r resource_ops \<Rightarrow> nat \<Rightarrow> nat \<Rightarrow> 'r vfs \<Rightarrow> bool" where
  "running R nconn p st \<longleftrightarrow> vfs_inv R nconn st \<and> v_curr st = Some p \<and> p < nconn"

lemma procs_okD:
  assumes "procs_ok nconn ps rt"
  shows "length ps = nconn" "\<And>p. p < nconn \<Longrightarrow> length (ofiles (ps ! p)) = NANVIX_OPEN_MAX"
    "\<And>p. p < nconn \<Longrightarrow> root (ps ! p) = None \<or> root (ps ! p) = rt"
  using assms unfolding procs_ok_def by blast+

lemma desc_okD:
  assumes "desc_ok nconn ps ft"
  shows "\<And>p fd k. p < nconn \<Longrightarrow> fd < NANVIX_OPEN_MAX \<Longrightarrow> desc ps p fd = Some k \<Longrightarrow> k < NANVIX_NR_FILES \<and> f_count (ft ! k) = 1"
    "\<And>p fd p' fd' k. p < nconn \<Longrightarrow> fd < NANVIX_OPEN_MAX \<Longrightarrow> p' < nconn \<Longrightarrow> fd' < NANVIX_OPEN_MAX \<Longrightarrow>
      desc ps p fd = Some k \<Longrightarrow> desc ps p' fd' = Some k \<Longrightarrow> p = p' \<and> fd = fd'"
  using assms unfolding desc_ok_def by blast+

lemma files_okD:
  assumes "files_ok ft rt cnt"
  shows "length ft = NANVIX_NR_FILES" "\<And>k. k < NANVIX_NR_FILES \<Longrightarrow> file_ok (ft ! k)"
    "\<And>i. i < NANVIX_INODES_TABLE_LENGTH \<Longrightarrow> held ft i + (if rt = Some i then 1 else 0) \<le> cnt i"
  using assms unfolding files_ok_def by blast+

lemma vfs_invE:
  assumes "vfs_inv R nconn st"
  obtains s imap bmap r where "mounted st s imap bmap r" "itab_ok R (v_inodes st)" "procs_ok nconn (v_procs st) (Some r)"
    "desc_ok nconn (v_procs st) (v_filetab st)" "files_ok (v_filetab st) (Some r) (icount st)"
  using assms mountedD(2) unfolding vfs_inv_def by metis

lemma vfs_invI:
  assumes "mounted st s imap bmap r" "itab_ok R (v_inodes st)" "procs_ok nconn (v_procs st) (Some r)"
    "desc_ok nconn (v_procs st) (v_filetab st)" "files_ok (v_filetab st) (Some r) (icount st)"
  shows "vfs_inv R nconn st"
  using assms mountedD(2) [OF assms(1)] unfolding vfs_inv_def by auto

lemma held_update: "k < length ft \<Longrightarrow> held (ft[k := f]) i = held ft i - file_on i (ft ! k) + file_on i f"
  by (simp add: held_def sum_list_update_int)

lemma file_on_le: "k < length ft \<Longrightarrow> file_on i (ft ! k) \<le> held ft i"
  unfolding held_def by (rule sum_list_ge_member) (simp_all add: file_on_def)

lemma held_pos: "k < length ft \<Longrightarrow> f_count (ft ! k) = 1 \<Longrightarrow> f_inode (ft ! k) = Some i \<Longrightarrow> 1 \<le> held ft i"
  using file_on_le [of k ft i] by (simp add: file_on_def)

lemma held_nonneg: "0 \<le> held ft i"
  unfolding held_def by (rule sum_list_nonneg) (auto simp: file_on_def)

text \<open>The invariant depends on the processes only through descriptors and roots.\<close>

lemma procs_frame:
  assumes "same_procs ps' ps" "length ps = nconn"
  shows "procs_ok nconn ps' rt \<longleftrightarrow> procs_ok nconn ps rt" "desc_ok nconn ps' ft \<longleftrightarrow> desc_ok nconn ps ft"
proof -
  have len: "length ps' = length ps" by (rule same_procs_length [OF assms(1)])
  have eq: "root (ps' ! p) = root (ps ! p) \<and> ofiles (ps' ! p) = ofiles (ps ! p)" if "p < nconn" for p
    using same_procs_nth [OF assms(1)] that assms(2) by blast
  show "procs_ok nconn ps' rt \<longleftrightarrow> procs_ok nconn ps rt" using eq len by (simp add: procs_ok_def)
  show "desc_ok nconn ps' ft \<longleftrightarrow> desc_ok nconn ps ft" using eq by (simp add: desc_ok_def)
qed

lemma files_ok_mono: "files_ok ft rt cnt \<Longrightarrow> (\<And>i. i < NANVIX_INODES_TABLE_LENGTH \<Longrightarrow> cnt i \<le> cnt' i) \<Longrightarrow> files_ok ft rt cnt'"
  unfolding files_ok_def by (meson order_trans)

text \<open>A call that changes nothing but inodes, error codes and the disk, and drops no reference.\<close>

lemma vfs_inv_frame:
  assumes "vfs_inv R nconn st" "itab_ok R (v_inodes st')" "mounted st s imap bmap r" "mounted st' s' imap' bmap' r" "frame st st'"
    and "\<And>i. i < NANVIX_INODES_TABLE_LENGTH \<Longrightarrow> icount st i \<le> icount st' i"
  shows "vfs_inv R nconn st'"
proof -
  have inv: "procs_ok nconn (v_procs st) (Some r)" "desc_ok nconn (v_procs st) (v_filetab st)" "files_ok (v_filetab st) (Some r) (icount st)"
    using assms(1) mountedD(2) [OF assms(3)] by (simp_all add: vfs_inv_def)
  have f: "v_filetab st' = v_filetab st" "same_procs (v_procs st') (v_procs st)" using assms(5) by (simp_all add: frame_def)
  note pf = procs_frame [OF f(2) procs_okD(1) [OF inv(1)]]
  show ?thesis
    by (rule vfs_invI [OF assms(4,2)]) (use inv pf f files_ok_mono [OF inv(3) assms(6)] in simp_all)
qed

lemma running_frame:
  assumes "running R nconn p st" "itab_ok R (v_inodes st')" "mounted st s imap bmap r" "mounted st' s' imap' bmap' r" "frame st st'"
    and "\<And>i. i < NANVIX_INODES_TABLE_LENGTH \<Longrightarrow> icount st i \<le> icount st' i"
  shows "running R nconn p st'"
  using assms(1,5) vfs_inv_frame [OF _ assms(2-6)] by (simp add: running_def frame_def)

lemma running_curr: "running R nconn p st \<Longrightarrow> v_curr st = Some p \<and> p < nconn \<and> p < length (v_procs st) \<and> curr_ok st \<and> curr_proc st = Some (v_procs st ! p)"
  by (auto simp: running_def vfs_inv_def procs_ok_def curr_ok_def curr_proc_def)

lemma running_err:
  assumes "running R nconn p st"
  obtains st' where "set_err e st = Some st'" "running R nconn p st'" "frame st st'" "v_inodes st' = v_inodes st" "v_fs st' = v_fs st"
    "v_disk st' = v_disk st" "errcode (v_procs st' ! p) = Some e"
proof -
  obtain s imap bmap r where i: "mounted st s imap bmap r" "itab_ok R (v_inodes st)" using assms by (auto simp: running_def elim: vfs_invE)
  have c: "curr_ok st" "v_curr st = Some p" using running_curr [OF assms] by auto
  obtain st' where st': "set_err e st = Some st'" "frame st st'" "v_inodes st' = v_inodes st" "v_fs st' = v_fs st" "v_cache st' = v_cache st"
    "v_disk st' = v_disk st" "\<And>p. v_curr st = Some p \<Longrightarrow> errcode (v_procs st' ! p) = Some e"
    by (rule set_err_ok [OF c(1)]) (rule that; assumption)
  have "mounted st' s imap bmap r" by (rule mounted_cong [OF i(1)]) (simp_all add: st')
  from running_frame [OF assms _ i(1) this st'(2)] i(2) st' c(2) show thesis by (intro that [of st']) simp_all
qed

section \<open>Opening\<close>

definition plain_file :: "16 word \<Rightarrow> bool" where
  "plain_file mode \<longleftrightarrow> \<not> S_ISBLK mode \<and> (S_ISREG mode \<or> S_ISDIR mode)"

lemma fail_null_ok:
  assumes "v_curr st = Some p" "p < length (v_procs st)" "mounted st s imap bmap r"
  obtains st' where "fail_null e st = Some (None, st')" "mounted st' s imap bmap r" "frame st st'" "v_inodes st' = v_inodes st"
    "v_disk st' = v_disk st" "errcode (v_procs st' ! p) = Some e" "p < length (v_procs st')"
proof -
  have c: "curr_ok st" using assms by (simp add: curr_ok_def)
  obtain st' where st': "set_err e st = Some st'" "frame st st'" "v_inodes st' = v_inodes st" "v_fs st' = v_fs st" "v_cache st' = v_cache st"
    "v_disk st' = v_disk st" "\<And>p. v_curr st = Some p \<Longrightarrow> errcode (v_procs st' ! p) = Some e"
    by (rule set_err_ok [OF c]) (rule that; assumption)
  have "length (v_procs st') = length (v_procs st)" using st'(2) same_procs_length by (auto simp: frame_def)
  then show thesis using st' assms mounted_cong [OF assms(3), of st'] by (intro that [of st']) (simp_all add: fail_null_def)
qed

text \<open>
  Opening a name finds an inode that is no regular file or directory and counts it, or leaves an error code and every count as it was.
\<close>

definition no_entry :: "'r vfs \<Rightarrow> d_inode \<Rightarrow> inode_ptr \<Rightarrow> string \<Rightarrow> bool" where
  "no_entry st dip rt nm \<longleftrightarrow> rt = None \<or> \<not> name_ok nm \<or> dir_lookup (v_disk st) dip nm = None \<or>
     (\<exists>k<ents dip. names (dirent_at (v_disk st) dip k) nm \<and> NANVIX_NR_INODES \<le> unat (d_ino (dirent_at (v_disk st) dip k))) \<or>
     (\<forall>i<NANVIX_INODES_TABLE_LENGTH. 0 < icount st i)"

lemma do_open_ok:
  assumes R: "resource_laws R" and inv: "itab_ok R (v_inodes st)" "mounted st s imap bmap r"
    and p: "v_curr st = Some p" "p < length (v_procs st)" "root (v_procs st ! p) = None \<or> root (v_procs st ! p) = Some r" and nm: "NUL \<notin> set nm"
  defines "dip \<equiv> in_data (v_inodes st ! r)"
  obtains (opened) k i st' where "do_open R st (Some nm) oflag mode = Some (Some i, st')" "itab_ok R (v_inodes st')" "mounted st' s imap bmap r" "frame st st'"
      "v_disk st' = v_disk st" "i < NANVIX_INODES_TABLE_LENGTH" "\<And>j. icount st' j = icount st j + (if j = i then 1 else 0)"
      "in_num (v_inodes st' ! i) = d_ino (dirent_at (v_disk st) dip k)" "k < ents dip" "names (dirent_at (v_disk st) dip k) nm"
      "in_data (v_inodes st' ! i) = (if 0 < icount st i then in_data (v_inodes st ! i) else inode_at (v_disk st) s (in_num (v_inodes st' ! i)))"
      "0 < icount st i \<Longrightarrow> in_num (v_inodes st ! i) = in_num (v_inodes st' ! i)" "\<And>j. j \<noteq> i \<Longrightarrow> v_inodes st' ! j = v_inodes st ! j"
      "\<not> plain_file (i_mode (in_data (v_inodes st' ! i)))" "v_fs st' = v_fs st"
  | (failed) m e st' where "do_open R st (Some nm) oflag mode = Some (None, st')" "itab_ok R (v_inodes st')" "mounted st' s m bmap r" "frame st st'"
      "\<And>j. icount st' j = icount st j" "errcode (v_procs st' ! p) = Some e" "p < length (v_procs st')" "e = ENOENT \<or> e = ENOTSUP"
      "\<And>j. 0 < icount st j \<Longrightarrow> in_data (v_inodes st' ! j) = in_data (v_inodes st ! j) \<and> in_num (v_inodes st' ! j) = in_num (v_inodes st ! j)"
      "e = ENOENT \<Longrightarrow> no_entry st dip (root (v_procs st ! p)) nm"
      "e = ENOTSUP \<Longrightarrow> \<exists>k<ents dip. names (dirent_at (v_disk st) dip k) nm \<and> unat (d_ino (dirent_at (v_disk st) dip k)) < NANVIX_NR_INODES \<and> plain_file (i_mode (cur_inode st s (d_ino (dirent_at (v_disk st) dip k))))"
proof -
  note M = mountedD [OF inv(2)]
  from R inv p nm show thesis
  proof (cases rule: inode_name_ok)
    case (none m st1)
    have c: "v_curr st1 = Some p" "p < length (v_procs st1)" using none(3) p same_procs_length by (auto simp: frame_def)
    obtain st' where st': "fail_null ENOENT st1 = Some (None, st')" "mounted st' s m bmap r" "frame st1 st'" "v_inodes st' = v_inodes st1"
      "v_disk st' = v_disk st1" "errcode (v_procs st' ! p) = Some ENOENT" "p < length (v_procs st')"
      by (rule fail_null_ok [OF c none(2)]) (rule that; assumption)
    have "do_open R st (Some nm) oflag mode = Some (None, st')" using none(1) st'(1) by (simp add: do_open_def do_creat_def)
    then show thesis using st' none(5,6) inv(1) frame_trans [OF none(3) st'(3)] by (intro failed [of st' m ENOENT]) (simp_all add: no_entry_def dip_def)
  next
    case (got k i st1)
    let ?d = "in_data (v_inodes st1 ! i)"
    have ci: "0 < icount st1 i" using got(6,8) itab_okD(1,2) [OF inv(1)] by (force simp: inode_ok_def)
    then have dg: "inode_disk_get st1 (Some i) = Some ?d" by (simp add: inode_disk_get_def)
    show thesis
    proof (cases "plain_file (i_mode ?d)")
      case False
      then have "do_open R st (Some nm) oflag mode = Some (Some i, st1)" using got(1) dg by (auto simp: do_open_def plain_file_def)
      with False got show thesis by (intro opened [of i st1 k]) (simp_all add: dip_def)
    next
      case True
      have c: "v_curr st1 = Some p" "p < length (v_procs st1)" "curr_ok st1" using got(4) p same_procs_length by (auto simp: frame_def curr_ok_def)
      obtain st2 where st2: "set_err ENOTSUP st1 = Some st2" "frame st1 st2" "v_inodes st2 = v_inodes st1" "v_fs st2 = v_fs st1" "v_cache st2 = v_cache st1"
        "v_disk st2 = v_disk st1" "\<And>q. v_curr st1 = Some q \<Longrightarrow> errcode (v_procs st2 ! q) = Some ENOTSUP"
        by (rule set_err_ok [OF c(3)]) (rule that; assumption)
      have m2: "mounted st2 s imap bmap r" by (rule mounted_cong [OF got(3)]) (simp_all add: st2)
      have t2: "itab_ok R (v_inodes st2)" using got(2) st2(3) by simp
      have ci2: "0 < icount st2 i" using ci st2(3) by simp
      have ir: "i = r \<longrightarrow> 1 < icount st2 i" using got(8) [of i] M(7) st2(3) by auto
      obtain m st3 where st3: "inode_put R st2 True (Some i) = Some (Inr 0, st3)" "itab_ok R (v_inodes st3)" "mounted st3 s m bmap r" "frame st2 st3"
        "\<And>j. icount st3 j = icount st2 j - (if j = i then 1 else 0)" "\<And>j. j \<noteq> i \<Longrightarrow> v_inodes st3 ! j = v_inodes st2 ! j"
        "1 < icount st2 i \<Longrightarrow> in_data (v_inodes st3 ! i) = in_data (v_inodes st2 ! i)" "v_procs st3 = v_procs st2"
        "\<And>j. in_num (v_inodes st3 ! j) = in_num (v_inodes st2 ! j)"
        by (rule inode_put_keeps [OF R t2 m2 got(6) ci2 ir]) (rule that; assumption)
      show thesis
      proof (rule failed [of st3 m ENOTSUP])
        show "do_open R st (Some nm) oflag mode = Some (None, st3)" using True got(1) dg st2(1) st3(1) by (auto simp: do_open_def plain_file_def)
        show "frame st st3" by (rule frame_trans [OF got(4) frame_trans [OF st2(2) st3(4)]])
        show "icount st3 j = icount st j" for j using st3(5) [of j] got(8) [of j] st2(3) by simp
        show "errcode (v_procs st3 ! p) = Some ENOTSUP" using st2(7) c(1) st3(8) by simp
        have "length (v_procs st2) = length (v_procs st1)" using st2(2) same_procs_length by (auto simp: frame_def)
        then show "p < length (v_procs st3)" using st3(8) c(2) by simp
        show "in_data (v_inodes st3 ! j) = in_data (v_inodes st ! j) \<and> in_num (v_inodes st3 ! j) = in_num (v_inodes st ! j)" if "0 < icount st j" for j
          using that st3(6,7,9) got(8-10,16) st2(3) by (cases "j = i") auto
        have "plain_file (i_mode (cur_inode st s (in_num (v_inodes st1 ! i))))"
          using True cur_inode_got [OF inv(1) got(2,6) refl ci got(10) got(16) got(9)] by simp
        moreover have "unat (in_num (v_inodes st1 ! i)) < NANVIX_NR_INODES" using ci got(6) itab_okD(1,2) [OF got(2)] by (force simp: inode_ok_def)
        ultimately show "\<exists>k<ents dip. names (dirent_at (v_disk st) dip k) nm \<and> unat (d_ino (dirent_at (v_disk st) dip k)) < NANVIX_NR_INODES \<and>
            plain_file (i_mode (cur_inode st s (d_ino (dirent_at (v_disk st) dip k))))"
          using got(7,12,13) by (auto simp: dip_def)
      qed (use st3 in simp_all)
    qed
  qed
qed

section \<open>Descriptors\<close>

text \<open>The abstract view of the open files: for a process and a descriptor, the flags, the position and the inode number.\<close>

type_synonym fd_map = "nat \<times> nat \<Rightarrow> (32 word \<times> int \<times> minix_ino_t) option"

definition fd_view :: "nat \<Rightarrow> 'r vfs \<Rightarrow> fd_map" where
  "fd_view nconn st = (\<lambda>(p, fd). if p < nconn \<and> fd < NANVIX_OPEN_MAX
     then map_option (\<lambda>k. let f = v_filetab st ! k in (f_oflag f, f_pos f, in_num (v_inodes st ! the (f_inode f)))) (desc (v_procs st) p fd)
     else None)"

lemma fd_view_cong:
  assumes inv: "vfs_inv R nconn st"
    and ps: "\<And>p fd. p < nconn \<Longrightarrow> fd < NANVIX_OPEN_MAX \<Longrightarrow> desc (v_procs st') p fd = desc (v_procs st) p fd" and "v_filetab st' = v_filetab st"
    and num: "\<And>j. 0 < icount st j \<Longrightarrow> in_num (v_inodes st' ! j) = in_num (v_inodes st ! j)"
  shows "fd_view nconn st' = fd_view nconn st"
proof -
  obtain s imap bmap r where i: "mounted st s imap bmap r" "itab_ok R (v_inodes st)" "procs_ok nconn (v_procs st) (Some r)"
    "desc_ok nconn (v_procs st) (v_filetab st)" "files_ok (v_filetab st) (Some r) (icount st)"
    by (rule vfs_invE [OF inv])
  have "in_num (v_inodes st' ! the (f_inode (v_filetab st ! k))) = in_num (v_inodes st ! the (f_inode (v_filetab st ! k)))"
    if p: "p < nconn" "fd < NANVIX_OPEN_MAX" "desc (v_procs st) p fd = Some k" for p fd k
  proof -
    have k: "k < NANVIX_NR_FILES" "f_count (v_filetab st ! k) = 1" using desc_okD(1) [OF i(4) p] by auto
    obtain j where j: "j < NANVIX_INODES_TABLE_LENGTH" "f_inode (v_filetab st ! k) = Some j" using files_okD(2) [OF i(5) k(1)] k(2) by (auto simp: file_ok_def)
    have "1 \<le> held (v_filetab st) j" using held_pos k j files_okD(1) [OF i(5)] by metis
    then have "0 < icount st j" using files_okD(3) [OF i(5) j(1)] by (auto split: if_splits)
    with num j show ?thesis by simp
  qed
  with ps assms(3) show ?thesis unfolding fd_view_def by (auto simp: fun_eq_iff Let_def intro!: option.map_cong)
qed

lemma fd_view_frame:
  assumes "vfs_inv R nconn st" "frame st st'" "\<And>j. 0 < icount st j \<Longrightarrow> in_num (v_inodes st' ! j) = in_num (v_inodes st ! j)"
  shows "fd_view nconn st' = fd_view nconn st"
proof -
  have len: "length (v_procs st) = nconn" using assms(1) by (simp add: vfs_inv_def procs_ok_def)
  have "desc (v_procs st') p fd = desc (v_procs st) p fd" if "p < nconn" for p fd
    using same_procs_nth(2) [of "v_procs st'" "v_procs st" p] assms(2) that len by (simp add: frame_def)
  then show ?thesis using assms(2,3) by (intro fd_view_cong [OF assms(1)]) (simp_all add: frame_def)
qed

lemma file_update_simps [simp]:
  "v_inodes (file_update k f st) = v_inodes st" "v_fs (file_update k f st) = v_fs st" "v_procs (file_update k f st) = v_procs st"
  "v_curr (file_update k f st) = v_curr st" "v_filetab (file_update k f st) = (v_filetab st)[k := f (v_filetab st ! k)]"
  "v_disk (file_update k f st) = v_disk st" "v_cache (file_update k f st) = v_cache st"
  by (simp_all add: file_update_def v_disk_def)

lemma mounted_file_update [simp]: "mounted (file_update k f st) s imap bmap r \<longleftrightarrow> mounted st s imap bmap r"
  by (simp add: mounted_def)

text \<open>Changing the position of an open file.\<close>

lemma seek_ok:
  assumes run: "running R nconn p st" and k: "fd < NANVIX_OPEN_MAX" "desc (v_procs st) p fd = Some k" and pos: "0 \<le> pos"
  defines "st' \<equiv> file_update k (\<lambda>f. f\<lparr>f_pos := pos\<rparr>) st"
  shows "running R nconn p st'"
    and "fd_view nconn st' = (fd_view nconn st)((p, fd) \<mapsto> (f_oflag (v_filetab st ! k), pos, in_num (v_inodes st ! the (f_inode (v_filetab st ! k)))))"
proof -
  have p: "v_curr st = Some p" "p < nconn" "vfs_inv R nconn st" using run by (simp_all add: running_def)
  obtain s imap bmap r where i: "mounted st s imap bmap r" "itab_ok R (v_inodes st)" "procs_ok nconn (v_procs st) (Some r)"
    "desc_ok nconn (v_procs st) (v_filetab st)" "files_ok (v_filetab st) (Some r) (icount st)"
    by (rule vfs_invE [OF p(3)])
  let ?ft = "v_filetab st" and ?f = "(v_filetab st ! k)\<lparr>f_pos := pos\<rparr>"
  have kb: "k < NANVIX_NR_FILES" "k < length ?ft" using desc_okD(1) [OF i(4) p(2) k] files_okD(1) [OF i(5)] by auto
  have "held (?ft[k := ?f]) j = held ?ft j" for j using kb by (simp add: held_update file_on_def)
  then have "files_ok (?ft[k := ?f]) (Some r) (icount st)"
    using i(5) kb pos by (auto simp: files_ok_def nth_list_update file_ok_def)
  moreover have "f_count (?ft[k := ?f] ! j) = f_count (?ft ! j)" for j using kb by (simp add: nth_list_update)
  then have "desc_ok nconn (v_procs st) (?ft[k := ?f])" using i(4) by (simp add: desc_ok_def)
  ultimately show "running R nconn p st'"
    using p i(1-3) by (auto simp: running_def st'_def intro: vfs_invI)
  show "fd_view nconn st' = (fd_view nconn st)((p, fd) \<mapsto> (f_oflag (?ft ! k), pos, in_num (v_inodes st ! the (f_inode (?ft ! k)))))"
  proof (rule ext, clarify)
    fix p' fd'
    show "fd_view nconn st' (p', fd') = ((fd_view nconn st)((p, fd) \<mapsto> (f_oflag (?ft ! k), pos, in_num (v_inodes st ! the (f_inode (?ft ! k)))))) (p', fd')"
    proof (cases "(p', fd') = (p, fd)")
      case True
      with kb k p(2) show ?thesis by (simp add: fd_view_def st'_def Let_def)
    next
      case False
      have "k \<noteq> j" if "p' < nconn" "fd' < NANVIX_OPEN_MAX" "desc (v_procs st) p' fd' = Some j" for j
        using desc_okD(2) [OF i(4) that(1,2) p(2) k(1), of j] that(3) k(2) False by auto
      then have "fd_view nconn st' (p', fd') = fd_view nconn st (p', fd')"
        by (cases "desc (v_procs st) p' fd'") (simp_all add: fd_view_def st'_def)
      with False show ?thesis by auto
    qed
  qed
qed

section \<open>Opening and closing a descriptor\<close>

definition set_desc :: "fprocess list \<Rightarrow> nat \<Rightarrow> nat \<Rightarrow> nat option \<Rightarrow> fprocess list" where
  "set_desc ps p fd x = ps[p := (ps ! p)\<lparr>ofiles := (ofiles (ps ! p))[fd := x]\<rparr>]"

lemma set_desc_desc:
  "p < length ps \<Longrightarrow> fd < length (ofiles (ps ! p)) \<Longrightarrow> desc (set_desc ps p fd x) p' fd' = (if p' = p \<and> fd' = fd then x else desc ps p' fd')"
  by (auto simp: set_desc_def nth_list_update)

lemma procs_ok_set: "procs_ok nconn ps rt \<Longrightarrow> procs_ok nconn (set_desc ps p fd x) rt"
  by (cases "p < length ps") (auto simp: procs_ok_def set_desc_def nth_list_update list_update_beyond)

lemma curr_update_set:
  assumes "v_curr st = Some p" "p < length (v_procs st)"
  shows "curr_update (\<lambda>q. q\<lparr>ofiles := (ofiles q)[fd := x]\<rparr>) st = Some (st\<lparr>v_procs := set_desc (v_procs st) p fd x\<rparr>)"
  using assms by (simp add: curr_update_def set_desc_def)

lemma desc_ok_open:
  assumes d: "desc_ok nconn ps ft" and ps: "procs_ok nconn ps rt" and p: "p < nconn" "fd < NANVIX_OPEN_MAX"
    and k: "k < NANVIX_NR_FILES" "k < length ft" "f_count (ft ! k) = 0" "f_count f = 1"
  shows "desc_ok nconn (set_desc ps p fd (Some k)) (ft[k := f])"
proof -
  have sd: "desc (set_desc ps p fd (Some k)) p' fd' = (if p' = p \<and> fd' = fd then Some k else desc ps p' fd')" for p' fd'
    using p procs_okD(1,2) [OF ps] by (simp add: set_desc_desc)
  have nk: "desc ps p' fd' \<noteq> Some k" if "p' < nconn" "fd' < NANVIX_OPEN_MAX" for p' fd'
    using desc_okD(1) [OF d that, of k] k(3) by auto
  show ?thesis unfolding desc_ok_def sd
  proof (intro conjI allI impI)
    show "j < NANVIX_NR_FILES" "f_count (ft[k := f] ! j) = 1"
      if "p' < nconn" "fd' < NANVIX_OPEN_MAX" "(if p' = p \<and> fd' = fd then Some k else desc ps p' fd') = Some j" for p' fd' j
      using that k desc_okD(1) [OF d that(1,2), of j] by (auto simp: nth_list_update split: if_splits)
    show "p' = p''" "fd' = fd''"
      if "p' < nconn" "fd' < NANVIX_OPEN_MAX" "p'' < nconn" "fd'' < NANVIX_OPEN_MAX"
        "(if p' = p \<and> fd' = fd then Some k else desc ps p' fd') = Some j \<and> (if p'' = p \<and> fd'' = fd then Some k else desc ps p'' fd'') = Some j"
      for p' fd' p'' fd'' j
      using that nk [OF that(1,2)] nk [OF that(3,4)] desc_okD(2) [OF d that(1-4), of j] by (auto split: if_splits)
  qed
qed

lemma desc_ok_close:
  assumes d: "desc_ok nconn ps ft" and ps: "procs_ok nconn ps rt" and p: "p < nconn" "fd < NANVIX_OPEN_MAX" "desc ps p fd = Some k"
  shows "desc_ok nconn (set_desc ps p fd None) (ft[k := f])"
proof -
  have sd: "desc (set_desc ps p fd None) p' fd' = (if p' = p \<and> fd' = fd then None else desc ps p' fd')" for p' fd'
    using p procs_okD(1,2) [OF ps] by (simp add: set_desc_desc)
  have nk: "desc ps p' fd' \<noteq> Some k" if "p' < nconn" "fd' < NANVIX_OPEN_MAX" "\<not> (p' = p \<and> fd' = fd)" for p' fd'
    using desc_okD(2) [OF d that(1,2) p(1,2), of k] p(3) that(3) by auto
  show ?thesis unfolding desc_ok_def sd
  proof (intro conjI allI impI)
    show "j < NANVIX_NR_FILES" "f_count (ft[k := f] ! j) = 1"
      if "p' < nconn" "fd' < NANVIX_OPEN_MAX" "(if p' = p \<and> fd' = fd then None else desc ps p' fd') = Some j" for p' fd' j
      using that nk [OF that(1,2)] desc_okD(1) [OF d that(1,2), of j] by (auto simp: nth_list_update split: if_splits)
    show "p' = p''" "fd' = fd''"
      if "p' < nconn" "fd' < NANVIX_OPEN_MAX" "p'' < nconn" "fd'' < NANVIX_OPEN_MAX"
        "(if p' = p \<and> fd' = fd then None else desc ps p' fd') = Some j \<and> (if p'' = p \<and> fd'' = fd then None else desc ps p'' fd'') = Some j"
      for p' fd' p'' fd'' j
      using that desc_okD(2) [OF d that(1-4), of j] by (auto split: if_splits)
  qed
qed

lemma files_ok_open:
  assumes "files_ok ft rt cnt" "k < NANVIX_NR_FILES" "f_count (ft ! k) = 0" "f_count f = 1" "0 \<le> f_pos f" "f_inode f = Some i"
    "i < NANVIX_INODES_TABLE_LENGTH" "\<And>j. cnt' j = cnt j + (if j = i then 1 else 0)"
  shows "files_ok (ft[k := f]) rt cnt'"
proof -
  note F = files_okD [OF assms(1)]
  have h: "held (ft[k := f]) j = held ft j + (if j = i then 1 else 0)" for j
    using assms F(1) by (simp add: held_update file_on_def)
  show ?thesis unfolding files_ok_def
  proof (intro conjI allI impI)
    show "file_ok (ft[k := f] ! j)" if "j < NANVIX_NR_FILES" for j
      using that F(1,2) assms(2,4-7) by (auto simp: nth_list_update file_ok_def)
    show "held (ft[k := f]) j + (if rt = Some j then 1 else 0) \<le> cnt' j" if "j < NANVIX_INODES_TABLE_LENGTH" for j
      using F(3) [OF that] assms(8) [of j] h [of j] by simp
  qed (use F(1) in simp)
qed

lemma files_ok_close:
  assumes "files_ok ft rt cnt" "k < NANVIX_NR_FILES" "f_count (ft ! k) = 1" "f_inode (ft ! k) = Some i"
    "\<And>j. cnt j - (if j = i then 1 else 0) \<le> cnt' j"
  shows "files_ok (ft[k := (ft ! k)\<lparr>f_count := 0\<rparr>]) rt cnt'"
proof -
  note F = files_okD [OF assms(1)]
  let ?f = "(ft ! k)\<lparr>f_count := 0\<rparr>"
  have h: "held (ft[k := ?f]) j = held ft j - (if j = i then 1 else 0)" for j
    using assms F(1) by (simp add: held_update file_on_def)
  show ?thesis unfolding files_ok_def
  proof (intro conjI allI impI)
    show "file_ok (ft[k := ?f] ! j)" if "j < NANVIX_NR_FILES" for j
      using that F(1,2) assms(2) by (auto simp: nth_list_update file_ok_def)
    show "held (ft[k := ?f]) j + (if rt = Some j then 1 else 0) \<le> cnt' j" if "j < NANVIX_INODES_TABLE_LENGTH" for j
      using F(3) [OF that] assms(5) [of j] h [of j] by (simp split: if_splits)
  qed (use F(1) in simp)
qed

text \<open>The view after a descriptor was bound to a file that no descriptor had.\<close>

lemma fd_view_open:
  fixes st st' :: "'r vfs"
  assumes inv: "vfs_inv R nconn st" and "length (v_procs st) = nconn" and ps: "same_procs ps (v_procs st)"
    and p: "p < nconn" "fd < NANVIX_OPEN_MAX" and k: "k < length (v_filetab st)" "f_count (v_filetab st ! k) = 0"
    and st': "v_procs st' = set_desc ps p fd (Some k)" "v_filetab st' = (v_filetab st)[k := f]" "in_num (v_inodes st' ! the (f_inode f)) = num"
    and num: "\<And>j. 0 < icount st j \<Longrightarrow> in_num (v_inodes st' ! j) = in_num (v_inodes st ! j)"
  shows "fd_view nconn st' = (fd_view nconn st)((p, fd) \<mapsto> (f_oflag f, f_pos f, num))"
proof -
  let ?st = "st\<lparr>v_procs := ps, v_inodes := v_inodes st'\<rparr>"
  have len: "length ps = nconn" using same_procs_length [OF ps] assms(2) by simp
  have ofl: "length (ofiles (ps ! p)) = NANVIX_OPEN_MAX"
    using same_procs_nth(2) [OF ps, of p] inv p(1) assms(2) by (simp add: vfs_inv_def procs_ok_def)
  have v: "fd_view nconn ?st = fd_view nconn st"
    by (rule fd_view_cong [OF inv]) (use num same_procs_nth(2) [OF ps] assms(2) in simp_all)
  have nk: "desc ps p' fd' \<noteq> Some k" if "p' < nconn" "fd' < NANVIX_OPEN_MAX" for p' fd'
    using that same_procs_nth(2) [OF ps, of p'] inv k(2) assms(2) by (auto simp: vfs_inv_def desc_ok_def)
  show ?thesis
  proof (rule ext, clarify)
    fix p' fd'
    show "fd_view nconn st' (p', fd') = ((fd_view nconn st)((p, fd) \<mapsto> (f_oflag f, f_pos f, num))) (p', fd')"
    proof (cases "(p', fd') = (p, fd)")
      case True
      then show ?thesis using p k(1) len ofl st' by (simp add: fd_view_def set_desc_desc Let_def)
    next
      case False
      then have "desc (v_procs st') p' fd' = desc ps p' fd'" using p(1,2) len ofl st'(1) by (auto simp: set_desc_desc)
      then have "fd_view nconn st' (p', fd') = fd_view nconn ?st (p', fd')"
        using nk [of p' fd'] st'(2) by (cases "desc ps p' fd'") (auto simp: fd_view_def)
      with False v show ?thesis by auto
    qed
  qed
qed

text \<open>
  \<open>fs_open\<close> takes the lowest free descriptor and the first free file, or fails and leaves the descriptors as they were.
\<close>

lemma fs_open_ok:
  assumes R: "resource_laws R" and run: "running R nconn p st" and nm: "NUL \<notin> set nm" and mnt: "mounted st s imap bmap r"
  defines "dip \<equiv> in_data (v_inodes st ! r)"
  obtains (opened) fd k i st' where "fs_open R st (Some nm) oflag mode = Some (Inr (int fd), st')" "running R nconn p st'"
      "fd < NANVIX_OPEN_MAX" "desc (v_procs st) p fd = None" "\<And>j. j < fd \<Longrightarrow> desc (v_procs st) p j \<noteq> None"
      "fd_view nconn st' = (fd_view nconn st)((p, fd) \<mapsto> (oflag, 0, d_ino (dirent_at (v_disk st) dip k)))"
      "k < ents dip" "names (dirent_at (v_disk st) dip k) nm" "v_disk st' = v_disk st"
      "i < NANVIX_INODES_TABLE_LENGTH" "in_num (v_inodes st' ! i) = d_ino (dirent_at (v_disk st) dip k)" "mounted st' s imap bmap r"
      "in_data (v_inodes st' ! i) = (if 0 < icount st i then in_data (v_inodes st ! i) else inode_at (v_disk st) s (in_num (v_inodes st' ! i)))"
      "\<And>j. icount st' j = icount st j + (if j = i then 1 else 0)" "v_fs st' = v_fs st" "\<not> plain_file (i_mode (in_data (v_inodes st' ! i)))"
      "in_data (v_inodes st' ! i) = cur_inode st s (in_num (v_inodes st' ! i))" "\<exists>k. desc (v_procs st') p fd = Some k \<and> k < length (v_filetab st') \<and>
        v_filetab st' ! k = \<lparr>f_oflag = oflag, f_count = 1, f_pos = 0, f_inode = Some i\<rparr>"
      "\<And>j. j \<noteq> i \<Longrightarrow> v_inodes st' ! j = v_inodes st ! j"
  | (refused) e st' where "fs_open R st (Some nm) oflag mode = Some (Inl e, st')" "running R nconn p st'" "fd_view nconn st' = fd_view nconn st"
      "e = EMFILE \<or> e = ENFILE \<or> e = ENOENT \<or> e = ENOTSUP" "e = EMFILE \<longleftrightarrow> (\<forall>fd<NANVIX_OPEN_MAX. desc (v_procs st) p fd \<noteq> None)"
      "e = ENFILE \<Longrightarrow> \<forall>k<NANVIX_NR_FILES. f_count (v_filetab st ! k) \<noteq> 0" "e = ENOENT \<Longrightarrow> no_entry st dip (root (v_procs st ! p)) nm"
      "e = ENOTSUP \<Longrightarrow> \<exists>k<ents dip. names (dirent_at (v_disk st) dip k) nm \<and> unat (d_ino (dirent_at (v_disk st) dip k)) < NANVIX_NR_INODES \<and> plain_file (i_mode (cur_inode st s (d_ino (dirent_at (v_disk st) dip k))))"
proof -
  have p: "v_curr st = Some p" "p < nconn" "vfs_inv R nconn st" using run by (simp_all add: running_def)
  have cp: "curr_proc st = Some (v_procs st ! p)" using running_curr [OF run] by simp
  have rt: "fs_root (v_fs st) = Some r" by (rule mountedD(2) [OF mnt])
  have i: "itab_ok R (v_inodes st)" "procs_ok nconn (v_procs st) (Some r)"
    "desc_ok nconn (v_procs st) (v_filetab st)" "files_ok (v_filetab st) (Some r) (icount st)"
    using p(3) rt by (simp_all add: vfs_inv_def)
  note P = procs_okD [OF i(2)]
  have plen: "p < length (v_procs st)" using p(2) P(1) by simp
  show thesis
  proof (cases "first_index (\<lambda>f. f = None) (ofiles (v_procs st ! p))")
    case None
    then have "\<forall>fd<NANVIX_OPEN_MAX. desc (v_procs st) p fd \<noteq> None" using P(2) [OF p(2)] by (simp add: first_index_None_iff)
    moreover have "fs_open R st (Some nm) oflag mode = Some (Inl EMFILE, st)" using cp None by (simp add: fs_open_def getfildes_def)
    ultimately show thesis using run by (intro refused [of EMFILE st]) simp_all
  next
    case (Some fd)
    have fd: "fd < NANVIX_OPEN_MAX" "desc (v_procs st) p fd = None" "\<And>j. j < fd \<Longrightarrow> desc (v_procs st) p j \<noteq> None"
      using first_index_SomeD [OF Some] P(2) [OF p(2)] by simp_all
    have gd: "getfildes st = Some (Inr fd)" using cp Some by (simp add: getfildes_def)
    show thesis
    proof (cases "getfile st")
      case None
      then have "\<forall>k<NANVIX_NR_FILES. f_count (v_filetab st ! k) \<noteq> 0" using files_okD(1) [OF i(4)] by (simp add: getfile_def first_index_None_iff)
      moreover have "fs_open R st (Some nm) oflag mode = Some (Inl ENFILE, st)" using gd None by (simp add: fs_open_def)
      ultimately show thesis using run fd by (intro refused [of ENFILE st]) auto
    next
      case (Some k)
      have k: "k < length (v_filetab st)" "f_count (v_filetab st ! k) = 0" "k < NANVIX_NR_FILES"
        using Some files_okD(1) [OF i(4)] by (auto simp: getfile_def dest: first_index_SomeD)
      let ?st1 = "file_update k (\<lambda>f. f\<lparr>f_count := 1\<rparr>) st"
      have pre: "itab_ok R (v_inodes ?st1)" "mounted ?st1 s imap bmap r" "v_curr ?st1 = Some p" "p < length (v_procs ?st1)"
        "root (v_procs ?st1 ! p) = None \<or> root (v_procs ?st1 ! p) = Some r" using i(1) mnt p(1) plen P(3) [OF p(2)] by simp_all
      from R pre nm show thesis
      proof (cases rule: do_open_ok [where oflag = oflag and mode = mode])
        case (failed m e st2)
        let ?st3 = "file_update k (\<lambda>f. f\<lparr>f_count := 0\<rparr>) st2"
        have ft2: "v_filetab st2 = (v_filetab st)[k := (v_filetab st ! k)\<lparr>f_count := 1\<rparr>]" "v_curr st2 = Some p" "same_procs (v_procs st2) (v_procs st)"
          using failed(4) p(1) by (simp_all add: frame_def)
        have "(v_filetab st ! k)\<lparr>f_count := 0\<rparr> = v_filetab st ! k" using k(2) by simp
        then have ft3: "v_filetab ?st3 = v_filetab st" using k(1) ft2(1) by simp
        have fr: "frame st ?st3" using ft3 ft2 p(1) by (simp add: frame_def)
        have m3: "mounted ?st3 s m bmap r" using failed(3) by simp
        have run3: "running R nconn p ?st3" by (rule running_frame [OF run _ mnt m3 fr]) (use failed(2,5) in simp_all)
        have "curr_proc ?st3 = Some (v_procs st2 ! p)" using ft2(2) failed(7) by (simp add: curr_proc_def)
        then have "fs_open R st (Some nm) oflag mode = Some (Inl e, ?st3)" using gd Some failed(1,6) by (simp add: fs_open_def Let_def)
        moreover have "fd_view nconn ?st3 = fd_view nconn st" by (rule fd_view_frame [OF p(3) fr]) (use failed(9) in simp)
        moreover have "e = ENOENT \<Longrightarrow> no_entry st dip (root (v_procs st ! p)) nm" using failed(10) by (simp add: no_entry_def dip_def)
        moreover have "cur_inode ?st1 s num = cur_inode st s num" for num by (rule cur_inode_cong) simp_all
        then have "e = ENOTSUP \<Longrightarrow> \<exists>k<ents dip. names (dirent_at (v_disk st) dip k) nm \<and> unat (d_ino (dirent_at (v_disk st) dip k)) < NANVIX_NR_INODES \<and>
            plain_file (i_mode (cur_inode st s (d_ino (dirent_at (v_disk st) dip k))))"
          using failed(11) by (simp add: dip_def)
        ultimately show thesis using run3 failed(8) fd(1,2) by (intro refused [of e ?st3]) auto
      next
        case (opened d i2 st2)
        let ?f = "\<lparr>f_oflag = oflag, f_count = 1, f_pos = 0, f_inode = Some i2\<rparr>"
        let ?st3 = "file_update k (\<lambda>f. f\<lparr>f_oflag := oflag, f_pos := 0, f_inode := Some i2\<rparr>) st2"
        let ?st = "?st3\<lparr>v_procs := set_desc (v_procs st2) p fd (Some k)\<rparr>"
        have ft2: "v_filetab st2 = (v_filetab st)[k := (v_filetab st ! k)\<lparr>f_count := 1\<rparr>]" "v_curr st2 = Some p" "same_procs (v_procs st2) (v_procs st)"
          using opened(4) p(1) by (simp_all add: frame_def)
        have len2: "p < length (v_procs st2)" using same_procs_length [OF ft2(3)] plen by simp
        have ft3: "v_filetab ?st3 = (v_filetab st)[k := ?f]" using k(1) ft2(1) by (cases "v_filetab st ! k") simp
        have eq: "fs_open R st (Some nm) oflag mode = Some (Inr (int fd), ?st)"
          using gd Some opened(1) curr_update_set [of ?st3 p fd "Some k"] ft2(2) len2 by (simp add: fs_open_def Let_def)
        note pf = procs_frame [OF ft2(3) P(1)]
        have po: "procs_ok nconn (v_procs st2) (Some r)" "desc_ok nconn (v_procs st2) (v_filetab st)" using pf i(2,3) by simp_all
        have m: "mounted ?st s imap bmap r" using opened(3) by (simp add: mounted_def)
        have inv: "vfs_inv R nconn ?st"
        proof (rule vfs_invI [OF m])
          show "itab_ok R (v_inodes ?st)" using opened(2) by simp
          show "procs_ok nconn (v_procs ?st) (Some r)" using procs_ok_set [OF po(1)] by simp
          show "desc_ok nconn (v_procs ?st) (v_filetab ?st)"
            using desc_ok_open [OF po(2,1) p(2) fd(1) k(3,1,2), of ?f] ft3 by simp
          show "files_ok (v_filetab ?st) (Some r) (icount ?st)"
            using files_ok_open [OF i(4) k(3,2), of ?f i2 "icount ?st"] opened(6,7) ft3 by simp
        qed
        have nums: "in_num (v_inodes st2 ! j) = in_num (v_inodes st ! j)" if "0 < icount st j" for j
          using that opened(12,13) by (cases "j = i2") simp_all
        have view: "fd_view nconn ?st = (fd_view nconn st)((p, fd) \<mapsto> (oflag, 0, d_ino (dirent_at (v_disk st) dip d)))"
          using fd_view_open [OF p(3) P(1) ft2(3) p(2) fd(1) k(1,2), of ?st ?f "d_ino (dirent_at (v_disk st) dip d)"] nums ft3 opened(8)
          by (simp add: dip_def)
        have run': "running R nconn p ?st" using inv p(2) ft2(2) by (simp add: running_def)
        have rest: "d < ents dip" "names (dirent_at (v_disk st) dip d) nm" "v_disk ?st = v_disk st" "i2 < NANVIX_INODES_TABLE_LENGTH"
          "in_num (v_inodes ?st ! i2) = d_ino (dirent_at (v_disk st) dip d)"
          using opened(5,6,8-10) by (simp_all add: dip_def)
        show thesis
        proof (rule that(1) [OF eq run' fd view rest m])
          show "in_data (v_inodes ?st ! i2) = (if 0 < icount st i2 then in_data (v_inodes st ! i2) else inode_at (v_disk st) s (in_num (v_inodes ?st ! i2)))"
            using opened(11) by simp
          show "icount ?st j = icount st j + (if j = i2 then 1 else 0)" for j using opened(7) [of j] by simp
          show "v_fs ?st = v_fs st" using opened(15) by simp
          show "\<not> plain_file (i_mode (in_data (v_inodes ?st ! i2)))" using opened(14) by simp
          have "0 < icount st2 i2" using opened(6,7) itab_okD(1,2) [OF i(1)] by (force simp: inode_ok_def)
          then have "in_data (v_inodes st2 ! i2) = cur_inode ?st1 s (in_num (v_inodes st2 ! i2))"
            by (intro cur_inode_got [OF pre(1) opened(2,6) refl _ opened(13) opened(12) opened(11)])
          then show "in_data (v_inodes ?st ! i2) = cur_inode st s (in_num (v_inodes ?st ! i2))" using cur_inode_cong [of ?st1 st] by simp
          have "length (ofiles (v_procs st2 ! p)) = NANVIX_OPEN_MAX" using procs_okD(2) [OF po(1) p(2)] .
          then show "\<exists>k. desc (v_procs ?st) p fd = Some k \<and> k < length (v_filetab ?st) \<and> v_filetab ?st ! k = ?f"
            using len2 fd(1) ft3 k(1) by (intro exI [of _ k]) (simp add: set_desc_desc)
          show "v_inodes ?st ! j = v_inodes st ! j" if "j \<noteq> i2" for j using opened(13) [OF that] by simp
        qed
      qed
    qed
  qed
qed

lemma fd_view_close:
  fixes st st' :: "'r vfs"
  assumes inv: "vfs_inv R nconn st" and p: "p < nconn" "fd < NANVIX_OPEN_MAX" "desc (v_procs st) p fd = Some k"
    and st': "same_procs (v_procs st') (set_desc (v_procs st) p fd None)" "v_filetab st' = (v_filetab st)[k := f]"
    and num: "\<And>j. 0 < icount st j \<Longrightarrow> in_num (v_inodes st' ! j) = in_num (v_inodes st ! j)"
  shows "fd_view nconn st' = (fd_view nconn st)((p, fd) := None)"
proof -
  let ?st = "st\<lparr>v_inodes := v_inodes st'\<rparr>"
  have ps: "length (v_procs st) = nconn" "length (ofiles (v_procs st ! p)) = NANVIX_OPEN_MAX" using inv p(1) by (simp_all add: vfs_inv_def procs_ok_def)
  have v: "fd_view nconn ?st = fd_view nconn st" by (rule fd_view_cong [OF inv]) (use num in simp_all)
  have d': "desc (v_procs st') p' fd' = (if p' = p \<and> fd' = fd then None else desc (v_procs st) p' fd')" if "p' < nconn" for p' fd'
    using same_procs_nth(2) [OF st'(1), of p'] set_desc_desc [of p "v_procs st" fd None p' fd'] that p ps by (simp add: set_desc_def)
  have nk: "desc (v_procs st) p' fd' \<noteq> Some k" if "p' < nconn" "fd' < NANVIX_OPEN_MAX" "(p', fd') \<noteq> (p, fd)" for p' fd'
    using desc_okD(2) [of nconn "v_procs st" "v_filetab st" p' fd' p fd k] inv that p by (auto simp: vfs_inv_def)
  show ?thesis
  proof (rule ext, clarify)
    fix p' fd'
    show "fd_view nconn st' (p', fd') = ((fd_view nconn st)((p, fd) := None)) (p', fd')"
    proof (cases "(p', fd') = (p, fd)")
      case True
      then show ?thesis using d' [of p'] by (simp add: fd_view_def)
    next
      case False
      then have "fd_view nconn st' (p', fd') = fd_view nconn ?st (p', fd')"
        using nk [of p' fd'] d' [of p' fd'] st'(2) by (cases "desc (v_procs st) p' fd'") (auto simp: fd_view_def)
      with False v show ?thesis by auto
    qed
  qed
qed

text \<open>
  \<open>fs_close\<close> gives the descriptor up. The inode of a block special file is put back; the inode of any other file is not,
  and the call reports \<open>ENOTSUP\<close> although the descriptor is gone.
\<close>

lemma fs_close_ok:
  assumes R: "resource_laws R" and run: "running R nconn p st" and fd: "fd < NANVIX_OPEN_MAX" and mnt: "mounted st s imap bmap r"
  obtains (bad) st' where "fs_close R st fd = Some (Inl EBADF, st')" "running R nconn p st'" "fd_view nconn st' = fd_view nconn st" "fd_view nconn st (p, fd) = None"
  | (closed) k i m st' where "fs_close R st fd = Some (Inr 0, st')" "running R nconn p st'" "fd_view nconn st' = (fd_view nconn st)((p, fd) := None)"
      "desc (v_procs st) p fd = Some k" "f_inode (v_filetab st ! k) = Some i" "i < NANVIX_INODES_TABLE_LENGTH" "S_ISBLK (i_mode (in_data (v_inodes st ! i)))"
      "mounted st' s m bmap r" "v_disk st' = disk_put (v_disk st) (ino_off s (in_num (v_inodes st ! i))) (enc_inode (in_data (v_inodes st ! i)))"
      "bits m = (if icount st i = 1 \<and> i_nlinks (in_data (v_inodes st ! i)) = 1 then bits imap - {unat (in_num (v_inodes st ! i)) - 1} else bits imap)"
      "\<And>j. icount st' j = icount st j - (if j = i then 1 else 0)" "\<And>j. j \<noteq> i \<Longrightarrow> v_inodes st' ! j = v_inodes st ! j"
  | (unsupported) k i st' where "fs_close R st fd = Some (Inl ENOTSUP, st')" "running R nconn p st'" "fd_view nconn st' = (fd_view nconn st)((p, fd) := None)"
      "desc (v_procs st) p fd = Some k" "f_inode (v_filetab st ! k) = Some i" "\<not> S_ISBLK (i_mode (in_data (v_inodes st ! i)))"
proof -
  have p: "v_curr st = Some p" "p < nconn" "vfs_inv R nconn st" using run by (simp_all add: running_def)
  have cp: "curr_proc st = Some (v_procs st ! p)" using running_curr [OF run] by simp
  have rt: "fs_root (v_fs st) = Some r" by (rule mountedD(2) [OF mnt])
  have i: "itab_ok R (v_inodes st)" "procs_ok nconn (v_procs st) (Some r)"
    "desc_ok nconn (v_procs st) (v_filetab st)" "files_ok (v_filetab st) (Some r) (icount st)"
    using p(3) rt by (simp_all add: vfs_inv_def)
  note P = procs_okD [OF i(2)] and F = files_okD [OF i(4)]
  have plen: "p < length (v_procs st)" using p(2) P(1) by simp
  have fdf: "fd_file st fd = Some (desc (v_procs st) p fd)" using cp P(2) [OF p(2)] fd by (simp add: fd_file_def)
  show thesis
  proof (cases "desc (v_procs st) p fd")
    case None
    obtain st' where st': "set_err EBADF st = Some st'" "running R nconn p st'" "frame st st'" "v_inodes st' = v_inodes st" "v_fs st' = v_fs st"
      "v_disk st' = v_disk st" "errcode (v_procs st' ! p) = Some EBADF"
      by (rule running_err [OF run]) (rule that; assumption)
    have "fs_close R st fd = Some (Inl EBADF, st')" using fdf None st'(1) by (simp add: fs_close_def fail_def)
    moreover have "fd_view nconn st' = fd_view nconn st" by (rule fd_view_frame [OF p(3) st'(3)]) (simp add: st'(4))
    moreover have "fd_view nconn st (p, fd) = None" using None by (simp add: fd_view_def)
    ultimately show thesis using st'(2) bad by blast
  next
    case (Some k)
    have k: "k < NANVIX_NR_FILES" "f_count (v_filetab st ! k) = 1" using desc_okD(1) [OF i(3) p(2) fd Some] by auto
    obtain j where j: "j < NANVIX_INODES_TABLE_LENGTH" "f_inode (v_filetab st ! k) = Some j" using F(2) [OF k(1)] k(2) by (auto simp: file_ok_def)
    have "1 \<le> held (v_filetab st) j" using held_pos k j F(1) by metis
    then have cj: "0 < icount st j" "j = r \<longrightarrow> 1 < icount st j" using F(3) [OF j(1)] by (auto split: if_splits)
    let ?f = "(v_filetab st ! k)\<lparr>f_count := 0\<rparr>"
    let ?st1 = "st\<lparr>v_procs := set_desc (v_procs st) p fd None\<rparr>"
    let ?st2 = "file_update k (\<lambda>f. f\<lparr>f_count := f_count f - 1\<rparr>) ?st1"
    have s2: "v_inodes ?st2 = v_inodes st" "v_fs ?st2 = v_fs st" "v_disk ?st2 = v_disk st" "v_curr ?st2 = Some p"
      "v_filetab ?st2 = (v_filetab st)[k := ?f]" "v_procs ?st2 = set_desc (v_procs st) p fd None" using p(1) k(2) by simp_all
    have dg: "inode_disk_get ?st2 (Some j) = Some (in_data (v_inodes st ! j))" using cj(1) by (simp add: inode_disk_get_def)
    have close: "fs_close R st fd = (if S_ISBLK (i_mode (in_data (v_inodes st ! j))) then inode_put R ?st2 True (Some j) else fail ENOTSUP ?st2)"
      using fdf Some curr_update_set [OF p(1) plen, of fd None] j(2) k(2) dg by (simp add: fs_close_def Let_def)
    have m2: "mounted ?st2 s imap bmap r" using mnt by (simp add: mounted_def)
    have t2: "itab_ok R (v_inodes ?st2)" using i(1) s2(1) by simp
    have cj2: "0 < icount ?st2 j" "j = r \<longrightarrow> 1 < icount ?st2 j" using cj s2(1) by simp_all
    have po: "procs_ok nconn (set_desc (v_procs st) p fd None) (Some r)" "desc_ok nconn (set_desc (v_procs st) p fd None) ((v_filetab st)[k := ?f])"
      using procs_ok_set [OF i(2)] desc_ok_close [OF i(3,2) p(2) fd Some] by simp_all
    show thesis
    proof (cases "S_ISBLK (i_mode (in_data (v_inodes st ! j)))")
      case True
      obtain m st' where st': "inode_put R ?st2 True (Some j) = Some (Inr 0, st')" "itab_ok R (v_inodes st')" "mounted st' s m bmap r" "frame ?st2 st'"
        "v_procs st' = v_procs ?st2" "\<And>l. in_num (v_inodes st' ! l) = in_num (v_inodes ?st2 ! l)"
        "v_disk st' = disk_put (v_disk ?st2) (ino_off s (in_num (v_inodes ?st2 ! j))) (enc_inode (in_data (v_inodes ?st2 ! j)))"
        "\<And>l. icount st' l = icount ?st2 l - (if l = j then 1 else 0)" "\<And>l. l \<noteq> j \<Longrightarrow> v_inodes st' ! l = v_inodes ?st2 ! l"
        "bits m = (if icount ?st2 j = 1 \<and> i_nlinks (in_data (v_inodes ?st2 ! j)) = 1 then bits imap - {unat (in_num (v_inodes ?st2 ! j)) - 1} else bits imap)"
        by (rule inode_put_keeps [OF R t2 m2 j(1) cj2]) (rule that; assumption)
      have ft: "v_filetab st' = (v_filetab st)[k := ?f]" "v_curr st' = Some p" using st'(4) s2(4,5) by (simp_all add: frame_def)
      have inv: "vfs_inv R nconn st'"
      proof (rule vfs_invI [OF st'(3,2)])
        show "procs_ok nconn (v_procs st') (Some r)" "desc_ok nconn (v_procs st') (v_filetab st')" using po st'(5) s2(6) ft(1) by simp_all
        show "files_ok (v_filetab st') (Some r) (icount st')"
          unfolding ft(1) by (rule files_ok_close [OF i(4) k j(2)]) (use st'(8) s2(1) in simp)
      qed
      have view: "fd_view nconn st' = (fd_view nconn st)((p, fd) := None)"
        by (rule fd_view_close [OF p(3,2) fd Some _ ft(1)]) (use st'(5,6) s2 in \<open>simp_all add: same_procs_def\<close>)
      show thesis
        by (rule closed [OF _ _ view Some j(2,1) True st'(3)]) (use close True st' inv p(2) ft(2) s2 in \<open>simp_all add: running_def\<close>)
    next
      case False
      have inv2: "vfs_inv R nconn ?st2"
      proof (rule vfs_invI [OF m2 t2])
        show "procs_ok nconn (v_procs ?st2) (Some r)" "desc_ok nconn (v_procs ?st2) (v_filetab ?st2)" using po s2(5,6) by simp_all
        show "files_ok (v_filetab ?st2) (Some r) (icount ?st2)"
          unfolding s2(5) by (rule files_ok_close [OF i(4) k j(2)]) (use s2(1) in simp)
      qed
      then have run2: "running R nconn p ?st2" using p(2) s2(4) by (simp add: running_def)
      obtain st' where st': "set_err ENOTSUP ?st2 = Some st'" "running R nconn p st'" "frame ?st2 st'" "v_inodes st' = v_inodes ?st2" "v_fs st' = v_fs ?st2"
        "v_disk st' = v_disk ?st2" "errcode (v_procs st' ! p) = Some ENOTSUP"
        by (rule running_err [OF run2]) (rule that; assumption)
      have ft: "v_filetab st' = (v_filetab st)[k := ?f]" "same_procs (v_procs st') (set_desc (v_procs st) p fd None)"
        using st'(3) s2(5,6) by (simp_all add: frame_def)
      have view: "fd_view nconn st' = (fd_view nconn st)((p, fd) := None)"
        by (rule fd_view_close [OF p(3,2) fd Some ft(2,1)]) (simp add: st'(4))
      have "fs_close R st fd = Some (Inl ENOTSUP, st')" using close False st'(1) by (simp add: fail_def)
      then show thesis by (rule unsupported [OF _ st'(2) view Some j(2) False])
    qed
  qed
qed

section \<open>Transfers\<close>

lemma running_disk:
  assumes "running R nconn p st" "disks_ok ds"
  shows "running R nconn p (set_disk ds st)" "fd_view nconn (set_disk ds st) = fd_view nconn st"
proof -
  obtain s imap bmap r where i: "mounted st s imap bmap r" "itab_ok R (v_inodes st)" using assms(1) by (auto simp: running_def elim: vfs_invE)
  have "dir_struct s bmap (in_data (v_inodes st ! r)) ds" by (rule dir_struct_cong [OF mountedD(9) [OF i(1)] assms(2)]) simp_all
  then have "mounted (set_disk ds st) s imap bmap r" using i(1) by (simp add: mounted_def)
  from running_frame [OF assms(1) _ i(1) this] i(2) show "running R nconn p (set_disk ds st)" by simp
  show "fd_view nconn (set_disk ds st) = fd_view nconn st" by (simp add: fd_view_def fun_eq_iff)
qed

lemma running_disks: "running R nconn p st \<Longrightarrow> disks_ok (v_disk st)"
proof -
  assume "running R nconn p st"
  then obtain s imap bmap r where "mounted st s imap bmap r" by (auto simp: running_def elim: vfs_invE)
  from dir_structD(3) [OF mountedD(9) [OF this]] show ?thesis .
qed

text \<open>The file and the inode behind a descriptor.\<close>

lemma running_desc:
  assumes "running R nconn p st" "fd < NANVIX_OPEN_MAX" "desc (v_procs st) p fd = Some k"
  obtains i where "k < NANVIX_NR_FILES" "k < length (v_filetab st)" "f_count (v_filetab st ! k) = 1" "f_inode (v_filetab st ! k) = Some i"
    "i < NANVIX_INODES_TABLE_LENGTH" "0 < icount st i" "0 \<le> f_pos (v_filetab st ! k)" "length (i_zones (in_data (v_inodes st ! i))) = 9"
    "inode_disk_get st (Some i) = Some (in_data (v_inodes st ! i))"
proof -
  have p: "p < nconn" "vfs_inv R nconn st" using assms(1) by (simp_all add: running_def)
  obtain s imap bmap r where i: "mounted st s imap bmap r" "itab_ok R (v_inodes st)" "procs_ok nconn (v_procs st) (Some r)"
    "desc_ok nconn (v_procs st) (v_filetab st)" "files_ok (v_filetab st) (Some r) (icount st)"
    by (rule vfs_invE [OF p(2)])
  have k: "k < NANVIX_NR_FILES" "f_count (v_filetab st ! k) = 1" using desc_okD(1) [OF i(4) p(1) assms(2,3)] by auto
  note F = files_okD [OF i(5)]
  obtain j where j: "j < NANVIX_INODES_TABLE_LENGTH" "f_inode (v_filetab st ! k) = Some j" "0 \<le> f_pos (v_filetab st ! k)"
    using F(2) [OF k(1)] k(2) by (auto simp: file_ok_def)
  have "1 \<le> held (v_filetab st) j" using held_pos k j F(1) by metis
  then have c: "0 < icount st j" using F(3) [OF j(1)] by (auto split: if_splits)
  then have "inode_wf (in_data (v_inodes st ! j))" using itab_okD(1,2) [OF i(2)] j(1) by (force simp: inode_ok_def)
  then have "length (i_zones (in_data (v_inodes st ! j))) = 9" by (simp add: inode_wf_def MINIX_NR_ZONES_def)
  with k j c F(1) show thesis by (intro that [of j]) (simp_all add: inode_disk_get_def)
qed

lemma running_fd_file: "running R nconn p st \<Longrightarrow> fd < NANVIX_OPEN_MAX \<Longrightarrow> fd_file st fd = Some (desc (v_procs st) p fd)"
proof -
  assume run: "running R nconn p st" and fd: "fd < NANVIX_OPEN_MAX"
  have "length (ofiles (v_procs st ! p)) = NANVIX_OPEN_MAX" using run procs_okD(2) by (auto simp: running_def vfs_inv_def)
  with fd running_curr [OF run] show ?thesis by (simp add: fd_file_def)
qed

lemma errcode_none:
  "running R nconn p st \<Longrightarrow> errcode (v_procs st ! p) = None \<Longrightarrow> errcode_result st = Some (Inr 0)"
  using running_curr [of R nconn p st] by (simp add: errcode_result_def)

text \<open>The transfer a read or write of a block special file makes, if it is one the device accepts.\<close>

definition dev_range :: "d_inode \<Rightarrow> int \<Rightarrow> nat \<Rightarrow> bool" where
  "dev_range d pos n \<longleftrightarrow> zone d 0 = 0 \<and> 0 \<le> pos \<and> nat pos < NANVIX_RAMDISK_SIZE \<and> nat pos + n \<le> NANVIX_RAMDISK_SIZE"

lemma dev_read:
  "0 \<le> pos \<Longrightarrow> ramdisk_read ds (unat (zone d 0)) False n pos =
     (if dev_range d pos n then Inr (int n, disk_get ds (nat pos) n) else Inl EINVAL)"
  using ramdisk_read_get [of ds "unat (zone d 0)" n "nat pos"] by (simp add: dev_range_def unat_eq_0)

lemma dev_write:
  "0 \<le> pos \<Longrightarrow> n \<le> length buf \<Longrightarrow> ramdisk_write ds (unat (zone d 0)) (Some buf) n pos =
     (if dev_range d pos n then (Inr (int n), disk_put ds (nat pos) (take n buf)) else (Inl EINVAL, ds))"
proof -
  assume pos: "0 \<le> pos" and n: "n \<le> length buf"
  have "ramdisk_write ds (unat (zone d 0)) (Some buf) n pos = ramdisk_write ds (unat (zone d 0)) (Some (take n buf)) n (int (nat pos))"
    using pos by (simp add: ramdisk_write_def Let_def)
  then show ?thesis using pos n ramdisk_write_put [of "take n buf" n ds "unat (zone d 0)" "nat pos"] by (simp add: dev_range_def unat_eq_0)
qed

lemma fs_read_ok:
  assumes run: "running R nconn p st" and fd: "fd < NANVIX_OPEN_MAX" and err: "errcode (v_procs st ! p) = None"
  obtains (kept) r where "fs_read st fd n = Some (r, None, st)" "r = Inl EBADF \<or> r = Inl ENOTSUP \<or> r = Inr 0"
      "r = Inr 0 \<Longrightarrow> \<exists>k. desc (v_procs st) p fd = Some k \<and> ACCMODE (f_oflag (v_filetab st ! k)) \<noteq> O_WRONLY"
  | (transfer) k i where "desc (v_procs st) p fd = Some k" "f_inode (v_filetab st ! k) = Some i" "ACCMODE (f_oflag (v_filetab st ! k)) \<noteq> O_WRONLY"
      "dev_range (in_data (v_inodes st ! i)) (f_pos (v_filetab st ! k)) n"
      "fs_read st fd n = Some (Inr (int n), Some (disk_get (v_disk st) (nat (f_pos (v_filetab st ! k))) n),
         file_update k (\<lambda>f. f\<lparr>f_pos := f_pos f + int n\<rparr>) st)"
proof (cases "desc (v_procs st) p fd")
  case None
  with running_fd_file [OF run fd] show thesis by (intro kept [of "Inl EBADF"]) (simp_all add: fs_read_def)
next
  case (Some k)
  obtain i where i: "f_inode (v_filetab st ! k) = Some i" "0 \<le> f_pos (v_filetab st ! k)"
    "inode_disk_get st (Some i) = Some (in_data (v_inodes st ! i))"
    by (rule running_desc [OF run fd Some])
  let ?f = "v_filetab st ! k" and ?d = "in_data (v_inodes st ! i)"
  have ff: "fd_file st fd = Some (Some k)" using running_fd_file [OF run fd] Some by simp
  note defs = fs_read_def ff i errcode_none [OF run err] dev_read [OF i(2)] file_read_def Let_def
  consider (e) "ACCMODE (f_oflag ?f) = O_WRONLY" | (z) "ACCMODE (f_oflag ?f) \<noteq> O_WRONLY" "n = 0"
    | (t) "ACCMODE (f_oflag ?f) \<noteq> O_WRONLY" "n \<noteq> 0" "S_ISBLK (i_mode ?d)" "dev_range ?d (f_pos ?f) n"
    | (o) "ACCMODE (f_oflag ?f) \<noteq> O_WRONLY" "n \<noteq> 0" "S_ISBLK (i_mode ?d)" "\<not> dev_range ?d (f_pos ?f) n"
    | (p) "ACCMODE (f_oflag ?f) \<noteq> O_WRONLY" "n \<noteq> 0" "\<not> S_ISBLK (i_mode ?d)" by blast
  then show thesis
  proof cases
    case e
    then show thesis by (intro kept [of "Inl EBADF"]) (simp_all add: defs)
  next
    case z
    then show thesis using Some by (intro kept [of "Inr 0"]) (simp_all add: defs)
  next
    case t
    then show thesis by (intro transfer [OF Some i(1)]) (simp_all add: defs)
  next
    case o
    then show thesis using Some by (intro kept [of "Inr 0"]) (simp_all add: defs)
  next
    case p
    then show thesis using Some
      by (cases "S_ISDIR (i_mode ?d) \<or> S_ISREG (i_mode ?d)"; intro kept [of "if S_ISDIR (i_mode ?d) \<or> S_ISREG (i_mode ?d) then Inr 0 else Inl ENOTSUP"])
        (auto simp: defs)
  qed
qed

lemma advance_eq: "file_update k (\<lambda>f. f\<lparr>f_pos := f_pos f + c\<rparr>) st = file_update k (\<lambda>f. f\<lparr>f_pos := f_pos (v_filetab st ! k) + c\<rparr>) st"
  by (simp add: file_update_def)

lemma advance_ok:
  assumes "running R nconn p st" "fd < NANVIX_OPEN_MAX" "desc (v_procs st) p fd = Some k" "0 \<le> c"
  shows "running R nconn p (file_update k (\<lambda>f. f\<lparr>f_pos := f_pos f + c\<rparr>) st)"
    and "fd_view nconn (file_update k (\<lambda>f. f\<lparr>f_pos := f_pos f + c\<rparr>) st) =
      (fd_view nconn st)((p, fd) \<mapsto> (f_oflag (v_filetab st ! k), f_pos (v_filetab st ! k) + c, in_num (v_inodes st ! the (f_inode (v_filetab st ! k)))))"
proof -
  have pos: "0 \<le> f_pos (v_filetab st ! k) + c" by (rule running_desc [OF assms(1-3)]) (use assms(4) in simp)
  show "running R nconn p (file_update k (\<lambda>f. f\<lparr>f_pos := f_pos f + c\<rparr>) st)"
    "fd_view nconn (file_update k (\<lambda>f. f\<lparr>f_pos := f_pos f + c\<rparr>) st) =
      (fd_view nconn st)((p, fd) \<mapsto> (f_oflag (v_filetab st ! k), f_pos (v_filetab st ! k) + c, in_num (v_inodes st ! the (f_inode (v_filetab st ! k)))))"
    unfolding advance_eq by (rule seek_ok [OF assms(1-3) pos])+
qed

text \<open>Where a write starts: at the end of the file when it was opened for appending.\<close>

definition write_pos :: "d_inode \<Rightarrow> vfile \<Rightarrow> int" where
  "write_pos d f = (if f_oflag f AND O_APPEND \<noteq> 0 then uint (i_size d) else f_pos f)"

lemma fs_write_eq:
  assumes run: "running R nconn p st" and fd: "fd < NANVIX_OPEN_MAX" "desc (v_procs st) p fd = Some k" and i: "f_inode (v_filetab st ! k) = Some i"
    and err: "errcode (v_procs st ! p) = None" and n: "n \<le> length buf" "n \<noteq> 0" and acc: "ACCMODE (f_oflag (v_filetab st ! k)) \<noteq> O_RDONLY"
  defines "f \<equiv> v_filetab st ! k" and "d \<equiv> in_data (v_inodes st ! i)"
  defines "st1 \<equiv> file_update k (\<lambda>f. f\<lparr>f_pos := write_pos d f\<rparr>) st"
  shows "running R nconn p st1" "0 \<le> write_pos d f"
    "fs_write st fd buf n =
      (if S_ISBLK (i_mode d) \<and> dev_range d (write_pos d f) n
       then Some (Inr (int n), file_update k (\<lambda>f. f\<lparr>f_pos := f_pos f + int n\<rparr>) (set_disk (disk_put (v_disk st) (nat (write_pos d f)) (take n buf)) st1))
       else if S_ISBLK (i_mode d) \<or> S_ISREG (i_mode d) then Some (Inr 0, st1)
       else Some (Inr 0, file_update k (\<lambda>f. f\<lparr>f_pos := f_pos f + 0\<rparr>) st1))"
proof -
  obtain j where j: "k < NANVIX_NR_FILES" "k < length (v_filetab st)" "f_count (v_filetab st ! k) = 1" "f_inode (v_filetab st ! k) = Some j"
    "j < NANVIX_INODES_TABLE_LENGTH" "0 < icount st j" "0 \<le> f_pos (v_filetab st ! k)" "length (i_zones (in_data (v_inodes st ! j))) = 9"
    "inode_disk_get st (Some j) = Some (in_data (v_inodes st ! j))"
    by (rule running_desc [OF run fd]) (rule that; assumption)
  have ji: "j = i" using i j(4) by simp
  show wp: "0 \<le> write_pos d f" using j(7) by (simp add: write_pos_def f_def)
  have st1: "st1 = file_update k (\<lambda>f. f\<lparr>f_pos := write_pos d (v_filetab st ! k)\<rparr>) st" by (simp add: st1_def file_update_def)
  show run1: "running R nconn p st1" unfolding st1 by (rule seek_ok(1) [OF run fd]) (use wp f_def in simp)
  have upd: "(if f_oflag f AND O_APPEND \<noteq> 0 then file_update k (\<lambda>f. f\<lparr>f_pos := uint (i_size d)\<rparr>) st else st) = st1"
    by (simp add: st1_def write_pos_def f_def file_update_def)
  have pos1: "f_pos (v_filetab st1 ! k) = write_pos d f" using j(2) by (simp add: st1 f_def)
  have e1: "errcode_result st1 = Some (Inr 0)" by (rule errcode_none [OF run1]) (simp add: st1 err)
  have dsk1: "set_disk (v_disk st) st1 = st1" by (simp add: st1 set_disk_def v_disk_def file_update_def)
  have ff: "fd_file st fd = Some (Some k)" using running_fd_file [OF run fd(1)] fd(2) by simp
  have dg: "inode_disk_get st (Some i) = Some d" using j(9) ji by (simp add: d_def)
  have v1: "v_disk st1 = v_disk st" by (simp add: st1)
  have "fs_write st fd buf n = (let (count, st2) =
                  (if S_ISBLK (i_mode d) then
                     (case ramdisk_write (v_disk st1) (unat (i_zones d ! 0)) (Some buf) n (write_pos d f) of (r, ds) \<Rightarrow> (r, set_disk ds st1))
                   else if S_ISREG (i_mode d) then (file_write, st1)
                   else (Inr 0, st1)) in
                case count of
                  Inl _ \<Rightarrow> do { r \<leftarrow> errcode_result st2; Some (r, st2) }
                | Inr c \<Rightarrow> Some (Inr c, file_update k (\<lambda>f. f\<lparr>f_pos := f_pos f + c\<rparr>) st2))"
    unfolding fs_write_def ff using acc n(2) i dg upd pos1 by (simp add: f_def Let_def)
  then show "fs_write st fd buf n =
      (if S_ISBLK (i_mode d) \<and> dev_range d (write_pos d f) n
       then Some (Inr (int n), file_update k (\<lambda>f. f\<lparr>f_pos := f_pos f + int n\<rparr>) (set_disk (disk_put (v_disk st) (nat (write_pos d f)) (take n buf)) st1))
       else if S_ISBLK (i_mode d) \<or> S_ISREG (i_mode d) then Some (Inr 0, st1)
       else Some (Inr 0, file_update k (\<lambda>f. f\<lparr>f_pos := f_pos f + 0\<rparr>) st1))"
    by (simp add: dev_write [OF wp n(1)] v1 dsk1 e1 file_write_def)
qed

lemma fs_write_ok:
  assumes run: "running R nconn p st" and fd: "fd < NANVIX_OPEN_MAX" and err: "errcode (v_procs st ! p) = None" and n: "n \<le> length buf"
  obtains (kept) r where "fs_write st fd buf n = Some (r, st)" "r = Inl EBADF \<or> r = Inr 0 \<and> n = 0"
  | (moved) c k st' where "ACCMODE (f_oflag (v_filetab st ! k)) \<noteq> O_RDONLY" "fs_write st fd buf n = Some (Inr c, st')" "running R nconn p st'" "c = 0 \<or> c = int n" "desc (v_procs st) p fd = Some k"
      "fd_view nconn st' = (fd_view nconn st)((p, fd) \<mapsto> (f_oflag (v_filetab st ! k),
         write_pos (in_data (v_inodes st ! the (f_inode (v_filetab st ! k)))) (v_filetab st ! k) + c, in_num (v_inodes st ! the (f_inode (v_filetab st ! k)))))"
proof (cases "desc (v_procs st) p fd")
  case None
  with running_fd_file [OF run fd] run show thesis by (intro kept [of "Inl EBADF"]) (simp_all add: fs_write_def)
next
  case (Some k)
  obtain i where i: "k < length (v_filetab st)" "f_inode (v_filetab st ! k) = Some i" "0 \<le> f_pos (v_filetab st ! k)" by (rule running_desc [OF run fd Some])
  have ff: "fd_file st fd = Some (Some k)" using running_fd_file [OF run fd] Some by simp
  let ?f = "v_filetab st ! k" and ?d = "in_data (v_inodes st ! i)"
  show thesis
  proof (cases "ACCMODE (f_oflag ?f) = O_RDONLY \<or> n = 0")
    case True
    with run show thesis by (intro kept [of "if ACCMODE (f_oflag ?f) = O_RDONLY then Inl EBADF else Inr 0"]) (auto simp: fs_write_def ff Let_def)
  next
    case False
    then have nz: "n \<noteq> 0" and acc: "ACCMODE (f_oflag ?f) \<noteq> O_RDONLY" by auto
    note w = fs_write_eq [OF run fd Some i(2) err n nz acc]
    let ?st1 = "file_update k (\<lambda>f. f\<lparr>f_pos := write_pos ?d f\<rparr>) st"
    let ?num = "in_num (v_inodes st ! i)"
    have d1: "desc (v_procs ?st1) p fd = Some k" using Some by simp
    have st1: "?st1 = file_update k (\<lambda>f. f\<lparr>f_pos := write_pos ?d ?f\<rparr>) st" by (simp add: file_update_def)
    have v1: "fd_view nconn ?st1 = (fd_view nconn st)((p, fd) \<mapsto> (f_oflag ?f, write_pos ?d ?f, ?num))"
      unfolding st1 using seek_ok(2) [OF run fd Some w(2)] i(2) by simp
    have f1: "v_filetab ?st1 ! k = ?f\<lparr>f_pos := write_pos ?d ?f\<rparr>" using i(1) by simp
    show thesis
    proof (cases "S_ISBLK (i_mode ?d) \<and> dev_range ?d (write_pos ?d ?f) n")
      case True
      let ?ds = "disk_put (v_disk st) (nat (write_pos ?d ?f)) (take n buf)"
      have ds: "disks_ok ?ds" using running_disks [OF run] True n by (intro disk_put_ok) (simp_all add: dev_range_def)
      note r2 = running_disk [OF w(1) ds]
      have d2: "desc (v_procs (set_disk ?ds ?st1)) p fd = Some k" using Some by simp
      let ?st' = "file_update k (\<lambda>f. f\<lparr>f_pos := f_pos f + int n\<rparr>) (set_disk ?ds ?st1)"
      have "running R nconn p ?st'" "fd_view nconn ?st' = (fd_view nconn st)((p, fd) \<mapsto> (f_oflag ?f, write_pos ?d ?f + int n, ?num))"
        using advance_ok [OF r2(1) fd d2, of "int n"] i f1 by (simp_all add: r2(2) v1)
      moreover have "fs_write st fd buf n = Some (Inr (int n), ?st')" using w(3) True by simp
      ultimately show thesis using i Some by (intro moved [of k "int n" ?st', OF acc]) simp_all
    next
      case no: False
      show thesis
      proof (cases "S_ISBLK (i_mode ?d) \<or> S_ISREG (i_mode ?d)")
        case True
        then have "fs_write st fd buf n = Some (Inr 0, ?st1)" using w(3) no by auto
        then show thesis using w(1) v1 i Some by (intro moved [of k 0 ?st1, OF acc]) simp_all
      next
        case False
        let ?st' = "file_update k (\<lambda>f. f\<lparr>f_pos := f_pos f + 0\<rparr>) ?st1"
        have "fs_write st fd buf n = Some (Inr 0, ?st')" using False w(3) by auto
        moreover have "running R nconn p ?st'" by (rule advance_ok(1) [OF w(1) fd d1]) simp
        moreover have "fd_view nconn ?st' = (fd_view nconn st)((p, fd) \<mapsto> (f_oflag ?f, write_pos ?d ?f + 0, ?num))"
          using advance_ok(2) [OF w(1) fd d1, of 0] i f1 v1 by simp
        ultimately show thesis using i Some by (intro moved [of k 0 ?st', OF acc]) simp_all
      qed
    qed
  qed
qed

lemma fs_lseek_ok:
  assumes run: "running R nconn p st" and fd: "fd < NANVIX_OPEN_MAX"
  obtains (kept) e where "fs_lseek st fd offset whence = Some (Inl e, st)" "e = EBADF \<or> e = ESPIPE \<or> e = EINVAL"
  | (moved) k pos where "desc (v_procs st) p fd = Some k" "0 \<le> pos" "whence = SEEK_SET \<Longrightarrow> pos = offset"
      "whence = SEEK_CUR \<Longrightarrow> pos = f_pos (v_filetab st ! k) + offset" "fs_lseek st fd offset whence = Some (Inr pos, file_update k (\<lambda>f. f\<lparr>f_pos := pos\<rparr>) st)"
proof (cases "desc (v_procs st) p fd")
  case None
  with running_fd_file [OF run fd] show thesis by (intro kept [of EBADF]) (simp_all add: fs_lseek_def)
next
  case (Some k)
  obtain i where i: "f_inode (v_filetab st ! k) = Some i" "inode_disk_get st (Some i) = Some (in_data (v_inodes st ! i))" by (rule running_desc [OF run fd Some])
  let ?f = "v_filetab st ! k" and ?d = "in_data (v_inodes st ! i)"
  define target where "target = (if whence = SEEK_CUR then Some (f_pos ?f + offset) else if whence = SEEK_END then Some (uint (i_size ?d) + offset)
    else if whence = SEEK_SET then Some offset else None)"
  have ff: "fd_file st fd = Some (Some k)" using running_fd_file [OF run fd] Some by simp
  have eq: "fs_lseek st fd offset whence = (if S_ISFIFO (i_mode ?d) then Some (Inl ESPIPE, st) else case target of None \<Rightarrow> Some (Inl EINVAL, st)
      | Some pos \<Rightarrow> if pos < 0 then Some (Inl EINVAL, st) else Some (Inr pos, file_update k (\<lambda>f. f\<lparr>f_pos := pos\<rparr>) st))"
    by (simp add: fs_lseek_def ff i target_def Let_def)
  consider (pipe) "S_ISFIFO (i_mode ?d)" | (none) "\<not> S_ISFIFO (i_mode ?d)" "target = None"
    | (neg) pos where "\<not> S_ISFIFO (i_mode ?d)" "target = Some pos" "pos < 0"
    | (ok) pos where "\<not> S_ISFIFO (i_mode ?d)" "target = Some pos" "0 \<le> pos" by (cases target) fastforce+
  then show thesis
  proof cases
    case (ok pos)
    then show thesis by (intro moved [OF Some, of pos]) (auto simp: eq target_def SEEK_SET_def SEEK_CUR_def SEEK_END_def split: if_splits)
  qed (intro kept [of "if S_ISFIFO (i_mode ?d) then ESPIPE else EINVAL"]; simp add: eq)+
qed

section \<open>Calls of a connection\<close>

lemma launch_ok:
  assumes inv: "vfs_inv R nconn st" and c: "0 \<le> c" "c < int nconn"
  obtains st1 where "fprocess_launch nconn st c = (Inr 0, st1)" "running R nconn (nat c) st1" "errcode (v_procs st1 ! nat c) = None"
    "fd_view nconn st1 = fd_view nconn st" "v_inodes st1 = v_inodes st" "v_fs st1 = v_fs st" "v_disk st1 = v_disk st" "v_filetab st1 = v_filetab st"
    "\<And>p fd. p < nconn \<Longrightarrow> desc (v_procs st1) p fd = desc (v_procs st) p fd" "\<And>p. p < nconn \<Longrightarrow> root (v_procs st1 ! p) = root (v_procs st ! p)"
    "\<And>s imap bmap r. mounted st1 s imap bmap r \<longleftrightarrow> mounted st s imap bmap r"
proof -
  obtain s imap bmap r where i: "mounted st s imap bmap r" "itab_ok R (v_inodes st)" "procs_ok nconn (v_procs st) (Some r)"
    "desc_ok nconn (v_procs st) (v_filetab st)" "files_ok (v_filetab st) (Some r) (icount st)"
    by (rule vfs_invE [OF inv])
  let ?p = "nat c"
  let ?ps = "(v_procs st)[?p := (v_procs st ! ?p)\<lparr>errcode := None\<rparr>]"
  let ?st = "st\<lparr>v_curr := Some ?p, v_procs := ?ps\<rparr>"
  note P = procs_okD [OF i(3)]
  have p: "?p < nconn" using c by simp
  have same: "same_procs ?ps (v_procs st)" using p P(1) by (simp add: same_procs_def map_update list_update_same_conv)
  note pf = procs_frame [OF same P(1)]
  have m: "mounted ?st s' imap' bmap' r' \<longleftrightarrow> mounted st s' imap' bmap' r'" for s' imap' bmap' r' by (simp add: mounted_def)
  have inv': "vfs_inv R nconn ?st" by (rule vfs_invI [of _ s imap bmap r]) (use i pf m in simp_all)
  have d: "desc ?ps p fd = desc (v_procs st) p fd" "root (?ps ! p) = root (v_procs st ! p)" if "p < nconn" for p fd
    using same_procs_nth [OF same, of p] that P(1) by simp_all
  have view: "fd_view nconn ?st = fd_view nconn st" by (rule fd_view_cong [OF inv]) (use d in simp_all)
  show thesis
  proof (rule that [of ?st])
    show "fprocess_launch nconn st c = (Inr 0, ?st)" using c by (simp add: fprocess_launch_def Let_def)
    show "running R nconn ?p ?st" using inv' p by (simp add: running_def)
    show "errcode (v_procs ?st ! ?p) = None" using p P(1) by simp
  qed (use d view m in simp_all)
qed

lemma launch_bad: "\<not> (0 \<le> c \<and> c < int nconn) \<Longrightarrow> fprocess_launch nconn st c = (Inl EINVAL, st)"
  by (simp add: fprocess_launch_def)

lemma running_inv: "running R nconn p st \<Longrightarrow> vfs_inv R nconn st"
  by (simp add: running_def)

text \<open>
  What the calls do to the view: the specifications relate the view before, the result and the view after, for the
  process \<open>c\<close>, which is no process when the connection failed.
\<close>

definition proc_ok :: "nat \<Rightarrow> int \<Rightarrow> bool" where
  "proc_ok nconn c \<longleftrightarrow> 0 \<le> c \<and> c < int nconn"

definition open_spec :: "nat \<Rightarrow> int \<Rightarrow> 32 word \<Rightarrow> fd_map \<Rightarrow> int result \<Rightarrow> fd_map \<Rightarrow> bool" where
  "open_spec nconn c oflag v r v' \<longleftrightarrow> (case r of
     Inl e \<Rightarrow> v' = v
   | Inr x \<Rightarrow> \<exists>fd num. x = int fd \<and> fd < NANVIX_OPEN_MAX \<and> proc_ok nconn c \<and> v (nat c, fd) = None \<and> (\<forall>j<fd. v (nat c, j) \<noteq> None) \<and>
       v' = v((nat c, fd) \<mapsto> (oflag, 0, num)))"

definition close_spec :: "nat \<Rightarrow> int \<Rightarrow> int \<Rightarrow> fd_map \<Rightarrow> int result \<Rightarrow> fd_map \<Rightarrow> bool" where
  "close_spec nconn c fd v r v' \<longleftrightarrow>
     (if proc_ok nconn c \<and> fd_within fd \<and> v (nat c, nat fd) \<noteq> None
      then v' = v((nat c, nat fd) := None) \<and> (r = Inr 0 \<or> r = Inl ENOTSUP)
      else v' = v \<and> (r = Inl EINVAL \<or> r = Inl EBADF))"

definition read_spec :: "nat \<Rightarrow> int \<Rightarrow> int \<Rightarrow> nat \<Rightarrow> fd_map \<Rightarrow> int result \<Rightarrow> fd_map \<Rightarrow> bool" where
  "read_spec nconn c fd n v r v' \<longleftrightarrow> (case r of
     Inl e \<Rightarrow> v' = v
   | Inr m \<Rightarrow> (m = 0 \<or> m = int n) \<and> proc_ok nconn c \<and> fd_within fd \<and> (\<exists>fl pos num. v (nat c, nat fd) = Some (fl, pos, num) \<and> ACCMODE fl \<noteq> O_WRONLY \<and>
       v' = v((nat c, nat fd) \<mapsto> (fl, pos + m, num))))"

definition write_spec :: "nat \<Rightarrow> int \<Rightarrow> int \<Rightarrow> nat \<Rightarrow> fd_map \<Rightarrow> int result \<Rightarrow> fd_map \<Rightarrow> bool" where
  "write_spec nconn c fd n v r v' \<longleftrightarrow> (case r of
     Inl e \<Rightarrow> v' = v
   | Inr m \<Rightarrow> (m = 0 \<or> m = int n) \<and> proc_ok nconn c \<and> fd_within fd \<and> (\<exists>fl pos base num. v (nat c, nat fd) = Some (fl, pos, num) \<and> ACCMODE fl \<noteq> O_RDONLY \<and>
       0 \<le> base \<and> (fl AND O_APPEND = 0 \<longrightarrow> base = pos) \<and> v' = v((nat c, nat fd) \<mapsto> (fl, base + m, num))))"

definition seek_spec :: "nat \<Rightarrow> int \<Rightarrow> int \<Rightarrow> int \<Rightarrow> int \<Rightarrow> fd_map \<Rightarrow> int result \<Rightarrow> fd_map \<Rightarrow> bool" where
  "seek_spec nconn c fd offset whence v r v' \<longleftrightarrow> (case r of
     Inl e \<Rightarrow> v' = v
   | Inr pos \<Rightarrow> 0 \<le> pos \<and> proc_ok nconn c \<and> fd_within fd \<and> (\<exists>fl old num. v (nat c, nat fd) = Some (fl, old, num) \<and>
       (whence = SEEK_SET \<longrightarrow> pos = offset) \<and> (whence = SEEK_CUR \<longrightarrow> pos = old + offset) \<and> v' = v((nat c, nat fd) \<mapsto> (fl, pos, num))))"

lemmas fd_specs = open_spec_def close_spec_def read_spec_def write_spec_def seek_spec_def

lemma fd_view_desc:
  "p < nconn \<Longrightarrow> fd < NANVIX_OPEN_MAX \<Longrightarrow> fd_view nconn st (p, fd) =
     map_option (\<lambda>k. (f_oflag (v_filetab st ! k), f_pos (v_filetab st ! k), in_num (v_inodes st ! the (f_inode (v_filetab st ! k))))) (desc (v_procs st) p fd)"
  by (simp add: fd_view_def Let_def)

lemma running_bound: "running R nconn p st \<Longrightarrow> p < nconn"
  by (simp add: running_def)

lemma vfs_open_refines:
  assumes "resource_laws R" "vfs_inv R nconn st" "NUL \<notin> set nm"
  shows "\<exists>r st'. vfs_open R nconn st c (Some nm) oflag mode = Some (r, st') \<and> vfs_inv R nconn st' \<and>
    open_spec nconn c oflag (fd_view nconn st) r (fd_view nconn st')"
proof (cases "proc_ok nconn c")
  case False
  with assms show ?thesis by (simp add: vfs_open_def launch_bad proc_ok_def fd_specs)
next
  case True
  then have c: "0 \<le> c" "c < int nconn" by (auto simp: proc_ok_def)
  obtain st1 where l: "fprocess_launch nconn st c = (Inr 0, st1)" "running R nconn (nat c) st1" "fd_view nconn st1 = fd_view nconn st"
    by (rule launch_ok [OF assms(2) c])
  obtain s imap bmap r where m: "mounted st1 s imap bmap r" using running_inv [OF l(2)] by (auto simp: vfs_inv_def)
  have eq: "vfs_open R nconn st c (Some nm) oflag mode = fs_open R st1 (Some nm) oflag mode" by (simp add: vfs_open_def l(1))
  have np: "nat c < nconn" using c by simp
  from assms(1) l(2) assms(3) m show ?thesis
  proof (cases rule: fs_open_ok [where oflag = oflag and mode = mode])
    case (opened fd k i st')
    have v: "fd_view nconn st (nat c, fd) = None" "\<forall>j<fd. fd_view nconn st (nat c, j) \<noteq> None"
      using opened(3-5) np unfolding l(3) [symmetric] by (simp_all add: fd_view_desc)
    have "open_spec nconn c oflag (fd_view nconn st) (Inr (int fd)) (fd_view nconn st')"
      using v opened(3,6) True unfolding open_spec_def l(3) by auto
    with opened(1) eq running_inv [OF opened(2)] show ?thesis by auto
  next
    case (refused e st')
    with eq l(3) running_inv [OF refused(2)] show ?thesis by (auto simp: open_spec_def)
  qed
qed

lemma vfs_close_refines:
  assumes "resource_laws R" "vfs_inv R nconn st"
  shows "\<exists>r st'. vfs_close R nconn st c fd = Some (r, st') \<and> vfs_inv R nconn st' \<and> close_spec nconn c fd (fd_view nconn st) r (fd_view nconn st')"
proof (cases "proc_ok nconn c \<and> fd_within fd")
  case False
  with assms show ?thesis by (auto simp: vfs_close_def launch_bad proc_ok_def fd_specs)
next
  case True
  then have c: "0 \<le> c" "c < int nconn" and fd: "fd_within fd" "nat fd < NANVIX_OPEN_MAX" by (auto simp: fd_within_def proc_ok_def)
  obtain st1 where l: "fprocess_launch nconn st c = (Inr 0, st1)" "running R nconn (nat c) st1" "fd_view nconn st1 = fd_view nconn st"
    by (rule launch_ok [OF assms(2) c])
  obtain s imap bmap r where m: "mounted st1 s imap bmap r" using running_inv [OF l(2)] by (auto simp: vfs_inv_def)
  have eq: "vfs_close R nconn st c fd = fs_close R st1 (nat fd)" by (simp add: vfs_close_def l(1) fd(1))
  have d: "fd_view nconn st (nat c, nat fd) \<noteq> None \<longleftrightarrow> desc (v_procs st1) (nat c) (nat fd) \<noteq> None"
    unfolding l(3) [symmetric] using running_bound [OF l(2)] fd(2) by (simp add: fd_view_desc)
  from assms(1) l(2) fd(2) m show ?thesis
  proof (cases rule: fs_close_ok)
    case (bad st')
    with eq l(3) running_inv [OF bad(2)] show ?thesis by (simp add: close_spec_def)
  next
    case (closed k i m st')
    with eq l(3) d True running_inv [OF closed(2)] show ?thesis by (simp add: close_spec_def)
  next
    case (unsupported k i st')
    with eq l(3) d True running_inv [OF unsupported(2)] show ?thesis by (simp add: close_spec_def)
  qed
qed

lemma vfs_read_refines:
  assumes "vfs_inv R nconn st"
  shows "\<exists>r b st'. vfs_read nconn st c fd False n = Some (r, b, st') \<and> vfs_inv R nconn st' \<and> (\<forall>x. b = Some x \<longrightarrow> length x = n) \<and>
    v_disk st' = v_disk st \<and> read_spec nconn c fd n (fd_view nconn st) r (fd_view nconn st')"
proof (cases "proc_ok nconn c \<and> fd_within fd")
  case False
  with assms show ?thesis by (auto simp: vfs_read_def launch_bad proc_ok_def fd_specs)
next
  case True
  then have c: "0 \<le> c" "c < int nconn" and fd: "fd_within fd" "nat fd < NANVIX_OPEN_MAX" by (auto simp: fd_within_def proc_ok_def)
  obtain st1 where l: "fprocess_launch nconn st c = (Inr 0, st1)" "running R nconn (nat c) st1" "errcode (v_procs st1 ! nat c) = None"
    "v_disk st1 = v_disk st" "fd_view nconn st1 = fd_view nconn st"
    by (rule launch_ok [OF assms c])
  note view = fd_view_desc [OF running_bound [OF l(2)] fd(2), of st1]
  have eq: "vfs_read nconn st c fd False n = fs_read st1 (nat fd) n" using fd(1) l(1) by (simp add: vfs_read_def)
  from l(2) fd(2) l(3) show ?thesis
  proof (cases rule: fs_read_ok [where n = n])
    case (kept r)
    have "read_spec nconn c fd n (fd_view nconn st) r (fd_view nconn st1)"
      using kept(2,3) True view unfolding l(5) by (auto simp: read_spec_def map_upd_triv)
    with l eq kept(1) running_inv [OF l(2)] show ?thesis by simp
  next
    case (transfer k i)
    let ?st' = "file_update k (\<lambda>f. f\<lparr>f_pos := f_pos f + int n\<rparr>) st1"
    note a = advance_ok [OF l(2) fd(2) transfer(1), of "int n"]
    have "read_spec nconn c fd n (fd_view nconn st) (Inr (int n)) (fd_view nconn ?st')"
      using transfer(1,3) True view a(2) unfolding l(5) by (auto simp: read_spec_def)
    with transfer(4,5) l eq a(1) running_disks [OF l(2)] show ?thesis by (auto simp: dev_range_def dest: running_inv)
  qed
qed

lemma vfs_write_refines:
  assumes "vfs_inv R nconn st" "n \<le> length buf" "n \<noteq> 0"
  shows "\<exists>r st'. vfs_write nconn st c fd (Some buf) n = Some (r, st') \<and> vfs_inv R nconn st' \<and> write_spec nconn c fd n (fd_view nconn st) r (fd_view nconn st')"
proof (cases "proc_ok nconn c \<and> fd_within fd")
  case False
  with assms show ?thesis by (auto simp: vfs_write_def launch_bad proc_ok_def fd_specs)
next
  case True
  then have c: "0 \<le> c" "c < int nconn" and fd: "fd_within fd" "nat fd < NANVIX_OPEN_MAX" by (auto simp: fd_within_def proc_ok_def)
  obtain st1 where l: "fprocess_launch nconn st c = (Inr 0, st1)" "running R nconn (nat c) st1" "errcode (v_procs st1 ! nat c) = None"
    "fd_view nconn st1 = fd_view nconn st"
    by (rule launch_ok [OF assms(1) c])
  note view = fd_view_desc [OF running_bound [OF l(2)] fd(2), of st1]
  have eq: "vfs_write nconn st c fd (Some buf) n = fs_write st1 (nat fd) buf n" using fd(1) l(1) by (simp add: vfs_write_def)
  from l(2) fd(2) l(3) assms(2) show ?thesis
  proof (cases rule: fs_write_ok)
    case (kept r)
    with eq running_inv [OF l(2)] l(4) assms(3) show ?thesis by (simp add: write_spec_def)
  next
    case (moved m k st')
    let ?f = "v_filetab st1 ! k" and ?d = "in_data (v_inodes st1 ! the (f_inode (v_filetab st1 ! k)))"
    have "0 \<le> write_pos ?d ?f" "f_oflag ?f AND O_APPEND = 0 \<longrightarrow> write_pos ?d ?f = f_pos ?f"
      using running_desc [OF l(2) fd(2) moved(5)] by (auto simp: write_pos_def)
    then have "write_spec nconn c fd n (fd_view nconn st) (Inr m) (fd_view nconn st')"
      using moved(1,4-6) True view unfolding l(4) by (auto simp: write_spec_def)
    with eq moved(2) running_inv [OF moved(3)] show ?thesis by simp
  qed
qed

lemma vfs_seek_refines:
  assumes "vfs_inv R nconn st"
  shows "\<exists>r st'. vfs_seek nconn st c fd offset whence = Some (r, st') \<and> vfs_inv R nconn st' \<and>
    seek_spec nconn c fd offset whence (fd_view nconn st) r (fd_view nconn st')"
proof (cases "proc_ok nconn c \<and> fd_within fd")
  case False
  with assms show ?thesis by (auto simp: vfs_seek_def launch_bad proc_ok_def fd_specs)
next
  case True
  then have c: "0 \<le> c" "c < int nconn" and fd: "fd_within fd" "nat fd < NANVIX_OPEN_MAX" by (auto simp: fd_within_def proc_ok_def)
  obtain st1 where l: "fprocess_launch nconn st c = (Inr 0, st1)" "running R nconn (nat c) st1" "fd_view nconn st1 = fd_view nconn st"
    by (rule launch_ok [OF assms c])
  note view = fd_view_desc [OF running_bound [OF l(2)] fd(2), of st1]
  have eq: "vfs_seek nconn st c fd offset whence = fs_lseek st1 (nat fd) offset whence" using fd(1) l(1) by (simp add: vfs_seek_def)
  from l(2) fd(2) show ?thesis
  proof (cases rule: fs_lseek_ok [where offset = offset and whence = whence])
    case (kept e)
    with l(3) eq running_inv [OF l(2)] show ?thesis by (simp add: seek_spec_def)
  next
    case (moved k pos)
    note a = seek_ok [OF l(2) fd(2) moved(1,2)]
    have "seek_spec nconn c fd offset whence (fd_view nconn st) (Inr pos) (fd_view nconn (file_update k (\<lambda>f. f\<lparr>f_pos := pos\<rparr>) st1))"
      using moved(1-4) True view a(2) unfolding l(3) by (auto simp: seek_spec_def)
    with eq moved(5) running_inv [OF a(1)] show ?thesis by simp
  qed
qed

section \<open>Start-up and shutdown\<close>

text \<open>
  The state of the program as it is loaded: tables of zeroes, in which no inode is in use, no descriptor is open and no
  process has a root.
\<close>

definition vfs_zeroed :: "'r resource_ops \<Rightarrow> nat \<Rightarrow> 'r vfs \<Rightarrow> bool" where
  "vfs_zeroed R nconn st \<longleftrightarrow>
     length (v_inodes st) = NANVIX_INODES_TABLE_LENGTH \<and> (\<forall>n\<in>set (v_inodes st). in_count n = 0 \<and> \<not> resource_is_used R (in_resource n)) \<and>
     length (v_filetab st) = NANVIX_NR_FILES \<and> length (v_procs st) = nconn \<and>
     (\<forall>q\<in>set (v_procs st). root q = None \<and> ofiles q = replicate NANVIX_OPEN_MAX None) \<and> length (v_disk st) = NANVIX_NR_RAMDISKS"

definition booted :: "64 word \<Rightarrow> 16 word \<Rightarrow> nat \<Rightarrow> nat \<Rightarrow> 'r vfs \<Rightarrow> bool" where
  "booted t2 junk nproc nconn st \<longleftrightarrow> (\<exists>imap bmap r. mounted st (boot_fs junk) imap bmap r \<and>
     fresh_fs t2 (boot_fs junk) imap bmap (in_data (v_inodes st ! r)) (v_disk st) \<and> icount st r = 1 \<and>
     (\<forall>i<NANVIX_INODES_TABLE_LENGTH. i \<noteq> r \<longrightarrow> icount st i = 0) \<and> (\<forall>p<min nproc nconn. root (v_procs st ! p) = Some r)) \<and>
     fd_view nconn st = Map.empty \<and> (\<forall>k<NANVIX_NR_FILES. f_count (v_filetab st ! k) = 0)"

lemma held_zero: "(\<And>f. f \<in> set ft \<Longrightarrow> f_count f = 0) \<Longrightarrow> held ft i = 0"
  by (induction ft) (auto simp: held_def file_on_def)

lemma fs_init_ok:
  assumes R: "resource_laws R" and z: "vfs_zeroed R nconn st" and mem: "umalloc_ok SUPERBLOCK_SIZE" "umalloc_ok MINIX_BLOCK_SIZE"
  obtains imap bmap r st' where "fs_init R umalloc_ok SUPERBLOCK_SIZE t1 t2 junk st = Some st'" "mounted st' (boot_fs junk) imap bmap r"
    "fresh_fs t2 (boot_fs junk) imap bmap (in_data (v_inodes st' ! r)) (v_disk st')" "itab_ok R (v_inodes st')" "icount st' r = 1"
    "\<And>i. i < NANVIX_INODES_TABLE_LENGTH \<Longrightarrow> i \<noteq> r \<Longrightarrow> icount st' i = 0" "v_procs st' = v_procs st"
    "v_filetab st' = map (\<lambda>f. f\<lparr>f_oflag := 0, f_count := 0, f_pos := 0, f_inode := None\<rparr>) (v_filetab st)" "v_curr st' = v_curr st"
proof -
  let ?s = "boot_fs junk"
  note Z = z [unfolded vfs_zeroed_def]
  define st2 where "st2 = (set_disk (ramdisk_init (v_disk st)) st)\<lparr>v_cache := binit R (v_cache (set_disk (ramdisk_init (v_disk st)) st))\<rparr>"
  have s2: "v_inodes st2 = v_inodes st" "v_filetab st2 = v_filetab st" "v_procs st2 = v_procs st" "v_curr st2 = v_curr st"
    "v_disk st2 = ramdisk_init (v_disk st)" by (simp_all add: st2_def v_disk_def set_disk_def binit_def)
  have "disks_ok (v_disk st2)" using Z by (simp add: s2 disks_ok_init)
  then obtain ds imap bmap root where b: "minix_mkfs umalloc_ok t1 t2 junk (v_disk st2) 0 64 64 0 0 = Some (Inr 0, ds)"
    "minix_mount umalloc_ok ds 0 True = Inr (?s, imap, bmap)" "fresh_fs t2 ?s imap bmap root ds"
    using mkfs_boot [where umalloc_ok = umalloc_ok and s = ?s, OF _ mem(2)] by blast
  define st4 where "st4 = (set_disk ds st2)\<lparr>v_fs := (v_fs st2)\<lparr>fs_dev := 0, fs_super := Some \<lparr>sb_data = ?s, sb_imap = Some imap, sb_bmap = Some bmap\<rparr>\<rparr>\<rparr>"
  have s4: "v_inodes st4 = v_inodes st" "v_disk st4 = ds" "v_procs st4 = v_procs st" "v_filetab st4 = v_filetab st" "v_curr st4 = v_curr st"
    "fs_super (v_fs st4) = Some \<lparr>sb_data = ?s, sb_imap = Some imap, sb_bmap = Some bmap\<rparr>" "fs_dev (v_fs st4) = 0"
    by (simp_all add: st4_def s2)
  have fs4: "(v_fs st4)\<lparr>fs_root := q\<rparr> = \<lparr>fs_dev = 0, fs_root = q, fs_super = Some \<lparr>sb_data = ?s, sb_imap = Some imap, sb_bmap = Some bmap\<rparr>\<rparr>" for q
    by (cases "v_fs st2") (simp add: st4_def)
  have unused: "\<not> resource_is_used R (in_resource (v_inodes st ! i))" "icount st i = 0" if "i < NANVIX_INODES_TABLE_LENGTH" for i
    using Z that by simp_all
  have "resource_alloc R (map in_resource (v_inodes st)) \<noteq> None"
    using resource_alloc_NoneD [OF R, of "map in_resource (v_inodes st)"] Z by (auto simp: vfs_consts dest!: nth_mem [of 0 "v_inodes st"])
  then obtain r fl where al: "resource_alloc R (map in_resource (v_inodes st)) = Some (r, fl)" by fastforce
  have r: "r < NANVIX_INODES_TABLE_LENGTH" "resource_is_used R fl" using resource_allocD [OF R al] Z by simp_all
  have rd: "minix_inode_read ds 0 (Some ?s) MINIX_INODE_ROOT = Inr root"
    using b(3) by (simp add: minix_inode_read_eq MINIX_INODE_ROOT_def fresh_fs_def)
  have miss: "first_index (\<lambda>n. resource_is_used R (in_resource n) \<and> in_dev n = fs_dev (v_fs st4) \<and> in_num n = MINIX_INODE_ROOT) (v_inodes st4) = None"
    using unused Z by (simp add: first_index_None_iff s4)
  let ?n = "(v_inodes st ! r)\<lparr>in_resource := fl, in_data := root, in_count := 1, in_num := MINIX_INODE_ROOT, in_dev := 0\<rparr>"
  let ?st5 = "inode_update r (\<lambda>n. n\<lparr>in_data := root, in_count := 1, in_num := MINIX_INODE_ROOT, in_dev := 0\<rparr>)
      (inode_update r (\<lambda>n. n\<lparr>in_resource := fl\<rparr>) st4)"
  have get: "inode_get R st4 True MINIX_INODE_ROOT = Some (Some r, ?st5)"
    using miss al rd s4 by (simp add: inode_get_def inode_read_def Let_def MINIX_INODE_ROOT_def vfs_consts)
  have n5: "v_inodes ?st5 = (v_inodes st)[r := ?n]" using r Z by (simp add: s4)
  let ?st = "?st5\<lparr>v_fs := (v_fs ?st5)\<lparr>fs_root := Some r\<rparr>, v_filetab := map (\<lambda>f. f\<lparr>f_oflag := 0, f_count := 0, f_pos := 0, f_inode := None\<rparr>) (v_filetab st)\<rparr>"
  have mk: "fs_make umalloc_ok t1 t2 junk st2 NANVIX_ROOT_DEV (of_nat NANVIX_NR_INODES) (of_nat (NANVIX_DISK_SIZE div NANVIX_FS_BLOCK_SIZE)) 0 0 =
      Some (Inr 0, set_disk ds st2)"
    using b(1) by (simp add: fs_make_def NANVIX_ROOT_DEV_def vfs_consts NANVIX_DISK_SIZE_def NANVIX_FS_BLOCK_SIZE_def)
  have mo: "fs_mount R umalloc_ok SUPERBLOCK_SIZE (set_disk ds st2) True NANVIX_ROOT_DEV = Some (Inr 0, ?st5\<lparr>v_fs := (v_fs ?st5)\<lparr>fs_root := Some r\<rparr>\<rparr>)"
    using mem(1) b(2) get by (simp add: fs_mount_def Let_def NANVIX_ROOT_DEV_def st4_def)
  have eq: "fs_init R umalloc_ok SUPERBLOCK_SIZE t1 t2 junk st = Some ?st"
    using mk mo by (simp add: fs_init_def Let_def st2_def [symmetric] s4)
  have D: "dir_wf ?s bmap root ds" "imap_wf ?s imap" using b(3) by (simp_all add: fresh_fs_def)
  have root: "v_inodes ?st ! r = ?n" using n5 r Z by simp
  show thesis
  proof (rule that [OF eq])
    show "mounted ?st ?s imap bmap r"
      using root r D dir_wfD(1) [OF D(1)] s4 fs4 by (simp add: mounted_def vfs_consts)
    show "fresh_fs t2 ?s imap bmap (in_data (v_inodes ?st ! r)) (v_disk ?st)" unfolding root using b(3) s4 by simp
    have dip: "inode_wf root" using dir_structD(4) [OF dir_wfD(1) [OF D(1)]] .
    have "itab_ok R (v_inodes st)" using Z unused by (simp add: itab_ok_def inode_ok_def)
    then have "itab_ok R ((v_inodes st)[r := ?n])"
      by (rule itab_update) (use Z unused r dip in \<open>simp_all add: inode_ok_def MINIX_INODE_ROOT_def vfs_consts\<close>)
    then show "itab_ok R (v_inodes ?st)" using n5 by simp
    show "icount ?st r = 1" unfolding root by simp
    show "icount ?st i = 0" if "i < NANVIX_INODES_TABLE_LENGTH" "i \<noteq> r" for i using that unused n5 by simp
  qed (use s4 in simp_all)
qed

lemma vfs_init_ok:
  assumes R: "resource_laws R" and z: "vfs_zeroed R nconn st" and mem: "umalloc_ok SUPERBLOCK_SIZE" "umalloc_ok MINIX_BLOCK_SIZE"
  shows "\<exists>st'. vfs_init R umalloc_ok SUPERBLOCK_SIZE t1 t2 junk nproc st = Some st' \<and> vfs_inv R nconn st' \<and> booted t2 junk nproc nconn st'"
proof -
  obtain imap bmap r st1 where i: "fs_init R umalloc_ok SUPERBLOCK_SIZE t1 t2 junk st = Some st1" "mounted st1 (boot_fs junk) imap bmap r"
    "fresh_fs t2 (boot_fs junk) imap bmap (in_data (v_inodes st1 ! r)) (v_disk st1)" "itab_ok R (v_inodes st1)" "icount st1 r = 1"
    "\<And>i. i < NANVIX_INODES_TABLE_LENGTH \<Longrightarrow> i \<noteq> r \<Longrightarrow> icount st1 i = 0" "v_procs st1 = v_procs st"
    "v_filetab st1 = map (\<lambda>f. f\<lparr>f_oflag := 0, f_count := 0, f_pos := 0, f_inode := None\<rparr>) (v_filetab st)" "v_curr st1 = v_curr st"
    by (rule fs_init_ok [where ?t1.0 = t1 and ?t2.0 = t2 and junk = junk, OF R z mem]) (rule that; assumption)
  note Z = z [unfolded vfs_zeroed_def]
  let ?g = "\<lambda>q. q\<lparr>errcode := None, pwd := Some r, root := Some r, ofiles := replicate NANVIX_OPEN_MAX None\<rparr>"
  let ?ps = "map ?g (take nproc (v_procs st)) @ drop nproc (v_procs st)"
  let ?st = "fprocess_init nproc st1"
  have st': "v_inodes ?st = v_inodes st1" "v_fs ?st = v_fs st1" "v_disk ?st = v_disk st1" "v_filetab ?st = v_filetab st1" "v_procs ?st = ?ps"
    using mountedD(2) [OF i(2)] i(7) by (simp_all add: fprocess_init_def Let_def)
  have ps: "ofiles (?ps ! p) = replicate NANVIX_OPEN_MAX None" "root (?ps ! p) = (if p < nproc then Some r else None)" if "p < nconn" for p
    using that Z by (auto simp: nth_append min_def)
  have len: "length ?ps = nconn" using Z by auto
  have cnt: "f_count (v_filetab st1 ! k) = 0" if "k < NANVIX_NR_FILES" for k using that Z i(8) by simp
  have m: "mounted ?st (boot_fs junk) imap bmap r" using i(2) st' by (simp add: mounted_def)
  have h: "held (v_filetab st1) j = 0" for j by (rule held_zero) (use i(8) in auto)
  have inv: "vfs_inv R nconn ?st"
  proof (rule vfs_invI [OF m])
    show "itab_ok R (v_inodes ?st)" using i(4) st' by simp
    show "procs_ok nconn (v_procs ?st) (Some r)" using ps len st'(5) by (simp add: procs_ok_def)
    show "desc_ok nconn (v_procs ?st) (v_filetab ?st)" using ps st'(5) by (simp add: desc_ok_def)
    show "files_ok (v_filetab ?st) (Some r) (icount ?st)"
      unfolding files_ok_def st'
      using cnt h Z i(5,6,8) by (auto simp: file_ok_def)
  qed
  have "fd_view nconn ?st = Map.empty" using ps st'(5) by (auto simp: fd_view_def fun_eq_iff)
  then have "booted t2 junk nproc nconn ?st" using m i(3,5,6) st' cnt ps(2) unfolding booted_def by auto
  with inv i(1) show ?thesis by (simp add: vfs_init_def)
qed

lemma vfs_shutdown_ok:
  assumes R: "resource_laws R" and inv: "vfs_inv R nconn st"
  shows "\<exists>st'. vfs_shutdown R st = Some st'"
proof -
  obtain s imap bmap r where i: "mounted st s imap bmap r" "itab_ok R (v_inodes st)" "procs_ok nconn (v_procs st) (Some r)"
    "desc_ok nconn (v_procs st) (v_filetab st)" "files_ok (v_filetab st) (Some r) (icount st)"
    by (rule vfs_invE [OF inv])
  note M = mountedD [OF i(1)]
  obtain m st1 where p: "inode_put R st True (Some r) = Some (Inr 0, st1)"
    "v_fs st1 = \<lparr>fs_dev = 0, fs_root = Some r, fs_super = Some \<lparr>sb_data = s, sb_imap = Some m, sb_bmap = Some bmap\<rparr>\<rparr>" "imap_wf s m"
    "v_disk st1 = disk_put (v_disk st) (ino_off s (in_num (v_inodes st ! r))) (enc_inode (in_data (v_inodes st ! r)))"
    by (rule inode_put_core [OF R i(2,1) M(6,7)]) (rule that; assumption)
  have D: "disks_ok (v_disk st)" "inode_wf (in_data (v_inodes st ! r))" "map_wf (s_bmap_nblocks s) bmap" "ino_ok s MINIX_INODE_ROOT"
    using dir_structD [OF M(9)] M(10) [of MINIX_INODE_ROOT] by (simp_all add: MINIX_INODE_ROOT_def vfs_consts)
  have dk: "disks_ok (v_disk st1)" unfolding p(4) M(8) by (rule inode_put_ok [OF D(1) M(4) D(4,2)])
  have "map_wf (s_imap_nblocks s) m" using p(3) by (simp add: imap_wf_def)
  then obtain ds where "minix_unmount (Some s) (Some m) (Some bmap) (v_disk st1) 0 = (Inr 0, ds)"
    using super_write_ok [OF M(4) _ D(3) dk] by (simp add: minix_unmount_def minix_sync_def)
  then show ?thesis using p(1,2) M(2) by (simp add: vfs_shutdown_def fs_shutdown_def fs_unmount_def Let_def)
qed

end
