(* ===== verification/VfsDisk.thy ===== *)
theory VfsDisk
  imports FileSys
begin

text \<open>
  What a client sees of the disk through an open descriptor of the block special file: reading and writing at a position,
  the transfers the device refuses, and what opening and closing do to the inode.
\<close>

text \<open>A descriptor of the disk that is open for reading and writing.\<close>

definition disk_fd :: "nat \<Rightarrow> 'r vfs \<Rightarrow> int \<Rightarrow> int \<Rightarrow> bool" where
  "disk_fd nconn st c fd \<longleftrightarrow> proc_ok nconn c \<and> fd_within fd \<and>
     (\<exists>k i. desc (v_procs st) (nat c) (nat fd) = Some k \<and> k < length (v_filetab st) \<and> f_inode (v_filetab st ! k) = Some i \<and>
        S_ISBLK (i_mode (in_data (v_inodes st ! i))) \<and> zone (in_data (v_inodes st ! i)) 0 = 0 \<and>
        ACCMODE (f_oflag (v_filetab st ! k)) \<noteq> O_RDONLY \<and> ACCMODE (f_oflag (v_filetab st ! k)) \<noteq> O_WRONLY \<and>
        f_oflag (v_filetab st ! k) AND O_APPEND = 0)"

definition fd_pos :: "nat \<Rightarrow> 'r vfs \<Rightarrow> int \<Rightarrow> int \<Rightarrow> int" where
  "fd_pos nconn st c fd = fst (snd (the (fd_view nconn st (nat c, nat fd))))"

lemma disk_fdE:
  assumes "vfs_inv R nconn st" "disk_fd nconn st c fd"
  obtains k i st1 where "fprocess_launch nconn st c = (Inr 0, st1)" "running R nconn (nat c) st1" "errcode (v_procs st1 ! nat c) = None"
    "nat fd < NANVIX_OPEN_MAX" "desc (v_procs st1) (nat c) (nat fd) = Some k" "k < length (v_filetab st1)" "f_inode (v_filetab st1 ! k) = Some i"
    "S_ISBLK (i_mode (in_data (v_inodes st1 ! i)))" "zone (in_data (v_inodes st1 ! i)) 0 = 0" "ACCMODE (f_oflag (v_filetab st1 ! k)) \<noteq> O_RDONLY"
    "ACCMODE (f_oflag (v_filetab st1 ! k)) \<noteq> O_WRONLY" "f_oflag (v_filetab st1 ! k) AND O_APPEND = 0" "v_disk st1 = v_disk st"
    "f_pos (v_filetab st1 ! k) = fd_pos nconn st c fd" "disk_fd nconn st1 c fd" "0 \<le> f_pos (v_filetab st1 ! k)" "fd_view nconn st1 = fd_view nconn st"
proof -
  have c: "0 \<le> c" "c < int nconn" "fd_within fd" "nat fd < NANVIX_OPEN_MAX" "nat c < nconn"
    using assms(2) by (auto simp: disk_fd_def proc_ok_def fd_within_def)
  obtain st1 where l: "fprocess_launch nconn st c = (Inr 0, st1)" "running R nconn (nat c) st1" "errcode (v_procs st1 ! nat c) = None"
    "fd_view nconn st1 = fd_view nconn st" "v_inodes st1 = v_inodes st" "v_fs st1 = v_fs st" "v_disk st1 = v_disk st" "v_filetab st1 = v_filetab st"
    "\<And>p fd. p < nconn \<Longrightarrow> desc (v_procs st1) p fd = desc (v_procs st) p fd"
    by (rule launch_ok [OF assms(1) c(1,2)]) (rule that; assumption)
  have d1: "disk_fd nconn st1 c fd" using assms(2) l(5,8) l(9) [OF c(5)] by (simp add: disk_fd_def)
  then obtain k i where k: "desc (v_procs st1) (nat c) (nat fd) = Some k" "k < length (v_filetab st1)" "f_inode (v_filetab st1 ! k) = Some i"
    "S_ISBLK (i_mode (in_data (v_inodes st1 ! i)))" "zone (in_data (v_inodes st1 ! i)) 0 = 0" "ACCMODE (f_oflag (v_filetab st1 ! k)) \<noteq> O_RDONLY"
    "ACCMODE (f_oflag (v_filetab st1 ! k)) \<noteq> O_WRONLY" "f_oflag (v_filetab st1 ! k) AND O_APPEND = 0"
    by (auto simp: disk_fd_def)
  have "0 \<le> f_pos (v_filetab st1 ! k)" by (rule running_desc [OF l(2) c(4) k(1)])
  moreover have "f_pos (v_filetab st1 ! k) = fd_pos nconn st c fd"
    using k(1) fd_view_desc [OF c(5,4), of st1] by (simp add: fd_pos_def l(4) [symmetric])
  ultimately show thesis using l k d1 c(4) by (intro that [of st1 k i]) simp_all
qed

text \<open>Changing a position or the contents of the disk leaves the descriptor one of the disk.\<close>

lemma disk_fd_update:
  "disk_fd nconn st c fd \<Longrightarrow> disk_fd nconn (file_update k (\<lambda>f. f\<lparr>f_pos := g f\<rparr>) st) c fd"
  "disk_fd nconn st c fd \<Longrightarrow> disk_fd nconn (set_disk ds st) c fd"
  by (cases "k < length (v_filetab st)"; auto simp: disk_fd_def nth_list_update list_update_beyond split: if_splits) (auto simp: disk_fd_def)

lemma blk_not_fifo: "S_ISBLK m \<Longrightarrow> \<not> S_ISFIFO m"
  by (simp add: mode_defs)

lemma fd_pos_desc:
  assumes "disk_fd nconn st c fd" "desc (v_procs st) (nat c) (nat fd) = Some k"
  shows "fd_pos nconn st c fd = f_pos (v_filetab st ! k)"
  using assms fd_view_desc [of "nat c" nconn "nat fd" st] by (auto simp: fd_pos_def disk_fd_def proc_ok_def fd_within_def)

lemma disk_seek:
  assumes "vfs_inv R nconn st" "disk_fd nconn st c fd" "0 \<le> off"
  obtains st' where "vfs_seek nconn st c fd off SEEK_SET = Some (Inr off, st')" "vfs_inv R nconn st'" "disk_fd nconn st' c fd"
    "fd_pos nconn st' c fd = off" "v_disk st' = v_disk st"
proof -
  have fd: "fd_within fd" using assms(2) by (simp add: disk_fd_def)
  obtain k i st1 where l: "fprocess_launch nconn st c = (Inr 0, st1)" "running R nconn (nat c) st1" "nat fd < NANVIX_OPEN_MAX"
    "desc (v_procs st1) (nat c) (nat fd) = Some k" "k < length (v_filetab st1)" "f_inode (v_filetab st1 ! k) = Some i"
    "S_ISBLK (i_mode (in_data (v_inodes st1 ! i)))" "v_disk st1 = v_disk st" "disk_fd nconn st1 c fd"
    by (rule disk_fdE [OF assms(1,2)]) (rule that; assumption)
  let ?st = "file_update k (\<lambda>f. f\<lparr>f_pos := off\<rparr>) st1"
  have dg: "inode_disk_get st1 (Some i) = Some (in_data (v_inodes st1 ! i))"
    by (rule running_desc [OF l(2-4)]) (use l(6) in simp)
  have "vfs_seek nconn st c fd off SEEK_SET = Some (Inr off, ?st)"
    using fd l(1,4,6) dg blk_not_fifo [OF l(7)] running_fd_file [OF l(2,3)] assms(3)
    by (simp add: vfs_seek_def fs_lseek_def Let_def SEEK_SET_def SEEK_CUR_def SEEK_END_def)
  moreover note s = seek_ok [OF l(2-4) assms(3)]
  ultimately show thesis using running_inv [OF s(1)] disk_fd_update(1) [OF l(9)] l(8) s(2) by (intro that [of ?st]) (simp_all add: fd_pos_def)
qed

lemma disk_write:
  assumes "vfs_inv R nconn st" "disk_fd nconn st c fd" "n \<le> length buf" "n \<noteq> 0"
  defines "pos \<equiv> fd_pos nconn st c fd"
  obtains st' where "vfs_inv R nconn st'" "disk_fd nconn st' c fd"
    "vfs_write nconn st c fd (Some buf) n =
      (if pos < int NANVIX_RAMDISK_SIZE \<and> pos + int n \<le> int NANVIX_RAMDISK_SIZE then Some (Inr (int n), st') else Some (Inr 0, st'))"
    "v_disk st' = (if pos < int NANVIX_RAMDISK_SIZE \<and> pos + int n \<le> int NANVIX_RAMDISK_SIZE then disk_put (v_disk st) (nat pos) (take n buf) else v_disk st)"
    "fd_pos nconn st' c fd = (if pos < int NANVIX_RAMDISK_SIZE \<and> pos + int n \<le> int NANVIX_RAMDISK_SIZE then pos + int n else pos)"
proof -
  have fd: "fd_within fd" using assms(2) by (simp add: disk_fd_def)
  obtain k i st1 where l: "fprocess_launch nconn st c = (Inr 0, st1)" "running R nconn (nat c) st1" "errcode (v_procs st1 ! nat c) = None"
    "nat fd < NANVIX_OPEN_MAX" "desc (v_procs st1) (nat c) (nat fd) = Some k" "f_inode (v_filetab st1 ! k) = Some i"
    "S_ISBLK (i_mode (in_data (v_inodes st1 ! i)))" "zone (in_data (v_inodes st1 ! i)) 0 = 0" "ACCMODE (f_oflag (v_filetab st1 ! k)) \<noteq> O_RDONLY"
    "f_oflag (v_filetab st1 ! k) AND O_APPEND = 0" "v_disk st1 = v_disk st" "f_pos (v_filetab st1 ! k) = fd_pos nconn st c fd" "disk_fd nconn st1 c fd"
    "0 \<le> f_pos (v_filetab st1 ! k)" "k < length (v_filetab st1)"
    by (rule disk_fdE [OF assms(1,2)]) (rule that; assumption)
  let ?f = "v_filetab st1 ! k" and ?d = "in_data (v_inodes st1 ! i)"
  have p: "f_pos ?f = pos" using l(12) by (simp add: pos_def)
  note w = fs_write_eq [OF l(2,4-6,3) assms(3,4) l(9)]
  have wp: "write_pos ?d ?f = pos" using l(10) p by (simp add: write_pos_def)
  have range: "dev_range ?d pos n \<longleftrightarrow> pos < int NANVIX_RAMDISK_SIZE \<and> pos + int n \<le> int NANVIX_RAMDISK_SIZE"
    using l(8,14) p by (auto simp: dev_range_def)
  let ?st1 = "file_update k (\<lambda>f. f\<lparr>f_pos := write_pos ?d f\<rparr>) st1"
  have d1: "disk_fd nconn ?st1 c fd" by (rule disk_fd_update(1) [OF l(13)])
  have eq: "vfs_write nconn st c fd (Some buf) n = fs_write st1 (nat fd) buf n" using fd l(1) by (simp add: vfs_write_def)
  show thesis
  proof (cases "dev_range ?d pos n")
    case True
    let ?ds = "disk_put (v_disk st) (nat pos) (take n buf)"
    let ?st = "file_update k (\<lambda>f. f\<lparr>f_pos := f_pos f + int n\<rparr>) (set_disk ?ds ?st1)"
    have ds: "disks_ok ?ds" using running_disks [OF l(2)] True assms(3) l(11) by (intro disk_put_ok) (simp_all add: dev_range_def)
    have d2: "desc (v_procs (set_disk ?ds ?st1)) (nat c) (nat fd) = Some k" using l(5) by simp
    have run: "running R nconn (nat c) ?st" by (rule advance_ok(1) [OF running_disk(1) [OF w(1) ds] l(4) d2]) simp
    have "vfs_write nconn st c fd (Some buf) n = Some (Inr (int n), ?st)" using eq w(3) l(7,11) True wp by simp
    moreover have d3: "disk_fd nconn ?st c fd" by (rule disk_fd_update(1) [OF disk_fd_update(2) [OF d1]])
    moreover have "fd_pos nconn ?st c fd = pos + int n" using fd_pos_desc [OF d3, of k] l(5,15) wp by simp
    ultimately show thesis
      using True range running_inv [OF run] by (intro that [of ?st]) simp_all
  next
    case False
    have "vfs_write nconn st c fd (Some buf) n = Some (Inr 0, ?st1)" using eq w(3) l(7) False wp by simp
    moreover have "fd_pos nconn ?st1 c fd = pos" using fd_pos_desc [OF d1, of k] l(5,15) wp by simp
    ultimately show thesis using False range running_inv [OF w(1)] d1 l(11) by (intro that [of ?st1]) auto
  qed
qed

lemma disk_read:
  assumes "vfs_inv R nconn st" "disk_fd nconn st c fd" "n \<noteq> 0"
  defines "pos \<equiv> fd_pos nconn st c fd"
  obtains st' where "vfs_inv R nconn st'" "disk_fd nconn st' c fd" "v_disk st' = v_disk st"
    "vfs_read nconn st c fd False n =
      (if pos < int NANVIX_RAMDISK_SIZE \<and> pos + int n \<le> int NANVIX_RAMDISK_SIZE then Some (Inr (int n), Some (disk_get (v_disk st) (nat pos) n), st')
       else Some (Inr 0, None, st'))"
    "fd_pos nconn st' c fd = (if pos < int NANVIX_RAMDISK_SIZE \<and> pos + int n \<le> int NANVIX_RAMDISK_SIZE then pos + int n else pos)"
proof -
  have fd: "fd_within fd" using assms(2) by (simp add: disk_fd_def)
  obtain k i st1 where l: "fprocess_launch nconn st c = (Inr 0, st1)" "running R nconn (nat c) st1" "errcode (v_procs st1 ! nat c) = None"
    "nat fd < NANVIX_OPEN_MAX" "desc (v_procs st1) (nat c) (nat fd) = Some k" "f_inode (v_filetab st1 ! k) = Some i"
    "S_ISBLK (i_mode (in_data (v_inodes st1 ! i)))" "zone (in_data (v_inodes st1 ! i)) 0 = 0" "ACCMODE (f_oflag (v_filetab st1 ! k)) \<noteq> O_WRONLY"
    "v_disk st1 = v_disk st" "f_pos (v_filetab st1 ! k) = fd_pos nconn st c fd" "disk_fd nconn st1 c fd" "0 \<le> f_pos (v_filetab st1 ! k)" "k < length (v_filetab st1)"
    by (rule disk_fdE [OF assms(1,2)]) (rule that; assumption)
  let ?d = "in_data (v_inodes st1 ! i)"
  have p: "f_pos (v_filetab st1 ! k) = pos" using l(11) by (simp add: pos_def)
  have dg: "inode_disk_get st1 (Some i) = Some ?d" by (rule running_desc [OF l(2,4,5)]) (use l(6) in simp)
  have range: "dev_range ?d pos n \<longleftrightarrow> pos < int NANVIX_RAMDISK_SIZE \<and> pos + int n \<le> int NANVIX_RAMDISK_SIZE"
    using l(8,13) p by (auto simp: dev_range_def)
  let ?st = "file_update k (\<lambda>f. f\<lparr>f_pos := f_pos f + int n\<rparr>) st1"
  have eq: "vfs_read nconn st c fd False n = fs_read st1 (nat fd) n" using fd l(1) by (simp add: vfs_read_def)
  have rd: "fs_read st1 (nat fd) n = (if dev_range ?d pos n then Some (Inr (int n), Some (disk_get (v_disk st) (nat pos) n), ?st) else Some (Inr 0, None, st1))"
    using l(5-7,9,10) p dg assms(3) running_fd_file [OF l(2,4)] errcode_none [OF l(2,3)] dev_read [OF l(13), of "v_disk st" ?d n]
    by (simp add: fs_read_def Let_def)
  have run: "running R nconn (nat c) ?st" by (rule advance_ok(1) [OF l(2,4,5)]) simp
  show thesis
  proof (cases "dev_range ?d pos n")
    case True
    have d: "disk_fd nconn ?st c fd" by (rule disk_fd_update(1) [OF l(12)])
    have "fd_pos nconn ?st c fd = pos + int n" using fd_pos_desc [OF d, of k] l(5,14) p by simp
    with eq rd range running_inv [OF run] d l(10) True show thesis by (intro that [of ?st]) simp_all
  next
    case False
    have "fd_pos nconn st1 c fd = pos" using fd_pos_desc [OF l(12,5)] p by simp
    with False eq rd range running_inv [OF l(2)] l(10,12) show thesis by (intro that [of st1]) auto
  qed
qed

section \<open>Opening by name\<close>

lemma vfs_open_dir:
  assumes R: "resource_laws R" and inv: "vfs_inv R nconn st" and m: "mounted st s imap bmap r"
    and dir: "dir_wf s bmap (in_data (v_inodes st ! r)) (v_disk st)" and c: "proc_ok nconn c" "root (v_procs st ! nat c) = Some r" and nm: "name_ok nm"
    and free: "fd < NANVIX_OPEN_MAX" "fd_view nconn st (nat c, fd) = None" "k < NANVIX_NR_FILES" "f_count (v_filetab st ! k) = 0"
      "i < NANVIX_INODES_TABLE_LENGTH" "icount st i = 0"
  defines "num \<equiv> dir_lookup (v_disk st) (in_data (v_inodes st ! r)) nm"
  shows "\<exists>ret st'. vfs_open R nconn st c (Some nm) oflag mode = Some (ret, st') \<and> vfs_inv R nconn st' \<and>
    (if num = None \<or> NANVIX_NR_INODES \<le> unat (the num) then ret = Inl ENOENT \<and> fd_view nconn st' = fd_view nconn st
     else if plain_file (i_mode (cur_inode st s (the num))) then ret = Inl ENOTSUP \<and> fd_view nconn st' = fd_view nconn st
     else \<exists>j\<le>fd. ret = Inr (int j) \<and> fd_view nconn st' = (fd_view nconn st)((nat c, j) \<mapsto> (oflag, 0, the num)))"
proof -
  have cc: "0 \<le> c" "c < int nconn" "nat c < nconn" using c(1) by (auto simp: proc_ok_def)
  obtain st1 where l: "fprocess_launch nconn st c = (Inr 0, st1)" "running R nconn (nat c) st1" "errcode (v_procs st1 ! nat c) = None"
    "fd_view nconn st1 = fd_view nconn st" "v_inodes st1 = v_inodes st" "v_fs st1 = v_fs st" "v_disk st1 = v_disk st" "v_filetab st1 = v_filetab st"
    "\<And>p fd. p < nconn \<Longrightarrow> desc (v_procs st1) p fd = desc (v_procs st) p fd" "\<And>p. p < nconn \<Longrightarrow> root (v_procs st1 ! p) = root (v_procs st ! p)"
    "\<And>s imap bmap r. mounted st1 s imap bmap r \<longleftrightarrow> mounted st s imap bmap r"
    by (rule launch_ok [OF inv cc(1,2)]) (rule that; assumption)
  let ?dip = "in_data (v_inodes st1 ! r)"
  have m1: "mounted st1 s imap bmap r" using m l(11) by simp
  have n0: "NUL \<notin> set nm" using nm by (simp add: name_ok_def)
  have eq: "vfs_open R nconn st c (Some nm) oflag mode = fs_open R st1 (Some nm) oflag mode" by (simp add: vfs_open_def l(1))
  have dir1: "dir_wf s bmap ?dip (v_disk st1)" using dir l(5,7) by simp
  have lk: "num = Some (d_ino (dirent_at (v_disk st1) ?dip j))" if "j < ents ?dip" "names (dirent_at (v_disk st1) ?dip j) nm" for j
    using dir_lookup_eq [OF dir1 that] l(5,7) by (simp add: num_def)
  have cur: "cur_inode st1 s x = cur_inode st s x" for x by (rule cur_inode_cong) (simp_all add: l)
  have nofd: "desc (v_procs st1) (nat c) fd = None" using free(1,2) fd_view_desc [OF cc(3) free(1), of st] l(9) [OF cc(3)] by simp
  from R l(2) n0 m1 show ?thesis
  proof (cases rule: fs_open_ok [where oflag = oflag and mode = mode])
    case (opened j e i2 st')
    note N = lk [OF opened(7,8)]
    have "unat (d_ino (dirent_at (v_disk st1) ?dip e)) < NANVIX_NR_INODES"
      using opened(2,10,11,14) itab_okD(1,2) [of R "v_inodes st1"] itab_okD(1,2) [of R "v_inodes st'"] running_inv [OF opened(2)] running_inv [OF l(2)]
      by (force simp: vfs_inv_def inode_ok_def)
    moreover have "\<not> plain_file (i_mode (cur_inode st s (the num)))" using opened(16,17,11) N cur by simp
    moreover have "j \<le> fd" using opened(5) nofd by (metis linorder_not_less)
    ultimately show ?thesis using eq opened(1,6) running_inv [OF opened(2)] N l(4) by auto
  next
    case (refused e st')
    have "e \<noteq> EMFILE" using refused(5) nofd free(1) by auto
    moreover have "e \<noteq> ENFILE" using refused(6) free(3,4) l(8) by auto
    ultimately have e: "e = ENOENT \<or> e = ENOTSUP" using refused(4) by auto
    have big: "num = None \<or> NANVIX_NR_INODES \<le> unat (the num)" if "e = ENOENT"
      using refused(7) [OF that] c(2) nm free(5,6) l(5,7) l(10) [OF cc(3)] lk by (auto simp: no_entry_def num_def)
    have small: "\<not> (num = None \<or> NANVIX_NR_INODES \<le> unat (the num)) \<and> plain_file (i_mode (cur_inode st s (the num)))" if sup: "e = ENOTSUP"
    proof -
      obtain j where j: "j < ents ?dip" "names (dirent_at (v_disk st1) ?dip j) nm" "unat (d_ino (dirent_at (v_disk st1) ?dip j)) < NANVIX_NR_INODES"
        "plain_file (i_mode (cur_inode st1 s (d_ino (dirent_at (v_disk st1) ?dip j))))"
        using refused(8) [OF sup] by blast
      show ?thesis using lk [OF j(1,2)] j(3,4) cur by simp
    qed
    show ?thesis using eq refused(1,3) running_inv [OF refused(2)] l(4) e big small by auto
  qed
qed

section \<open>After start-up\<close>

definition vfs_static :: "nat \<Rightarrow> flags vfs" where
  "vfs_static nconn =
     \<lparr>v_inodes = replicate NANVIX_INODES_TABLE_LENGTH \<lparr>in_resource = plain_clear, in_data = new_inode 0 0 0 0, in_dev = 0, in_num = 0, in_count = 0\<rparr>,
      v_filetab = replicate NANVIX_NR_FILES \<lparr>f_oflag = 0, f_count = 0, f_pos = 0, f_inode = None\<rparr>,
      v_procs = replicate nconn \<lparr>errcode = None, pwd = None, root = None, ofiles = replicate NANVIX_OPEN_MAX None\<rparr>,
      v_curr = None, v_fs = \<lparr>fs_dev = 0, fs_root = None, fs_super = None\<rparr>, v_cache = bc_static\<rparr>"

lemma vfs_static_zeroed: "vfs_zeroed plain_resource nconn (vfs_static nconn)"
  by (simp add: vfs_zeroed_def vfs_static_def v_disk_def bc_static_def plain_clear_def NANVIX_NR_RAMDISKS_def)

definition vfs_booted :: "flags vfs" where
  "vfs_booted = the (vfs_init plain_resource (\<lambda>n. n \<le> 4096) 64 0 0 0 2 (vfs_static 8))"

lemma vfs_booted_ok: "vfs_init plain_resource (\<lambda>n. n \<le> 4096) 64 0 0 0 2 (vfs_static 8) = Some vfs_booted" "vfs_inv plain_resource 8 vfs_booted" "booted 0 0 2 8 vfs_booted"
  using vfs_init_ok [OF plain_resource_laws vfs_static_zeroed, of "\<lambda>n. n \<le> 4096" 64 0 0 0 2 8] by (auto simp: vfs_booted_def MINIX_BLOCK_SIZE_def)

abbreviation O_RDWR :: "32 word" where "O_RDWR \<equiv> 2"

lemma ex_other_slot: "\<exists>i<NANVIX_INODES_TABLE_LENGTH. i \<noteq> r"
  by (rule exI [of _ "if r = 0 then 1 else 0"]) (simp add: vfs_consts)

lemma boot_disk_inode:
  assumes "booted t2 junk nproc nconn st" "vfs_inv R nconn st"
  shows "cur_inode st (boot_fs junk) 2 = new_inode (root_mode OR S_IFBLK) 0 0 t2"
proof -
  obtain imap bmap r where b: "mounted st (boot_fs junk) imap bmap r" "fresh_fs t2 (boot_fs junk) imap bmap (in_data (v_inodes st ! r)) (v_disk st)"
    "\<forall>i<NANVIX_INODES_TABLE_LENGTH. i \<noteq> r \<longrightarrow> icount st i = 0"
    using assms(1) by (auto simp: booted_def)
  have "in_num (v_inodes st ! i) \<noteq> 2" if "i < length (v_inodes st)" "0 < icount st i" for i
    using that b(3) mountedD(8) [OF b(1)] assms(2) by (cases "i = r") (auto simp: vfs_inv_def itab_ok_def MINIX_INODE_ROOT_def)
  then have "first_index (\<lambda>n. 0 < in_count n \<and> in_num n = 2) (v_inodes st) = None" by (auto simp: first_index_None_iff)
  with b(2) show ?thesis by (simp add: cur_inode_def fresh_fs_def)
qed

text \<open>The first open of the disk after start-up.\<close>

lemma boot_open:
  assumes R: "resource_laws R" and inv: "vfs_inv R nconn st" and b: "booted t2 junk nproc nconn st" and n: "0 < nproc" "0 < nconn"
  obtains st' imap bmap r k i where "vfs_open R nconn st 0 (Some ''disk'') O_RDWR 0 = Some (Inr 0, st')" "vfs_inv R nconn st'" "disk_fd nconn st' 0 0"
    "mounted st' (boot_fs junk) imap bmap r" "bits imap = {0, 1}" "dir_wf (boot_fs junk) bmap (in_data (v_inodes st' ! r)) (v_disk st')"
    "dir_lookup (v_disk st') (in_data (v_inodes st' ! r)) = boot_names" "desc (v_procs st') 0 0 = Some k" "f_inode (v_filetab st' ! k) = Some i"
    "icount st' i = 1" "in_num (v_inodes st' ! i) = 2" "in_data (v_inodes st' ! i) = new_inode (root_mode OR S_IFBLK) 0 0 t2" "fd_pos nconn st' 0 0 = 0"
proof -
  obtain imap bmap r where B: "mounted st (boot_fs junk) imap bmap r" "fresh_fs t2 (boot_fs junk) imap bmap (in_data (v_inodes st ! r)) (v_disk st)"
    "icount st r = 1" "\<forall>i<NANVIX_INODES_TABLE_LENGTH. i \<noteq> r \<longrightarrow> icount st i = 0" "\<forall>p<min nproc nconn. root (v_procs st ! p) = Some r"
    "fd_view nconn st = Map.empty" "\<forall>k<NANVIX_NR_FILES. f_count (v_filetab st ! k) = 0"
    using b by (auto simp: booted_def)
  have F: "bits imap = {0, 1}" "dir_wf (boot_fs junk) bmap (in_data (v_inodes st ! r)) (v_disk st)" "dir_lookup (v_disk st) (in_data (v_inodes st ! r)) = boot_names"
    using B(2) by (simp_all add: fresh_fs_def)
  have pos: "0 < int nconn" using n by simp
  obtain st1 where l: "fprocess_launch nconn st 0 = (Inr 0, st1)" "running R nconn (nat 0) st1" "errcode (v_procs st1 ! nat 0) = None"
    "fd_view nconn st1 = fd_view nconn st" "v_inodes st1 = v_inodes st" "v_fs st1 = v_fs st" "v_disk st1 = v_disk st" "v_filetab st1 = v_filetab st"
    "\<And>p fd. p < nconn \<Longrightarrow> desc (v_procs st1) p fd = desc (v_procs st) p fd" "\<And>p. p < nconn \<Longrightarrow> root (v_procs st1 ! p) = root (v_procs st ! p)"
    "\<And>s imap bmap r. mounted st1 s imap bmap r \<longleftrightarrow> mounted st s imap bmap r"
    by (rule launch_ok [OF inv order_refl pos]) (rule that; assumption)
  have nm: "NUL \<notin> set ''disk''" "name_ok ''disk''" by (simp_all add: name_ok_def MINIX_NAME_MAX_def)
  have m1: "mounted st1 (boot_fs junk) imap bmap r" using B(1) l(11) by simp
  have run: "running R nconn 0 st1" using l(2) by simp
  have eq: "vfs_open R nconn st 0 (Some ''disk'') O_RDWR 0 = fs_open R st1 (Some ''disk'') O_RDWR 0" by (simp add: vfs_open_def l(1))
  have cur: "cur_inode st1 (boot_fs junk) 2 = new_inode (root_mode OR S_IFBLK) 0 0 t2"
    using boot_disk_inode [OF b inv] cur_inode_cong [of st1 st] l(5,7) by simp
  have free: "desc (v_procs st1) 0 fd = None" if "fd < NANVIX_OPEN_MAX" for fd
    using B(6) l(9) [OF n(2)] fd_view_desc [OF n(2) that, of st] by simp
  have lk: "boot_names ''disk'' = Some 2" by (simp add: boot_names_def)
  have dip: "in_data (v_inodes st1 ! r) = in_data (v_inodes st ! r)" using l(5) by simp
  have two: "d_ino (dirent_at (v_disk st1) (in_data (v_inodes st1 ! r)) j) = 2"
    if "j < ents (in_data (v_inodes st1 ! r))" "names (dirent_at (v_disk st1) (in_data (v_inodes st1 ! r)) j) ''disk''" for j
    using dir_lookup_eq [OF F(2), of j "''disk''"] that F(3) lk dip l(7) by simp
  from R run nm(1) m1 show thesis
  proof (cases rule: fs_open_ok [where oflag = O_RDWR and mode = 0])
    case (opened fd e i st')
    have fd0: "fd = 0" using opened(5) [of 0] free by (cases fd) (auto simp: NANVIX_OPEN_MAX_def)
    have num: "in_num (v_inodes st' ! i) = 2" using opened(7,8,11) two by simp
    have dat: "in_data (v_inodes st' ! i) = new_inode (root_mode OR S_IFBLK) 0 0 t2" using opened(17) num cur by simp
    have ir: "i \<noteq> r" using num mountedD(8) [OF opened(12)] by (auto simp: MINIX_INODE_ROOT_def)
    have rt: "in_data (v_inodes st' ! r) = in_data (v_inodes st ! r)"
      using opened(12) m1 opened(19) ir l(5) by simp
    obtain k where k: "desc (v_procs st') 0 0 = Some k" "k < length (v_filetab st')" "v_filetab st' ! k = \<lparr>f_oflag = O_RDWR, f_count = 1, f_pos = 0, f_inode = Some i\<rparr>"
      using opened(18) fd0 by auto
    have "disk_fd nconn st' 0 0"
      using k dat n(2) root_mode_dir(2) by (auto simp: disk_fd_def proc_ok_def fd_within_def NANVIX_OPEN_MAX_def new_inode_def minix_consts
        ACCMODE_def O_ACCMODE_def O_RDONLY_def O_WRONLY_def O_APPEND_def)
    moreover have "icount st' i = 1" using opened(14) [of i] opened(10) B(4) ir l(5) by simp
    moreover have "fd_pos nconn st' 0 0 = 0" using opened(6) fd0 by (simp add: fd_pos_def)
    ultimately show thesis
      using that [of st' imap bmap r k i] eq opened(1,9,12) fd0 running_inv [OF opened(2)] F rt num dat k l(7) by simp
  next
    case (refused e st')
    have zero: "0 < NANVIX_OPEN_MAX" by (simp add: NANVIX_OPEN_MAX_def)
    have "e \<noteq> EMFILE" using refused(5) free [OF zero] zero by blast
    moreover have "0 < NANVIX_NR_FILES" by (simp add: NANVIX_NR_FILES_def)
    then have "e \<noteq> ENFILE" using refused(6) B(7) l(8) by metis
    moreover have "e \<noteq> ENOENT"
    proof
      assume "e = ENOENT"
      from refused(7) [OF this] show False
        using B(5) n l(5,7) l(10) [OF n(2)] nm(2) F(3) lk two dip B(4) ex_other_slot [of r] by (auto simp: no_entry_def NANVIX_NR_INODES_def)
    qed
    moreover have "e \<noteq> ENOTSUP"
    proof
      assume "e = ENOTSUP"
      from refused(8) [OF this] show False using two cur root_mode_dir(2) by (auto simp: plain_file_def new_inode_def)
    qed
    ultimately show thesis using refused(4) by blast
  qed
qed

definition vfs_opened :: "flags vfs" where
  "vfs_opened = snd (the (vfs_open plain_resource 8 vfs_booted 0 (Some ''disk'') O_RDWR 0))"

lemma vfs_opened_ok:
  obtains imap bmap r k i where "vfs_inv plain_resource 8 vfs_opened" "disk_fd 8 vfs_opened 0 0"
    "mounted vfs_opened (boot_fs 0) imap bmap r" "bits imap = {0, 1}" "dir_wf (boot_fs 0) bmap (in_data (v_inodes vfs_opened ! r)) (v_disk vfs_opened)"
    "dir_lookup (v_disk vfs_opened) (in_data (v_inodes vfs_opened ! r)) = boot_names" "desc (v_procs vfs_opened) 0 0 = Some k"
    "f_inode (v_filetab vfs_opened ! k) = Some i" "icount vfs_opened i = 1" "in_num (v_inodes vfs_opened ! i) = 2"
    "in_data (v_inodes vfs_opened ! i) = new_inode (root_mode OR S_IFBLK) 0 0 0" "fd_pos 8 vfs_opened 0 0 = 0"
proof -
  have n: "(0::nat) < 2" "(0::nat) < 8" by simp_all
  obtain st' imap bmap r k i where o: "vfs_open plain_resource 8 vfs_booted 0 (Some ''disk'') O_RDWR 0 = Some (Inr 0, st')" "vfs_inv plain_resource 8 st'" "disk_fd 8 st' 0 0"
    "mounted st' (boot_fs 0) imap bmap r" "bits imap = {0, 1}" "dir_wf (boot_fs 0) bmap (in_data (v_inodes st' ! r)) (v_disk st')"
    "dir_lookup (v_disk st') (in_data (v_inodes st' ! r)) = boot_names" "desc (v_procs st') 0 0 = Some k" "f_inode (v_filetab st' ! k) = Some i"
    "icount st' i = 1" "in_num (v_inodes st' ! i) = 2" "in_data (v_inodes st' ! i) = new_inode (root_mode OR S_IFBLK) 0 0 0" "fd_pos 8 st' 0 0 = 0"
    by (rule boot_open [OF plain_resource_laws vfs_booted_ok(2,3) n]) (rule that; assumption)
  then have "vfs_opened = st'" by (simp add: vfs_opened_def)
  with o(2-) show thesis by (intro that [of imap bmap r k i]) simp_all
qed

section \<open>Properties\<close>

text \<open>
  Start-up of the file system. From zeroed static storage, with an allocator that grants the sizes, \<open>vfs_init\<close> makes a file system on
  the disk, mounts it and returns; the state satisfies the invariant of the server, the root directory binds \<open>.\<close>, \<open>..\<close> and
  \<open>disk\<close>, the root is the only inode in memory, every process below \<open>NANVIX_PROC_MAX\<close> has it as root, and no descriptor is open.
\<close>

theorem vfs_boot_correct:
  assumes "resource_laws R" "vfs_zeroed R nconn st" "umalloc_ok SUPERBLOCK_SIZE" "umalloc_ok MINIX_BLOCK_SIZE"
  shows "\<exists>st'. vfs_init R umalloc_ok SUPERBLOCK_SIZE t1 t2 junk nproc st = Some st' \<and> vfs_inv R nconn st' \<and> booted t2 junk nproc nconn st'"
  using assms by (rule vfs_init_ok)

theorem vfs_boot_correct_witness:
  "\<exists>st'. vfs_init plain_resource (\<lambda>n. n \<le> 4096) 64 0 0 0 2 (vfs_static 8) = Some st' \<and> vfs_inv plain_resource 8 st' \<and> booted 0 0 2 8 st'"
  using vfs_boot_correct [OF plain_resource_laws vfs_static_zeroed, of "\<lambda>n. n \<le> 4096" 64 0 0 0 2 8] by (simp add: MINIX_BLOCK_SIZE_def)

text \<open>
  Opening by name. For a process that has the root directory, a legal name and a free descriptor, file and inode entry, \<open>vfs_open\<close>
  follows the directory: a name that is not bound gives \<open>ENOENT\<close>, a regular file or directory \<open>ENOTSUP\<close>, and any other inode is bound to
  the lowest free descriptor at position zero; all other descriptors of all processes stay as they are.
\<close>

theorem vfs_open_correct:
  assumes "resource_laws R" "vfs_inv R nconn st" "mounted st s imap bmap r" "dir_wf s bmap (in_data (v_inodes st ! r)) (v_disk st)"
    and "proc_ok nconn c" "root (v_procs st ! nat c) = Some r" "name_ok nm"
    and "fd < NANVIX_OPEN_MAX" "fd_view nconn st (nat c, fd) = None" "k < NANVIX_NR_FILES" "f_count (v_filetab st ! k) = 0"
    and "i < NANVIX_INODES_TABLE_LENGTH" "icount st i = 0" "num = dir_lookup (v_disk st) (in_data (v_inodes st ! r)) nm"
  shows "\<exists>ret st'. vfs_open R nconn st c (Some nm) oflag mode = Some (ret, st') \<and> vfs_inv R nconn st' \<and>
    (if num = None \<or> NANVIX_NR_INODES \<le> unat (the num) then ret = Inl ENOENT \<and> fd_view nconn st' = fd_view nconn st
     else if plain_file (i_mode (cur_inode st s (the num))) then ret = Inl ENOTSUP \<and> fd_view nconn st' = fd_view nconn st
     else \<exists>j\<le>fd. ret = Inr (int j) \<and> fd_view nconn st' = (fd_view nconn st)((nat c, j) \<mapsto> (oflag, 0, the num)))"
  unfolding assms(14) by (rule vfs_open_dir [OF assms(1-13)])

theorem vfs_open_correct_witness:
  "\<exists>st'. vfs_open plain_resource 8 vfs_booted 0 (Some ''disk'') O_RDWR 0 = Some (Inr 0, st') \<and> fd_view 8 st' = [(0, 0) \<mapsto> (O_RDWR, 0, 2)] \<and>
     (\<exists>st''. vfs_open plain_resource 8 vfs_booted 0 (Some ''none'') O_RDWR 0 = Some (Inl ENOENT, st''))"
proof -
  obtain imap bmap r where B: "mounted vfs_booted (boot_fs 0) imap bmap r"
    "fresh_fs 0 (boot_fs 0) imap bmap (in_data (v_inodes vfs_booted ! r)) (v_disk vfs_booted)"
    "\<forall>i<NANVIX_INODES_TABLE_LENGTH. i \<noteq> r \<longrightarrow> icount vfs_booted i = 0" "\<forall>p<min 2 8. root (v_procs vfs_booted ! p) = Some r"
    "fd_view 8 vfs_booted = Map.empty" "\<forall>k<NANVIX_NR_FILES. f_count (v_filetab vfs_booted ! k) = 0"
    using vfs_booted_ok(3) by (auto simp: booted_def)
  have F: "dir_wf (boot_fs 0) bmap (in_data (v_inodes vfs_booted ! r)) (v_disk vfs_booted)"
    "dir_lookup (v_disk vfs_booted) (in_data (v_inodes vfs_booted ! r)) = boot_names"
    using B(2) by (simp_all add: fresh_fs_def)
  obtain i where i: "i < NANVIX_INODES_TABLE_LENGTH" "icount vfs_booted i = 0" using ex_other_slot [of r] B(3) by blast
  have c: "proc_ok 8 0" "root (v_procs vfs_booted ! nat 0) = Some r" "name_ok ''disk''" "name_ok ''none''" "(0::nat) < NANVIX_OPEN_MAX"
    "fd_view 8 vfs_booted (nat 0, 0) = None" "(0::nat) < NANVIX_NR_FILES" "f_count (v_filetab vfs_booted ! 0) = 0"
    using B(4-6) by (simp_all add: proc_ok_def name_ok_def MINIX_NAME_MAX_def vfs_consts)
  note opn = vfs_open_correct [OF plain_resource_laws vfs_booted_ok(2) B(1) F(1) c(1,2) _ c(5-8) i refl, of _ O_RDWR 0]
  have np: "\<not> plain_file (i_mode (cur_inode vfs_booted (boot_fs 0) 2))"
    unfolding boot_disk_inode [OF vfs_booted_ok(3,2)] using root_mode_dir(2) by (simp add: plain_file_def new_inode_def)
  have "\<exists>st'. vfs_open plain_resource 8 vfs_booted 0 (Some ''disk'') O_RDWR 0 = Some (Inr 0, st') \<and> fd_view 8 st' = [(0, 0) \<mapsto> (O_RDWR, 0, 2)]"
    using opn [OF c(3)] np B(5) by (auto simp: F(2) boot_names_def NANVIX_NR_INODES_def)
  moreover have "\<exists>st'. vfs_open plain_resource 8 vfs_booted 0 (Some ''none'') O_RDWR 0 = Some (Inl ENOENT, st')"
    using opn [OF c(4)] by (auto simp: F(2) boot_names_def)
  ultimately show ?thesis by blast
qed

text \<open>
  C10. The disk stores what is written through a descriptor. After a seek to an offset, a write of \<open>n\<close> bytes that fit on the disk, and a
  seek back, a read of \<open>n\<close> bytes returns the bytes written; no other byte of the disk changed.
\<close>

theorem vfs_write_read_roundtrip:
  assumes "vfs_inv R nconn st" "disk_fd nconn st c fd" "0 < n" "n \<le> length buf" "off + n \<le> NANVIX_RAMDISK_SIZE"
  shows "\<exists>st1 st2 st3 st4. vfs_seek nconn st c fd (int off) SEEK_SET = Some (Inr (int off), st1) \<and>
    vfs_write nconn st1 c fd (Some buf) n = Some (Inr (int n), st2) \<and> vfs_seek nconn st2 c fd (int off) SEEK_SET = Some (Inr (int off), st3) \<and>
    vfs_read nconn st3 c fd False n = Some (Inr (int n), Some (take n buf), st4) \<and>
    (\<forall>o' m. o' + m \<le> NANVIX_RAMDISK_SIZE \<and> (o' + m \<le> off \<or> off + n \<le> o') \<longrightarrow> disk_get (v_disk st4) o' m = disk_get (v_disk st) o' m)"
proof -
  have ds: "disks_ok (v_disk st)" using assms(1) by (auto elim!: vfs_invE dest!: mountedD(9) dir_structD(3))
  have n: "n \<noteq> 0" and off: "0 \<le> int off" "off < NANVIX_RAMDISK_SIZE" "int off + int n \<le> int NANVIX_RAMDISK_SIZE" using assms(3,5) by linarith+
  obtain st1 where s1: "vfs_seek nconn st c fd (int off) SEEK_SET = Some (Inr (int off), st1)" "vfs_inv R nconn st1" "disk_fd nconn st1 c fd"
    "fd_pos nconn st1 c fd = int off" "v_disk st1 = v_disk st" by (rule disk_seek [OF assms(1,2) off(1)])
  let ?ds = "disk_put (v_disk st) off (take n buf)"
  obtain st2 where s2: "vfs_write nconn st1 c fd (Some buf) n = Some (Inr (int n), st2)" "vfs_inv R nconn st2" "disk_fd nconn st2 c fd" "v_disk st2 = ?ds"
    by (rule disk_write [OF s1(2,3) assms(4) n]) (use s1(4,5) off in simp)
  obtain st3 where s3: "vfs_seek nconn st2 c fd (int off) SEEK_SET = Some (Inr (int off), st3)" "vfs_inv R nconn st3" "disk_fd nconn st3 c fd"
    "fd_pos nconn st3 c fd = int off" "v_disk st3 = v_disk st2" by (rule disk_seek [OF s2(2,3) off(1)])
  obtain st4 where s4: "vfs_read nconn st3 c fd False n = Some (Inr (int n), Some (disk_get (v_disk st3) off n), st4)" "v_disk st4 = v_disk st3"
    by (rule disk_read [OF s3(2,3) n]) (use s3(4) off in simp)
  have "disk_get ?ds off n = take n buf" using ds assms(4,5) by (intro disk_get_put_same) simp_all
  moreover have "disk_get ?ds o' m = disk_get (v_disk st) o' m" if "o' + m \<le> NANVIX_RAMDISK_SIZE \<and> (o' + m \<le> off \<or> off + n \<le> o')" for o' m
    using that ds assms(4,5) by (intro disk_get_put_other) auto
  ultimately show ?thesis using s1 s2 s3 s4 by simp
qed

theorem vfs_write_read_roundtrip_witness:
  "\<exists>st1 st2 st3 st4. vfs_seek 8 vfs_opened 0 0 40000 SEEK_SET = Some (Inr 40000, st1) \<and> vfs_write 8 st1 0 0 (Some [1, 2, 3]) 3 = Some (Inr 3, st2) \<and>
     vfs_seek 8 st2 0 0 40000 SEEK_SET = Some (Inr 40000, st3) \<and> vfs_read 8 st3 0 0 False 3 = Some (Inr 3, Some [1, 2, 3], st4)"
proof -
  have o: "vfs_inv plain_resource 8 vfs_opened" "disk_fd 8 vfs_opened 0 0" by (rule vfs_opened_ok, assumption)+
  have b: "(0::nat) < 3" "3 \<le> length [1, 2, 3 :: byte]" "40000 + 3 \<le> NANVIX_RAMDISK_SIZE" by (simp_all add: disk_consts)
  from vfs_write_read_roundtrip [OF o b] obtain st1 st2 st3 st4 where
    "vfs_seek 8 vfs_opened 0 0 (int 40000) SEEK_SET = Some (Inr (int 40000), st1)" "vfs_write 8 st1 0 0 (Some [1, 2, 3]) 3 = Some (Inr (int 3), st2)"
    "vfs_seek 8 st2 0 0 (int 40000) SEEK_SET = Some (Inr (int 40000), st3)" "vfs_read 8 st3 0 0 False 3 = Some (Inr (int 3), Some (take 3 [1, 2, 3]), st4)"
    by blast
  then show ?thesis by auto
qed

text \<open>
  A transfer that the disk refuses is reported as success. When the range of a read or write does not fit on the disk, the call returns a
  count of zero and no error, since the error code of the process was never set; nothing is read and the disk does not change.
\<close>

theorem vfs_refused_transfer_succeeds:
  assumes "vfs_inv R nconn st" "disk_fd nconn st c fd" "0 < n" "n \<le> length buf" "int NANVIX_RAMDISK_SIZE < fd_pos nconn st c fd + int n"
  shows "(\<exists>st'. vfs_read nconn st c fd False n = Some (Inr 0, None, st')) \<and>
    (\<exists>st'. vfs_write nconn st c fd (Some buf) n = Some (Inr 0, st') \<and> v_disk st' = v_disk st)"
proof
  have n: "n \<noteq> 0" using assms(3) by simp
  have far: "\<not> (fd_pos nconn st c fd < int NANVIX_RAMDISK_SIZE \<and> fd_pos nconn st c fd + int n \<le> int NANVIX_RAMDISK_SIZE)" using assms(5) by simp
  show "\<exists>st'. vfs_read nconn st c fd False n = Some (Inr 0, None, st')"
    by (rule disk_read [OF assms(1,2) n]) (simp only: far if_False, blast)
  show "\<exists>st'. vfs_write nconn st c fd (Some buf) n = Some (Inr 0, st') \<and> v_disk st' = v_disk st"
    by (rule disk_write [OF assms(1,2,4) n]) (simp only: far if_False, blast)
qed

theorem vfs_refused_transfer_succeeds_witness:
  "\<exists>st st'. vfs_seek 8 vfs_opened 0 0 65535 SEEK_SET = Some (Inr 65535, st) \<and> vfs_read 8 st 0 0 False 2 = Some (Inr 0, None, st')"
proof -
  have o: "vfs_inv plain_resource 8 vfs_opened" "disk_fd 8 vfs_opened 0 0" by (rule vfs_opened_ok, assumption)+
  have off: "0 \<le> (65535::int)" by simp
  obtain st where s: "vfs_seek 8 vfs_opened 0 0 65535 SEEK_SET = Some (Inr 65535, st)" "vfs_inv plain_resource 8 st" "disk_fd 8 st 0 0" "fd_pos 8 st 0 0 = 65535"
    by (rule disk_seek [OF o off])
  have b: "(0::nat) < 2" "2 \<le> length [0, 0 :: byte]" "int NANVIX_RAMDISK_SIZE < fd_pos 8 st 0 0 + int 2" using s(4) by (simp_all add: disk_consts)
  from vfs_refused_transfer_succeeds [OF s(2,3) b] obtain st' where "vfs_read 8 st 0 0 False 2 = Some (Inr 0, None, st')" by blast
  with s(1) show ?thesis by blast
qed

text \<open>
  Closing the disk releases its inode number. When the last descriptor of an inode with one link is closed, the number is cleared in the map of inodes
  although the directory still binds the name to it, so the next allocation may give it to another file.
\<close>

theorem vfs_close_frees_linked_inode:
  assumes "resource_laws R" "vfs_inv R nconn st" "mounted st s imap bmap r" "dir_wf s bmap (in_data (v_inodes st ! r)) (v_disk st)"
    and "proc_ok nconn c" "fd_within fd" "desc (v_procs st) (nat c) (nat fd) = Some k" "f_inode (v_filetab st ! k) = Some i"
    and "S_ISBLK (i_mode (in_data (v_inodes st ! i)))" "icount st i = 1" "i_nlinks (in_data (v_inodes st ! i)) = 1"
  shows "\<exists>m st'. vfs_close R nconn st c fd = Some (Inr 0, st') \<and> vfs_inv R nconn st' \<and> mounted st' s m bmap r \<and>
    bits m = bits imap - {unat (in_num (v_inodes st ! i)) - 1} \<and>
    dir_lookup (v_disk st') (in_data (v_inodes st' ! r)) = dir_lookup (v_disk st) (in_data (v_inodes st ! r))"
proof -
  have cc: "0 \<le> c" "c < int nconn" "nat c < nconn" and fd: "nat fd < NANVIX_OPEN_MAX" using assms(5,6) by (auto simp: proc_ok_def fd_within_def)
  obtain st1 where l: "fprocess_launch nconn st c = (Inr 0, st1)" "running R nconn (nat c) st1" "v_inodes st1 = v_inodes st" "v_disk st1 = v_disk st"
    "v_filetab st1 = v_filetab st" "\<And>p fd. p < nconn \<Longrightarrow> desc (v_procs st1) p fd = desc (v_procs st) p fd"
    "\<And>s imap bmap r. mounted st1 s imap bmap r \<longleftrightarrow> mounted st s imap bmap r"
    by (rule launch_ok [OF assms(2) cc(1,2)]) (rule that; assumption)
  have m1: "mounted st1 s imap bmap r" using assms(3) l(7) by simp
  have eq: "vfs_close R nconn st c fd = fs_close R st1 (nat fd)" by (simp add: vfs_close_def assms(6) l(1))
  have d1: "desc (v_procs st1) (nat c) (nat fd) = Some k" using assms(7) l(6) [OF cc(3)] by simp
  have view: "fd_view nconn st1 (nat c, nat fd) \<noteq> None" using d1 fd_view_desc [OF cc(3) fd, of st1] by simp
  from assms(1) l(2) fd m1 show ?thesis
  proof (cases rule: fs_close_ok)
    case (closed k' i' m st')
    have ki: "k' = k" "i' = i" using closed(4,5) d1 assms(8) l(5) by simp_all
    have ir: "i \<noteq> r"
    proof
      assume "i = r"
      then have "S_ISDIR (i_mode (in_data (v_inodes st ! i)))" using dir_structD(5) [OF mountedD(9) [OF assms(3)]] by simp
      with assms(9) show False by (simp add: mode_defs)
    qed
    have n: "0 < unat (in_num (v_inodes st ! i))" "unat (in_num (v_inodes st ! i)) < NANVIX_NR_INODES" "inode_wf (in_data (v_inodes st ! i))"
      using closed(6) ki assms(2,10) by (auto simp: vfs_inv_def itab_ok_def inode_ok_def)
    have lk: "dir_lookup (v_disk st') (in_data (v_inodes st ! r)) = dir_lookup (v_disk st) (in_data (v_inodes st ! r))"
      using dir_wf_table(3) [OF assms(4) mountedD(10) [OF assms(3) n(1,2)] n(3)] closed(9) ki l(3,4) by simp
    have "in_data (v_inodes st' ! r) = in_data (v_inodes st ! r)" using closed(12) [of r] ki ir l(3) by simp
    moreover have "bits m = bits imap - {unat (in_num (v_inodes st ! i)) - 1}" using closed(10) ki l(3) assms(10,11) by simp
    ultimately have "vfs_close R nconn st c fd = Some (Inr 0, st') \<and> vfs_inv R nconn st' \<and> mounted st' s m bmap r \<and>
      bits m = bits imap - {unat (in_num (v_inodes st ! i)) - 1} \<and>
      dir_lookup (v_disk st') (in_data (v_inodes st' ! r)) = dir_lookup (v_disk st) (in_data (v_inodes st ! r))"
      using eq closed(1,8) running_inv [OF closed(2)] lk by simp
    then show ?thesis by blast
  next
    case (bad st')
    with view show ?thesis by simp
  next
    case (unsupported k' i' st')
    with d1 assms(8,9) l(3,5) show ?thesis by simp
  qed
qed

theorem vfs_close_frees_linked_inode_witness:
  "\<exists>m bmap r st'. vfs_close plain_resource 8 vfs_opened 0 0 = Some (Inr 0, st') \<and> mounted st' (boot_fs 0) m bmap r \<and> bits m = {0} \<and>
     dir_lookup (v_disk st') (in_data (v_inodes st' ! r)) ''disk'' = Some 2"
proof -
  obtain imap bmap r k i where o: "vfs_inv plain_resource 8 vfs_opened" "disk_fd 8 vfs_opened 0 0"
    "mounted vfs_opened (boot_fs 0) imap bmap r" "bits imap = {0, 1}" "dir_wf (boot_fs 0) bmap (in_data (v_inodes vfs_opened ! r)) (v_disk vfs_opened)"
    "dir_lookup (v_disk vfs_opened) (in_data (v_inodes vfs_opened ! r)) = boot_names" "desc (v_procs vfs_opened) 0 0 = Some k"
    "f_inode (v_filetab vfs_opened ! k) = Some i" "icount vfs_opened i = 1" "in_num (v_inodes vfs_opened ! i) = 2"
    "in_data (v_inodes vfs_opened ! i) = new_inode (root_mode OR S_IFBLK) 0 0 0" "fd_pos 8 vfs_opened 0 0 = 0"
    by (rule vfs_opened_ok) (rule that; assumption)
  have p: "proc_ok 8 0" "fd_within 0" "desc (v_procs vfs_opened) (nat 0) (nat 0) = Some k" "S_ISBLK (i_mode (in_data (v_inodes vfs_opened ! i)))"
    "i_nlinks (in_data (v_inodes vfs_opened ! i)) = 1"
    using o(7,11) root_mode_dir(2) by (simp_all add: proc_ok_def fd_within_def NANVIX_OPEN_MAX_def new_inode_def)
  from vfs_close_frees_linked_inode [OF plain_resource_laws o(1,3,5) p(1-3) o(8) p(4) o(9) p(5)] obtain m st' where
    "vfs_close plain_resource 8 vfs_opened 0 0 = Some (Inr 0, st')" "mounted st' (boot_fs 0) m bmap r" "bits m = {0, 1} - {unat (2 :: minix_ino_t) - 1}"
    "dir_lookup (v_disk st') (in_data (v_inodes st' ! r)) = boot_names" unfolding o(4,6,10) by blast
  moreover from this(3) have "bits m = {0}" by auto
  moreover have "boot_names ''disk'' = Some 2" by (simp add: boot_names_def)
  ultimately show ?thesis by metis
qed

end
