(* ===== verification/Refcount.thy ===== *)
theory Refcount
  imports Prelude
begin

text \<open>
  The contract shared by the tables of this system that hand out references: acquiring a key
  adds one reference to it, releasing a held key drops one, and no operation touches the
  references of another key. The connection table of a server and the link table of the name
  server both implement it; what follows for whole histories of requests is proved once here.
\<close>

datatype 'k ref_op = Acquire 'k | Release 'k

primrec ref_delta :: "'k \<Rightarrow> 'k ref_op \<Rightarrow> int" where
  "ref_delta k (Acquire k') = (if k' = k then 1 else 0)"
| "ref_delta k (Release k') = (if k' = k then -1 else 0)"

locale refcount_table =
  fixes acquire :: "'t \<Rightarrow> 'k \<Rightarrow> 't"
    and release :: "'t \<Rightarrow> 'k \<Rightarrow> 't"
    and refs :: "'t \<Rightarrow> 'k \<Rightarrow> int"
    and room :: "'t \<Rightarrow> 'k \<Rightarrow> bool"
    and inv :: "'t \<Rightarrow> bool"
  assumes inv_acquire: "inv t \<Longrightarrow> room t k \<Longrightarrow> inv (acquire t k)"
    and refs_acquire: "inv t \<Longrightarrow> room t k \<Longrightarrow> refs (acquire t k) j = refs t j + (if j = k then 1 else 0)"
    and inv_release: "inv t \<Longrightarrow> 0 < refs t k \<Longrightarrow> inv (release t k)"
    and refs_release: "inv t \<Longrightarrow> 0 < refs t k \<Longrightarrow> refs (release t k) j = refs t j - (if j = k then 1 else 0)"
    and refs_nonneg: "inv t \<Longrightarrow> 0 \<le> refs t k"
begin

lemma acquire_release:
  assumes "inv t" "room t k"
  shows "refs (release (acquire t k) k) j = refs t j" "inv (release (acquire t k) k)"
proof -
  have pos: "0 < refs (acquire t k) k"
    using assms refs_nonneg [of t k] by (simp add: refs_acquire)
  with assms show "refs (release (acquire t k) k) j = refs t j"
    by (simp add: inv_acquire refs_acquire refs_release)
  from assms pos show "inv (release (acquire t k) k)"
    by (simp add: inv_acquire inv_release)
qed

fun apply_op :: "'t \<Rightarrow> 'k ref_op \<Rightarrow> 't" where
  "apply_op t (Acquire k) = acquire t k"
| "apply_op t (Release k) = release t k"

fun allowed :: "'t \<Rightarrow> 'k ref_op \<Rightarrow> bool" where
  "allowed t (Acquire k) = room t k"
| "allowed t (Release k) = (0 < refs t k)"

fun legal :: "'t \<Rightarrow> 'k ref_op list \<Rightarrow> bool" where
  "legal t [] = True"
| "legal t (x # xs) = (allowed t x \<and> legal (apply_op t x) xs)"

lemma apply_op_step:
  assumes "inv t" "allowed t x"
  shows "inv (apply_op t x)" "refs (apply_op t x) j = refs t j + ref_delta j x"
  using assms by (cases x; force simp: inv_acquire inv_release refs_acquire refs_release)+

text \<open>
  After a legal history the references of a key are those it had, plus its acquisitions,
  minus its releases.
\<close>

lemma history_balance:
  assumes "inv t" "legal t xs"
  shows "inv (foldl apply_op t xs)"
    and "refs (foldl apply_op t xs) j = refs t j + sum_list (map (ref_delta j) xs)"
  using assms by (induction xs arbitrary: t) (auto simp: apply_op_step)

end

end
