(* ===== verification/Connection.thy ===== *)
theory Connection
  imports Refcount Slots
begin

text \<open>
  The table of client connections of a server, \<open>src/sys/common/connection.c\<close>. The table has
  \<open>NANVIX_CONNECTIONS_MAX\<close> entries, four per cluster of the processor; the number of clusters
  comes from the kernel and is the parameter \<open>nproc\<close> of \<^term>\<open>connections_setup\<close>.

  The abstraction \<^term>\<open>conn_refs\<close> is the number of open connections of each (process, port)
  pair; \<open>connect\<close> and \<open>disconnect\<close> refine adding and dropping one reference of it.
\<close>

record connection =
  remote :: int
  conn_port :: int
  conn_count :: int

type_synonym conn_table = "connection list"

definition NANVIX_CONNECTIONS_MAX :: "nat \<Rightarrow> nat" where
  "NANVIX_CONNECTIONS_MAX nproc = nproc * 4"

definition is_conn :: "int \<Rightarrow> int \<Rightarrow> connection \<Rightarrow> bool" where
  "is_conn r p c \<longleftrightarrow> remote c = r \<and> conn_port c = p"

definition lookup :: "conn_table \<Rightarrow> int \<Rightarrow> int \<Rightarrow> nat result" where
  "lookup ct r p =
     (if r < 0 then Inl EINVAL
      else if p < 0 then Inl EINVAL
      else (case first_index (is_conn r p) ct of
              Some i \<Rightarrow> Inr i
            | None \<Rightarrow> Inl ENOENT))"

definition conn_incr :: "conn_table \<Rightarrow> nat \<Rightarrow> conn_table" where
  "conn_incr ct i = ct[i := (ct ! i)\<lparr>conn_count := conn_count (ct ! i) + 1\<rparr>]"

definition connect :: "conn_table \<Rightarrow> int \<Rightarrow> int \<Rightarrow> int result \<times> conn_table" where
  "connect ct r p =
     (if r < 0 then (Inl EINVAL, ct)
      else if p < 0 then (Inl EINVAL, ct)
      else (case lookup ct r p of
              Inr i \<Rightarrow> (Inr 0, conn_incr ct i)
            | Inl _ \<Rightarrow>
                (case first_index (\<lambda>c. remote c < 0) ct of
                   Some i \<Rightarrow> (Inr 0, conn_incr
                     (ct[i := \<lparr>remote = r, conn_port = p, conn_count = 0\<rparr>]) i)
                 | None \<Rightarrow> (Inl EAGAIN, ct))))"

definition disconnect :: "conn_table \<Rightarrow> int \<Rightarrow> int \<Rightarrow> int result \<times> conn_table" where
  "disconnect ct r p =
     (if r < 0 then (Inl EINVAL, ct)
      else if p < 0 then (Inl EINVAL, ct)
      else (case lookup ct r p of
              Inl _ \<Rightarrow> (Inl ENOENT, ct)
            | Inr i \<Rightarrow>
                (let c = ct ! i; c' = c\<lparr>conn_count := conn_count c - 1\<rparr>
                 in (Inr 0, ct[i := if conn_count c = 1 then c'\<lparr>remote := -1\<rparr> else c']))))"

text \<open>
  \<open>get_connections\<close> copies the live entries to the caller's buffer, which the model returns;
  the flag is whether the buffer pointer is \<open>NULL\<close>.
\<close>

definition get_connections :: "conn_table \<Rightarrow> bool \<Rightarrow> errno + (int \<times> connection list)" where
  "get_connections ct buf_null =
     (if buf_null then Inl EINVAL
      else (let buf = filter (\<lambda>c. \<not> remote c < 0) ct in Inr (int (length buf), buf)))"

definition connection_get_port :: "conn_table \<Rightarrow> int \<Rightarrow> int result" where
  "connection_get_port ct conn =
     (if conn < 0 \<or> int (length ct) \<le> conn then Inl EINVAL
      else Inr (conn_port (ct ! nat conn)))"

definition connections_setup :: "nat \<Rightarrow> conn_table" where
  "connections_setup nproc = replicate (NANVIX_CONNECTIONS_MAX nproc)
     \<lparr>remote = -1, conn_port = -1, conn_count = 0\<rparr>"

section \<open>Invariant\<close>

definition conn_key :: "connection \<Rightarrow> (int \<times> int) option" where
  "conn_key c = (if remote c < 0 then None else Some (remote c, conn_port c))"

definition conn_wf :: "conn_table \<Rightarrow> bool" where
  "conn_wf ct \<longleftrightarrow> slots_wf conn_key conn_count ct \<and>
     (\<forall>i<length ct. 0 \<le> remote (ct ! i) \<longrightarrow> 0 \<le> conn_port (ct ! i))"

text \<open>References of a (process, port) pair: the counts of the entries that hold it.\<close>

definition conn_refs :: "conn_table \<Rightarrow> int \<times> int \<Rightarrow> int" where
  "conn_refs ct k = slot_refs conn_key conn_count ct k"

definition conn_room :: "conn_table \<Rightarrow> int \<times> int \<Rightarrow> bool" where
  "conn_room ct k \<longleftrightarrow> 0 \<le> fst k \<and> 0 \<le> snd k \<and>
     (0 < conn_refs ct k \<or> (\<exists>i<length ct. remote (ct ! i) < 0))"

lemma conn_key_Some: "conn_key c = Some (r, p) \<longleftrightarrow> 0 \<le> r \<and> is_conn r p c"
  by (auto simp: conn_key_def is_conn_def)

lemma conn_key_update [simp]:
  "conn_key (c\<lparr>conn_count := n\<rparr>) = conn_key c"
  "conn_key \<lparr>remote = r, conn_port = p, conn_count = n\<rparr> = (if r < 0 then None else Some (r, p))"
  "conn_key (c\<lparr>conn_count := n, remote := -1\<rparr>) = None"
  by (auto simp: conn_key_def)

lemma conn_wf_slots: "conn_wf ct \<Longrightarrow> slots_wf conn_key conn_count ct"
  by (simp add: conn_wf_def)

lemma conn_wf_setup: "conn_wf (connections_setup n)"
  by (simp add: conn_wf_def connections_setup_def slots_wf_replicate)

lemma conn_refs_nonneg: "conn_wf ct \<Longrightarrow> 0 \<le> conn_refs ct k"
  by (simp add: conn_refs_def conn_wf_def slot_refs_nonneg)

lemma lookup_Inr_iff:
  assumes "conn_wf ct"
  shows "lookup ct r p = Inr i \<longleftrightarrow> 0 \<le> p \<and> i < length ct \<and> conn_key (ct ! i) = Some (r, p)"
proof -
  have "first_index (is_conn r p) ct = first_index (\<lambda>c. conn_key c = Some (r, p)) ct" if "0 \<le> r"
    using that by (intro first_index_cong) (simp_all add: conn_key_Some)
  then show ?thesis
    using slots_find [OF slots_wf_unique [OF conn_wf_slots [OF assms]], of i "(r, p)"]
    by (auto simp: lookup_def conn_key_Some dest: first_index_bound first_index_sat split: option.splits)
qed

lemma lookup_Inl_iff:
  "lookup ct r p = Inl e \<longleftrightarrow>
     (if r < 0 \<or> p < 0 then e = EINVAL
      else e = ENOENT \<and> (\<forall>i<length ct. conn_key (ct ! i) \<noteq> Some (r, p)))"
  by (auto simp: lookup_def conn_key_Some first_index_None_iff split: option.splits
      dest: first_index_bound first_index_sat)

lemma conn_key_ports: "conn_wf ct \<Longrightarrow> i < length ct \<Longrightarrow> conn_key (ct ! i) = Some (r, p) \<Longrightarrow> 0 \<le> p"
  by (auto simp: conn_wf_def conn_key_Some is_conn_def)

lemma conn_refs_pos_iff:
  assumes "conn_wf ct"
  shows "0 < conn_refs ct (r, p) \<longleftrightarrow> (\<exists>i. lookup ct r p = Inr i)"
  using assms conn_key_ports [OF assms]
  by (auto simp: conn_refs_def slot_refs_pos_iff [OF conn_wf_slots] lookup_Inr_iff)

section \<open>The operations against the abstraction\<close>

lemma connect_cases:
  assumes "conn_wf ct" "0 \<le> r" "0 \<le> p"
  obtains (held) i where "i < length ct" "conn_key (ct ! i) = Some (r, p)"
      "connect ct r p = (Inr 0, ct[i := (ct ! i)\<lparr>conn_count := conn_count (ct ! i) + 1\<rparr>])"
  | (fresh) i where "i < length ct" "conn_key (ct ! i) = None" "\<And>j. j < length ct \<Longrightarrow> conn_key (ct ! j) \<noteq> Some (r, p)"
      "connect ct r p = (Inr 0, ct[i := \<lparr>remote = r, conn_port = p, conn_count = 1\<rparr>])"
  | (full) "\<And>j. j < length ct \<Longrightarrow> conn_key (ct ! j) \<noteq> Some (r, p)" "\<forall>j<length ct. 0 \<le> remote (ct ! j)"
      "connect ct r p = (Inl EAGAIN, ct)"
proof (cases "lookup ct r p")
  case (Inr i)
  with assms have "i < length ct" "conn_key (ct ! i) = Some (r, p)" by (auto simp: lookup_Inr_iff)
  with Inr assms show ?thesis by (intro held [of i]) (simp_all add: connect_def conn_incr_def)
next
  case (Inl e)
  then have none: "\<forall>j<length ct. conn_key (ct ! j) \<noteq> Some (r, p)"
    using assms by (simp add: lookup_Inl_iff)
  show ?thesis
  proof (cases "first_index (\<lambda>c. remote c < 0) ct")
    case None
    then have "\<forall>j<length ct. 0 \<le> remote (ct ! j)" by (simp add: first_index_None_iff not_less)
    with None Inl none assms show ?thesis by (intro full) (simp_all add: connect_def)
  next
    case (Some i)
    with Inl none assms show ?thesis
      by (intro fresh [of i]) (auto simp: connect_def conn_incr_def conn_key_def dest: first_index_SomeD)
  qed
qed

lemma connect_wf:
  assumes "conn_wf ct"
  shows "conn_wf (snd (connect ct r p))"
proof (cases "0 \<le> r \<and> 0 \<le> p")
  case False
  with assms show ?thesis by (auto simp: connect_def)
next
  case True
  then have "0 \<le> r" "0 \<le> p" by auto
  from assms this show ?thesis
  proof (cases rule: connect_cases)
    case (held i)
    with assms slots_wf_count [OF conn_wf_slots [OF assms], of i] show ?thesis
      by (auto simp: conn_wf_def nth_list_update intro: slots_wf_keep)
  next
    case (fresh i)
    with assms True show ?thesis
      by (auto simp: conn_wf_def nth_list_update intro: slots_wf_take)
  qed (use assms in simp)
qed

lemma connect_refs:
  assumes "conn_wf ct" "conn_room ct (r, p)"
  shows "fst (connect ct r p) = Inr 0"
    and "conn_refs (snd (connect ct r p)) k = conn_refs ct k + (if k = (r, p) then 1 else 0)"
proof -
  from assms(2) have rp: "0 \<le> r" "0 \<le> p" by (auto simp: conn_room_def)
  from assms(1) rp have "fst (connect ct r p) = Inr 0 \<and>
    conn_refs (snd (connect ct r p)) k = conn_refs ct k + (if k = (r, p) then 1 else 0)"
  proof (cases rule: connect_cases)
    case (held i)
    then show ?thesis by (auto simp: conn_refs_def slot_refs_update)
  next
    case (fresh i)
    with rp show ?thesis by (auto simp: conn_refs_def slot_refs_update)
  next
    case full
    with assms show ?thesis
      by (auto simp: conn_room_def conn_refs_def slot_refs_pos_iff [OF conn_wf_slots])
  qed
  then show "fst (connect ct r p) = Inr 0"
    and "conn_refs (snd (connect ct r p)) k = conn_refs ct k + (if k = (r, p) then 1 else 0)"
    by auto
qed

lemma disconnect_held:
  assumes "conn_wf ct" "0 < conn_refs ct (r, p)"
  shows "fst (disconnect ct r p) = Inr 0" "conn_wf (snd (disconnect ct r p))"
    and "conn_refs (snd (disconnect ct r p)) k = conn_refs ct k - (if k = (r, p) then 1 else 0)"
proof -
  from assms obtain i where look: "lookup ct r p = Inr i" by (auto simp: conn_refs_pos_iff)
  with assms(1) have i: "0 \<le> p" "i < length ct" "conn_key (ct ! i) = Some (r, p)"
    by (auto simp: lookup_Inr_iff)
  define c where "c = (ct ! i)\<lparr>conn_count := conn_count (ct ! i) - 1\<rparr>"
  have "0 \<le> r" using i by (simp add: conn_key_Some)
  then have eq: "disconnect ct r p =
      (Inr 0, ct[i := if conn_count (ct ! i) = 1 then c\<lparr>remote := -1\<rparr> else c])"
    using look i by (simp add: disconnect_def Let_def c_def)
  then show "fst (disconnect ct r p) = Inr 0" by simp
  have "1 \<le> conn_count (ct ! i)" using slots_wf_count [OF conn_wf_slots [OF assms(1)] i(2,3)] .
  then show "conn_wf (snd (disconnect ct r p))"
    using eq i assms(1)
    by (auto simp: conn_wf_def c_def nth_list_update intro: slots_wf_release slots_wf_keep)
  show "conn_refs (snd (disconnect ct r p)) k = conn_refs ct k - (if k = (r, p) then 1 else 0)"
    using eq i by (auto simp: c_def conn_refs_def slot_refs_update)
qed

interpretation conn: refcount_table
  "\<lambda>ct k. snd (connect ct (fst k) (snd k))" "\<lambda>ct k. snd (disconnect ct (fst k) (snd k))"
  conn_refs conn_room conn_wf
proof unfold_locales
  fix ct :: conn_table and k j :: "int \<times> int"
  assume wf: "conn_wf ct"
  show "0 \<le> conn_refs ct k" using wf by (rule conn_refs_nonneg)
  show "conn_room ct k \<Longrightarrow> conn_wf (snd (connect ct (fst k) (snd k)))"
    using wf by (simp add: connect_wf)
  show "conn_room ct k \<Longrightarrow> conn_refs (snd (connect ct (fst k) (snd k))) j =
      conn_refs ct j + (if j = k then 1 else 0)"
    using wf connect_refs(2) [of ct "fst k" "snd k" j] by simp
  show "0 < conn_refs ct k \<Longrightarrow> conn_wf (snd (disconnect ct (fst k) (snd k)))"
    using wf disconnect_held(2) [of ct "fst k" "snd k"] by simp
  show "0 < conn_refs ct k \<Longrightarrow> conn_refs (snd (disconnect ct (fst k) (snd k))) j =
      conn_refs ct j - (if j = k then 1 else 0)"
    using wf disconnect_held(3) [of ct "fst k" "snd k" j] by simp
qed

lemma connect_failure:
  assumes "conn_wf ct" "\<not> conn_room ct (r, p)"
  shows "connect ct r p = (Inl (if r < 0 \<or> p < 0 then EINVAL else EAGAIN), ct)"
proof (cases "0 \<le> r \<and> 0 \<le> p")
  case False
  then show ?thesis by (auto simp: connect_def)
next
  case True
  then have rp: "0 \<le> r" "0 \<le> p" by auto
  from assms(1) this show ?thesis
    using assms(2) rp
    by (cases rule: connect_cases)
      (auto simp: conn_room_def conn_refs_def slot_refs_pos_iff [OF conn_wf_slots [OF assms(1)]]
        conn_key_def split: if_splits)
qed

lemma disconnect_failure:
  assumes "conn_wf ct" "\<not> 0 < conn_refs ct (r, p)"
  shows "disconnect ct r p = (Inl (if r < 0 \<or> p < 0 then EINVAL else ENOENT), ct)"
  using assms by (auto simp: disconnect_def conn_refs_pos_iff split: sum.splits)

lemma conn_live_refs:
  assumes "conn_wf ct"
  shows "(\<exists>c\<in>set ct. \<not> remote c < 0 \<and> remote c = r \<and> conn_port c = p \<and> conn_count c = n) \<longleftrightarrow>
    (0 < n \<and> conn_refs ct (r, p) = n)"
proof -
  note wf = conn_wf_slots [OF assms]
  have "(\<exists>c\<in>set ct. \<not> remote c < 0 \<and> remote c = r \<and> conn_port c = p \<and> conn_count c = n) \<longleftrightarrow>
    (\<exists>i<length ct. conn_key (ct ! i) = Some (r, p) \<and> conn_count (ct ! i) = n)"
    by (force simp: conn_key_def in_set_conv_nth split: if_splits)
  also have "\<dots> \<longleftrightarrow> (0 < n \<and> conn_refs ct (r, p) = n)"
  proof
    assume "\<exists>i<length ct. conn_key (ct ! i) = Some (r, p) \<and> conn_count (ct ! i) = n"
    then obtain i where "i < length ct" "conn_key (ct ! i) = Some (r, p)" "conn_count (ct ! i) = n"
      by blast
    then show "0 < n \<and> conn_refs ct (r, p) = n"
      using slot_refs_entry [OF slots_wf_unique [OF wf]] slots_wf_count [OF wf] by (force simp: conn_refs_def)
  next
    assume n: "0 < n \<and> conn_refs ct (r, p) = n"
    then obtain i where i: "i < length ct" "conn_key (ct ! i) = Some (r, p)"
      using slot_refs_pos_iff [OF wf, of "(r, p)"] by (auto simp: conn_refs_def)
    with n slot_refs_entry [OF slots_wf_unique [OF wf] i, of conn_count]
    show "\<exists>i<length ct. conn_key (ct ! i) = Some (r, p) \<and> conn_count (ct ! i) = n"
      by (auto simp: conn_refs_def)
  qed
  finally show ?thesis .
qed

lemma conn_live_distinct:
  assumes "conn_wf ct"
  shows "distinct (map (\<lambda>c. (remote c, conn_port c)) (filter (\<lambda>c. \<not> remote c < 0) ct))"
proof -
  have "filter (\<lambda>c. conn_key c \<noteq> None) ct = filter (\<lambda>c. \<not> remote c < 0) ct"
    by (simp add: conn_key_def)
  moreover have "map conn_key (filter (\<lambda>c. \<not> remote c < 0) ct) =
      map Some (map (\<lambda>c. (remote c, conn_port c)) (filter (\<lambda>c. \<not> remote c < 0) ct))"
    by (simp add: conn_key_def)
  moreover note slots_distinct [OF slots_wf_unique [OF conn_wf_slots [OF assms]]]
  ultimately have "distinct (map Some (map (\<lambda>c. (remote c, conn_port c)) (filter (\<lambda>c. \<not> remote c < 0) ct)))"
    by metis
  then show ?thesis by (rule distinct_map [THEN iffD1, THEN conjunct1])
qed

section \<open>Histories of requests\<close>

fun conn_step :: "conn_table \<Rightarrow> (int \<times> int) ref_op \<Rightarrow> int result \<times> conn_table" where
  "conn_step ct (Acquire k) = connect ct (fst k) (snd k)"
| "conn_step ct (Release k) = disconnect ct (fst k) (snd k)"

fun conn_history ::
  "conn_table \<Rightarrow> (int \<times> int) ref_op list \<Rightarrow> ((int \<times> int) ref_op \<times> int result) list \<times> conn_table" where
  "conn_history ct [] = ([], ct)"
| "conn_history ct (x # xs) =
     (let (r, ct1) = conn_step ct x; (rs, ct2) = conn_history ct1 xs in ((x, r) # rs, ct2))"

definition granted_delta :: "int \<times> int \<Rightarrow> (int \<times> int) ref_op \<times> int result \<Rightarrow> int" where
  "granted_delta k xr = (if snd xr = Inr 0 then ref_delta k (fst xr) else 0)"

lemma conn_step_ok:
  assumes "conn_wf ct"
  shows "conn_wf (snd (conn_step ct x))"
    and "conn_refs (snd (conn_step ct x)) k = conn_refs ct k + granted_delta k (x, fst (conn_step ct x))"
proof -
  have "conn_wf (snd (conn_step ct x)) \<and>
    conn_refs (snd (conn_step ct x)) k = conn_refs ct k + granted_delta k (x, fst (conn_step ct x))"
  proof (cases x)
    case (Acquire q)
    with assms show ?thesis
      by (cases "conn_room ct q"; cases q)
        (auto simp: connect_wf connect_refs connect_failure granted_delta_def)
  next
    case (Release q)
    with assms show ?thesis
      by (cases "0 < conn_refs ct q"; cases q)
        (auto simp: disconnect_held disconnect_failure granted_delta_def)
  qed
  then show "conn_wf (snd (conn_step ct x))"
    and "conn_refs (snd (conn_step ct x)) k = conn_refs ct k + granted_delta k (x, fst (conn_step ct x))"
    by auto
qed

lemma conn_history_ok:
  assumes "conn_wf ct"
  shows "conn_wf (snd (conn_history ct xs)) \<and>
    conn_refs (snd (conn_history ct xs)) k =
      conn_refs ct k + sum_list (map (granted_delta k) (fst (conn_history ct xs)))"
  using assms
proof (induction xs arbitrary: ct)
  case Nil
  then show ?case by simp
next
  case (Cons x xs)
  obtain r ct1 where s: "conn_step ct x = (r, ct1)" by force
  obtain rs ct2 where h: "conn_history ct1 xs = (rs, ct2)" by force
  from Cons.IH [of ct1] conn_step_ok [OF Cons.prems, of x] s h show ?case by simp
qed

lemma conn_refs_setup: "conn_refs (connections_setup n) k = 0"
  unfolding conn_refs_def connections_setup_def by (rule slot_refs_absent) simp

text \<open>
  C36. From a freshly set up table, whatever requests arrive in whatever order and whichever
  of them are refused, the table stays well formed and the number of connections it records
  for a client is the number of its granted \<open>connect\<close> calls minus that of its granted
  \<open>disconnect\<close> calls, and is never negative.
\<close>

theorem connection_history_counts:
  "conn_wf (snd (conn_history (connections_setup nproc) xs)) \<and>
   conn_refs (snd (conn_history (connections_setup nproc) xs)) k =
     sum_list (map (granted_delta k) (fst (conn_history (connections_setup nproc) xs))) \<and>
   0 \<le> conn_refs (snd (conn_history (connections_setup nproc) xs)) k"
  using conn_history_ok [OF conn_wf_setup, of nproc xs k]
    conn_refs_nonneg [of "snd (conn_history (connections_setup nproc) xs)" k]
  by (simp add: conn_refs_setup)

text \<open>
  \<open>connect\<close> followed by \<open>disconnect\<close> of the same client leaves the references of every
  client as they were, and the connection is visible in between.
\<close>

theorem connect_disconnect_roundtrip:
  assumes "conn_wf ct" "conn_room ct (r, p)"
  shows "fst (connect ct r p) = Inr 0 \<and>
    (\<exists>i. lookup (snd (connect ct r p)) r p = Inr i) \<and>
    conn_refs (snd (disconnect (snd (connect ct r p)) r p)) k = conn_refs ct k"
proof (intro conjI)
  show "fst (connect ct r p) = Inr 0" using assms by (rule connect_refs)
  have "0 < conn_refs (snd (connect ct r p)) (r, p)"
    using connect_refs(2) [OF assms] conn_refs_nonneg [OF assms(1), of "(r, p)"] by simp
  then show "\<exists>i. lookup (snd (connect ct r p)) r p = Inr i"
    using connect_wf [OF assms(1)] by (simp add: conn_refs_pos_iff)
  show "conn_refs (snd (disconnect (snd (connect ct r p)) r p)) k = conn_refs ct k"
    using conn.acquire_release(1) [OF assms, of k] by simp
qed

theorem connect_disconnect_roundtrip_witness:
  "fst (connect (connections_setup 1) 3 5) = Inr 0 \<and>
   (\<exists>i. lookup (snd (connect (connections_setup 1) 3 5)) 3 5 = Inr i) \<and>
   conn_refs (snd (disconnect (snd (connect (connections_setup 1) 3 5)) 3 5)) (3, 5) =
     conn_refs (connections_setup 1) (3, 5)"
proof -
  have room: "conn_room (connections_setup 1) (3, 5)"
    unfolding conn_room_def connections_setup_def NANVIX_CONNECTIONS_MAX_def
    by (intro conjI disjI2 exI [of _ 0]) simp_all
  show ?thesis
    using connect_disconnect_roundtrip [OF conn_wf_setup room] by blast
qed

text \<open>
  \<open>connect\<close> is refused only for a negative process or port (\<open>EINVAL\<close>) or when the client
  has no connection and every slot is taken (\<open>EAGAIN\<close>), and a refused request changes nothing.
\<close>

theorem connect_refused:
  assumes "conn_wf ct" "fst (connect ct r p) = Inl e"
  shows "snd (connect ct r p) = ct \<and>
    (if r < 0 \<or> p < 0 then e = EINVAL
     else e = EAGAIN \<and> conn_refs ct (r, p) = 0 \<and> (\<forall>i<length ct. 0 \<le> remote (ct ! i)))"
proof -
  from assms have "\<not> conn_room ct (r, p)" by (auto dest: connect_refs(1))
  then show ?thesis
    using assms(2) connect_failure [OF assms(1), of r p] conn_refs_nonneg [OF assms(1), of "(r, p)"]
    by (auto simp: conn_room_def not_less) (meson leD leI)+
qed

theorem connect_refused_witness:
  "snd (connect (connections_setup 0) 3 5) = connections_setup 0 \<and>
   conn_refs (connections_setup 0) (3, 5) = 0"
  using connect_refused [OF conn_wf_setup, of 0 3 5 EAGAIN]
  by (simp add: connect_def lookup_def connections_setup_def NANVIX_CONNECTIONS_MAX_def)

text \<open>
  \<open>get_connections\<close> reports each client with an open connection exactly once, with its
  number of connections, and nobody else; the count it returns is the length of the report.
\<close>

theorem get_connections_exact:
  assumes "conn_wf ct"
  shows "\<exists>buf. get_connections ct False = Inr (int (length buf), buf) \<and>
    distinct (map (\<lambda>c. (remote c, conn_port c)) buf) \<and>
    (\<forall>r p n. (\<exists>c\<in>set buf. remote c = r \<and> conn_port c = p \<and> conn_count c = n) \<longleftrightarrow>
       (0 < n \<and> conn_refs ct (r, p) = n))"
proof -
  let ?buf = "filter (\<lambda>c. \<not> remote c < 0) ct"
  have dist: "distinct (map (\<lambda>c. (remote c, conn_port c)) ?buf)"
    using assms by (rule conn_live_distinct)
  have "(\<exists>c\<in>set ?buf. remote c = r \<and> conn_port c = p \<and> conn_count c = n) \<longleftrightarrow>
       (0 < n \<and> conn_refs ct (r, p) = n)" for r p n
    using conn_live_refs [OF assms, of r p n] by auto
  with dist show ?thesis by (auto simp: get_connections_def Let_def)
qed

theorem get_connections_exact_witness:
  "\<exists>buf. get_connections (snd (connect (connections_setup 1) 3 5)) False = Inr (int (length buf), buf) \<and>
    distinct (map (\<lambda>c. (remote c, conn_port c)) buf)"
  using get_connections_exact [OF connect_wf [OF conn_wf_setup, of 1 3 5]] by blast

end
