(* ===== verification/VfsServer.thy ===== *)
theory VfsServer
  imports VfsDisk Connection
begin

text \<open>
  The file system server, \<open>src/sys/fs/vfs/main.c\<close>: the requests of \<open>include/nanvix/servers/vfs.h\<close>, their handlers, the
  loop, start-up and shutdown. The state holds the table of connections, the static transfer buffer, the input portal
  and the file system. Mailboxes and portals are the parameters \<open>K\<close> and \<open>P\<close> of the other servers.

  \<^term>\<open>fd_view\<close> abstracts the state to a map from a process and a descriptor to flags, position and inode, and
  the specifications below say what each request does to it.
\<close>

section \<open>Messages and state\<close>

datatype vfs_op =
    VFS_EXIT | VFS_CREAT | VFS_OPEN string "32 word" | VFS_UNLINK | VFS_CLOSE int | VFS_LINK | VFS_TRUNCATE | VFS_STAT
  | VFS_READ int nat | VFS_WRITE int nat | VFS_SEEK int int int | VFS_OTHER "8 word"

record vfs_message =
  vr_source :: int
  vr_mailbox_port :: int
  vr_portal_port :: int
  vr_op :: vfs_op

text \<open>
  The fields of the return message that the handler sets, and the data it sends through a portal.
\<close>

record vfs_reply =
  vp_status :: "int result"
  vp_fd :: "int option"
  vp_count :: "int option"
  vp_offset :: "int option"
  vp_data :: "byte list option"

definition vfs_ret :: "int result \<Rightarrow> vfs_reply" where
  "vfs_ret r = \<lparr>vp_status = r, vp_fd = None, vp_count = None, vp_offset = None, vp_data = None\<rparr>"

record 'r vfs_srv =
  vs_conns :: conn_table
  vs_buffer :: "byte list"
  vs_inportal :: int
  vs_vfs :: "'r vfs"

section \<open>Handlers\<close>

text \<open>
  The value \<open>connect\<close> and \<open>lookup\<close> return, as the integer that is then used as the number of a process. An error code
  is negative, and every negative number is refused in the same way. The file name is the string that the array of
  characters holds.
\<close>

definition conn_int :: "int result \<Rightarrow> int" where
  "conn_int r = (case r of Inl _ \<Rightarrow> -1 | Inr c \<Rightarrow> c)"

definition lookup_int :: "conn_table \<Rightarrow> int \<Rightarrow> int \<Rightarrow> int" where
  "lookup_int ct pid port = conn_int (case lookup ct pid port of Inl e \<Rightarrow> Inl e | Inr i \<Rightarrow> Inr (int i))"

definition do_vfs_server_open :: "'r resource_ops \<Rightarrow> nat \<Rightarrow> 'r vfs_srv \<Rightarrow> vfs_message \<Rightarrow> string \<Rightarrow> 32 word \<Rightarrow>
    (vfs_reply \<times> 'r vfs_srv) option" where
  "do_vfs_server_open R nconn st request filename oflag =
     (let port = vr_mailbox_port request; pid = vr_source request; (c, ct) = connect (vs_conns st) pid port in do {
        (ret, v) \<leftarrow> vfs_open R nconn (vs_vfs st) (conn_int c) (Some (cname filename)) oflag 0;
        case ret of
          Inl e \<Rightarrow> Some (vfs_ret (Inl e), st\<lparr>vs_vfs := v, vs_conns := snd (disconnect ct pid port)\<rparr>)
        | Inr fd \<Rightarrow> Some ((vfs_ret (Inr 0))\<lparr>vp_fd := Some fd\<rparr>, st\<lparr>vs_vfs := v, vs_conns := ct\<rparr>) })"

definition do_vfs_server_close :: "'r resource_ops \<Rightarrow> nat \<Rightarrow> 'r vfs_srv \<Rightarrow> vfs_message \<Rightarrow> int \<Rightarrow> (vfs_reply \<times> 'r vfs_srv) option" where
  "do_vfs_server_close R nconn st request fd =
     (let port = vr_mailbox_port request; pid = vr_source request in do {
        (ret, v) \<leftarrow> vfs_close R nconn (vs_vfs st) (lookup_int (vs_conns st) pid port) fd;
        case ret of
          Inl e \<Rightarrow> Some (vfs_ret (Inl e), st\<lparr>vs_vfs := v\<rparr>)
        | Inr _ \<Rightarrow> Some (vfs_ret (Inr 0), st\<lparr>vs_vfs := v, vs_conns := snd (disconnect (vs_conns st) pid port)\<rparr>) })"

definition do_vfs_server_seek :: "nat \<Rightarrow> 'r vfs_srv \<Rightarrow> vfs_message \<Rightarrow> int \<Rightarrow> int \<Rightarrow> int \<Rightarrow> (vfs_reply \<times> 'r vfs_srv) option" where
  "do_vfs_server_seek nconn st request fd offset whence =
     (let port = vr_mailbox_port request; pid = vr_source request in do {
        (ret, v) \<leftarrow> vfs_seek nconn (vs_vfs st) (lookup_int (vs_conns st) pid port) fd offset whence;
        case ret of
          Inl e \<Rightarrow> Some (vfs_ret (Inl e), st\<lparr>vs_vfs := v\<rparr>)
        | Inr pos \<Rightarrow> Some ((vfs_ret (Inr 0))\<lparr>vp_offset := Some pos\<rparr>, st\<lparr>vs_vfs := v\<rparr>) })"

definition transfer_ok :: "nat \<Rightarrow> bool" where
  "transfer_ok n \<longleftrightarrow> \<not> (n = 0 \<or> NANVIX_FS_BLOCK_SIZE < n)"

definition do_vfs_server_write :: "kportal \<Rightarrow> nat \<Rightarrow> 'r vfs_srv \<Rightarrow> vfs_message \<Rightarrow> int \<Rightarrow> nat \<Rightarrow> (vfs_reply \<times> 'r vfs_srv) option" where
  "do_vfs_server_write P nconn st request fd n =
     (let port = vr_mailbox_port request; pid = vr_source request in
      if \<not> transfer_ok n then Some (vfs_ret (Inl EINVAL), st)
      else do {
        data \<leftarrow> portal_receive P (vs_inportal st) pid (vr_portal_port request) n;
        let st1 = st\<lparr>vs_buffer := data @ drop n (vs_buffer st)\<rparr>;
        (ret, v) \<leftarrow> vfs_write nconn (vs_vfs st1) (lookup_int (vs_conns st) pid port) fd (Some (vs_buffer st1)) n;
        case ret of
          Inl e \<Rightarrow> Some (vfs_ret (Inl e), st1\<lparr>vs_vfs := v\<rparr>)
        | Inr count \<Rightarrow> Some ((vfs_ret (Inr 0))\<lparr>vp_count := Some count\<rparr>, st1\<lparr>vs_vfs := v\<rparr>) })"

text \<open>The reply is sent through the portal before the file is read into the buffer.\<close>

definition do_vfs_server_read :: "kmailbox \<Rightarrow> kportal \<Rightarrow> nat \<Rightarrow> 'r vfs_srv \<Rightarrow> vfs_message \<Rightarrow> int \<Rightarrow> nat \<Rightarrow> (vfs_reply \<times> 'r vfs_srv) option" where
  "do_vfs_server_read K P nconn st request fd n =
     (let port = vr_mailbox_port request; pid = vr_source request in
      if \<not> transfer_ok n then Some (vfs_ret (Inl EINVAL), st)
      else do {
        portal_reply K P pid port (vr_portal_port request) n;
        let sent = Some (take n (vs_buffer st));
        (ret, data, v) \<leftarrow> vfs_read nconn (vs_vfs st) (lookup_int (vs_conns st) pid port) fd False n;
        let st1 = st\<lparr>vs_vfs := v, vs_buffer := (case data of None \<Rightarrow> vs_buffer st | Some b \<Rightarrow> b @ drop (length b) (vs_buffer st))\<rparr>;
        case ret of
          Inl e \<Rightarrow> Some ((vfs_ret (Inl e))\<lparr>vp_data := sent\<rparr>, st1)
        | Inr count \<Rightarrow> Some ((vfs_ret (Inr 0))\<lparr>vp_count := Some count, vp_data := sent\<rparr>, st1) })"

section \<open>The server\<close>

text \<open>The switch of the loop: the reply, none for a request without one, the new state, and shutdown.\<close>

definition vfs_handle :: "kmailbox \<Rightarrow> kportal \<Rightarrow> 'r resource_ops \<Rightarrow> nat \<Rightarrow> 'r vfs_srv \<Rightarrow> vfs_message \<Rightarrow>
    (vfs_reply option \<times> 'r vfs_srv \<times> bool) option" where
  "vfs_handle K P R nconn st request =
     (let answer = map_option (\<lambda>(rep, st'). (Some rep, st', False)) in
      case vr_op request of
        VFS_EXIT \<Rightarrow> Some (None, st, True)
      | VFS_OPEN filename oflag \<Rightarrow> answer (do_vfs_server_open R nconn st request filename oflag)
      | VFS_CLOSE fd \<Rightarrow> answer (do_vfs_server_close R nconn st request fd)
      | VFS_READ fd n \<Rightarrow> answer (do_vfs_server_read K P nconn st request fd n)
      | VFS_WRITE fd n \<Rightarrow> answer (do_vfs_server_write P nconn st request fd n)
      | VFS_SEEK fd offset whence \<Rightarrow> answer (do_vfs_server_seek nconn st request fd offset whence)
      | VFS_OTHER _ \<Rightarrow> Some (None, st, False)
      | _ \<Rightarrow> Some (Some (vfs_ret (Inl ENOSYS)), st, False))"

definition vfs_step :: "kmailbox \<Rightarrow> kportal \<Rightarrow> 'r resource_ops \<Rightarrow> nat \<Rightarrow> 'r vfs_srv \<Rightarrow> vfs_message \<Rightarrow>
    (vfs_reply option \<times> 'r vfs_srv \<times> bool) option" where
  "vfs_step K P R nconn st request =
     do { (rep, st', shutdown) \<leftarrow> vfs_handle K P R nconn st request;
          case rep of
            None \<Rightarrow> Some (None, st', shutdown)
          | Some r \<Rightarrow> do { mailbox_send K (vr_source request) (vr_mailbox_port request); Some (Some r, st', shutdown) } }"

text \<open>The loop over the requests it reads; the flag is whether one of them ended it.\<close>

fun do_vfs_server_loop :: "kmailbox \<Rightarrow> 'r resource_ops \<Rightarrow> nat \<Rightarrow> 'r vfs_srv \<Rightarrow> (kportal \<times> vfs_message) list \<Rightarrow>
    (vfs_reply option list \<times> 'r vfs_srv \<times> bool) option" where
  "do_vfs_server_loop K R nconn st [] = Some ([], st, False)"
| "do_vfs_server_loop K R nconn st ((P, request) # rqs) =
     do { (rep, st', shutdown) \<leftarrow> vfs_step K P R nconn st request;
          if shutdown then Some ([rep], st', True)
          else do { (reps, st'', down) \<leftarrow> do_vfs_server_loop K R nconn st' rqs; Some (rep # reps, st'', down) } }"

text \<open>
  Start-up: the answer of the name server and the input portal are parameters, like the allocator, the clock and the
  uninitialised field of the super block of \<^term>\<open>vfs_init\<close>.
\<close>

definition do_vfs_server_startup :: "'r resource_ops \<Rightarrow> (nat \<Rightarrow> bool) \<Rightarrow> nat \<Rightarrow> 64 word \<Rightarrow> 64 word \<Rightarrow> 16 word \<Rightarrow> nat \<Rightarrow> int \<Rightarrow> int result \<Rightarrow>
    'r vfs_srv \<Rightarrow> (int result \<times> 'r vfs_srv) option" where
  "do_vfs_server_startup R umalloc_ok SUPERBLOCK_SIZE t1 t2 junk nproc inportal linked st =
     (let st1 = st\<lparr>vs_inportal := inportal\<rparr> in
      case linked of
        Inl e \<Rightarrow> Some (Inl e, st1)
      | Inr _ \<Rightarrow> do {
          v \<leftarrow> vfs_init R umalloc_ok SUPERBLOCK_SIZE t1 t2 junk nproc (vs_vfs st1);
          Some (Inr 0, st1\<lparr>vs_conns := connections_setup nproc, vs_vfs := v\<rparr>) })"

definition do_vfs_server_shutdown :: "'r resource_ops \<Rightarrow> 'r vfs_srv \<Rightarrow> 'r vfs_srv option" where
  "do_vfs_server_shutdown R st = map_option (\<lambda>v. st\<lparr>vs_vfs := v\<rparr>) (vfs_shutdown R (vs_vfs st))"

definition vfs_server :: "kmailbox \<Rightarrow> 'r resource_ops \<Rightarrow> (nat \<Rightarrow> bool) \<Rightarrow> nat \<Rightarrow> 64 word \<Rightarrow> 64 word \<Rightarrow> 16 word \<Rightarrow> nat \<Rightarrow> int \<Rightarrow> int result \<Rightarrow>
    'r vfs_srv \<Rightarrow> (kportal \<times> vfs_message) list \<Rightarrow> (vfs_reply option list \<times> 'r vfs_srv \<times> bool) option" where
  "vfs_server K R umalloc_ok SUPERBLOCK_SIZE t1 t2 junk nproc inportal linked st rqs =
     do { (ret, st1) \<leftarrow> do_vfs_server_startup R umalloc_ok SUPERBLOCK_SIZE t1 t2 junk nproc inportal linked st;
          uassert (ret = Inr 0);
          (reps, st2, down) \<leftarrow> do_vfs_server_loop K R (NANVIX_CONNECTIONS_MAX nproc) st1 rqs;
          if down then do { st3 \<leftarrow> do_vfs_server_shutdown R st2; Some (reps, st3, True) }
          else Some (reps, st2, False) }"

section \<open>Specification\<close>

definition vfs_server_inv :: "'r resource_ops \<Rightarrow> nat \<Rightarrow> 'r vfs_srv \<Rightarrow> bool" where
  "vfs_server_inv R nconn st \<longleftrightarrow> conn_wf (vs_conns st) \<and> length (vs_buffer st) = NANVIX_FS_BLOCK_SIZE \<and> vfs_inv R nconn (vs_vfs st)"

abbreviation view :: "nat \<Rightarrow> 'r vfs_srv \<Rightarrow> fd_map" where
  "view nconn st \<equiv> fd_view nconn (vs_vfs st)"

text \<open>The process a request runs as: an open uses the value of \<open>connect\<close>, the others the index of the connection.\<close>

definition vfs_proc :: "'r vfs_srv \<Rightarrow> vfs_message \<Rightarrow> int" where
  "vfs_proc st rq =
     (case vr_op rq of
        VFS_OPEN _ _ \<Rightarrow> conn_int (fst (connect (vs_conns st) (vr_source rq) (vr_mailbox_port rq)))
      | _ \<Rightarrow> lookup_int (vs_conns st) (vr_source rq) (vr_mailbox_port rq))"

definition ret_fd :: "int result \<Rightarrow> vfs_reply" where
  "ret_fd r = (case r of Inl e \<Rightarrow> vfs_ret (Inl e) | Inr fd \<Rightarrow> (vfs_ret (Inr 0))\<lparr>vp_fd := Some fd\<rparr>)"

definition ret_count :: "int result \<Rightarrow> vfs_reply" where
  "ret_count r = (case r of Inl e \<Rightarrow> vfs_ret (Inl e) | Inr n \<Rightarrow> (vfs_ret (Inr 0))\<lparr>vp_count := Some n\<rparr>)"

definition ret_offset :: "int result \<Rightarrow> vfs_reply" where
  "ret_offset r = (case r of Inl e \<Rightarrow> vfs_ret (Inl e) | Inr pos \<Rightarrow> (vfs_ret (Inr 0))\<lparr>vp_offset := Some pos\<rparr>)"

definition vfs_spec :: "nat \<Rightarrow> int \<Rightarrow> vfs_op \<Rightarrow> fd_map \<Rightarrow> vfs_reply option \<Rightarrow> fd_map \<Rightarrow> bool" where
  "vfs_spec nconn c op v rep v' \<longleftrightarrow>
     (case op of
        VFS_EXIT \<Rightarrow> rep = None \<and> v' = v
      | VFS_OTHER _ \<Rightarrow> rep = None \<and> v' = v
      | VFS_OPEN _ oflag \<Rightarrow> \<exists>r. rep = Some (ret_fd r) \<and> open_spec nconn c oflag v r v'
      | VFS_CLOSE fd \<Rightarrow> \<exists>r. rep = Some (vfs_ret r) \<and> close_spec nconn c fd v r v'
      | VFS_READ fd n \<Rightarrow>
          if transfer_ok n then \<exists>r data. rep = Some ((ret_count r)\<lparr>vp_data := Some data\<rparr>) \<and> length data = n \<and> read_spec nconn c fd n v r v'
          else rep = Some (vfs_ret (Inl EINVAL)) \<and> v' = v
      | VFS_WRITE fd n \<Rightarrow>
          if transfer_ok n then \<exists>r. rep = Some (ret_count r) \<and> write_spec nconn c fd n v r v' else rep = Some (vfs_ret (Inl EINVAL)) \<and> v' = v
      | VFS_SEEK fd offset whence \<Rightarrow> \<exists>r. rep = Some (ret_offset r) \<and> seek_spec nconn c fd offset whence v r v'
      | _ \<Rightarrow> rep = Some (vfs_ret (Inl ENOSYS)) \<and> v' = v)"

text \<open>A successful open holds one more reference of the client's connection, a successful close one less.\<close>

definition conn_delta :: "vfs_op \<Rightarrow> vfs_reply option \<Rightarrow> int" where
  "conn_delta op rep =
     (case rep of
        None \<Rightarrow> 0
      | Some r \<Rightarrow> if vp_status r = Inr 0 then (case op of VFS_OPEN _ _ \<Rightarrow> 1 | VFS_CLOSE _ \<Rightarrow> -1 | _ \<Rightarrow> 0) else 0)"

definition vfs_refines :: "'r resource_ops \<Rightarrow> nat \<Rightarrow> vfs_message \<Rightarrow> 'r vfs_srv \<Rightarrow> vfs_reply option \<Rightarrow> 'r vfs_srv \<Rightarrow> bool" where
  "vfs_refines R nconn rq st rep st' \<longleftrightarrow> vfs_server_inv R nconn st' \<and>
     vfs_spec nconn (vfs_proc st rq) (vr_op rq) (view nconn st) rep (view nconn st') \<and>
     (\<forall>k. conn_refs (vs_conns st') k = conn_refs (vs_conns st) k + (if k = (vr_source rq, vr_mailbox_port rq) then conn_delta (vr_op rq) rep else 0))"

section \<open>The handlers meet the specification\<close>

lemma cname_no_nul: "NUL \<notin> set (cname s)"
  by (auto simp: cname_def dest: set_takeWhileD)

lemma vfs_ret_sel [simp]: "vp_status (vfs_ret r) = r" "vp_status (ret_fd r) = (case r of Inl e \<Rightarrow> Inl e | Inr _ \<Rightarrow> Inr 0)"
  by (simp_all add: vfs_ret_def ret_fd_def split: sum.split)

lemma lookup_int_proc:
  assumes "conn_wf ct" "proc_ok nconn (lookup_int ct pid port)"
  shows "0 < conn_refs ct (pid, port)"
  using assms by (auto simp: lookup_int_def conn_int_def proc_ok_def conn_refs_pos_iff split: sum.splits)

lemma server_open_refines:
  assumes R: "resource_laws R" and inv: "vfs_server_inv R nconn st" and op: "vr_op rq = VFS_OPEN nm oflag"
  shows "\<exists>rep st'. do_vfs_server_open R nconn st rq nm oflag = Some (rep, st') \<and> vfs_refines R nconn rq st (Some rep) st'"
proof -
  let ?ct = "vs_conns st" and ?pid = "vr_source rq" and ?port = "vr_mailbox_port rq"
  obtain c ct where con: "connect ?ct ?pid ?port = (c, ct)" by fastforce
  have wf0: "conn_wf ?ct" and vinv: "vfs_inv R nconn (vs_vfs st)" and blen: "length (vs_buffer st) = NANVIX_FS_BLOCK_SIZE"
    using inv by (simp_all add: vfs_server_inv_def)
  have wf1: "conn_wf ct" using connect_wf [OF wf0, of ?pid ?port] con by simp
  obtain r v where o: "vfs_open R nconn (vs_vfs st) (conn_int c) (Some (cname nm)) oflag 0 = Some (r, v)" "vfs_inv R nconn v"
    "open_spec nconn (conn_int c) oflag (fd_view nconn (vs_vfs st)) r (fd_view nconn v)"
    using vfs_open_refines [OF R vinv cname_no_nul] by blast
  have proc: "vfs_proc st rq = conn_int c" using con op by (simp add: vfs_proc_def)
  have room: "conn_room ?ct (?pid, ?port)" if "c = Inr x" for x
    using connect_failure [OF wf0, of ?pid ?port] con that by (auto split: if_splits)
  have refs1: "conn_refs ct k = conn_refs ?ct k + (if k = (?pid, ?port) then 1 else 0)" if "c = Inr x" for x k
    using connect_refs(2) [OF wf0 room [OF that], of k] con by simp
  show ?thesis
  proof (cases r)
    case (Inr fd)
    have "proc_ok nconn (conn_int c)" using o(3) Inr by (auto simp: open_spec_def)
    then obtain x where x: "c = Inr x" by (cases c) (auto simp: conn_int_def proc_ok_def)
    have "do_vfs_server_open R nconn st rq nm oflag = Some (ret_fd r, st\<lparr>vs_vfs := v, vs_conns := ct\<rparr>)"
      using con o(1) Inr by (simp add: do_vfs_server_open_def ret_fd_def)
    moreover have "vfs_refines R nconn rq st (Some (ret_fd r)) (st\<lparr>vs_vfs := v, vs_conns := ct\<rparr>)"
      using o wf1 blen proc op Inr refs1 [OF x] by (auto simp: vfs_refines_def vfs_server_inv_def vfs_spec_def conn_delta_def)
    ultimately show ?thesis by blast
  next
    case (Inl e)
    let ?ct2 = "snd (disconnect ct ?pid ?port)"
    have d: "conn_wf ?ct2 \<and> conn_refs ?ct2 k = conn_refs ?ct k" for k
    proof (cases c)
      case (Inr x)
      have "0 < conn_refs ct (?pid, ?port)" using refs1 [OF Inr, of "(?pid, ?port)"] conn_refs_nonneg [OF wf0, of "(?pid, ?port)"] by simp
      from disconnect_held(2,3) [OF wf1 this] refs1 [OF Inr, of k] show ?thesis by simp
    next
      case (Inl e)
      have "\<not> conn_room ?ct (?pid, ?port)" using connect_refs(1) [OF wf0] con Inl by (metis fst_conv sum.distinct(1))
      then have ct: "ct = ?ct" "\<not> 0 < conn_refs ?ct (?pid, ?port)"
        using connect_failure [OF wf0, of ?pid ?port] con conn_refs_pos_iff [OF wf0, of ?pid ?port] by (auto simp: conn_room_def lookup_def split: if_splits)
      then show ?thesis using disconnect_failure [OF wf0, of ?pid ?port] wf0 by simp
    qed
    have "do_vfs_server_open R nconn st rq nm oflag = Some (ret_fd r, st\<lparr>vs_vfs := v, vs_conns := ?ct2\<rparr>)"
      using con o(1) Inl by (simp add: do_vfs_server_open_def ret_fd_def)
    moreover have "vfs_refines R nconn rq st (Some (ret_fd r)) (st\<lparr>vs_vfs := v, vs_conns := ?ct2\<rparr>)"
      using o d blen proc op Inl by (auto simp: vfs_refines_def vfs_server_inv_def vfs_spec_def conn_delta_def)
    ultimately show ?thesis by blast
  qed
qed

lemma server_close_refines:
  assumes R: "resource_laws R" and inv: "vfs_server_inv R nconn st" and op: "vr_op rq = VFS_CLOSE fd"
  shows "\<exists>rep st'. do_vfs_server_close R nconn st rq fd = Some (rep, st') \<and> vfs_refines R nconn rq st (Some rep) st'"
proof -
  let ?ct = "vs_conns st" and ?pid = "vr_source rq" and ?port = "vr_mailbox_port rq"
  have wf0: "conn_wf ?ct" and vinv: "vfs_inv R nconn (vs_vfs st)" and blen: "length (vs_buffer st) = NANVIX_FS_BLOCK_SIZE"
    using inv by (simp_all add: vfs_server_inv_def)
  let ?c = "lookup_int ?ct ?pid ?port"
  obtain r v where o: "vfs_close R nconn (vs_vfs st) ?c fd = Some (r, v)" "vfs_inv R nconn v"
    "close_spec nconn ?c fd (fd_view nconn (vs_vfs st)) r (fd_view nconn v)"
    using vfs_close_refines [OF R vinv] by blast
  have proc: "vfs_proc st rq = ?c" using op by (simp add: vfs_proc_def)
  show ?thesis
  proof (cases r)
    case (Inr x)
    have r0: "r = Inr 0" "proc_ok nconn ?c" using o(3) Inr by (auto simp: close_spec_def split: if_splits)
    note d = disconnect_held(2,3) [OF wf0 lookup_int_proc [OF wf0 r0(2)]]
    have "do_vfs_server_close R nconn st rq fd = Some (vfs_ret r, st\<lparr>vs_vfs := v, vs_conns := snd (disconnect ?ct ?pid ?port)\<rparr>)"
      using o(1) r0 by (simp add: do_vfs_server_close_def Let_def)
    moreover have "vfs_refines R nconn rq st (Some (vfs_ret r)) (st\<lparr>vs_vfs := v, vs_conns := snd (disconnect ?ct ?pid ?port)\<rparr>)"
      using o(2,3) d blen proc op r0 by (auto simp: vfs_refines_def vfs_server_inv_def vfs_spec_def conn_delta_def)
    ultimately show ?thesis by blast
  next
    case (Inl e)
    have "do_vfs_server_close R nconn st rq fd = Some (vfs_ret r, st\<lparr>vs_vfs := v\<rparr>)" using o(1) Inl by (simp add: do_vfs_server_close_def Let_def)
    moreover have "vfs_refines R nconn rq st (Some (vfs_ret r)) (st\<lparr>vs_vfs := v\<rparr>)"
      using o(2,3) wf0 blen proc op Inl by (auto simp: vfs_refines_def vfs_server_inv_def vfs_spec_def conn_delta_def)
    ultimately show ?thesis by blast
  qed
qed

lemma server_seek_refines:
  assumes inv: "vfs_server_inv R nconn st" and op: "vr_op rq = VFS_SEEK fd offset whence"
  shows "\<exists>rep st'. do_vfs_server_seek nconn st rq fd offset whence = Some (rep, st') \<and> vfs_refines R nconn rq st (Some rep) st'"
proof -
  let ?c = "lookup_int (vs_conns st) (vr_source rq) (vr_mailbox_port rq)"
  have vinv: "vfs_inv R nconn (vs_vfs st)" using inv by (simp add: vfs_server_inv_def)
  obtain r v where o: "vfs_seek nconn (vs_vfs st) ?c fd offset whence = Some (r, v)" "vfs_inv R nconn v"
    "seek_spec nconn ?c fd offset whence (fd_view nconn (vs_vfs st)) r (fd_view nconn v)"
    using vfs_seek_refines [OF vinv] by blast
  have "do_vfs_server_seek nconn st rq fd offset whence = Some (ret_offset r, st\<lparr>vs_vfs := v\<rparr>)"
    using o(1) by (cases r) (simp_all add: do_vfs_server_seek_def Let_def ret_offset_def)
  moreover have "vfs_refines R nconn rq st (Some (ret_offset r)) (st\<lparr>vs_vfs := v\<rparr>)"
    using o(2,3) inv op by (auto simp: vfs_refines_def vfs_server_inv_def vfs_spec_def conn_delta_def vfs_proc_def)
  ultimately show ?thesis by blast
qed

lemma server_write_refines:
  assumes inv: "vfs_server_inv R nconn st" and P: "portals_up P" and op: "vr_op rq = VFS_WRITE fd n"
  shows "\<exists>rep st'. do_vfs_server_write P nconn st rq fd n = Some (rep, st') \<and> vfs_refines R nconn rq st (Some rep) st'"
proof (cases "transfer_ok n")
  case False
  with inv op show ?thesis
    by (auto simp: do_vfs_server_write_def Let_def vfs_refines_def vfs_server_inv_def vfs_spec_def conn_delta_def)
next
  case True
  let ?c = "lookup_int (vs_conns st) (vr_source rq) (vr_mailbox_port rq)"
  let ?d = "kportal_read P (vs_inportal st) n"
  let ?b = "?d @ drop n (vs_buffer st)"
  have vinv: "vfs_inv R nconn (vs_vfs st)" "length (vs_buffer st) = NANVIX_FS_BLOCK_SIZE" using inv by (simp_all add: vfs_server_inv_def)
  have n: "n \<le> NANVIX_FS_BLOCK_SIZE" "n \<noteq> 0" using True by (simp_all add: transfer_ok_def)
  have len: "length ?d = n" using P by (simp add: portals_up_def)
  then have nb: "n \<le> length ?b" "length ?b = NANVIX_FS_BLOCK_SIZE" using n vinv by simp_all
  obtain r v where o: "vfs_write nconn (vs_vfs st) ?c fd (Some ?b) n = Some (r, v)" "vfs_inv R nconn v"
    "write_spec nconn ?c fd n (fd_view nconn (vs_vfs st)) r (fd_view nconn v)"
    using vfs_write_refines [OF vinv(1) nb(1) n(2)] by blast
  have "do_vfs_server_write P nconn st rq fd n = Some (ret_count r, st\<lparr>vs_buffer := ?b, vs_vfs := v\<rparr>)"
    using o(1) True by (cases r) (simp_all add: do_vfs_server_write_def Let_def ret_count_def portal_receive_up [OF P])
  moreover have "vfs_refines R nconn rq st (Some (ret_count r)) (st\<lparr>vs_buffer := ?b, vs_vfs := v\<rparr>)"
    using o(2,3) inv op nb True by (auto simp: vfs_refines_def vfs_server_inv_def vfs_spec_def conn_delta_def vfs_proc_def)
  ultimately show ?thesis by blast
qed

lemma server_read_refines:
  assumes inv: "vfs_server_inv R nconn st" and K: "mailboxes_up K" and P: "portals_up P" and op: "vr_op rq = VFS_READ fd n"
  shows "\<exists>rep st'. do_vfs_server_read K P nconn st rq fd n = Some (rep, st') \<and> vfs_refines R nconn rq st (Some rep) st'"
proof (cases "transfer_ok n")
  case False
  with inv op show ?thesis
    by (auto simp: do_vfs_server_read_def Let_def vfs_refines_def vfs_server_inv_def vfs_spec_def conn_delta_def)
next
  case True
  let ?c = "lookup_int (vs_conns st) (vr_source rq) (vr_mailbox_port rq)"
  have vinv: "vfs_inv R nconn (vs_vfs st)" "length (vs_buffer st) = NANVIX_FS_BLOCK_SIZE" using inv by (simp_all add: vfs_server_inv_def)
  have n: "n \<le> NANVIX_FS_BLOCK_SIZE" using True by (simp add: transfer_ok_def)
  obtain r b v where o: "vfs_read nconn (vs_vfs st) ?c fd False n = Some (r, b, v)" "vfs_inv R nconn v" "\<forall>x. b = Some x \<longrightarrow> length x = n"
    "read_spec nconn ?c fd n (fd_view nconn (vs_vfs st)) r (fd_view nconn v)"
    using vfs_read_refines [OF vinv(1)] by blast
  let ?b = "case b of None \<Rightarrow> vs_buffer st | Some x \<Rightarrow> x @ drop (length x) (vs_buffer st)"
  let ?rep = "(ret_count r)\<lparr>vp_data := Some (take n (vs_buffer st))\<rparr>"
  have len: "length ?b = NANVIX_FS_BLOCK_SIZE" "length (take n (vs_buffer st)) = n" using o(3) vinv(2) n by (auto split: option.splits)
  have "do_vfs_server_read K P nconn st rq fd n = Some (?rep, st\<lparr>vs_vfs := v, vs_buffer := ?b\<rparr>)"
    using o(1) True by (cases r) (simp_all add: do_vfs_server_read_def Let_def ret_count_def portal_reply_up [OF K P])
  moreover have "vfs_refines R nconn rq st (Some ?rep) (st\<lparr>vs_vfs := v, vs_buffer := ?b\<rparr>)"
    unfolding vfs_refines_def
  proof (intro conjI allI)
    show "vfs_spec nconn (vfs_proc st rq) (vr_op rq) (view nconn st) (Some ?rep) (view nconn (st\<lparr>vs_vfs := v, vs_buffer := ?b\<rparr>))"
      unfolding vfs_spec_def using o(4) op True len(2) by (auto simp: vfs_proc_def intro!: exI [of _ r] exI [of _ "take n (vs_buffer st)"])
  qed (use o(2) inv op len(1) in \<open>simp_all add: vfs_server_inv_def conn_delta_def\<close>)
  ultimately show ?thesis by blast
qed

lemma idle:
  "vfs_refines R nconn rq st rep st \<longleftrightarrow> vfs_server_inv R nconn st \<and> vfs_spec nconn (vfs_proc st rq) (vr_op rq) (view nconn st) rep (view nconn st) \<and>
     conn_delta (vr_op rq) rep = 0"
  "vfs_spec nconn c VFS_EXIT v None v" "vfs_spec nconn c (VFS_OTHER x) v None v"
  "vfs_spec nconn c VFS_CREAT v (Some (vfs_ret (Inl ENOSYS))) v" "vfs_spec nconn c VFS_UNLINK v (Some (vfs_ret (Inl ENOSYS))) v"
  "vfs_spec nconn c VFS_LINK v (Some (vfs_ret (Inl ENOSYS))) v" "vfs_spec nconn c VFS_TRUNCATE v (Some (vfs_ret (Inl ENOSYS))) v"
  "vfs_spec nconn c VFS_STAT v (Some (vfs_ret (Inl ENOSYS))) v"
  "conn_delta op (Some (vfs_ret (Inl ENOSYS))) = 0" "conn_delta op None = 0"
  by (auto simp: vfs_refines_def vfs_spec_def conn_delta_def)

lemma vfs_handle_refines:
  assumes "resource_laws R" "vfs_server_inv R nconn st" "mailboxes_up K" "portals_up P"
  obtains rep st' sd where "vfs_handle K P R nconn st rq = Some (rep, st', sd)" "vfs_refines R nconn rq st rep st'" "sd \<longleftrightarrow> vr_op rq = VFS_EXIT"
proof (cases "vr_op rq")
  case (VFS_OPEN nm oflag)
  from server_open_refines [OF assms(1,2) this] obtain rep st' where "do_vfs_server_open R nconn st rq nm oflag = Some (rep, st')"
    "vfs_refines R nconn rq st (Some rep) st'" by blast
  with VFS_OPEN show thesis by (intro that [of "Some rep" st' False]) (simp_all add: vfs_handle_def)
next
  case (VFS_CLOSE fd)
  from server_close_refines [OF assms(1,2) this] obtain rep st' where "do_vfs_server_close R nconn st rq fd = Some (rep, st')"
    "vfs_refines R nconn rq st (Some rep) st'" by blast
  with VFS_CLOSE show thesis by (intro that [of "Some rep" st' False]) (simp_all add: vfs_handle_def)
next
  case (VFS_READ fd n)
  from server_read_refines [OF assms(2-4) this] obtain rep st' where "do_vfs_server_read K P nconn st rq fd n = Some (rep, st')"
    "vfs_refines R nconn rq st (Some rep) st'" by blast
  with VFS_READ show thesis by (intro that [of "Some rep" st' False]) (simp_all add: vfs_handle_def)
next
  case (VFS_WRITE fd n)
  from server_write_refines [OF assms(2,4) this] obtain rep st' where "do_vfs_server_write P nconn st rq fd n = Some (rep, st')"
    "vfs_refines R nconn rq st (Some rep) st'" by blast
  with VFS_WRITE show thesis by (intro that [of "Some rep" st' False]) (simp_all add: vfs_handle_def)
next
  case (VFS_SEEK fd offset whence)
  from server_seek_refines [OF assms(2) this] obtain rep st' where "do_vfs_server_seek nconn st rq fd offset whence = Some (rep, st')"
    "vfs_refines R nconn rq st (Some rep) st'" by blast
  with VFS_SEEK show thesis by (intro that [of "Some rep" st' False]) (simp_all add: vfs_handle_def)
next
  case VFS_EXIT
  show thesis by (rule that [of None st True]) (use VFS_EXIT assms(2) in \<open>simp_all add: vfs_handle_def idle\<close>)
next
  case (VFS_OTHER x)
  show thesis by (rule that [of None st False]) (use VFS_OTHER assms(2) in \<open>simp_all add: vfs_handle_def idle\<close>)
qed (rule that [of "Some (vfs_ret (Inl ENOSYS))" st False]; use assms(2) in \<open>simp add: vfs_handle_def idle\<close>)+

lemma vfs_step_refines:
  assumes "resource_laws R" "vfs_server_inv R nconn st" "mailboxes_up K" "portals_up P"
  obtains rep st' sd where "vfs_step K P R nconn st rq = Some (rep, st', sd)" "vfs_refines R nconn rq st rep st'" "sd \<longleftrightarrow> vr_op rq = VFS_EXIT"
proof -
  obtain rep st' sd where h: "vfs_handle K P R nconn st rq = Some (rep, st', sd)" "vfs_refines R nconn rq st rep st'" "sd \<longleftrightarrow> vr_op rq = VFS_EXIT"
    by (rule vfs_handle_refines [OF assms])
  then have "vfs_step K P R nconn st rq = Some (rep, st', sd)" by (simp add: vfs_step_def mailbox_send_up [OF assms(3)] split: option.split)
  from this h(2,3) show thesis by (rule that)
qed

text \<open>The requests the loop reads, up to and with the first that ends it, and those that are answered.\<close>

fun handled :: "(kportal \<times> vfs_message) list \<Rightarrow> vfs_message list" where
  "handled [] = []"
| "handled ((P, rq) # rqs) = (if vr_op rq = VFS_EXIT then [rq] else rq # handled rqs)"

definition wants_reply :: "vfs_message \<Rightarrow> bool" where
  "wants_reply rq \<longleftrightarrow> (case vr_op rq of VFS_EXIT \<Rightarrow> False | VFS_OTHER _ \<Rightarrow> False | _ \<Rightarrow> True)"

lemma vfs_spec_reply: "vfs_spec nconn c (vr_op rq) v rep v' \<Longrightarrow> rep \<noteq> None \<longleftrightarrow> wants_reply rq"
  by (cases "vr_op rq") (auto simp: vfs_spec_def wants_reply_def split: if_splits)

lemma vfs_loop_total:
  assumes "resource_laws R" "mailboxes_up K" "vfs_server_inv R nconn st" "\<forall>(P, rq)\<in>set rqs. portals_up P"
  obtains reps st' down where "do_vfs_server_loop K R nconn st rqs = Some (reps, st', down)" "vfs_server_inv R nconn st'"
    "down \<longleftrightarrow> (\<exists>(P, rq)\<in>set rqs. vr_op rq = VFS_EXIT)" "map (\<lambda>rep. rep \<noteq> None) reps = map wants_reply (handled rqs)"
proof -
  have "\<exists>reps st' down. do_vfs_server_loop K R nconn st rqs = Some (reps, st', down) \<and> vfs_server_inv R nconn st' \<and>
    (down \<longleftrightarrow> (\<exists>(P, rq)\<in>set rqs. vr_op rq = VFS_EXIT)) \<and> map (\<lambda>rep. rep \<noteq> None) reps = map wants_reply (handled rqs)"
    using assms(3,4)
  proof (induction rqs arbitrary: st)
    case Nil
    then show ?case by auto
  next
    case (Cons x rqs)
    obtain P rq where x: "x = (P, rq)" by (cases x)
    have P: "portals_up P" using Cons.prems(2) x by simp
    obtain rep st1 sd where s: "vfs_step K P R nconn st rq = Some (rep, st1, sd)" "vfs_refines R nconn rq st rep st1" "sd \<longleftrightarrow> vr_op rq = VFS_EXIT"
      by (rule vfs_step_refines [OF assms(1) Cons.prems(1) assms(2) P])
    have inv: "vfs_server_inv R nconn st1" and sp: "vfs_spec nconn (vfs_proc st rq) (vr_op rq) (view nconn st) rep (view nconn st1)"
      using s(2) by (simp_all add: vfs_refines_def)
    note w = vfs_spec_reply [OF sp]
    obtain reps st2 down where "do_vfs_server_loop K R nconn st1 rqs = Some (reps, st2, down)" "vfs_server_inv R nconn st2"
      "down \<longleftrightarrow> (\<exists>(P, rq)\<in>set rqs. vr_op rq = VFS_EXIT)" "map (\<lambda>rep. rep \<noteq> None) reps = map wants_reply (handled rqs)"
      using Cons.IH [OF inv] Cons.prems(2) by auto
    with s inv w x show ?case by auto
  qed
  then show thesis using that by blast
qed

lemma vfs_startup_ok:
  assumes "resource_laws R" "vfs_zeroed R (NANVIX_CONNECTIONS_MAX nproc) (vs_vfs st)" "length (vs_buffer st) = NANVIX_FS_BLOCK_SIZE"
    "umalloc_ok SUPERBLOCK_SIZE" "umalloc_ok MINIX_BLOCK_SIZE"
  obtains st' where "do_vfs_server_startup R umalloc_ok SUPERBLOCK_SIZE t1 t2 junk nproc inportal (Inr x) st = Some (Inr 0, st')"
    "vfs_server_inv R (NANVIX_CONNECTIONS_MAX nproc) st'" "booted t2 junk nproc (NANVIX_CONNECTIONS_MAX nproc) (vs_vfs st')"
    "vs_conns st' = connections_setup nproc" "vs_buffer st' = vs_buffer st"
proof -
  obtain v where v: "vfs_init R umalloc_ok SUPERBLOCK_SIZE t1 t2 junk nproc (vs_vfs st) = Some v" "vfs_inv R (NANVIX_CONNECTIONS_MAX nproc) v"
    "booted t2 junk nproc (NANVIX_CONNECTIONS_MAX nproc) v"
    using vfs_init_ok [where ?t1.0 = t1 and ?t2.0 = t2 and junk = junk and nproc = nproc, OF assms(1,2) assms(4,5)] by blast
  let ?st = "st\<lparr>vs_inportal := inportal, vs_conns := connections_setup nproc, vs_vfs := v\<rparr>"
  show thesis
    by (rule that [of ?st]) (use v assms(3) conn_wf_setup in \<open>simp_all add: do_vfs_server_startup_def vfs_server_inv_def\<close>)
qed

section \<open>Reachable states\<close>

text \<open>The states a server that started in \<open>st0\<close> can be in, whatever its clients ask for.\<close>

inductive vfs_reach :: "kmailbox \<Rightarrow> 'r resource_ops \<Rightarrow> nat \<Rightarrow> 'r vfs_srv \<Rightarrow> 'r vfs_srv \<Rightarrow> bool"
  for K R nconn st0 where
  start: "vfs_reach K R nconn st0 st0"
| step: "vfs_reach K R nconn st0 st \<Longrightarrow> portals_up P \<Longrightarrow> vfs_step K P R nconn st rq = Some (rep, st', sd) \<Longrightarrow> vfs_reach K R nconn st0 st'"

definition only_first :: "fd_map \<Rightarrow> bool" where
  "only_first v \<longleftrightarrow> (\<forall>p fd. p \<noteq> 0 \<longrightarrow> v (p, fd) = None)"

lemma connect_zero: "conn_int (fst (connect ct pid port)) = 0 \<or> conn_int (fst (connect ct pid port)) = -1"
  by (auto simp: connect_def conn_int_def split: sum.splits option.splits)

lemma only_first_specs:
  "close_spec nconn c fd v r v' \<Longrightarrow> only_first v \<Longrightarrow> only_first v'" "read_spec nconn c fd n v r v' \<Longrightarrow> only_first v \<Longrightarrow> only_first v'"
  "write_spec nconn c fd n v r v' \<Longrightarrow> only_first v \<Longrightarrow> only_first v'" "seek_spec nconn c fd offset whence v r v' \<Longrightarrow> only_first v \<Longrightarrow> only_first v'"
  by (cases r; auto simp: close_spec_def read_spec_def write_spec_def seek_spec_def only_first_def split: if_splits)+

lemma only_first_step:
  assumes "only_first v" "vfs_spec nconn c (vr_op rq) v rep v'" "c = vfs_proc st rq"
  shows "only_first v'"
proof (cases "vr_op rq")
  case (VFS_OPEN nm fl)
  then have "c = 0 \<or> c = -1" using assms(3) connect_zero by (simp add: vfs_proc_def)
  moreover obtain r where "open_spec nconn c fl v r v'" using VFS_OPEN assms(2) by (auto simp: vfs_spec_def)
  ultimately show ?thesis using assms(1) by (cases r) (auto simp: open_spec_def only_first_def proc_ok_def)
qed (use assms(1,2) in \<open>auto simp: vfs_spec_def dest: only_first_specs split: if_splits\<close>)

lemma vfs_reach_inv:
  assumes "resource_laws R" "mailboxes_up K" "vfs_reach K R nconn st0 st" "vfs_server_inv R nconn st0" "only_first (view nconn st0)"
  shows "vfs_server_inv R nconn st \<and> only_first (view nconn st)"
  using assms(3)
proof (induction rule: vfs_reach.induct)
  case start
  with assms(4,5) show ?case by simp
next
  case (step st P rq rep st' sd)
  then have inv: "vfs_server_inv R nconn st" "only_first (view nconn st)" by auto
  from vfs_step_refines [OF assms(1) inv(1) assms(2) step.hyps(2), of rq] step.hyps(3) have "vfs_refines R nconn rq st rep st'" by fastforce
  then have "vfs_server_inv R nconn st'" and sp: "vfs_spec nconn (vfs_proc st rq) (vr_op rq) (view nconn st) rep (view nconn st')"
    by (simp_all add: vfs_refines_def)
  then show ?case using only_first_step [OF inv(2) sp refl] by simp
qed

section \<open>A concrete server\<close>

definition vfs_server_static :: "flags vfs_srv" where
  "vfs_server_static = \<lparr>vs_conns = [], vs_buffer = replicate NANVIX_FS_BLOCK_SIZE 0, vs_inportal = -1, vs_vfs = vfs_static 8\<rparr>"

definition vfs_server_booted :: "flags vfs_srv" where
  "vfs_server_booted = snd (the (do_vfs_server_startup plain_resource (\<lambda>n. n \<le> 4096) 64 0 0 0 2 0 (Inr 0) vfs_server_static))"

lemma vfs_server_static_ok:
  "vfs_zeroed plain_resource (NANVIX_CONNECTIONS_MAX 2) (vs_vfs vfs_server_static)" "length (vs_buffer vfs_server_static) = NANVIX_FS_BLOCK_SIZE"
  "(64::nat) \<le> 4096" "MINIX_BLOCK_SIZE \<le> 4096"
  using vfs_static_zeroed [of 8] by (simp_all add: vfs_server_static_def NANVIX_CONNECTIONS_MAX_def MINIX_BLOCK_SIZE_def)

lemma vfs_server_booted_ok: "vfs_server_inv plain_resource 8 vfs_server_booted" "booted 0 0 2 8 (vs_vfs vfs_server_booted)"
  "vs_conns vfs_server_booted = connections_setup 2" "vs_buffer vfs_server_booted = replicate NANVIX_FS_BLOCK_SIZE 0"
proof -
  obtain st' where st': "do_vfs_server_startup plain_resource (\<lambda>n. n \<le> 4096) 64 0 0 0 2 0 (Inr 0) vfs_server_static = Some (Inr 0, st')"
    "vfs_server_inv plain_resource (NANVIX_CONNECTIONS_MAX 2) st'" "booted 0 0 2 (NANVIX_CONNECTIONS_MAX 2) (vs_vfs st')"
    "vs_conns st' = connections_setup 2" "vs_buffer st' = vs_buffer vfs_server_static"
    by (rule vfs_startup_ok [where umalloc_ok = "\<lambda>n. n \<le> 4096", OF plain_resource_laws vfs_server_static_ok]) (rule that; assumption)
  then show "vfs_server_inv plain_resource 8 vfs_server_booted" "booted 0 0 2 8 (vs_vfs vfs_server_booted)"
    "vs_conns vfs_server_booted = connections_setup 2" "vs_buffer vfs_server_booted = replicate NANVIX_FS_BLOCK_SIZE 0"
    by (simp_all add: vfs_server_booted_def NANVIX_CONNECTIONS_MAX_def vfs_server_static_def)
qed

definition vfs_rq :: "int \<Rightarrow> vfs_op \<Rightarrow> vfs_message" where
  "vfs_rq pid op = \<lparr>vr_source = pid, vr_mailbox_port = 0, vr_portal_port = 0, vr_op = op\<rparr>"

definition zeros_portal :: kportal where "zeros_portal = kportal_ideal (\<lambda>n. replicate n 0)"

lemma zeros_portal_up [simp]: "portals_up zeros_portal"
  by (simp add: zeros_portal_def kportal_ideal_up)

text \<open>After the client at node 3 has opened the disk.\<close>

definition vfs_server_opened :: "flags vfs_srv" where
  "vfs_server_opened = fst (snd (the (vfs_step kmailbox_ideal zeros_portal plain_resource 8 vfs_server_booted (vfs_rq 3 (VFS_OPEN ''disk'' O_RDWR)))))"

lemma vfs_server_opened_ok:
  "vfs_step kmailbox_ideal zeros_portal plain_resource 8 vfs_server_booted (vfs_rq 3 (VFS_OPEN ''disk'' O_RDWR)) = Some (Some (ret_fd (Inr 0)), vfs_server_opened, False)"
  "vfs_server_inv plain_resource 8 vfs_server_opened" "lookup_int (vs_conns vfs_server_opened) 3 0 = 0" "disk_fd 8 (vs_vfs vfs_server_opened) 0 0"
  "fd_pos 8 (vs_vfs vfs_server_opened) 0 0 = 0" "vs_conns vfs_server_opened = snd (connect (connections_setup 2) 3 0)"
proof -
  have n: "(0::nat) < 2" "(0::nat) < 8" by simp_all
  have vinv: "vfs_inv plain_resource 8 (vs_vfs vfs_server_booted)" using vfs_server_booted_ok(1) by (simp add: vfs_server_inv_def)
  obtain v where v: "vfs_open plain_resource 8 (vs_vfs vfs_server_booted) 0 (Some ''disk'') O_RDWR 0 = Some (Inr 0, v)" "vfs_inv plain_resource 8 v" "disk_fd 8 v 0 0"
    "fd_pos 8 v 0 0 = 0"
    by (rule boot_open [OF plain_resource_laws vinv vfs_server_booted_ok(2) n]) (rule that; assumption)
  have con: "fst (connect (connections_setup 2) 3 0) = Inr 0" "lookup_int (snd (connect (connections_setup 2) 3 0)) 3 0 = 0"
    by code_simp+
  have nm: "cname ''disk'' = ''disk''" by (simp add: cname_def)
  have "do_vfs_server_open plain_resource 8 vfs_server_booted (vfs_rq 3 (VFS_OPEN ''disk'' O_RDWR)) ''disk'' O_RDWR =
      Some (ret_fd (Inr 0), vfs_server_booted\<lparr>vs_vfs := v, vs_conns := snd (connect (connections_setup 2) 3 0)\<rparr>)"
    using con(1) v(1) nm
    by (simp add: do_vfs_server_open_def Let_def vfs_rq_def vfs_server_booted_ok(3) conn_int_def ret_fd_def split_beta)
  then have step: "vfs_step kmailbox_ideal zeros_portal plain_resource 8 vfs_server_booted (vfs_rq 3 (VFS_OPEN ''disk'' O_RDWR)) =
      Some (Some (ret_fd (Inr 0)), vfs_server_booted\<lparr>vs_vfs := v, vs_conns := snd (connect (connections_setup 2) 3 0)\<rparr>, False)"
    by (simp add: vfs_step_def vfs_handle_def mailbox_send_up vfs_rq_def)
  then have eq: "vfs_server_opened = vfs_server_booted\<lparr>vs_vfs := v, vs_conns := snd (connect (connections_setup 2) 3 0)\<rparr>" by (simp add: vfs_server_opened_def)
  show "vfs_step kmailbox_ideal zeros_portal plain_resource 8 vfs_server_booted (vfs_rq 3 (VFS_OPEN ''disk'' O_RDWR)) = Some (Some (ret_fd (Inr 0)), vfs_server_opened, False)"
    using step eq by simp
  show "vfs_server_inv plain_resource 8 vfs_server_opened"
    using vfs_step_refines [OF plain_resource_laws vfs_server_booted_ok(1) kmailbox_ideal_up zeros_portal_up, of "vfs_rq 3 (VFS_OPEN ''disk'' O_RDWR)"] step eq
    by (metis (no_types, lifting) Pair_inject option.inject vfs_refines_def)
  show "lookup_int (vs_conns vfs_server_opened) 3 0 = 0" "disk_fd 8 (vs_vfs vfs_server_opened) 0 0" "fd_pos 8 (vs_vfs vfs_server_opened) 0 0 = 0"
    "vs_conns vfs_server_opened = snd (connect (connections_setup 2) 3 0)"
    using con(2) v(3,4) by (simp_all add: eq)
qed

section \<open>One block through the server\<close>

text \<open>What a write and a read of a block through a descriptor of the disk do, when the range fits on the disk.\<close>

lemma vfs_write_block:
  assumes "vfs_server_inv R nconn st" "mailboxes_up K" "portals_up P" "vr_op rq = VFS_WRITE fd n" "transfer_ok n"
    and "c = lookup_int (vs_conns st) (vr_source rq) (vr_mailbox_port rq)" "disk_fd nconn (vs_vfs st) c fd" "pos = fd_pos nconn (vs_vfs st) c fd"
    and "pos + int n \<le> int NANVIX_RAMDISK_SIZE" "data = kportal_read P (vs_inportal st) n"
  obtains v where "vfs_step K P R nconn st rq = Some (Some ((vfs_ret (Inr 0))\<lparr>vp_count := Some (int n)\<rparr>),
      st\<lparr>vs_vfs := v, vs_buffer := data @ drop n (vs_buffer st)\<rparr>, False)"
    "vfs_inv R nconn v" "disk_fd nconn v c fd" "v_disk v = disk_put (v_disk (vs_vfs st)) (nat pos) data" "fd_pos nconn v c fd = pos + int n" "length data = n" "0 \<le> pos"
proof -
  have inv: "vfs_inv R nconn (vs_vfs st)" using assms(1) by (simp add: vfs_server_inv_def)
  have n: "n \<noteq> 0" using assms(5) by (simp add: transfer_ok_def)
  have p: "pos < int NANVIX_RAMDISK_SIZE" using assms(9) n by linarith
  have len: "length data = n" using assms(3,10) by (simp add: portals_up_def)
  have pos: "0 \<le> pos" by (rule disk_fdE [OF inv assms(7)]) (simp add: assms(8))
  let ?b = "data @ drop n (vs_buffer st)"
  have nb: "n \<le> length ?b" using len by simp
  obtain v where v: "vfs_inv R nconn v" "disk_fd nconn v c fd" "vfs_write nconn (vs_vfs st) c fd (Some ?b) n = Some (Inr (int n), v)"
    "v_disk v = disk_put (v_disk (vs_vfs st)) (nat pos) data" "fd_pos nconn v c fd = pos + int n"
    by (rule disk_write [OF inv assms(7) nb n]) (use assms(8,9) p len in simp)
  have "do_vfs_server_write P nconn st rq fd n = Some ((vfs_ret (Inr 0))\<lparr>vp_count := Some (int n)\<rparr>, st\<lparr>vs_vfs := v, vs_buffer := ?b\<rparr>)"
    using v(3) assms(5,6,10) by (simp add: do_vfs_server_write_def Let_def portal_receive_up [OF assms(3)])
  then have "vfs_step K P R nconn st rq = Some (Some ((vfs_ret (Inr 0))\<lparr>vp_count := Some (int n)\<rparr>), st\<lparr>vs_vfs := v, vs_buffer := ?b\<rparr>, False)"
    using assms(4) mailbox_send_up [OF assms(2)] by (simp add: vfs_step_def vfs_handle_def)
  with v len pos that show thesis by blast
qed

lemma vfs_read_block:
  assumes "vfs_server_inv R nconn st" "mailboxes_up K" "portals_up P" "vr_op rq = VFS_READ fd n" "transfer_ok n"
    and "c = lookup_int (vs_conns st) (vr_source rq) (vr_mailbox_port rq)" "disk_fd nconn (vs_vfs st) c fd" "pos = fd_pos nconn (vs_vfs st) c fd"
    and "pos + int n \<le> int NANVIX_RAMDISK_SIZE" "data = disk_get (v_disk (vs_vfs st)) (nat pos) n"
  obtains v where "vfs_step K P R nconn st rq = Some (Some ((vfs_ret (Inr 0))\<lparr>vp_count := Some (int n), vp_data := Some (take n (vs_buffer st))\<rparr>),
      st\<lparr>vs_vfs := v, vs_buffer := data @ drop n (vs_buffer st)\<rparr>, False)"
    "vfs_inv R nconn v" "disk_fd nconn v c fd" "v_disk v = v_disk (vs_vfs st)" "fd_pos nconn v c fd = pos + int n" "length data = n" "0 \<le> pos"
proof -
  have inv: "vfs_inv R nconn (vs_vfs st)" using assms(1) by (simp add: vfs_server_inv_def)
  have n: "n \<noteq> 0" using assms(5) by (simp add: transfer_ok_def)
  have p: "pos < int NANVIX_RAMDISK_SIZE" using assms(9) n by linarith
  obtain v where v: "vfs_inv R nconn v" "disk_fd nconn v c fd" "v_disk v = v_disk (vs_vfs st)" "fd_pos nconn v c fd = pos + int n"
    "vfs_read nconn (vs_vfs st) c fd False n = Some (Inr (int n), Some data, v)"
    by (rule disk_read [OF inv assms(7) n]) (use assms(8-10) p in simp)
  have "disks_ok (v_disk (vs_vfs st))" using inv by (auto elim!: vfs_invE dest!: mountedD(9) dir_structD(3))
  moreover have pos: "0 \<le> pos" by (rule disk_fdE [OF inv assms(7)]) (simp add: assms(8))
  ultimately have len: "length data = n" using assms(9,10) by simp
  have "do_vfs_server_read K P nconn st rq fd n = Some ((vfs_ret (Inr 0))\<lparr>vp_count := Some (int n), vp_data := Some (take n (vs_buffer st))\<rparr>,
      st\<lparr>vs_vfs := v, vs_buffer := data @ drop n (vs_buffer st)\<rparr>)"
    using v(5) assms(5,6) portal_reply_up [OF assms(2,3)] len by (simp add: do_vfs_server_read_def Let_def)
  then have "vfs_step K P R nconn st rq = Some (Some ((vfs_ret (Inr 0))\<lparr>vp_count := Some (int n), vp_data := Some (take n (vs_buffer st))\<rparr>),
      st\<lparr>vs_vfs := v, vs_buffer := data @ drop n (vs_buffer st)\<rparr>, False)"
    using assms(4) mailbox_send_up [OF assms(2)] by (simp add: vfs_step_def vfs_handle_def)
  with v len pos that show thesis by blast
qed

section \<open>Properties\<close>

text \<open>
  C9. The file system server survives its clients. Started from zeroed static storage with its name linked, an allocator that grants the sizes and working
  mailboxes and portals, it handles every sequence of requests, malformed ones and writes over the file system's own blocks included, without
  failing an assertion or touching memory outside its tables, and shuts down, without failing one, exactly when asked to exit.
\<close>

theorem vfs_server_survives:
  assumes "resource_laws R" "mailboxes_up K" "\<forall>(P, rq)\<in>set rqs. portals_up P"
    and "vfs_zeroed R (NANVIX_CONNECTIONS_MAX nproc) (vs_vfs st)" "length (vs_buffer st) = NANVIX_FS_BLOCK_SIZE"
    and "umalloc_ok SUPERBLOCK_SIZE" "umalloc_ok MINIX_BLOCK_SIZE"
  shows "\<exists>reps st' down. vfs_server K R umalloc_ok SUPERBLOCK_SIZE t1 t2 junk nproc inportal (Inr x) st rqs = Some (reps, st', down) \<and>
    (down \<longleftrightarrow> (\<exists>(P, rq)\<in>set rqs. vr_op rq = VFS_EXIT))"
proof -
  let ?n = "NANVIX_CONNECTIONS_MAX nproc"
  obtain st1 where s1: "do_vfs_server_startup R umalloc_ok SUPERBLOCK_SIZE t1 t2 junk nproc inportal (Inr x) st = Some (Inr 0, st1)" "vfs_server_inv R ?n st1"
    by (rule vfs_startup_ok [where umalloc_ok = umalloc_ok, OF assms(1,4-7)])
  obtain reps st2 down where s2: "do_vfs_server_loop K R ?n st1 rqs = Some (reps, st2, down)" "vfs_server_inv R ?n st2"
    "down \<longleftrightarrow> (\<exists>(P, rq)\<in>set rqs. vr_op rq = VFS_EXIT)"
    by (rule vfs_loop_total [OF assms(1,2) s1(2) assms(3)])
  have "vfs_inv R ?n (vs_vfs st2)" using s2(2) by (simp add: vfs_server_inv_def)
  from vfs_shutdown_ok [OF assms(1) this] obtain v where "vfs_shutdown R (vs_vfs st2) = Some v" by blast
  with s1(1) s2 show ?thesis by (auto simp: vfs_server_def do_vfs_server_shutdown_def)
qed

theorem vfs_server_survives_witness:
  "\<exists>reps st'. vfs_server kmailbox_ideal plain_resource (\<lambda>n. n \<le> 4096) 64 0 0 0 2 0 (Inr 0) vfs_server_static
     [(zeros_portal, vfs_rq 3 (VFS_OPEN ''disk'' O_RDWR)), (zeros_portal, vfs_rq 3 (VFS_WRITE 0 1024)), (zeros_portal, vfs_rq (-7) (VFS_CLOSE 99)),
      (zeros_portal, vfs_rq 3 VFS_EXIT)] = Some (reps, st', True)"
proof -
  let ?rqs = "[(zeros_portal, vfs_rq 3 (VFS_OPEN ''disk'' O_RDWR)), (zeros_portal, vfs_rq 3 (VFS_WRITE 0 1024)), (zeros_portal, vfs_rq (-7) (VFS_CLOSE 99)),
      (zeros_portal, vfs_rq 3 VFS_EXIT)]"
  have "\<forall>(P, rq)\<in>set ?rqs. portals_up P" by simp
  from vfs_server_survives [where umalloc_ok = "\<lambda>n. n \<le> 4096", OF plain_resource_laws kmailbox_ideal_up this vfs_server_static_ok]
  show ?thesis by (fastforce simp: vfs_rq_def)
qed

text \<open>
  C8. The file system server refines its specification. In every state that satisfies the invariant a request is answered, the invariant is kept, the
  descriptors change as the specification of the request says and in no other way, so a request touches at most the one descriptor it names, and the
  references of the client's connection grow by one with a successful open, shrink by one with a successful close and stay otherwise.
\<close>

theorem vfs_step_correct:
  assumes "resource_laws R" "vfs_server_inv R nconn st" "mailboxes_up K" "portals_up P"
  shows "\<exists>rep st' sd. vfs_step K P R nconn st rq = Some (rep, st', sd) \<and> (sd \<longleftrightarrow> vr_op rq = VFS_EXIT) \<and> vfs_refines R nconn rq st rep st'"
  by (rule vfs_step_refines [OF assms, of rq]) blast

theorem vfs_step_correct_witness:
  "\<exists>rep st' sd. vfs_step kmailbox_ideal zeros_portal plain_resource 8 vfs_server_opened (vfs_rq 3 (VFS_SEEK 0 512 SEEK_SET)) = Some (rep, st', sd) \<and>
     vfs_refines plain_resource 8 (vfs_rq 3 (VFS_SEEK 0 512 SEEK_SET)) vfs_server_opened rep st'"
  using vfs_step_correct [OF plain_resource_laws vfs_server_opened_ok(2) kmailbox_ideal_up zeros_portal_up] by blast

text \<open>
  Every request is answered. The loop answers each request that it handles, up to the one that ends it, exactly when the request has a reply: an exit and an
  unknown operation have none, every other operation gets one whether it succeeds, fails or is not supported.
\<close>

theorem vfs_requests_answered:
  assumes "resource_laws R" "mailboxes_up K" "vfs_server_inv R nconn st" "\<forall>(P, rq)\<in>set rqs. portals_up P"
  shows "\<exists>reps st' down. do_vfs_server_loop K R nconn st rqs = Some (reps, st', down) \<and>
    map (\<lambda>rep. rep \<noteq> None) reps = map wants_reply (handled rqs)"
  by (rule vfs_loop_total [OF assms]) blast

theorem vfs_requests_answered_witness:
  "\<exists>reps st' down. do_vfs_server_loop kmailbox_ideal plain_resource 8 vfs_server_opened
     [(zeros_portal, vfs_rq 3 VFS_STAT), (zeros_portal, vfs_rq 3 (VFS_OTHER 99)), (zeros_portal, vfs_rq 5 (VFS_READ 0 16)), (zeros_portal, vfs_rq 3 VFS_EXIT),
      (zeros_portal, vfs_rq 3 VFS_STAT)] = Some (reps, st', down) \<and> map (\<lambda>rep. rep \<noteq> None) reps = [True, False, True, False]"
  using vfs_requests_answered [OF plain_resource_laws kmailbox_ideal_up vfs_server_opened_ok(2),
    of "[(zeros_portal, vfs_rq 3 VFS_STAT), (zeros_portal, vfs_rq 3 (VFS_OTHER 99)), (zeros_portal, vfs_rq 5 (VFS_READ 0 16)), (zeros_portal, vfs_rq 3 VFS_EXIT),
      (zeros_portal, vfs_rq 3 VFS_STAT)]"]
  by (simp add: wants_reply_def vfs_rq_def)

text \<open>
  A read sends the previous contents of the buffer. The server sends its static buffer through the portal before it reads the file into it, so the client
  receives what the last transfer of any client left there; the bytes of the file are in the buffer only after the reply.
\<close>

theorem vfs_read_sends_old_buffer:
  assumes "resource_laws R" "vfs_server_inv R nconn st" "mailboxes_up K" "portals_up P" "vr_op rq = VFS_READ fd n" "transfer_ok n"
    and "c = lookup_int (vs_conns st) (vr_source rq) (vr_mailbox_port rq)" "disk_fd nconn (vs_vfs st) c fd" "pos = fd_pos nconn (vs_vfs st) c fd"
    and "pos + int n \<le> int NANVIX_RAMDISK_SIZE"
  shows "\<exists>rep st'. vfs_step K P R nconn st rq = Some (Some rep, st', False) \<and> vp_status rep = Inr 0 \<and> vp_count rep = Some (int n) \<and>
    vp_data rep = Some (take n (vs_buffer st)) \<and> take n (vs_buffer st') = disk_get (v_disk (vs_vfs st)) (nat pos) n"
proof -
  let ?b = "disk_get (v_disk (vs_vfs st)) (nat pos) n"
  obtain v where "vfs_step K P R nconn st rq = Some (Some ((vfs_ret (Inr 0))\<lparr>vp_count := Some (int n), vp_data := Some (take n (vs_buffer st))\<rparr>),
      st\<lparr>vs_vfs := v, vs_buffer := ?b @ drop n (vs_buffer st)\<rparr>, False)" "length ?b = n"
    by (rule vfs_read_block [OF assms(2-10) refl])
  then show ?thesis by (simp add: vfs_ret_def)
qed

theorem vfs_read_sends_old_buffer_witness:
  "\<exists>rep st'. vfs_step kmailbox_ideal zeros_portal plain_resource 8 vfs_server_opened (vfs_rq 3 (VFS_READ 0 16)) = Some (Some rep, st', False) \<and>
     vp_count rep = Some 16 \<and> vp_data rep = Some (take 16 (vs_buffer vfs_server_opened))"
proof -
  have ok: "transfer_ok 16" "0 + int 16 \<le> int NANVIX_RAMDISK_SIZE" by (simp_all add: transfer_ok_def disk_consts)
  have rq: "vr_op (vfs_rq 3 (VFS_READ 0 16)) = VFS_READ 0 16"
    "0 = lookup_int (vs_conns vfs_server_opened) (vr_source (vfs_rq 3 (VFS_READ 0 16))) (vr_mailbox_port (vfs_rq 3 (VFS_READ 0 16)))"
    using vfs_server_opened_ok(3) by (simp_all add: vfs_rq_def)
  have p: "0 = fd_pos 8 (vs_vfs vfs_server_opened) 0 0" using vfs_server_opened_ok(5) by simp
  from vfs_read_sends_old_buffer [OF plain_resource_laws vfs_server_opened_ok(2) kmailbox_ideal_up zeros_portal_up rq(1) ok(1) rq(2) vfs_server_opened_ok(4) p ok(2)]
  show ?thesis by auto
qed

text \<open>
  C38. Only the first client can use its files. An open always runs as process zero, the other requests run as the process with the index of the client's
  connection, so in every state that a started server can reach, a client whose connection is not entry zero of the table, in particular one that opened a file
  successfully, is refused every read, write, seek and close, and no descriptor changes.
\<close>

theorem vfs_other_clients_locked_out:
  assumes "resource_laws R" "mailboxes_up K" "vfs_server_inv R nconn st0" "view nconn st0 = Map.empty" "vfs_reach K R nconn st0 st" "portals_up P"
    and "vr_op rq = VFS_READ fd n \<or> vr_op rq = VFS_WRITE fd n \<or> vr_op rq = VFS_SEEK fd offset whence \<or> vr_op rq = VFS_CLOSE fd"
    and "lookup_int (vs_conns st) (vr_source rq) (vr_mailbox_port rq) \<noteq> 0"
  shows "\<exists>rep st' e. vfs_step K P R nconn st rq = Some (Some rep, st', False) \<and> vp_status rep = Inl e \<and> view nconn st' = view nconn st"
proof -
  have "only_first (view nconn st0)" using assms(4) by (simp add: only_first_def)
  from vfs_reach_inv [OF assms(1,2,5,3) this] have inv: "vfs_server_inv R nconn st" "only_first (view nconn st)" by auto
  obtain rep st' sd where s: "vfs_step K P R nconn st rq = Some (rep, st', sd)" "vfs_refines R nconn rq st rep st'" "sd \<longleftrightarrow> vr_op rq = VFS_EXIT"
    by (rule vfs_step_refines [OF assms(1) inv(1) assms(2,6)])
  let ?c = "lookup_int (vs_conns st) (vr_source rq) (vr_mailbox_port rq)"
  have proc: "vfs_proc st rq = ?c" using assms(7) by (auto simp: vfs_proc_def)
  have sp: "vfs_spec nconn ?c (vr_op rq) (view nconn st) rep (view nconn st')" using s(2) proc by (simp add: vfs_refines_def)
  have none: "view nconn st (nat ?c, j) = None" if "proc_ok nconn ?c" for j
    using inv(2) assms(8) that by (auto simp: only_first_def proc_ok_def)
  have "\<exists>r e. rep = Some r \<and> vp_status r = Inl e \<and> view nconn st' = view nconn st"
    using assms(7)
  proof (elim disjE)
    assume "vr_op rq = VFS_READ fd n"
    with sp none show ?thesis by (fastforce simp: vfs_spec_def read_spec_def ret_count_def vfs_ret_def split: if_splits sum.splits)
  next
    assume "vr_op rq = VFS_WRITE fd n"
    with sp none show ?thesis by (fastforce simp: vfs_spec_def write_spec_def ret_count_def vfs_ret_def split: if_splits sum.splits)
  next
    assume "vr_op rq = VFS_SEEK fd offset whence"
    with sp none show ?thesis by (fastforce simp: vfs_spec_def seek_spec_def ret_offset_def vfs_ret_def split: sum.splits)
  next
    assume "vr_op rq = VFS_CLOSE fd"
    with sp none show ?thesis by (fastforce simp: vfs_spec_def close_spec_def vfs_ret_def split: if_splits)
  qed
  then show ?thesis using s(1,3) assms(7) by auto
qed

lemma server_open_conns:
  assumes "vfs_step K P R nconn st (vfs_rq pid (VFS_OPEN nm fl)) = Some (rep, st', sd)"
  shows "vs_conns st' = snd (connect (vs_conns st) pid 0) \<or> vs_conns st' = snd (disconnect (snd (connect (vs_conns st) pid 0)) pid 0)"
proof -
  obtain r where "do_vfs_server_open R nconn st (vfs_rq pid (VFS_OPEN nm fl)) nm fl = Some (r, st')"
    using assms by (auto simp: vfs_step_def vfs_handle_def vfs_rq_def bind_eq_Some_conv)
  then obtain ret v where "(case ret of Inl e \<Rightarrow> Some (vfs_ret (Inl e), st\<lparr>vs_vfs := v, vs_conns := snd (disconnect (snd (connect (vs_conns st) pid 0)) pid 0)\<rparr>)
      | Inr fd \<Rightarrow> Some ((vfs_ret (Inr 0))\<lparr>vp_fd := Some fd\<rparr>, st\<lparr>vs_vfs := v, vs_conns := snd (connect (vs_conns st) pid 0)\<rparr>)) = Some (r, st')"
    by (auto simp: do_vfs_server_open_def vfs_rq_def Let_def bind_eq_Some_conv split_beta)
  then show ?thesis by (cases ret) auto
qed

theorem vfs_other_clients_locked_out_witness:
  "\<exists>rep1 st1 rep2 st2 e. vfs_step kmailbox_ideal zeros_portal plain_resource 8 vfs_server_opened (vfs_rq 5 (VFS_OPEN ''disk'' O_RDWR)) = Some (rep1, st1, False) \<and>
     vfs_step kmailbox_ideal zeros_portal plain_resource 8 st1 (vfs_rq 5 (VFS_READ 1 16)) = Some (Some rep2, st2, False) \<and> vp_status rep2 = Inl e"
proof -
  let ?op = "vfs_rq 5 (VFS_OPEN ''disk'' O_RDWR)" and ?rd = "vfs_rq 5 (VFS_READ 1 16)"
  obtain rep1 st1 sd where s: "vfs_step kmailbox_ideal zeros_portal plain_resource 8 vfs_server_opened ?op = Some (rep1, st1, sd)" "sd \<longleftrightarrow> vr_op ?op = VFS_EXIT"
    by (rule vfs_step_refines [OF plain_resource_laws vfs_server_opened_ok(2) kmailbox_ideal_up zeros_portal_up])
  have sd: "\<not> sd" using s(2) by (simp add: vfs_rq_def)
  let ?ct = "snd (connect (connections_setup 2) 3 0)"
  have "lookup_int (snd (connect ?ct 5 0)) 5 0 \<noteq> 0" "lookup_int (snd (disconnect (snd (connect ?ct 5 0)) 5 0)) 5 0 \<noteq> 0" by code_simp+
  then have look: "lookup_int (vs_conns st1) (vr_source ?rd) (vr_mailbox_port ?rd) \<noteq> 0"
    using server_open_conns [OF s(1)] vfs_server_opened_ok(6) by (auto simp: vfs_rq_def)
  have reach: "vfs_reach kmailbox_ideal plain_resource 8 vfs_server_booted st1"
    using vfs_reach.step [OF vfs_reach.step [OF vfs_reach.start zeros_portal_up vfs_server_opened_ok(1)] zeros_portal_up s(1)] .
  have "view 8 vfs_server_booted = Map.empty" using vfs_server_booted_ok(2) by (simp add: booted_def)
  from vfs_other_clients_locked_out [OF plain_resource_laws kmailbox_ideal_up vfs_server_booted_ok(1) this reach zeros_portal_up _ look, of 1 16 0 0]
  obtain rep2 st2 e where "vfs_step kmailbox_ideal zeros_portal plain_resource 8 st1 ?rd = Some (Some rep2, st2, False)" "vp_status rep2 = Inl e"
    by (auto simp: vfs_rq_def)
  with s(1) sd show ?thesis by auto
qed

end
