(* ===== verification/NameServer.thy ===== *)
theory NameServer
  imports Refcount Slots
begin

text \<open>
  The name server, \<open>src/sys/pm/name/main.c\<close>: a table of process names, each bound to the NoC
  node and mailbox port that linked it, with a reference count per link. Requests arrive in a
  mailbox; \<^term>\<open>name_server_step\<close> is one turn of the server's loop and \<^term>\<open>name_server_loop\<close>
  the loop over the requests it reads. The node the server runs on, its thread number and the
  kernel's \<open>node_is_valid\<close> are parameters.

  The lemmas show that the table is an injective naming with exact reference counts
  (\<^term>\<open>name_wf\<close>), that \<open>lookup\<close>, \<open>link\<close> and \<open>unlink\<close> implement operations on the partial map
  \<^term>\<open>name_abs\<close>, and which requests abort the server.
\<close>

section \<open>State\<close>

definition NANVIX_PNAME_MAX :: nat where "NANVIX_PNAME_MAX = 256"

definition NANVIX_PROC_NAME_MAX :: nat where "NANVIX_PROC_NAME_MAX = 64"

record message_header =
  source :: "16 word"
  mailbox_port :: "8 word"
  portal_port :: "8 word"

text \<open>The opcode of the header and the member of the payload union it selects.\<close>

datatype name_op =
    NAME_LOOKUP string
  | NAME_LINK string
  | NAME_UNLINK string
  | NAME_ALIVE "64 word"
  | NAME_EXIT
  | NAME_OTHER "8 word"

record name_message =
  nm_header :: message_header
  nm_op :: name_op

record proc_entry =
  nodenum :: int
  port_nr :: int
  pname :: string
  timestamp :: "64 word"
  p_refcount :: int

record nserver =
  procs :: "proc_entry list"
  nr_registration :: int
  nlinks :: int
  nunlinks :: int
  nlookups :: int

text \<open>Static storage starts out zeroed.\<close>

definition name_boot :: nserver where
  "name_boot = \<lparr>procs = replicate NANVIX_PNAME_MAX
       \<lparr>nodenum = 0, port_nr = 0, pname = [], timestamp = 0, p_refcount = 0\<rparr>,
     nr_registration = 0, nlinks = 0, nunlinks = 0, nlookups = 0\<rparr>"

section \<open>Handlers\<close>

definition nanvix_name_is_valid :: "string option \<Rightarrow> unit result" where
  "nanvix_name_is_valid name =
     (case name of
        None \<Rightarrow> Inl EINVAL
      | Some n \<Rightarrow>
          if n = [] then Inl EINVAL
          else if NANVIX_PROC_NAME_MAX - 1 \<le> length n then Inl ENAMETOOLONG
          else Inr ())"

definition do_name_init :: "int \<Rightarrow> int \<Rightarrow> nserver \<Rightarrow> nserver" where
  "do_name_init node tid s =
     (let ps = map (\<lambda>q. q\<lparr>nodenum := -1, port_nr := -1, timestamp := 0, p_refcount := 0\<rparr>) (procs s)
      in s\<lparr>procs := ps[0 := (ps ! 0)\<lparr>nodenum := node, port_nr := tid, p_refcount := 1,
             pname := ''/io0''\<rparr>]\<rparr>)"

text \<open>Result code, the \<open>nodenum\<close> field of the response, new state.\<close>

definition do_name_lookup :: "nserver \<Rightarrow> string \<Rightarrow> unit result \<times> int \<times> nserver" where
  "do_name_lookup s name =
     (let s = s\<lparr>nlookups := nlookups s + 1\<rparr> in
      case nanvix_name_is_valid (Some name) of
        Inl e \<Rightarrow> (Inl e, -1, s)
      | Inr _ \<Rightarrow>
          (case first_index (\<lambda>q. pname q = name) (procs s) of
             Some i \<Rightarrow> (Inr (), nodenum (procs s ! i), s)
           | None \<Rightarrow> (Inl ENOENT, -1, s)))"

text \<open>The labels \<open>found\<close> and \<open>connect\<close> of \<open>do_name_link\<close>.\<close>

definition name_found :: "nserver \<Rightarrow> nat \<Rightarrow> string \<Rightarrow> int \<Rightarrow> int \<Rightarrow> nserver" where
  "name_found s i name node port =
     s\<lparr>procs := (procs s)[i := (procs s ! i)\<lparr>pname := name, nodenum := node, port_nr := port\<rparr>]\<rparr>"

definition name_connect :: "nserver \<Rightarrow> nat \<Rightarrow> nserver" where
  "name_connect s i =
     s\<lparr>procs := (procs s)[i := (procs s ! i)\<lparr>p_refcount := p_refcount (procs s ! i) + 1\<rparr>],
       nr_registration := nr_registration s + 1\<rparr>"

definition do_name_link ::
  "(int \<Rightarrow> bool) \<Rightarrow> nserver \<Rightarrow> message_header \<Rightarrow> string \<Rightarrow> unit result \<times> nserver" where
  "do_name_link node_is_valid s h name =
     (let node = uint (source h); port = uint (mailbox_port h); s = s\<lparr>nlinks := nlinks s + 1\<rparr> in
      if \<not> node_is_valid node then (Inl EINVAL, s)
      else (case nanvix_name_is_valid (Some name) of
        Inl e \<Rightarrow> (Inl e, s)
      | Inr _ \<Rightarrow>
          if int NANVIX_PNAME_MAX \<le> nr_registration s then (Inl EINVAL, s)
          else (case first_index (\<lambda>q. pname q = name) (procs s) of
            Some i \<Rightarrow>
              if nodenum (procs s ! i) = node \<and> port_nr (procs s ! i) = port
              then (Inr (), name_connect s i)
              else (Inl EINVAL, s)
          | None \<Rightarrow>
              (case first_index (\<lambda>q. nodenum q < 0) (procs s) of
                 Some i \<Rightarrow> (Inr (), name_connect (name_found s i name node port) i)
               | None \<Rightarrow> (Inl EINVAL, s)))))"

definition do_name_unlink :: "nserver \<Rightarrow> message_header \<Rightarrow> string \<Rightarrow> unit result \<times> nserver" where
  "do_name_unlink s h name =
     (let port = uint (mailbox_port h); s = s\<lparr>nlinks := nlinks s + 1\<rparr> in
      case nanvix_name_is_valid (Some name) of
        Inl e \<Rightarrow> (Inl e, s)
      | Inr _ \<Rightarrow>
          (case first_index (\<lambda>q. \<not> nodenum q < 0 \<and> pname q = name) (procs s) of
             None \<Rightarrow> (Inl ENOENT, s)
           | Some i \<Rightarrow>
               (let q = procs s ! i; q' = q\<lparr>p_refcount := p_refcount q - 1\<rparr> in
                if port_nr q \<noteq> port then (Inl EINVAL, s)
                else (Inr (), s\<lparr>nr_registration := nr_registration s - 1,
                       procs := (procs s)[i := if p_refcount q' = 0
                         then q'\<lparr>pname := [], nodenum := -1, port_nr := -1\<rparr> else q']\<rparr>))))"

definition do_name_heartbeat ::
  "(int \<Rightarrow> bool) \<Rightarrow> nserver \<Rightarrow> message_header \<Rightarrow> 64 word \<Rightarrow> unit result \<times> nserver" where
  "do_name_heartbeat node_is_valid s h time =
     (let node = uint (source h) in
      if \<not> node_is_valid node then (Inl EINVAL, s)
      else (case first_index (\<lambda>q. nodenum q = node) (procs s) of
        Some i \<Rightarrow> (Inr (), s\<lparr>procs := (procs s)[i := (procs s ! i)\<lparr>timestamp := time\<rparr>]\<rparr>)
      | None \<Rightarrow> (Inl EINVAL, s)))"

section \<open>Server loop\<close>

text \<open>
  A reply carries the result code (its header opcode is \<open>NAME_FAIL\<close> or \<open>NAME_SUCCESS\<close>
  accordingly) and, for a lookup, the node number.
\<close>

record name_reply =
  rep_to :: message_header
  rep_ret :: "unit result"
  rep_nodenum :: "int option"

definition name_handle ::
  "(int \<Rightarrow> bool) \<Rightarrow> nserver \<Rightarrow> name_message \<Rightarrow> (nserver \<times> (unit result \<times> int option) option \<times> bool) option" where
  "name_handle V s m =
     (case nm_op m of
        NAME_LOOKUP n \<Rightarrow> (case do_name_lookup s n of (r, nd, s') \<Rightarrow> Some (s', Some (r, Some nd), False))
      | NAME_LINK n \<Rightarrow> (case do_name_link V s (nm_header m) n of (r, s') \<Rightarrow> Some (s', Some (r, None), False))
      | NAME_UNLINK n \<Rightarrow>
          (case do_name_unlink (s\<lparr>nunlinks := nunlinks s + 1\<rparr>) (nm_header m) n of
             (r, s') \<Rightarrow> Some (s', Some (r, None), False))
      | NAME_ALIVE t \<Rightarrow>
          (case do_name_heartbeat V s (nm_header m) t of
             (Inr _, s') \<Rightarrow> Some (s', None, False)
           | (Inl _, _) \<Rightarrow> None)
      | NAME_EXIT \<Rightarrow> Some (s, None, True)
      | NAME_OTHER _ \<Rightarrow> Some (s, None, False))"

definition name_server_step ::
  "(int \<Rightarrow> bool) \<Rightarrow> kmailbox \<Rightarrow> nserver \<Rightarrow> name_message \<Rightarrow> (nserver \<times> name_reply list \<times> bool) option" where
  "name_server_step V K s m =
     do { (s', rep, shutdown) \<leftarrow> name_handle V s m;
          case rep of
            None \<Rightarrow> Some (s', [], shutdown)
          | Some (r, nd) \<Rightarrow>
              do { mailbox_send K (uint (source (nm_header m))) (uint (mailbox_port (nm_header m)));
                   Some (s', [\<lparr>rep_to = nm_header m, rep_ret = r, rep_nodenum = nd\<rparr>], shutdown) } }"

text \<open>
  The loop of \<open>do_name_server\<close> over the messages it reads: it ends at an exit request, or
  waits for more when the list is used up. \<open>None\<close> is an aborted server.
\<close>

fun name_server_loop ::
  "(int \<Rightarrow> bool) \<Rightarrow> kmailbox \<Rightarrow> nserver \<Rightarrow> name_message list \<Rightarrow> (nserver \<times> name_reply list) option" where
  "name_server_loop V K s [] = Some (s, [])"
| "name_server_loop V K s (m # ms) =
     do { (s', reps, shutdown) \<leftarrow> name_server_step V K s m;
          if shutdown then Some (s', reps)
          else do { (s'', reps') \<leftarrow> name_server_loop V K s' ms; Some (s'', reps @ reps') } }"

definition do_name_server ::
  "(int \<Rightarrow> bool) \<Rightarrow> kmailbox \<Rightarrow> int \<Rightarrow> int \<Rightarrow> name_message list \<Rightarrow> (nserver \<times> name_reply list) option" where
  "do_name_server V K node tid ms = name_server_loop V K (do_name_init node tid name_boot) ms"

section \<open>Invariant\<close>

definition name_ok :: "string \<Rightarrow> bool" where
  "name_ok n \<longleftrightarrow> n \<noteq> [] \<and> length n < NANVIX_PROC_NAME_MAX - 1"

definition name_key :: "proc_entry \<Rightarrow> string option" where
  "name_key q = (if nodenum q < 0 then None else Some (pname q))"

definition name_entry_ok :: "(int \<Rightarrow> bool) \<Rightarrow> proc_entry \<Rightarrow> bool" where
  "name_entry_ok V q \<longleftrightarrow>
     (if nodenum q < 0 then pname q = [] \<and> p_refcount q = 0
      else name_ok (pname q) \<and> V (nodenum q))"

definition name_wf :: "(int \<Rightarrow> bool) \<Rightarrow> nserver \<Rightarrow> bool" where
  "name_wf V s \<longleftrightarrow> length (procs s) = NANVIX_PNAME_MAX \<and>
     (\<forall>i<length (procs s). name_entry_ok V (procs s ! i)) \<and>
     slots_wf name_key p_refcount (procs s) \<and>
     nr_registration s = sum_list (map p_refcount (procs s)) - 1"

text \<open>What a table of links means: names to (node, port, references).\<close>

definition name_abs :: "nserver \<Rightarrow> string \<Rightarrow> (int \<times> int \<times> int) option" where
  "name_abs s n = map_option
     (\<lambda>i. (nodenum (procs s ! i), port_nr (procs s ! i), p_refcount (procs s ! i)))
     (first_index (\<lambda>q. name_key q = Some n) (procs s))"

lemma nanvix_name_is_valid_iff [simp]:
  "nanvix_name_is_valid (Some n) = Inr u \<longleftrightarrow> name_ok n"
  by (auto simp: nanvix_name_is_valid_def name_ok_def)

lemma nanvix_name_is_valid_Inr: "name_ok n \<Longrightarrow> nanvix_name_is_valid (Some n) = Inr ()"
  by simp

lemma nanvix_name_is_valid_Inl:
  "\<not> name_ok n \<Longrightarrow> nanvix_name_is_valid (Some n) = Inl (if n = [] then EINVAL else ENAMETOOLONG)"
  by (auto simp: nanvix_name_is_valid_def name_ok_def)

lemma name_wfD:
  assumes "name_wf V s"
  shows "length (procs s) = NANVIX_PNAME_MAX"
    and "slots_wf name_key p_refcount (procs s)"
    and "nr_registration s = sum_list (map p_refcount (procs s)) - 1"
    and "i < length (procs s) \<Longrightarrow> name_entry_ok V (procs s ! i)"
  using assms by (simp_all add: name_wf_def)

lemma name_match_iff:
  assumes "name_wf V s" "name_ok n" "i < length (procs s)"
  shows "pname (procs s ! i) = n \<longleftrightarrow> name_key (procs s ! i) = Some n"
  using name_wfD(4) [OF assms(1,3)] assms(2)
  by (auto simp: name_key_def name_entry_ok_def name_ok_def split: if_splits)

lemma name_search:
  assumes "name_wf V s" "name_ok n"
  shows "first_index (\<lambda>q. pname q = n) (procs s) = first_index (\<lambda>q. name_key q = Some n) (procs s)"
    and "first_index (\<lambda>q. \<not> nodenum q < 0 \<and> pname q = n) (procs s) =
      first_index (\<lambda>q. name_key q = Some n) (procs s)"
proof -
  show "first_index (\<lambda>q. pname q = n) (procs s) = first_index (\<lambda>q. name_key q = Some n) (procs s)"
    by (rule first_index_cong) (simp_all add: name_match_iff [OF assms])
  show "first_index (\<lambda>q. \<not> nodenum q < 0 \<and> pname q = n) (procs s) =
      first_index (\<lambda>q. name_key q = Some n) (procs s)"
    by (rule first_index_cong) (auto simp: name_key_def)
qed

lemma name_abs_None_iff:
  "name_abs s n = None \<longleftrightarrow> (\<forall>i<length (procs s). name_key (procs s ! i) \<noteq> Some n)"
  by (simp add: name_abs_def first_index_None_iff)

lemma name_abs_entry:
  assumes "name_wf V s" "i < length (procs s)" "name_key (procs s ! i) = Some n"
  shows "name_abs s n = Some (nodenum (procs s ! i), port_nr (procs s ! i), p_refcount (procs s ! i))"
  using slots_find [OF slots_wf_unique [OF name_wfD(2) [OF assms(1)]] assms(2,3)] by (simp add: name_abs_def)

lemma name_abs_Some_entry:
  assumes "name_abs s n = Some x"
  obtains i where "i < length (procs s)" "name_key (procs s ! i) = Some n"
    "x = (nodenum (procs s ! i), port_nr (procs s ! i), p_refcount (procs s ! i))"
proof -
  from assms obtain i where i: "first_index (\<lambda>q. name_key q = Some n) (procs s) = Some i"
    and x: "x = (nodenum (procs s ! i), port_nr (procs s ! i), p_refcount (procs s ! i))"
    by (auto simp: name_abs_def)
  from that [OF first_index_bound [OF i] first_index_sat [OF i] x] show thesis .
qed

lemma name_abs_cong:
  assumes "length (procs t) = length (procs s)"
    and "\<And>i. i < length (procs s) \<Longrightarrow> name_key (procs t ! i) = name_key (procs s ! i)"
    and "\<And>i. i < length (procs s) \<Longrightarrow> nodenum (procs t ! i) = nodenum (procs s ! i) \<and>
       port_nr (procs t ! i) = port_nr (procs s ! i) \<and> p_refcount (procs t ! i) = p_refcount (procs s ! i)"
  shows "name_abs t n = name_abs s n"
proof -
  have "first_index (\<lambda>q. name_key q = Some n) (procs t) = first_index (\<lambda>q. name_key q = Some n) (procs s)"
    using assms(1,2) by (intro first_index_cong) simp_all
  then show ?thesis
    using assms(3) by (auto simp: name_abs_def dest: first_index_bound intro!: option.map_cong)
qed

text \<open>A change of one slot, as seen by the abstraction.\<close>

lemma name_abs_update:
  assumes wf: "name_wf V s" "name_wf V t" and i: "i < length (procs s)"
    and t: "procs t = (procs s)[i := q]"
    and old: "name_key (procs s ! i) = Some n \<or> name_key (procs s ! i) = None \<and> name_key q = Some n"
    and new: "name_key q = None \<or> name_key q = Some n"
  shows "name_abs t = (name_abs s)(n := if name_key q = None then None
     else Some (nodenum q, port_nr q, p_refcount q))"
proof
  fix m
  have len: "length (procs t) = length (procs s)" by (simp add: t)
  show "name_abs t m = ((name_abs s)(n := if name_key q = None then None
     else Some (nodenum q, port_nr q, p_refcount q))) m"
  proof (cases "m = n")
    case True
    show ?thesis
    proof (cases "name_key q")
      case None
      with old have key: "name_key (procs s ! i) = Some n" by simp
      have "name_key (procs t ! j) \<noteq> Some n" if "j < length (procs t)" for j
      proof
        assume a: "name_key (procs t ! j) = Some n"
        with None i have "j \<noteq> i" by (auto simp: t)
        moreover from this a that have "j = i"
          by (intro slots_uniqueD [OF slots_wf_unique [OF name_wfD(2) [OF wf(1)]] i _ key]) (simp_all add: t)
        ultimately show False by simp
      qed
      with None True show ?thesis by (simp add: name_abs_None_iff)
    next
      case (Some m')
      with new i True name_abs_entry [OF wf(2), of i n] show ?thesis by (simp add: t)
    qed
  next
    case False
    have "first_index (\<lambda>q. name_key q = Some m) (procs t) = first_index (\<lambda>q. name_key q = Some m) (procs s)"
      using old new False i by (intro first_index_cong) (auto simp: t nth_list_update)
    moreover have "j \<noteq> i" if "first_index (\<lambda>q. name_key q = Some m) (procs s) = Some j" for j
      using first_index_sat [OF that] old False by auto
    ultimately show ?thesis using False
      by (auto simp: name_abs_def t intro!: option.map_cong)
  qed
qed

section \<open>The handlers against the abstraction\<close>

lemma name_wf_update:
  assumes "name_wf V s" "i < length (procs s)" "name_entry_ok V q"
    and "slots_wf name_key p_refcount ((procs s)[i := q])" "procs t = (procs s)[i := q]"
    and "nr_registration t = nr_registration s + p_refcount q - p_refcount (procs s ! i)"
  shows "name_wf V t"
  using assms by (auto simp: name_wf_def nth_list_update sum_list_update_int)

lemma name_wf_stats [simp]:
  "name_wf V (s\<lparr>nlinks := a\<rparr>) = name_wf V s"
  "name_wf V (s\<lparr>nunlinks := a\<rparr>) = name_wf V s"
  "name_wf V (s\<lparr>nlookups := a\<rparr>) = name_wf V s"
  by (simp_all add: name_wf_def)

lemma name_abs_stats [simp]:
  "name_abs (s\<lparr>nlinks := a\<rparr>) = name_abs s"
  "name_abs (s\<lparr>nunlinks := a\<rparr>) = name_abs s"
  "name_abs (s\<lparr>nlookups := a\<rparr>) = name_abs s"
  by (simp_all add: name_abs_def fun_eq_iff)

lemma name_abs_empty: "name_wf V s \<Longrightarrow> \<not> name_ok n \<Longrightarrow> name_abs s n = None"
  using name_wfD(4) [of V s] by (auto simp: name_abs_None_iff name_key_def name_entry_ok_def split: if_splits)

text \<open>Taking one more reference on slot \<open>i\<close>, which now holds \<open>n\<close> for this node and port.\<close>

lemma name_connect_held:
  assumes wf: "name_wf V s" and i: "i < length (procs s)" "name_key (procs s ! i) = Some n"
  shows "name_wf V (name_connect s i)"
    and "name_abs (name_connect s i) = (name_abs s)(n \<mapsto>
      (nodenum (procs s ! i), port_nr (procs s ! i), p_refcount (procs s ! i) + 1))"
proof -
  let ?q = "(procs s ! i)\<lparr>p_refcount := p_refcount (procs s ! i) + 1\<rparr>"
  have key: "name_key ?q = Some n" using i(2) by (simp add: name_key_def split: if_splits)
  have pos: "1 \<le> p_refcount (procs s ! i)" by (rule slots_wf_count [OF name_wfD(2) [OF wf] i])
  show "name_wf V (name_connect s i)"
  proof (rule name_wf_update [OF wf i(1), of ?q])
    show "name_entry_ok V ?q"
      using name_wfD(4) [OF wf i(1)] i(2) by (auto simp: name_entry_ok_def name_key_def split: if_splits)
    show "slots_wf name_key p_refcount ((procs s)[i := ?q])"
      using key i pos by (intro slots_wf_keep [OF name_wfD(2) [OF wf]]) simp_all
  qed (simp_all add: name_connect_def)
  then show "name_abs (name_connect s i) = (name_abs s)(n \<mapsto>
      (nodenum (procs s ! i), port_nr (procs s ! i), p_refcount (procs s ! i) + 1))"
    using key i name_abs_update [OF wf _ i(1), of "name_connect s i" ?q n] by (simp add: name_connect_def)
qed

lemma name_connect_fresh:
  assumes wf: "name_wf V s" and i: "i < length (procs s)" "nodenum (procs s ! i) < 0"
    and n: "name_ok n" "name_abs s n = None" and node: "V node" "0 \<le> node"
  shows "name_wf V (name_connect (name_found s i n node port) i)"
    and "name_abs (name_connect (name_found s i n node port) i) = (name_abs s)(n \<mapsto> (node, port, 1))"
proof -
  let ?t = "name_connect (name_found s i n node port) i"
  let ?q = "(procs s ! i)\<lparr>pname := n, nodenum := node, port_nr := port, p_refcount := 1\<rparr>"
  have key: "name_key ?q = Some n" "name_key (procs s ! i) = None"
    using i(2) node by (simp_all add: name_key_def)
  have ok: "p_refcount (procs s ! i) = 0"
    using name_wfD(4) [OF wf i(1)] i(2) by (simp add: name_entry_ok_def)
  have t: "procs ?t = (procs s)[i := ?q]" "nr_registration ?t = nr_registration s + 1"
    using i ok by (simp_all add: name_connect_def name_found_def)
  show wft: "name_wf V ?t"
  proof (rule name_wf_update [OF wf i(1) _ _ t(1)])
    show "name_entry_ok V ?q" using n node by (simp add: name_entry_ok_def)
    show "slots_wf name_key p_refcount ((procs s)[i := ?q])"
      using n(2) by (intro slots_wf_take [OF name_wfD(2) [OF wf] i(1) key(1)]) (auto simp: name_abs_None_iff)
    show "nr_registration ?t = nr_registration s + p_refcount ?q - p_refcount (procs s ! i)"
      using t ok by simp
  qed
  show "name_abs ?t = (name_abs s)(n \<mapsto> (node, port, 1))"
    using name_abs_update [OF wf wft i(1) t(1), of n] key by simp
qed

text \<open>When the server grants a link, given that the name and the node are acceptable.\<close>

definition name_room :: "(int \<Rightarrow> bool) \<Rightarrow> nserver \<Rightarrow> message_header \<Rightarrow> string \<Rightarrow> bool" where
  "name_room V s h n \<longleftrightarrow> V (uint (source h)) \<and> name_ok n \<and> nr_registration s < int NANVIX_PNAME_MAX \<and>
     (case name_abs s n of
        Some (node, port, c) \<Rightarrow> node = uint (source h) \<and> port = uint (mailbox_port h)
      | None \<Rightarrow> \<exists>i<length (procs s). nodenum (procs s ! i) < 0)"

definition name_linked :: "nserver \<Rightarrow> message_header \<Rightarrow> string \<Rightarrow> string \<Rightarrow> (int \<times> int \<times> int) option" where
  "name_linked s h n = (name_abs s)(n \<mapsto> (uint (source h), uint (mailbox_port h),
     (case name_abs s n of Some (_, _, c) \<Rightarrow> c + 1 | None \<Rightarrow> 1)))"

lemma do_name_link_granted:
  assumes wf: "name_wf V s" and room: "name_room V s h n"
  shows "fst (do_name_link V s h n) = Inr ()" "name_wf V (snd (do_name_link V s h n))"
    and "name_abs (snd (do_name_link V s h n)) = name_linked s h n"
proof -
  let ?s = "s\<lparr>nlinks := nlinks s + 1\<rparr>"
  have wf': "name_wf V ?s" using wf by simp
  note basic = room [unfolded name_room_def]
  have "fst (do_name_link V s h n) = Inr () \<and> name_wf V (snd (do_name_link V s h n)) \<and>
    name_abs (snd (do_name_link V s h n)) = name_linked s h n"
  proof (cases "first_index (\<lambda>q. name_key q = Some n) (procs s)")
    case (Some i)
    then have i: "i < length (procs s)" "name_key (procs s ! i) = Some n"
      by (auto dest: first_index_bound first_index_sat)
    then have abs: "name_abs s n = Some (nodenum (procs s ! i), port_nr (procs s ! i), p_refcount (procs s ! i))"
      by (rule name_abs_entry [OF wf])
    then have "do_name_link V s h n = (Inr (), name_connect ?s i)"
      using basic Some name_search [OF wf]
      by (simp add: do_name_link_def Let_def nanvix_name_is_valid_Inr)
    with name_connect_held [OF wf', of i n] i abs basic show ?thesis
      by (simp add: name_linked_def)
  next
    case None
    then have abs: "name_abs s n = None" by (simp add: name_abs_def)
    with basic have "first_index (\<lambda>q. nodenum q < 0) (procs s) \<noteq> None"
      by (auto simp: first_index_None_iff)
    then obtain i where i: "first_index (\<lambda>q. nodenum q < 0) (procs s) = Some i" by blast
    then have "do_name_link V s h n =
        (Inr (), name_connect (name_found ?s i n (uint (source h)) (uint (mailbox_port h))) i)"
      using basic None name_search [OF wf]
      by (simp add: do_name_link_def Let_def nanvix_name_is_valid_Inr)
    with name_connect_fresh [OF wf', of i n "uint (source h)" "uint (mailbox_port h)"]
      first_index_bound [OF i] first_index_sat [OF i] abs basic show ?thesis
      by (simp add: name_linked_def)
  qed
  then show "fst (do_name_link V s h n) = Inr ()" "name_wf V (snd (do_name_link V s h n))"
    and "name_abs (snd (do_name_link V s h n)) = name_linked s h n" by auto
qed

lemma do_name_link_refused:
  assumes wf: "name_wf V s" and room: "\<not> name_room V s h n"
  shows "do_name_link V s h n =
    (Inl (if V (uint (source h)) \<and> n \<noteq> [] \<and> \<not> name_ok n then ENAMETOOLONG else EINVAL),
     s\<lparr>nlinks := nlinks s + 1\<rparr>)"
proof (cases "V (uint (source h)) \<and> name_ok n \<and> nr_registration s < int NANVIX_PNAME_MAX")
  case False
  then show ?thesis
    by (cases "name_ok n")
      (auto simp: do_name_link_def Let_def nanvix_name_is_valid_Inl nanvix_name_is_valid_Inr)
next
  case True
  then have "name_ok n" by simp
  show ?thesis
  proof (cases "first_index (\<lambda>q. name_key q = Some n) (procs s)")
    case None
    with room True have "first_index (\<lambda>q. nodenum q < 0) (procs s) = None"
      by (simp add: name_room_def name_abs_def first_index_None_iff)
    with None True show ?thesis using name_search [OF wf \<open>name_ok n\<close>]
      by (simp add: do_name_link_def Let_def nanvix_name_is_valid_Inr)
  next
    case (Some i)
    with True room name_search [OF wf \<open>name_ok n\<close>] show ?thesis
      by (auto simp: do_name_link_def Let_def nanvix_name_is_valid_Inr name_room_def name_abs_def)
  qed
qed

lemma do_name_unlink_held:
  assumes wf: "name_wf V s" and abs: "name_abs s n = Some (node, uint (mailbox_port h), c)"
  shows "fst (do_name_unlink s h n) = Inr ()" "name_wf V (snd (do_name_unlink s h n))"
    and "name_abs (snd (do_name_unlink s h n)) =
      (name_abs s)(n := if c = 1 then None else Some (node, uint (mailbox_port h), c - 1))"
proof -
  have n: "name_ok n" using name_abs_empty [OF wf, of n] abs by auto
  obtain i where i: "i < length (procs s)" "name_key (procs s ! i) = Some n"
    and e: "node = nodenum (procs s ! i)" "port_nr (procs s ! i) = uint (mailbox_port h)" "c = p_refcount (procs s ! i)"
    using abs by (auto elim: name_abs_Some_entry)
  let ?q = "(procs s ! i)\<lparr>p_refcount := p_refcount (procs s ! i) - 1\<rparr>"
  let ?r = "if c = 1 then ?q\<lparr>pname := [], nodenum := -1, port_nr := -1\<rparr> else ?q"
  let ?t = "snd (do_name_unlink s h n)"
  have find: "first_index (\<lambda>q. name_key q = Some n) (procs s) = Some i"
    by (rule slots_find [OF slots_wf_unique [OF name_wfD(2) [OF wf]] i])
  have eq: "do_name_unlink s h n = (Inr (), s\<lparr>nlinks := nlinks s + 1,
      nr_registration := nr_registration s - 1, procs := (procs s)[i := ?r]\<rparr>)"
    using find n e name_search(2) [OF wf n] by (simp add: do_name_unlink_def Let_def nanvix_name_is_valid_Inr)
  then show "fst (do_name_unlink s h n) = Inr ()" by simp
  have pos: "1 \<le> c" using slots_wf_count [OF name_wfD(2) [OF wf] i] e by simp
  have key: "name_key ?r = (if c = 1 then None else Some n)"
    using i(2) by (auto simp: name_key_def)
  show wft: "name_wf V ?t"
  proof (rule name_wf_update [OF wf i(1), of ?r])
    show "name_entry_ok V ?r"
      using name_wfD(4) [OF wf i(1)] i(2) e by (auto simp: name_entry_ok_def name_key_def split: if_splits)
    show "slots_wf name_key p_refcount ((procs s)[i := ?r])"
    proof (cases "c = 1")
      case True
      with key show ?thesis by (intro slots_wf_release [OF name_wfD(2) [OF wf] i(1)]) simp
    next
      case False
      with key i pos e show ?thesis by (intro slots_wf_keep [OF name_wfD(2) [OF wf] i(1)]) simp_all
    qed
  qed (use eq e in simp_all)
  show "name_abs ?t = (name_abs s)(n := if c = 1 then None else Some (node, uint (mailbox_port h), c - 1))"
    using name_abs_update [OF wf wft i(1), of ?r n] eq key i e by auto
qed

lemma do_name_unlink_refused:
  assumes wf: "name_wf V s" and "\<nexists>node c. name_abs s n = Some (node, uint (mailbox_port h), c)"
  shows "do_name_unlink s h n =
    (Inl (if \<not> name_ok n then (if n = [] then EINVAL else ENAMETOOLONG)
          else if name_abs s n = None then ENOENT else EINVAL), s\<lparr>nlinks := nlinks s + 1\<rparr>)"
  using assms(2) name_search(2) [OF wf, of n]
  by (auto simp: do_name_unlink_def Let_def nanvix_name_is_valid_Inl nanvix_name_is_valid_Inr name_abs_def
      split: option.splits)

lemma do_name_lookup_eq:
  assumes wf: "name_wf V s"
  shows "do_name_lookup s n =
    (if \<not> name_ok n then (Inl (if n = [] then EINVAL else ENAMETOOLONG), -1, s\<lparr>nlookups := nlookups s + 1\<rparr>)
     else case name_abs s n of
       None \<Rightarrow> (Inl ENOENT, -1, s\<lparr>nlookups := nlookups s + 1\<rparr>)
     | Some (node, _, _) \<Rightarrow> (Inr (), node, s\<lparr>nlookups := nlookups s + 1\<rparr>))"
  using name_search(1) [OF wf, of n]
  by (auto simp: do_name_lookup_def Let_def nanvix_name_is_valid_Inl nanvix_name_is_valid_Inr name_abs_def
      split: option.splits)

lemma do_name_heartbeat_ok:
  assumes wf: "name_wf V s" and r: "do_name_heartbeat V s h t = (r, s')"
  shows "name_wf V s'" "name_abs s' = name_abs s"
proof -
  have "name_wf V s' \<and> name_abs s' = name_abs s"
  proof (cases "V (uint (source h)) \<and> first_index (\<lambda>q. nodenum q = uint (source h)) (procs s) \<noteq> None")
    case False
    with r have "s' = s" by (auto simp: do_name_heartbeat_def Let_def split: if_splits)
    with wf show ?thesis by simp
  next
    case True
    then obtain i where find: "first_index (\<lambda>q. nodenum q = uint (source h)) (procs s) = Some i" by blast
    with True r have s': "s' = s\<lparr>procs := (procs s)[i := (procs s ! i)\<lparr>timestamp := t\<rparr>]\<rparr>"
      by (simp add: do_name_heartbeat_def Let_def)
    have i: "i < length (procs s)" using find by (rule first_index_bound)
    let ?q = "(procs s ! i)\<lparr>timestamp := t\<rparr>"
    have key: "name_key ?q = name_key (procs s ! i)" by (simp add: name_key_def)
    have "name_wf V s'"
    proof (rule name_wf_update [OF wf i, of ?q])
      show "name_entry_ok V ?q" using name_wfD(4) [OF wf i] by (simp add: name_entry_ok_def)
      show "slots_wf name_key p_refcount ((procs s)[i := ?q])"
        using key name_wfD(2) [OF wf] i
        by (intro slots_wf_keep) (auto simp: slots_wf_def)
    qed (simp_all add: s')
    moreover have "name_abs s' = name_abs s"
      using key i by (intro ext name_abs_cong) (auto simp: s' nth_list_update)
    ultimately show ?thesis by simp
  qed
  then show "name_wf V s'" "name_abs s' = name_abs s" by auto
qed

lemma do_name_heartbeat_fails:
  "(\<exists>e. fst (do_name_heartbeat V s h t) = Inl e) \<longleftrightarrow>
     \<not> V (uint (source h)) \<or> (\<forall>i<length (procs s). nodenum (procs s ! i) \<noteq> uint (source h))"
proof -
  have "(\<exists>e. fst (do_name_heartbeat V s h t) = Inl e) \<longleftrightarrow>
     \<not> V (uint (source h)) \<or> first_index (\<lambda>q. nodenum q = uint (source h)) (procs s) = None"
    by (auto simp: do_name_heartbeat_def Let_def split: option.splits)
  then show ?thesis by (simp add: first_index_None_iff)
qed

lemma do_name_link_wf: "name_wf V s \<Longrightarrow> name_wf V (snd (do_name_link V s h n))"
  by (cases "name_room V s h n") (simp_all add: do_name_link_granted do_name_link_refused)

lemma do_name_unlink_wf:
  "name_wf V s \<Longrightarrow> name_wf V (snd (do_name_unlink s h n))"
  by (cases "\<exists>node c. name_abs s n = Some (node, uint (mailbox_port h), c)")
    (auto simp: do_name_unlink_held do_name_unlink_refused)

lemma name_handle_wf:
  assumes wf: "name_wf V s" and h: "name_handle V s m = Some (s', rep, sd)"
  shows "name_wf V s'"
proof (cases "nm_op m")
  case (NAME_LOOKUP n)
  with h wf show ?thesis
    by (auto simp: name_handle_def do_name_lookup_eq [OF wf] split: if_splits option.splits)
next
  case (NAME_LINK n)
  with h do_name_link_wf [OF wf, of "nm_header m" n] show ?thesis
    by (auto simp: name_handle_def split: prod.splits)
next
  case (NAME_UNLINK n)
  with h do_name_unlink_wf [of V "s\<lparr>nunlinks := nunlinks s + 1\<rparr>" "nm_header m" n] wf show ?thesis
    by (auto simp: name_handle_def split: prod.splits)
next
  case (NAME_ALIVE t)
  with h do_name_heartbeat_ok(1) [OF wf, of "nm_header m" t] show ?thesis
    by (auto simp: name_handle_def split: prod.splits sum.splits)
qed (use h wf in \<open>simp_all add: name_handle_def\<close>)

lemma name_server_step_handle:
  assumes "name_server_step V K s m = Some (s', reps, sd)"
  obtains rep where "name_handle V s m = Some (s', rep, sd)"
  using assms by (auto simp: name_server_step_def bind_eq_Some_conv split: option.splits)

lemma name_server_loop_wf:
  "name_wf V s \<Longrightarrow> name_server_loop V K s ms = Some (s', reps) \<Longrightarrow> name_wf V s'"
proof (induction ms arbitrary: s reps)
  case Nil
  then show ?case by simp
next
  case (Cons m ms)
  then obtain s1 r1 sd where st: "name_server_step V K s m = Some (s1, r1, sd)"
    and rest: "sd \<and> s' = s1 \<or> (\<exists>r2. name_server_loop V K s1 ms = Some (s', r2))"
    by (auto simp: bind_eq_Some_conv split: if_splits)
  have "name_wf V s1"
    using st by (rule name_server_step_handle) (rule name_handle_wf [OF Cons.prems(1)])
  with rest Cons.IH show ?case by auto
qed

lemma do_name_init_eq:
  "procs (do_name_init node tid name_boot) =
     (replicate NANVIX_PNAME_MAX \<lparr>nodenum = -1, port_nr = -1, pname = [], timestamp = 0, p_refcount = 0\<rparr>)
       [0 := \<lparr>nodenum = node, port_nr = tid, pname = ''/io0'', timestamp = 0, p_refcount = 1\<rparr>]"
  "nr_registration (do_name_init node tid name_boot) = 0"
  by (simp_all add: do_name_init_def name_boot_def NANVIX_PNAME_MAX_def)

lemma do_name_init_wf:
  assumes "V node" "0 \<le> node"
  shows "name_wf V (do_name_init node tid name_boot)"
proof -
  let ?free = "\<lparr>nodenum = -1, port_nr = -1, pname = [], timestamp = 0, p_refcount = 0\<rparr>"
  let ?e = "\<lparr>nodenum = node, port_nr = tid, pname = ''/io0'', timestamp = 0, p_refcount = 1\<rparr>"
  let ?t = "replicate NANVIX_PNAME_MAX ?free"
  have len: "0 < length ?t" by (simp add: NANVIX_PNAME_MAX_def)
  have free: "name_key ?free = None" by (simp add: name_key_def)
  have key: "name_key ?e = Some ''/io0''" using assms by (simp add: name_key_def)
  have "slots_wf name_key p_refcount (?t[0 := ?e])"
    by (rule slots_wf_take [of name_key p_refcount ?t 0 ?e, OF slots_wf_replicate [of name_key ?free, OF free] len key])
      (simp_all add: name_key_def)
  moreover have "name_entry_ok V (?t[0 := ?e] ! i)" if "i < length ?t" for i
    using that assms by (auto simp: nth_list_update name_entry_ok_def name_ok_def NANVIX_PROC_NAME_MAX_def)
  moreover have "sum_list (map p_refcount (?t[0 := ?e])) = 1"
    using len by (simp add: sum_list_update_int sum_list_replicate)
  ultimately show ?thesis by (simp add: name_wf_def do_name_init_eq)
qed

section \<open>Links as references\<close>

definition link_header :: "16 word \<Rightarrow> 8 word \<Rightarrow> message_header" where
  "link_header src port = \<lparr>source = src, mailbox_port = port, portal_port = 0\<rparr>"

definition link_refs :: "nserver \<Rightarrow> string \<times> 16 word \<times> 8 word \<Rightarrow> int" where
  "link_refs s k = (case k of (n, src, port) \<Rightarrow>
     (case name_abs s n of
        Some (nd, pt, c) \<Rightarrow> if nd = uint src \<and> pt = uint port then c else 0
      | None \<Rightarrow> 0))"

definition link_acquire :: "(int \<Rightarrow> bool) \<Rightarrow> nserver \<Rightarrow> string \<times> 16 word \<times> 8 word \<Rightarrow> nserver" where
  "link_acquire V s k = (case k of (n, src, port) \<Rightarrow> snd (do_name_link V s (link_header src port) n))"

definition link_release :: "nserver \<Rightarrow> string \<times> 16 word \<times> 8 word \<Rightarrow> nserver" where
  "link_release s k = (case k of (n, src, port) \<Rightarrow> snd (do_name_unlink s (link_header src port) n))"

definition link_room :: "(int \<Rightarrow> bool) \<Rightarrow> nserver \<Rightarrow> string \<times> 16 word \<times> 8 word \<Rightarrow> bool" where
  "link_room V s k = (case k of (n, src, port) \<Rightarrow> name_room V s (link_header src port) n)"

lemma name_abs_pos: "name_wf V s \<Longrightarrow> name_abs s n = Some (nd, pt, c) \<Longrightarrow> 1 \<le> c"
  by (elim name_abs_Some_entry) (auto dest: slots_wf_count [OF name_wfD(2)])

lemma link_refs_pos:
  assumes "name_wf V s"
  shows "0 < link_refs s (n, src, port) \<longleftrightarrow> (\<exists>c. name_abs s n = Some (uint src, uint port, c))"
proof (cases "name_abs s n")
  case None
  then show ?thesis by (simp add: link_refs_def)
next
  case (Some x)
  obtain nd pt c where "x = (nd, pt, c)" by (cases x)
  with Some name_abs_pos [OF assms, of n nd pt c] show ?thesis by (auto simp: link_refs_def)
qed

interpretation link: refcount_table "link_acquire V" link_release link_refs "link_room V" "name_wf V" for V
proof unfold_locales
  fix s :: nserver and k j :: "string \<times> 16 word \<times> 8 word"
  assume wf: "name_wf V s"
  obtain n src port where k: "k = (n, src, port)" by (cases k)
  obtain n' src' port' where j: "j = (n', src', port')" by (cases j)
  show "0 \<le> link_refs s k"
  proof (cases "name_abs s n")
    case (Some x)
    obtain nd pt c where "x = (nd, pt, c)" by (cases x)
    with Some name_abs_pos [OF wf, of n nd pt c] show ?thesis by (simp add: link_refs_def k)
  qed (simp add: link_refs_def k)
  {
    assume "link_room V s k"
    then have room: "name_room V s (link_header src port) n" by (simp add: link_room_def k)
    then show "name_wf V (link_acquire V s k)"
      using wf by (simp add: link_acquire_def k do_name_link_granted)
    have abs: "name_abs (link_acquire V s k) = name_linked s (link_header src port) n"
      using do_name_link_granted(3) [OF wf room] by (simp add: link_acquire_def k)
    show "link_refs (link_acquire V s k) j = link_refs s j + (if j = k then 1 else 0)"
    proof (cases "n' = n")
      case True
      with abs room show ?thesis
        by (cases "name_abs s n")
          (auto simp: link_refs_def k j name_linked_def name_room_def link_header_def uint_eq_iff)
    qed (use abs in \<open>simp add: link_refs_def k j name_linked_def\<close>)
  next
    assume "0 < link_refs s k"
    then obtain c where c: "name_abs s n = Some (uint src, uint (mailbox_port (link_header src port)), c)"
      using link_refs_pos [OF wf] by (auto simp: k link_header_def)
    show "name_wf V (link_release s k)"
      using do_name_unlink_held(2) [OF wf c] by (simp add: link_release_def k)
    have abs: "name_abs (link_release s k) =
        (name_abs s)(n := if c = 1 then None else Some (uint src, uint port, c - 1))"
      using do_name_unlink_held(3) [OF wf c] by (simp add: link_release_def k link_header_def)
    show "link_refs (link_release s k) j = link_refs s j - (if j = k then 1 else 0)"
    proof (cases "n' = n")
      case True
      with abs c show ?thesis by (auto simp: link_refs_def k j link_header_def uint_eq_iff)
    qed (use abs in \<open>simp add: link_refs_def k j\<close>)
  }
qed

section \<open>Properties\<close>

text \<open>A booted server and a client on node 7, port 4, for the witnesses.\<close>

definition any_node :: "int \<Rightarrow> bool" where
  "any_node node = True"

definition name_booted :: nserver where
  "name_booted = do_name_init 0 1 name_boot"

definition client_header :: message_header where
  "client_header = link_header 7 4"

lemma name_booted_wf: "name_wf any_node name_booted"
  unfolding name_booted_def by (rule do_name_init_wf) (simp_all add: any_node_def)

lemma name_booted_abs: "name_abs name_booted n = (if n = ''/io0'' then Some (0, 1, 1) else None)"
proof (cases "n = ''/io0''")
  case True
  then show ?thesis
    using name_abs_entry [OF name_booted_wf, of 0 n]
    by (simp add: name_booted_def do_name_init_eq NANVIX_PNAME_MAX_def name_key_def)
next
  case False
  then show ?thesis
    by (auto simp: name_abs_None_iff name_booted_def do_name_init_eq nth_list_update name_key_def)
qed

lemma name_booted_room:
  assumes "name_ok n" "n \<noteq> ''/io0''"
  shows "name_room any_node name_booted h n"
  unfolding name_room_def
proof (intro conjI)
  show "any_node (uint (source h))" by (simp add: any_node_def)
  show "nr_registration name_booted < int NANVIX_PNAME_MAX"
    by (simp add: name_booted_def do_name_init_eq NANVIX_PNAME_MAX_def)
  have "1 < length (procs name_booted) \<and> nodenum (procs name_booted ! 1) < 0"
    by (simp add: name_booted_def do_name_init_eq NANVIX_PNAME_MAX_def)
  then show "case name_abs name_booted n of
      None \<Rightarrow> \<exists>i<length (procs name_booted). nodenum (procs name_booted ! i) < 0
    | Some (node, port, c) \<Rightarrow> node = uint (source h) \<and> port = uint (mailbox_port h)"
    using assms(2) by (auto simp: name_booted_abs)
qed (rule assms(1))

lemma name_ok_vfs: "name_ok ''/vfs''"
  by (simp add: name_ok_def NANVIX_PROC_NAME_MAX_def)

text \<open>
  C1. Whatever requests the name server serves after it boots on a valid node, in every state it
  reaches the table is well formed: no name is linked twice, every linked name is non-empty and
  fits its buffer, every link belongs to a valid node, and the registration counter is the sum
  of the reference counts less the server's own link.
\<close>

theorem name_server_invariant:
  assumes "V node" "0 \<le> node" "do_name_server V K node tid ms = Some (s, reps)"
  shows "name_wf V s"
  using assms name_server_loop_wf [OF do_name_init_wf] by (auto simp: do_name_server_def)

theorem name_server_invariant_witness:
  "\<exists>s reps. do_name_server any_node kmailbox_ideal 0 1 [\<lparr>nm_header = client_header, nm_op = NAME_EXIT\<rparr>]
     = Some (s, reps) \<and> name_wf any_node s"
proof -
  have run: "do_name_server any_node kmailbox_ideal 0 1 [\<lparr>nm_header = client_header, nm_op = NAME_EXIT\<rparr>]
     = Some (name_booted, [])"
    by (simp add: do_name_server_def name_server_step_def name_handle_def name_booted_def)
  have "name_wf any_node name_booted"
    by (rule name_server_invariant [OF _ _ run]) (simp_all add: any_node_def)
  with run show ?thesis by blast
qed


text \<open>
  \<open>do_name_lookup\<close> answers from the naming the table stands for: the node of a linked name,
  \<open>ENOENT\<close> for a valid name nobody linked, \<open>EINVAL\<close> or \<open>ENAMETOOLONG\<close> for a bad one. It never
  changes a link.
\<close>

theorem name_lookup_correct:
  assumes "name_wf V s"
  shows "fst (do_name_lookup s n) =
      (if n = [] then Inl EINVAL else if NANVIX_PROC_NAME_MAX - 1 \<le> length n then Inl ENAMETOOLONG
       else if name_abs s n = None then Inl ENOENT else Inr ()) \<and>
    fst (snd (do_name_lookup s n)) = (case name_abs s n of Some (node, _, _) \<Rightarrow> node | None \<Rightarrow> -1) \<and>
    name_abs (snd (snd (do_name_lookup s n))) = name_abs s"
  using name_abs_empty [OF assms, of n]
  by (auto simp: do_name_lookup_eq [OF assms] name_ok_def split: option.splits)

theorem name_lookup_correct_witness:
  "fst (do_name_lookup name_booted ''/io0'') = Inr () \<and>
   fst (do_name_lookup name_booted ''/vfs'') = Inl ENOENT"
  using name_lookup_correct [OF name_booted_wf, of "''/io0''"]
    name_lookup_correct [OF name_booted_wf, of "''/vfs''"]
  by (simp add: name_booted_abs NANVIX_PROC_NAME_MAX_def)


text \<open>
  A granted link is visible to everybody at once: after \<open>do_name_link\<close> succeeds, a lookup of
  the name answers the requester's node, the name has one reference more, and every other name
  resolves as before.
\<close>

theorem name_link_then_lookup:
  assumes "name_wf V s" "name_room V s h n"
  shows "\<exists>s'. do_name_link V s h n = (Inr (), s') \<and> name_wf V s' \<and>
    fst (do_name_lookup s' n) = Inr () \<and> fst (snd (do_name_lookup s' n)) = uint (source h) \<and>
    name_abs s' = (name_abs s)(n \<mapsto> (uint (source h), uint (mailbox_port h),
      (case name_abs s n of Some (_, _, c) \<Rightarrow> c + 1 | None \<Rightarrow> 1)))"
proof -
  let ?s' = "snd (do_name_link V s h n)"
  note g = do_name_link_granted [OF assms]
  have ok: "name_ok n" using assms(2) by (simp add: name_room_def)
  have abs: "name_abs ?s' n = Some (uint (source h), uint (mailbox_port h),
      (case name_abs s n of Some (_, _, c) \<Rightarrow> c + 1 | None \<Rightarrow> 1))"
    using g(3) by (simp add: name_linked_def)
  have "fst (do_name_lookup ?s' n) = Inr () \<and> fst (snd (do_name_lookup ?s' n)) = uint (source h)"
    using ok abs by (simp add: do_name_lookup_eq [OF g(2)])
  with g show ?thesis
    by (intro exI [of _ ?s']) (auto simp: name_linked_def prod_eq_iff)
qed

theorem name_link_then_lookup_witness:
  "\<exists>s'. do_name_link any_node name_booted client_header ''/vfs'' = (Inr (), s') \<and>
    fst (snd (do_name_lookup s' ''/vfs'')) = 7"
  using name_link_then_lookup [OF name_booted_wf name_booted_room [OF name_ok_vfs], of client_header]
  by (auto simp: client_header_def link_header_def)


text \<open>
  A request to link a name another process holds, an over-long or empty name, or from an
  invalid node is refused and leaves every link and the registration count as they were.
\<close>

theorem name_link_refused:
  assumes "name_wf V s" "\<not> name_room V s h n"
  shows "\<exists>e s'. do_name_link V s h n = (Inl e, s') \<and> procs s' = procs s \<and>
    nr_registration s' = nr_registration s \<and> (e = EINVAL \<or> e = ENAMETOOLONG \<and> 63 \<le> length n)"
  using do_name_link_refused [OF assms] by (auto simp: name_ok_def NANVIX_PROC_NAME_MAX_def)

theorem name_link_refused_witness:
  "\<exists>e s'. do_name_link any_node name_booted client_header ''/io0'' = (Inl e, s') \<and>
    procs s' = procs name_booted"
proof -
  have "\<not> name_room any_node name_booted client_header ''/io0''"
    by (simp add: name_room_def name_booted_abs client_header_def link_header_def)
  from name_link_refused [OF name_booted_wf this] show ?thesis by blast
qed


text \<open>
  \<open>do_name_unlink\<close> from the port that linked a name drops one reference; the name stops
  resolving exactly when the last one goes. From another port or for an unknown name it is
  refused and changes no link.
\<close>

theorem name_unlink_correct:
  assumes "name_wf V s"
  shows "(case name_abs s n of
      Some (node, port, c) \<Rightarrow>
        if port = uint (mailbox_port h)
        then fst (do_name_unlink s h n) = Inr () \<and> name_wf V (snd (do_name_unlink s h n)) \<and>
          name_abs (snd (do_name_unlink s h n)) = (name_abs s)(n := if c = 1 then None else Some (node, port, c - 1))
        else fst (do_name_unlink s h n) = Inl EINVAL \<and> procs (snd (do_name_unlink s h n)) = procs s
    | None \<Rightarrow> (\<exists>e. fst (do_name_unlink s h n) = Inl e) \<and> procs (snd (do_name_unlink s h n)) = procs s)"
proof (cases "name_abs s n")
  case None
  then show ?thesis using do_name_unlink_refused [OF assms, of n h] by simp
next
  case (Some x)
  obtain node port c where x: "x = (node, port, c)" by (cases x)
  have ok: "name_ok n" using Some name_abs_empty [OF assms, of n] by auto
  show ?thesis
  proof (cases "port = uint (mailbox_port h)")
    case True
    with Some x do_name_unlink_held [OF assms, of n node h c] show ?thesis by simp
  next
    case False
    with Some x ok do_name_unlink_refused [OF assms, of n h] show ?thesis by simp
  qed
qed

theorem name_unlink_correct_witness:
  "fst (do_name_unlink name_booted (link_header 7 1) ''/io0'') = Inr () \<and>
   name_abs (snd (do_name_unlink name_booted (link_header 7 1) ''/io0'')) ''/io0'' = None"
  using name_unlink_correct [OF name_booted_wf, where n = "''/io0''" and h = "link_header 7 1"]
  by (simp add: name_booted_abs link_header_def)


text \<open>
  Linking and then unlinking from the same node and port gives back every link count.
\<close>

theorem name_link_unlink_roundtrip:
  assumes "name_wf V s" "name_room V s (link_header src port) n"
  shows "name_wf V (link_release (link_acquire V s (n, src, port)) (n, src, port)) \<and>
    link_refs (link_release (link_acquire V s (n, src, port)) (n, src, port)) k = link_refs s k"
  using link.acquire_release(1) [OF assms(1), of "(n, src, port)" k]
    link.acquire_release(2) [OF assms(1), of "(n, src, port)"] assms(2)
  by (simp add: link_room_def)

theorem name_link_unlink_roundtrip_witness:
  "link_refs (link_release (link_acquire any_node name_booted (''/vfs'', 7, 4)) (''/vfs'', 7, 4)) (''/vfs'', 7, 4) = 0"
  using name_link_unlink_roundtrip [OF name_booted_wf name_booted_room [OF name_ok_vfs], of 7 4 "(''/vfs'', 7, 4)"]
  by (simp add: link_refs_def name_booted_abs)


text \<open>
  With working mailboxes, the only request that aborts the server is a heartbeat from a node
  that is invalid or has no linked name: the handler's error trips the server's assertion.
\<close>

theorem name_server_aborts_iff:
  assumes "mailboxes_up K"
  shows "name_server_step V K s m = None \<longleftrightarrow>
    (\<exists>t. nm_op m = NAME_ALIVE t) \<and>
    (\<not> V (uint (source (nm_header m))) \<or>
     (\<forall>i<length (procs s). nodenum (procs s ! i) \<noteq> uint (source (nm_header m))))"
proof -
  have "name_server_step V K s m = None \<longleftrightarrow> name_handle V s m = None"
    by (cases "name_handle V s m")
      (auto simp: name_server_step_def mailbox_send_up [OF assms] split: option.splits)
  also have "\<dots> \<longleftrightarrow> (\<exists>t e. nm_op m = NAME_ALIVE t \<and> fst (do_name_heartbeat V s (nm_header m) t) = Inl e)"
    by (auto simp: name_handle_def split: name_op.splits prod.splits sum.splits)
  also have "\<dots> \<longleftrightarrow> (\<exists>t. nm_op m = NAME_ALIVE t) \<and> (\<not> V (uint (source (nm_header m))) \<or>
     (\<forall>i<length (procs s). nodenum (procs s ! i) \<noteq> uint (source (nm_header m))))"
    using do_name_heartbeat_fails [of V s "nm_header m"] by auto
  finally show ?thesis .
qed

theorem name_server_aborts_iff_witness:
  "name_server_step any_node kmailbox_ideal name_booted \<lparr>nm_header = client_header, nm_op = NAME_ALIVE 9\<rparr> = None"
  using name_server_aborts_iff [OF kmailbox_ideal_up, of any_node name_booted
      "\<lparr>nm_header = client_header, nm_op = NAME_ALIVE 9\<rparr>"]
  by (simp add: name_booted_def do_name_init_eq nth_list_update client_header_def link_header_def)


text \<open>
  \<open>do_name_unlink\<close> checks the port of the requester but not its node: a process on another node
  that uses the same port number removes a link it does not own.
\<close>

theorem name_unlink_ignores_node:
  assumes "name_wf V s" "name_abs s n = Some (node, uint (mailbox_port h), 1)" "node \<noteq> uint (source h)"
  shows "fst (do_name_unlink s h n) = Inr () \<and> name_abs (snd (do_name_unlink s h n)) n = None"
  using do_name_unlink_held [OF assms(1,2)] by simp

theorem name_unlink_ignores_node_witness:
  "fst (do_name_unlink name_booted (link_header 7 1) ''/io0'') = Inr () \<and>
   name_abs (snd (do_name_unlink name_booted (link_header 7 1) ''/io0'')) ''/io0'' = None"
  using name_unlink_ignores_node [OF name_booted_wf, of "''/io0''" 0 "link_header 7 1"]
  by (simp add: name_booted_abs link_header_def)

end
