(* ===== verification/NameClient.thy ===== *)
theory NameClient
  imports NameServer
begin

text \<open>
  The client of the name service, \<open>src/libruntime/pm/name.c\<close> and \<open>pname.c\<close>, together with the server it talks to: a call checks its
  arguments, writes a request to the server's mailbox, the server handles it with \<^term>\<open>name_server_step\<close>, and the call reads the reply
  from the standard inbox. A call that waits for a reply that never comes is \<open>None\<close>. A heartbeat waits for nothing: when it makes the
  server fail its assertion, the client goes on and the server is gone (\<open>nw_alive\<close>).
\<close>

section \<open>State\<close>

text \<open>The statics \<open>server\<close>, \<open>initialized\<close> and \<open>_pname\<close> of the client, and the server.\<close>

record name_world =
  nw_initialized :: bool
  nw_outbox :: int
  nw_pname :: string
  nw_names :: nserver
  nw_alive :: bool

text \<open>
  The environment: which nodes are valid, the kernel as the server sees it, this node and its standard ports, the size of a message, and what the client's
  own kernel calls return.
\<close>

record name_env =
  ne_valid :: "int \<Rightarrow> bool"
  ne_mailbox :: kmailbox
  ne_node :: int
  ne_inbox_port :: int
  ne_inportal_port :: int
  ne_size :: int
  ne_mopen :: int
  ne_mclose :: "int \<Rightarrow> int"
  ne_mwrite :: "int \<Rightarrow> int result"
  ne_mread :: "int result"
  ne_clock :: "64 word result"

section \<open>Set-up\<close>

definition nanvix_name_setup :: "name_env \<Rightarrow> name_world \<Rightarrow> int \<times> name_world" where
  "nanvix_name_setup C w =
     (if nw_initialized w then (0, w)
      else let w1 = w\<lparr>nw_outbox := ne_mopen C\<rparr> in
        if nw_outbox w1 < 0 then (-1, w1) else (0, w1\<lparr>nw_initialized := True\<rparr>))"

definition nanvix_name_cleanup :: "name_env \<Rightarrow> name_world \<Rightarrow> int result \<times> name_world" where
  "nanvix_name_cleanup C w =
     (if \<not> nw_initialized w then (Inr 0, w)
      else if ne_mclose C (nw_outbox w) < 0 then (Inl EAGAIN, w)
      else (Inr 0, w\<lparr>nw_initialized := False\<rparr>))"

section \<open>Calls\<close>

definition name_request :: "name_env \<Rightarrow> name_op \<Rightarrow> name_message" where
  "name_request C op =
     \<lparr>nm_header = \<lparr>source = word_of_int (ne_node C), mailbox_port = word_of_int (ne_inbox_port C), portal_port = word_of_int (ne_inportal_port C)\<rparr>,
      nm_op = op\<rparr>"

text \<open>
  Write the request and read the reply. A transfer that does not return the size of the message ends the call with what it returned: the
  first component is that value or the reply.
\<close>

definition name_call :: "name_env \<Rightarrow> name_world \<Rightarrow> name_op \<Rightarrow> ((int result + name_reply) \<times> name_world) option" where
  "name_call C w op =
     (let ret = ne_mwrite C (nw_outbox w) in
      if ret \<noteq> Inr (ne_size C) then Some (Inl ret, w)
      else do {
        uassert (nw_alive w);
        (s, reps, shutdown) \<leftarrow> name_server_step (ne_valid C) (ne_mailbox C) (nw_names w) (name_request C op);
        let w1 = w\<lparr>nw_names := s, nw_alive := \<not> shutdown\<rparr>;
        rep \<leftarrow> arr_get reps 0;
        if ne_mread C \<noteq> Inr (ne_size C) then Some (Inl (ne_mread C), w1) else Some (Inr rep, w1) })"

text \<open>Requests without a reply: the server handles them on its own time, and may fail.\<close>

definition name_post :: "name_env \<Rightarrow> name_world \<Rightarrow> name_op \<Rightarrow> int result \<times> name_world" where
  "name_post C w op =
     (let ret = ne_mwrite C (nw_outbox w) in
      if ret \<noteq> Inr (ne_size C) then (ret, w)
      else if \<not> nw_alive w then (Inr 0, w)
      else case name_server_step (ne_valid C) (ne_mailbox C) (nw_names w) (name_request C op) of
        None \<Rightarrow> (Inr 0, w\<lparr>nw_alive := False\<rparr>)
      | Some (s, reps, shutdown) \<Rightarrow> (Inr 0, w\<lparr>nw_names := s, nw_alive := \<not> shutdown\<rparr>))"

text \<open>A lookup returns the node number of the reply, whether the lookup succeeded or not; it is \<open>-1\<close> when not.\<close>

definition nanvix_name_lookup :: "name_env \<Rightarrow> name_world \<Rightarrow> string option \<Rightarrow> (int result \<times> name_world) option" where
  "nanvix_name_lookup C w name =
     (if \<not> nw_initialized w then Some (Inl EAGAIN, w)
      else case nanvix_name_is_valid name of
        Inl e \<Rightarrow> Some (Inl e, w)
      | Inr _ \<Rightarrow> do {
          n \<leftarrow> name;
          (r, w1) \<leftarrow> name_call C w (NAME_LOOKUP n);
          case r of
            Inl ret \<Rightarrow> Some (ret, w1)
          | Inr rep \<Rightarrow> do { node \<leftarrow> rep_nodenum rep; Some (Inr node, w1) } })"

definition nanvix_name_link :: "name_env \<Rightarrow> name_world \<Rightarrow> int \<Rightarrow> string option \<Rightarrow> (int result \<times> name_world) option" where
  "nanvix_name_link C w node name =
     (if \<not> nw_initialized w then Some (Inl EAGAIN, w)
      else if \<not> ne_valid C node then Some (Inl EINVAL, w)
      else case nanvix_name_is_valid name of
        Inl e \<Rightarrow> Some (Inl e, w)
      | Inr _ \<Rightarrow> do {
          n \<leftarrow> name;
          (r, w1) \<leftarrow> name_call C w (NAME_LINK n);
          Some (case r of Inl ret \<Rightarrow> ret | Inr rep \<Rightarrow> (case rep_ret rep of Inr _ \<Rightarrow> Inr 0 | Inl e \<Rightarrow> Inl e), w1) })"

definition nanvix_name_unlink :: "name_env \<Rightarrow> name_world \<Rightarrow> string option \<Rightarrow> (int result \<times> name_world) option" where
  "nanvix_name_unlink C w name =
     (if \<not> nw_initialized w then Some (Inl EAGAIN, w)
      else case nanvix_name_is_valid name of
        Inl e \<Rightarrow> Some (Inl e, w)
      | Inr _ \<Rightarrow> do {
          n \<leftarrow> name;
          (r, w1) \<leftarrow> name_call C w (NAME_UNLINK n);
          Some (case r of Inl ret \<Rightarrow> ret | Inr rep \<Rightarrow> (case rep_ret rep of Inr _ \<Rightarrow> Inr 0 | Inl e \<Rightarrow> Inl e), w1) })"

definition nanvix_name_heartbeat :: "name_env \<Rightarrow> name_world \<Rightarrow> int result \<times> name_world" where
  "nanvix_name_heartbeat C w =
     (if \<not> nw_initialized w then (Inl EAGAIN, w)
      else case ne_clock C of Inl e \<Rightarrow> (Inl e, w) | Inr t \<Rightarrow> name_post C w (NAME_ALIVE t))"

definition nanvix_name_shutdown :: "name_env \<Rightarrow> name_world \<Rightarrow> int result \<times> name_world" where
  "nanvix_name_shutdown C w = (if \<not> nw_initialized w then (Inl EAGAIN, w) else name_post C w NAME_EXIT)"

section \<open>The name of the process\<close>

definition nanvix_getpname :: "name_world \<Rightarrow> string" where
  "nanvix_getpname w = nw_pname w"

definition nanvix_setpname :: "name_env \<Rightarrow> name_world \<Rightarrow> string \<Rightarrow> (int result \<times> name_world) option" where
  "nanvix_setpname C w name =
     (if NANVIX_PROC_NAME_MAX \<le> length name then Some (Inl EINVAL, w)
      else if nw_pname w \<noteq> [] then Some (Inl EBUSY, w)
      else do {
        (ret, w1) \<leftarrow> nanvix_name_link C w (ne_node C) (Some name);
        case ret of
          Inl e \<Rightarrow> Some (Inl e, w1)
        | Inr _ \<Rightarrow> Some (Inr 0, w1\<lparr>nw_pname := name\<rparr>) })"

section \<open>Calls against the table of names\<close>

definition name_env_up :: "name_env \<Rightarrow> bool" where
  "name_env_up C \<longleftrightarrow> mailboxes_up (ne_mailbox C) \<and> ne_valid C (ne_node C) \<and> 0 \<le> ne_node C \<and> ne_node C < 2 ^ 16 \<and>
     0 \<le> ne_inbox_port C \<and> ne_inbox_port C < 2 ^ 8 \<and> (\<forall>x. ne_mwrite C x = Inr (ne_size C)) \<and> ne_mread C = Inr (ne_size C)"

definition names_up :: "name_env \<Rightarrow> name_world \<Rightarrow> bool" where
  "names_up C w \<longleftrightarrow> nw_initialized w \<and> nw_alive w \<and> name_wf (ne_valid C) (nw_names w)"

abbreviation bindings :: "name_world \<Rightarrow> string \<Rightarrow> (int \<times> int \<times> int) option" where
  "bindings w \<equiv> name_abs (nw_names w)"

text \<open>Who may link a name: the table has room, and the name is free or already linked from this node and port.\<close>

definition may_link :: "name_env \<Rightarrow> name_world \<Rightarrow> string \<Rightarrow> bool" where
  "may_link C w n \<longleftrightarrow> name_ok n \<and> nr_registration (nw_names w) < int NANVIX_PNAME_MAX \<and>
     (case bindings w n of
        Some (node, port, c) \<Rightarrow> node = ne_node C \<and> port = ne_inbox_port C
      | None \<Rightarrow> (\<exists>i<length (procs (nw_names w)). nodenum (procs (nw_names w) ! i) < 0))"

lemma name_env_upD:
  assumes "name_env_up C"
  shows "mailboxes_up (ne_mailbox C)" "ne_valid C (ne_node C)" "ne_mwrite C x = Inr (ne_size C)" "ne_mread C = Inr (ne_size C)"
    "uint (word_of_int (ne_node C) :: 16 word) = ne_node C" "uint (word_of_int (ne_inbox_port C) :: 8 word) = ne_inbox_port C"
  using assms by (auto simp: name_env_up_def uint_word_of_int take_bit_int_eq_self)

lemma name_request_sel [simp]:
  "nm_op (name_request C op) = op" "source (nm_header (name_request C op)) = word_of_int (ne_node C)"
  "mailbox_port (nm_header (name_request C op)) = word_of_int (ne_inbox_port C)"
  by (simp_all add: name_request_def)

lemma may_link_room:
  "name_env_up C \<Longrightarrow> name_room (ne_valid C) (nw_names w) (nm_header (name_request C op)) n \<longleftrightarrow> may_link C w n"
  using name_env_upD(2) by (auto simp: name_room_def may_link_def name_env_upD split: option.split)

text \<open>A request with a reply reaches the server and its reply reaches the client.\<close>

lemma name_call_reply:
  assumes "name_env_up C" "nw_alive w" "name_handle (ne_valid C) (nw_names w) (name_request C op) = Some (s, Some (r, nd), False)"
  shows "name_call C w op =
    Some (Inr \<lparr>rep_to = nm_header (name_request C op), rep_ret = r, rep_nodenum = nd\<rparr>, w\<lparr>nw_names := s, nw_alive := True\<rparr>)"
  using assms(2,3) name_env_upD(1) [OF assms(1)]
  by (simp add: name_call_def name_server_step_def mailboxes_up_def mailbox_send_def name_env_upD(3,4) [OF assms(1)] arr_get_def)

lemma name_lookup_names:
  assumes "name_env_up C" "names_up C w"
  obtains w' where "nanvix_name_lookup C w (Some n) = Some (if name_ok n then Inr (case bindings w n of Some (node, _, _) \<Rightarrow> node | None \<Rightarrow> -1)
      else Inl (if n = [] then EINVAL else ENAMETOOLONG), w')"
    "names_up C w'" "bindings w' = bindings w" "nr_registration (nw_names w') = nr_registration (nw_names w)" "procs (nw_names w') = procs (nw_names w)"
    "nw_pname w' = nw_pname w"
proof (cases "name_ok n")
  case False
  then show thesis using assms(2) that [of w] by (simp add: nanvix_name_lookup_def names_up_def nanvix_name_is_valid_Inl)
next
  case True
  have wf: "name_wf (ne_valid C) (nw_names w)" and al: "nw_alive w" "nw_initialized w" using assms(2) by (simp_all add: names_up_def)
  let ?s = "(nw_names w)\<lparr>nlookups := nlookups (nw_names w) + 1\<rparr>"
  let ?nd = "case bindings w n of Some (node, _, _) \<Rightarrow> node | None \<Rightarrow> -1"
  have "\<exists>r. name_handle (ne_valid C) (nw_names w) (name_request C (NAME_LOOKUP n)) = Some (?s, Some (r, Some ?nd), False)"
    using True by (auto simp: name_handle_def do_name_lookup_eq [OF wf] split: option.split)
  then obtain r where "name_handle (ne_valid C) (nw_names w) (name_request C (NAME_LOOKUP n)) = Some (?s, Some (r, Some ?nd), False)" ..
  from name_call_reply [OF assms(1) al(1) this] show thesis
    using that [of "w\<lparr>nw_names := ?s, nw_alive := True\<rparr>"] True al wf by (simp add: nanvix_name_lookup_def nanvix_name_is_valid_Inr names_up_def)
qed

lemma name_link_names:
  assumes "name_env_up C" "names_up C w"
  obtains r w' where "nanvix_name_link C w node (Some n) = Some (r, w')" "names_up C w'" "nw_pname w' = nw_pname w"
    "r = (if ne_valid C node \<and> may_link C w n then Inr 0 else Inl (if ne_valid C node \<and> n \<noteq> [] \<and> \<not> name_ok n then ENAMETOOLONG else EINVAL))"
    "bindings w' = (if r = Inr 0 then (bindings w)(n \<mapsto> (ne_node C, ne_inbox_port C, (case bindings w n of Some (_, _, c) \<Rightarrow> c + 1 | None \<Rightarrow> 1)))
       else bindings w)"
proof (cases "ne_valid C node \<and> name_ok n")
  case False
  have "\<not> (ne_valid C node \<and> may_link C w n)" using False by (auto simp: may_link_def)
  then show thesis using assms(2) that [of "Inl (if ne_valid C node \<and> n \<noteq> [] \<and> \<not> name_ok n then ENAMETOOLONG else EINVAL)" w] False
    by (auto simp: nanvix_name_link_def names_up_def nanvix_name_is_valid_Inl)
next
  case True
  let ?V = "ne_valid C" and ?s = "nw_names w" and ?h = "nm_header (name_request C (NAME_LINK n))"
  have wf: "name_wf ?V ?s" and al: "nw_alive w" "nw_initialized w" using assms(2) by (simp_all add: names_up_def)
  obtain r s where l: "do_name_link ?V ?s ?h n = (r, s)" by fastforce
  then have "name_handle ?V ?s (name_request C (NAME_LINK n)) = Some (s, Some (r, None), False)" by (simp add: name_handle_def)
  from name_call_reply [OF assms(1) al(1) this]
  have c: "nanvix_name_link C w node (Some n) = Some (case r of Inr _ \<Rightarrow> Inr 0 | Inl e \<Rightarrow> Inl e, w\<lparr>nw_names := s, nw_alive := True\<rparr>)"
    using True al by (simp add: nanvix_name_link_def nanvix_name_is_valid_Inr)
  have wf': "name_wf ?V s" using do_name_link_wf [OF wf, of ?h n] l by simp
  show thesis
  proof (cases "may_link C w n")
    case m: True
    have room: "name_room ?V ?s ?h n" using m may_link_room [OF assms(1)] by blast
    have "r = Inr ()" "name_abs s = name_linked ?s ?h n" using do_name_link_granted [OF wf room] l by simp_all
    with c that [of "Inr 0" "w\<lparr>nw_names := s, nw_alive := True\<rparr>"] m True al wf' show thesis
      by (simp add: names_up_def name_linked_def name_env_upD(5,6) [OF assms(1)])
  next
    case m: False
    have "\<not> name_room ?V ?s ?h n" using m may_link_room [OF assms(1)] by blast
    from do_name_link_refused [OF wf this] l True have "r = Inl EINVAL" "s = ?s\<lparr>nlinks := nlinks ?s + 1\<rparr>" by simp_all
    then have "r = Inl EINVAL" "name_abs s = name_abs ?s" by simp_all
    with c have e: "nanvix_name_link C w node (Some n) = Some (Inl EINVAL, w\<lparr>nw_names := s, nw_alive := True\<rparr>)" "name_abs s = name_abs ?s" by simp_all
    show thesis by (rule that [OF e(1)]) (use m True al wf' e(2) in \<open>simp_all add: names_up_def\<close>)
  qed
qed

lemma name_unlink_names:
  assumes "name_env_up C" "names_up C w"
  obtains r w' where "nanvix_name_unlink C w (Some n) = Some (r, w')" "names_up C w'" "nw_pname w' = nw_pname w"
    "r = (if \<not> name_ok n then Inl (if n = [] then EINVAL else ENAMETOOLONG)
       else case bindings w n of None \<Rightarrow> Inl ENOENT | Some (_, port, _) \<Rightarrow> if port = ne_inbox_port C then Inr 0 else Inl EINVAL)"
    "bindings w' = (if r = Inr 0 then (bindings w)(n := (case bindings w n of Some (node, port, c) \<Rightarrow> if c = 1 then None else Some (node, port, c - 1) | None \<Rightarrow> None))
       else bindings w)"
proof (cases "name_ok n")
  case False
  then show thesis using assms(2) that [of "Inl (if n = [] then EINVAL else ENAMETOOLONG)" w]
    by (simp add: nanvix_name_unlink_def names_up_def nanvix_name_is_valid_Inl)
next
  case True
  let ?V = "ne_valid C" and ?h = "nm_header (name_request C (NAME_UNLINK n))"
  let ?s = "(nw_names w)\<lparr>nunlinks := nunlinks (nw_names w) + 1\<rparr>"
  have wf: "name_wf ?V ?s" and al: "nw_alive w" "nw_initialized w" using assms(2) by (simp_all add: names_up_def)
  have ab: "name_abs ?s = bindings w" by simp
  obtain r s where l: "do_name_unlink ?s ?h n = (r, s)" by fastforce
  then have "name_handle ?V (nw_names w) (name_request C (NAME_UNLINK n)) = Some (s, Some (r, None), False)" by (simp add: name_handle_def)
  from name_call_reply [OF assms(1) al(1) this]
  have c: "nanvix_name_unlink C w (Some n) = Some (case r of Inr _ \<Rightarrow> Inr 0 | Inl e \<Rightarrow> Inl e, w\<lparr>nw_names := s, nw_alive := True\<rparr>)"
    using True al by (simp add: nanvix_name_unlink_def nanvix_name_is_valid_Inr)
  have wf': "name_wf ?V s" using do_name_unlink_wf [OF wf, of ?h n] l by simp
  have port: "uint (mailbox_port ?h) = ne_inbox_port C" by (simp add: name_env_upD(6) [OF assms(1)])
  show thesis
  proof (cases "\<exists>node c. bindings w n = Some (node, ne_inbox_port C, c)")
    case m: True
    then obtain node k where b0: "bindings w n = Some (node, ne_inbox_port C, k)" by blast
    then have b: "name_abs ?s n = Some (node, uint (mailbox_port ?h), k)" by (simp only: ab port)
    have "r = Inr ()" "name_abs s = (bindings w)(n := if k = 1 then None else Some (node, ne_inbox_port C, k - 1))"
      using do_name_unlink_held [OF wf b] l by (simp_all add: ab name_env_upD(6) [OF assms(1)])
    with c that [of "Inr 0" "w\<lparr>nw_names := s, nw_alive := True\<rparr>"] b0 True al wf' show thesis by (simp add: names_up_def)
  next
    case m: False
    then have "\<nexists>node c. name_abs ?s n = Some (node, uint (mailbox_port ?h), c)" by (simp only: ab port not_False_eq_True)
    from do_name_unlink_refused [OF wf this] l
    have "r = Inl (if bindings w n = None then ENOENT else EINVAL)" "name_abs s = bindings w" using True by auto
    with c that [of "Inl (if bindings w n = None then ENOENT else EINVAL)" "w\<lparr>nw_names := s, nw_alive := True\<rparr>"] m True al wf' show thesis
      by (auto simp: names_up_def split: option.splits)
  qed
qed

text \<open>A heartbeat is accepted exactly when some name is linked from this node.\<close>

lemma name_node_bound:
  assumes "name_wf V s" "0 \<le> node"
  shows "(\<exists>i<length (procs s). nodenum (procs s ! i) = node) \<longleftrightarrow> (\<exists>n port c. name_abs s n = Some (node, port, c))"
proof
  assume "\<exists>i<length (procs s). nodenum (procs s ! i) = node"
  then obtain i where i: "i < length (procs s)" "nodenum (procs s ! i) = node" by blast
  with assms(2) have "name_key (procs s ! i) = Some (pname (procs s ! i))" by (simp add: name_key_def)
  from name_abs_entry [OF assms(1) i(1) this] i(2) show "\<exists>n port c. name_abs s n = Some (node, port, c)" by blast
next
  assume "\<exists>n port c. name_abs s n = Some (node, port, c)"
  then show "\<exists>i<length (procs s). nodenum (procs s ! i) = node" by (auto elim!: name_abs_Some_entry)
qed

lemma name_alive_step:
  assumes "name_env_up C" "names_up C w"
  shows "if \<exists>n port c. bindings w n = Some (ne_node C, port, c)
    then \<exists>s. name_server_step (ne_valid C) (ne_mailbox C) (nw_names w) (name_request C (NAME_ALIVE t)) = Some (s, [], False) \<and>
      name_wf (ne_valid C) s \<and> name_abs s = bindings w
    else name_server_step (ne_valid C) (ne_mailbox C) (nw_names w) (name_request C (NAME_ALIVE t)) = None"
proof -
  let ?V = "ne_valid C" and ?s = "nw_names w" and ?h = "nm_header (name_request C (NAME_ALIVE t))"
  have wf: "name_wf ?V ?s" using assms(2) by (simp add: names_up_def)
  have src: "uint (source ?h) = ne_node C" by (simp add: name_env_upD(5) [OF assms(1)])
  have n: "0 \<le> ne_node C" using assms(1) by (simp add: name_env_up_def)
  obtain r s where h: "do_name_heartbeat ?V ?s ?h t = (r, s)" by fastforce
  have "(\<exists>e. r = Inl e) \<longleftrightarrow> \<not> (\<exists>n port c. bindings w n = Some (ne_node C, port, c))"
    using do_name_heartbeat_fails [of ?V ?s ?h t] h name_node_bound [OF wf n] name_env_upD(2) [OF assms(1)] unfolding src by auto
  moreover note do_name_heartbeat_ok [OF wf h]
  ultimately show ?thesis using h by (cases r) (auto simp: name_server_step_def name_handle_def)
qed

section \<open>Properties\<close>

text \<open>
  C34. The client calls act on the table of names. With a kernel whose transfers succeed and a server that runs, a lookup returns the node of the name, or
  \<open>-1\<close> when it is not linked; a link from a valid node is granted exactly when the table has room and the name is free or already held by this
  node and port, and adds one to its count; an unlink is granted exactly when the name is linked from this port and takes one off; invalid
  names are refused. No refused call changes the table.
\<close>

theorem name_client_correct:
  assumes "name_env_up C" "names_up C w"
  shows "(\<exists>w'. nanvix_name_lookup C w (Some n) = Some (if name_ok n then Inr (case bindings w n of Some (node, _, _) \<Rightarrow> node | None \<Rightarrow> -1)
        else Inl (if n = [] then EINVAL else ENAMETOOLONG), w') \<and> names_up C w' \<and> bindings w' = bindings w) \<and>
    (\<exists>r w'. nanvix_name_link C w node (Some n) = Some (r, w') \<and> names_up C w' \<and> (r = Inr 0 \<longleftrightarrow> ne_valid C node \<and> may_link C w n) \<and>
      bindings w' = (if r = Inr 0 then (bindings w)(n \<mapsto> (ne_node C, ne_inbox_port C, (case bindings w n of Some (_, _, c) \<Rightarrow> c + 1 | None \<Rightarrow> 1)))
        else bindings w)) \<and>
    (\<exists>r w'. nanvix_name_unlink C w (Some n) = Some (r, w') \<and> names_up C w' \<and> (r = Inr 0 \<longleftrightarrow> (\<exists>node c. bindings w n = Some (node, ne_inbox_port C, c))) \<and>
      bindings w' = (if r = Inr 0 then (bindings w)(n := (case bindings w n of Some (node, port, c) \<Rightarrow> if c = 1 then None else Some (node, port, c - 1) | None \<Rightarrow> None))
        else bindings w))"
proof (intro conjI)
  show "\<exists>w'. nanvix_name_lookup C w (Some n) = Some (if name_ok n then Inr (case bindings w n of Some (node, _, _) \<Rightarrow> node | None \<Rightarrow> -1)
        else Inl (if n = [] then EINVAL else ENAMETOOLONG), w') \<and> names_up C w' \<and> bindings w' = bindings w"
    by (rule name_lookup_names [OF assms, of n]) blast
  show "\<exists>r w'. nanvix_name_link C w node (Some n) = Some (r, w') \<and> names_up C w' \<and> (r = Inr 0 \<longleftrightarrow> ne_valid C node \<and> may_link C w n) \<and>
      bindings w' = (if r = Inr 0 then (bindings w)(n \<mapsto> (ne_node C, ne_inbox_port C, (case bindings w n of Some (_, _, c) \<Rightarrow> c + 1 | None \<Rightarrow> 1)))
        else bindings w)"
    by (rule name_link_names [OF assms, of node n]) (metis Inl_Inr_False)
  have ok: "name_ok n" if "bindings w n = Some x" for x
    using name_abs_empty [of "ne_valid C" "nw_names w" n] assms(2) that by (auto simp: names_up_def)
  show "\<exists>r w'. nanvix_name_unlink C w (Some n) = Some (r, w') \<and> names_up C w' \<and> (r = Inr 0 \<longleftrightarrow> (\<exists>node c. bindings w n = Some (node, ne_inbox_port C, c))) \<and>
      bindings w' = (if r = Inr 0 then (bindings w)(n := (case bindings w n of Some (node, port, c) \<Rightarrow> if c = 1 then None else Some (node, port, c - 1) | None \<Rightarrow> None))
        else bindings w)"
    by (rule name_unlink_names [OF assms, of n], intro exI conjI, assumption+) (use ok in \<open>auto split: option.splits if_splits\<close>)
qed

text \<open>The environment of the witnesses: node 7, port 4, next to a server that has just booted.\<close>

definition name_env_ideal :: name_env where
  "name_env_ideal = \<lparr>ne_valid = any_node, ne_mailbox = kmailbox_ideal, ne_node = 7, ne_inbox_port = 4, ne_inportal_port = 4, ne_size = 72, ne_mopen = 0,
     ne_mclose = (\<lambda>_. 0), ne_mwrite = (\<lambda>_. Inr 72), ne_mread = Inr 72, ne_clock = Inr 9\<rparr>"

definition name_world_booted :: name_world where
  "name_world_booted = snd (nanvix_name_setup name_env_ideal
     \<lparr>nw_initialized = False, nw_outbox = 0, nw_pname = [], nw_names = name_booted, nw_alive = True\<rparr>)"

lemma name_env_ideal_up: "name_env_up name_env_ideal"
  by (simp add: name_env_up_def name_env_ideal_def kmailbox_ideal_up any_node_def)

lemma name_world_booted_up:
  "names_up name_env_ideal name_world_booted" "nw_names name_world_booted = name_booted" "nw_pname name_world_booted = []"
  by (simp_all add: names_up_def name_world_booted_def name_env_ideal_def nanvix_name_setup_def name_booted_wf)

lemma name_world_booted_may_link:
  assumes "name_ok n" "n \<noteq> ''/io0''"
  shows "may_link name_env_ideal name_world_booted n"
proof -
  have "name_room any_node name_booted (nm_header (name_request name_env_ideal (NAME_LINK n))) n" by (rule name_booted_room [OF assms])
  then show ?thesis
    using may_link_room [OF name_env_ideal_up, of name_world_booted "NAME_LINK n" n] by (simp add: name_world_booted_up(2) name_env_ideal_def)
qed

theorem name_client_correct_witness:
  "(\<exists>w'. nanvix_name_lookup name_env_ideal name_world_booted (Some ''/io0'') = Some (Inr 0, w')) \<and>
   (\<exists>w'. nanvix_name_link name_env_ideal name_world_booted 7 (Some ''/vfs'') = Some (Inr 0, w') \<and> bindings w' ''/vfs'' = Some (7, 4, 1))"
proof -
  note t = name_client_correct [OF name_env_ideal_up name_world_booted_up(1)]
  have "name_ok ''/io0''" by (simp add: name_ok_def NANVIX_PROC_NAME_MAX_def)
  moreover have "bindings name_world_booted n = (if n = ''/io0'' then Some (0, 1, 1) else None)" for n
    by (simp add: name_world_booted_up(2) name_booted_abs)
  moreover have "may_link name_env_ideal name_world_booted ''/vfs''" by (rule name_world_booted_may_link) (simp_all add: name_ok_vfs)
  moreover have "ne_valid name_env_ideal 7" "ne_node name_env_ideal = 7" "ne_inbox_port name_env_ideal = 4" by (simp_all add: name_env_ideal_def any_node_def)
  ultimately show ?thesis using t [of "''/io0''" 7] t [of "''/vfs''" 7] by auto
qed

text \<open>
  A process can name itself once. When the process has no name and the name can be linked, \<open>nanvix_setpname\<close> succeeds: from then on
  \<open>nanvix_getpname\<close> returns the name, every lookup of it gives this node, and a second call is refused. When the link is refused the process
  stays without a name and the table of names is unchanged.
\<close>

theorem setpname_correct:
  assumes "name_env_up C" "names_up C w" "nw_pname w = []" "length n < NANVIX_PROC_NAME_MAX"
  shows "\<exists>r w'. nanvix_setpname C w n = Some (r, w') \<and> names_up C w' \<and>
    (if may_link C w n then r = Inr 0 \<and> nanvix_getpname w' = n \<and> map_option fst (nanvix_name_lookup C w' (Some n)) = Some (Inr (ne_node C)) \<and>
        (length m < NANVIX_PROC_NAME_MAX \<longrightarrow> nanvix_setpname C w' m = Some (Inl EBUSY, w'))
     else (\<exists>e. r = Inl e) \<and> nanvix_getpname w' = [] \<and> bindings w' = bindings w)"
proof -
  have V: "ne_valid C (ne_node C)" by (rule name_env_upD(2) [OF assms(1)])
  obtain r w1 where l: "nanvix_name_link C w (ne_node C) (Some n) = Some (r, w1)" "names_up C w1" "nw_pname w1 = nw_pname w"
    "r = (if may_link C w n then Inr 0 else Inl (if n \<noteq> [] \<and> \<not> name_ok n then ENAMETOOLONG else EINVAL))"
    "bindings w1 = (if r = Inr 0 then (bindings w)(n \<mapsto> (ne_node C, ne_inbox_port C, (case bindings w n of Some (_, _, c) \<Rightarrow> c + 1 | None \<Rightarrow> 1)))
       else bindings w)"
    by (rule name_link_names [OF assms(1,2), of "ne_node C" n]) (simp add: V)
  show ?thesis
  proof (cases "may_link C w n")
    case False
    with l assms(3,4) show ?thesis by (simp add: nanvix_setpname_def nanvix_getpname_def)
  next
    case True
    let ?w = "w1\<lparr>nw_pname := n\<rparr>"
    have ok: "name_ok n" using True by (simp add: may_link_def)
    have up: "names_up C ?w" using l(2) by (simp add: names_up_def)
    have "map_option fst (nanvix_name_lookup C ?w (Some n)) = Some (Inr (ne_node C))"
      by (rule name_lookup_names [OF assms(1) up, of n]) (use ok True l(4,5) in simp)
    moreover have "n \<noteq> []" using ok by (simp add: name_ok_def)
    ultimately show ?thesis using l True assms(3,4) up by (simp add: nanvix_setpname_def nanvix_getpname_def)
  qed
qed

theorem setpname_correct_witness:
  "\<exists>w'. nanvix_setpname name_env_ideal name_world_booted ''/vfs'' = Some (Inr 0, w') \<and> nanvix_getpname w' = ''/vfs'' \<and>
     map_option fst (nanvix_name_lookup name_env_ideal w' (Some ''/vfs'')) = Some (Inr 7) \<and> nanvix_setpname name_env_ideal w' ''/other'' = Some (Inl EBUSY, w')"
proof -
  have "may_link name_env_ideal name_world_booted ''/vfs''" by (rule name_world_booted_may_link) (simp_all add: name_ok_vfs)
  moreover have "length ''/vfs'' < NANVIX_PROC_NAME_MAX" "length ''/other'' < NANVIX_PROC_NAME_MAX" by (simp_all add: NANVIX_PROC_NAME_MAX_def)
  moreover have "ne_node name_env_ideal = 7" by (simp add: name_env_ideal_def)
  ultimately show ?thesis using setpname_correct [OF name_env_ideal_up name_world_booted_up(1,3), of "''/vfs''" "''/other''"] by auto
qed

text \<open>
  C24. A heartbeat can stop the name service. The call always reports success. When some name is linked from this node the table is unchanged; when none is,
  the server fails its assertion and is gone, and from then on no lookup of a valid name returns.
\<close>

theorem name_heartbeat_stops_service:
  assumes "name_env_up C" "names_up C w" "ne_clock C = Inr t"
  shows "\<exists>w'. nanvix_name_heartbeat C w = (Inr 0, w') \<and>
    (if \<exists>n port c. bindings w n = Some (ne_node C, port, c) then names_up C w' \<and> bindings w' = bindings w
     else \<not> nw_alive w' \<and> (\<forall>n. name_ok n \<longrightarrow> nanvix_name_lookup C w' (Some n) = None))"
proof -
  have up: "nw_initialized w" "nw_alive w" using assms(2) by (simp_all add: names_up_def)
  show ?thesis
  proof (cases "\<exists>n port c. bindings w n = Some (ne_node C, port, c)")
    case True
    then show ?thesis using name_alive_step [OF assms(1,2), of t] up assms(3)
      by (auto simp: nanvix_name_heartbeat_def name_post_def names_up_def name_env_upD(3) [OF assms(1)])
  next
    case False
    let ?w = "w\<lparr>nw_alive := False\<rparr>"
    have "nanvix_name_heartbeat C w = (Inr 0, ?w)" using name_alive_step [OF assms(1,2), of t] up assms(3) False
      by (simp add: nanvix_name_heartbeat_def name_post_def name_env_upD(3) [OF assms(1)])
    moreover have "nanvix_name_lookup C ?w (Some n) = None" if "name_ok n" for n
      using that up by (simp add: nanvix_name_lookup_def nanvix_name_is_valid_Inr name_call_def name_env_upD(3) [OF assms(1)])
    ultimately show ?thesis using False by auto
  qed
qed

theorem name_heartbeat_stops_service_witness:
  "\<exists>w'. nanvix_name_heartbeat name_env_ideal name_world_booted = (Inr 0, w') \<and> nanvix_name_lookup name_env_ideal w' (Some ''/vfs'') = None"
proof -
  have "ne_clock name_env_ideal = Inr 9" "ne_node name_env_ideal = 7" by (simp_all add: name_env_ideal_def)
  moreover have "bindings name_world_booted n \<noteq> Some (7, port, c)" for n port c by (simp add: name_world_booted_up(2) name_booted_abs)
  ultimately show ?thesis using name_heartbeat_stops_service [OF name_env_ideal_up name_world_booted_up(1)] name_ok_vfs by fastforce
qed

end
