(* ===== verification/Named.thy ===== *)
theory Named
  imports NameClient Resource Slots
begin

text \<open>
  Named mailboxes and portals, \<open>src/libruntime/pm/mailbox.c\<close> and \<open>portal.c\<close>: two tables of connectors to the kernel over the pool
  interface of \<open>Resource\<close> and the calls of the name service. A connector that a process creates is read-only and holds a link of its
  name; one that it opens is write-only. The kernel's mailboxes and portals are the parameter \<open>pm_env\<close>.
\<close>

section \<open>State\<close>

text \<open>The struct of a portal has the same fields, its \<open>portalid\<close> is \<open>nb_fd\<close>.\<close>

record 'r named_mailbox =
  nb_resource :: 'r
  nb_fd :: int
  nb_owner :: int
  nb_name :: string

type_synonym 'r named_portal = "'r named_mailbox"

record 'r pm =
  pm_mailboxes :: "'r named_mailbox list"
  pm_named_inboxes :: "int list"
  pm_inboxes :: "int list"
  pm_mbx_initialized :: "bool list"
  pm_portals :: "'r named_portal list"
  pm_inportals :: "int list"
  pm_prt_initialized :: "bool list"
  pm_names :: name_world

text \<open>
  The environment: the name service, the core, the standard connectors, the thread, limits of the kernel, and its calls on mailboxes and
  portals. A read returns the bytes it stores.
\<close>

record pm_env =
  pe_name :: name_env
  pe_core :: nat
  pe_stdinbox :: int
  pe_stdinportal :: int
  pe_thread :: int
  pe_message_size :: nat
  pe_ports_base :: int
  pe_mailbox_ports :: int
  pe_portal_ports :: int
  pe_any_source :: int
  pe_any_port :: int
  pe_mcreate :: "int \<Rightarrow> int \<Rightarrow> int"
  pe_munlink :: "int \<Rightarrow> int"
  pe_mopen :: "int \<Rightarrow> int \<Rightarrow> int"
  pe_mclose :: "int \<Rightarrow> int result"
  pe_mread :: "int \<Rightarrow> nat \<Rightarrow> byte list result"
  pe_mwrite :: "int \<Rightarrow> byte list \<Rightarrow> int result"
  pe_mioctl :: "int \<Rightarrow> int \<Rightarrow> int \<Rightarrow> int result"
  pe_pcreate :: "int \<Rightarrow> int \<Rightarrow> int"
  pe_punlink :: "int \<Rightarrow> int"
  pe_popen :: "int \<Rightarrow> int \<Rightarrow> int \<Rightarrow> int"
  pe_pclose :: "int \<Rightarrow> int result"
  pe_pallow :: "int \<Rightarrow> int \<Rightarrow> int \<Rightarrow> int result"
  pe_pread :: "int \<Rightarrow> nat \<Rightarrow> byte list result"
  pe_pwrite :: "int \<Rightarrow> byte list \<Rightarrow> int result"
  pe_pport :: "int \<Rightarrow> int result"

abbreviation knode_get_num :: "pm_env \<Rightarrow> int" where
  "knode_get_num C \<equiv> ne_node (pe_name C)"

definition within :: "int \<Rightarrow> int \<Rightarrow> int \<Rightarrow> bool" where
  "within x a b \<longleftrightarrow> a \<le> x \<and> x < b"

section \<open>Mailboxes\<close>

definition mailboxes_are_initialized :: "pm_env \<Rightarrow> 'r pm \<Rightarrow> bool option" where
  "mailboxes_are_initialized C st = arr_get (pm_mbx_initialized st) (nat (knode_get_num C))"

definition nanvix_mailbox_is_valid :: "'r pm \<Rightarrow> int \<Rightarrow> bool" where
  "nanvix_mailbox_is_valid st mbxid \<longleftrightarrow> 0 \<le> mbxid \<and> mbxid < int (length (pm_mailboxes st))"

text \<open>Storing an entry of a table.\<close>

definition set_mailbox :: "nat \<Rightarrow> ('r named_mailbox \<Rightarrow> 'r named_mailbox) \<Rightarrow> 'r pm \<Rightarrow> 'r pm" where
  "set_mailbox i f st = st\<lparr>pm_mailboxes := (pm_mailboxes st)[i := f (pm_mailboxes st ! i)]\<rparr>"

definition alloc_mailbox :: "'r resource_ops \<Rightarrow> 'r pm \<Rightarrow> (nat \<times> 'r pm) option" where
  "alloc_mailbox R st = map_option (\<lambda>(i, r). (i, set_mailbox i (\<lambda>m. m\<lparr>nb_resource := r\<rparr>) st)) (resource_alloc R (map nb_resource (pm_mailboxes st)))"

definition free_mailbox :: "'r resource_ops \<Rightarrow> nat \<Rightarrow> 'r pm \<Rightarrow> 'r pm" where
  "free_mailbox R i = set_mailbox i (\<lambda>m. m\<lparr>nb_resource := resource_free R (nb_resource m)\<rparr>)"

definition nanvix_mailbox_create :: "pm_env \<Rightarrow> 'r resource_ops \<Rightarrow> 'r pm \<Rightarrow> string option \<Rightarrow> (int result \<times> 'r pm) option" where
  "nanvix_mailbox_create C R st name =
     (case name of
        None \<Rightarrow> Some (Inl EINVAL, st)
      | Some n \<Rightarrow>
          if pe_message_size C < length n then Some (Inl EINVAL, st)
          else let fd = pe_stdinbox C in
          if fd < 0 then Some (Inl EAGAIN, st)
          else case alloc_mailbox R st of
            None \<Rightarrow> Some (Inl EAGAIN, st)
          | Some (mbxid, st1) \<Rightarrow> do {
              (ret, w) \<leftarrow> nanvix_name_link (pe_name C) (pm_names st1) (knode_get_num C) name;
              let st2 = st1\<lparr>pm_names := w\<rparr>;
              if ret \<noteq> Inr 0 then Some (Inl EAGAIN, free_mailbox R mbxid st2)
              else do {
                let st3 = set_mailbox mbxid (\<lambda>m. m\<lparr>nb_fd := fd, nb_owner := knode_get_num C, nb_name := n\<rparr>) st2;
                boxes \<leftarrow> arr_set (pm_named_inboxes st3) (pe_core C) (int mbxid);
                Some (Inr (int mbxid),
                  set_mailbox mbxid (\<lambda>m. m\<lparr>nb_resource := resource_set_rdonly R (nb_resource m)\<rparr>) (st3\<lparr>pm_named_inboxes := boxes\<rparr>)) } })"

definition nanvix_mailbox_create2 :: "pm_env \<Rightarrow> 'r resource_ops \<Rightarrow> 'r pm \<Rightarrow> string option \<Rightarrow> int \<Rightarrow> (int result \<times> 'r pm) option" where
  "nanvix_mailbox_create2 C R st name port =
     (case name of
        None \<Rightarrow> Some (Inl EINVAL, st)
      | Some n \<Rightarrow>
          if pe_message_size C < length n then Some (Inl EINVAL, st)
          else if \<not> within port (pe_ports_base C) (pe_mailbox_ports C) then Some (Inl EINVAL, st)
          else case alloc_mailbox R st of
            None \<Rightarrow> Some (Inl EAGAIN, st)
          | Some (mbxid, st1) \<Rightarrow>
              (let fd = pe_mcreate C (knode_get_num C) port in
               if fd < 0 then Some (Inl EAGAIN, free_mailbox R mbxid st1)
               else do {
                 (ret, w) \<leftarrow> nanvix_name_link (pe_name C) (pm_names st1) (knode_get_num C) name;
                 let st2 = st1\<lparr>pm_names := w\<rparr>;
                 if ret \<noteq> Inr 0 then do { uassert (\<not> pe_munlink C fd < 0); Some (Inl EAGAIN, free_mailbox R mbxid st2) }
                 else Some (Inr (int mbxid), set_mailbox mbxid
                   (\<lambda>m. m\<lparr>nb_fd := fd, nb_owner := knode_get_num C, nb_name := n, nb_resource := resource_set_rdonly R (nb_resource m)\<rparr>) st2) }))"

definition nanvix_mailbox_open :: "pm_env \<Rightarrow> 'r resource_ops \<Rightarrow> 'r pm \<Rightarrow> string option \<Rightarrow> int \<Rightarrow> (int result \<times> 'r pm) option" where
  "nanvix_mailbox_open C R st name port =
     (case name of
        None \<Rightarrow> Some (Inl EINVAL, st)
      | Some n \<Rightarrow> do {
          (ret, w) \<leftarrow> nanvix_name_lookup (pe_name C) (pm_names st) name;
          let st1 = st\<lparr>pm_names := w\<rparr>;
          case ret of
            Inl e \<Rightarrow> Some (Inl EAGAIN, st1)
          | Inr node \<Rightarrow>
              if node < 0 then Some (Inl EAGAIN, st1)
              else case alloc_mailbox R st1 of
                None \<Rightarrow> Some (Inl EAGAIN, st1)
              | Some (mbxid, st2) \<Rightarrow>
                  (let fd = pe_mopen C node port in
                   if fd < 0 then Some (Inl EAGAIN, free_mailbox R mbxid st2)
                   else Some (Inr (int mbxid), set_mailbox mbxid
                     (\<lambda>m. m\<lparr>nb_fd := fd, nb_owner := knode_get_num C, nb_resource := resource_set_wronly R (nb_resource m)\<rparr>) st2)) })"

text \<open>The checks that a call on a mailbox starts with.\<close>

definition mailbox_check :: "pm_env \<Rightarrow> 'r resource_ops \<Rightarrow> 'r pm \<Rightarrow> int \<Rightarrow> ('r \<Rightarrow> bool) \<Rightarrow> errno \<Rightarrow> 'r named_mailbox result" where
  "mailbox_check C R st mbxid mode e =
     (if \<not> nanvix_mailbox_is_valid st mbxid then Inl EINVAL
      else let m = pm_mailboxes st ! nat mbxid in
        if \<not> resource_is_used R (nb_resource m) then Inl EINVAL
        else if nb_owner m \<noteq> knode_get_num C then Inl EPERM
        else if \<not> mode (nb_resource m) then Inl e
        else Inr m)"

definition nanvix_mailbox_read :: "pm_env \<Rightarrow> 'r resource_ops \<Rightarrow> 'r pm \<Rightarrow> int \<Rightarrow> bool \<Rightarrow> nat \<Rightarrow> int result \<times> byte list" where
  "nanvix_mailbox_read C R st mbxid null n =
     (case mailbox_check C R st mbxid (resource_is_rdonly R) ENOTSUP of
        Inl e \<Rightarrow> (Inl e, [])
      | Inr m \<Rightarrow>
          if null then (Inl EINVAL, [])
          else case pe_mread C (nb_fd m) n of Inl _ \<Rightarrow> (Inl EINVAL, []) | Inr data \<Rightarrow> (Inr 0, data))"

definition nanvix_mailbox_set_remote :: "pm_env \<Rightarrow> 'r pm \<Rightarrow> int \<Rightarrow> int \<Rightarrow> int \<Rightarrow> int result" where
  "nanvix_mailbox_set_remote C st mbxid remote port =
     (if \<not> nanvix_mailbox_is_valid st mbxid then Inl EINVAL
      else if \<not> within remote 0 (pe_any_source C + 1) then Inl EINVAL
      else if \<not> within port 0 (pe_any_port C + 1) then Inl EINVAL
      else pe_mioctl C (nb_fd (pm_mailboxes st ! nat mbxid)) remote port)"

definition nanvix_mailbox_write :: "pm_env \<Rightarrow> 'r resource_ops \<Rightarrow> 'r pm \<Rightarrow> int \<Rightarrow> byte list option \<Rightarrow> nat \<Rightarrow> int result option" where
  "nanvix_mailbox_write C R st mbxid buf n =
     (case mailbox_check C R st mbxid (resource_is_wronly R) EINVAL of
        Inl e \<Rightarrow> Some (Inl e)
      | Inr m \<Rightarrow>
          (case buf of
             None \<Rightarrow> Some (Inl EINVAL)
           | Some b \<Rightarrow> do {
               uassert (n \<le> length b);
               Some (case pe_mwrite C (nb_fd m) (take n b) of Inl _ \<Rightarrow> Inl EINVAL | Inr _ \<Rightarrow> Inr 0) }))"

definition nanvix_mailbox_close :: "pm_env \<Rightarrow> 'r resource_ops \<Rightarrow> 'r pm \<Rightarrow> int \<Rightarrow> int result \<times> 'r pm" where
  "nanvix_mailbox_close C R st mbxid =
     (case mailbox_check C R st mbxid (resource_is_wronly R) EINVAL of
        Inl e \<Rightarrow> (Inl e, st)
      | Inr m \<Rightarrow>
          (let r = pe_mclose C (nb_fd m) in
           if r \<noteq> Inr 0 then (r, st) else (Inr 0, free_mailbox R (nat mbxid) st)))"

definition nanvix_mailbox_unlink :: "pm_env \<Rightarrow> 'r resource_ops \<Rightarrow> 'r pm \<Rightarrow> int \<Rightarrow> (int result \<times> 'r pm) option" where
  "nanvix_mailbox_unlink C R st mbxid =
     (case mailbox_check C R st mbxid (resource_is_rdonly R) EINVAL of
        Inl e \<Rightarrow> Some (Inl e, st)
      | Inr m \<Rightarrow> do {
          (ret, w) \<leftarrow> nanvix_name_unlink (pe_name C) (pm_names st) (Some (nb_name m));
          let st1 = st\<lparr>pm_names := w\<rparr>;
          if ret \<noteq> Inr 0 then Some (Inl EAGAIN, st1) else Some (Inr 0, free_mailbox R (nat mbxid) st1) })"

text \<open>An uninitialized facility sets \<open>errno\<close> to \<open>EINVAL\<close> and returns \<open>-1\<close>.\<close>

definition nanvix_mailbox_get_inbox :: "pm_env \<Rightarrow> 'r pm \<Rightarrow> int result option" where
  "nanvix_mailbox_get_inbox C st =
     do { i \<leftarrow> mailboxes_are_initialized C st;
          if \<not> i then Some (Inl EINVAL)
          else do { fd \<leftarrow> arr_get (pm_inboxes st) (nat (knode_get_num C)); Some (Inr fd) } }"

definition nanvix_mailbox_setup :: "pm_env \<Rightarrow> 'r pm \<Rightarrow> (int \<times> 'r pm) option" where
  "nanvix_mailbox_setup C st =
     do { let local = nat (knode_get_num C);
          i \<leftarrow> arr_get (pm_mbx_initialized st) local;
          if i then Some (0, st)
          else do {
            boxes \<leftarrow> arr_set (pm_inboxes st) local (pe_stdinbox C);
            is \<leftarrow> arr_set (pm_mbx_initialized st) local True;
            Some (0, st\<lparr>pm_inboxes := boxes, pm_mbx_initialized := is\<rparr>) } }"

definition nanvix_mailbox_cleanup :: "pm_env \<Rightarrow> 'r pm \<Rightarrow> (int result \<times> 'r pm) option" where
  "nanvix_mailbox_cleanup C st =
     do { i \<leftarrow> mailboxes_are_initialized C st;
          if \<not> i then Some (Inl EINVAL, st)
          else do {
            is \<leftarrow> arr_set (pm_mbx_initialized st) (nat (knode_get_num C)) False;
            Some (Inr 0, st\<lparr>pm_mbx_initialized := is\<rparr>) } }"

section \<open>Portals\<close>

definition nanvix_portal_is_valid :: "'r pm \<Rightarrow> int \<Rightarrow> bool" where
  "nanvix_portal_is_valid st prtid \<longleftrightarrow> 0 \<le> prtid \<and> prtid < int (length (pm_portals st))"

definition set_portal :: "nat \<Rightarrow> ('r named_portal \<Rightarrow> 'r named_portal) \<Rightarrow> 'r pm \<Rightarrow> 'r pm" where
  "set_portal i f st = st\<lparr>pm_portals := (pm_portals st)[i := f (pm_portals st ! i)]\<rparr>"

definition alloc_portal :: "'r resource_ops \<Rightarrow> 'r pm \<Rightarrow> (nat \<times> 'r pm) option" where
  "alloc_portal R st = map_option (\<lambda>(i, r). (i, set_portal i (\<lambda>m. m\<lparr>nb_resource := r\<rparr>) st)) (resource_alloc R (map nb_resource (pm_portals st)))"

definition free_portal :: "'r resource_ops \<Rightarrow> nat \<Rightarrow> 'r pm \<Rightarrow> 'r pm" where
  "free_portal R i = set_portal i (\<lambda>m. m\<lparr>nb_resource := resource_free R (nb_resource m)\<rparr>)"

definition portals_are_initialized :: "pm_env \<Rightarrow> 'r pm \<Rightarrow> bool option" where
  "portals_are_initialized C st = arr_get (pm_prt_initialized st) (nat (knode_get_num C))"

definition nanvix_portal_setup :: "pm_env \<Rightarrow> 'r pm \<Rightarrow> (int \<times> 'r pm) option" where
  "nanvix_portal_setup C st =
     do { let local = nat (knode_get_num C);
          i \<leftarrow> arr_get (pm_prt_initialized st) local;
          if i then Some (0, st)
          else do {
            ps \<leftarrow> arr_set (pm_inportals st) local (pe_stdinportal C);
            is \<leftarrow> arr_set (pm_prt_initialized st) local True;
            Some (0, st\<lparr>pm_inportals := ps, pm_prt_initialized := is\<rparr>) } }"

definition get_inportal :: "pm_env \<Rightarrow> 'r pm \<Rightarrow> int result option" where
  "get_inportal C st =
     do { i \<leftarrow> portals_are_initialized C st;
          if \<not> i then Some (Inl EINVAL)
          else do { fd \<leftarrow> arr_get (pm_inportals st) (nat (knode_get_num C)); Some (Inr fd) } }"

definition nanvix_portal_cleanup :: "pm_env \<Rightarrow> 'r pm \<Rightarrow> (int result \<times> 'r pm) option" where
  "nanvix_portal_cleanup C st =
     do { i \<leftarrow> portals_are_initialized C st;
          if \<not> i then Some (Inl EINVAL, st)
          else do {
            is \<leftarrow> arr_set (pm_prt_initialized st) (nat (knode_get_num C)) False;
            Some (Inr 0, st\<lparr>pm_prt_initialized := is\<rparr>) } }"

definition nanvix_portal_create :: "pm_env \<Rightarrow> 'r resource_ops \<Rightarrow> 'r pm \<Rightarrow> string option \<Rightarrow> (int result \<times> 'r pm) option" where
  "nanvix_portal_create C R st name =
     (case name of
        None \<Rightarrow> Some (Inl EINVAL, st)
      | Some n \<Rightarrow>
          if pe_message_size C < length n then Some (Inl EINVAL, st)
          else do {
            portalid \<leftarrow> get_inportal C st;
            case portalid of
              Inl _ \<Rightarrow> Some (Inl EAGAIN, st)
            | Inr fd \<Rightarrow>
                if fd < 0 then Some (Inl EAGAIN, st)
                else case alloc_portal R st of
                  None \<Rightarrow> Some (Inl EAGAIN, st)
                | Some (prtid, st1) \<Rightarrow> do {
                    (ret, w) \<leftarrow> nanvix_name_link (pe_name C) (pm_names st1) (knode_get_num C) name;
                    let st2 = st1\<lparr>pm_names := w\<rparr>;
                    if ret \<noteq> Inr 0 then Some (Inl EAGAIN, free_portal R prtid st2)
                    else Some (Inr (int prtid), set_portal prtid
                      (\<lambda>m. m\<lparr>nb_fd := fd, nb_owner := knode_get_num C, nb_name := n, nb_resource := resource_set_rdonly R (nb_resource m)\<rparr>) st2) } })"

definition nanvix_portal_create2 :: "pm_env \<Rightarrow> 'r resource_ops \<Rightarrow> 'r pm \<Rightarrow> string option \<Rightarrow> int \<Rightarrow> (int result \<times> 'r pm) option" where
  "nanvix_portal_create2 C R st name port =
     (case name of
        None \<Rightarrow> Some (Inl EINVAL, st)
      | Some n \<Rightarrow>
          if pe_message_size C < length n then Some (Inl EINVAL, st)
          else if \<not> within port (pe_ports_base C) (pe_portal_ports C) then Some (Inl EINVAL, st)
          else case alloc_portal R st of
            None \<Rightarrow> Some (Inl EAGAIN, st)
          | Some (prtid, st1) \<Rightarrow>
              (let fd = pe_pcreate C (knode_get_num C) port in
               if fd < 0 then Some (Inl EAGAIN, free_portal R prtid st1)
               else do {
                 (ret, w) \<leftarrow> nanvix_name_link (pe_name C) (pm_names st1) (knode_get_num C) name;
                 let st2 = st1\<lparr>pm_names := w\<rparr>;
                 if ret \<noteq> Inr 0 then do { uassert (\<not> pe_punlink C fd < 0); Some (Inl EAGAIN, free_portal R prtid st2) }
                 else Some (Inr (int prtid), set_portal prtid
                   (\<lambda>m. m\<lparr>nb_fd := fd, nb_owner := knode_get_num C, nb_name := n, nb_resource := resource_set_rdonly R (nb_resource m)\<rparr>) st2) }))"

text \<open>The checks of the portal calls; the owner is checked after the mode, and after the buffer in a transfer.\<close>

definition portal_check :: "'r resource_ops \<Rightarrow> 'r pm \<Rightarrow> int \<Rightarrow> ('r \<Rightarrow> bool) \<Rightarrow> errno \<Rightarrow> 'r named_portal result" where
  "portal_check R st prtid mode e =
     (if \<not> nanvix_portal_is_valid st prtid then Inl EINVAL
      else let m = pm_portals st ! nat prtid in
        if \<not> resource_is_used R (nb_resource m) then Inl EINVAL
        else if \<not> mode (nb_resource m) then Inl e
        else Inr m)"

definition nanvix_portal_allow2 :: "pm_env \<Rightarrow> 'r resource_ops \<Rightarrow> 'r pm \<Rightarrow> int \<Rightarrow> int \<Rightarrow> int \<Rightarrow> int result" where
  "nanvix_portal_allow2 C R st prtid node port =
     (case portal_check R st prtid (resource_is_rdonly R) ENOTSUP of
        Inl e \<Rightarrow> Inl e
      | Inr m \<Rightarrow> if nb_owner m \<noteq> knode_get_num C then Inl EINVAL else pe_pallow C (nb_fd m) node port)"

definition nanvix_portal_allow :: "pm_env \<Rightarrow> 'r resource_ops \<Rightarrow> 'r pm \<Rightarrow> int \<Rightarrow> int \<Rightarrow> int result" where
  "nanvix_portal_allow C R st prtid node =
     (case portal_check R st prtid (resource_is_rdonly R) ENOTSUP of
        Inl e \<Rightarrow> Inl e
      | Inr m \<Rightarrow> if nb_owner m \<noteq> knode_get_num C then Inl EINVAL else pe_pallow C (nb_fd m) node (pe_thread C))"

definition nanvix_portal_open :: "pm_env \<Rightarrow> 'r resource_ops \<Rightarrow> 'r pm \<Rightarrow> string option \<Rightarrow> int \<Rightarrow> (int result \<times> 'r pm) option" where
  "nanvix_portal_open C R st name port =
     (case name of
        None \<Rightarrow> Some (Inl EINVAL, st)
      | Some n \<Rightarrow> do {
          (ret, w) \<leftarrow> nanvix_name_lookup (pe_name C) (pm_names st) name;
          let st1 = st\<lparr>pm_names := w\<rparr>;
          case ret of
            Inl e \<Rightarrow> Some (Inl EAGAIN, st1)
          | Inr node \<Rightarrow>
              if node < 0 then Some (Inl EAGAIN, st1)
              else case alloc_portal R st1 of
                None \<Rightarrow> Some (Inl EAGAIN, st1)
              | Some (prtid, st2) \<Rightarrow>
                  (let fd = pe_popen C (knode_get_num C) node port in
                   if fd < 0 then Some (Inl EAGAIN, free_portal R prtid st2)
                   else Some (Inr (int prtid), set_portal prtid
                     (\<lambda>m. m\<lparr>nb_fd := fd, nb_owner := knode_get_num C, nb_resource := resource_set_wronly R (nb_resource m)\<rparr>) st2)) })"

definition nanvix_portal_read :: "pm_env \<Rightarrow> 'r resource_ops \<Rightarrow> 'r pm \<Rightarrow> int \<Rightarrow> bool \<Rightarrow> nat \<Rightarrow> int result \<times> byte list" where
  "nanvix_portal_read C R st prtid null n =
     (case portal_check R st prtid (resource_is_rdonly R) ENOTSUP of
        Inl e \<Rightarrow> (Inl e, [])
      | Inr m \<Rightarrow>
          if null then (Inl EINVAL, [])
          else if n < 1 then (Inl EINVAL, [])
          else if nb_owner m \<noteq> knode_get_num C then (Inl EINVAL, [])
          else case pe_pread C (nb_fd m) n of Inl e \<Rightarrow> (Inl e, []) | Inr data \<Rightarrow> (Inr (int (length data)), data))"

definition nanvix_portal_write :: "pm_env \<Rightarrow> 'r resource_ops \<Rightarrow> 'r pm \<Rightarrow> int \<Rightarrow> byte list option \<Rightarrow> nat \<Rightarrow> int result option" where
  "nanvix_portal_write C R st prtid buf n =
     (case portal_check R st prtid (resource_is_wronly R) EINVAL of
        Inl e \<Rightarrow> Some (Inl e)
      | Inr m \<Rightarrow>
          (case buf of
             None \<Rightarrow> Some (Inl EINVAL)
           | Some b \<Rightarrow>
               if n < 1 then Some (Inl EINVAL)
               else if nb_owner m \<noteq> knode_get_num C then Some (Inl EINVAL)
               else do { uassert (n \<le> length b); Some (pe_pwrite C (nb_fd m) (take n b)) }))"

definition nanvix_portal_close :: "pm_env \<Rightarrow> 'r resource_ops \<Rightarrow> 'r pm \<Rightarrow> int \<Rightarrow> int result \<times> 'r pm" where
  "nanvix_portal_close C R st prtid =
     (case portal_check R st prtid (resource_is_wronly R) EINVAL of
        Inl e \<Rightarrow> (Inl e, st)
      | Inr m \<Rightarrow>
          if nb_owner m \<noteq> knode_get_num C then (Inl EINVAL, st)
          else (let r = pe_pclose C (nb_fd m) in
                if r \<noteq> Inr 0 then (r, st) else (Inr 0, free_portal R (nat prtid) st)))"

text \<open>The name is unlinked before the owner is checked.\<close>

definition nanvix_portal_unlink :: "pm_env \<Rightarrow> 'r resource_ops \<Rightarrow> 'r pm \<Rightarrow> int \<Rightarrow> (int result \<times> 'r pm) option" where
  "nanvix_portal_unlink C R st prtid =
     (case portal_check R st prtid (resource_is_rdonly R) EINVAL of
        Inl e \<Rightarrow> Some (Inl e, st)
      | Inr m \<Rightarrow> do {
          (ret, w) \<leftarrow> nanvix_name_unlink (pe_name C) (pm_names st) (Some (nb_name m));
          let st1 = st\<lparr>pm_names := w\<rparr>;
          if ret \<noteq> Inr 0 then Some (Inl EAGAIN, st1)
          else if nb_owner m \<noteq> knode_get_num C then Some (Inl EINVAL, st1)
          else Some (Inr 0, free_portal R (nat prtid) st1) })"

definition nanvix_portal_get_port :: "pm_env \<Rightarrow> 'r resource_ops \<Rightarrow> 'r pm \<Rightarrow> int \<Rightarrow> int result" where
  "nanvix_portal_get_port C R st prtid =
     (case portal_check R st prtid (resource_is_wronly R) EINVAL of
        Inl e \<Rightarrow> Inl e
      | Inr m \<Rightarrow> pe_pport C (nb_fd m))"

section \<open>Links held by the tables\<close>

text \<open>A created connector holds a link of its name; \<open>links\<close> is the number of links that the server counts for this process.\<close>

definition holder :: "'r resource_ops \<Rightarrow> 'r named_mailbox \<Rightarrow> string option" where
  "holder R m = (if resource_is_used R (nb_resource m) \<and> resource_is_rdonly R (nb_resource m) then Some (nb_name m) else None)"

abbreviation names_held :: "'r resource_ops \<Rightarrow> 'r named_mailbox list \<Rightarrow> string \<Rightarrow> int" where
  "names_held R t n \<equiv> slot_refs (holder R) (\<lambda>_. 1) t n"

definition links :: "pm_env \<Rightarrow> name_world \<Rightarrow> string \<Rightarrow> int" where
  "links C w n = (case bindings w n of
     Some (node, port, c) \<Rightarrow> if node = knode_get_num C \<and> port = ne_inbox_port (pe_name C) then c else 0 | None \<Rightarrow> 0)"

definition connector_ok :: "pm_env \<Rightarrow> 'r resource_ops \<Rightarrow> 'r named_mailbox \<Rightarrow> bool" where
  "connector_ok C R m \<longleftrightarrow> (resource_is_used R (nb_resource m) \<longrightarrow> nb_owner m = knode_get_num C \<and>
     (resource_is_rdonly R (nb_resource m) \<or> resource_is_wronly R (nb_resource m)))"

definition pm_inv :: "pm_env \<Rightarrow> 'r resource_ops \<Rightarrow> 'r pm \<Rightarrow> bool" where
  "pm_inv C R st \<longleftrightarrow> names_up (pe_name C) (pm_names st) \<and>
     (\<forall>m\<in>set (pm_mailboxes st). connector_ok C R m) \<and> (\<forall>m\<in>set (pm_portals st). connector_ok C R m) \<and>
     length (pm_named_inboxes st) = NANVIX_PNAME_MAX \<and> length (pm_inboxes st) = NANVIX_PNAME_MAX \<and>
     length (pm_mbx_initialized st) = NANVIX_PNAME_MAX \<and> length (pm_inportals st) = NANVIX_PNAME_MAX \<and>
     length (pm_prt_initialized st) = NANVIX_PNAME_MAX \<and>
     (\<forall>n. names_held R (pm_mailboxes st) n + names_held R (pm_portals st) n \<le> links C (pm_names st) n)"

definition pm_env_up :: "pm_env \<Rightarrow> bool" where
  "pm_env_up C \<longleftrightarrow> name_env_up (pe_name C) \<and> knode_get_num C < int NANVIX_PNAME_MAX \<and> pe_core C < NANVIX_PNAME_MAX \<and>
     (\<forall>fd. 0 \<le> pe_munlink C fd \<and> 0 \<le> pe_punlink C fd)"

abbreviation one_if :: "bool \<Rightarrow> int" where
  "one_if b \<equiv> (if b then 1 else 0)"

lemma names_held_nonneg: "0 \<le> names_held R t n"
  by (induction t) (auto simp: slot_refs_def)

lemma names_held_pos: "i < length t \<Longrightarrow> holder R (t ! i) = Some n \<Longrightarrow> 1 \<le> names_held R t n"
proof (induction t arbitrary: i)
  case (Cons m t)
  have "0 \<le> names_held R t n" by (rule names_held_nonneg)
  with Cons show ?case by (cases i) (force simp: slot_refs_def)+
qed simp

lemma pm_env_upD:
  assumes "pm_env_up C"
  shows "name_env_up (pe_name C)" "nat (knode_get_num C) < NANVIX_PNAME_MAX" "pe_core C < NANVIX_PNAME_MAX" "\<not> pe_munlink C fd < 0" "\<not> pe_punlink C fd < 0"
  using assms by (auto simp: pm_env_up_def name_env_up_def not_less)

lemma pm_invD:
  assumes "pm_inv C R st"
  shows "names_up (pe_name C) (pm_names st)" "m \<in> set (pm_mailboxes st) \<Longrightarrow> connector_ok C R m" "m \<in> set (pm_portals st) \<Longrightarrow> connector_ok C R m"
    "length (pm_named_inboxes st) = NANVIX_PNAME_MAX" "length (pm_inboxes st) = NANVIX_PNAME_MAX" "length (pm_mbx_initialized st) = NANVIX_PNAME_MAX"
    "length (pm_inportals st) = NANVIX_PNAME_MAX" "length (pm_prt_initialized st) = NANVIX_PNAME_MAX"
    "names_held R (pm_mailboxes st) n + names_held R (pm_portals st) n \<le> links C (pm_names st) n"
  using assms by (auto simp: pm_inv_def)

text \<open>One entry and the names change together: the invariant stays when the links change as the entry does.\<close>

lemma pm_inv_mailbox:
  assumes "pm_inv C R st" "i < length (pm_mailboxes st)" "names_up (pe_name C) w" "connector_ok C R e"
    and "\<And>n. links C (pm_names st) n + one_if (holder R e = Some n) - one_if (holder R (pm_mailboxes st ! i) = Some n) \<le> links C w n"
  shows "pm_inv C R (st\<lparr>pm_names := w, pm_mailboxes := (pm_mailboxes st)[i := e]\<rparr>)"
proof -
  have "names_held R ((pm_mailboxes st)[i := e]) n + names_held R (pm_portals st) n \<le> links C w n" for n
    using pm_invD(9) [OF assms(1), of n] assms(5) [of n] by (simp add: slot_refs_update [OF assms(2)])
  then show ?thesis using assms(1,3,4) by (auto simp: pm_inv_def dest: set_update_subset_insert [THEN subsetD])
qed

lemma pm_inv_portal:
  assumes "pm_inv C R st" "i < length (pm_portals st)" "names_up (pe_name C) w" "connector_ok C R e"
    and "\<And>n. links C (pm_names st) n + one_if (holder R e = Some n) - one_if (holder R (pm_portals st ! i) = Some n) \<le> links C w n"
  shows "pm_inv C R (st\<lparr>pm_names := w, pm_portals := (pm_portals st)[i := e]\<rparr>)"
proof -
  have "names_held R (pm_mailboxes st) n + names_held R ((pm_portals st)[i := e]) n \<le> links C w n" for n
    using pm_invD(9) [OF assms(1), of n] assms(5) [of n] by (simp add: slot_refs_update [OF assms(2)])
  then show ?thesis using assms(1,3,4) by (auto simp: pm_inv_def dest: set_update_subset_insert [THEN subsetD])
qed

lemma pm_inv_names:
  assumes "pm_inv C R st" "names_up (pe_name C) w" "\<And>n. links C (pm_names st) n \<le> links C w n"
  shows "pm_inv C R (st\<lparr>pm_names := w\<rparr>)"
  using assms(1,2) by (auto simp: pm_inv_def intro: order_trans [OF _ assms(3)])

text \<open>What the name calls do to the links.\<close>

lemma link_links:
  assumes "pm_env_up C" "names_up (pe_name C) w"
  obtains r w' where "nanvix_name_link (pe_name C) w (knode_get_num C) (Some n) = Some (r, w')" "names_up (pe_name C) w'"
    "\<And>k. links C w' k = links C w k + one_if (r = Inr 0 \<and> k = n)" "r = Inr 0 \<longleftrightarrow> may_link (pe_name C) w n"
    "bindings w' = (if r = Inr 0 then (bindings w)(n \<mapsto> (knode_get_num C, ne_inbox_port (pe_name C), (case bindings w n of Some (_, _, c) \<Rightarrow> c + 1 | None \<Rightarrow> 1)))
       else bindings w)"
proof -
  have V: "ne_valid (pe_name C) (knode_get_num C)" by (rule name_env_upD(2) [OF pm_env_upD(1) [OF assms(1)]])
  obtain r w' where l: "nanvix_name_link (pe_name C) w (knode_get_num C) (Some n) = Some (r, w')" "names_up (pe_name C) w'"
    "r = (if may_link (pe_name C) w n then Inr 0 else Inl (if n \<noteq> [] \<and> \<not> name_ok n then ENAMETOOLONG else EINVAL))"
    "bindings w' = (if r = Inr 0 then (bindings w)(n \<mapsto> (knode_get_num C, ne_inbox_port (pe_name C), (case bindings w n of Some (_, _, c) \<Rightarrow> c + 1 | None \<Rightarrow> 1)))
       else bindings w)"
    by (rule name_link_names [OF pm_env_upD(1) [OF assms(1)] assms(2), of "knode_get_num C" n]) (simp add: V)
  have r: "r = Inr 0 \<longleftrightarrow> may_link (pe_name C) w n" using l(3) by simp
  have "links C w' k = links C w k + one_if (r = Inr 0 \<and> k = n)" for k
    using l(4) r by (auto simp: links_def may_link_def split: option.splits)
  then show thesis by (rule that [OF l(1,2) _ r l(4)])
qed

lemma unlink_links:
  assumes "pm_env_up C" "names_up (pe_name C) w" "0 < links C w n"
  obtains w' where "nanvix_name_unlink (pe_name C) w (Some n) = Some (Inr 0, w')" "names_up (pe_name C) w'"
    "\<And>k. links C w' k = links C w k - one_if (k = n)"
    "bindings w' = (bindings w)(n := (case bindings w n of Some (node, port, c) \<Rightarrow> if c = 1 then None else Some (node, port, c - 1) | None \<Rightarrow> None))"
proof -
  obtain c where b: "bindings w n = Some (knode_get_num C, ne_inbox_port (pe_name C), c)"
    using assms(3) by (auto simp: links_def split: option.splits if_splits)
  have ok: "name_ok n" using name_abs_empty [of "ne_valid (pe_name C)" "nw_names w" n] assms(2) b by (auto simp: names_up_def)
  obtain w' where u: "nanvix_name_unlink (pe_name C) w (Some n) = Some (Inr 0, w')" "names_up (pe_name C) w'"
    "bindings w' = (bindings w)(n := (case bindings w n of Some (node, port, c) \<Rightarrow> if c = 1 then None else Some (node, port, c - 1) | None \<Rightarrow> None))"
    by (rule name_unlink_names [OF pm_env_upD(1) [OF assms(1)] assms(2), of n]) (use ok b in simp)
  have "links C w' k = links C w k - one_if (k = n)" for k using b by (simp add: links_def u(3))
  then show thesis by (rule that [OF u(1,2) _ u(3)])
qed

lemma lookup_links:
  assumes "pm_env_up C" "names_up (pe_name C) w"
  obtains r w' where "nanvix_name_lookup (pe_name C) w (Some n) = Some (r, w')" "names_up (pe_name C) w'" "\<And>k. links C w' k = links C w k" "bindings w' = bindings w"
    "r = (if name_ok n then Inr (case bindings w n of Some (node, _, _) \<Rightarrow> node | None \<Rightarrow> -1) else Inl (if n = [] then EINVAL else ENAMETOOLONG))"
proof -
  obtain w' where l: "nanvix_name_lookup (pe_name C) w (Some n) = Some (if name_ok n then Inr (case bindings w n of Some (node, _, _) \<Rightarrow> node | None \<Rightarrow> -1)
      else Inl (if n = [] then EINVAL else ENAMETOOLONG), w')"
    "names_up (pe_name C) w'" "bindings w' = bindings w"
    by (rule name_lookup_names [OF pm_env_upD(1) [OF assms(1)] assms(2), of n]) (rule that; assumption)
  have "links C w' k = links C w k" for k by (simp add: links_def l(3))
  then show thesis by (rule that [OF l(1,2) _ l(3)]) simp
qed

section \<open>One table\<close>

text \<open>What a table shows: the connectors in use by index, created ones with their name.\<close>

datatype connector = Inward int string | Outward int

definition conn_entry :: "'r resource_ops \<Rightarrow> 'r named_mailbox \<Rightarrow> connector option" where
  "conn_entry R m = (if \<not> resource_is_used R (nb_resource m) then None
     else Some (if resource_is_rdonly R (nb_resource m) then Inward (nb_fd m) (nb_name m) else Outward (nb_fd m)))"

definition conn_view :: "'r resource_ops \<Rightarrow> 'r named_mailbox list \<Rightarrow> nat \<Rightarrow> connector option" where
  "conn_view R t i = (if i < length t then conn_entry R (t ! i) else None)"

lemma conn_view_update: "i < length t \<Longrightarrow> conn_view R (t[i := e]) = (conn_view R t)(i := conn_entry R e)"
  by (auto simp: conn_view_def nth_list_update)

lemma conn_entry_created:
  "resource_laws R \<Longrightarrow> resource_is_used R r \<Longrightarrow>
     conn_entry R \<lparr>nb_resource = resource_set_rdonly R r, nb_fd = fd, nb_owner = ow, nb_name = n\<rparr> = Some (Inward fd n)"
  "resource_laws R \<Longrightarrow> resource_is_used R r \<Longrightarrow>
     conn_entry R \<lparr>nb_resource = resource_set_wronly R r, nb_fd = fd, nb_owner = ow, nb_name = n\<rparr> = Some (Outward fd)"
  "resource_laws R \<Longrightarrow> conn_entry R (m\<lparr>nb_resource := resource_free R r\<rparr>) = None"
  by (simp_all add: conn_entry_def resource_modes)

lemma conn_view_used:
  "conn_view R t i = Some c \<longleftrightarrow> i < length t \<and> resource_is_used R (nb_resource (t ! i)) \<and>
     c = (if resource_is_rdonly R (nb_resource (t ! i)) then Inward (nb_fd (t ! i)) (nb_name (t ! i)) else Outward (nb_fd (t ! i)))"
  by (auto simp: conn_view_def conn_entry_def)

text \<open>
  The contract of a table of connectors, given by the functions that read and store it: an entry may change together with the names as long as the
  links that the tables hold are counted by the server.
\<close>

locale named_table =
  fixes tab :: "'r pm \<Rightarrow> 'r named_mailbox list" and put :: "'r named_mailbox list \<Rightarrow> 'r pm \<Rightarrow> 'r pm"
  assumes tab_put: "tab (put t st) = t" and put_names: "pm_names (put t st) = pm_names st"
    and tab_names: "tab (st\<lparr>pm_names := w\<rparr>) = tab st"
    and inv_entry: "pm_inv C R st \<Longrightarrow> i < length (tab st) \<Longrightarrow> names_up (pe_name C) w \<Longrightarrow> connector_ok C R e \<Longrightarrow>
      (\<And>n. links C (pm_names st) n + one_if (holder R e = Some n) - one_if (holder R (tab st ! i) = Some n) \<le> links C w n) \<Longrightarrow>
      pm_inv C R (put ((tab st)[i := e]) (st\<lparr>pm_names := w\<rparr>))"
    and inv_held: "pm_inv C R st \<Longrightarrow> names_held R (tab st) n \<le> links C (pm_names st) n"
    and inv_ok: "pm_inv C R st \<Longrightarrow> m \<in> set (tab st) \<Longrightarrow> connector_ok C R m"
begin

lemma inv_created:
  assumes "resource_laws R" "pm_inv C R st" "i < length (tab st)" "\<not> resource_is_used R (nb_resource (tab st ! i))" "resource_is_used R r"
    and "names_up (pe_name C) w" "\<And>k. links C w k = links C (pm_names st) k + one_if (k = n)"
  shows "pm_inv C R (put ((tab st)[i := \<lparr>nb_resource = resource_set_rdonly R r, nb_fd = fd, nb_owner = knode_get_num C, nb_name = n\<rparr>]) (st\<lparr>pm_names := w\<rparr>))"
  by (rule inv_entry [OF assms(2,3,6)]) (use assms(1,4,5,7) in \<open>auto simp: connector_ok_def holder_def resource_modes\<close>)

lemma inv_opened:
  assumes "resource_laws R" "pm_inv C R st" "i < length (tab st)" "\<not> resource_is_used R (nb_resource (tab st ! i))" "resource_is_used R r"
    and "names_up (pe_name C) w" "\<And>k. links C w k = links C (pm_names st) k"
  shows "pm_inv C R (put ((tab st)[i := \<lparr>nb_resource = resource_set_wronly R r, nb_fd = fd, nb_owner = knode_get_num C, nb_name = n\<rparr>]) (st\<lparr>pm_names := w\<rparr>))"
  by (rule inv_entry [OF assms(2,3,6)]) (use assms(1,4,5,7) in \<open>auto simp: connector_ok_def holder_def resource_modes\<close>)

lemma inv_freed:
  assumes "resource_laws R" "pm_inv C R st" "i < length (tab st)" "names_up (pe_name C) w"
    and "\<And>k. links C (pm_names st) k - one_if (holder R (tab st ! i) = Some k) \<le> links C w k"
  shows "pm_inv C R (put ((tab st)[i := m\<lparr>nb_resource := resource_free R r\<rparr>]) (st\<lparr>pm_names := w\<rparr>))"
  by (rule inv_entry [OF assms(2,3,4)]) (use assms(1,5) in \<open>auto simp: connector_ok_def holder_def\<close>)

text \<open>A created connector holds a link, so its name can be unlinked.\<close>

lemma created_linked:
  assumes "pm_inv C R st" "i < length (tab st)" "resource_is_used R (nb_resource (tab st ! i))" "resource_is_rdonly R (nb_resource (tab st ! i))"
  shows "0 < links C (pm_names st) (nb_name (tab st ! i))" "holder R (tab st ! i) = Some (nb_name (tab st ! i))"
proof -
  show h: "holder R (tab st ! i) = Some (nb_name (tab st ! i))" using assms(3,4) by (simp add: holder_def)
  show "0 < links C (pm_names st) (nb_name (tab st ! i))" using names_held_pos [OF assms(2) h] inv_held [OF assms(1)] by (rule less_le_trans [OF zero_less_one order_trans])
qed

lemma owner_mine:
  assumes "pm_inv C R st" "conn_view R (tab st) i = Some c"
  shows "nb_owner (tab st ! i) = knode_get_num C" "i < length (tab st)" "resource_is_used R (nb_resource (tab st ! i))"
    "\<not> resource_is_rdonly R (nb_resource (tab st ! i)) \<Longrightarrow> resource_is_wronly R (nb_resource (tab st ! i))"
  using assms inv_ok [OF assms(1), of "tab st ! i"] by (auto simp: conn_view_used connector_ok_def)

end

interpretation mbx: named_table pm_mailboxes "\<lambda>t st. st\<lparr>pm_mailboxes := t\<rparr>"
proof
  show "names_held R (pm_mailboxes st) n \<le> links C (pm_names st) n" if "pm_inv C R st" for C and R :: "'r resource_ops" and st n
    using pm_invD(9) [OF that, of n] names_held_nonneg [of R "pm_portals st" n] by linarith
qed (simp_all add: pm_inv_mailbox pm_invD(2))

interpretation prt: named_table pm_portals "\<lambda>t st. st\<lparr>pm_portals := t\<rparr>"
proof
  show "names_held R (pm_portals st) n \<le> links C (pm_names st) n" if "pm_inv C R st" for C and R :: "'r resource_ops" and st n
    using pm_invD(9) [OF that, of n] names_held_nonneg [of R "pm_mailboxes st" n] by linarith
qed (simp_all add: pm_inv_portal pm_invD(3))

lemma alloc_mailboxE:
  assumes "resource_laws R" "alloc_mailbox R st = Some (i, st1)"
  obtains r where "i < length (pm_mailboxes st)" "\<not> resource_is_used R (nb_resource (pm_mailboxes st ! i))" "resource_is_used R r"
    "st1 = set_mailbox i (\<lambda>m. m\<lparr>nb_resource := r\<rparr>) st"
  using assms(2) resource_allocD [OF assms(1)] that by (fastforce simp: alloc_mailbox_def)

lemma alloc_portalE:
  assumes "resource_laws R" "alloc_portal R st = Some (i, st1)"
  obtains r where "i < length (pm_portals st)" "\<not> resource_is_used R (nb_resource (pm_portals st ! i))" "resource_is_used R r"
    "st1 = set_portal i (\<lambda>m. m\<lparr>nb_resource := r\<rparr>) st"
  using assms(2) resource_allocD [OF assms(1)] that by (fastforce simp: alloc_portal_def)

lemma named_entry_eq: "m\<lparr>nb_resource := r, nb_fd := fd, nb_owner := ow, nb_name := n\<rparr> = \<lparr>nb_resource = r, nb_fd = fd, nb_owner = ow, nb_name = n\<rparr>"
  by (cases m) simp

section \<open>What each call does\<close>

text \<open>
  The effect of a call on the connectors of its table, \<open>v\<close> before and \<open>v'\<close> after, out of \<open>len\<close> entries, and on the names. In \<open>created\<close> the
  connector \<open>fd\<close> is negative when the kernel did not give one; in \<open>opened\<close> the kernel's connector depends on the node of the name.
\<close>

definition created :: "pm_env \<Rightarrow> nat \<Rightarrow> int \<Rightarrow> string option \<Rightarrow> (nat \<Rightarrow> connector option) \<Rightarrow> name_world \<Rightarrow> int result \<Rightarrow>
    (nat \<Rightarrow> connector option) \<Rightarrow> name_world \<Rightarrow> bool" where
  "created C len fd name v w r v' w' \<longleftrightarrow>
     (case r of
        Inr k \<Rightarrow> \<exists>n. name = Some n \<and> 0 \<le> k \<and> nat k < len \<and> v (nat k) = None \<and> may_link (pe_name C) w n \<and> v' = v(nat k \<mapsto> Inward fd n) \<and>
          bindings w' = (bindings w)(n \<mapsto> (knode_get_num C, ne_inbox_port (pe_name C), (case bindings w n of Some (_, _, c) \<Rightarrow> c + 1 | None \<Rightarrow> 1)))
      | Inl _ \<Rightarrow> v' = v \<and> bindings w' = bindings w \<and>
          \<not> (\<exists>n. name = Some n \<and> length n \<le> pe_message_size C \<and> 0 \<le> fd \<and> (\<exists>i<len. v i = None) \<and> may_link (pe_name C) w n))"

definition opened :: "nat \<Rightarrow> (int \<Rightarrow> int) \<Rightarrow> string option \<Rightarrow> (nat \<Rightarrow> connector option) \<Rightarrow> name_world \<Rightarrow> int result \<Rightarrow>
    (nat \<Rightarrow> connector option) \<Rightarrow> name_world \<Rightarrow> bool" where
  "opened len fd name v w r v' w' \<longleftrightarrow> bindings w' = bindings w \<and>
     (case r of
        Inr k \<Rightarrow> \<exists>n node p c. name = Some n \<and> bindings w n = Some (node, p, c) \<and> 0 \<le> k \<and> nat k < len \<and> v (nat k) = None \<and> v' = v(nat k \<mapsto> Outward (fd node))
      | Inl _ \<Rightarrow> v' = v \<and> \<not> (\<exists>n node p c. name = Some n \<and> bindings w n = Some (node, p, c) \<and> 0 \<le> fd node \<and> (\<exists>i<len. v i = None)))"

definition conn_at :: "(nat \<Rightarrow> connector option) \<Rightarrow> int \<Rightarrow> connector option" where
  "conn_at v k = (if 0 \<le> k then v (nat k) else None)"

definition unlinked :: "(nat \<Rightarrow> connector option) \<Rightarrow> name_world \<Rightarrow> int \<Rightarrow> int result \<Rightarrow> (nat \<Rightarrow> connector option) \<Rightarrow> name_world \<Rightarrow> bool" where
  "unlinked v w k r v' w' \<longleftrightarrow>
     (case conn_at v k of
        Some (Inward fd n) \<Rightarrow> r = Inr 0 \<and> v' = v(nat k := None) \<and>
          bindings w' = (bindings w)(n := (case bindings w n of Some (node, port, c) \<Rightarrow> if c = 1 then None else Some (node, port, c - 1) | None \<Rightarrow> None))
      | _ \<Rightarrow> r = Inl EINVAL \<and> v' = v \<and> w' = w)"

definition closed :: "(int \<Rightarrow> int result) \<Rightarrow> (nat \<Rightarrow> connector option) \<Rightarrow> int \<Rightarrow> int result \<Rightarrow> (nat \<Rightarrow> connector option) \<Rightarrow> bool" where
  "closed kclose v k r v' \<longleftrightarrow>
     (case conn_at v k of
        Some (Outward fd) \<Rightarrow> r = kclose fd \<and> v' = (if r = Inr 0 then v(nat k := None) else v)
      | _ \<Rightarrow> r = Inl EINVAL \<and> v' = v)"

lemma mailbox_room: "resource_laws R \<Longrightarrow> alloc_mailbox R st = None \<longleftrightarrow> \<not> (\<exists>i<length (pm_mailboxes st). conn_view R (pm_mailboxes st) i = None)"
  by (auto simp: alloc_mailbox_def resource_alloc_NoneD conn_view_def conn_entry_def all_set_conv_all_nth)

lemma portal_room: "resource_laws R \<Longrightarrow> alloc_portal R st = None \<longleftrightarrow> \<not> (\<exists>i<length (pm_portals st). conn_view R (pm_portals st) i = None)"
  by (auto simp: alloc_portal_def resource_alloc_NoneD conn_view_def conn_entry_def all_set_conv_all_nth)

lemma conn_view_unused: "\<not> resource_is_used R (nb_resource (t ! i)) \<Longrightarrow> conn_view R t i = None"
  by (simp add: conn_view_def conn_entry_def)

lemma conn_view_freed:
  "resource_laws R \<Longrightarrow> i < length t \<Longrightarrow> \<not> resource_is_used R (nb_resource (t ! i)) \<Longrightarrow> conn_view R (t[i := m\<lparr>nb_resource := resource_free R r\<rparr>]) = conn_view R t"
  by (auto simp: conn_view_update conn_entry_created conn_view_unused)

lemma pm_inv_inboxes: "pm_inv C R st \<Longrightarrow> length b = NANVIX_PNAME_MAX \<Longrightarrow> pm_inv C R (st\<lparr>pm_named_inboxes := b\<rparr>)"
  by (simp add: pm_inv_def)

lemma mailbox_create_spec:
  assumes "resource_laws R" "pm_env_up C" "pm_inv C R st"
  shows "\<exists>r st'. nanvix_mailbox_create C R st name = Some (r, st') \<and> pm_inv C R st' \<and> pm_portals st' = pm_portals st \<and>
    created C (length (pm_mailboxes st)) (pe_stdinbox C) name (conn_view R (pm_mailboxes st)) (pm_names st) r (conn_view R (pm_mailboxes st')) (pm_names st')"
proof (cases "\<exists>n. name = Some n \<and> length n \<le> pe_message_size C \<and> 0 \<le> pe_stdinbox C \<and> alloc_mailbox R st \<noteq> None")
  case False
  then have "\<exists>e. nanvix_mailbox_create C R st name = Some (Inl e, st)" by (cases name; cases "alloc_mailbox R st"; auto simp: nanvix_mailbox_create_def Let_def not_less)
  with False assms(3) show ?thesis by (auto simp: created_def mailbox_room [OF assms(1)])
next
  case True
  then obtain n i st1 where n: "name = Some n" "length n \<le> pe_message_size C" "0 \<le> pe_stdinbox C" "alloc_mailbox R st = Some (i, st1)" by auto
  obtain x where i: "i < length (pm_mailboxes st)" "\<not> resource_is_used R (nb_resource (pm_mailboxes st ! i))" "resource_is_used R x"
    "st1 = set_mailbox i (\<lambda>m. m\<lparr>nb_resource := x\<rparr>) st"
    by (rule alloc_mailboxE [OF assms(1) n(4)])
  have nm: "pm_names st1 = pm_names st" by (simp add: i(4) set_mailbox_def)
  obtain r w where l: "nanvix_name_link (pe_name C) (pm_names st) (knode_get_num C) (Some n) = Some (r, w)" "names_up (pe_name C) w"
    "\<And>k. links C w k = links C (pm_names st) k + one_if (r = Inr 0 \<and> k = n)" "r = Inr 0 \<longleftrightarrow> may_link (pe_name C) (pm_names st) n"
    "bindings w = (if r = Inr 0 then (bindings (pm_names st))(n \<mapsto> (knode_get_num C, ne_inbox_port (pe_name C), (case bindings (pm_names st) n of Some (_, _, c) \<Rightarrow> c + 1 | None \<Rightarrow> 1)))
       else bindings (pm_names st))"
    by (rule link_links [OF assms(2) pm_invD(1) [OF assms(3)]]) (rule that; assumption)
  show ?thesis
  proof (cases "r = Inr 0")
    case False
    have "nanvix_mailbox_create C R st name = Some (Inl EAGAIN,
        st\<lparr>pm_names := w, pm_mailboxes := (pm_mailboxes st)[i := (pm_mailboxes st ! i)\<lparr>nb_resource := resource_free R x\<rparr>]\<rparr>)"
      using n l(1) False i(1) by (simp add: nanvix_mailbox_create_def Let_def nm) (simp add: i(4) set_mailbox_def free_mailbox_def)
    moreover have "pm_inv C R (st\<lparr>pm_names := w, pm_mailboxes := (pm_mailboxes st)[i := (pm_mailboxes st ! i)\<lparr>nb_resource := resource_free R x\<rparr>]\<rparr>)"
      by (rule mbx.inv_freed [OF assms(1,3) i(1) l(2)]) (simp add: l(3))
    ultimately show ?thesis using l(4,5) False n(1) i(1,2) by (simp add: created_def conn_view_freed [OF assms(1)])
  next
    case True
    let ?e = "\<lparr>nb_resource = resource_set_rdonly R x, nb_fd = pe_stdinbox C, nb_owner = knode_get_num C, nb_name = n\<rparr>"
    let ?st = "st\<lparr>pm_names := w, pm_mailboxes := (pm_mailboxes st)[i := ?e]\<rparr>"
    have "pm_inv C R ?st" by (rule mbx.inv_created [OF assms(1,3) i(1-3) l(2)]) (simp add: l(3) True)
    moreover have "length ((pm_named_inboxes st)[pe_core C := int i]) = NANVIX_PNAME_MAX" using pm_invD(4) [OF assms(3)] by simp
    ultimately have inv: "pm_inv C R (?st\<lparr>pm_named_inboxes := (pm_named_inboxes st)[pe_core C := int i]\<rparr>)" by (rule pm_inv_inboxes)
    have "nanvix_mailbox_create C R st name = Some (Inr (int i), ?st\<lparr>pm_named_inboxes := (pm_named_inboxes st)[pe_core C := int i]\<rparr>)"
      using n l(1) True i(1) pm_invD(4) [OF assms(3)] pm_env_upD(3) [OF assms(2)]
      by (simp add: nanvix_mailbox_create_def Let_def nm) (simp add: i(4) set_mailbox_def arr_set_def named_entry_eq)
    with inv show ?thesis using l(4,5) True n(1) i by (simp add: created_def conn_view_update conn_entry_created [OF assms(1)] conn_view_unused)
  qed
qed


lemma mailbox_create2_spec:
  assumes "resource_laws R" "pm_env_up C" "pm_inv C R st"
  shows "\<exists>r st'. nanvix_mailbox_create2 C R st name port = Some (r, st') \<and> pm_inv C R st' \<and> pm_portals st' = pm_portals st \<and>
    created C (length (pm_mailboxes st)) (if within port (pe_ports_base C) (pe_mailbox_ports C) then pe_mcreate C (knode_get_num C) port else -1) name
      (conn_view R (pm_mailboxes st)) (pm_names st) r (conn_view R (pm_mailboxes st')) (pm_names st')"
proof (cases "\<exists>n. name = Some n \<and> length n \<le> pe_message_size C \<and> within port (pe_ports_base C) (pe_mailbox_ports C) \<and> alloc_mailbox R st \<noteq> None")
  case False
  then have "\<exists>e. nanvix_mailbox_create2 C R st name port = Some (Inl e, st)" by (cases name; cases "alloc_mailbox R st"; auto simp: nanvix_mailbox_create2_def Let_def not_less)
  with False assms(3) show ?thesis by (auto simp: created_def mailbox_room [OF assms(1)])
next
  case True
  let ?fd = "pe_mcreate C (knode_get_num C) port"
  from True obtain n i st1 where n: "name = Some n" "length n \<le> pe_message_size C" "within port (pe_ports_base C) (pe_mailbox_ports C)" "alloc_mailbox R st = Some (i, st1)" by auto
  obtain x where i: "i < length (pm_mailboxes st)" "\<not> resource_is_used R (nb_resource (pm_mailboxes st ! i))" "resource_is_used R x"
    "st1 = set_mailbox i (\<lambda>m. m\<lparr>nb_resource := x\<rparr>) st"
    by (rule alloc_mailboxE [OF assms(1) n(4)])
  have nm: "pm_names st1 = pm_names st" by (simp add: i(4) set_mailbox_def)
  obtain r w where l: "nanvix_name_link (pe_name C) (pm_names st) (knode_get_num C) (Some n) = Some (r, w)" "names_up (pe_name C) w"
    "\<And>k. links C w k = links C (pm_names st) k + one_if (r = Inr 0 \<and> k = n)" "r = Inr 0 \<longleftrightarrow> may_link (pe_name C) (pm_names st) n"
    "bindings w = (if r = Inr 0 then (bindings (pm_names st))(n \<mapsto> (knode_get_num C, ne_inbox_port (pe_name C), (case bindings (pm_names st) n of Some (_, _, c) \<Rightarrow> c + 1 | None \<Rightarrow> 1)))
       else bindings (pm_names st))"
    by (rule link_links [OF assms(2) pm_invD(1) [OF assms(3)]]) (rule that; assumption)
  let ?f = "(pm_mailboxes st)[i := (pm_mailboxes st ! i)\<lparr>nb_resource := resource_free R x\<rparr>]"
  show ?thesis
  proof (cases "0 \<le> ?fd")
    case False
    have "nanvix_mailbox_create2 C R st name port = Some (Inl EAGAIN, st\<lparr>pm_mailboxes := ?f\<rparr>)"
      using n False i(1) by (simp add: nanvix_mailbox_create2_def Let_def) (simp add: i(4) set_mailbox_def free_mailbox_def)
    moreover have "pm_inv C R (st\<lparr>pm_mailboxes := ?f\<rparr>)"
      using mbx.inv_freed [OF assms(1,3) i(1) pm_invD(1) [OF assms(3)]] by simp
    ultimately show ?thesis using False n i(1,2) by (simp add: created_def conn_view_freed [OF assms(1)])
  next
    case fd: True
    show ?thesis
    proof (cases "r = Inr 0")
      case False
      have "nanvix_mailbox_create2 C R st name port = Some (Inl EAGAIN, st\<lparr>pm_names := w, pm_mailboxes := ?f\<rparr>)"
        using n l(1) False fd i(1) by (simp add: nanvix_mailbox_create2_def Let_def nm pm_env_upD(4,5) [OF assms(2)]) (simp add: i(4) set_mailbox_def free_mailbox_def)
      moreover have "pm_inv C R (st\<lparr>pm_names := w, pm_mailboxes := ?f\<rparr>)"
        by (rule mbx.inv_freed [OF assms(1,3) i(1) l(2)]) (simp add: l(3))
      ultimately show ?thesis using l(4,5) False n i(1,2) by (simp add: created_def conn_view_freed [OF assms(1)])
    next
      case True
      let ?e = "\<lparr>nb_resource = resource_set_rdonly R x, nb_fd = ?fd, nb_owner = knode_get_num C, nb_name = n\<rparr>"
      have "pm_inv C R (st\<lparr>pm_names := w, pm_mailboxes := (pm_mailboxes st)[i := ?e]\<rparr>)" by (rule mbx.inv_created [OF assms(1,3) i(1-3) l(2)]) (simp add: l(3) True)
      moreover have "nanvix_mailbox_create2 C R st name port = Some (Inr (int i), st\<lparr>pm_names := w, pm_mailboxes := (pm_mailboxes st)[i := ?e]\<rparr>)"
        using n l(1) True fd i(1) by (simp add: nanvix_mailbox_create2_def Let_def nm) (simp add: i(4) set_mailbox_def named_entry_eq)
      ultimately show ?thesis using l(4,5) True n i by (simp add: created_def conn_view_update conn_entry_created [OF assms(1)] conn_view_unused)
    qed
  qed
qed

lemma portal_create2_spec:
  assumes "resource_laws R" "pm_env_up C" "pm_inv C R st"
  shows "\<exists>r st'. nanvix_portal_create2 C R st name port = Some (r, st') \<and> pm_inv C R st' \<and> pm_mailboxes st' = pm_mailboxes st \<and>
    created C (length (pm_portals st)) (if within port (pe_ports_base C) (pe_portal_ports C) then pe_pcreate C (knode_get_num C) port else -1) name
      (conn_view R (pm_portals st)) (pm_names st) r (conn_view R (pm_portals st')) (pm_names st')"
proof (cases "\<exists>n. name = Some n \<and> length n \<le> pe_message_size C \<and> within port (pe_ports_base C) (pe_portal_ports C) \<and> alloc_portal R st \<noteq> None")
  case False
  then have "\<exists>e. nanvix_portal_create2 C R st name port = Some (Inl e, st)" by (cases name; cases "alloc_portal R st"; auto simp: nanvix_portal_create2_def Let_def not_less)
  with False assms(3) show ?thesis by (auto simp: created_def portal_room [OF assms(1)])
next
  case True
  let ?fd = "pe_pcreate C (knode_get_num C) port"
  from True obtain n i st1 where n: "name = Some n" "length n \<le> pe_message_size C" "within port (pe_ports_base C) (pe_portal_ports C)" "alloc_portal R st = Some (i, st1)" by auto
  obtain x where i: "i < length (pm_portals st)" "\<not> resource_is_used R (nb_resource (pm_portals st ! i))" "resource_is_used R x"
    "st1 = set_portal i (\<lambda>m. m\<lparr>nb_resource := x\<rparr>) st"
    by (rule alloc_portalE [OF assms(1) n(4)])
  have nm: "pm_names st1 = pm_names st" by (simp add: i(4) set_portal_def)
  obtain r w where l: "nanvix_name_link (pe_name C) (pm_names st) (knode_get_num C) (Some n) = Some (r, w)" "names_up (pe_name C) w"
    "\<And>k. links C w k = links C (pm_names st) k + one_if (r = Inr 0 \<and> k = n)" "r = Inr 0 \<longleftrightarrow> may_link (pe_name C) (pm_names st) n"
    "bindings w = (if r = Inr 0 then (bindings (pm_names st))(n \<mapsto> (knode_get_num C, ne_inbox_port (pe_name C), (case bindings (pm_names st) n of Some (_, _, c) \<Rightarrow> c + 1 | None \<Rightarrow> 1)))
       else bindings (pm_names st))"
    by (rule link_links [OF assms(2) pm_invD(1) [OF assms(3)]]) (rule that; assumption)
  let ?f = "(pm_portals st)[i := (pm_portals st ! i)\<lparr>nb_resource := resource_free R x\<rparr>]"
  show ?thesis
  proof (cases "0 \<le> ?fd")
    case False
    have "nanvix_portal_create2 C R st name port = Some (Inl EAGAIN, st\<lparr>pm_portals := ?f\<rparr>)"
      using n False i(1) by (simp add: nanvix_portal_create2_def Let_def) (simp add: i(4) set_portal_def free_portal_def)
    moreover have "pm_inv C R (st\<lparr>pm_portals := ?f\<rparr>)"
      using prt.inv_freed [OF assms(1,3) i(1) pm_invD(1) [OF assms(3)]] by simp
    ultimately show ?thesis using False n i(1,2) by (simp add: created_def conn_view_freed [OF assms(1)])
  next
    case fd: True
    show ?thesis
    proof (cases "r = Inr 0")
      case False
      have "nanvix_portal_create2 C R st name port = Some (Inl EAGAIN, st\<lparr>pm_names := w, pm_portals := ?f\<rparr>)"
        using n l(1) False fd i(1) by (simp add: nanvix_portal_create2_def Let_def nm pm_env_upD(4,5) [OF assms(2)]) (simp add: i(4) set_portal_def free_portal_def)
      moreover have "pm_inv C R (st\<lparr>pm_names := w, pm_portals := ?f\<rparr>)"
        by (rule prt.inv_freed [OF assms(1,3) i(1) l(2)]) (simp add: l(3))
      ultimately show ?thesis using l(4,5) False n i(1,2) by (simp add: created_def conn_view_freed [OF assms(1)])
    next
      case True
      let ?e = "\<lparr>nb_resource = resource_set_rdonly R x, nb_fd = ?fd, nb_owner = knode_get_num C, nb_name = n\<rparr>"
      have "pm_inv C R (st\<lparr>pm_names := w, pm_portals := (pm_portals st)[i := ?e]\<rparr>)" by (rule prt.inv_created [OF assms(1,3) i(1-3) l(2)]) (simp add: l(3) True)
      moreover have "nanvix_portal_create2 C R st name port = Some (Inr (int i), st\<lparr>pm_names := w, pm_portals := (pm_portals st)[i := ?e]\<rparr>)"
        using n l(1) True fd i(1) by (simp add: nanvix_portal_create2_def Let_def nm) (simp add: i(4) set_portal_def named_entry_eq)
      ultimately show ?thesis using l(4,5) True n i by (simp add: created_def conn_view_update conn_entry_created [OF assms(1)] conn_view_unused)
    qed
  qed
qed

lemma bound_name: "name_wf V s \<Longrightarrow> name_abs s n = Some (node, p, c) \<Longrightarrow> 0 \<le> node \<and> name_ok n"
  using name_abs_empty [of V s n] by (auto elim!: name_abs_Some_entry simp: name_key_def not_less split: if_splits)

lemma opened_entry_eq: "m\<lparr>nb_resource := r, nb_fd := fd, nb_owner := ow\<rparr> = \<lparr>nb_resource = r, nb_fd = fd, nb_owner = ow, nb_name = nb_name m\<rparr>"
  by (cases m) simp

lemma mailbox_open_spec:
  assumes "resource_laws R" "pm_env_up C" "pm_inv C R st"
  shows "\<exists>r st'. nanvix_mailbox_open C R st name port = Some (r, st') \<and> pm_inv C R st' \<and> pm_portals st' = pm_portals st \<and>
    opened (length (pm_mailboxes st)) (\<lambda>node. pe_mopen C node port) name (conn_view R (pm_mailboxes st)) (pm_names st) r (conn_view R (pm_mailboxes st')) (pm_names st')"
proof (cases name)
  case None
  with assms(3) show ?thesis by (simp add: nanvix_mailbox_open_def opened_def)
next
  case (Some n)
  obtain r w where l: "nanvix_name_lookup (pe_name C) (pm_names st) (Some n) = Some (r, w)" "names_up (pe_name C) w" "\<And>k. links C w k = links C (pm_names st) k"
    "bindings w = bindings (pm_names st)"
    "r = (if name_ok n then Inr (case bindings (pm_names st) n of Some (node, _, _) \<Rightarrow> node | None \<Rightarrow> -1) else Inl (if n = [] then EINVAL else ENAMETOOLONG))"
    by (rule lookup_links [OF assms(2) pm_invD(1) [OF assms(3)]]) (rule that; assumption)
  let ?st1 = "st\<lparr>pm_names := w\<rparr>"
  have inv1: "pm_inv C R ?st1" by (rule pm_inv_names [OF assms(3) l(2)]) (simp add: l(3))
  show ?thesis
  proof (cases "bindings (pm_names st) n")
    case None
    then have "nanvix_mailbox_open C R st name port = Some (Inl EAGAIN, ?st1)" using l(1,5) Some by (simp add: nanvix_mailbox_open_def split: sum.split)
    with inv1 None Some l(4) show ?thesis by (simp add: opened_def)
  next
    case b: (Some y)
    obtain node p c where y: "bindings (pm_names st) n = Some (node, p, c)" using b by (cases y) auto
    have wf: "name_wf (ne_valid (pe_name C)) (nw_names (pm_names st))" using pm_invD(1) [OF assms(3)] by (simp add: names_up_def)
    have r: "r = Inr node" "0 \<le> node" using l(5) y bound_name [OF wf y] by simp_all
    show ?thesis
    proof (cases "alloc_mailbox R ?st1")
      case None
      then have "nanvix_mailbox_open C R st name port = Some (Inl EAGAIN, ?st1)" using l(1) Some r by (simp add: nanvix_mailbox_open_def)
      moreover have "\<not> (\<exists>i<length (pm_mailboxes st). conn_view R (pm_mailboxes st) i = None)" using None mailbox_room [OF assms(1), of ?st1] by simp
      ultimately show ?thesis using inv1 l(4) by (simp add: opened_def)
    next
      case a: (Some z)
      then obtain i st2 where z: "alloc_mailbox R ?st1 = Some (i, st2)" by (cases z) auto
      obtain x where i: "i < length (pm_mailboxes st)" "\<not> resource_is_used R (nb_resource (pm_mailboxes st ! i))" "resource_is_used R x"
        "st2 = set_mailbox i (\<lambda>m. m\<lparr>nb_resource := x\<rparr>) ?st1"
        by (rule alloc_mailboxE [OF assms(1) z]) simp
      show ?thesis
      proof (cases "0 \<le> pe_mopen C node port")
        case False
        let ?f = "(pm_mailboxes st)[i := (pm_mailboxes st ! i)\<lparr>nb_resource := resource_free R x\<rparr>]"
        have "nanvix_mailbox_open C R st name port = Some (Inl EAGAIN, st\<lparr>pm_names := w, pm_mailboxes := ?f\<rparr>)"
          using l(1) Some r z False i(1) by (simp add: nanvix_mailbox_open_def Let_def) (simp add: i(4) set_mailbox_def free_mailbox_def)
        moreover have "pm_inv C R (st\<lparr>pm_names := w, pm_mailboxes := ?f\<rparr>)"
          by (rule mbx.inv_freed [OF assms(1,3) i(1) l(2)]) (simp add: l(3))
        ultimately show ?thesis using False l(4) Some y i(1,2) by (simp add: opened_def conn_view_freed [OF assms(1)])
      next
        case True
        let ?e = "\<lparr>nb_resource = resource_set_wronly R x, nb_fd = pe_mopen C node port, nb_owner = knode_get_num C, nb_name = nb_name (pm_mailboxes st ! i)\<rparr>"
        have "nanvix_mailbox_open C R st name port = Some (Inr (int i), st\<lparr>pm_names := w, pm_mailboxes := (pm_mailboxes st)[i := ?e]\<rparr>)"
          using l(1) Some r z True i(1) by (simp add: nanvix_mailbox_open_def Let_def) (simp add: i(4) set_mailbox_def opened_entry_eq)
        moreover have "pm_inv C R (st\<lparr>pm_names := w, pm_mailboxes := (pm_mailboxes st)[i := ?e]\<rparr>)"
          by (rule mbx.inv_opened [OF assms(1,3) i(1-3) l(2)]) (simp add: l(3))
        ultimately show ?thesis using l(4) Some y i by (simp add: opened_def conn_view_update conn_entry_created [OF assms(1)] conn_view_unused)
      qed
    qed
  qed
qed

lemma portal_open_spec:
  assumes "resource_laws R" "pm_env_up C" "pm_inv C R st"
  shows "\<exists>r st'. nanvix_portal_open C R st name port = Some (r, st') \<and> pm_inv C R st' \<and> pm_mailboxes st' = pm_mailboxes st \<and>
    opened (length (pm_portals st)) (\<lambda>node. pe_popen C (knode_get_num C) node port) name (conn_view R (pm_portals st)) (pm_names st) r (conn_view R (pm_portals st')) (pm_names st')"
proof (cases name)
  case None
  with assms(3) show ?thesis by (simp add: nanvix_portal_open_def opened_def)
next
  case (Some n)
  obtain r w where l: "nanvix_name_lookup (pe_name C) (pm_names st) (Some n) = Some (r, w)" "names_up (pe_name C) w" "\<And>k. links C w k = links C (pm_names st) k"
    "bindings w = bindings (pm_names st)"
    "r = (if name_ok n then Inr (case bindings (pm_names st) n of Some (node, _, _) \<Rightarrow> node | None \<Rightarrow> -1) else Inl (if n = [] then EINVAL else ENAMETOOLONG))"
    by (rule lookup_links [OF assms(2) pm_invD(1) [OF assms(3)]]) (rule that; assumption)
  let ?st1 = "st\<lparr>pm_names := w\<rparr>"
  have inv1: "pm_inv C R ?st1" by (rule pm_inv_names [OF assms(3) l(2)]) (simp add: l(3))
  show ?thesis
  proof (cases "bindings (pm_names st) n")
    case None
    then have "nanvix_portal_open C R st name port = Some (Inl EAGAIN, ?st1)" using l(1,5) Some by (simp add: nanvix_portal_open_def split: sum.split)
    with inv1 None Some l(4) show ?thesis by (simp add: opened_def)
  next
    case b: (Some y)
    obtain node p c where y: "bindings (pm_names st) n = Some (node, p, c)" using b by (cases y) auto
    have wf: "name_wf (ne_valid (pe_name C)) (nw_names (pm_names st))" using pm_invD(1) [OF assms(3)] by (simp add: names_up_def)
    have r: "r = Inr node" "0 \<le> node" using l(5) y bound_name [OF wf y] by simp_all
    show ?thesis
    proof (cases "alloc_portal R ?st1")
      case None
      then have "nanvix_portal_open C R st name port = Some (Inl EAGAIN, ?st1)" using l(1) Some r by (simp add: nanvix_portal_open_def)
      moreover have "\<not> (\<exists>i<length (pm_portals st). conn_view R (pm_portals st) i = None)" using None portal_room [OF assms(1), of ?st1] by simp
      ultimately show ?thesis using inv1 l(4) by (simp add: opened_def)
    next
      case a: (Some z)
      then obtain i st2 where z: "alloc_portal R ?st1 = Some (i, st2)" by (cases z) auto
      obtain x where i: "i < length (pm_portals st)" "\<not> resource_is_used R (nb_resource (pm_portals st ! i))" "resource_is_used R x"
        "st2 = set_portal i (\<lambda>m. m\<lparr>nb_resource := x\<rparr>) ?st1"
        by (rule alloc_portalE [OF assms(1) z]) simp
      show ?thesis
      proof (cases "0 \<le> pe_popen C (knode_get_num C) node port")
        case False
        let ?f = "(pm_portals st)[i := (pm_portals st ! i)\<lparr>nb_resource := resource_free R x\<rparr>]"
        have "nanvix_portal_open C R st name port = Some (Inl EAGAIN, st\<lparr>pm_names := w, pm_portals := ?f\<rparr>)"
          using l(1) Some r z False i(1) by (simp add: nanvix_portal_open_def Let_def) (simp add: i(4) set_portal_def free_portal_def)
        moreover have "pm_inv C R (st\<lparr>pm_names := w, pm_portals := ?f\<rparr>)"
          by (rule prt.inv_freed [OF assms(1,3) i(1) l(2)]) (simp add: l(3))
        ultimately show ?thesis using False l(4) Some y i(1,2) by (simp add: opened_def conn_view_freed [OF assms(1)])
      next
        case True
        let ?e = "\<lparr>nb_resource = resource_set_wronly R x, nb_fd = pe_popen C (knode_get_num C) node port, nb_owner = knode_get_num C, nb_name = nb_name (pm_portals st ! i)\<rparr>"
        have "nanvix_portal_open C R st name port = Some (Inr (int i), st\<lparr>pm_names := w, pm_portals := (pm_portals st)[i := ?e]\<rparr>)"
          using l(1) Some r z True i(1) by (simp add: nanvix_portal_open_def Let_def) (simp add: i(4) set_portal_def opened_entry_eq)
        moreover have "pm_inv C R (st\<lparr>pm_names := w, pm_portals := (pm_portals st)[i := ?e]\<rparr>)"
          by (rule prt.inv_opened [OF assms(1,3) i(1-3) l(2)]) (simp add: l(3))
        ultimately show ?thesis using l(4) Some y i by (simp add: opened_def conn_view_update conn_entry_created [OF assms(1)] conn_view_unused)
      qed
    qed
  qed
qed


definition inportal :: "pm_env \<Rightarrow> 'r pm \<Rightarrow> int" where
  "inportal C st = (if pm_prt_initialized st ! nat (knode_get_num C) then pm_inportals st ! nat (knode_get_num C) else -1)"

lemma portal_create_spec:
  assumes "resource_laws R" "pm_env_up C" "pm_inv C R st"
  shows "\<exists>r st'. nanvix_portal_create C R st name = Some (r, st') \<and> pm_inv C R st' \<and> pm_mailboxes st' = pm_mailboxes st \<and>
    created C (length (pm_portals st)) (inportal C st) name (conn_view R (pm_portals st)) (pm_names st) r (conn_view R (pm_portals st')) (pm_names st')"
proof -
  let ?fd = "inportal C st"
  let ?k = "nat (knode_get_num C)"
  have k: "?k < length (pm_prt_initialized st)" "?k < length (pm_inportals st)" using pm_invD(7,8) [OF assms(3)] pm_env_upD(2) [OF assms(2)] by simp_all
  have g: "get_inportal C st = Some (if pm_prt_initialized st ! ?k then Inr ?fd else Inl EINVAL)" "\<not> pm_prt_initialized st ! ?k \<Longrightarrow> ?fd < 0"
    using k by (simp_all add: get_inportal_def portals_are_initialized_def inportal_def)
  show ?thesis
  proof (cases "\<exists>n. name = Some n \<and> length n \<le> pe_message_size C \<and> 0 \<le> ?fd \<and> alloc_portal R st \<noteq> None")
    case False
    then have "\<exists>e. nanvix_portal_create C R st name = Some (Inl e, st)"
      using g by (cases name; cases "alloc_portal R st"; cases "pm_prt_initialized st ! ?k"; auto simp: nanvix_portal_create_def not_less)
    with False assms(3) show ?thesis by (auto simp: created_def portal_room [OF assms(1)])
  next
    case True
    then obtain n i st1 where n: "name = Some n" "length n \<le> pe_message_size C" "0 \<le> ?fd" "alloc_portal R st = Some (i, st1)" by auto
    have fd: "get_inportal C st = Some (Inr ?fd)" using g n(3) by (cases "pm_prt_initialized st ! ?k") auto
    obtain x where i: "i < length (pm_portals st)" "\<not> resource_is_used R (nb_resource (pm_portals st ! i))" "resource_is_used R x"
      "st1 = set_portal i (\<lambda>m. m\<lparr>nb_resource := x\<rparr>) st"
      by (rule alloc_portalE [OF assms(1) n(4)])
    have nm: "pm_names st1 = pm_names st" by (simp add: i(4) set_portal_def)
    obtain r w where l: "nanvix_name_link (pe_name C) (pm_names st) (knode_get_num C) (Some n) = Some (r, w)" "names_up (pe_name C) w"
      "\<And>k. links C w k = links C (pm_names st) k + one_if (r = Inr 0 \<and> k = n)" "r = Inr 0 \<longleftrightarrow> may_link (pe_name C) (pm_names st) n"
      "bindings w = (if r = Inr 0 then (bindings (pm_names st))(n \<mapsto> (knode_get_num C, ne_inbox_port (pe_name C), (case bindings (pm_names st) n of Some (_, _, c) \<Rightarrow> c + 1 | None \<Rightarrow> 1)))
         else bindings (pm_names st))"
      by (rule link_links [OF assms(2) pm_invD(1) [OF assms(3)]]) (rule that; assumption)
    show ?thesis
    proof (cases "r = Inr 0")
      case False
      let ?f = "(pm_portals st)[i := (pm_portals st ! i)\<lparr>nb_resource := resource_free R x\<rparr>]"
      have "nanvix_portal_create C R st name = Some (Inl EAGAIN, st\<lparr>pm_names := w, pm_portals := ?f\<rparr>)"
        using n l(1) False i(1) by (simp add: nanvix_portal_create_def fd nm) (simp add: i(4) set_portal_def free_portal_def)
      moreover have "pm_inv C R (st\<lparr>pm_names := w, pm_portals := ?f\<rparr>)"
        by (rule prt.inv_freed [OF assms(1,3) i(1) l(2)]) (simp add: l(3))
      ultimately show ?thesis using l(4,5) False n(1) i(1,2) by (simp add: created_def conn_view_freed [OF assms(1)])
    next
      case True
      let ?e = "\<lparr>nb_resource = resource_set_rdonly R x, nb_fd = ?fd, nb_owner = knode_get_num C, nb_name = n\<rparr>"
      have "pm_inv C R (st\<lparr>pm_names := w, pm_portals := (pm_portals st)[i := ?e]\<rparr>)" by (rule prt.inv_created [OF assms(1,3) i(1-3) l(2)]) (simp add: l(3) True)
      moreover have "nanvix_portal_create C R st name = Some (Inr (int i), st\<lparr>pm_names := w, pm_portals := (pm_portals st)[i := ?e]\<rparr>)"
        using n l(1) True i(1) by (simp add: nanvix_portal_create_def fd nm) (simp add: i(4) set_portal_def named_entry_eq)
      ultimately show ?thesis using l(4,5) True n(1) i by (simp add: created_def conn_view_update conn_entry_created [OF assms(1)] conn_view_unused)
    qed
  qed
qed

text \<open>The checks of a call, against the connectors of the table.\<close>

lemma rd_not_wr: "resource_laws R \<Longrightarrow> resource_is_rdonly R r \<Longrightarrow> \<not> resource_is_wronly R r"
  by (simp add: resource_modes)

lemma conn_at_Inward:
  "conn_at (conn_view R t) k = Some (Inward fd n) \<Longrightarrow> 0 \<le> k \<and> nat k < length t \<and> resource_is_used R (nb_resource (t ! nat k)) \<and>
     resource_is_rdonly R (nb_resource (t ! nat k)) \<and> nb_name (t ! nat k) = n \<and> nb_fd (t ! nat k) = fd"
  "conn_at (conn_view R t) k = Some (Outward fd) \<Longrightarrow> 0 \<le> k \<and> nat k < length t \<and> resource_is_used R (nb_resource (t ! nat k)) \<and>
     \<not> resource_is_rdonly R (nb_resource (t ! nat k)) \<and> nb_fd (t ! nat k) = fd"
  by (auto simp: conn_at_def conn_view_def conn_entry_def split: if_splits)

lemma conn_at_None:
  "conn_at (conn_view R t) k = None \<longleftrightarrow> \<not> (0 \<le> k \<and> k < int (length t)) \<or> \<not> resource_is_used R (nb_resource (t ! nat k))"
  by (auto simp: conn_at_def conn_view_def conn_entry_def nat_less_iff)

lemma mailbox_check_eq:
  assumes "resource_laws R" "pm_inv C R st"
  shows "mailbox_check C R st k (resource_is_rdonly R) e =
      (case conn_at (conn_view R (pm_mailboxes st)) k of None \<Rightarrow> Inl EINVAL | Some (Inward _ _) \<Rightarrow> Inr (pm_mailboxes st ! nat k) | Some (Outward _) \<Rightarrow> Inl e)" (is ?rd)
    "mailbox_check C R st k (resource_is_wronly R) e =
      (case conn_at (conn_view R (pm_mailboxes st)) k of None \<Rightarrow> Inl EINVAL | Some (Outward _) \<Rightarrow> Inr (pm_mailboxes st ! nat k) | Some (Inward _ _) \<Rightarrow> Inl e)" (is ?wr)
proof -
  have "?rd \<and> ?wr"
  proof (cases "conn_at (conn_view R (pm_mailboxes st)) k")
    case None
    then show ?thesis using conn_at_None [of R "pm_mailboxes st" k] by (auto simp: mailbox_check_def nanvix_mailbox_is_valid_def Let_def)
  next
    case (Some c)
    have k: "0 \<le> k" "conn_view R (pm_mailboxes st) (nat k) = Some c" using Some by (auto simp: conn_at_def split: if_splits)
    note own = mbx.owner_mine [OF assms(2) k(2)]
    have v: "nanvix_mailbox_is_valid st k" using own(2) k(1) by (simp add: nanvix_mailbox_is_valid_def nat_less_iff)
    show ?thesis
    proof (cases c)
      case (Inward fd n)
      then show ?thesis using Some conn_at_Inward(1) [of R "pm_mailboxes st" k fd n] own(1,3) v rd_not_wr [OF assms(1)] by (simp add: mailbox_check_def)
    next
      case (Outward fd)
      then show ?thesis using Some conn_at_Inward(2) [of R "pm_mailboxes st" k fd] own(1,3,4) v by (simp add: mailbox_check_def)
    qed
  qed
  then show ?rd ?wr by simp_all
qed

lemma portal_check_eq:
  assumes "resource_laws R" "pm_inv C R st"
  shows "portal_check R st k (resource_is_rdonly R) e =
      (case conn_at (conn_view R (pm_portals st)) k of None \<Rightarrow> Inl EINVAL | Some (Inward _ _) \<Rightarrow> Inr (pm_portals st ! nat k) | Some (Outward _) \<Rightarrow> Inl e)" (is ?rd)
    "portal_check R st k (resource_is_wronly R) e =
      (case conn_at (conn_view R (pm_portals st)) k of None \<Rightarrow> Inl EINVAL | Some (Outward _) \<Rightarrow> Inr (pm_portals st ! nat k) | Some (Inward _ _) \<Rightarrow> Inl e)" (is ?wr)
proof -
  have "?rd \<and> ?wr"
  proof (cases "conn_at (conn_view R (pm_portals st)) k")
    case None
    then show ?thesis using conn_at_None [of R "pm_portals st" k] by (auto simp: portal_check_def nanvix_portal_is_valid_def Let_def)
  next
    case (Some c)
    have k: "0 \<le> k" "conn_view R (pm_portals st) (nat k) = Some c" using Some by (auto simp: conn_at_def split: if_splits)
    note own = prt.owner_mine [OF assms(2) k(2)]
    have v: "nanvix_portal_is_valid st k" using own(2) k(1) by (simp add: nanvix_portal_is_valid_def nat_less_iff)
    show ?thesis
    proof (cases c)
      case (Inward fd n)
      then show ?thesis using Some conn_at_Inward(1) [of R "pm_portals st" k fd n] own(1,3) v rd_not_wr [OF assms(1)] by (simp add: portal_check_def)
    next
      case (Outward fd)
      then show ?thesis using Some conn_at_Inward(2) [of R "pm_portals st" k fd] own(1,3,4) v by (simp add: portal_check_def)
    qed
  qed
  then show ?rd ?wr by simp_all
qed

lemma mailbox_unlink_spec:
  assumes "resource_laws R" "pm_env_up C" "pm_inv C R st"
  shows "\<exists>r st'. nanvix_mailbox_unlink C R st k = Some (r, st') \<and> pm_inv C R st' \<and> pm_portals st' = pm_portals st \<and>
    unlinked (conn_view R (pm_mailboxes st)) (pm_names st) k r (conn_view R (pm_mailboxes st')) (pm_names st')"
proof (cases "\<exists>fd n. conn_at (conn_view R (pm_mailboxes st)) k = Some (Inward fd n)")
  case False
  then have "nanvix_mailbox_unlink C R st k = Some (Inl EINVAL, st)"
    by (auto simp: nanvix_mailbox_unlink_def mailbox_check_eq [OF assms(1,3)] split: option.splits connector.splits)
  with False assms(3) show ?thesis by (auto simp: unlinked_def split: option.splits connector.splits)
next
  case True
  then obtain fd n where v: "conn_at (conn_view R (pm_mailboxes st)) k = Some (Inward fd n)" by blast
  let ?i = "nat k" and ?m = "pm_mailboxes st ! nat k"
  have i: "?i < length (pm_mailboxes st)" "resource_is_used R (nb_resource ?m)" "resource_is_rdonly R (nb_resource ?m)" "nb_name ?m = n" "0 \<le> k"
    using conn_at_Inward(1) [OF v] by simp_all
  have own: "nb_owner ?m = knode_get_num C" using mbx.owner_mine(1) [OF assms(3), of ?i] v i(5) by (simp add: conn_at_def)
  have h: "0 < links C (pm_names st) n" "holder R ?m = Some n" using mbx.created_linked [OF assms(3) i(1-3)] i(4) by simp_all
  obtain w where u: "nanvix_name_unlink (pe_name C) (pm_names st) (Some n) = Some (Inr 0, w)" "names_up (pe_name C) w"
    "\<And>j. links C w j = links C (pm_names st) j - one_if (j = n)"
    "bindings w = (bindings (pm_names st))(n := (case bindings (pm_names st) n of Some (node, port, c) \<Rightarrow> if c = 1 then None else Some (node, port, c - 1) | None \<Rightarrow> None))"
    by (rule unlink_links [OF assms(2) pm_invD(1) [OF assms(3)] h(1)]) (rule that; assumption)
  let ?f = "(pm_mailboxes st)[?i := ?m\<lparr>nb_resource := resource_free R (nb_resource ?m)\<rparr>]"
  have "nanvix_mailbox_unlink C R st k = Some (Inr 0, st\<lparr>pm_names := w, pm_mailboxes := ?f\<rparr>)"
    using v u(1) i(4) own by (simp add: nanvix_mailbox_unlink_def mailbox_check_eq [OF assms(1,3)] free_mailbox_def set_mailbox_def)
  moreover have "pm_inv C R (st\<lparr>pm_names := w, pm_mailboxes := ?f\<rparr>)"
    by (rule mbx.inv_freed [OF assms(1,3) i(1) u(2)]) (simp add: u(3) h(2))
  ultimately show ?thesis using v u(4) i(1) by (simp add: unlinked_def conn_view_update conn_entry_created [OF assms(1)])
qed

lemma mailbox_close_spec:
  assumes "resource_laws R" "pm_inv C R st" "nanvix_mailbox_close C R st k = (r, st')"
  shows "pm_inv C R st' \<and> pm_names st' = pm_names st \<and> pm_portals st' = pm_portals st \<and>
    closed (pe_mclose C) (conn_view R (pm_mailboxes st)) k r (conn_view R (pm_mailboxes st'))"
proof (cases "\<exists>fd. conn_at (conn_view R (pm_mailboxes st)) k = Some (Outward fd)")
  case False
  then have "r = Inl EINVAL" "st' = st"
    using assms(3) by (auto simp: nanvix_mailbox_close_def mailbox_check_eq [OF assms(1,2)] split: option.splits connector.splits)
  with False assms(2) show ?thesis by (auto simp: closed_def split: option.splits connector.splits)
next
  case True
  then obtain fd where v: "conn_at (conn_view R (pm_mailboxes st)) k = Some (Outward fd)" by blast
  let ?i = "nat k" and ?m = "pm_mailboxes st ! nat k"
  have i: "?i < length (pm_mailboxes st)" "resource_is_used R (nb_resource ?m)" "\<not> resource_is_rdonly R (nb_resource ?m)" "nb_fd ?m = fd" "0 \<le> k"
    using conn_at_Inward(2) [OF v] by simp_all
  have own: "nb_owner ?m = knode_get_num C" using mbx.owner_mine(1) [OF assms(2), of ?i] v i(5) by (simp add: conn_at_def)
  have h: "holder R ?m = None" using i(3) by (simp add: holder_def)
  let ?f = "(pm_mailboxes st)[?i := ?m\<lparr>nb_resource := resource_free R (nb_resource ?m)\<rparr>]"
  have eq: "nanvix_mailbox_close C R st k = (if pe_mclose C fd = Inr 0 then (Inr 0, st\<lparr>pm_mailboxes := ?f\<rparr>) else (pe_mclose C fd, st))"
    using v i(4) own by (simp add: nanvix_mailbox_close_def mailbox_check_eq [OF assms(1,2)] free_mailbox_def set_mailbox_def Let_def)
  have "pm_inv C R (st\<lparr>pm_mailboxes := ?f\<rparr>)"
    using mbx.inv_freed [OF assms(1,2) i(1) pm_invD(1) [OF assms(2)]] by simp
  with eq assms(2,3) v i(1) show ?thesis by (auto simp: closed_def conn_view_update conn_entry_created [OF assms(1)] split: if_splits)
qed

lemma portal_unlink_spec:
  assumes "resource_laws R" "pm_env_up C" "pm_inv C R st"
  shows "\<exists>r st'. nanvix_portal_unlink C R st k = Some (r, st') \<and> pm_inv C R st' \<and> pm_mailboxes st' = pm_mailboxes st \<and>
    unlinked (conn_view R (pm_portals st)) (pm_names st) k r (conn_view R (pm_portals st')) (pm_names st')"
proof (cases "\<exists>fd n. conn_at (conn_view R (pm_portals st)) k = Some (Inward fd n)")
  case False
  then have "nanvix_portal_unlink C R st k = Some (Inl EINVAL, st)"
    by (auto simp: nanvix_portal_unlink_def portal_check_eq [OF assms(1,3)] split: option.splits connector.splits)
  with False assms(3) show ?thesis by (auto simp: unlinked_def split: option.splits connector.splits)
next
  case True
  then obtain fd n where v: "conn_at (conn_view R (pm_portals st)) k = Some (Inward fd n)" by blast
  let ?i = "nat k" and ?m = "pm_portals st ! nat k"
  have i: "?i < length (pm_portals st)" "resource_is_used R (nb_resource ?m)" "resource_is_rdonly R (nb_resource ?m)" "nb_name ?m = n" "0 \<le> k"
    using conn_at_Inward(1) [OF v] by simp_all
  have own: "nb_owner ?m = knode_get_num C" using prt.owner_mine(1) [OF assms(3), of ?i] v i(5) by (simp add: conn_at_def)
  have h: "0 < links C (pm_names st) n" "holder R ?m = Some n" using prt.created_linked [OF assms(3) i(1-3)] i(4) by simp_all
  obtain w where u: "nanvix_name_unlink (pe_name C) (pm_names st) (Some n) = Some (Inr 0, w)" "names_up (pe_name C) w"
    "\<And>j. links C w j = links C (pm_names st) j - one_if (j = n)"
    "bindings w = (bindings (pm_names st))(n := (case bindings (pm_names st) n of Some (node, port, c) \<Rightarrow> if c = 1 then None else Some (node, port, c - 1) | None \<Rightarrow> None))"
    by (rule unlink_links [OF assms(2) pm_invD(1) [OF assms(3)] h(1)]) (rule that; assumption)
  let ?f = "(pm_portals st)[?i := ?m\<lparr>nb_resource := resource_free R (nb_resource ?m)\<rparr>]"
  have "nanvix_portal_unlink C R st k = Some (Inr 0, st\<lparr>pm_names := w, pm_portals := ?f\<rparr>)"
    using v u(1) i(4) own by (simp add: nanvix_portal_unlink_def portal_check_eq [OF assms(1,3)] free_portal_def set_portal_def)
  moreover have "pm_inv C R (st\<lparr>pm_names := w, pm_portals := ?f\<rparr>)"
    by (rule prt.inv_freed [OF assms(1,3) i(1) u(2)]) (simp add: u(3) h(2))
  ultimately show ?thesis using v u(4) i(1) by (simp add: unlinked_def conn_view_update conn_entry_created [OF assms(1)])
qed

lemma portal_close_spec:
  assumes "resource_laws R" "pm_inv C R st" "nanvix_portal_close C R st k = (r, st')"
  shows "pm_inv C R st' \<and> pm_names st' = pm_names st \<and> pm_mailboxes st' = pm_mailboxes st \<and>
    closed (pe_pclose C) (conn_view R (pm_portals st)) k r (conn_view R (pm_portals st'))"
proof (cases "\<exists>fd. conn_at (conn_view R (pm_portals st)) k = Some (Outward fd)")
  case False
  then have "r = Inl EINVAL" "st' = st"
    using assms(3) by (auto simp: nanvix_portal_close_def portal_check_eq [OF assms(1,2)] split: option.splits connector.splits)
  with False assms(2) show ?thesis by (auto simp: closed_def split: option.splits connector.splits)
next
  case True
  then obtain fd where v: "conn_at (conn_view R (pm_portals st)) k = Some (Outward fd)" by blast
  let ?i = "nat k" and ?m = "pm_portals st ! nat k"
  have i: "?i < length (pm_portals st)" "resource_is_used R (nb_resource ?m)" "\<not> resource_is_rdonly R (nb_resource ?m)" "nb_fd ?m = fd" "0 \<le> k"
    using conn_at_Inward(2) [OF v] by simp_all
  have own: "nb_owner ?m = knode_get_num C" using prt.owner_mine(1) [OF assms(2), of ?i] v i(5) by (simp add: conn_at_def)
  have h: "holder R ?m = None" using i(3) by (simp add: holder_def)
  let ?f = "(pm_portals st)[?i := ?m\<lparr>nb_resource := resource_free R (nb_resource ?m)\<rparr>]"
  have eq: "nanvix_portal_close C R st k = (if pe_pclose C fd = Inr 0 then (Inr 0, st\<lparr>pm_portals := ?f\<rparr>) else (pe_pclose C fd, st))"
    using v i(4) own by (simp add: nanvix_portal_close_def portal_check_eq [OF assms(1,2)] free_portal_def set_portal_def Let_def)
  have "pm_inv C R (st\<lparr>pm_portals := ?f\<rparr>)"
    using prt.inv_freed [OF assms(1,2) i(1) pm_invD(1) [OF assms(2)]] by simp
  with eq assms(2,3) v i(1) show ?thesis by (auto simp: closed_def conn_view_update conn_entry_created [OF assms(1)] split: if_splits)
qed

section \<open>Sequences of calls\<close>

datatype pm_op =
    Mbx_create "string option" | Mbx_create2 "string option" int | Mbx_open "string option" int | Mbx_close int | Mbx_unlink int | Mbx_setup | Mbx_cleanup
  | Prt_create "string option" | Prt_create2 "string option" int | Prt_open "string option" int | Prt_close int | Prt_unlink int | Prt_setup | Prt_cleanup

fun pm_step :: "pm_env \<Rightarrow> 'r resource_ops \<Rightarrow> 'r pm \<Rightarrow> pm_op \<Rightarrow> (int result \<times> 'r pm) option" where
  "pm_step C R st (Mbx_create name) = nanvix_mailbox_create C R st name"
| "pm_step C R st (Mbx_create2 name port) = nanvix_mailbox_create2 C R st name port"
| "pm_step C R st (Mbx_open name port) = nanvix_mailbox_open C R st name port"
| "pm_step C R st (Mbx_close k) = Some (nanvix_mailbox_close C R st k)"
| "pm_step C R st (Mbx_unlink k) = nanvix_mailbox_unlink C R st k"
| "pm_step C R st Mbx_setup = map_option (apfst Inr) (nanvix_mailbox_setup C st)"
| "pm_step C R st Mbx_cleanup = nanvix_mailbox_cleanup C st"
| "pm_step C R st (Prt_create name) = nanvix_portal_create C R st name"
| "pm_step C R st (Prt_create2 name port) = nanvix_portal_create2 C R st name port"
| "pm_step C R st (Prt_open name port) = nanvix_portal_open C R st name port"
| "pm_step C R st (Prt_close k) = Some (nanvix_portal_close C R st k)"
| "pm_step C R st (Prt_unlink k) = nanvix_portal_unlink C R st k"
| "pm_step C R st Prt_setup = map_option (apfst Inr) (nanvix_portal_setup C st)"
| "pm_step C R st Prt_cleanup = nanvix_portal_cleanup C st"

fun pm_run :: "pm_env \<Rightarrow> 'r resource_ops \<Rightarrow> 'r pm \<Rightarrow> pm_op list \<Rightarrow> 'r pm option" where
  "pm_run C R st [] = Some st"
| "pm_run C R st (op # ops) = do { (r, st') \<leftarrow> pm_step C R st op; pm_run C R st' ops }"

abbreviation mbx_view :: "'r resource_ops \<Rightarrow> 'r pm \<Rightarrow> nat \<Rightarrow> connector option" where
  "mbx_view R st \<equiv> conn_view R (pm_mailboxes st)"

abbreviation prt_view :: "'r resource_ops \<Rightarrow> 'r pm \<Rightarrow> nat \<Rightarrow> connector option" where
  "prt_view R st \<equiv> conn_view R (pm_portals st)"

text \<open>What each call may do: the connectors of the other table never change.\<close>

fun pm_spec :: "pm_env \<Rightarrow> 'r resource_ops \<Rightarrow> 'r pm \<Rightarrow> pm_op \<Rightarrow> int result \<Rightarrow> 'r pm \<Rightarrow> bool" where
  "pm_spec C R st (Mbx_create name) r st' \<longleftrightarrow> prt_view R st' = prt_view R st \<and>
     created C (length (pm_mailboxes st)) (pe_stdinbox C) name (mbx_view R st) (pm_names st) r (mbx_view R st') (pm_names st')"
| "pm_spec C R st (Mbx_create2 name port) r st' \<longleftrightarrow> prt_view R st' = prt_view R st \<and>
     created C (length (pm_mailboxes st)) (if within port (pe_ports_base C) (pe_mailbox_ports C) then pe_mcreate C (knode_get_num C) port else -1) name
       (mbx_view R st) (pm_names st) r (mbx_view R st') (pm_names st')"
| "pm_spec C R st (Mbx_open name port) r st' \<longleftrightarrow> prt_view R st' = prt_view R st \<and>
     opened (length (pm_mailboxes st)) (\<lambda>node. pe_mopen C node port) name (mbx_view R st) (pm_names st) r (mbx_view R st') (pm_names st')"
| "pm_spec C R st (Mbx_close k) r st' \<longleftrightarrow> prt_view R st' = prt_view R st \<and> pm_names st' = pm_names st \<and> closed (pe_mclose C) (mbx_view R st) k r (mbx_view R st')"
| "pm_spec C R st (Mbx_unlink k) r st' \<longleftrightarrow> prt_view R st' = prt_view R st \<and> unlinked (mbx_view R st) (pm_names st) k r (mbx_view R st') (pm_names st')"
| "pm_spec C R st (Prt_create name) r st' \<longleftrightarrow> mbx_view R st' = mbx_view R st \<and>
     created C (length (pm_portals st)) (inportal C st) name (prt_view R st) (pm_names st) r (prt_view R st') (pm_names st')"
| "pm_spec C R st (Prt_create2 name port) r st' \<longleftrightarrow> mbx_view R st' = mbx_view R st \<and>
     created C (length (pm_portals st)) (if within port (pe_ports_base C) (pe_portal_ports C) then pe_pcreate C (knode_get_num C) port else -1) name
       (prt_view R st) (pm_names st) r (prt_view R st') (pm_names st')"
| "pm_spec C R st (Prt_open name port) r st' \<longleftrightarrow> mbx_view R st' = mbx_view R st \<and>
     opened (length (pm_portals st)) (\<lambda>node. pe_popen C (knode_get_num C) node port) name (prt_view R st) (pm_names st) r (prt_view R st') (pm_names st')"
| "pm_spec C R st (Prt_close k) r st' \<longleftrightarrow> mbx_view R st' = mbx_view R st \<and> pm_names st' = pm_names st \<and> closed (pe_pclose C) (prt_view R st) k r (prt_view R st')"
| "pm_spec C R st (Prt_unlink k) r st' \<longleftrightarrow> mbx_view R st' = mbx_view R st \<and> unlinked (prt_view R st) (pm_names st) k r (prt_view R st') (pm_names st')"
| "pm_spec C R st _ r st' \<longleftrightarrow> mbx_view R st' = mbx_view R st \<and> prt_view R st' = prt_view R st \<and> pm_names st' = pm_names st"

lemma pm_setup_spec:
  assumes "pm_env_up C" "pm_inv C R st"
  shows "\<exists>st'. nanvix_mailbox_setup C st = Some (0, st') \<and> pm_inv C R st' \<and> pm_mailboxes st' = pm_mailboxes st \<and> pm_portals st' = pm_portals st \<and> pm_names st' = pm_names st"
    "\<exists>r st'. nanvix_mailbox_cleanup C st = Some (r, st') \<and> pm_inv C R st' \<and> pm_mailboxes st' = pm_mailboxes st \<and> pm_portals st' = pm_portals st \<and> pm_names st' = pm_names st"
    "\<exists>st'. nanvix_portal_setup C st = Some (0, st') \<and> pm_inv C R st' \<and> pm_mailboxes st' = pm_mailboxes st \<and> pm_portals st' = pm_portals st \<and> pm_names st' = pm_names st"
    "\<exists>r st'. nanvix_portal_cleanup C st = Some (r, st') \<and> pm_inv C R st' \<and> pm_mailboxes st' = pm_mailboxes st \<and> pm_portals st' = pm_portals st \<and> pm_names st' = pm_names st"
  using pm_env_upD(2) [OF assms(1)] pm_invD(5-8) [OF assms(2)] assms(2)
  by (simp_all add: nanvix_mailbox_setup_def nanvix_mailbox_cleanup_def nanvix_portal_setup_def nanvix_portal_cleanup_def
      mailboxes_are_initialized_def portals_are_initialized_def Let_def arr_set_def pm_inv_def)

lemma pm_step_spec:
  assumes "resource_laws R" "pm_env_up C" "pm_inv C R st"
  shows "\<exists>r st'. pm_step C R st op = Some (r, st') \<and> pm_inv C R st' \<and> pm_spec C R st op r st'"
proof (cases op)
  case (Mbx_create name)
  then show ?thesis using mailbox_create_spec [OF assms, of name] by auto
next
  case (Mbx_create2 name port)
  then show ?thesis using mailbox_create2_spec [OF assms, of name port] by auto
next
  case (Mbx_open name port)
  then show ?thesis using mailbox_open_spec [OF assms, of name port] by auto
next
  case (Mbx_close k)
  obtain r st' where "nanvix_mailbox_close C R st k = (r, st')" by fastforce
  with mailbox_close_spec [OF assms(1,3) this] Mbx_close show ?thesis by auto
next
  case (Mbx_unlink k)
  then show ?thesis using mailbox_unlink_spec [OF assms, of k] by auto
next
  case (Prt_create name)
  then show ?thesis using portal_create_spec [OF assms, of name] by auto
next
  case (Prt_create2 name port)
  then show ?thesis using portal_create2_spec [OF assms, of name port] by auto
next
  case (Prt_open name port)
  then show ?thesis using portal_open_spec [OF assms, of name port] by auto
next
  case (Prt_close k)
  obtain r st' where "nanvix_portal_close C R st k = (r, st')" by fastforce
  with portal_close_spec [OF assms(1,3) this] Prt_close show ?thesis by auto
next
  case (Prt_unlink k)
  then show ?thesis using portal_unlink_spec [OF assms, of k] by auto
qed (use pm_setup_spec [OF assms(2,3)] in auto)

lemma pm_run_inv:
  assumes "resource_laws R" "pm_env_up C"
  shows "pm_inv C R st \<Longrightarrow> \<exists>st'. pm_run C R st ops = Some st' \<and> pm_inv C R st'"
proof (induction ops arbitrary: st)
  case (Cons op ops)
  obtain r st' where s: "pm_step C R st op = Some (r, st')" "pm_inv C R st'" using pm_step_spec [OF assms Cons.prems] by blast
  from Cons.IH [OF s(2)] s(1) show ?case by auto
qed simp

text \<open>The tables before any call, next to a name service that runs.\<close>

definition pm_static :: "'r resource_ops \<Rightarrow> nat \<Rightarrow> nat \<Rightarrow> name_world \<Rightarrow> 'r pm" where
  "pm_static R nmailboxes nportals w =
     (let e = \<lparr>nb_resource = resource_initializer R, nb_fd = 0, nb_owner = 0, nb_name = []\<rparr>; z = replicate NANVIX_PNAME_MAX 0; f = replicate NANVIX_PNAME_MAX False in
      \<lparr>pm_mailboxes = replicate nmailboxes e, pm_named_inboxes = z, pm_inboxes = z, pm_mbx_initialized = f,
       pm_portals = replicate nportals e, pm_inportals = z, pm_prt_initialized = f, pm_names = w\<rparr>)"

lemma pm_static_inv:
  assumes "resource_laws R" "names_up (pe_name C) w"
  shows "pm_inv C R (pm_static R m p w)"
proof -
  have h: "names_held R (replicate k \<lparr>nb_resource = resource_initializer R, nb_fd = 0, nb_owner = 0, nb_name = []\<rparr>) n = 0" for k n
    using assms(1) by (simp add: slot_refs_def holder_def sum_list_replicate)
  have "0 \<le> links C w n" for n
    using name_abs_pos [of "ne_valid (pe_name C)" "nw_names w" n] assms(2) by (force simp: links_def names_up_def split: option.split)
  with assms h show ?thesis by (auto simp: pm_inv_def pm_static_def Let_def connector_ok_def)
qed

section \<open>Properties\<close>

text \<open>
  C19. Every call on named mailboxes and portals returns, keeps the tables consistent with the name service, and does what its specification says: a creation takes
  a free entry and one link of the name, or changes nothing; an open connects to the node that the name is linked to; a close frees an entry
  only when the kernel closed the connector; an unlink of a created connector always succeeds and gives its link back; every other use of
  an identifier is refused. The connectors of the other table and the other names never change.
\<close>

theorem pm_calls_correct:
  assumes "resource_laws R" "pm_env_up C" "pm_inv C R st"
  shows "\<exists>r st'. pm_step C R st op = Some (r, st') \<and> pm_inv C R st' \<and> pm_spec C R st op r st'"
  by (rule pm_step_spec [OF assms])

text \<open>The environment of the witnesses: a kernel that grants every call, on the node of \<^term>\<open>name_env_ideal\<close>.\<close>

definition pm_env_ideal :: pm_env where
  "pm_env_ideal = \<lparr>pe_name = name_env_ideal, pe_core = 1, pe_stdinbox = 2, pe_stdinportal = 3, pe_thread = 1, pe_message_size = 120, pe_ports_base = 4,
     pe_mailbox_ports = 16, pe_portal_ports = 16, pe_any_source = 24, pe_any_port = 16, pe_mcreate = (\<lambda>node port. 100 + port), pe_munlink = (\<lambda>_. 0),
     pe_mopen = (\<lambda>node port. 200 + 16 * node + port), pe_mclose = (\<lambda>_. Inr 0), pe_mread = (\<lambda>fd n. Inr (replicate n 5)),
     pe_mwrite = (\<lambda>fd b. Inr (int (length b))), pe_mioctl = (\<lambda>_ _ _. Inr 0), pe_pcreate = (\<lambda>node port. 300 + port), pe_punlink = (\<lambda>_. 0),
     pe_popen = (\<lambda>local remote port. 400 + port), pe_pclose = (\<lambda>_. Inr 0), pe_pallow = (\<lambda>_ _ _. Inr 0), pe_pread = (\<lambda>fd n. Inr (replicate n 6)),
     pe_pwrite = (\<lambda>fd b. Inr (int (length b))), pe_pport = (\<lambda>_. Inr 1)\<rparr>"

definition pm_booted :: "flags pm" where
  "pm_booted = pm_static plain_resource 8 8 name_world_booted"

lemma pm_env_ideal_up: "pm_env_up pm_env_ideal"
  by (simp add: pm_env_up_def pm_env_ideal_def name_env_ideal_up NANVIX_PNAME_MAX_def) (simp add: name_env_ideal_def)

lemma pm_booted_inv: "pm_inv pm_env_ideal plain_resource pm_booted"
  unfolding pm_booted_def by (rule pm_static_inv) (simp_all add: pm_env_ideal_def name_world_booted_up)

theorem pm_calls_correct_witness:
  "\<exists>k st'. pm_step pm_env_ideal plain_resource pm_booted (Mbx_create (Some ''/vfs'')) = Some (Inr k, st') \<and>
     conn_at (mbx_view plain_resource st') k = Some (Inward 2 ''/vfs'') \<and> bindings (pm_names st') ''/vfs'' = Some (7, 4, 1)"
proof -
  obtain r st' where r: "pm_step pm_env_ideal plain_resource pm_booted (Mbx_create (Some ''/vfs'')) = Some (r, st')"
    "pm_spec pm_env_ideal plain_resource pm_booted (Mbx_create (Some ''/vfs'')) r st'"
    using pm_calls_correct [OF plain_resource_laws pm_env_ideal_up pm_booted_inv] by blast
  have f: "pe_name pm_env_ideal = name_env_ideal" "pe_message_size pm_env_ideal = 120" "pe_stdinbox pm_env_ideal = 2" by (simp_all add: pm_env_ideal_def)
  have n: "pm_names pm_booted = name_world_booted" "length (pm_mailboxes pm_booted) = 8" by (simp_all add: pm_booted_def pm_static_def Let_def)
  have m: "may_link name_env_ideal name_world_booted ''/vfs''" by (rule name_world_booted_may_link) (simp_all add: name_ok_vfs)
  have v: "mbx_view plain_resource pm_booted 0 = None" by (simp add: pm_booted_def pm_static_def Let_def conn_view_def conn_entry_def plain_clear_def)
  have b: "bindings name_world_booted ''/vfs'' = None" by (simp add: name_world_booted_up(2) name_booted_abs)
  have e: "ne_node name_env_ideal = 7" "ne_inbox_port name_env_ideal = 4" by (simp_all add: name_env_ideal_def)
  show ?thesis
  proof (cases r)
    case (Inl e)
    with r(2) have "\<not> (\<exists>i<8. mbx_view plain_resource pm_booted i = None)" using m by (simp add: created_def f n)
    with v show ?thesis by fastforce
  next
    case (Inr k)
    with r show ?thesis using b by (auto simp: created_def f n e conn_at_def)
  qed
qed

text \<open>
  C22. Created connectors keep their names. From tables that nothing uses, whatever calls are made in whatever order, no call aborts, and in the state
  reached every created mailbox and portal has a name that a lookup resolves to this node and that can be unlinked.
\<close>

theorem pm_created_names_resolve:
  assumes "resource_laws R" "pm_env_up C" "names_up (pe_name C) w"
  shows "\<exists>st. pm_run C R (pm_static R m p w) ops = Some st \<and>
    (\<forall>k fd n. conn_at (mbx_view R st) k = Some (Inward fd n) \<or> conn_at (prt_view R st) k = Some (Inward fd n) \<longrightarrow>
       map_option fst (nanvix_name_lookup (pe_name C) (pm_names st) (Some n)) = Some (Inr (knode_get_num C)) \<and>
       map_option fst (nanvix_name_unlink (pe_name C) (pm_names st) (Some n)) = Some (Inr 0))"
proof -
  obtain st where st: "pm_run C R (pm_static R m p w) ops = Some st" "pm_inv C R st"
    using pm_run_inv [OF assms(1,2) pm_static_inv [OF assms(1,3)]] by blast
  have "map_option fst (nanvix_name_lookup (pe_name C) (pm_names st) (Some n)) = Some (Inr (knode_get_num C)) \<and>
       map_option fst (nanvix_name_unlink (pe_name C) (pm_names st) (Some n)) = Some (Inr 0)"
    if "conn_at (mbx_view R st) k = Some (Inward fd n) \<or> conn_at (prt_view R st) k = Some (Inward fd n)" for k fd n
  proof -
    have l: "0 < links C (pm_names st) n"
      using that mbx.created_linked(1) [OF st(2), of "nat k"] prt.created_linked(1) [OF st(2), of "nat k"] by (auto dest!: conn_at_Inward(1))
    then obtain c where b: "bindings (pm_names st) n = Some (knode_get_num C, ne_inbox_port (pe_name C), c)" by (auto simp: links_def split: option.splits if_splits)
    have up: "names_up (pe_name C) (pm_names st)" by (rule pm_invD(1) [OF st(2)])
    then have ok: "name_ok n" using bound_name [OF _ b] by (auto simp: names_up_def)
    have "map_option fst (nanvix_name_lookup (pe_name C) (pm_names st) (Some n)) = Some (Inr (knode_get_num C))"
      by (rule lookup_links [OF assms(2) up, of n]) (use b ok in simp)
    moreover have "map_option fst (nanvix_name_unlink (pe_name C) (pm_names st) (Some n)) = Some (Inr 0)"
      by (rule unlink_links [OF assms(2) up l]) simp
    ultimately show ?thesis by blast
  qed
  with st(1) show ?thesis by blast
qed

theorem pm_created_names_resolve_witness:
  "\<exists>st. pm_run pm_env_ideal plain_resource (pm_static plain_resource 8 8 name_world_booted)
     [Mbx_create (Some ''/vfs''), Prt_setup, Prt_create (Some ''/vfs''), Mbx_unlink 0, Mbx_open (Some ''/vfs'') 5, Prt_close 3] = Some st"
proof -
  have "names_up (pe_name pm_env_ideal) name_world_booted" by (simp add: pm_env_ideal_def name_world_booted_up)
  from pm_created_names_resolve [OF plain_resource_laws pm_env_ideal_up this] show ?thesis by blast
qed

text \<open>
  Data moves only through the right connector. A read succeeds only on a connector that was created, a write only on one that was opened, and then
  the kernel is asked to move the caller's bytes over the connector of that entry; any other identifier, a null buffer and, for a portal, a size of
  zero are refused with the documented error.
\<close>

theorem pm_transfers_correct:
  assumes "resource_laws R" "pm_inv C R st" "n \<le> length b"
  shows "nanvix_mailbox_read C R st k null n =
      (case conn_at (mbx_view R st) k of
         Some (Inward fd _) \<Rightarrow> if null then (Inl EINVAL, []) else (case pe_mread C fd n of Inl _ \<Rightarrow> (Inl EINVAL, []) | Inr data \<Rightarrow> (Inr 0, data))
       | Some (Outward _) \<Rightarrow> (Inl ENOTSUP, []) | None \<Rightarrow> (Inl EINVAL, [])) \<and>
    nanvix_mailbox_write C R st k (Some b) n =
      Some (case conn_at (mbx_view R st) k of
         Some (Outward fd) \<Rightarrow> (case pe_mwrite C fd (take n b) of Inl _ \<Rightarrow> Inl EINVAL | Inr _ \<Rightarrow> Inr 0)
       | _ \<Rightarrow> Inl EINVAL) \<and>
    nanvix_portal_read C R st k null n =
      (case conn_at (prt_view R st) k of
         Some (Inward fd _) \<Rightarrow> if null \<or> n = 0 then (Inl EINVAL, []) else (case pe_pread C fd n of Inl e \<Rightarrow> (Inl e, []) | Inr data \<Rightarrow> (Inr (int (length data)), data))
       | Some (Outward _) \<Rightarrow> (Inl ENOTSUP, []) | None \<Rightarrow> (Inl EINVAL, [])) \<and>
    nanvix_portal_write C R st k (Some b) n =
      Some (case conn_at (prt_view R st) k of
         Some (Outward fd) \<Rightarrow> if n = 0 then Inl EINVAL else pe_pwrite C fd (take n b)
       | _ \<Rightarrow> Inl EINVAL)"
proof -
  have own: "nb_owner (pm_portals st ! nat k) = knode_get_num C" if "conn_at (prt_view R st) k = Some c" for c
    using prt.owner_mine(1) [OF assms(2), of "nat k" c] that by (simp add: conn_at_def split: if_splits)
  show ?thesis
    unfolding nanvix_mailbox_read_def nanvix_mailbox_write_def nanvix_portal_read_def nanvix_portal_write_def mailbox_check_eq [OF assms(1,2)] portal_check_eq [OF assms(1,2)]
    using assms(3) by (intro conjI) (auto split: option.split connector.split sum.split dest: own conn_at_Inward)
qed

theorem pm_transfers_correct_witness:
  "nanvix_mailbox_read pm_env_ideal plain_resource pm_booted 0 False 3 = (Inl EINVAL, []) \<and>
   nanvix_portal_write pm_env_ideal plain_resource pm_booted 9 (Some [1, 2, 3]) 2 = Some (Inl EINVAL)"
proof -
  have "mbx_view plain_resource pm_booted i = None" "prt_view plain_resource pm_booted i = None" for i
    by (simp_all add: pm_booted_def pm_static_def Let_def conn_view_def conn_entry_def plain_clear_def)
  then show ?thesis
    using pm_transfers_correct [OF plain_resource_laws pm_booted_inv, of 3 "[1, 2, 3]" 0 False] pm_transfers_correct [OF plain_resource_laws pm_booted_inv, of 2 "[1, 2, 3]" 9 False]
    by (simp add: conn_at_def)
qed

end
