(* ===== verification/Channel.thy ===== *)
theory Channel
  imports Named
begin

text \<open>
  The connection of a client to a server, as \<open>src/libruntime/fs/vfs.c\<close> and \<open>src/libruntime/pm/sysv/sysv.c\<close> keep it: a named mailbox for
  the requests and a named portal for the data, opened by the name of the server at set-up and closed at clean-up. The two files have the
  same code; the definitions here are shared by their theories.
\<close>

section \<open>State and operations\<close>

record channel =
  ch_initialized :: bool
  ch_outbox :: int
  ch_outportal :: int

text \<open>The value stored for a connector that was not opened is a negative error code; it is overwritten before it is used.\<close>

definition conn_code :: "int result \<Rightarrow> int" where
  "conn_code r = (case r of Inl _ \<Rightarrow> -1 | Inr k \<Rightarrow> k)"

definition channel_open :: "pm_env \<Rightarrow> 'r resource_ops \<Rightarrow> 'r pm \<Rightarrow> channel \<Rightarrow> string \<Rightarrow> int \<Rightarrow> (int result \<times> channel \<times> 'r pm) option" where
  "channel_open C R st ch name port =
     do { (r1, st1) \<leftarrow> nanvix_mailbox_open C R st (Some name) port;
          let ch1 = ch\<lparr>ch_outbox := conn_code r1\<rparr>;
          if isl r1 then Some (r1, ch1, st1)
          else do {
            (r2, st2) \<leftarrow> nanvix_portal_open C R st1 (Some name) port;
            let ch2 = ch1\<lparr>ch_outportal := conn_code r2\<rparr>;
            if isl r2 then Some (r2, ch2, st2) else Some (Inr 0, ch2, st2) } }"

definition channel_close :: "pm_env \<Rightarrow> 'r resource_ops \<Rightarrow> 'r pm \<Rightarrow> channel \<Rightarrow> int result \<times> 'r pm" where
  "channel_close C R st ch =
     (let (r1, st1) = nanvix_mailbox_close C R st (ch_outbox ch) in
      if isl r1 then (r1, st1)
      else let (r2, st2) = nanvix_portal_close C R st1 (ch_outportal ch) in
        if isl r2 then (Inl EAGAIN, st2) else (Inr 0, st2))"

text \<open>Sending a request and data; the code asserts that the transfers succeed.\<close>

definition channel_send :: "pm_env \<Rightarrow> 'r resource_ops \<Rightarrow> 'r pm \<Rightarrow> channel \<Rightarrow> byte list \<Rightarrow> unit option" where
  "channel_send C R st ch msg = do { r \<leftarrow> nanvix_mailbox_write C R st (ch_outbox ch) (Some msg) (length msg); uassert (r = Inr 0) }"

definition channel_put :: "pm_env \<Rightarrow> 'r resource_ops \<Rightarrow> 'r pm \<Rightarrow> channel \<Rightarrow> byte list \<Rightarrow> int result option" where
  "channel_put C R st ch data = nanvix_portal_write C R st (ch_outportal ch) (Some data) (length data)"

text \<open>
  The port that the data of a channel comes from, and the server's portal while this client writes to it: a server that allows
  another port is not given the data. The header fields are 16 and 8 bits wide.
\<close>

definition channel_port :: "pm_env \<Rightarrow> 'r resource_ops \<Rightarrow> 'r pm \<Rightarrow> channel \<Rightarrow> int" where
  "channel_port C R st ch = conn_code (nanvix_portal_get_port C R st (ch_outportal ch))"

definition channel_portal :: "pm_env \<Rightarrow> 'r resource_ops \<Rightarrow> 'r pm \<Rightarrow> channel \<Rightarrow> kportal \<Rightarrow> kportal" where
  "channel_portal C R st ch P = portal_from (take_bit 16 (knode_get_num C)) (take_bit 8 (channel_port C R st ch)) P"

section \<open>A connected client\<close>

text \<open>The kernel completes every transfer.\<close>

definition pm_kernel_up :: "pm_env \<Rightarrow> bool" where
  "pm_kernel_up C \<longleftrightarrow> pm_env_up C \<and> (\<forall>fd b. \<exists>k. pe_mwrite C fd b = Inr k) \<and> (\<forall>fd b. pe_pwrite C fd b = Inr (int (length b))) \<and> (\<forall>fd. \<exists>k. pe_pport C fd = Inr k)"

definition connected :: "pm_env \<Rightarrow> 'r resource_ops \<Rightarrow> 'r pm \<Rightarrow> channel \<Rightarrow> bool" where
  "connected C R st ch \<longleftrightarrow> pm_inv C R st \<and> (\<exists>fd. conn_at (mbx_view R st) (ch_outbox ch) = Some (Outward fd)) \<and>
     (\<exists>fd. conn_at (prt_view R st) (ch_outportal ch) = Some (Outward fd))"

lemma pm_kernel_upD:
  assumes "pm_kernel_up C"
  shows "pm_env_up C" "\<exists>k. pe_mwrite C fd b = Inr k" "pe_pwrite C fd b = Inr (int (length b))" "\<exists>k. pe_pport C fd = Inr k"
  using assms by (simp_all add: pm_kernel_up_def)

lemma channel_send_ok:
  assumes "resource_laws R" "pm_kernel_up C" "connected C R st ch"
  shows "channel_send C R st ch msg = Some ()"
proof -
  obtain fd where fd: "conn_at (mbx_view R st) (ch_outbox ch) = Some (Outward fd)" and inv: "pm_inv C R st" using assms(3) by (auto simp: connected_def)
  have "nb_fd (pm_mailboxes st ! nat (ch_outbox ch)) = fd" using conn_at_Inward(2) [OF fd] by simp
  moreover obtain k where "pe_mwrite C fd msg = Inr k" using pm_kernel_upD(2) [OF assms(2)] by blast
  ultimately show ?thesis using fd by (simp add: channel_send_def nanvix_mailbox_write_def mailbox_check_eq(2) [OF assms(1) inv])
qed

lemma channel_put_ok:
  assumes "resource_laws R" "pm_kernel_up C" "connected C R st ch" "data \<noteq> []"
  shows "channel_put C R st ch data = Some (Inr (int (length data)))"
proof -
  obtain fd where fd: "conn_at (prt_view R st) (ch_outportal ch) = Some (Outward fd)" and inv: "pm_inv C R st" using assms(3) by (auto simp: connected_def)
  let ?k = "nat (ch_outportal ch)"
  have "nb_fd (pm_portals st ! ?k) = fd" "0 \<le> ch_outportal ch" using conn_at_Inward(2) [OF fd] by simp_all
  moreover have "nb_owner (pm_portals st ! ?k) = knode_get_num C" using prt.owner_mine(1) [OF inv, of ?k] fd calculation(2) by (simp add: conn_at_def)
  moreover have "length data \<noteq> 0" using assms(4) by simp
  ultimately show ?thesis using fd pm_kernel_upD(3) [OF assms(2)]
    by (simp add: channel_put_def nanvix_portal_write_def portal_check_eq(2) [OF assms(1) inv])
qed

text \<open>Opening a channel to a name that is linked, with room in both tables, connects; a failure leaves the invariant.\<close>

lemma mailbox_openE:
  assumes "resource_laws R" "pm_env_up C" "pm_inv C R st"
  obtains r st' where "nanvix_mailbox_open C R st name port = Some (r, st')" "pm_inv C R st'" "prt_view R st' = prt_view R st" "pm_portals st' = pm_portals st"
    "opened (length (pm_mailboxes st)) (\<lambda>node. pe_mopen C node port) name (mbx_view R st) (pm_names st) r (mbx_view R st') (pm_names st')"
  using mailbox_open_spec [OF assms, of name port] by auto

lemma portal_openE:
  assumes "resource_laws R" "pm_env_up C" "pm_inv C R st"
  obtains r st' where "nanvix_portal_open C R st name port = Some (r, st')" "pm_inv C R st'" "mbx_view R st' = mbx_view R st"
    "opened (length (pm_portals st)) (\<lambda>node. pe_popen C (knode_get_num C) node port) name (prt_view R st) (pm_names st) r (prt_view R st') (pm_names st')"
  using portal_open_spec [OF assms, of name port] by auto

lemma channel_open_ok:
  assumes "resource_laws R" "pm_env_up C" "pm_inv C R st"
  obtains r ch' st' where "channel_open C R st ch name port = Some (r, ch', st')" "pm_inv C R st'" "ch_initialized ch' = ch_initialized ch"
    "\<not> isl r \<longrightarrow> connected C R st' ch' \<and> r = Inr 0"
    "bindings (pm_names st) name = Some (node, p, c) \<and> 0 \<le> pe_mopen C node port \<and> 0 \<le> pe_popen C (knode_get_num C) node port \<and>
       (\<exists>i<length (pm_mailboxes st). mbx_view R st i = None) \<and> (\<exists>i<length (pm_portals st). prt_view R st i = None) \<longrightarrow> r = Inr 0"
proof -
  obtain r1 st1 where m: "nanvix_mailbox_open C R st (Some name) port = Some (r1, st1)" "pm_inv C R st1" "prt_view R st1 = prt_view R st" "pm_portals st1 = pm_portals st"
    "opened (length (pm_mailboxes st)) (\<lambda>node. pe_mopen C node port) (Some name) (mbx_view R st) (pm_names st) r1 (mbx_view R st1) (pm_names st1)"
    by (rule mailbox_openE [OF assms])
  show thesis
  proof (cases r1)
    case (Inl e)
    show thesis
      by (rule that [of "Inl e" "ch\<lparr>ch_outbox := -1\<rparr>" st1]) (use m Inl in \<open>auto simp: channel_open_def conn_code_def opened_def\<close>)
  next
    case (Inr k1)
    obtain r2 st2 where p: "nanvix_portal_open C R st1 (Some name) port = Some (r2, st2)" "pm_inv C R st2" "mbx_view R st2 = mbx_view R st1"
      "opened (length (pm_portals st1)) (\<lambda>node. pe_popen C (knode_get_num C) node port) (Some name) (prt_view R st1) (pm_names st1) r2 (prt_view R st2) (pm_names st2)"
      by (rule portal_openE [OF assms(1,2) m(2)])
    have k1: "0 \<le> k1" "\<exists>fd. mbx_view R st1 (nat k1) = Some (Outward fd)" "bindings (pm_names st1) = bindings (pm_names st)" using m(5) Inr by (auto simp: opened_def)
    let ?ch = "ch\<lparr>ch_outbox := k1, ch_outportal := conn_code r2\<rparr>"
    have eq: "channel_open C R st ch name port = Some (if isl r2 then r2 else Inr 0, ?ch, st2)" using m(1) p(1) Inr by (simp add: channel_open_def conn_code_def)
    have c: "connected C R st2 ?ch" if "r2 = Inr k2" for k2
      using p(2,3,4) k1 that by (auto simp: connected_def conn_at_def conn_code_def opened_def)
    show thesis
      by (rule that [OF eq p(2)]) (use p(4) c k1(3) m(3,4) in \<open>auto simp: opened_def isl_def split: sum.splits\<close>)
  qed
qed

text \<open>The port of a channel is the port of the kernel's portal that was opened for it.\<close>

lemma channel_port_eq:
  assumes "resource_laws R" "pm_inv C R st" "conn_at (prt_view R st) (ch_outportal ch) = Some (Outward fd)"
  shows "channel_port C R st ch = conn_code (pe_pport C fd)"
  using assms(3) conn_at_Inward(2) [OF assms(3)] by (simp add: channel_port_def nanvix_portal_get_port_def portal_check_eq(2) [OF assms(1,2)])

lemma channel_open_portal:
  assumes "resource_laws R" "pm_env_up C" "pm_inv C R st" "channel_open C R st ch name port = Some (Inr 0, ch', st')"
  shows "\<exists>node. conn_at (prt_view R st') (ch_outportal ch') = Some (Outward (pe_popen C (knode_get_num C) node port)) \<and>
    0 \<le> ch_outportal ch' \<and> ch_outportal ch' < int (length (pm_portals st)) \<and> pm_inv C R st'"
proof -
  obtain r1 st1 where m: "nanvix_mailbox_open C R st (Some name) port = Some (r1, st1)" "pm_inv C R st1" "pm_portals st1 = pm_portals st"
    by (rule mailbox_openE [OF assms(1-3)])
  obtain r2 st2 where p: "nanvix_portal_open C R st1 (Some name) port = Some (r2, st2)" "pm_inv C R st2"
    "opened (length (pm_portals st1)) (\<lambda>node. pe_popen C (knode_get_num C) node port) (Some name) (prt_view R st1) (pm_names st1) r2 (prt_view R st2) (pm_names st2)"
    by (rule portal_openE [OF assms(1,2) m(2)])
  obtain k2 where r: "r2 = Inr k2" and e: "ch_outportal ch' = k2" "st' = st2"
    using assms(4) m(1) p(1) by (cases r1; cases r2) (auto simp: channel_open_def conn_code_def)
  from p(3) show ?thesis using p(2) m(3) by (auto simp: r e opened_def conn_at_def)
qed

section \<open>A client and a linked server\<close>

text \<open>The surroundings of the witnesses: a server on node 7 has linked its name, the client runs on node 3.\<close>

definition name_world_linked :: "string \<Rightarrow> name_world" where
  "name_world_linked n = snd (the (nanvix_name_link name_env_ideal name_world_booted 7 (Some n)))"

definition pm_env_client :: pm_env where
  "pm_env_client = pm_env_ideal\<lparr>pe_name := name_env_ideal\<lparr>ne_node := 3, ne_inbox_port := 0\<rparr>\<rparr>"

lemma pm_env_client_up: "pm_kernel_up pm_env_client"
  by (simp add: pm_kernel_up_def pm_env_up_def pm_env_client_def pm_env_ideal_def name_env_up_def name_env_ideal_def kmailbox_ideal_up any_node_def
      NANVIX_PNAME_MAX_def)

lemma name_world_linked_ok:
  assumes "name_ok n" "n \<noteq> ''/io0''"
  shows "names_up (pe_name pm_env_client) (name_world_linked n)" "bindings (name_world_linked n) n = Some (7, 4, 1)"
proof -
  have b: "bindings name_world_booted n = None" using assms(2) by (simp add: name_world_booted_up(2) name_booted_abs)
  have e: "ne_valid name_env_ideal 7" "ne_node name_env_ideal = 7" "ne_inbox_port name_env_ideal = 4" "ne_valid name_env_ideal = any_node"
    "ne_valid (pe_name pm_env_client) = any_node"
    by (simp_all add: name_env_ideal_def pm_env_client_def any_node_def)
  obtain w where "nanvix_name_link name_env_ideal name_world_booted 7 (Some n) = Some (Inr 0, w)" "names_up name_env_ideal w"
    "bindings w = (bindings name_world_booted)(n \<mapsto> (7, 4, 1))"
    by (rule name_link_names [OF name_env_ideal_up name_world_booted_up(1), of 7 n]) (use b e name_world_booted_may_link [OF assms] in simp)
  then show "names_up (pe_name pm_env_client) (name_world_linked n)" "bindings (name_world_linked n) n = Some (7, 4, 1)"
    using e by (simp_all add: name_world_linked_def names_up_def)
qed

lemma channel_boot:
  assumes "name_ok n" "n \<noteq> ''/io0''" "0 \<le> port"
  obtains ch' st' where "channel_open pm_env_client plain_resource (pm_static plain_resource 8 8 (name_world_linked n)) ch n port = Some (Inr 0, ch', st')"
    "connected pm_env_client plain_resource st' (ch'\<lparr>ch_initialized := True\<rparr>)"
proof -
  let ?st = "pm_static plain_resource 8 8 (name_world_linked n)"
  have inv: "pm_inv pm_env_client plain_resource ?st" by (rule pm_static_inv [OF plain_resource_laws name_world_linked_ok(1) [OF assms(1,2)]])
  have "0 < length (pm_mailboxes ?st)" "0 < length (pm_portals ?st)" "mbx_view plain_resource ?st 0 = None" "prt_view plain_resource ?st 0 = None"
    by (simp_all add: pm_static_def Let_def conn_view_def conn_entry_def plain_clear_def)
  then have v: "\<exists>i<length (pm_mailboxes ?st). mbx_view plain_resource ?st i = None" "\<exists>i<length (pm_portals ?st). prt_view plain_resource ?st i = None" by blast+
  have b: "bindings (pm_names ?st) n = Some (7, 4, 1)" using name_world_linked_ok(2) [OF assms(1,2)] by (simp add: pm_static_def Let_def)
  have o: "0 \<le> pe_mopen pm_env_client 7 port" "0 \<le> pe_popen pm_env_client (knode_get_num pm_env_client) 7 port"
    using assms(3) by (simp_all add: pm_env_client_def pm_env_ideal_def)
  obtain r ch' st' where c: "channel_open pm_env_client plain_resource ?st ch n port = Some (r, ch', st')"
    "\<not> isl r \<longrightarrow> connected pm_env_client plain_resource st' ch' \<and> r = Inr 0"
    "bindings (pm_names ?st) n = Some (7, 4, 1) \<and> 0 \<le> pe_mopen pm_env_client 7 port \<and> 0 \<le> pe_popen pm_env_client (knode_get_num pm_env_client) 7 port \<and>
       (\<exists>i<length (pm_mailboxes ?st). mbx_view plain_resource ?st i = None) \<and> (\<exists>i<length (pm_portals ?st). prt_view plain_resource ?st i = None) \<longrightarrow> r = Inr 0"
    by (rule channel_open_ok [OF plain_resource_laws pm_kernel_upD(1) [OF pm_env_client_up] inv, of ch n port 7 4 1]) (rule that; assumption)
  have r: "r = Inr 0" by (rule c(3) [THEN mp]) (intro conjI b o v)
  have "connected pm_env_client plain_resource st' (ch'\<lparr>ch_initialized := True\<rparr>)" using c(2) r by (simp add: connected_def)
  then show thesis by (rule that [OF c(1) [unfolded r]])
qed

end
