(* ===== verification/VfsClient.thy ===== *)
theory VfsClient
  imports VfsServer Channel
begin

text \<open>
  The client side of the file system service, \<open>src/libruntime/fs/vfs.c\<close>, together with the server it talks to: a call checks its
  arguments, sends a request, the server handles it with \<^term>\<open>vfs_step\<close>, and the call reads the reply. Transfers are cut into
  blocks of the size of the server's buffer. Requests and data leave through the named mailbox and portal of the client's channel; the
  replies come from the kernel, a parameter. A failing assertion and a call that never gets its reply are \<open>None\<close>.
\<close>

section \<open>State\<close>

record 'r vfs_world =
  vw_client :: channel
  vw_pm :: "'r pm"
  vw_server :: "'r vfs_srv"
  vw_alive :: bool

text \<open>
  The environment: the named connectors, the port of the server, the bytes of a message, the kernel as the server sees it (the portal carries the
  bytes the client sends), and whether the client's own reads succeed.
\<close>

record vfs_env =
  ve_pm :: pm_env
  ve_port :: int
  ve_bytes :: "vfs_message \<Rightarrow> byte list"
  ve_mailbox :: kmailbox
  ve_portal :: "byte list \<Rightarrow> kportal"
  ve_mread_ok :: bool
  ve_pallow_ok :: bool
  ve_pread_ok :: bool

abbreviation ve_node :: "vfs_env \<Rightarrow> int" where
  "ve_node C \<equiv> ne_node (pe_name (ve_pm C))"

abbreviation ve_inbox_port :: "vfs_env \<Rightarrow> int" where
  "ve_inbox_port C \<equiv> ne_inbox_port (pe_name (ve_pm C))"

abbreviation ve_inportal_port :: "vfs_env \<Rightarrow> int" where
  "ve_inportal_port C \<equiv> ne_inportal_port (pe_name (ve_pm C))"

definition VFS_SERVER_NAME :: string where "VFS_SERVER_NAME = ''/vfs''"

definition NANVIX_NAME_MAX :: nat where "NANVIX_NAME_MAX = 16"

section \<open>Requests\<close>

text \<open>The header fields are 16 and 8 bits wide.\<close>

definition vfs_request :: "vfs_env \<Rightarrow> int \<Rightarrow> vfs_op \<Rightarrow> vfs_message" where
  "vfs_request C pport op =
     \<lparr>vr_source = take_bit 16 (ve_node C), vr_mailbox_port = take_bit 8 (ve_inbox_port C), vr_portal_port = take_bit 8 pport, vr_op = op\<rparr>"

text \<open>Send the request, and \<open>data\<close> through the portal, and wait for the reply.\<close>

definition vfs_call :: "vfs_env \<Rightarrow> 'r resource_ops \<Rightarrow> nat \<Rightarrow> 'r vfs_world \<Rightarrow> byte list \<Rightarrow> vfs_message \<Rightarrow> (vfs_reply \<times> 'r vfs_world) option" where
  "vfs_call C R nconn w data msg =
     do { channel_send (ve_pm C) R (vw_pm w) (vw_client w) (ve_bytes C msg);
          uassert (vw_alive w);
          let P = channel_portal (ve_pm C) R (vw_pm w) (vw_client w) (ve_portal C data);
          (rep, srv, _) \<leftarrow> vfs_step (ve_mailbox C) P R nconn (vw_server w) msg;
          r \<leftarrow> rep;
          uassert (ve_mread_ok C);
          Some (r, w\<lparr>vw_server := srv\<rparr>) }"

definition do_nanvix_vfs_open :: "vfs_env \<Rightarrow> 'r resource_ops \<Rightarrow> nat \<Rightarrow> 'r vfs_world \<Rightarrow> string \<Rightarrow> 32 word \<Rightarrow> (int result \<times> 'r vfs_world) option" where
  "do_nanvix_vfs_open C R nconn w filename oflag =
     do { (r, w') \<leftarrow> vfs_call C R nconn w [] (vfs_request C (ve_inportal_port C) (VFS_OPEN (ustrncpy NANVIX_NAME_MAX filename) oflag));
          case vp_status r of
            Inl e \<Rightarrow> Some (Inl e, w')
          | Inr _ \<Rightarrow> do { fd \<leftarrow> vp_fd r; Some (Inr fd, w') } }"

definition nanvix_vfs_open :: "vfs_env \<Rightarrow> 'r resource_ops \<Rightarrow> nat \<Rightarrow> 'r vfs_world \<Rightarrow> string option \<Rightarrow> 32 word \<Rightarrow> (int result \<times> 'r vfs_world) option" where
  "nanvix_vfs_open C R nconn w filename oflag =
     (if \<not> ch_initialized (vw_client w) then Some (Inl EAGAIN, w)
      else case filename of
        None \<Rightarrow> Some (Inl EINVAL, w)
      | Some name \<Rightarrow>
          if NANVIX_NAME_MAX \<le> length name then Some (Inl ENAMETOOLONG, w)
          else if ACCMODE oflag \<noteq> O_RDONLY \<and> ACCMODE oflag \<noteq> O_WRONLY \<and> ACCMODE oflag \<noteq> O_RDWR then Some (Inl EINVAL, w)
          else do_nanvix_vfs_open C R nconn w name oflag)"

definition do_nanvix_vfs_close :: "vfs_env \<Rightarrow> 'r resource_ops \<Rightarrow> nat \<Rightarrow> 'r vfs_world \<Rightarrow> int \<Rightarrow> (int result \<times> 'r vfs_world) option" where
  "do_nanvix_vfs_close C R nconn w fd =
     do { (r, w') \<leftarrow> vfs_call C R nconn w [] (vfs_request C (ve_inportal_port C) (VFS_CLOSE fd));
          Some (case vp_status r of Inl e \<Rightarrow> Inl e | Inr _ \<Rightarrow> Inr 0, w') }"

definition nanvix_vfs_close :: "vfs_env \<Rightarrow> 'r resource_ops \<Rightarrow> nat \<Rightarrow> 'r vfs_world \<Rightarrow> int \<Rightarrow> (int result \<times> 'r vfs_world) option" where
  "nanvix_vfs_close C R nconn w fd =
     (if \<not> ch_initialized (vw_client w) then Some (Inl EAGAIN, w)
      else if \<not> fd_within fd then Some (Inl EINVAL, w)
      else do_nanvix_vfs_close C R nconn w fd)"

definition do_nanvix_vfs_seek :: "vfs_env \<Rightarrow> 'r resource_ops \<Rightarrow> nat \<Rightarrow> 'r vfs_world \<Rightarrow> int \<Rightarrow> int \<Rightarrow> int \<Rightarrow> (int result \<times> 'r vfs_world) option" where
  "do_nanvix_vfs_seek C R nconn w fd offset whence =
     do { (r, w') \<leftarrow> vfs_call C R nconn w [] (vfs_request C (ve_inportal_port C) (VFS_SEEK fd offset whence));
          case vp_status r of
            Inl e \<Rightarrow> Some (Inl e, w')
          | Inr _ \<Rightarrow> do { pos \<leftarrow> vp_offset r; Some (Inr pos, w') } }"

definition nanvix_vfs_seek :: "vfs_env \<Rightarrow> 'r resource_ops \<Rightarrow> nat \<Rightarrow> 'r vfs_world \<Rightarrow> int \<Rightarrow> int \<Rightarrow> int \<Rightarrow> (int result \<times> 'r vfs_world) option" where
  "nanvix_vfs_seek C R nconn w fd offset whence =
     (if \<not> ch_initialized (vw_client w) then Some (Inl EAGAIN, w)
      else if \<not> fd_within fd then Some (Inl EINVAL, w)
      else if whence \<noteq> SEEK_SET \<and> whence \<noteq> SEEK_CUR \<and> whence \<noteq> SEEK_END then Some (Inl EINVAL, w)
      else do_nanvix_vfs_seek C R nconn w fd offset whence)"

section \<open>Transfers\<close>

text \<open>
  One block. The acknowledgement comes before the data and the data before the reply, so the buffer is filled whatever the reply is; a
  reply in the place of the acknowledgement fails the assertion on its opcode.
\<close>

definition do_nanvix_vfs_read :: "vfs_env \<Rightarrow> 'r resource_ops \<Rightarrow> nat \<Rightarrow> 'r vfs_world \<Rightarrow> int \<Rightarrow> nat \<Rightarrow> (int result \<times> byte list \<times> 'r vfs_world) option" where
  "do_nanvix_vfs_read C R nconn w fd n =
     (if n = 0 then Some (Inr 0, [], w)
      else do {
        (r, w') \<leftarrow> vfs_call C R nconn w [] (vfs_request C (ve_inportal_port C) (VFS_READ fd n));
        data \<leftarrow> vp_data r;
        uassert (ve_pallow_ok C);
        uassert (ve_pread_ok C);
        case vp_status r of
          Inl e \<Rightarrow> Some (Inl e, data, w')
        | Inr _ \<Rightarrow> do { count \<leftarrow> vp_count r; Some (Inr count, data, w') } })"

definition do_nanvix_vfs_write :: "vfs_env \<Rightarrow> 'r resource_ops \<Rightarrow> nat \<Rightarrow> 'r vfs_world \<Rightarrow> int \<Rightarrow> byte list \<Rightarrow> (int result \<times> 'r vfs_world) option" where
  "do_nanvix_vfs_write C R nconn w fd data =
     (if data = [] then Some (Inr 0, w)
      else do {
        let port = channel_port (ve_pm C) R (vw_pm w) (vw_client w);
        (r, w') \<leftarrow> vfs_call C R nconn w data (vfs_request C port (VFS_WRITE fd (length data)));
        sent \<leftarrow> channel_put (ve_pm C) R (vw_pm w) (vw_client w) data;
        uassert (0 \<le> conn_code sent);
        case vp_status r of
          Inl e \<Rightarrow> Some (Inl e, w')
        | Inr _ \<Rightarrow> do { count \<leftarrow> vp_count r; Some (Inr count, w') } })"

text \<open>The loops over the blocks of the caller's buffer; the count of a block is only tested for an error.\<close>

function read_blocks :: "vfs_env \<Rightarrow> 'r resource_ops \<Rightarrow> nat \<Rightarrow> 'r vfs_world \<Rightarrow> int \<Rightarrow> nat \<Rightarrow> (unit result \<times> byte list \<times> 'r vfs_world) option" where
  "read_blocks C R nconn w fd rest =
     (if rest = 0 then Some (Inr (), [], w)
      else do {
        let count = (if rest < NANVIX_FS_BLOCK_SIZE then rest else NANVIX_FS_BLOCK_SIZE);
        (nread, data, w1) \<leftarrow> do_nanvix_vfs_read C R nconn w fd count;
        case nread of
          Inl e \<Rightarrow> Some (Inl e, data, w1)
        | Inr _ \<Rightarrow> do { (r, more, w2) \<leftarrow> read_blocks C R nconn w1 fd (rest - count); Some (r, data @ more, w2) } })"
  by pat_completeness auto

termination
  by (relation "measure (\<lambda>(C, R, nconn, w, fd, rest). rest)") (auto simp: NANVIX_FS_BLOCK_SIZE_def split: if_splits)

function write_blocks :: "vfs_env \<Rightarrow> 'r resource_ops \<Rightarrow> nat \<Rightarrow> 'r vfs_world \<Rightarrow> int \<Rightarrow> byte list \<Rightarrow> (unit result \<times> 'r vfs_world) option" where
  "write_blocks C R nconn w fd buf =
     (if buf = [] then Some (Inr (), w)
      else do {
        let count = (if length buf < NANVIX_FS_BLOCK_SIZE then length buf else NANVIX_FS_BLOCK_SIZE);
        (nwrite, w1) \<leftarrow> do_nanvix_vfs_write C R nconn w fd (take count buf);
        case nwrite of
          Inl e \<Rightarrow> Some (Inl e, w1)
        | Inr _ \<Rightarrow> write_blocks C R nconn w1 fd (drop count buf) })"
  by pat_completeness auto

termination
  by (relation "measure (\<lambda>(C, R, nconn, w, fd, buf). length buf)") (auto simp: NANVIX_FS_BLOCK_SIZE_def split: if_splits)

declare read_blocks.simps [simp del] write_blocks.simps [simp del]

text \<open>The bytes that a read stores in the caller's buffer are the second component.\<close>

definition nanvix_vfs_read :: "vfs_env \<Rightarrow> 'r resource_ops \<Rightarrow> nat \<Rightarrow> 'r vfs_world \<Rightarrow> int \<Rightarrow> bool \<Rightarrow> nat \<Rightarrow> (int result \<times> byte list \<times> 'r vfs_world) option" where
  "nanvix_vfs_read C R nconn w fd null n =
     (if \<not> ch_initialized (vw_client w) then Some (Inl EAGAIN, [], w)
      else if \<not> fd_within fd then Some (Inl EINVAL, [], w)
      else if null then Some (Inl EINVAL, [], w)
      else if unat NANVIX_MAX_FILE_SIZE < n then Some (Inl EFBIG, [], w)
      else do {
        (r, data, w') \<leftarrow> read_blocks C R nconn w fd n;
        Some (case r of Inl e \<Rightarrow> Inl e | Inr _ \<Rightarrow> Inr (int n), data, w') })"

definition nanvix_vfs_write :: "vfs_env \<Rightarrow> 'r resource_ops \<Rightarrow> nat \<Rightarrow> 'r vfs_world \<Rightarrow> int \<Rightarrow> byte list option \<Rightarrow> nat \<Rightarrow> (int result \<times> 'r vfs_world) option" where
  "nanvix_vfs_write C R nconn w fd buf n =
     (if \<not> ch_initialized (vw_client w) then Some (Inl EAGAIN, w)
      else if \<not> fd_within fd then Some (Inl EINVAL, w)
      else case buf of
        None \<Rightarrow> Some (Inl EINVAL, w)
      | Some b \<Rightarrow>
          if unat NANVIX_MAX_FILE_SIZE < n then Some (Inl EFBIG, w)
          else do {
            uassert (n \<le> length b);
            (r, w') \<leftarrow> write_blocks C R nconn w fd (take n b);
            Some (case r of Inl e \<Rightarrow> Inl e | Inr _ \<Rightarrow> Inr (int n), w') })"

section \<open>Set-up\<close>

text \<open>
  The request to exit has no reply: the server handles it in its loop, if it is still there, and leaves the loop when the request says so.
\<close>

definition nanvix_vfs_shutdown :: "vfs_env \<Rightarrow> 'r resource_ops \<Rightarrow> nat \<Rightarrow> 'r vfs_world \<Rightarrow> (int result \<times> 'r vfs_world) option" where
  "nanvix_vfs_shutdown C R nconn w =
     (if \<not> ch_initialized (vw_client w) then Some (Inl EAGAIN, w)
      else do {
        let msg = vfs_request C (ve_inportal_port C) VFS_EXIT;
        channel_send (ve_pm C) R (vw_pm w) (vw_client w) (ve_bytes C msg);
        if \<not> vw_alive w then Some (Inr 0, w)
        else do {
          (_, srv, shutdown) \<leftarrow> vfs_step (ve_mailbox C) (ve_portal C []) R nconn (vw_server w) msg;
          Some (Inr 0, w\<lparr>vw_server := srv, vw_alive := \<not> shutdown\<rparr>) } })"

definition nanvix_vfs_setup :: "vfs_env \<Rightarrow> 'r resource_ops \<Rightarrow> 'r vfs_world \<Rightarrow> (int result \<times> 'r vfs_world) option" where
  "nanvix_vfs_setup C R w =
     (if ch_initialized (vw_client w) then Some (Inr 0, w)
      else do {
        (r, ch, st) \<leftarrow> channel_open (ve_pm C) R (vw_pm w) (vw_client w) VFS_SERVER_NAME (ve_port C);
        if isl r then Some (r, w\<lparr>vw_client := ch, vw_pm := st\<rparr>)
        else Some (Inr 0, w\<lparr>vw_client := ch\<lparr>ch_initialized := True\<rparr>, vw_pm := st\<rparr>) })"

definition nanvix_vfs_cleanup :: "vfs_env \<Rightarrow> 'r resource_ops \<Rightarrow> 'r vfs_world \<Rightarrow> int result \<times> 'r vfs_world" where
  "nanvix_vfs_cleanup C R w =
     (if \<not> ch_initialized (vw_client w) then (Inr 0, w)
      else let (r, st) = channel_close (ve_pm C) R (vw_pm w) (vw_client w) in
        if isl r then (r, w\<lparr>vw_pm := st\<rparr>)
        else (Inr 0, w\<lparr>vw_client := (vw_client w)\<lparr>ch_initialized := False\<rparr>, vw_pm := st\<rparr>))"

section \<open>Every call returns\<close>

definition vfs_env_up :: "vfs_env \<Rightarrow> bool" where
  "vfs_env_up C \<longleftrightarrow> mailboxes_up (ve_mailbox C) \<and> (\<forall>d. portals_up (ve_portal C d)) \<and> (\<forall>d i. kportal_read (ve_portal C d) i (length d) = d) \<and>
     pm_kernel_up (ve_pm C) \<and> ve_mread_ok C \<and> ve_pallow_ok C \<and> ve_pread_ok C"

definition world_up :: "vfs_env \<Rightarrow> 'r resource_ops \<Rightarrow> nat \<Rightarrow> 'r vfs_world \<Rightarrow> bool" where
  "world_up C R nconn w \<longleftrightarrow> ch_initialized (vw_client w) \<and> vw_alive w \<and> vfs_server_inv R nconn (vw_server w) \<and>
     connected (ve_pm C) R (vw_pm w) (vw_client w)"

lemma vfs_env_upD:
  assumes "vfs_env_up C"
  shows "mailboxes_up (ve_mailbox C)" "portals_up (ve_portal C d)" "kportal_read (ve_portal C d) i (length d) = d"
    "pm_kernel_up (ve_pm C)" "ve_mread_ok C" "ve_pallow_ok C" "ve_pread_ok C"
  using assms by (auto simp: vfs_env_up_def)

lemma vfs_request_sel [simp]:
  "vr_op (vfs_request C p op) = op" "vr_source (vfs_request C p op) = take_bit 16 (ve_node C)"
  "vr_mailbox_port (vfs_request C p op) = take_bit 8 (ve_inbox_port C)"
  by (simp_all add: vfs_request_def)

text \<open>A write reaches the server when its header names the port of the channel; no other request depends on it.\<close>

definition vfs_reaches :: "vfs_env \<Rightarrow> 'r resource_ops \<Rightarrow> 'r vfs_world \<Rightarrow> vfs_message \<Rightarrow> bool" where
  "vfs_reaches C R w msg \<longleftrightarrow> vr_source msg = take_bit 16 (ve_node C) \<and>
     (\<forall>fd n. vr_op msg = VFS_WRITE fd n \<longrightarrow> vr_portal_port msg = take_bit 8 (channel_port (ve_pm C) R (vw_pm w) (vw_client w)))"

lemma vfs_request_reaches [simp]:
  "vfs_reaches C R w (vfs_request C (channel_port (ve_pm C) R (vw_pm w) (vw_client w)) op)"
  "(\<And>fd n. op \<noteq> VFS_WRITE fd n) \<Longrightarrow> vfs_reaches C R w (vfs_request C p op)"
  by (simp_all add: vfs_reaches_def vfs_request_def)

lemma vfs_step_from:
  assumes "vfs_reaches C R w msg"
  shows "vfs_step K (channel_portal (ve_pm C) R (vw_pm w) (vw_client w) P) R nconn st msg = vfs_step K P R nconn st msg"
  using assms by (cases "vr_op msg") (simp_all add: vfs_reaches_def vfs_step_def vfs_handle_def do_vfs_server_write_def do_vfs_server_read_def
      channel_portal_def portal_receive_from Let_def)

lemma vfs_call_step:
  assumes "resource_laws R" "vfs_env_up C" "world_up C R nconn w"
    and "vfs_step (ve_mailbox C) (ve_portal C data) R nconn (vw_server w) msg = Some (Some r, srv, sd)" "vfs_reaches C R w msg"
  shows "vfs_call C R nconn w data msg = Some (r, w\<lparr>vw_server := srv\<rparr>)"
proof -
  have "channel_send (ve_pm C) R (vw_pm w) (vw_client w) (ve_bytes C msg) = Some ()"
    using channel_send_ok [OF assms(1) vfs_env_upD(4) [OF assms(2)]] assms(3) by (simp add: world_up_def)
  with assms(3,4) show ?thesis by (simp add: vfs_call_def vfs_step_from [OF assms(5)] vfs_env_upD [OF assms(2)] world_up_def)
qed

lemma vfs_put_ok:
  assumes "resource_laws R" "vfs_env_up C" "world_up C R nconn w" "data \<noteq> []"
  shows "channel_put (ve_pm C) R (vw_pm w) (vw_client w) data = Some (Inr (int (length data)))"
  using channel_put_ok [OF assms(1) vfs_env_upD(4) [OF assms(2)] _ assms(4)] assms(3) by (simp add: world_up_def)

lemma vfs_call_ok:
  assumes "resource_laws R" "vfs_env_up C" "world_up C R nconn w" "wants_reply msg" "vfs_reaches C R w msg"
  obtains r srv where "vfs_call C R nconn w data msg = Some (r, w\<lparr>vw_server := srv\<rparr>)" "world_up C R nconn (w\<lparr>vw_server := srv\<rparr>)"
    "vfs_spec nconn (vfs_proc (vw_server w) msg) (vr_op msg) (view nconn (vw_server w)) (Some r) (view nconn srv)"
proof -
  have w: "vw_alive w" "vfs_server_inv R nconn (vw_server w)" "ch_initialized (vw_client w)" "connected (ve_pm C) R (vw_pm w) (vw_client w)"
    using assms(3) by (simp_all add: world_up_def)
  obtain rep srv sd where s: "vfs_step (ve_mailbox C) (ve_portal C data) R nconn (vw_server w) msg = Some (rep, srv, sd)"
    "vfs_refines R nconn msg (vw_server w) rep srv"
    by (rule vfs_step_refines [OF assms(1) w(2) vfs_env_upD(1,2) [OF assms(2)]])
  have sp: "vfs_spec nconn (vfs_proc (vw_server w) msg) (vr_op msg) (view nconn (vw_server w)) rep (view nconn srv)" "vfs_server_inv R nconn srv"
    using s(2) by (simp_all add: vfs_refines_def)
  from vfs_spec_reply [OF sp(1)] assms(4) obtain r where r: "rep = Some r" by (cases rep) (auto simp: wants_reply_def)
  from vfs_call_step [OF assms(1-3) s(1) [unfolded r] assms(5)] sp w that r show thesis by (auto simp: world_up_def)
qed

lemma wants_reply_request: "wants_reply (vfs_request C p op) \<longleftrightarrow> op \<noteq> VFS_EXIT \<and> (\<forall>x. op \<noteq> VFS_OTHER x)"
  by (cases op) (auto simp: wants_reply_def)

lemma reply_sel [simp]:
  "vp_count (ret_count (Inr n)) = Some n" "vp_status (ret_count r) = (case r of Inl e \<Rightarrow> Inl e | Inr _ \<Rightarrow> Inr 0)" "vp_fd (ret_fd (Inr n)) = Some n"
  "vp_status (ret_fd r) = (case r of Inl e \<Rightarrow> Inl e | Inr _ \<Rightarrow> Inr 0)" "vp_offset (ret_offset (Inr n)) = Some n" "vp_status (ret_offset r) = (case r of Inl e \<Rightarrow> Inl e | Inr _ \<Rightarrow> Inr 0)"
  by (simp_all add: ret_count_def ret_fd_def ret_offset_def vfs_ret_def split: sum.split)

lemma read_block_ok:
  assumes "resource_laws R" "vfs_env_up C" "world_up C R nconn w" "n \<le> NANVIX_FS_BLOCK_SIZE"
  shows "\<exists>r data w'. do_nanvix_vfs_read C R nconn w fd n = Some (r, data, w') \<and> world_up C R nconn w' \<and> length data = n"
proof (cases "n = 0")
  case True
  with assms(3) show ?thesis by (simp add: do_nanvix_vfs_read_def)
next
  case False
  have t: "transfer_ok n" using False assms(4) by (simp add: transfer_ok_def)
  let ?m = "vfs_request C (ve_inportal_port C) (VFS_READ fd n)"
  have "wants_reply ?m" "vfs_reaches C R w ?m" by (simp_all add: wants_reply_request)
  then obtain r srv where c: "vfs_call C R nconn w [] ?m = Some (r, w\<lparr>vw_server := srv\<rparr>)" "world_up C R nconn (w\<lparr>vw_server := srv\<rparr>)"
    "vfs_spec nconn (vfs_proc (vw_server w) ?m) (vr_op ?m) (view nconn (vw_server w)) (Some r) (view nconn srv)"
    by (rule vfs_call_ok [OF assms(1-3)])
  from c(3) t obtain x data where "r = (ret_count x)\<lparr>vp_data := Some data\<rparr>" "length data = n" by (auto simp: vfs_spec_def)
  with c(1,2) False show ?thesis by (cases x) (auto simp: do_nanvix_vfs_read_def vfs_env_upD [OF assms(2)])
qed

lemma write_block_ok:
  assumes "resource_laws R" "vfs_env_up C" "world_up C R nconn w" "length data \<le> NANVIX_FS_BLOCK_SIZE"
  shows "\<exists>r w'. do_nanvix_vfs_write C R nconn w fd data = Some (r, w') \<and> world_up C R nconn w'"
proof (cases "data = []")
  case True
  with assms(3) show ?thesis by (simp add: do_nanvix_vfs_write_def)
next
  case False
  have t: "transfer_ok (length data)" using False assms(4) by (simp add: transfer_ok_def)
  let ?m = "vfs_request C (channel_port (ve_pm C) R (vw_pm w) (vw_client w)) (VFS_WRITE fd (length data))"
  have "wants_reply ?m" "vfs_reaches C R w ?m" by (simp_all add: wants_reply_request)
  then obtain r srv where c: "vfs_call C R nconn w data ?m = Some (r, w\<lparr>vw_server := srv\<rparr>)" "world_up C R nconn (w\<lparr>vw_server := srv\<rparr>)"
    "vfs_spec nconn (vfs_proc (vw_server w) ?m) (vr_op ?m) (view nconn (vw_server w)) (Some r) (view nconn srv)"
    by (rule vfs_call_ok [OF assms(1-3)])
  from c(3) t obtain x where "r = ret_count x" by (auto simp: vfs_spec_def)
  with c(1,2) False show ?thesis by (cases x) (auto simp: do_nanvix_vfs_write_def vfs_put_ok [OF assms(1-3) False] conn_code_def Let_def)
qed

lemma read_blocks_ok:
  assumes "resource_laws R" "vfs_env_up C" "world_up C R nconn w"
  shows "\<exists>r data w'. read_blocks C R nconn w fd n = Some (r, data, w') \<and> world_up C R nconn w' \<and> length data \<le> n"
  using assms(3)
proof (induction n arbitrary: w rule: less_induct)
  case (less n)
  show ?case
  proof (cases "n = 0")
    case True
    with less.prems show ?thesis by (simp add: read_blocks.simps)
  next
    case False
    define count where "count = (if n < NANVIX_FS_BLOCK_SIZE then n else NANVIX_FS_BLOCK_SIZE)"
    have c: "count \<le> NANVIX_FS_BLOCK_SIZE" "count \<le> n" "n - count < n" using False by (auto simp: count_def NANVIX_FS_BLOCK_SIZE_def)
    obtain r data w1 where b: "do_nanvix_vfs_read C R nconn w fd count = Some (r, data, w1)" "world_up C R nconn w1" "length data = count"
      using read_block_ok [OF assms(1,2) less.prems c(1)] by blast
    obtain r2 more w2 where m: "read_blocks C R nconn w1 fd (n - count) = Some (r2, more, w2)" "world_up C R nconn w2" "length more \<le> n - count"
      using less.IH [OF c(3) b(2)] by blast
    show ?thesis using False b m c(2)
      by (subst read_blocks.simps) (cases r; simp add: Let_def flip: count_def)
  qed
qed

lemma write_blocks_ok:
  assumes "resource_laws R" "vfs_env_up C" "world_up C R nconn w"
  shows "\<exists>r w'. write_blocks C R nconn w fd buf = Some (r, w') \<and> world_up C R nconn w'"
  using assms(3)
proof (induction "length buf" arbitrary: buf w rule: less_induct)
  case less
  show ?case
  proof (cases "buf = []")
    case True
    with less.prems show ?thesis by (simp add: write_blocks.simps)
  next
    case False
    define count where "count = (if length buf < NANVIX_FS_BLOCK_SIZE then length buf else NANVIX_FS_BLOCK_SIZE)"
    have c: "length (take count buf) \<le> NANVIX_FS_BLOCK_SIZE" "length (drop count buf) < length buf"
      using False by (auto simp: count_def NANVIX_FS_BLOCK_SIZE_def)
    obtain r w1 where b: "do_nanvix_vfs_write C R nconn w fd (take count buf) = Some (r, w1)" "world_up C R nconn w1"
      using write_block_ok [OF assms(1,2) less.prems c(1)] by blast
    obtain r2 w2 where m: "write_blocks C R nconn w1 fd (drop count buf) = Some (r2, w2)" "world_up C R nconn w2"
      using less.hyps [OF c(2) b(2)] by blast
    show ?thesis using False b m
      by (subst write_blocks.simps) (cases r; simp add: Let_def flip: count_def)
  qed
qed

section \<open>Whole transfers\<close>

text \<open>The process and the position of a descriptor, as the server sees this client.\<close>

definition client_proc :: "vfs_env \<Rightarrow> 'r vfs_world \<Rightarrow> int" where
  "client_proc C w = lookup_int (vs_conns (vw_server w)) (take_bit 16 (ve_node C)) (take_bit 8 (ve_inbox_port C))"

definition opened_disk :: "vfs_env \<Rightarrow> nat \<Rightarrow> 'r vfs_world \<Rightarrow> int \<Rightarrow> bool" where
  "opened_disk C nconn w fd \<longleftrightarrow> disk_fd nconn (vs_vfs (vw_server w)) (client_proc C w) fd"

definition client_pos :: "vfs_env \<Rightarrow> nat \<Rightarrow> 'r vfs_world \<Rightarrow> int \<Rightarrow> int" where
  "client_pos C nconn w fd = fd_pos nconn (vs_vfs (vw_server w)) (client_proc C w) fd"

abbreviation world_disk :: "'r vfs_world \<Rightarrow> disks" where
  "world_disk w \<equiv> v_disk (vs_vfs (vw_server w))"

lemma write_block_disk:
  assumes R: "resource_laws R" and "vfs_env_up C" "world_up C R nconn w" "opened_disk C nconn w fd" "data \<noteq> []" "length data \<le> NANVIX_FS_BLOCK_SIZE"
    and "client_pos C nconn w fd + int (length data) \<le> int NANVIX_RAMDISK_SIZE"
  obtains w' where "do_nanvix_vfs_write C R nconn w fd data = Some (Inr (int (length data)), w')" "world_up C R nconn w'" "opened_disk C nconn w' fd"
    "client_pos C nconn w' fd = client_pos C nconn w fd + int (length data)"
    "world_disk w' = disk_put (world_disk w) (nat (client_pos C nconn w fd)) data" "0 \<le> client_pos C nconn w fd"
    "take (length data) (vs_buffer (vw_server w')) = data"
proof -
  let ?st = "vw_server w" and ?n = "length data"
  let ?m = "vfs_request C (channel_port (ve_pm C) R (vw_pm w) (vw_client w)) (VFS_WRITE fd ?n)"
  have inv: "vfs_server_inv R nconn ?st" using assms(3) by (simp add: world_up_def)
  have t: "transfer_ok ?n" using assms(5,6) by (simp add: transfer_ok_def)
  have c: "client_proc C w = lookup_int (vs_conns ?st) (vr_source ?m) (vr_mailbox_port ?m)" by (simp add: client_proc_def)
  have d: "disk_fd nconn (vs_vfs ?st) (client_proc C w) fd" using assms(4) by (simp add: opened_disk_def)
  have k: "data = kportal_read (ve_portal C data) (vs_inportal ?st) ?n" by (simp add: vfs_env_upD(3) [OF assms(2)])
  have op: "vr_op ?m = VFS_WRITE fd ?n" by simp
  obtain v where v: "vfs_step (ve_mailbox C) (ve_portal C data) R nconn ?st ?m = Some (Some ((vfs_ret (Inr 0))\<lparr>vp_count := Some (int ?n)\<rparr>),
      ?st\<lparr>vs_vfs := v, vs_buffer := data @ drop ?n (vs_buffer ?st)\<rparr>, False)"
    "vfs_inv R nconn v" "disk_fd nconn v (client_proc C w) fd" "v_disk v = disk_put (world_disk w) (nat (client_pos C nconn w fd)) data"
    "fd_pos nconn v (client_proc C w) fd = client_pos C nconn w fd + int ?n" "length data = ?n" "0 \<le> client_pos C nconn w fd"
    by (rule vfs_write_block [OF inv vfs_env_upD(1,2) [OF assms(2)] op t c d client_pos_def assms(7) k]) (rule that; assumption)
  let ?w = "w\<lparr>vw_server := ?st\<lparr>vs_vfs := v, vs_buffer := data @ drop ?n (vs_buffer ?st)\<rparr>\<rparr>"
  have eq: "client_proc C ?w = client_proc C w" by (simp add: client_proc_def)
  have "do_nanvix_vfs_write C R nconn w fd data = Some (Inr (int ?n), ?w)"
    using vfs_call_step [OF assms(1-3) v(1)] vfs_request_reaches assms(5) vfs_put_ok [OF assms(1-3,5)] by (simp add: do_nanvix_vfs_write_def Let_def conn_code_def vfs_ret_def)
  moreover have "world_up C R nconn ?w" using assms(3,6) v(2) by (simp add: world_up_def vfs_server_inv_def)
  moreover have "opened_disk C nconn ?w fd" using v(3) by (simp add: opened_disk_def eq)
  moreover have "client_pos C nconn ?w fd = client_pos C nconn w fd + int ?n" using v(5) by (simp add: client_pos_def eq)
  moreover have "world_disk ?w = disk_put (world_disk w) (nat (client_pos C nconn w fd)) data" using v(4) by simp
  moreover have "take ?n (vs_buffer (vw_server ?w)) = data" by simp
  ultimately show thesis using that [of ?w] v(7) by blast
qed

lemma read_block_disk:
  assumes R: "resource_laws R" and "vfs_env_up C" "world_up C R nconn w" "opened_disk C nconn w fd" "n \<noteq> 0" "n \<le> NANVIX_FS_BLOCK_SIZE"
    and "client_pos C nconn w fd + int n \<le> int NANVIX_RAMDISK_SIZE"
  obtains w' where "do_nanvix_vfs_read C R nconn w fd n = Some (Inr (int n), take n (vs_buffer (vw_server w)), w')" "world_up C R nconn w'"
    "opened_disk C nconn w' fd" "client_pos C nconn w' fd = client_pos C nconn w fd + int n" "world_disk w' = world_disk w"
    "vs_buffer (vw_server w') = disk_get (world_disk w) (nat (client_pos C nconn w fd)) n @ drop n (vs_buffer (vw_server w))"
    "0 \<le> client_pos C nconn w fd" "length (vs_buffer (vw_server w)) = NANVIX_FS_BLOCK_SIZE"
proof -
  let ?st = "vw_server w" and ?m = "vfs_request C (ve_inportal_port C) (VFS_READ fd n)"
  let ?d = "disk_get (world_disk w) (nat (client_pos C nconn w fd)) n"
  have inv: "vfs_server_inv R nconn ?st" using assms(3) by (simp add: world_up_def)
  have t: "transfer_ok n" using assms(5,6) by (simp add: transfer_ok_def)
  have c: "client_proc C w = lookup_int (vs_conns ?st) (vr_source ?m) (vr_mailbox_port ?m)" by (simp add: client_proc_def)
  have d: "disk_fd nconn (vs_vfs ?st) (client_proc C w) fd" using assms(4) by (simp add: opened_disk_def)
  have op: "vr_op ?m = VFS_READ fd n" by simp
  obtain v where v: "vfs_step (ve_mailbox C) (ve_portal C []) R nconn ?st ?m =
      Some (Some ((vfs_ret (Inr 0))\<lparr>vp_count := Some (int n), vp_data := Some (take n (vs_buffer ?st))\<rparr>),
        ?st\<lparr>vs_vfs := v, vs_buffer := ?d @ drop n (vs_buffer ?st)\<rparr>, False)"
    "vfs_inv R nconn v" "disk_fd nconn v (client_proc C w) fd" "v_disk v = world_disk w"
    "fd_pos nconn v (client_proc C w) fd = client_pos C nconn w fd + int n" "length ?d = n" "0 \<le> client_pos C nconn w fd"
    by (rule vfs_read_block [OF inv vfs_env_upD(1,2) [OF assms(2)] op t c d client_pos_def assms(7) refl]) (rule that; assumption)
  let ?w = "w\<lparr>vw_server := ?st\<lparr>vs_vfs := v, vs_buffer := ?d @ drop n (vs_buffer ?st)\<rparr>\<rparr>"
  have eq: "client_proc C ?w = client_proc C w" by (simp add: client_proc_def)
  have "do_nanvix_vfs_read C R nconn w fd n = Some (Inr (int n), take n (vs_buffer ?st), ?w)"
    using vfs_call_step [OF assms(1-3) v(1)] vfs_request_reaches assms(5) by (simp add: do_nanvix_vfs_read_def vfs_env_upD [OF assms(2)] vfs_ret_def)
  moreover have "world_up C R nconn ?w" using assms(3,6) v(2,6) by (simp add: world_up_def vfs_server_inv_def)
  moreover have "opened_disk C nconn ?w fd" using v(3) by (simp add: opened_disk_def eq)
  moreover have "client_pos C nconn ?w fd = client_pos C nconn w fd + int n"
    using v(5) by (subst client_pos_def, subst eq) simp
  moreover have "world_disk ?w = world_disk w" using v(4) by simp
  moreover have "length (vs_buffer ?st) = NANVIX_FS_BLOCK_SIZE" using inv by (simp add: vfs_server_inv_def)
  ultimately show thesis using that [of ?w] v(7) by simp
qed

lemma world_disks_ok: "world_up C R nconn w \<Longrightarrow> disks_ok (world_disk w)"
  by (auto simp: world_up_def vfs_server_inv_def elim!: vfs_invE dest!: mountedD(9) dir_structD(3))

lemma opened_disk_pos:
  assumes "world_up C R nconn w" "opened_disk C nconn w fd"
  shows "0 \<le> client_pos C nconn w fd" "fd_within fd"
proof -
  have "vfs_inv R nconn (vs_vfs (vw_server w))" "disk_fd nconn (vs_vfs (vw_server w)) (client_proc C w) fd"
    using assms by (simp_all add: world_up_def vfs_server_inv_def opened_disk_def)
  then show "0 \<le> client_pos C nconn w fd" by (rule disk_fdE) (simp add: client_pos_def)
  show "fd_within fd" using assms(2) by (simp add: opened_disk_def disk_fd_def)
qed

lemma disk_put_Nil: "disks_ok ds \<Longrightarrow> disk_put ds p [] = ds"
  by (simp add: disk_put_def)

lemma disk_put_append:
  assumes "disks_ok ds" "p + length a + length b \<le> NANVIX_RAMDISK_SIZE"
  shows "disk_put (disk_put ds p a) (p + length a) b = disk_put ds p (a @ b)"
proof -
  have l: "length (ds ! 0) = NANVIX_RAMDISK_SIZE" "0 < length ds" using assms(1) by (auto simp: disks_ok_def disk_consts)
  then have "p \<le> length (ds ! 0)" using assms(2) by linarith
  then show ?thesis using l(2) by (simp add: disk_put_def ac_simps)
qed

lemma disk_get_append: "disk_get ds p n @ disk_get ds (p + n) k = disk_get ds p (n + k)"
  by (simp add: disk_get_def take_add drop_drop add.commute [of p n])

lemma write_blocks_disk:
  assumes R: "resource_laws R" and "vfs_env_up C" "world_up C R nconn w" "opened_disk C nconn w fd" "client_pos C nconn w fd + int (length buf) \<le> int NANVIX_RAMDISK_SIZE"
    "0 \<le> client_pos C nconn w fd"
  shows "\<exists>w'. write_blocks C R nconn w fd buf = Some (Inr (), w') \<and> world_up C R nconn w' \<and> opened_disk C nconn w' fd \<and>
    client_pos C nconn w' fd = client_pos C nconn w fd + int (length buf) \<and> world_disk w' = disk_put (world_disk w) (nat (client_pos C nconn w fd)) buf \<and>
    (buf \<noteq> [] \<longrightarrow> length buf \<le> NANVIX_FS_BLOCK_SIZE \<longrightarrow> take (length buf) (vs_buffer (vw_server w')) = buf)"
  using assms(3-)
proof (induction "length buf" arbitrary: buf w rule: less_induct)
  case less
  show ?case
  proof (cases "buf = []")
    case True
    with less.prems show ?thesis by (simp add: write_blocks.simps disk_put_Nil [OF world_disks_ok])
  next
    case False
    let ?p = "client_pos C nconn w fd"
    define count where "count = (if length buf < NANVIX_FS_BLOCK_SIZE then length buf else NANVIX_FS_BLOCK_SIZE)"
    define a where "a = take count buf"
    define b where "b = drop count buf"
    have buf: "buf = a @ b" by (simp add: a_def b_def)
    have a: "a \<noteq> []" "length a \<le> NANVIX_FS_BLOCK_SIZE" "length b < length buf"
      using False by (auto simp: a_def b_def count_def NANVIX_FS_BLOCK_SIZE_def)
    have fit: "?p + int (length a) + int (length b) \<le> int NANVIX_RAMDISK_SIZE" using less.prems(3) by (simp add: buf add.assoc)
    then have "?p + int (length a) \<le> int NANVIX_RAMDISK_SIZE" by linarith
    from write_block_disk [OF assms(1,2) less.prems(1,2) a(1,2) this] obtain w1 where
      w1: "do_nanvix_vfs_write C R nconn w fd a = Some (Inr (int (length a)), w1)" "world_up C R nconn w1" "opened_disk C nconn w1 fd"
      "client_pos C nconn w1 fd = ?p + int (length a)" "world_disk w1 = disk_put (world_disk w) (nat ?p) a" "take (length a) (vs_buffer (vw_server w1)) = a"
      by blast
    obtain w2 where w2: "write_blocks C R nconn w1 fd b = Some (Inr (), w2)" "world_up C R nconn w2" "opened_disk C nconn w2 fd"
      "client_pos C nconn w2 fd = client_pos C nconn w1 fd + int (length b)" "world_disk w2 = disk_put (world_disk w1) (nat (client_pos C nconn w1 fd)) b"
      using less.hyps [OF a(3) w1(2,3)] fit less.prems(4) w1(4) by auto
    have eq: "write_blocks C R nconn w fd buf = write_blocks C R nconn w1 fd b"
      using False w1(1) by (subst write_blocks.simps) (simp add: Let_def flip: count_def a_def b_def)
    have n: "nat (?p + int (length a)) = nat ?p + length a" using less.prems(4) by simp
    have "nat ?p + length a + length b \<le> NANVIX_RAMDISK_SIZE" using fit less.prems(4) by linarith
    then have d: "world_disk w2 = disk_put (world_disk w) (nat ?p) buf"
      using disk_put_append [OF world_disks_ok [OF less.prems(1)]] by (simp add: w2(5) w1(4,5) n buf)
    have "take (length buf) (vs_buffer (vw_server w2)) = buf" if "length buf \<le> NANVIX_FS_BLOCK_SIZE"
    proof -
      have "b = []" using that by (auto simp: b_def count_def)
      then show ?thesis using w2(1) w1(6) by (simp add: buf write_blocks.simps)
    qed
    then show ?thesis using eq w2 w1(4) d by (simp add: buf)
  qed
qed

lemma read_blocks_disk:
  assumes R: "resource_laws R" and "vfs_env_up C" "world_up C R nconn w" "opened_disk C nconn w fd" "client_pos C nconn w fd + int n \<le> int NANVIX_RAMDISK_SIZE"
    "0 \<le> client_pos C nconn w fd"
  shows "\<exists>w'. read_blocks C R nconn w fd n = Some (Inr (), take n (vs_buffer (vw_server w) @ disk_get (world_disk w) (nat (client_pos C nconn w fd)) n), w') \<and>
    world_up C R nconn w' \<and> opened_disk C nconn w' fd \<and> client_pos C nconn w' fd = client_pos C nconn w fd + int n \<and> world_disk w' = world_disk w"
  using assms(3-)
proof (induction n arbitrary: w rule: less_induct)
  case (less n)
  let ?p = "client_pos C nconn w fd" and ?B = "vs_buffer (vw_server w)"
  show ?case
  proof (cases "n = 0")
    case True
    with less.prems show ?thesis by (simp add: read_blocks.simps)
  next
    case False
    define count where "count = (if n < NANVIX_FS_BLOCK_SIZE then n else NANVIX_FS_BLOCK_SIZE)"
    have c: "count \<noteq> 0" "count \<le> NANVIX_FS_BLOCK_SIZE" "n - count < n" "count \<le> n" using False by (auto simp: count_def NANVIX_FS_BLOCK_SIZE_def)
    have fit: "?p + int count \<le> int NANVIX_RAMDISK_SIZE" "?p + int count + int (n - count) \<le> int NANVIX_RAMDISK_SIZE"
      using less.prems(3) c(4) by linarith+
    from read_block_disk [OF assms(1,2) less.prems(1,2) c(1,2) fit(1)] obtain w1 where
      w1: "do_nanvix_vfs_read C R nconn w fd count = Some (Inr (int count), take count ?B, w1)" "world_up C R nconn w1" "opened_disk C nconn w1 fd"
      "client_pos C nconn w1 fd = ?p + int count" "world_disk w1 = world_disk w"
      "vs_buffer (vw_server w1) = disk_get (world_disk w) (nat ?p) count @ drop count ?B" "length ?B = NANVIX_FS_BLOCK_SIZE" by blast
    let ?more = "take (n - count) (vs_buffer (vw_server w1) @ disk_get (world_disk w1) (nat (client_pos C nconn w1 fd)) (n - count))"
    obtain w2 where w2: "read_blocks C R nconn w1 fd (n - count) = Some (Inr (), ?more, w2)"
      "world_up C R nconn w2" "opened_disk C nconn w2 fd" "client_pos C nconn w2 fd = client_pos C nconn w1 fd + int (n - count)" "world_disk w2 = world_disk w1"
      using less.IH [OF c(3) w1(2,3)] fit(2) less.prems(4) w1(4) by auto
    have nn: "nat (?p + int count) = nat ?p + count" using less.prems(4) by simp
    have more: "take count ?B @ ?more = take n (?B @ disk_get (world_disk w) (nat ?p) n)"
    proof (cases "n < NANVIX_FS_BLOCK_SIZE")
      case True
      then show ?thesis using w1(7) by (simp add: count_def)
    next
      case False
      then have cb: "count = NANVIX_FS_BLOCK_SIZE" by (simp add: count_def)
      have "vs_buffer (vw_server w1) @ disk_get (world_disk w1) (nat (client_pos C nconn w1 fd)) (n - count) = disk_get (world_disk w) (nat ?p) n"
        using c(4) w1(7) by (simp only: w1(4-6) nn) (simp add: disk_get_append cb [symmetric])
      then have "?more = take (n - count) (disk_get (world_disk w) (nat ?p) n)" by (simp only:)
      then show ?thesis using w1(7) cb c(4) by simp
    qed
    have "read_blocks C R nconn w fd n = Some (Inr (), take count ?B @ ?more, w2)"
      using False w1(1) w2(1) by (subst read_blocks.simps) (simp add: Let_def flip: count_def)
    then have "read_blocks C R nconn w fd n = Some (Inr (), take n (?B @ disk_get (world_disk w) (nat ?p) n), w2)" by (simp only: more)
    then show ?thesis using w2 w1(4,5) c(4) by simp
  qed
qed

section \<open>Properties\<close>

text \<open>
  C16. Every call of the file system client returns. With a kernel whose transfers succeed and a server in a state that satisfies its invariant, an open, a close, a
  seek, a read and a write return whatever their arguments are: no assertion fails on either side and the call gets its reply. The client stays
  initialized and the server keeps its invariant.
\<close>

theorem nanvix_vfs_calls_safe:
  assumes "resource_laws R" "vfs_env_up C" "world_up C R nconn w" "\<forall>b. buf = Some b \<longrightarrow> n \<le> length b"
  shows "(\<exists>r w'. nanvix_vfs_open C R nconn w filename oflag = Some (r, w') \<and> world_up C R nconn w') \<and>
    (\<exists>r w'. nanvix_vfs_close C R nconn w fd = Some (r, w') \<and> world_up C R nconn w') \<and>
    (\<exists>r w'. nanvix_vfs_seek C R nconn w fd offset whence = Some (r, w') \<and> world_up C R nconn w') \<and>
    (\<exists>r data w'. nanvix_vfs_read C R nconn w fd null n = Some (r, data, w') \<and> world_up C R nconn w' \<and> length data \<le> n) \<and>
    (\<exists>r w'. nanvix_vfs_write C R nconn w fd buf n = Some (r, w') \<and> world_up C R nconn w')"
proof (intro conjI)
  note call = vfs_call_ok [OF assms(1-3), where data = "[]"]
  show "\<exists>r w'. nanvix_vfs_open C R nconn w filename oflag = Some (r, w') \<and> world_up C R nconn w'"
  proof -
    have "\<exists>r w'. do_nanvix_vfs_open C R nconn w name oflag = Some (r, w') \<and> world_up C R nconn w'" for name
      by (rule call [of "vfs_request C (ve_inportal_port C) (VFS_OPEN (ustrncpy NANVIX_NAME_MAX name) oflag)"])
        (auto simp: wants_reply_request do_nanvix_vfs_open_def vfs_spec_def split: sum.splits)
    then show ?thesis using assms(3) by (auto simp: nanvix_vfs_open_def split: option.split)
  qed
  show "\<exists>r w'. nanvix_vfs_close C R nconn w fd = Some (r, w') \<and> world_up C R nconn w'"
  proof -
    have "\<exists>r w'. do_nanvix_vfs_close C R nconn w fd = Some (r, w') \<and> world_up C R nconn w'"
      by (rule call [of "vfs_request C (ve_inportal_port C) (VFS_CLOSE fd)"]) (auto simp: wants_reply_request do_nanvix_vfs_close_def)
    then show ?thesis using assms(3) by (auto simp: nanvix_vfs_close_def)
  qed
  show "\<exists>r w'. nanvix_vfs_seek C R nconn w fd offset whence = Some (r, w') \<and> world_up C R nconn w'"
  proof -
    have "\<exists>r w'. do_nanvix_vfs_seek C R nconn w fd offset whence = Some (r, w') \<and> world_up C R nconn w'"
      by (rule call [of "vfs_request C (ve_inportal_port C) (VFS_SEEK fd offset whence)"])
        (auto simp: wants_reply_request do_nanvix_vfs_seek_def vfs_spec_def split: sum.splits)
    then show ?thesis using assms(3) by (auto simp: nanvix_vfs_seek_def)
  qed
  show "\<exists>r data w'. nanvix_vfs_read C R nconn w fd null n = Some (r, data, w') \<and> world_up C R nconn w' \<and> length data \<le> n"
    using assms(3) read_blocks_ok [OF assms(1-3), of fd n] by (auto simp: nanvix_vfs_read_def)
  show "\<exists>r w'. nanvix_vfs_write C R nconn w fd buf n = Some (r, w') \<and> world_up C R nconn w'"
  proof (cases buf)
    case (Some b)
    obtain r w' where "write_blocks C R nconn w fd (take n b) = Some (r, w')" "world_up C R nconn w'" using write_blocks_ok [OF assms(1-3)] by blast
    with Some assms(3,4) show ?thesis by (auto simp: nanvix_vfs_write_def)
  qed (use assms(3) in \<open>auto simp: nanvix_vfs_write_def\<close>)
qed

text \<open>The environment of the witnesses: node 3 with an ideal kernel, portals that carry the bytes sent, and a server that linked its name.\<close>

definition vfs_env_ideal :: vfs_env where
  "vfs_env_ideal = \<lparr>ve_pm = pm_env_client, ve_port = 3, ve_bytes = (\<lambda>_. replicate 64 0), ve_mailbox = kmailbox_ideal,
     ve_portal = (\<lambda>d. kportal_ideal (\<lambda>n. take n (d @ replicate n 0))), ve_mread_ok = True, ve_pallow_ok = True, ve_pread_ok = True\<rparr>"

definition world_boot :: "flags vfs_srv \<Rightarrow> flags vfs_world" where
  "world_boot srv = \<lparr>vw_client = \<lparr>ch_initialized = False, ch_outbox = -1, ch_outportal = -1\<rparr>,
     vw_pm = pm_static plain_resource 8 8 (name_world_linked VFS_SERVER_NAME), vw_server = srv, vw_alive = True\<rparr>"

definition world_opened :: "flags vfs_world" where
  "world_opened = snd (the (nanvix_vfs_setup vfs_env_ideal plain_resource (world_boot vfs_server_opened)))"

lemma vfs_env_ideal_up: "vfs_env_up vfs_env_ideal"
proof -
  have "portals_up (kportal_ideal (\<lambda>n. take n (d @ replicate n 0)))" for d by (auto simp: portals_up_def kportal_ideal_def)
  then show ?thesis by (auto simp: vfs_env_up_def vfs_env_ideal_def kmailbox_ideal_up kportal_ideal_def pm_env_client_up)
qed

lemma world_boot_setup:
  assumes "vfs_server_inv plain_resource 8 srv"
  obtains w where "nanvix_vfs_setup vfs_env_ideal plain_resource (world_boot srv) = Some (Inr 0, w)" "vw_server w = srv" "world_up vfs_env_ideal plain_resource 8 w"
proof -
  have n: "name_ok VFS_SERVER_NAME" "VFS_SERVER_NAME \<noteq> ''/io0''" by (simp_all add: VFS_SERVER_NAME_def name_ok_vfs)
  obtain ch st where c: "channel_open pm_env_client plain_resource (pm_static plain_resource 8 8 (name_world_linked VFS_SERVER_NAME))
      \<lparr>ch_initialized = False, ch_outbox = -1, ch_outportal = -1\<rparr> VFS_SERVER_NAME 3 = Some (Inr 0, ch, st)"
    "connected pm_env_client plain_resource st (ch\<lparr>ch_initialized := True\<rparr>)"
    by (rule channel_boot [OF n, of 3]) (simp, rule that, assumption+)
  let ?w = "(world_boot srv)\<lparr>vw_client := ch\<lparr>ch_initialized := True\<rparr>, vw_pm := st\<rparr>"
  have e: "ve_pm vfs_env_ideal = pm_env_client" "ve_port vfs_env_ideal = 3" by (simp_all add: vfs_env_ideal_def)
  have "nanvix_vfs_setup vfs_env_ideal plain_resource (world_boot srv) = Some (Inr 0, ?w)" using c(1) by (simp add: nanvix_vfs_setup_def world_boot_def e)
  moreover have "world_up vfs_env_ideal plain_resource 8 ?w" using c(2) assms by (simp add: world_up_def world_boot_def e)
  ultimately show thesis using that [of ?w] by (simp add: world_boot_def)
qed

lemma world_opened_ok:
  "world_up vfs_env_ideal plain_resource 8 world_opened" "client_proc vfs_env_ideal world_opened = 0" "opened_disk vfs_env_ideal 8 world_opened 0"
  "client_pos vfs_env_ideal 8 world_opened 0 = 0" "vw_server world_opened = vfs_server_opened"
proof -
  obtain w where w: "nanvix_vfs_setup vfs_env_ideal plain_resource (world_boot vfs_server_opened) = Some (Inr 0, w)" "vw_server w = vfs_server_opened"
    "world_up vfs_env_ideal plain_resource 8 w"
    by (rule world_boot_setup [OF vfs_server_opened_ok(2)])
  then have eq: "world_opened = w" by (simp add: world_opened_def)
  show "world_up vfs_env_ideal plain_resource 8 world_opened" "vw_server world_opened = vfs_server_opened" using w by (simp_all add: eq)
  show c: "client_proc vfs_env_ideal world_opened = 0" using vfs_server_opened_ok(3) by (simp add: client_proc_def eq w(2) vfs_env_ideal_def pm_env_client_def)
  show "opened_disk vfs_env_ideal 8 world_opened 0" "client_pos vfs_env_ideal 8 world_opened 0 = 0"
    using vfs_server_opened_ok(4,5) by (simp_all add: opened_disk_def client_pos_def c) (simp_all add: eq w(2))
qed

theorem nanvix_vfs_calls_safe_witness:
  "(\<exists>r w'. nanvix_vfs_open vfs_env_ideal plain_resource 8 world_opened (Some ''disk'') O_RDWR = Some (r, w') \<and> world_up vfs_env_ideal plain_resource 8 w') \<and>
   (\<exists>r w'. nanvix_vfs_write vfs_env_ideal plain_resource 8 world_opened 0 (Some (replicate 3000 7)) 2000 = Some (r, w') \<and> world_up vfs_env_ideal plain_resource 8 w')"
  using nanvix_vfs_calls_safe [OF plain_resource_laws vfs_env_ideal_up world_opened_ok(1), of "Some (replicate 3000 7)" 2000 "Some ''disk''" O_RDWR 0]
  by simp

text \<open>
  C17. A write that fits on the disk reaches it. Through a descriptor of the disk device that the client opened, a write of any length whose range
  from the position of the descriptor on ends within the disk stores exactly
  the caller's bytes at the position of the descriptor, whatever the number of blocks it is cut into, advances the position by their number and
  returns it; everything else on the disk is unchanged.
\<close>

theorem nanvix_vfs_write_correct:
  assumes "resource_laws R" "vfs_env_up C" "world_up C R nconn w" "opened_disk C nconn w fd" "pos = client_pos C nconn w fd"
    and "n \<le> length buf" "pos + int n \<le> int NANVIX_RAMDISK_SIZE"
  shows "\<exists>w'. nanvix_vfs_write C R nconn w fd (Some buf) n = Some (Inr (int n), w') \<and> world_disk w' = disk_put (world_disk w) (nat pos) (take n buf) \<and>
    client_pos C nconn w' fd = pos + int n \<and> opened_disk C nconn w' fd \<and> world_up C R nconn w'"
proof -
  have p: "0 \<le> pos" "fd_within fd" using opened_disk_pos [OF assms(3,4)] assms(5) by simp_all
  have n: "\<not> unat NANVIX_MAX_FILE_SIZE < n" using assms(7) p by (simp add: disk_consts NANVIX_MAX_FILE_SIZE_def)
  have l: "length (take n buf) = n" using assms(6) by simp
  obtain w' where "write_blocks C R nconn w fd (take n buf) = Some (Inr (), w')" "world_up C R nconn w'" "opened_disk C nconn w' fd"
    "client_pos C nconn w' fd = pos + int n" "world_disk w' = disk_put (world_disk w) (nat pos) (take n buf)"
    using write_blocks_disk [OF assms(1-4), of "take n buf"] assms(5,7) p l by auto
  moreover have "ch_initialized (vw_client w)" using assms(3) by (simp add: world_up_def)
  ultimately show ?thesis using n p assms(6) by (simp add: nanvix_vfs_write_def)
qed

theorem nanvix_vfs_write_correct_witness:
  "\<exists>w'. nanvix_vfs_write vfs_env_ideal plain_resource 8 world_opened 0 (Some (replicate 3000 7)) 2000 = Some (Inr 2000, w') \<and>
     world_disk w' = disk_put (world_disk world_opened) 0 (replicate 2000 7) \<and> client_pos vfs_env_ideal 8 w' 0 = 2000"
  using nanvix_vfs_write_correct [OF plain_resource_laws vfs_env_ideal_up world_opened_ok(1,3) world_opened_ok(4) [symmetric], of 2000 "replicate 3000 7"]
  by (auto simp: disk_consts)

text \<open>
  Reads are late by one block. The server sends its buffer before it fills it, so a read through the client returns the bytes that the last transfer of any
  client left in the server's buffer, followed by the file's bytes from the position on, cut at the count asked for: the file's own bytes arrive
  one buffer too late, and a read of at most one block returns none of them. The call reports success.
\<close>

theorem nanvix_vfs_read_delayed:
  assumes "resource_laws R" "vfs_env_up C" "world_up C R nconn w" "opened_disk C nconn w fd" "pos = client_pos C nconn w fd"
    and "pos + int n \<le> int NANVIX_RAMDISK_SIZE"
  shows "\<exists>w'. nanvix_vfs_read C R nconn w fd False n =
      Some (Inr (int n), take n (vs_buffer (vw_server w) @ disk_get (world_disk w) (nat pos) n), w') \<and>
    world_disk w' = world_disk w \<and> client_pos C nconn w' fd = pos + int n \<and> opened_disk C nconn w' fd \<and> world_up C R nconn w'"
proof -
  have p: "0 \<le> pos" "fd_within fd" using opened_disk_pos [OF assms(3,4)] assms(5) by simp_all
  have n: "\<not> unat NANVIX_MAX_FILE_SIZE < n" using assms(6) p by (simp add: disk_consts NANVIX_MAX_FILE_SIZE_def)
  obtain w' where "read_blocks C R nconn w fd n = Some (Inr (), take n (vs_buffer (vw_server w) @ disk_get (world_disk w) (nat pos) n), w')"
    "world_up C R nconn w'" "opened_disk C nconn w' fd" "client_pos C nconn w' fd = pos + int n" "world_disk w' = world_disk w"
    using read_blocks_disk [OF assms(1-4), of n] assms(5,6) p by auto
  moreover have "ch_initialized (vw_client w)" using assms(3) by (simp add: world_up_def)
  ultimately show ?thesis using n p by (simp add: nanvix_vfs_read_def)
qed

theorem nanvix_vfs_read_delayed_witness:
  "\<exists>data w'. nanvix_vfs_read vfs_env_ideal plain_resource 8 world_opened 0 False 100 = Some (Inr 100, data, w') \<and>
     data = take 100 (vs_buffer vfs_server_opened @ disk_get (world_disk world_opened) 0 100)"
  using nanvix_vfs_read_delayed [OF plain_resource_laws vfs_env_ideal_up world_opened_ok(1,3) world_opened_ok(4) [symmetric], of 100]
  by (auto simp: disk_consts world_opened_ok(5))

end
