(* ===== verification/Ipc.thy ===== *)
theory Ipc
  imports Refcount Slots Resource
begin

text \<open>
  What the System V servers share. The masks \<open>IPC_CREAT\<close>, \<open>IPC_EXCL\<close> and \<open>IPC_NOWAIT\<close> and the key
  \<open>IPC_PRIVATE\<close> belong to the C library's \<open>sys/ipc.h\<close>, which is not part of the repository. The
  sources read a flag word only by testing it against one mask at a time, so a flag word is the
  record of these tests; the private key is a parameter of the definitions that compare with it.
\<close>

record ipc_flags =
  IPC_CREAT :: bool
  IPC_EXCL :: bool
  IPC_NOWAIT :: bool
  SEM_UNDO :: bool

definition ipc_creat :: ipc_flags where
  "ipc_creat = \<lparr>IPC_CREAT = True, IPC_EXCL = False, IPC_NOWAIT = False, SEM_UNDO = False\<rparr>"

definition ipc_block :: ipc_flags where
  "ipc_block = \<lparr>IPC_CREAT = False, IPC_EXCL = False, IPC_NOWAIT = False, SEM_UNDO = False\<rparr>"

definition ipc_nowait :: ipc_flags where
  "ipc_nowait = \<lparr>IPC_CREAT = False, IPC_EXCL = False, IPC_NOWAIT = True, SEM_UNDO = False\<rparr>"

lemmas ipc_flag_defs = ipc_creat_def ipc_block_def ipc_nowait_def

end
