(* ===== verification/Sem.thy ===== *)
theory Sem
  imports Ipc
begin

text \<open>
  System V semaphores, \<open>src/sys/pm/sysv/sem/sem.c\<close>: the table of semaphores, the table of
  sleeping connections, and the operations the server calls. \<open>R\<close> is the resource interface,
  \<open>priv\<close> the key \<open>IPC_PRIVATE\<close>. The code does not guard the counter \<open>val\<close> of a semaphore against
  overflow of \<open>int\<close>, which a client reaches with some 65,540 operations, so its sums are taken at 32
  bits (\<^term>\<open>add_int\<close>). A reference count changes by one per request and is unbounded here.
\<close>

text \<open>The sum of two values of type \<open>int\<close>, wrapped around, and the range of that type.\<close>

definition add_int :: "int \<Rightarrow> int \<Rightarrow> int" where
  "add_int a b = signed_take_bit 31 (a + b)"

definition is_int :: "int \<Rightarrow> bool" where
  "is_int v \<longleftrightarrow> - (2 ^ 31) \<le> v \<and> v < 2 ^ 31"

lemma add_int_is_int [simp]: "is_int (add_int a b)"
  using signed_take_bit_int_greater_eq_minus_exp [of 31 "a + b"] signed_take_bit_int_less_exp [of 31 "a + b"]
  by (simp add: is_int_def add_int_def)

lemma add_int_exact: "is_int (a + b) \<Longrightarrow> add_int a b = a + b"
  by (simp add: is_int_def add_int_def signed_take_bit_int_eq_self)

lemma is_int_simps [simp]: "is_int 0" "is_int 1" "is_int (- 1)"
  by (simp_all add: is_int_def)

definition NANVIX_SEM_MAX :: nat where "NANVIX_SEM_MAX = 64"

record sleeper =
  sl_conn :: int
  sl_semid :: int
  sl_val :: int

record 'r sem =
  sem_resource :: 'r
  sem_owner :: int
  sem_key :: int
  sem_refcount :: int
  sem_mode :: int
  sem_val :: int

record 'r sem_state =
  semaphores :: "'r sem list"
  sleeping :: "sleeper list"

record sembuf =
  sem_op :: int
  sem_flg :: ipc_flags

definition semid_is_valid :: "int \<Rightarrow> bool" where
  "semid_is_valid x \<longleftrightarrow> 0 \<le> x \<and> x < int NANVIX_SEM_MAX"

definition sem_update :: "'r sem_state \<Rightarrow> nat \<Rightarrow> ('r sem \<Rightarrow> 'r sem) \<Rightarrow> 'r sem_state" where
  "sem_update st i f = st\<lparr>semaphores := (semaphores st)[i := f (semaphores st ! i)]\<rparr>"

text \<open>The label \<open>found\<close> at the end of \<open>do_sem_get\<close>.\<close>

definition sem_found :: "'r sem_state \<Rightarrow> nat \<Rightarrow> int result \<times> 'r sem_state" where
  "sem_found st i =
     (Inr (int i), sem_update st i (\<lambda>s. s\<lparr>sem_refcount := sem_refcount s + 1\<rparr>))"

definition do_sem_get :: "'r resource_ops \<Rightarrow> int \<Rightarrow> 'r sem_state \<Rightarrow> int \<Rightarrow> ipc_flags \<Rightarrow> int result \<times> 'r sem_state" where
  "do_sem_get R priv st key semflg =
     (if key = priv then (Inl ENOTSUP, st)
      else if \<not> IPC_CREAT semflg \<and> IPC_EXCL semflg then (Inl EINVAL, st)
      else (case first_index (\<lambda>s. resource_is_used R (sem_resource s) \<and> sem_key s = key) (semaphores st) of
              Some i \<Rightarrow> if IPC_CREAT semflg \<and> IPC_EXCL semflg then (Inl EEXIST, st) else sem_found st i
            | None \<Rightarrow>
                if \<not> IPC_CREAT semflg then (Inl ENOENT, st)
                else (case resource_alloc R (map sem_resource (semaphores st)) of
                        None \<Rightarrow> (Inl ENOSPC, st)
                      | Some (i, r) \<Rightarrow>
                          sem_found (sem_update st i (\<lambda>s. s\<lparr>sem_resource := r, sem_key := key, sem_val := 0\<rparr>)) i)))"

definition do_sem_close :: "'r resource_ops \<Rightarrow> 'r sem_state \<Rightarrow> int \<Rightarrow> int result \<times> 'r sem_state" where
  "do_sem_close R st semid =
     (if \<not> semid_is_valid semid then (Inl EINVAL, st)
      else if \<not> resource_is_used R (sem_resource (semaphores st ! nat semid)) then (Inl EINVAL, st)
      else (let st1 = sem_update st (nat semid) (\<lambda>s. s\<lparr>sem_refcount := sem_refcount s - 1\<rparr>)
            in (Inr 0, if sem_refcount (semaphores st1 ! nat semid) = 0
                       then sem_update st1 (nat semid) (\<lambda>s. s\<lparr>sem_resource := resource_free R (sem_resource s)\<rparr>)
                       else st1)))"

definition do_sleep :: "'r sem_state \<Rightarrow> int \<Rightarrow> int \<Rightarrow> int \<Rightarrow> 'r sem_state" where
  "do_sleep st conn semid val = st\<lparr>sleeping := map (\<lambda>s.
     if sl_semid s = -1 then s\<lparr>sl_conn := conn, sl_semid := semid, sl_val := val\<rparr> else s) (sleeping st)\<rparr>"

definition do_wakeup :: "'r sem_state \<Rightarrow> nat \<Rightarrow> int \<times> 'r sem_state" where
  "do_wakeup st semid =
     (case first_index (\<lambda>s. sl_semid s = int semid \<and> sl_val s \<le> sem_val (semaphores st ! semid)) (sleeping st) of
        None \<Rightarrow> (0, st)
      | Some i \<Rightarrow>
          (let s = sleeping st ! i;
               st1 = st\<lparr>sleeping := (sleeping st)[i := s\<lparr>sl_semid := -1\<rparr>]\<rparr>
           in (sl_conn s, sem_update st1 semid (\<lambda>m. m\<lparr>sem_val := add_int (sem_val m) (- sl_val s)\<rparr>))))"

definition do_sem_operate :: "'r resource_ops \<Rightarrow> 'r sem_state \<Rightarrow> int \<Rightarrow> int \<Rightarrow> sembuf option \<Rightarrow> int result \<times> 'r sem_state" where
  "do_sem_operate R st conn semid sops =
     (case sops of None \<Rightarrow> (Inl EINVAL, st) | Some op \<Rightarrow>
      if conn < 0 then (Inl EINVAL, st)
      else if \<not> semid_is_valid semid then (Inl EINVAL, st)
      else if \<not> resource_is_used R (sem_resource (semaphores st ! nat semid)) then (Inl EINVAL, st)
      else if SEM_UNDO (sem_flg op) then (Inl ENOTSUP, st)
      else if 0 < sem_op op then
        (let st1 = sem_update st (nat semid) (\<lambda>s. s\<lparr>sem_val := add_int (sem_val s) (sem_op op)\<rparr>);
             (awaken, st2) = do_wakeup st1 (nat semid)
         in if 0 < awaken then (Inr awaken, st2) else (Inr 0, st2))
      else if sem_op op < 0 then
        (if add_int (sem_val (semaphores st ! nat semid)) (sem_op op) < 0 then
           (if IPC_NOWAIT (sem_flg op) then (Inr 0, st)
            else (Inr conn, do_sleep st conn semid (sem_op op)))
         else (Inr 0, sem_update st (nat semid) (\<lambda>s. s\<lparr>sem_val := add_int (sem_val s) (sem_op op)\<rparr>)))
      else
        (if 0 < sem_val (semaphores st ! nat semid) then
           (if IPC_NOWAIT (sem_flg op) then (Inr 0, st)
            else (Inr conn, do_sleep st conn semid 0))
         else (Inr 0, st)))"

definition do_sem_init :: "'r resource_ops \<Rightarrow> 'r sem_state \<Rightarrow> 'r sem_state" where
  "do_sem_init R st =
     st\<lparr>semaphores := map (\<lambda>s. s\<lparr>sem_refcount := 0, sem_resource := resource_initializer R\<rparr>) (semaphores st),
        sleeping := map (\<lambda>s. s\<lparr>sl_semid := -1\<rparr>) (sleeping st)\<rparr>"

lemmas [step_defs] = do_sem_get_def do_sem_close_def do_sem_operate_def do_sem_init_def

section \<open>Invariant\<close>

definition sem_slot :: "'r resource_ops \<Rightarrow> 'r sem \<Rightarrow> int option" where
  "sem_slot R s = (if resource_is_used R (sem_resource s) then Some (sem_key s) else None)"

text \<open>
  Semaphore keys are unique among the used entries, an entry is used exactly while its
  reference count is positive, counters are values of type \<open>int\<close>, and every registered sleeper
  waits for a value that is not positive (it stores the operand of its operation).
\<close>

definition sem_inv :: "'r resource_ops \<Rightarrow> 'r sem_state \<Rightarrow> bool" where
  "sem_inv R st \<longleftrightarrow> length (semaphores st) = NANVIX_SEM_MAX \<and>
     slots_counted (sem_slot R) sem_refcount (semaphores st) \<and>
     (\<forall>s\<in>set (semaphores st). sem_slot R s \<noteq> None \<longrightarrow> is_int (sem_val s)) \<and>
     (\<forall>s\<in>set (sleeping st). sl_semid s = -1 \<or> sl_val s \<le> 0)"

lemma sem_slot_simps [simp]:
  "sem_slot R (s\<lparr>sem_refcount := n\<rparr>) = sem_slot R s"
  "sem_slot R (s\<lparr>sem_val := v\<rparr>) = sem_slot R s"
  "sem_slot R (s\<lparr>sem_resource := r, sem_key := k\<rparr>) = (if resource_is_used R r then Some k else None)"
  by (simp_all add: sem_slot_def)

lemma sem_slot_used: "resource_is_used R (sem_resource s) \<longleftrightarrow> sem_slot R s \<noteq> None"
  by (simp add: sem_slot_def)

lemma sem_slot_key: "resource_is_used R (sem_resource s) \<and> sem_key s = k \<longleftrightarrow> sem_slot R s = Some k"
  by (simp add: sem_slot_def)

lemma sem_update_sel [simp]:
  "semaphores (sem_update st i f) = (semaphores st)[i := f (semaphores st ! i)]"
  "sleeping (sem_update st i f) = sleeping st"
  by (simp_all add: sem_update_def)

lemma semid_nat: "semid_is_valid x \<Longrightarrow> nat x < NANVIX_SEM_MAX \<and> int (nat x) = x"
  by (auto simp: semid_is_valid_def)

lemma sem_inv_update:
  assumes "sem_inv R st" "i < length (semaphores st)"
    and "slots_counted (sem_slot R) sem_refcount ((semaphores st)[i := f (semaphores st ! i)])"
    and "sem_slot R (f (semaphores st ! i)) \<noteq> None \<Longrightarrow> is_int (sem_val (f (semaphores st ! i)))"
  shows "sem_inv R (sem_update st i f)"
  unfolding sem_inv_def sem_update_sel
  by (intro conjI ball_update assms(3)) (use assms(1,4) in \<open>auto simp: sem_inv_def\<close>)

lemma sem_inv_keep:
  assumes inv: "sem_inv R st" and i: "i < length (semaphores st)"
    and used: "sem_slot R (semaphores st ! i) = Some k"
    and f: "sem_slot R (f (semaphores st ! i)) = Some k" "1 \<le> sem_refcount (f (semaphores st ! i))"
      "is_int (sem_val (f (semaphores st ! i)))"
  shows "sem_inv R (sem_update st i f)"
  using assms by (intro sem_inv_update) (auto simp: sem_inv_def intro: slots_counted_keep)

lemma sem_invD:
  assumes "sem_inv R st"
  shows sem_inv_length: "length (semaphores st) = NANVIX_SEM_MAX"
    and sem_inv_counted: "slots_counted (sem_slot R) sem_refcount (semaphores st)"
    and sem_inv_val: "i < length (semaphores st) \<Longrightarrow> sem_slot R (semaphores st ! i) = Some k \<Longrightarrow> is_int (sem_val (semaphores st ! i))"
    and sem_inv_sleeper: "s \<in> set (sleeping st) \<Longrightarrow> sl_semid s = -1 \<or> sl_val s \<le> 0"
  using assms by (auto simp: sem_inv_def)


lemma sem_inv_init:
  assumes "resource_laws R" "length (semaphores st) = NANVIX_SEM_MAX"
  shows "sem_inv R (do_sem_init R st)"
  using assms by (auto simp: sem_inv_def do_sem_init_def sem_slot_def intro!: slots_counted_init)

text \<open>The outcomes of \<open>do_sem_get\<close> for a key it accepts.\<close>

lemma sem_search:
  assumes "sem_inv R st"
  shows "first_index (\<lambda>s. resource_is_used R (sem_resource s) \<and> sem_key s = key) (semaphores st) = Some i \<longleftrightarrow>
    i < length (semaphores st) \<and> sem_slot R (semaphores st ! i) = Some key"
  unfolding sem_slot_key
  using slots_find [OF slots_counted_unique [OF sem_inv_counted [OF assms]], of i key]
  by (auto dest: first_index_bound first_index_sat)

lemma sem_get_cases:
  assumes R: "resource_laws R" and inv: "sem_inv R st" and k: "key \<noteq> priv" "\<not> (\<not> IPC_CREAT flg \<and> IPC_EXCL flg)"
  obtains (held) i where "i < length (semaphores st)" "sem_slot R (semaphores st ! i) = Some key"
      "do_sem_get R priv st key flg = (if IPC_EXCL flg then (Inl EEXIST, st) else sem_found st i)"
  | (absent) "\<And>j. j < length (semaphores st) \<Longrightarrow> sem_slot R (semaphores st ! j) \<noteq> Some key" "\<not> IPC_CREAT flg"
      "do_sem_get R priv st key flg = (Inl ENOENT, st)"
  | (full) "\<And>j. j < length (semaphores st) \<Longrightarrow> sem_slot R (semaphores st ! j) \<noteq> Some key" "IPC_CREAT flg"
      "\<And>j. j < length (semaphores st) \<Longrightarrow> sem_slot R (semaphores st ! j) \<noteq> None"
      "do_sem_get R priv st key flg = (Inl ENOSPC, st)"
  | (fresh) i r where "\<And>j. j < length (semaphores st) \<Longrightarrow> sem_slot R (semaphores st ! j) \<noteq> Some key" "IPC_CREAT flg"
      "i < length (semaphores st)" "sem_slot R (semaphores st ! i) = None" "resource_is_used R r"
      "do_sem_get R priv st key flg = (Inr (int i), sem_update st i
         (\<lambda>s. s\<lparr>sem_resource := r, sem_key := key, sem_val := 0, sem_refcount := sem_refcount s + 1\<rparr>))"
proof (cases "first_index (\<lambda>s. resource_is_used R (sem_resource s) \<and> sem_key s = key) (semaphores st)")
  case (Some i)
  then have "i < length (semaphores st)" "sem_slot R (semaphores st ! i) = Some key"
    by (simp_all add: sem_search [OF inv])
  with Some k held [of i] show ?thesis by (auto simp: do_sem_get_def)
next
  case None
  then have none: "\<And>j. j < length (semaphores st) \<Longrightarrow> sem_slot R (semaphores st ! j) \<noteq> Some key"
    by (simp add: first_index_None_iff sem_slot_key)
  show ?thesis
  proof (cases "IPC_CREAT flg")
    case False
    with None k none absent show ?thesis by (auto simp: do_sem_get_def)
  next
    case create: True
    show ?thesis
    proof (cases "resource_alloc R (map sem_resource (semaphores st))")
      case full': None
      then have "\<And>j. j < length (semaphores st) \<Longrightarrow> sem_slot R (semaphores st ! j) \<noteq> None"
        using R by (auto simp: resource_alloc_NoneD sem_slot_def)
      with full' None k none create full show ?thesis by (auto simp: do_sem_get_def)
    next
      case (Some a)
      obtain i r where a: "a = (i, r)" by (cases a)
      note A = resource_allocD [OF R Some [unfolded a]]
      have "do_sem_get R priv st key flg = (Inr (int i), sem_update st i
         (\<lambda>s. s\<lparr>sem_resource := r, sem_key := key, sem_val := 0, sem_refcount := sem_refcount s + 1\<rparr>))"
        using Some a None k create A(1) by (auto simp: do_sem_get_def sem_found_def sem_update_def)
      with none create A show ?thesis by (intro fresh [of i r]) (auto simp: sem_slot_def)
    qed
  qed
qed

lemma sem_get_inv:
  assumes R: "resource_laws R" and inv: "sem_inv R st"
  shows "sem_inv R (snd (do_sem_get R priv st key flg))"
proof (cases "key \<noteq> priv \<and> \<not> (\<not> IPC_CREAT flg \<and> IPC_EXCL flg)")
  case False
  with inv show ?thesis by (auto simp: do_sem_get_def)
next
  case True
  then have k: "key \<noteq> priv" "\<not> (\<not> IPC_CREAT flg \<and> IPC_EXCL flg)" by auto
  from R inv k show ?thesis
  proof (cases rule: sem_get_cases)
    case (held i)
    then have "sem_inv R (snd (sem_found st i))"
      using sem_inv_val [OF inv] slots_counted_pos [OF sem_inv_counted [OF inv], of i]
      by (auto simp: sem_found_def intro!: sem_inv_keep [OF inv])
    with held inv show ?thesis by simp
  next
    case (fresh i r)
    have "sem_refcount (semaphores st ! i) = 0"
      using slots_counted_zero [OF sem_inv_counted [OF inv]] fresh by simp
    with fresh inv show ?thesis
      by (auto intro!: sem_inv_update slots_counted_take [where k = key] sem_inv_counted)
  qed (use inv in simp_all)
qed

lemma sem_close_inv:
  assumes R: "resource_laws R" and inv: "sem_inv R st"
  shows "sem_inv R (snd (do_sem_close R st semid))"
proof (cases "semid_is_valid semid \<and> sem_slot R (semaphores st ! nat semid) \<noteq> None")
  case False
  with inv show ?thesis by (auto simp: do_sem_close_def sem_slot_used)
next
  case True
  let ?i = "nat semid"
  let ?s = "semaphores st ! ?i"
  from True obtain k where i: "?i < length (semaphores st)" and k: "sem_slot R ?s = Some k"
    using semid_nat sem_inv_length [OF inv] by auto
  show ?thesis
  proof (cases "sem_refcount ?s = 1")
    case True
    have "snd (do_sem_close R st semid) = sem_update st ?i
        (\<lambda>s. s\<lparr>sem_refcount := 0, sem_resource := resource_free R (sem_resource s)\<rparr>)"
      using i k True \<open>semid_is_valid semid \<and> _\<close>
      by (simp add: do_sem_close_def sem_slot_used sem_update_def)
    with R i True show ?thesis
      by (auto intro!: sem_inv_update [OF inv] slots_counted_release sem_inv_counted [OF inv] simp: sem_slot_def)
  next
    case False
    have "snd (do_sem_close R st semid) = sem_update st ?i (\<lambda>s. s\<lparr>sem_refcount := sem_refcount s - 1\<rparr>)"
      using i k False \<open>semid_is_valid semid \<and> _\<close> by (simp add: do_sem_close_def sem_slot_used)
    moreover have "1 \<le> sem_refcount ?s - 1"
      using slots_counted_pos [OF sem_inv_counted [OF inv] i k] False by simp
    ultimately show ?thesis using sem_inv_val [OF inv i k] k by (auto intro!: sem_inv_keep [OF inv i k])
  qed
qed

lemma sem_sleep_inv: "sem_inv R st \<Longrightarrow> val \<le> 0 \<Longrightarrow> sem_inv R (do_sleep st conn semid val)"
  by (auto simp: sem_inv_def do_sleep_def)

lemma sem_val_inv:
  assumes "sem_inv R st" "i < length (semaphores st)" "sem_slot R (semaphores st ! i) = Some k"
  shows "sem_inv R (sem_update st i (\<lambda>s. s\<lparr>sem_val := add_int (sem_val s) d\<rparr>))"
  using assms slots_counted_pos [OF sem_inv_counted] by (auto intro!: sem_inv_keep)

lemma sem_wakeup_inv:
  assumes inv: "sem_inv R st" and i: "i < length (semaphores st)" and k: "sem_slot R (semaphores st ! i) = Some k"
  shows "sem_inv R (snd (do_wakeup st i))"
proof (cases "first_index (\<lambda>s. sl_semid s = int i \<and> sl_val s \<le> sem_val (semaphores st ! i)) (sleeping st)")
  case None
  with inv show ?thesis by (simp add: do_wakeup_def)
next
  case (Some j)
  let ?s = "sleeping st ! j"
  let ?st = "st\<lparr>sleeping := (sleeping st)[j := ?s\<lparr>sl_semid := -1\<rparr>]\<rparr>"
  note j = first_index_bound [OF Some] first_index_sat [OF Some]
  have "sem_inv R ?st"
    unfolding sem_inv_def using inv
    by (intro conjI) (simp_all add: sem_inv_def, intro ball_update, simp_all)
  then show ?thesis
    using Some i k sem_val_inv [of R ?st i k "- sl_val ?s"]
    by (simp add: do_wakeup_def Let_def)
qed

lemma sem_operate_inv:
  assumes inv: "sem_inv R st"
  shows "sem_inv R (snd (do_sem_operate R st conn semid sops))"
proof (cases sops)
  case None
  with inv show ?thesis by (simp add: do_sem_operate_def)
next
  case (Some op)
  let ?i = "nat semid"
  show ?thesis
  proof (cases "semid_is_valid semid \<and> sem_slot R (semaphores st ! ?i) \<noteq> None")
    case False
    with inv Some show ?thesis by (auto simp: do_sem_operate_def sem_slot_used)
  next
    case True
    then obtain k where i: "?i < length (semaphores st)" and k: "sem_slot R (semaphores st ! ?i) = Some k"
      using semid_nat sem_inv_length [OF inv] by auto
    let ?up = "sem_update st ?i (\<lambda>s. s\<lparr>sem_val := add_int (sem_val s) (sem_op op)\<rparr>)"
    have "sem_inv R ?up" by (rule sem_val_inv [OF inv i k])
    moreover have "sem_inv R (snd (do_wakeup ?up ?i))"
      using i k by (intro sem_wakeup_inv [where k = k] sem_val_inv [OF inv i k]) simp_all
    moreover have "sem_inv R (do_sleep st conn semid v)" if "v \<le> 0" for v
      by (rule sem_sleep_inv [OF inv that])
    ultimately show ?thesis using inv Some by (auto simp: do_sem_operate_def split: prod.splits)
  qed
qed

section \<open>References\<close>

definition sem_refs :: "'r resource_ops \<Rightarrow> 'r sem_state \<Rightarrow> int \<Rightarrow> int" where
  "sem_refs R st = slot_refs (sem_slot R) sem_refcount (semaphores st)"

definition sem_room :: "'r resource_ops \<Rightarrow> int \<Rightarrow> 'r sem_state \<Rightarrow> int \<Rightarrow> bool" where
  "sem_room R priv st k \<longleftrightarrow> k \<noteq> priv \<and> (0 < sem_refs R st k \<or> (\<exists>s\<in>set (semaphores st). sem_slot R s = None))"

text \<open>Closing a key: the client passes the identifier it got for it.\<close>

definition sem_id :: "'r resource_ops \<Rightarrow> 'r sem_state \<Rightarrow> int \<Rightarrow> int" where
  "sem_id R st k = (case first_index (\<lambda>s. sem_slot R s = Some k) (semaphores st) of Some i \<Rightarrow> int i | None \<Rightarrow> -1)"

lemma sem_refs_pos_iff:
  "sem_inv R st \<Longrightarrow> 0 < sem_refs R st k \<longleftrightarrow>
     (\<exists>i<length (semaphores st). sem_slot R (semaphores st ! i) = Some k)"
  unfolding sem_refs_def by (intro slot_refs_pos_iff slots_counted_wf sem_inv_counted)

lemma sem_id_eq:
  assumes "sem_inv R st" "i < length (semaphores st)" "sem_slot R (semaphores st ! i) = Some k"
  shows "sem_id R st k = int i"
  using slots_find [OF slots_counted_unique [OF sem_inv_counted [OF assms(1)]] assms(2,3)]
  by (simp add: sem_id_def)

lemma sem_get_grant:
  assumes R: "resource_laws R" and inv: "sem_inv R st" and room: "sem_room R priv st key"
    and flg: "IPC_CREAT flg" "\<not> IPC_EXCL flg"
  shows "\<exists>i<length (semaphores st). fst (do_sem_get R priv st key flg) = Inr (int i) \<and>
      sem_slot R (semaphores (snd (do_sem_get R priv st key flg)) ! i) = Some key"
    and "sem_refs R (snd (do_sem_get R priv st key flg)) j = sem_refs R st j + (if j = key then 1 else 0)"
proof -
  have k: "key \<noteq> priv" "\<not> (\<not> IPC_CREAT flg \<and> IPC_EXCL flg)" using room flg by (auto simp: sem_room_def)
  have "(\<exists>i<length (semaphores st). fst (do_sem_get R priv st key flg) = Inr (int i) \<and>
      sem_slot R (semaphores (snd (do_sem_get R priv st key flg)) ! i) = Some key) \<and>
    sem_refs R (snd (do_sem_get R priv st key flg)) j = sem_refs R st j + (if j = key then 1 else 0)"
    using R inv k
  proof (cases rule: sem_get_cases)
    case (held i)
    with flg show ?thesis by (auto simp: sem_found_def sem_refs_def slot_refs_update intro!: exI [of _ i])
  next
    case (fresh i r)
    have "sem_refcount (semaphores st ! i) = 0"
      using slots_counted_zero [OF sem_inv_counted [OF inv]] fresh by simp
    with fresh show ?thesis by (auto simp: sem_refs_def slot_refs_update intro!: exI [of _ i])
  next
    case full
    have "\<not> 0 < sem_refs R st key" using full(1) by (auto simp: sem_refs_pos_iff [OF inv])
    moreover have "\<forall>s\<in>set (semaphores st). sem_slot R s \<noteq> None" using full(3) by (auto simp: in_set_conv_nth)
    ultimately show ?thesis using room by (auto simp: sem_room_def)
  qed (use flg in simp)
  then show "\<exists>i<length (semaphores st). fst (do_sem_get R priv st key flg) = Inr (int i) \<and>
      sem_slot R (semaphores (snd (do_sem_get R priv st key flg)) ! i) = Some key"
    and "sem_refs R (snd (do_sem_get R priv st key flg)) j = sem_refs R st j + (if j = key then 1 else 0)"
    by auto
qed

lemma sem_close_refs:
  assumes R: "resource_laws R" and inv: "sem_inv R st"
    and i: "i < length (semaphores st)" and k: "sem_slot R (semaphores st ! i) = Some key"
  shows "fst (do_sem_close R st (int i)) = Inr 0"
    and "sem_refs R (snd (do_sem_close R st (int i))) j = sem_refs R st j - (if j = key then 1 else 0)"
proof -
  have v: "semid_is_valid (int i)" using i sem_inv_length [OF inv] by (simp add: semid_is_valid_def)
  have "resource_is_used R (sem_resource (semaphores st ! i))" using k by (simp add: sem_slot_used)
  with v show "fst (do_sem_close R st (int i)) = Inr 0" by (simp add: do_sem_close_def Let_def)
  from v i k R show "sem_refs R (snd (do_sem_close R st (int i))) j = sem_refs R st j - (if j = key then 1 else 0)"
    by (auto simp: do_sem_close_def sem_slot_used Let_def sem_refs_def slot_refs_update)
qed

interpretation sems: refcount_table "\<lambda>st k. snd (do_sem_get R priv st k ipc_creat)"
  "\<lambda>st k. snd (do_sem_close R st (sem_id R st k))" "sem_refs R" "sem_room R priv"
  "\<lambda>st. resource_laws R \<and> sem_inv R st" for R :: "'r resource_ops" and priv
proof
  fix st :: "'r sem_state" and k j
  assume "resource_laws R \<and> sem_inv R st"
  then have R: "resource_laws R" and inv: "sem_inv R st" by auto
  show "0 \<le> sem_refs R st k"
    unfolding sem_refs_def by (intro slot_refs_nonneg slots_counted_wf sem_inv_counted inv)
  show "resource_laws R \<and> sem_inv R (snd (do_sem_get R priv st k ipc_creat))"
    using R inv by (simp add: sem_get_inv)
  show "resource_laws R \<and> sem_inv R (snd (do_sem_close R st (sem_id R st k)))"
    using R inv by (simp add: sem_close_inv)
  show "sem_refs R (snd (do_sem_get R priv st k ipc_creat)) j = sem_refs R st j + (if j = k then 1 else 0)"
    if "sem_room R priv st k"
    using sem_get_grant(2) [OF R inv that] by (simp add: ipc_creat_def)
  show "sem_refs R (snd (do_sem_close R st (sem_id R st k))) j = sem_refs R st j - (if j = k then 1 else 0)"
    if "0 < sem_refs R st k"
    using that sem_close_refs(2) [OF R inv] by (auto simp: sem_refs_pos_iff [OF inv] sem_id_eq [OF inv])
qed

section \<open>Histories of requests\<close>

datatype sem_request = SemGet int ipc_flags | SemClose int | SemOperate int int "sembuf option"

fun sem_serve :: "'r resource_ops \<Rightarrow> int \<Rightarrow> 'r sem_state \<Rightarrow> sem_request \<Rightarrow> 'r sem_state" where
  "sem_serve R priv st (SemGet key flg) = snd (do_sem_get R priv st key flg)"
| "sem_serve R priv st (SemClose semid) = snd (do_sem_close R st semid)"
| "sem_serve R priv st (SemOperate conn semid sops) = snd (do_sem_operate R st conn semid sops)"

lemma sem_serve_inv: "resource_laws R \<Longrightarrow> sem_inv R st \<Longrightarrow> sem_inv R (sem_serve R priv st q)"
  by (cases q) (simp_all add: sem_get_inv sem_close_inv sem_operate_inv)

lemma sem_history_inv:
  "resource_laws R \<Longrightarrow> sem_inv R st \<Longrightarrow> sem_inv R (foldl (sem_serve R priv) st qs)"
  by (induction qs arbitrary: st) (simp_all add: sem_serve_inv)

definition plain_sem :: "flags sem" where
  "plain_sem = \<lparr>sem_resource = plain_clear, sem_owner = 0, sem_key = 0, sem_refcount = 0, sem_mode = 0, sem_val = 0\<rparr>"

definition sem_static :: "nat \<Rightarrow> flags sem_state" where
  "sem_static n = \<lparr>semaphores = replicate NANVIX_SEM_MAX plain_sem,
     sleeping = replicate n \<lparr>sl_conn = 0, sl_semid = 0, sl_val = 0\<rparr>\<rparr>"

section \<open>Properties\<close>

text \<open>
  Whatever get, close and operate requests arrive after \<open>do_sem_init\<close>, an entry is in use exactly
  while it is referenced and no two entries in use have the same key.
\<close>

theorem sem_table_invariant:
  assumes "resource_laws R" "length (semaphores st) = NANVIX_SEM_MAX"
    and "sems = semaphores (foldl (sem_serve R priv) (do_sem_init R st) qs)"
    and "i < length sems" "resource_is_used R (sem_resource (sems ! i)) \<or> sem_refcount (sems ! i) \<noteq> 0"
  shows "resource_is_used R (sem_resource (sems ! i)) \<and> 1 \<le> sem_refcount (sems ! i) \<and> is_int (sem_val (sems ! i)) \<and>
    length sems = NANVIX_SEM_MAX \<and>
    (\<forall>j<length sems. resource_is_used R (sem_resource (sems ! j)) \<and> sem_key (sems ! j) = sem_key (sems ! i) \<longrightarrow> j = i)"
proof -
  let ?st = "foldl (sem_serve R priv) (do_sem_init R st) qs"
  have inv: "sem_inv R ?st" using assms(1,2) by (intro sem_history_inv sem_inv_init)
  note c = sem_inv_counted [OF inv, folded assms(3)]
  obtain k where k: "sem_slot R (sems ! i) = Some k"
    using assms(4,5) slots_counted_zero [OF c, of i] by (auto simp: sem_slot_used)
  have "j = i" if "j < length sems" "resource_is_used R (sem_resource (sems ! j))" "sem_key (sems ! j) = sem_key (sems ! i)" for j
    by (rule slots_uniqueD [OF slots_counted_unique [OF c] assms(4) that(1) k])
      (use that k in \<open>auto simp: sem_slot_def split: if_splits\<close>)
  moreover have "resource_is_used R (sem_resource (sems ! i))" using k by (simp add: sem_slot_used)
  moreover have "length sems = NANVIX_SEM_MAX" using sem_inv_length [OF inv] assms(3) by simp
  ultimately show ?thesis
    using slots_counted_pos [OF c assms(4) k] sem_inv_val [OF inv, folded assms(3), OF assms(4) k] by blast
qed

theorem sem_table_invariant_witness:
  "let sems = semaphores (foldl (sem_serve plain_resource (-1)) (do_sem_init plain_resource (sem_static 2)) [SemGet 100 ipc_creat])
   in resource_is_used plain_resource (sem_resource (sems ! 0)) \<and> 1 \<le> sem_refcount (sems ! 0)"
proof -
  let ?sems = "semaphores (foldl (sem_serve plain_resource (-1)) (do_sem_init plain_resource (sem_static 2)) [SemGet 100 ipc_creat])"
  have "sem_refcount (?sems ! 0) \<noteq> 0 \<and> 0 < length ?sems" by code_simp
  then show ?thesis
    using sem_table_invariant [of plain_resource "sem_static 2" ?sems "-1" "[SemGet 100 ipc_creat]" 0]
    by (simp add: sem_static_def Let_def)
qed


text \<open>
  \<open>do_sem_get\<close> with \<open>IPC_CREAT\<close> hands out an identifier whenever the key has a semaphore or an entry
  is free; closing that identifier gives back the reference counts of all keys.
\<close>

theorem sem_get_close_roundtrip:
  assumes "resource_laws R" "sem_inv R st" "sem_room R priv st key"
  shows "\<exists>semid st1 st2. do_sem_get R priv st key ipc_creat = (Inr semid, st1) \<and>
    sem_refs R st1 key = sem_refs R st key + 1 \<and>
    do_sem_close R st1 semid = (Inr 0, st2) \<and> sem_inv R st2 \<and> sem_refs R st2 = sem_refs R st"
proof -
  let ?st1 = "snd (do_sem_get R priv st key ipc_creat)"
  have flg: "IPC_CREAT ipc_creat" "\<not> IPC_EXCL ipc_creat" by (simp_all add: ipc_creat_def)
  note g = sem_get_grant [OF assms flg]
  have inv: "sem_inv R ?st1" by (rule sem_get_inv [OF assms(1,2)])
  obtain i where i: "i < length (semaphores st)" "fst (do_sem_get R priv st key ipc_creat) = Inr (int i)"
    "sem_slot R (semaphores ?st1 ! i) = Some key" using g(1) by blast
  have len: "i < length (semaphores ?st1)" using i(1) sem_inv_length [OF inv] sem_inv_length [OF assms(2)] by simp
  have id: "sem_id R ?st1 key = int i" by (rule sem_id_eq [OF inv len i(3)])
  note c = sem_close_refs [OF assms(1) inv len i(3)]
  have "sem_refs R (snd (do_sem_close R ?st1 (int i))) j = sem_refs R st j" for j
    using sems.acquire_release(1) [of R st priv key j] assms id by simp
  then show ?thesis
    using i c(1) g(2) [of key] sem_close_inv [OF assms(1) inv, of "int i"]
    by (intro exI [of _ "int i"] exI [of _ ?st1] exI [of _ "snd (do_sem_close R ?st1 (int i))"])
      (auto intro!: prod_eqI)
qed

theorem sem_get_close_roundtrip_witness:
  "\<exists>semid st1 st2. do_sem_get plain_resource (-1) (do_sem_init plain_resource (sem_static 2)) 100 ipc_creat = (Inr semid, st1) \<and>
     do_sem_close plain_resource st1 semid = (Inr 0, st2)"
proof -
  let ?st = "do_sem_init plain_resource (sem_static 2)"
  have "sem_room plain_resource (-1) ?st 100"
    by (simp add: sem_room_def do_sem_init_def sem_static_def sem_slot_def plain_clear_def NANVIX_SEM_MAX_def)
  moreover have "sem_inv plain_resource ?st" by (rule sem_inv_init) (simp_all add: sem_static_def)
  ultimately show ?thesis
    using sem_get_close_roundtrip [of plain_resource ?st "-1" 100] by auto
qed

text \<open>
  The counting behaviour of \<open>do_sem_operate\<close> on a semaphore nobody sleeps on. An operation that would
  make the counter negative, or that waits for zero on a positive counter, leaves every semaphore as
  it is and returns the caller's connection (zero with \<open>IPC_NOWAIT\<close>); any other operation adds its
  operand to the counter of that semaphore alone and returns zero. This is for a sum in the range of
  \<open>int\<close>; outside it the counter wraps around.
\<close>

theorem sem_operate_counts:
  assumes "0 \<le> conn" "semid_is_valid semid" "length (semaphores st) = NANVIX_SEM_MAX"
    and "resource_is_used R (sem_resource (semaphores st ! nat semid))" "\<not> SEM_UNDO (sem_flg op)"
    and "\<forall>s\<in>set (sleeping st). sl_semid s \<noteq> semid"
    and "v = sem_val (semaphores st ! nat semid)" "is_int (v + sem_op op)"
    and "blocked \<longleftrightarrow> v + sem_op op < 0 \<and> sem_op op < 0 \<or> sem_op op = 0 \<and> 0 < v"
  shows "fst (do_sem_operate R st conn semid (Some op)) =
      Inr (if blocked \<and> \<not> IPC_NOWAIT (sem_flg op) then conn else 0) \<and>
    semaphores (snd (do_sem_operate R st conn semid (Some op))) =
      (if blocked then semaphores st
       else (semaphores st)[nat semid := (semaphores st ! nat semid)\<lparr>sem_val := v + sem_op op\<rparr>])"
proof -
  have "first_index (\<lambda>s. sl_semid s = int (nat semid) \<and> P s) (sleeping st) = None" for P
    using assms(2,6) semid_nat [of semid] by (auto simp: first_index_None_iff)
  moreover have "add_int (sem_val (semaphores st ! nat semid)) (sem_op op) = v + sem_op op" using assms(7,8) by (simp add: add_int_exact)
  ultimately show ?thesis using assms
    by (auto simp: do_sem_operate_def do_wakeup_def do_sleep_def Let_def)
qed

theorem sem_operate_counts_witness:
  "fst (do_sem_operate plain_resource
      (snd (do_sem_get plain_resource (-1) (do_sem_init plain_resource (sem_static 2)) 100 ipc_creat)) 3 0
      (Some \<lparr>sem_op = -1, sem_flg = ipc_block\<rparr>)) = Inr 3"
proof -
  let ?st = "snd (do_sem_get plain_resource (-1) (do_sem_init plain_resource (sem_static 2)) 100 ipc_creat)"
  have "semid_is_valid 0" "length (semaphores ?st) = NANVIX_SEM_MAX"
    "resource_is_used plain_resource (sem_resource (semaphores ?st ! nat 0))"
    "\<forall>s\<in>set (sleeping ?st). sl_semid s \<noteq> 0" "sem_val (semaphores ?st ! nat 0) = 0"
    by code_simp+
  with sem_operate_counts [of 3 0 ?st plain_resource "\<lparr>sem_op = -1, sem_flg = ipc_block\<rparr>"]
  show ?thesis by (simp add: ipc_block_def)
qed

text \<open>
  A wakeup hands the sleeper units instead of taking them. \<open>do_sleep\<close> records the (negative) operand,
  and \<open>do_wakeup\<close> compares it with the counter and subtracts it. So after a connection blocks
  taking \<open>n\<close> units, an increment by any \<open>m\<close> wakes it, even one that leaves too few units, and the
  counter ends at \<open>v + m + n\<close> where \<open>v + m - n\<close> is due.
\<close>

theorem sem_wakeup_credits:
  assumes "0 < a" "0 \<le> b" "semid_is_valid semid" "length (semaphores st) = NANVIX_SEM_MAX"
    and "resource_is_used R (sem_resource (semaphores st ! nat semid))"
    and "\<forall>s\<in>set (sleeping st). sl_semid s \<noteq> semid" "\<exists>s\<in>set (sleeping st). sl_semid s = -1"
    and "v = sem_val (semaphores st ! nat semid)" "0 \<le> v" "v < n" "0 < m" "v + m + n < 2 ^ 31"
  shows "let (r1, st1) = do_sem_operate R st a semid (Some \<lparr>sem_op = - n, sem_flg = ipc_block\<rparr>);
             (r2, st2) = do_sem_operate R st1 b semid (Some \<lparr>sem_op = m, sem_flg = ipc_block\<rparr>)
         in r1 = Inr a \<and> r2 = Inr a \<and> sem_val (semaphores st2 ! nat semid) = v + m + n"
proof -
  let ?i = "nat semid"
  let ?P = "\<lambda>s. sl_semid s = int ?i \<and> sl_val s \<le> v + m"
  let ?sl = "map (\<lambda>s. if sl_semid s = -1 then s\<lparr>sl_conn := a, sl_semid := semid, sl_val := - n\<rparr> else s) (sleeping st)"
  have i: "int ?i = semid" "?i < length (semaphores st)" using assms(3,4) by (auto simp: semid_is_valid_def)
  have sl: "sl_conn s = a \<and> sl_val s = - n" if "s \<in> set ?sl" "sl_semid s = semid" for s
  proof -
    from that(1) obtain x where x: "x \<in> set (sleeping st)"
      and s: "s = (if sl_semid x = -1 then x\<lparr>sl_conn := a, sl_semid := semid, sl_val := - n\<rparr> else x)" by auto
    from that(2) x assms(6) show ?thesis unfolding s by (cases "sl_semid x = -1") auto
  qed
  obtain s where "s \<in> set (sleeping st)" "sl_semid s = -1" using assms(7) by blast
  then have mem: "s\<lparr>sl_conn := a, sl_semid := semid, sl_val := - n\<rparr> \<in> set ?sl" (is "?e \<in> _") by force
  have "?P ?e" using i(1) assms(9-11) by simp
  from first_index_ex [of ?e ?sl ?P, OF mem this] obtain j where j: "first_index ?P ?sl = Some j" by blast
  then have "?sl ! j \<in> set ?sl" "sl_semid (?sl ! j) = semid"
    using i(1) nth_mem [OF first_index_bound [OF j]] first_index_sat [OF j] by auto
  note S = sl [OF this]
  have ex: "add_int v (- n) = v - n" "add_int v m = v + m" "add_int (v + m) n = v + m + n"
    using assms(9-12) by (simp_all add: add_int_exact is_int_def)
  let ?st1 = "do_sleep st a semid (- n)"
  have 1: "do_sem_operate R st a semid (Some \<lparr>sem_op = - n, sem_flg = ipc_block\<rparr>) = (Inr a, ?st1)"
    using assms ex(1) by (simp add: do_sem_operate_def ipc_block_def)
  have 2: "fst (do_sem_operate R ?st1 b semid (Some \<lparr>sem_op = m, sem_flg = ipc_block\<rparr>)) = Inr a \<and>
    sem_val (semaphores (snd (do_sem_operate R ?st1 b semid (Some \<lparr>sem_op = m, sem_flg = ipc_block\<rparr>))) ! ?i) = v + m + n"
    using assms i j S ex
    by (simp add: do_sem_operate_def ipc_block_def do_wakeup_def do_sleep_def Let_def)
  from 1 2 show ?thesis by (simp add: split_beta)
qed

theorem sem_wakeup_credits_witness:
  "\<exists>st. let (r1, st1) = do_sem_operate plain_resource st 1 0 (Some \<lparr>sem_op = -5, sem_flg = ipc_block\<rparr>);
        (r2, st2) = do_sem_operate plain_resource st1 2 0 (Some \<lparr>sem_op = 1, sem_flg = ipc_block\<rparr>)
    in r1 = Inr 1 \<and> r2 = Inr 1 \<and> sem_val (semaphores st2 ! nat 0) = 6"
proof -
  let ?st = "snd (do_sem_get plain_resource (-1) (do_sem_init plain_resource (sem_static 2)) 100 ipc_creat)"
  have "semid_is_valid 0" "length (semaphores ?st) = NANVIX_SEM_MAX"
    "resource_is_used plain_resource (sem_resource (semaphores ?st ! nat 0))"
    "\<forall>s\<in>set (sleeping ?st). sl_semid s \<noteq> 0" "\<exists>s\<in>set (sleeping ?st). sl_semid s = -1"
    "0 = sem_val (semaphores ?st ! nat 0)"
    by code_simp+
  from sem_wakeup_credits [OF _ _ this, of 1 2 5 1] show ?thesis by (intro exI [of _ ?st]) simp
qed

text \<open>
  One sleeper takes the whole table: \<open>do_sleep\<close> does not stop at the first free entry, so after a
  connection blocks no entry is free, and the next connection that blocks is told to wait without
  being recorded anywhere.
\<close>

theorem sem_second_sleeper_lost:
  assumes "0 \<le> a" "0 \<le> b" "semid_is_valid semid"
    and "resource_is_used R (sem_resource (semaphores st ! nat semid))"
    and "0 < n" "0 < m" "sem_val (semaphores st ! nat semid) < n" "sem_val (semaphores st ! nat semid) < m"
    and "is_int (sem_val (semaphores st ! nat semid) - n)" "is_int (sem_val (semaphores st ! nat semid) - m)"
    and "st1 = snd (do_sem_operate R st a semid (Some \<lparr>sem_op = - n, sem_flg = ipc_block\<rparr>))"
  shows "do_sem_operate R st1 b semid (Some \<lparr>sem_op = - m, sem_flg = ipc_block\<rparr>) = (Inr b, st1)"
proof -
  have st1: "st1 = do_sleep st a semid (- n)"
    using assms by (simp add: do_sem_operate_def ipc_block_def add_int_exact)
  have "sl_semid s \<noteq> -1" if "s \<in> set (sleeping st1)" for s
    using that assms(3) by (auto simp: st1 do_sleep_def semid_is_valid_def split: if_splits)
  then have "map (\<lambda>s. if sl_semid s = -1 then s\<lparr>sl_conn := b, sl_semid := semid, sl_val := - m\<rparr> else s) (sleeping st1) =
      sleeping st1"
    by (intro map_idI) simp
  then have "do_sleep st1 b semid (- m) = st1" by (simp add: do_sleep_def)
  moreover have "semaphores st1 = semaphores st" by (simp add: st1 do_sleep_def)
  ultimately show ?thesis using assms by (simp add: do_sem_operate_def ipc_block_def add_int_exact)
qed

theorem sem_second_sleeper_lost_witness:
  "\<exists>st. do_sem_operate plain_resource st 2 0 (Some \<lparr>sem_op = -1, sem_flg = ipc_block\<rparr>) = (Inr 2, st)"
proof -
  let ?st = "snd (do_sem_get plain_resource (-1) (do_sem_init plain_resource (sem_static 2)) 100 ipc_creat)"
  have "semid_is_valid 0" "resource_is_used plain_resource (sem_resource (semaphores ?st ! nat 0))"
    "sem_val (semaphores ?st ! nat 0) < 1" "is_int (sem_val (semaphores ?st ! nat 0) - 1)" by code_simp+
  with sem_second_sleeper_lost [of 1 2 0 plain_resource ?st 1 1] show ?thesis by auto
qed

end
