(* ===== verification/Fifo.thy ===== *)
theory Fifo
  imports Prelude
begin

text \<open>
  The contract of a bounded queue: a message is accepted exactly while there is room, and
  messages leave in the order they came. The locale derives from the laws of single operations
  what holds of any interleaving of senders and receivers: no message is lost, duplicated or
  reordered.
\<close>

datatype 'm queue_op = Put 'm | Get

locale fifo =
  fixes inv :: "'q \<Rightarrow> bool" and capacity :: nat and good :: "'m \<Rightarrow> bool"
    and contents :: "'q \<Rightarrow> 'm list"
    and put :: "'q \<Rightarrow> 'm \<Rightarrow> 'q option" and get :: "'q \<Rightarrow> ('m \<times> 'q) option"
  assumes contents_bound: "inv q \<Longrightarrow> length (contents q) \<le> capacity"
    and put_room: "inv q \<Longrightarrow> good m \<Longrightarrow> length (contents q) < capacity \<Longrightarrow>
      \<exists>q'. put q m = Some q' \<and> inv q' \<and> contents q' = contents q @ [m]"
    and put_full: "inv q \<Longrightarrow> length (contents q) = capacity \<Longrightarrow> put q m = None"
    and get_empty: "inv q \<Longrightarrow> contents q = [] \<Longrightarrow> get q = None"
    and get_first: "inv q \<Longrightarrow> contents q = m # ms \<Longrightarrow> \<exists>q'. get q = Some (m, q') \<and> inv q' \<and> contents q' = ms"
begin

text \<open>One request: the queue afterwards, what was accepted and what was delivered.\<close>

fun serve :: "'q \<Rightarrow> 'm queue_op \<Rightarrow> 'q \<times> 'm list \<times> 'm list" where
  "serve q (Put m) = (case put q m of Some q' \<Rightarrow> (q', [m], []) | None \<Rightarrow> (q, [], []))"
| "serve q Get = (case get q of Some (m, q') \<Rightarrow> (q', [], [m]) | None \<Rightarrow> (q, [], []))"

fun serve_all :: "'q \<Rightarrow> 'm queue_op list \<Rightarrow> 'q \<times> 'm list \<times> 'm list" where
  "serve_all q [] = (q, [], [])"
| "serve_all q (x # xs) =
     (let (q1, a1, d1) = serve q x; (q2, a2, d2) = serve_all q1 xs in (q2, a1 @ a2, d1 @ d2))"

definition good_op :: "'m queue_op \<Rightarrow> bool" where
  "good_op x \<longleftrightarrow> (case x of Put m \<Rightarrow> good m | Get \<Rightarrow> True)"

lemma serve_order:
  assumes "inv q" "good_op x" "serve q x = (q', a, d)"
  shows "inv q' \<and> contents q @ a = d @ contents q'"
proof (cases x)
  case (Put m)
  show ?thesis
  proof (cases "length (contents q) = capacity")
    case True
    with assms Put put_full [of q m] show ?thesis by simp
  next
    case False
    with contents_bound [of q] assms Put put_room [of q m] show ?thesis by (auto simp: good_op_def)
  qed
next
  case Get
  show ?thesis
  proof (cases "contents q")
    case Nil
    with assms Get get_empty [of q] show ?thesis by simp
  next
    case (Cons m ms)
    with assms Get get_first [of q m ms] show ?thesis by auto
  qed
qed

lemma serve_all_order:
  assumes "inv q" "\<forall>x\<in>set xs. good_op x" "serve_all q xs = (q', a, d)"
  shows "inv q' \<and> contents q @ a = d @ contents q'"
  using assms
proof (induction xs arbitrary: q q' a d)
  case Nil
  then show ?case by simp
next
  case (Cons x xs)
  obtain q1 a1 d1 where x: "serve q x = (q1, a1, d1)" by (cases "serve q x")
  obtain q2 a2 d2 where xs: "serve_all q1 xs = (q2, a2, d2)" by (cases "serve_all q1 xs")
  from Cons.prems x xs have e: "q' = q2" "a = a1 @ a2" "d = d1 @ d2" by auto
  have 1: "inv q1 \<and> contents q @ a1 = d1 @ contents q1" using Cons.prems x by (intro serve_order) auto
  then have "inv q2 \<and> contents q1 @ a2 = d2 @ contents q2" using Cons.prems xs by (intro Cons.IH) auto
  with 1 show ?case unfolding e by (metis append.assoc)
qed

end

end
