(* ===== verification/MsgBuf.thy ===== *)
theory MsgBuf
  imports Fifo
begin

text \<open>
  Message buffers, \<open>src/sys/pm/sysv/msg/buffer.c\<close>: a ring of \<open>NANVIX_MSG_LENGTH_MAX\<close> fixed-size
  messages in one byte array. \<open>msgbuf_put\<close> and \<open>msgbuf_get\<close> hand out a pointer into the array,
  which the model gives as the byte offset; \<^term>\<open>copy_in\<close> and \<^term>\<open>copy_out\<close> are the transfers the
  server then makes through that pointer. The ring implements the bounded queue of
  \<^term>\<open>fifo\<close>.
\<close>

definition NANVIX_MSG_MAX :: nat where "NANVIX_MSG_MAX = 16"
definition NANVIX_MSG_LENGTH_MAX :: nat where "NANVIX_MSG_LENGTH_MAX = 16"
definition NANVIX_MSG_SIZE_MAX :: nat where "NANVIX_MSG_SIZE_MAX = 256"

definition MSGBUF_SIZE :: nat where "MSGBUF_SIZE = NANVIX_MSG_LENGTH_MAX * NANVIX_MSG_SIZE_MAX"

record msgbuf =
  mb_len :: nat
  mb_size :: nat
  mb_head :: nat
  mb_tail :: nat
  mb_data :: "byte list"

definition msgbuf_alloc :: "msgbuf list \<Rightarrow> nat option \<times> msgbuf list" where
  "msgbuf_alloc buffers =
     (case first_index (\<lambda>b. mb_size b = 0) buffers of
        Some i \<Rightarrow> (Some i, buffers[i := (buffers ! i)\<lparr>mb_head := 0, mb_tail := 0,
                     mb_size := NANVIX_MSG_SIZE_MAX, mb_data := replicate MSGBUF_SIZE 0\<rparr>])
      | None \<Rightarrow> (None, buffers))"

definition msgbuf_free :: "msgbuf \<Rightarrow> msgbuf" where
  "msgbuf_free buf = buf\<lparr>mb_size := 0\<rparr>"

definition msgbuf_put :: "msgbuf \<Rightarrow> nat result \<times> msgbuf" where
  "msgbuf_put buf =
     (if mb_len buf = NANVIX_MSG_LENGTH_MAX then (Inl ENOSPC, buf)
      else (Inr (mb_tail buf), buf\<lparr>mb_len := mb_len buf + 1,
              mb_tail := (mb_tail buf + mb_size buf) mod MSGBUF_SIZE\<rparr>))"

definition msgbuf_get :: "msgbuf \<Rightarrow> nat result \<times> msgbuf" where
  "msgbuf_get buf =
     (if mb_len buf = 0 then (Inl ENOMSG, buf)
      else (Inr (mb_head buf), buf\<lparr>mb_len := mb_len buf - 1,
              mb_head := (mb_head buf + mb_size buf) mod MSGBUF_SIZE\<rparr>))"

definition msgbuf_init :: "msgbuf list \<Rightarrow> msgbuf list" where
  "msgbuf_init buffers = map (\<lambda>b. b\<lparr>mb_size := 0, mb_len := 0\<rparr>) buffers"

text \<open>Copies through the pointer; one that leaves the array is undefined.\<close>

definition copy_in :: "byte list \<Rightarrow> nat \<Rightarrow> byte list \<Rightarrow> byte list option" where
  "copy_in data off bytes =
     (if off + length bytes \<le> length data
      then Some (take off data @ bytes @ drop (off + length bytes) data) else None)"

definition copy_out :: "byte list \<Rightarrow> nat \<Rightarrow> nat \<Rightarrow> byte list option" where
  "copy_out data off n = (if off + n \<le> length data then Some (take n (drop off data)) else None)"

section \<open>The ring as a queue\<close>

text \<open>Message slots: the offsets a buffer hands out are multiples of the message size.\<close>

definition slot :: "msgbuf \<Rightarrow> nat \<Rightarrow> byte list" where
  "slot b k = take NANVIX_MSG_SIZE_MAX (drop (NANVIX_MSG_SIZE_MAX * k) (mb_data b))"

definition mb_first :: "msgbuf \<Rightarrow> nat" where "mb_first b = mb_head b div NANVIX_MSG_SIZE_MAX"

definition mb_contents :: "msgbuf \<Rightarrow> byte list list" where
  "mb_contents b = map (\<lambda>i. slot b ((mb_first b + i) mod NANVIX_MSG_LENGTH_MAX)) [0..<mb_len b]"

definition mb_inv :: "msgbuf \<Rightarrow> bool" where
  "mb_inv b \<longleftrightarrow> mb_size b = NANVIX_MSG_SIZE_MAX \<and> length (mb_data b) = MSGBUF_SIZE \<and>
     mb_len b \<le> NANVIX_MSG_LENGTH_MAX \<and> mb_first b < NANVIX_MSG_LENGTH_MAX \<and>
     mb_head b = NANVIX_MSG_SIZE_MAX * mb_first b \<and>
     mb_tail b = NANVIX_MSG_SIZE_MAX * ((mb_first b + mb_len b) mod NANVIX_MSG_LENGTH_MAX)"

definition mb_send :: "msgbuf \<Rightarrow> byte list \<Rightarrow> msgbuf option" where
  "mb_send b m = (case msgbuf_put b of
     (Inr off, b') \<Rightarrow> map_option (\<lambda>d. b'\<lparr>mb_data := d\<rparr>) (copy_in (mb_data b') off m)
   | (Inl _, _) \<Rightarrow> None)"

definition mb_receive :: "msgbuf \<Rightarrow> (byte list \<times> msgbuf) option" where
  "mb_receive b = (case msgbuf_get b of
     (Inr off, b') \<Rightarrow> map_option (\<lambda>m. (m, b')) (copy_out (mb_data b') off NANVIX_MSG_SIZE_MAX)
   | (Inl _, _) \<Rightarrow> None)"

lemmas msg_consts = NANVIX_MSG_LENGTH_MAX_def NANVIX_MSG_SIZE_MAX_def MSGBUF_SIZE_def

lemma slot_bound: "k < 16 \<Longrightarrow> 256 * k + 256 \<le> (4096 :: nat)"
  by simp

lemma ring_step: "(256 * k + 256) mod 4096 = 256 * (Suc k mod 16)" for k :: nat
proof -
  have "256 * k + 256 = 256 * Suc k" by simp
  then show ?thesis by (simp only: mult_mod_right) simp
qed

lemma take_drop_take: "a + n \<le> c \<Longrightarrow> take n (drop a (take c xs)) = take n (drop a xs)"
  by (simp add: drop_take min_def)

lemma mb_first_simps [simp]:
  "mb_first (b\<lparr>mb_len := n\<rparr>) = mb_first b" "mb_first (b\<lparr>mb_tail := t\<rparr>) = mb_first b"
  "mb_first (b\<lparr>mb_data := d\<rparr>) = mb_first b"
  "mb_first (b\<lparr>mb_head := h\<rparr>) = h div NANVIX_MSG_SIZE_MAX"
  by (simp_all add: mb_first_def)

lemma slot_simps [simp]:
  "slot (b\<lparr>mb_len := n\<rparr>) = slot b" "slot (b\<lparr>mb_tail := t\<rparr>) = slot b" "slot (b\<lparr>mb_head := h\<rparr>) = slot b"
  "slot (b\<lparr>mb_tail := t, mb_data := d\<rparr>) = slot (b\<lparr>mb_data := d\<rparr>)"
  "slot (b\<lparr>mb_len := n, mb_data := d\<rparr>) = slot (b\<lparr>mb_data := d\<rparr>)"
  by (simp_all add: slot_def fun_eq_iff)

lemma copy_in_slot:
  assumes "length (mb_data b) = MSGBUF_SIZE" "k < NANVIX_MSG_LENGTH_MAX" "length m = NANVIX_MSG_SIZE_MAX"
  obtains d where "copy_in (mb_data b) (NANVIX_MSG_SIZE_MAX * k) m = Some d" "length d = MSGBUF_SIZE"
    "slot (b\<lparr>mb_data := d\<rparr>) k = m"
    "\<And>j. j < NANVIX_MSG_LENGTH_MAX \<Longrightarrow> j \<noteq> k \<Longrightarrow> slot (b\<lparr>mb_data := d\<rparr>) j = slot b j"
proof -
  let ?data = "mb_data b" and ?o = "256 * k"
  let ?d = "take ?o ?data @ m @ drop (?o + 256) ?data"
  have len: "length ?data = 4096" "?o + 256 \<le> 4096" "length m = 256"
    using assms by (simp_all add: msg_consts)
  have "take 256 (drop (256 * j) ?d) = take 256 (drop (256 * j) ?data)" if "j < 16" "j \<noteq> k" for j
  proof (cases "j < k")
    case True
    then have "256 * j + 256 \<le> ?o" by simp
    then have "take 256 (drop (256 * j) (take ?o ?data)) = take 256 (drop (256 * j) ?data)"
      by (intro take_drop_take)
    with len \<open>256 * j + 256 \<le> ?o\<close> show ?thesis by simp
  next
    case False
    with that have "?o + 256 \<le> 256 * j" by simp
    then obtain r where r: "256 * j = ?o + 256 + r" using le_Suc_ex by blast
    with len show ?thesis by (simp add: add.commute)
  qed
  moreover have "take 256 (drop ?o ?d) = m" using len by simp
  ultimately show thesis
    using len by (intro that [of ?d]) (simp_all add: copy_in_def slot_def msg_consts)
qed


lemma mb_contents_length [simp]: "length (mb_contents b) = mb_len b"
  by (simp add: mb_contents_def)

lemma ring_fresh:
  assumes "i < n" "n < (16 :: nat)"
  shows "(f + i) mod 16 \<noteq> (f + n) mod 16"
proof
  assume "(f + i) mod 16 = (f + n) mod 16"
  then have "(f + n - (f + i)) mod 16 = 0" using assms by (intro mod_eq_dvd_iff_nat [THEN iffD1, THEN dvd_imp_mod_0]) simp_all
  with assms show False by simp
qed

lemma mb_send_room:
  assumes b: "mb_inv b" and m: "length m = NANVIX_MSG_SIZE_MAX" and room: "mb_len b < NANVIX_MSG_LENGTH_MAX"
  shows "\<exists>b'. mb_send b m = Some b' \<and> mb_inv b' \<and> mb_contents b' = mb_contents b @ [m]"
proof -
  let ?t = "(mb_first b + mb_len b) mod NANVIX_MSG_LENGTH_MAX"
  have t: "?t < NANVIX_MSG_LENGTH_MAX" by (simp add: msg_consts)
  obtain d where d: "copy_in (mb_data b) (NANVIX_MSG_SIZE_MAX * ?t) m = Some d" "length d = MSGBUF_SIZE"
    "slot (b\<lparr>mb_data := d\<rparr>) ?t = m"
    "\<And>j. j < NANVIX_MSG_LENGTH_MAX \<Longrightarrow> j \<noteq> ?t \<Longrightarrow> slot (b\<lparr>mb_data := d\<rparr>) j = slot b j"
    using b t m by (auto simp: mb_inv_def intro: copy_in_slot [of b ?t m])
  let ?b = "b\<lparr>mb_len := mb_len b + 1, mb_tail := (mb_tail b + mb_size b) mod MSGBUF_SIZE, mb_data := d\<rparr>"
  have send: "mb_send b m = Some ?b"
    using b room d(1) by (simp add: mb_send_def msgbuf_put_def mb_inv_def)
  have "mb_inv ?b"
    using b room d(2) by (simp add: mb_inv_def msg_consts ring_step mod_Suc_eq)
  moreover have "mb_contents ?b = mb_contents b @ [m]"
    using room d(3) ring_fresh [of _ "mb_len b" "mb_first b"]
    by (auto simp: mb_contents_def msg_consts intro!: d(4) [unfolded msg_consts])
  ultimately show ?thesis using send by blast
qed

lemma mb_receive_first:
  assumes b: "mb_inv b" and c: "mb_contents b = m # ms"
  shows "\<exists>b'. mb_receive b = Some (m, b') \<and> mb_inv b' \<and> mb_contents b' = ms"
proof -
  from c obtain n where n: "mb_len b = Suc n" by (metis length_Suc_conv mb_contents_length)
  let ?b = "b\<lparr>mb_len := n, mb_head := (mb_head b + mb_size b) mod MSGBUF_SIZE\<rparr>"
  have first: "mb_first ?b = Suc (mb_first b) mod 16"
    using b by (simp add: mb_inv_def msg_consts ring_step)
  have f: "mb_first b < 16" using b by (simp add: mb_inv_def msg_consts)
  have m: "m = slot b (mb_first b)" "ms = map (\<lambda>i. slot b ((mb_first b + i) mod 16)) [1..<Suc n]"
    using c f by (simp_all add: mb_contents_def n msg_consts upt_conv_Cons del: upt_Suc)
  have "copy_out (mb_data b) (mb_head b) NANVIX_MSG_SIZE_MAX = Some m"
    using b f by (simp add: copy_out_def mb_inv_def msg_consts m(1) slot_def)
  then have "mb_receive b = Some (m, ?b)" by (simp add: mb_receive_def msgbuf_get_def n)
  moreover have "mb_inv ?b"
    using b by (simp add: mb_inv_def n first) (simp add: msg_consts ring_step mod_simps)
  moreover have "mb_contents ?b = ms"
    unfolding m(2) mb_contents_def first slot_simps
    by (simp add: msg_consts mod_simps map_Suc_upt [symmetric] o_def del: upt_Suc map_Suc_upt)
  ultimately show ?thesis by blast
qed

interpretation ring: fifo mb_inv NANVIX_MSG_LENGTH_MAX "\<lambda>m. length m = NANVIX_MSG_SIZE_MAX" mb_contents mb_send mb_receive
proof
  fix b :: msgbuf and m :: "byte list" and ms
  assume b: "mb_inv b"
  show "length (mb_contents b) \<le> NANVIX_MSG_LENGTH_MAX" using b by (simp add: mb_inv_def)
  show "\<exists>b'. mb_send b m = Some b' \<and> mb_inv b' \<and> mb_contents b' = mb_contents b @ [m]"
    if "length m = NANVIX_MSG_SIZE_MAX" "length (mb_contents b) < NANVIX_MSG_LENGTH_MAX"
    using that b by (simp add: mb_send_room)
  show "mb_send b m = None" if "length (mb_contents b) = NANVIX_MSG_LENGTH_MAX"
    using that by (simp add: mb_send_def msgbuf_put_def)
  show "mb_receive b = None" if "mb_contents b = []"
    using that by (simp add: mb_receive_def msgbuf_get_def mb_contents_def)
  show "\<exists>b'. mb_receive b = Some (m, b') \<and> mb_inv b' \<and> mb_contents b' = ms" if "mb_contents b = m # ms"
    using b that by (rule mb_receive_first)
qed

lemma msgbuf_alloc_inv:
  assumes "first_index (\<lambda>b. mb_size b = 0) buffers = Some i" "mb_len (buffers ! i) = 0"
  shows "\<exists>b. msgbuf_alloc buffers = (Some i, buffers[i := b]) \<and> mb_inv b \<and> mb_contents b = []"
  using assms by (auto simp: msgbuf_alloc_def mb_inv_def mb_contents_def mb_first_def msg_consts)

end
