(* ===== verification/Msg.thy ===== *)
theory Msg
  imports Ipc MsgBuf
begin

text \<open>
  System V message queues, \<open>src/sys/pm/sysv/msg/msg.c\<close>, over the buffers of
  \<open>src/sys/pm/sysv/msg/buffer.c\<close>. The pointer to a buffer is its index in \<open>buffers\<close>. The
  out-parameter \<open>msgp\<close> of \<open>do_msg_send\<close> and \<open>do_msg_receive\<close> is a \<^term>\<open>msg_ref\<close> the operation
  returns; \<open>msgp_null\<close> says whether the caller passed \<open>NULL\<close>, and storing through it then is
  undefined, which is \<open>None\<close>.
\<close>

record 'r msg =
  msg_resource :: 'r
  msg_owner :: int
  msg_key :: int
  msg_refcount :: int
  msg_mode :: int
  msg_buf :: "nat option"

record 'r msg_state =
  mqueues :: "'r msg list"
  buffers :: "msgbuf list"
  msgnull :: "byte list"

datatype msg_ref = NullMsg | BufSlot nat nat

definition msgid_is_valid :: "int \<Rightarrow> bool" where
  "msgid_is_valid x \<longleftrightarrow> 0 \<le> x \<and> x < int NANVIX_MSG_MAX"

definition msg_update :: "'r msg_state \<Rightarrow> nat \<Rightarrow> ('r msg \<Rightarrow> 'r msg) \<Rightarrow> 'r msg_state" where
  "msg_update st i f = st\<lparr>mqueues := (mqueues st)[i := f (mqueues st ! i)]\<rparr>"

text \<open>The label \<open>found\<close> at the end of \<open>do_msg_get\<close>.\<close>

definition msg_found :: "'r msg_state \<Rightarrow> nat \<Rightarrow> int result \<times> 'r msg_state" where
  "msg_found st i =
     (Inr (int i), msg_update st i (\<lambda>q. q\<lparr>msg_refcount := msg_refcount q + 1\<rparr>))"

definition do_msg_get :: "'r resource_ops \<Rightarrow> int \<Rightarrow> 'r msg_state \<Rightarrow> int \<Rightarrow> ipc_flags \<Rightarrow> int result \<times> 'r msg_state" where
  "do_msg_get R priv st key msgflg =
     (if key = priv then (Inl ENOTSUP, st)
      else if \<not> IPC_CREAT msgflg \<and> IPC_EXCL msgflg then (Inl EINVAL, st)
      else (case first_index (\<lambda>q. resource_is_used R (msg_resource q) \<and> msg_key q = key) (mqueues st) of
              Some i \<Rightarrow> if IPC_CREAT msgflg \<and> IPC_EXCL msgflg then (Inl EEXIST, st) else msg_found st i
            | None \<Rightarrow>
                if \<not> IPC_CREAT msgflg then (Inl ENOENT, st)
                else (case resource_alloc R (map msg_resource (mqueues st)) of
                        None \<Rightarrow> (Inl ENOMEM, st)
                      | Some (i, r) \<Rightarrow>
                          msg_found (msg_update st i (\<lambda>q. q\<lparr>msg_resource := r, msg_key := key\<rparr>)) i)))"

definition do_msg_close :: "'r resource_ops \<Rightarrow> 'r msg_state \<Rightarrow> int \<Rightarrow> int result \<times> 'r msg_state" where
  "do_msg_close R st msgid =
     (if \<not> msgid_is_valid msgid then (Inl EINVAL, st)
      else if \<not> resource_is_used R (msg_resource (mqueues st ! nat msgid)) then (Inl EINVAL, st)
      else (let st1 = msg_update st (nat msgid) (\<lambda>q. q\<lparr>msg_refcount := msg_refcount q - 1\<rparr>)
            in (Inr 0, if msg_refcount (mqueues st1 ! nat msgid) = 0
                       then msg_update st1 (nat msgid) (\<lambda>q. q\<lparr>msg_resource := resource_free R (msg_resource q)\<rparr>)
                       else st1)))"

text \<open>\<open>goto error\<close> of \<open>do_msg_send\<close>: point the caller at the null message.\<close>

definition msg_send_error :: "'r msg_state \<Rightarrow> bool \<Rightarrow> errno \<Rightarrow> (int result \<times> msg_ref option \<times> 'r msg_state) option" where
  "msg_send_error st msgp_null e = (if msgp_null then None else Some (Inl e, Some NullMsg, st))"

definition do_msg_send :: "'r resource_ops \<Rightarrow> 'r msg_state \<Rightarrow> int \<Rightarrow> bool \<Rightarrow> nat \<Rightarrow> ipc_flags \<Rightarrow>
    (int result \<times> msg_ref option \<times> 'r msg_state) option" where
  "do_msg_send R st msgid msgp_null msgsz msgflg =
     (if \<not> IPC_NOWAIT msgflg then msg_send_error st msgp_null ENOTSUP
      else if \<not> msgid_is_valid msgid then msg_send_error st msgp_null EINVAL
      else if \<not> resource_is_used R (msg_resource (mqueues st ! nat msgid)) then msg_send_error st msgp_null EINVAL
      else if msgp_null then Some (Inl EINVAL, None, st)
      else if msgsz \<noteq> NANVIX_MSG_SIZE_MAX then msg_send_error st msgp_null EINVAL
      else do {
        b \<leftarrow> msg_buf (mqueues st ! nat msgid);
        case msgbuf_put (buffers st ! b) of
          (Inl _, _) \<Rightarrow> msg_send_error st msgp_null EAGAIN
        | (Inr off, buf) \<Rightarrow> Some (Inr 0, Some (BufSlot b off), st\<lparr>buffers := (buffers st)[b := buf]\<rparr>) })"

definition do_msg_receive :: "'r resource_ops \<Rightarrow> 'r msg_state \<Rightarrow> int \<Rightarrow> bool \<Rightarrow> nat \<Rightarrow> int \<Rightarrow> ipc_flags \<Rightarrow>
    (int result \<times> msg_ref option \<times> 'r msg_state) option" where
  "do_msg_receive R st msgid msgp_null msgsz msgtyp msgflg =
     (if \<not> IPC_NOWAIT msgflg then Some (Inl ENOTSUP, None, st)
      else if \<not> msgid_is_valid msgid then Some (Inl EINVAL, None, st)
      else if \<not> resource_is_used R (msg_resource (mqueues st ! nat msgid)) then Some (Inl EINVAL, None, st)
      else if msgp_null then Some (Inl EINVAL, None, st)
      else if msgsz \<noteq> NANVIX_MSG_SIZE_MAX then Some (Inl EINVAL, None, st)
      else do {
        b \<leftarrow> msg_buf (mqueues st ! nat msgid);
        case msgbuf_get (buffers st ! b) of
          (Inl e, _) \<Rightarrow> Some (Inl e, None, st)
        | (Inr off, buf) \<Rightarrow> Some (Inr 0, Some (BufSlot b off), st\<lparr>buffers := (buffers st)[b := buf]\<rparr>) })"

text \<open>The loop of \<open>do_msg_init\<close> over the queues \<open>i\<close>, \<open>i + 1\<close>, ...\<close>

fun msg_init_queues :: "'r resource_ops \<Rightarrow> 'r msg list \<Rightarrow> msgbuf list \<Rightarrow> 'r msg list \<times> msgbuf list" where
  "msg_init_queues R [] bs = ([], bs)"
| "msg_init_queues R (q # qs) bs =
     (let (b, bs1) = msgbuf_alloc bs;
          (qs', bs2) = msg_init_queues R qs bs1
      in (q\<lparr>msg_refcount := 0, msg_buf := b, msg_resource := resource_initializer R\<rparr> # qs', bs2))"

definition do_msg_init :: "'r resource_ops \<Rightarrow> 'r msg_state \<Rightarrow> 'r msg_state" where
  "do_msg_init R st =
     (let (qs, bs) = msg_init_queues R (mqueues st) (msgbuf_init (buffers st))
      in st\<lparr>mqueues := qs, buffers := bs\<rparr>)"

text \<open>
  What the server does with the pointer: \<open>kportal_read\<close> stores the sender's bytes through it,
  \<open>kportal_write\<close> reads them back. Leaving the buffer, or the null message, is undefined.
\<close>

definition msg_store :: "'r msg_state \<Rightarrow> msg_ref \<Rightarrow> byte list \<Rightarrow> 'r msg_state option" where
  "msg_store st r bytes = (case r of
     NullMsg \<Rightarrow> map_option (\<lambda>d. st\<lparr>msgnull := d\<rparr>) (copy_in (msgnull st) 0 bytes)
   | BufSlot b off \<Rightarrow> map_option (\<lambda>d. st\<lparr>buffers := (buffers st)[b := (buffers st ! b)\<lparr>mb_data := d\<rparr>]\<rparr>)
       (copy_in (mb_data (buffers st ! b)) off bytes))"

definition msg_fetch :: "'r msg_state \<Rightarrow> msg_ref \<Rightarrow> nat \<Rightarrow> byte list option" where
  "msg_fetch st r n = (case r of
     NullMsg \<Rightarrow> copy_out (msgnull st) 0 n
   | BufSlot b off \<Rightarrow> copy_out (mb_data (buffers st ! b)) off n)"

section \<open>Invariant\<close>

definition msg_slot :: "'r resource_ops \<Rightarrow> 'r msg \<Rightarrow> int option" where
  "msg_slot R q = (if resource_is_used R (msg_resource q) then Some (msg_key q) else None)"

text \<open>
  Queue \<open>i\<close> owns buffer \<open>i\<close>, every buffer is a well-formed ring, keys are unique and a queue is
  in use exactly while it is referenced.
\<close>

definition msg_inv :: "'r resource_ops \<Rightarrow> 'r msg_state \<Rightarrow> bool" where
  "msg_inv R st \<longleftrightarrow> length (mqueues st) = NANVIX_MSG_MAX \<and> length (buffers st) = NANVIX_MSG_MAX \<and>
     length (msgnull st) = NANVIX_MSG_SIZE_MAX \<and>
     slots_counted (msg_slot R) msg_refcount (mqueues st) \<and>
     (\<forall>i<NANVIX_MSG_MAX. msg_buf (mqueues st ! i) = Some i) \<and> (\<forall>b\<in>set (buffers st). mb_inv b)"

definition queue_contents :: "'r msg_state \<Rightarrow> nat \<Rightarrow> byte list list" where
  "queue_contents st i = mb_contents (buffers st ! i)"


lemma msg_slot_simps [simp]:
  "msg_slot R (q\<lparr>msg_refcount := n\<rparr>) = msg_slot R q"
  "msg_slot R (q\<lparr>msg_resource := r, msg_key := k\<rparr>) = (if resource_is_used R r then Some k else None)"
  by (simp_all add: msg_slot_def)

lemma msg_slot_used: "resource_is_used R (msg_resource q) \<longleftrightarrow> msg_slot R q \<noteq> None"
  by (simp add: msg_slot_def)

lemma msg_slot_key: "resource_is_used R (msg_resource q) \<and> msg_key q = k \<longleftrightarrow> msg_slot R q = Some k"
  by (simp add: msg_slot_def)

lemma msg_update_sel [simp]:
  "mqueues (msg_update st i f) = (mqueues st)[i := f (mqueues st ! i)]"
  "buffers (msg_update st i f) = buffers st"
  "queue_contents (msg_update st i f) = queue_contents st"
  by (simp_all add: msg_update_def queue_contents_def fun_eq_iff)

lemma msg_invD:
  assumes "msg_inv R st"
  shows msg_inv_length: "length (mqueues st) = NANVIX_MSG_MAX" "length (buffers st) = NANVIX_MSG_MAX"
    and msg_inv_counted: "slots_counted (msg_slot R) msg_refcount (mqueues st)"
    and msg_inv_buf: "i < NANVIX_MSG_MAX \<Longrightarrow> msg_buf (mqueues st ! i) = Some i"
    and msg_inv_ring: "i < NANVIX_MSG_MAX \<Longrightarrow> mb_inv (buffers st ! i)"
  using assms by (auto simp: msg_inv_def)

lemma msgid_nat: "msgid_is_valid x \<Longrightarrow> nat x < NANVIX_MSG_MAX"
  by (auto simp: msgid_is_valid_def)

lemma msg_inv_update:
  assumes "msg_inv R st" "i < NANVIX_MSG_MAX" "msg_buf (f (mqueues st ! i)) = msg_buf (mqueues st ! i)"
    and "slots_counted (msg_slot R) msg_refcount ((mqueues st)[i := f (mqueues st ! i)])"
  shows "msg_inv R (msg_update st i f)"
  using assms by (auto simp: msg_inv_def msg_update_def nth_list_update)

lemma msg_inv_ring_update:
  assumes "msg_inv R st" "mb_inv b"
  shows "msg_inv R (st\<lparr>buffers := (buffers st)[i := b]\<rparr>)"
proof -
  have "\<forall>x\<in>set ((buffers st)[i := b]). mb_inv x"
    using assms by (intro ball_update) (simp_all add: msg_inv_def)
  with assms(1) show ?thesis by (simp add: msg_inv_def)
qed

section \<open>Initialisation\<close>

lemma msg_init_queues_spec:
  assumes "\<forall>b\<in>set dn. mb_size b \<noteq> 0 \<and> mb_inv b \<and> mb_contents b = []"
    and "\<forall>b\<in>set todo. mb_size b = 0 \<and> mb_len b = 0" "length todo = length qs"
    and "msg_init_queues R qs (dn @ todo) = (qs', bs)"
  shows "length qs' = length qs \<and> length bs = length dn + length todo \<and>
    (\<forall>b\<in>set bs. mb_inv b \<and> mb_contents b = []) \<and>
    (\<forall>k<length qs. msg_buf (qs' ! k) = Some (length dn + k) \<and> msg_refcount (qs' ! k) = 0 \<and>
       msg_resource (qs' ! k) = resource_initializer R)"
  using assms
proof (induction qs arbitrary: dn todo qs' bs)
  case Nil
  then show ?case by auto
next
  case (Cons q qs)
  from Cons.prems(3) obtain t todo' where todo: "todo = t # todo'" by (cases todo) simp_all
  have f: "first_index (\<lambda>b. mb_size b = 0) (dn @ t # todo') = Some (length dn)"
    using Cons.prems(1,2) todo by (intro first_index_append) auto
  obtain b where b: "msgbuf_alloc (dn @ t # todo') = (Some (length dn), (dn @ t # todo')[length dn := b])"
    "mb_inv b" "mb_contents b = []"
    using msgbuf_alloc_inv [OF f] Cons.prems(2) todo by auto
  obtain qs2 bs2 where r: "msg_init_queues R qs ((dn @ [b]) @ todo') = (qs2, bs2)"
    by (cases "msg_init_queues R qs ((dn @ [b]) @ todo')")
  have eq: "qs' = q\<lparr>msg_refcount := 0, msg_buf := Some (length dn), msg_resource := resource_initializer R\<rparr> # qs2"
    "bs = bs2" using Cons.prems(4) b(1) r by (auto simp: todo)
  have "mb_size b \<noteq> 0" using b(2) by (simp add: mb_inv_def msg_consts)
  with Cons.prems b have dn: "\<forall>b\<in>set (dn @ [b]). mb_size b \<noteq> 0 \<and> mb_inv b \<and> mb_contents b = []" by auto
  have "\<forall>b\<in>set todo'. mb_size b = 0 \<and> mb_len b = 0" "length todo' = length qs"
    using Cons.prems todo by auto
  note IH = Cons.IH [OF dn this r]
  show ?case
    using IH by (auto simp: eq todo less_Suc_eq_0_disj)
qed

lemma msg_inv_init:
  assumes R: "resource_laws R" and len: "length (mqueues st) = NANVIX_MSG_MAX" "length (buffers st) = NANVIX_MSG_MAX"
    "length (msgnull st) = NANVIX_MSG_SIZE_MAX"
  shows "msg_inv R (do_msg_init R st)" "i < NANVIX_MSG_MAX \<Longrightarrow> queue_contents (do_msg_init R st) i = []"
proof -
  obtain qs bs where r: "msg_init_queues R (mqueues st) ([] @ msgbuf_init (buffers st)) = (qs, bs)"
    by (cases "msg_init_queues R (mqueues st) ([] @ msgbuf_init (buffers st))")
  have "length qs = NANVIX_MSG_MAX \<and> length bs = NANVIX_MSG_MAX \<and> (\<forall>b\<in>set bs. mb_inv b \<and> mb_contents b = []) \<and>
    (\<forall>k<NANVIX_MSG_MAX. msg_buf (qs ! k) = Some k \<and> msg_refcount (qs ! k) = 0 \<and> msg_resource (qs ! k) = resource_initializer R)"
  proof -
    have "\<forall>b\<in>set (msgbuf_init (buffers st)). mb_size b = 0 \<and> mb_len b = 0"
      "length (msgbuf_init (buffers st)) = length (mqueues st)" using len by (simp_all add: msgbuf_init_def)
    from msg_init_queues_spec [OF _ this r] len show ?thesis by (simp add: msgbuf_init_def)
  qed
  moreover from this have "slots_counted (msg_slot R) msg_refcount qs"
    using R by (intro slots_counted_init) (auto simp: in_set_conv_nth msg_slot_def)
  ultimately show "msg_inv R (do_msg_init R st)" "i < NANVIX_MSG_MAX \<Longrightarrow> queue_contents (do_msg_init R st) i = []"
    using r len(3) by (simp_all add: do_msg_init_def msg_inv_def queue_contents_def)
qed

section \<open>Opening and closing\<close>

lemma msg_get_inv:
  assumes R: "resource_laws R" and inv: "msg_inv R st"
  shows "msg_inv R (snd (do_msg_get R priv st key flg))"
    and "queue_contents (snd (do_msg_get R priv st key flg)) = queue_contents st"
proof -
  let ?f = "first_index (\<lambda>q. resource_is_used R (msg_resource q) \<and> msg_key q = key) (mqueues st)"
  let ?a = "resource_alloc R (map msg_resource (mqueues st))"
  note len = msg_inv_length [OF inv] and cnt = msg_inv_counted [OF inv]
  have found: "msg_inv R (snd (msg_found st i)) \<and> queue_contents (snd (msg_found st i)) = queue_contents st"
    if "?f = Some i" for i
  proof -
    have i: "i < length (mqueues st)" "msg_slot R (mqueues st ! i) = Some key"
      using first_index_bound [OF that] first_index_sat [OF that] by (auto simp: msg_slot_key)
    with slots_counted_pos [OF cnt i] have "slots_counted (msg_slot R) msg_refcount
        ((mqueues st)[i := (mqueues st ! i)\<lparr>msg_refcount := msg_refcount (mqueues st ! i) + 1\<rparr>])"
      by (intro slots_counted_keep [OF cnt]) simp_all
    with i len show ?thesis by (simp add: msg_found_def msg_inv_update [OF inv])
  qed
  have fresh: "msg_inv R (snd (msg_found (msg_update st i (\<lambda>q. q\<lparr>msg_resource := r, msg_key := key\<rparr>)) i))"
    if "?f = None" "?a = Some (i, r)" for i r
  proof -
    note A = resource_allocD [OF R that(2)]
    have none: "msg_slot R (mqueues st ! j) \<noteq> Some key" if "j < length (mqueues st)" for j
      using \<open>?f = None\<close> that by (simp add: first_index_None_iff msg_slot_key)
    have "msg_refcount (mqueues st ! i) = 0" using A slots_counted_zero [OF cnt] by (simp add: msg_slot_def)
    then have "slots_counted (msg_slot R) msg_refcount ((mqueues st)[i := (mqueues st ! i)
        \<lparr>msg_resource := r, msg_key := key, msg_refcount := msg_refcount (mqueues st ! i) + 1\<rparr>])"
      using A none by (intro slots_counted_take [OF cnt, where k = key]) simp_all
    moreover have "snd (msg_found (msg_update st i (\<lambda>q. q\<lparr>msg_resource := r, msg_key := key\<rparr>)) i) =
        msg_update st i (\<lambda>q. q\<lparr>msg_resource := r, msg_key := key, msg_refcount := msg_refcount q + 1\<rparr>)"
      using A(1) by (simp add: msg_found_def msg_update_def)
    ultimately show ?thesis using A(1) len by (simp add: msg_inv_update [OF inv])
  qed
  show "msg_inv R (snd (do_msg_get R priv st key flg))"
    using inv found fresh by (auto simp: do_msg_get_def split: option.splits prod.splits)
  show "queue_contents (snd (do_msg_get R priv st key flg)) = queue_contents st"
    by (auto simp: do_msg_get_def msg_found_def split: option.splits prod.splits)
qed

lemma msg_close_inv:
  assumes R: "resource_laws R" and inv: "msg_inv R st"
  shows "msg_inv R (snd (do_msg_close R st msgid))"
    and "queue_contents (snd (do_msg_close R st msgid)) = queue_contents st"
proof -
  let ?i = "nat msgid"
  let ?q = "mqueues st ! ?i"
  note cnt = msg_inv_counted [OF inv]
  show "msg_inv R (snd (do_msg_close R st msgid))"
  proof (cases "msgid_is_valid msgid \<and> msg_slot R ?q \<noteq> None")
    case False
    with inv show ?thesis by (auto simp: do_msg_close_def msg_slot_used)
  next
    case True
    then obtain k where i: "?i < length (mqueues st)" "?i < NANVIX_MSG_MAX" and k: "msg_slot R ?q = Some k"
      using msgid_nat msg_inv_length [OF inv] by auto
    have "slots_counted (msg_slot R) msg_refcount ((mqueues st)[?i := ?q
        \<lparr>msg_refcount := 0, msg_resource := resource_free R (msg_resource ?q)\<rparr>])"
      using R i by (intro slots_counted_release [OF cnt]) (simp_all add: msg_slot_def)
    moreover have "slots_counted (msg_slot R) msg_refcount ((mqueues st)[?i := ?q\<lparr>msg_refcount := msg_refcount ?q - 1\<rparr>])"
      if "msg_refcount ?q \<noteq> 1"
      using that i k slots_counted_pos [OF cnt i(1) k] by (intro slots_counted_keep [OF cnt]) simp_all
    moreover have "snd (do_msg_close R st msgid) = (if msg_refcount ?q = 1
        then msg_update st ?i (\<lambda>q. q\<lparr>msg_refcount := 0, msg_resource := resource_free R (msg_resource q)\<rparr>)
        else msg_update st ?i (\<lambda>q. q\<lparr>msg_refcount := msg_refcount q - 1\<rparr>))"
      using i True by (simp add: do_msg_close_def msg_slot_used msg_update_def)
    ultimately show ?thesis using i by (simp add: msg_inv_update [OF inv])
  qed
  show "queue_contents (snd (do_msg_close R st msgid)) = queue_contents st"
    by (simp add: do_msg_close_def Let_def)
qed

section \<open>A queue as a bounded FIFO\<close>

text \<open>A send or receive request together with the transfer the server makes for it.\<close>

definition queue_send :: "'r resource_ops \<Rightarrow> nat \<Rightarrow> 'r msg_state \<Rightarrow> byte list \<Rightarrow> 'r msg_state option" where
  "queue_send R i st m = (case do_msg_send R st (int i) False (length m) ipc_nowait of
     Some (Inr _, Some r, st') \<Rightarrow> msg_store st' r m | _ \<Rightarrow> None)"

definition queue_receive :: "'r resource_ops \<Rightarrow> nat \<Rightarrow> 'r msg_state \<Rightarrow> (byte list \<times> 'r msg_state) option" where
  "queue_receive R i st = (case do_msg_receive R st (int i) False NANVIX_MSG_SIZE_MAX 0 ipc_nowait of
     Some (Inr _, Some r, st') \<Rightarrow> map_option (\<lambda>m. (m, st')) (msg_fetch st' r NANVIX_MSG_SIZE_MAX)
   | _ \<Rightarrow> None)"

definition queue_open :: "'r resource_ops \<Rightarrow> nat \<Rightarrow> 'r msg_state \<Rightarrow> bool" where
  "queue_open R i st \<longleftrightarrow> msg_inv R st \<and> i < NANVIX_MSG_MAX \<and> msg_slot R (mqueues st ! i) \<noteq> None"

lemma queue_openD:
  assumes "queue_open R i st"
  shows "msg_inv R st" "i < NANVIX_MSG_MAX" "msgid_is_valid (int i)"
    "resource_is_used R (msg_resource (mqueues st ! i))" "msg_buf (mqueues st ! i) = Some i"
    "mb_inv (buffers st ! i)" "i < length (buffers st)"
  using assms by (auto simp: queue_open_def msg_slot_used msgid_is_valid_def msg_inv_buf msg_inv_ring msg_inv_length)

lemma do_msg_send_open:
  assumes "queue_open R i st" "n = NANVIX_MSG_SIZE_MAX"
  shows "do_msg_send R st (int i) False n ipc_nowait =
    (case msgbuf_put (buffers st ! i) of
       (Inl _, _) \<Rightarrow> Some (Inl EAGAIN, Some NullMsg, st)
     | (Inr off, b) \<Rightarrow> Some (Inr 0, Some (BufSlot i off), st\<lparr>buffers := (buffers st)[i := b]\<rparr>))"
  using queue_openD [OF assms(1)] assms(2)
  by (simp add: do_msg_send_def ipc_nowait_def msg_send_error_def split: prod.split sum.split)

lemma do_msg_receive_open:
  assumes "queue_open R i st" "n = NANVIX_MSG_SIZE_MAX"
  shows "do_msg_receive R st (int i) False n t ipc_nowait =
    (case msgbuf_get (buffers st ! i) of
       (Inl e, _) \<Rightarrow> Some (Inl e, None, st)
     | (Inr off, b) \<Rightarrow> Some (Inr 0, Some (BufSlot i off), st\<lparr>buffers := (buffers st)[i := b]\<rparr>))"
  using queue_openD [OF assms(1)] assms(2)
  by (simp add: do_msg_receive_def ipc_nowait_def)

lemma queue_send_ring:
  assumes "queue_open R i st" "length m = NANVIX_MSG_SIZE_MAX"
  shows "queue_send R i st m =
    map_option (\<lambda>b. st\<lparr>buffers := (buffers st)[i := b]\<rparr>) (mb_send (buffers st ! i) m)"
proof -
  let ?b = "buffers st ! i"
  have send: "queue_send R i st m =
      (case msgbuf_put ?b of (Inl _, _) \<Rightarrow> None
       | (Inr off, b) \<Rightarrow> msg_store (st\<lparr>buffers := (buffers st)[i := b]\<rparr>) (BufSlot i off) m)"
    unfolding queue_send_def do_msg_send_open [OF assms] by (simp split: prod.split sum.split)
  show ?thesis
    unfolding send mb_send_def using queue_openD(7) [OF assms(1)]
    by (cases "msgbuf_put ?b"; cases "fst (msgbuf_put ?b)")
      (simp_all add: msg_store_def option.map_comp o_def)
qed

lemma queue_receive_ring:
  assumes "queue_open R i st"
  shows "queue_receive R i st =
    map_option (\<lambda>(m, b). (m, st\<lparr>buffers := (buffers st)[i := b]\<rparr>)) (mb_receive (buffers st ! i))"
proof -
  let ?b = "buffers st ! i"
  have get: "queue_receive R i st =
      (case msgbuf_get ?b of (Inl _, _) \<Rightarrow> None
       | (Inr off, b) \<Rightarrow> map_option (\<lambda>m. (m, st\<lparr>buffers := (buffers st)[i := b]\<rparr>))
           (msg_fetch (st\<lparr>buffers := (buffers st)[i := b]\<rparr>) (BufSlot i off) NANVIX_MSG_SIZE_MAX))"
    unfolding queue_receive_def do_msg_receive_open [OF assms refl] by (simp split: prod.split sum.split)
  show ?thesis
    unfolding get mb_receive_def using queue_openD(7) [OF assms(1)]
    by (cases "msgbuf_get ?b"; cases "fst (msgbuf_get ?b)")
      (simp_all add: msg_fetch_def option.map_comp o_def)
qed

lemma queue_open_ring:
  "queue_open R i st \<Longrightarrow> mb_inv b \<Longrightarrow> queue_open R i (st\<lparr>buffers := (buffers st)[j := b]\<rparr>)"
  by (simp add: queue_open_def msg_inv_ring_update)

lemma queue_contents_ring:
  "i < length (buffers st) \<Longrightarrow> queue_contents (st\<lparr>buffers := (buffers st)[i := b]\<rparr>) i = mb_contents b"
  "j \<noteq> i \<Longrightarrow> queue_contents (st\<lparr>buffers := (buffers st)[i := b]\<rparr>) j = queue_contents st j"
  by (simp_all add: queue_contents_def)

lemma queue_send_full:
  assumes "queue_open R i st" "length (queue_contents st i) = NANVIX_MSG_LENGTH_MAX"
  shows "queue_send R i st m = None"
proof (cases "length m = NANVIX_MSG_SIZE_MAX")
  case True
  have "mb_send (buffers st ! i) m = None"
    using assms queue_openD(6) [OF assms(1)] by (intro ring.put_full) (simp_all add: queue_contents_def)
  with True show ?thesis by (simp add: queue_send_ring [OF assms(1)])
next
  case False
  with queue_openD [OF assms(1)] show ?thesis
    by (simp add: queue_send_def do_msg_send_def ipc_nowait_def msg_send_error_def)
qed

interpretation queue: fifo "queue_open R i" NANVIX_MSG_LENGTH_MAX "\<lambda>m. length m = NANVIX_MSG_SIZE_MAX"
  "\<lambda>st. queue_contents st i" "queue_send R i" "queue_receive R i" for R :: "'r resource_ops" and i
proof
  fix st :: "'r msg_state" and m :: "byte list" and ms
  assume q: "queue_open R i st"
  note b = queue_openD(6) [OF q] and i = queue_openD(7) [OF q]
  show "length (queue_contents st i) \<le> NANVIX_MSG_LENGTH_MAX"
    using ring.contents_bound [OF b] by (simp add: queue_contents_def)
  show "\<exists>st'. queue_send R i st m = Some st' \<and> queue_open R i st' \<and> queue_contents st' i = queue_contents st i @ [m]"
    if "length m = NANVIX_MSG_SIZE_MAX" "length (queue_contents st i) < NANVIX_MSG_LENGTH_MAX"
    using ring.put_room [OF b that(1)] that i
    by (auto simp: queue_send_ring [OF q] queue_contents_def queue_open_ring [OF q])
  show "queue_send R i st m = None" if "length (queue_contents st i) = NANVIX_MSG_LENGTH_MAX"
    by (rule queue_send_full [OF q that])
  show "queue_receive R i st = None" if "queue_contents st i = []"
    using that ring.get_empty [OF b] by (simp add: queue_receive_ring [OF q] queue_contents_def)
  show "\<exists>st'. queue_receive R i st = Some (m, st') \<and> queue_open R i st' \<and> queue_contents st' i = ms"
    if "queue_contents st i = m # ms"
    using that ring.get_first [OF b] i
    by (auto simp: queue_receive_ring [OF q] queue_contents_def queue_open_ring [OF q])
qed


section \<open>Properties\<close>

text \<open>
  A history of requests on queue \<open>i\<close>, with the messages accepted and the messages delivered. A
  refused request leaves the state as it is.
\<close>

fun queue_history :: "'r resource_ops \<Rightarrow> nat \<Rightarrow> 'r msg_state \<Rightarrow> byte list queue_op list \<Rightarrow>
    'r msg_state \<times> byte list list \<times> byte list list" where
  "queue_history R i st [] = (st, [], [])"
| "queue_history R i st (Put m # ops) = (case queue_send R i st m of
     None \<Rightarrow> queue_history R i st ops
   | Some st' \<Rightarrow> (case queue_history R i st' ops of (st2, a, d) \<Rightarrow> (st2, m # a, d)))"
| "queue_history R i st (Get # ops) = (case queue_receive R i st of
     None \<Rightarrow> queue_history R i st ops
   | Some (m, st') \<Rightarrow> (case queue_history R i st' ops of (st2, a, d) \<Rightarrow> (st2, a, m # d)))"

lemma queue_history_serve: "queue_history R i st ops = queue.serve_all R i st ops"
  by (induction R i st ops rule: queue_history.induct) (auto split: option.splits prod.splits)

lemma queue_ops_frame:
  assumes "queue_open R i st" "j \<noteq> i"
  shows "length m = NANVIX_MSG_SIZE_MAX \<Longrightarrow> queue_send R i st m = Some st' \<Longrightarrow> queue_contents st' j = queue_contents st j"
    and "queue_receive R i st = Some (m', st') \<Longrightarrow> queue_contents st' j = queue_contents st j"
  using assms(2) by (auto simp: queue_send_ring [OF assms(1)] queue_receive_ring [OF assms(1)] queue_contents_ring)

lemma queue_history_frame:
  assumes "queue_open R i st" "\<forall>m. Put m \<in> set ops \<longrightarrow> length m = NANVIX_MSG_SIZE_MAX" "j \<noteq> i"
    "queue_history R i st ops = (st', a, d)"
  shows "queue_contents st' j = queue_contents st j"
  using assms
proof (induction R i st ops arbitrary: a d rule: queue_history.induct)
  case (1 R i st)
  then show ?case by simp
next
  case (2 R i st m ops)
  have m: "length m = NANVIX_MSG_SIZE_MAX" using "2.prems"(2) by simp
  show ?case
  proof (cases "queue_send R i st m")
    case None
    with "2.prems" "2.IH"(1) show ?thesis by auto
  next
    case (Some st1)
    have "queue_open R i st1"
      using queue.serve_order [OF "2.prems"(1), of "Put m" st1] Some m by (simp add: queue.good_op_def)
    with "2.prems" "2.IH"(2) [OF Some] queue_ops_frame(1) [OF "2.prems"(1,3) m Some] Some
    show ?thesis by (auto split: prod.splits)
  qed
next
  case (3 R i st ops)
  show ?case
  proof (cases "queue_receive R i st")
    case None
    with "3.prems" "3.IH"(1) show ?thesis by auto
  next
    case (Some ms)
    obtain m st1 where ms: "ms = (m, st1)" by (cases ms)
    have "queue_open R i st1"
      using queue.serve_order [OF "3.prems"(1), of Get st1] Some ms by (simp add: queue.good_op_def)
    with "3.prems" "3.IH"(2) [OF Some ms [symmetric]] queue_ops_frame(2) [OF "3.prems"(1,3)] Some ms
    show ?thesis by (auto split: prod.splits)
  qed
qed

definition msg_static :: "flags msg_state" where
  "msg_static = \<lparr>mqueues = replicate NANVIX_MSG_MAX \<lparr>msg_resource = plain_clear, msg_owner = 0, msg_key = 0,
     msg_refcount = 0, msg_mode = 0, msg_buf = None\<rparr>,
     buffers = replicate NANVIX_MSG_MAX \<lparr>mb_len = 0, mb_size = 0, mb_head = 0, mb_tail = 0,
       mb_data = replicate MSGBUF_SIZE 0\<rparr>,
     msgnull = replicate NANVIX_MSG_SIZE_MAX 0\<rparr>"

text \<open>The state after boot and the creation of one queue.\<close>

definition msg_one_queue :: "flags msg_state" where
  "msg_one_queue = snd (do_msg_get plain_resource (-1) (do_msg_init plain_resource msg_static) 100 ipc_creat)"

lemma msg_static_inv: "msg_inv plain_resource (do_msg_init plain_resource msg_static)"
  by (rule msg_inv_init) (simp_all add: msg_static_def)

lemma msg_static_queue:
  "i < NANVIX_MSG_MAX \<Longrightarrow> msg_resource (mqueues (do_msg_init plain_resource msg_static) ! i) = plain_clear"
proof -
  assume i: "i < NANVIX_MSG_MAX"
  obtain qs bs where r: "msg_init_queues plain_resource (mqueues msg_static) ([] @ msgbuf_init (buffers msg_static)) = (qs, bs)"
    by (cases "msg_init_queues plain_resource (mqueues msg_static) ([] @ msgbuf_init (buffers msg_static))")
  have "msg_resource (qs ! i) = plain_clear"
    using msg_init_queues_spec [OF _ _ _ r] i by (simp add: msg_static_def msgbuf_init_def)
  with r show ?thesis by (simp add: do_msg_init_def)
qed

lemma msg_plain_get:
  assumes "\<forall>q\<in>set (mqueues st). \<not> f_used (msg_resource q)" "length (mqueues st) = 16" "key \<noteq> priv"
  shows "do_msg_get plain_resource priv st key ipc_creat = (Inr 0, msg_update st 0 (\<lambda>q. q\<lparr>msg_resource :=
      (msg_resource q)\<lparr>f_used := True\<rparr>, msg_key := key, msg_refcount := msg_refcount q + 1\<rparr>))"
proof -
  have "first_index (\<lambda>q. f_used (msg_resource q) \<and> msg_key q = key) (mqueues st) = None"
    using assms(1) by (auto simp: first_index_None_iff)
  moreover have "first_index (\<lambda>r. \<not> f_used r) (map msg_resource (mqueues st)) = Some 0"
    using assms(1,2) by (auto simp: first_index_Some_iff)
  ultimately show ?thesis
    using assms(2,3) by (simp add: do_msg_get_def ipc_creat_def plain_alloc_def msg_found_def msg_update_def)
qed

lemma msg_static_unused: "q \<in> set (mqueues (do_msg_init plain_resource msg_static)) \<Longrightarrow> \<not> f_used (msg_resource q)"
  using msg_inv_length [OF msg_static_inv]
  by (auto simp: in_set_conv_nth msg_static_queue plain_clear_def)

lemma msg_static_length: "length (mqueues (do_msg_init plain_resource msg_static)) = 16"
  using msg_inv_length [OF msg_static_inv] by (simp add: NANVIX_MSG_MAX_def)

lemma msg_one_queue_eq:
  "msg_one_queue = msg_update (do_msg_init plain_resource msg_static) 0 (\<lambda>q. q\<lparr>msg_resource :=
      (msg_resource q)\<lparr>f_used := True\<rparr>, msg_key := 100, msg_refcount := msg_refcount q + 1\<rparr>)"
  unfolding msg_one_queue_def using msg_static_unused by (subst msg_plain_get) (auto simp: msg_static_length)

lemma msg_one_queue_open: "queue_open plain_resource 0 msg_one_queue" "queue_contents msg_one_queue 0 = []"
proof -
  have "msg_slot plain_resource (mqueues msg_one_queue ! 0) \<noteq> None"
    unfolding msg_one_queue_eq using msg_static_length by simp
  moreover have "msg_inv plain_resource msg_one_queue"
    using msg_get_inv(1) [OF _ msg_static_inv] by (simp add: msg_one_queue_def)
  ultimately show "queue_open plain_resource 0 msg_one_queue" by (simp add: queue_open_def NANVIX_MSG_MAX_def)
  show "queue_contents msg_one_queue 0 = []"
    using msg_get_inv(2) [OF _ msg_static_inv] msg_inv_init(2) [of plain_resource msg_static 0]
    by (simp add: msg_one_queue_def msg_static_def NANVIX_MSG_MAX_def)
qed

text \<open>
  C2. Message queues deliver in order. For any interleaving of sends and receives on an open queue, the
  messages it held followed by those it accepted are the messages it delivered followed by those
  it still holds: nothing is lost, duplicated or reordered, byte for byte, although the messages
  travel through a ring of offsets; and no other queue is touched.
\<close>

theorem msg_queue_fifo:
  assumes "queue_open R i st" "\<forall>m. Put m \<in> set ops \<longrightarrow> length m = NANVIX_MSG_SIZE_MAX"
    and "queue_history R i st ops = (st', accepted, delivered)"
  shows "queue_open R i st' \<and> queue_contents st i @ accepted = delivered @ queue_contents st' i \<and>
    (\<forall>j. j \<noteq> i \<longrightarrow> queue_contents st' j = queue_contents st j)"
proof -
  have "\<forall>x\<in>set ops. queue.good_op x"
    using assms(2) by (auto simp: queue.good_op_def split: queue_op.split)
  from queue.serve_all_order [OF assms(1) this] assms(3) queue_history_frame [OF assms(1,2) _ assms(3)]
  show ?thesis by (simp add: queue_history_serve)
qed

theorem msg_queue_fifo_witness:
  "case queue_history plain_resource 0 msg_one_queue [Put (replicate 256 7), Get] of
     (st', a, d) \<Rightarrow> a = d @ queue_contents st' 0"
proof -
  let ?ops = "[Put (replicate 256 7), Get] :: byte list queue_op list"
  obtain st' a d where h: "queue_history plain_resource 0 msg_one_queue ?ops = (st', a, d)"
    by (cases "queue_history plain_resource 0 msg_one_queue ?ops")
  from msg_queue_fifo [OF msg_one_queue_open(1) _ h] msg_one_queue_open(2) h show ?thesis
    by (simp add: NANVIX_MSG_SIZE_MAX_def)
qed

text \<open>
  Sends and receives fail exactly when they should: on an open queue a send of a whole message is
  accepted iff fewer than \<open>NANVIX_MSG_LENGTH_MAX\<close> messages wait (\<open>EAGAIN\<close> otherwise) and a receive
  iff one waits (\<open>ENOMSG\<close> otherwise); a message of another size, a call without \<open>IPC_NOWAIT\<close> and a bad
  identifier are refused, and a refused request changes nothing and points a sender at the null
  message.
\<close>

theorem msg_send_receive_results:
  assumes "msg_inv R st" "\<not> msgp_null"
  shows "\<exists>s_send r_send r_recv ref st1 st2.
    do_msg_send R st msgid msgp_null sz flg = Some (s_send, Some r_send, st1) \<and>
    do_msg_receive R st msgid msgp_null sz typ flg = Some (r_recv, ref, st2) \<and>
    s_send = (if \<not> IPC_NOWAIT flg then Inl ENOTSUP
      else if \<not> msgid_is_valid msgid \<or> \<not> resource_is_used R (msg_resource (mqueues st ! nat msgid)) \<or>
        sz \<noteq> NANVIX_MSG_SIZE_MAX then Inl EINVAL
      else if length (queue_contents st (nat msgid)) = NANVIX_MSG_LENGTH_MAX then Inl EAGAIN else Inr 0) \<and>
    r_recv = (if \<not> IPC_NOWAIT flg then Inl ENOTSUP
      else if \<not> msgid_is_valid msgid \<or> \<not> resource_is_used R (msg_resource (mqueues st ! nat msgid)) \<or>
        sz \<noteq> NANVIX_MSG_SIZE_MAX then Inl EINVAL
      else if queue_contents st (nat msgid) = [] then Inl ENOMSG else Inr 0) \<and>
    (isl s_send \<longrightarrow> st1 = st \<and> r_send = NullMsg) \<and> (isl r_recv \<longrightarrow> st2 = st)"
proof -
  have empty: "mb_contents b = [] \<longleftrightarrow> mb_len b = 0" for b by (metis length_0_conv mb_contents_length)
  show ?thesis
    using assms(2) msg_inv_buf [OF assms(1) msgid_nat, of msgid]
    by (simp add: do_msg_send_def do_msg_receive_def msg_send_error_def queue_contents_def empty
        msgbuf_put_def msgbuf_get_def)
qed

theorem msg_send_receive_results_witness:
  "\<exists>s_send r_send st1. do_msg_send plain_resource msg_one_queue 16 False 256 ipc_nowait = Some (s_send, Some r_send, st1) \<and>
     s_send = Inl EINVAL"
  using msg_send_receive_results [of plain_resource msg_one_queue False 16 256 ipc_nowait 0]
    queue_openD(1) [OF msg_one_queue_open(1)]
  by (auto simp: ipc_nowait_def msgid_is_valid_def NANVIX_MSG_MAX_def)

text \<open>
  Closing a queue does not drain it. If the last reference to a queue holding messages is closed and
  a later \<open>do_msg_get\<close> for a different key gets the same entry, the new owner's first receive
  delivers the old owner's message.
\<close>

theorem msg_stale_after_close:
  assumes "resource_laws R" "queue_open R i st" "queue_contents st i = m # ms"
    and "st1 = snd (do_msg_close R st (int i))"
    and "do_msg_get R priv st1 key ipc_creat = (Inr (int i), st2)" "queue_open R i st2"
  shows "\<exists>st3. queue_receive R i st2 = Some (m, st3)"
proof -
  have "queue_contents st1 = queue_contents st" "msg_inv R st1"
    using msg_close_inv [OF assms(1) queue_openD(1) [OF assms(2)]] assms(4) by auto
  moreover from this have "queue_contents st2 = queue_contents st1"
    using msg_get_inv(2) [OF assms(1), of st1 priv key ipc_creat] assms(5) by simp
  ultimately have "queue_contents st2 i = m # ms" using assms(3) by simp
  from queue.get_first [OF assms(6) this] show ?thesis by blast
qed

lemma msg_close_plain_unused:
  assumes "mqueues st = mqueues msg_one_queue" "q \<in> set (mqueues (snd (do_msg_close plain_resource st 0)))"
  shows "\<not> f_used (msg_resource q)"
proof -
  let ?qs = "mqueues (do_msg_init plain_resource msg_static)"
  have "msg_refcount (?qs ! 0) = 0"
    using slots_counted_zero [OF msg_inv_counted [OF msg_static_inv], of 0] msg_static_unused [of "?qs ! 0"]
    by (simp add: msg_static_length msg_slot_def)
  then have "mqueues (snd (do_msg_close plain_resource st 0)) = ?qs[0 := (?qs ! 0)
      \<lparr>msg_key := 100, msg_refcount := 0, msg_resource := plain_clear\<rparr>]"
    using msg_static_length unfolding do_msg_close_def Let_def msg_update_sel assms(1) msg_one_queue_eq
    by (simp add: msgid_is_valid_def NANVIX_MSG_MAX_def assms(1) msg_one_queue_eq)
  with assms(2) show ?thesis
    using set_update_subset_insert [of ?qs 0] msg_static_unused by (force simp: plain_clear_def)
qed

theorem msg_stale_after_close_witness:
  "\<exists>st1 st2 st3. do_msg_get plain_resource (-1) st1 200 ipc_creat = (Inr 0, st2) \<and>
     queue_receive plain_resource 0 st2 = Some (replicate 256 7, st3)"
proof -
  let ?m = "replicate 256 7 :: byte list"
  obtain st where st: "queue_send plain_resource 0 msg_one_queue ?m = Some st"
    "queue_open plain_resource 0 st" "queue_contents st 0 = ?m # []"
    using queue.put_room [OF msg_one_queue_open(1), of ?m] msg_one_queue_open(2) by (auto simp: msg_consts)
  have qs: "mqueues st = mqueues msg_one_queue"
    using st(1) by (auto simp: queue_send_ring [OF msg_one_queue_open(1)] NANVIX_MSG_SIZE_MAX_def)
  define st1 where "st1 = snd (do_msg_close plain_resource st 0)"
  have inv: "msg_inv plain_resource st1"
    unfolding st1_def by (rule msg_close_inv(1) [OF _ queue_openD(1) [OF st(2)]]) simp
  have len: "length (mqueues st1) = 16" using msg_inv_length [OF inv] by (simp add: NANVIX_MSG_MAX_def)
  have "\<forall>q\<in>set (mqueues st1). \<not> f_used (msg_resource q)" unfolding st1_def using msg_close_plain_unused [OF qs] by blast
  note get = msg_plain_get [OF this len, of 200 "-1", simplified]
  have "msg_inv plain_resource (snd (do_msg_get plain_resource (-1) st1 200 ipc_creat))"
    by (rule msg_get_inv(1) [OF _ inv]) simp
  then have "queue_open plain_resource 0 (snd (do_msg_get plain_resource (-1) st1 200 ipc_creat))" (is "queue_open _ _ ?st2")
    unfolding get using len by (simp add: queue_open_def NANVIX_MSG_MAX_def)
  moreover have eq: "do_msg_get plain_resource (-1) st1 200 ipc_creat = (Inr (int 0), ?st2)" by (simp add: get)
  moreover have "st1 = snd (do_msg_close plain_resource st (int 0))" by (simp add: st1_def)
  ultimately have "\<exists>st3. queue_receive plain_resource 0 ?st2 = Some (?m, st3)"
    by (intro msg_stale_after_close [OF plain_resource_laws st(2,3)])
  with eq show ?thesis by auto
qed

end
