(* ===== verification/RMem.thy ===== *)
theory RMem
  imports Bitmap Slots
begin

text \<open>
  The remote memory server, \<open>src/sys/mm/rmem/main.c\<close>, and the remote addresses of
  \<open>include/nanvix/servers/rmem.h\<close>. The width of \<open>rpage_t\<close> (the kernel's \<open>word_t\<close>) is the type
  parameter \<open>'w\<close>. The memory of the server is read and written in whole blocks only, so it is a
  list of blocks. Clock readings and the messages printed are left out.

  The abstraction \<^term>\<open>rmem_abs\<close> maps an allocated block to its owner and contents.
\<close>

section \<open>Remote addresses\<close>

definition RMEM_BLOCK_SHIFT :: nat where "RMEM_BLOCK_SHIFT = 12"
definition RMEM_BLOCK_SIZE :: nat where "RMEM_BLOCK_SIZE = push_bit RMEM_BLOCK_SHIFT 1"
definition RMEM_SIZE :: nat where "RMEM_SIZE = 32 * 1024 * 1024"
definition RMEM_NUM_BLOCKS :: nat where "RMEM_NUM_BLOCKS = RMEM_SIZE div RMEM_BLOCK_SIZE"

definition RMEM_BLOCK_NUM_SHIFT :: nat where "RMEM_BLOCK_NUM_SHIFT = 0"
definition RMEM_BLOCK_SERVER_SHIFT :: nat where "RMEM_BLOCK_SERVER_SHIFT = 24"

text \<open>
  The masks are \<open>int\<close> expressions; \<open>0xff << 24\<close> is the negative number \<open>-2\<^sup>2\<^sup>4\<close> in a 32-bit two's
  complement \<open>int\<close>, and converting it to a wider \<open>word_t\<close> extends the sign.
\<close>

definition RMEM_BLOCK_NUM_MASK :: "'w :: len word" where
  "RMEM_BLOCK_NUM_MASK = word_of_int (push_bit RMEM_BLOCK_NUM_SHIFT 0xffffff)"

definition RMEM_BLOCK_SERVER_MASK :: "'w :: len word" where
  "RMEM_BLOCK_SERVER_MASK = word_of_int (signed_take_bit 31 (push_bit RMEM_BLOCK_SERVER_SHIFT 0xff))"

definition RMEM_BLOCK_NUM :: "'w :: len word \<Rightarrow> 'w word" where
  "RMEM_BLOCK_NUM x = drop_bit RMEM_BLOCK_NUM_SHIFT (x AND RMEM_BLOCK_NUM_MASK)"

definition RMEM_BLOCK_SERVER :: "'w :: len word \<Rightarrow> 'w word" where
  "RMEM_BLOCK_SERVER x = drop_bit RMEM_BLOCK_SERVER_SHIFT (x AND RMEM_BLOCK_SERVER_MASK)"

definition RMEM_BLOCK :: "'w :: len word \<Rightarrow> 'w word \<Rightarrow> 'w word" where
  "RMEM_BLOCK server num =
     (push_bit RMEM_BLOCK_SERVER_SHIFT server AND RMEM_BLOCK_SERVER_MASK) OR
     (push_bit RMEM_BLOCK_NUM_SHIFT num AND RMEM_BLOCK_NUM_MASK)"

section \<open>State and requests\<close>

record rmem_stats =
  nallocs :: "32 word"
  nfrees :: "32 word"
  nreads :: "32 word"
  nwrites :: "32 word"
  nblocks :: "32 word"

record rmem =
  rm_stats :: rmem_stats
  rm_serverid :: int
  rm_inportal :: int
  rm_blocks :: "byte list list"
  rm_owners :: "int list"
  rm_bitmap :: "bitmap_t list"

datatype rmem_op = RMEM_EXIT | RMEM_READ | RMEM_WRITE | RMEM_ALLOC | RMEM_MEMFREE | RMEM_OTHER "8 word"

record 'b rmem_message =
  rq_source :: int
  rq_mailbox_port :: int
  rq_portal_port :: int
  rq_op :: rmem_op
  rq_blknum :: 'b

definition BITMAP_BYTES :: nat where
  "BITMAP_BYTES = RMEM_NUM_BLOCKS div 32 * 4"

text \<open>The guard every handler starts with: not the null block and inside the memory.\<close>

definition rmem_block_ok :: "'w :: len word \<Rightarrow> bool" where
  "rmem_block_ok b \<longleftrightarrow> \<not> (b = 0 \<or> RMEM_NUM_BLOCKS \<le> unat b)"

definition do_rmem_alloc :: "rmem \<Rightarrow> 'w :: len word rmem_message \<Rightarrow> (int result \<times> 'w word option \<times> rmem) option" where
  "do_rmem_alloc st request =
     (if nblocks (rm_stats st) = of_nat RMEM_NUM_BLOCKS then Some (Inl ENOMEM, None, st)
      else do {
        b \<leftarrow> bitmap_first_free (rm_bitmap st) BITMAP_BYTES;
        uassert (b \<noteq> BITMAP_FULL);
        bm \<leftarrow> bitmap_set (rm_bitmap st) b;
        own \<leftarrow> arr_set (rm_owners st) (unat b) (rq_source request);
        Some (Inr 0, Some (RMEM_BLOCK (word_of_int (rm_serverid st)) (of_nat (unat b))),
          st\<lparr>rm_stats := (rm_stats st)\<lparr>nblocks := nblocks (rm_stats st) + 1\<rparr>,
             rm_owners := own, rm_bitmap := bm\<rparr>) })"

definition do_rmem_free :: "rmem \<Rightarrow> 'w :: len word rmem_message \<Rightarrow> (int result \<times> rmem) option" where
  "do_rmem_free st request =
     (let blknum = RMEM_BLOCK_NUM (rq_blknum request); b = unat blknum in
      if \<not> rmem_block_ok blknum then Some (Inl EINVAL, st)
      else if nblocks (rm_stats st) = 1 then Some (Inl EFAULT, st)
      else do {
        c \<leftarrow> bitmap_check_bit (rm_bitmap st) (of_nat b);
        if c = 0 then Some (Inl EFAULT, st)
        else do {
          own \<leftarrow> arr_get (rm_owners st) b;
          if own \<noteq> rq_source request then Some (Inl EFAULT, st)
          else do {
            bs \<leftarrow> arr_set (rm_blocks st) b (replicate RMEM_BLOCK_SIZE 0);
            bm \<leftarrow> bitmap_clear (rm_bitmap st) (of_nat b);
            Some (Inr 0, st\<lparr>rm_stats := (rm_stats st)\<lparr>nblocks := nblocks (rm_stats st) - 1\<rparr>,
              rm_blocks := bs, rm_bitmap := bm\<rparr>) } } })"

text \<open>
  Reads and writes of a block that is not allocated go to block zero and report \<open>EFAULT\<close>.
\<close>

definition rmem_target :: "rmem \<Rightarrow> nat \<Rightarrow> (int result \<times> nat) option" where
  "rmem_target st b =
     do { c \<leftarrow> bitmap_check_bit (rm_bitmap st) (of_nat b);
          Some (if c = 0 then (Inl EFAULT, 0) else (Inr 0, b)) }"

definition do_rmem_write :: "kportal \<Rightarrow> rmem \<Rightarrow> 'w :: len word rmem_message \<Rightarrow> (int result \<times> rmem) option" where
  "do_rmem_write P st request =
     (let blknum = RMEM_BLOCK_NUM (rq_blknum request) in
      if \<not> rmem_block_ok blknum then Some (Inl EINVAL, st)
      else do {
        (ret, b) \<leftarrow> rmem_target st (unat blknum);
        data \<leftarrow> portal_receive P (rm_inportal st) (rq_source request) (rq_portal_port request) RMEM_BLOCK_SIZE;
        bs \<leftarrow> arr_set (rm_blocks st) b data;
        Some (ret, st\<lparr>rm_blocks := bs\<rparr>) })"

text \<open>The second component is the block sent to the client, if any.\<close>

definition do_rmem_read :: "kmailbox \<Rightarrow> kportal \<Rightarrow> rmem \<Rightarrow> 'w :: len word rmem_message \<Rightarrow> (int result \<times> byte list option) option" where
  "do_rmem_read K P st request =
     (let blknum = RMEM_BLOCK_NUM (rq_blknum request) in
      if \<not> rmem_block_ok blknum then Some (Inl EINVAL, None)
      else do {
        (ret, b) \<leftarrow> rmem_target st (unat blknum);
        data \<leftarrow> arr_get (rm_blocks st) b;
        portal_reply K P (rq_source request) (rq_mailbox_port request) (rq_portal_port request) RMEM_BLOCK_SIZE;
        Some (ret, Some data) })"

section \<open>The server\<close>

record 'b rmem_reply =
  rp_errcode :: "int result"
  rp_blknum :: "'b option"
  rp_data :: "byte list option"

text \<open>The switch of \<open>do_rmem_loop\<close>: the new state, the reply unless there is none, and shutdown.\<close>

definition rmem_handle :: "kmailbox \<Rightarrow> kportal \<Rightarrow> rmem \<Rightarrow> 'w :: len word rmem_message \<Rightarrow>
    (rmem \<times> 'w word rmem_reply option \<times> bool) option" where
  "rmem_handle K P st request =
     (case rq_op request of
        RMEM_WRITE \<Rightarrow> do {
          (ret, st') \<leftarrow> do_rmem_write P (st\<lparr>rm_stats := (rm_stats st)\<lparr>nwrites := nwrites (rm_stats st) + 1\<rparr>\<rparr>) request;
          Some (st', Some \<lparr>rp_errcode = ret, rp_blknum = None, rp_data = None\<rparr>, False) }
      | RMEM_READ \<Rightarrow> do {
          let st' = st\<lparr>rm_stats := (rm_stats st)\<lparr>nreads := nreads (rm_stats st) + 1\<rparr>\<rparr>;
          (ret, data) \<leftarrow> do_rmem_read K P st' request;
          Some (st', Some \<lparr>rp_errcode = ret, rp_blknum = None, rp_data = data\<rparr>, False) }
      | RMEM_ALLOC \<Rightarrow> do {
          (ret, b, st') \<leftarrow> do_rmem_alloc (st\<lparr>rm_stats := (rm_stats st)\<lparr>nallocs := nallocs (rm_stats st) + 1\<rparr>\<rparr>) request;
          Some (st', Some \<lparr>rp_errcode = ret, rp_blknum = b, rp_data = None\<rparr>, False) }
      | RMEM_MEMFREE \<Rightarrow> do {
          (ret, st') \<leftarrow> do_rmem_free (st\<lparr>rm_stats := (rm_stats st)\<lparr>nfrees := nfrees (rm_stats st) + 1\<rparr>\<rparr>) request;
          Some (st', Some \<lparr>rp_errcode = ret, rp_blknum = None, rp_data = None\<rparr>, False) }
      | RMEM_EXIT \<Rightarrow> Some (st, None, True)
      | RMEM_OTHER _ \<Rightarrow> Some (st, None, False))"

definition rmem_step :: "kmailbox \<Rightarrow> kportal \<Rightarrow> rmem \<Rightarrow> 'w :: len word rmem_message \<Rightarrow>
    (rmem \<times> 'w word rmem_reply option \<times> bool) option" where
  "rmem_step K P st request =
     do { (st', rep, shutdown) \<leftarrow> rmem_handle K P st request;
          case rep of
            None \<Rightarrow> Some (st', None, shutdown)
          | Some r \<Rightarrow> do { mailbox_send K (rq_source request) (rq_mailbox_port request);
                           Some (st', Some r, shutdown) } }"

text \<open>The loop over the requests it reads, each with the state of the portals then.\<close>

fun do_rmem_loop :: "kmailbox \<Rightarrow> rmem \<Rightarrow> (kportal \<times> 'w :: len word rmem_message) list \<Rightarrow>
    (rmem \<times> 'w word rmem_reply option list) option" where
  "do_rmem_loop K st [] = Some (st, [])"
| "do_rmem_loop K st ((P, request) # rqs) =
     do { (st', rep, shutdown) \<leftarrow> rmem_step K P st request;
          if shutdown then Some (st', [rep])
          else do { (st'', reps) \<leftarrow> do_rmem_loop K st' rqs; Some (st'', rep # reps) } }"

text \<open>
  Start-up on zeroed static storage. The tables of servers and the name link are parameters: the
  node numbers of \<open>rmem_servers\<close>, the node this server runs on, its input portal, whether the kernel
  grants all the pages, and the answer of the name server. The memory blocks are cleared.
\<close>

definition rmem_server_get_id :: "int list \<Rightarrow> int \<Rightarrow> int" where
  "rmem_server_get_id servers node =
     (case first_index (\<lambda>n. node = n) servers of Some i \<Rightarrow> int i | None \<Rightarrow> -1)"

definition do_rmem_startup :: "int list \<Rightarrow> int \<Rightarrow> int \<Rightarrow> bool \<Rightarrow> int result \<Rightarrow> rmem \<Rightarrow> (int result \<times> rmem) option" where
  "do_rmem_startup servers node port pages linked st =
     do { uassert pages;
          let bm0 = map (\<lambda>_. 0) (rm_bitmap st);
          bm \<leftarrow> bitmap_set bm0 0;
          let st' = st\<lparr>rm_stats := (rm_stats st)\<lparr>nblocks := nblocks (rm_stats st) + 1\<rparr>,
                       rm_serverid := rmem_server_get_id servers node, rm_inportal := port,
                       rm_blocks := map (\<lambda>_. replicate RMEM_BLOCK_SIZE 0) (rm_blocks st),
                       rm_bitmap := bm\<rparr>;
          case linked of Inl e \<Rightarrow> Some (Inl e, st') | Inr _ \<Rightarrow> Some (Inr 0, st') }"

definition rmem_static :: rmem where
  "rmem_static = \<lparr>rm_stats = \<lparr>nallocs = 0, nfrees = 0, nreads = 0, nwrites = 0, nblocks = 0\<rparr>,
     rm_serverid = 0, rm_inportal = 0,
     rm_blocks = replicate RMEM_NUM_BLOCKS (replicate RMEM_BLOCK_SIZE 0),
     rm_owners = replicate RMEM_NUM_BLOCKS 0,
     rm_bitmap = replicate (RMEM_NUM_BLOCKS div 32) 0\<rparr>"

section \<open>Remote addresses, bit by bit\<close>

lemma RMEM_BLOCK_NUM_MASK_eq: "RMEM_BLOCK_NUM_MASK = mask 24"
  by (simp add: RMEM_BLOCK_NUM_MASK_def RMEM_BLOCK_NUM_SHIFT_def mask_eq_exp_minus_1)

lemma RMEM_BLOCK_SERVER_MASK_eq: "RMEM_BLOCK_SERVER_MASK = NOT (mask 24)"
proof -
  have "signed_take_bit 31 (push_bit 24 0xff) = (NOT (mask 24) :: int)"
    by (simp add: signed_take_bit_eq_if_negative mask_eq_exp_minus_1 push_bit_eq_mult)
  then show ?thesis
    by (simp add: RMEM_BLOCK_SERVER_MASK_def RMEM_BLOCK_SERVER_SHIFT_def mask_eq_exp_minus_1 not_eq_complement)
qed

lemma RMEM_BLOCK_NUM_eq: "RMEM_BLOCK_NUM x = take_bit 24 x"
  by (simp add: RMEM_BLOCK_NUM_def RMEM_BLOCK_NUM_SHIFT_def RMEM_BLOCK_NUM_MASK_eq take_bit_eq_mask)

lemma RMEM_BLOCK_SERVER_eq: "RMEM_BLOCK_SERVER x = drop_bit 24 x"
  by (rule bit_word_eqI)
    (auto simp: RMEM_BLOCK_SERVER_def RMEM_BLOCK_SERVER_SHIFT_def RMEM_BLOCK_SERVER_MASK_eq bit_simps
      dest: bit_imp_le_length)

lemma RMEM_BLOCK_eq: "RMEM_BLOCK s n = push_bit 24 s OR take_bit 24 n"
  by (rule bit_word_eqI)
    (auto simp: RMEM_BLOCK_def RMEM_BLOCK_SERVER_SHIFT_def RMEM_BLOCK_NUM_SHIFT_def
      RMEM_BLOCK_SERVER_MASK_eq RMEM_BLOCK_NUM_MASK_eq bit_simps)

lemma RMEM_BLOCK_NUM_BLOCK: "RMEM_BLOCK_NUM (RMEM_BLOCK s n) = take_bit 24 n"
  by (rule bit_word_eqI) (auto simp: RMEM_BLOCK_NUM_eq RMEM_BLOCK_eq bit_simps)

lemma RMEM_BLOCK_SERVER_BLOCK: "RMEM_BLOCK_SERVER (RMEM_BLOCK s n) = take_bit (LENGTH('w) - 24) (s :: 'w :: len word)"
  by (rule bit_word_eqI) (auto simp: RMEM_BLOCK_SERVER_eq RMEM_BLOCK_eq bit_simps)

section \<open>Invariant and abstraction\<close>

lemma rmem_consts: "RMEM_NUM_BLOCKS = 8192" "RMEM_BLOCK_SIZE = 4096" "BITMAP_BYTES = 1024"
  by (simp_all add: RMEM_NUM_BLOCKS_def RMEM_BLOCK_SIZE_def RMEM_SIZE_def RMEM_BLOCK_SHIFT_def BITMAP_BYTES_def)

text \<open>
  The allocation map and the counter agree, block zero is never free, and a block that is not
  allocated holds zeroes.
\<close>

definition rmem_inv :: "rmem \<Rightarrow> bool" where
  "rmem_inv st \<longleftrightarrow> length (rm_blocks st) = RMEM_NUM_BLOCKS \<and> length (rm_owners st) = RMEM_NUM_BLOCKS \<and>
     length (rm_bitmap st) = RMEM_NUM_BLOCKS div 32 \<and> 0 \<in> bits (rm_bitmap st) \<and>
     unat (nblocks (rm_stats st)) = card (bits (rm_bitmap st)) \<and>
     (\<forall>d\<in>set (rm_blocks st). length d = RMEM_BLOCK_SIZE) \<and>
     (\<forall>i<RMEM_NUM_BLOCKS. i \<notin> bits (rm_bitmap st) \<longrightarrow> rm_blocks st ! i = replicate RMEM_BLOCK_SIZE 0)"

definition rmem_abs :: "rmem \<Rightarrow> nat \<Rightarrow> (int \<times> byte list) option" where
  "rmem_abs st i = (if i \<noteq> 0 \<and> i \<in> bits (rm_bitmap st) then Some (rm_owners st ! i, rm_blocks st ! i) else None)"

lemma rmem_inv_bitmap:
  assumes "rmem_inv st"
  shows "bitmap_valid (rm_bitmap st)" "32 * length (rm_bitmap st) = RMEM_NUM_BLOCKS"
    "BITMAP_BYTES = 4 * length (rm_bitmap st)" "i \<in> bits (rm_bitmap st) \<Longrightarrow> i < RMEM_NUM_BLOCKS"
    "finite (bits (rm_bitmap st))"
proof -
  have len: "length (rm_bitmap st) = 256" using assms by (simp add: rmem_inv_def rmem_consts)
  then show "bitmap_valid (rm_bitmap st)" "32 * length (rm_bitmap st) = RMEM_NUM_BLOCKS"
    "BITMAP_BYTES = 4 * length (rm_bitmap st)" by (simp_all add: bitmap_valid_def rmem_consts)
  show "i \<in> bits (rm_bitmap st) \<Longrightarrow> i < RMEM_NUM_BLOCKS" using len by (simp add: bits_def rmem_consts)
  show "finite (bits (rm_bitmap st))" by (auto simp: bits_def)
qed

lemma unat_word_eq_nat: "k < 2 ^ LENGTH('a) \<Longrightarrow> w = (of_nat k :: 'a :: len word) \<longleftrightarrow> unat w = k"
  by (metis unat_of_nat_lt word_unat_eq_iff)

lemma rmem_alloc_spec:
  assumes inv: "rmem_inv st"
  shows "if card (bits (rm_bitmap st)) = RMEM_NUM_BLOCKS then do_rmem_alloc st rq = Some (Inl ENOMEM, None, st)
    else \<exists>b st'. do_rmem_alloc st rq = Some (Inr 0, Some (RMEM_BLOCK (word_of_int (rm_serverid st)) (of_nat b)), st') \<and>
      b \<noteq> 0 \<and> b < RMEM_NUM_BLOCKS \<and> b \<notin> bits (rm_bitmap st) \<and> rmem_inv st' \<and>
      rmem_abs st' = (rmem_abs st)(b \<mapsto> (rq_source rq, replicate RMEM_BLOCK_SIZE 0)) \<and> {..<b} \<subseteq> bits (rm_bitmap st)"
proof -
  let ?bm = "rm_bitmap st"
  note B = rmem_inv_bitmap [OF inv]
  have cnt: "nblocks (rm_stats st) = of_nat RMEM_NUM_BLOCKS \<longleftrightarrow> card (bits ?bm) = RMEM_NUM_BLOCKS"
    using inv by (subst unat_word_eq_nat) (simp_all add: rmem_inv_def rmem_consts)
  show ?thesis
  proof (cases "card (bits ?bm) = RMEM_NUM_BLOCKS")
    case True
    with cnt show ?thesis by (simp add: do_rmem_alloc_def)
  next
    case False
    then have nf: "bits ?bm \<noteq> {..<32 * length ?bm}" unfolding B(2) by (metis card_lessThan)
    obtain w where w: "bitmap_first_free ?bm BITMAP_BYTES = Some w"
      "unat w < RMEM_NUM_BLOCKS" "unat w \<notin> bits ?bm" "w \<noteq> BITMAP_FULL" "{..<unat w} \<subseteq> bits ?bm"
    proof -
      from first_free_whole [OF B(1)] obtain w where "bitmap_first_free ?bm (4 * length ?bm) = Some w"
        "unat w < 32 * length ?bm" "unat w \<notin> bits ?bm" "{..<unat w} \<subseteq> bits ?bm" using nf by auto
      with that [of w] not_full_pos [OF B(1)] show thesis unfolding B(2) B(3) [symmetric] by blast
    qed
    obtain bm' where bm': "bitmap_set ?bm w = Some bm'" "length bm' = length ?bm"
      "bits bm' = insert (unat w) (bits ?bm)"
      using bitmap_set_bits [of w ?bm] w(2) B(2) by metis
    let ?st = "st\<lparr>rm_stats := (rm_stats st)\<lparr>nblocks := nblocks (rm_stats st) + 1\<rparr>,
      rm_owners := (rm_owners st)[unat w := rq_source rq], rm_bitmap := bm'\<rparr>"
    have alloc: "do_rmem_alloc st rq = Some (Inr 0, Some (RMEM_BLOCK (word_of_int (rm_serverid st)) (of_nat (unat w))), ?st)"
      using False cnt w bm' inv by (simp add: do_rmem_alloc_def rmem_inv_def)
    have "card (bits ?bm) < RMEM_NUM_BLOCKS"
      using False B(2) card_bits_le [of ?bm] by simp
    then have "unat (nblocks (rm_stats st) + 1) = Suc (card (bits ?bm))"
      using inv by (subst unat_word_ariths) (simp add: rmem_inv_def rmem_consts)
    then have "rmem_inv ?st" using inv w bm' B(5) by (auto simp: rmem_inv_def)
    moreover have "unat w \<noteq> 0" using w(3) inv by (metis rmem_inv_def)
    moreover have "rmem_abs ?st = (rmem_abs st)(unat w \<mapsto> (rq_source rq, replicate RMEM_BLOCK_SIZE 0))"
      using inv w bm' \<open>unat w \<noteq> 0\<close> by (auto simp: rmem_abs_def rmem_inv_def fun_eq_iff)
    ultimately show ?thesis
      using False alloc w by (simp only: if_False) (intro exI [of _ "unat w"] exI [of _ ?st] conjI; simp)
  qed
qed


abbreviation rq_block :: "'w :: len word rmem_message \<Rightarrow> nat" where
  "rq_block rq \<equiv> unat (RMEM_BLOCK_NUM (rq_blknum rq))"

lemma rmem_block_okD:
  "rmem_block_ok (RMEM_BLOCK_NUM (rq_blknum rq)) \<Longrightarrow> rq_block rq \<noteq> 0 \<and> rq_block rq < RMEM_NUM_BLOCKS"
  by (auto simp: rmem_block_ok_def unat_eq_0 not_le)

lemma rmem_check_bit:
  assumes "rmem_inv st" "b < RMEM_NUM_BLOCKS"
  obtains c where "bitmap_check_bit (rm_bitmap st) (of_nat b) = Some c" "c = 0 \<longleftrightarrow> b \<notin> bits (rm_bitmap st)"
proof -
  have u: "unat (of_nat b :: bitmap_t) = b" using assms(2) by (intro unat_of_nat_lt) (simp add: rmem_consts)
  from bitmap_check_bits [of "of_nat b" "rm_bitmap st"] assms(2) show thesis
    unfolding u rmem_inv_bitmap(2) [OF assms(1)] using that by blast
qed

lemma rmem_target_spec:
  assumes "rmem_inv st" "b \<noteq> 0" "b < RMEM_NUM_BLOCKS"
  shows "rmem_target st b = Some (case rmem_abs st b of None \<Rightarrow> (Inl EFAULT, 0) | Some _ \<Rightarrow> (Inr 0, b))"
proof -
  obtain c where "bitmap_check_bit (rm_bitmap st) (of_nat b) = Some c" "c = 0 \<longleftrightarrow> b \<notin> bits (rm_bitmap st)"
    by (rule rmem_check_bit [OF assms(1,3)])
  with assms(2) show ?thesis by (simp add: rmem_target_def rmem_abs_def)
qed

lemma rmem_free_spec:
  assumes inv: "rmem_inv st"
  shows "\<exists>r st'. do_rmem_free st rq = Some (r, st') \<and> rmem_inv st' \<and> (isl r \<longrightarrow> st' = st) \<and>
    (if \<not> rmem_block_ok (RMEM_BLOCK_NUM (rq_blknum rq)) then r = Inl EINVAL
     else case rmem_abs st (rq_block rq) of
       Some (own, _) \<Rightarrow> if own = rq_source rq then r = Inr 0 \<and> rmem_abs st' = (rmem_abs st)(rq_block rq := None)
         else r = Inl EFAULT
     | None \<Rightarrow> r = Inl EFAULT)"
proof (cases "rmem_block_ok (RMEM_BLOCK_NUM (rq_blknum rq))")
  case False
  with inv show ?thesis by (auto simp: do_rmem_free_def)
next
  case True
  let ?b = "rq_block rq" and ?bm = "rm_bitmap st"
  note b = rmem_block_okD [OF True]
  obtain c where c: "bitmap_check_bit ?bm (of_nat ?b) = Some c" "c = 0 \<longleftrightarrow> ?b \<notin> bits ?bm"
    using rmem_check_bit [OF inv] b by blast
  have one: "nblocks (rm_stats st) = 1 \<longleftrightarrow> card (bits ?bm) = 1"
    using inv unat_word_eq_nat [of 1 "nblocks (rm_stats st)"] by (simp add: rmem_inv_def)
  have two: "card (bits ?bm) \<noteq> 1" if "?b \<in> bits ?bm"
  proof
    assume "card (bits ?bm) = 1"
    then obtain x where "bits ?bm = {x}" by (auto simp: card_1_singleton_iff)
    with that inv b show False by (auto simp: rmem_inv_def)
  qed
  show ?thesis
  proof (cases "?b \<in> bits ?bm \<and> rm_owners st ! ?b = rq_source rq")
    case False
    with True b c one two inv show ?thesis
      by (auto simp: do_rmem_free_def Let_def rmem_abs_def rmem_inv_def)
  next
    case own: True
    have u: "unat (of_nat ?b :: bitmap_t) = ?b" using b by (intro unat_of_nat_lt) (simp add: rmem_consts)
    obtain bm' where bm': "bitmap_clear ?bm (of_nat ?b) = Some bm'" "length bm' = length ?bm" "bits bm' = bits ?bm - {?b}"
      using bitmap_clear_bits [of "of_nat ?b" ?bm] b unfolding u rmem_inv_bitmap(2) [OF inv] by blast
    let ?st = "st\<lparr>rm_stats := (rm_stats st)\<lparr>nblocks := nblocks (rm_stats st) - 1\<rparr>,
      rm_blocks := (rm_blocks st)[?b := replicate RMEM_BLOCK_SIZE 0], rm_bitmap := bm'\<rparr>"
    have free: "do_rmem_free st rq = Some (Inr 0, ?st)"
      using True b c one two own bm' inv by (simp add: do_rmem_free_def Let_def rmem_inv_def)
    have "card (bits ?bm) \<noteq> 0" using own rmem_inv_bitmap(5) [OF inv] by auto
    moreover have n: "unat (nblocks (rm_stats st)) = card (bits ?bm)" using inv by (simp add: rmem_inv_def)
    ultimately have "unat (nblocks (rm_stats st) - 1) = card (bits ?bm) - 1"
      by (subst unat_sub) (simp_all add: word_le_nat_alt)
    then have "unat (nblocks (rm_stats st) - 1) = card (bits bm')"
      using own bm'(3) rmem_inv_bitmap(5) [OF inv] by simp
    moreover have "\<forall>d\<in>set ((rm_blocks st)[?b := replicate RMEM_BLOCK_SIZE 0]). length d = RMEM_BLOCK_SIZE"
      using inv by (intro ball_update) (simp_all add: rmem_inv_def)
    ultimately have "rmem_inv ?st"
      using inv bm' b by (auto simp: rmem_inv_def nth_list_update)
    moreover have "rmem_abs ?st = (rmem_abs st)(?b := None)"
      using bm' by (auto simp: rmem_abs_def fun_eq_iff)
    moreover have "rmem_abs st ?b = Some (rq_source rq, rm_blocks st ! ?b)" using own b by (simp add: rmem_abs_def)
    ultimately show ?thesis using free True by auto
  qed
qed

lemma rmem_write_spec:
  assumes inv: "rmem_inv st" and P: "portals_up P"
  defines "d \<equiv> kportal_read P (rm_inportal st) RMEM_BLOCK_SIZE"
  shows "\<exists>r st'. do_rmem_write P st rq = Some (r, st') \<and> rmem_inv st' \<and>
    (if \<not> rmem_block_ok (RMEM_BLOCK_NUM (rq_blknum rq)) then r = Inl EINVAL \<and> st' = st
     else case rmem_abs st (rq_block rq) of
       Some (own, _) \<Rightarrow> r = Inr 0 \<and> rmem_abs st' = (rmem_abs st)(rq_block rq \<mapsto> (own, d))
     | None \<Rightarrow> r = Inl EFAULT \<and> rmem_abs st' = rmem_abs st \<and> st' = st\<lparr>rm_blocks := (rm_blocks st)[0 := d]\<rparr>)"
proof (cases "rmem_block_ok (RMEM_BLOCK_NUM (rq_blknum rq))")
  case False
  with inv show ?thesis by (auto simp: do_rmem_write_def)
next
  case True
  let ?b = "rq_block rq"
  note b = rmem_block_okD [OF True]
  have len: "length d = RMEM_BLOCK_SIZE" using P by (simp add: d_def portals_up_def)
  have wr: "rmem_inv (st\<lparr>rm_blocks := (rm_blocks st)[i := d]\<rparr>)" if "i \<in> bits (rm_bitmap st)" for i
  proof -
    have "\<forall>x\<in>set ((rm_blocks st)[i := d]). length x = RMEM_BLOCK_SIZE"
      using inv len by (intro ball_update) (simp_all add: rmem_inv_def)
    moreover have "(rm_blocks st)[i := d] ! j = rm_blocks st ! j" if "j \<notin> bits (rm_bitmap st)" for j
      using that \<open>i \<in> bits (rm_bitmap st)\<close> by (metis nth_list_update_neq)
    ultimately show ?thesis using inv by (simp add: rmem_inv_def)
  qed
  have z: "0 \<in> bits (rm_bitmap st)" "0 < RMEM_NUM_BLOCKS" "length (rm_blocks st) = RMEM_NUM_BLOCKS"
    using inv by (simp_all add: rmem_inv_def rmem_consts)
  show ?thesis
  proof (cases "rmem_abs st ?b")
    case None
    have "rmem_abs (st\<lparr>rm_blocks := (rm_blocks st)[0 := d]\<rparr>) = rmem_abs st"
      by (auto simp: rmem_abs_def fun_eq_iff)
    with None True z wr [OF z(1)] rmem_target_spec [OF inv, of ?b] b P show ?thesis
      by (simp add: do_rmem_write_def Let_def portal_receive_up d_def)
  next
    case (Some od)
    obtain own data where od: "od = (own, data)" by (cases od)
    have bit: "?b \<in> bits (rm_bitmap st)" "own = rm_owners st ! ?b" using Some od by (auto simp: rmem_abs_def split: if_splits)
    have "rmem_abs (st\<lparr>rm_blocks := (rm_blocks st)[?b := d]\<rparr>) = (rmem_abs st)(?b \<mapsto> (own, d))"
      using bit b z by (auto simp: rmem_abs_def fun_eq_iff)
    with Some od True z wr [OF bit(1)] rmem_target_spec [OF inv, of ?b] b P show ?thesis
      by (simp add: do_rmem_write_def Let_def portal_receive_up d_def)
  qed
qed

lemma rmem_read_spec:
  assumes inv: "rmem_inv st" and "mailboxes_up K" "portals_up P"
  shows "do_rmem_read K P st rq =
    (if \<not> rmem_block_ok (RMEM_BLOCK_NUM (rq_blknum rq)) then Some (Inl EINVAL, None)
     else case rmem_abs st (rq_block rq) of
       Some (_, data) \<Rightarrow> Some (Inr 0, Some data) | None \<Rightarrow> Some (Inl EFAULT, Some (rm_blocks st ! 0)))"
proof (cases "rmem_block_ok (RMEM_BLOCK_NUM (rq_blknum rq))")
  case False
  then show ?thesis by (simp add: do_rmem_read_def)
next
  case True
  have z: "0 < RMEM_NUM_BLOCKS" "length (rm_blocks st) = RMEM_NUM_BLOCKS"
    using inv by (simp_all add: rmem_inv_def rmem_consts)
  with True assms rmem_target_spec [OF inv] rmem_block_okD [OF True] show ?thesis
    by (auto simp: do_rmem_read_def Let_def portal_reply_up rmem_abs_def split: if_splits)
qed

section \<open>What the service promises\<close>

text \<open>
  The specification of one request against the map of allocated blocks: \<open>d\<close> is the data the client
  sends along, the last two arguments the map afterwards and the reply.
\<close>

inductive rmem_spec :: "'w :: len word rmem_message \<Rightarrow> byte list \<Rightarrow> (nat \<Rightarrow> (int \<times> byte list) option) \<Rightarrow>
    (nat \<Rightarrow> (int \<times> byte list) option) \<Rightarrow> 'w word rmem_reply option \<Rightarrow> bool" for rq d mem where
  alloc: "rq_op rq = RMEM_ALLOC \<Longrightarrow> 0 < b \<Longrightarrow> b < RMEM_NUM_BLOCKS \<Longrightarrow> mem b = None \<Longrightarrow>
    unat (RMEM_BLOCK_NUM blk) = b \<Longrightarrow>
    rmem_spec rq d mem (mem(b \<mapsto> (rq_source rq, replicate RMEM_BLOCK_SIZE 0)))
      (Some \<lparr>rp_errcode = Inr 0, rp_blknum = Some blk, rp_data = None\<rparr>)"
| alloc_full: "rq_op rq = RMEM_ALLOC \<Longrightarrow> \<forall>b. 0 < b \<and> b < RMEM_NUM_BLOCKS \<longrightarrow> mem b \<noteq> None \<Longrightarrow>
    rmem_spec rq d mem mem (Some \<lparr>rp_errcode = Inl ENOMEM, rp_blknum = None, rp_data = None\<rparr>)"
| free: "rq_op rq = RMEM_MEMFREE \<Longrightarrow> mem (rq_block rq) = Some (rq_source rq, data) \<Longrightarrow>
    rmem_spec rq d mem (mem(rq_block rq := None)) (Some \<lparr>rp_errcode = Inr 0, rp_blknum = None, rp_data = None\<rparr>)"
| free_bad: "rq_op rq = RMEM_MEMFREE \<Longrightarrow> \<forall>data. mem (rq_block rq) \<noteq> Some (rq_source rq, data) \<Longrightarrow> e \<in> {EINVAL, EFAULT} \<Longrightarrow>
    rmem_spec rq d mem mem (Some \<lparr>rp_errcode = Inl e, rp_blknum = None, rp_data = None\<rparr>)"
| read: "rq_op rq = RMEM_READ \<Longrightarrow> mem (rq_block rq) = Some (own, data) \<Longrightarrow>
    rmem_spec rq d mem mem (Some \<lparr>rp_errcode = Inr 0, rp_blknum = None, rp_data = Some data\<rparr>)"
| read_bad: "rq_op rq = RMEM_READ \<Longrightarrow> mem (rq_block rq) = None \<Longrightarrow> e \<in> {EINVAL, EFAULT} \<Longrightarrow>
    rmem_spec rq d mem mem (Some \<lparr>rp_errcode = Inl e, rp_blknum = None, rp_data = junk\<rparr>)"
| wr: "rq_op rq = RMEM_WRITE \<Longrightarrow> mem (rq_block rq) = Some (own, data) \<Longrightarrow>
    rmem_spec rq d mem (mem(rq_block rq \<mapsto> (own, d))) (Some \<lparr>rp_errcode = Inr 0, rp_blknum = None, rp_data = None\<rparr>)"
| wr_bad: "rq_op rq = RMEM_WRITE \<Longrightarrow> mem (rq_block rq) = None \<Longrightarrow> e \<in> {EINVAL, EFAULT} \<Longrightarrow>
    rmem_spec rq d mem mem (Some \<lparr>rp_errcode = Inl e, rp_blknum = None, rp_data = None\<rparr>)"
| silent: "rq_op rq = RMEM_EXIT \<or> (\<exists>x. rq_op rq = RMEM_OTHER x) \<Longrightarrow> rmem_spec rq d mem mem None"

lemma rmem_stats_inv [simp]:
  "rmem_inv (st\<lparr>rm_stats := (rm_stats st)\<lparr>nallocs := x\<rparr>\<rparr>) = rmem_inv st"
  "rmem_inv (st\<lparr>rm_stats := (rm_stats st)\<lparr>nfrees := x\<rparr>\<rparr>) = rmem_inv st"
  "rmem_inv (st\<lparr>rm_stats := (rm_stats st)\<lparr>nreads := x\<rparr>\<rparr>) = rmem_inv st"
  "rmem_inv (st\<lparr>rm_stats := (rm_stats st)\<lparr>nwrites := x\<rparr>\<rparr>) = rmem_inv st"
  "rmem_abs (st\<lparr>rm_stats := s\<rparr>) = rmem_abs st"
  by (simp_all add: rmem_inv_def rmem_abs_def fun_eq_iff)

lemma rmem_abs_outside:
  assumes "rmem_inv st" "\<not> rmem_block_ok (RMEM_BLOCK_NUM (rq_blknum rq))"
  shows "rmem_abs st (rq_block rq) = None"
  using assms rmem_inv_bitmap(4) [OF assms(1), of "rq_block rq"]
  by (auto simp: rmem_abs_def rmem_block_ok_def unat_eq_0)

lemma rmem_step_reply:
  assumes "mailboxes_up K" "rmem_handle K P st rq = Some (st', rep, sd)"
  shows "rmem_step K P st rq = Some (st', rep, sd)"
  using assms by (cases rep) (simp_all add: rmem_step_def mailbox_send_up)

lemma rmem_handle_alloc:
  fixes rq :: "'w :: len word rmem_message"
  assumes w: "24 \<le> LENGTH('w)" and inv: "rmem_inv st" and op: "rq_op rq = RMEM_ALLOC"
  shows "\<exists>st' rep. rmem_handle K P st rq = Some (st', rep, False) \<and> rmem_inv st' \<and> rmem_spec rq d (rmem_abs st) (rmem_abs st') rep"
proof -
  let ?st = "st\<lparr>rm_stats := (rm_stats st)\<lparr>nallocs := nallocs (rm_stats st) + 1\<rparr>\<rparr>"
  have inv': "rmem_inv ?st" using inv by simp
  note A = rmem_alloc_spec [OF inv', of rq]
  show ?thesis
  proof (cases "card (bits (rm_bitmap st)) = RMEM_NUM_BLOCKS")
    case True
    have "bits (rm_bitmap st) = {..<RMEM_NUM_BLOCKS}"
      using True rmem_inv_bitmap(4) [OF inv] by (intro card_subset_eq) auto
    then have "\<forall>b. 0 < b \<and> b < RMEM_NUM_BLOCKS \<longrightarrow> rmem_abs st b \<noteq> None" by (simp add: rmem_abs_def)
    from alloc_full [OF op this] A True op inv' show ?thesis by (simp add: rmem_handle_def)
  next
    case False
    then obtain b st' where b: "do_rmem_alloc ?st rq = Some (Inr 0, Some (RMEM_BLOCK (word_of_int (rm_serverid st)) (of_nat b)), st')"
      "b \<noteq> 0" "b < RMEM_NUM_BLOCKS" "b \<notin> bits (rm_bitmap st)" "rmem_inv st'"
      "rmem_abs st' = (rmem_abs st)(b \<mapsto> (rq_source rq, replicate RMEM_BLOCK_SIZE 0))"
      using A by auto
    have "(2 :: nat) ^ 24 \<le> 2 ^ LENGTH('w)" by (rule power_increasing [OF w]) simp
    then have "unat (of_nat b :: 'w word) = b" using b(3) by (intro unat_of_nat_lt) (simp add: rmem_consts)
    then have "unat (RMEM_BLOCK_NUM (RMEM_BLOCK (word_of_int (rm_serverid st)) (of_nat b) :: 'w word)) = b"
      using b(3) unfolding RMEM_BLOCK_NUM_BLOCK by (simp add: unsigned_take_bit_eq take_bit_nat_eq_self rmem_consts)
    from alloc [OF op _ b(3) _ this, of "rmem_abs st"] b op show ?thesis by (simp add: rmem_handle_def rmem_abs_def)
  qed
qed

lemma rmem_handle_refines:
  fixes rq :: "'w :: len word rmem_message"
  assumes w: "24 \<le> LENGTH('w)" and inv: "rmem_inv st" and K: "mailboxes_up K" and P: "portals_up P"
  shows "\<exists>st' rep sd. rmem_handle K P st rq = Some (st', rep, sd) \<and> rmem_inv st' \<and>
    rmem_spec rq (kportal_read P (rm_inportal st) RMEM_BLOCK_SIZE) (rmem_abs st) (rmem_abs st') rep"
proof (cases "rq_op rq")
  case RMEM_ALLOC
  with rmem_handle_alloc [OF w inv, of rq K P] show ?thesis by blast
next
  case RMEM_MEMFREE
  let ?st = "st\<lparr>rm_stats := (rm_stats st)\<lparr>nfrees := nfrees (rm_stats st) + 1\<rparr>\<rparr>"
  obtain r st' where f: "do_rmem_free ?st rq = Some (r, st')" "rmem_inv st'" "isl r \<longrightarrow> st' = ?st" and
    r: "if \<not> rmem_block_ok (RMEM_BLOCK_NUM (rq_blknum rq)) then r = Inl EINVAL
     else case rmem_abs st (rq_block rq) of
       Some (own, _) \<Rightarrow> if own = rq_source rq then r = Inr 0 \<and> rmem_abs st' = (rmem_abs st)(rq_block rq := None)
         else r = Inl EFAULT | None \<Rightarrow> r = Inl EFAULT"
    using rmem_free_spec [of ?st rq, unfolded rmem_stats_inv(2,5)] inv by blast
  have "rmem_spec rq d (rmem_abs st) (rmem_abs st') (Some \<lparr>rp_errcode = r, rp_blknum = None, rp_data = None\<rparr>)" for d
  proof (cases "\<exists>data. rmem_abs st (rq_block rq) = Some (rq_source rq, data)")
    case True
    then obtain data where data: "rmem_abs st (rq_block rq) = Some (rq_source rq, data)" by blast
    with r rmem_abs_outside [OF inv, of rq] have "r = Inr 0" "rmem_abs st' = (rmem_abs st)(rq_block rq := None)"
      by (auto split: if_splits)
    with rmem_spec.free [OF RMEM_MEMFREE, of "rmem_abs st" data d] data show ?thesis by (simp only:)
  next
    case False
    with r have e: "r = Inl EINVAL \<or> r = Inl EFAULT" by (auto split: if_splits option.splits)
    with f(3) have "rmem_abs st' = rmem_abs st" by auto
    with e rmem_spec.free_bad [OF RMEM_MEMFREE, of "rmem_abs st" _ d] False show ?thesis by auto
  qed
  with f(1,2) RMEM_MEMFREE show ?thesis by (auto simp: rmem_handle_def)
next
  case RMEM_READ
  let ?st = "st\<lparr>rm_stats := (rm_stats st)\<lparr>nreads := nreads (rm_stats st) + 1\<rparr>\<rparr>"
  show ?thesis
    using rmem_read_spec [of ?st K P rq] inv K P RMEM_READ rmem_abs_outside [OF inv, of rq]
    by (auto simp: rmem_handle_def Let_def split: if_splits option.splits intro: rmem_spec.read rmem_spec.read_bad)
next
  case RMEM_WRITE
  let ?st = "st\<lparr>rm_stats := (rm_stats st)\<lparr>nwrites := nwrites (rm_stats st) + 1\<rparr>\<rparr>"
  obtain r st' where f: "do_rmem_write P ?st rq = Some (r, st')" "rmem_inv st'" and
    r: "if \<not> rmem_block_ok (RMEM_BLOCK_NUM (rq_blknum rq)) then r = Inl EINVAL \<and> st' = ?st
     else case rmem_abs st (rq_block rq) of
       Some (own, _) \<Rightarrow> r = Inr 0 \<and> rmem_abs st' = (rmem_abs st)(rq_block rq \<mapsto> (own, kportal_read P (rm_inportal st) RMEM_BLOCK_SIZE))
     | None \<Rightarrow> r = Inl EFAULT \<and> rmem_abs st' = rmem_abs st"
    using rmem_write_spec [of ?st P rq] inv P by (auto split: if_splits option.splits)
  show ?thesis
    using f r RMEM_WRITE rmem_abs_outside [OF inv, of rq]
    by (auto simp: rmem_handle_def split: if_splits option.splits intro: rmem_spec.wr rmem_spec.wr_bad)
qed (use inv in \<open>auto simp: rmem_handle_def intro: silent\<close>)


section \<open>Start-up and the loop\<close>

lemma rmem_inv_startup:
  assumes "nblocks (rm_stats st) = 0" "length (rm_blocks st) = RMEM_NUM_BLOCKS" "length (rm_owners st) = RMEM_NUM_BLOCKS"
    "length (rm_bitmap st) = RMEM_NUM_BLOCKS div 32"
  shows "\<exists>r st'. do_rmem_startup servers node port True linked st = Some (r, st') \<and> rmem_inv st' \<and>
    rmem_abs st' = (\<lambda>_. None)"
proof -
  let ?bm = "map (\<lambda>_. 0) (rm_bitmap st) :: bitmap_t list"
  have none: "bits ?bm = {}" by (auto simp: bits_def)
  obtain bm where bm: "bitmap_set ?bm 0 = Some bm" "length bm = length ?bm" "bits bm = insert 0 (bits ?bm)"
    using bitmap_set_bits [of 0 ?bm] assms(4) by (auto simp: rmem_consts)
  have "map (\<lambda>_. replicate RMEM_BLOCK_SIZE 0) (rm_blocks st) ! i = (replicate RMEM_BLOCK_SIZE 0 :: byte list)"
    if "i < RMEM_NUM_BLOCKS" for i using that assms(2) by simp
  with assms bm none show ?thesis
    by (auto simp: do_rmem_startup_def Let_def rmem_inv_def rmem_abs_def fun_eq_iff split: sum.split)
qed

lemma rmem_loop_total:
  fixes rqs :: "(kportal \<times> 'w :: len word rmem_message) list"
  assumes "24 \<le> LENGTH('w)" "rmem_inv st" "mailboxes_up K" "\<forall>(P, rq)\<in>set rqs. portals_up P"
  shows "\<exists>st' reps. do_rmem_loop K st rqs = Some (st', reps) \<and> rmem_inv st'"
  using assms
proof (induction rqs arbitrary: st)
  case Nil
  then show ?case by simp
next
  case (Cons x rqs)
  obtain P rq where x: "x = (P, rq)" by (cases x)
  obtain st1 rep sd where s: "rmem_handle K P st rq = Some (st1, rep, sd)" "rmem_inv st1"
    using rmem_handle_refines [OF Cons.prems(1-3), of P rq] Cons.prems(4) x by auto
  obtain st2 reps where "do_rmem_loop K st1 rqs = Some (st2, reps)" "rmem_inv st2"
    using Cons.IH [OF Cons.prems(1) s(2)] Cons.prems(3,4) by auto
  with s rmem_step_reply [OF Cons.prems(3) s(1)] x show ?case by simp
qed

lemma rmem_static_lengths:
  "nblocks (rm_stats rmem_static) = 0" "length (rm_blocks rmem_static) = RMEM_NUM_BLOCKS"
  "length (rm_owners rmem_static) = RMEM_NUM_BLOCKS" "length (rm_bitmap rmem_static) = RMEM_NUM_BLOCKS div 32"
  by (simp_all add: rmem_static_def)

definition rmem_booted :: rmem where
  "rmem_booted = snd (the (do_rmem_startup [0, 1] 0 0 True (Inr 0) rmem_static))"

lemma rmem_booted_inv: "rmem_inv rmem_booted" "rmem_abs rmem_booted = (\<lambda>_. None)"
  using rmem_inv_startup [OF rmem_static_lengths, of "[0, 1]" 0 0 "Inr 0"] by (auto simp: rmem_booted_def)

definition rmem_rq :: "rmem_op \<Rightarrow> 64 word \<Rightarrow> 64 word rmem_message" where
  "rmem_rq op b = \<lparr>rq_source = 3, rq_mailbox_port = 0, rq_portal_port = 0, rq_op = op, rq_blknum = b\<rparr>"

definition ones_portal :: kportal where "ones_portal = kportal_ideal (\<lambda>n. replicate n 1)"

lemma ones_portal_up [simp]: "portals_up ones_portal"
  by (simp add: ones_portal_def kportal_ideal_up)

lemma ones_portal_read [simp]: "kportal_read ones_portal i n = replicate n 1"
  by (simp add: ones_portal_def kportal_ideal_def)

section \<open>Properties\<close>

text \<open>
  C3. The remote memory server implements its specification. With working mailboxes and portals, in a
  state satisfying the invariant no request aborts the server, the invariant is kept, and the request
  does to the map of allocated blocks what \<open>rmem_spec\<close> says: an allocation gives a block nobody
  holds, cleared and named by the address it returns, and fails only when all are taken; only the
  owner frees a block; a read returns the last contents written; no request changes another block.
\<close>

theorem rmem_refines_spec:
  fixes rq :: "'w :: len word rmem_message"
  assumes "24 \<le> LENGTH('w)" "rmem_inv st" "mailboxes_up K" "portals_up P"
  shows "\<exists>st' rep sd. rmem_step K P st rq = Some (st', rep, sd) \<and> rmem_inv st' \<and>
    rmem_spec rq (kportal_read P (rm_inportal st) RMEM_BLOCK_SIZE) (rmem_abs st) (rmem_abs st') rep"
  using rmem_handle_refines [OF assms, of rq] rmem_step_reply [OF assms(3)] by blast

theorem rmem_refines_spec_witness:
  "\<exists>st' rep sd. rmem_step kmailbox_ideal ones_portal rmem_booted (rmem_rq RMEM_ALLOC 0) = Some (st', rep, sd) \<and> rmem_inv st'"
  using rmem_refines_spec [of rmem_booted kmailbox_ideal ones_portal "rmem_rq RMEM_ALLOC 0"] rmem_booted_inv by auto

text \<open>
  From start-up, whatever requests arrive and in whatever order, the server never aborts and its
  allocation map, block counter and memory stay consistent: the counter is the number of set bits,
  block zero is never handed out, and every block that is not allocated holds zeroes.
\<close>

theorem rmem_server_safe:
  fixes rqs :: "(kportal \<times> 'w :: len word rmem_message) list"
  assumes "24 \<le> LENGTH('w)" "mailboxes_up K" "\<forall>(P, rq)\<in>set rqs. portals_up P"
    and "do_rmem_startup servers node port True linked rmem_static = Some (r, st)"
  shows "\<exists>st' reps. do_rmem_loop K st rqs = Some (st', reps) \<and>
    unat (nblocks (rm_stats st')) = card (bits (rm_bitmap st')) \<and> 0 \<in> bits (rm_bitmap st') \<and>
    (\<forall>i<RMEM_NUM_BLOCKS. i \<notin> bits (rm_bitmap st') \<longrightarrow> rm_blocks st' ! i = replicate RMEM_BLOCK_SIZE 0)"
proof -
  have "rmem_inv st" using rmem_inv_startup [OF rmem_static_lengths, of servers node port linked] assms(4) by auto
  from rmem_loop_total [OF assms(1) this assms(2,3)] show ?thesis by (auto simp: rmem_inv_def)
qed

theorem rmem_server_safe_witness:
  "\<exists>st' reps. do_rmem_loop kmailbox_ideal rmem_booted
     [(ones_portal, rmem_rq RMEM_ALLOC 0), (ones_portal, rmem_rq RMEM_WRITE 1)] = Some (st', reps) \<and>
     unat (nblocks (rm_stats st')) = card (bits (rm_bitmap st'))"
proof -
  obtain r where "do_rmem_startup [0, 1] 0 0 True (Inr 0) rmem_static = Some (r, rmem_booted)"
    using rmem_inv_startup [OF rmem_static_lengths, of "[0, 1]" 0 0 "Inr 0"] by (auto simp: rmem_booted_def)
  from rmem_server_safe [OF _ kmailbox_ideal_up _ this, of "[(ones_portal, rmem_rq RMEM_ALLOC 0), (ones_portal, rmem_rq RMEM_WRITE 1)]"]
  show ?thesis by auto
qed

text \<open>
  A remote address names its server and block: for a block number below \<open>2 ^ 24\<close> and a server number
  that fits the rest of the word, \<open>RMEM_BLOCK_NUM\<close> and \<open>RMEM_BLOCK_SERVER\<close> read back what
  \<open>RMEM_BLOCK\<close> was given, although the server mask is sign-extended on a word wider than 32 bits.
\<close>

theorem rmem_address_roundtrip:
  fixes server num :: "'w :: len word"
  assumes "24 \<le> LENGTH('w)" "unat num < 2 ^ 24" "unat server < 2 ^ (LENGTH('w) - 24)"
  shows "RMEM_BLOCK_NUM (RMEM_BLOCK server num) = num \<and> RMEM_BLOCK_SERVER (RMEM_BLOCK server num) = server"
  using assms unfolding RMEM_BLOCK_NUM_BLOCK RMEM_BLOCK_SERVER_BLOCK
  by (simp add: word_unat_eq_iff unsigned_take_bit_eq take_bit_nat_eq_self)

theorem rmem_address_roundtrip_witness:
  "RMEM_BLOCK_NUM (RMEM_BLOCK 1 (8191 :: 64 word)) = 8191 \<and> RMEM_BLOCK_SERVER (RMEM_BLOCK 1 (8191 :: 64 word)) = 1"
  using rmem_address_roundtrip [of "8191 :: 64 word" 1] by simp

text \<open>
  The null block is not null. A write to a block that is not allocated fails with \<open>EFAULT\<close> but is
  stored in block zero, and a later read of an unallocated block, by any client, also fails and yet
  sends that data.
\<close>

theorem rmem_null_block_leaks:
  fixes wr rd :: "'w :: len word rmem_message"
  assumes "rmem_inv st" "mailboxes_up K" "portals_up P" "portals_up P'"
    and "rmem_block_ok (RMEM_BLOCK_NUM (rq_blknum wr))" "rmem_abs st (rq_block wr) = None"
    and "rmem_block_ok (RMEM_BLOCK_NUM (rq_blknum rd))" "rmem_abs st (rq_block rd) = None"
  shows "\<exists>st'. do_rmem_write P st wr = Some (Inl EFAULT, st') \<and>
    do_rmem_read K P' st' rd = Some (Inl EFAULT, Some (kportal_read P (rm_inportal st) RMEM_BLOCK_SIZE))"
proof -
  let ?d = "kportal_read P (rm_inportal st) RMEM_BLOCK_SIZE"
  let ?st = "st\<lparr>rm_blocks := (rm_blocks st)[0 := ?d]\<rparr>"
  have w: "do_rmem_write P st wr = Some (Inl EFAULT, ?st)" "rmem_inv ?st" "rmem_abs ?st = rmem_abs st"
    using rmem_write_spec [OF assms(1,3), of wr] assms(5,6) by auto
  have "0 < length (rm_blocks st)" using assms(1) by (simp add: rmem_inv_def rmem_consts)
  with rmem_read_spec [OF w(2) assms(2,4), of rd] w(3) assms(7,8)
  have "do_rmem_read K P' ?st rd = Some (Inl EFAULT, Some ?d)" by simp
  with w(1) show ?thesis by blast
qed

theorem rmem_null_block_leaks_witness:
  "\<exists>st'. do_rmem_read kmailbox_ideal ones_portal st' (rmem_rq RMEM_READ 6) = Some (Inl EFAULT, Some (replicate RMEM_BLOCK_SIZE 1))"
proof -
  have ok: "rmem_block_ok (RMEM_BLOCK_NUM (rq_blknum (rmem_rq op b)))" if "b = 5 \<or> b = 6" for op b
    using that by (auto simp: rmem_rq_def RMEM_BLOCK_NUM_eq rmem_block_ok_def rmem_consts)
  show ?thesis
    using rmem_null_block_leaks [of rmem_booted kmailbox_ideal ones_portal ones_portal "rmem_rq RMEM_WRITE 5" "rmem_rq RMEM_READ 6"]
      ok [of 5 RMEM_WRITE] ok [of 6 RMEM_READ] rmem_booted_inv
    by (auto simp: ones_portal_read)
qed

end
