(* ===== verification/RMemStub.thy ===== *)
theory RMemStub
  imports RMem
begin

text \<open>
  The client stub of the remote memory service, \<open>src/libruntime/mm/stub.c\<close>, together with the
  servers it talks to: a call builds a request, the server of that connection handles it with
  \<open>rmem_step\<close>, and the stub reads the reply. The number of servers (\<open>RMEM_SERVERS_NUM\<close>, one or two
  in the configurations) is the length of the connection table. The client's side of the kernel
  calls is the parameter \<open>rmem_env\<close>; a failing assertion and a call that never gets its
  reply are \<open>None\<close>.

  \<open>remote_memory\<close> is the interface the users of the stub rely on, a set of pages with contents;
  \<^term>\<open>page_abs\<close> is the map of pages that the servers hold.
\<close>

section \<open>State\<close>

record rmem_conn =
  rc_initialized :: bool
  rc_outbox :: int
  rc_outportal :: int

record rmem_client_stats =
  cs_nallocs :: "64 word"
  cs_nfrees :: "64 word"
  cs_nreads :: "64 word"
  cs_nwrites :: "64 word"

record rmem_system =
  rs_server :: "rmem_conn list"
  rs_nallocs :: "32 word"
  rs_stats :: rmem_client_stats
  rs_servers :: "rmem list"
  rs_alive :: "bool list"

text \<open>
  The environment: the number of this node, the ports of its standard inbox and portal and of an
  output portal, the kernel as the servers see it (the portal carries the bytes the client sends),
  whether the client's own calls succeed, and the handles that opening a connection gives. The second
  argument of \<open>env_pwrite_ok\<close> says whether the server reads the data.
\<close>

record 'b rmem_env =
  env_node :: int
  env_inbox_port :: int
  env_inportal_port :: int
  env_portal_port :: "int \<Rightarrow> int"
  env_mailbox :: kmailbox
  env_portal :: "byte list \<Rightarrow> kportal"
  env_mwrite_ok :: "int \<Rightarrow> bool"
  env_pwrite_ok :: "int \<Rightarrow> bool \<Rightarrow> bool"
  env_mread_ok :: bool
  env_pread_ok :: bool
  env_mopen :: "nat \<Rightarrow> int"
  env_popen :: "nat \<Rightarrow> int"
  env_mclose :: "int \<Rightarrow> int"
  env_pclose :: "int \<Rightarrow> int"
  env_excp_ok :: bool
  env_junk :: 'b

definition RMEM_NULL :: "'w :: len word" where "RMEM_NULL = 0"

section \<open>Operations\<close>

text \<open>The header fields are 16 and 8 bits wide.\<close>

definition message_header_build2 :: "'w :: len word rmem_env \<Rightarrow> rmem_op \<Rightarrow> int \<Rightarrow> 'w word \<Rightarrow> 'w word rmem_message" where
  "message_header_build2 E op portal_port blk =
     \<lparr>rq_source = take_bit 16 (env_node E), rq_mailbox_port = take_bit 8 (env_inbox_port E),
      rq_portal_port = take_bit 8 portal_port, rq_op = op, rq_blknum = blk\<rparr>"

definition message_header_build :: "'w :: len word rmem_env \<Rightarrow> rmem_op \<Rightarrow> 'w word \<Rightarrow> 'w word rmem_message" where
  "message_header_build E op blk = message_header_build2 E op (env_inportal_port E) blk"

text \<open>
  Send a request to server \<open>i\<close>, sending \<open>data\<close> along from the port of the output portal, and wait for
  its reply. The server gets the data only from the node and port that the header names.
\<close>

definition rmem_call :: "'w :: len word rmem_env \<Rightarrow> rmem_system \<Rightarrow> nat \<Rightarrow> byte list \<Rightarrow> 'w word rmem_message \<Rightarrow>
    ('w word rmem_reply \<times> rmem_system) option" where
  "rmem_call E w i data msg =
     do { c \<leftarrow> arr_get (rs_server w) i;
          uassert (env_mwrite_ok E (rc_outbox c));
          alive \<leftarrow> arr_get (rs_alive w) i;
          uassert alive;
          st \<leftarrow> arr_get (rs_servers w) i;
          let P = portal_from (take_bit 16 (env_node E)) (take_bit 8 (env_portal_port E (rc_outportal c))) (env_portal E data);
          (st', rep, _) \<leftarrow> rmem_step (env_mailbox E) P st msg;
          r \<leftarrow> rep;
          uassert (env_mread_ok E);
          Some (r, w\<lparr>rs_servers := (rs_servers w)[i := st']\<rparr>) }"

text \<open>The index the stub computes from an address, converted to \<open>int\<close>; outside the table it is no index.\<close>

definition rmem_serverid :: "rmem_system \<Rightarrow> 'w :: len word \<Rightarrow> nat option" where
  "rmem_serverid w blknum =
     (let i = signed_take_bit 31 (uint (RMEM_BLOCK_SERVER blknum)) in
      if 0 \<le> i \<and> nat i < length (rs_server w) then Some (nat i) else None)"

definition rmem_bad_block :: "'w :: len word \<Rightarrow> bool" where
  "rmem_bad_block blknum \<longleftrightarrow> blknum = RMEM_NULL \<or> RMEM_NUM_BLOCKS \<le> unat (RMEM_BLOCK_NUM blknum)"

text \<open>
  \<open>msg\<close> is on the stack and only its header is set for an allocation: \<open>env_junk\<close> stands for the rest.
  On failure the reply carries no block number.
\<close>

definition nanvix_rmem_alloc :: "'w :: len word rmem_env \<Rightarrow> rmem_system \<Rightarrow> ('w word \<times> rmem_system) option" where
  "nanvix_rmem_alloc E w =
     do { let serverid = unat (rs_nallocs w) mod length (rs_server w);
          c \<leftarrow> arr_get (rs_server w) serverid;
          if \<not> rc_initialized c then Some (RMEM_NULL, w)
          else do {
            (rep, w') \<leftarrow> rmem_call E w serverid [] (message_header_build E RMEM_ALLOC (env_junk E));
            case rp_errcode rep of
              Inl _ \<Rightarrow> Some (RMEM_NULL, w')
            | Inr _ \<Rightarrow> do {
                blk \<leftarrow> rp_blknum rep;
                Some (blk, w'\<lparr>rs_nallocs := rs_nallocs w' + 1,
                              rs_stats := (rs_stats w')\<lparr>cs_nallocs := cs_nallocs (rs_stats w') + 1\<rparr>\<rparr>) } } }"

definition nanvix_rmem_free :: "'w :: len word rmem_env \<Rightarrow> rmem_system \<Rightarrow> 'w word \<Rightarrow> (int result \<times> rmem_system) option" where
  "nanvix_rmem_free E w blknum =
     (if rmem_bad_block blknum then Some (Inl EINVAL, w)
      else do {
        i \<leftarrow> rmem_serverid w blknum;
        c \<leftarrow> arr_get (rs_server w) i;
        if \<not> rc_initialized c then Some (Inl EINVAL, w)
        else do {
          (rep, w') \<leftarrow> rmem_call E w i [] (message_header_build E RMEM_MEMFREE blknum);
          Some (rp_errcode rep, w'\<lparr>rs_stats := (rs_stats w')\<lparr>cs_nfrees := cs_nfrees (rs_stats w') + 1\<rparr>\<rparr>) } })"

text \<open>
  The result of a read is the number of bytes, zero on every failure, and what the buffer receives:
  the block comes before the reply, so a refused read fills the buffer too. The acknowledgement
  precedes the data; a reply in its place fails the assertion on its opcode.
\<close>

definition nanvix_rmem_read :: "'w :: len word rmem_env \<Rightarrow> rmem_system \<Rightarrow> 'w word \<Rightarrow> bool \<Rightarrow>
    (nat \<times> byte list option \<times> rmem_system) option" where
  "nanvix_rmem_read E w blknum null =
     (if rmem_bad_block blknum then Some (0, None, w)
      else if null then Some (0, None, w)
      else do {
        i \<leftarrow> rmem_serverid w blknum;
        c \<leftarrow> arr_get (rs_server w) i;
        if \<not> rc_initialized c then Some (0, None, w)
        else do {
          (rep, w') \<leftarrow> rmem_call E w i [] (message_header_build E RMEM_READ blknum);
          data \<leftarrow> rp_data rep;
          uassert (env_pread_ok E);
          Some (case rp_errcode rep of Inl _ \<Rightarrow> 0 | Inr _ \<Rightarrow> RMEM_BLOCK_SIZE, Some data,
            w'\<lparr>rs_stats := (rs_stats w')\<lparr>cs_nreads := cs_nreads (rs_stats w') + 1\<rparr>\<rparr>) } })"

definition nanvix_rmem_write :: "'w :: len word rmem_env \<Rightarrow> rmem_system \<Rightarrow> 'w word \<Rightarrow> byte list option \<Rightarrow>
    (nat \<times> rmem_system) option" where
  "nanvix_rmem_write E w blknum buf =
     (if rmem_bad_block blknum then Some (0, w)
      else case buf of None \<Rightarrow> Some (0, w)
      | Some data \<Rightarrow> do {
        i \<leftarrow> rmem_serverid w blknum;
        c \<leftarrow> arr_get (rs_server w) i;
        if \<not> rc_initialized c then Some (0, w)
        else do {
          (rep, w') \<leftarrow> rmem_call E w i data
            (message_header_build2 E RMEM_WRITE (env_portal_port E (rc_outportal c)) blknum);
          uassert (env_pwrite_ok E (rc_outportal c) (rp_errcode rep \<noteq> Inl EINVAL));
          Some (case rp_errcode rep of Inl _ \<Rightarrow> 0 | Inr _ \<Rightarrow> RMEM_BLOCK_SIZE,
            w'\<lparr>rs_stats := (rs_stats w')\<lparr>cs_nwrites := cs_nwrites (rs_stats w') + 1\<rparr>\<rparr>) } })"

definition nanvix_rmem_stats :: "rmem_system \<Rightarrow> bool \<Rightarrow> errno + rmem_client_stats" where
  "nanvix_rmem_stats w null = (if null then Inl EINVAL else Inr (rs_stats w))"

text \<open>
  A request that has no reply: the server handles it in its loop and leaves the loop when the request says so. A server that has
  left its loop does not read it. The first connection that cannot be written aborts the caller.
\<close>

definition rmem_signal :: "'w :: len word rmem_env \<Rightarrow> rmem_system \<Rightarrow> nat \<Rightarrow> 'w word rmem_message \<Rightarrow> rmem_system option" where
  "rmem_signal E w i msg =
     do { c \<leftarrow> arr_get (rs_server w) i;
          uassert (env_mwrite_ok E (rc_outbox c));
          alive \<leftarrow> arr_get (rs_alive w) i;
          if \<not> alive then Some w
          else do {
            st \<leftarrow> arr_get (rs_servers w) i;
            (st', _, shutdown) \<leftarrow> rmem_step (env_mailbox E) (env_portal E []) st msg;
            Some (w\<lparr>rs_servers := (rs_servers w)[i := st'], rs_alive := (rs_alive w)[i := \<not> shutdown]\<rparr>) } }"

fun rmem_broadcast :: "'w :: len word rmem_env \<Rightarrow> rmem_system \<Rightarrow> nat list \<Rightarrow> 'w word rmem_message \<Rightarrow> rmem_system option" where
  "rmem_broadcast E w [] msg = Some w"
| "rmem_broadcast E w (i # is) msg = do { w' \<leftarrow> rmem_signal E w i msg; rmem_broadcast E w' is msg }"

definition nanvix_rmem_shutdown :: "'w :: len word rmem_env \<Rightarrow> rmem_system \<Rightarrow> (int \<times> rmem_system) option" where
  "nanvix_rmem_shutdown E w =
     do { w' \<leftarrow> rmem_broadcast E w [0..<length (rs_server w)] (message_header_build E RMEM_EXIT (env_junk E));
          Some (0, w') }"

fun setup_conns :: "'b rmem_env \<Rightarrow> nat \<Rightarrow> rmem_conn list \<Rightarrow> int \<times> rmem_conn list" where
  "setup_conns E i [] = (0, [])"
| "setup_conns E i (c # cs) =
     (if rc_initialized c then apsnd ((#) c) (setup_conns E (Suc i) cs)
      else let c1 = c\<lparr>rc_outbox := env_mopen E i\<rparr> in
        if rc_outbox c1 < 0 then (rc_outbox c1, c1 # cs)
        else let c2 = c1\<lparr>rc_outportal := env_popen E i\<rparr> in
          if rc_outportal c2 < 0 then (rc_outportal c2, c2 # cs)
          else apsnd ((#) (c2\<lparr>rc_initialized := True\<rparr>)) (setup_conns E (Suc i) cs))"

definition nanvix_rmem_setup :: "'b rmem_env \<Rightarrow> rmem_system \<Rightarrow> (int \<times> rmem_system) option" where
  "nanvix_rmem_setup E w =
     (case setup_conns E 0 (rs_server w) of
        (ret, cs) \<Rightarrow>
          if ret < 0 then Some (ret, w\<lparr>rs_server := cs\<rparr>)
          else do { uassert (env_excp_ok E);
            Some (0, w\<lparr>rs_server := cs,
              rs_stats := \<lparr>cs_nallocs = 0, cs_nfrees = 0, cs_nreads = 0, cs_nwrites = 0\<rparr>\<rparr>) })"

fun cleanup_conns :: "'b rmem_env \<Rightarrow> rmem_conn list \<Rightarrow> int result \<times> rmem_conn list" where
  "cleanup_conns E [] = (Inr 0, [])"
| "cleanup_conns E (c # cs) =
     (if \<not> rc_initialized c then apsnd ((#) c) (cleanup_conns E cs)
      else if env_mclose E (rc_outbox c) < 0 then (Inl EAGAIN, c # cs)
      else if env_pclose E (rc_outportal c) < 0 then (Inl EAGAIN, c # cs)
      else apsnd ((#) (c\<lparr>rc_initialized := False\<rparr>)) (cleanup_conns E cs))"

definition nanvix_rmem_cleanup :: "'b rmem_env \<Rightarrow> rmem_system \<Rightarrow> (int result \<times> rmem_system) option" where
  "nanvix_rmem_cleanup E w =
     do { uassert (env_excp_ok E);
          let (ret, cs) = cleanup_conns E (rs_server w);
          Some (ret, w\<lparr>rs_server := cs\<rparr>) }"

text \<open>The exit request stops a server, whatever its state, and changes nothing else.\<close>

lemma rmem_signal_exit:
  assumes "i < length (rs_server w)" "length (rs_alive w) = length (rs_server w)" "length (rs_servers w) = length (rs_server w)" "\<forall>fd. env_mwrite_ok E fd"
  shows "rmem_signal E w i (message_header_build E RMEM_EXIT j) = Some (w\<lparr>rs_alive := (rs_alive w)[i := False]\<rparr>)"
proof (cases "rs_alive w ! i")
  case True
  with assms show ?thesis by (simp add: rmem_signal_def rmem_step_def rmem_handle_def message_header_build_def message_header_build2_def)
next
  case False
  then have "(rs_alive w)[i := False] = rs_alive w" by (metis list_update_id)
  with False assms show ?thesis by (simp add: rmem_signal_def)
qed

lemma rmem_broadcast_exit:
  assumes "set is \<subseteq> {..<length (rs_server w)}" "length (rs_alive w) = length (rs_server w)" "length (rs_servers w) = length (rs_server w)" "\<forall>fd. env_mwrite_ok E fd"
  shows "rmem_broadcast E w is (message_header_build E RMEM_EXIT j) = Some (w\<lparr>rs_alive := fold (\<lambda>i a. a[i := False]) is (rs_alive w)\<rparr>)"
  using assms by (induction "is" arbitrary: w) (simp_all add: rmem_signal_exit)

lemma fold_clear:
  "n \<le> length a \<Longrightarrow> fold (\<lambda>i a. a[i := False]) [0..<n] a = replicate n False @ drop n a"
proof (induction n)
  case (Suc n)
  then have "drop n a = a ! n # drop (Suc n) a" by (simp add: Cons_nth_drop_Suc)
  with Suc show ?case by (simp add: list_update_append replicate_append_same [symmetric])
qed simp

lemma rmem_shutdown_stops:
  assumes "length (rs_alive w) = length (rs_server w)" "length (rs_servers w) = length (rs_server w)" "\<forall>fd. env_mwrite_ok E fd"
  shows "nanvix_rmem_shutdown E w = Some (0, w\<lparr>rs_alive := replicate (length (rs_server w)) False\<rparr>)"
proof -
  have "set [0..<length (rs_server w)] \<subseteq> {..<length (rs_server w)}" by auto
  from rmem_broadcast_exit [OF this assms] assms(1) show ?thesis by (simp add: nanvix_rmem_shutdown_def fold_clear)
qed

text \<open>A sequence of writes to pages.\<close>

fun write_all :: "('m \<Rightarrow> 'p \<Rightarrow> byte list \<Rightarrow> (nat \<times> 'm) option) \<Rightarrow> 'm \<Rightarrow> ('p \<times> byte list) list \<Rightarrow> 'm option" where
  "write_all wr m [] = Some m"
| "write_all wr m ((p, d) # ws) = do { (_, m') \<leftarrow> wr m p d; write_all wr m' ws }"

section \<open>The interface of a remote memory\<close>

text \<open>
  What the users of remote memory rely on: pages with an owner and contents, a null page that is
  never one of them, fresh cleared pages, release by the owner alone, and reads that return the
  contents last written.
\<close>

locale remote_memory =
  fixes inv :: "'m \<Rightarrow> bool" and pages :: "'m \<Rightarrow> 'p \<Rightarrow> (int \<times> byte list) option" and me :: int and null :: 'p
    and page_alloc :: "'m \<Rightarrow> ('p \<times> 'm) option" and page_free :: "'m \<Rightarrow> 'p \<Rightarrow> (int result \<times> 'm) option"
    and page_read :: "'m \<Rightarrow> 'p \<Rightarrow> (nat \<times> byte list option \<times> 'm) option"
    and page_write :: "'m \<Rightarrow> 'p \<Rightarrow> byte list \<Rightarrow> (nat \<times> 'm) option"
  assumes null_page: "inv m \<Longrightarrow> pages m null = None"
    and page_size: "inv m \<Longrightarrow> pages m p = Some (own, d) \<Longrightarrow> length d = RMEM_BLOCK_SIZE"
    and alloc_law: "inv m \<Longrightarrow> \<exists>p m'. page_alloc m = Some (p, m') \<and> inv m' \<and>
      (if p = null then pages m' = pages m
       else pages m p = None \<and> pages m' = (pages m)(p \<mapsto> (me, replicate RMEM_BLOCK_SIZE 0)))"
    and free_law: "inv m \<Longrightarrow> pages m p = Some (own, d) \<Longrightarrow> \<exists>m'. inv m' \<and>
      (if own = me then page_free m p = Some (Inr 0, m') \<and> pages m' = (pages m)(p := None)
       else page_free m p = Some (Inl EFAULT, m') \<and> pages m' = pages m)"
    and read_law: "inv m \<Longrightarrow> pages m p = Some (own, d) \<Longrightarrow>
      \<exists>m'. page_read m p = Some (RMEM_BLOCK_SIZE, Some d, m') \<and> inv m' \<and> pages m' = pages m"
    and write_law: "inv m \<Longrightarrow> pages m p = Some (own, d) \<Longrightarrow> length d' = RMEM_BLOCK_SIZE \<Longrightarrow>
      \<exists>m'. page_write m p d' = Some (RMEM_BLOCK_SIZE, m') \<and> inv m' \<and> pages m' = (pages m)(p \<mapsto> (own, d'))"
begin

lemma write_all_spec:
  assumes "inv m" "\<forall>(p, d)\<in>set ws. pages m p \<noteq> None \<and> length d = RMEM_BLOCK_SIZE"
  shows "\<exists>m'. write_all page_write m ws = Some m' \<and> inv m' \<and>
    (\<forall>p. pages m' p = (case map_of (rev ws) p of None \<Rightarrow> pages m p | Some d \<Rightarrow> map_option (\<lambda>(own, _). (own, d)) (pages m p)))"
  using assms
proof (induction ws arbitrary: m)
  case Nil
  then show ?case by simp
next
  case (Cons x ws)
  obtain p d where x: "x = (p, d)" by (cases x)
  then obtain own d0 where p: "pages m p = Some (own, d0)" "length d = RMEM_BLOCK_SIZE" using Cons.prems(2) by fastforce
  obtain m1 where m1: "page_write m p d = Some (RMEM_BLOCK_SIZE, m1)" "inv m1" "pages m1 = (pages m)(p \<mapsto> (own, d))"
    using write_law [OF Cons.prems(1) p] by blast
  have "\<forall>(q, d)\<in>set ws. pages m1 q \<noteq> None \<and> length d = RMEM_BLOCK_SIZE" using Cons.prems(2) m1(3) by auto
  from Cons.IH [OF m1(2) this] obtain m' where m': "write_all page_write m1 ws = Some m'" "inv m'"
    "\<forall>q. pages m' q = (case map_of (rev ws) q of None \<Rightarrow> pages m1 q | Some d \<Rightarrow> map_option (\<lambda>(own, _). (own, d)) (pages m1 q))"
    by blast
  have "pages m' q = (case map_of (rev (x # ws)) q of None \<Rightarrow> pages m q | Some d \<Rightarrow> map_option (\<lambda>(own, _). (own, d)) (pages m q))" for q
    using m'(3) m1(3) x p by (auto simp: map_add_def split: option.splits)
  with m' m1 x show ?case by simp
qed

text \<open>A page that was allocated holds what the last write to it stored, and zeroes before the first.\<close>

lemma alloc_write_read:
  assumes "inv m" "page_alloc m = Some (p, m1)" "p \<noteq> null"
    and "\<forall>(q, d)\<in>set ws. pages m1 q \<noteq> None \<and> length d = RMEM_BLOCK_SIZE"
  shows "\<exists>m2 m3. write_all page_write m1 ws = Some m2 \<and> inv m2 \<and>
    page_read m2 p = Some (RMEM_BLOCK_SIZE, Some (case map_of (rev ws) p of None \<Rightarrow> replicate RMEM_BLOCK_SIZE 0 | Some d \<Rightarrow> d), m3) \<and>
    inv m3 \<and> pages m3 = pages m2 \<and> (\<exists>d. pages m3 p = Some (me, d))"
proof -
  have m1: "inv m1" "pages m1 p = Some (me, replicate RMEM_BLOCK_SIZE 0)" using alloc_law [OF assms(1)] assms(2,3) by auto
  obtain m2 where m2: "write_all page_write m1 ws = Some m2" "inv m2"
    "\<forall>p. pages m2 p = (case map_of (rev ws) p of None \<Rightarrow> pages m1 p | Some d \<Rightarrow> map_option (\<lambda>(own, _). (own, d)) (pages m1 p))"
    using write_all_spec [OF m1(1) assms(4)] by blast
  have p: "pages m2 p = Some (me, case map_of (rev ws) p of None \<Rightarrow> replicate RMEM_BLOCK_SIZE 0 | Some d \<Rightarrow> d)"
    using m2(3) m1(2) by (auto split: option.splits)
  then have "\<exists>d. pages m2 p = Some (me, d)" by blast
  with read_law [OF m2(2) p] m2(1,2) show ?thesis by metis
qed

end

section \<open>The stub over its servers\<close>

definition env_up :: "'b rmem_env \<Rightarrow> bool" where
  "env_up E \<longleftrightarrow> mailboxes_up (env_mailbox E) \<and> (\<forall>d. portals_up (env_portal E d)) \<and>
     (\<forall>d p. length d = RMEM_BLOCK_SIZE \<longrightarrow> kportal_read (env_portal E d) p RMEM_BLOCK_SIZE = d) \<and>
     (\<forall>x. env_mwrite_ok E x \<and> env_pwrite_ok E x True) \<and> env_mread_ok E \<and> env_pread_ok E"

definition sys_inv :: "rmem_system \<Rightarrow> bool" where
  "sys_inv w \<longleftrightarrow> rs_server w \<noteq> [] \<and> length (rs_server w) \<le> 256 \<and> length (rs_servers w) = length (rs_server w) \<and>
     rs_alive w = replicate (length (rs_server w)) True \<and> (\<forall>c\<in>set (rs_server w). rc_initialized c) \<and>
     (\<forall>i<length (rs_servers w). rmem_inv (rs_servers w ! i) \<and> rm_serverid (rs_servers w ! i) = int i)"

definition page_abs :: "rmem_system \<Rightarrow> 'w :: len word \<Rightarrow> (int \<times> byte list) option" where
  "page_abs w p = (if unat (RMEM_BLOCK_SERVER p) < length (rs_servers w)
     then rmem_abs (rs_servers w ! unat (RMEM_BLOCK_SERVER p)) (unat (RMEM_BLOCK_NUM p)) else None)"

definition stub_inv :: "'w :: len word rmem_env \<Rightarrow> rmem_system \<Rightarrow> bool" where
  "stub_inv E w \<longleftrightarrow> env_up E \<and> 32 \<le> LENGTH('w) \<and> sys_inv w"

lemma address_eqI:
  fixes p q :: "'w :: len word"
  assumes "RMEM_BLOCK_SERVER p = RMEM_BLOCK_SERVER q" "RMEM_BLOCK_NUM p = RMEM_BLOCK_NUM q"
  shows "p = q"
  using assms unfolding RMEM_BLOCK_SERVER_eq RMEM_BLOCK_NUM_eq by (metis bits_ident)

lemma RMEM_BLOCK_parts:
  assumes "32 \<le> LENGTH('w)" "i < 256"
  shows "b < RMEM_NUM_BLOCKS \<Longrightarrow> unat (RMEM_BLOCK_NUM (RMEM_BLOCK (word_of_int (int i)) (of_nat b) :: 'w :: len word)) = b"
    "unat (RMEM_BLOCK_SERVER (RMEM_BLOCK (word_of_int (int i)) (of_nat b) :: 'w :: len word)) = i"
proof -
  have "(2 :: nat) ^ 32 \<le> 2 ^ LENGTH('w)" "(2 :: nat) ^ 8 \<le> 2 ^ (LENGTH('w) - 24)"
    using assms(1) by (intro power_increasing; simp)+
  then have i: "unat (word_of_int (int i) :: 'w word) = i" "i < 2 ^ (LENGTH('w) - 24)"
    and b: "b < RMEM_NUM_BLOCKS \<Longrightarrow> unat (of_nat b :: 'w word) = b"
    using assms(2) by (simp_all add: unat_of_nat_lt rmem_consts)
  then show "b < RMEM_NUM_BLOCKS \<Longrightarrow> unat (RMEM_BLOCK_NUM (RMEM_BLOCK (word_of_int (int i)) (of_nat b) :: 'w word)) = b"
    "unat (RMEM_BLOCK_SERVER (RMEM_BLOCK (word_of_int (int i)) (of_nat b) :: 'w word)) = i"
    unfolding RMEM_BLOCK_NUM_BLOCK RMEM_BLOCK_SERVER_BLOCK
    by (simp_all add: unsigned_take_bit_eq take_bit_nat_eq_self rmem_consts)
qed

lemma rmem_ops_serverid:
  "do_rmem_write P st rq = Some (r, st') \<Longrightarrow> rm_serverid st' = rm_serverid st"
  "do_rmem_alloc st rq = Some (r, b, st') \<Longrightarrow> rm_serverid st' = rm_serverid st"
  "do_rmem_free st rq = Some (r, st') \<Longrightarrow> rm_serverid st' = rm_serverid st"
  by (auto simp: do_rmem_write_def do_rmem_alloc_def do_rmem_free_def Let_def bind_eq_Some_conv split: if_splits)

lemma message_header_op [simp]: "rq_op (message_header_build E op blk) = op" "rq_op (message_header_build2 E op port blk) = op"
  by (simp_all add: message_header_build_def message_header_build2_def)

lemma rmem_handle_from:
  assumes "rq_op msg = RMEM_WRITE \<longrightarrow> rq_source msg = node \<and> rq_portal_port msg = port"
  shows "rmem_handle K (portal_from node port P) st msg = rmem_handle K P st msg"
  using assms by (cases "rq_op msg") (auto simp: rmem_handle_def do_rmem_write_def do_rmem_read_def portal_receive_from Let_def)

lemma rmem_call_up:
  assumes "env_up E" "sys_inv w" "i < length (rs_server w)"
    and "rmem_handle (env_mailbox E) (env_portal E d) (rs_servers w ! i) msg = Some (st', Some rep, sd)"
    and "rq_op msg = RMEM_WRITE \<longrightarrow> msg = message_header_build2 E RMEM_WRITE (env_portal_port E (rc_outportal (rs_server w ! i))) blk"
  shows "rmem_call E w i d msg = Some (rep, w\<lparr>rs_servers := (rs_servers w)[i := st']\<rparr>)"
proof -
  let ?P = "portal_from (take_bit 16 (env_node E)) (take_bit 8 (env_portal_port E (rc_outportal (rs_server w ! i)))) (env_portal E d)"
  have "rmem_handle (env_mailbox E) ?P (rs_servers w ! i) msg = Some (st', Some rep, sd)"
    using assms(4,5) by (subst rmem_handle_from) (auto simp: message_header_build2_def)
  from rmem_step_reply [of "env_mailbox E", OF _ this] show ?thesis
    using assms(1-3) by (simp add: rmem_call_def env_up_def sys_inv_def)
qed

lemma sys_inv_update:
  assumes "sys_inv w" "i < length (rs_server w)" "rmem_inv st'" "rm_serverid st' = rm_serverid (rs_servers w ! i)"
    and "rs_server w' = rs_server w" "rs_alive w' = rs_alive w" "rs_servers w' = (rs_servers w)[i := st']"
  shows "sys_inv w'"
  using assms by (auto simp: sys_inv_def nth_list_update)

lemma page_abs_update:
  fixes p :: "'w :: len word"
  assumes "rs_servers w' = (rs_servers w)[i := st']"
    and "unat (RMEM_BLOCK_SERVER p) = i" "i < length (rs_servers w)" "unat (RMEM_BLOCK_NUM p) = b"
    and "rmem_abs st' = (rmem_abs (rs_servers w ! i))(b := v)"
  shows "page_abs w' = (page_abs w)(p := v)"
proof
  fix q :: "'w word"
  show "page_abs w' q = ((page_abs w)(p := v)) q"
  proof (cases "q = p")
    case True
    with assms show ?thesis by (simp add: page_abs_def)
  next
    case False
    then have "unat (RMEM_BLOCK_SERVER q) \<noteq> i \<or> unat (RMEM_BLOCK_NUM q) \<noteq> b"
      using assms(2,4) by (metis address_eqI word_unat_eq_iff)
    with False assms show ?thesis by (auto simp: page_abs_def nth_list_update)
  qed
qed

lemma page_abs_same:
  assumes "rs_servers w' = (rs_servers w)[i := st']" "rmem_abs st' = rmem_abs (rs_servers w ! i)" "i < length (rs_servers w)"
  shows "page_abs w' = page_abs w"
  using assms by (auto simp: page_abs_def fun_eq_iff nth_list_update)

lemma rmem_serverid_canonical:
  assumes "sys_inv w" "unat (RMEM_BLOCK_SERVER p) = i" "i < length (rs_server w)"
  shows "rmem_serverid w p = Some i"
proof -
  have "i < 256" using assms(1,3) unfolding sys_inv_def by linarith
  then have "signed_take_bit 31 (int i) = int i" by (intro signed_take_bit_int_eq_self) simp_all
  then have "signed_take_bit 31 (uint (RMEM_BLOCK_SERVER p)) = int i" using assms(2) by (simp only: uint_nat)
  with assms(3) show ?thesis by (simp add: rmem_serverid_def)
qed

lemma page_abs_block:
  fixes p :: "'a :: len word"
  assumes "page_abs w p = Some od" "sys_inv w"
  shows "\<not> rmem_bad_block p" "rmem_block_ok (RMEM_BLOCK_NUM p)"
    "rmem_abs (rs_servers w ! unat (RMEM_BLOCK_SERVER p)) (unat (RMEM_BLOCK_NUM p)) = Some od"
    "unat (RMEM_BLOCK_SERVER p) < length (rs_server w)" "rmem_serverid w p = Some (unat (RMEM_BLOCK_SERVER p))"
proof -
  let ?i = "unat (RMEM_BLOCK_SERVER p)"
  show a: "rmem_abs (rs_servers w ! ?i) (unat (RMEM_BLOCK_NUM p)) = Some od" and i: "?i < length (rs_server w)"
    using assms by (auto simp: page_abs_def sys_inv_def split: if_splits)
  from i assms(2) have inv: "rmem_inv (rs_servers w ! ?i)" by (simp add: sys_inv_def)
  from a have b: "RMEM_BLOCK_NUM p \<noteq> 0" "unat (RMEM_BLOCK_NUM p) < RMEM_NUM_BLOCKS"
    using rmem_inv_bitmap(4) [OF inv] by (auto simp: rmem_abs_def split: if_splits)
  then show "rmem_block_ok (RMEM_BLOCK_NUM p)" by (simp add: rmem_block_ok_def)
  have "RMEM_BLOCK_NUM (0 :: 'a word) = 0" by (simp add: RMEM_BLOCK_NUM_eq)
  with b show "\<not> rmem_bad_block p" by (auto simp: rmem_bad_block_def RMEM_NULL_def)
  show "rmem_serverid w p = Some ?i" by (rule rmem_serverid_canonical [OF assms(2) refl i])
qed


text \<open>Each call of the stub, against the map of pages.\<close>

lemma nanvix_rmem_alloc_cases:
  fixes E :: "'w :: len word rmem_env"
  assumes "stub_inv E w"
  defines "s \<equiv> rs_servers w ! (unat (rs_nallocs w) mod length (rs_server w))"
  shows "\<exists>p w'. nanvix_rmem_alloc E w = Some (p, w') \<and> stub_inv E w' \<and>
    (p = RMEM_NULL \<longleftrightarrow> card (bits (rm_bitmap s)) = RMEM_NUM_BLOCKS) \<and>
    rs_nallocs w' = (if p = RMEM_NULL then rs_nallocs w else rs_nallocs w + 1) \<and>
    (p \<noteq> RMEM_NULL \<longrightarrow> unat (RMEM_BLOCK_SERVER p) = unat (rs_nallocs w) mod length (rs_server w) \<and>
       {..<unat (RMEM_BLOCK_NUM p)} \<subseteq> bits (rm_bitmap s)) \<and> rs_server w' = rs_server w \<and>
    (if p = RMEM_NULL then page_abs w' = (page_abs w :: 'w word \<Rightarrow> _)
     else page_abs w p = None \<and> page_abs w' = (page_abs w)(p \<mapsto> (take_bit 16 (env_node E), replicate RMEM_BLOCK_SIZE 0)))"
proof -
  let ?i = "unat (rs_nallocs w) mod length (rs_server w)" and ?msg = "message_header_build E RMEM_ALLOC (env_junk E)"
  have up: "env_up E" and w: "32 \<le> LENGTH('w)" and inv: "sys_inv w" using assms by (simp_all add: stub_inv_def)
  have i: "?i < length (rs_server w)" using inv by (simp add: sys_inv_def)
  let ?s = "rs_servers w ! ?i"
  have s: "s = ?s" by (simp add: s_def)
  let ?st = "?s\<lparr>rm_stats := (rm_stats ?s)\<lparr>nallocs := nallocs (rm_stats ?s) + 1\<rparr>\<rparr>"
  have sinv: "rmem_inv ?st" and id: "rm_serverid ?s = int ?i" and len: "?i < length (rs_servers w)" and c: "rc_initialized (rs_server w ! ?i)"
    using inv i by (simp_all add: sys_inv_def)
  have op: "rq_op ?msg = RMEM_ALLOC" "rq_source ?msg = take_bit 16 (env_node E)"
    by (simp_all add: message_header_build_def message_header_build2_def)
  note A = rmem_alloc_spec [OF sinv, of ?msg]
  show ?thesis
  proof (cases "card (bits (rm_bitmap ?s)) = RMEM_NUM_BLOCKS")
    case True
    with A op have h: "rmem_handle (env_mailbox E) (env_portal E []) ?s ?msg =
        Some (?st, Some \<lparr>rp_errcode = Inl ENOMEM, rp_blknum = None, rp_data = None\<rparr>, False)"
      by (simp add: rmem_handle_def)
    let ?w = "w\<lparr>rs_servers := (rs_servers w)[?i := ?st]\<rparr>"
    have "nanvix_rmem_alloc E w = Some (RMEM_NULL, ?w)"
      using i c rmem_call_up [OF up inv i h] op by (simp add: nanvix_rmem_alloc_def Let_def)
    moreover have "sys_inv ?w" by (rule sys_inv_update [OF inv i sinv]) simp_all
    moreover have "page_abs ?w = (page_abs w :: 'w word \<Rightarrow> _)" by (rule page_abs_same [OF _ _ len, of _ ?st]) simp_all
    ultimately show ?thesis using up w True by (auto simp: stub_inv_def s)
  next
    case False
    let ?p = "\<lambda>b. RMEM_BLOCK (word_of_int (int ?i)) (of_nat b) :: 'w word"
    obtain b st' where b: "do_rmem_alloc ?st ?msg = Some (Inr 0, Some (?p b), st')"
      "b \<noteq> 0" "b < RMEM_NUM_BLOCKS" "b \<notin> bits (rm_bitmap ?s)" "rmem_inv st'"
      "rmem_abs st' = (rmem_abs ?s)(b \<mapsto> (rq_source ?msg, replicate RMEM_BLOCK_SIZE 0))" "{..<b} \<subseteq> bits (rm_bitmap ?s)"
      using A False id by auto
    have h: "rmem_handle (env_mailbox E) (env_portal E []) ?s ?msg =
        Some (st', Some \<lparr>rp_errcode = Inr 0, rp_blknum = Some (?p b), rp_data = None\<rparr>, False)"
      using b(1) op by (simp add: rmem_handle_def)
    have i256: "?i < 256" using inv i unfolding sys_inv_def by linarith
    note addr = RMEM_BLOCK_parts [OF w i256, of b]
    have pn: "?p b \<noteq> RMEM_NULL"
      using addr(1) b(2,3) by (auto simp: RMEM_NULL_def RMEM_BLOCK_NUM_eq rmem_consts)
    define w' where "w' = w\<lparr>rs_servers := (rs_servers w)[?i := st'],
      rs_nallocs := rs_nallocs w + 1, rs_stats := (rs_stats w)\<lparr>cs_nallocs := cs_nallocs (rs_stats w) + 1\<rparr>\<rparr>"
    have "nanvix_rmem_alloc E w = Some (?p b, w')"
      using i c rmem_call_up [OF up inv i h] op by (simp add: nanvix_rmem_alloc_def Let_def w'_def)
    moreover have "sys_inv w'"
      by (rule sys_inv_update [OF inv i b(5)]) (use rmem_ops_serverid(2) [OF b(1)] in \<open>simp_all add: w'_def\<close>)
    moreover have "page_abs w' = (page_abs w)(?p b \<mapsto> (take_bit 16 (env_node E), replicate RMEM_BLOCK_SIZE 0))"
      by (rule page_abs_update [OF _ addr(2) len addr(1)]) (use b op in \<open>simp_all add: w'_def rmem_consts\<close>)
    moreover have "page_abs w (?p b) = None" using addr b len by (simp add: page_abs_def rmem_abs_def rmem_consts)
    moreover have "rs_nallocs w' = rs_nallocs w + 1" "rs_server w' = rs_server w" by (simp_all add: w'_def)
    moreover have "unat (RMEM_BLOCK_NUM (?p b)) = b" using addr(1) b(3) by (simp add: rmem_consts)
    ultimately show ?thesis using up w pn False addr(2) b(7) by (auto simp: stub_inv_def s)
  qed
qed


lemma stub_alloc:
  fixes E :: "'w :: len word rmem_env"
  assumes "stub_inv E w"
  shows "\<exists>p w'. nanvix_rmem_alloc E w = Some (p, w') \<and> stub_inv E w' \<and>
    (if p = RMEM_NULL then page_abs w' = (page_abs w :: 'w word \<Rightarrow> _)
     else page_abs w p = None \<and> page_abs w' = (page_abs w)(p \<mapsto> (take_bit 16 (env_node E), replicate RMEM_BLOCK_SIZE 0)))"
  using nanvix_rmem_alloc_cases [OF assms] by blast

lemma page_server:
  fixes E :: "'w :: len word rmem_env" and p :: "'w word"
  assumes "stub_inv E w" "page_abs w p = Some od" "i = unat (RMEM_BLOCK_SERVER p)"
  shows "env_up E" "sys_inv w" "i < length (rs_server w)" "i < length (rs_servers w)" "rmem_inv (rs_servers w ! i)"
    "rc_initialized (rs_server w ! i)" "rmem_abs (rs_servers w ! i) (unat (RMEM_BLOCK_NUM p)) = Some od"
  using assms page_abs_block(3,4) [OF assms(2)] by (auto simp: stub_inv_def sys_inv_def)

lemma stub_free:
  fixes p :: "'w :: len word"
  assumes "stub_inv E w" "page_abs w p = Some (own, d)"
  shows "\<exists>w'. stub_inv E w' \<and>
    (if own = take_bit 16 (env_node E) then nanvix_rmem_free E w p = Some (Inr 0, w') \<and> page_abs w' = (page_abs w)(p := None)
     else nanvix_rmem_free E w p = Some (Inl EFAULT, w') \<and> page_abs w' = (page_abs w :: 'w word \<Rightarrow> _))"
proof -
  define i where "i = unat (RMEM_BLOCK_SERVER p)"
  let ?s = "rs_servers w ! i" and ?msg = "message_header_build E RMEM_MEMFREE p"
  let ?st = "?s\<lparr>rm_stats := (rm_stats ?s)\<lparr>nfrees := nfrees (rm_stats ?s) + 1\<rparr>\<rparr>"
  note S = page_server [OF assms i_def] and B = page_abs_block [OF assms(2) page_server(2) [OF assms i_def]]
  have op: "rq_op ?msg = RMEM_MEMFREE" "rq_source ?msg = take_bit 16 (env_node E)" "rq_blknum ?msg = p"
    by (simp_all add: message_header_build_def message_header_build2_def)
  obtain r st' where f: "do_rmem_free ?st ?msg = Some (r, st')" "rmem_inv st'" "isl r \<longrightarrow> st' = ?st"
    "if own = take_bit 16 (env_node E) then r = Inr 0 \<and> rmem_abs st' = (rmem_abs ?s)(unat (RMEM_BLOCK_NUM p) := None) else r = Inl EFAULT"
    using rmem_free_spec [of ?st ?msg, unfolded rmem_stats_inv(2,5) op] S(5,7) B(2) by auto
  define w' where "w' = w\<lparr>rs_servers := (rs_servers w)[i := st'], rs_stats := (rs_stats w)\<lparr>cs_nfrees := cs_nfrees (rs_stats w) + 1\<rparr>\<rparr>"
  have h: "rmem_handle (env_mailbox E) (env_portal E []) ?s ?msg =
      Some (st', Some \<lparr>rp_errcode = r, rp_blknum = None, rp_data = None\<rparr>, False)"
    using f(1) op(1) by (simp add: rmem_handle_def)
  have free: "nanvix_rmem_free E w p = Some (r, w')"
    using B(1,5) S(3,6) rmem_call_up [OF S(1-3) h] op by (simp add: nanvix_rmem_free_def w'_def i_def)
  have "sys_inv w'"
    by (rule sys_inv_update [OF S(2,3) f(2)]) (use rmem_ops_serverid(3) [OF f(1)] in \<open>simp_all add: w'_def\<close>)
  then have "stub_inv E w'" using assms(1) by (simp add: stub_inv_def)
  moreover have "page_abs w' = (page_abs w)(p := None)" if "own = take_bit 16 (env_node E)"
    by (rule page_abs_update [OF _ i_def [symmetric] S(4) refl]) (use that f(4) in \<open>auto simp: w'_def\<close>)
  moreover have "page_abs w' = (page_abs w :: 'w word \<Rightarrow> _)" if "own \<noteq> take_bit 16 (env_node E)"
    by (rule page_abs_same [OF _ _ S(4), of _ st']) (use that f(3,4) in \<open>simp_all add: w'_def\<close>)
  ultimately show ?thesis using free f(4) by auto
qed

lemma stub_read:
  fixes p :: "'w :: len word"
  assumes "stub_inv E w" "page_abs w p = Some (own, d)"
  shows "\<exists>w'. nanvix_rmem_read E w p False = Some (RMEM_BLOCK_SIZE, Some d, w') \<and> stub_inv E w' \<and>
    page_abs w' = (page_abs w :: 'w word \<Rightarrow> _)"
proof -
  define i where "i = unat (RMEM_BLOCK_SERVER p)"
  let ?s = "rs_servers w ! i" and ?msg = "message_header_build E RMEM_READ p"
  let ?st = "?s\<lparr>rm_stats := (rm_stats ?s)\<lparr>nreads := nreads (rm_stats ?s) + 1\<rparr>\<rparr>"
  note S = page_server [OF assms i_def] and B = page_abs_block [OF assms(2) page_server(2) [OF assms i_def]]
  have op: "rq_op ?msg = RMEM_READ" "rq_blknum ?msg = p"
    by (simp_all add: message_header_build_def message_header_build2_def)
  have up: "mailboxes_up (env_mailbox E)" "portals_up (env_portal E [])" "env_pread_ok E" using S(1) by (simp_all add: env_up_def)
  have h: "rmem_handle (env_mailbox E) (env_portal E []) ?s ?msg =
      Some (?st, Some \<lparr>rp_errcode = Inr 0, rp_blknum = None, rp_data = Some d\<rparr>, False)"
    using rmem_read_spec [of ?st, OF _ up(1,2), of ?msg] S(5,7) B(2) op by (simp add: rmem_handle_def Let_def)
  define w' where "w' = w\<lparr>rs_servers := (rs_servers w)[i := ?st], rs_stats := (rs_stats w)\<lparr>cs_nreads := cs_nreads (rs_stats w) + 1\<rparr>\<rparr>"
  have read: "nanvix_rmem_read E w p False = Some (RMEM_BLOCK_SIZE, Some d, w')"
    using B(1,5) S(3,6) up(3) rmem_call_up [OF S(1-3) h] op by (simp add: nanvix_rmem_read_def w'_def i_def)
  have "sys_inv w'" by (rule sys_inv_update [OF S(2,3), of ?st]) (use S(5) in \<open>simp_all add: w'_def\<close>)
  moreover have "page_abs w' = (page_abs w :: 'w word \<Rightarrow> _)" by (rule page_abs_same [OF _ _ S(4), of _ ?st]) (simp_all add: w'_def)
  ultimately show ?thesis using read assms(1) by (simp add: stub_inv_def)
qed

lemma stub_write:
  fixes p :: "'w :: len word"
  assumes "stub_inv E w" "page_abs w p = Some (own, d)" "length d' = RMEM_BLOCK_SIZE"
  shows "\<exists>w'. nanvix_rmem_write E w p (Some d') = Some (RMEM_BLOCK_SIZE, w') \<and> stub_inv E w' \<and>
    page_abs w' = (page_abs w)(p \<mapsto> (own, d'))"
proof -
  define i where "i = unat (RMEM_BLOCK_SERVER p)"
  let ?s = "rs_servers w ! i" and ?c = "rs_server w ! i"
  let ?msg = "message_header_build2 E RMEM_WRITE (env_portal_port E (rc_outportal ?c)) p"
  let ?st = "?s\<lparr>rm_stats := (rm_stats ?s)\<lparr>nwrites := nwrites (rm_stats ?s) + 1\<rparr>\<rparr>"
  note S = page_server [OF assms(1,2) i_def] and B = page_abs_block [OF assms(2) page_server(2) [OF assms(1,2) i_def]]
  have op: "rq_op ?msg = RMEM_WRITE" "rq_blknum ?msg = p" by (simp_all add: message_header_build2_def)
  have up: "portals_up (env_portal E d')" "\<And>q. kportal_read (env_portal E d') q RMEM_BLOCK_SIZE = d'" "\<And>x. env_pwrite_ok E x True"
    using S(1) assms(3) by (simp_all add: env_up_def)
  obtain st' where f: "do_rmem_write (env_portal E d') ?st ?msg = Some (Inr 0, st')" "rmem_inv st'"
    "rmem_abs st' = (rmem_abs ?s)(unat (RMEM_BLOCK_NUM p) \<mapsto> (own, d'))"
    using rmem_write_spec [of ?st, OF _ up(1), of ?msg] S(5,7) B(2) op up(2) by auto
  have h: "rmem_handle (env_mailbox E) (env_portal E d') ?s ?msg =
      Some (st', Some \<lparr>rp_errcode = Inr 0, rp_blknum = None, rp_data = None\<rparr>, False)"
    using f(1) op(1) by (simp add: rmem_handle_def)
  define w' where "w' = w\<lparr>rs_servers := (rs_servers w)[i := st'], rs_stats := (rs_stats w)\<lparr>cs_nwrites := cs_nwrites (rs_stats w) + 1\<rparr>\<rparr>"
  have wr: "nanvix_rmem_write E w p (Some d') = Some (RMEM_BLOCK_SIZE, w')"
    using B(1,5) S(3,6) up(3) rmem_call_up [OF S(1-3) h, of p] by (simp add: nanvix_rmem_write_def w'_def i_def)
  have "sys_inv w'"
    by (rule sys_inv_update [OF S(2,3) f(2)]) (use rmem_ops_serverid(1) [OF f(1)] in \<open>simp_all add: w'_def\<close>)
  moreover have "page_abs w' = (page_abs w)(p \<mapsto> (own, d'))"
    by (rule page_abs_update [OF _ i_def [symmetric] S(4) refl f(3)]) (simp add: w'_def)
  ultimately show ?thesis using wr assms(1) by (simp add: stub_inv_def)
qed

lemma page_abs_size:
  assumes "sys_inv w" "page_abs w p = Some (own, d)"
  shows "length d = RMEM_BLOCK_SIZE"
proof -
  note B = page_abs_block [OF assms(2,1)]
  have "rmem_inv (rs_servers w ! unat (RMEM_BLOCK_SERVER p))" using assms(1) B(4) by (simp add: sys_inv_def)
  with B(3) rmem_block_okD [of "\<lparr>rq_source = 0, rq_mailbox_port = 0, rq_portal_port = 0, rq_op = RMEM_READ, rq_blknum = p\<rparr>"] B(2)
  show ?thesis by (auto simp: rmem_abs_def rmem_inv_def split: if_splits)
qed

lemma page_abs_null: "sys_inv w \<Longrightarrow> page_abs w (RMEM_NULL :: 'w :: len word) = None"
  using page_abs_block(1) [of w "RMEM_NULL :: 'w word"] by (cases "page_abs w (RMEM_NULL :: 'w word)") (auto simp: rmem_bad_block_def)

interpretation stub: remote_memory "stub_inv E" page_abs "take_bit 16 (env_node E)" RMEM_NULL
    "nanvix_rmem_alloc E" "nanvix_rmem_free E" "\<lambda>w p. nanvix_rmem_read E w p False"
    "\<lambda>w p d. nanvix_rmem_write E w p (Some d)" for E :: "'w :: len word rmem_env"
proof unfold_locales
  show "page_abs m (RMEM_NULL :: 'w word) = None" if "stub_inv E m" for m using that page_abs_null [of m] unfolding stub_inv_def by blast
  show "length d = RMEM_BLOCK_SIZE" if "stub_inv E m" "page_abs m p = Some (own, d)" for m own d and p :: "'w word"
    using that page_abs_size by (auto simp: stub_inv_def)
qed (fact stub_alloc stub_free stub_read stub_write)+

section \<open>A start state\<close>

definition rmem_env_ideal :: "64 word rmem_env" where
  "rmem_env_ideal = \<lparr>env_node = 3, env_inbox_port = 0, env_inportal_port = 0, env_portal_port = (\<lambda>_. 0),
     env_mailbox = kmailbox_ideal, env_portal = (\<lambda>d. kportal_ideal (\<lambda>n. take n (d @ replicate n 0))),
     env_mwrite_ok = (\<lambda>_. True), env_pwrite_ok = (\<lambda>_ taken. taken), env_mread_ok = True, env_pread_ok = True,
     env_mopen = (\<lambda>_. 0), env_popen = (\<lambda>_. 0), env_mclose = (\<lambda>_. 0), env_pclose = (\<lambda>_. 0), env_excp_ok = True, env_junk = 0\<rparr>"

definition rmem_two :: rmem_system where
  "rmem_two = \<lparr>rs_server = replicate 2 \<lparr>rc_initialized = False, rc_outbox = -1, rc_outportal = -1\<rparr>, rs_nallocs = 0,
     rs_stats = \<lparr>cs_nallocs = 0, cs_nfrees = 0, cs_nreads = 0, cs_nwrites = 0\<rparr>,
     rs_servers = [rmem_booted\<lparr>rm_serverid := 0\<rparr>, rmem_booted\<lparr>rm_serverid := 1\<rparr>], rs_alive = [True, True]\<rparr>"

definition rmem_two_up :: rmem_system where
  "rmem_two_up = snd (the (nanvix_rmem_setup rmem_env_ideal rmem_two))"

lemma rmem_env_ideal_up [simp]: "env_up rmem_env_ideal"
  by (auto simp: env_up_def rmem_env_ideal_def kportal_ideal_up) (simp add: kportal_ideal_def)

lemma rmem_two_up_inv [simp]: "stub_inv rmem_env_ideal rmem_two_up"
proof -
  have "rmem_inv (rmem_booted\<lparr>rm_serverid := i\<rparr>)" for i using rmem_booted_inv(1) by (simp add: rmem_inv_def)
  then have "sys_inv rmem_two_up"
    by (simp add: sys_inv_def rmem_two_up_def nanvix_rmem_setup_def rmem_two_def rmem_env_ideal_def numeral_2_eq_2 less_Suc_eq)
  then show ?thesis by (simp add: stub_inv_def)
qed

lemma rmem_full_iff: "rmem_inv st \<Longrightarrow> card (bits (rm_bitmap st)) = RMEM_NUM_BLOCKS \<longleftrightarrow> bits (rm_bitmap st) = {..<RMEM_NUM_BLOCKS}"
  using rmem_inv_bitmap(4,5) [of st] by (metis card_lessThan card_subset_eq finite_lessThan lessThan_iff subsetI)

lemma rmem_two_up_alloc:
  obtains p w1 where "nanvix_rmem_alloc rmem_env_ideal rmem_two_up = Some (p, w1)" "p \<noteq> RMEM_NULL" "page_abs w1 p \<noteq> None"
proof -
  have eq: "rs_servers rmem_two_up ! (unat (rs_nallocs rmem_two_up) mod length (rs_server rmem_two_up)) = rmem_booted\<lparr>rm_serverid := 0\<rparr>"
    by (simp add: rmem_two_up_def nanvix_rmem_setup_def rmem_two_def rmem_env_ideal_def numeral_2_eq_2)
  have "rmem_abs rmem_booted 1 = None" using rmem_booted_inv by simp
  then have "1 \<notin> bits (rm_bitmap rmem_booted)" by (auto simp: rmem_abs_def)
  moreover have "1 \<in> {..<RMEM_NUM_BLOCKS}" by (simp add: rmem_consts)
  ultimately have nf: "card (bits (rm_bitmap rmem_booted)) \<noteq> RMEM_NUM_BLOCKS"
    unfolding rmem_full_iff [OF rmem_booted_inv(1)] by metis
  obtain p w1 where "nanvix_rmem_alloc rmem_env_ideal rmem_two_up = Some (p, w1)"
    "p = RMEM_NULL \<longleftrightarrow> card (bits (rm_bitmap (rmem_booted\<lparr>rm_serverid := 0\<rparr>))) = RMEM_NUM_BLOCKS"
    "if p = RMEM_NULL then page_abs w1 = (page_abs rmem_two_up :: 64 word \<Rightarrow> _) else page_abs w1 p \<noteq> None"
    using nanvix_rmem_alloc_cases [OF rmem_two_up_inv, unfolded eq] by auto
  with nf that [of p w1] show thesis by simp
qed

section \<open>Limits of the stub\<close>

text \<open>
  Block zero of a server other than the first passes the check of the stub; the server refuses the
  read without the acknowledgement the stub asserts, which aborts the client.
\<close>

lemma rmem_read_null_aborts:
  fixes p :: "'w :: len word"
  assumes "stub_inv E w" "i < length (rs_server w)" "0 < i" "p = RMEM_BLOCK (word_of_int (int i)) 0"
  shows "\<not> rmem_bad_block p \<and> nanvix_rmem_read E w p False = None"
proof -
  let ?s = "rs_servers w ! i" and ?msg = "message_header_build E RMEM_READ p"
  have up: "env_up E" and w: "32 \<le> LENGTH('w)" and inv: "sys_inv w" using assms by (simp_all add: stub_inv_def)
  have i: "i < 256" using inv assms(2) unfolding sys_inv_def by linarith
  have addr: "unat (RMEM_BLOCK_NUM p) = 0" "unat (RMEM_BLOCK_SERVER p) = i"
    using RMEM_BLOCK_parts [OF w i, of 0] assms(4) by (simp_all add: rmem_consts)
  have "RMEM_BLOCK_SERVER (0 :: 'w word) = 0" by (simp add: RMEM_BLOCK_SERVER_eq)
  with addr assms(3) have "p \<noteq> 0" by auto
  then have bad: "\<not> rmem_bad_block p" using addr by (simp add: rmem_bad_block_def RMEM_NULL_def rmem_consts)
  have id: "rmem_serverid w p = Some i" by (rule rmem_serverid_canonical [OF inv addr(2) assms(2)])
  let ?st = "?s\<lparr>rm_stats := (rm_stats ?s)\<lparr>nreads := nreads (rm_stats ?s) + 1\<rparr>\<rparr>"
  have "\<not> rmem_block_ok (RMEM_BLOCK_NUM p)" using addr(1) by (simp add: rmem_block_ok_def unat_eq_0)
  then have h: "rmem_handle (env_mailbox E) (env_portal E []) ?s ?msg =
      Some (?st, Some \<lparr>rp_errcode = Inl EINVAL, rp_blknum = None, rp_data = None\<rparr>, False)"
    by (simp add: rmem_handle_def do_rmem_read_def Let_def message_header_build_def message_header_build2_def)
  have "nanvix_rmem_read E w p False = None"
    using bad id assms(2) inv rmem_call_up [OF up inv assms(2) h] by (simp add: nanvix_rmem_read_def sys_inv_def)
  with bad show ?thesis by blast
qed

section \<open>Properties\<close>

text \<open>
  C5. The stub and its servers are a memory. When an allocation succeeds, the page was not allocated before;
  after any sequence of writes to allocated pages a read of it returns what the last write to it
  stored, or zeroes, and its allocator can release it, which removes that page alone.
\<close>

theorem rmem_stub_memory:
  fixes p :: "'w :: len word"
  assumes "stub_inv E w" "nanvix_rmem_alloc E w = Some (p, w1)" "p \<noteq> RMEM_NULL"
    and "\<forall>(q, d)\<in>set ws. page_abs w1 q \<noteq> None \<and> length d = RMEM_BLOCK_SIZE"
  shows "page_abs w p = None \<and> (\<exists>w2 w3 w4. write_all (\<lambda>w p d. nanvix_rmem_write E w p (Some d)) w1 ws = Some w2 \<and>
    nanvix_rmem_read E w2 p False =
      Some (RMEM_BLOCK_SIZE, Some (case map_of (rev ws) p of None \<Rightarrow> replicate RMEM_BLOCK_SIZE 0 | Some d \<Rightarrow> d), w3) \<and>
    nanvix_rmem_free E w3 p = Some (Inr 0, w4) \<and> page_abs w4 = (page_abs w2)(p := None))"
proof -
  have fresh: "page_abs w p = None" using stub.alloc_law [OF assms(1)] assms(2,3) by auto
  obtain w2 w3 d where w: "write_all (\<lambda>w p d. nanvix_rmem_write E w p (Some d)) w1 ws = Some w2"
    "nanvix_rmem_read E w2 p False =
      Some (RMEM_BLOCK_SIZE, Some (case map_of (rev ws) p of None \<Rightarrow> replicate RMEM_BLOCK_SIZE 0 | Some d \<Rightarrow> d), w3)"
    "stub_inv E w3" "page_abs w3 = (page_abs w2 :: 'w word \<Rightarrow> _)" "page_abs w3 p = Some (take_bit 16 (env_node E), d)"
    using stub.alloc_write_read [OF assms] by blast
  from stub.free_law [OF w(3,5)] w fresh show ?thesis by auto
qed

theorem rmem_stub_memory_witness:
  "\<exists>p w1 w2 w3. nanvix_rmem_alloc rmem_env_ideal rmem_two_up = Some (p, w1) \<and>
     write_all (\<lambda>w p d. nanvix_rmem_write rmem_env_ideal w p (Some d)) w1 [(p, replicate RMEM_BLOCK_SIZE 7)] = Some w2 \<and>
     nanvix_rmem_read rmem_env_ideal w2 p False = Some (RMEM_BLOCK_SIZE, Some (replicate RMEM_BLOCK_SIZE 7), w3)"
proof -
  obtain p w1 where a: "nanvix_rmem_alloc rmem_env_ideal rmem_two_up = Some (p, w1)" "p \<noteq> RMEM_NULL" "page_abs w1 p \<noteq> None"
    by (rule rmem_two_up_alloc)
  from rmem_stub_memory [OF rmem_two_up_inv a(1,2), of "[(p, replicate RMEM_BLOCK_SIZE 7)]"] a show ?thesis by auto
qed

text \<open>
  Allocations go round the servers. The stub asks the server whose turn it is, number \<open>nallocs\<close> modulo the
  number of servers, gets a page on that server and passes the turn on; it fails exactly when that
  server is full, and then the turn stays, so that allocations go on failing until a page of that
  server is released, however many blocks the other servers have.
\<close>

theorem rmem_alloc_round_robin:
  fixes E :: "'w :: len word rmem_env"
  assumes "stub_inv E w"
  shows "\<exists>p w'. nanvix_rmem_alloc E w = Some (p, w') \<and>
    (p = RMEM_NULL \<longleftrightarrow> bits (rm_bitmap (rs_servers w ! (unat (rs_nallocs w) mod length (rs_server w)))) = {..<RMEM_NUM_BLOCKS}) \<and>
    (if p = RMEM_NULL then rs_nallocs w' = rs_nallocs w
     else rs_nallocs w' = rs_nallocs w + 1 \<and> unat (RMEM_BLOCK_SERVER p) = unat (rs_nallocs w) mod length (rs_server w))"
proof -
  let ?s = "rs_servers w ! (unat (rs_nallocs w) mod length (rs_server w))"
  have "rmem_inv ?s" using assms by (simp add: stub_inv_def sys_inv_def)
  note full = rmem_full_iff [OF this]
  from nanvix_rmem_alloc_cases [OF assms] show ?thesis unfolding full by metis
qed

theorem rmem_alloc_round_robin_witness:
  "\<exists>p w'. nanvix_rmem_alloc rmem_env_ideal rmem_two_up = Some (p, w') \<and>
     (if p = RMEM_NULL then rs_nallocs w' = 0 else rs_nallocs w' = 1 \<and> unat (RMEM_BLOCK_SERVER p) = 0)"
  using rmem_alloc_round_robin [OF rmem_two_up_inv]
  by (auto simp: rmem_two_up_def nanvix_rmem_setup_def rmem_two_def rmem_env_ideal_def numeral_2_eq_2)

end
