(* ===== verification/Shm.thy ===== *)
theory Shm
  imports RMemStub Ipc
begin

text \<open>
  Shared memory regions, \<open>src/sys/pm/sysv/shm/shm.c\<close> and
  \<open>include/nanvix/servers/sysv/shm.h\<close>: the table of regions and the operations the server calls.
  A region of positive size holds one remote page, taken from and returned to the remote memory
  through the stub (\<open>E\<close> is its environment, \<open>R\<close> the resource interface). The flags of
  \<open>posix/fcntl.h\<close> and \<open>posix/sys/stat.h\<close> are single bits, so a flag word is the record of the bits that
  the sources test; \<open>O_OTHERS\<close> and \<open>S_OTHERS\<close> stand for all the others.
\<close>

record open_flags =
  O_CREAT :: bool
  O_EXCL :: bool
  O_TRUNC :: bool
  O_WRONLY :: bool
  O_RDWR :: bool
  O_OTHERS :: bool

record shm_mode =
  S_IRUSR :: bool
  S_IWUSR :: bool
  S_OTHERS :: bool

definition NANVIX_SHM_MAX :: nat where "NANVIX_SHM_MAX = 128"
definition NANVIX_SHM_NAME_MAX :: nat where "NANVIX_SHM_NAME_MAX = 64"
definition NANVIX_SHM_SIZE_MAX :: nat where "NANVIX_SHM_SIZE_MAX = 4 * 1024"

record ('r, 'p) region =
  rg_resource :: 'r
  rg_name :: string
  rg_owner :: int
  rg_refcount :: int
  rg_mode :: shm_mode
  rg_size :: nat
  rg_page :: 'p

record ('r, 'p) shm_state =
  regions :: "('r, 'p) region list"
  shm_mem :: rmem_system

definition nanvix_shm_is_valid :: "int \<Rightarrow> bool" where
  "nanvix_shm_is_valid shmid \<longleftrightarrow> 0 \<le> shmid \<and> shmid < int NANVIX_SHM_MAX"

text \<open>\<open>None\<close> is a null pointer.\<close>

definition nanvix_shm_name_is_invalid :: "string option \<Rightarrow> int result" where
  "nanvix_shm_name_is_invalid name =
     (case name of None \<Rightarrow> Inl EINVAL
      | Some s \<Rightarrow> if s = [] then Inl EINVAL
                  else if NANVIX_SHM_NAME_MAX - 1 \<le> length s then Inl ENAMETOOLONG else Inr 0)"

section \<open>Accessors\<close>

definition region_update :: "('r, 'p) shm_state \<Rightarrow> nat \<Rightarrow> (('r, 'p) region \<Rightarrow> ('r, 'p) region) \<Rightarrow> ('r, 'p) shm_state" where
  "region_update st i f = st\<lparr>regions := (regions st)[i := f (regions st ! i)]\<rparr>"

definition shm_is_remove :: "'r resource_ops \<Rightarrow> ('r, 'p) shm_state \<Rightarrow> nat \<Rightarrow> bool" where
  "shm_is_remove R st i \<longleftrightarrow> \<not> resource_is_busy R (rg_resource (regions st ! i))"

definition shm_is_owner :: "('r, 'p) shm_state \<Rightarrow> nat \<Rightarrow> int \<Rightarrow> bool" where
  "shm_is_owner st i proc \<longleftrightarrow> rg_owner (regions st ! i) = proc"

definition shm_is_mapped :: "'r resource_ops \<Rightarrow> ('r, 'p) shm_state \<Rightarrow> nat \<Rightarrow> bool" where
  "shm_is_mapped R st i = resource_is_mapped R (rg_resource (regions st ! i))"

definition shm_is_writable :: "'r resource_ops \<Rightarrow> ('r, 'p) shm_state \<Rightarrow> nat \<Rightarrow> bool" where
  "shm_is_writable R st i = resource_is_writable R (rg_resource (regions st ! i))"

definition shm_is_readable :: "'r resource_ops \<Rightarrow> ('r, 'p) shm_state \<Rightarrow> nat \<Rightarrow> bool" where
  "shm_is_readable R st i = resource_is_readable R (rg_resource (regions st ! i))"

definition shm_get_size :: "('r, 'p) shm_state \<Rightarrow> nat \<Rightarrow> nat" where
  "shm_get_size st i = rg_size (regions st ! i)"

definition shm_set_remove :: "'r resource_ops \<Rightarrow> ('r, 'p) shm_state \<Rightarrow> nat \<Rightarrow> ('r, 'p) shm_state" where
  "shm_set_remove R st i = region_update st i (\<lambda>g. g\<lparr>rg_resource := resource_set_notbusy R (rg_resource g)\<rparr>)"

definition shm_set_owner :: "('r, 'p) shm_state \<Rightarrow> nat \<Rightarrow> int \<Rightarrow> ('r, 'p) shm_state" where
  "shm_set_owner st i owner = region_update st i (\<lambda>g. g\<lparr>rg_owner := owner\<rparr>)"

definition shm_set_perm :: "'r resource_ops \<Rightarrow> ('r, 'p) shm_state \<Rightarrow> nat \<Rightarrow> shm_mode \<Rightarrow> ('r, 'p) shm_state" where
  "shm_set_perm R st i mode = region_update st i (\<lambda>g.
     let g' = g\<lparr>rg_mode := mode\<rparr> in
     if S_IWUSR (rg_mode g') then g'\<lparr>rg_resource := resource_set_rdwr R (rg_resource g')\<rparr> else g')"

definition shm_set_name :: "('r, 'p) shm_state \<Rightarrow> nat \<Rightarrow> string \<Rightarrow> ('r, 'p) shm_state" where
  "shm_set_name st i name = region_update st i (\<lambda>g. g\<lparr>rg_name := name\<rparr>)"

definition shm_set_size :: "'w :: len word rmem_env \<Rightarrow> ('r, 'w word) shm_state \<Rightarrow> nat \<Rightarrow> nat \<Rightarrow> ('r, 'w word) shm_state option" where
  "shm_set_size E st i sz =
     do { let page = rg_page (regions st ! i);
          st' \<leftarrow> (if 0 < sz \<and> page = RMEM_NULL then
                    do { (p, w) \<leftarrow> nanvix_rmem_alloc E (shm_mem st);
                         uassert (p \<noteq> RMEM_NULL);
                         Some ((region_update st i (\<lambda>g. g\<lparr>rg_page := p\<rparr>))\<lparr>shm_mem := w\<rparr>) }
                  else if sz = 0 \<and> page \<noteq> RMEM_NULL then
                    do { (r, w) \<leftarrow> nanvix_rmem_free E (shm_mem st) page;
                         uassert (r = Inr 0);
                         Some ((region_update st i (\<lambda>g. g\<lparr>rg_page := RMEM_NULL\<rparr>))\<lparr>shm_mem := w\<rparr>) }
                  else Some st);
          Some (region_update st' i (\<lambda>g. g\<lparr>rg_size := sz\<rparr>)) }"

section \<open>References\<close>

definition shm_alloc :: "'r resource_ops \<Rightarrow> ('r, 'p) shm_state \<Rightarrow> (nat \<times> ('r, 'p) shm_state) option" where
  "shm_alloc R st =
     (case resource_alloc R (map rg_resource (regions st)) of
        None \<Rightarrow> None
      | Some (i, r) \<Rightarrow> Some (i, region_update st i
          (\<lambda>g. g\<lparr>rg_resource := resource_set_rdonly R (resource_set_busy R r), rg_refcount := 1\<rparr>)))"

definition shm_get :: "'r resource_ops \<Rightarrow> ('r, 'p) shm_state \<Rightarrow> string \<Rightarrow> (nat \<times> ('r, 'p) shm_state) option" where
  "shm_get R st name =
     (case first_index (\<lambda>g. resource_is_used R (rg_resource g) \<and> rg_name g = name) (regions st) of
        None \<Rightarrow> None
      | Some i \<Rightarrow> Some (i, region_update st i (\<lambda>g. g\<lparr>rg_refcount := rg_refcount g + 1\<rparr>)))"

definition shm_free :: "'r resource_ops \<Rightarrow> ('r, 'p) shm_state \<Rightarrow> nat \<Rightarrow> ('r, 'p) shm_state" where
  "shm_free R st i = region_update st i (\<lambda>g. g\<lparr>rg_resource := resource_free R (rg_resource g)\<rparr>)"

definition shm_put :: "'w :: len word rmem_env \<Rightarrow> 'r resource_ops \<Rightarrow> ('r, 'w word) shm_state \<Rightarrow> nat \<Rightarrow>
    (int result \<times> ('r, 'w word) shm_state) option" where
  "shm_put E R st i =
     (if rg_refcount (regions st ! i) = 0 then Some (Inl EINVAL, st)
      else do {
        let st1 = region_update st i (\<lambda>g. g\<lparr>rg_refcount := rg_refcount g - 1\<rparr>);
        if rg_refcount (regions st1 ! i) = 0 \<and> shm_is_remove R st1 i then do {
          st2 \<leftarrow> (if rg_page (regions st1 ! i) \<noteq> RMEM_NULL then
                    do { (r, w) \<leftarrow> nanvix_rmem_free E (shm_mem st1) (rg_page (regions st1 ! i));
                         uassert (r = Inr 0);
                         Some ((region_update st1 i (\<lambda>g. g\<lparr>rg_page := RMEM_NULL\<rparr>))\<lparr>shm_mem := w\<rparr>) }
                  else Some st1);
          Some (Inr 0, shm_free R st2 i) }
        else Some (Inr 0, st1) })"

section \<open>Requests\<close>

text \<open>Where an operation stores the page of the region, the second component is \<open>Some\<close> of it.\<close>

definition do_shm_ftruncate :: "'w :: len word rmem_env \<Rightarrow> 'r resource_ops \<Rightarrow> ('r, 'w word) shm_state \<Rightarrow> int \<Rightarrow> int \<Rightarrow> int \<Rightarrow>
    (int result \<times> 'w word option \<times> ('r, 'w word) shm_state) option" where
  "do_shm_ftruncate E R st proc shmid sz =
     (if \<not> nanvix_shm_is_valid shmid then Some (Inl EINVAL, None, st)
      else if \<not> resource_is_used R (rg_resource (regions st ! nat shmid)) then Some (Inl EINVAL, None, st)
      else if sz < 0 then Some (Inl EINVAL, None, st)
      else if int NANVIX_SHM_SIZE_MAX < sz then Some (Inl EFBIG, None, st)
      else if \<not> shm_is_writable R st (nat shmid) then Some (Inl EACCES, None, st)
      else if shm_is_mapped R st (nat shmid) then Some (Inl EBUSY, None, st)
      else do { st' \<leftarrow> shm_set_size E st (nat shmid) (nat sz);
                Some (Inr 0, Some (rg_page (regions st' ! nat shmid)), st') })"

text \<open>Both ways of opening an existing region end alike: truncate when asked to, dropping the reference on an error.\<close>

definition shm_open_existing :: "'w :: len word rmem_env \<Rightarrow> 'r resource_ops \<Rightarrow> ('r, 'w word) shm_state \<Rightarrow> int \<Rightarrow> nat \<Rightarrow> open_flags \<Rightarrow>
    (int result \<times> 'w word option \<times> ('r, 'w word) shm_state) option" where
  "shm_open_existing E R st proc i oflags =
     (if O_TRUNC oflags then
        (if \<not> (O_RDWR oflags \<or> O_WRONLY oflags)
         then do { (_, st') \<leftarrow> shm_put E R st i; Some (Inl EACCES, None, st') }
         else do {
           (ret, _, st') \<leftarrow> do_shm_ftruncate E R st proc (int i) 0;
           case ret of
             Inl _ \<Rightarrow> do { (_, st'') \<leftarrow> shm_put E R st' i; Some (Inl EAGAIN, None, st'') }
           | Inr _ \<Rightarrow> Some (Inr (int i), Some (rg_page (regions st' ! i)), st') })
      else Some (Inr (int i), Some (rg_page (regions st ! i)), st))"

definition do_shm_open :: "'w :: len word rmem_env \<Rightarrow> 'r resource_ops \<Rightarrow> ('r, 'w word) shm_state \<Rightarrow> int \<Rightarrow> string option \<Rightarrow> open_flags \<Rightarrow>
    (int result \<times> 'w word option \<times> ('r, 'w word) shm_state) option" where
  "do_shm_open E R st proc name oflags =
     (if nanvix_shm_name_is_invalid name \<noteq> Inr 0 then Some (Inl EINVAL, None, st)
      else if O_CREAT oflags \<or> O_EXCL oflags \<or> O_OTHERS oflags then Some (Inl ENOTSUP, None, st)
      else case shm_get R st (the name) of
             None \<Rightarrow> Some (Inl EINVAL, None, st)
           | Some (i, st1) \<Rightarrow>
               if shm_is_remove R st1 i
               then do { (_, st2) \<leftarrow> shm_put E R st1 i; Some (Inl EAGAIN, None, st2) }
               else shm_open_existing E R st1 proc i oflags)"

definition do_shm_create :: "'w :: len word rmem_env \<Rightarrow> 'r resource_ops \<Rightarrow> ('r, 'w word) shm_state \<Rightarrow> int \<Rightarrow> string option \<Rightarrow> open_flags \<Rightarrow> shm_mode \<Rightarrow>
    (int result \<times> 'w word option \<times> ('r, 'w word) shm_state) option" where
  "do_shm_create E R st proc name oflags mode =
     (if nanvix_shm_name_is_invalid name \<noteq> Inr 0 then Some (Inl EINVAL, None, st)
      else if O_OTHERS oflags then Some (Inl ENOTSUP, None, st)
      else if S_OTHERS mode then Some (Inl ENOTSUP, None, st)
      else if \<not> O_CREAT oflags then Some (Inl EINVAL, None, st)
      else case shm_get R st (the name) of
             Some (i, st1) \<Rightarrow>
               if O_EXCL oflags
               then do { (_, st2) \<leftarrow> shm_put E R st1 i; Some (Inl EEXIST, None, st2) }
               else shm_open_existing E R st1 proc i oflags
           | None \<Rightarrow>
               (case shm_alloc R st of
                  None \<Rightarrow> Some (Inl ENFILE, None, st)
                | Some (i, st1) \<Rightarrow> do {
                    st2 \<leftarrow> shm_set_size E st1 i 0;
                    let st3 = shm_set_name (shm_set_owner (shm_set_perm R st2 i mode) i proc) i (the name);
                    Some (Inr (int i), Some (rg_page (regions st3 ! i)), st3) }))"

definition do_shm_close :: "'w :: len word rmem_env \<Rightarrow> 'r resource_ops \<Rightarrow> ('r, 'w word) shm_state \<Rightarrow> int \<Rightarrow> int \<Rightarrow>
    (int result \<times> ('r, 'w word) shm_state) option" where
  "do_shm_close E R st proc shmid =
     (if \<not> nanvix_shm_is_valid shmid then Some (Inl EINVAL, st)
      else if \<not> resource_is_used R (rg_resource (regions st ! nat shmid)) then Some (Inl EINVAL, st)
      else shm_put E R st (nat shmid))"

definition do_shm_unlink :: "'w :: len word rmem_env \<Rightarrow> 'r resource_ops \<Rightarrow> ('r, 'w word) shm_state \<Rightarrow> int \<Rightarrow> string \<Rightarrow>
    (int result \<times> ('r, 'w word) shm_state) option" where
  "do_shm_unlink E R st proc name =
     (case shm_get R st name of
        None \<Rightarrow> Some (Inl EINVAL, st)
      | Some (i, st1) \<Rightarrow>
          if \<not> shm_is_owner st1 i proc
          then do { (_, st2) \<leftarrow> shm_put E R st1 i; Some (Inl EPERM, st2) }
          else do_shm_close E R (shm_set_remove R st1 i) proc (int i))"

definition shm_init :: "'r resource_ops \<Rightarrow> ('r, 'w :: len word) shm_state \<Rightarrow> ('r, 'w word) shm_state" where
  "shm_init R st = st\<lparr>regions := map (\<lambda>g. g\<lparr>rg_resource := resource_initializer R, rg_refcount := 0, rg_page := RMEM_NULL\<rparr>) (regions st)\<rparr>"

section \<open>Invariant\<close>

definition shm_slot :: "'r resource_ops \<Rightarrow> ('r, 'p) region \<Rightarrow> string option" where
  "shm_slot R g = (if resource_is_used R (rg_resource g) then Some (rg_name g) else None)"

definition page_slot :: "('r, 'w :: len word) region \<Rightarrow> 'w word option" where
  "page_slot g = (if rg_page g = RMEM_NULL then None else Some (rg_page g))"

definition env_me :: "'b rmem_env \<Rightarrow> int" where
  "env_me E = take_bit 16 (env_node E)"

text \<open>
  A free entry holds no page. A used one has a page exactly when its size is positive, the server
  owns that page, the size fits a page, and a region marked for removal is still referenced.
\<close>

definition region_ok :: "'w :: len word rmem_env \<Rightarrow> 'r resource_ops \<Rightarrow> rmem_system \<Rightarrow> ('r, 'w word) region \<Rightarrow> bool" where
  "region_ok E R w g \<longleftrightarrow>
     (if resource_is_used R (rg_resource g)
      then 0 \<le> rg_refcount g \<and> (resource_is_busy R (rg_resource g) \<or> 1 \<le> rg_refcount g) \<and>
        rg_size g \<le> NANVIX_SHM_SIZE_MAX \<and> (rg_page g \<noteq> RMEM_NULL \<longleftrightarrow> 0 < rg_size g)
      else rg_page g = RMEM_NULL) \<and>
     (rg_page g \<noteq> RMEM_NULL \<longrightarrow> (\<exists>d. page_abs w (rg_page g) = Some (env_me E, d)))"

definition shm_inv :: "'w :: len word rmem_env \<Rightarrow> 'r resource_ops \<Rightarrow> ('r, 'w word) shm_state \<Rightarrow> bool" where
  "shm_inv E R st \<longleftrightarrow> length (regions st) = NANVIX_SHM_MAX \<and> stub_inv E (shm_mem st) \<and>
     slots_unique (shm_slot R) (regions st) \<and> slots_unique page_slot (regions st) \<and>
     (\<forall>g\<in>set (regions st). region_ok E R (shm_mem st) g)"

text \<open>
  What one request may do to the remote memory: release the page of a region, or give a region a
  cleared page that was free. Every other page keeps its owner and contents.
\<close>

definition pages_step :: "'w :: len word rmem_env \<Rightarrow> ('r, 'w word) shm_state \<Rightarrow> ('r, 'w word) shm_state \<Rightarrow> bool" where
  "pages_step E st st' \<longleftrightarrow> (\<forall>q. page_abs (shm_mem st') q = page_abs (shm_mem st) q \<or>
     (q \<in> rg_page ` set (regions st) \<and> page_abs (shm_mem st') q = None) \<or>
     (q \<in> rg_page ` set (regions st') \<and> page_abs (shm_mem st) q = None \<and>
        page_abs (shm_mem st') q = Some (env_me E, replicate RMEM_BLOCK_SIZE 0)))"

lemma pages_step_same: "shm_mem st' = shm_mem st \<Longrightarrow> pages_step E st st'"
  by (simp add: pages_step_def)

lemma region_update_sel [simp]:
  "regions (region_update st i f) = (regions st)[i := f (regions st ! i)]"
  "shm_mem (region_update st i f) = shm_mem st"
  by (simp_all add: region_update_def)

lemma shm_invD:
  assumes "shm_inv E R st"
  shows shm_inv_length: "length (regions st) = NANVIX_SHM_MAX"
    and shm_inv_mem: "stub_inv E (shm_mem st)"
    and shm_inv_ok: "i < length (regions st) \<Longrightarrow> region_ok E R (shm_mem st) (regions st ! i)"
    and shm_inv_names: "slots_unique (shm_slot R) (regions st)"
    and shm_inv_pages: "slots_unique page_slot (regions st)"
  using assms by (auto simp: shm_inv_def)

lemma shm_inv_change:
  assumes inv: "shm_inv E R st" and i: "i < length (regions st)" and w: "stub_inv E (shm_mem st')"
    and st': "regions st' = (regions st)[i := e]"
    and names: "slots_unique (shm_slot R) ((regions st)[i := e])"
    and pages: "slots_unique page_slot ((regions st)[i := e])"
    and ok: "region_ok E R (shm_mem st') e"
    and frame: "\<And>q d. q \<noteq> rg_page (regions st ! i) \<Longrightarrow> page_abs (shm_mem st) q = Some (env_me E, d) \<Longrightarrow>
      page_abs (shm_mem st') q = Some (env_me E, d)"
  shows "shm_inv E R st'"
proof -
  have "region_ok E R (shm_mem st') ((regions st)[i := e] ! j)" if j: "j < length (regions st)" for j
  proof (cases "j = i")
    case True
    with ok i show ?thesis by simp
  next
    case False
    let ?g = "regions st ! j"
    have "\<exists>d. page_abs (shm_mem st') (rg_page ?g) = Some (env_me E, d)" if p: "rg_page ?g \<noteq> RMEM_NULL"
    proof -
      obtain d where d: "page_abs (shm_mem st) (rg_page ?g) = Some (env_me E, d)"
        using shm_inv_ok [OF inv j] p by (auto simp: region_ok_def)
      have "rg_page ?g \<noteq> rg_page (regions st ! i)"
        using slots_uniqueD [OF shm_inv_pages [OF inv] i j, of "rg_page ?g"] p False by (auto simp: page_slot_def)
      from frame [OF this d] show ?thesis ..
    qed
    with shm_inv_ok [OF inv j] False show ?thesis by (simp add: region_ok_def)
  qed
  then have "\<forall>g\<in>set ((regions st)[i := e]). region_ok E R (shm_mem st') g"
    by (metis in_set_conv_nth length_list_update)
  with inv w st' names pages show ?thesis by (simp add: shm_inv_def)
qed

text \<open>Changes that leave the memory, the name and the page of an entry alone.\<close>

lemma slots_unique_keep:
  assumes "slots_unique key t" "i < length t" "key e = key (t ! i)"
  shows "slots_unique key (t[i := e])"
proof (rule slots_unique_update [OF assms(1,2)])
  fix j assume "key e \<noteq> None" "j < length t" "key (t ! j) = key e"
  then show "j = i" using slots_uniqueD [OF assms(1,2), of j] assms(3) by auto
qed

lemma shm_inv_keep:
  assumes "shm_inv E R st" "i < length (regions st)" "shm_slot R (f (regions st ! i)) = shm_slot R (regions st ! i)"
    "rg_page (f (regions st ! i)) = rg_page (regions st ! i)" "region_ok E R (shm_mem st) (f (regions st ! i))"
  shows "shm_inv E R (region_update st i f)"
proof (rule shm_inv_change [OF assms(1,2)])
  show "slots_unique (shm_slot R) ((regions st)[i := f (regions st ! i)])"
    by (rule slots_unique_keep [OF shm_inv_names [OF assms(1)] assms(2,3)])
  show "slots_unique page_slot ((regions st)[i := f (regions st ! i)])"
    by (rule slots_unique_keep [OF shm_inv_pages [OF assms(1)] assms(2)]) (use assms(4) in \<open>simp add: page_slot_def\<close>)
qed (use assms shm_inv_mem in auto)

section \<open>References\<close>

lemma shm_slot_iff: "resource_is_used R (rg_resource g) \<and> rg_name g = n \<longleftrightarrow> shm_slot R g = Some n"
  by (simp add: shm_slot_def)

lemma shm_slot_used: "resource_is_used R (rg_resource g) \<longleftrightarrow> shm_slot R g \<noteq> None"
  by (simp add: shm_slot_def)

lemma shm_slot_simps [simp]:
  "shm_slot R (g\<lparr>rg_refcount := n\<rparr>) = shm_slot R g" "shm_slot R (g\<lparr>rg_size := z\<rparr>) = shm_slot R g"
  "shm_slot R (g\<lparr>rg_page := p\<rparr>) = shm_slot R g"
  by (simp_all add: shm_slot_def)

lemma shm_get_Some:
  assumes "shm_inv E R st"
  shows "shm_get R st name = Some (i, st1) \<longleftrightarrow> i < length (regions st) \<and> shm_slot R (regions st ! i) = Some name \<and>
    st1 = region_update st i (\<lambda>g. g\<lparr>rg_refcount := rg_refcount g + 1\<rparr>)"
proof -
  have "first_index (\<lambda>g. shm_slot R g = Some name) (regions st) = Some i \<longleftrightarrow>
      i < length (regions st) \<and> shm_slot R (regions st ! i) = Some name" for i
    using slots_find [OF shm_inv_names [OF assms], of i name] by (auto dest: first_index_bound first_index_sat)
  moreover have "shm_get R st name = Some (i, st1) \<longleftrightarrow> first_index (\<lambda>g. shm_slot R g = Some name) (regions st) = Some i \<and>
      st1 = region_update st i (\<lambda>g. g\<lparr>rg_refcount := rg_refcount g + 1\<rparr>)"
    unfolding shm_get_def shm_slot_iff by (auto split: option.split)
  ultimately show ?thesis by simp
qed

lemma shm_get_None:
  "shm_get R st name = None \<longleftrightarrow> (\<forall>i<length (regions st). shm_slot R (regions st ! i) \<noteq> Some name)"
proof -
  have "shm_get R st name = None \<longleftrightarrow> first_index (\<lambda>g. shm_slot R g = Some name) (regions st) = None"
    unfolding shm_get_def shm_slot_iff by (auto split: option.split)
  then show ?thesis by (simp only: first_index_None_iff)
qed

lemma shm_get_inv:
  assumes "shm_inv E R st" "shm_get R st name = Some (i, st1)"
  shows "shm_inv E R st1" "i < NANVIX_SHM_MAX" "shm_slot R (regions st1 ! i) = Some name" "shm_mem st1 = shm_mem st"
    "rg_page ` set (regions st1) = rg_page ` set (regions st)"
proof -
  have g: "i < length (regions st)" "shm_slot R (regions st ! i) = Some name"
    "st1 = region_update st i (\<lambda>g. g\<lparr>rg_refcount := rg_refcount g + 1\<rparr>)"
    using assms(2) by (simp_all add: shm_get_Some [OF assms(1)])
  have "region_ok E R (shm_mem st) ((regions st ! i)\<lparr>rg_refcount := rg_refcount (regions st ! i) + 1\<rparr>)"
    using shm_inv_ok [OF assms(1) g(1)] by (auto simp: region_ok_def)
  then show "shm_inv E R st1" unfolding g(3) by (intro shm_inv_keep [OF assms(1) g(1)]) simp_all
  show "i < NANVIX_SHM_MAX" "shm_slot R (regions st1 ! i) = Some name" "shm_mem st1 = shm_mem st"
    using g shm_inv_length [OF assms(1)] by simp_all
  have "map rg_page (regions st1) = map rg_page (regions st)"
    using g(1) by (simp add: g(3) map_update list_update_same_conv)
  then show "rg_page ` set (regions st1) = rg_page ` set (regions st)" by (metis set_map)
qed

text \<open>Dropping the reference that a failed open has taken restores the table.\<close>

lemma shm_get_put:
  assumes "shm_inv E R st" "shm_get R st name = Some (i, st1)"
  shows "shm_put E R st1 i = Some (Inr 0, st)"
proof -
  have g: "i < length (regions st)" "shm_slot R (regions st ! i) = Some name"
    "st1 = region_update st i (\<lambda>g. g\<lparr>rg_refcount := rg_refcount g + 1\<rparr>)"
    using assms(2) by (simp_all add: shm_get_Some [OF assms(1)])
  have ok: "0 \<le> rg_refcount (regions st ! i)" "resource_is_busy R (rg_resource (regions st ! i)) \<or> 1 \<le> rg_refcount (regions st ! i)"
    using shm_inv_ok [OF assms(1) g(1)] g(2) by (auto simp: region_ok_def shm_slot_def split: if_splits)
  have "region_update st1 i (\<lambda>g. g\<lparr>rg_refcount := rg_refcount g - 1\<rparr>) = st"
    using g(1) by (simp add: g(3) region_update_def)
  with ok g(1) show ?thesis by (auto simp: shm_put_def Let_def shm_is_remove_def g(3))
qed


lemma shm_page_release:
  assumes inv: "shm_inv E R st" and i: "i < length (regions st)" and p: "rg_page (regions st ! i) \<noteq> RMEM_NULL"
  obtains w where "nanvix_rmem_free E (shm_mem st) (rg_page (regions st ! i)) = Some (Inr 0, w)" "stub_inv E w"
    "page_abs w = (page_abs (shm_mem st))(rg_page (regions st ! i) := None)"
proof -
  obtain d where "page_abs (shm_mem st) (rg_page (regions st ! i)) = Some (env_me E, d)"
    using shm_inv_ok [OF inv i] p by (auto simp: region_ok_def)
  from stub.free_law [OF shm_inv_mem [OF inv] this] that show thesis by (auto simp: env_me_def)
qed

text \<open>Giving up the page of an entry, with an entry that holds none.\<close>

lemma shm_inv_release:
  assumes inv: "shm_inv E R st" and i: "i < length (regions st)" and w: "stub_inv E (shm_mem st')"
    and st': "regions st' = (regions st)[i := e]"
    and pages: "page_abs (shm_mem st') = (page_abs (shm_mem st))(rg_page (regions st ! i) := None)"
    and e: "rg_page e = RMEM_NULL" "shm_slot R e = None \<or> shm_slot R e = shm_slot R (regions st ! i)"
    and ok: "region_ok E R (shm_mem st') e"
  shows "shm_inv E R st'" "pages_step E st st'"
proof -
  show "shm_inv E R st'"
  proof (rule shm_inv_change [OF inv i w st' _ _ ok])
    show "slots_unique (shm_slot R) ((regions st)[i := e])"
      using e(2) slots_unique_keep [OF shm_inv_names [OF inv] i, of e] slots_unique_update [OF shm_inv_names [OF inv] i, of e] by auto
    show "slots_unique page_slot ((regions st)[i := e])"
      by (rule slots_unique_update [OF shm_inv_pages [OF inv] i]) (use e(1) in \<open>simp add: page_slot_def\<close>)
  qed (simp add: pages)
  show "pages_step E st st'" using i by (auto simp: pages_step_def pages)
qed

lemma shm_put_spec:
  assumes R: "resource_laws R" and inv: "shm_inv E R st" and i: "i < length (regions st)" and used: "shm_slot R (regions st ! i) \<noteq> None"
  shows "\<exists>r st'. shm_put E R st i = Some (r, st') \<and> shm_inv E R st' \<and> pages_step E st st'"
proof -
  let ?g = "regions st ! i"
  let ?st = "region_update st i (\<lambda>g. g\<lparr>rg_refcount := rg_refcount g - 1\<rparr>)"
  have ok: "region_ok E R (shm_mem st) ?g" by (rule shm_inv_ok [OF inv i])
  consider "rg_refcount ?g = 0" | "rg_refcount ?g \<noteq> 0" "rg_refcount ?g \<noteq> 1 \<or> resource_is_busy R (rg_resource ?g)"
    | "rg_refcount ?g = 1" "\<not> resource_is_busy R (rg_resource ?g)" by blast
  then show ?thesis
  proof cases
    case 1
    with inv show ?thesis by (auto simp: shm_put_def pages_step_def)
  next
    case 2
    then have "shm_put E R st i = Some (Inr 0, ?st)"
      using i by (auto simp: shm_put_def Let_def shm_is_remove_def)
    moreover have "region_ok E R (shm_mem st) (?g\<lparr>rg_refcount := rg_refcount ?g - 1\<rparr>)"
      using ok used 2 by (auto simp: region_ok_def shm_slot_def)
    then have "shm_inv E R ?st" by (intro shm_inv_keep [OF inv i]) simp_all
    ultimately show ?thesis by (auto intro: pages_step_same)
  next
    case 3
    show ?thesis
    proof (cases "rg_page ?g = RMEM_NULL")
      case True
      let ?e = "?g\<lparr>rg_refcount := 0, rg_resource := resource_free R (rg_resource ?g)\<rparr>"
      let ?st' = "st\<lparr>regions := (regions st)[i := ?e]\<rparr>"
      have "shm_put E R st i = Some (Inr 0, ?st')"
        using i 3 True by (simp add: shm_put_def Let_def shm_is_remove_def shm_free_def region_update_def)
      moreover have "shm_inv E R ?st'"
        using R inv True by (intro shm_inv_change [OF inv i, of _ ?e])
          (auto simp: region_ok_def page_slot_def shm_slot_def intro!: slots_unique_update shm_inv_names shm_inv_pages i dest: shm_inv_mem)
      ultimately show ?thesis by (auto intro: pages_step_same)
    next
      case False
      obtain w where w: "nanvix_rmem_free E (shm_mem st) (rg_page ?g) = Some (Inr 0, w)" "stub_inv E w"
        "page_abs w = (page_abs (shm_mem st))(rg_page ?g := None)"
        by (rule shm_page_release [OF inv i False])
      let ?e = "?g\<lparr>rg_refcount := 0, rg_page := RMEM_NULL, rg_resource := resource_free R (rg_resource ?g)\<rparr>"
      define st' where "st' = st\<lparr>regions := (regions st)[i := ?e], shm_mem := w\<rparr>"
      have "shm_put E R st i = Some (Inr 0, st')"
        using i 3 False w(1) by (simp add: shm_put_def Let_def shm_is_remove_def shm_free_def region_update_def st'_def)
      moreover have "shm_inv E R st'" "pages_step E st st'"
        by (rule shm_inv_release [OF inv i, of st' ?e]; use R w in \<open>simp add: st'_def region_ok_def shm_slot_def\<close>)+
      ultimately show ?thesis by blast
    qed
  qed
qed


text \<open>Setting the size of a used region; the server aborts when it needs a page and gets none.\<close>

lemma shm_set_size_spec:
  fixes E :: "'w :: len word rmem_env"
  assumes inv: "shm_inv E R st" and i: "i < length (regions st)" and used: "shm_slot R (regions st ! i) \<noteq> None"
    and sz: "sz \<le> NANVIX_SHM_SIZE_MAX"
  shows "case shm_set_size E st i sz of
      Some st' \<Rightarrow> shm_inv E R st' \<and> pages_step E st st' \<and> rg_size (regions st' ! i) = sz
    | None \<Rightarrow> 0 < sz \<and> (\<exists>w. nanvix_rmem_alloc E (shm_mem st) = Some (RMEM_NULL, w))"
proof -
  let ?g = "regions st ! i"
  have ok: "region_ok E R (shm_mem st) ?g" by (rule shm_inv_ok [OF inv i])
  have u: "resource_is_used R (rg_resource ?g)" using used by (simp add: shm_slot_used)
  consider (alloc) "0 < sz" "rg_page ?g = RMEM_NULL" | (release) "sz = 0" "rg_page ?g \<noteq> RMEM_NULL"
    | (keep) "rg_page ?g \<noteq> RMEM_NULL \<longleftrightarrow> 0 < sz" by auto
  then show ?thesis
  proof cases
    case keep
    have "shm_set_size E st i sz = Some (region_update st i (\<lambda>g. g\<lparr>rg_size := sz\<rparr>))"
      using keep by (auto simp: shm_set_size_def Let_def)
    moreover have "region_ok E R (shm_mem st) (?g\<lparr>rg_size := sz\<rparr>)"
      using ok u sz keep by (simp add: region_ok_def)
    then have "shm_inv E R (region_update st i (\<lambda>g. g\<lparr>rg_size := sz\<rparr>))" by (intro shm_inv_keep [OF inv i]) simp_all
    ultimately show ?thesis using i by (simp add: pages_step_same)
  next
    case release
    obtain w where w: "nanvix_rmem_free E (shm_mem st) (rg_page ?g) = Some (Inr 0, w)" "stub_inv E w"
      "page_abs w = (page_abs (shm_mem st))(rg_page ?g := None)"
      by (rule shm_page_release [OF inv i release(2)])
    let ?e = "?g\<lparr>rg_page := RMEM_NULL, rg_size := 0\<rparr>"
    define st' where "st' = st\<lparr>regions := (regions st)[i := ?e], shm_mem := w\<rparr>"
    have "shm_set_size E st i sz = Some st'"
      using i release w(1) by (simp add: shm_set_size_def Let_def region_update_def st'_def)
    moreover have "shm_inv E R st'" "pages_step E st st'"
      by (rule shm_inv_release [OF inv i, of st' ?e]; use ok u w in \<open>simp add: st'_def region_ok_def\<close>)+
    ultimately show ?thesis using i release by (simp add: st'_def)
  next
    case alloc
    obtain p w where p: "nanvix_rmem_alloc E (shm_mem st) = Some (p, w)" "stub_inv E w"
      "if p = RMEM_NULL then page_abs w = (page_abs (shm_mem st) :: 'w word \<Rightarrow> _)
       else page_abs (shm_mem st) p = None \<and> page_abs w = (page_abs (shm_mem st))(p \<mapsto> (env_me E, replicate RMEM_BLOCK_SIZE 0))"
      using stub.alloc_law [OF shm_inv_mem [OF inv]] unfolding env_me_def by blast
    show ?thesis
    proof (cases "p = RMEM_NULL")
      case True
      with alloc p(1) show ?thesis by (simp add: shm_set_size_def Let_def)
    next
      case False
      with p(3) have fresh: "page_abs (shm_mem st) p = None"
        "page_abs w = (page_abs (shm_mem st))(p \<mapsto> (env_me E, replicate RMEM_BLOCK_SIZE 0))" by simp_all
      let ?e = "?g\<lparr>rg_page := p, rg_size := sz\<rparr>"
      define st' where "st' = st\<lparr>regions := (regions st)[i := ?e], shm_mem := w\<rparr>"
      have "shm_set_size E st i sz = Some st'"
        using i alloc p(1) False by (simp add: shm_set_size_def Let_def region_update_def st'_def)
      moreover have "shm_inv E R st'"
      proof (rule shm_inv_change [OF inv i, of st' ?e])
        show "slots_unique (shm_slot R) ((regions st)[i := ?e])"
          by (rule slots_unique_keep [OF shm_inv_names [OF inv] i]) simp
        show "slots_unique page_slot ((regions st)[i := ?e])"
        proof (rule slots_unique_update [OF shm_inv_pages [OF inv] i])
          fix j assume j: "j < length (regions st)" "page_slot (regions st ! j) = page_slot ?e"
          then have "rg_page (regions st ! j) = p" using False by (simp add: page_slot_def split: if_splits)
          with shm_inv_ok [OF inv j(1)] False fresh(1) show "j = i" by (simp add: region_ok_def)
        qed
      qed (use ok u sz p(2) False fresh alloc(1) in \<open>auto simp: st'_def region_ok_def\<close>)
      moreover have "p \<in> rg_page ` set ((regions st)[i := ?e])"
        using i by (intro image_eqI [of _ _ ?e]) (simp_all add: set_update_memI)
      then have "pages_step E st st'" using fresh by (simp add: pages_step_def st'_def)
      ultimately show ?thesis using i by (simp add: st'_def)
    qed
  qed
qed

lemma shm_ftruncate_spec:
  assumes "shm_inv E R st"
  shows "case do_shm_ftruncate E R st proc shmid sz of
      Some (r, pg, st') \<Rightarrow> shm_inv E R st' \<and> pages_step E st st' \<and> (isl r \<longrightarrow> st' = st)
    | None \<Rightarrow> 0 < sz \<and> (\<exists>w. nanvix_rmem_alloc E (shm_mem st) = Some (RMEM_NULL, w))"
proof (cases "nanvix_shm_is_valid shmid \<and> resource_is_used R (rg_resource (regions st ! nat shmid)) \<and> 0 \<le> sz \<and> sz \<le> int NANVIX_SHM_SIZE_MAX")
  case True
  then have "nat shmid < length (regions st)" "shm_slot R (regions st ! nat shmid) \<noteq> None" "nat sz \<le> NANVIX_SHM_SIZE_MAX"
    using shm_inv_length [OF assms] by (auto simp: nanvix_shm_is_valid_def shm_slot_used)
  from shm_set_size_spec [OF assms this] True assms show ?thesis
    by (auto simp: do_shm_ftruncate_def pages_step_same split: option.splits)
next
  case False
  with assms show ?thesis by (auto simp: do_shm_ftruncate_def pages_step_same)
qed


lemma shm_open_existing_spec:
  assumes inv: "shm_inv E R st" and g: "shm_get R st name = Some (i, st1)"
  shows "\<exists>r pg st'. shm_open_existing E R st1 proc i oflags = Some (r, pg, st') \<and> shm_inv E R st' \<and> pages_step E st st' \<and>
    (isl r \<longrightarrow> st' = st) \<and> (\<not> isl r \<longrightarrow> r = Inr (int i) \<and> pg = Some (rg_page (regions st' ! i)))"
proof -
  note G = shm_get_inv [OF inv g]
  have same: "pages_step E st st'" if "pages_step E st1 st'" for st' using that G(4,5) by (simp add: pages_step_def)
  obtain r pg st2 where t: "do_shm_ftruncate E R st1 proc (int i) 0 = Some (r, pg, st2)" "shm_inv E R st2" "pages_step E st1 st2" "isl r \<longrightarrow> st2 = st1"
    using shm_ftruncate_spec [OF G(1), where proc = proc and shmid = "int i" and sz = 0] by (auto split: option.splits)
  show ?thesis
    using t same [OF t(3)] same [OF pages_step_same [OF refl]] G(1) shm_get_put [OF inv g] inv pages_step_same [OF refl, of E st]
    by (cases r) (auto simp: shm_open_existing_def)
qed

lemma shm_open_spec:
  assumes inv: "shm_inv E R st"
  shows "\<exists>r pg st'. do_shm_open E R st proc name oflags = Some (r, pg, st') \<and> shm_inv E R st' \<and> pages_step E st st' \<and> (isl r \<longrightarrow> st' = st)"
proof (cases "nanvix_shm_name_is_invalid name \<noteq> Inr 0 \<or> O_CREAT oflags \<or> O_EXCL oflags \<or> O_OTHERS oflags \<or> shm_get R st (the name) = None")
  case True
  with inv show ?thesis by (auto simp: do_shm_open_def pages_step_same)
next
  case False
  then obtain i st1 where g: "shm_get R st (the name) = Some (i, st1)" by auto
  from False g shm_open_existing_spec [OF inv g, of proc oflags] shm_get_put [OF inv g] inv pages_step_same [OF refl, of E st]
  show ?thesis by (cases "shm_is_remove R st1 i") (auto simp: do_shm_open_def)
qed

text \<open>A new region.\<close>

lemma shm_create_fresh:
  fixes E :: "'w :: len word rmem_env"
  assumes R: "resource_laws R" and inv: "shm_inv E R st" and none: "shm_get R st name = None"
    and n: "nanvix_shm_name_is_invalid (Some name) = Inr 0" and fl: "\<not> O_OTHERS oflags" "\<not> S_OTHERS mode" "O_CREAT oflags"
  shows "case resource_alloc R (map rg_resource (regions st)) of
      None \<Rightarrow> do_shm_create E R st proc (Some name) oflags mode = Some (Inl ENFILE, None, st)
    | Some (i, r) \<Rightarrow> \<exists>e. let st' = st\<lparr>regions := (regions st)[i := e]\<rparr> in
        do_shm_create E R st proc (Some name) oflags mode = Some (Inr (int i), Some RMEM_NULL, st') \<and> shm_inv E R st' \<and>
        i < length (regions st) \<and> shm_slot R e = Some name \<and> rg_owner e = proc \<and> rg_refcount e = 1 \<and> rg_size e = 0 \<and>
        rg_page e = RMEM_NULL \<and> resource_is_busy R (rg_resource e) \<and> (resource_is_writable R (rg_resource e) \<longleftrightarrow> S_IWUSR mode) \<and>
        resource_is_mapped R (rg_resource e) = resource_is_mapped R r"
proof (cases "resource_alloc R (map rg_resource (regions st))")
  case None
  with assms show ?thesis by (simp add: do_shm_create_def shm_alloc_def)
next
  case (Some a)
  obtain i r where a: "a = (i, r)" by (cases a)
  have i: "i < length (regions st)" and free: "\<not> resource_is_used R (rg_resource (regions st ! i))" and u: "resource_is_used R r"
    using resource_allocD [OF R Some [unfolded a]] by auto
  have pg: "rg_page (regions st ! i) = RMEM_NULL" using shm_inv_ok [OF inv i] free by (simp add: region_ok_def)
  let ?r = "resource_set_rdonly R (resource_set_busy R r)"
  let ?e0 = "(regions st ! i)\<lparr>rg_resource := ?r, rg_refcount := 1, rg_size := 0, rg_mode := mode\<rparr>"
  let ?e = "(if S_IWUSR mode then ?e0\<lparr>rg_resource := resource_set_rdwr R ?r\<rparr> else ?e0)\<lparr>rg_owner := proc, rg_name := name\<rparr>"
  let ?st' = "st\<lparr>regions := (regions st)[i := ?e]\<rparr>"
  have c: "do_shm_create E R st proc (Some name) oflags mode = Some (Inr (int i), Some RMEM_NULL, ?st')"
    using n fl none Some a i pg
    by (simp add: do_shm_create_def shm_alloc_def shm_set_size_def shm_set_perm_def shm_set_owner_def shm_set_name_def
        region_update_def Let_def)
  have e: "shm_slot R ?e = Some name" "page_slot ?e = None" using R u pg by (simp_all add: shm_slot_def page_slot_def)
  have "shm_inv E R ?st'"
  proof (rule shm_inv_change [OF inv i, of _ ?e])
    show "slots_unique (shm_slot R) ((regions st)[i := ?e])"
      by (rule slots_unique_update [OF shm_inv_names [OF inv] i]) (use none e(1) in \<open>auto simp: shm_get_None\<close>)
    show "slots_unique page_slot ((regions st)[i := ?e])"
      by (rule slots_unique_update [OF shm_inv_pages [OF inv] i]) (simp add: e(2))
    show "region_ok E R (shm_mem ?st') ?e" using R u pg by (simp add: region_ok_def NANVIX_SHM_SIZE_MAX_def)
  qed (use shm_inv_mem [OF inv] in simp_all)
  with c e(1) i R u pg a Some show ?thesis by (auto simp: Let_def intro!: exI [of _ ?e])
qed


lemma shm_create_spec:
  assumes R: "resource_laws R" and inv: "shm_inv E R st"
  shows "\<exists>r pg st'. do_shm_create E R st proc name oflags mode = Some (r, pg, st') \<and> shm_inv E R st' \<and> pages_step E st st' \<and>
    (isl r \<longrightarrow> st' = st)"
proof (cases "nanvix_shm_name_is_invalid name \<noteq> Inr 0 \<or> O_OTHERS oflags \<or> S_OTHERS mode \<or> \<not> O_CREAT oflags")
  case True
  with inv show ?thesis by (auto simp: do_shm_create_def pages_step_same)
next
  case False
  then obtain n where n: "name = Some n" by (auto simp: nanvix_shm_name_is_invalid_def split: option.splits)
  show ?thesis
  proof (cases "shm_get R st n")
    case None
    from shm_create_fresh [OF R inv None, of oflags mode proc] False n inv show ?thesis
      by (auto simp: Let_def pages_step_same split: option.splits)
  next
    case (Some a)
    obtain i st1 where a: "a = (i, st1)" by (cases a)
    note g = Some [unfolded a]
    from False n g shm_open_existing_spec [OF inv g, of proc oflags] shm_get_put [OF inv g] inv pages_step_same [OF refl, of E st]
    show ?thesis by (cases "O_EXCL oflags") (auto simp: do_shm_create_def)
  qed
qed

lemma shm_close_spec:
  assumes "resource_laws R" "shm_inv E R st"
  shows "\<exists>r st'. do_shm_close E R st proc shmid = Some (r, st') \<and> shm_inv E R st' \<and> pages_step E st st'"
proof (cases "nanvix_shm_is_valid shmid \<and> resource_is_used R (rg_resource (regions st ! nat shmid))")
  case True
  then have "nat shmid < length (regions st)" "shm_slot R (regions st ! nat shmid) \<noteq> None"
    using shm_inv_length [OF assms(2)] by (auto simp: nanvix_shm_is_valid_def shm_slot_used)
  from shm_put_spec [OF assms this] True show ?thesis by (simp add: do_shm_close_def)
next
  case False
  with assms show ?thesis by (auto simp: do_shm_close_def pages_step_same)
qed

lemma shm_unlink_spec:
  assumes R: "resource_laws R" and inv: "shm_inv E R st"
  shows "\<exists>r st'. do_shm_unlink E R st proc name = Some (r, st') \<and> shm_inv E R st' \<and> pages_step E st st'"
proof (cases "shm_get R st name")
  case None
  with inv show ?thesis by (simp add: do_shm_unlink_def pages_step_same)
next
  case (Some a)
  obtain i st1 where a: "a = (i, st1)" by (cases a)
  note g = Some [unfolded a]
  note G = shm_get_inv [OF inv g]
  show ?thesis
  proof (cases "shm_is_owner st1 i proc")
    case False
    with g shm_get_put [OF inv g] inv show ?thesis by (simp add: do_shm_unlink_def pages_step_same)
  next
    case True
    let ?st = "shm_set_remove R st1 i"
    have i: "i < length (regions st1)" using G(2) shm_inv_length [OF G(1)] by simp
    have "i < length (regions st)" "st1 = region_update st i (\<lambda>g. g\<lparr>rg_refcount := rg_refcount g + 1\<rparr>)" "shm_slot R (regions st ! i) = Some name"
      using g by (simp_all add: shm_get_Some [OF inv])
    then have "1 \<le> rg_refcount (regions st1 ! i)"
      using shm_inv_ok [OF inv, of i] by (auto simp: region_ok_def shm_slot_def split: if_splits)
    then have inv': "shm_inv E R ?st"
      unfolding shm_set_remove_def using shm_inv_ok [OF G(1) i] R G(3)
      by (intro shm_inv_keep [OF G(1) i]) (auto simp: region_ok_def shm_slot_def split: if_splits)
    obtain r st' where c: "do_shm_close E R ?st proc (int i) = Some (r, st')" "shm_inv E R st'" "pages_step E ?st st'"
      using shm_close_spec [OF R inv', of proc "int i"] by blast
    have "map rg_page (regions ?st) = map rg_page (regions st1)"
      using i by (simp add: shm_set_remove_def map_update list_update_same_conv)
    then have "rg_page ` set (regions ?st) = rg_page ` set (regions st)" using G(5) by (metis set_map)
    moreover have "shm_mem ?st = shm_mem st" using G(4) by (simp add: shm_set_remove_def)
    ultimately have "pages_step E st st'" using c(3) by (simp add: pages_step_def)
    with c g True show ?thesis by (simp add: do_shm_unlink_def)
  qed
qed

section \<open>Requests as a whole\<close>

datatype shm_request = ShmCreate "string option" open_flags shm_mode | ShmOpen "string option" open_flags
  | ShmClose int | ShmUnlink string | ShmFtruncate int int

fun shm_step :: "'w :: len word rmem_env \<Rightarrow> 'r resource_ops \<Rightarrow> int \<Rightarrow> shm_request \<Rightarrow> ('r, 'w word) shm_state \<Rightarrow> ('r, 'w word) shm_state option" where
  "shm_step E R proc (ShmCreate n f m) st = map_option (snd \<circ> snd) (do_shm_create E R st proc n f m)"
| "shm_step E R proc (ShmOpen n f) st = map_option (snd \<circ> snd) (do_shm_open E R st proc n f)"
| "shm_step E R proc (ShmClose i) st = map_option snd (do_shm_close E R st proc i)"
| "shm_step E R proc (ShmUnlink n) st = map_option snd (do_shm_unlink E R st proc n)"
| "shm_step E R proc (ShmFtruncate i z) st = map_option (snd \<circ> snd) (do_shm_ftruncate E R st proc i z)"

lemma shm_init_inv:
  assumes "resource_laws R" "length (regions st) = NANVIX_SHM_MAX" "stub_inv E (shm_mem st)"
  shows "shm_inv E R (shm_init R st)"
  using assms by (auto simp: shm_inv_def shm_init_def region_ok_def slots_unique_def shm_slot_def page_slot_def)

definition shm_static :: "(flags, 64 word) shm_state" where
  "shm_static = \<lparr>regions = replicate NANVIX_SHM_MAX \<lparr>rg_resource = plain_clear, rg_name = [], rg_owner = 0, rg_refcount = 0,
     rg_mode = \<lparr>S_IRUSR = False, S_IWUSR = False, S_OTHERS = False\<rparr>, rg_size = 0, rg_page = 0\<rparr>, shm_mem = rmem_two_up\<rparr>"

lemma shm_static_inv [simp]: "shm_inv rmem_env_ideal plain_resource (shm_init plain_resource shm_static)"
  by (rule shm_init_inv) (simp_all add: shm_static_def)

definition o_creat :: open_flags where
  "o_creat = \<lparr>O_CREAT = True, O_EXCL = False, O_TRUNC = False, O_WRONLY = False, O_RDWR = False, O_OTHERS = False\<rparr>"

definition o_rdwr :: open_flags where
  "o_rdwr = \<lparr>O_CREAT = False, O_EXCL = False, O_TRUNC = False, O_WRONLY = False, O_RDWR = True, O_OTHERS = False\<rparr>"

definition s_rw :: shm_mode where "s_rw = \<lparr>S_IRUSR = True, S_IWUSR = True, S_OTHERS = False\<rparr>"

section \<open>The life of a region\<close>

lemma shm_open_plain:
  assumes inv: "shm_inv E R st" and i: "i < length (regions st)" "shm_slot R (regions st ! i) = Some name"
    and n: "nanvix_shm_name_is_invalid (Some name) = Inr 0"
  defines "st1 \<equiv> region_update st i (\<lambda>g. g\<lparr>rg_refcount := rg_refcount g + 1\<rparr>)"
  shows "do_shm_open E R st proc (Some name) o_rdwr =
      (if resource_is_busy R (rg_resource (regions st ! i)) then Some (Inr (int i), Some (rg_page (regions st ! i)), st1)
       else Some (Inl EAGAIN, None, st))"
    and "S_OTHERS mode \<or> do_shm_create E R st proc (Some name) o_creat mode = Some (Inr (int i), Some (rg_page (regions st ! i)), st1)"
proof -
  have g: "shm_get R st name = Some (i, st1)" unfolding shm_get_Some [OF inv] st1_def using i by simp
  from g n i shm_get_put [OF inv g] show
    "do_shm_open E R st proc (Some name) o_rdwr =
      (if resource_is_busy R (rg_resource (regions st ! i)) then Some (Inr (int i), Some (rg_page (regions st ! i)), st1)
       else Some (Inl EAGAIN, None, st))"
    "S_OTHERS mode \<or> do_shm_create E R st proc (Some name) o_creat mode = Some (Inr (int i), Some (rg_page (regions st ! i)), st1)"
    by (simp_all add: do_shm_open_def do_shm_create_def o_rdwr_def o_creat_def shm_is_remove_def shm_open_existing_def st1_def)
qed

lemma shm_unlink_owner:
  assumes inv: "shm_inv E R st" and R: "resource_laws R" and i: "i < length (regions st)" "shm_slot R (regions st ! i) = Some name"
    and rc: "0 < rg_refcount (regions st ! i)"
  shows "do_shm_unlink E R st proc name =
    (if rg_owner (regions st ! i) \<noteq> proc then Some (Inl EPERM, st)
     else Some (Inr 0, region_update st i (\<lambda>g. g\<lparr>rg_resource := resource_set_notbusy R (rg_resource g)\<rparr>)))"
proof -
  let ?st1 = "region_update st i (\<lambda>g. g\<lparr>rg_refcount := rg_refcount g + 1\<rparr>)"
  have g: "shm_get R st name = Some (i, ?st1)" unfolding shm_get_Some [OF inv] using i by simp
  have v: "nanvix_shm_is_valid (int i)" using i(1) shm_inv_length [OF inv] by (simp add: nanvix_shm_is_valid_def)
  have u: "resource_is_used R (rg_resource (regions st ! i))" using i(2) by (simp add: shm_slot_used)
  have e: "(regions st ! i)\<lparr>rg_refcount := rg_refcount (regions st ! i) + 1, rg_resource := r, rg_refcount := rg_refcount (regions st ! i)\<rparr> =
    (regions st ! i)\<lparr>rg_resource := r\<rparr>" for r by (cases "regions st ! i") simp
  from g v u i rc R shm_get_put [OF inv g] show ?thesis
    by (auto simp: do_shm_unlink_def shm_is_owner_def do_shm_close_def shm_put_def Let_def shm_set_remove_def shm_is_remove_def
        region_update_def e)
qed

lemma shm_close_last:
  assumes R: "resource_laws R" and inv: "shm_inv E R st" and i: "i < length (regions st)" "shm_slot R (regions st ! i) = Some name"
    and rc: "rg_refcount (regions st ! i) = 1" "\<not> resource_is_busy R (rg_resource (regions st ! i))"
  shows "\<exists>st'. do_shm_close E R st proc (int i) = Some (Inr 0, st') \<and> shm_inv E R st' \<and> shm_get R st' name = None \<and>
    (rg_page (regions st ! i) \<noteq> RMEM_NULL \<longrightarrow> page_abs (shm_mem st') (rg_page (regions st ! i)) = None)"
proof -
  have v: "nanvix_shm_is_valid (int i)" "resource_is_used R (rg_resource (regions st ! i))"
    using i shm_inv_length [OF inv] by (simp_all add: nanvix_shm_is_valid_def shm_slot_used)
  obtain r st' where p: "shm_put E R st i = Some (r, st')" "shm_inv E R st'" using shm_put_spec [OF R inv i(1)] i(2) by auto
  let ?p = "rg_page (regions st ! i)"
  have "\<exists>w. ?p \<noteq> RMEM_NULL \<longrightarrow> nanvix_rmem_free E (shm_mem st) ?p = Some (Inr 0, w) \<and> page_abs w ?p = None"
    using shm_page_release [OF inv i(1)] by (metis fun_upd_same)
  then have "r = Inr 0" "\<not> resource_is_used R (rg_resource (regions st' ! i))"
    "\<And>j. j \<noteq> i \<Longrightarrow> regions st' ! j = regions st ! j" "length (regions st') = length (regions st)"
    "?p \<noteq> RMEM_NULL \<Longrightarrow> page_abs (shm_mem st') ?p = None"
    using p(1) rc R i(1) by (auto simp: shm_put_def Let_def shm_is_remove_def shm_free_def bind_eq_Some_conv split: if_splits)
  moreover have "shm_get R st' name = None" unfolding shm_get_None
  proof (intro allI impI)
    fix j assume j: "j < length (regions st')"
    show "shm_slot R (regions st' ! j) \<noteq> Some name"
    proof (cases "j = i")
      case True
      with calculation(2) show ?thesis by (simp add: shm_slot_def)
    next
      case False
      with slots_uniqueD [OF shm_inv_names [OF inv] i(1), of j] i(2) j calculation(3,4) show ?thesis by auto
    qed
  qed
  ultimately show ?thesis using p v by (auto simp: do_shm_close_def)
qed

section \<open>Properties\<close>

text \<open>
  C6. Shared memory regions never interfere. In a state satisfying the invariant every request of every
  process leaves it satisfied: names in use are unique, no two regions share a page, a region owns
  a page exactly while its size is positive, and sizes fit a page. The only change to the remote
  memory is the release of a region's page or a cleared page for a region, so no request changes
  the contents of another page. The server aborts only when a truncation needs a page and the
  remote memory gives none.
\<close>

theorem shm_requests_isolated:
  assumes R: "resource_laws R" and inv: "shm_inv E R st"
  shows "case shm_step E R proc rq st of
      Some st' \<Rightarrow> shm_inv E R st' \<and> pages_step E st st'
    | None \<Rightarrow> \<exists>i z w. rq = ShmFtruncate i z \<and> 0 < z \<and> nanvix_rmem_alloc E (shm_mem st) = Some (RMEM_NULL, w)"
proof (cases rq)
  case (ShmCreate n f m)
  with shm_create_spec [OF R inv, of proc n f m] show ?thesis by auto
next
  case (ShmOpen n f)
  with shm_open_spec [OF inv, of proc n f] show ?thesis by auto
next
  case (ShmClose i)
  with shm_close_spec [OF R inv, of proc i] show ?thesis by auto
next
  case (ShmUnlink n)
  with shm_unlink_spec [OF R inv, of proc n] show ?thesis by auto
next
  case (ShmFtruncate i z)
  with shm_ftruncate_spec [OF inv, where proc = proc and shmid = i and sz = z] show ?thesis by (auto split: option.splits)
qed

theorem shm_requests_isolated_witness:
  "\<exists>st'. shm_step rmem_env_ideal plain_resource 3 (ShmCreate (Some ''a'') o_creat s_rw) (shm_init plain_resource shm_static) = Some st' \<and>
     shm_inv rmem_env_ideal plain_resource st'"
  using shm_requests_isolated [OF plain_resource_laws shm_static_inv, of "ShmCreate (Some ''a'') o_creat s_rw" 3]
  by (auto split: option.splits)


text \<open>
  The life of a region. When a name is new and the table has room, creation succeeds; from then on any
  process that opens the name gets the same region; only the owner may unlink it; after that it can
  no longer be opened, and when its last user closes it the name is free again.
\<close>

theorem shm_lifecycle:
  assumes R: "resource_laws R" and inv: "shm_inv E R st" and n: "nanvix_shm_name_is_invalid (Some name) = Inr 0"
    and new: "shm_get R st name = None" and room: "\<exists>g\<in>set (regions st). \<not> resource_is_used R (rg_resource g)" and m: "\<not> S_OTHERS mode"
  shows "\<exists>i st1. do_shm_create E R st proc (Some name) o_creat mode = Some (Inr i, Some RMEM_NULL, st1) \<and>
    (\<forall>q. \<exists>st2. do_shm_open E R st1 q (Some name) o_rdwr = Some (Inr i, Some RMEM_NULL, st2)) \<and>
    (\<forall>q. q \<noteq> proc \<longrightarrow> do_shm_unlink E R st1 q name = Some (Inl EPERM, st1)) \<and>
    (\<exists>st3 st4. do_shm_unlink E R st1 proc name = Some (Inr 0, st3) \<and>
       (\<forall>q. do_shm_open E R st3 q (Some name) o_rdwr = Some (Inl EAGAIN, None, st3)) \<and>
       do_shm_close E R st3 proc i = Some (Inr 0, st4) \<and> shm_get R st4 name = None)"
proof -
  obtain i r where a: "resource_alloc R (map rg_resource (regions st)) = Some (i, r)"
    using room resource_alloc_NoneD [OF R, of "map rg_resource (regions st)"] by fastforce
  obtain e where e: "do_shm_create E R st proc (Some name) o_creat mode = Some (Inr (int i), Some RMEM_NULL, st\<lparr>regions := (regions st)[i := e]\<rparr>)"
    "shm_inv E R (st\<lparr>regions := (regions st)[i := e]\<rparr>)" "i < length (regions st)" "shm_slot R e = Some name" "rg_owner e = proc"
    "rg_refcount e = 1" "rg_page e = RMEM_NULL" "resource_is_busy R (rg_resource e)"
    using shm_create_fresh [OF R inv new n, of o_creat mode proc] a m by (auto simp: Let_def o_creat_def)
  define st1 where "st1 = st\<lparr>regions := (regions st)[i := e]\<rparr>"
  define st3 where "st3 = region_update st1 i (\<lambda>g. g\<lparr>rg_resource := resource_set_notbusy R (rg_resource g)\<rparr>)"
  have i1: "i < length (regions st1)" "regions st1 ! i = e" "shm_slot R (regions st1 ! i) = Some name" and inv1: "shm_inv E R st1"
    using e by (simp_all add: st1_def)
  have i3: "i < length (regions st3)" "shm_slot R (regions st3 ! i) = Some name" "rg_refcount (regions st3 ! i) = 1"
    "\<not> resource_is_busy R (rg_resource (regions st3 ! i))"
    using i1 e R by (auto simp: st3_def shm_slot_def split: if_splits)
  note U = shm_unlink_owner [OF inv1 R i1(1,3)]
  have u: "do_shm_unlink E R st1 proc name = Some (Inr 0, st3)" "q \<noteq> proc \<Longrightarrow> do_shm_unlink E R st1 q name = Some (Inl EPERM, st1)" for q
    using U e i1 by (simp_all add: st3_def)
  have inv3: "shm_inv E R st3" using shm_unlink_spec [OF R inv1, of proc name] u(1) by simp
  note O1 = shm_open_plain(1) [OF inv1 i1(1,3) n] and O3 = shm_open_plain(1) [OF inv3 i3(1,2) n]
  obtain st4 where "do_shm_close E R st3 proc (int i) = Some (Inr 0, st4)" "shm_get R st4 name = None"
    using shm_close_last [OF R inv3 i3] by blast
  with u O3 i3(4) have "\<exists>st3 st4. do_shm_unlink E R st1 proc name = Some (Inr 0, st3) \<and>
       (\<forall>q. do_shm_open E R st3 q (Some name) o_rdwr = Some (Inl EAGAIN, None, st3)) \<and>
       do_shm_close E R st3 proc (int i) = Some (Inr 0, st4) \<and> shm_get R st4 name = None" by auto
  moreover have "\<exists>st2. do_shm_open E R st1 q (Some name) o_rdwr = Some (Inr (int i), Some RMEM_NULL, st2)" for q
    using O1 e i1(2) by simp
  ultimately show ?thesis using e(1) u(2) unfolding st1_def [symmetric] by blast
qed

theorem shm_lifecycle_witness:
  "\<exists>i st1. do_shm_create rmem_env_ideal plain_resource (shm_init plain_resource shm_static) 3 (Some ''a'') o_creat s_rw = Some (Inr i, Some RMEM_NULL, st1) \<and>
     (\<forall>q. \<exists>st2. do_shm_open rmem_env_ideal plain_resource st1 q (Some ''a'') o_rdwr = Some (Inr i, Some RMEM_NULL, st2))"
proof -
  let ?st = "shm_init plain_resource shm_static"
  have "shm_get plain_resource ?st ''a'' = None"
    by (simp add: shm_get_None shm_slot_def shm_init_def shm_static_def plain_clear_def)
  moreover have "\<exists>g\<in>set (regions ?st). \<not> resource_is_used plain_resource (rg_resource g)"
    by (simp add: shm_init_def shm_static_def plain_clear_def NANVIX_SHM_MAX_def)
  moreover have "nanvix_shm_name_is_invalid (Some ''a'') = Inr 0" by (simp add: nanvix_shm_name_is_invalid_def NANVIX_SHM_NAME_MAX_def)
  moreover have "\<not> S_OTHERS s_rw" by (simp add: s_rw_def)
  ultimately show ?thesis using shm_lifecycle [OF plain_resource_laws shm_static_inv, of "''a''" s_rw 3] by blast
qed

text \<open>
  A region on its way out can still be joined. Once its owner has unlinked a region that others use,
  \<open>do_shm_open\<close> refuses the name, but \<open>do_shm_create\<close> without \<open>O_EXCL\<close> returns the dying region and
  adds a reference to it, instead of a new region.
\<close>

theorem shm_create_joins_removed:
  assumes "shm_inv E R st" "i < length (regions st)" "shm_slot R (regions st ! i) = Some name" "shm_is_remove R st i"
    "nanvix_shm_name_is_invalid (Some name) = Inr 0" "\<not> S_OTHERS mode"
  shows "do_shm_open E R st proc (Some name) o_rdwr = Some (Inl EAGAIN, None, st) \<and>
    do_shm_create E R st proc (Some name) o_creat mode = Some (Inr (int i), Some (rg_page (regions st ! i)),
      region_update st i (\<lambda>g. g\<lparr>rg_refcount := rg_refcount g + 1\<rparr>))"
  using shm_open_plain(1) [OF assms(1-3,5), of proc] shm_open_plain(2) [OF assms(1-3,5), of mode proc] assms(4,6)
  by (simp add: shm_is_remove_def)

definition shm_dying :: "(flags, 64 word) shm_state" where
  "shm_dying = region_update (shm_init plain_resource shm_static) 0
     (\<lambda>g. g\<lparr>rg_resource := plain_clear\<lparr>f_used := True\<rparr>, rg_name := ''a'', rg_refcount := 1\<rparr>)"

lemma shm_dying_inv: "shm_inv rmem_env_ideal plain_resource shm_dying"
proof -
  let ?st = "shm_init plain_resource shm_static"
  let ?e = "(regions ?st ! 0)\<lparr>rg_resource := plain_clear\<lparr>f_used := True\<rparr>, rg_name := ''a'', rg_refcount := 1\<rparr>"
  have len: "0 < length (regions ?st)" by (simp add: shm_init_def shm_static_def NANVIX_SHM_MAX_def)
  have g: "regions ?st ! j = \<lparr>rg_resource = plain_clear, rg_name = [], rg_owner = 0, rg_refcount = 0,
     rg_mode = \<lparr>S_IRUSR = False, S_IWUSR = False, S_OTHERS = False\<rparr>, rg_size = 0, rg_page = 0\<rparr>" if "j < length (regions ?st)" for j
    using that by (simp add: shm_init_def shm_static_def RMEM_NULL_def)
  show ?thesis
  proof (rule shm_inv_change [OF shm_static_inv len, of _ ?e])
    show "slots_unique (shm_slot plain_resource) ((regions ?st)[0 := ?e])"
      by (rule slots_unique_update [OF shm_inv_names [OF shm_static_inv] len]) (use g in \<open>auto simp: shm_slot_def plain_clear_def\<close>)
    show "slots_unique page_slot ((regions ?st)[0 := ?e])"
      by (rule slots_unique_keep [OF shm_inv_pages [OF shm_static_inv] len]) (simp add: page_slot_def)
  qed (use g [OF len] shm_inv_mem [OF shm_static_inv] in \<open>simp_all add: shm_dying_def region_ok_def plain_clear_def RMEM_NULL_def\<close>)
qed

theorem shm_create_joins_removed_witness:
  "do_shm_open rmem_env_ideal plain_resource shm_dying 5 (Some ''a'') o_rdwr = Some (Inl EAGAIN, None, shm_dying) \<and>
   do_shm_create rmem_env_ideal plain_resource shm_dying 5 (Some ''a'') o_creat s_rw = Some (Inr 0, Some RMEM_NULL,
     region_update shm_dying 0 (\<lambda>g. g\<lparr>rg_refcount := rg_refcount g + 1\<rparr>))"
proof -
  have "0 < length (regions shm_dying)" "shm_slot plain_resource (regions shm_dying ! 0) = Some ''a''" "shm_is_remove plain_resource shm_dying 0"
    "rg_page (regions shm_dying ! 0) = RMEM_NULL" "nanvix_shm_name_is_invalid (Some ''a'') = Inr 0" "\<not> S_OTHERS s_rw"
    by (simp_all add: shm_dying_def shm_init_def shm_static_def NANVIX_SHM_MAX_def NANVIX_SHM_NAME_MAX_def shm_slot_def shm_is_remove_def
        plain_clear_def nanvix_shm_name_is_invalid_def s_rw_def)
  with shm_create_joins_removed [OF shm_dying_inv, of 0 "''a''" s_rw 5] show ?thesis by simp
qed

end
