(* ===== verification/SysV.thy ===== *)
theory SysV
  imports Connection Sem Msg Shm
begin

text \<open>
  The System V server, \<open>src/sys/pm/sysv/main.c\<close>: the handlers of the requests, the dispatch loop and
  the start-up, over the message queues, semaphores, shared memory regions and connections of the
  component theories. \<open>K\<close> and \<open>P\<close> are the kernel's mailboxes and portals, \<open>E\<close> the environment of the
  remote memory stub, \<open>R\<close> the resource interface, \<open>priv\<close> the key \<open>IPC_PRIVATE\<close> and \<open>nproc\<close> the number
  of clusters.
\<close>

section \<open>Messages\<close>

datatype 'p sysv_op =
    SYSV_SHM_CREATE string open_flags shm_mode
  | SYSV_SHM_OPEN string open_flags
  | SYSV_SHM_UNLINK string
  | SYSV_SHM_CLOSE int
  | SYSV_SHM_FTRUNCATE int int
  | SYSV_SHM_INVAL int 'p
  | SYSV_MSG_GET int ipc_flags
  | SYSV_MSG_CLOSE int
  | SYSV_MSG_SEND int nat ipc_flags
  | SYSV_MSG_RECEIVE int nat int ipc_flags
  | SYSV_SEM_GET int ipc_flags
  | SYSV_SEM_CLOSE int
  | SYSV_SEM_OPERATE int sembuf
  | SYSV_EXIT
  | SYSV_OTHER

record 'p sysv_message =
  sq_source :: int
  sq_mailbox_port :: int
  sq_portal_port :: int
  sq_op :: "'p sysv_op"

text \<open>
  What a handler puts into the response and sends besides it: the identifier and the page, the
  message written to the client's portal, and messages to other nodes, with node and port.
\<close>

datatype 'p sysv_note = Inval int 'p | Wakeup int

record 'p sysv_out =
  so_ipcid :: "int option"
  so_page :: "'p option"
  so_data :: "byte list option"
  so_notes :: "(int \<times> int \<times> 'p sysv_note) list"

definition no_out :: "'p sysv_out" where
  "no_out = \<lparr>so_ipcid = None, so_page = None, so_data = None, so_notes = []\<rparr>"

record ('r, 'p) sysv =
  sv_inportal :: int
  sv_conns :: conn_table
  sv_msg :: "'r msg_state"
  sv_sem :: "'r sem_state"
  sv_shm :: "('r, 'p) shm_state"

definition NANVIX_SHM_SNOOPER_PORT_NUM :: int where "NANVIX_SHM_SNOOPER_PORT_NUM = 2"

type_synonym ('r, 'p) sysv_result = "(int result \<times> 'p sysv_out \<times> ('r, 'p) sysv) option"

section \<open>Shared memory requests\<close>

text \<open>An open region is a connection of its client; failing to record it is an assertion failure.\<close>

definition shm_connect :: "('r, 'p) sysv \<Rightarrow> 'p sysv_message \<Rightarrow> int result \<Rightarrow> 'p option \<Rightarrow> ('r, 'p) sysv_result" where
  "shm_connect st rq ret page =
     (case ret of
        Inl e \<Rightarrow> Some (Inl e, no_out\<lparr>so_page := page\<rparr>, st)
      | Inr i \<Rightarrow> do {
          let (c, ct) = connect (sv_conns st) (sq_source rq) (sq_mailbox_port rq);
          uassert (c = Inr 0);
          Some (Inr 0, no_out\<lparr>so_ipcid := Some i, so_page := page\<rparr>, st\<lparr>sv_conns := ct\<rparr>) })"

definition sysv_shm_open :: "'w :: len word rmem_env \<Rightarrow> 'r resource_ops \<Rightarrow> ('r, 'w word) sysv \<Rightarrow> 'w word sysv_message \<Rightarrow>
    string \<Rightarrow> open_flags \<Rightarrow> ('r, 'w word) sysv_result" where
  "sysv_shm_open E R st rq name oflags =
     do { (ret, page, shm) \<leftarrow> do_shm_open E R (sv_shm st) (sq_source rq) (Some name) oflags;
          shm_connect (st\<lparr>sv_shm := shm\<rparr>) rq ret page }"

definition sysv_shm_close :: "'w :: len word rmem_env \<Rightarrow> 'r resource_ops \<Rightarrow> ('r, 'w word) sysv \<Rightarrow> 'w word sysv_message \<Rightarrow>
    int \<Rightarrow> ('r, 'w word) sysv_result" where
  "sysv_shm_close E R st rq shmid =
     do { (ret, shm) \<leftarrow> do_shm_close E R (sv_shm st) (sq_source rq) shmid;
          let st1 = st\<lparr>sv_shm := shm\<rparr>;
          case ret of
            Inl e \<Rightarrow> Some (Inl e, no_out, st1)
          | Inr _ \<Rightarrow> do {
              let (c, ct) = disconnect (sv_conns st1) (sq_source rq) (sq_mailbox_port rq);
              uassert (c = Inr 0);
              Some (Inr 0, no_out, st1\<lparr>sv_conns := ct\<rparr>) } }"

definition sysv_shm_create :: "'w :: len word rmem_env \<Rightarrow> 'r resource_ops \<Rightarrow> ('r, 'w word) sysv \<Rightarrow> 'w word sysv_message \<Rightarrow>
    string \<Rightarrow> open_flags \<Rightarrow> shm_mode \<Rightarrow> ('r, 'w word) sysv_result" where
  "sysv_shm_create E R st rq name oflags mode =
     do { (ret, page, shm) \<leftarrow> do_shm_create E R (sv_shm st) (sq_source rq) (Some name) oflags mode;
          shm_connect (st\<lparr>sv_shm := shm\<rparr>) rq ret page }"

definition sysv_shm_unlink :: "'w :: len word rmem_env \<Rightarrow> 'r resource_ops \<Rightarrow> ('r, 'w word) sysv \<Rightarrow> 'w word sysv_message \<Rightarrow>
    string \<Rightarrow> ('r, 'w word) sysv_result" where
  "sysv_shm_unlink E R st rq name =
     do { (ret, shm) \<leftarrow> do_shm_unlink E R (sv_shm st) (sq_source rq) name;
          Some (case ret of Inl e \<Rightarrow> Inl e | Inr _ \<Rightarrow> Inr 0, no_out, st\<lparr>sv_shm := shm\<rparr>) }"

definition sysv_shm_ftruncate :: "'w :: len word rmem_env \<Rightarrow> 'r resource_ops \<Rightarrow> ('r, 'w word) sysv \<Rightarrow> 'w word sysv_message \<Rightarrow>
    int \<Rightarrow> int \<Rightarrow> ('r, 'w word) sysv_result" where
  "sysv_shm_ftruncate E R st rq shmid sz =
     do { (ret, page, shm) \<leftarrow> do_shm_ftruncate E R (sv_shm st) (sq_source rq) shmid sz;
          Some (case ret of Inl e \<Rightarrow> Inl e | Inr _ \<Rightarrow> Inr 0, no_out\<lparr>so_page := page\<rparr>, st\<lparr>sv_shm := shm\<rparr>) }"

text \<open>
  Every connection gets the invalidation, at the snooper's port. The connections are copied to an array
  of one entry per cluster; more of them overflow it.
\<close>

definition sysv_shm_inval :: "kmailbox \<Rightarrow> nat \<Rightarrow> ('r, 'p) sysv \<Rightarrow> int \<Rightarrow> 'p \<Rightarrow> ('r, 'p) sysv_result" where
  "sysv_shm_inval K nproc st shmid page =
     do { let remotes = (case get_connections (sv_conns st) False of Inl _ \<Rightarrow> [] | Inr (_, buf) \<Rightarrow> buf);
          uassert (length remotes \<le> nproc);
          uassert (list_all (\<lambda>c. mailbox_send K (remote c) NANVIX_SHM_SNOOPER_PORT_NUM = Some ()) remotes);
          Some (Inr 0, no_out\<lparr>so_notes := map (\<lambda>c. (remote c, NANVIX_SHM_SNOOPER_PORT_NUM, Inval shmid page)) remotes\<rparr>, st) }"

section \<open>Message queue requests\<close>

definition do_sysv_msg_get :: "'r resource_ops \<Rightarrow> int \<Rightarrow> ('r, 'p) sysv \<Rightarrow> 'p sysv_message \<Rightarrow> int \<Rightarrow> ipc_flags \<Rightarrow> ('r, 'p) sysv_result" where
  "do_sysv_msg_get R priv st rq key msgflg =
     (let (_, ct) = connect (sv_conns st) (sq_source rq) (sq_mailbox_port rq);
          (ret, ms) = do_msg_get R priv (sv_msg st) key msgflg;
          st1 = st\<lparr>sv_conns := ct, sv_msg := ms\<rparr>
      in case ret of
           Inl e \<Rightarrow> Some (Inl e, no_out, st1\<lparr>sv_conns := snd (disconnect ct (sq_source rq) (sq_mailbox_port rq))\<rparr>)
         | Inr i \<Rightarrow> Some (Inr i, no_out\<lparr>so_ipcid := Some i\<rparr>, st1))"

definition do_sysv_msg_close :: "'r resource_ops \<Rightarrow> ('r, 'p) sysv \<Rightarrow> 'p sysv_message \<Rightarrow> int \<Rightarrow> ('r, 'p) sysv_result" where
  "do_sysv_msg_close R st rq msgid =
     (let (ret, ms) = do_msg_close R (sv_msg st) msgid; st1 = st\<lparr>sv_msg := ms\<rparr>
      in case ret of
           Inl e \<Rightarrow> Some (Inl e, no_out, st1)
         | Inr v \<Rightarrow> Some (Inr v, no_out, st1\<lparr>sv_conns := snd (disconnect (sv_conns st1) (sq_source rq) (sq_mailbox_port rq))\<rparr>))"

text \<open>The data is read whether or not the request was accepted, and stored where \<open>msgp\<close> points.\<close>

definition do_sysv_msg_send :: "kportal \<Rightarrow> 'r resource_ops \<Rightarrow> ('r, 'p) sysv \<Rightarrow> 'p sysv_message \<Rightarrow> int \<Rightarrow> nat \<Rightarrow> ipc_flags \<Rightarrow> ('r, 'p) sysv_result" where
  "do_sysv_msg_send P R st rq msgid msgsz msgflg =
     do { (ret, ref, ms) \<leftarrow> do_msg_send R (sv_msg st) msgid False msgsz msgflg;
          data \<leftarrow> portal_receive P (sv_inportal st) (sq_source rq) (sq_portal_port rq) msgsz;
          r \<leftarrow> ref;
          ms' \<leftarrow> msg_store ms r data;
          Some (ret, no_out, st\<lparr>sv_msg := ms'\<rparr>) }"

definition do_sysv_msg_receive :: "kmailbox \<Rightarrow> kportal \<Rightarrow> 'r resource_ops \<Rightarrow> ('r, 'p) sysv \<Rightarrow> 'p sysv_message \<Rightarrow> int \<Rightarrow> nat \<Rightarrow> int \<Rightarrow> ipc_flags \<Rightarrow>
    ('r, 'p) sysv_result" where
  "do_sysv_msg_receive K P R st rq msgid msgsz msgtyp msgflg =
     do { (ret, ref, ms) \<leftarrow> do_msg_receive R (sv_msg st) msgid False msgsz msgtyp msgflg;
          case ret of
            Inl e \<Rightarrow> Some (Inl e, no_out, st\<lparr>sv_msg := ms\<rparr>)
          | Inr v \<Rightarrow> do {
              r \<leftarrow> ref;
              data \<leftarrow> msg_fetch ms r msgsz;
              portal_reply K P (sq_source rq) (sq_mailbox_port rq) (sq_portal_port rq) msgsz;
              Some (Inr v, no_out\<lparr>so_data := Some data\<rparr>, st\<lparr>sv_msg := ms\<rparr>) } }"

section \<open>Semaphore requests\<close>

definition do_sysv_sem_get :: "'r resource_ops \<Rightarrow> int \<Rightarrow> ('r, 'p) sysv \<Rightarrow> 'p sysv_message \<Rightarrow> int \<Rightarrow> ipc_flags \<Rightarrow> ('r, 'p) sysv_result" where
  "do_sysv_sem_get R priv st rq key semflg =
     (let (_, ct) = connect (sv_conns st) (sq_source rq) (sq_mailbox_port rq);
          (ret, ss) = do_sem_get R priv (sv_sem st) key semflg;
          st1 = st\<lparr>sv_conns := ct, sv_sem := ss\<rparr>
      in case ret of
           Inl e \<Rightarrow> Some (Inl e, no_out, st1\<lparr>sv_conns := snd (disconnect ct (sq_source rq) (sq_mailbox_port rq))\<rparr>)
         | Inr i \<Rightarrow> Some (Inr i, no_out\<lparr>so_ipcid := Some i\<rparr>, st1))"

definition do_sysv_sem_close :: "'r resource_ops \<Rightarrow> ('r, 'p) sysv \<Rightarrow> 'p sysv_message \<Rightarrow> int \<Rightarrow> ('r, 'p) sysv_result" where
  "do_sysv_sem_close R st rq semid =
     (let (ret, ss) = do_sem_close R (sv_sem st) semid; st1 = st\<lparr>sv_sem := ss\<rparr>
      in case ret of
           Inl e \<Rightarrow> Some (Inl e, no_out, st1)
         | Inr v \<Rightarrow> Some (Inr v, no_out, st1\<lparr>sv_conns := snd (disconnect (sv_conns st1) (sq_source rq) (sq_mailbox_port rq))\<rparr>))"

text \<open>
  A C result as the \<open>int\<close> it is: a negative error code, whose value does not matter where this is used.
\<close>

definition c_int :: "int result \<Rightarrow> int" where
  "c_int r = (case r of Inl _ \<Rightarrow> -1 | Inr v \<Rightarrow> v)"

definition do_sysv_sem_operate :: "kmailbox \<Rightarrow> 'r resource_ops \<Rightarrow> ('r, 'p) sysv \<Rightarrow> 'p sysv_message \<Rightarrow> int \<Rightarrow> sembuf \<Rightarrow> ('r, 'p) sysv_result" where
  "do_sysv_sem_operate K R st rq semid sops =
     (let (connection, ct) = connect (sv_conns st) (sq_source rq) (sq_mailbox_port rq);
          (ret, ss) = do_sem_operate R (sv_sem st) (c_int connection) semid (Some sops);
          st1 = st\<lparr>sv_conns := ct, sv_sem := ss\<rparr>
      in case ret of
           Inl e \<Rightarrow> Some (Inl e, no_out, st1)
         | Inr c \<Rightarrow>
             if c = sq_source rq then Some (Inr 1, no_out, st1)
             else if c = 0 then Some (Inr 0, no_out, st1)
             else do {
               let port = c_int (connection_get_port (sv_conns st1) c);
               mailbox_send K c port;
               Some (Inr 0, no_out\<lparr>so_notes := [(c, port, Wakeup c)]\<rparr>, st1) })"

section \<open>The server\<close>

text \<open>The switch of the loop: the value returned, what the handler sends, the state, and whether to reply.\<close>

definition sysv_handle :: "kmailbox \<Rightarrow> kportal \<Rightarrow> 'w :: len word rmem_env \<Rightarrow> 'r resource_ops \<Rightarrow> int \<Rightarrow> nat \<Rightarrow> ('r, 'w word) sysv \<Rightarrow>
    'w word sysv_message \<Rightarrow> (int result \<times> 'w word sysv_out \<times> ('r, 'w word) sysv) option" where
  "sysv_handle K P E R priv nproc st rq =
     (case sq_op rq of
        SYSV_SHM_CREATE name oflags mode \<Rightarrow> sysv_shm_create E R st rq name oflags mode
      | SYSV_SHM_OPEN name oflags \<Rightarrow> sysv_shm_open E R st rq name oflags
      | SYSV_SHM_UNLINK name \<Rightarrow> sysv_shm_unlink E R st rq name
      | SYSV_SHM_CLOSE shmid \<Rightarrow> sysv_shm_close E R st rq shmid
      | SYSV_SHM_FTRUNCATE shmid sz \<Rightarrow> sysv_shm_ftruncate E R st rq shmid sz
      | SYSV_SHM_INVAL shmid page \<Rightarrow> sysv_shm_inval K nproc st shmid page
      | SYSV_MSG_GET key msgflg \<Rightarrow> do_sysv_msg_get R priv st rq key msgflg
      | SYSV_MSG_CLOSE msgid \<Rightarrow> do_sysv_msg_close R st rq msgid
      | SYSV_MSG_SEND msgid msgsz msgflg \<Rightarrow> do_sysv_msg_send P R st rq msgid msgsz msgflg
      | SYSV_MSG_RECEIVE msgid msgsz msgtyp msgflg \<Rightarrow> do_sysv_msg_receive K P R st rq msgid msgsz msgtyp msgflg
      | SYSV_SEM_GET key semflg \<Rightarrow> do_sysv_sem_get R priv st rq key semflg
      | SYSV_SEM_CLOSE semid \<Rightarrow> do_sysv_sem_close R st rq semid
      | SYSV_SEM_OPERATE semid sops \<Rightarrow> do_sysv_sem_operate K R st rq semid sops
      | SYSV_EXIT \<Rightarrow> Some (Inl ENOSYS, no_out, st)
      | SYSV_OTHER \<Rightarrow> Some (Inl ENOSYS, no_out, st))"

definition sysv_replies :: "'p sysv_op \<Rightarrow> int result \<Rightarrow> bool" where
  "sysv_replies op ret =
     (case op of SYSV_EXIT \<Rightarrow> False | SYSV_OTHER \<Rightarrow> False
      | SYSV_SEM_OPERATE _ _ \<Rightarrow> c_int ret \<le> 0 | _ \<Rightarrow> True)"

text \<open>One turn of the loop: the state, the reply with what was sent, if any, and shutdown.\<close>

definition sysv_step :: "kmailbox \<Rightarrow> kportal \<Rightarrow> 'w :: len word rmem_env \<Rightarrow> 'r resource_ops \<Rightarrow> int \<Rightarrow> nat \<Rightarrow> ('r, 'w word) sysv \<Rightarrow>
    'w word sysv_message \<Rightarrow> (('r, 'w word) sysv \<times> int result option \<times> 'w word sysv_out \<times> bool) option" where
  "sysv_step K P E R priv nproc st rq =
     do { (ret, out, st') \<leftarrow> sysv_handle K P E R priv nproc st rq;
          if sysv_replies (sq_op rq) ret
          then do { mailbox_send K (sq_source rq) (sq_mailbox_port rq); Some (st', Some ret, out, False) }
          else Some (st', None, out, sq_op rq = SYSV_EXIT) }"

fun do_sysv_server_loop :: "kmailbox \<Rightarrow> 'w :: len word rmem_env \<Rightarrow> 'r resource_ops \<Rightarrow> int \<Rightarrow> nat \<Rightarrow> ('r, 'w word) sysv \<Rightarrow>
    (kportal \<times> 'w word sysv_message) list \<Rightarrow> (('r, 'w word) sysv \<times> (int result option \<times> 'w word sysv_out) list) option" where
  "do_sysv_server_loop K E R priv nproc st [] = Some (st, [])"
| "do_sysv_server_loop K E R priv nproc st ((P, rq) # rqs) =
     do { (st1, rep, out, shutdown) \<leftarrow> sysv_step K P E R priv nproc st rq;
          if shutdown then Some (st1, [(rep, out)])
          else do { (st2, reps) \<leftarrow> do_sysv_server_loop K E R priv nproc st1 rqs; Some (st2, (rep, out) # reps) } }"

text \<open>
  Start-up, with the answer of the name server. Only the connections, queues and semaphores are
  initialised; the regions keep the zeroes of static storage.
\<close>

definition do_sysv_server_startup :: "'r resource_ops \<Rightarrow> nat \<Rightarrow> int \<Rightarrow> int result \<Rightarrow> ('r, 'p) sysv \<Rightarrow> int result \<times> ('r, 'p) sysv" where
  "do_sysv_server_startup R nproc inportal linked st =
     (let st1 = st\<lparr>sv_inportal := inportal\<rparr> in
      case linked of
        Inl e \<Rightarrow> (Inl e, st1)
      | Inr _ \<Rightarrow> (Inr 0, st1\<lparr>sv_conns := connections_setup nproc, sv_msg := do_msg_init R (sv_msg st1),
                            sv_sem := do_sem_init R (sv_sem st1)\<rparr>))"

section \<open>Invariant\<close>

text \<open>
  The invariants of the components. Besides, every sleeper is recorded under connection zero: that is
  what \<open>connect\<close> returns and the handler passes on.
\<close>

definition sysv_inv :: "'w :: len word rmem_env \<Rightarrow> 'r resource_ops \<Rightarrow> ('r, 'w word) sysv \<Rightarrow> bool" where
  "sysv_inv E R st \<longleftrightarrow> conn_wf (sv_conns st) \<and> msg_inv R (sv_msg st) \<and> sem_inv R (sv_sem st) \<and> shm_inv E R (sv_shm st) \<and>
     (\<forall>s\<in>set (sleeping (sv_sem st)). sl_conn s = 0)"

lemma disconnect_wf: "conn_wf ct \<Longrightarrow> conn_wf (snd (disconnect ct r p))"
  using conn_step_ok(1) [of ct "Release (r, p)"] by simp

lemma msg_send_store:
  assumes inv: "msg_inv R st" and d: "length d = sz" "sz \<le> NANVIX_MSG_SIZE_MAX"
  shows "\<exists>r ref st1 st2. do_msg_send R st msgid False sz flg = Some (r, Some ref, st1) \<and> msg_store st1 ref d = Some st2 \<and> msg_inv R st2"
proof -
  have "\<exists>r ref st1. do_msg_send R st msgid False sz flg = Some (r, Some ref, st1)"
    using msg_inv_buf [OF inv msgid_nat, of msgid] by (simp add: do_msg_send_def msg_send_error_def msgbuf_put_def)
  then obtain r ref st1 where s: "do_msg_send R st msgid False sz flg = Some (r, Some ref, st1)" by blast
  show ?thesis
  proof (cases r)
    case (Inl e)
    have "ref = NullMsg" "st1 = st"
      using s Inl by (auto simp: do_msg_send_def msg_send_error_def msgbuf_put_def bind_eq_Some_conv split: if_splits)
    with s inv d show ?thesis by (auto simp: msg_store_def copy_in_def msg_inv_def)
  next
    case (Inr v)
    let ?i = "nat msgid"
    have open': "msgid_is_valid msgid" "resource_is_used R (msg_resource (mqueues st ! ?i))" "sz = NANVIX_MSG_SIZE_MAX" "IPC_NOWAIT flg"
      using s Inr by (auto simp: do_msg_send_def msg_send_error_def split: if_splits)
    have q: "queue_open R ?i st" using inv open'(1,2) msgid_nat by (simp add: queue_open_def msg_slot_used)
    have int: "int ?i = msgid" using open'(1) by (simp add: msgid_is_valid_def)
    have s': "do_msg_send R st (int ?i) False sz ipc_nowait = Some (Inr v, Some ref, st1)"
      using s Inr open'(4) int by (simp add: do_msg_send_def ipc_nowait_def)
    then have "queue_send R ?i st d = msg_store st1 ref d" using d by (simp add: queue_send_def)
    moreover obtain off b where "msgbuf_put (buffers st ! ?i) = (Inr off, b)"
      using s' unfolding do_msg_send_open [OF q open'(3)] by (auto split: prod.splits sum.splits)
    then have "length (queue_contents st ?i) \<noteq> NANVIX_MSG_LENGTH_MAX"
      by (auto simp: queue_contents_def msgbuf_put_def mb_contents_length split: if_splits)
    then have "length (queue_contents st ?i) < NANVIX_MSG_LENGTH_MAX" using queue.contents_bound [OF q] by simp
    then obtain st2 where "queue_send R ?i st d = Some st2" "queue_open R ?i st2"
      using queue.put_room [OF q, of d] d open'(3) by auto
    ultimately have "msg_store st1 ref d = Some st2" "msg_inv R st2" by (simp_all add: queue_open_def)
    with s show ?thesis by blast
  qed
qed


lemma msg_receive_fetch:
  assumes inv: "msg_inv R st"
  shows "\<exists>r ref st1. do_msg_receive R st msgid False sz mtype flg = Some (r, ref, st1) \<and> msg_inv R st1 \<and>
    (\<not> isl r \<longrightarrow> (\<exists>x d. ref = Some x \<and> msg_fetch st1 x sz = Some d))"
proof -
  have "\<exists>r ref st1. do_msg_receive R st msgid False sz mtype flg = Some (r, ref, st1)"
    using msg_inv_buf [OF inv msgid_nat, of msgid] by (simp add: do_msg_receive_def msgbuf_get_def)
  then obtain r ref st1 where s: "do_msg_receive R st msgid False sz mtype flg = Some (r, ref, st1)" by blast
  show ?thesis
  proof (cases r)
    case (Inl e)
    then have "st1 = st"
      using s by (auto simp: do_msg_receive_def msgbuf_get_def bind_eq_Some_conv split: if_splits)
    with s Inl inv show ?thesis by auto
  next
    case (Inr v)
    let ?i = "nat msgid"
    have open': "msgid_is_valid msgid" "resource_is_used R (msg_resource (mqueues st ! ?i))" "sz = NANVIX_MSG_SIZE_MAX" "IPC_NOWAIT flg"
      using s Inr by (auto simp: do_msg_receive_def split: if_splits)
    have q: "queue_open R ?i st" using inv open'(1,2) msgid_nat by (simp add: queue_open_def msg_slot_used)
    have int: "int ?i = msgid" using open'(1) by (simp add: msgid_is_valid_def)
    have s': "do_msg_receive R st (int ?i) False NANVIX_MSG_SIZE_MAX 0 ipc_nowait = Some (Inr v, ref, st1)"
      using s Inr open'(3,4) int by (simp add: do_msg_receive_def ipc_nowait_def)
    obtain off b where b: "msgbuf_get (buffers st ! ?i) = (Inr off, b)" "ref = Some (BufSlot ?i off)"
      using s' unfolding do_msg_receive_open [OF q refl] by (auto split: prod.splits sum.splits)
    have "mb_len (buffers st ! ?i) \<noteq> 0" using b(1) by (auto simp: msgbuf_get_def split: if_splits)
    then have "queue_contents st ?i \<noteq> []" by (metis length_0_conv mb_contents_length queue_contents_def)
    then obtain m ms where "queue_contents st ?i = m # ms" by (cases "queue_contents st ?i") auto
    then obtain st2 where r: "queue_receive R ?i st = Some (m, st2)" "queue_open R ?i st2"
      using queue.get_first [OF q, of m ms] by blast
    then have "msg_fetch st1 (BufSlot ?i off) NANVIX_MSG_SIZE_MAX = Some m" "st2 = st1"
      using b(2) unfolding queue_receive_def s' by auto
    with s Inr b open'(3) r(2) show ?thesis by (auto simp: queue_open_def)
  qed
qed

lemma sem_operate_conn:
  assumes "\<forall>s\<in>set (sleeping st). sl_conn s = 0" "c \<le> 0"
  shows "\<forall>s\<in>set (sleeping (snd (do_sem_operate R st c semid sops))). sl_conn s = 0"
    and "fst (do_sem_operate R st c semid sops) = Inr v \<Longrightarrow> v = 0"
proof -
  have wake: "(\<forall>s\<in>set (sleeping (snd (do_wakeup st' i))). sl_conn s = 0) \<and> fst (do_wakeup st' i) = 0"
    if "sleeping st' = sleeping st" for st' i
  proof (cases "first_index (\<lambda>s. sl_semid s = int i \<and> sl_val s \<le> sem_val (semaphores st' ! i)) (sleeping st')")
    case None
    with that assms(1) show ?thesis by (simp add: do_wakeup_def)
  next
    case (Some j)
    then have j: "sleeping st ! j \<in> set (sleeping st)" using first_index_bound that by fastforce
    have "\<forall>s\<in>set ((sleeping st)[j := (sleeping st ! j)\<lparr>sl_semid := -1\<rparr>]). sl_conn s = 0"
      using assms(1) j by (intro ball_update) simp_all
    with Some that assms(1) j show ?thesis by (simp add: do_wakeup_def Let_def)
  qed
  have sleep: "\<forall>s\<in>set (sleeping (do_sleep st 0 semid val)). sl_conn s = 0" for val
    using assms(1) by (auto simp: do_sleep_def)
  show "\<forall>s\<in>set (sleeping (snd (do_sem_operate R st c semid sops))). sl_conn s = 0"
    "fst (do_sem_operate R st c semid sops) = Inr v \<Longrightarrow> v = 0"
    using assms wake [OF sem_update_sel(2)] sleep
    by (auto simp: do_sem_operate_def Let_def case_prod_unfold split: option.splits if_splits)
qed


section \<open>Requests the server survives\<close>

text \<open>
  What makes a request dangerous: a truncation that needs a page when the remote memory gives none, a
  region opened when the connection table has no room for the client, a region closed by a client
  without a connection, an invalidation with more connections than clusters, and a message larger
  than the buffer for refused messages.
\<close>

definition sysv_hazard :: "'w :: len word rmem_env \<Rightarrow> nat \<Rightarrow> ('r, 'w word) sysv \<Rightarrow> 'w word sysv_message \<Rightarrow> bool" where
  "sysv_hazard E nproc st rq \<longleftrightarrow>
     (case sq_op rq of
        SYSV_SHM_CREATE _ _ _ \<Rightarrow> \<not> conn_room (sv_conns st) (sq_source rq, sq_mailbox_port rq)
      | SYSV_SHM_OPEN _ _ \<Rightarrow> \<not> conn_room (sv_conns st) (sq_source rq, sq_mailbox_port rq)
      | SYSV_SHM_CLOSE _ \<Rightarrow> conn_refs (sv_conns st) (sq_source rq, sq_mailbox_port rq) = 0
      | SYSV_SHM_FTRUNCATE _ sz \<Rightarrow> 0 < sz \<and> (\<exists>w. nanvix_rmem_alloc E (shm_mem (sv_shm st)) = Some (RMEM_NULL, w))
      | SYSV_SHM_INVAL _ _ \<Rightarrow> nproc < length (filter (\<lambda>c. \<not> remote c < 0) (sv_conns st))
      | SYSV_MSG_SEND _ msgsz _ \<Rightarrow> NANVIX_MSG_SIZE_MAX < msgsz
      | _ \<Rightarrow> False)"

lemma shm_connect_ok:
  assumes "sysv_inv E R (st\<lparr>sv_shm := shm\<rparr>)" "conn_room (sv_conns st) (sq_source rq, sq_mailbox_port rq)"
  shows "\<exists>r out st'. shm_connect (st\<lparr>sv_shm := shm\<rparr>) rq ret page = Some (r, out, st') \<and> sysv_inv E R st'"
proof -
  have wf: "conn_wf (sv_conns st)" using assms(1) by (simp add: sysv_inv_def)
  with connect_refs(1) [OF wf assms(2)] connect_wf [OF wf, of "sq_source rq" "sq_mailbox_port rq"] assms(1) show ?thesis
    by (cases ret) (auto simp: shm_connect_def Let_def case_prod_unfold sysv_inv_def)
qed

lemma sysv_shm_ok:
  assumes R: "resource_laws R" and inv: "sysv_inv E R st" and room: "conn_room (sv_conns st) (sq_source rq, sq_mailbox_port rq)"
  shows "\<exists>r out st'. sysv_shm_open E R st rq name oflags = Some (r, out, st') \<and> sysv_inv E R st'"
    and "\<exists>r out st'. sysv_shm_create E R st rq name oflags mode = Some (r, out, st') \<and> sysv_inv E R st'"
proof -
  have sinv: "shm_inv E R (sv_shm st)" using inv by (simp add: sysv_inv_def)
  have keep: "sysv_inv E R (st\<lparr>sv_shm := shm\<rparr>)" if "shm_inv E R shm" for shm using inv that by (simp add: sysv_inv_def)
  show "\<exists>r out st'. sysv_shm_open E R st rq name oflags = Some (r, out, st') \<and> sysv_inv E R st'"
  proof -
    obtain r pg shm where "do_shm_open E R (sv_shm st) (sq_source rq) (Some name) oflags = Some (r, pg, shm)" "shm_inv E R shm"
      using shm_open_spec [OF sinv] by blast
    with shm_connect_ok [OF keep room] show ?thesis unfolding sysv_shm_open_def by simp
  qed
  show "\<exists>r out st'. sysv_shm_create E R st rq name oflags mode = Some (r, out, st') \<and> sysv_inv E R st'"
  proof -
    obtain r pg shm where "do_shm_create E R (sv_shm st) (sq_source rq) (Some name) oflags mode = Some (r, pg, shm)" "shm_inv E R shm"
      using shm_create_spec [OF R sinv] by blast
    with shm_connect_ok [OF keep room] show ?thesis unfolding sysv_shm_create_def by simp
  qed
qed

lemma sysv_shm_close_ok:
  assumes R: "resource_laws R" and inv: "sysv_inv E R st" and held: "0 < conn_refs (sv_conns st) (sq_source rq, sq_mailbox_port rq)"
  shows "\<exists>r out st'. sysv_shm_close E R st rq shmid = Some (r, out, st') \<and> sysv_inv E R st'"
proof -
  have sinv: "shm_inv E R (sv_shm st)" and wf: "conn_wf (sv_conns st)" using inv by (simp_all add: sysv_inv_def)
  obtain r shm where c: "do_shm_close E R (sv_shm st) (sq_source rq) shmid = Some (r, shm)" "shm_inv E R shm"
    using shm_close_spec [OF R sinv] by blast
  with disconnect_held [OF wf held] inv show ?thesis
    by (cases r) (auto simp: sysv_shm_close_def Let_def case_prod_unfold sysv_inv_def)
qed

lemma sysv_shm_rest_ok:
  assumes R: "resource_laws R" and inv: "sysv_inv E R st"
  shows "\<exists>r out st'. sysv_shm_unlink E R st rq name = Some (r, out, st') \<and> sysv_inv E R st'"
    and "\<not> (0 < sz \<and> (\<exists>w. nanvix_rmem_alloc E (shm_mem (sv_shm st)) = Some (RMEM_NULL, w))) \<Longrightarrow>
      \<exists>r out st'. sysv_shm_ftruncate E R st rq shmid sz = Some (r, out, st') \<and> sysv_inv E R st'"
    and "mailboxes_up K \<Longrightarrow> length (filter (\<lambda>c. \<not> remote c < 0) (sv_conns st)) \<le> nproc \<Longrightarrow>
      \<exists>r out st'. sysv_shm_inval K nproc st shmid page = Some (r, out, st') \<and> sysv_inv E R st'"
proof -
  have sinv: "shm_inv E R (sv_shm st)" using inv by (simp add: sysv_inv_def)
  have keep: "sysv_inv E R (st\<lparr>sv_shm := shm\<rparr>)" if "shm_inv E R shm" for shm using inv that by (simp add: sysv_inv_def)
  show "\<exists>r out st'. sysv_shm_unlink E R st rq name = Some (r, out, st') \<and> sysv_inv E R st'"
    using shm_unlink_spec [OF R sinv, of "sq_source rq" name] keep by (auto simp: sysv_shm_unlink_def)
  show "\<exists>r out st'. sysv_shm_ftruncate E R st rq shmid sz = Some (r, out, st') \<and> sysv_inv E R st'"
    if "\<not> (0 < sz \<and> (\<exists>w. nanvix_rmem_alloc E (shm_mem (sv_shm st)) = Some (RMEM_NULL, w)))"
    using shm_ftruncate_spec [OF sinv, where proc = "sq_source rq" and shmid = shmid and sz = sz] that keep
    by (auto simp: sysv_shm_ftruncate_def split: option.splits)
  show "\<exists>r out st'. sysv_shm_inval K nproc st shmid page = Some (r, out, st') \<and> sysv_inv E R st'"
    if "mailboxes_up K" "length (filter (\<lambda>c. \<not> remote c < 0) (sv_conns st)) \<le> nproc"
    using that inv by (auto simp: sysv_shm_inval_def get_connections_def Let_def mailbox_send_up list_all_iff)
qed

lemma sysv_msg_ok:
  assumes R: "resource_laws R" and inv: "sysv_inv E R st" and K: "mailboxes_up K" and P: "portals_up P"
  shows "\<exists>r out st'. do_sysv_msg_get R priv st rq key flg = Some (r, out, st') \<and> sysv_inv E R st'"
    and "\<exists>r out st'. do_sysv_msg_close R st rq msgid = Some (r, out, st') \<and> sysv_inv E R st'"
    and "sz \<le> NANVIX_MSG_SIZE_MAX \<Longrightarrow> \<exists>r out st'. do_sysv_msg_send P R st rq msgid sz flg = Some (r, out, st') \<and> sysv_inv E R st'"
    and "\<exists>r out st'. do_sysv_msg_receive K P R st rq msgid sz mtype flg = Some (r, out, st') \<and> sysv_inv E R st'"
proof -
  have minv: "msg_inv R (sv_msg st)" and wf: "conn_wf (sv_conns st)" using inv by (simp_all add: sysv_inv_def)
  note C = connect_wf [OF wf, of "sq_source rq" "sq_mailbox_port rq"]
  show "\<exists>r out st'. do_sysv_msg_get R priv st rq key flg = Some (r, out, st') \<and> sysv_inv E R st'"
  proof -
    obtain ret ms where g: "do_msg_get R priv (sv_msg st) key flg = (ret, ms)" by (cases "do_msg_get R priv (sv_msg st) key flg")
    have "msg_inv R ms" using msg_get_inv(1) [OF R minv, of priv key flg] g by simp
    with g C disconnect_wf [OF C] inv show ?thesis
      by (cases ret) (simp_all add: do_sysv_msg_get_def Let_def case_prod_unfold sysv_inv_def)
  qed
  show "\<exists>r out st'. do_sysv_msg_close R st rq msgid = Some (r, out, st') \<and> sysv_inv E R st'"
  proof -
    obtain ret ms where g: "do_msg_close R (sv_msg st) msgid = (ret, ms)" by (cases "do_msg_close R (sv_msg st) msgid")
    have "msg_inv R ms" using msg_close_inv(1) [OF R minv, of msgid] g by simp
    with g disconnect_wf [OF wf] inv show ?thesis
      by (cases ret) (simp_all add: do_sysv_msg_close_def Let_def sysv_inv_def)
  qed
  show "\<exists>r out st'. do_sysv_msg_send P R st rq msgid sz flg = Some (r, out, st') \<and> sysv_inv E R st'" if sz: "sz \<le> NANVIX_MSG_SIZE_MAX"
  proof -
    have "length (kportal_read P (sv_inportal st) sz) = sz" using P by (simp add: portals_up_def)
    then obtain r ref st1 st2 where "do_msg_send R (sv_msg st) msgid False sz flg = Some (r, Some ref, st1)"
      "msg_store st1 ref (kportal_read P (sv_inportal st) sz) = Some st2" "msg_inv R st2"
      using msg_send_store [OF minv _ sz] by blast
    with P inv show ?thesis by (simp add: do_sysv_msg_send_def portal_receive_up sysv_inv_def)
  qed
  obtain r ref st1 where r: "do_msg_receive R (sv_msg st) msgid False sz mtype flg = Some (r, ref, st1)" "msg_inv R st1"
    "\<not> isl r \<longrightarrow> (\<exists>x d. ref = Some x \<and> msg_fetch st1 x sz = Some d)"
    using msg_receive_fetch [OF minv, of msgid sz mtype flg] by (elim exE conjE)
  show "\<exists>r out st'. do_sysv_msg_receive K P R st rq msgid sz mtype flg = Some (r, out, st') \<and> sysv_inv E R st'"
  proof (cases r)
    case (Inl e)
    with r inv show ?thesis by (simp add: do_sysv_msg_receive_def sysv_inv_def)
  next
    case (Inr v)
    with r(3) obtain x d where "ref = Some x" "msg_fetch st1 x sz = Some d" by auto
    with r(1,2) Inr inv portal_reply_up [OF K P] show ?thesis by (simp add: do_sysv_msg_receive_def sysv_inv_def)
  qed
qed


lemma sysv_sem_ok:
  assumes R: "resource_laws R" and inv: "sysv_inv E R st"
  shows "\<exists>r out st'. do_sysv_sem_get R priv st rq key flg = Some (r, out, st') \<and> sysv_inv E R st'"
    and "\<exists>r out st'. do_sysv_sem_close R st rq semid = Some (r, out, st') \<and> sysv_inv E R st'"
proof -
  have sinv: "sem_inv R (sv_sem st)" and wf: "conn_wf (sv_conns st)" and sl: "\<forall>s\<in>set (sleeping (sv_sem st)). sl_conn s = 0"
    using inv by (simp_all add: sysv_inv_def)
  note C = connect_wf [OF wf, of "sq_source rq" "sq_mailbox_port rq"]
  show "\<exists>r out st'. do_sysv_sem_get R priv st rq key flg = Some (r, out, st') \<and> sysv_inv E R st'"
  proof -
    obtain ret ss where g: "do_sem_get R priv (sv_sem st) key flg = (ret, ss)" by (cases "do_sem_get R priv (sv_sem st) key flg")
    have "sem_inv R ss" using sem_get_inv [OF R sinv, of priv key flg] g by simp
    moreover have "sleeping ss = sleeping (sv_sem st)"
      using g by (auto simp: do_sem_get_def sem_found_def split: if_splits option.splits)
    ultimately show ?thesis using g C disconnect_wf [OF C] inv
      by (cases ret) (simp_all add: do_sysv_sem_get_def Let_def case_prod_unfold sysv_inv_def)
  qed
  show "\<exists>r out st'. do_sysv_sem_close R st rq semid = Some (r, out, st') \<and> sysv_inv E R st'"
  proof -
    obtain ret ss where g: "do_sem_close R (sv_sem st) semid = (ret, ss)" by (cases "do_sem_close R (sv_sem st) semid")
    have "sem_inv R ss" using sem_close_inv [OF R sinv, of semid] g by simp
    moreover have "sleeping ss = sleeping (sv_sem st)"
      using g by (auto simp: do_sem_close_def Let_def split: if_splits)
    ultimately show ?thesis using g disconnect_wf [OF wf] inv
      by (cases ret) (simp_all add: do_sysv_sem_close_def Let_def sysv_inv_def)
  qed
qed

text \<open>
  An operation on a semaphore never sends a wake-up; whatever the component answers, the value passed
  on is zero.
\<close>

lemma sysv_sem_operate_eq:
  assumes inv: "sysv_inv E R st"
  shows "\<exists>st'. do_sysv_sem_operate K R st rq semid sops =
      Some (case fst (do_sem_operate R (sv_sem st) (c_int (fst (connect (sv_conns st) (sq_source rq) (sq_mailbox_port rq)))) semid (Some sops)) of
        Inl e \<Rightarrow> Inl e | Inr _ \<Rightarrow> Inr (if sq_source rq = 0 then 1 else 0), no_out, st') \<and> sysv_inv E R st' \<and>
      sv_sem st' = snd (do_sem_operate R (sv_sem st) (c_int (fst (connect (sv_conns st) (sq_source rq) (sq_mailbox_port rq)))) semid (Some sops))"
proof -
  have sinv: "sem_inv R (sv_sem st)" and wf: "conn_wf (sv_conns st)" and sl: "\<forall>s\<in>set (sleeping (sv_sem st)). sl_conn s = 0"
    using inv by (simp_all add: sysv_inv_def)
  obtain c ct where c: "connect (sv_conns st) (sq_source rq) (sq_mailbox_port rq) = (c, ct)"
    by (cases "connect (sv_conns st) (sq_source rq) (sq_mailbox_port rq)")
  obtain ret ss where o: "do_sem_operate R (sv_sem st) (c_int c) semid (Some sops) = (ret, ss)"
    by (cases "do_sem_operate R (sv_sem st) (c_int c) semid (Some sops)")
  have "c = Inr 0 \<or> isl c" using c by (auto simp: connect_def split: if_splits sum.splits option.splits)
  then have "c_int c \<le> 0" by (auto simp: c_int_def split: sum.splits)
  note S = sem_operate_conn [OF sl this, of R semid "Some sops", unfolded o fst_conv snd_conv]
  have "sem_inv R ss" using sem_operate_inv [OF sinv, of "c_int c" semid "Some sops"] o by simp
  moreover have "conn_wf ct" using connect_wf [OF wf, of "sq_source rq" "sq_mailbox_port rq"] c by simp
  ultimately show ?thesis using S inv o c
    by (cases ret) (auto simp: do_sysv_sem_operate_def Let_def sysv_inv_def)
qed


lemma sysv_handle_ok:
  assumes R: "resource_laws R" and inv: "sysv_inv E R st" and K: "mailboxes_up K" and P: "portals_up P" and h: "\<not> sysv_hazard E nproc st rq"
  shows "\<exists>r out st'. sysv_handle K P E R priv nproc st rq = Some (r, out, st') \<and> sysv_inv E R st'"
proof (cases "sq_op rq")
  case (SYSV_SHM_CREATE name oflags mode)
  with h sysv_shm_ok(2) [OF R inv] show ?thesis by (simp add: sysv_handle_def sysv_hazard_def)
next
  case (SYSV_SHM_OPEN name oflags)
  with h sysv_shm_ok(1) [OF R inv] show ?thesis by (simp add: sysv_handle_def sysv_hazard_def)
next
  case (SYSV_SHM_UNLINK name)
  with sysv_shm_rest_ok(1) [OF R inv] show ?thesis by (simp add: sysv_handle_def)
next
  case (SYSV_SHM_CLOSE shmid)
  moreover have "0 < conn_refs (sv_conns st) (sq_source rq, sq_mailbox_port rq)"
    using h SYSV_SHM_CLOSE conn_refs_nonneg [of "sv_conns st" "(sq_source rq, sq_mailbox_port rq)"] inv
    by (simp add: sysv_hazard_def sysv_inv_def)
  ultimately show ?thesis using sysv_shm_close_ok [OF R inv] by (simp add: sysv_handle_def)
next
  case (SYSV_SHM_FTRUNCATE shmid sz)
  with h sysv_shm_rest_ok(2) [OF R inv] show ?thesis by (simp add: sysv_handle_def sysv_hazard_def)
next
  case (SYSV_SHM_INVAL shmid page)
  with h sysv_shm_rest_ok(3) [OF R inv K] show ?thesis by (simp add: sysv_handle_def sysv_hazard_def)
next
  case (SYSV_MSG_GET key flg)
  with sysv_msg_ok(1) [OF R inv K P] show ?thesis by (simp add: sysv_handle_def)
next
  case (SYSV_MSG_CLOSE msgid)
  with sysv_msg_ok(2) [OF R inv K P] show ?thesis by (simp add: sysv_handle_def)
next
  case (SYSV_MSG_SEND msgid sz flg)
  with h sysv_msg_ok(3) [OF R inv K P] show ?thesis by (simp add: sysv_handle_def sysv_hazard_def)
next
  case (SYSV_MSG_RECEIVE msgid sz mtype flg)
  with sysv_msg_ok(4) [OF R inv K P] show ?thesis by (simp add: sysv_handle_def)
next
  case (SYSV_SEM_GET key flg)
  with sysv_sem_ok(1) [OF R inv] show ?thesis by (simp add: sysv_handle_def)
next
  case (SYSV_SEM_CLOSE semid)
  with sysv_sem_ok(2) [OF R inv] show ?thesis by (simp add: sysv_handle_def)
next
  case (SYSV_SEM_OPERATE semid sops)
  obtain st' where "do_sysv_sem_operate K R st rq semid sops =
      Some (case fst (do_sem_operate R (sv_sem st) (c_int (fst (connect (sv_conns st) (sq_source rq) (sq_mailbox_port rq)))) semid (Some sops)) of
        Inl e \<Rightarrow> Inl e | Inr _ \<Rightarrow> Inr (if sq_source rq = 0 then 1 else 0), no_out, st')" "sysv_inv E R st'"
    using sysv_sem_operate_eq [OF inv, of K rq semid sops] by (elim exE conjE)
  with SYSV_SEM_OPERATE show ?thesis by (simp add: sysv_handle_def)
qed (use inv in \<open>simp_all add: sysv_handle_def\<close>)

lemma sysv_step_handle:
  assumes "mailboxes_up K" "sysv_handle K P E R priv nproc st rq = Some (r, out, st')"
  shows "sysv_step K P E R priv nproc st rq =
    Some (st', if sysv_replies (sq_op rq) r then Some r else None, out, \<not> sysv_replies (sq_op rq) r \<and> sq_op rq = SYSV_EXIT)"
  using assms by (simp add: sysv_step_def mailbox_send_up)

section \<open>A start state\<close>

definition sem_static :: "flags sem_state" where
  "sem_static = \<lparr>semaphores = replicate NANVIX_SEM_MAX \<lparr>sem_resource = plain_clear, sem_owner = 0, sem_key = 0, sem_refcount = 0,
     sem_mode = 0, sem_val = 0\<rparr>, sleeping = replicate NANVIX_SEM_MAX \<lparr>sl_conn = 0, sl_semid = 0, sl_val = 0\<rparr>\<rparr>"

definition sysv_static :: "(flags, 64 word) sysv" where
  "sysv_static = \<lparr>sv_inportal = -1, sv_conns = connections_setup 4, sv_msg = msg_static, sv_sem = sem_static,
     sv_shm = shm_init plain_resource shm_static\<rparr>"

definition sysv_booted :: "(flags, 64 word) sysv" where
  "sysv_booted = snd (do_sysv_server_startup plain_resource 4 0 (Inr 0) sysv_static)"

lemma sysv_startup_inv:
  assumes "resource_laws R" "length (semaphores (sv_sem st)) = NANVIX_SEM_MAX" "length (mqueues (sv_msg st)) = NANVIX_MSG_MAX"
    "length (buffers (sv_msg st)) = NANVIX_MSG_MAX" "length (msgnull (sv_msg st)) = NANVIX_MSG_SIZE_MAX" "shm_inv E R (sv_shm st)"
    "\<forall>s\<in>set (sleeping (sv_sem st)). sl_conn s = 0" "do_sysv_server_startup R nproc port (Inr v) st = (Inr 0, st')"
  shows "sysv_inv E R st'"
  using assms msg_inv_init(1) [OF assms(1,3,4,5)] sem_inv_init [OF assms(1,2)]
  by (auto simp: do_sysv_server_startup_def Let_def sysv_inv_def conn_wf_setup do_sem_init_def)

lemma sysv_booted_inv [simp]: "sysv_inv rmem_env_ideal plain_resource sysv_booted"
  by (rule sysv_startup_inv [of _ sysv_static _ 4 0 0])
    (simp_all add: sysv_static_def sem_static_def msg_static_def sysv_booted_def do_sysv_server_startup_def Let_def)

section \<open>Properties\<close>

text \<open>
  C7. With working mailboxes and portals, from any state satisfying the invariant the System V server handles
  every request that is not one of the five dangerous ones: it does not abort and the tables of
  connections, queues, semaphores and regions satisfy their invariants afterwards. The counter of a semaphore
  is some \<open>int\<close>: nothing bounds it, and increments that pass the largest value wrap.
\<close>

theorem sysv_server_survives:
  assumes "resource_laws R" "sysv_inv E R st" "mailboxes_up K" "portals_up P" "\<not> sysv_hazard E nproc st rq"
  shows "\<exists>st' rep out sd. sysv_step K P E R priv nproc st rq = Some (st', rep, out, sd) \<and> sysv_inv E R st'"
  using sysv_handle_ok [OF assms, of priv] sysv_step_handle [OF assms(3)] by metis

theorem sysv_server_survives_witness:
  "\<exists>st' rep out sd. sysv_step kmailbox_ideal ones_portal rmem_env_ideal plain_resource (-1) 4 sysv_booted
     \<lparr>sq_source = 3, sq_mailbox_port = 0, sq_portal_port = 0, sq_op = SYSV_MSG_SEND 0 256 ipc_nowait\<rparr> = Some (st', rep, out, sd) \<and>
     sysv_inv rmem_env_ideal plain_resource st'"
  by (rule sysv_server_survives) (simp_all add: sysv_hazard_def NANVIX_MSG_SIZE_MAX_def)

text \<open>
  No client waits on a semaphore. When \<open>do_sem_operate\<close> does not fail, whether it completed the operation or
  recorded the client as a sleeper, the server answers a client on any node but node zero at once that the
  operation is complete, answers a client on node zero never, and wakes nobody.
\<close>

theorem sysv_sem_never_waits:
  assumes "sysv_inv E R st" "mailboxes_up K" "conn_room (sv_conns st) (sq_source rq, sq_mailbox_port rq)"
    and "sq_op rq = SYSV_SEM_OPERATE semid sops" "do_sem_operate R (sv_sem st) 0 semid (Some sops) = (Inr v, ss)"
  shows "\<exists>st'. sysv_step K P E R priv nproc st rq =
    Some (st', if sq_source rq = 0 then None else Some (Inr 0), no_out, False) \<and> sv_sem st' = ss"
proof -
  have "conn_wf (sv_conns st)" using assms(1) by (simp add: sysv_inv_def)
  then have c: "fst (connect (sv_conns st) (sq_source rq) (sq_mailbox_port rq)) = Inr 0" using assms(3) by (rule connect_refs)
  obtain st' where "do_sysv_sem_operate K R st rq semid sops = Some (Inr (if sq_source rq = 0 then 1 else 0), no_out, st')" "sv_sem st' = ss"
    using sysv_sem_operate_eq [OF assms(1), of K rq semid sops] unfolding c by (auto simp: c_int_def assms(5))
  then have "sysv_handle K P E R priv nproc st rq = Some (Inr (if sq_source rq = 0 then 1 else 0), no_out, st')"
    using assms(4) by (simp add: sysv_handle_def)
  from sysv_step_handle [OF assms(2) this] \<open>sv_sem st' = ss\<close> assms(4) show ?thesis
    by (auto simp: sysv_replies_def c_int_def)
qed

text \<open>
  A client can stop the server. Closing a region that is open elsewhere needs no connection, but the server
  asserts that the client has one: the request of a client without a connection aborts it.
\<close>

theorem sysv_close_aborts:
  assumes "resource_laws R" "sysv_inv E R st" "conn_refs (sv_conns st) (sq_source rq, sq_mailbox_port rq) = 0"
    and "sq_op rq = SYSV_SHM_CLOSE shmid" "nanvix_shm_is_valid shmid"
    and "resource_is_used R (rg_resource (regions (sv_shm st) ! nat shmid))" "rg_refcount (regions (sv_shm st) ! nat shmid) \<noteq> 0"
  shows "sysv_step K P E R priv nproc st rq = None"
proof -
  have inv: "shm_inv E R (sv_shm st)" and wf: "conn_wf (sv_conns st)" using assms(2) by (simp_all add: sysv_inv_def)
  obtain r shm where c: "do_shm_close E R (sv_shm st) (sq_source rq) shmid = Some (r, shm)"
    using shm_close_spec [OF assms(1) inv, of "sq_source rq" shmid] by blast
  then have "r = Inr 0"
    using assms(5-7) by (auto simp: do_shm_close_def shm_put_def Let_def bind_eq_Some_conv split: if_splits)
  with c disconnect_failure [OF wf, of "sq_source rq" "sq_mailbox_port rq"] assms(3) have "sysv_shm_close E R st rq shmid = None"
    by (simp add: sysv_shm_close_def Let_def)
  then show ?thesis using assms(4) by (simp add: sysv_step_def sysv_handle_def)
qed

theorem sysv_close_aborts_witness:
  "sysv_step kmailbox_ideal ones_portal rmem_env_ideal plain_resource (-1) 4 (sysv_booted\<lparr>sv_shm := shm_dying\<rparr>)
     \<lparr>sq_source = 7, sq_mailbox_port = 0, sq_portal_port = 0, sq_op = SYSV_SHM_CLOSE 0\<rparr> = None"
proof (rule sysv_close_aborts [where shmid = 0, OF plain_resource_laws, of rmem_env_ideal])
  show "sysv_inv rmem_env_ideal plain_resource (sysv_booted\<lparr>sv_shm := shm_dying\<rparr>)"
    using sysv_booted_inv shm_dying_inv by (simp add: sysv_inv_def)
qed (simp_all add: sysv_booted_def do_sysv_server_startup_def Let_def conn_refs_setup nanvix_shm_is_valid_def NANVIX_SHM_MAX_def
    shm_dying_def shm_init_def shm_static_def plain_clear_def)

definition sysv_one_sem :: "(flags, 64 word) sysv" where
  "sysv_one_sem = sysv_booted\<lparr>sv_sem := snd (do_sem_get plain_resource (-1) (sv_sem sysv_booted) 100 ipc_creat)\<rparr>"

theorem sysv_sem_never_waits_witness:
  "\<exists>st'. sysv_step kmailbox_ideal ones_portal rmem_env_ideal plain_resource (-1) 4 sysv_one_sem
     \<lparr>sq_source = 3, sq_mailbox_port = 0, sq_portal_port = 0, sq_op = SYSV_SEM_OPERATE 0 \<lparr>sem_op = -1, sem_flg = ipc_block\<rparr>\<rparr> =
     Some (st', Some (Inr 0), no_out, False)"
proof -
  let ?rq = "\<lparr>sq_source = 3, sq_mailbox_port = 0, sq_portal_port = 0, sq_op = SYSV_SEM_OPERATE 0 \<lparr>sem_op = -1, sem_flg = ipc_block\<rparr>\<rparr> :: 64 word sysv_message"
  let ?ss = "sv_sem sysv_booted"
  have inv: "sysv_inv rmem_env_ideal plain_resource sysv_one_sem"
  proof -
    have i: "sem_inv plain_resource ?ss" using sysv_booted_inv by (simp add: sysv_inv_def)
    from sem_get_inv [OF plain_resource_laws i] have "sem_inv plain_resource (snd (do_sem_get plain_resource (-1) ?ss 100 ipc_creat))" .
    moreover have "sleeping (snd (do_sem_get plain_resource (-1) ?ss 100 ipc_creat)) = sleeping ?ss"
      by (auto simp: do_sem_get_def sem_found_def split: option.split)
    ultimately show ?thesis using sysv_booted_inv by (simp add: sysv_one_sem_def sysv_inv_def)
  qed
  have sem: "semaphores ?ss = replicate NANVIX_SEM_MAX \<lparr>sem_resource = plain_clear, sem_owner = 0, sem_key = 0, sem_refcount = 0, sem_mode = 0, sem_val = 0\<rparr>"
    by (simp add: sysv_booted_def do_sysv_server_startup_def Let_def do_sem_init_def sysv_static_def sem_static_def)
  have one: "semaphores (sv_sem sysv_one_sem) ! 0 = \<lparr>sem_resource = plain_clear\<lparr>f_used := True\<rparr>, sem_owner = 0, sem_key = 100, sem_refcount = 1, sem_mode = 0, sem_val = 0\<rparr>"
    by (simp add: sysv_one_sem_def do_sem_get_def sem ipc_creat_def NANVIX_SEM_MAX_def first_index_replicate plain_alloc_def plain_clear_def sem_found_def sem_update_def)
  have "conn_room (sv_conns sysv_one_sem) (3, 0)"
    by (simp add: sysv_one_sem_def sysv_booted_def do_sysv_server_startup_def Let_def conn_room_def connections_setup_def
        NANVIX_CONNECTIONS_MAX_def exI [of _ 0])
  moreover obtain ss where "do_sem_operate plain_resource (sv_sem sysv_one_sem) 0 0 (Some \<lparr>sem_op = -1, sem_flg = ipc_block\<rparr>) = (Inr 0, ss)"
    by (simp add: do_sem_operate_def semid_is_valid_def NANVIX_SEM_MAX_def one ipc_block_def add_int_exact)
  ultimately show ?thesis
    using sysv_sem_never_waits [OF inv kmailbox_ideal_up, of ?rq 0 "\<lparr>sem_op = -1, sem_flg = ipc_block\<rparr>" 0 ss ones_portal "-1" 4] by auto
qed

end
