(* ===== verification/SysVClient.thy ===== *)
theory SysVClient
  imports SysV Channel
begin

text \<open>
  The clients of the System V server, \<open>src/libruntime/pm/sysv/sysv.c\<close>, \<open>sem.c\<close> and \<open>msg.c\<close>, together with the server: a call checks its
  arguments, sends a request over its channel, the server handles it with \<^term>\<open>sysv_step\<close>, and the call reads the reply from the standard
  inbox. A failed assertion and a call that gets no reply are \<open>None\<close>.
\<close>

section \<open>State\<close>

record ('r, 'p) sysv_world =
  sw_client :: channel
  sw_pm :: "'r pm"
  sw_server :: "('r, 'p) sysv"
  sw_alive :: bool

text \<open>
  The environment: the named connectors, the port of the server, the bytes of a message, the kernel and the remote memory as the server sees
  them, whether the client's own reads succeed, and whether a thread can be created.
\<close>

record 'p sysv_env =
  se_pm :: pm_env
  se_port :: int
  se_bytes :: "'p sysv_message \<Rightarrow> byte list"
  se_mailbox :: kmailbox
  se_portal :: "byte list \<Rightarrow> kportal"
  se_rmem :: "'p rmem_env"
  se_priv :: int
  se_nproc :: nat
  se_mread_ok :: bool
  se_pallow_ok :: bool
  se_pread_ok :: bool
  se_thread_ok :: bool

definition SYSV_SERVER_NAME :: string where "SYSV_SERVER_NAME = ''/sysv''"

definition nanvix_sysv_is_initialized :: "('r, 'p) sysv_world \<Rightarrow> bool" where
  "nanvix_sysv_is_initialized w = ch_initialized (sw_client w)"

definition nanvix_sysv_outbox :: "('r, 'p) sysv_world \<Rightarrow> int" where
  "nanvix_sysv_outbox w = ch_outbox (sw_client w)"

definition nanvix_sysv_outportal :: "('r, 'p) sysv_world \<Rightarrow> int" where
  "nanvix_sysv_outportal w = ch_outportal (sw_client w)"

section \<open>Requests\<close>

text \<open>The header fields are 16 and 8 bits wide.\<close>

definition sysv_request :: "'p sysv_env \<Rightarrow> int \<Rightarrow> 'p sysv_op \<Rightarrow> 'p sysv_message" where
  "sysv_request C pport op =
     \<lparr>sq_source = take_bit 16 (ne_node (pe_name (se_pm C))), sq_mailbox_port = take_bit 8 (ne_inbox_port (pe_name (se_pm C))),
      sq_portal_port = take_bit 8 pport, sq_op = op\<rparr>"

definition sysv_std :: "'p sysv_env \<Rightarrow> 'p sysv_op \<Rightarrow> 'p sysv_message" where
  "sysv_std C op = sysv_request C (ne_inportal_port (pe_name (se_pm C))) op"

text \<open>Send a request, with \<open>data\<close> on the way through the portal, and read the reply: its status and the rest of it.\<close>

definition sysv_call :: "'w :: len word sysv_env \<Rightarrow> 'r resource_ops \<Rightarrow> ('r, 'w word) sysv_world \<Rightarrow> byte list \<Rightarrow> 'w word sysv_message \<Rightarrow>
    (int result \<times> 'w word sysv_out \<times> ('r, 'w word) sysv_world) option" where
  "sysv_call C R w data msg =
     do { channel_send (se_pm C) R (sw_pm w) (sw_client w) (se_bytes C msg);
          uassert (sw_alive w);
          let P = channel_portal (se_pm C) R (sw_pm w) (sw_client w) (se_portal C data);
          (srv, rep, out, _) \<leftarrow> sysv_step (se_mailbox C) P (se_rmem C) R (se_priv C) (se_nproc C) (sw_server w) msg;
          r \<leftarrow> rep;
          uassert (se_mread_ok C);
          Some (r, out, w\<lparr>sw_server := srv\<rparr>) }"

text \<open>The identifier of a reply, unless its status is an error.\<close>

definition sysv_ipcid :: "(int result \<times> 'p sysv_out \<times> ('r, 'p) sysv_world) \<Rightarrow> (int result \<times> ('r, 'p) sysv_world) option" where
  "sysv_ipcid = (\<lambda>(r, out, w). case r of Inl e \<Rightarrow> Some (Inl e, w) | Inr _ \<Rightarrow> do { i \<leftarrow> so_ipcid out; Some (Inr i, w) })"

section \<open>Semaphores\<close>

definition do_nanvix_semget :: "'w :: len word sysv_env \<Rightarrow> 'r resource_ops \<Rightarrow> ('r, 'w word) sysv_world \<Rightarrow> int \<Rightarrow> ipc_flags \<Rightarrow>
    (int result \<times> ('r, 'w word) sysv_world) option" where
  "do_nanvix_semget C R w key semflg =
     (if \<not> nanvix_sysv_is_initialized w then Some (Inl EAGAIN, w)
      else do { x \<leftarrow> sysv_call C R w [] (sysv_std C (SYSV_SEM_GET key semflg)); sysv_ipcid x })"

definition nanvix_semget :: "'w :: len word sysv_env \<Rightarrow> 'r resource_ops \<Rightarrow> ('r, 'w word) sysv_world \<Rightarrow> int \<Rightarrow> ipc_flags \<Rightarrow>
    (int result \<times> ('r, 'w word) sysv_world) option" where
  "nanvix_semget C R w key semflg = do_nanvix_semget C R w key semflg"

definition do_nanvix_sem_close :: "'w :: len word sysv_env \<Rightarrow> 'r resource_ops \<Rightarrow> ('r, 'w word) sysv_world \<Rightarrow> int \<Rightarrow>
    (int result \<times> ('r, 'w word) sysv_world) option" where
  "do_nanvix_sem_close C R w semid =
     (if \<not> nanvix_sysv_is_initialized w then Some (Inl EAGAIN, w)
      else do { (r, _, w') \<leftarrow> sysv_call C R w [] (sysv_std C (SYSV_SEM_CLOSE semid)); Some (r, w') })"

definition nanvix_sem_close :: "'w :: len word sysv_env \<Rightarrow> 'r resource_ops \<Rightarrow> ('r, 'w word) sysv_world \<Rightarrow> int \<Rightarrow>
    (int result \<times> ('r, 'w word) sysv_world) option" where
  "nanvix_sem_close C R w semid = (if \<not> semid_is_valid semid then Some (Inl EINVAL, w) else do_nanvix_sem_close C R w semid)"

definition do_nanvix_semop :: "'w :: len word sysv_env \<Rightarrow> 'r resource_ops \<Rightarrow> ('r, 'w word) sysv_world \<Rightarrow> int \<Rightarrow> sembuf \<Rightarrow>
    (int result \<times> ('r, 'w word) sysv_world) option" where
  "do_nanvix_semop C R w semid sops =
     (if \<not> nanvix_sysv_is_initialized w then Some (Inl EAGAIN, w)
      else do { (r, _, w') \<leftarrow> sysv_call C R w [] (sysv_std C (SYSV_SEM_OPERATE semid sops)); Some (r, w') })"

definition nanvix_semop :: "'w :: len word sysv_env \<Rightarrow> 'r resource_ops \<Rightarrow> ('r, 'w word) sysv_world \<Rightarrow> int \<Rightarrow> sembuf option \<Rightarrow> nat \<Rightarrow>
    (int result \<times> ('r, 'w word) sysv_world) option" where
  "nanvix_semop C R w semid sops nsops =
     (if \<not> semid_is_valid semid then Some (Inl EINVAL, w)
      else case sops of
        None \<Rightarrow> Some (Inl EINVAL, w)
      | Some b \<Rightarrow> if nsops \<noteq> 1 then Some (Inl EINVAL, w) else do_nanvix_semop C R w semid b)"

section \<open>Message queues\<close>

definition do_nanvix_msg_get :: "'w :: len word sysv_env \<Rightarrow> 'r resource_ops \<Rightarrow> ('r, 'w word) sysv_world \<Rightarrow> int \<Rightarrow> ipc_flags \<Rightarrow>
    (int result \<times> ('r, 'w word) sysv_world) option" where
  "do_nanvix_msg_get C R w key msgflg =
     (if \<not> nanvix_sysv_is_initialized w then Some (Inl EAGAIN, w)
      else do { x \<leftarrow> sysv_call C R w [] (sysv_std C (SYSV_MSG_GET key msgflg)); sysv_ipcid x })"

definition nanvix_msg_get :: "'w :: len word sysv_env \<Rightarrow> 'r resource_ops \<Rightarrow> ('r, 'w word) sysv_world \<Rightarrow> int \<Rightarrow> ipc_flags \<Rightarrow>
    (int result \<times> ('r, 'w word) sysv_world) option" where
  "nanvix_msg_get C R w key msgflg = do_nanvix_msg_get C R w key msgflg"

definition do_nanvix_msg_close :: "'w :: len word sysv_env \<Rightarrow> 'r resource_ops \<Rightarrow> ('r, 'w word) sysv_world \<Rightarrow> int \<Rightarrow>
    (int result \<times> ('r, 'w word) sysv_world) option" where
  "do_nanvix_msg_close C R w msgid =
     (if \<not> nanvix_sysv_is_initialized w then Some (Inl EAGAIN, w)
      else do { (r, _, w') \<leftarrow> sysv_call C R w [] (sysv_std C (SYSV_MSG_CLOSE msgid)); Some (r, w') })"

definition nanvix_msg_close :: "'w :: len word sysv_env \<Rightarrow> 'r resource_ops \<Rightarrow> ('r, 'w word) sysv_world \<Rightarrow> int \<Rightarrow>
    (int result \<times> ('r, 'w word) sysv_world) option" where
  "nanvix_msg_close C R w msgid = (if \<not> msgid_is_valid msgid then Some (Inl EINVAL, w) else do_nanvix_msg_close C R w msgid)"

text \<open>
  The port in the header is the one that the kernel gives for the identifier of the named portal, taken for a portal of the kernel (\<open>kcomm_get_port\<close>).
  The server reads the portal while it handles the request, so the bytes written are an argument of \<^term>\<open>sysv_call\<close>; they arrive if the header
  names the port that they come from. A write that fails stops the client before it reads the reply.
\<close>

definition msg_send_port :: "'p sysv_env \<Rightarrow> ('r, 'p) sysv_world \<Rightarrow> int" where
  "msg_send_port C w = conn_code (pe_pport (se_pm C) (nanvix_sysv_outportal w))"

definition do_nanvix_msg_send :: "'w :: len word sysv_env \<Rightarrow> 'r resource_ops \<Rightarrow> ('r, 'w word) sysv_world \<Rightarrow> int \<Rightarrow> byte list \<Rightarrow> nat \<Rightarrow> ipc_flags \<Rightarrow>
    (int result \<times> ('r, 'w word) sysv_world) option" where
  "do_nanvix_msg_send C R w msgid msgp msgsz msgflg =
     (if \<not> nanvix_sysv_is_initialized w then Some (Inl EAGAIN, w)
      else do {
        uassert (msgsz \<le> length msgp);
        let data = take msgsz msgp;
        (r, _, w') \<leftarrow> sysv_call C R w data (sysv_request C (msg_send_port C w) (SYSV_MSG_SEND msgid msgsz msgflg));
        sent \<leftarrow> channel_put (se_pm C) R (sw_pm w) (sw_client w) data;
        uassert (sent = Inr (int msgsz));
        Some (r, w') })"

definition nanvix_msg_send :: "'w :: len word sysv_env \<Rightarrow> 'r resource_ops \<Rightarrow> ('r, 'w word) sysv_world \<Rightarrow> int \<Rightarrow> byte list option \<Rightarrow> nat \<Rightarrow> ipc_flags \<Rightarrow>
    (int result \<times> ('r, 'w word) sysv_world) option" where
  "nanvix_msg_send C R w msgid msgp msgsz msgflg =
     (if \<not> msgid_is_valid msgid then Some (Inl EINVAL, w)
      else case msgp of
        None \<Rightarrow> Some (Inl EINVAL, w)
      | Some m \<Rightarrow> if msgsz \<noteq> NANVIX_MSG_SIZE_MAX then Some (Inl EINVAL, w) else do_nanvix_msg_send C R w msgid m msgsz msgflg)"

text \<open>The bytes stored in the caller's buffer are the second component. A refused request has no acknowledgement and no data.\<close>

definition do_nanvix_msg_receive :: "'w :: len word sysv_env \<Rightarrow> 'r resource_ops \<Rightarrow> ('r, 'w word) sysv_world \<Rightarrow> int \<Rightarrow> nat \<Rightarrow> int \<Rightarrow> ipc_flags \<Rightarrow>
    (int result \<times> byte list \<times> ('r, 'w word) sysv_world) option" where
  "do_nanvix_msg_receive C R w msgid msgsz msgtyp msgflg =
     (if \<not> nanvix_sysv_is_initialized w then Some (Inl EAGAIN, [], w)
      else do {
        (r, out, w') \<leftarrow> sysv_call C R w [] (sysv_std C (SYSV_MSG_RECEIVE msgid msgsz msgtyp msgflg));
        case so_data out of
          None \<Rightarrow> Some (r, [], w')
        | Some data \<Rightarrow> do { uassert (se_pallow_ok C); uassert (se_pread_ok C); Some (r, data, w') } })"

definition nanvix_msg_receive :: "'w :: len word sysv_env \<Rightarrow> 'r resource_ops \<Rightarrow> ('r, 'w word) sysv_world \<Rightarrow> int \<Rightarrow> bool \<Rightarrow> nat \<Rightarrow> int \<Rightarrow> ipc_flags \<Rightarrow>
    (int result \<times> byte list \<times> ('r, 'w word) sysv_world) option" where
  "nanvix_msg_receive C R w msgid null msgsz msgtyp msgflg =
     (if \<not> msgid_is_valid msgid then Some (Inl EINVAL, [], w)
      else if null then Some (Inl EINVAL, [], w)
      else if msgsz \<noteq> NANVIX_MSG_SIZE_MAX then Some (Inl EINVAL, [], w)
      else do_nanvix_msg_receive C R w msgid msgsz msgtyp msgflg)"

section \<open>Set-up\<close>

text \<open>The request to exit has no reply: the server handles it, if it has not left its loop, and leaves the loop when the request says so.\<close>

definition nanvix_sysv_shutdown :: "'w :: len word sysv_env \<Rightarrow> 'r resource_ops \<Rightarrow> ('r, 'w word) sysv_world \<Rightarrow> (int result \<times> ('r, 'w word) sysv_world) option" where
  "nanvix_sysv_shutdown C R w =
     (if \<not> nanvix_sysv_is_initialized w then Some (Inl EAGAIN, w)
      else do {
        let msg = sysv_std C SYSV_EXIT;
        channel_send (se_pm C) R (sw_pm w) (sw_client w) (se_bytes C msg);
        if \<not> sw_alive w then Some (Inr 0, w)
        else do {
          (srv, _, _, shutdown) \<leftarrow> sysv_step (se_mailbox C) (se_portal C []) (se_rmem C) R (se_priv C) (se_nproc C) (sw_server w) msg;
          Some (Inr 0, w\<lparr>sw_server := srv, sw_alive := \<not> shutdown\<rparr>) } })"

text \<open>The set-up of shared memory starts the snooper thread.\<close>

definition nanvix_shm_setup :: "'p sysv_env \<Rightarrow> ('r, 'p) sysv_world \<Rightarrow> int option" where
  "nanvix_shm_setup C w = (if nanvix_sysv_is_initialized w then Some 0 else do { uassert (se_thread_ok C); Some 0 })"

definition nanvix_sysv_setup :: "'p sysv_env \<Rightarrow> 'r resource_ops \<Rightarrow> ('r, 'p) sysv_world \<Rightarrow> (int result \<times> ('r, 'p) sysv_world) option" where
  "nanvix_sysv_setup C R w =
     (if nanvix_sysv_is_initialized w then Some (Inr 0, w)
      else do {
        (r, ch, st) \<leftarrow> channel_open (se_pm C) R (sw_pm w) (sw_client w) SYSV_SERVER_NAME (se_port C);
        let w1 = w\<lparr>sw_client := ch, sw_pm := st\<rparr>;
        if isl r then Some (r, w1)
        else do {
          nanvix_shm_setup C w1;
          Some (Inr 0, w1\<lparr>sw_client := ch\<lparr>ch_initialized := True\<rparr>\<rparr>) } })"

text \<open>The clean-up of shared memory does nothing.\<close>

definition nanvix_sysv_cleanup :: "'p sysv_env \<Rightarrow> 'r resource_ops \<Rightarrow> ('r, 'p) sysv_world \<Rightarrow> int result \<times> ('r, 'p) sysv_world" where
  "nanvix_sysv_cleanup C R w =
     (if \<not> nanvix_sysv_is_initialized w then (Inr 0, w)
      else let (r, st) = channel_close (se_pm C) R (sw_pm w) (sw_client w) in
        if isl r then (r, w\<lparr>sw_pm := st\<rparr>)
        else (Inr 0, w\<lparr>sw_client := (sw_client w)\<lparr>ch_initialized := False\<rparr>, sw_pm := st\<rparr>))"

section \<open>Every call returns\<close>

definition sysv_env_up :: "'w :: len word sysv_env \<Rightarrow> bool" where
  "sysv_env_up C \<longleftrightarrow> mailboxes_up (se_mailbox C) \<and> (\<forall>d. portals_up (se_portal C d)) \<and> (\<forall>d i. kportal_read (se_portal C d) i (length d) = d) \<and>
     pm_kernel_up (se_pm C) \<and> se_mread_ok C \<and> se_pallow_ok C \<and> se_pread_ok C \<and> se_thread_ok C"

definition sysv_world_up :: "'w :: len word sysv_env \<Rightarrow> 'r resource_ops \<Rightarrow> ('r, 'w word) sysv_world \<Rightarrow> bool" where
  "sysv_world_up C R w \<longleftrightarrow> nanvix_sysv_is_initialized w \<and> sw_alive w \<and> sysv_inv (se_rmem C) R (sw_server w) \<and> connected (se_pm C) R (sw_pm w) (sw_client w)"

lemma sysv_env_upD:
  assumes "sysv_env_up C"
  shows "mailboxes_up (se_mailbox C)" "portals_up (se_portal C d)" "kportal_read (se_portal C d) i (length d) = d" "pm_kernel_up (se_pm C)"
    "se_mread_ok C" "se_pallow_ok C" "se_pread_ok C" "se_thread_ok C"
  using assms by (auto simp: sysv_env_up_def)

lemma sysv_request_sel [simp]:
  "sq_op (sysv_request C p op) = op" "sq_source (sysv_request C p op) = take_bit 16 (ne_node (pe_name (se_pm C)))"
  "sq_mailbox_port (sysv_request C p op) = take_bit 8 (ne_inbox_port (pe_name (se_pm C)))"
  "sq_op (sysv_std C op) = op" "sq_source (sysv_std C op) = take_bit 16 (ne_node (pe_name (se_pm C)))"
  "sq_mailbox_port (sysv_std C op) = take_bit 8 (ne_inbox_port (pe_name (se_pm C)))"
  by (simp_all add: sysv_request_def sysv_std_def)

text \<open>
  The data of a send reaches the server when the header names the port of the channel; no other request depends on it. \<open>send_reaches\<close> says that the
  port which the client puts there is that one.
\<close>

definition sysv_reaches :: "'p sysv_env \<Rightarrow> 'r resource_ops \<Rightarrow> ('r, 'p) sysv_world \<Rightarrow> 'p sysv_message \<Rightarrow> bool" where
  "sysv_reaches C R w msg \<longleftrightarrow> sq_source msg = take_bit 16 (ne_node (pe_name (se_pm C))) \<and>
     (\<forall>i n f. sq_op msg = SYSV_MSG_SEND i n f \<longrightarrow> sq_portal_port msg = take_bit 8 (channel_port (se_pm C) R (sw_pm w) (sw_client w)))"

definition send_reaches :: "'p sysv_env \<Rightarrow> 'r resource_ops \<Rightarrow> ('r, 'p) sysv_world \<Rightarrow> bool" where
  "send_reaches C R w \<longleftrightarrow> take_bit 8 (msg_send_port C w) = take_bit 8 (channel_port (se_pm C) R (sw_pm w) (sw_client w))"

lemma sysv_std_reaches [simp]: "(\<And>i n f. op \<noteq> SYSV_MSG_SEND i n f) \<Longrightarrow> sysv_reaches C R w (sysv_std C op)"
  by (simp add: sysv_reaches_def)

lemma send_reaches_server [simp]: "send_reaches C R (w\<lparr>sw_server := srv\<rparr>) = send_reaches C R w"
  by (simp add: send_reaches_def msg_send_port_def nanvix_sysv_outportal_def)

lemma send_reaches_request [simp]: "send_reaches C R w \<Longrightarrow> sysv_reaches C R w (sysv_request C (msg_send_port C w) op)"
  by (simp add: sysv_reaches_def send_reaches_def sysv_request_def)

lemma sysv_handle_from:
  assumes "sysv_reaches C R w msg"
  shows "sysv_handle K (channel_portal (se_pm C) R (sw_pm w) (sw_client w) P) E R priv nproc st msg = sysv_handle K P E R priv nproc st msg"
  using assms by (cases "sq_op msg") (simp_all add: sysv_reaches_def sysv_handle_def do_sysv_msg_send_def do_sysv_msg_receive_def
      channel_portal_def portal_receive_from cong: sum.case_cong)

text \<open>A request that the server handles and answers comes back.\<close>

lemma sysv_call_handle:
  assumes "resource_laws R" "sysv_env_up C" "sysv_world_up C R w"
    and "sysv_handle (se_mailbox C) (se_portal C data) (se_rmem C) R (se_priv C) (se_nproc C) (sw_server w) msg = Some (r, out, srv)" "sysv_replies (sq_op msg) r"
    and "sysv_reaches C R w msg"
  shows "sysv_call C R w data msg = Some (r, out, w\<lparr>sw_server := srv\<rparr>)"
proof -
  have "channel_send (se_pm C) R (sw_pm w) (sw_client w) (se_bytes C msg) = Some ()"
    using channel_send_ok [OF assms(1) sysv_env_upD(4) [OF assms(2)]] assms(3) by (simp add: sysv_world_up_def)
  moreover have h: "sysv_handle (se_mailbox C) (channel_portal (se_pm C) R (sw_pm w) (sw_client w) (se_portal C data)) (se_rmem C) R (se_priv C) (se_nproc C)
    (sw_server w) msg = Some (r, out, srv)" unfolding sysv_handle_from [OF assms(6)] by (rule assms(4))
  ultimately show ?thesis using assms(3,5) sysv_step_handle [OF sysv_env_upD(1) [OF assms(2)] h]
    by (simp add: sysv_call_def sysv_world_up_def sysv_env_upD(5) [OF assms(2)])
qed

lemma sysv_put_ok:
  assumes "resource_laws R" "sysv_env_up C" "sysv_world_up C R w" "data \<noteq> []"
  shows "channel_put (se_pm C) R (sw_pm w) (sw_client w) data = Some (Inr (int (length data)))"
  using channel_put_ok [OF assms(1) sysv_env_upD(4) [OF assms(2)] _ assms(4)] assms(3) by (simp add: sysv_world_up_def)

lemma sysv_world_server: "sysv_world_up C R w \<Longrightarrow> sysv_inv (se_rmem C) R srv \<Longrightarrow> sysv_world_up C R (w\<lparr>sw_server := srv\<rparr>)"
  by (simp add: sysv_world_up_def nanvix_sysv_is_initialized_def)

lemma sysv_call_ok:
  assumes "resource_laws R" "sysv_env_up C" "sysv_world_up C R w" "\<not> sysv_hazard (se_rmem C) (se_nproc C) (sw_server w) msg"
    and "\<And>r. sysv_replies (sq_op msg) r \<or> sq_source msg \<noteq> 0 \<and> (\<exists>i b. sq_op msg = SYSV_SEM_OPERATE i b)" "sysv_reaches C R w msg"
  obtains r out srv where "sysv_call C R w data msg = Some (r, out, w\<lparr>sw_server := srv\<rparr>)" "sysv_world_up C R (w\<lparr>sw_server := srv\<rparr>)"
    "sysv_handle (se_mailbox C) (se_portal C data) (se_rmem C) R (se_priv C) (se_nproc C) (sw_server w) msg = Some (r, out, srv)"
proof -
  let ?h = "sysv_handle (se_mailbox C) (se_portal C data) (se_rmem C) R (se_priv C) (se_nproc C) (sw_server w) msg"
  have inv: "sysv_inv (se_rmem C) R (sw_server w)" using assms(3) by (simp add: sysv_world_up_def)
  obtain r out srv where h: "?h = Some (r, out, srv)" "sysv_inv (se_rmem C) R srv"
    using sysv_handle_ok [OF assms(1) inv sysv_env_upD(1,2) [OF assms(2)] assms(4)] by blast
  have rep: "sysv_replies (sq_op msg) r"
  proof (cases "sq_source msg \<noteq> 0 \<and> (\<exists>i b. sq_op msg = SYSV_SEM_OPERATE i b)")
    case True
    then obtain i b where op: "sq_source msg \<noteq> 0" "sq_op msg = SYSV_SEM_OPERATE i b" by blast
    have "do_sysv_sem_operate (se_mailbox C) R (sw_server w) msg i b = Some (r, out, srv)" using h(1) op(2) by (simp add: sysv_handle_def)
    with sysv_sem_operate_eq [OF inv, of "se_mailbox C" msg i b] op show ?thesis by (auto simp: sysv_replies_def c_int_def split: sum.splits)
  next
    case False
    with assms(5) [of r] show ?thesis by blast
  qed
  from sysv_call_handle [OF assms(1-3) h(1) rep assms(6)] sysv_world_server [OF assms(3) h(2)] h(1) show thesis by (rule that)
qed

lemma sysv_get_ipcid:
  assumes "do_sysv_msg_get R priv st rq key flg = Some (r, out, st') \<or> do_sysv_sem_get R priv st rq key flg = Some (r, out, st')"
  shows "case r of Inl _ \<Rightarrow> True | Inr i \<Rightarrow> so_ipcid out = Some i"
  using assms by (auto simp: do_sysv_msg_get_def do_sysv_sem_get_def Let_def case_prod_unfold split: sum.splits)

section \<open>Queues through the client\<close>

abbreviation world_queue :: "('r, 'p) sysv_world \<Rightarrow> nat \<Rightarrow> byte list list" where
  "world_queue w i \<equiv> queue_contents (sv_msg (sw_server w)) i"

definition queue_up :: "'w :: len word sysv_env \<Rightarrow> 'r resource_ops \<Rightarrow> nat \<Rightarrow> ('r, 'w word) sysv_world \<Rightarrow> bool" where
  "queue_up C R i w \<longleftrightarrow> sysv_world_up C R w \<and> queue_open R i (sv_msg (sw_server w))"

lemma queue_upD:
  assumes "queue_up C R i w"
  shows "sysv_world_up C R w" "queue_open R i (sv_msg (sw_server w))" "sysv_inv (se_rmem C) R (sw_server w)" "msg_inv R (sv_msg (sw_server w))" "nanvix_sysv_is_initialized w"
  using assms by (auto simp: queue_up_def sysv_world_up_def dest: queue_openD(1))

lemma queue_up_msg:
  "queue_up C R i w \<Longrightarrow> queue_open R i ms \<Longrightarrow> queue_up C R i (w\<lparr>sw_server := (sw_server w)\<lparr>sv_msg := ms\<rparr>\<rparr>)"
  by (simp add: queue_up_def sysv_world_up_def sysv_inv_def nanvix_sysv_is_initialized_def queue_openD(1))

lemma queue_send_eq:
  assumes "queue_open R i st" "length m = NANVIX_MSG_SIZE_MAX"
  shows "if length (queue_contents st i) = NANVIX_MSG_LENGTH_MAX
    then do_msg_send R st (int i) False (length m) ipc_nowait = Some (Inl EAGAIN, Some NullMsg, st)
    else \<exists>ref st1 st2. do_msg_send R st (int i) False (length m) ipc_nowait = Some (Inr 0, Some ref, st1) \<and> msg_store st1 ref m = Some st2 \<and>
      queue_send R i st m = Some st2"
proof (cases "length (queue_contents st i) = NANVIX_MSG_LENGTH_MAX")
  case True
  have "fst (msgbuf_put (buffers st ! i)) = Inl EINVAL \<or> (\<exists>e. fst (msgbuf_put (buffers st ! i)) = Inl e)"
    using True by (auto simp: queue_contents_def mb_contents_length msgbuf_put_def)
  then have "\<exists>e b. msgbuf_put (buffers st ! i) = (Inl e, b)" by (metis prod.collapse)
  with True show ?thesis using do_msg_send_open [OF assms] by auto
next
  case False
  then have room: "length (queue_contents st i) < NANVIX_MSG_LENGTH_MAX" using queue.contents_bound [OF assms(1)] by simp
  obtain st2 where st2: "queue_send R i st m = Some st2" using queue.put_room [OF assms room] by blast
  then obtain v ref st1 where "do_msg_send R st (int i) False (length m) ipc_nowait = Some (Inr v, Some ref, st1)" "msg_store st1 ref m = Some st2"
    by (auto simp: queue_send_def split: option.splits sum.splits prod.splits)
  moreover from calculation(1) have "v = 0" using do_msg_send_open [OF assms] by (auto split: prod.splits sum.splits)
  ultimately show ?thesis using False st2 by auto
qed

lemma client_send:
  assumes "resource_laws R" "sysv_env_up C" "queue_up C R i w" "length m = NANVIX_MSG_SIZE_MAX" "send_reaches C R w"
  defines "full \<equiv> length (world_queue w i) = NANVIX_MSG_LENGTH_MAX"
  obtains w' where "nanvix_msg_send C R w (int i) (Some m) NANVIX_MSG_SIZE_MAX ipc_nowait = Some (if full then Inl EAGAIN else Inr 0, w')" "queue_up C R i w'"
    "world_queue w' i = world_queue w i @ (if full then [] else [m])" "\<forall>j. j \<noteq> i \<longrightarrow> world_queue w' j = world_queue w j"
    "send_reaches C R w'"
proof -
  note U = queue_upD [OF assms(3)]
  let ?ms = "sv_msg (sw_server w)" and ?rq = "sysv_request C (msg_send_port C w) (SYSV_MSG_SEND (int i) NANVIX_MSG_SIZE_MAX ipc_nowait)"
  have ne: "m \<noteq> []" using assms(4) by (auto simp: NANVIX_MSG_SIZE_MAX_def)
  have rd: "kportal_read (se_portal C m) (sv_inportal (sw_server w)) NANVIX_MSG_SIZE_MAX = m" using sysv_env_upD(3) [OF assms(2), of m] assms(4) by simp
  have "\<exists>ms. do_sysv_msg_send (se_portal C m) R (sw_server w) ?rq (int i) NANVIX_MSG_SIZE_MAX ipc_nowait =
      Some (if full then Inl EAGAIN else Inr 0, no_out, (sw_server w)\<lparr>sv_msg := ms\<rparr>) \<and> queue_open R i ms \<and>
      queue_contents ms i = world_queue w i @ (if full then [] else [m]) \<and> (\<forall>j. j \<noteq> i \<longrightarrow> queue_contents ms j = world_queue w j)"
  proof (cases full)
    case True
    have s: "do_msg_send R ?ms (int i) False NANVIX_MSG_SIZE_MAX ipc_nowait = Some (Inl EAGAIN, Some NullMsg, ?ms)"
      using queue_send_eq [OF U(2) assms(4)] True assms(4) by (simp add: full_def)
    obtain d where d: "copy_in (msgnull ?ms) 0 m = Some d" "length d = length (msgnull ?ms)"
      using U(4) assms(4) by (auto simp: msg_inv_def copy_in_def)
    then have "queue_open R i (?ms\<lparr>msgnull := d\<rparr>)" using U(2) by (simp add: queue_open_def msg_inv_def)
    then show ?thesis using s d(1) True
      by (auto simp: do_sysv_msg_send_def portal_receive_up [OF sysv_env_upD(2) [OF assms(2)]] rd msg_store_def queue_contents_def)
  next
    case False
    obtain ref st1 st2 where s: "do_msg_send R ?ms (int i) False NANVIX_MSG_SIZE_MAX ipc_nowait = Some (Inr 0, Some ref, st1)" "msg_store st1 ref m = Some st2"
      "queue_send R i ?ms m = Some st2"
      using queue_send_eq [OF U(2) assms(4)] False assms(4) by (auto simp: full_def)
    have "length (world_queue w i) < NANVIX_MSG_LENGTH_MAX" using queue.contents_bound [OF U(2)] False by (simp add: full_def)
    with queue.put_room [OF U(2) assms(4)] s(3) have "queue_open R i st2" "queue_contents st2 i = world_queue w i @ [m]" by auto
    with s False queue_ops_frame(1) [OF U(2) _ assms(4) s(3)] show ?thesis
      by (auto simp: do_sysv_msg_send_def portal_receive_up [OF sysv_env_upD(2) [OF assms(2)]] rd)
  qed
  then obtain ms where ms: "do_sysv_msg_send (se_portal C m) R (sw_server w) ?rq (int i) NANVIX_MSG_SIZE_MAX ipc_nowait =
      Some (if full then Inl EAGAIN else Inr 0, no_out, (sw_server w)\<lparr>sv_msg := ms\<rparr>)" "queue_open R i ms"
    "queue_contents ms i = world_queue w i @ (if full then [] else [m])" "\<forall>j. j \<noteq> i \<longrightarrow> queue_contents ms j = world_queue w j" by blast
  let ?w = "w\<lparr>sw_server := (sw_server w)\<lparr>sv_msg := ms\<rparr>\<rparr>"
  have "sysv_call C R w m ?rq = Some (if full then Inl EAGAIN else Inr 0, no_out, ?w)"
    by (rule sysv_call_handle [OF assms(1,2) U(1)]) (use ms(1) assms(5) in \<open>simp_all add: sysv_handle_def sysv_replies_def\<close>)
  then have "nanvix_msg_send C R w (int i) (Some m) NANVIX_MSG_SIZE_MAX ipc_nowait = Some (if full then Inl EAGAIN else Inr 0, ?w)"
    using assms(4) U(5) queue_openD(3) [OF U(2)] sysv_put_ok [OF assms(1,2) U(1) ne] by (simp add: nanvix_msg_send_def do_nanvix_msg_send_def Let_def)
  then show thesis by (rule that) (use ms queue_up_msg [OF assms(3) ms(2)] assms(5) in simp_all)
qed

lemma client_send_lost:
  assumes "\<not> send_reaches C R w" "nanvix_sysv_is_initialized w" "msgid_is_valid msgid"
  shows "nanvix_msg_send C R w msgid (Some m) NANVIX_MSG_SIZE_MAX flg = None"
proof -
  have "sysv_call C R w d (sysv_request C (msg_send_port C w) (SYSV_MSG_SEND msgid n flg)) = None" for d n
    using assms(1) by (simp add: sysv_call_def sysv_step_def sysv_handle_def do_sysv_msg_send_def channel_portal_def portal_receive_from
        sysv_request_def send_reaches_def Let_def split: bind_splits prod.splits)
  with assms(2,3) show ?thesis by (simp add: nanvix_msg_send_def do_nanvix_msg_send_def)
qed

lemma client_receive:
  assumes "resource_laws R" "sysv_env_up C" "queue_up C R i w"
  obtains r data w' where "nanvix_msg_receive C R w (int i) False NANVIX_MSG_SIZE_MAX typ ipc_nowait = Some (r, data, w')" "queue_up C R i w'"
    "(if world_queue w i = [] then isl r else r = Inr 0)" "world_queue w i = (if r = Inr 0 then [data] else []) @ world_queue w' i" "\<forall>j. j \<noteq> i \<longrightarrow> world_queue w' j = world_queue w j"
    "send_reaches C R w' = send_reaches C R w"
proof -
  note U = queue_upD [OF assms(3)]
  let ?ms = "sv_msg (sw_server w)" and ?rq = "sysv_std C (SYSV_MSG_RECEIVE (int i) NANVIX_MSG_SIZE_MAX typ ipc_nowait)"
  have any: "do_msg_receive R ?ms (int i) False NANVIX_MSG_SIZE_MAX typ ipc_nowait = do_msg_receive R ?ms (int i) False NANVIX_MSG_SIZE_MAX 0 ipc_nowait"
    by (simp add: do_msg_receive_open [OF U(2) refl])
  note call = sysv_call_handle [OF assms(1,2) U(1), where data = "[]" and msg = ?rq]
  note d = nanvix_msg_receive_def do_nanvix_msg_receive_def
  show thesis
  proof (cases "world_queue w i")
    case Nil
    obtain e b where "msgbuf_get (buffers ?ms ! i) = (Inl e, b)" using Nil queue.get_empty [OF U(2) Nil]
      by (metis mb_contents_length list.size(3) msgbuf_get_def prod.collapse queue_contents_def)
    then have "do_sysv_msg_receive (se_mailbox C) (se_portal C []) R (sw_server w) ?rq (int i) NANVIX_MSG_SIZE_MAX typ ipc_nowait = Some (Inl e, no_out, sw_server w)"
      by (simp add: do_sysv_msg_receive_def any do_msg_receive_open [OF U(2) refl])
    then have "sysv_call C R w [] ?rq = Some (Inl e, no_out, w\<lparr>sw_server := sw_server w\<rparr>)" by (intro call) (simp_all add: sysv_handle_def sysv_replies_def)
    then have "nanvix_msg_receive C R w (int i) False NANVIX_MSG_SIZE_MAX typ ipc_nowait = Some (Inl e, [], w)"
      using U(5) queue_openD(3) [OF U(2)] by (simp add: d no_out_def)
    then show thesis by (rule that) (use Nil assms(3) in simp_all)
  next
    case (Cons m ms)
    obtain st2 where r: "queue_receive R i ?ms = Some (m, st2)" "queue_open R i st2" "queue_contents st2 i = ms" using queue.get_first [OF U(2) Cons] by blast
    then obtain v ref where s: "do_msg_receive R ?ms (int i) False NANVIX_MSG_SIZE_MAX 0 ipc_nowait = Some (Inr v, Some ref, st2)" "msg_fetch st2 ref NANVIX_MSG_SIZE_MAX = Some m"
      by (auto simp: queue_receive_def split: option.splits sum.splits prod.splits)
    have "v = 0" using s(1) do_msg_receive_open [OF U(2) refl, of 0] by (auto split: prod.splits sum.splits)
    then have "do_sysv_msg_receive (se_mailbox C) (se_portal C []) R (sw_server w) ?rq (int i) NANVIX_MSG_SIZE_MAX typ ipc_nowait =
        Some (Inr 0, no_out\<lparr>so_data := Some m\<rparr>, (sw_server w)\<lparr>sv_msg := st2\<rparr>)"
      using s by (simp add: do_sysv_msg_receive_def any portal_reply_up [OF sysv_env_upD(1,2) [OF assms(2)]])
    then have "sysv_call C R w [] ?rq = Some (Inr 0, no_out\<lparr>so_data := Some m\<rparr>, w\<lparr>sw_server := (sw_server w)\<lparr>sv_msg := st2\<rparr>\<rparr>)"
      by (intro call) (simp_all add: sysv_handle_def sysv_replies_def)
    then have "nanvix_msg_receive C R w (int i) False NANVIX_MSG_SIZE_MAX typ ipc_nowait = Some (Inr 0, m, w\<lparr>sw_server := (sw_server w)\<lparr>sv_msg := st2\<rparr>\<rparr>)"
      using U(5) queue_openD(3) [OF U(2)] by (simp add: d sysv_env_upD(6,7) [OF assms(2)])
    then show thesis by (rule that) (use Cons r queue_up_msg [OF assms(3) r(2)] queue_ops_frame(2) [OF U(2) _ r(1)] in simp_all)
  qed
qed

text \<open>A history of sends and receives of one client on queue \<open>i\<close>: the messages accepted and the messages received.\<close>

fun client_history :: "'w :: len word sysv_env \<Rightarrow> 'r resource_ops \<Rightarrow> nat \<Rightarrow> ('r, 'w word) sysv_world \<Rightarrow> byte list queue_op list \<Rightarrow>
    (('r, 'w word) sysv_world \<times> byte list list \<times> byte list list) option" where
  "client_history C R i w [] = Some (w, [], [])"
| "client_history C R i w (Put m # ops) =
     do { (r, w1) \<leftarrow> nanvix_msg_send C R w (int i) (Some m) NANVIX_MSG_SIZE_MAX ipc_nowait;
          (w2, a, d) \<leftarrow> client_history C R i w1 ops;
          Some (w2, if r = Inr 0 then m # a else a, d) }"
| "client_history C R i w (Get # ops) =
     do { (r, data, w1) \<leftarrow> nanvix_msg_receive C R w (int i) False NANVIX_MSG_SIZE_MAX 0 ipc_nowait;
          (w2, a, d) \<leftarrow> client_history C R i w1 ops;
          Some (w2, a, if r = Inr 0 then data # d else d) }"

lemma client_history_order:
  assumes "resource_laws R" "sysv_env_up C"
  shows "queue_up C R i w \<Longrightarrow> \<forall>m. Put m \<in> set ops \<longrightarrow> length m = NANVIX_MSG_SIZE_MAX \<Longrightarrow> send_reaches C R w \<Longrightarrow>
    \<exists>w' a d. client_history C R i w ops = Some (w', a, d) \<and> queue_up C R i w' \<and> world_queue w i @ a = d @ world_queue w' i \<and>
      (\<forall>j. j \<noteq> i \<longrightarrow> world_queue w' j = world_queue w j)"
proof (induction ops arbitrary: w)
  case (Cons x ops)
  show ?case
  proof (cases x)
    case (Put m)
    have m: "length m = NANVIX_MSG_SIZE_MAX" using Cons.prems(2) Put by simp
    let ?full = "length (world_queue w i) = NANVIX_MSG_LENGTH_MAX"
    obtain w1 where s: "nanvix_msg_send C R w (int i) (Some m) NANVIX_MSG_SIZE_MAX ipc_nowait = Some (if ?full then Inl EAGAIN else Inr 0, w1)" "queue_up C R i w1"
      "world_queue w1 i = world_queue w i @ (if ?full then [] else [m])" "\<forall>j. j \<noteq> i \<longrightarrow> world_queue w1 j = world_queue w j" "send_reaches C R w1"
      by (rule client_send [OF assms Cons.prems(1) m Cons.prems(3)]) (rule that; assumption)
    obtain w2 a d where h: "client_history C R i w1 ops = Some (w2, a, d)" "queue_up C R i w2" "world_queue w1 i @ a = d @ world_queue w2 i"
      "\<forall>j. j \<noteq> i \<longrightarrow> world_queue w2 j = world_queue w1 j" using Cons.IH [OF s(2) _ s(5)] Cons.prems(2) by auto
    show ?thesis using h s(1-4) Put by (cases ?full) auto
  next
    case Get
    obtain r data w1 where s: "nanvix_msg_receive C R w (int i) False NANVIX_MSG_SIZE_MAX 0 ipc_nowait = Some (r, data, w1)" "queue_up C R i w1"
      "world_queue w i = (if r = Inr 0 then [data] else []) @ world_queue w1 i" "\<forall>j. j \<noteq> i \<longrightarrow> world_queue w1 j = world_queue w j" "send_reaches C R w1 = send_reaches C R w"
      by (rule client_receive [OF assms Cons.prems(1), of 0]) (rule that; assumption)
    have "send_reaches C R w1" using s(5) Cons.prems(3) by simp
    from Cons.IH [OF s(2) _ this] Cons.prems(2) s(1,3,4) Get show ?thesis by fastforce
  qed
qed simp

section \<open>Any sequence of calls\<close>

text \<open>The calls of a client on semaphores and queues; \<open>sysv_client_step\<close> gives the result and the bytes received.\<close>

datatype client_call =
    SemGet int ipc_flags | SemClose int | SemOp int "sembuf option" nat
  | MsgGet int ipc_flags | MsgClose int | MsgSend int "byte list option" nat ipc_flags | MsgReceive int bool nat int ipc_flags

definition no_data :: "(int result \<times> 'a) option \<Rightarrow> (int result \<times> byte list \<times> 'a) option" where
  "no_data = map_option (\<lambda>(r, w). (r, [], w))"

fun sysv_client_step :: "'w :: len word sysv_env \<Rightarrow> 'r resource_ops \<Rightarrow> ('r, 'w word) sysv_world \<Rightarrow> client_call \<Rightarrow>
    (int result \<times> byte list \<times> ('r, 'w word) sysv_world) option" where
  "sysv_client_step C R w (SemGet key flg) = no_data (nanvix_semget C R w key flg)"
| "sysv_client_step C R w (SemClose semid) = no_data (nanvix_sem_close C R w semid)"
| "sysv_client_step C R w (SemOp semid sops n) = no_data (nanvix_semop C R w semid sops n)"
| "sysv_client_step C R w (MsgGet key flg) = no_data (nanvix_msg_get C R w key flg)"
| "sysv_client_step C R w (MsgClose msgid) = no_data (nanvix_msg_close C R w msgid)"
| "sysv_client_step C R w (MsgSend msgid m n flg) = no_data (nanvix_msg_send C R w msgid m n flg)"
| "sysv_client_step C R w (MsgReceive msgid null n typ flg) = nanvix_msg_receive C R w msgid null n typ flg"

fun sysv_client_run :: "'w :: len word sysv_env \<Rightarrow> 'r resource_ops \<Rightarrow> ('r, 'w word) sysv_world \<Rightarrow> client_call list \<Rightarrow>
    (int result list \<times> ('r, 'w word) sysv_world) option" where
  "sysv_client_run C R w [] = Some ([], w)"
| "sysv_client_run C R w (c # cs) =
     do { (r, _, w1) \<leftarrow> sysv_client_step C R w c; (rs, w2) \<leftarrow> sysv_client_run C R w1 cs; Some (r # rs, w2) }"

text \<open>The buffer of a send holds as many bytes as are sent. What the arguments must satisfy for the call to reach the server.\<close>

fun buffer_fits :: "client_call \<Rightarrow> bool" where
  "buffer_fits (MsgSend _ (Some m) n _) \<longleftrightarrow> n \<le> length m"
| "buffer_fits _ \<longleftrightarrow> True"

fun arguments_ok :: "client_call \<Rightarrow> bool" where
  "arguments_ok (SemClose semid) \<longleftrightarrow> semid_is_valid semid"
| "arguments_ok (SemOp semid sops n) \<longleftrightarrow> semid_is_valid semid \<and> sops \<noteq> None \<and> n = 1"
| "arguments_ok (MsgClose msgid) \<longleftrightarrow> msgid_is_valid msgid"
| "arguments_ok (MsgSend msgid m n _) \<longleftrightarrow> msgid_is_valid msgid \<and> m \<noteq> None \<and> n = NANVIX_MSG_SIZE_MAX"
| "arguments_ok (MsgReceive msgid null n _ _) \<longleftrightarrow> msgid_is_valid msgid \<and> \<not> null \<and> n = NANVIX_MSG_SIZE_MAX"
| "arguments_ok _ \<longleftrightarrow> True"

lemma client_step_refused: "\<not> arguments_ok c \<Longrightarrow> sysv_client_step C R w c = Some (Inl EINVAL, [], w)"
  by (cases c) (auto simp: no_data_def nanvix_sem_close_def nanvix_semop_def nanvix_msg_close_def nanvix_msg_send_def nanvix_msg_receive_def split: option.splits)

lemmas client_call_defs = no_data_def nanvix_semget_def do_nanvix_semget_def nanvix_sem_close_def do_nanvix_sem_close_def nanvix_semop_def do_nanvix_semop_def
  nanvix_msg_get_def do_nanvix_msg_get_def nanvix_msg_close_def do_nanvix_msg_close_def nanvix_msg_send_def do_nanvix_msg_send_def
  nanvix_msg_receive_def do_nanvix_msg_receive_def

text \<open>The request of each call; none of them is dangerous and each is answered when the client is not on node zero.\<close>

definition call_message :: "'p sysv_env \<Rightarrow> ('r, 'p) sysv_world \<Rightarrow> client_call \<Rightarrow> 'p sysv_message" where
  "call_message C w c =
     (case c of
        SemGet key flg \<Rightarrow> sysv_std C (SYSV_SEM_GET key flg)
      | SemClose semid \<Rightarrow> sysv_std C (SYSV_SEM_CLOSE semid)
      | SemOp semid sops n \<Rightarrow> sysv_std C (SYSV_SEM_OPERATE semid (the sops))
      | MsgGet key flg \<Rightarrow> sysv_std C (SYSV_MSG_GET key flg)
      | MsgClose msgid \<Rightarrow> sysv_std C (SYSV_MSG_CLOSE msgid)
      | MsgSend msgid m n flg \<Rightarrow> sysv_request C (msg_send_port C w) (SYSV_MSG_SEND msgid n flg)
      | MsgReceive msgid null n typ flg \<Rightarrow> sysv_std C (SYSV_MSG_RECEIVE msgid n typ flg))"

definition call_data :: "client_call \<Rightarrow> byte list" where
  "call_data c = (case c of MsgSend msgid m n flg \<Rightarrow> take n (the m) | _ \<Rightarrow> [])"

lemma call_message_served:
  assumes "arguments_ok c"
  shows "\<not> sysv_hazard E nproc st (call_message C w c)"
    "sysv_replies (sq_op (call_message C w c)) r \<or> (\<exists>i b. sq_op (call_message C w c) = SYSV_SEM_OPERATE i b)"
    "sq_source (call_message C w c) = take_bit 16 (ne_node (pe_name (se_pm C)))"
    "send_reaches C R w \<Longrightarrow> sysv_reaches C R w (call_message C w c)"
  using assms by (cases c; simp add: call_message_def sysv_hazard_def sysv_replies_def)+

lemma client_step_ok:
  assumes "resource_laws R" "sysv_env_up C" "sysv_world_up C R w" "take_bit 16 (ne_node (pe_name (se_pm C))) \<noteq> 0" "arguments_ok c" "buffer_fits c" "send_reaches C R w"
  obtains r d w' where "sysv_client_step C R w c = Some (r, d, w')" "sysv_world_up C R w'" "send_reaches C R w'"
proof -
  let ?m = "call_message C w c"
  have rep: "sysv_replies (sq_op ?m) r \<or> sq_source ?m \<noteq> 0 \<and> (\<exists>i b. sq_op ?m = SYSV_SEM_OPERATE i b)" for r
    using call_message_served(2) [OF assms(5), of C w r] call_message_served(3) [OF assms(5), of C w] assms(4) by auto
  obtain r out srv where h: "sysv_call C R w (call_data c) ?m = Some (r, out, w\<lparr>sw_server := srv\<rparr>)" "sysv_world_up C R (w\<lparr>sw_server := srv\<rparr>)"
    "sysv_handle (se_mailbox C) (se_portal C (call_data c)) (se_rmem C) R (se_priv C) (se_nproc C) (sw_server w) ?m = Some (r, out, srv)"
    by (rule sysv_call_ok [OF assms(1-3) call_message_served(1) [OF assms(5)] rep call_message_served(4) [OF assms(5,7)], of "call_data c"]) (rule that; assumption)
  have init: "nanvix_sysv_is_initialized w" using assms(3) by (simp add: sysv_world_up_def)
  have id: "case r of Inl _ \<Rightarrow> True | Inr i \<Rightarrow> so_ipcid out = Some i" if "c = SemGet key flg \<or> c = MsgGet key flg" for key flg
    using that h(3) by (intro sysv_get_ipcid [where rq = ?m]) (auto simp: call_message_def sysv_handle_def)
  note s = client_call_defs sysv_ipcid_def Let_def call_message_def call_data_def
  have "\<exists>r d. sysv_client_step C R w c = Some (r, d, w\<lparr>sw_server := srv\<rparr>)"
  proof (cases c)
    case (MsgSend msgid m n flg)
    then obtain b where b: "m = Some b" using assms(5) by auto
    have n: "n \<le> length b" "take n b \<noteq> []" using assms(5,6) MsgSend b by (auto simp: NANVIX_MSG_SIZE_MAX_def)
    show ?thesis using MsgSend h(1) init assms(5) b n sysv_put_ok [OF assms(1-3) n(2)] by (simp add: s)
  qed (use h(1) init assms(5) id sysv_env_upD(6,7) [OF assms(2)] in \<open>auto simp: s split: sum.splits option.splits\<close>)
  moreover have "send_reaches C R (w\<lparr>sw_server := srv\<rparr>)" using assms(7) by simp
  ultimately show thesis using that h(2) by blast
qed

section \<open>A concrete world\<close>

definition sysv_env_ideal :: "64 word sysv_env" where
  "sysv_env_ideal = \<lparr>se_pm = pm_env_client, se_port = 4, se_bytes = (\<lambda>_. replicate 32 0), se_mailbox = kmailbox_ideal,
     se_portal = (\<lambda>d. kportal_ideal (\<lambda>n. take n (d @ replicate n 0))), se_rmem = rmem_env_ideal, se_priv = -1, se_nproc = 4,
     se_mread_ok = True, se_pallow_ok = True, se_pread_ok = True, se_thread_ok = True\<rparr>"

definition sysv_world_boot :: "(flags, 64 word) sysv_world" where
  "sysv_world_boot = \<lparr>sw_client = \<lparr>ch_initialized = False, ch_outbox = -1, ch_outportal = -1\<rparr>,
     sw_pm = pm_static plain_resource 8 8 (name_world_linked SYSV_SERVER_NAME), sw_server = sysv_booted\<lparr>sv_msg := msg_one_queue\<rparr>, sw_alive = True\<rparr>"

definition sysv_world_ready :: "(flags, 64 word) sysv_world" where
  "sysv_world_ready = snd (the (nanvix_sysv_setup sysv_env_ideal plain_resource sysv_world_boot))"

lemma sysv_env_ideal_up: "sysv_env_up sysv_env_ideal"
proof -
  have "portals_up (kportal_ideal (\<lambda>n. take n (d @ replicate n 0)))" for d by (auto simp: portals_up_def kportal_ideal_def)
  then show ?thesis by (auto simp: sysv_env_up_def sysv_env_ideal_def kmailbox_ideal_up kportal_ideal_def pm_env_client_up)
qed

lemma sysv_world_ready_up: "queue_up sysv_env_ideal plain_resource 0 sysv_world_ready" "world_queue sysv_world_ready 0 = []"
  "sw_server sysv_world_ready = sysv_booted\<lparr>sv_msg := msg_one_queue\<rparr>"
  "\<exists>ch. channel_open pm_env_client plain_resource (sw_pm sysv_world_boot) (sw_client sysv_world_boot) SYSV_SERVER_NAME 4 = Some (Inr 0, ch, sw_pm sysv_world_ready) \<and>
    ch_outportal (sw_client sysv_world_ready) = ch_outportal ch"
proof -
  let ?b = "sysv_world_boot"
  have n: "name_ok SYSV_SERVER_NAME" "SYSV_SERVER_NAME \<noteq> ''/io0''" by (simp_all add: name_ok_def SYSV_SERVER_NAME_def NANVIX_PROC_NAME_MAX_def)
  obtain ch st where c: "channel_open pm_env_client plain_resource (sw_pm ?b) (sw_client ?b) SYSV_SERVER_NAME 4 = Some (Inr 0, ch, st)"
    "connected pm_env_client plain_resource st (ch\<lparr>ch_initialized := True\<rparr>)"
    by (rule channel_boot [OF n, of 4 "sw_client ?b"]) (simp, rule that, simp_all add: sysv_world_boot_def)
  let ?w = "?b\<lparr>sw_client := ch\<lparr>ch_initialized := True\<rparr>, sw_pm := st\<rparr>"
  have e: "se_pm sysv_env_ideal = pm_env_client" "se_port sysv_env_ideal = 4" "se_thread_ok sysv_env_ideal" "se_rmem sysv_env_ideal = rmem_env_ideal"
    by (simp_all add: sysv_env_ideal_def)
  have b: "\<not> ch_initialized (sw_client ?b)" "sw_alive ?b" "sw_server ?b = sysv_booted\<lparr>sv_msg := msg_one_queue\<rparr>" by (simp_all add: sysv_world_boot_def)
  have "nanvix_sysv_setup sysv_env_ideal plain_resource ?b = Some (Inr 0, ?w)"
    using c(1) by (simp add: nanvix_sysv_setup_def nanvix_sysv_is_initialized_def nanvix_shm_setup_def e b Let_def)
  then have eq: "sysv_world_ready = ?w" by (simp add: sysv_world_ready_def)
  have "sysv_inv rmem_env_ideal plain_resource (sysv_booted\<lparr>sv_msg := msg_one_queue\<rparr>)"
    using sysv_booted_inv queue_openD(1) [OF msg_one_queue_open(1)] by (simp add: sysv_inv_def)
  then show "queue_up sysv_env_ideal plain_resource 0 sysv_world_ready" "world_queue sysv_world_ready 0 = []"
    "sw_server sysv_world_ready = sysv_booted\<lparr>sv_msg := msg_one_queue\<rparr>"
    "\<exists>ch. channel_open pm_env_client plain_resource (sw_pm ?b) (sw_client ?b) SYSV_SERVER_NAME 4 = Some (Inr 0, ch, sw_pm sysv_world_ready) \<and>
      ch_outportal (sw_client sysv_world_ready) = ch_outportal ch"
    using c b msg_one_queue_open by (simp_all add: eq queue_up_def sysv_world_up_def nanvix_sysv_is_initialized_def e)
qed

text \<open>
  In \<open>sysv_env_ideal\<close> all portals have the same port, so a send names the right one. In \<open>sysv_env_ports\<close> the kernel numbers its portals from 400 on,
  each with a port of its own, and the identifier of the named portal is none of them.
\<close>

definition sysv_env_ports :: "64 word sysv_env" where
  "sysv_env_ports = sysv_env_ideal\<lparr>se_pm := pm_env_client\<lparr>pe_pport := (\<lambda>fd. Inr (fd div 400))\<rparr>\<rparr>"

lemma connected_pport [simp]: "pm_inv (C\<lparr>pe_pport := f\<rparr>) R st = pm_inv C R st" "connected (C\<lparr>pe_pport := f\<rparr>) R st ch = connected C R st ch"
proof -
  have "connector_ok (C\<lparr>pe_pport := f\<rparr>) R = connector_ok C R" "links (C\<lparr>pe_pport := f\<rparr>) = links C" by (simp_all add: connector_ok_def links_def fun_eq_iff split: option.splits)
  then show "pm_inv (C\<lparr>pe_pport := f\<rparr>) R st = pm_inv C R st" by (simp add: pm_inv_def)
  then show "connected (C\<lparr>pe_pport := f\<rparr>) R st ch = connected C R st ch" by (simp add: connected_def)
qed

lemma sysv_env_ports_up: "sysv_env_up sysv_env_ports" "queue_up sysv_env_ports plain_resource 0 sysv_world_ready"
proof -
  have e: "se_pm sysv_env_ideal = pm_env_client" by (simp add: sysv_env_ideal_def)
  show "sysv_env_up sysv_env_ports" using sysv_env_ideal_up e
    by (simp add: sysv_env_ports_def sysv_env_up_def pm_kernel_up_def pm_env_up_def)
  show "queue_up sysv_env_ports plain_resource 0 sysv_world_ready" using sysv_world_ready_up(1) e
    by (simp add: sysv_env_ports_def queue_up_def sysv_world_up_def)
qed

lemma sysv_world_ready_portal:
  "conn_at (prt_view plain_resource (sw_pm sysv_world_ready)) (ch_outportal (sw_client sysv_world_ready)) = Some (Outward 404)"
  "0 \<le> ch_outportal (sw_client sysv_world_ready)" "ch_outportal (sw_client sysv_world_ready) < 8" "pm_inv pm_env_client plain_resource (sw_pm sysv_world_ready)"
proof -
  obtain ch where c: "channel_open pm_env_client plain_resource (sw_pm sysv_world_boot) (sw_client sysv_world_boot) SYSV_SERVER_NAME 4 = Some (Inr 0, ch, sw_pm sysv_world_ready)"
    "ch_outportal (sw_client sysv_world_ready) = ch_outportal ch" using sysv_world_ready_up(4) by blast
  have n: "name_ok SYSV_SERVER_NAME" "SYSV_SERVER_NAME \<noteq> ''/io0''" by (simp_all add: name_ok_def SYSV_SERVER_NAME_def NANVIX_PROC_NAME_MAX_def)
  have inv: "pm_inv pm_env_client plain_resource (sw_pm sysv_world_boot)"
    by (simp add: sysv_world_boot_def pm_static_inv [OF plain_resource_laws name_world_linked_ok(1) [OF n]])
  have p: "pe_popen pm_env_client l node 4 = 404" "length (pm_portals (sw_pm sysv_world_boot)) = 8" for l node
    by (simp_all add: pm_env_client_def pm_env_ideal_def sysv_world_boot_def pm_static_def Let_def)
  show "conn_at (prt_view plain_resource (sw_pm sysv_world_ready)) (ch_outportal (sw_client sysv_world_ready)) = Some (Outward 404)"
    "0 \<le> ch_outportal (sw_client sysv_world_ready)" "ch_outportal (sw_client sysv_world_ready) < 8" "pm_inv pm_env_client plain_resource (sw_pm sysv_world_ready)"
    using channel_open_portal [OF plain_resource_laws pm_kernel_upD(1) [OF pm_env_client_up] inv c(1)] by (auto simp: c(2) p)
qed

lemma sysv_world_ready_reaches:
  "send_reaches sysv_env_ideal plain_resource sysv_world_ready" "\<not> send_reaches sysv_env_ports plain_resource sysv_world_ready"
proof -
  let ?c = "sw_client sysv_world_ready" and ?st = "sw_pm sysv_world_ready" and ?f = "\<lambda>fd. Inr (fd div 400)"
  note v = sysv_world_ready_portal and inv = sysv_world_ready_portal(4)
  have inv': "pm_inv (pm_env_client\<lparr>pe_pport := ?f\<rparr>) plain_resource ?st" using inv by simp
  have "ch_outportal ?c div 400 = 0" using v(2,3) by simp
  then show "send_reaches sysv_env_ideal plain_resource sysv_world_ready" "\<not> send_reaches sysv_env_ports plain_resource sysv_world_ready"
    using channel_port_eq [OF plain_resource_laws inv v(1)] channel_port_eq [OF plain_resource_laws inv' v(1)]
    by (simp_all add: send_reaches_def msg_send_port_def nanvix_sysv_outportal_def sysv_env_ideal_def sysv_env_ports_def conn_code_def)
      (simp_all add: pm_env_client_def pm_env_ideal_def)
qed

section \<open>Properties\<close>

text \<open>
  C18. A message queue used through the client is a queue, provided that a send names the port its data comes from. Then, whatever sequence of sends of full
  messages and receives a client makes on an open queue without waiting, every call returns, the messages already in the queue followed by the ones accepted
  are the ones received followed by the ones left, in order and byte for byte, and no other queue changes. The port that the code names is the kernel's port of
  the identifier of the named portal, which is not a portal of the kernel; when it differs from the port of the portal, a send never returns.
\<close>

theorem client_queue_fifo:
  assumes "resource_laws R" "sysv_env_up C" "queue_up C R i w" "\<forall>m. Put m \<in> set ops \<longrightarrow> length m = NANVIX_MSG_SIZE_MAX"
  shows "if send_reaches C R w
    then \<exists>w' accepted received. client_history C R i w ops = Some (w', accepted, received) \<and> queue_up C R i w' \<and>
      world_queue w i @ accepted = received @ world_queue w' i \<and> (\<forall>j. j \<noteq> i \<longrightarrow> world_queue w' j = world_queue w j)
    else \<forall>m. nanvix_msg_send C R w (int i) (Some m) NANVIX_MSG_SIZE_MAX ipc_nowait = None"
  using client_history_order [OF assms] client_send_lost [OF _ queue_upD(5) [OF assms(3)] queue_openD(3) [OF queue_upD(2) [OF assms(3)]]] by simp

theorem client_queue_fifo_witness:
  "(\<exists>w' accepted received. client_history sysv_env_ideal plain_resource 0 sysv_world_ready [Put (replicate 256 7), Get] = Some (w', accepted, received) \<and>
      accepted = received @ world_queue w' 0) \<and>
   nanvix_msg_send sysv_env_ports plain_resource sysv_world_ready 0 (Some (replicate 256 7)) NANVIX_MSG_SIZE_MAX ipc_nowait = None"
proof
  show "\<exists>w' accepted received. client_history sysv_env_ideal plain_resource 0 sysv_world_ready [Put (replicate 256 7), Get] = Some (w', accepted, received) \<and>
      accepted = received @ world_queue w' 0"
    using client_queue_fifo [OF plain_resource_laws sysv_env_ideal_up sysv_world_ready_up(1), of "[Put (replicate 256 7), Get]"] sysv_world_ready_up(2)
      sysv_world_ready_reaches(1)
    by (auto simp: NANVIX_MSG_SIZE_MAX_def simp del: client_history.simps)
  show "nanvix_msg_send sysv_env_ports plain_resource sysv_world_ready 0 (Some (replicate 256 7)) NANVIX_MSG_SIZE_MAX ipc_nowait = None"
    using client_queue_fifo [OF plain_resource_laws sysv_env_ports_up(1,2), of "[]"] sysv_world_ready_reaches(2) by simp
qed

text \<open>
  C23. The calls on semaphores and queues always return, provided that a send names the port its data comes from. From a client
  set up on any node but node zero, any sequence of calls with any arguments, as long as the buffer of a send holds the bytes sent, runs to its end with
  one result per call and leaves client and server working; a call with bad arguments is refused with \<open>EINVAL\<close> without any effect.
\<close>

theorem sysv_client_calls_return:
  assumes "resource_laws R" "sysv_env_up C" "sysv_world_up C R w" "take_bit 16 (ne_node (pe_name (se_pm C))) \<noteq> 0" "\<forall>c\<in>set cs. buffer_fits c" "send_reaches C R w"
  shows "(\<exists>rs w'. sysv_client_run C R w cs = Some (rs, w') \<and> length rs = length cs \<and> sysv_world_up C R w') \<and>
    (\<forall>c. \<not> arguments_ok c \<longrightarrow> sysv_client_step C R w c = Some (Inl EINVAL, [], w))"
proof
  show "\<exists>rs w'. sysv_client_run C R w cs = Some (rs, w') \<and> length rs = length cs \<and> sysv_world_up C R w'" using assms(3,5,6)
  proof (induction cs arbitrary: w)
    case (Cons c cs)
    have "\<exists>r d w1. sysv_client_step C R w c = Some (r, d, w1) \<and> sysv_world_up C R w1 \<and> send_reaches C R w1"
    proof (cases "arguments_ok c")
      case True
      have "buffer_fits c" using Cons.prems(2) by simp
      from this Cons.prems(3) show ?thesis by (rule client_step_ok [OF assms(1,2) Cons.prems(1) assms(4) True]) blast
    qed (use Cons.prems client_step_refused in blast)
    then obtain r d w1 where s: "sysv_client_step C R w c = Some (r, d, w1)" "sysv_world_up C R w1" "send_reaches C R w1" by blast
    obtain rs w2 where "sysv_client_run C R w1 cs = Some (rs, w2)" "length rs = length cs" "sysv_world_up C R w2"
      using Cons.IH [OF s(2) _ s(3)] Cons.prems(2) by auto
    then show ?case using s(1) by auto
  qed simp
qed (use client_step_refused in blast)

theorem sysv_client_calls_return_witness:
  "\<exists>rs w'. sysv_client_run sysv_env_ideal plain_resource sysv_world_ready [SemGet 5 ipc_creat, MsgSend 0 (Some (replicate 256 7)) 256 ipc_nowait] = Some (rs, w') \<and>
     length rs = 2"
  using sysv_client_calls_return [OF plain_resource_laws sysv_env_ideal_up queue_upD(1) [OF sysv_world_ready_up(1)],
      of "[SemGet 5 ipc_creat, MsgSend 0 (Some (replicate 256 7)) 256 ipc_nowait]"] sysv_world_ready_reaches(1)
  by (auto simp: sysv_env_ideal_def pm_env_client_def simp del: sysv_client_run.simps)

end
