(* ===== verification/RCache.thy ===== *)
theory RCache
  imports RMemStub Slots
begin

text \<open>
  The page cache of the runtime, \<open>src/libruntime/mm/cache.c\<close>, over the remote memory stub. A pointer to
  a page of the cache is the index of its line. \<open>E\<close> is the environment of the stub; reading a line
  outside the array and calling an eviction function that is not set are undefined, the value \<open>None\<close>.
  \<open>nanvix_rmem_read\<close> and \<open>nanvix_rmem_write\<close> return sizes, which the cache tests as if they were
  signed error codes.
\<close>

section \<open>State\<close>

definition RCACHE_LENGTH :: nat where "RCACHE_LENGTH = 32"

datatype rcache_policy = RCACHE_BYPASS | RCACHE_FIFO

record 'p rcache_line =
  rl_age :: int
  rl_pgnum :: 'p
  rl_refcount :: int
  rl_page :: "byte list"

record 'p rcache =
  ca_initialized :: bool
  ca_evict_fn :: "rcache_policy option"
  ca_ngets :: "32 word"
  ca_nmisses :: "32 word"
  ca_nhits :: "32 word"
  ca_lines :: "'p rcache_line list"
  ca_mem :: rmem_system

definition line_update :: "'p rcache \<Rightarrow> nat \<Rightarrow> ('p rcache_line \<Rightarrow> 'p rcache_line) \<Rightarrow> 'p rcache option" where
  "line_update st i f = do { l \<leftarrow> arr_get (ca_lines st) i; Some (st\<lparr>ca_lines := (ca_lines st)[i := f l]\<rparr>) }"

definition CACHE_ENTRY_INITIALIZER :: "'w :: len word rcache \<Rightarrow> nat \<Rightarrow> 'w word rcache option" where
  "CACHE_ENTRY_INITIALIZER st i = line_update st i (\<lambda>l. l\<lparr>rl_refcount := 0, rl_pgnum := RMEM_NULL\<rparr>)"

section \<open>Operations\<close>

definition nanvix_rcache_flush :: "'w :: len word rmem_env \<Rightarrow> 'w word rcache \<Rightarrow> nat \<Rightarrow> (int \<times> 'w word rcache) option" where
  "nanvix_rcache_flush E st idx =
     do { l \<leftarrow> arr_get (ca_lines st) idx;
          (n, w) \<leftarrow> nanvix_rmem_write E (ca_mem st) (rl_pgnum l) (Some (rl_page l));
          let err = int n;
          Some (if err < 0 then err else 0, st\<lparr>ca_mem := w\<rparr>) }"

definition nanvix_rcache_page_search :: "'p rcache \<Rightarrow> 'p \<Rightarrow> nat option" where
  "nanvix_rcache_page_search st pgnum =
     first_index (\<lambda>l. rl_refcount l \<noteq> 0 \<and> rl_pgnum l = pgnum) (ca_lines st)"

definition nanvix_rcache_empty :: "'w :: len word rcache \<Rightarrow> nat option" where
  "nanvix_rcache_empty st = first_index (\<lambda>l. rl_pgnum l = RMEM_NULL) (ca_lines st)"

definition nanvix_rcache_bypass :: "'w :: len word rmem_env \<Rightarrow> 'w word rcache \<Rightarrow> (nat \<times> 'w word rcache) option" where
  "nanvix_rcache_bypass E st =
     do { (_, st1) \<leftarrow> nanvix_rcache_flush E st 0;
          st2 \<leftarrow> CACHE_ENTRY_INITIALIZER st1 0;
          Some (0, st2) }"

text \<open>
  The search for the oldest line, from the index the search for an empty line left behind. That is
  negative when there is none, and the first comparison reads the line at that index.
\<close>

fun fifo_scan :: "'p rcache_line list \<Rightarrow> nat list \<Rightarrow> int \<Rightarrow> int option" where
  "fifo_scan ls [] idx = Some idx"
| "fifo_scan ls (i # is) idx =
     do { a \<leftarrow> arr_get ls i;
          b \<leftarrow> (if 0 \<le> idx then arr_get ls (nat idx) else None);
          fifo_scan ls is (if rl_age a < rl_age b then int i else idx) }"

definition nanvix_rcache_fifo :: "'w :: len word rmem_env \<Rightarrow> 'w word rcache \<Rightarrow> (nat \<times> 'w word rcache) option" where
  "nanvix_rcache_fifo E st =
     (case nanvix_rcache_empty st of
        Some i \<Rightarrow> Some (i, st)
      | None \<Rightarrow> do {
          idx \<leftarrow> fifo_scan (ca_lines st) [0..<RCACHE_LENGTH] (-1);
          (_, st1) \<leftarrow> nanvix_rcache_flush E st (nat idx);
          st2 \<leftarrow> CACHE_ENTRY_INITIALIZER st1 (nat idx);
          nanvix_rcache_bypass E st2 })"

definition nanvix_rcache_select_replacement_policy :: "'p rcache \<Rightarrow> int \<Rightarrow> int result \<times> 'p rcache" where
  "nanvix_rcache_select_replacement_policy st num =
     (if num = 0 then (Inr 0, st\<lparr>ca_evict_fn := Some RCACHE_BYPASS\<rparr>)
      else if num = 1 then (Inr 0, st\<lparr>ca_evict_fn := Some RCACHE_FIFO\<rparr>)
      else (Inl EINVAL, st\<lparr>ca_evict_fn := Some RCACHE_BYPASS\<rparr>))"

definition rcache_evict :: "'w :: len word rmem_env \<Rightarrow> 'w word rcache \<Rightarrow> (nat \<times> 'w word rcache) option" where
  "rcache_evict E st =
     do { f \<leftarrow> ca_evict_fn st;
          case f of RCACHE_BYPASS \<Rightarrow> nanvix_rcache_bypass E st | RCACHE_FIFO \<Rightarrow> nanvix_rcache_fifo E st }"

definition nanvix_rcache_alloc :: "'w :: len word rmem_env \<Rightarrow> 'w word rcache \<Rightarrow> ('w word \<times> 'w word rcache) option" where
  "nanvix_rcache_alloc E st = do { (p, w) \<leftarrow> nanvix_rmem_alloc E (ca_mem st); Some (p, st\<lparr>ca_mem := w\<rparr>) }"

definition nanvix_rcache_free :: "'w :: len word rmem_env \<Rightarrow> 'w word rcache \<Rightarrow> 'w word \<Rightarrow> (int result \<times> 'w word rcache) option" where
  "nanvix_rcache_free E st pgnum =
     (if pgnum = RMEM_NULL then Some (Inl EINVAL, st)
      else do { (r, w) \<leftarrow> nanvix_rmem_free E (ca_mem st) pgnum; Some (r, st\<lparr>ca_mem := w\<rparr>) })"

text \<open>The pointer returned is \<open>None\<close> for \<open>NULL\<close>, or the index of the line.\<close>

definition nanvix_rcache_get :: "'w :: len word rmem_env \<Rightarrow> 'w word rcache \<Rightarrow> 'w word \<Rightarrow> (nat option \<times> 'w word rcache) option" where
  "nanvix_rcache_get E st pgnum =
     (if pgnum = RMEM_NULL then Some (None, st)
      else do {
        (idx, st1) \<leftarrow>
          (case nanvix_rcache_page_search st pgnum of
             Some i \<Rightarrow> Some (i, st)
           | None \<Rightarrow> do {
               (i, st1) \<leftarrow> rcache_evict E st;
               (n, data, w) \<leftarrow> nanvix_rmem_read E (ca_mem st1) pgnum False;
               st2 \<leftarrow> line_update (st1\<lparr>ca_mem := w\<rparr>) i
                 (\<lambda>l. l\<lparr>rl_age := signed_take_bit 31 (uint (ca_ngets st1)), rl_pgnum := pgnum,
                        rl_page := (case data of Some d \<Rightarrow> d | None \<Rightarrow> rl_page l)\<rparr>);
               Some (i, st2) });
        st3 \<leftarrow> line_update st1 idx (\<lambda>l. l\<lparr>rl_refcount := rl_refcount l + 1\<rparr>);
        Some (Some idx, st3\<lparr>ca_ngets := ca_ngets st3 + 1\<rparr>) })"

definition nanvix_rcache_put :: "'w :: len word rmem_env \<Rightarrow> 'w word rcache \<Rightarrow> 'w word \<Rightarrow> (int result \<times> 'w word rcache) option" where
  "nanvix_rcache_put E st pgnum =
     (if pgnum = RMEM_NULL then Some (Inl EINVAL, st)
      else case nanvix_rcache_page_search st pgnum of
             None \<Rightarrow> Some (Inl ENOENT, st)
           | Some idx \<Rightarrow> do {
               l \<leftarrow> arr_get (ca_lines st) idx;
               st1 \<leftarrow> line_update st idx (\<lambda>l. l\<lparr>rl_refcount := rl_refcount l - 1\<rparr>);
               st2 \<leftarrow> (if rl_refcount l = 1 then map_option snd (nanvix_rcache_flush E st1 idx) else Some st1);
               Some (Inr 0, st2) })"

definition nanvix_rcache_setup :: "'w :: len word rcache \<Rightarrow> 'w word rcache" where
  "nanvix_rcache_setup st =
     (if ca_initialized st then st
      else let st1 = st\<lparr>ca_lines := map (\<lambda>l. l\<lparr>rl_refcount := 0, rl_pgnum := RMEM_NULL\<rparr>) (ca_lines st),
                        ca_ngets := 0, ca_nmisses := 0, ca_nhits := 0\<rparr>
           in (snd (nanvix_rcache_select_replacement_policy st1 1))\<lparr>ca_initialized := True\<rparr>)"

text \<open>What a user of the cache does with the pointer it was given: store a whole page.\<close>

definition rcache_store :: "'p rcache \<Rightarrow> nat \<Rightarrow> byte list \<Rightarrow> 'p rcache" where
  "rcache_store st i d = st\<lparr>ca_lines := (ca_lines st)[i := (ca_lines st ! i)\<lparr>rl_page := d\<rparr>]\<rparr>"

section \<open>Invariant\<close>

definition line_key :: "'p rcache_line \<Rightarrow> 'p option" where
  "line_key l = (if rl_refcount l = 0 then None else Some (rl_pgnum l))"

text \<open>
  No two lines in use hold the same page, a line in use holds a page, and every line has room for one.
\<close>

definition line_ok :: "'w :: len word rcache_line \<Rightarrow> bool" where
  "line_ok l \<longleftrightarrow> 0 \<le> rl_refcount l \<and> (rl_refcount l = 0 \<or> rl_pgnum l \<noteq> RMEM_NULL) \<and> length (rl_page l) = RMEM_BLOCK_SIZE"

definition rcache_inv :: "'w :: len word rmem_env \<Rightarrow> 'w word rcache \<Rightarrow> bool" where
  "rcache_inv E st \<longleftrightarrow> length (ca_lines st) = RCACHE_LENGTH \<and> ca_evict_fn st = Some RCACHE_FIFO \<and> stub_inv E (ca_mem st) \<and>
     slots_unique line_key (ca_lines st) \<and> (\<forall>l\<in>set (ca_lines st). line_ok l)"

lemma rcache_invD:
  assumes "rcache_inv E st"
  shows rcache_inv_length: "length (ca_lines st) = RCACHE_LENGTH" and rcache_inv_fifo: "ca_evict_fn st = Some RCACHE_FIFO"
    and rcache_inv_mem: "stub_inv E (ca_mem st)" and rcache_inv_unique: "slots_unique line_key (ca_lines st)"
    and rcache_inv_line: "i < RCACHE_LENGTH \<Longrightarrow> line_ok (ca_lines st ! i)"
  using assms by (auto simp: rcache_inv_def)

lemma line_update_ok: "i < length (ca_lines st) \<Longrightarrow> line_update st i f = Some (st\<lparr>ca_lines := (ca_lines st)[i := f (ca_lines st ! i)]\<rparr>)"
  by (simp add: line_update_def)

lemma rcache_inv_update:
  assumes inv: "rcache_inv E st" and i: "i < RCACHE_LENGTH" and "line_ok e" "stub_inv E w"
    and new: "\<And>j. line_key e \<noteq> None \<Longrightarrow> j < length (ca_lines st) \<Longrightarrow> line_key (ca_lines st ! j) = line_key e \<Longrightarrow> j = i"
  shows "rcache_inv E (st\<lparr>ca_ngets := n, ca_lines := (ca_lines st)[i := e], ca_mem := w\<rparr>)"
proof -
  have "slots_unique line_key ((ca_lines st)[i := e])"
    using i rcache_inv_length [OF inv] by (intro slots_unique_update [OF rcache_inv_unique [OF inv]] new) simp_all
  moreover have "\<forall>l\<in>set ((ca_lines st)[i := e]). line_ok l" using inv assms(3) by (intro ball_update) (simp_all add: rcache_inv_def)
  ultimately show ?thesis using inv assms(4) by (simp add: rcache_inv_def)
qed

lemma page_search_iff:
  assumes "rcache_inv E st"
  shows "nanvix_rcache_page_search st p = Some i \<longleftrightarrow> i < RCACHE_LENGTH \<and> line_key (ca_lines st ! i) = Some p"
proof -
  have eq: "(\<lambda>l. rl_refcount l \<noteq> 0 \<and> rl_pgnum l = p) = (\<lambda>l. line_key l = Some p)" by (auto simp: line_key_def)
  show ?thesis
    unfolding nanvix_rcache_page_search_def eq
    using slots_find [OF rcache_inv_unique [OF assms], of i p] rcache_inv_length [OF assms]
    by (auto dest: first_index_bound first_index_sat)
qed

lemma page_search_none:
  assumes "nanvix_rcache_page_search st p = None" "j < length (ca_lines st)"
  shows "line_key (ca_lines st ! j) \<noteq> Some p"
proof -
  have "\<not> (rl_refcount (ca_lines st ! j) \<noteq> 0 \<and> rl_pgnum (ca_lines st ! j) = p)"
    using assms unfolding nanvix_rcache_page_search_def first_index_None_iff by blast
  then show ?thesis by (auto simp: line_key_def)
qed

text \<open>A get of a page in use shares its line.\<close>

lemma rcache_get_hit:
  assumes inv: "rcache_inv E st" and p: "nanvix_rcache_page_search st p = Some i" "p \<noteq> RMEM_NULL"
  defines "l \<equiv> ca_lines st ! i"
  shows "nanvix_rcache_get E st p = Some (Some i, st\<lparr>ca_ngets := ca_ngets st + 1, ca_lines := (ca_lines st)[i := l\<lparr>rl_refcount := rl_refcount l + 1\<rparr>]\<rparr>)"
    and "rcache_inv E (st\<lparr>ca_ngets := ca_ngets st + 1, ca_lines := (ca_lines st)[i := l\<lparr>rl_refcount := rl_refcount l + 1\<rparr>]\<rparr>)"
proof -
  have i: "i < RCACHE_LENGTH" and k: "line_key l = Some p" using p(1) by (simp_all add: page_search_iff [OF inv] l_def)
  have ok: "line_ok l" unfolding l_def by (rule rcache_inv_line [OF inv i])
  show "nanvix_rcache_get E st p = Some (Some i, st\<lparr>ca_ngets := ca_ngets st + 1, ca_lines := (ca_lines st)[i := l\<lparr>rl_refcount := rl_refcount l + 1\<rparr>]\<rparr>)"
    using p i rcache_inv_length [OF inv] by (simp add: nanvix_rcache_get_def line_update_ok l_def)
  have "rcache_inv E (st\<lparr>ca_ngets := ca_ngets st + 1, ca_lines := (ca_lines st)[i := l\<lparr>rl_refcount := rl_refcount l + 1\<rparr>], ca_mem := ca_mem st\<rparr>)"
  proof (rule rcache_inv_update [OF inv i _ rcache_inv_mem [OF inv]])
    show "line_ok (l\<lparr>rl_refcount := rl_refcount l + 1\<rparr>)" using ok k by (auto simp: line_ok_def line_key_def split: if_splits)
    fix j assume "j < length (ca_lines st)" "line_key (ca_lines st ! j) = line_key (l\<lparr>rl_refcount := rl_refcount l + 1\<rparr>)"
    then show "j = i"
      using slots_uniqueD [OF rcache_inv_unique [OF inv], of i j p] k i rcache_inv_length [OF inv] ok
      by (auto simp: line_key_def l_def line_ok_def split: if_splits)
  qed
  then show "rcache_inv E (st\<lparr>ca_ngets := ca_ngets st + 1, ca_lines := (ca_lines st)[i := l\<lparr>rl_refcount := rl_refcount l + 1\<rparr>]\<rparr>)" by simp
qed

text \<open>A get of another page loads it into an empty line.\<close>

lemma rcache_get_miss:
  fixes E :: "'w :: len word rmem_env"
  assumes inv: "rcache_inv E st" and p: "nanvix_rcache_page_search st p = None" "nanvix_rcache_empty st = Some i"
    and pg: "page_abs (ca_mem st) p = Some (own, d)"
  obtains w a where "nanvix_rcache_get E st p = Some (Some i, st\<lparr>ca_ngets := ca_ngets st + 1,
      ca_lines := (ca_lines st)[i := \<lparr>rl_age = a, rl_pgnum = p, rl_refcount = 1, rl_page = d\<rparr>], ca_mem := w\<rparr>)"
    "stub_inv E w" "page_abs w = (page_abs (ca_mem st) :: 'w word \<Rightarrow> _)" "i < RCACHE_LENGTH" "p \<noteq> RMEM_NULL"
    "rcache_inv E (st\<lparr>ca_ngets := ca_ngets st + 1,
      ca_lines := (ca_lines st)[i := \<lparr>rl_age = a, rl_pgnum = p, rl_refcount = 1, rl_page = d\<rparr>], ca_mem := w\<rparr>)"
proof -
  have pn: "p \<noteq> RMEM_NULL" using stub.null_page [OF rcache_inv_mem [OF inv]] pg by auto
  have i: "i < RCACHE_LENGTH" and n: "rl_pgnum (ca_lines st ! i) = RMEM_NULL"
    using first_index_bound [OF p(2) [unfolded nanvix_rcache_empty_def]] first_index_sat [OF p(2) [unfolded nanvix_rcache_empty_def]]
      rcache_inv_length [OF inv] by simp_all
  have r0: "rl_refcount (ca_lines st ! i) = 0" using rcache_inv_line [OF inv i] n by (simp add: line_ok_def)
  obtain w where w: "nanvix_rmem_read E (ca_mem st) p False = Some (RMEM_BLOCK_SIZE, Some d, w)" "stub_inv E w"
    "page_abs w = (page_abs (ca_mem st) :: 'w word \<Rightarrow> _)"
    using stub.read_law [OF rcache_inv_mem [OF inv] pg] by blast
  let ?a = "signed_take_bit 31 (uint (ca_ngets st))"
  let ?e = "\<lparr>rl_age = ?a, rl_pgnum = p, rl_refcount = 1, rl_page = d\<rparr>"
  have e: "(ca_lines st ! i)\<lparr>rl_age := ?a, rl_pgnum := p, rl_page := d, rl_refcount := 1\<rparr> = ?e" by simp
  have get: "nanvix_rcache_get E st p = Some (Some i, st\<lparr>ca_ngets := ca_ngets st + 1, ca_lines := (ca_lines st)[i := ?e], ca_mem := w\<rparr>)"
    using p pn i w(1) r0 rcache_inv_length [OF inv] rcache_inv_fifo [OF inv] e
    by (simp add: nanvix_rcache_get_def rcache_evict_def nanvix_rcache_fifo_def line_update_ok) (rule rcache.equality, simp_all add: e)
  have "length d = RMEM_BLOCK_SIZE" using stub.page_size [OF rcache_inv_mem [OF inv] pg] .
  then have "rcache_inv E (st\<lparr>ca_ngets := ca_ngets st + 1, ca_lines := (ca_lines st)[i := ?e], ca_mem := w\<rparr>)"
    using pn page_search_none [OF p(1)] by (intro rcache_inv_update [OF inv i _ w(2)]) (auto simp: line_ok_def line_key_def)
  with get w pn i that show thesis by blast
qed

text \<open>The last put writes the line back.\<close>

lemma rcache_put_last:
  fixes E :: "'w :: len word rmem_env"
  assumes inv: "rcache_inv E st" and i: "i < RCACHE_LENGTH" "line_key (ca_lines st ! i) = Some p" "rl_refcount (ca_lines st ! i) = 1"
    and pg: "page_abs (ca_mem st) p = Some (own, d)"
  obtains w where "nanvix_rcache_put E st p = Some (Inr 0, st\<lparr>ca_lines := (ca_lines st)[i := (ca_lines st ! i)\<lparr>rl_refcount := 0\<rparr>], ca_mem := w\<rparr>)"
    "stub_inv E w" "page_abs w = (page_abs (ca_mem st))(p \<mapsto> (own, rl_page (ca_lines st ! i)))"
    "rcache_inv E (st\<lparr>ca_lines := (ca_lines st)[i := (ca_lines st ! i)\<lparr>rl_refcount := 0\<rparr>], ca_mem := w\<rparr>)"
proof -
  let ?l = "ca_lines st ! i"
  have pn: "p \<noteq> RMEM_NULL" using stub.null_page [OF rcache_inv_mem [OF inv]] pg by auto
  have k: "rl_pgnum ?l = p" using i(2) by (simp add: line_key_def split: if_splits)
  have s: "nanvix_rcache_page_search st p = Some i" using i by (simp add: page_search_iff [OF inv])
  have ok: "line_ok ?l" by (rule rcache_inv_line [OF inv i(1)])
  then have len: "length (rl_page ?l) = RMEM_BLOCK_SIZE" by (simp add: line_ok_def)
  obtain w where w: "nanvix_rmem_write E (ca_mem st) p (Some (rl_page ?l)) = Some (RMEM_BLOCK_SIZE, w)" "stub_inv E w"
    "page_abs w = (page_abs (ca_mem st))(p \<mapsto> (own, rl_page ?l))"
    using stub.write_law [OF rcache_inv_mem [OF inv] pg len] by blast
  have put: "nanvix_rcache_put E st p = Some (Inr 0, st\<lparr>ca_lines := (ca_lines st)[i := ?l\<lparr>rl_refcount := 0\<rparr>], ca_mem := w\<rparr>)"
    using pn s k i w(1) rcache_inv_length [OF inv] by (simp add: nanvix_rcache_put_def line_update_ok nanvix_rcache_flush_def Let_def)
  have "rcache_inv E (st\<lparr>ca_ngets := ca_ngets st, ca_lines := (ca_lines st)[i := ?l\<lparr>rl_refcount := 0\<rparr>], ca_mem := w\<rparr>)"
    using ok by (intro rcache_inv_update [OF inv i(1) _ w(2)]) (auto simp: line_ok_def line_key_def)
  with put w that show thesis by simp
qed

text \<open>A put of a page others use only drops a reference.\<close>

lemma rcache_put_shared:
  assumes inv: "rcache_inv E st" and i: "i < RCACHE_LENGTH" "line_key (ca_lines st ! i) = Some p" "1 < rl_refcount (ca_lines st ! i)"
  defines "e \<equiv> (ca_lines st ! i)\<lparr>rl_refcount := rl_refcount (ca_lines st ! i) - 1\<rparr>"
  shows "nanvix_rcache_put E st p = Some (Inr 0, st\<lparr>ca_lines := (ca_lines st)[i := e]\<rparr>)"
    and "rcache_inv E (st\<lparr>ca_lines := (ca_lines st)[i := e]\<rparr>)"
proof -
  have ok: "line_ok (ca_lines st ! i)" by (rule rcache_inv_line [OF inv i(1)])
  then have pn: "p \<noteq> RMEM_NULL" using i(2) by (auto simp: line_ok_def line_key_def split: if_splits)
  have s: "nanvix_rcache_page_search st p = Some i" using i by (simp add: page_search_iff [OF inv])
  have len: "i < length (ca_lines st)" using i(1) rcache_inv_length [OF inv] by simp
  show "nanvix_rcache_put E st p = Some (Inr 0, st\<lparr>ca_lines := (ca_lines st)[i := e]\<rparr>)"
    using pn s len i(3) by (simp add: nanvix_rcache_put_def line_update_ok e_def)
  have k: "line_key e = Some p" using i(2,3) by (auto simp: line_key_def e_def split: if_splits)
  have "rcache_inv E (st\<lparr>ca_ngets := ca_ngets st, ca_lines := (ca_lines st)[i := e], ca_mem := ca_mem st\<rparr>)"
  proof (rule rcache_inv_update [OF inv i(1) _ rcache_inv_mem [OF inv]])
    show "line_ok e" using ok i(3) by (auto simp: line_ok_def e_def)
    show "j = i" if "j < length (ca_lines st)" "line_key (ca_lines st ! j) = line_key e" for j
      using slots_uniqueD [OF rcache_inv_unique [OF inv] len that(1) i(2)] that(2) k by simp
  qed
  then show "rcache_inv E (st\<lparr>ca_lines := (ca_lines st)[i := e]\<rparr>)" by simp
qed

lemma rcache_store_inv:
  assumes inv: "rcache_inv E st" and i: "i < RCACHE_LENGTH" and d: "length d = RMEM_BLOCK_SIZE"
  shows "rcache_inv E (rcache_store st i d)"
proof -
  let ?l = "ca_lines st ! i"
  have "rcache_inv E (st\<lparr>ca_ngets := ca_ngets st, ca_lines := (ca_lines st)[i := ?l\<lparr>rl_page := d\<rparr>], ca_mem := ca_mem st\<rparr>)"
  proof (rule rcache_inv_update [OF inv i _ rcache_inv_mem [OF inv]])
    show "line_ok (?l\<lparr>rl_page := d\<rparr>)" using rcache_inv_line [OF inv i] d by (simp add: line_ok_def)
    fix j assume j: "line_key (?l\<lparr>rl_page := d\<rparr>) \<noteq> None" "j < length (ca_lines st)" "line_key (ca_lines st ! j) = line_key (?l\<lparr>rl_page := d\<rparr>)"
    have "line_key (?l\<lparr>rl_page := d\<rparr>) = line_key ?l" by (simp add: line_key_def)
    with j slots_uniqueD [OF rcache_inv_unique [OF inv], of i j] i rcache_inv_length [OF inv] show "j = i" by (metis option.exhaust)
  qed
  then show ?thesis by (simp add: rcache_store_def)
qed

section \<open>The life of the cache\<close>

definition rcache_touch :: "'w :: len word rmem_env \<Rightarrow> 'w word rcache \<Rightarrow> 'w word \<Rightarrow> 'w word rcache option" where
  "rcache_touch E st p = do { (_, st1) \<leftarrow> nanvix_rcache_get E st p; (_, st2) \<leftarrow> nanvix_rcache_put E st1 p; Some st2 }"

fun rcache_touches :: "'w :: len word rmem_env \<Rightarrow> 'w word rcache \<Rightarrow> 'w word list \<Rightarrow> 'w word rcache option" where
  "rcache_touches E st [] = Some st"
| "rcache_touches E st (p # ps) = do { st1 \<leftarrow> rcache_touch E st p; rcache_touches E st1 ps }"

text \<open>With no page in use, \<open>k\<close> lines filled and the rest empty.\<close>

definition rcache_filled :: "'w :: len word rmem_env \<Rightarrow> nat \<Rightarrow> 'w word rcache \<Rightarrow> bool" where
  "rcache_filled E k st \<longleftrightarrow> rcache_inv E st \<and> k \<le> RCACHE_LENGTH \<and> (\<forall>l\<in>set (ca_lines st). rl_refcount l = 0) \<and>
     (\<forall>i<RCACHE_LENGTH. rl_pgnum (ca_lines st ! i) = RMEM_NULL \<longleftrightarrow> k \<le> i)"

lemma rcache_filled_miss: "rcache_filled E k st \<Longrightarrow> nanvix_rcache_page_search st p = None"
  by (auto simp: rcache_filled_def nanvix_rcache_page_search_def first_index_None_iff)

lemma rcache_filled_empty:
  assumes "rcache_filled E k st"
  shows "nanvix_rcache_empty st = (if k < RCACHE_LENGTH then Some k else None)"
proof -
  have len: "length (ca_lines st) = RCACHE_LENGTH" and f: "\<And>i. i < RCACHE_LENGTH \<Longrightarrow> rl_pgnum (ca_lines st ! i) = RMEM_NULL \<longleftrightarrow> k \<le> i"
    using assms by (auto simp: rcache_filled_def rcache_inv_def)
  show ?thesis
  proof (cases "k < RCACHE_LENGTH")
    case True
    with len f show ?thesis by (simp add: nanvix_rcache_empty_def first_index_Some_iff)
  next
    case False
    with len f show ?thesis by (simp add: nanvix_rcache_empty_def first_index_None_iff)
  qed
qed

lemma rcache_touch_filled:
  fixes E :: "'w :: len word rmem_env"
  assumes f: "rcache_filled E k st" and k: "k < RCACHE_LENGTH" and pg: "page_abs (ca_mem st) p = Some (own, d)"
  shows "\<exists>st'. rcache_touch E st p = Some st' \<and> rcache_filled E (Suc k) st' \<and> page_abs (ca_mem st') = (page_abs (ca_mem st) :: 'w word \<Rightarrow> _)"
proof -
  have inv: "rcache_inv E st" using f by (simp add: rcache_filled_def)
  have empty: "nanvix_rcache_empty st = Some k" using rcache_filled_empty [OF f] k by simp
  obtain w a where get: "nanvix_rcache_get E st p = Some (Some k, st\<lparr>ca_ngets := ca_ngets st + 1,
      ca_lines := (ca_lines st)[k := \<lparr>rl_age = a, rl_pgnum = p, rl_refcount = 1, rl_page = d\<rparr>], ca_mem := w\<rparr>)"
    "stub_inv E w" "page_abs w = (page_abs (ca_mem st) :: 'w word \<Rightarrow> _)" "p \<noteq> RMEM_NULL"
    "rcache_inv E (st\<lparr>ca_ngets := ca_ngets st + 1,
      ca_lines := (ca_lines st)[k := \<lparr>rl_age = a, rl_pgnum = p, rl_refcount = 1, rl_page = d\<rparr>], ca_mem := w\<rparr>)"
    by (rule rcache_get_miss [OF inv rcache_filled_miss [OF f] empty pg])
  define st1 where "st1 = st\<lparr>ca_ngets := ca_ngets st + 1,
      ca_lines := (ca_lines st)[k := \<lparr>rl_age = a, rl_pgnum = p, rl_refcount = 1, rl_page = d\<rparr>], ca_mem := w\<rparr>"
  have len: "k < length (ca_lines st)" using k rcache_inv_length [OF inv] by simp
  have l: "ca_lines st1 ! k = \<lparr>rl_age = a, rl_pgnum = p, rl_refcount = 1, rl_page = d\<rparr>" "ca_mem st1 = w"
    using len by (simp_all add: st1_def)
  have kl: "line_key (ca_lines st1 ! k) = Some p" "rl_refcount (ca_lines st1 ! k) = 1" using l by (simp_all add: line_key_def)
  have pg1: "page_abs (ca_mem st1) p = Some (own, d)" using l(2) get(3) pg by simp
  obtain w2 where put: "nanvix_rcache_put E st1 p = Some (Inr 0, st1\<lparr>ca_lines := (ca_lines st1)[k := (ca_lines st1 ! k)\<lparr>rl_refcount := 0\<rparr>], ca_mem := w2\<rparr>)"
    "page_abs w2 = (page_abs (ca_mem st1))(p \<mapsto> (own, rl_page (ca_lines st1 ! k)))"
    "rcache_inv E (st1\<lparr>ca_lines := (ca_lines st1)[k := (ca_lines st1 ! k)\<lparr>rl_refcount := 0\<rparr>], ca_mem := w2\<rparr>)"
    by (rule rcache_put_last [OF get(5) [folded st1_def] k kl pg1])
  have same: "page_abs w2 = (page_abs (ca_mem st) :: 'w word \<Rightarrow> _)" unfolding put(2) l using get(3) pg by (simp add: fun_eq_iff)
  let ?st2 = "st1\<lparr>ca_lines := (ca_lines st1)[k := (ca_lines st1 ! k)\<lparr>rl_refcount := 0\<rparr>], ca_mem := w2\<rparr>"
  have "rcache_touch E st p = Some ?st2" using get(1) put(1) by (simp add: rcache_touch_def st1_def)
  moreover have "\<forall>l\<in>set (ca_lines ?st2). rl_refcount l = 0"
    using f by (auto simp: st1_def rcache_filled_def dest!: set_update_subset_insert [THEN subsetD])
  moreover have "rl_pgnum (ca_lines ?st2 ! i) = RMEM_NULL \<longleftrightarrow> Suc k \<le> i" if "i < RCACHE_LENGTH" for i
    using f len l that get(4) by (cases "i = k") (auto simp: st1_def rcache_filled_def)
  ultimately show ?thesis using put(3) same k by (auto simp: rcache_filled_def)
qed


text \<open>Without a line for the page and without an empty one, the search for the oldest line leaves the array.\<close>

lemma rcache_get_full:
  assumes "rcache_inv E st" "nanvix_rcache_page_search st p = None" "nanvix_rcache_empty st = None" "p \<noteq> RMEM_NULL"
  shows "nanvix_rcache_get E st p = None"
proof -
  have "[0..<RCACHE_LENGTH] = 0 # [1..<RCACHE_LENGTH]" by (simp add: RCACHE_LENGTH_def upt_conv_Cons)
  with assms(3) have "nanvix_rcache_fifo E st = None" by (simp add: nanvix_rcache_fifo_def)
  with assms(2,4) rcache_inv_fifo [OF assms(1)] show ?thesis by (simp add: nanvix_rcache_get_def rcache_evict_def)
qed

lemma rcache_touch_full:
  assumes "rcache_filled E RCACHE_LENGTH st" "p \<noteq> RMEM_NULL"
  shows "rcache_touch E st p = None"
proof -
  have "nanvix_rcache_empty st = None" using rcache_filled_empty [OF assms(1)] by simp
  moreover have "rcache_inv E st" using assms(1) by (simp add: rcache_filled_def)
  ultimately show ?thesis using assms(2) rcache_filled_miss [OF assms(1)] by (simp add: rcache_touch_def rcache_get_full)
qed

lemma rcache_touches_filled:
  fixes E :: "'w :: len word rmem_env"
  assumes "rcache_filled E k st" "\<forall>p\<in>set ps. page_abs (ca_mem st) p \<noteq> None"
  shows "rcache_touches E st ps \<noteq> None \<longleftrightarrow> k + length ps \<le> RCACHE_LENGTH"
  using assms
proof (induction ps arbitrary: k st)
  case Nil
  then show ?case by (simp add: rcache_filled_def)
next
  case (Cons p ps)
  obtain own d where pg: "page_abs (ca_mem st) p = Some (own, d)" using Cons.prems(2) by auto
  show ?case
  proof (cases "k < RCACHE_LENGTH")
    case True
    obtain st1 where st1: "rcache_touch E st p = Some st1" "rcache_filled E (Suc k) st1" "page_abs (ca_mem st1) = (page_abs (ca_mem st) :: 'w word \<Rightarrow> _)"
      using rcache_touch_filled [OF Cons.prems(1) True pg] by blast
    from Cons.IH [OF st1(2)] Cons.prems(2) st1 show ?thesis by simp
  next
    case False
    have inv: "rcache_inv E st" using Cons.prems(1) by (simp add: rcache_filled_def)
    from False Cons.prems(1) have k: "k = RCACHE_LENGTH" by (simp add: rcache_filled_def)
    have "p \<noteq> RMEM_NULL" using stub.null_page [OF rcache_inv_mem [OF inv]] pg by auto
    from rcache_touch_full [OF Cons.prems(1) [unfolded k] this] k show ?thesis by simp
  qed
qed

lemma rcache_setup_filled:
  assumes "length (ca_lines st) = RCACHE_LENGTH" "\<not> ca_initialized st" "stub_inv E (ca_mem st)"
    "\<forall>l\<in>set (ca_lines st). length (rl_page l) = RMEM_BLOCK_SIZE"
  shows "rcache_filled E 0 (nanvix_rcache_setup st)" "ca_mem (nanvix_rcache_setup st) = ca_mem st"
  using assms
  by (auto simp: rcache_filled_def rcache_inv_def nanvix_rcache_setup_def Let_def nanvix_rcache_select_replacement_policy_def
      line_ok_def slots_unique_def line_key_def)

definition rcache_static :: "rmem_system \<Rightarrow> 64 word rcache" where
  "rcache_static w = \<lparr>ca_initialized = False, ca_evict_fn = None, ca_ngets = 0, ca_nmisses = 0, ca_nhits = 0,
     ca_lines = replicate RCACHE_LENGTH \<lparr>rl_age = 0, rl_pgnum = 0, rl_refcount = 0, rl_page = replicate RMEM_BLOCK_SIZE 0\<rparr>, ca_mem = w\<rparr>"

section \<open>Properties\<close>

text \<open>
  C25. A page goes through the cache, on every path of a get with the default policy. Without a line in use for the page and without an empty line the
  get leaves the array of lines. Otherwise it returns a line and changes no page in the remote memory. If the page was in no
  use, the line shows the contents in the remote memory, and when its user stores into the line and puts it back, the remote
  page holds what was stored and no other page has changed. If the page was in use, the line is that of its users, with
  what it holds, and the put writes nothing to the remote memory.
\<close>

theorem rcache_get_store_put:
  fixes E :: "'w :: len word rmem_env"
  assumes inv: "rcache_inv E st" and pg: "page_abs (ca_mem st) p = Some (own, d)" and d': "length d' = RMEM_BLOCK_SIZE"
  shows "if nanvix_rcache_page_search st p = None \<and> nanvix_rcache_empty st = None then nanvix_rcache_get E st p = None
    else \<exists>i st1 st3. nanvix_rcache_get E st p = Some (Some i, st1) \<and> rcache_inv E st1 \<and>
      page_abs (ca_mem st1) = (page_abs (ca_mem st) :: 'w word \<Rightarrow> _) \<and>
      rl_page (ca_lines st1 ! i) = (case nanvix_rcache_page_search st p of None \<Rightarrow> d | Some j \<Rightarrow> rl_page (ca_lines st ! j)) \<and>
      nanvix_rcache_put E (rcache_store st1 i d') p = Some (Inr 0, st3) \<and> rcache_inv E st3 \<and>
      page_abs (ca_mem st3) = (if nanvix_rcache_page_search st p = None then (page_abs (ca_mem st))(p \<mapsto> (own, d')) else page_abs (ca_mem st))"
proof (cases "nanvix_rcache_page_search st p")
  case None
  have pn: "p \<noteq> RMEM_NULL" using stub.null_page [OF rcache_inv_mem [OF inv]] pg by auto
  show ?thesis
  proof (cases "nanvix_rcache_empty st")
    case full: None
    with None rcache_get_full [OF inv None full pn] show ?thesis by simp
  next
    case i: (Some i)
    obtain w a where get: "nanvix_rcache_get E st p = Some (Some i, st\<lparr>ca_ngets := ca_ngets st + 1,
        ca_lines := (ca_lines st)[i := \<lparr>rl_age = a, rl_pgnum = p, rl_refcount = 1, rl_page = d\<rparr>], ca_mem := w\<rparr>)"
      "page_abs w = (page_abs (ca_mem st) :: 'w word \<Rightarrow> _)" "i < RCACHE_LENGTH"
      "rcache_inv E (st\<lparr>ca_ngets := ca_ngets st + 1,
        ca_lines := (ca_lines st)[i := \<lparr>rl_age = a, rl_pgnum = p, rl_refcount = 1, rl_page = d\<rparr>], ca_mem := w\<rparr>)"
      by (rule rcache_get_miss [OF inv None i pg])
    define st1 where "st1 = st\<lparr>ca_ngets := ca_ngets st + 1,
        ca_lines := (ca_lines st)[i := \<lparr>rl_age = a, rl_pgnum = p, rl_refcount = 1, rl_page = d\<rparr>], ca_mem := w\<rparr>"
    let ?st2 = "rcache_store st1 i d'"
    have len: "i < length (ca_lines st)" using get(3) rcache_inv_length [OF inv] by simp
    have inv2: "rcache_inv E ?st2" by (rule rcache_store_inv [OF get(4) [folded st1_def] get(3) d'])
    have l: "line_key (ca_lines ?st2 ! i) = Some p" "rl_refcount (ca_lines ?st2 ! i) = 1" "rl_page (ca_lines ?st2 ! i) = d'"
      "page_abs (ca_mem ?st2) p = Some (own, d)" "page_abs (ca_mem ?st2) = (page_abs (ca_mem st) :: 'w word \<Rightarrow> _)"
      "rl_page (ca_lines st1 ! i) = d"
      using len get(2) pg by (simp_all add: rcache_store_def st1_def line_key_def)
    obtain st3 where "nanvix_rcache_put E ?st2 p = Some (Inr 0, st3)" "page_abs (ca_mem st3) = (page_abs (ca_mem ?st2))(p \<mapsto> (own, d'))" "rcache_inv E st3"
      by (rule rcache_put_last [OF inv2 get(3) l(1,2,4)]) (use l(3) in simp)
    with None i get l show ?thesis unfolding st1_def [symmetric] by (auto simp: st1_def)
  qed
next
  case (Some i)
  let ?l = "ca_lines st ! i"
  have i: "i < RCACHE_LENGTH" and k: "line_key ?l = Some p" using Some by (simp_all add: page_search_iff [OF inv])
  have pn: "p \<noteq> RMEM_NULL" using stub.null_page [OF rcache_inv_mem [OF inv]] pg by auto
  have ok: "line_ok ?l" by (rule rcache_inv_line [OF inv i])
  have len: "i < length (ca_lines st)" using i rcache_inv_length [OF inv] by simp
  define st1 where "st1 = st\<lparr>ca_ngets := ca_ngets st + 1, ca_lines := (ca_lines st)[i := ?l\<lparr>rl_refcount := rl_refcount ?l + 1\<rparr>]\<rparr>"
  have get: "nanvix_rcache_get E st p = Some (Some i, st1)" "rcache_inv E st1" using rcache_get_hit [OF inv Some pn] by (simp_all add: st1_def)
  have rc: "1 \<le> rl_refcount ?l" "rl_pgnum ?l = p" using k ok by (auto simp: line_key_def line_ok_def split: if_splits)
  let ?st2 = "rcache_store st1 i d'"
  have inv2: "rcache_inv E ?st2" by (rule rcache_store_inv [OF get(2) i d'])
  have l2: "line_key (ca_lines ?st2 ! i) = Some p" "1 < rl_refcount (ca_lines ?st2 ! i)"
    using len rc by (simp_all add: rcache_store_def st1_def line_key_def)
  note put = rcache_put_shared [OF inv2 i l2]
  with get put Some len show ?thesis by (auto simp: rcache_store_def st1_def)
qed

text \<open>
  C40. The cache is used up. A line given back keeps its page number but is never found again, so with the default
  policy every use of a page that is not in use takes one of the empty lines: after set-up, using
  allocated pages one after the other succeeds exactly 32 times, and then the search for the oldest
  line reads the line at index \<open>-1\<close>.
\<close>

theorem rcache_used_up:
  assumes "length (ca_lines st) = RCACHE_LENGTH" "\<not> ca_initialized st" "stub_inv E (ca_mem st)"
    "\<forall>l\<in>set (ca_lines st). length (rl_page l) = RMEM_BLOCK_SIZE" "\<forall>p\<in>set ps. page_abs (ca_mem st) p \<noteq> None"
  shows "rcache_touches E (nanvix_rcache_setup st) ps = None \<longleftrightarrow> RCACHE_LENGTH < length ps"
  using rcache_touches_filled [OF rcache_setup_filled(1) [OF assms(1-4)], of ps] rcache_setup_filled(2) [OF assms(1-4)] assms(5) by auto

theorem rcache_used_up_witness:
  "\<exists>p w. rcache_touches rmem_env_ideal (nanvix_rcache_setup (rcache_static w)) (replicate 33 p) = None \<and>
     rcache_touches rmem_env_ideal (nanvix_rcache_setup (rcache_static w)) (replicate 32 p) \<noteq> None"
proof -
  obtain p w where a: "nanvix_rmem_alloc rmem_env_ideal rmem_two_up = Some (p, w)" "p \<noteq> RMEM_NULL" "page_abs w p \<noteq> None"
    by (rule rmem_two_up_alloc)
  have "stub_inv rmem_env_ideal w" using stub.alloc_law [OF rmem_two_up_inv] a(1) by auto
  then have "rcache_touches rmem_env_ideal (nanvix_rcache_setup (rcache_static w)) (replicate n p) = None \<longleftrightarrow> RCACHE_LENGTH < n" for n
    using rcache_used_up [of "rcache_static w" rmem_env_ideal "replicate n p"] a(3) by (simp add: rcache_static_def)
  then show ?thesis by (intro exI [of _ p] exI [of _ w]) (simp add: RCACHE_LENGTH_def)
qed

theorem rcache_get_store_put_witness:
  "\<exists>p w i st1 st3. nanvix_rcache_get rmem_env_ideal (nanvix_rcache_setup (rcache_static w)) p = Some (Some i, st1) \<and>
     nanvix_rcache_put rmem_env_ideal (rcache_store st1 i (replicate RMEM_BLOCK_SIZE 7)) p = Some (Inr 0, st3)"
proof -
  obtain p w where a: "nanvix_rmem_alloc rmem_env_ideal rmem_two_up = Some (p, w)" "p \<noteq> RMEM_NULL" "page_abs w p \<noteq> None"
    by (rule rmem_two_up_alloc)
  have "stub_inv rmem_env_ideal w" using stub.alloc_law [OF rmem_two_up_inv] a(1) by auto
  then have f: "rcache_filled rmem_env_ideal 0 (nanvix_rcache_setup (rcache_static w))" "ca_mem (nanvix_rcache_setup (rcache_static w)) = w"
    using rcache_setup_filled [of "rcache_static w" rmem_env_ideal] by (simp_all add: rcache_static_def)
  then have "rcache_inv rmem_env_ideal (nanvix_rcache_setup (rcache_static w))" by (simp add: rcache_filled_def)
  moreover obtain own d where "page_abs (ca_mem (nanvix_rcache_setup (rcache_static w))) p = Some (own, d)" using a(3) f(2) by auto
  moreover have "nanvix_rcache_empty (nanvix_rcache_setup (rcache_static w)) \<noteq> None"
    using rcache_filled_empty [OF f(1)] by (simp add: RCACHE_LENGTH_def)
  ultimately obtain i st1 st3 where "nanvix_rcache_get rmem_env_ideal (nanvix_rcache_setup (rcache_static w)) p = Some (Some i, st1)"
    "nanvix_rcache_put rmem_env_ideal (rcache_store st1 i (replicate RMEM_BLOCK_SIZE 7)) p = Some (Inr 0, st3)"
    using rcache_get_store_put [of rmem_env_ideal "nanvix_rcache_setup (rcache_static w)" p own d "replicate RMEM_BLOCK_SIZE 7"] by auto
  then show ?thesis by blast
qed

end
