(* ===== verification/Vmem.thy ===== *)
theory Vmem
  imports RCache
begin

text \<open>
  The virtual memory manager of the runtime, \<open>src/libruntime/mm/manager.c\<close>, over the page cache. A table maps the
  pages of the user's address range to remote pages, allocation moves a break upwards, and reads, writes and page
  faults go through the cache. The start of the range, the page mask and the kernel's calls on page mappings are the
  parameter \<open>vm_env\<close>. Addresses are words, zero the null pointer; a pointer into the cache is the index of its line.
\<close>

section \<open>State\<close>

definition RMEM_TABLE_LENGTH :: nat where "RMEM_TABLE_LENGTH = 1024"

definition RCACHE_SIZE :: nat where "RCACHE_SIZE = RCACHE_LENGTH"

record 'b vm_env =
  UBASE_VIRT :: 'b
  PAGE_MASK :: 'b
  page_unmap_ok :: "'b \<Rightarrow> bool"
  page_link_ok :: "nat \<Rightarrow> 'b \<Rightarrow> bool"

record 'b vm_map =
  mp_laddr :: 'b
  mp_raddr :: "nat option"

record 'b vmem =
  vm_table :: "'b list"
  vm_rbrk :: int
  vm_maps :: "'b vm_map list"
  vm_errno :: "errno option"
  vm_cache :: "'b rcache"

section \<open>Operations\<close>

definition RADDR :: "'w :: len word vm_env \<Rightarrow> int \<Rightarrow> 'w word" where
  "RADDR V x = UBASE_VIRT V + word_of_int (push_bit RMEM_BLOCK_SHIFT x)"

definition RADDR_INV :: "'w :: len word vm_env \<Rightarrow> 'w word \<Rightarrow> 'w word" where
  "RADDR_INV V x = x - UBASE_VIRT V"

definition nanvix_vmem_lookup :: "'w :: len word vmem \<Rightarrow> 'w word \<Rightarrow> ('w word \<times> 'w word) result" where
  "nanvix_vmem_lookup st ptr =
     (if ptr = 0 then Inl EFAULT
      else let base = drop_bit RMEM_BLOCK_SHIFT ptr in
        if RMEM_TABLE_LENGTH \<le> unat base then Inl EINVAL
        else if vm_table st ! unat base = RMEM_NULL then Inl EFAULT
        else Inr (base, ptr AND (of_nat RMEM_BLOCK_SIZE - 1)))"

text \<open>The sum is of type \<open>int\<close>, and its overflow undefined.\<close>

definition nanvix_vmem_expand :: "'b vmem \<Rightarrow> int \<Rightarrow> (int result \<times> 'b vmem) option" where
  "nanvix_vmem_expand st n =
     (if n \<le> 0 then Some (Inl EINVAL, st)
      else do {
        uassert (vm_rbrk st + n < 2 ^ 31);
        if int RMEM_TABLE_LENGTH \<le> vm_rbrk st + n then Some (Inl ENOMEM, st)
        else Some (Inr (vm_rbrk st), st\<lparr>vm_rbrk := vm_rbrk st + n\<rparr>) })"

definition nanvix_vmem_contract :: "'b vmem \<Rightarrow> int \<Rightarrow> int result \<times> 'b vmem" where
  "nanvix_vmem_contract st n =
     (if n \<le> 0 then (Inl EINVAL, st)
      else if vm_rbrk st - n < 1 then (Inl EINVAL, st)
      else (Inr (vm_rbrk st), st\<lparr>vm_rbrk := vm_rbrk st - n\<rparr>))"

text \<open>The loop that allocates the pages; it stops at the first that is refused.\<close>

fun vmem_fill :: "'w :: len word rmem_env \<Rightarrow> 'w word vmem \<Rightarrow> nat \<Rightarrow> nat list \<Rightarrow> (bool \<times> 'w word vmem) option" where
  "vmem_fill E st base [] = Some (True, st)"
| "vmem_fill E st base (i # is) =
     do { (pgnum, c) \<leftarrow> nanvix_rcache_alloc E (vm_cache st);
          if pgnum = RMEM_NULL then Some (False, st\<lparr>vm_cache := c\<rparr>)
          else do { t \<leftarrow> arr_set (vm_table st) (base + i) pgnum;
                    vmem_fill E (st\<lparr>vm_cache := c, vm_table := t\<rparr>) base is } }"

text \<open>The number of pages is a \<open>size_t\<close>, which \<open>nanvix_vmem_expand\<close> receives as an \<open>int\<close>.\<close>

definition nanvix_vmem_alloc :: "'w :: len word rmem_env \<Rightarrow> 'w word vm_env \<Rightarrow> 'w word vmem \<Rightarrow> 'w word \<Rightarrow> ('w word \<times> 'w word vmem) option" where
  "nanvix_vmem_alloc E V st n =
     (if n = 0 then Some (0, st)
      else do {
        (r, st1) \<leftarrow> nanvix_vmem_expand st (signed_take_bit 31 (uint n));
        case r of
          Inl _ \<Rightarrow> Some (0, st1)
        | Inr base \<Rightarrow> do {
            (filled, st2) \<leftarrow> vmem_fill E st1 (nat base) [0..<unat n];
            Some (if filled then RADDR V base else 0, st2) } })"

fun vmem_release :: "'w :: len word rmem_env \<Rightarrow> 'w word vmem \<Rightarrow> nat list \<Rightarrow> (int result \<times> 'w word vmem) option" where
  "vmem_release E st [] = Some (Inr 0, st)"
| "vmem_release E st (i # is) =
     do { p \<leftarrow> arr_get (vm_table st) i;
          (r, c) \<leftarrow> nanvix_rcache_free E (vm_cache st) p;
          case r of
            Inl e \<Rightarrow> Some (Inl e, st\<lparr>vm_cache := c\<rparr>)
          | Inr _ \<Rightarrow> do {
              t \<leftarrow> arr_set (vm_table st) i RMEM_NULL;
              vmem_release E (st\<lparr>vm_cache := c, vm_table := t\<rparr>) is } }"

text \<open>The difference of the break and the base is unsigned.\<close>

definition nanvix_vmem_free :: "'w :: len word rmem_env \<Rightarrow> 'w word vm_env \<Rightarrow> 'w word vmem \<Rightarrow> 'w word \<Rightarrow> (int result \<times> 'w word vmem) option" where
  "nanvix_vmem_free E V st ptr =
     (let p = RADDR_INV V ptr in
      if p = 0 then Some (Inl EFAULT, st)
      else case nanvix_vmem_lookup st p of
        Inl err \<Rightarrow> Some (Inl err, st)
      | Inr (base, _) \<Rightarrow>
          if word_of_int (vm_rbrk st) - base < 1 then Some (Inl EFAULT, st)
          else do {
            (r, st1) \<leftarrow> vmem_release E st [unat base..<nat (vm_rbrk st)];
            case r of
              Inl err \<Rightarrow> Some (Inl err, st1)
            | Inr _ \<Rightarrow>
                (case nanvix_vmem_contract st1 (signed_take_bit 31 (uint (word_of_int (vm_rbrk st1) - base))) of
                   (Inl err, st2) \<Rightarrow> Some (Inl err, st2)
                 | (Inr _, st2) \<Rightarrow> Some (Inr 0, st2)) })"

definition vmem_fail :: "errno \<Rightarrow> 'b vmem \<Rightarrow> 'b vmem" where
  "vmem_fail e st = st\<lparr>vm_errno := Some e\<rparr>"

text \<open>What both transfers check, in this order; the result is the page and the offset in it.\<close>

definition vmem_target :: "'w :: len word vmem \<Rightarrow> 'w word \<Rightarrow> bool \<Rightarrow> nat \<Rightarrow> (nat \<times> nat) result" where
  "vmem_target st p null n =
     (if p = 0 then Inl EFAULT
      else case nanvix_vmem_lookup st p of
        Inl err \<Rightarrow> Inl err
      | Inr (base, offset) \<Rightarrow>
          if null then Inl EINVAL
          else if RMEM_BLOCK_SIZE < n \<or> RMEM_BLOCK_SIZE < unat offset + n then Inl EINVAL
          else Inr (unat base, unat offset))"

definition nanvix_vmem_read :: "'w :: len word rmem_env \<Rightarrow> 'w word vm_env \<Rightarrow> 'w word vmem \<Rightarrow> bool \<Rightarrow> 'w word \<Rightarrow> nat \<Rightarrow>
    (nat \<times> byte list option \<times> 'w word vmem) option" where
  "nanvix_vmem_read E V st null ptr n =
     (if n = 0 then Some (0, None, st)
      else case vmem_target st (RADDR_INV V ptr) null n of
        Inl err \<Rightarrow> Some (0, None, vmem_fail err st)
      | Inr (base, offset) \<Rightarrow> do {
          (rptr, c) \<leftarrow> nanvix_rcache_get E (vm_cache st) (vm_table st ! base);
          case rptr of
            None \<Rightarrow> Some (0, None, st\<lparr>vm_cache := c\<rparr>)
          | Some i \<Rightarrow> do {
              l \<leftarrow> arr_get (ca_lines c) i;
              Some (n, Some (take n (drop offset (rl_page l))), st\<lparr>vm_cache := c\<rparr>) } })"

definition nanvix_vmem_write :: "'w :: len word rmem_env \<Rightarrow> 'w word vm_env \<Rightarrow> 'w word vmem \<Rightarrow> 'w word \<Rightarrow> byte list option \<Rightarrow> nat \<Rightarrow>
    (nat \<times> 'w word vmem) option" where
  "nanvix_vmem_write E V st ptr buf n =
     (if n = 0 then Some (0, st)
      else case vmem_target st (RADDR_INV V ptr) (buf = None) n of
        Inl err \<Rightarrow> Some (0, vmem_fail err st)
      | Inr (base, offset) \<Rightarrow> do {
          (rptr, c) \<leftarrow> nanvix_rcache_get E (vm_cache st) (vm_table st ! base);
          case rptr of
            None \<Rightarrow> Some (0, st\<lparr>vm_cache := c\<rparr>)
          | Some i \<Rightarrow> do {
              l \<leftarrow> arr_get (ca_lines c) i;
              data \<leftarrow> buf;
              uassert (n \<le> length data);
              Some (n, st\<lparr>vm_cache := rcache_store c i
                (take offset (rl_page l) @ take n data @ drop (offset + n) (rl_page l))\<rparr>) } })"

text \<open>
  The search for the mapping of a line: when there is none, the index left is that of the last entry, whose mapping is
  replaced without being removed.
\<close>

definition nanvix_rfault :: "'w :: len word rmem_env \<Rightarrow> 'w word vm_env \<Rightarrow> 'w word vmem \<Rightarrow> 'w word \<Rightarrow> (int result \<times> 'w word vmem) option" where
  "nanvix_rfault E V st addr =
     (let vaddr = addr AND PAGE_MASK V in
      case nanvix_vmem_lookup st (RADDR_INV V vaddr) of
        Inl _ \<Rightarrow> Some (Inl EFAULT, st)
      | Inr (base, _) \<Rightarrow> do {
          (rptr, c) \<leftarrow> nanvix_rcache_get E (vm_cache st) (vm_table st ! unat base);
          case rptr of
            None \<Rightarrow> Some (Inl EFAULT, st\<lparr>vm_cache := c\<rparr>)
          | Some i \<Rightarrow> do {
              idx \<leftarrow> (case first_index (\<lambda>m. mp_raddr m = Some i) (vm_maps st) of
                 Some k \<Rightarrow> do { uassert (page_unmap_ok V (mp_laddr (vm_maps st ! k))); Some k }
               | None \<Rightarrow> Some (RCACHE_SIZE - 1));
              maps \<leftarrow> arr_set (vm_maps st) idx \<lparr>mp_laddr = vaddr, mp_raddr = Some i\<rparr>;
              uassert (page_link_ok V i vaddr);
              Some (Inr 0, st\<lparr>vm_cache := c, vm_maps := maps\<rparr>) } })"

text \<open>The static state.\<close>

definition vmem_static :: "'w :: len word rcache \<Rightarrow> 'w word vmem" where
  "vmem_static c = \<lparr>vm_table = replicate RMEM_TABLE_LENGTH RMEM_NULL, vm_rbrk = 1,
     vm_maps = replicate RCACHE_SIZE \<lparr>mp_laddr = RMEM_NULL, mp_raddr = None\<rparr>, vm_errno = None, vm_cache = c\<rparr>"

section \<open>What the cache shows of a page\<close>

definition page_view :: "'w :: len word rcache \<Rightarrow> 'w word \<Rightarrow> byte list option" where
  "page_view c p = (case nanvix_rcache_page_search c p of
     Some i \<Rightarrow> Some (rl_page (ca_lines c ! i)) | None \<Rightarrow> map_option snd (page_abs (ca_mem c) p))"

definition rcache_room :: "'w :: len word rcache \<Rightarrow> 'w word \<Rightarrow> bool" where
  "rcache_room c p \<longleftrightarrow> nanvix_rcache_page_search c p \<noteq> None \<or> nanvix_rcache_empty c \<noteq> None"

lemma page_search_update:
  assumes "rcache_inv E c" "rcache_inv E c'" "ca_lines c' = (ca_lines c)[i := l]" "i < RCACHE_LENGTH"
  shows "nanvix_rcache_page_search c' q = (if line_key l = Some q then Some i
    else if nanvix_rcache_page_search c q = Some i then None else nanvix_rcache_page_search c q)"
proof -
  have *: "nanvix_rcache_page_search c' q = Some j \<longleftrightarrow> j < RCACHE_LENGTH \<and> line_key ((ca_lines c)[i := l] ! j) = Some q" for j
    using page_search_iff [OF assms(2), of q j] assms(3) by simp
  note ** = page_search_iff [OF assms(1), of q]
  show ?thesis
  proof (cases "line_key l = Some q")
    case True
    with * [of i] assms(4) rcache_inv_length [OF assms(1)] show ?thesis by simp
  next
    case False
    show ?thesis
    proof (cases "nanvix_rcache_page_search c q")
      case None
      have "nanvix_rcache_page_search c' q \<noteq> Some j" for j
        using * [of j] ** [of j] None False assms(4) rcache_inv_length [OF assms(1)] by (cases "j = i") auto
      with None False show ?thesis by auto
    next
      case (Some j)
      show ?thesis
      proof (cases "j = i")
        case True
        have "nanvix_rcache_page_search c' q \<noteq> Some k" for k
        proof
          assume "nanvix_rcache_page_search c' q = Some k"
          with * [of k] False assms(4) rcache_inv_length [OF assms(1)] have "k < RCACHE_LENGTH" "k \<noteq> i" "line_key (ca_lines c ! k) = Some q"
            by (cases "k = i"; simp)+
          with ** [of k] Some True show False by simp
        qed
        with Some True False show ?thesis by auto
      next
        case False
        with Some * [of j] ** [of j] \<open>line_key l \<noteq> Some q\<close> show ?thesis by simp
      qed
    qed
  qed
qed

text \<open>Getting a page shows its contents and changes the contents of none; storing into its line changes that page alone.\<close>

lemma rcache_get_view:
  fixes E :: "'w :: len word rmem_env"
  assumes inv: "rcache_inv E c" and pg: "page_abs (ca_mem c) p = Some (own, d)" and room: "rcache_room c p"
  obtains i c' where "nanvix_rcache_get E c p = Some (Some i, c')" "rcache_inv E c'" "i < RCACHE_LENGTH" "page_view c' = page_view c"
    "page_abs (ca_mem c') = (page_abs (ca_mem c) :: 'w word \<Rightarrow> _)" "page_view c p = Some (rl_page (ca_lines c' ! i))"
    "nanvix_rcache_page_search c' = (nanvix_rcache_page_search c)(p \<mapsto> i)"
proof (cases "nanvix_rcache_page_search c p")
  case None
  with room obtain i where i: "nanvix_rcache_empty c = Some i" by (auto simp: rcache_room_def)
  obtain w a where g: "nanvix_rcache_get E c p = Some (Some i, c\<lparr>ca_ngets := ca_ngets c + 1,
      ca_lines := (ca_lines c)[i := \<lparr>rl_age = a, rl_pgnum = p, rl_refcount = 1, rl_page = d\<rparr>], ca_mem := w\<rparr>)"
    "page_abs w = (page_abs (ca_mem c) :: 'w word \<Rightarrow> _)" "i < RCACHE_LENGTH" "p \<noteq> RMEM_NULL"
    "rcache_inv E (c\<lparr>ca_ngets := ca_ngets c + 1,
      ca_lines := (ca_lines c)[i := \<lparr>rl_age = a, rl_pgnum = p, rl_refcount = 1, rl_page = d\<rparr>], ca_mem := w\<rparr>)"
    by (rule rcache_get_miss [OF inv None i pg])
  let ?l = "\<lparr>rl_age = a, rl_pgnum = p, rl_refcount = 1, rl_page = d\<rparr>"
  let ?c = "c\<lparr>ca_ngets := ca_ngets c + 1, ca_lines := (ca_lines c)[i := ?l], ca_mem := w\<rparr>"
  have len: "i < length (ca_lines c)" using g(3) rcache_inv_length [OF inv] by simp
  have "rl_pgnum (ca_lines c ! i) = RMEM_NULL" using first_index_sat [OF i [unfolded nanvix_rcache_empty_def]] .
  then have "line_key (ca_lines c ! i) = None" using rcache_inv_line [OF inv g(3)] by (simp add: line_key_def line_ok_def)
  then have free: "nanvix_rcache_page_search c q \<noteq> Some i" for q by (simp add: page_search_iff [OF inv])
  have s: "nanvix_rcache_page_search ?c = (nanvix_rcache_page_search c)(p \<mapsto> i)"
    using page_search_update [OF inv g(5), of i ?l] g(3) free by (auto simp: fun_eq_iff line_key_def)
  have "page_view ?c q = page_view c q" for q
  proof (cases "q = p")
    case True
    with s None len pg show ?thesis by (simp add: page_view_def)
  next
    case False
    with s g(2) free [of q] show ?thesis by (auto simp: page_view_def nth_list_update split: option.split)
  qed
  then have v: "page_view ?c = page_view c" by (rule ext)
  have "page_view c p = Some (rl_page (ca_lines ?c ! i))" using None pg len by (simp add: page_view_def)
  from that [OF g(1,5,3) v _ this s] g(2) show thesis by simp
next
  case (Some i)
  have pn: "p \<noteq> RMEM_NULL" using stub.null_page [OF rcache_inv_mem [OF inv]] pg by auto
  have i: "i < RCACHE_LENGTH" using Some by (simp add: page_search_iff [OF inv])
  have len: "i < length (ca_lines c)" using i rcache_inv_length [OF inv] by simp
  let ?l = "(ca_lines c ! i)\<lparr>rl_refcount := rl_refcount (ca_lines c ! i) + 1\<rparr>"
  let ?c = "c\<lparr>ca_ngets := ca_ngets c + 1, ca_lines := (ca_lines c)[i := ?l]\<rparr>"
  note g = rcache_get_hit [OF inv Some pn]
  have k: "line_key (ca_lines c ! i) = Some p" using Some by (simp add: page_search_iff [OF inv])
  then have "line_key ?l = Some p" using rcache_inv_line [OF inv i] by (auto simp: line_key_def line_ok_def split: if_splits)
  then have s: "nanvix_rcache_page_search ?c = (nanvix_rcache_page_search c)(p \<mapsto> i)"
    using page_search_update [OF inv g(2), of i ?l] i k by (auto simp: fun_eq_iff page_search_iff [OF inv])
  have "page_view ?c = page_view c" using len s Some by (auto simp: page_view_def fun_eq_iff nth_list_update split: option.split)
  from that [OF g(1,2) i this _ _ s] Some len show thesis by (simp add: page_view_def)
qed

lemma rcache_store_view:
  assumes inv: "rcache_inv E c" and s: "nanvix_rcache_page_search c p = Some i" and d: "length d = RMEM_BLOCK_SIZE"
  shows "page_view (rcache_store c i d) = (page_view c)(p \<mapsto> d)" "rcache_inv E (rcache_store c i d)" "ca_mem (rcache_store c i d) = ca_mem c"
    "nanvix_rcache_page_search (rcache_store c i d) = nanvix_rcache_page_search c"
proof -
  have i: "i < RCACHE_LENGTH" and k: "line_key (ca_lines c ! i) = Some p" using s by (simp_all add: page_search_iff [OF inv])
  show inv': "rcache_inv E (rcache_store c i d)" by (rule rcache_store_inv [OF inv i d])
  show "ca_mem (rcache_store c i d) = ca_mem c" by (simp add: rcache_store_def)
  have len: "i < length (ca_lines c)" using i rcache_inv_length [OF inv] by simp
  have l: "line_key ((ca_lines c ! i)\<lparr>rl_page := d\<rparr>) = Some p" using k by (auto simp: line_key_def split: if_splits)
  have eq: "nanvix_rcache_page_search (rcache_store c i d) q = nanvix_rcache_page_search c q" for q
    using page_search_update [OF inv inv' _ i, of "(ca_lines c ! i)\<lparr>rl_page := d\<rparr>" q] l s k page_search_iff [OF inv, of q i]
    by (auto simp: rcache_store_def)
  then show "nanvix_rcache_page_search (rcache_store c i d) = nanvix_rcache_page_search c" by (rule ext)
  have "page_view (rcache_store c i d) q = ((page_view c)(p \<mapsto> d)) q" for q
  proof (cases "q = p")
    case True
    with eq s len show ?thesis by (simp add: page_view_def) (simp add: rcache_store_def)
  next
    case False
    then have "nanvix_rcache_page_search c q \<noteq> Some i" using k by (simp add: page_search_iff [OF inv])
    with False eq show ?thesis by (auto simp: page_view_def rcache_store_def nth_list_update split: option.split)
  qed
  then show "page_view (rcache_store c i d) = (page_view c)(p \<mapsto> d)" by (rule ext)
qed

section \<open>Invariant\<close>

text \<open>
  The entries of the table in use lie below the break, name different remote pages and these belong to this node. The
  view of the manager's user is the contents of each entry.
\<close>

definition table_key :: "'w :: len word \<Rightarrow> 'w word option" where
  "table_key p = (if p = RMEM_NULL then None else Some p)"

abbreviation vm_pages :: "'w :: len word vmem \<Rightarrow> 'w word \<Rightarrow> (int \<times> byte list) option" where
  "vm_pages st \<equiv> page_abs (ca_mem (vm_cache st))"

abbreviation vm_me :: "'b rmem_env \<Rightarrow> int" where
  "vm_me E \<equiv> take_bit 16 (env_node E)"

definition entry_ok :: "'w :: len word rmem_env \<Rightarrow> 'w word vmem \<Rightarrow> nat \<Rightarrow> bool" where
  "entry_ok E st i \<longleftrightarrow> vm_table st ! i = RMEM_NULL \<or>
     (1 \<le> i \<and> int i < vm_rbrk st \<and> (\<exists>d. vm_pages st (vm_table st ! i) = Some (vm_me E, d)))"

definition vmem_inv :: "'w :: len word rmem_env \<Rightarrow> 'w word vmem \<Rightarrow> bool" where
  "vmem_inv E st \<longleftrightarrow> rcache_inv E (vm_cache st) \<and> length (vm_table st) = RMEM_TABLE_LENGTH \<and>
     1 \<le> vm_rbrk st \<and> vm_rbrk st < int RMEM_TABLE_LENGTH \<and> slots_unique table_key (vm_table st) \<and>
     length (vm_maps st) = RCACHE_SIZE \<and> (\<forall>i<RMEM_TABLE_LENGTH. entry_ok E st i)"

definition vmem_view :: "'w :: len word vmem \<Rightarrow> nat \<Rightarrow> byte list option" where
  "vmem_view st b = (if b < RMEM_TABLE_LENGTH \<and> vm_table st ! b \<noteq> RMEM_NULL then page_view (vm_cache st) (vm_table st ! b) else None)"

text \<open>No line of the cache is in use for a page that was released.\<close>

definition vmem_clean :: "'w :: len word vmem \<Rightarrow> bool" where
  "vmem_clean st \<longleftrightarrow> (\<forall>p. nanvix_rcache_page_search (vm_cache st) p \<noteq> None \<longrightarrow> vm_pages st p \<noteq> None)"

lemma vmem_invD:
  assumes "vmem_inv E st"
  shows vmem_inv_cache: "rcache_inv E (vm_cache st)" and vmem_inv_length: "length (vm_table st) = RMEM_TABLE_LENGTH"
    and vmem_inv_rbrk: "1 \<le> vm_rbrk st" "vm_rbrk st < int RMEM_TABLE_LENGTH"
    and vmem_inv_unique: "slots_unique table_key (vm_table st)" and vmem_inv_maps: "length (vm_maps st) = RCACHE_SIZE"
    and vmem_inv_entry: "i < RMEM_TABLE_LENGTH \<Longrightarrow> entry_ok E st i"
  using assms by (auto simp: vmem_inv_def)

lemma vmem_entry:
  assumes "vmem_inv E st" "vmem_view st b \<noteq> None"
  obtains d where "b < RMEM_TABLE_LENGTH" "vm_table st ! b \<noteq> RMEM_NULL" "1 \<le> b" "int b < vm_rbrk st" "vm_pages st (vm_table st ! b) = Some (vm_me E, d)"
proof -
  have b: "b < RMEM_TABLE_LENGTH" "vm_table st ! b \<noteq> RMEM_NULL" using assms(2) by (auto simp: vmem_view_def split: if_splits)
  with vmem_inv_entry [OF assms(1) b(1)] that show thesis by (auto simp: entry_ok_def)
qed

lemma vmem_view_None:
  assumes "vmem_inv E st"
  shows "vmem_view st b = None \<longleftrightarrow> \<not> (b < RMEM_TABLE_LENGTH \<and> vm_table st ! b \<noteq> RMEM_NULL)"
proof (cases "b < RMEM_TABLE_LENGTH \<and> vm_table st ! b \<noteq> RMEM_NULL")
  case True
  with vmem_inv_entry [OF assms, of b] obtain d where "vm_pages st (vm_table st ! b) = Some (vm_me E, d)" by (auto simp: entry_ok_def)
  with True show ?thesis by (auto simp: vmem_view_def page_view_def split: option.split)
qed (auto simp: vmem_view_def)

text \<open>Addresses: the page is the quotient, the offset the remainder.\<close>

lemma word_parts:
  fixes p :: "'w :: len word"
  assumes "32 \<le> LENGTH('w)"
  shows "unat (drop_bit RMEM_BLOCK_SHIFT p) = unat p div RMEM_BLOCK_SIZE"
    and "unat (p AND (of_nat RMEM_BLOCK_SIZE - 1)) = unat p mod RMEM_BLOCK_SIZE"
proof -
  show "unat (drop_bit RMEM_BLOCK_SHIFT p) = unat p div RMEM_BLOCK_SIZE"
    unfolding unat_drop_bit_eq by (simp add: drop_bit_eq_div RMEM_BLOCK_SHIFT_def rmem_consts)
  have "of_nat RMEM_BLOCK_SIZE - 1 = (mask 12 :: 'w word)" by (simp add: mask_eq_exp_minus_1 rmem_consts)
  then have eq: "p AND (of_nat RMEM_BLOCK_SIZE - 1) = take_bit 12 p" by (simp add: take_bit_eq_mask)
  show "unat (p AND (of_nat RMEM_BLOCK_SIZE - 1)) = unat p mod RMEM_BLOCK_SIZE"
    unfolding eq unsigned_take_bit_eq by (simp add: take_bit_eq_mod rmem_consts)
qed

lemma vmem_inv_width: "vmem_inv (E :: 'w :: len word rmem_env) st \<Longrightarrow> 32 \<le> LENGTH('w)"
  using rcache_inv_mem [OF vmem_inv_cache] by (auto simp: stub_inv_def)

lemma vmem_lookup_eq:
  fixes E :: "'w :: len word rmem_env"
  assumes "vmem_inv E st"
  shows "nanvix_vmem_lookup st p = (if vmem_view st (unat p div RMEM_BLOCK_SIZE) = None
    then Inl (if RMEM_TABLE_LENGTH \<le> unat p div RMEM_BLOCK_SIZE then EINVAL else EFAULT)
    else Inr (drop_bit RMEM_BLOCK_SHIFT p, p AND (of_nat RMEM_BLOCK_SIZE - 1)))"
proof -
  note w = word_parts [OF vmem_inv_width [OF assms]]
  have z: "vm_table st ! 0 = RMEM_NULL" using vmem_inv_entry [OF assms, of 0] by (auto simp: entry_ok_def RMEM_TABLE_LENGTH_def)
  show ?thesis
    unfolding nanvix_vmem_lookup_def vmem_view_None [OF assms] Let_def w(1) using z by (auto simp: RMEM_TABLE_LENGTH_def)
qed

lemma vmem_target_eq:
  fixes E :: "'w :: len word rmem_env"
  assumes "vmem_inv E st"
  shows "vmem_target st p null n = (if vmem_view st (unat p div RMEM_BLOCK_SIZE) = None
    then Inl (if RMEM_TABLE_LENGTH \<le> unat p div RMEM_BLOCK_SIZE then EINVAL else EFAULT)
    else if null \<or> RMEM_BLOCK_SIZE < unat p mod RMEM_BLOCK_SIZE + n then Inl EINVAL
    else Inr (unat p div RMEM_BLOCK_SIZE, unat p mod RMEM_BLOCK_SIZE))"
proof (cases "p = 0")
  case True
  have "vm_table st ! 0 = RMEM_NULL" using vmem_inv_entry [OF assms, of 0] by (auto simp: entry_ok_def RMEM_TABLE_LENGTH_def)
  then have "vmem_view st 0 = None" by (simp add: vmem_view_def)
  with True show ?thesis by (simp add: vmem_target_def RMEM_TABLE_LENGTH_def)
next
  case False
  then show ?thesis unfolding vmem_target_def vmem_lookup_eq [OF assms]
    by (auto simp: word_parts [OF vmem_inv_width [OF assms]])
qed

text \<open>Changing the cache alone, without touching the pages of the servers, keeps the invariant.\<close>

lemma vmem_inv_same:
  assumes "vmem_inv E st" "rcache_inv E c" "page_abs (ca_mem c) = (page_abs (ca_mem (vm_cache st)) :: 'w :: len word \<Rightarrow> _)"
    and "length m = RCACHE_SIZE"
  shows "vmem_inv (E :: 'w word rmem_env) (st\<lparr>vm_cache := c, vm_maps := m\<rparr>)"
  using assms by (auto simp: vmem_inv_def entry_ok_def)

lemma vmem_inv_cache_update:
  assumes "vmem_inv E st" "rcache_inv E c" "page_abs (ca_mem c) = (page_abs (ca_mem (vm_cache st)) :: 'w :: len word \<Rightarrow> _)"
  shows "vmem_inv (E :: 'w word rmem_env) (st\<lparr>vm_cache := c\<rparr>)"
  using vmem_inv_same [OF assms vmem_inv_maps [OF assms(1)]] by simp

section \<open>Reading and writing\<close>

abbreviation vmem_room :: "'w :: len word vmem \<Rightarrow> nat \<Rightarrow> bool" where
  "vmem_room st b \<equiv> rcache_room (vm_cache st) (vm_table st ! b)"

lemma vmem_get:
  fixes E :: "'w :: len word rmem_env"
  assumes inv: "vmem_inv E st" and v: "vmem_view st b = Some d" and room: "vmem_room st b"
  obtains i c where "nanvix_rcache_get E (vm_cache st) (vm_table st ! b) = Some (Some i, c)" "rcache_inv E c" "i < length (ca_lines c)"
    "page_view c = page_view (vm_cache st)" "page_abs (ca_mem c) = (vm_pages st :: 'w word \<Rightarrow> _)" "rl_page (ca_lines c ! i) = d"
    "nanvix_rcache_page_search c = (nanvix_rcache_page_search (vm_cache st))(vm_table st ! b \<mapsto> i)" "length d = RMEM_BLOCK_SIZE"
    "b < RMEM_TABLE_LENGTH" "vm_table st ! b \<noteq> RMEM_NULL"
proof -
  have "vmem_view st b \<noteq> None" using v by simp
  then obtain d0 where e: "b < RMEM_TABLE_LENGTH" "vm_table st ! b \<noteq> RMEM_NULL" "vm_pages st (vm_table st ! b) = Some (vm_me E, d0)"
    by (rule vmem_entry [OF inv])
  obtain i c where g: "nanvix_rcache_get E (vm_cache st) (vm_table st ! b) = Some (Some i, c)" "rcache_inv E c" "i < RCACHE_LENGTH"
    "page_view c = page_view (vm_cache st)" "page_abs (ca_mem c) = (vm_pages st :: 'w word \<Rightarrow> _)"
    "page_view (vm_cache st) (vm_table st ! b) = Some (rl_page (ca_lines c ! i))"
    "nanvix_rcache_page_search c = (nanvix_rcache_page_search (vm_cache st))(vm_table st ! b \<mapsto> i)"
    by (rule rcache_get_view [OF vmem_inv_cache [OF inv] e(3) room])
  have d: "rl_page (ca_lines c ! i) = d" using v g(6) e by (simp add: vmem_view_def)
  have "length d = RMEM_BLOCK_SIZE" using rcache_inv_line [OF g(2,3)] d by (simp add: line_ok_def)
  with that [OF g(1,2) _ g(4,5) d g(7)] g(3) e rcache_inv_length [OF g(2)] show thesis by simp
qed

lemma vmem_clean_get:
  assumes "vmem_clean st" "vm_pages st (vm_table st ! b) \<noteq> None" "page_abs (ca_mem c) = (vm_pages st :: 'w :: len word \<Rightarrow> _)"
    and "nanvix_rcache_page_search c = (nanvix_rcache_page_search (vm_cache st))(vm_table st ! b \<mapsto> i)"
  shows "vmem_clean ((st :: 'w word vmem)\<lparr>vm_cache := c\<rparr>)"
  using assms by (auto simp: vmem_clean_def)

lemma vmem_read_ok:
  fixes E :: "'w :: len word rmem_env"
  assumes inv: "vmem_inv E st" and n: "n \<noteq> 0" and p: "p = RADDR_INV V ptr" "b = unat p div RMEM_BLOCK_SIZE" "off = unat p mod RMEM_BLOCK_SIZE"
    and v: "vmem_view st b = Some d" and fits: "off + n \<le> RMEM_BLOCK_SIZE" and room: "vmem_room st b"
  shows "\<exists>st'. nanvix_vmem_read E V st False ptr n = Some (n, Some (take n (drop off d)), st') \<and> vmem_inv E st' \<and>
    vmem_view st' = vmem_view st \<and> (vmem_clean st \<longrightarrow> vmem_clean st')"
proof -
  obtain i c where g: "nanvix_rcache_get E (vm_cache st) (vm_table st ! b) = Some (Some i, c)" "rcache_inv E c" "i < length (ca_lines c)"
    "page_view c = page_view (vm_cache st)" "page_abs (ca_mem c) = (vm_pages st :: 'w word \<Rightarrow> _)" "rl_page (ca_lines c ! i) = d"
    "nanvix_rcache_page_search c = (nanvix_rcache_page_search (vm_cache st))(vm_table st ! b \<mapsto> i)"
    by (rule vmem_get [OF inv v room])
  have "vmem_target st p False n = Inr (b, off)" unfolding vmem_target_eq [OF inv] using v fits p by simp
  then have "nanvix_vmem_read E V st False ptr n = Some (n, Some (take n (drop off d)), st\<lparr>vm_cache := c\<rparr>)"
    using g(1,3,6) n p(1) by (simp add: nanvix_vmem_read_def)
  moreover have "vmem_inv E (st\<lparr>vm_cache := c\<rparr>)" by (rule vmem_inv_cache_update [OF inv g(2,5)])
  moreover have "vmem_view (st\<lparr>vm_cache := c\<rparr>) = vmem_view st" using g(4) by (simp add: vmem_view_def fun_eq_iff)
  moreover have "vmem_view st b \<noteq> None" using v by simp
  then have "vm_pages st (vm_table st ! b) \<noteq> None" by (rule vmem_entry [OF inv]) simp
  then have "vmem_clean st \<longrightarrow> vmem_clean (st\<lparr>vm_cache := c\<rparr>)" using vmem_clean_get g(5,7) by blast
  ultimately show ?thesis by blast
qed

lemma vmem_full:
  assumes "vmem_inv E st" "vmem_view st b = Some d" "\<not> vmem_room st b"
  shows "nanvix_rcache_get E (vm_cache st) (vm_table st ! b) = None"
  using assms(2,3) by (intro rcache_get_full [OF vmem_inv_cache [OF assms(1)]]) (auto simp: rcache_room_def vmem_view_def split: if_splits)

lemma vmem_write_ok:
  fixes E :: "'w :: len word rmem_env"
  assumes inv: "vmem_inv E st" and n: "n \<noteq> 0" "n \<le> length buf" and p: "p = RADDR_INV V ptr" "b = unat p div RMEM_BLOCK_SIZE" "off = unat p mod RMEM_BLOCK_SIZE"
    and v: "vmem_view st b = Some d" and fits: "off + n \<le> RMEM_BLOCK_SIZE" and room: "vmem_room st b"
  shows "\<exists>st'. nanvix_vmem_write E V st ptr (Some buf) n = Some (n, st') \<and> vmem_inv E st' \<and>
    vmem_view st' = (vmem_view st)(b \<mapsto> take off d @ take n buf @ drop (off + n) d) \<and> (vmem_clean st \<longrightarrow> vmem_clean st') \<and>
    vm_table st' = vm_table st \<and> vm_rbrk st' = vm_rbrk st \<and> vm_pages st' = (vm_pages st :: 'w word \<Rightarrow> _) \<and>
    nanvix_rcache_page_search (vm_cache st') (vm_table st ! b) \<noteq> None"
proof -
  obtain i c where g: "nanvix_rcache_get E (vm_cache st) (vm_table st ! b) = Some (Some i, c)" "rcache_inv E c" "i < length (ca_lines c)"
    "page_view c = page_view (vm_cache st)" "page_abs (ca_mem c) = (vm_pages st :: 'w word \<Rightarrow> _)" "rl_page (ca_lines c ! i) = d"
    "nanvix_rcache_page_search c = (nanvix_rcache_page_search (vm_cache st))(vm_table st ! b \<mapsto> i)" "length d = RMEM_BLOCK_SIZE"
    "b < RMEM_TABLE_LENGTH" "vm_table st ! b \<noteq> RMEM_NULL"
    by (rule vmem_get [OF inv v room])
  let ?d = "take off d @ take n buf @ drop (off + n) d" and ?p = "vm_table st ! b"
  let ?c = "rcache_store c i ?d"
  have "length ?d = RMEM_BLOCK_SIZE" using g(8) fits n(2) by simp
  moreover have "nanvix_rcache_page_search c ?p = Some i" using g(7) by simp
  ultimately have s: "page_view ?c = (page_view c)(?p \<mapsto> ?d)" "rcache_inv E ?c" "ca_mem ?c = ca_mem c"
    "nanvix_rcache_page_search ?c = nanvix_rcache_page_search c"
    by (simp_all add: rcache_store_view [OF g(2)])
  have "vmem_target st p False n = Inr (b, off)" unfolding vmem_target_eq [OF inv] using v fits p by simp
  then have "nanvix_vmem_write E V st ptr (Some buf) n = Some (n, st\<lparr>vm_cache := ?c\<rparr>)"
    using g(1,3,6) n p(1) by (simp add: nanvix_vmem_write_def)
  moreover have "vmem_inv E (st\<lparr>vm_cache := ?c\<rparr>)" using vmem_inv_cache_update [OF inv s(2)] s(3) g(5) by simp
  moreover have "vmem_view (st\<lparr>vm_cache := ?c\<rparr>) k = ((vmem_view st)(b \<mapsto> ?d)) k" for k
  proof (cases "k < RMEM_TABLE_LENGTH \<and> vm_table st ! k \<noteq> RMEM_NULL \<and> k \<noteq> b")
    case True
    with slots_uniqueD [OF vmem_inv_unique [OF inv], of b k ?p] g(9,10) vmem_inv_length [OF inv] have "vm_table st ! k \<noteq> ?p"
      by (auto simp: table_key_def)
    with True s(1) g(4) show ?thesis by (simp add: vmem_view_def)
  next
    case False
    with g(9,10) s(1) show ?thesis by (auto simp: vmem_view_def)
  qed
  then have "vmem_view (st\<lparr>vm_cache := ?c\<rparr>) = (vmem_view st)(b \<mapsto> ?d)" by (rule ext)
  moreover have "vmem_view st b \<noteq> None" using v by simp
  then have "vm_pages st ?p \<noteq> None" by (rule vmem_entry [OF inv]) simp
  then have "vmem_clean st \<longrightarrow> vmem_clean (st\<lparr>vm_cache := ?c\<rparr>)" using vmem_clean_get [where c = ?c and i = i] g(5,7) s(3,4) by simp
  ultimately show ?thesis using g(5,7) s(3,4) by (intro exI [of _ "st\<lparr>vm_cache := ?c\<rparr>"]) simp
qed

section \<open>Allocating\<close>

lemma rcache_inv_mem_update: "rcache_inv E c \<Longrightarrow> stub_inv E w \<Longrightarrow> rcache_inv E (c\<lparr>ca_mem := w\<rparr>)"
  by (simp add: rcache_inv_def)

lemma page_search_mem: "nanvix_rcache_page_search (c\<lparr>ca_mem := w\<rparr>) = nanvix_rcache_page_search c"
  by (simp add: nanvix_rcache_page_search_def fun_eq_iff)

lemma page_view_mem: "page_abs w q = page_abs (ca_mem c) q \<Longrightarrow> page_view (c\<lparr>ca_mem := w\<rparr>) q = page_view c q"
  by (auto simp: page_view_def page_search_mem split: option.split)

text \<open>Entering a fresh page in a free entry.\<close>

lemma vmem_enter:
  fixes E :: "'w :: len word rmem_env"
  assumes inv: "vmem_inv E st" and i: "1 \<le> i" "int i < vm_rbrk st" "vm_table st ! i = RMEM_NULL"
    and p: "p \<noteq> RMEM_NULL" "vm_pages st p = None" "page_abs w = (vm_pages st)(p \<mapsto> (vm_me E, d))" "stub_inv E w"
  defines "st' \<equiv> st\<lparr>vm_cache := (vm_cache st)\<lparr>ca_mem := w\<rparr>, vm_table := (vm_table st)[i := p]\<rparr>"
  shows "vmem_inv E st'" "k \<noteq> i \<Longrightarrow> vmem_view st' k = vmem_view st k" "vmem_clean st \<Longrightarrow> vmem_view st' i = Some d" "vmem_clean st \<Longrightarrow> vmem_clean st'"
proof -
  have il: "i < RMEM_TABLE_LENGTH" using i(2) vmem_inv_rbrk [OF inv] by simp
  note len = vmem_inv_length [OF inv]
  have fresh: "vm_table st ! j \<noteq> p" if "j < RMEM_TABLE_LENGTH" for j
    using vmem_inv_entry [OF inv that] p(1,2) by (auto simp: entry_ok_def)
  have e: "entry_ok E st' j" if "j < RMEM_TABLE_LENGTH" for j
  proof (cases "j = i")
    case True
    with i p(3) il len show ?thesis by (simp add: entry_ok_def st'_def)
  next
    case False
    with vmem_inv_entry [OF inv that] fresh [OF that] p(3) show ?thesis by (auto simp: entry_ok_def st'_def)
  qed
  have "slots_unique table_key ((vm_table st)[i := p])"
    using il len fresh by (intro slots_unique_update [OF vmem_inv_unique [OF inv]]) (auto simp: table_key_def split: if_splits)
  then show "vmem_inv E st'"
    using inv e il len rcache_inv_mem_update [OF vmem_inv_cache [OF inv] p(4)] by (simp add: vmem_inv_def st'_def)
  show "vmem_view st' k = vmem_view st k" if "k \<noteq> i"
    using that fresh [of k] p(3) page_view_mem [of w "vm_table st ! k" "vm_cache st"] by (simp add: vmem_view_def st'_def)
  assume clean: "vmem_clean st"
  then have "nanvix_rcache_page_search (vm_cache st) p = None" using p(2) by (auto simp: vmem_clean_def)
  then show "vmem_view st' i = Some d" using il len p(1,3) by (simp add: vmem_view_def st'_def page_view_def page_search_mem)
  show "vmem_clean st'" using clean p(3) by (auto simp: vmem_clean_def st'_def page_search_mem)
qed

abbreviation zero_page :: "byte list" where "zero_page \<equiv> replicate RMEM_BLOCK_SIZE 0"

lemma vmem_fill_ok:
  fixes E :: "'w :: len word rmem_env"
  assumes "vmem_inv E st" "vmem_clean st" "1 \<le> base" "int (base + m) = vm_rbrk st" "i \<le> m"
    and "\<forall>j. base + i \<le> j \<and> j < RMEM_TABLE_LENGTH \<longrightarrow> vm_table st ! j = RMEM_NULL"
  shows "\<exists>k st'. vmem_fill E st base [i..<m] = Some (k = m, st') \<and> i \<le> k \<and> k \<le> m \<and> vmem_inv E st' \<and> vmem_clean st' \<and>
    vm_rbrk st' = vm_rbrk st \<and> vmem_view st' = (\<lambda>b. if base + i \<le> b \<and> b < base + k then Some zero_page else vmem_view st b)"
  using assms
proof (induction "m - i" arbitrary: i st)
  case 0
  then have [simp]: "i = m" by simp
  from 0 show ?case by (intro exI [of _ m] exI [of _ st]) (auto simp: fun_eq_iff)
next
  case (Suc x)
  let ?c = "vm_cache st"
  have il: "i < m" and upt: "[i..<m] = i # [Suc i..<m]" using Suc.hyps(2) by (simp_all add: upt_conv_Cons)
  have minv: "stub_inv E (ca_mem ?c)" by (rule rcache_inv_mem [OF vmem_inv_cache [OF Suc.prems(1)]])
  obtain p w where a: "nanvix_rmem_alloc E (ca_mem ?c) = Some (p, w)" "stub_inv E w"
    "if p = RMEM_NULL then page_abs w = (vm_pages st :: 'w word \<Rightarrow> _) else vm_pages st p = None \<and> page_abs w = (vm_pages st)(p \<mapsto> (vm_me E, zero_page))"
    using stub.alloc_law [OF minv] by blast
  show ?case
  proof (cases "p = RMEM_NULL")
    case True
    let ?st = "st\<lparr>vm_cache := ?c\<lparr>ca_mem := w\<rparr>\<rparr>"
    have same: "page_abs w = (vm_pages st :: 'w word \<Rightarrow> _)" using a(3) True by simp
    have "vmem_fill E st base [i..<m] = Some (i = m, ?st)" using a(1) True il upt by (simp add: nanvix_rcache_alloc_def)
    moreover have "vmem_inv E ?st"
      using vmem_inv_cache_update [OF Suc.prems(1) rcache_inv_mem_update [OF vmem_inv_cache [OF Suc.prems(1)] a(2)]] same by simp
    moreover have "vmem_clean ?st" using Suc.prems(2) same by (simp add: vmem_clean_def page_search_mem)
    moreover have "vmem_view ?st = vmem_view st"
      using page_view_mem [of w _ ?c] same by (simp add: vmem_view_def fun_eq_iff)
    ultimately show ?thesis using il by (intro exI [of _ i] exI [of _ ?st]) (auto simp: fun_eq_iff)
  next
    case False
    let ?st = "st\<lparr>vm_cache := ?c\<lparr>ca_mem := w\<rparr>, vm_table := (vm_table st)[base + i := p]\<rparr>"
    have i: "1 \<le> base + i" "int (base + i) < vm_rbrk st" "base + i < RMEM_TABLE_LENGTH"
      using Suc.prems(3,4) il vmem_inv_rbrk(2) [OF Suc.prems(1)] by simp_all
    have null: "vm_table st ! (base + i) = RMEM_NULL" using Suc.prems(6) i(3) by simp
    have pg: "vm_pages st p = None" "page_abs w = (vm_pages st)(p \<mapsto> (vm_me E, zero_page))" using a(3) False by simp_all
    note e = vmem_enter [OF Suc.prems(1) i(1,2) null False pg a(2)]
    have hyp: "x = m - Suc i" "Suc i \<le> m" using Suc.hyps(2) il by simp_all
    have brk: "int (base + m) = vm_rbrk ?st" using Suc.prems(4) by simp
    have rest: "\<forall>j. base + Suc i \<le> j \<and> j < RMEM_TABLE_LENGTH \<longrightarrow> vm_table ?st ! j = RMEM_NULL" using Suc.prems(6) by simp
    from Suc.hyps(1) [OF hyp(1) e(1) e(4) [OF Suc.prems(2)] Suc.prems(3) brk hyp(2) rest]
    obtain k st' where k: "vmem_fill E ?st base [Suc i..<m] = Some (k = m, st')" "Suc i \<le> k" "k \<le> m" "vmem_inv E st'" "vmem_clean st'"
      "vm_rbrk st' = vm_rbrk ?st" "vmem_view st' = (\<lambda>b. if base + Suc i \<le> b \<and> b < base + k then Some zero_page else vmem_view ?st b)"
      by blast
    have "vmem_fill E st base [i..<m] = Some (k = m, st')"
      using a(1) False i(3) k(1) vmem_inv_length [OF Suc.prems(1)] upt by (simp add: nanvix_rcache_alloc_def)
    moreover have "vmem_view st' b = (if base + i \<le> b \<and> b < base + k then Some zero_page else vmem_view st b)" for b
      using k(2,7) e(2) [of b] e(3) [OF Suc.prems(2)] by (cases "b = base + i") auto
    ultimately show ?thesis using k by (intro exI [of _ k] exI [of _ st']) (simp add: fun_eq_iff)
  qed
qed

section \<open>Releasing\<close>

lemma rmem_ops_servers:
  "nanvix_rmem_read E w p null = Some (n, d, w') \<Longrightarrow> rs_server w' = rs_server w"
  "nanvix_rmem_write E w p data = Some (n, w') \<Longrightarrow> rs_server w' = rs_server w"
  "nanvix_rmem_free E w p = Some (r, w') \<Longrightarrow> rs_server w' = rs_server w"
  by (auto simp: nanvix_rmem_read_def nanvix_rmem_write_def nanvix_rmem_free_def rmem_call_def bind_eq_Some_conv split: if_splits option.splits)

lemma rcache_free_servers: "nanvix_rcache_free E c p = Some (r, c') \<Longrightarrow> rs_server (ca_mem c') = rs_server (ca_mem c)"
  by (auto simp: nanvix_rcache_free_def bind_eq_Some_conv split: if_splits dest: rmem_ops_servers(3))

text \<open>Releasing the page of an entry.\<close>

lemma vmem_leave:
  fixes E :: "'w :: len word rmem_env"
  assumes inv: "vmem_inv E st" and i: "vmem_view st i \<noteq> None"
  obtains w where "nanvix_rcache_free E (vm_cache st) (vm_table st ! i) = Some (Inr 0, (vm_cache st)\<lparr>ca_mem := w\<rparr>)"
    "vmem_inv E (st\<lparr>vm_cache := (vm_cache st)\<lparr>ca_mem := w\<rparr>, vm_table := (vm_table st)[i := RMEM_NULL]\<rparr>)" "i < RMEM_TABLE_LENGTH"
    "vmem_view (st\<lparr>vm_cache := (vm_cache st)\<lparr>ca_mem := w\<rparr>, vm_table := (vm_table st)[i := RMEM_NULL]\<rparr>) = (vmem_view st)(i := None)"
    "page_abs w = (vm_pages st)(vm_table st ! i := None)"
proof -
  obtain d where e: "i < RMEM_TABLE_LENGTH" "vm_table st ! i \<noteq> RMEM_NULL" "vm_pages st (vm_table st ! i) = Some (vm_me E, d)"
    by (rule vmem_entry [OF inv i])
  let ?p = "vm_table st ! i"
  obtain w where w: "nanvix_rmem_free E (ca_mem (vm_cache st)) ?p = Some (Inr 0, w)" "stub_inv E w" "page_abs w = (vm_pages st)(?p := None)"
    using stub.free_law [OF rcache_inv_mem [OF vmem_inv_cache [OF inv]] e(3)] by auto
  let ?st = "st\<lparr>vm_cache := (vm_cache st)\<lparr>ca_mem := w\<rparr>, vm_table := (vm_table st)[i := RMEM_NULL]\<rparr>"
  note len = vmem_inv_length [OF inv]
  have other: "vm_table st ! j \<noteq> ?p" if "j < RMEM_TABLE_LENGTH" "j \<noteq> i" for j
    using slots_uniqueD [OF vmem_inv_unique [OF inv], of i j ?p] that e(1,2) len by (auto simp: table_key_def)
  have "entry_ok E ?st j" if "j < RMEM_TABLE_LENGTH" for j
    using vmem_inv_entry [OF inv that] other [OF that] w(3) that len by (cases "j = i") (auto simp: entry_ok_def)
  moreover have "slots_unique table_key ((vm_table st)[i := RMEM_NULL])"
    using e(1) len by (intro slots_unique_update [OF vmem_inv_unique [OF inv]]) (simp_all add: table_key_def)
  ultimately have inv': "vmem_inv E ?st"
    using inv rcache_inv_mem_update [OF vmem_inv_cache [OF inv] w(2)] by (simp add: vmem_inv_def)
  have "vmem_view ?st k = ((vmem_view st)(i := None)) k" for k
    using other [of k] w(3) len e(1) page_view_mem [of w "vm_table st ! k" "vm_cache st"] by (auto simp: vmem_view_def)
  then have "vmem_view ?st = (vmem_view st)(i := None)" by (rule ext)
  moreover have "nanvix_rcache_free E (vm_cache st) ?p = Some (Inr 0, (vm_cache st)\<lparr>ca_mem := w\<rparr>)"
    using e(2) w(1) by (simp add: nanvix_rcache_free_def)
  ultimately show thesis using that inv' e(1) w(3) by blast
qed

text \<open>The loop releases entries up to the first that holds no page.\<close>

lemma vmem_release_ok:
  fixes E :: "'w :: len word rmem_env"
  assumes "vmem_inv E st" "i \<le> r" "r \<le> RMEM_TABLE_LENGTH"
  shows "\<exists>k st'. vmem_release E st [i..<r] = Some (if k = r then Inr 0 else Inl EINVAL, st') \<and> i \<le> k \<and> k \<le> r \<and>
    (\<forall>j. i \<le> j \<and> j < k \<longrightarrow> vmem_view st j \<noteq> None) \<and> (k < r \<longrightarrow> vmem_view st k = None) \<and> vmem_inv E st' \<and> vm_rbrk st' = vm_rbrk st \<and>
    vmem_view st' = (\<lambda>b. if i \<le> b \<and> b < k then None else vmem_view st b) \<and>
    nanvix_rcache_page_search (vm_cache st') = nanvix_rcache_page_search (vm_cache st) \<and> ca_lines (vm_cache st') = ca_lines (vm_cache st) \<and>
    (\<forall>q. vm_pages st' q = (if \<exists>j. i \<le> j \<and> j < k \<and> vm_table st ! j = q then None else vm_pages st q)) \<and>
    rs_server (ca_mem (vm_cache st')) = rs_server (ca_mem (vm_cache st))"
  using assms
proof (induction "r - i" arbitrary: i st)
  case 0
  then have [simp]: "i = r" by simp
  from 0 show ?case by (intro exI [of _ r] exI [of _ st]) (auto simp: fun_eq_iff)
next
  case (Suc x)
  then have il: "i < r" and upt: "[i..<r] = i # [Suc i..<r]" by (simp_all add: upt_conv_Cons)
  have get: "arr_get (vm_table st) i = Some (vm_table st ! i)" using il Suc.prems(3) vmem_inv_length [OF Suc.prems(1)] by simp
  show ?case
  proof (cases "vmem_view st i = None")
    case True
    then have "vm_table st ! i = RMEM_NULL" using il Suc.prems(3) by (simp add: vmem_view_None [OF Suc.prems(1)])
    then have "vmem_release E st [i..<r] = Some (Inl EINVAL, st)" using get upt by (simp add: nanvix_rcache_free_def)
    with True Suc.prems(1) il show ?thesis by (intro exI [of _ i] exI [of _ st]) (auto simp: fun_eq_iff)
  next
    case False
    obtain w where w: "nanvix_rcache_free E (vm_cache st) (vm_table st ! i) = Some (Inr 0, (vm_cache st)\<lparr>ca_mem := w\<rparr>)"
      "vmem_inv E (st\<lparr>vm_cache := (vm_cache st)\<lparr>ca_mem := w\<rparr>, vm_table := (vm_table st)[i := RMEM_NULL]\<rparr>)" "i < RMEM_TABLE_LENGTH"
      "vmem_view (st\<lparr>vm_cache := (vm_cache st)\<lparr>ca_mem := w\<rparr>, vm_table := (vm_table st)[i := RMEM_NULL]\<rparr>) = (vmem_view st)(i := None)"
      "page_abs w = (vm_pages st)(vm_table st ! i := None)"
      by (rule vmem_leave [OF Suc.prems(1) False])
    let ?st = "st\<lparr>vm_cache := (vm_cache st)\<lparr>ca_mem := w\<rparr>, vm_table := (vm_table st)[i := RMEM_NULL]\<rparr>"
    have hyp: "x = r - Suc i" "Suc i \<le> r" using Suc.hyps(2) il by simp_all
    from Suc.hyps(1) [OF hyp(1) w(2) hyp(2) Suc.prems(3)]
    obtain k st' where k: "vmem_release E ?st [Suc i..<r] = Some (if k = r then Inr 0 else Inl EINVAL, st')" "Suc i \<le> k" "k \<le> r"
      "\<forall>j. Suc i \<le> j \<and> j < k \<longrightarrow> vmem_view ?st j \<noteq> None" "k < r \<longrightarrow> vmem_view ?st k = None" "vmem_inv E st'" "vm_rbrk st' = vm_rbrk ?st"
      "vmem_view st' = (\<lambda>b. if Suc i \<le> b \<and> b < k then None else vmem_view ?st b)"
      "nanvix_rcache_page_search (vm_cache st') = nanvix_rcache_page_search (vm_cache ?st)" "ca_lines (vm_cache st') = ca_lines (vm_cache ?st)"
      "\<forall>q. vm_pages st' q = (if \<exists>j. Suc i \<le> j \<and> j < k \<and> vm_table ?st ! j = q then None else vm_pages ?st q)"
      "rs_server (ca_mem (vm_cache st')) = rs_server (ca_mem (vm_cache ?st))"
      by blast
    have "vmem_release E st [i..<r] = Some (if k = r then Inr 0 else Inl EINVAL, st')"
      using get w(1,3) k(1) upt vmem_inv_length [OF Suc.prems(1)] by simp
    moreover have "vmem_view st' b = (if i \<le> b \<and> b < k then None else vmem_view st b)" for b
      using k(2,8) w(4) by (cases "b = i") auto
    moreover have "vmem_view st j \<noteq> None" if "i \<le> j" "j < k" for j
      using k(4) that w(4) False by (cases "j = i") auto
    moreover have "k < r \<longrightarrow> vmem_view st k = None" using k(2,5) w(4) by auto
    moreover have "vm_pages st' q = (if \<exists>j. i \<le> j \<and> j < k \<and> vm_table st ! j = q then None else vm_pages st q)" for q
    proof -
      have iff: "(\<exists>j. i \<le> j \<and> j < k \<and> vm_table st ! j = q) \<longleftrightarrow> q = vm_table st ! i \<or> (\<exists>j. Suc i \<le> j \<and> j < k \<and> vm_table ?st ! j = q)"
        using k(2) by (auto simp: nth_list_update Suc_le_eq) (metis le_neq_implies_less, metis less_imp_le)
      define Q where "Q \<longleftrightarrow> (\<exists>j. Suc i \<le> j \<and> j < k \<and> vm_table ?st ! j = q)"
      from k(11) [rule_format, of q] w(5) show ?thesis unfolding iff Q_def [symmetric] by (cases "q = vm_table st ! i") simp_all
    qed
    moreover have "rs_server w = rs_server (ca_mem (vm_cache st))" using rcache_free_servers [OF w(1)] by simp
    ultimately show ?thesis using k by (intro exI [of _ k] exI [of _ st']) (simp add: fun_eq_iff page_search_mem)
  qed
qed

lemma vmem_break_word:
  assumes "vmem_inv (E :: 'w :: len word rmem_env) st" "vmem_view st (unat p div RMEM_BLOCK_SIZE) \<noteq> None"
  defines "diff \<equiv> word_of_int (vm_rbrk st) - drop_bit RMEM_BLOCK_SHIFT p :: 'w word"
  shows "signed_take_bit 31 (uint diff) = vm_rbrk st - int (unat p div RMEM_BLOCK_SIZE)" "\<not> diff < 1"
proof -
  let ?b = "unat p div RMEM_BLOCK_SIZE"
  note w = word_parts(1) [OF vmem_inv_width [OF assms(1)], of p]
  have b: "1 \<le> ?b" "int ?b < vm_rbrk st" using vmem_entry [OF assms(1,2)] by blast+
  have "drop_bit RMEM_BLOCK_SHIFT p = (of_nat ?b :: 'w word)" by (metis w of_nat_unat ucast_id)
  then have eq: "diff = word_of_int (vm_rbrk st - int ?b)" by (simp add: diff_def)
  have "(2 :: int) ^ 32 \<le> 2 ^ LENGTH('w)" by (rule power_increasing [OF vmem_inv_width [OF assms(1)]]) simp
  then have d: "uint diff = vm_rbrk st - int ?b"
    unfolding eq uint_word_of_int using b vmem_inv_rbrk(2) [OF assms(1)] by (intro mod_pos_pos_trivial) (simp_all add: RMEM_TABLE_LENGTH_def)
  then show "signed_take_bit 31 (uint diff) = vm_rbrk st - int ?b"
    using b vmem_inv_rbrk(2) [OF assms(1)] by (simp add: signed_take_bit_int_eq_self RMEM_TABLE_LENGTH_def)
  show "\<not> diff < 1" using b(2) d by (simp add: word_less_def)
qed

lemma vmem_inv_contract:
  assumes "vmem_inv E st" "1 \<le> b" "int b \<le> vm_rbrk st" "\<forall>j. b \<le> j \<and> int j < vm_rbrk st \<longrightarrow> vmem_view st j = None"
  shows "vmem_inv E (st\<lparr>vm_rbrk := int b\<rparr>)" "vmem_view (st\<lparr>vm_rbrk := int b\<rparr>) = vmem_view st"
proof -
  have "entry_ok E (st\<lparr>vm_rbrk := int b\<rparr>) j" if "j < RMEM_TABLE_LENGTH" for j
    using vmem_inv_entry [OF assms(1) that] assms(4) [rule_format, of j] that vmem_view_None [OF assms(1), of j]
    by (cases "j < b") (auto simp: entry_ok_def)
  then show "vmem_inv E (st\<lparr>vm_rbrk := int b\<rparr>)" using assms(1-3) by (auto simp: vmem_inv_def)
  show "vmem_view (st\<lparr>vm_rbrk := int b\<rparr>) = vmem_view st" by (simp add: vmem_view_def fun_eq_iff)
qed

lemma vmem_free_ok:
  fixes E :: "'w :: len word rmem_env"
  assumes inv: "vmem_inv E st" and p: "b = unat (RADDR_INV V ptr) div RMEM_BLOCK_SIZE" and v: "vmem_view st b \<noteq> None"
  shows "\<exists>k st'. b < k \<and> int k \<le> vm_rbrk st \<and> (\<forall>j. b \<le> j \<and> j < k \<longrightarrow> vmem_view st j \<noteq> None) \<and>
    (int k < vm_rbrk st \<longrightarrow> vmem_view st k = None) \<and> vmem_inv E st' \<and>
    nanvix_vmem_free E V st ptr = Some (if int k = vm_rbrk st then Inr 0 else Inl EINVAL, st') \<and>
    vm_rbrk st' = (if int k = vm_rbrk st then int b else vm_rbrk st) \<and>
    vmem_view st' = (\<lambda>j. if b \<le> j \<and> j < k then None else vmem_view st j) \<and>
    nanvix_rcache_page_search (vm_cache st') = nanvix_rcache_page_search (vm_cache st) \<and> ca_lines (vm_cache st') = ca_lines (vm_cache st) \<and>
    (\<forall>q. vm_pages st' q = (if \<exists>j. b \<le> j \<and> j < k \<and> vm_table st ! j = q then None else vm_pages st q)) \<and>
    rs_server (ca_mem (vm_cache st')) = rs_server (ca_mem (vm_cache st))"
proof -
  let ?p = "RADDR_INV V ptr" and ?r = "nat (vm_rbrk st)"
  have v': "vmem_view st (unat ?p div RMEM_BLOCK_SIZE) \<noteq> None" using v p by simp
  have e: "1 \<le> b" "int b < vm_rbrk st" using vmem_entry [OF inv v] by blast+
  have r: "b \<le> ?r" "?r \<le> RMEM_TABLE_LENGTH" "int ?r = vm_rbrk st" using e vmem_inv_rbrk [OF inv] by linarith+
  have p0: "?p \<noteq> 0"
  proof
    assume "?p = 0"
    then have "b = 0" using p by simp
    with e(1) show False by simp
  qed
  have base: "unat (drop_bit RMEM_BLOCK_SHIFT ?p) = b" using word_parts(1) [OF vmem_inv_width [OF inv], of ?p] p by simp
  obtain k st1 where k: "vmem_release E st [b..<?r] = Some (if k = ?r then Inr 0 else Inl EINVAL, st1)" "b \<le> k" "k \<le> ?r"
    "\<forall>j. b \<le> j \<and> j < k \<longrightarrow> vmem_view st j \<noteq> None" "k < ?r \<longrightarrow> vmem_view st k = None" "vmem_inv E st1" "vm_rbrk st1 = vm_rbrk st"
    "vmem_view st1 = (\<lambda>j. if b \<le> j \<and> j < k then None else vmem_view st j)"
    "nanvix_rcache_page_search (vm_cache st1) = nanvix_rcache_page_search (vm_cache st)" "ca_lines (vm_cache st1) = ca_lines (vm_cache st)"
    "\<forall>q. vm_pages st1 q = (if \<exists>j. b \<le> j \<and> j < k \<and> vm_table st ! j = q then None else vm_pages st q)"
    "rs_server (ca_mem (vm_cache st1)) = rs_server (ca_mem (vm_cache st))"
    using vmem_release_ok [OF inv r(1,2)] by blast
  have bk: "b < k" using k(2,3,5) v e(2) r(3) by (cases "k = b") auto
  note w = vmem_break_word [OF inv v']
  have l: "nanvix_vmem_lookup st ?p = Inr (drop_bit RMEM_BLOCK_SHIFT ?p, ?p AND (of_nat RMEM_BLOCK_SIZE - 1))"
    using v' by (simp add: vmem_lookup_eq [OF inv])
  show ?thesis
  proof (cases "k = ?r")
    case True
    let ?st = "st1\<lparr>vm_rbrk := int b\<rparr>"
    have "nanvix_vmem_contract st1 (vm_rbrk st - int b) = (Inr (vm_rbrk st), ?st)"
      using e k(7) by (simp add: nanvix_vmem_contract_def)
    then have "nanvix_vmem_free E V st ptr = Some (Inr 0, ?st)"
      using p0 l w k(1,7) True base p by (simp add: nanvix_vmem_free_def Let_def)
    moreover have "\<forall>j. b \<le> j \<and> int j < vm_rbrk st1 \<longrightarrow> vmem_view st1 j = None" using k(7,8) True r(3) by auto
    then have "vmem_inv E ?st" "vmem_view ?st = vmem_view st1" using vmem_inv_contract [OF k(6) e(1)] e(2) k(7) by simp_all
    ultimately show ?thesis using k True bk r(3) by (intro exI [of _ k] exI [of _ ?st]) simp
  next
    case False
    then have "nanvix_vmem_free E V st ptr = Some (Inl EINVAL, st1)"
      using p0 l w k(1) base p by (simp add: nanvix_vmem_free_def Let_def)
    with k False bk r(3) show ?thesis by (intro exI [of _ k] exI [of _ st1]) auto
  qed
qed

lemma vmem_alloc_ok:
  fixes E :: "'w :: len word rmem_env"
  assumes inv: "vmem_inv E st" "vmem_clean st" and n: "n \<noteq> 0" "unat n < 2 ^ 31" "b = nat (vm_rbrk st)" and room: "b + unat n < RMEM_TABLE_LENGTH"
  shows "\<exists>k st'. nanvix_vmem_alloc E V st n = Some (if k = unat n then RADDR V (vm_rbrk st) else 0, st') \<and> k \<le> unat n \<and>
    vmem_inv E st' \<and> vmem_clean st' \<and> vm_rbrk st' = vm_rbrk st + int (unat n) \<and>
    vmem_view st' = (\<lambda>j. if b \<le> j \<and> j < b + k then Some zero_page else vmem_view st j)"
proof -
  let ?st = "st\<lparr>vm_rbrk := vm_rbrk st + int (unat n)\<rparr>"
  have un: "0 < unat n" using n(1) by (simp add: unat_gt_0)
  have "int (unat n) < int (2 ^ 31)" using n(2) by (simp only: of_nat_less_iff)
  then have "uint n < 2 ^ 31" by simp
  moreover have "- (2 ^ 31) \<le> uint n" by (rule order_trans [OF _ uint_ge_0]) simp
  ultimately have sn: "signed_take_bit 31 (uint n) = int (unat n)" using signed_take_bit_int_eq_self [of 31 "uint n"] by simp
  have brk: "int b = vm_rbrk st" "1 \<le> b" using vmem_inv_rbrk(1) [OF inv(1)] n(3) by simp_all
  have "nanvix_vmem_expand st (int m) = Some (Inr (vm_rbrk st), st\<lparr>vm_rbrk := vm_rbrk st + int m\<rparr>)" if "0 < m" "b + m < RMEM_TABLE_LENGTH" for m
    using that brk(1) by (auto simp: nanvix_vmem_expand_def RMEM_TABLE_LENGTH_def)
  from this [OF un room] have ex: "nanvix_vmem_expand st (int (unat n)) = Some (Inr (vm_rbrk st), ?st)" .
  have "vmem_inv E (st\<lparr>vm_rbrk := vm_rbrk st + int m\<rparr>)" if "b + m < RMEM_TABLE_LENGTH" for m
    using inv(1) brk that by (auto simp: vmem_inv_def entry_ok_def)
  from this [OF room] have inv': "vmem_inv E ?st" .
  have clean: "vmem_clean ?st" using inv(2) by (simp add: vmem_clean_def)
  have free: "\<forall>j. b + 0 \<le> j \<and> j < RMEM_TABLE_LENGTH \<longrightarrow> vm_table ?st ! j = RMEM_NULL"
    using vmem_inv_entry [OF inv(1)] brk(1) by (fastforce simp: entry_ok_def)
  have b': "int (b + unat n) = vm_rbrk ?st" using brk(1) by simp
  obtain k st' where k: "vmem_fill E ?st b [0..<unat n] = Some (k = unat n, st')" "k \<le> unat n" "vmem_inv E st'" "vmem_clean st'"
    "vm_rbrk st' = vm_rbrk ?st" "vmem_view st' = (\<lambda>j. if b + 0 \<le> j \<and> j < b + k then Some zero_page else vmem_view ?st j)"
    using vmem_fill_ok [OF inv' clean brk(2) b' _ free] by blast
  have same: "vmem_view ?st = vmem_view st" by (simp add: vmem_view_def fun_eq_iff)
  have "vmem_view st' = (\<lambda>j. if b \<le> j \<and> j < b + k then Some zero_page else vmem_view st j)" using k(6) unfolding same by simp
  moreover have "nanvix_vmem_alloc E V st n = Some (if k = unat n then RADDR V (vm_rbrk st) else 0, st')"
    using n(1,3) ex sn k(1) by (simp add: nanvix_vmem_alloc_def)
  ultimately show ?thesis using k(2-5) by (intro exI [of _ k] exI [of _ st']) simp
qed

text \<open>The address of an entry.\<close>

lemma RADDR_parts:
  fixes V :: "'w :: len word vm_env"
  assumes "32 \<le> LENGTH('w)" "0 \<le> x" "x < int RMEM_TABLE_LENGTH"
  shows "unat (RADDR_INV V (RADDR V x)) = nat x * RMEM_BLOCK_SIZE"
proof -
  have "(2 :: int) ^ 32 \<le> 2 ^ LENGTH('w)" by (rule power_increasing [OF assms(1)]) simp
  moreover have "push_bit RMEM_BLOCK_SHIFT x = x * int RMEM_BLOCK_SIZE"
    by (simp add: push_bit_eq_mult RMEM_BLOCK_SHIFT_def rmem_consts)
  moreover have "RADDR_INV V (RADDR V x) = word_of_int (push_bit RMEM_BLOCK_SHIFT x)" by (simp add: RADDR_INV_def RADDR_def)
  ultimately have "uint (RADDR_INV V (RADDR V x)) = x * int RMEM_BLOCK_SIZE"
    unfolding uint_word_of_int using assms(2,3)
    by (simp only: uint_word_of_int) (intro mod_pos_pos_trivial, simp_all add: RMEM_TABLE_LENGTH_def rmem_consts)
  then have "int (unat (RADDR_INV V (RADDR V x))) = int (nat x * RMEM_BLOCK_SIZE)" using assms(2) by simp
  then show ?thesis by (simp only: of_nat_eq_iff)
qed

section \<open>Page faults\<close>

lemma rfault_ok:
  fixes E :: "'w :: len word rmem_env"
  assumes inv: "vmem_inv E st" and p: "vaddr = addr AND PAGE_MASK V" "b = unat (RADDR_INV V vaddr) div RMEM_BLOCK_SIZE"
    and v: "vmem_view st b \<noteq> None" and room: "vmem_room st b" and ok: "\<forall>a. page_unmap_ok V a" "\<forall>i a. page_link_ok V i a"
  shows "\<exists>i k st'. nanvix_rfault E V st addr = Some (Inr 0, st') \<and> vmem_inv E st' \<and> vmem_view st' = vmem_view st \<and>
    nanvix_rcache_page_search (vm_cache st') (vm_table st ! b) = Some i \<and> k < RCACHE_SIZE \<and>
    k = (case first_index (\<lambda>m. mp_raddr m = Some i) (vm_maps st) of Some k \<Rightarrow> k | None \<Rightarrow> RCACHE_SIZE - 1) \<and>
    vm_maps st' = (vm_maps st)[k := \<lparr>mp_laddr = vaddr, mp_raddr = Some i\<rparr>]"
proof -
  obtain d where d: "vmem_view st b = Some d" using v by auto
  obtain i c where g: "nanvix_rcache_get E (vm_cache st) (vm_table st ! b) = Some (Some i, c)" "rcache_inv E c"
    "page_view c = page_view (vm_cache st)" "page_abs (ca_mem c) = (vm_pages st :: 'w word \<Rightarrow> _)"
    "nanvix_rcache_page_search c = (nanvix_rcache_page_search (vm_cache st))(vm_table st ! b \<mapsto> i)"
    by (rule vmem_get [OF inv d room])
  define k where "k = (case first_index (\<lambda>m. mp_raddr m = Some i) (vm_maps st) of Some k \<Rightarrow> k | None \<Rightarrow> RCACHE_SIZE - 1)"
  have k: "k < RCACHE_SIZE"
    using first_index_bound [of "\<lambda>m. mp_raddr m = Some i" "vm_maps st"] vmem_inv_maps [OF inv]
    by (auto simp: k_def RCACHE_SIZE_def RCACHE_LENGTH_def split: option.split)
  let ?m = "(vm_maps st)[k := \<lparr>mp_laddr = vaddr, mp_raddr = Some i\<rparr>]"
  let ?st = "st\<lparr>vm_cache := c, vm_maps := ?m\<rparr>"
  have base: "unat (drop_bit RMEM_BLOCK_SHIFT (RADDR_INV V vaddr)) = b" using word_parts(1) [OF vmem_inv_width [OF inv]] p(2) by simp
  have l: "nanvix_vmem_lookup st (RADDR_INV V vaddr) = Inr (drop_bit RMEM_BLOCK_SHIFT (RADDR_INV V vaddr), RADDR_INV V vaddr AND (of_nat RMEM_BLOCK_SIZE - 1))"
    using v p(2) by (simp add: vmem_lookup_eq [OF inv])
  have idx: "(case first_index (\<lambda>m. mp_raddr m = Some i) (vm_maps st) of
      Some k \<Rightarrow> do { uassert (page_unmap_ok V (mp_laddr (vm_maps st ! k))); Some k } | None \<Rightarrow> Some (RCACHE_SIZE - 1)) = Some k"
    using ok(1) by (simp add: k_def split: option.split)
  have "nanvix_rfault E V st addr = Some (Inr 0, ?st)"
    unfolding nanvix_rfault_def Let_def p(1) [symmetric] l using base g(1) idx k ok(2) vmem_inv_maps [OF inv] by simp
  moreover have "vmem_inv E ?st" by (rule vmem_inv_same [OF inv g(2,4)]) (simp add: vmem_inv_maps [OF inv])
  moreover have "vmem_view ?st = vmem_view st" using g(3) by (simp add: vmem_view_def fun_eq_iff)
  ultimately show ?thesis using k g(5) k_def by (intro exI [of _ i] exI [of _ k] exI [of _ ?st]) simp
qed

section \<open>Pages that come back\<close>

text \<open>Allocating one page, with the state that results; the cache may hold lines of released pages.\<close>

lemma vmem_alloc_one:
  fixes E :: "'w :: len word rmem_env"
  assumes inv: "vmem_inv E st" and b: "b = nat (vm_rbrk st)" "Suc b < RMEM_TABLE_LENGTH"
    and a: "nanvix_rmem_alloc E (ca_mem (vm_cache st)) = Some (p, w)" "p \<noteq> RMEM_NULL"
  defines "st' \<equiv> st\<lparr>vm_rbrk := vm_rbrk st + 1, vm_cache := (vm_cache st)\<lparr>ca_mem := w\<rparr>, vm_table := (vm_table st)[b := p]\<rparr>"
  shows "nanvix_vmem_alloc E V st 1 = Some (RADDR V (vm_rbrk st), st')" "vmem_inv E st'"
proof -
  let ?st = "st\<lparr>vm_rbrk := vm_rbrk st + 1\<rparr>"
  have brk: "int b = vm_rbrk st" "1 \<le> b" using vmem_inv_rbrk(1) [OF inv] b(1) by simp_all
  have "(2 :: nat) ^ 32 \<le> 2 ^ LENGTH('w)" by (rule power_increasing [OF vmem_inv_width [OF inv]]) simp
  then have un: "unat (1 :: 'w word) = 1" "[0..<1] = [0]" by simp_all
  have inv': "vmem_inv E ?st" using inv brk b(2) by (auto simp: vmem_inv_def entry_ok_def)
  have minv: "stub_inv E (ca_mem (vm_cache st))" by (rule rcache_inv_mem [OF vmem_inv_cache [OF inv]])
  from stub.alloc_law [OF minv] a have w: "stub_inv E w" "vm_pages st p = None" "page_abs w = (vm_pages st)(p \<mapsto> (vm_me E, zero_page))" by auto
  have "nanvix_vmem_expand st 1 = Some (Inr (vm_rbrk st), ?st)"
    using brk b(2) by (auto simp: nanvix_vmem_expand_def RMEM_TABLE_LENGTH_def)
  then show "nanvix_vmem_alloc E V st 1 = Some (RADDR V (vm_rbrk st), st')"
    using a un b vmem_inv_length [OF inv] by (simp add: nanvix_vmem_alloc_def nanvix_rcache_alloc_def st'_def)
  have null: "vm_table ?st ! b = RMEM_NULL" using vmem_inv_entry [OF inv, of b] brk b(2) by (auto simp: entry_ok_def)
  have "int b < vm_rbrk ?st" using brk(1) by simp
  from vmem_enter(1) [OF inv' brk(2) this null a(2) _ _ w(1), of zero_page] w(2,3) show "vmem_inv E st'" by (simp add: st'_def)
qed

text \<open>With one server that holds no page, the page granted is always the same.\<close>

lemma single_empty_alloc:
  fixes E :: "'w :: len word rmem_env"
  assumes inv: "stub_inv E w" and one: "length (rs_server w) = 1" and empty: "page_abs w = (\<lambda>_ :: 'w word. None)"
  obtains p w' where "nanvix_rmem_alloc E w = Some (p, w')" "p \<noteq> RMEM_NULL" "unat (RMEM_BLOCK_NUM p) = 1" "unat (RMEM_BLOCK_SERVER p) = 0"
    "stub_inv E w'" "rs_server w' = rs_server w" "page_abs w' = [p \<mapsto> (take_bit 16 (env_node E), zero_page)]"
proof -
  let ?q = "RMEM_BLOCK (word_of_int (int 0)) (of_nat 1) :: 'w word" and ?s = "rs_servers w ! 0"
  have w: "32 \<le> LENGTH('w)" and sys: "sys_inv w" using inv by (simp_all add: stub_inv_def)
  have q: "unat (RMEM_BLOCK_NUM ?q) = 1" "unat (RMEM_BLOCK_SERVER ?q) = 0" by (rule RMEM_BLOCK_parts [OF w]; simp add: rmem_consts)+
  have len: "length (rs_servers w) = 1" using sys one by (simp add: sys_inv_def)
  have "page_abs w ?q = None" using empty by (simp add: fun_eq_iff)
  then have "rmem_abs ?s 1 = None" using q len by (simp add: page_abs_def)
  then have 1: "1 \<notin> bits (rm_bitmap ?s)" by (auto simp: rmem_abs_def)
  moreover have "1 \<in> {..<RMEM_NUM_BLOCKS}" by (simp add: rmem_consts)
  moreover have "rmem_inv ?s" using sys len by (simp add: sys_inv_def)
  ultimately have nf: "card (bits (rm_bitmap ?s)) \<noteq> RMEM_NUM_BLOCKS" using rmem_full_iff by metis
  obtain p w' where a: "nanvix_rmem_alloc E w = Some (p, w')" "stub_inv E w'" "p \<noteq> RMEM_NULL" "unat (RMEM_BLOCK_SERVER p) = 0"
    "{..<unat (RMEM_BLOCK_NUM p)} \<subseteq> bits (rm_bitmap ?s)" "rs_server w' = rs_server w"
    "page_abs w' = (page_abs w)(p \<mapsto> (take_bit 16 (env_node E), zero_page))"
    using nanvix_rmem_alloc_cases [OF inv] nf one by auto
  have "sys_inv w'" "page_abs w' p = Some (take_bit 16 (env_node E), zero_page)" using a(2,7) by (simp_all add: stub_inv_def)
  then have "rmem_block_ok (RMEM_BLOCK_NUM p)" using page_abs_block(2) by blast
  then have "unat (RMEM_BLOCK_NUM p) \<noteq> 0" by (auto simp: rmem_block_ok_def unat_gt_0)
  moreover have "unat (RMEM_BLOCK_NUM p) \<le> 1" using a(5) 1 by (metis lessThan_iff not_le subsetD)
  ultimately have "unat (RMEM_BLOCK_NUM p) = 1" by simp
  with a that empty show thesis by simp
qed

lemma rcache_evict_servers: "rcache_evict E c = Some (i, c') \<Longrightarrow> rs_server (ca_mem c') = rs_server (ca_mem c)"
  by (auto simp: rcache_evict_def nanvix_rcache_bypass_def nanvix_rcache_fifo_def nanvix_rcache_flush_def CACHE_ENTRY_INITIALIZER_def
      line_update_def bind_eq_Some_conv Let_def split: option.splits rcache_policy.splits dest!: rmem_ops_servers(2)) (metis rcache_policy.exhaust)+

lemma rcache_get_servers: "nanvix_rcache_get E c p = Some (i, c') \<Longrightarrow> rs_server (ca_mem c') = rs_server (ca_mem c)"
  by (auto simp: nanvix_rcache_get_def line_update_def bind_eq_Some_conv split: option.splits if_splits
      dest!: rmem_ops_servers(1) rcache_evict_servers)

lemma vmem_write_servers:
  "nanvix_vmem_write E V st ptr buf n = Some (k, st') \<Longrightarrow> rs_server (ca_mem (vm_cache st')) = rs_server (ca_mem (vm_cache st))"
  by (auto simp: nanvix_vmem_write_def vmem_fail_def rcache_store_def bind_eq_Some_conv split: if_splits option.splits sum.splits
      dest!: rcache_get_servers)

section \<open>A start state\<close>

definition vm_env_ideal :: "64 word vm_env" where
  "vm_env_ideal = \<lparr>UBASE_VIRT = 0x80000000, PAGE_MASK = NOT 0xfff, page_unmap_ok = (\<lambda>_. True), page_link_ok = (\<lambda>_ _. True)\<rparr>"

definition rmem_one_up :: rmem_system where
  "rmem_one_up = \<lparr>rs_server = [\<lparr>rc_initialized = True, rc_outbox = 0, rc_outportal = 0\<rparr>], rs_nallocs = 0,
     rs_stats = \<lparr>cs_nallocs = 0, cs_nfrees = 0, cs_nreads = 0, cs_nwrites = 0\<rparr>,
     rs_servers = [rmem_booted\<lparr>rm_serverid := 0\<rparr>], rs_alive = [True]\<rparr>"

lemma rmem_one_up_inv [simp]: "stub_inv rmem_env_ideal rmem_one_up" "page_abs rmem_one_up = (\<lambda>_ :: 64 word. None)"
proof -
  have "rmem_inv (rmem_booted\<lparr>rm_serverid := 0\<rparr>)" using rmem_booted_inv(1) by (simp add: rmem_inv_def)
  then show "stub_inv rmem_env_ideal rmem_one_up" by (simp add: stub_inv_def sys_inv_def rmem_one_up_def)
  have "rmem_abs (rmem_booted\<lparr>rm_serverid := 0\<rparr>) = (\<lambda>_. None)" using rmem_booted_inv(2) by (auto simp: rmem_abs_def fun_eq_iff split: if_splits)
  then show "page_abs rmem_one_up = (\<lambda>_ :: 64 word. None)" by (simp add: page_abs_def rmem_one_up_def fun_eq_iff)
qed

definition vmem_booted :: "64 word vmem" where
  "vmem_booted = vmem_static (nanvix_rcache_setup (rcache_static rmem_one_up))"

lemma vmem_booted_ok [simp]: "vmem_inv rmem_env_ideal vmem_booted" "vmem_clean vmem_booted" "vmem_view vmem_booted = (\<lambda>_. None)"
  "vm_rbrk vmem_booted = 1"
proof -
  let ?c = "nanvix_rcache_setup (rcache_static rmem_one_up)"
  have f: "rcache_filled rmem_env_ideal 0 ?c"
    using rcache_setup_filled(1) [of "rcache_static rmem_one_up" rmem_env_ideal] by (simp add: rcache_static_def)
  then have c: "rcache_inv rmem_env_ideal ?c" by (simp add: rcache_filled_def)
  have u: "slots_unique table_key (replicate RMEM_TABLE_LENGTH (RMEM_NULL :: 64 word))"
    by (rule slots_unique_replicate) (simp add: table_key_def)
  show "vmem_inv rmem_env_ideal vmem_booted"
    using c u by (simp add: vmem_inv_def vmem_booted_def vmem_static_def entry_ok_def) (simp add: RMEM_TABLE_LENGTH_def)
  show "vmem_clean vmem_booted" using rcache_filled_miss [OF f] by (simp add: vmem_clean_def vmem_booted_def vmem_static_def)
  show "vmem_view vmem_booted = (\<lambda>_. None)" by (auto simp: vmem_view_def vmem_booted_def vmem_static_def fun_eq_iff)
  show "vm_rbrk vmem_booted = 1" by (simp add: vmem_booted_def vmem_static_def)
qed

text \<open>One page allocated.\<close>

lemma vmem_demo:
  obtains p st where "nanvix_vmem_alloc rmem_env_ideal vm_env_ideal vmem_booted 1 = Some (RADDR vm_env_ideal 1, st)" "vmem_inv rmem_env_ideal st" "vm_rbrk st = 2"
    "vmem_view st = [1 \<mapsto> zero_page]" "vmem_room st 1" "vm_table st ! 1 = p" "unat (RMEM_BLOCK_NUM p) = 1" "unat (RMEM_BLOCK_SERVER p) = 0"
    "length (rs_server (ca_mem (vm_cache st))) = 1" "vm_pages st = [p \<mapsto> (3, zero_page)]" "vm_maps st = vm_maps vmem_booted"
proof -
  let ?c = "nanvix_rcache_setup (rcache_static rmem_one_up)" and ?E = rmem_env_ideal and ?V = vm_env_ideal
  have mem: "ca_mem (vm_cache vmem_booted) = rmem_one_up"
    by (simp add: vmem_booted_def vmem_static_def nanvix_rcache_setup_def Let_def rcache_static_def nanvix_rcache_select_replacement_policy_def)
  have one: "length (rs_server rmem_one_up) = 1" by (simp add: rmem_one_up_def)
  obtain p w where p: "nanvix_rmem_alloc ?E rmem_one_up = Some (p, w)" "p \<noteq> RMEM_NULL" "unat (RMEM_BLOCK_NUM p) = 1" "unat (RMEM_BLOCK_SERVER p) = 0"
    "rs_server w = rs_server rmem_one_up" "page_abs w = [p \<mapsto> (take_bit 16 (env_node ?E), zero_page)]"
    by (rule single_empty_alloc [OF rmem_one_up_inv(1) one rmem_one_up_inv(2)])
  have b: "1 = nat (vm_rbrk vmem_booted)" "Suc 1 < RMEM_TABLE_LENGTH" by (simp_all add: RMEM_TABLE_LENGTH_def)
  let ?st = "vmem_booted\<lparr>vm_rbrk := vm_rbrk vmem_booted + 1, vm_cache := (vm_cache vmem_booted)\<lparr>ca_mem := w\<rparr>, vm_table := (vm_table vmem_booted)[1 := p]\<rparr>"
  have a: "nanvix_vmem_alloc ?E ?V vmem_booted 1 = Some (RADDR ?V (vm_rbrk vmem_booted), ?st)" "vmem_inv ?E ?st"
    by (rule vmem_alloc_one [OF vmem_booted_ok(1) b p(1) [folded mem] p(2)])+
  have t: "vm_table ?st ! 1 = p" by (simp add: vmem_booted_def vmem_static_def RMEM_TABLE_LENGTH_def)
  have pg: "vm_pages ?st = [p \<mapsto> (3, zero_page)]" using p(6) by (simp add: rmem_env_ideal_def take_bit_eq_mod)
  have f: "rcache_filled ?E 0 ?c"
    using rcache_setup_filled(1) [of "rcache_static rmem_one_up" ?E] by (simp add: rcache_static_def)
  have "nanvix_rcache_page_search (vm_cache ?st) q = None" for q
    using rcache_filled_miss [OF f, of q] by (simp add: page_search_mem vmem_booted_def vmem_static_def)
  then have "vmem_view ?st j = [1 \<mapsto> zero_page] j" for j
    using pg t p(2) by (auto simp: vmem_view_def page_view_def vmem_booted_def vmem_static_def nth_list_update RMEM_TABLE_LENGTH_def)
  then have v: "vmem_view ?st = [1 \<mapsto> zero_page]" by (rule ext)
  have "nanvix_rcache_empty ?c \<noteq> None" using rcache_filled_empty [OF f] by (simp add: RCACHE_LENGTH_def)
  then have "vmem_room ?st 1" by (simp add: rcache_room_def vmem_booted_def vmem_static_def nanvix_rcache_empty_def)
  with that [OF _ a(2) _ v _ t p(3,4) _ pg] a(1) p(5) one show thesis by simp
qed

lemma vm_addr_one [simp]: "unat (RADDR_INV vm_env_ideal (RADDR vm_env_ideal 1)) = RMEM_BLOCK_SIZE"
  using RADDR_parts [of 1 vm_env_ideal] by (simp add: RMEM_TABLE_LENGTH_def)

section \<open>Properties\<close>

text \<open>
  C14. Remote memory behaves as memory while the cache has lines. A read or write of \<open>n\<close> bytes at an address, on every path:
  nothing happens for zero bytes; an address whose page is not allocated is refused with \<open>EFAULT\<close>, or with \<open>EINVAL\<close>
  beyond the table, and a range that crosses the end of its page with \<open>EINVAL\<close>, without a change; otherwise, if the page
  is in the cache or a line is left for it, a read returns the bytes there and changes none, and a write replaces those bytes and no other
  byte of any page; if the page is not in the cache and no line is left, both leave the array of lines.
\<close>

theorem vmem_transfer_correct:
  fixes E :: "'w :: len word rmem_env"
  assumes "vmem_inv E st" "p = RADDR_INV V ptr" "b = unat p div RMEM_BLOCK_SIZE" "off = unat p mod RMEM_BLOCK_SIZE" "n \<le> length buf"
  shows "if n = 0 then nanvix_vmem_read E V st False ptr n = Some (0, None, st) \<and> nanvix_vmem_write E V st ptr (Some buf) n = Some (0, st)
    else case vmem_view st b of
      None \<Rightarrow> (let e = if RMEM_TABLE_LENGTH \<le> b then EINVAL else EFAULT in
        nanvix_vmem_read E V st False ptr n = Some (0, None, vmem_fail e st) \<and> nanvix_vmem_write E V st ptr (Some buf) n = Some (0, vmem_fail e st))
    | Some d \<Rightarrow>
        if RMEM_BLOCK_SIZE < off + n then nanvix_vmem_read E V st False ptr n = Some (0, None, vmem_fail EINVAL st) \<and>
          nanvix_vmem_write E V st ptr (Some buf) n = Some (0, vmem_fail EINVAL st)
        else if vmem_room st b then
          (\<exists>st'. nanvix_vmem_read E V st False ptr n = Some (n, Some (take n (drop off d)), st') \<and> vmem_inv E st' \<and> vmem_view st' = vmem_view st) \<and>
          (\<exists>st'. nanvix_vmem_write E V st ptr (Some buf) n = Some (n, st') \<and> vmem_inv E st' \<and>
             vmem_view st' = (vmem_view st)(b \<mapsto> take off d @ take n buf @ drop (off + n) d))
        else nanvix_vmem_read E V st False ptr n = None \<and> nanvix_vmem_write E V st ptr (Some buf) n = None"
proof (cases "n = 0")
  case True
  then show ?thesis by (simp add: nanvix_vmem_read_def nanvix_vmem_write_def)
next
  case n: False
  note t = vmem_target_eq [OF assms(1), of p _ n]
  show ?thesis
  proof (cases "vmem_view st b")
    case None
    with n t assms(2-4) show ?thesis by (simp add: nanvix_vmem_read_def nanvix_vmem_write_def Let_def)
  next
    case (Some d)
    show ?thesis
    proof (cases "RMEM_BLOCK_SIZE < off + n")
      case True
      with n t Some assms(2-4) show ?thesis by (simp add: nanvix_vmem_read_def nanvix_vmem_write_def)
    next
      case False
      then have fits: "off + n \<le> RMEM_BLOCK_SIZE" by simp
      show ?thesis
      proof (cases "vmem_room st b")
        case room: True
        from vmem_read_ok [OF assms(1) n assms(2-4) Some fits room] vmem_write_ok [OF assms(1) n assms(5,2-4) Some fits room] n Some False room
        show ?thesis by auto
      next
        case full: False
        from vmem_full [OF assms(1) Some full] n t Some False full assms(2-4) show ?thesis
          by (simp add: nanvix_vmem_read_def nanvix_vmem_write_def)
      qed
    qed
  qed
qed

theorem vmem_transfer_correct_witness:
  "\<exists>st st'. nanvix_vmem_alloc rmem_env_ideal vm_env_ideal vmem_booted 1 = Some (RADDR vm_env_ideal 1, st) \<and>
     nanvix_vmem_write rmem_env_ideal vm_env_ideal st (RADDR vm_env_ideal 1) (Some [7]) 1 = Some (1, st')"
proof -
  obtain st where s: "nanvix_vmem_alloc rmem_env_ideal vm_env_ideal vmem_booted 1 = Some (RADDR vm_env_ideal 1, st)" "vmem_inv rmem_env_ideal st"
    "vmem_view st = [1 \<mapsto> zero_page]" "vmem_room st 1" by (rule vmem_demo)
  have "1 = unat (RADDR_INV vm_env_ideal (RADDR vm_env_ideal 1)) div RMEM_BLOCK_SIZE" "0 = unat (RADDR_INV vm_env_ideal (RADDR vm_env_ideal 1)) mod RMEM_BLOCK_SIZE"
    by (simp_all add: rmem_consts(2))
  from vmem_transfer_correct [OF s(2) refl this, of 1 "[7]"] s show ?thesis by (auto simp: rmem_consts)
qed

text \<open>
  C15. Allocation of remote memory, for a number of pages \<open>n\<close> below \<open>2 ^ 31 - RMEM_TABLE_LENGTH\<close> and a cache that holds no line of a
  released page. A request for no page or for more than the table has left above the break returns the null pointer and changes nothing. Otherwise the
  break moves up by \<open>n\<close> entries, and either all of them get a fresh page of zeroes and the address of the first is returned,
  or the servers refuse a page after \<open>k < n\<close> of them and the null pointer is returned with the \<open>k\<close> pages kept; no other page
  changes. A larger \<open>n\<close> is cut to an \<open>int\<close> for the test but not for the loop over the entries, and a line of a
  released page shows its old bytes.
\<close>

theorem vmem_alloc_correct:
  fixes E :: "'w :: len word rmem_env"
  assumes "vmem_inv E st" "vmem_clean st" "unat n < 2 ^ 31 - RMEM_TABLE_LENGTH" "b = nat (vm_rbrk st)"
  shows "if n = 0 \<or> RMEM_TABLE_LENGTH \<le> b + unat n then nanvix_vmem_alloc E V st n = Some (0, st)
    else \<exists>k st'. nanvix_vmem_alloc E V st n = Some (if k = unat n then RADDR V (vm_rbrk st) else 0, st') \<and> k \<le> unat n \<and>
      vmem_inv E st' \<and> vmem_clean st' \<and> vm_rbrk st' = vm_rbrk st + int (unat n) \<and>
      vmem_view st' = (\<lambda>j. if b \<le> j \<and> j < b + k then Some zero_page else vmem_view st j) \<and>
      unat (RADDR_INV V (RADDR V (vm_rbrk st))) = b * RMEM_BLOCK_SIZE"
proof (cases "n = 0 \<or> RMEM_TABLE_LENGTH \<le> b + unat n")
  case True
  have brk: "int b = vm_rbrk st" "vm_rbrk st < int RMEM_TABLE_LENGTH" using vmem_inv_rbrk [OF assms(1)] assms(4) by simp_all
  have "int (unat n) < int (2 ^ 31)" using assms(3) by (simp only: of_nat_less_iff)
  then have "uint n < 2 ^ 31" by simp
  moreover have "- (2 ^ 31) \<le> uint n" by (rule order_trans [OF _ uint_ge_0]) simp
  ultimately have sn: "signed_take_bit 31 (uint n) = int (unat n)" using signed_take_bit_int_eq_self [of 31 "uint n"] by simp
  have "nanvix_vmem_expand st (int m) = Some (Inl ENOMEM, st)" if "0 < m" "RMEM_TABLE_LENGTH \<le> b + m" "m < 2 ^ 31 - RMEM_TABLE_LENGTH" for m
    using that brk by (auto simp: nanvix_vmem_expand_def RMEM_TABLE_LENGTH_def)
  from this [of "unat n"] assms(3) True sn show ?thesis by (auto simp: nanvix_vmem_alloc_def unat_gt_0)
next
  case False
  then have n: "n \<noteq> 0" "b + unat n < RMEM_TABLE_LENGTH" "unat n < 2 ^ 31" using assms(3) by simp_all
  have "unat (RADDR_INV V (RADDR V (vm_rbrk st))) = b * RMEM_BLOCK_SIZE"
    using RADDR_parts [OF vmem_inv_width [OF assms(1)], of "vm_rbrk st" V] vmem_inv_rbrk [OF assms(1)] assms(4) by simp
  with vmem_alloc_ok [OF assms(1,2) n(1,3) assms(4) n(2), of V] False show ?thesis by auto
qed

theorem vmem_alloc_correct_witness:
  "\<exists>(k :: nat) st'. nanvix_vmem_alloc rmem_env_ideal vm_env_ideal vmem_booted 5 = Some (if k = 5 then RADDR vm_env_ideal 1 else 0, st') \<and> vm_rbrk st' = 6"
  using vmem_alloc_correct [OF vmem_booted_ok(1,2), of 5 1 vm_env_ideal] by (auto simp: RMEM_TABLE_LENGTH_def)

text \<open>
  Releasing remote memory releases everything above it. An address whose page is not allocated is refused and nothing changes.
  Otherwise the pages are released from the one addressed upwards to the break, those of later allocations included, and the break moves down; an
  entry below the break without a page, left by a failed allocation, stops the loop with \<open>EINVAL\<close>, the pages before it released and the
  break where it was.
\<close>

theorem vmem_free_correct:
  fixes E :: "'w :: len word rmem_env"
  assumes "vmem_inv E st" "b = unat (RADDR_INV V ptr) div RMEM_BLOCK_SIZE"
  shows "if vmem_view st b = None then \<exists>e. nanvix_vmem_free E V st ptr = Some (Inl e, st)
    else \<exists>k st'. b < k \<and> int k \<le> vm_rbrk st \<and> (\<forall>j. b \<le> j \<and> j < k \<longrightarrow> vmem_view st j \<noteq> None) \<and>
      (int k < vm_rbrk st \<longrightarrow> vmem_view st k = None) \<and> vmem_inv E st' \<and>
      nanvix_vmem_free E V st ptr = Some (if int k = vm_rbrk st then Inr 0 else Inl EINVAL, st') \<and>
      vm_rbrk st' = (if int k = vm_rbrk st then int b else vm_rbrk st) \<and>
      vmem_view st' = (\<lambda>j. if b \<le> j \<and> j < k then None else vmem_view st j)"
proof (cases "vmem_view st b = None")
  case True
  then have "\<exists>e. nanvix_vmem_lookup st (RADDR_INV V ptr) = Inl e" using assms(2) by (simp add: vmem_lookup_eq [OF assms(1)])
  with True show ?thesis by (auto simp: nanvix_vmem_free_def Let_def)
next
  case False
  from vmem_free_ok [OF assms False] False show ?thesis by (simp only: if_False) blast
qed

theorem vmem_free_correct_witness:
  "\<exists>st st'. nanvix_vmem_alloc rmem_env_ideal vm_env_ideal vmem_booted 1 = Some (RADDR vm_env_ideal 1, st) \<and>
     nanvix_vmem_free rmem_env_ideal vm_env_ideal st (RADDR vm_env_ideal 1) = Some (Inr 0, st') \<and> vm_rbrk st' = 1"
proof -
  obtain st where s: "nanvix_vmem_alloc rmem_env_ideal vm_env_ideal vmem_booted 1 = Some (RADDR vm_env_ideal 1, st)" "vmem_inv rmem_env_ideal st"
    "vm_rbrk st = 2" "vmem_view st = [1 \<mapsto> zero_page]" by (rule vmem_demo)
  have "1 = unat (RADDR_INV vm_env_ideal (RADDR vm_env_ideal 1)) div RMEM_BLOCK_SIZE" by (simp add: rmem_consts(2))
  moreover have "vmem_view st 1 \<noteq> None" using s(4) by simp
  ultimately obtain k st' where "1 < k" "int k \<le> 2"
    "nanvix_vmem_free rmem_env_ideal vm_env_ideal st (RADDR vm_env_ideal 1) = Some (if int k = 2 then Inr 0 else Inl EINVAL, st')"
    "vm_rbrk st' = (if int k = 2 then int 1 else 2)" using vmem_free_correct [OF s(2), of 1] unfolding s(3) by (simp only: if_False) blast
  moreover from this(1,2) have "int k = 2" by linarith
  ultimately show ?thesis using s(1) by auto
qed

text \<open>
  Page faults. A fault at an address whose page is not allocated is refused with \<open>EFAULT\<close>. Otherwise, while the cache has room for the page and the
  kernel accepts the mappings, the line that holds the page is mapped at the page of the address, contents unchanged. When the line has no
  mapping yet, the handler takes the last entry of the table of mappings, so the other entries are never used and the mapping recorded there
  before is forgotten without being removed.
\<close>

theorem rfault_correct:
  fixes E :: "'w :: len word rmem_env"
  assumes "vmem_inv E st" "vaddr = addr AND PAGE_MASK V" "b = unat (RADDR_INV V vaddr) div RMEM_BLOCK_SIZE"
    and "\<forall>a. page_unmap_ok V a" "\<forall>i a. page_link_ok V i a" "vmem_view st b \<noteq> None \<longrightarrow> vmem_room st b"
    and "\<forall>k<RCACHE_SIZE - 1. mp_raddr (vm_maps st ! k) = None"
  shows "if vmem_view st b = None then nanvix_rfault E V st addr = Some (Inl EFAULT, st)
    else \<exists>i st'. nanvix_rfault E V st addr = Some (Inr 0, st') \<and> vmem_inv E st' \<and> vmem_view st' = vmem_view st \<and>
      nanvix_rcache_page_search (vm_cache st') (vm_table st ! b) = Some i \<and>
      vm_maps st' = (vm_maps st)[RCACHE_SIZE - 1 := \<lparr>mp_laddr = vaddr, mp_raddr = Some i\<rparr>]"
proof (cases "vmem_view st b = None")
  case True
  then have "\<exists>e. nanvix_vmem_lookup st (RADDR_INV V vaddr) = Inl e" using assms(3) by (simp add: vmem_lookup_eq [OF assms(1)])
  with True assms(2) show ?thesis by (auto simp: nanvix_rfault_def Let_def)
next
  case False
  have room: "vmem_room st b" using assms(6) False by simp
  from rfault_ok [OF assms(1-3) False room assms(4,5)] obtain i k st' where
    f: "nanvix_rfault E V st addr = Some (Inr 0, st')" "vmem_inv E st'" "vmem_view st' = vmem_view st"
    "nanvix_rcache_page_search (vm_cache st') (vm_table st ! b) = Some i" "k < RCACHE_SIZE"
    "k = (case first_index (\<lambda>m. mp_raddr m = Some i) (vm_maps st) of Some k \<Rightarrow> k | None \<Rightarrow> RCACHE_SIZE - 1)"
    "vm_maps st' = (vm_maps st)[k := \<lparr>mp_laddr = vaddr, mp_raddr = Some i\<rparr>]" by blast
  have "k = RCACHE_SIZE - 1"
  proof (cases "first_index (\<lambda>m. mp_raddr m = Some i) (vm_maps st)")
    case (Some j)
    have j: "j < RCACHE_SIZE" "mp_raddr (vm_maps st ! j) = Some i"
      using first_index_bound [OF Some] first_index_sat [OF Some] vmem_inv_maps [OF assms(1)] by simp_all
    then have "\<not> j < RCACHE_SIZE - 1" using assms(7) by auto
    with j(1) f(6) Some show ?thesis by simp
  qed (use f(6) in simp)
  with f False show ?thesis by auto
qed

theorem rfault_correct_witness:
  "\<exists>st st'. nanvix_vmem_alloc rmem_env_ideal vm_env_ideal vmem_booted 1 = Some (RADDR vm_env_ideal 1, st) \<and>
     nanvix_rfault rmem_env_ideal vm_env_ideal st 0x80001234 = Some (Inr 0, st')"
proof -
  obtain st where s: "nanvix_vmem_alloc rmem_env_ideal vm_env_ideal vmem_booted 1 = Some (RADDR vm_env_ideal 1, st)" "vmem_inv rmem_env_ideal st"
    "vmem_view st = [1 \<mapsto> zero_page]" "vmem_room st 1" "vm_maps st = vm_maps vmem_booted" by (rule vmem_demo)
  have "1 = unat (RADDR_INV vm_env_ideal (0x80001234 AND PAGE_MASK vm_env_ideal)) div RMEM_BLOCK_SIZE"
    by (simp add: vm_env_ideal_def RADDR_INV_def rmem_consts)
  moreover have "\<forall>a. page_unmap_ok vm_env_ideal a" "\<forall>i a. page_link_ok vm_env_ideal i a" by (simp_all add: vm_env_ideal_def)
  moreover have "\<forall>k<RCACHE_SIZE - 1. mp_raddr (vm_maps st ! k) = None" by (simp add: s(5) vmem_booted_def vmem_static_def)
  ultimately show ?thesis using rfault_correct [OF s(2) refl, of 1 vm_env_ideal "0x80001234"] s by auto
qed

text \<open>
  Memory that is allocated again shows its old contents. Reads, writes and page faults never give their line of the cache back, and a release
  leaves the line: when the servers hand the page out again, a read of the new allocation returns what the page held before.
\<close>

theorem vmem_alloc_shows_old_data:
  fixes E :: "'w :: len word rmem_env"
  assumes inv: "vmem_inv E st" and b: "b = unat (RADDR_INV V ptr) div RMEM_BLOCK_SIZE" "vm_rbrk st = int b + 1"
    and v: "vmem_view st b = Some d" "nanvix_rcache_page_search (vm_cache st) (vm_table st ! b) \<noteq> None"
    and free: "nanvix_vmem_free E V st ptr = Some (Inr 0, st1)" and alloc: "nanvix_vmem_alloc E V st1 1 = Some (ptr', st2)"
    and again: "vm_table st2 ! b = vm_table st ! b" and n: "n \<noteq> 0" "n \<le> RMEM_BLOCK_SIZE"
  shows "\<exists>st3. nanvix_vmem_read E V st2 False ptr' n = Some (n, Some (take n d), st3)"
proof -
  let ?p = "vm_table st ! b"
  have e: "?p \<noteq> RMEM_NULL" "1 \<le> b" "b < RMEM_TABLE_LENGTH" using vmem_entry [OF inv, of b] v(1) by blast+
  have "vmem_view st b \<noteq> None" using v(1) by simp
  from vmem_free_ok [OF inv b(1) this] b(2) free
  have s1: "vmem_inv E st1" "vm_rbrk st1 = int b" "ca_lines (vm_cache st1) = ca_lines (vm_cache st)"
    "nanvix_rcache_page_search (vm_cache st1) = nanvix_rcache_page_search (vm_cache st)" by (auto split: if_splits)
  have b1: "b = nat (vm_rbrk st1)" "Suc b < RMEM_TABLE_LENGTH" using s1(2) b(2) vmem_inv_rbrk(2) [OF inv] by simp_all
  have un: "unat (1 :: 'w word) = 1" "[0..<1] = [0]" by simp_all
  have null: "vm_table st1 ! b = RMEM_NULL" using vmem_inv_entry [OF s1(1), of b] s1(2) e(3) by (auto simp: entry_ok_def)
  obtain p w where a: "nanvix_rmem_alloc E (ca_mem (vm_cache st1)) = Some (p, w)"
    using stub.alloc_law [OF rcache_inv_mem [OF vmem_inv_cache [OF s1(1)]]] by blast
  have "p \<noteq> RMEM_NULL"
  proof
    assume "p = RMEM_NULL"
    moreover have "nanvix_vmem_expand st1 1 = Some (Inr (vm_rbrk st1), st1\<lparr>vm_rbrk := vm_rbrk st1 + 1\<rparr>)"
      using s1(2) b1(2) by (auto simp: nanvix_vmem_expand_def RMEM_TABLE_LENGTH_def)
    ultimately have "vm_table st2 = vm_table st1" using alloc a un by (auto simp: nanvix_vmem_alloc_def nanvix_rcache_alloc_def)
    with null again e(1) show False by simp
  qed
  then have one: "nanvix_vmem_alloc E V st1 1 = Some (RADDR V (vm_rbrk st1),
      st1\<lparr>vm_rbrk := vm_rbrk st1 + 1, vm_cache := (vm_cache st1)\<lparr>ca_mem := w\<rparr>, vm_table := (vm_table st1)[b := p]\<rparr>)"
    "vmem_inv E (st1\<lparr>vm_rbrk := vm_rbrk st1 + 1, vm_cache := (vm_cache st1)\<lparr>ca_mem := w\<rparr>, vm_table := (vm_table st1)[b := p]\<rparr>)"
    by (rule vmem_alloc_one [OF s1(1) b1 a])+
  have st2: "st2 = st1\<lparr>vm_rbrk := vm_rbrk st1 + 1, vm_cache := (vm_cache st1)\<lparr>ca_mem := w\<rparr>, vm_table := (vm_table st1)[b := p]\<rparr>"
    and ptr: "ptr' = RADDR V (vm_rbrk st1)" using one(1) alloc by simp_all
  have inv2: "vmem_inv E st2" using one(2) by (simp add: st2)
  have p: "p = ?p" using again e(3) vmem_inv_length [OF s1(1)] by (simp add: st2)
  have "page_view (vm_cache st2) ?p = page_view (vm_cache st) ?p"
    using v(2) s1(3,4) by (auto simp: page_view_def st2 page_search_mem)
  then have v2: "vmem_view st2 b = Some d" using v(1) e p vmem_inv_length [OF s1(1)] by (simp add: vmem_view_def st2)
  have "unat (RADDR_INV V ptr') = b * RMEM_BLOCK_SIZE"
    using RADDR_parts [OF vmem_inv_width [OF inv], of "int b" V] e(3) s1(2) by (simp add: ptr)
  then have addr: "b = unat (RADDR_INV V ptr') div RMEM_BLOCK_SIZE" "0 = unat (RADDR_INV V ptr') mod RMEM_BLOCK_SIZE"
    by (simp_all add: rmem_consts)
  have room: "vmem_room st2 b" using again v(2) s1(4) by (simp add: rcache_room_def st2 page_search_mem)
  from vmem_read_ok [OF inv2 n(1) refl addr v2 _ room] n(2) show ?thesis by auto
qed

theorem vmem_alloc_shows_old_data_witness:
  "\<exists>st0 st st1 st2 st3. nanvix_vmem_alloc rmem_env_ideal vm_env_ideal vmem_booted 1 = Some (RADDR vm_env_ideal 1, st0) \<and>
     nanvix_vmem_write rmem_env_ideal vm_env_ideal st0 (RADDR vm_env_ideal 1) (Some [7]) 1 = Some (1, st) \<and>
     nanvix_vmem_free rmem_env_ideal vm_env_ideal st (RADDR vm_env_ideal 1) = Some (Inr 0, st1) \<and>
     nanvix_vmem_alloc rmem_env_ideal vm_env_ideal st1 1 = Some (RADDR vm_env_ideal 1, st2) \<and>
     nanvix_vmem_read rmem_env_ideal vm_env_ideal st2 False (RADDR vm_env_ideal 1) 1 = Some (1, Some [7], st3)"
proof -
  let ?E = rmem_env_ideal and ?V = vm_env_ideal
  obtain p st0 where s: "nanvix_vmem_alloc ?E ?V vmem_booted 1 = Some (RADDR ?V 1, st0)" "vmem_inv ?E st0" "vm_rbrk st0 = 2"
    "vmem_view st0 = [1 \<mapsto> zero_page]" "vmem_room st0 1" "vm_table st0 ! 1 = p" "unat (RMEM_BLOCK_NUM p) = 1" "unat (RMEM_BLOCK_SERVER p) = 0"
    "length (rs_server (ca_mem (vm_cache st0))) = 1" "vm_pages st0 = [p \<mapsto> (3, zero_page)]" by (rule vmem_demo)
  have addr: "1 = unat (RADDR_INV ?V (RADDR ?V 1)) div RMEM_BLOCK_SIZE" "0 = unat (RADDR_INV ?V (RADDR ?V 1)) mod RMEM_BLOCK_SIZE" by (simp_all add: rmem_consts(2))
  have v0: "vmem_view st0 1 = Some zero_page" and n: "(1 :: nat) \<noteq> 0" "1 \<le> length [7 :: byte]" "0 + 1 \<le> RMEM_BLOCK_SIZE" using s(4) by (simp_all add: rmem_consts)
  from vmem_write_ok [OF s(2) n(1,2) refl addr v0 n(3) s(5)]
  obtain st where w: "nanvix_vmem_write ?E ?V st0 (RADDR ?V 1) (Some [7]) 1 = Some (1, st)" "vmem_inv ?E st"
    "vmem_view st = (vmem_view st0)(1 \<mapsto> take 0 zero_page @ take 1 [7] @ drop (0 + 1) zero_page)" "vm_table st = vm_table st0" "vm_rbrk st = 2"
    "vm_pages st = (vm_pages st0 :: 64 word \<Rightarrow> _)" "nanvix_rcache_page_search (vm_cache st) (vm_table st0 ! 1) \<noteq> None" using s(3) by auto
  have v: "vmem_view st 1 = Some (7 # drop 1 zero_page)" using w(3) by simp
  have "vmem_view st 1 \<noteq> None" using v by simp
  from vmem_free_ok [OF w(2) addr(1) this] obtain k st1 where f: "1 < k" "int k \<le> vm_rbrk st"
    "nanvix_vmem_free ?E ?V st (RADDR ?V 1) = Some (if int k = vm_rbrk st then Inr 0 else Inl EINVAL, st1)" "vmem_inv ?E st1"
    "vm_rbrk st1 = (if int k = vm_rbrk st then int 1 else vm_rbrk st)" "rs_server (ca_mem (vm_cache st1)) = rs_server (ca_mem (vm_cache st))"
    "\<forall>q. vm_pages st1 q = (if \<exists>j. 1 \<le> j \<and> j < k \<and> vm_table st ! j = q then None else vm_pages st q)" by blast
  have k: "int k = vm_rbrk st" "k = 2" using f(1,2) w(5) by simp_all
  have "vm_pages st1 q = None" for q
    using f(7) k(2) s(6,10) w(4,6) by (cases "q = p") (auto intro!: exI [of _ 1])
  then have e: "vm_pages st1 = (\<lambda>_ :: 64 word. None)" by (rule ext)
  have one: "length (rs_server (ca_mem (vm_cache st1))) = 1" using f(6) s(9) vmem_write_servers [OF w(1)] by simp
  obtain p2 w2 where a: "nanvix_rmem_alloc ?E (ca_mem (vm_cache st1)) = Some (p2, w2)" "p2 \<noteq> RMEM_NULL" "unat (RMEM_BLOCK_NUM p2) = 1" "unat (RMEM_BLOCK_SERVER p2) = 0"
    by (rule single_empty_alloc [OF rcache_inv_mem [OF vmem_inv_cache [OF f(4)]] one e])
  have p2: "p2 = p" by (rule address_eqI) (simp_all add: word_unat_eq_iff a(3,4) s(7,8))
  have r1: "vm_rbrk st1 = 1" using f(5) k(1) by simp
  then have b: "1 = nat (vm_rbrk st1)" "Suc 1 < RMEM_TABLE_LENGTH" by (simp_all add: RMEM_TABLE_LENGTH_def)
  let ?st2 = "st1\<lparr>vm_rbrk := vm_rbrk st1 + 1, vm_cache := (vm_cache st1)\<lparr>ca_mem := w2\<rparr>, vm_table := (vm_table st1)[1 := p2]\<rparr>"
  have al: "nanvix_vmem_alloc ?E ?V st1 1 = Some (RADDR ?V (vm_rbrk st1), ?st2)" by (rule vmem_alloc_one(1) [OF f(4) b a(1,2)])
  have fr: "nanvix_vmem_free ?E ?V st (RADDR ?V 1) = Some (Inr 0, st1)" using f(3) k(1) by simp
  have t: "vm_table ?st2 ! 1 = vm_table st ! 1" using vmem_inv_length [OF f(4)] p2 s(6) w(4) by (simp add: RMEM_TABLE_LENGTH_def)
  have brk: "vm_rbrk st = int 1 + 1" and c: "nanvix_rcache_page_search (vm_cache st) (vm_table st ! 1) \<noteq> None" using w(4,5,7) by simp_all
  from vmem_alloc_shows_old_data [OF w(2) addr(1) brk v c fr al t n(1)] n(3)
  obtain st3 where "nanvix_vmem_read ?E ?V ?st2 False (RADDR ?V (vm_rbrk st1)) 1 = Some (1, Some (take 1 (7 # drop 1 zero_page)), st3)" by auto
  with s(1) w(1) fr al r1 show ?thesis by auto
qed

end
