(* ===== verification/ShmClient.thy ===== *)
theory ShmClient
  imports SysVClient Vmem
begin

text \<open>
  The client side of shared memory, \<open>src/libruntime/pm/sysv/shm.c\<close>: the table of regions that this process has open, the calls that go to the
  System V server, and the reads and writes through the page cache. The pages are held by the remote memory servers, which the System V server
  and the cache both reach through their stubs: \<open>shm_pull\<close> and \<open>shm_push\<close> give the cache the servers as they are and take them back. The fields of
  a message that nobody has set are parameters.
\<close>

section \<open>State\<close>

definition NANVIX_SHM_OPEN_MAX :: nat where "NANVIX_SHM_OPEN_MAX = 8"

definition SYSV_SUCCESS :: int where "SYSV_SUCCESS = 0"
definition SYSV_FAIL :: int where "SYSV_FAIL = 2"
definition SYSV_SHM_FAIL :: int where "SYSV_SHM_FAIL = 18"

record ('r, 'p) oregion =
  or_resource :: 'r
  or_shmid :: int
  or_oflags :: open_flags
  or_mode :: shm_mode
  or_refcount :: int
  or_name :: string
  or_page :: 'p

record ('r, 'p) shm_world =
  hw_sysv :: "('r, 'p) sysv_world"
  hw_oregions :: "('r, 'p) oregion list"
  hw_cache :: "'p rcache"

text \<open>
  The environment: that of the System V client, the remote memory stub of this process, what the server's response holds where no handler has
  stored anything, and what the invalidation request holds as identifier.
\<close>

record 'p shm_env =
  he_sysv :: "'p sysv_env"
  he_rmem :: "'p rmem_env"
  he_junk_ipcid :: int
  he_junk_page :: 'p
  he_junk_shmid :: int

abbreviation hw_shm :: "('r, 'p) shm_world \<Rightarrow> ('r, 'p) shm_state" where
  "hw_shm w \<equiv> sv_shm (sw_server (hw_sysv w))"

definition shm_pull :: "('r, 'p) shm_world \<Rightarrow> 'p rcache" where
  "shm_pull w = (hw_cache w)\<lparr>ca_mem := (ca_mem (hw_cache w))\<lparr>rs_servers := rs_servers (shm_mem (hw_shm w))\<rparr>\<rparr>"

definition shm_push :: "'p rcache \<Rightarrow> ('r, 'p) shm_world \<Rightarrow> ('r, 'p) shm_world" where
  "shm_push c w =
     w\<lparr>hw_cache := c,
       hw_sysv := (hw_sysv w)\<lparr>sw_server := (sw_server (hw_sysv w))\<lparr>sv_shm :=
         (hw_shm w)\<lparr>shm_mem := (shm_mem (hw_shm w))\<lparr>rs_servers := rs_servers (ca_mem c)\<rparr>\<rparr>\<rparr>\<rparr>\<rparr>"

section \<open>The table of open regions\<close>

definition shm_lookup_name :: "'r resource_ops \<Rightarrow> ('r, 'p) shm_world \<Rightarrow> string \<Rightarrow> nat option" where
  "shm_lookup_name R w name = first_index (\<lambda>g. resource_is_used R (or_resource g) \<and> or_name g = name) (hw_oregions w)"

definition shm_lookup_shmid :: "'r resource_ops \<Rightarrow> ('r, 'p) shm_world \<Rightarrow> int \<Rightarrow> nat option" where
  "shm_lookup_shmid R w shmid = first_index (\<lambda>g. resource_is_used R (or_resource g) \<and> or_shmid g = shmid) (hw_oregions w)"

definition oregion_update :: "nat \<Rightarrow> (('r, 'p) oregion \<Rightarrow> ('r, 'p) oregion) \<Rightarrow> ('r, 'p) shm_world \<Rightarrow> ('r, 'p) shm_world" where
  "oregion_update i f w = w\<lparr>hw_oregions := (hw_oregions w)[i := f (hw_oregions w ! i)]\<rparr>"

definition oregion_alloc :: "'r resource_ops \<Rightarrow> ('r, 'p) shm_world \<Rightarrow> (nat \<times> ('r, 'p) shm_world) option" where
  "oregion_alloc R w =
     map_option (\<lambda>(i, r). (i, oregion_update i (\<lambda>g. g\<lparr>or_resource := r\<rparr>) w)) (resource_alloc R (map or_resource (hw_oregions w)))"

definition oregion_free :: "'r resource_ops \<Rightarrow> nat \<Rightarrow> ('r, 'p) shm_world \<Rightarrow> ('r, 'p) shm_world" where
  "oregion_free R i w = oregion_update i (\<lambda>g. g\<lparr>or_resource := resource_free R (or_resource g)\<rparr>) w"

definition nanvix_shm_initializer :: "'r resource_ops \<Rightarrow> nat \<Rightarrow> int \<Rightarrow> string \<Rightarrow> open_flags \<Rightarrow> shm_mode \<Rightarrow> ('r, 'p) shm_world \<Rightarrow> ('r, 'p) shm_world" where
  "nanvix_shm_initializer R oshmid shmid name oflags mode w =
     oregion_update oshmid (\<lambda>g. g\<lparr>or_shmid := shmid, or_oflags := oflags, or_mode := mode, or_refcount := 1, or_name := name,
       or_resource := (if O_RDWR oflags \<and> \<not> O_WRONLY oflags then resource_set_rdwr R (or_resource g)
                       else if O_WRONLY oflags \<and> \<not> O_RDWR oflags then resource_set_wronly R (or_resource g)
                       else resource_set_rdonly R (or_resource g))\<rparr>) w"

section \<open>Requests\<close>

record 'p shm_reply =
  hr_opcode :: int
  hr_status :: "int result"
  hr_ipcid :: int
  hr_page :: 'p

definition shm_response :: "'p shm_env \<Rightarrow> int result \<Rightarrow> 'p sysv_out \<Rightarrow> 'p shm_reply" where
  "shm_response C r out =
     \<lparr>hr_opcode = (if isl r then SYSV_FAIL else SYSV_SUCCESS), hr_status = r,
      hr_ipcid = (case so_ipcid out of Some i \<Rightarrow> i | None \<Rightarrow> he_junk_ipcid C),
      hr_page = (case so_page out of Some p \<Rightarrow> p | None \<Rightarrow> he_junk_page C)\<rparr>"

definition shm_call :: "'w :: len word shm_env \<Rightarrow> 'r resource_ops \<Rightarrow> ('r, 'w word) shm_world \<Rightarrow> 'w word sysv_op \<Rightarrow>
    ('w word shm_reply \<times> ('r, 'w word) shm_world) option" where
  "shm_call C R w op =
     do { (r, out, sw) \<leftarrow> sysv_call (he_sysv C) R (hw_sysv w) [] (sysv_std (he_sysv C) op);
          Some (shm_response C r out, w\<lparr>hw_sysv := sw\<rparr>) }"

definition do_nanvix_shm_ftruncate :: "'w :: len word shm_env \<Rightarrow> 'r resource_ops \<Rightarrow> ('r, 'w word) shm_world \<Rightarrow> int \<Rightarrow> int \<Rightarrow>
    (int result \<times> ('r, 'w word) shm_world) option" where
  "do_nanvix_shm_ftruncate C R w shmid sz =
     (case shm_lookup_shmid R w shmid of
        None \<Rightarrow> Some (Inl ENOENT, w)
      | Some i \<Rightarrow>
          if or_refcount (hw_oregions w ! i) = 0 then Some (Inl ENOENT, w)
          else do {
            (msg, w1) \<leftarrow> shm_call C R w (SYSV_SHM_FTRUNCATE shmid sz);
            if hr_opcode msg = SYSV_SHM_FAIL then Some (hr_status msg, oregion_free R i w1)
            else Some (Inr 0, oregion_update i (\<lambda>g. g\<lparr>or_page := hr_page msg\<rparr>) w1) })"

definition nanvix_shm_ftruncate :: "'w :: len word shm_env \<Rightarrow> 'r resource_ops \<Rightarrow> ('r, 'w word) shm_world \<Rightarrow> int \<Rightarrow> int \<Rightarrow>
    (int result \<times> ('r, 'w word) shm_world) option" where
  "nanvix_shm_ftruncate C R w shmid sz =
     (if \<not> nanvix_sysv_is_initialized (hw_sysv w) then Some (Inl EAGAIN, w)
      else if \<not> nanvix_shm_is_valid shmid then Some (Inl EINVAL, w)
      else if sz < 0 then Some (Inl EINVAL, w)
      else if int NANVIX_SHM_SIZE_MAX < sz then Some (Inl EFBIG, w)
      else do_nanvix_shm_ftruncate C R w shmid sz)"

text \<open>What an open and a create do with the answer of the server.\<close>

definition shm_opened :: "'r resource_ops \<Rightarrow> nat \<Rightarrow> string \<Rightarrow> open_flags \<Rightarrow> shm_mode \<Rightarrow> 'p shm_reply \<Rightarrow> ('r, 'p) shm_world \<Rightarrow>
    int result \<times> ('r, 'p) shm_world" where
  "shm_opened R i name oflags mode msg w =
     (if hr_opcode msg = SYSV_SHM_FAIL then (hr_status msg, oregion_free R i w)
      else (Inr (hr_ipcid msg),
        nanvix_shm_initializer R i (hr_ipcid msg) name oflags mode (oregion_update i (\<lambda>g. g\<lparr>or_page := hr_page msg\<rparr>) w)))"

definition do_nanvix_shm_create :: "'w :: len word shm_env \<Rightarrow> 'r resource_ops \<Rightarrow> ('r, 'w word) shm_world \<Rightarrow> string \<Rightarrow> open_flags \<Rightarrow> shm_mode \<Rightarrow>
    (int result \<times> ('r, 'w word) shm_world) option" where
  "do_nanvix_shm_create C R w name oflags mode =
     (case oregion_alloc R w of
        None \<Rightarrow> Some (Inl ENFILE, w)
      | Some (i, w0) \<Rightarrow>
          if \<not> (O_RDWR oflags \<or> O_WRONLY oflags) then Some (Inl EACCES, oregion_free R i w0)
          else do {
            (msg, w1) \<leftarrow> shm_call C R w0 (SYSV_SHM_CREATE name oflags mode);
            Some (shm_opened R i name oflags mode msg w1) })"

definition do_nanvix_shm_open :: "'w :: len word shm_env \<Rightarrow> 'r resource_ops \<Rightarrow> ('r, 'w word) shm_world \<Rightarrow> string \<Rightarrow> open_flags \<Rightarrow> shm_mode \<Rightarrow>
    (int result \<times> ('r, 'w word) shm_world) option" where
  "do_nanvix_shm_open C R w name oflags mode =
     (case shm_lookup_name R w name of
        Some i \<Rightarrow>
          if O_EXCL oflags then Some (Inl EEXIST, w)
          else if O_TRUNC oflags \<and> \<not> (O_WRONLY oflags \<or> O_RDWR oflags) then Some (Inl EACCES, w)
          else do {
            (ret, w1) \<leftarrow> (if O_TRUNC oflags then do_nanvix_shm_ftruncate C R w (or_shmid (hw_oregions w ! i)) 0 else Some (Inr 0, w));
            if isl ret then Some (ret, w1)
            else Some (Inr (int i), oregion_update i (\<lambda>g. g\<lparr>or_refcount := or_refcount g + 1\<rparr>) w1) }
      | None \<Rightarrow>
          if O_CREAT oflags then do_nanvix_shm_create C R w name oflags mode
          else if O_TRUNC oflags \<and> \<not> (O_RDWR oflags \<or> O_WRONLY oflags) then Some (Inl EACCES, w)
          else case oregion_alloc R w of
            None \<Rightarrow> Some (Inl ENFILE, w)
          | Some (i, w0) \<Rightarrow> do {
              (msg, w1) \<leftarrow> shm_call C R w0 (SYSV_SHM_OPEN name oflags);
              Some (shm_opened R i name oflags mode msg w1) })"

definition nanvix_shm_open :: "'w :: len word shm_env \<Rightarrow> 'r resource_ops \<Rightarrow> ('r, 'w word) shm_world \<Rightarrow> string option \<Rightarrow> open_flags \<Rightarrow> shm_mode \<Rightarrow>
    (int result \<times> ('r, 'w word) shm_world) option" where
  "nanvix_shm_open C R w name oflags mode =
     (if \<not> nanvix_sysv_is_initialized (hw_sysv w) then Some (Inl EAGAIN, w)
      else if nanvix_shm_name_is_invalid name \<noteq> Inr 0 then Some (nanvix_shm_name_is_invalid name, w)
      else if O_OTHERS oflags then Some (Inl ENOTSUP, w)
      else if S_OTHERS mode then Some (Inl ENOTSUP, w)
      else do { n \<leftarrow> name; do_nanvix_shm_open C R w n oflags mode })"

definition do_nanvix_shm_unlink :: "'w :: len word shm_env \<Rightarrow> 'r resource_ops \<Rightarrow> ('r, 'w word) shm_world \<Rightarrow> string \<Rightarrow>
    (int result \<times> ('r, 'w word) shm_world) option" where
  "do_nanvix_shm_unlink C R w name =
     (case shm_lookup_name R w name of
        None \<Rightarrow> Some (Inl ENOENT, w)
      | Some i \<Rightarrow>
          if 1 \<le> or_refcount (hw_oregions w ! i) then Some (Inl EBUSY, w)
          else do {
            (msg, w1) \<leftarrow> shm_call C R w (SYSV_SHM_UNLINK name);
            if hr_opcode msg = SYSV_SHM_FAIL then Some (hr_status msg, w1)
            else Some (Inr 0, oregion_free R i w1) })"

definition nanvix_shm_unlink :: "'w :: len word shm_env \<Rightarrow> 'r resource_ops \<Rightarrow> ('r, 'w word) shm_world \<Rightarrow> string option \<Rightarrow>
    (int result \<times> ('r, 'w word) shm_world) option" where
  "nanvix_shm_unlink C R w name =
     (if \<not> nanvix_sysv_is_initialized (hw_sysv w) then Some (Inl EAGAIN, w)
      else if nanvix_shm_name_is_invalid name \<noteq> Inr 0 then Some (nanvix_shm_name_is_invalid name, w)
      else do { n \<leftarrow> name; do_nanvix_shm_unlink C R w n })"

definition do_nanvix_shm_close :: "'w :: len word shm_env \<Rightarrow> 'r resource_ops \<Rightarrow> ('r, 'w word) shm_world \<Rightarrow> int \<Rightarrow>
    (int result \<times> ('r, 'w word) shm_world) option" where
  "do_nanvix_shm_close C R w shmid =
     (case shm_lookup_shmid R w shmid of
        None \<Rightarrow> Some (Inl ENOENT, w)
      | Some i \<Rightarrow>
          if or_refcount (hw_oregions w ! i) = 0 then Some (Inl ENOENT, w)
          else do {
            (ret, w1) \<leftarrow>
              (if or_refcount (hw_oregions w ! i) = 1
               then do { (msg, w1) \<leftarrow> shm_call C R w (SYSV_SHM_CLOSE shmid);
                         Some (if hr_opcode msg = SYSV_SHM_FAIL then hr_status msg else Inr 0, w1) }
               else Some (Inr 0, w));
            if isl ret then Some (ret, w1)
            else do {
              let w2 = oregion_update i (\<lambda>g. g\<lparr>or_refcount := or_refcount g - 1\<rparr>) w1;
              Some (Inr 0, if or_refcount (hw_oregions w2 ! i) = 0 \<and> \<not> O_CREAT (or_oflags (hw_oregions w2 ! i)) then oregion_free R i w2 else w2) } })"

definition nanvix_shm_close :: "'w :: len word shm_env \<Rightarrow> 'r resource_ops \<Rightarrow> ('r, 'w word) shm_world \<Rightarrow> int \<Rightarrow>
    (int result \<times> ('r, 'w word) shm_world) option" where
  "nanvix_shm_close C R w shmid =
     (if \<not> nanvix_sysv_is_initialized (hw_sysv w) then Some (Inl EAGAIN, w)
      else if \<not> nanvix_shm_is_valid shmid then Some (Inl EINVAL, w)
      else do_nanvix_shm_close C R w shmid)"

definition do_nanvix_shm_inval :: "'w :: len word shm_env \<Rightarrow> 'r resource_ops \<Rightarrow> ('r, 'w word) shm_world \<Rightarrow> int \<Rightarrow>
    (int result \<times> ('r, 'w word) shm_world) option" where
  "do_nanvix_shm_inval C R w shmid =
     (case shm_lookup_shmid R w shmid of
        None \<Rightarrow> Some (Inl ENOENT, w)
      | Some i \<Rightarrow>
          if or_refcount (hw_oregions w ! i) = 0 then Some (Inl ENOENT, w)
          else do {
            (msg, w1) \<leftarrow> shm_call C R w (SYSV_SHM_INVAL (he_junk_shmid C) (or_page (hw_oregions w ! i)));
            Some (if hr_opcode msg = SYSV_SHM_FAIL then hr_status msg else Inr 0, w1) })"

definition nanvix_shm_inval :: "'w :: len word shm_env \<Rightarrow> 'r resource_ops \<Rightarrow> ('r, 'w word) shm_world \<Rightarrow> int \<Rightarrow>
    (int result \<times> ('r, 'w word) shm_world) option" where
  "nanvix_shm_inval C R w shmid =
     (if \<not> nanvix_sysv_is_initialized (hw_sysv w) then Some (Inl EAGAIN, w)
      else if \<not> nanvix_shm_is_valid shmid then Some (Inl EINVAL, w)
      else do_nanvix_shm_inval C R w shmid)"

section \<open>Reads and writes\<close>

text \<open>The page of an open region, as both transfers find it.\<close>

definition shm_target :: "'r resource_ops \<Rightarrow> ('r, 'w :: len word) shm_world \<Rightarrow> int \<Rightarrow> 'w word result" where
  "shm_target R w shmid =
     (case shm_lookup_shmid R w shmid of
        None \<Rightarrow> Inl ENOENT
      | Some i \<Rightarrow>
          if or_refcount (hw_oregions w ! i) = 0 then Inl ENOENT
          else if or_page (hw_oregions w ! i) = RMEM_NULL then Inl ENOMEM
          else Inr (or_page (hw_oregions w ! i)))"

text \<open>The bytes copied to the caller's buffer are the second component.\<close>

definition do_nanvix_shm_read :: "'w :: len word shm_env \<Rightarrow> 'r resource_ops \<Rightarrow> ('r, 'w word) shm_world \<Rightarrow> int \<Rightarrow> nat \<Rightarrow> nat \<Rightarrow>
    (int result \<times> byte list \<times> ('r, 'w word) shm_world) option" where
  "do_nanvix_shm_read C R w shmid n off =
     (case shm_target R w shmid of
        Inl e \<Rightarrow> Some (Inl e, [], w)
      | Inr page \<Rightarrow> do {
          (ptr, c1) \<leftarrow> nanvix_rcache_get (he_rmem C) (shm_pull w) page;
          i \<leftarrow> ptr;
          l \<leftarrow> arr_get (ca_lines c1) i;
          uassert (off + n \<le> length (rl_page l));
          (r, c2) \<leftarrow> nanvix_rcache_put (he_rmem C) c1 page;
          uassert (r = Inr 0);
          Some (Inr (int n), take n (drop off (rl_page l)), shm_push c2 w) })"

definition do_nanvix_shm_write :: "'w :: len word shm_env \<Rightarrow> 'r resource_ops \<Rightarrow> ('r, 'w word) shm_world \<Rightarrow> int \<Rightarrow> byte list \<Rightarrow> nat \<Rightarrow> nat \<Rightarrow>
    (int result \<times> ('r, 'w word) shm_world) option" where
  "do_nanvix_shm_write C R w shmid buf n off =
     (case shm_target R w shmid of
        Inl e \<Rightarrow> Some (Inl e, w)
      | Inr page \<Rightarrow> do {
          (ptr, c1) \<leftarrow> nanvix_rcache_get (he_rmem C) (shm_pull w) page;
          i \<leftarrow> ptr;
          l \<leftarrow> arr_get (ca_lines c1) i;
          uassert (off + n \<le> length (rl_page l));
          uassert (n \<le> length buf);
          (r, c2) \<leftarrow> nanvix_rcache_put (he_rmem C)
            (rcache_store c1 i (take off (rl_page l) @ take n buf @ drop (off + n) (rl_page l))) page;
          uassert (r = Inr 0);
          Some (Inr (int n), shm_push c2 w) })"

definition nanvix_shm_read :: "'w :: len word shm_env \<Rightarrow> 'r resource_ops \<Rightarrow> ('r, 'w word) shm_world \<Rightarrow> int \<Rightarrow> bool \<Rightarrow> nat \<Rightarrow> int \<Rightarrow>
    (int result \<times> byte list \<times> ('r, 'w word) shm_world) option" where
  "nanvix_shm_read C R w shmid null n off =
     (if \<not> nanvix_sysv_is_initialized (hw_sysv w) then Some (Inl EAGAIN, [], w)
      else if \<not> nanvix_shm_is_valid shmid then Some (Inl EINVAL, [], w)
      else if null then Some (Inl EINVAL, [], w)
      else if NANVIX_SHM_SIZE_MAX < n then Some (Inl EINVAL, [], w)
      else if off < 0 \<or> int NANVIX_SHM_SIZE_MAX < int n + off then Some (Inl EINVAL, [], w)
      else do_nanvix_shm_read C R w shmid n (nat off))"

definition nanvix_shm_write :: "'w :: len word shm_env \<Rightarrow> 'r resource_ops \<Rightarrow> ('r, 'w word) shm_world \<Rightarrow> int \<Rightarrow> byte list option \<Rightarrow> nat \<Rightarrow> int \<Rightarrow>
    (int result \<times> ('r, 'w word) shm_world) option" where
  "nanvix_shm_write C R w shmid buf n off =
     (if \<not> nanvix_shm_is_valid shmid then Some (Inl EINVAL, w)
      else case buf of
        None \<Rightarrow> Some (Inl EINVAL, w)
      | Some b \<Rightarrow>
          if NANVIX_SHM_SIZE_MAX < n then Some (Inl EINVAL, w)
          else if off < 0 \<or> int NANVIX_SHM_SIZE_MAX < int n + off then Some (Inl EINVAL, w)
          else do_nanvix_shm_write C R w shmid b n (nat off))"

section \<open>A working client\<close>

definition shm_client_up :: "'w :: len word shm_env \<Rightarrow> 'r resource_ops \<Rightarrow> ('r, 'w word) shm_world \<Rightarrow> bool" where
  "shm_client_up C R w \<longleftrightarrow> sysv_env_up (he_sysv C) \<and> sysv_world_up (he_sysv C) R (hw_sysv w) \<and>
     length (hw_oregions w) = NANVIX_SHM_OPEN_MAX \<and> rcache_inv (he_rmem C) (shm_pull w)"

abbreviation shm_pages :: "('r, 'w :: len word) shm_world \<Rightarrow> 'w word \<Rightarrow> (int \<times> byte list) option" where
  "shm_pages w \<equiv> page_abs (shm_mem (hw_shm w))"

text \<open>The cache has an empty line and no page in use.\<close>

definition cache_room :: "('r, 'w :: len word) shm_world \<Rightarrow> bool" where
  "cache_room w \<longleftrightarrow> nanvix_rcache_empty (hw_cache w) \<noteq> None \<and> list_all (\<lambda>l. rl_refcount l = 0) (ca_lines (hw_cache w))"

lemma shm_client_upD:
  assumes "shm_client_up C R w"
  shows "sysv_env_up (he_sysv C)" "sysv_world_up (he_sysv C) R (hw_sysv w)" "length (hw_oregions w) = NANVIX_SHM_OPEN_MAX" "rcache_inv (he_rmem C) (shm_pull w)"
    "sysv_inv (se_rmem (he_sysv C)) R (sw_server (hw_sysv w))" "shm_inv (se_rmem (he_sysv C)) R (hw_shm w)" "conn_wf (sv_conns (sw_server (hw_sysv w)))"
    "nanvix_sysv_is_initialized (hw_sysv w)"
  using assms by (auto simp: shm_client_up_def sysv_world_up_def sysv_inv_def)

lemma page_abs_servers: "page_abs (w\<lparr>rs_servers := rs_servers v\<rparr>) = page_abs v"
  by (simp add: page_abs_def fun_eq_iff)

lemma shm_pull_pages: "page_abs (ca_mem (shm_pull w)) = shm_pages w"
  by (simp add: shm_pull_def page_abs_servers)

lemma shm_pull_sel [simp]: "ca_lines (shm_pull w) = ca_lines (hw_cache w)" "nanvix_rcache_empty (shm_pull w) = nanvix_rcache_empty (hw_cache w)"
  by (simp_all add: shm_pull_def nanvix_rcache_empty_def)

lemma shm_push_sel [simp]:
  "shm_pull (shm_push c w) = c" "hw_oregions (shm_push c w) = hw_oregions w" "regions (hw_shm (shm_push c w)) = regions (hw_shm w)"
  "sv_conns (sw_server (hw_sysv (shm_push c w))) = sv_conns (sw_server (hw_sysv w))" "shm_pages (shm_push c w) = page_abs (ca_mem c)"
  "hw_cache (shm_push c w) = c"
  by (simp_all add: shm_pull_def shm_push_def page_abs_servers)

lemma stub_inv_servers:
  assumes "stub_inv E w" "stub_inv F v" "length (rs_servers v) = length (rs_servers w)"
  shows "stub_inv E (w\<lparr>rs_servers := rs_servers v\<rparr>)"
  using assms by (auto simp: stub_inv_def sys_inv_def)

lemma shm_push_up:
  fixes C :: "'w :: len word shm_env"
  assumes up: "shm_client_up C R w" and c: "rcache_inv (he_rmem C) c" "rs_server (ca_mem c) = rs_server (ca_mem (hw_cache w))"
    and pg: "shm_pages w p = Some (own, d)" "page_abs (ca_mem c) = (shm_pages w)(p \<mapsto> (own, d'))"
  shows "shm_client_up C R (shm_push c w)"
proof -
  let ?E = "se_rmem (he_sysv C)" and ?m = "(shm_mem (hw_shm w))\<lparr>rs_servers := rs_servers (ca_mem c)\<rparr>"
  note U = shm_client_upD [OF up]
  have "length (rs_servers (ca_mem c)) = length (rs_servers (shm_mem (hw_shm w)))"
    using rcache_inv_mem [OF c(1)] rcache_inv_mem [OF U(4)] c(2) by (simp add: stub_inv_def sys_inv_def shm_pull_def)
  then have "stub_inv ?E ?m" by (rule stub_inv_servers [OF shm_inv_mem [OF U(6)] rcache_inv_mem [OF c(1)]])
  moreover have "page_abs ?m = (shm_pages w)(p \<mapsto> (own, d'))" using pg(2) by (simp add: page_abs_servers)
  then have "region_ok ?E R ?m g" if "region_ok ?E R (shm_mem (hw_shm w)) g" for g using that pg(1) by (auto simp: region_ok_def)
  ultimately have "shm_inv ?E R ((hw_shm w)\<lparr>shm_mem := ?m\<rparr>)" using U(6) by (simp add: shm_inv_def)
  then have "sysv_world_up (he_sysv C) R (hw_sysv (shm_push c w))"
    using U(2) by (simp add: sysv_world_up_def sysv_inv_def shm_push_def nanvix_sysv_is_initialized_def)
  then show ?thesis using U(1,3) c(1) by (simp add: shm_client_up_def)
qed

lemma rcache_put_servers: "nanvix_rcache_put E c p = Some (r, c') \<Longrightarrow> rs_server (ca_mem c') = rs_server (ca_mem c)"
  by (auto simp: nanvix_rcache_put_def nanvix_rcache_flush_def line_update_def bind_eq_Some_conv Let_def split: option.splits if_splits
      dest!: rmem_ops_servers(2))

text \<open>What a transfer does with the page: it is loaded, may be changed, and is written back.\<close>

lemma shm_transfer:
  fixes C :: "'w :: len word shm_env"
  assumes up: "shm_client_up C R w" and room: "cache_room w" and pg: "shm_pages w p = Some (own, d)"
  obtains i c where "nanvix_rcache_get (he_rmem C) (shm_pull w) p = Some (Some i, c)" "i < length (ca_lines c)" "rl_page (ca_lines c ! i) = d"
    "rcache_store c i d = c" "length d = RMEM_BLOCK_SIZE"
    "\<And>d'. length d' = RMEM_BLOCK_SIZE \<Longrightarrow> \<exists>c'. nanvix_rcache_put (he_rmem C) (rcache_store c i d') p = Some (Inr 0, c') \<and>
      shm_client_up C R (shm_push c' w) \<and> shm_pages (shm_push c' w) = (shm_pages w)(p \<mapsto> (own, d'))"
proof -
  let ?E = "he_rmem C"
  note U = shm_client_upD [OF up]
  obtain i where i: "nanvix_rcache_empty (shm_pull w) = Some i" using room by (auto simp: cache_room_def)
  have no: "nanvix_rcache_page_search (shm_pull w) p = None"
    using room by (simp add: cache_room_def nanvix_rcache_page_search_def first_index_None_iff list_all_length)
  have pg': "page_abs (ca_mem (shm_pull w)) p = Some (own, d)" using pg by (simp add: shm_pull_pages)
  have d: "length d = RMEM_BLOCK_SIZE" by (rule stub.page_size [OF rcache_inv_mem [OF U(4)] pg'])
  obtain v a where g: "nanvix_rcache_get ?E (shm_pull w) p = Some (Some i, (shm_pull w)\<lparr>ca_ngets := ca_ngets (shm_pull w) + 1,
      ca_lines := (ca_lines (shm_pull w))[i := \<lparr>rl_age = a, rl_pgnum = p, rl_refcount = 1, rl_page = d\<rparr>], ca_mem := v\<rparr>)"
    "stub_inv ?E v" "page_abs v = (page_abs (ca_mem (shm_pull w)) :: 'w word \<Rightarrow> _)" "i < RCACHE_LENGTH" "p \<noteq> RMEM_NULL"
    "rcache_inv ?E ((shm_pull w)\<lparr>ca_ngets := ca_ngets (shm_pull w) + 1,
      ca_lines := (ca_lines (shm_pull w))[i := \<lparr>rl_age = a, rl_pgnum = p, rl_refcount = 1, rl_page = d\<rparr>], ca_mem := v\<rparr>)"
    by (rule rcache_get_miss [OF U(4) no i pg'])
  define c where "c = (shm_pull w)\<lparr>ca_ngets := ca_ngets (shm_pull w) + 1,
      ca_lines := (ca_lines (shm_pull w))[i := \<lparr>rl_age = a, rl_pgnum = p, rl_refcount = 1, rl_page = d\<rparr>], ca_mem := v\<rparr>"
  note G = g(1,6) [folded c_def]
  have len: "i < length (ca_lines (hw_cache w))" using g(4) rcache_inv_length [OF U(4)] by simp
  then have l: "ca_lines c ! i = \<lparr>rl_age = a, rl_pgnum = p, rl_refcount = 1, rl_page = d\<rparr>" "i < length (ca_lines c)" by (simp_all add: c_def)
  have srv: "rs_server (ca_mem c) = rs_server (ca_mem (hw_cache w))" using rcache_get_servers [OF G(1)] by (simp add: shm_pull_def)
  have pgc: "page_abs (ca_mem c) = shm_pages w" using g(3) by (simp add: c_def shm_pull_pages)
  have put: "\<exists>c'. nanvix_rcache_put ?E (rcache_store c i d') p = Some (Inr 0, c') \<and>
      shm_client_up C R (shm_push c' w) \<and> shm_pages (shm_push c' w) = (shm_pages w)(p \<mapsto> (own, d'))" if d': "length d' = RMEM_BLOCK_SIZE" for d'
  proof -
    let ?c = "rcache_store c i d'"
    have k: "line_key (ca_lines ?c ! i) = Some p" "rl_refcount (ca_lines ?c ! i) = 1" "rl_page (ca_lines ?c ! i) = d'" "ca_mem ?c = ca_mem c"
      using l by (simp_all add: rcache_store_def line_key_def)
    have pk: "page_abs (ca_mem ?c) p = Some (own, d)" using pgc pg k(4) by simp
    obtain v' where v': "nanvix_rcache_put ?E ?c p = Some (Inr 0, ?c\<lparr>ca_lines := (ca_lines ?c)[i := (ca_lines ?c ! i)\<lparr>rl_refcount := 0\<rparr>], ca_mem := v'\<rparr>)"
      "page_abs v' = (page_abs (ca_mem ?c))(p \<mapsto> (own, rl_page (ca_lines ?c ! i)))"
      "rcache_inv ?E (?c\<lparr>ca_lines := (ca_lines ?c)[i := (ca_lines ?c ! i)\<lparr>rl_refcount := 0\<rparr>], ca_mem := v'\<rparr>)"
      by (rule rcache_put_last [OF rcache_store_inv [OF G(2) g(4) d'] g(4) k(1,2) pk])
    let ?c' = "?c\<lparr>ca_lines := (ca_lines ?c)[i := (ca_lines ?c ! i)\<lparr>rl_refcount := 0\<rparr>], ca_mem := v'\<rparr>"
    have "rs_server v' = rs_server (ca_mem c)" using rcache_put_servers [OF v'(1)] k(4) by simp
    then have "rs_server (ca_mem ?c') = rs_server (ca_mem (hw_cache w))" using srv by simp
    moreover have "page_abs (ca_mem ?c') = (shm_pages w)(p \<mapsto> (own, d'))" using v'(2) k(3,4) pgc by simp
    ultimately show ?thesis using shm_push_up [OF up v'(3) _ pg] v'(1) by auto
  qed
  have "rcache_store c i d = c" using l by (simp add: rcache_store_def list_update_same_conv)
  then show thesis using l d put by (intro that [OF G(1)]) auto
qed

definition page_patch :: "byte list \<Rightarrow> nat \<Rightarrow> byte list \<Rightarrow> byte list" where
  "page_patch d off b = take off d @ b @ drop (off + length b) d"

lemma shm_target_page:
  assumes "shm_target R w shmid = Inr p" "shm_pages w p = Some (own, d)" "shm_client_up C R w" "cache_room w" "off + n \<le> NANVIX_SHM_SIZE_MAX"
  shows shm_read_page: "\<exists>w'. do_nanvix_shm_read C R w shmid n off = Some (Inr (int n), take n (drop off d), w') \<and> shm_client_up C R w' \<and>
      shm_pages w' = shm_pages w \<and> hw_oregions w' = hw_oregions w \<and> regions (hw_shm w') = regions (hw_shm w)"
    and shm_write_page: "n \<le> length b \<Longrightarrow> \<exists>w'. do_nanvix_shm_write C R w shmid b n off = Some (Inr (int n), w') \<and> shm_client_up C R w' \<and>
      shm_pages w' = (shm_pages w)(p \<mapsto> (own, page_patch d off (take n b))) \<and> hw_oregions w' = hw_oregions w \<and> regions (hw_shm w') = regions (hw_shm w)"
proof -
  obtain i c where c: "nanvix_rcache_get (he_rmem C) (shm_pull w) p = Some (Some i, c)" "i < length (ca_lines c)" "rl_page (ca_lines c ! i) = d"
    "rcache_store c i d = c" "length d = RMEM_BLOCK_SIZE"
    "\<And>d'. length d' = RMEM_BLOCK_SIZE \<Longrightarrow> \<exists>c'. nanvix_rcache_put (he_rmem C) (rcache_store c i d') p = Some (Inr 0, c') \<and>
      shm_client_up C R (shm_push c' w) \<and> shm_pages (shm_push c' w) = (shm_pages w)(p \<mapsto> (own, d'))"
    by (rule shm_transfer [OF assms(3,4,2)]) (rule that; assumption)
  have len: "off + n \<le> length d" using assms(5) c(5) by (simp add: rmem_consts NANVIX_SHM_SIZE_MAX_def)
  show "\<exists>w'. do_nanvix_shm_read C R w shmid n off = Some (Inr (int n), take n (drop off d), w') \<and> shm_client_up C R w' \<and>
      shm_pages w' = shm_pages w \<and> hw_oregions w' = hw_oregions w \<and> regions (hw_shm w') = regions (hw_shm w)"
  proof -
    obtain c' where c': "nanvix_rcache_put (he_rmem C) c p = Some (Inr 0, c')" "shm_client_up C R (shm_push c' w)" "shm_pages (shm_push c' w) = (shm_pages w)(p \<mapsto> (own, d))"
      using c(6) [OF c(5)] c(4) by auto
    have "shm_pages (shm_push c' w) = shm_pages w" using c'(3) assms(2) by (simp add: fun_upd_idem)
    with c' c(1-3) assms(1) len show ?thesis by (auto simp: do_nanvix_shm_read_def)
  qed
  assume n: "n \<le> length b"
  let ?d = "page_patch d off (take n b)"
  have d: "length ?d = RMEM_BLOCK_SIZE" and e: "take off d @ take n b @ drop (off + n) d = ?d" using len n c(5) by (simp_all add: page_patch_def)
  obtain c' where c': "nanvix_rcache_put (he_rmem C) (rcache_store c i ?d) p = Some (Inr 0, c')" "shm_client_up C R (shm_push c' w)"
    "shm_pages (shm_push c' w) = (shm_pages w)(p \<mapsto> (own, ?d))" using c(6) [OF d] by auto
  show "\<exists>w'. do_nanvix_shm_write C R w shmid b n off = Some (Inr (int n), w') \<and> shm_client_up C R w' \<and>
      shm_pages w' = (shm_pages w)(p \<mapsto> (own, ?d)) \<and> hw_oregions w' = hw_oregions w \<and> regions (hw_shm w') = regions (hw_shm w)"
    by (rule exI [of _ "shm_push c' w"]) (use c' c(1-3) assms(1) len n in \<open>simp add: do_nanvix_shm_write_def e\<close>)
qed

section \<open>The server's part\<close>

text \<open>The requests of this client are answered, and carry no data.\<close>

definition shm_answers :: "'p sysv_op \<Rightarrow> int result \<Rightarrow> bool" where
  "shm_answers op r \<longleftrightarrow> sysv_replies op r \<and> (\<forall>i n f. op \<noteq> SYSV_MSG_SEND i n f)"

lemma shm_call_handle:
  assumes "resource_laws R" "shm_client_up C R w" "shm_answers op r"
    and "sysv_handle (se_mailbox (he_sysv C)) (se_portal (he_sysv C) []) (se_rmem (he_sysv C)) R (se_priv (he_sysv C)) (se_nproc (he_sysv C))
      (sw_server (hw_sysv w)) (sysv_std (he_sysv C) op) = Some (r, out, srv)"
  shows "shm_call C R w op = Some (shm_response C r out, w\<lparr>hw_sysv := (hw_sysv w)\<lparr>sw_server := srv\<rparr>\<rparr>)"
  using sysv_call_handle [OF assms(1) shm_client_upD(1,2) [OF assms(2)] assms(4)] assms(3) by (simp add: shm_call_def shm_answers_def)

lemma shm_server_up:
  assumes up: "shm_client_up C R w" and inv: "sysv_inv (se_rmem (he_sysv C)) R srv"
    and len: "length (rs_servers (shm_mem (sv_shm srv))) = length (rs_servers (shm_mem (hw_shm w)))"
  shows "shm_client_up C R (w\<lparr>hw_sysv := (hw_sysv w)\<lparr>sw_server := srv\<rparr>\<rparr>)"
proof -
  note U = shm_client_upD [OF up]
  let ?m = "ca_mem (shm_pull w)" and ?v = "shm_mem (sv_shm srv)"
  have "stub_inv (se_rmem (he_sysv C)) ?v" using inv by (simp add: sysv_inv_def shm_inv_def)
  then have "stub_inv (he_rmem C) (?m\<lparr>rs_servers := rs_servers ?v\<rparr>)"
    by (rule stub_inv_servers [OF rcache_inv_mem [OF U(4)]]) (simp add: len shm_pull_def)
  then have "rcache_inv (he_rmem C) ((shm_pull w)\<lparr>ca_mem := ?m\<lparr>rs_servers := rs_servers ?v\<rparr>\<rparr>)" by (rule rcache_inv_mem_update [OF U(4)])
  then have "rcache_inv (he_rmem C) (shm_pull (w\<lparr>hw_sysv := (hw_sysv w)\<lparr>sw_server := srv\<rparr>\<rparr>))" by (simp add: shm_pull_def)
  then show ?thesis using U(1-3) inv sysv_world_server [OF U(2) inv] by (simp add: shm_client_up_def)
qed

lemma oregion_sel [simp]:
  "hw_sysv (oregion_update i f w) = hw_sysv w" "hw_cache (oregion_update i f w) = hw_cache w"
  "hw_oregions (oregion_update i f w) = (hw_oregions w)[i := f (hw_oregions w ! i)]"
  by (simp_all add: oregion_update_def)

lemma oregion_up: "shm_client_up C R w \<Longrightarrow> shm_client_up C R (oregion_update i f w)"
  by (simp add: shm_client_up_def shm_pull_def)

text \<open>Every entry in use names a region of the server.\<close>

definition oregions_ok :: "'r resource_ops \<Rightarrow> ('r, 'p) shm_world \<Rightarrow> bool" where
  "oregions_ok R w \<longleftrightarrow> list_all (\<lambda>g. resource_is_used R (or_resource g) \<longrightarrow> nanvix_shm_is_valid (or_shmid g) \<and>
     shm_slot R (regions (hw_shm w) ! nat (or_shmid g)) = Some (or_name g)) (hw_oregions w)"

definition oregion_room :: "'r resource_ops \<Rightarrow> ('r, 'p) shm_world \<Rightarrow> bool" where
  "oregion_room R w \<longleftrightarrow> list_ex (\<lambda>g. \<not> resource_is_used R (or_resource g)) (hw_oregions w)"

lemma oregion_allocE:
  assumes "resource_laws R" "oregion_room R w"
  obtains j r where "oregion_alloc R w = Some (j, oregion_update j (\<lambda>g. g\<lparr>or_resource := r\<rparr>) w)" "j < length (hw_oregions w)"
    "\<not> resource_is_used R (or_resource (hw_oregions w ! j))" "resource_is_used R r"
proof -
  obtain j r where a: "resource_alloc R (map or_resource (hw_oregions w)) = Some (j, r)"
    using resource_alloc_NoneD [OF assms(1), of "map or_resource (hw_oregions w)"] assms(2) by (auto simp: oregion_room_def list_ex_iff)
  with resource_allocD [OF assms(1) a] show thesis by (intro that [of j r]) (simp_all add: oregion_alloc_def)
qed

lemma shm_opened_entry:
  assumes "resource_laws R" "j < length (hw_oregions w)" "resource_is_used R r" "hr_opcode msg \<noteq> SYSV_SHM_FAIL"
  obtains e where "shm_opened R j name oflags mode msg ((oregion_update j (\<lambda>g. g\<lparr>or_resource := r\<rparr>) w)\<lparr>hw_sysv := x\<rparr>) =
      (Inr (hr_ipcid msg), w\<lparr>hw_sysv := x, hw_oregions := (hw_oregions w)[j := e]\<rparr>)"
    "resource_is_used R (or_resource e)" "or_name e = name" "or_shmid e = hr_ipcid msg" "or_refcount e = 1" "or_page e = hr_page msg"
proof -
  let ?e = "(hw_oregions w ! j)\<lparr>or_page := hr_page msg, or_shmid := hr_ipcid msg, or_oflags := oflags, or_mode := mode, or_refcount := 1, or_name := name,
    or_resource := (if O_RDWR oflags \<and> \<not> O_WRONLY oflags then resource_set_rdwr R r
      else if O_WRONLY oflags \<and> \<not> O_RDWR oflags then resource_set_wronly R r else resource_set_rdonly R r)\<rparr>"
  have "shm_opened R j name oflags mode msg ((oregion_update j (\<lambda>g. g\<lparr>or_resource := r\<rparr>) w)\<lparr>hw_sysv := x\<rparr>) =
      (Inr (hr_ipcid msg), w\<lparr>hw_sysv := x, hw_oregions := (hw_oregions w)[j := ?e]\<rparr>)"
    using assms(2,4) by (simp add: shm_opened_def nanvix_shm_initializer_def oregion_update_def)
  then show thesis by (rule that) (use assms(1,3) resource_modes [OF assms(1)] in simp_all)
qed

lemma shm_target_entry:
  assumes "j < length l" "resource_is_used R (or_resource e)" "or_refcount e = 1"
    and "\<forall>g\<in>set l. resource_is_used R (or_resource g) \<longrightarrow> or_shmid g \<noteq> or_shmid e"
  shows "shm_lookup_shmid R (w\<lparr>hw_oregions := l[j := e]\<rparr>) (or_shmid e) = Some j"
    "shm_target R (w\<lparr>hw_oregions := l[j := e]\<rparr>) (or_shmid e) = (if or_page e = RMEM_NULL then Inl ENOMEM else Inr (or_page e))"
proof -
  show "shm_lookup_shmid R (w\<lparr>hw_oregions := l[j := e]\<rparr>) (or_shmid e) = Some j"
    unfolding shm_lookup_shmid_def by (rule first_index_unique) (use assms nth_mem [of _ l] in \<open>auto simp: nth_list_update split: if_splits\<close>)
  then show "shm_target R (w\<lparr>hw_oregions := l[j := e]\<rparr>) (or_shmid e) = (if or_page e = RMEM_NULL then Inl ENOMEM else Inr (or_page e))"
    using assms(1,3) by (simp add: shm_target_def)
qed

text \<open>The key under which the server counts the connections of this process.\<close>

definition client_key :: "'p shm_env \<Rightarrow> int \<times> int" where
  "client_key C = (take_bit 16 (ne_node (pe_name (se_pm (he_sysv C)))), take_bit 8 (ne_inbox_port (pe_name (se_pm (he_sysv C)))))"

lemma shm_connect_granted:
  assumes "sysv_inv E R (st\<lparr>sv_shm := shm\<rparr>)" "conn_room (sv_conns st) (client_key C)"
  obtains ct where "shm_connect (st\<lparr>sv_shm := shm\<rparr>) (sysv_std (he_sysv C) op) (Inr i) page =
      Some (Inr 0, no_out\<lparr>so_ipcid := Some i, so_page := page\<rparr>, st\<lparr>sv_shm := shm, sv_conns := ct\<rparr>)"
    "sysv_inv E R (st\<lparr>sv_shm := shm, sv_conns := ct\<rparr>)"
proof -
  let ?c = "connect (sv_conns st) (fst (client_key C)) (snd (client_key C))"
  have wf: "conn_wf (sv_conns st)" using assms(1) by (simp add: sysv_inv_def)
  have "fst ?c = Inr 0" using connect_refs(1) [OF wf, of "fst (client_key C)" "snd (client_key C)"] assms(2) by simp
  moreover have "conn_wf (snd ?c)" by (rule connect_wf [OF wf])
  ultimately show thesis using assms(1)
    by (intro that [of "snd ?c"]) (simp_all add: shm_connect_def Let_def case_prod_unfold client_key_def sysv_inv_def)
qed

lemma oregions_other:
  assumes "oregions_ok R w" "shm_lookup_name R w name = None" "shm_slot R (regions (hw_shm w) ! i) = Some name \<or> shm_slot R (regions (hw_shm w) ! i) = None"
  shows "\<forall>g\<in>set (hw_oregions w). resource_is_used R (or_resource g) \<longrightarrow> or_shmid g \<noteq> int i"
proof (intro ballI impI notI)
  fix g assume g: "g \<in> set (hw_oregions w)" "resource_is_used R (or_resource g)" "or_shmid g = int i"
  then have "or_name g \<noteq> name" using assms(2) by (auto simp: shm_lookup_name_def first_index_None_iff in_set_conv_nth)
  with g assms(1,3) show False by (auto simp: oregions_ok_def list_all_iff)
qed

text \<open>What a process sees of a region that it has just opened.\<close>

definition region_opened :: "'r resource_ops \<Rightarrow> ('r, 'w :: len word) shm_world \<Rightarrow> nat \<Rightarrow> 'w word \<Rightarrow> ('r, 'w word) shm_world \<Rightarrow> bool" where
  "region_opened R w i p w' \<longleftrightarrow> hw_cache w' = hw_cache w \<and>
     (\<exists>j<length (hw_oregions w'). shm_lookup_shmid R w' (int i) = Some j \<and> or_refcount (hw_oregions w' ! j) = 1 \<and> or_page (hw_oregions w' ! j) = p)"

lemma region_opened_target:
  "region_opened R w i p w' \<Longrightarrow> shm_target R w' (int i) = (if p = RMEM_NULL then Inl ENOMEM else Inr p)"
  by (auto simp: region_opened_def shm_target_def)

lemma shm_open_granted:
  assumes R: "resource_laws R" and up: "shm_client_up C R w" and ok: "oregions_ok R w" "shm_lookup_name R w name = None" "oregion_room R w"
    and slot: "shm_slot R (regions (hw_shm w) ! i) = Some name \<or> shm_slot R (regions (hw_shm w) ! i) = None"
    and inv: "sysv_inv (se_rmem (he_sysv C)) R srv" "shm_mem (sv_shm srv) = shm_mem (hw_shm w)"
    and op: "\<forall>w0. hw_sysv w0 = hw_sysv w \<and> hw_cache w0 = hw_cache w \<and> length (hw_oregions w0) = length (hw_oregions w) \<longrightarrow>
      shm_call C R w0 op = Some (msg, w0\<lparr>hw_sysv := (hw_sysv w)\<lparr>sw_server := srv\<rparr>\<rparr>)"
    and msg: "hr_opcode msg \<noteq> SYSV_SHM_FAIL" "hr_ipcid msg = int i" "hr_page msg = p"
  obtains w' j w0 where "oregion_alloc R w = Some (j, w0)"
    "do { (msg, w1) \<leftarrow> shm_call C R w0 op; Some (shm_opened R j name oflags mode msg w1) } = Some (Inr (int i), w')"
    "shm_client_up C R w'" "region_opened R w i p w'" "sw_server (hw_sysv w') = srv"
proof -
  let ?x = "(hw_sysv w)\<lparr>sw_server := srv\<rparr>"
  obtain j r where a: "oregion_alloc R w = Some (j, oregion_update j (\<lambda>g. g\<lparr>or_resource := r\<rparr>) w)" "j < length (hw_oregions w)"
    "\<not> resource_is_used R (or_resource (hw_oregions w ! j))" "resource_is_used R r"
    by (rule oregion_allocE [OF R ok(3)])
  obtain e where e: "shm_opened R j name oflags mode msg ((oregion_update j (\<lambda>g. g\<lparr>or_resource := r\<rparr>) w)\<lparr>hw_sysv := ?x\<rparr>) =
      (Inr (hr_ipcid msg), w\<lparr>hw_sysv := ?x, hw_oregions := (hw_oregions w)[j := e]\<rparr>)"
    "resource_is_used R (or_resource e)" "or_name e = name" "or_shmid e = hr_ipcid msg" "or_refcount e = 1" "or_page e = hr_page msg"
    by (rule shm_opened_entry [OF R a(2,4) msg(1)])
  let ?w = "w\<lparr>hw_sysv := ?x, hw_oregions := (hw_oregions w)[j := e]\<rparr>"
  have "shm_client_up C R (w\<lparr>hw_sysv := ?x\<rparr>)" by (rule shm_server_up [OF up inv(1)]) (simp add: inv(2))
  then have "shm_client_up C R ?w" by (simp add: shm_client_up_def shm_pull_def)
  moreover have "region_opened R w i p ?w"
  proof -
    have "\<forall>g\<in>set (hw_oregions w). resource_is_used R (or_resource g) \<longrightarrow> or_shmid g \<noteq> or_shmid e"
      using oregions_other [OF ok(1,2) slot] e(4) msg(2) by simp
    from shm_target_entry(1) [OF a(2) e(2,5) this, of "w\<lparr>hw_sysv := ?x\<rparr>"] show ?thesis using a(2) e msg by (auto simp: region_opened_def)
  qed
  ultimately show thesis using op [rule_format, of "oregion_update j (\<lambda>g. g\<lparr>or_resource := r\<rparr>) w"] e(1) msg(2) by (intro that [OF a(1), of ?w]) simp_all
qed

lemma shm_replies: "shm_answers (SYSV_SHM_CREATE name oflags mode) r" "shm_answers (SYSV_SHM_OPEN name oflags) r" "shm_answers (SYSV_SHM_UNLINK name) r"
  "shm_answers (SYSV_SHM_CLOSE shmid) r" "shm_answers (SYSV_SHM_FTRUNCATE shmid sz) r" "shm_answers (SYSV_SHM_INVAL shmid page) r"
  by (simp_all add: shm_answers_def sysv_replies_def)

lemma shm_response_granted [simp]:
  "hr_opcode (shm_response C (Inr v) out) = SYSV_SUCCESS" "SYSV_SUCCESS \<noteq> SYSV_SHM_FAIL" "SYSV_FAIL \<noteq> SYSV_SHM_FAIL"
  "hr_ipcid (shm_response C r (no_out\<lparr>so_ipcid := Some i, so_page := Some p\<rparr>)) = i" "hr_page (shm_response C r (no_out\<lparr>so_ipcid := Some i, so_page := Some p\<rparr>)) = p"
  by (simp_all add: shm_response_def SYSV_SUCCESS_def SYSV_SHM_FAIL_def SYSV_FAIL_def)

lemma shm_call_any:
  assumes "resource_laws R" "shm_client_up C R w" "shm_answers op r"
    and "sysv_handle (se_mailbox (he_sysv C)) (se_portal (he_sysv C) []) (se_rmem (he_sysv C)) R (se_priv (he_sysv C)) (se_nproc (he_sysv C))
      (sw_server (hw_sysv w)) (sysv_std (he_sysv C) op) = Some (r, out, srv)"
  shows "\<forall>w0. hw_sysv w0 = hw_sysv w \<and> hw_cache w0 = hw_cache w \<and> length (hw_oregions w0) = length (hw_oregions w) \<longrightarrow>
    shm_call C R w0 op = Some (shm_response C r out, w0\<lparr>hw_sysv := (hw_sysv w)\<lparr>sw_server := srv\<rparr>\<rparr>)"
proof (intro allI impI)
  fix w0 :: "('a, 'b word) shm_world"
  assume w0: "hw_sysv w0 = hw_sysv w \<and> hw_cache w0 = hw_cache w \<and> length (hw_oregions w0) = length (hw_oregions w)"
  then have "shm_client_up C R w0" using assms(2) by (simp add: shm_client_up_def shm_pull_def)
  from shm_call_handle [OF assms(1) this assms(3)] assms(4) w0 show "shm_call C R w0 op = Some (shm_response C r out, w0\<lparr>hw_sysv := (hw_sysv w)\<lparr>sw_server := srv\<rparr>\<rparr>)" by simp
qed

text \<open>The name of a region that is created is new to the server and to this process.\<close>

lemma client_create:
  fixes C :: "'w :: len word shm_env"
  assumes R: "resource_laws R" and up: "shm_client_up C R w" and ok: "oregions_ok R w" "shm_lookup_name R w name = None" "oregion_room R w"
    and n: "nanvix_shm_name_is_invalid (Some name) = Inr 0" "shm_get R (hw_shm w) name = None"
    and a: "resource_alloc R (map rg_resource (regions (hw_shm w))) = Some (i, r)"
    and room: "conn_room (sv_conns (sw_server (hw_sysv w))) (client_key C)"
    and fl: "O_CREAT oflags" "O_RDWR oflags \<or> O_WRONLY oflags" "\<not> O_OTHERS oflags" "\<not> S_OTHERS mode"
  obtains w' e where "nanvix_shm_open C R w (Some name) oflags mode = Some (Inr (int i), w')" "shm_client_up C R w'" "region_opened R w i RMEM_NULL w'"
    "regions (hw_shm w') = (regions (hw_shm w))[i := e]" "i < length (regions (hw_shm w))" "shm_mem (hw_shm w') = shm_mem (hw_shm w)"
    "shm_slot R e = Some name" "rg_page e = RMEM_NULL" "resource_is_busy R (rg_resource e)" "resource_is_writable R (rg_resource e) \<longleftrightarrow> S_IWUSR mode"
    "resource_is_mapped R (rg_resource e) = resource_is_mapped R r"
proof -
  let ?E = "se_rmem (he_sysv C)" and ?srv = "sw_server (hw_sysv w)" and ?op = "SYSV_SHM_CREATE name oflags mode"
  note U = shm_client_upD [OF up]
  let ?rq = "sysv_std (he_sysv C) ?op"
  obtain e where e: "do_shm_create ?E R (hw_shm w) (sq_source ?rq) (Some name) oflags mode = Some (Inr (int i), Some RMEM_NULL, (hw_shm w)\<lparr>regions := (regions (hw_shm w))[i := e]\<rparr>)"
    "shm_inv ?E R ((hw_shm w)\<lparr>regions := (regions (hw_shm w))[i := e]\<rparr>)" "i < length (regions (hw_shm w))" "shm_slot R e = Some name"
    "rg_page e = RMEM_NULL" "resource_is_busy R (rg_resource e)" "resource_is_writable R (rg_resource e) \<longleftrightarrow> S_IWUSR mode"
    "resource_is_mapped R (rg_resource e) = resource_is_mapped R r"
    using shm_create_fresh [OF R U(6) n(2,1) fl(3,4,1), of "sq_source ?rq"] a by (auto simp: Let_def)
  let ?shm = "(hw_shm w)\<lparr>regions := (regions (hw_shm w))[i := e]\<rparr>"
  have inv: "sysv_inv ?E R (?srv\<lparr>sv_shm := ?shm\<rparr>)" using U(5) e(2) by (simp add: sysv_inv_def)
  obtain ct where ct: "shm_connect (?srv\<lparr>sv_shm := ?shm\<rparr>) ?rq (Inr (int i)) (Some RMEM_NULL) =
      Some (Inr 0, no_out\<lparr>so_ipcid := Some (int i), so_page := Some RMEM_NULL\<rparr>, ?srv\<lparr>sv_shm := ?shm, sv_conns := ct\<rparr>)"
    "sysv_inv ?E R (?srv\<lparr>sv_shm := ?shm, sv_conns := ct\<rparr>)"
    by (rule shm_connect_granted [OF inv room])
  let ?s = "?srv\<lparr>sv_shm := ?shm, sv_conns := ct\<rparr>" and ?m = "shm_response C (Inr 0) (no_out\<lparr>so_ipcid := Some (int i), so_page := Some RMEM_NULL\<rparr>)"
  have h: "sysv_handle (se_mailbox (he_sysv C)) (se_portal (he_sysv C) []) ?E R (se_priv (he_sysv C)) (se_nproc (he_sysv C)) ?srv ?rq =
      Some (Inr 0, no_out\<lparr>so_ipcid := Some (int i), so_page := Some RMEM_NULL\<rparr>, ?s)"
    using e(1) ct(1) by (simp add: sysv_handle_def sysv_shm_create_def)
  note call = shm_call_any [OF R up shm_replies(1) h]
  have m: "hr_opcode ?m \<noteq> SYSV_SHM_FAIL" "hr_ipcid ?m = int i" "hr_page ?m = RMEM_NULL" and mem: "shm_mem (sv_shm ?s) = shm_mem (hw_shm w)" by simp_all
  have slot: "shm_slot R (regions (hw_shm w) ! i) = Some name \<or> shm_slot R (regions (hw_shm w) ! i) = None"
    using resource_allocD(2) [OF R a] e(3) by (simp add: shm_slot_def)
  obtain w' j w0 where w': "oregion_alloc R w = Some (j, w0)"
    "do { (msg, w1) \<leftarrow> shm_call C R w0 ?op; Some (shm_opened R j name oflags mode msg w1) } = Some (Inr (int i), w')"
    "shm_client_up C R w'" "region_opened R w i RMEM_NULL w'" "sw_server (hw_sysv w') = ?s"
    by (rule shm_open_granted [OF R up ok slot ct(2) mem call m, of oflags mode]) (rule that; assumption)
  have "nanvix_shm_open C R w (Some name) oflags mode = Some (Inr (int i), w')"
    using w'(1,2) U(8) n(1) ok(2) fl by (simp add: nanvix_shm_open_def do_nanvix_shm_open_def do_nanvix_shm_create_def)
  then show thesis by (rule that) (use w'(3-5) e in simp_all)
qed

text \<open>Giving a region its page.\<close>

lemma client_ftruncate:
  fixes C :: "'w :: len word shm_env"
  assumes R: "resource_laws R" and up: "shm_client_up C R w" and i: "region_opened R v i p0 w" "i < NANVIX_SHM_MAX"
    and e: "shm_slot R (regions (hw_shm w) ! i) = Some name" "rg_page (regions (hw_shm w) ! i) = RMEM_NULL"
      "resource_is_writable R (rg_resource (regions (hw_shm w) ! i))" "\<not> resource_is_mapped R (rg_resource (regions (hw_shm w) ! i))"
    and p: "nanvix_rmem_alloc (se_rmem (he_sysv C)) (shm_mem (hw_shm w)) = Some (p, m)" "p \<noteq> RMEM_NULL"
    and sz: "0 < sz" "sz \<le> NANVIX_SHM_SIZE_MAX"
  obtains w' where "nanvix_shm_ftruncate C R w (int i) (int sz) = Some (Inr 0, w')" "shm_client_up C R w'" "region_opened R v i p w'"
    "regions (hw_shm w') = (regions (hw_shm w))[i := (regions (hw_shm w) ! i)\<lparr>rg_page := p, rg_size := sz\<rparr>]"
    "shm_pages w' = (shm_pages w)(p \<mapsto> (env_me (se_rmem (he_sysv C)), replicate RMEM_BLOCK_SIZE 0))"
proof -
  let ?E = "se_rmem (he_sysv C)" and ?srv = "sw_server (hw_sysv w)" and ?rq = "sysv_std (he_sysv C) (SYSV_SHM_FTRUNCATE (int i) (int sz))"
  let ?shm = "(hw_shm w)\<lparr>regions := (regions (hw_shm w))[i := (regions (hw_shm w) ! i)\<lparr>rg_page := p, rg_size := sz\<rparr>], shm_mem := m\<rparr>"
  note U = shm_client_upD [OF up]
  obtain j where j: "j < length (hw_oregions w)" "shm_lookup_shmid R w (int i) = Some j" "or_refcount (hw_oregions w ! j) = 1" and c: "hw_cache w = hw_cache v"
    using i(1) by (auto simp: region_opened_def)
  have len: "i < length (regions (hw_shm w))" using i(2) shm_inv_length [OF U(6)] by simp
  have valid: "nanvix_shm_is_valid (int i)" using i(2) by (simp add: nanvix_shm_is_valid_def)
  have used: "resource_is_used R (rg_resource (regions (hw_shm w) ! i))" using e(1) by (auto simp: shm_slot_def split: if_splits)
  have size: "shm_set_size ?E (hw_shm w) i sz = Some ?shm" using sz(1) e(2) p len by (simp add: shm_set_size_def Let_def region_update_def)
  have t: "do_shm_ftruncate ?E R (hw_shm w) (sq_source ?rq) (int i) (int sz) = Some (Inr 0, Some p, ?shm)"
    using valid used sz e len size by (simp add: do_shm_ftruncate_def shm_is_writable_def shm_is_mapped_def)
  have inv: "shm_inv ?E R ?shm" using shm_set_size_spec [OF U(6) len _ sz(2)] e(1) size by simp
  have pages: "page_abs m = (shm_pages w)(p \<mapsto> (env_me ?E, replicate RMEM_BLOCK_SIZE 0))"
    using stub.alloc_law [OF shm_inv_mem [OF U(6)]] p by (auto simp: env_me_def)
  have "rs_server m = rs_server (shm_mem (hw_shm w))" using nanvix_rmem_alloc_cases [OF shm_inv_mem [OF U(6)]] p(1) by auto
  then have ls: "length (rs_servers m) = length (rs_servers (shm_mem (hw_shm w)))"
    using shm_inv_mem [OF U(6)] shm_inv_mem [OF inv] by (simp add: stub_inv_def sys_inv_def)
  let ?s = "?srv\<lparr>sv_shm := ?shm\<rparr>" and ?out = "no_out\<lparr>so_page := Some p\<rparr>"
  have sinv: "sysv_inv ?E R ?s" using U(5) inv by (simp add: sysv_inv_def)
  have "sysv_handle (se_mailbox (he_sysv C)) (se_portal (he_sysv C) []) ?E R (se_priv (he_sysv C)) (se_nproc (he_sysv C)) ?srv ?rq = Some (Inr 0, ?out, ?s)"
    using t by (simp add: sysv_handle_def sysv_shm_ftruncate_def)
  from shm_call_handle [OF R up shm_replies(5) this]
  have call: "shm_call C R w (SYSV_SHM_FTRUNCATE (int i) (int sz)) = Some (shm_response C (Inr 0) ?out, w\<lparr>hw_sysv := (hw_sysv w)\<lparr>sw_server := ?s\<rparr>\<rparr>)" .
  let ?w = "oregion_update j (\<lambda>g. g\<lparr>or_page := p\<rparr>) (w\<lparr>hw_sysv := (hw_sysv w)\<lparr>sw_server := ?s\<rparr>\<rparr>)"
  have "nanvix_shm_ftruncate C R w (int i) (int sz) = Some (Inr 0, ?w)"
    using U(8) valid sz j call by (simp add: nanvix_shm_ftruncate_def do_nanvix_shm_ftruncate_def shm_response_def SYSV_SUCCESS_def SYSV_SHM_FAIL_def)
  moreover have "shm_client_up C R ?w" by (intro oregion_up shm_server_up [OF up sinv]) (simp add: ls)
  moreover have "shm_lookup_shmid R ?w (int i) = Some j"
  proof -
    have "(\<lambda>g. resource_is_used R (or_resource g) \<and> or_shmid g = int i) ((hw_oregions w)[j := (hw_oregions w ! j)\<lparr>or_page := p\<rparr>] ! k) \<longleftrightarrow>
        (\<lambda>g. resource_is_used R (or_resource g) \<and> or_shmid g = int i) (hw_oregions w ! k)" for k using j(1) by (simp add: nth_list_update)
    then show ?thesis using j(2) by (simp add: shm_lookup_shmid_def first_index_Some_iff)
  qed
  then have "region_opened R v i p ?w" using j c by (auto simp: region_opened_def)
  ultimately show thesis using pages len by (intro that [of ?w]) simp_all
qed

text \<open>Opening a region that exists.\<close>

lemma client_open:
  fixes C :: "'w :: len word shm_env"
  assumes R: "resource_laws R" and up: "shm_client_up C R w" and ok: "oregions_ok R w" "shm_lookup_name R w name = None" "oregion_room R w"
    and n: "nanvix_shm_name_is_invalid (Some name) = Inr 0" and m: "\<not> S_OTHERS mode" and room: "conn_room (sv_conns (sw_server (hw_sysv w))) (client_key C)"
    and e: "i < length (regions (hw_shm w))" "shm_slot R (regions (hw_shm w) ! i) = Some name" "resource_is_busy R (rg_resource (regions (hw_shm w) ! i))"
  obtains w' where "nanvix_shm_open C R w (Some name) o_rdwr mode = Some (Inr (int i), w')" "shm_client_up C R w'"
    "region_opened R w i (rg_page (regions (hw_shm w) ! i)) w'" "shm_pages w' = shm_pages w"
proof -
  let ?E = "se_rmem (he_sysv C)" and ?srv = "sw_server (hw_sysv w)" and ?op = "SYSV_SHM_OPEN name o_rdwr" and ?p = "rg_page (regions (hw_shm w) ! i)"
  note U = shm_client_upD [OF up]
  let ?rq = "sysv_std (he_sysv C) ?op" and ?shm = "region_update (hw_shm w) i (\<lambda>g. g\<lparr>rg_refcount := rg_refcount g + 1\<rparr>)"
  have o: "do_shm_open ?E R (hw_shm w) (sq_source ?rq) (Some name) o_rdwr = Some (Inr (int i), Some ?p, ?shm)"
    using shm_open_plain(1) [OF U(6) e(1,2) n] e(3) by simp
  then have "shm_inv ?E R ?shm" using shm_open_spec [OF U(6), of "sq_source ?rq" "Some name" o_rdwr] by auto
  then have inv: "sysv_inv ?E R (?srv\<lparr>sv_shm := ?shm\<rparr>)" using U(5) by (simp add: sysv_inv_def)
  obtain ct where ct: "shm_connect (?srv\<lparr>sv_shm := ?shm\<rparr>) ?rq (Inr (int i)) (Some ?p) =
      Some (Inr 0, no_out\<lparr>so_ipcid := Some (int i), so_page := Some ?p\<rparr>, ?srv\<lparr>sv_shm := ?shm, sv_conns := ct\<rparr>)"
    "sysv_inv ?E R (?srv\<lparr>sv_shm := ?shm, sv_conns := ct\<rparr>)"
    by (rule shm_connect_granted [OF inv room])
  let ?s = "?srv\<lparr>sv_shm := ?shm, sv_conns := ct\<rparr>" and ?m = "shm_response C (Inr 0) (no_out\<lparr>so_ipcid := Some (int i), so_page := Some ?p\<rparr>)"
  have h: "sysv_handle (se_mailbox (he_sysv C)) (se_portal (he_sysv C) []) ?E R (se_priv (he_sysv C)) (se_nproc (he_sysv C)) ?srv ?rq =
      Some (Inr 0, no_out\<lparr>so_ipcid := Some (int i), so_page := Some ?p\<rparr>, ?s)"
    using o ct(1) by (simp add: sysv_handle_def sysv_shm_open_def)
  note call = shm_call_any [OF R up shm_replies(2) h]
  have m': "hr_opcode ?m \<noteq> SYSV_SHM_FAIL" "hr_ipcid ?m = int i" "hr_page ?m = ?p" and mem: "shm_mem (sv_shm ?s) = shm_mem (hw_shm w)" by simp_all
  obtain w' j w0 where w': "oregion_alloc R w = Some (j, w0)"
    "do { (msg, w1) \<leftarrow> shm_call C R w0 ?op; Some (shm_opened R j name o_rdwr mode msg w1) } = Some (Inr (int i), w')"
    "shm_client_up C R w'" "region_opened R w i ?p w'" "sw_server (hw_sysv w') = ?s"
    by (rule shm_open_granted [OF R up ok disjI1 [OF e(2)] ct(2) mem call m', of o_rdwr mode]) (rule that; assumption)
  have "nanvix_shm_open C R w (Some name) o_rdwr mode = Some (Inr (int i), w')"
    using w'(1,2) U(8) n ok(2) m by (simp add: nanvix_shm_open_def do_nanvix_shm_open_def o_rdwr_def)
  then show thesis by (rule that) (use w'(3-5) in simp_all)
qed

section \<open>Requests that are refused\<close>

definition shm_refused :: "'w :: len word shm_env \<Rightarrow> 'r resource_ops \<Rightarrow> ('r, 'w word) shm_world \<Rightarrow> 'w word sysv_op \<Rightarrow> bool" where
  "shm_refused C R w op \<longleftrightarrow>
     (case sysv_handle (se_mailbox (he_sysv C)) (se_portal (he_sysv C) []) (se_rmem (he_sysv C)) R (se_priv (he_sysv C)) (se_nproc (he_sysv C))
        (sw_server (hw_sysv w)) (sysv_std (he_sysv C) op) of Some (r, _, _) \<Rightarrow> isl r | None \<Rightarrow> False)"

lemma shm_call_refused:
  assumes "resource_laws R" "shm_client_up C R w" "shm_refused C R w op" "\<forall>r. shm_answers op r"
  obtains e out srv where "sysv_handle (se_mailbox (he_sysv C)) (se_portal (he_sysv C) []) (se_rmem (he_sysv C)) R (se_priv (he_sysv C)) (se_nproc (he_sysv C))
      (sw_server (hw_sysv w)) (sysv_std (he_sysv C) op) = Some (Inl e, out, srv)"
    "\<forall>w0. hw_sysv w0 = hw_sysv w \<and> hw_cache w0 = hw_cache w \<and> length (hw_oregions w0) = length (hw_oregions w) \<longrightarrow>
      shm_call C R w0 op = Some (shm_response C (Inl e) out, w0\<lparr>hw_sysv := (hw_sysv w)\<lparr>sw_server := srv\<rparr>\<rparr>)"
    "hr_opcode (shm_response C (Inl e) out) \<noteq> SYSV_SHM_FAIL"
proof -
  obtain e out srv where h: "sysv_handle (se_mailbox (he_sysv C)) (se_portal (he_sysv C) []) (se_rmem (he_sysv C)) R (se_priv (he_sysv C)) (se_nproc (he_sysv C))
      (sw_server (hw_sysv w)) (sysv_std (he_sysv C) op) = Some (Inl e, out, srv)"
    using assms(3) by (auto simp: shm_refused_def isl_def split: option.splits prod.splits)
  have "hr_opcode (shm_response C (Inl e) out) \<noteq> SYSV_SHM_FAIL" by (simp add: shm_response_def SYSV_FAIL_def SYSV_SHM_FAIL_def)
  then show thesis by (rule that [OF h shm_call_any [OF assms(1,2) assms(4) [rule_format] h]])
qed

lemma shm_open_no_ipcid:
  assumes "sysv_handle K P E R priv nproc st (sysv_std C (SYSV_SHM_OPEN name oflags)) = Some (Inl e, out, srv)"
  shows "so_ipcid out = None"
proof -
  obtain r pg shm where "shm_connect (st\<lparr>sv_shm := shm\<rparr>) (sysv_std C (SYSV_SHM_OPEN name oflags)) r pg = Some (Inl e, out, srv)"
    using assms by (auto simp: sysv_handle_def sysv_shm_open_def bind_eq_Some_conv)
  then show ?thesis by (cases r) (auto simp: shm_connect_def no_out_def Let_def bind_eq_Some_conv split: prod.splits)
qed

section \<open>Concrete worlds\<close>

definition shm_env_ideal :: "64 word shm_env" where
  "shm_env_ideal = \<lparr>he_sysv = sysv_env_ideal, he_rmem = rmem_env_ideal, he_junk_ipcid = 77, he_junk_page = 0, he_junk_shmid = 0\<rparr>"

definition shm_world_ready :: "(flags, 64 word) shm_world" where
  "shm_world_ready = \<lparr>hw_sysv = sysv_world_ready,
     hw_oregions = replicate NANVIX_SHM_OPEN_MAX \<lparr>or_resource = plain_clear, or_shmid = 0, or_oflags = o_rdwr, or_mode = s_rw, or_refcount = 0, or_name = [], or_page = 0\<rparr>,
     hw_cache = nanvix_rcache_setup (rcache_static rmem_two_up)\<rparr>"

lemma shm_world_ready_up:
  "shm_client_up shm_env_ideal plain_resource shm_world_ready" "hw_shm shm_world_ready = shm_init plain_resource shm_static" "cache_room shm_world_ready"
  "conn_room (sv_conns (sw_server (hw_sysv shm_world_ready))) (client_key shm_env_ideal)"
proof -
  let ?c = "nanvix_rcache_setup (rcache_static rmem_two_up)"
  note Q = queue_upD(1) [OF sysv_world_ready_up(1)]
  have srv: "sw_server sysv_world_ready = sysv_booted\<lparr>sv_msg := msg_one_queue\<rparr>" by (rule sysv_world_ready_up(3))
  show shm: "hw_shm shm_world_ready = shm_init plain_resource shm_static"
    by (simp add: shm_world_ready_def srv sysv_booted_def do_sysv_server_startup_def Let_def sysv_static_def)
  then have m: "shm_mem (hw_shm shm_world_ready) = rmem_two_up" by (simp add: shm_init_def shm_static_def)
  have f: "rcache_filled rmem_env_ideal 0 ?c" "ca_mem ?c = rmem_two_up"
    using rcache_setup_filled [of "rcache_static rmem_two_up" rmem_env_ideal] by (simp_all add: rcache_static_def)
  then have "shm_pull shm_world_ready = ?c" using m by (simp add: shm_pull_def shm_world_ready_def)
  then show "shm_client_up shm_env_ideal plain_resource shm_world_ready"
    using f(1) Q sysv_env_ideal_up by (simp add: shm_client_up_def shm_env_ideal_def shm_world_ready_def rcache_filled_def)
  show "cache_room shm_world_ready"
    using rcache_filled_empty [OF f(1)] f(1) by (simp add: cache_room_def shm_world_ready_def rcache_filled_def list_all_iff RCACHE_LENGTH_def)
  have "sv_conns (sw_server (hw_sysv shm_world_ready)) = connections_setup 4"
    by (simp add: shm_world_ready_def srv sysv_booted_def do_sysv_server_startup_def Let_def)
  moreover have "conn_room (connections_setup 4) (client_key shm_env_ideal)"
    by (auto simp: conn_room_def client_key_def connections_setup_def NANVIX_CONNECTIONS_MAX_def intro!: exI [of _ 0])
  ultimately show "conn_room (sv_conns (sw_server (hw_sysv shm_world_ready))) (client_key shm_env_ideal)" by simp
qed

lemma shm_world_ready_tables:
  "oregions_ok plain_resource shm_world_ready" "shm_lookup_name plain_resource shm_world_ready name = None" "oregion_room plain_resource shm_world_ready"
  "shm_get plain_resource (hw_shm shm_world_ready) name = None"
  by (simp_all add: oregions_ok_def shm_lookup_name_def oregion_room_def shm_world_ready_def plain_clear_def first_index_None_iff list_all_iff list_ex_iff NANVIX_SHM_OPEN_MAX_def)
    (simp add: shm_world_ready_up(2) [unfolded shm_world_ready_def, simplified] shm_get_None shm_slot_def shm_init_def shm_static_def plain_clear_def)

section \<open>Properties\<close>

text \<open>
  C20. Shared memory is shared. A process that creates a region under a new name, gives it a size and writes into it succeeds when the tables, the cache and the
  remote memory have room; and from then on any process that opens the name gets the same region and reads there what was written, and zeroes
  around it.
\<close>

theorem shm_shared_between_processes:
  fixes C :: "'w :: len word shm_env"
  assumes R: "resource_laws R" and up: "shm_client_up C R w" "cache_room w" and ok: "oregions_ok R w" "shm_lookup_name R w name = None" "oregion_room R w"
    and n: "nanvix_shm_name_is_invalid (Some name) = Inr 0" "shm_get R (hw_shm w) name = None"
    and a: "resource_alloc R (map rg_resource (regions (hw_shm w))) = Some (i, r)" "\<not> resource_is_mapped R r"
    and room: "conn_room (sv_conns (sw_server (hw_sysv w))) (client_key C)"
    and pg: "nanvix_rmem_alloc (se_rmem (he_sysv C)) (shm_mem (hw_shm w)) = Some (p, m)" "p \<noteq> RMEM_NULL"
    and fl: "O_CREAT oflags" "O_RDWR oflags \<or> O_WRONLY oflags" "\<not> O_OTHERS oflags" "S_IWUSR mode" "\<not> S_OTHERS mode"
    and sz: "0 < sz" "sz \<le> NANVIX_SHM_SIZE_MAX" "off + length b \<le> NANVIX_SHM_SIZE_MAX"
  shows "\<exists>w1 w2 w3. nanvix_shm_open C R w (Some name) oflags mode = Some (Inr (int i), w1) \<and> nanvix_shm_ftruncate C R w1 (int i) (int sz) = Some (Inr 0, w2) \<and>
    nanvix_shm_write C R w2 (int i) (Some b) (length b) (int off) = Some (Inr (int (length b)), w3) \<and> shm_client_up C R w3 \<and>
    (\<forall>D v k o2. shm_client_up D R v \<and> cache_room v \<and> oregions_ok R v \<and> shm_lookup_name R v name = None \<and> oregion_room R v \<and>
       sw_server (hw_sysv v) = sw_server (hw_sysv w3) \<and> conn_room (sv_conns (sw_server (hw_sysv v))) (client_key D) \<and> o2 + k \<le> NANVIX_SHM_SIZE_MAX \<longrightarrow>
       (\<exists>v1 v2. nanvix_shm_open D R v (Some name) o_rdwr mode = Some (Inr (int i), v1) \<and>
          nanvix_shm_read D R v1 (int i) False k (int o2) =
            Some (Inr (int k), take k (drop o2 (page_patch (replicate RMEM_BLOCK_SIZE 0) off b)), v2) \<and> shm_client_up D R v2))"
proof -
  obtain w1 e where w1: "nanvix_shm_open C R w (Some name) oflags mode = Some (Inr (int i), w1)" "shm_client_up C R w1" "region_opened R w i RMEM_NULL w1"
    "regions (hw_shm w1) = (regions (hw_shm w))[i := e]" "i < length (regions (hw_shm w))" "shm_mem (hw_shm w1) = shm_mem (hw_shm w)"
    "shm_slot R e = Some name" "rg_page e = RMEM_NULL" "resource_is_busy R (rg_resource e)" "resource_is_writable R (rg_resource e) \<longleftrightarrow> S_IWUSR mode"
    "resource_is_mapped R (rg_resource e) = resource_is_mapped R r"
    by (rule client_create [OF R up(1) ok n a(1) room fl(1-3,5)]) (rule that; assumption)
  have i: "i < NANVIX_SHM_MAX" using w1(5) shm_inv_length [OF shm_client_upD(6) [OF up(1)]] by simp
  have e: "regions (hw_shm w1) ! i = e" using w1(4,5) by simp
  obtain w2 where w2: "nanvix_shm_ftruncate C R w1 (int i) (int sz) = Some (Inr 0, w2)" "shm_client_up C R w2" "region_opened R w i p w2"
    "regions (hw_shm w2) = (regions (hw_shm w1))[i := (regions (hw_shm w1) ! i)\<lparr>rg_page := p, rg_size := sz\<rparr>]"
    "shm_pages w2 = (shm_pages w1)(p \<mapsto> (env_me (se_rmem (he_sysv C)), replicate RMEM_BLOCK_SIZE 0))"
    by (rule client_ftruncate [OF R w1(2,3) i, of name p m sz]) (use e w1 a(2) fl(4) pg sz in simp_all)
  have t2: "shm_target R w2 (int i) = Inr p" and c2: "cache_room w2"
    using region_opened_target [OF w2(3)] pg(2) w2(3) up(2) by (simp_all add: region_opened_def cache_room_def)
  have p2: "shm_pages w2 p = Some (env_me (se_rmem (he_sysv C)), replicate RMEM_BLOCK_SIZE 0)" using w2(5) by simp
  obtain w3 where w3: "do_nanvix_shm_write C R w2 (int i) b (length b) off = Some (Inr (int (length b)), w3)" "shm_client_up C R w3"
    "shm_pages w3 = (shm_pages w2)(p \<mapsto> (env_me (se_rmem (he_sysv C)), page_patch (replicate RMEM_BLOCK_SIZE 0) off b))" "regions (hw_shm w3) = regions (hw_shm w2)"
    using shm_write_page [OF t2 p2 w2(2) c2 sz(3), of b] by auto
  have valid: "nanvix_shm_is_valid (int i)" using i by (simp add: nanvix_shm_is_valid_def)
  have wr: "nanvix_shm_write C R w2 (int i) (Some b) (length b) (int off) = Some (Inr (int (length b)), w3)"
    using w3(1) valid sz(3) by (simp add: nanvix_shm_write_def)
  have g: "i < length (regions (hw_shm w3))" "shm_slot R (regions (hw_shm w3) ! i) = Some name" "resource_is_busy R (rg_resource (regions (hw_shm w3) ! i))"
    "rg_page (regions (hw_shm w3) ! i) = p" using w3(4) w2(4) w1 e by (simp_all add: shm_slot_def split: if_splits)
  have "\<exists>v1 v2. nanvix_shm_open D R v (Some name) o_rdwr mode = Some (Inr (int i), v1) \<and>
      nanvix_shm_read D R v1 (int i) False k (int o2) = Some (Inr (int k), take k (drop o2 (page_patch (replicate RMEM_BLOCK_SIZE 0) off b)), v2) \<and> shm_client_up D R v2"
    if v: "shm_client_up D R v" "cache_room v" "oregions_ok R v" "shm_lookup_name R v name = None" "oregion_room R v" "sw_server (hw_sysv v) = sw_server (hw_sysv w3)"
      "conn_room (sv_conns (sw_server (hw_sysv v))) (client_key D)" "o2 + k \<le> NANVIX_SHM_SIZE_MAX" for D :: "'w word shm_env" and v k o2
  proof -
    obtain v1 where v1: "nanvix_shm_open D R v (Some name) o_rdwr mode = Some (Inr (int i), v1)" "shm_client_up D R v1" "region_opened R v i p v1" "shm_pages v1 = shm_pages v"
      by (rule client_open [OF R v(1,3-5) n(1) fl(5) v(7), of i]) (use g v(6) that in simp_all)
    have t: "shm_target R v1 (int i) = Inr p" and c: "cache_room v1"
      using region_opened_target [OF v1(3)] pg(2) v1(3) v(2) by (simp_all add: region_opened_def cache_room_def)
    have pv: "shm_pages v1 p = Some (env_me (se_rmem (he_sysv C)), page_patch (replicate RMEM_BLOCK_SIZE 0) off b)" using v1(4) v(6) w3(3) by simp
    obtain v2 where "do_nanvix_shm_read D R v1 (int i) k o2 = Some (Inr (int k), take k (drop o2 (page_patch (replicate RMEM_BLOCK_SIZE 0) off b)), v2)" "shm_client_up D R v2"
      using shm_read_page [OF t pv v1(2) c v(8)] by blast
    with v1 valid v(8) shm_client_upD(8) [OF v1(2)] show ?thesis by (simp add: nanvix_shm_read_def)
  qed
  then show ?thesis using w1(1) w2(1) wr w3(2) by blast
qed

lemma name_a_ok: "nanvix_shm_name_is_invalid (Some ''a'') = Inr 0"
  by (simp add: nanvix_shm_name_is_invalid_def NANVIX_SHM_NAME_MAX_def)

theorem shm_shared_between_processes_witness:
  "\<exists>i w1 w2 w3. nanvix_shm_open shm_env_ideal plain_resource shm_world_ready (Some ''a'') (o_creat\<lparr>O_RDWR := True\<rparr>) s_rw = Some (Inr i, w1) \<and>
     nanvix_shm_ftruncate shm_env_ideal plain_resource w1 i 100 = Some (Inr 0, w2) \<and>
     nanvix_shm_write shm_env_ideal plain_resource w2 i (Some [7, 8, 9]) 3 50 = Some (Inr 3, w3)"
proof -
  let ?rs = "map rg_resource (regions (hw_shm shm_world_ready))"
  obtain i r where a: "resource_alloc plain_resource ?rs = Some (i, r)" "\<not> resource_is_mapped plain_resource r"
  proof -
    have "?rs = replicate NANVIX_SHM_MAX plain_clear" by (simp add: shm_world_ready_up(2) shm_init_def shm_static_def)
    then have "resource_alloc plain_resource ?rs = Some (0, plain_clear\<lparr>f_used := True\<rparr>)"
      by (simp add: plain_alloc_def NANVIX_SHM_MAX_def first_index_Some_iff plain_clear_def)
    then show thesis by (rule that) (simp add: plain_clear_def)
  qed
  have m: "shm_mem (hw_shm shm_world_ready) = rmem_two_up" by (simp add: shm_world_ready_up(2) shm_init_def shm_static_def)
  have E: "se_rmem (he_sysv shm_env_ideal) = rmem_env_ideal" by (simp add: shm_env_ideal_def sysv_env_ideal_def)
  obtain p v where p: "nanvix_rmem_alloc (se_rmem (he_sysv shm_env_ideal)) (shm_mem (hw_shm shm_world_ready)) = Some (p, v)" "p \<noteq> RMEM_NULL"
    using rmem_two_up_alloc unfolding m E by metis
  have "\<exists>w1 w2 w3. nanvix_shm_open shm_env_ideal plain_resource shm_world_ready (Some ''a'') (o_creat\<lparr>O_RDWR := True\<rparr>) s_rw = Some (Inr (int i), w1) \<and>
     nanvix_shm_ftruncate shm_env_ideal plain_resource w1 (int i) (int 100) = Some (Inr 0, w2) \<and>
     nanvix_shm_write shm_env_ideal plain_resource w2 (int i) (Some [7, 8, 9]) (length [7, 8, 9 :: byte]) (int 50) = Some (Inr (int (length [7, 8, 9 :: byte])), w3)"
    using shm_shared_between_processes [OF plain_resource_laws shm_world_ready_up(1,3) shm_world_ready_tables(1-3) name_a_ok shm_world_ready_tables(4) a shm_world_ready_up(4) p,
        of "o_creat\<lparr>O_RDWR := True\<rparr>" s_rw 100 50 "[7, 8, 9]"]
    by (auto simp: o_creat_def s_rw_def NANVIX_SHM_SIZE_MAX_def)
  then show ?thesis by (auto simp: numeral_3_eq_3)
qed

lemma open_unreported:
  assumes R: "resource_laws R" and up: "shm_client_up C R w" and ref: "shm_refused C R w (SYSV_SHM_OPEN name o_rdwr)"
    and n: "nanvix_shm_name_is_invalid (Some name) = Inr 0" "\<not> S_OTHERS mode" "shm_lookup_name R w name = None" "oregion_room R w"
  obtains w' where "nanvix_shm_open C R w (Some name) o_rdwr mode = Some (Inr (he_junk_ipcid C), w')" "shm_lookup_name R w' name \<noteq> None"
proof -
  have rep: "\<forall>r. shm_answers (SYSV_SHM_OPEN name o_rdwr) r" by (simp add: shm_replies)
  obtain e out srv where h: "sysv_handle (se_mailbox (he_sysv C)) (se_portal (he_sysv C) []) (se_rmem (he_sysv C)) R (se_priv (he_sysv C)) (se_nproc (he_sysv C))
      (sw_server (hw_sysv w)) (sysv_std (he_sysv C) (SYSV_SHM_OPEN name o_rdwr)) = Some (Inl e, out, srv)"
    "\<forall>w0. hw_sysv w0 = hw_sysv w \<and> hw_cache w0 = hw_cache w \<and> length (hw_oregions w0) = length (hw_oregions w) \<longrightarrow>
      shm_call C R w0 (SYSV_SHM_OPEN name o_rdwr) = Some (shm_response C (Inl e) out, w0\<lparr>hw_sysv := (hw_sysv w)\<lparr>sw_server := srv\<rparr>\<rparr>)"
    "hr_opcode (shm_response C (Inl e) out) \<noteq> SYSV_SHM_FAIL"
    by (rule shm_call_refused [OF R up ref rep])
  let ?m = "shm_response C (Inl e) out" and ?x = "(hw_sysv w)\<lparr>sw_server := srv\<rparr>"
  have id: "hr_ipcid ?m = he_junk_ipcid C" using shm_open_no_ipcid [OF h(1)] by (simp add: shm_response_def)
  obtain j r where a: "oregion_alloc R w = Some (j, oregion_update j (\<lambda>g. g\<lparr>or_resource := r\<rparr>) w)" "j < length (hw_oregions w)" "resource_is_used R r"
    by (rule oregion_allocE [OF R n(4)])
  obtain f where f: "shm_opened R j name o_rdwr mode ?m ((oregion_update j (\<lambda>g. g\<lparr>or_resource := r\<rparr>) w)\<lparr>hw_sysv := ?x\<rparr>) =
      (Inr (hr_ipcid ?m), w\<lparr>hw_sysv := ?x, hw_oregions := (hw_oregions w)[j := f]\<rparr>)" "resource_is_used R (or_resource f)" "or_name f = name"
    by (rule shm_opened_entry [OF R a(2,3) h(3)])
  let ?w = "w\<lparr>hw_sysv := ?x, hw_oregions := (hw_oregions w)[j := f]\<rparr>"
  have "shm_call C R (oregion_update j (\<lambda>g. g\<lparr>or_resource := r\<rparr>) w) (SYSV_SHM_OPEN name o_rdwr) =
      Some (?m, (oregion_update j (\<lambda>g. g\<lparr>or_resource := r\<rparr>) w)\<lparr>hw_sysv := ?x\<rparr>)" using h(2) by simp
  then have "nanvix_shm_open C R w (Some name) o_rdwr mode = Some (Inr (he_junk_ipcid C), ?w)"
    using shm_client_upD(8) [OF up] n a(1) f(1) id by (simp add: nanvix_shm_open_def do_nanvix_shm_open_def o_rdwr_def)
  moreover have "shm_lookup_name R ?w name \<noteq> None" using a(2) f(2,3) by (auto simp: shm_lookup_name_def first_index_None_iff intro!: exI [of _ j])
  ultimately show thesis by (rule that)
qed

lemma request_unreported:
  assumes R: "resource_laws R" and up: "shm_client_up C R w" and ref: "shm_refused C R w op" "\<forall>r. shm_answers op r"
  obtains msg w1 where "shm_call C R w op = Some (msg, w1)" "hr_opcode msg \<noteq> SYSV_SHM_FAIL" "hw_oregions w1 = hw_oregions w"
proof -
  obtain e out srv where h: "\<forall>w0. hw_sysv w0 = hw_sysv w \<and> hw_cache w0 = hw_cache w \<and> length (hw_oregions w0) = length (hw_oregions w) \<longrightarrow>
      shm_call C R w0 op = Some (shm_response C (Inl e) out, w0\<lparr>hw_sysv := (hw_sysv w)\<lparr>sw_server := srv\<rparr>\<rparr>)"
    "hr_opcode (shm_response C (Inl e) out) \<noteq> SYSV_SHM_FAIL"
    by (rule shm_call_refused [OF R up ref])
  then show thesis by (intro that [OF h(1) [rule_format] h(2)]) simp_all
qed

text \<open>
  C21. Failures are not reported. The server marks a refusal with \<open>SYSV_FAIL\<close> and the client looks for \<open>SYSV_SHM_FAIL\<close>, so a request that the server refused
  counts as done: an open returns an identifier that nobody has set and records the region as open, and a truncation, a close and a removal
  return zero.
\<close>

theorem shm_failures_unreported:
  assumes R: "resource_laws R" and up: "shm_client_up C R w"
  shows "(shm_refused C R w (SYSV_SHM_OPEN name o_rdwr) \<and> nanvix_shm_name_is_invalid (Some name) = Inr 0 \<and> \<not> S_OTHERS mode \<and>
      shm_lookup_name R w name = None \<and> oregion_room R w \<longrightarrow>
      (\<exists>w'. nanvix_shm_open C R w (Some name) o_rdwr mode = Some (Inr (he_junk_ipcid C), w') \<and> shm_lookup_name R w' name \<noteq> None)) \<and>
    (shm_lookup_shmid R w shmid = Some j \<and> nanvix_shm_is_valid shmid \<longrightarrow>
      (shm_refused C R w (SYSV_SHM_FTRUNCATE shmid sz) \<and> 0 \<le> sz \<and> sz \<le> int NANVIX_SHM_SIZE_MAX \<and> or_refcount (hw_oregions w ! j) \<noteq> 0 \<longrightarrow>
        map_option fst (nanvix_shm_ftruncate C R w shmid sz) = Some (Inr 0)) \<and>
      (shm_refused C R w (SYSV_SHM_CLOSE shmid) \<and> or_refcount (hw_oregions w ! j) = 1 \<longrightarrow>
        map_option fst (nanvix_shm_close C R w shmid) = Some (Inr 0))) \<and>
    (shm_refused C R w (SYSV_SHM_UNLINK name) \<and> nanvix_shm_name_is_invalid (Some name) = Inr 0 \<and> shm_lookup_name R w name = Some j \<and>
      or_refcount (hw_oregions w ! j) = 0 \<longrightarrow> map_option fst (nanvix_shm_unlink C R w (Some name)) = Some (Inr 0))"
proof (intro conjI impI; (elim conjE)?)
  note init = shm_client_upD(8) [OF up] and ru = request_unreported [OF R up]
  show "\<exists>w'. nanvix_shm_open C R w (Some name) o_rdwr mode = Some (Inr (he_junk_ipcid C), w') \<and> shm_lookup_name R w' name \<noteq> None"
    if "shm_refused C R w (SYSV_SHM_OPEN name o_rdwr)" "nanvix_shm_name_is_invalid (Some name) = Inr 0" "\<not> S_OTHERS mode"
      "shm_lookup_name R w name = None" "oregion_room R w"
    by (rule open_unreported [OF R up that]) blast
  show "map_option fst (nanvix_shm_ftruncate C R w shmid sz) = Some (Inr 0)"
    if "shm_lookup_shmid R w shmid = Some j" "nanvix_shm_is_valid shmid" "shm_refused C R w (SYSV_SHM_FTRUNCATE shmid sz)" "0 \<le> sz" "sz \<le> int NANVIX_SHM_SIZE_MAX"
      "or_refcount (hw_oregions w ! j) \<noteq> 0"
    by (rule ru [OF that(3)]) (use that init in \<open>simp_all add: shm_replies nanvix_shm_ftruncate_def do_nanvix_shm_ftruncate_def\<close>)
  show "map_option fst (nanvix_shm_close C R w shmid) = Some (Inr 0)"
    if "shm_lookup_shmid R w shmid = Some j" "nanvix_shm_is_valid shmid" "shm_refused C R w (SYSV_SHM_CLOSE shmid)" "or_refcount (hw_oregions w ! j) = 1"
    by (rule ru [OF that(3)]) (use that init in \<open>simp_all add: shm_replies nanvix_shm_close_def do_nanvix_shm_close_def Let_def\<close>)
  show "map_option fst (nanvix_shm_unlink C R w (Some name)) = Some (Inr 0)"
    if "shm_refused C R w (SYSV_SHM_UNLINK name)" "nanvix_shm_name_is_invalid (Some name) = Inr 0" "shm_lookup_name R w name = Some j" "or_refcount (hw_oregions w ! j) = 0"
    by (rule ru [OF that(1)]) (use that init in \<open>simp_all add: shm_replies nanvix_shm_unlink_def do_nanvix_shm_unlink_def\<close>)
qed

theorem shm_failures_unreported_witness:
  "\<exists>w'. nanvix_shm_open shm_env_ideal plain_resource shm_world_ready (Some ''a'') o_rdwr s_rw = Some (Inr 77, w') \<and> shm_lookup_name plain_resource w' ''a'' \<noteq> None"
proof -
  have "do_shm_open (se_rmem (he_sysv shm_env_ideal)) plain_resource (hw_shm shm_world_ready) q (Some ''a'') o_rdwr = Some (Inl EINVAL, None, hw_shm shm_world_ready)" for q
    using name_a_ok shm_world_ready_tables(4) [of "''a''"] by (simp add: do_shm_open_def o_rdwr_def)
  then have "shm_refused shm_env_ideal plain_resource shm_world_ready (SYSV_SHM_OPEN ''a'' o_rdwr)"
    by (simp add: shm_refused_def sysv_handle_def sysv_shm_open_def shm_connect_def)
  moreover have "he_junk_ipcid shm_env_ideal = 77" "\<not> S_OTHERS s_rw" by (simp_all add: shm_env_ideal_def s_rw_def)
  ultimately show ?thesis
    using shm_failures_unreported [OF plain_resource_laws shm_world_ready_up(1), of "''a''" s_rw] shm_world_ready_tables name_a_ok by simp
qed

end
