(* ===== verification/Runtime.thy ===== *)
theory Runtime
  imports VfsClient ShmClient
begin

text \<open>
  Setting up and shutting down the runtime, \<open>src/libruntime/init.c\<close> and \<open>src/libruntime/shutdown.c\<close>: a thread enters rings of
  services in order, each ring with the set-ups of the clients of this library, and leaves them in the reverse order. All
  threads of a process share the clients. The set-ups of the standard connectors and the calls on threads and exceptions
  are the parameter \<open>runtime_env\<close>; \<open>re_exceptions\<close> has the addresses of the exceptions raised until \<open>excp_pause\<close> fails, and is
  \<open>None\<close> when it never fails. \<open>re_nconn\<close> is the size of the file server's table of connections.
\<close>

section \<open>State\<close>

definition SPAWN_RING_0 :: int where "SPAWN_RING_0 = 0"
definition SPAWN_RING_1 :: int where "SPAWN_RING_1 = 1"
definition SPAWN_RING_2 :: int where "SPAWN_RING_2 = 2"
definition SPAWN_RING_3 :: int where "SPAWN_RING_3 = 3"
definition SPAWN_RING_4 :: int where "SPAWN_RING_4 = 4"
definition SPAWN_RING_5 :: int where "SPAWN_RING_5 = 5"
definition SPAWN_RING_X :: int where "SPAWN_RING_X = 6"
definition SPAWN_RING_FIRST :: int where "SPAWN_RING_FIRST = SPAWN_RING_0"
definition SPAWN_RING_LAST :: int where "SPAWN_RING_LAST = SPAWN_RING_5"

lemmas spawn_rings = SPAWN_RING_0_def SPAWN_RING_1_def SPAWN_RING_2_def SPAWN_RING_3_def SPAWN_RING_4_def SPAWN_RING_5_def
  SPAWN_RING_X_def SPAWN_RING_FIRST_def SPAWN_RING_LAST_def

record 'p runtime_env =
  re_vfs :: vfs_env
  re_sysv :: "'p sysv_env"
  re_rmem :: "'p rmem_env"
  re_vm :: "'p vm_env"
  re_stdsync_setup :: int
  re_stdmailbox_setup :: int
  re_stdportal_setup :: int
  re_stdsync_cleanup :: int
  re_stdmailbox_cleanup :: int
  re_stdportal_cleanup :: int
  re_thread_create :: int
  re_thread_join :: int
  re_excp_resume :: int
  re_exceptions :: "'p list option"
  re_nconn :: nat

abbreviation re_pm :: "'p runtime_env \<Rightarrow> pm_env" where "re_pm C \<equiv> ve_pm (re_vfs C)"

text \<open>
  The process: the ring of each thread, whether the thread that handles exceptions was created, the named connectors (with
  the name client), the virtual memory (with the page cache and the stub), and the clients of the two servers. The
  connectors are one, so the fields for them in the states of the clients are set from \<open>rt_pm\<close> before each call.
\<close>

record ('r, 'p) runtime =
  rt_current_ring :: "int list"
  rt_handler :: bool
  rt_pm :: "'r pm"
  rt_vmem :: "'p vmem"
  rt_vfs :: "'r vfs_world"
  rt_sysv :: "('r, 'p) sysv_world"

abbreviation rt_names :: "('r, 'p) runtime \<Rightarrow> name_world" where "rt_names w \<equiv> pm_names (rt_pm w)"
abbreviation rt_mem :: "('r, 'p) runtime \<Rightarrow> rmem_system" where "rt_mem w \<equiv> ca_mem (vm_cache (rt_vmem w))"

section \<open>Set-up\<close>

definition set_rt_mem :: "rmem_system \<Rightarrow> ('r, 'p) runtime \<Rightarrow> ('r, 'p) runtime" where
  "set_rt_mem m w = w\<lparr>rt_vmem := (rt_vmem w)\<lparr>vm_cache := (vm_cache (rt_vmem w))\<lparr>ca_mem := m\<rparr>\<rparr>\<rparr>"

definition ring0_setup :: "'p runtime_env \<Rightarrow> ('r, 'p) runtime \<Rightarrow> ('r, 'p) runtime option" where
  "ring0_setup C w = do { uassert (re_stdsync_setup C = 0); uassert (re_stdmailbox_setup C = 0); uassert (re_stdportal_setup C = 0); Some w }"

definition ring1_setup :: "'p runtime_env \<Rightarrow> ('r, 'p) runtime \<Rightarrow> ('r, 'p) runtime option" where
  "ring1_setup C w =
     do { let (r, n) = nanvix_name_setup (pe_name (re_pm C)) (rt_names w);
          uassert (r = 0);
          Some (w\<lparr>rt_pm := (rt_pm w)\<lparr>pm_names := n\<rparr>\<rparr>) }"

definition ring2_setup :: "'p runtime_env \<Rightarrow> ('r, 'p) runtime \<Rightarrow> ('r, 'p) runtime option" where
  "ring2_setup C w =
     do { (r1, st1) \<leftarrow> nanvix_mailbox_setup (re_pm C) (rt_pm w);
          uassert (r1 = 0);
          (r2, st2) \<leftarrow> nanvix_portal_setup (re_pm C) st1;
          uassert (r2 = 0);
          Some (w\<lparr>rt_pm := st2\<rparr>) }"

definition vfs_set_up :: "'p runtime_env \<Rightarrow> 'r resource_ops \<Rightarrow> ('r, 'p) runtime \<Rightarrow> ('r, 'p) runtime option" where
  "vfs_set_up C R w =
     do { (r, v) \<leftarrow> nanvix_vfs_setup (re_vfs C) R ((rt_vfs w)\<lparr>vw_pm := rt_pm w\<rparr>);
          uassert (r = Inr 0);
          Some (w\<lparr>rt_vfs := v, rt_pm := vw_pm v\<rparr>) }"

definition ring3_setup :: "'w :: len word runtime_env \<Rightarrow> 'r resource_ops \<Rightarrow> ('r, 'w word) runtime \<Rightarrow> ('r, 'w word) runtime option" where
  "ring3_setup C R w =
     do { (r, m) \<leftarrow> nanvix_rmem_setup (re_rmem C) (rt_mem w);
          uassert (r = 0);
          let w1 = set_rt_mem m w;
          let w2 = w1\<lparr>rt_vmem := (rt_vmem w1)\<lparr>vm_cache := nanvix_rcache_setup (vm_cache (rt_vmem w1))\<rparr>\<rparr>;
          vfs_set_up C R w2 }"

definition ring4_setup :: "'p runtime_env \<Rightarrow> 'r resource_ops \<Rightarrow> ('r, 'p) runtime \<Rightarrow> ('r, 'p) runtime option" where
  "ring4_setup C R w =
     do { (r, s) \<leftarrow> nanvix_sysv_setup (re_sysv C) R ((rt_sysv w)\<lparr>sw_pm := rt_pm w\<rparr>);
          uassert (r = Inr 0);
          Some (w\<lparr>rt_sysv := s, rt_pm := sw_pm s\<rparr>) }"

definition ring5_setup :: "'p runtime_env \<Rightarrow> ('r, 'p) runtime \<Rightarrow> ('r, 'p) runtime option" where
  "ring5_setup C w = do { uassert (re_thread_create C = 0); Some (w\<lparr>rt_handler := True\<rparr>) }"

definition enter_ring :: "int \<Rightarrow> int \<Rightarrow> int \<Rightarrow> ('w \<Rightarrow> 'w option) \<Rightarrow> 'w \<Rightarrow> 'w option" where
  "enter_ring current ring r f w = (if current < r \<and> r \<le> ring then f w else Some w)"

definition runtime_setup :: "'w :: len word runtime_env \<Rightarrow> 'r resource_ops \<Rightarrow> nat \<Rightarrow> int \<Rightarrow> ('r, 'w word) runtime \<Rightarrow>
    (int result \<times> ('r, 'w word) runtime) option" where
  "runtime_setup C R tid ring w =
     (if ring < 0 then Some (Inl EINVAL, w)
      else do {
        current \<leftarrow> arr_get (rt_current_ring w) tid;
        if ring < current then Some (Inr 0, w)
        else do {
          w0 \<leftarrow> enter_ring current ring SPAWN_RING_0 (ring0_setup C) w;
          w1 \<leftarrow> enter_ring current ring SPAWN_RING_1 (ring1_setup C) w0;
          w2 \<leftarrow> enter_ring current ring SPAWN_RING_2 (ring2_setup C) w1;
          w3 \<leftarrow> enter_ring current ring SPAWN_RING_3 (ring3_setup C R) w2;
          w4 \<leftarrow> enter_ring current ring SPAWN_RING_4 (ring4_setup C R) w3;
          w5 \<leftarrow> enter_ring current ring SPAWN_RING_5 (ring5_setup C) w4;
          rings \<leftarrow> arr_set (rt_current_ring w5) tid ring;
          Some (Inr 0, w5\<lparr>rt_current_ring := rings\<rparr>) } })"

section \<open>The handler of exceptions\<close>

text \<open>
  The loop of the thread ends when \<open>excp_pause\<close> fails, and only then: if it never does, the thread never returns.
\<close>

fun handle_exceptions :: "'w :: len word runtime_env \<Rightarrow> 'w word vmem \<Rightarrow> 'w word list \<Rightarrow> 'w word vmem option" where
  "handle_exceptions C st [] = Some st"
| "handle_exceptions C st (vaddr # vaddrs) =
     do { (r, st') \<leftarrow> nanvix_rfault (re_rmem C) (re_vm C) st vaddr;
          uassert (r = Inr 0);
          uassert (re_excp_resume C = 0);
          handle_exceptions C st' vaddrs }"

definition exception_loop :: "'w :: len word runtime_env \<Rightarrow> ('r, 'w word) runtime \<Rightarrow> ('r, 'w word) runtime option" where
  "exception_loop C w = do { vaddrs \<leftarrow> re_exceptions C; vm \<leftarrow> handle_exceptions C (rt_vmem w) vaddrs; Some (w\<lparr>rt_vmem := vm\<rparr>) }"

definition nanvix_exception_handler :: "'w :: len word runtime_env \<Rightarrow> ('r, 'w word) runtime \<Rightarrow> ('r, 'w word) runtime option" where
  "nanvix_exception_handler C w =
     do { w0 \<leftarrow> ring0_setup C w;
          w1 \<leftarrow> ring1_setup C w0;
          w2 \<leftarrow> ring2_setup C w1;
          exception_loop C w2 }"

section \<open>Clean-up\<close>

text \<open>
  The join returns when the handler does. The thread that created it has entered all rings, so the handler's own set-ups, which are done by
  then, have changed nothing (\<open>exception_handler_idle\<close> below) and what the caller waits for is the loop.
\<close>

definition ring5_cleanup :: "'w :: len word runtime_env \<Rightarrow> ('r, 'w word) runtime \<Rightarrow> ('r, 'w word) runtime option" where
  "ring5_cleanup C w = do { w1 \<leftarrow> exception_loop C w; uassert (re_thread_join C = 0); Some (w1\<lparr>rt_handler := False\<rparr>) }"

definition ring4_cleanup :: "'p runtime_env \<Rightarrow> 'r resource_ops \<Rightarrow> ('r, 'p) runtime \<Rightarrow> ('r, 'p) runtime option" where
  "ring4_cleanup C R w =
     do { let (r, s) = nanvix_sysv_cleanup (re_sysv C) R ((rt_sysv w)\<lparr>sw_pm := rt_pm w\<rparr>);
          uassert (r = Inr 0);
          Some (w\<lparr>rt_sysv := s, rt_pm := sw_pm s\<rparr>) }"

definition ring3_cleanup :: "'p runtime_env \<Rightarrow> 'r resource_ops \<Rightarrow> ('r, 'p) runtime \<Rightarrow> ('r, 'p) runtime option" where
  "ring3_cleanup C R w =
     do { let (r, v) = nanvix_vfs_cleanup (re_vfs C) R ((rt_vfs w)\<lparr>vw_pm := rt_pm w\<rparr>);
          uassert (r = Inr 0);
          let w1 = w\<lparr>rt_vfs := v, rt_pm := vw_pm v\<rparr>;
          (r', m) \<leftarrow> nanvix_rmem_cleanup (re_rmem C) (rt_mem w1);
          uassert (r' = Inr 0);
          Some (set_rt_mem m w1) }"

definition ring2_cleanup :: "'p runtime_env \<Rightarrow> ('r, 'p) runtime \<Rightarrow> ('r, 'p) runtime option" where
  "ring2_cleanup C w =
     do { (r1, st1) \<leftarrow> nanvix_portal_cleanup (re_pm C) (rt_pm w);
          uassert (r1 = Inr 0);
          (r2, st2) \<leftarrow> nanvix_mailbox_cleanup (re_pm C) st1;
          uassert (r2 = Inr 0);
          Some (w\<lparr>rt_pm := st2\<rparr>) }"

definition ring1_cleanup :: "'p runtime_env \<Rightarrow> ('r, 'p) runtime \<Rightarrow> ('r, 'p) runtime option" where
  "ring1_cleanup C w =
     do { let (r, n) = nanvix_name_cleanup (pe_name (re_pm C)) (rt_names w);
          uassert (r = Inr 0);
          Some (w\<lparr>rt_pm := (rt_pm w)\<lparr>pm_names := n\<rparr>\<rparr>) }"

definition ring0_cleanup :: "'p runtime_env \<Rightarrow> ('r, 'p) runtime \<Rightarrow> ('r, 'p) runtime option" where
  "ring0_cleanup C w = do { uassert (re_stdportal_cleanup C = 0); uassert (re_stdmailbox_cleanup C = 0); uassert (re_stdsync_cleanup C = 0); Some w }"

definition leave_ring :: "int \<Rightarrow> int \<Rightarrow> ('w \<Rightarrow> 'w option) \<Rightarrow> 'w \<Rightarrow> 'w option" where
  "leave_ring current r f w = (if r \<le> current then f w else Some w)"

definition runtime_cleanup :: "'w :: len word runtime_env \<Rightarrow> 'r resource_ops \<Rightarrow> nat \<Rightarrow> ('r, 'w word) runtime \<Rightarrow>
    (int result \<times> ('r, 'w word) runtime) option" where
  "runtime_cleanup C R tid w =
     do { current \<leftarrow> arr_get (rt_current_ring w) tid;
          w5 \<leftarrow> leave_ring current SPAWN_RING_5 (ring5_cleanup C) w;
          w4 \<leftarrow> leave_ring current SPAWN_RING_4 (ring4_cleanup C R) w5;
          w3 \<leftarrow> leave_ring current SPAWN_RING_3 (ring3_cleanup C R) w4;
          w2 \<leftarrow> leave_ring current SPAWN_RING_2 (ring2_cleanup C) w3;
          w1 \<leftarrow> leave_ring current SPAWN_RING_1 (ring1_cleanup C) w2;
          w0 \<leftarrow> ring0_cleanup C w1;
          rings \<leftarrow> arr_set (rt_current_ring w0) tid (- 1);
          Some (Inr 0, w0\<lparr>rt_current_ring := rings\<rparr>) }"

section \<open>Shutdown\<close>

text \<open>Only the leader cluster acts; the result of the set-up is ignored.\<close>

definition nanvix_shutdown :: "'w :: len word runtime_env \<Rightarrow> 'r resource_ops \<Rightarrow> nat \<Rightarrow> bool \<Rightarrow> ('r, 'w word) runtime \<Rightarrow>
    (int result \<times> ('r, 'w word) runtime) option" where
  "nanvix_shutdown C R tid leader w =
     (if \<not> leader then Some (Inr 0, w)
      else do {
        (_, w1) \<leftarrow> runtime_setup C R tid SPAWN_RING_LAST w;
        (r1, s) \<leftarrow> nanvix_sysv_shutdown (re_sysv C) R ((rt_sysv w1)\<lparr>sw_pm := rt_pm w1\<rparr>);
        uassert (r1 = Inr 0);
        let w2 = w1\<lparr>rt_sysv := s, rt_pm := sw_pm s\<rparr>;
        (r2, v) \<leftarrow> nanvix_vfs_shutdown (re_vfs C) R (re_nconn C) ((rt_vfs w2)\<lparr>vw_pm := rt_pm w2\<rparr>);
        uassert (r2 = Inr 0);
        let w3 = w2\<lparr>rt_vfs := v, rt_pm := vw_pm v\<rparr>;
        (r3, m) \<leftarrow> nanvix_rmem_shutdown (re_rmem C) (rt_mem w3);
        uassert (r3 = 0);
        let w4 = set_rt_mem m w3;
        let (r4, n) = nanvix_name_shutdown (pe_name (re_pm C)) (rt_names w4);
        uassert (r4 = Inr 0);
        Some (Inr 0, w4\<lparr>rt_pm := (rt_pm w4)\<lparr>pm_names := n\<rparr>\<rparr>) })"

section \<open>Opening a channel leaves the others open\<close>

lemma alloc_frame:
  "alloc_mailbox R st = Some (i, st') \<Longrightarrow> length (pm_mailboxes st') = length (pm_mailboxes st) \<and>
    pm_mbx_initialized st' = pm_mbx_initialized st \<and> pm_prt_initialized st' = pm_prt_initialized st"
  "alloc_portal R st = Some (i, st') \<Longrightarrow> length (pm_portals st') = length (pm_portals st) \<and> pm_mailboxes st' = pm_mailboxes st \<and>
    pm_mbx_initialized st' = pm_mbx_initialized st \<and> pm_prt_initialized st' = pm_prt_initialized st"
  by (auto simp: alloc_mailbox_def set_mailbox_def alloc_portal_def set_portal_def)

lemma mailbox_open_frame:
  "nanvix_mailbox_open C R st name port = Some (r, st') \<Longrightarrow> length (pm_mailboxes st') = length (pm_mailboxes st) \<and>
    pm_mbx_initialized st' = pm_mbx_initialized st \<and> pm_prt_initialized st' = pm_prt_initialized st"
proof (cases name)
  case (Some n)
  assume o: "nanvix_mailbox_open C R st name port = Some (r, st')"
  with Some obtain ret w where l: "nanvix_name_lookup (pe_name C) (pm_names st) name = Some (ret, w)"
    by (cases "nanvix_name_lookup (pe_name C) (pm_names st) name") (auto simp: nanvix_mailbox_open_def)
  show ?thesis
  proof (cases ret)
    case (Inr node)
    with o Some l show ?thesis
      by (cases "alloc_mailbox R (st\<lparr>pm_names := w\<rparr>)")
        (auto simp: nanvix_mailbox_open_def set_mailbox_def free_mailbox_def Let_def dest!: alloc_frame(1) split: if_splits)
  qed (use o Some l in \<open>auto simp: nanvix_mailbox_open_def\<close>)
qed (simp add: nanvix_mailbox_open_def)

lemma portal_open_frame:
  "nanvix_portal_open C R st name port = Some (r, st') \<Longrightarrow> length (pm_portals st') = length (pm_portals st) \<and> pm_mailboxes st' = pm_mailboxes st \<and>
    pm_mbx_initialized st' = pm_mbx_initialized st \<and> pm_prt_initialized st' = pm_prt_initialized st"
proof (cases name)
  case (Some n)
  assume o: "nanvix_portal_open C R st name port = Some (r, st')"
  with Some obtain ret w where l: "nanvix_name_lookup (pe_name C) (pm_names st) name = Some (ret, w)"
    by (cases "nanvix_name_lookup (pe_name C) (pm_names st) name") (auto simp: nanvix_portal_open_def)
  show ?thesis
  proof (cases ret)
    case (Inr node)
    with o Some l show ?thesis
      by (cases "alloc_portal R (st\<lparr>pm_names := w\<rparr>)")
        (auto simp: nanvix_portal_open_def set_portal_def free_portal_def Let_def dest!: alloc_frame(2) split: if_splits)
  qed (use o Some l in \<open>auto simp: nanvix_portal_open_def\<close>)
qed (simp add: nanvix_portal_open_def)

text \<open>The free entries of a table of connectors.\<close>

definition free_entries :: "'r resource_ops \<Rightarrow> 'r named_mailbox list \<Rightarrow> nat set" where
  "free_entries R ms = {i. i < length ms \<and> conn_view R ms i = None}"

definition pm_room :: "'r resource_ops \<Rightarrow> 'r pm \<Rightarrow> nat" where
  "pm_room R st = min (card (free_entries R (pm_mailboxes st))) (card (free_entries R (pm_portals st)))"

lemma free_entries_open:
  assumes "conn_view R ms' = (conn_view R ms)(i \<mapsto> c)" "length ms' = length ms"
  shows "card (free_entries R ms) \<le> Suc (card (free_entries R ms'))"
proof -
  have "free_entries R ms \<subseteq> insert i (free_entries R ms')" using assms by (auto simp: free_entries_def)
  moreover have fin: "finite (free_entries R ms')" by (simp add: free_entries_def)
  ultimately have "card (free_entries R ms) \<le> card (insert i (free_entries R ms'))" by (intro card_mono) simp_all
  also have "\<dots> \<le> Suc (card (free_entries R ms'))" using fin by (simp add: card_insert_if)
  finally show ?thesis .
qed

lemma free_entriesE:
  assumes "0 < card (free_entries R ms)"
  shows "\<exists>i<length ms. conn_view R ms i = None"
proof -
  have "free_entries R ms \<noteq> {}" using assms by auto
  then show ?thesis by (auto simp: free_entries_def)
qed

definition linked :: "pm_env \<Rightarrow> 'r pm \<Rightarrow> string \<Rightarrow> int \<Rightarrow> bool" where
  "linked C st name port \<longleftrightarrow> (\<exists>node p c. bindings (pm_names st) name = Some (node, p, c) \<and> 0 \<le> pe_mopen C node port \<and>
     0 \<le> pe_popen C (knode_get_num C) node port)"

text \<open>What opening keeps.\<close>

definition opened_more :: "pm_env \<Rightarrow> 'r resource_ops \<Rightarrow> 'r pm \<Rightarrow> 'r pm \<Rightarrow> bool" where
  "opened_more C R st st' \<longleftrightarrow> pm_inv C R st' \<and> bindings (pm_names st') = bindings (pm_names st) \<and> pm_room R st \<le> Suc (pm_room R st') \<and>
     (\<forall>ch. connected C R st ch \<longrightarrow> connected C R st' ch) \<and>
     pm_mbx_initialized st' = pm_mbx_initialized st \<and> pm_prt_initialized st' = pm_prt_initialized st"

lemma conn_at_upd: "conn_at v k = Some x \<Longrightarrow> v i = None \<Longrightarrow> conn_at (v(i \<mapsto> c)) k = Some x"
  by (auto simp: conn_at_def split: if_splits)

definition apart :: "channel \<Rightarrow> channel \<Rightarrow> bool" where
  "apart a b \<longleftrightarrow> ch_outbox a \<noteq> ch_outbox b \<and> ch_outportal a \<noteq> ch_outportal b"

lemma channel_open_more:
  assumes laws: "resource_laws R" "pm_env_up C" "pm_inv C R st" and l: "linked C st name port" and room: "0 < pm_room R st"
  obtains ch' st' where "channel_open C R st ch name port = Some (Inr 0, ch', st')" "connected C R st' ch'" "opened_more C R st st'"
    "ch_initialized ch' = ch_initialized ch" "\<forall>c. connected C R st c \<longrightarrow> apart c ch'"
proof -
  obtain node p c where b: "bindings (pm_names st) name = Some (node, p, c)" "0 \<le> pe_mopen C node port" "0 \<le> pe_popen C (knode_get_num C) node port"
    using l by (auto simp: linked_def)
  obtain r1 st1 where m: "nanvix_mailbox_open C R st (Some name) port = Some (r1, st1)" "pm_inv C R st1" "prt_view R st1 = prt_view R st" "pm_portals st1 = pm_portals st"
    "opened (length (pm_mailboxes st)) (\<lambda>node. pe_mopen C node port) (Some name) (mbx_view R st) (pm_names st) r1 (mbx_view R st1) (pm_names st1)"
    by (rule mailbox_openE [OF laws])
  obtain r2 st2 where q: "nanvix_portal_open C R st1 (Some name) port = Some (r2, st2)" "pm_inv C R st2" "mbx_view R st2 = mbx_view R st1"
    "opened (length (pm_portals st1)) (\<lambda>node. pe_popen C (knode_get_num C) node port) (Some name) (prt_view R st1) (pm_names st1) r2 (prt_view R st2) (pm_names st2)"
    by (rule portal_openE [OF laws(1,2) m(2)])
  note f1 = mailbox_open_frame [OF m(1)] and f2 = portal_open_frame [OF q(1)]
  have rm: "\<exists>i<length (pm_mailboxes st). mbx_view R st i = None" "\<exists>i<length (pm_portals st). prt_view R st i = None"
    using room free_entriesE by (auto simp: pm_room_def)
  obtain k1 fd1 where k1: "r1 = Inr k1" "0 \<le> k1" "mbx_view R st (nat k1) = None" "mbx_view R st1 = (mbx_view R st)(nat k1 \<mapsto> Outward fd1)"
    "bindings (pm_names st1) = bindings (pm_names st)"
    using m(5) b rm by (cases r1) (auto simp: opened_def)
  obtain k2 fd2 where k2: "r2 = Inr k2" "0 \<le> k2" "prt_view R st1 (nat k2) = None" "prt_view R st2 = (prt_view R st1)(nat k2 \<mapsto> Outward fd2)"
    "bindings (pm_names st2) = bindings (pm_names st1)"
    using q(4) b k1(5) rm(2) m(3,4) by (cases r2) (auto simp: opened_def)
  let ?ch = "ch\<lparr>ch_outbox := k1, ch_outportal := k2\<rparr>"
  have eq: "channel_open C R st ch name port = Some (Inr 0, ?ch, st2)" using m(1) q(1) k1(1) k2(1) by (simp add: channel_open_def conn_code_def)
  have con: "connected C R st2 ?ch" using q(2,3) k1(2,4) k2(2,4) by (simp add: connected_def conn_at_def)
  have "card (free_entries R (pm_mailboxes st)) \<le> Suc (card (free_entries R (pm_mailboxes st2)))"
    using free_entries_open [of R "pm_mailboxes st2" "pm_mailboxes st"] q(3) k1(4) f1 f2 by simp
  moreover have "card (free_entries R (pm_portals st)) \<le> Suc (card (free_entries R (pm_portals st2)))"
    using free_entries_open [of R "pm_portals st2" "pm_portals st"] k2(4) m(3,4) f2 by simp
  ultimately have rm': "pm_room R st \<le> Suc (pm_room R st2)" by (simp add: pm_room_def)
  have "connected C R st2 c" if "connected C R st c" for c
    using that q(2,3) k1(3,4) k2(3,4) m(3) by (auto simp: connected_def intro!: conn_at_upd)
  then have "opened_more C R st st2" using q(2) k1(5) k2(5) rm' f1 f2 by (simp add: opened_more_def)
  moreover have "\<forall>c. connected C R st c \<longrightarrow> apart c ?ch" using k1(3) k2(3) m(3) by (auto simp: connected_def apart_def conn_at_def)
  ultimately show thesis using that [OF eq con] by simp
qed

section \<open>What a ring provides\<close>

text \<open>
  The parameters: the kernel completes every call, and all clients use the same connectors.
\<close>

definition runtime_env_up :: "'p runtime_env \<Rightarrow> bool" where
  "runtime_env_up C \<longleftrightarrow> pm_kernel_up (re_pm C) \<and> se_pm (re_sysv C) = re_pm C \<and> 0 \<le> ne_mopen (pe_name (re_pm C)) \<and>
     re_stdsync_setup C = 0 \<and> re_stdmailbox_setup C = 0 \<and> re_stdportal_setup C = 0 \<and>
     (\<forall>i. 0 \<le> env_mopen (re_rmem C) i \<and> 0 \<le> env_popen (re_rmem C) i) \<and> env_excp_ok (re_rmem C) \<and>
     se_thread_ok (re_sysv C) \<and> re_thread_create C = 0"

definition names_on :: "'r pm \<Rightarrow> 'r pm" where
  "names_on st = st\<lparr>pm_names := (pm_names st)\<lparr>nw_initialized := True\<rparr>\<rparr>"

text \<open>A process whose tables are well formed and whose clients, if set up, are connected.\<close>

definition process_ok :: "'p runtime_env \<Rightarrow> 'r resource_ops \<Rightarrow> ('r, 'p) runtime \<Rightarrow> bool" where
  "process_ok C R w \<longleftrightarrow> pm_inv (re_pm C) R (names_on (rt_pm w)) \<and>
     (ch_initialized (vw_client (rt_vfs w)) \<longrightarrow> connected (re_pm C) R (names_on (rt_pm w)) (vw_client (rt_vfs w))) \<and>
     (ch_initialized (sw_client (rt_sysv w)) \<longrightarrow> connected (re_pm C) R (names_on (rt_pm w)) (sw_client (rt_sysv w))) \<and>
     (ch_initialized (vw_client (rt_vfs w)) \<and> ch_initialized (sw_client (rt_sysv w)) \<longrightarrow> apart (vw_client (rt_vfs w)) (sw_client (rt_sysv w)))"

text \<open>What each ring adds.\<close>

definition ring_up :: "'p runtime_env \<Rightarrow> int \<Rightarrow> ('r, 'p) runtime \<Rightarrow> bool" where
  "ring_up C ring w \<longleftrightarrow>
     (SPAWN_RING_1 \<le> ring \<longrightarrow> nw_initialized (rt_names w)) \<and>
     (SPAWN_RING_2 \<le> ring \<longrightarrow> mailboxes_are_initialized (re_pm C) (rt_pm w) = Some True \<and> portals_are_initialized (re_pm C) (rt_pm w) = Some True) \<and>
     (SPAWN_RING_3 \<le> ring \<longrightarrow> list_all rc_initialized (rs_server (rt_mem w)) \<and> ca_initialized (vm_cache (rt_vmem w)) \<and> ch_initialized (vw_client (rt_vfs w))) \<and>
     (SPAWN_RING_4 \<le> ring \<longrightarrow> ch_initialized (sw_client (rt_sysv w))) \<and>
     (SPAWN_RING_5 \<le> ring \<longrightarrow> rt_handler w)"

text \<open>What a set-up needs: the servers it connects to have linked their names, and there is room for two connections.\<close>

definition services :: "'p runtime_env \<Rightarrow> 'r resource_ops \<Rightarrow> int \<Rightarrow> ('r, 'p) runtime \<Rightarrow> bool" where
  "services C R ring w \<longleftrightarrow> 2 \<le> pm_room R (rt_pm w) \<and>
     (SPAWN_RING_3 \<le> ring \<longrightarrow> linked (re_pm C) (rt_pm w) VFS_SERVER_NAME (ve_port (re_vfs C))) \<and>
     (SPAWN_RING_4 \<le> ring \<longrightarrow> linked (re_pm C) (rt_pm w) SYSV_SERVER_NAME (se_port (re_sysv C)))"

text \<open>One remote memory server, and one flag, for each connection of the stub.\<close>

definition one_server_each :: "rmem_system \<Rightarrow> bool" where
  "one_server_each m \<longleftrightarrow> length (rs_servers m) = length (rs_server m) \<and> length (rs_alive m) = length (rs_server m)"

text \<open>A step of a set-up: nothing that was up goes down, names stay linked and at most \<open>n\<close> connections are added.\<close>

definition progress :: "'p runtime_env \<Rightarrow> 'r resource_ops \<Rightarrow> nat \<Rightarrow> ('r, 'p) runtime \<Rightarrow> ('r, 'p) runtime \<Rightarrow> bool" where
  "progress C R n w w' \<longleftrightarrow> process_ok C R w' \<and> (\<forall>r. ring_up C r w \<longrightarrow> ring_up C r w') \<and> rt_current_ring w' = rt_current_ring w \<and>
     bindings (rt_names w') = bindings (rt_names w) \<and> pm_room R (rt_pm w) \<le> n + pm_room R (rt_pm w') \<and>
     (one_server_each (rt_mem w) \<longrightarrow> one_server_each (rt_mem w'))"

lemma progress_refl: "process_ok C R w \<Longrightarrow> progress C R n w w"
  by (simp add: progress_def)

lemma progress_trans: "progress C R m w w' \<Longrightarrow> progress C R n w' w'' \<Longrightarrow> progress C R (m + n) w w''"
  by (auto simp: progress_def)

lemma linked_cong: "bindings (pm_names st) = bindings (pm_names st') \<Longrightarrow> linked C st = linked C st'"
  by (simp add: linked_def fun_eq_iff)

lemma names_on_same: "nw_initialized (pm_names st) \<Longrightarrow> names_on st = st"
  by (simp add: names_on_def)

lemma pm_inv_rename:
  "pm_inv C R (names_on st) \<longleftrightarrow> pm_inv C R (st\<lparr>pm_names := n\<rparr>)" if "nw_initialized n" "nw_alive n = nw_alive (pm_names st)" "nw_names n = nw_names (pm_names st)"
  using that by (simp add: pm_inv_def names_on_def names_up_def links_def)

section \<open>Each ring is entered\<close>

lemma runtime_env_upD:
  assumes "runtime_env_up C"
  shows "pm_kernel_up (re_pm C)" "se_pm (re_sysv C) = re_pm C" "0 \<le> ne_mopen (pe_name (re_pm C))"
    "re_stdsync_setup C = 0" "re_stdmailbox_setup C = 0" "re_stdportal_setup C = 0"
    "0 \<le> env_mopen (re_rmem C) i" "0 \<le> env_popen (re_rmem C) i" "env_excp_ok (re_rmem C)" "se_thread_ok (re_sysv C)" "re_thread_create C = 0"
  using assms by (simp_all add: runtime_env_up_def)

lemmas ring_defs = ring_up_def mailboxes_are_initialized_def portals_are_initialized_def

lemma ring0_ok: "runtime_env_up C \<Longrightarrow> ring0_setup C w = Some w"
  by (simp add: ring0_setup_def runtime_env_upD)

lemma ring1_ok:
  assumes env: "runtime_env_up C" and ok: "process_ok C R w"
  obtains w' where "ring1_setup C w = Some w'" "progress C R 0 w w'" "nw_initialized (rt_names w')"
proof (cases "nw_initialized (rt_names w)")
  case True
  then have "ring1_setup C w = Some w" by (simp add: ring1_setup_def nanvix_name_setup_def)
  with that progress_refl [OF ok] True show thesis by blast
next
  case False
  let ?n = "(rt_names w)\<lparr>nw_outbox := ne_mopen (pe_name (re_pm C)), nw_initialized := True\<rparr>"
  let ?w = "w\<lparr>rt_pm := (rt_pm w)\<lparr>pm_names := ?n\<rparr>\<rparr>"
  have eq: "ring1_setup C w = Some ?w" using False runtime_env_upD(3) [OF env] by (simp add: ring1_setup_def nanvix_name_setup_def Let_def)
  have on: "names_on (rt_pm ?w) = rt_pm ?w" by (rule names_on_same) simp
  have "pm_inv (re_pm C) R (rt_pm ?w)" using ok pm_inv_rename [of ?n "rt_pm w" "re_pm C" R] by (simp add: process_ok_def)
  then have "process_ok C R ?w" using ok unfolding process_ok_def on by (auto simp: connected_def names_on_def)
  then have "progress C R 0 w ?w" by (auto simp: progress_def ring_defs pm_room_def)
  with that eq show thesis by simp
qed

lemma process_ok_local:
  assumes "runtime_env_up C" "process_ok C R w"
  shows "nat (knode_get_num (re_pm C)) < length (pm_mbx_initialized (rt_pm w))" "nat (knode_get_num (re_pm C)) < length (pm_prt_initialized (rt_pm w))"
    "nat (knode_get_num (re_pm C)) < length (pm_inboxes (rt_pm w))" "nat (knode_get_num (re_pm C)) < length (pm_inportals (rt_pm w))"
proof -
  have "pm_env_up (re_pm C)" by (rule pm_kernel_upD [OF runtime_env_upD(1) [OF assms(1)]])
  then have "nat (knode_get_num (re_pm C)) < NANVIX_PNAME_MAX" unfolding pm_env_up_def name_env_up_def by (simp only: nat_less_iff)
  with assms(2) show "nat (knode_get_num (re_pm C)) < length (pm_mbx_initialized (rt_pm w))" "nat (knode_get_num (re_pm C)) < length (pm_prt_initialized (rt_pm w))"
    "nat (knode_get_num (re_pm C)) < length (pm_inboxes (rt_pm w))" "nat (knode_get_num (re_pm C)) < length (pm_inportals (rt_pm w))"
    by (simp_all add: process_ok_def pm_inv_def names_on_def)
qed

text \<open>Changing the standard connectors and their flags.\<close>

lemma process_ok_flags:
  assumes "process_ok C R w" "pm_mailboxes st = pm_mailboxes (rt_pm w)" "pm_portals st = pm_portals (rt_pm w)" "pm_names st = pm_names (rt_pm w)"
    "pm_named_inboxes st = pm_named_inboxes (rt_pm w)" "length (pm_inboxes st) = length (pm_inboxes (rt_pm w))"
    "length (pm_mbx_initialized st) = length (pm_mbx_initialized (rt_pm w))" "length (pm_inportals st) = length (pm_inportals (rt_pm w))"
    "length (pm_prt_initialized st) = length (pm_prt_initialized (rt_pm w))"
  shows "process_ok C R (w\<lparr>rt_pm := st\<rparr>)"
  using assms by (auto simp: process_ok_def connected_def pm_inv_def names_on_def)

lemma ring2_ok:
  assumes env: "runtime_env_up C" and ok: "process_ok C R w"
  obtains w' where "ring2_setup C w = Some w'" "progress C R 0 w w'" "nw_initialized (rt_names w') = nw_initialized (rt_names w)"
    "mailboxes_are_initialized (re_pm C) (rt_pm w') = Some True" "portals_are_initialized (re_pm C) (rt_pm w') = Some True"
proof -
  let ?l = "nat (knode_get_num (re_pm C))" and ?st = "rt_pm w"
  note l = process_ok_local [OF env ok]
  define st1 where "st1 = (if pm_mbx_initialized ?st ! ?l then ?st else ?st\<lparr>pm_inboxes := (pm_inboxes ?st)[?l := pe_stdinbox (re_pm C)],
    pm_mbx_initialized := (pm_mbx_initialized ?st)[?l := True]\<rparr>)"
  define st2 where "st2 = (if pm_prt_initialized st1 ! ?l then st1 else st1\<lparr>pm_inportals := (pm_inportals st1)[?l := pe_stdinportal (re_pm C)],
    pm_prt_initialized := (pm_prt_initialized st1)[?l := True]\<rparr>)"
  have m: "nanvix_mailbox_setup (re_pm C) ?st = Some (0, st1)" using l by (simp add: nanvix_mailbox_setup_def st1_def Let_def)
  have p: "nanvix_portal_setup (re_pm C) st1 = Some (0, st2)" using l by (simp add: nanvix_portal_setup_def st1_def st2_def Let_def)
  let ?w = "w\<lparr>rt_pm := st2\<rparr>"
  have eq: "ring2_setup C w = Some ?w" using m p by (simp add: ring2_setup_def)
  have "process_ok C R ?w" by (rule process_ok_flags [OF ok]) (simp_all add: st1_def st2_def)
  moreover have up: "mailboxes_are_initialized (re_pm C) st2 = Some True" "portals_are_initialized (re_pm C) st2 = Some True"
    using l by (auto simp: mailboxes_are_initialized_def portals_are_initialized_def st1_def st2_def)
  moreover have same: "pm_mailboxes st2 = pm_mailboxes ?st" "pm_portals st2 = pm_portals ?st" "pm_names st2 = pm_names ?st" by (simp_all add: st1_def st2_def)
  ultimately have "progress C R 0 w ?w" by (auto simp: progress_def ring_up_def pm_room_def)
  from that [OF eq this] show thesis using up same by simp
qed

lemma setup_conns_all:
  assumes "runtime_env_up C"
  shows "\<exists>cs'. setup_conns (re_rmem C) i cs = (0, cs') \<and> list_all rc_initialized cs' \<and> length cs' = length cs \<and> (list_all rc_initialized cs \<longrightarrow> cs' = cs)"
proof (induction cs arbitrary: i)
  case (Cons c cs)
  from Cons [of "Suc i"] obtain cs' where "setup_conns (re_rmem C) (Suc i) cs = (0, cs')" "list_all rc_initialized cs'" "length cs' = length cs"
    "list_all rc_initialized cs \<longrightarrow> cs' = cs" by blast
  with runtime_env_upD(7,8) [OF assms, of i] show ?case by (simp add: Let_def not_less)
qed simp

lemma vfs_set_up_ok:
  assumes laws: "resource_laws R" and env: "runtime_env_up C" and ok: "process_ok C R w" and n: "nw_initialized (rt_names w)"
    and l: "linked (re_pm C) (rt_pm w) VFS_SERVER_NAME (ve_port (re_vfs C))" and room: "0 < pm_room R (rt_pm w)"
  obtains w' where "vfs_set_up C R w = Some w'" "progress C R 1 w w'" "ch_initialized (vw_client (rt_vfs w'))" "nw_initialized (rt_names w')"
    "rt_vmem w' = rt_vmem w"
proof (cases "ch_initialized (vw_client (rt_vfs w))")
  case True
  let ?w = "w\<lparr>rt_vfs := (rt_vfs w)\<lparr>vw_pm := rt_pm w\<rparr>\<rparr>"
  have "vfs_set_up C R w = Some ?w" using True by (simp add: vfs_set_up_def nanvix_vfs_setup_def)
  moreover have "progress C R 1 w ?w" using ok by (auto simp: progress_def process_ok_def ring_up_def)
  ultimately show thesis using that [of ?w] True n by simp
next
  case False
  have on: "names_on (rt_pm w) = rt_pm w" by (rule names_on_same [OF n])
  have inv: "pm_inv (re_pm C) R (rt_pm w)" using ok unfolding process_ok_def on by simp
  obtain ch st where c: "channel_open (re_pm C) R (rt_pm w) (vw_client (rt_vfs w)) VFS_SERVER_NAME (ve_port (re_vfs C)) = Some (Inr 0, ch, st)"
    "connected (re_pm C) R st ch" "opened_more (re_pm C) R (rt_pm w) st" "\<forall>c. connected (re_pm C) R (rt_pm w) c \<longrightarrow> apart c ch"
    by (rule channel_open_more [OF laws pm_kernel_upD(1) [OF runtime_env_upD(1) [OF env]] inv l room])
  let ?ch = "ch\<lparr>ch_initialized := True\<rparr>"
  let ?w = "w\<lparr>rt_vfs := (rt_vfs w)\<lparr>vw_client := ?ch, vw_pm := st\<rparr>, rt_pm := st\<rparr>"
  have eq: "vfs_set_up C R w = Some ?w" using c(1) False by (simp add: vfs_set_up_def nanvix_vfs_setup_def)
  have n': "nw_initialized (pm_names st)" using c(2) by (simp add: connected_def pm_inv_def names_up_def)
  have on': "names_on st = st" by (rule names_on_same [OF n'])
  have "connected (re_pm C) R st ?ch" using c(2) by (simp add: connected_def)
  moreover have "apart ?ch c" if "connected (re_pm C) R (rt_pm w) c" for c using c(4) [rule_format, OF that] by (auto simp: apart_def)
  ultimately have "process_ok C R ?w" using ok c(3) by (simp add: process_ok_def on on' opened_more_def)
  then have "progress C R 1 w ?w" using c(3) n' by (auto simp: progress_def opened_more_def ring_defs)
  with that [OF eq] n' show thesis by simp
qed

lemma ring3_ok:
  fixes C :: "'w :: len word runtime_env"
  assumes laws: "resource_laws R" and env: "runtime_env_up C" and ok: "process_ok C R w" and n: "nw_initialized (rt_names w)"
    and l: "linked (re_pm C) (rt_pm w) VFS_SERVER_NAME (ve_port (re_vfs C))" and room: "0 < pm_room R (rt_pm w)"
  obtains w' where "ring3_setup C R w = Some w'" "progress C R 1 w w'" "nw_initialized (rt_names w')"
    "list_all rc_initialized (rs_server (rt_mem w'))" "ca_initialized (vm_cache (rt_vmem w'))" "ch_initialized (vw_client (rt_vfs w'))"
proof -
  obtain cs where cs: "setup_conns (re_rmem C) 0 (rs_server (rt_mem w)) = (0, cs)" "list_all rc_initialized cs" "length cs = length (rs_server (rt_mem w))"
    using setup_conns_all [OF env] by blast
  let ?m = "(rt_mem w)\<lparr>rs_server := cs, rs_stats := \<lparr>cs_nallocs = 0, cs_nfrees = 0, cs_nreads = 0, cs_nwrites = 0\<rparr>\<rparr>"
  let ?c = "nanvix_rcache_setup ((vm_cache (rt_vmem w))\<lparr>ca_mem := ?m\<rparr>)"
  let ?w = "w\<lparr>rt_vmem := (rt_vmem w)\<lparr>vm_cache := ?c\<rparr>\<rparr>"
  have m: "nanvix_rmem_setup (re_rmem C) (rt_mem w) = Some (0, ?m)" using cs(1) runtime_env_upD(9) [OF env] by (simp add: nanvix_rmem_setup_def)
  have c: "ca_mem ?c = ?m" "ca_initialized ?c"
    by (simp_all add: nanvix_rcache_setup_def Let_def nanvix_rcache_select_replacement_policy_def)
  have ok': "process_ok C R ?w" using ok by (simp add: process_ok_def)
  have pre: "progress C R 0 w ?w" using ok' cs(2,3) c by (auto simp: progress_def ring_up_def one_server_each_def)
  have n': "nw_initialized (rt_names ?w)" and l': "linked (re_pm C) (rt_pm ?w) VFS_SERVER_NAME (ve_port (re_vfs C))" and room': "0 < pm_room R (rt_pm ?w)"
    using n l room by simp_all
  obtain w' where v: "vfs_set_up C R ?w = Some w'" "progress C R 1 ?w w'" "ch_initialized (vw_client (rt_vfs w'))" "nw_initialized (rt_names w')" "rt_vmem w' = rt_vmem ?w"
    by (rule vfs_set_up_ok [OF laws env ok' n' l' room'])
  have "ring3_setup C R w = Some w'" using m v(1) by (simp add: ring3_setup_def set_rt_mem_def)
  moreover have "progress C R 1 w w'" using progress_trans [OF pre v(2)] by simp
  ultimately show thesis using that [of w'] v(3-5) cs(2) c by simp
qed

lemma ring4_ok:
  assumes laws: "resource_laws R" and env: "runtime_env_up C" and ok: "process_ok C R w" and n: "nw_initialized (rt_names w)"
    and l: "linked (re_pm C) (rt_pm w) SYSV_SERVER_NAME (se_port (re_sysv C))" and room: "0 < pm_room R (rt_pm w)"
  obtains w' where "ring4_setup C R w = Some w'" "progress C R 1 w w'" "ch_initialized (sw_client (rt_sysv w'))"
proof (cases "ch_initialized (sw_client (rt_sysv w))")
  case True
  let ?w = "w\<lparr>rt_sysv := (rt_sysv w)\<lparr>sw_pm := rt_pm w\<rparr>\<rparr>"
  have "ring4_setup C R w = Some ?w" using True by (simp add: ring4_setup_def nanvix_sysv_setup_def nanvix_sysv_is_initialized_def)
  moreover have "progress C R 1 w ?w" using ok by (auto simp: progress_def process_ok_def ring_up_def)
  ultimately show thesis using that [of ?w] True by simp
next
  case False
  have on: "names_on (rt_pm w) = rt_pm w" by (rule names_on_same [OF n])
  have inv: "pm_inv (re_pm C) R (rt_pm w)" using ok unfolding process_ok_def on by simp
  obtain ch st where c: "channel_open (re_pm C) R (rt_pm w) (sw_client (rt_sysv w)) SYSV_SERVER_NAME (se_port (re_sysv C)) = Some (Inr 0, ch, st)"
    "connected (re_pm C) R st ch" "opened_more (re_pm C) R (rt_pm w) st" "ch_initialized ch = ch_initialized (sw_client (rt_sysv w))"
    "\<forall>c. connected (re_pm C) R (rt_pm w) c \<longrightarrow> apart c ch"
    by (rule channel_open_more [OF laws pm_kernel_upD(1) [OF runtime_env_upD(1) [OF env]] inv l room])
  let ?ch = "ch\<lparr>ch_initialized := True\<rparr>"
  let ?w = "w\<lparr>rt_sysv := (rt_sysv w)\<lparr>sw_client := ?ch, sw_pm := st\<rparr>, rt_pm := st\<rparr>"
  have eq: "ring4_setup C R w = Some ?w" using c(1,4) False runtime_env_upD(2,10) [OF env]
    by (simp add: ring4_setup_def nanvix_sysv_setup_def nanvix_sysv_is_initialized_def nanvix_shm_setup_def Let_def)
  have n': "nw_initialized (pm_names st)" using c(2) by (simp add: connected_def pm_inv_def names_up_def)
  have on': "names_on st = st" by (rule names_on_same [OF n'])
  have "connected (re_pm C) R st ?ch" using c(2) by (simp add: connected_def)
  moreover have "apart c ?ch" if "connected (re_pm C) R (rt_pm w) c" for c using c(5) that by (simp add: apart_def)
  ultimately have "process_ok C R ?w" using ok c(3) by (simp add: process_ok_def on on' opened_more_def)
  then have "progress C R 1 w ?w" using c(3) n' by (auto simp: progress_def opened_more_def ring_defs)
  with that [OF eq] show thesis by simp
qed

lemma ring5_ok:
  assumes "runtime_env_up C" "process_ok C R w"
  obtains w' where "ring5_setup C w = Some w'" "progress C R 0 w w'" "rt_handler w'"
proof -
  have "ring5_setup C w = Some (w\<lparr>rt_handler := True\<rparr>)" using runtime_env_upD(11) [OF assms(1)] by (simp add: ring5_setup_def)
  moreover have "progress C R 0 w (w\<lparr>rt_handler := True\<rparr>)" using assms(2) by (auto simp: progress_def process_ok_def ring_defs)
  ultimately show thesis using that [of "w\<lparr>rt_handler := True\<rparr>"] by simp
qed

section \<open>The rings in order\<close>

lemma ring_up_mono: "ring_up C r w \<Longrightarrow> r' \<le> r \<Longrightarrow> ring_up C r' w"
  by (auto simp: ring_up_def)

lemma ring_up_0 [simp]: "ring_up C 0 w" "ring_up C (- 1) w"
  by (simp_all add: ring_up_def spawn_rings)

lemma ring_up_next:
  "nw_initialized (rt_names w) \<Longrightarrow> ring_up C SPAWN_RING_1 w"
  "ring_up C (SPAWN_RING_2 - 1) w \<Longrightarrow> mailboxes_are_initialized (re_pm C) (rt_pm w) = Some True \<Longrightarrow> portals_are_initialized (re_pm C) (rt_pm w) = Some True \<Longrightarrow>
    ring_up C SPAWN_RING_2 w"
  "ring_up C (SPAWN_RING_3 - 1) w \<Longrightarrow> list_all rc_initialized (rs_server (rt_mem w)) \<Longrightarrow> ca_initialized (vm_cache (rt_vmem w)) \<Longrightarrow>
    ch_initialized (vw_client (rt_vfs w)) \<Longrightarrow> ring_up C SPAWN_RING_3 w"
  "ring_up C (SPAWN_RING_4 - 1) w \<Longrightarrow> ch_initialized (sw_client (rt_sysv w)) \<Longrightarrow> ring_up C SPAWN_RING_4 w"
  "ring_up C (SPAWN_RING_5 - 1) w \<Longrightarrow> rt_handler w \<Longrightarrow> ring_up C SPAWN_RING_5 w"
  by (simp_all add: ring_up_def spawn_rings)

lemma enter_ringE:
  assumes w: "process_ok C R w" "ring_up C current w" "ring_up C (min (r - 1) ring) w"
    and f: "current < r \<Longrightarrow> r \<le> ring \<Longrightarrow> \<exists>w'. f w = Some w' \<and> progress C R n w w' \<and> (ring_up C (r - 1) w' \<longrightarrow> ring_up C r w')"
  obtains w' where "enter_ring current ring r f w = Some w'" "progress C R n w w'" "process_ok C R w'" "ring_up C current w'" "ring_up C (min r ring) w'"
proof (cases "current < r \<and> r \<le> ring")
  case True
  with f obtain w' where w': "f w = Some w'" "progress C R n w w'" "ring_up C (r - 1) w' \<longrightarrow> ring_up C r w'" by blast
  have "ring_up C (r - 1) w'" using True w(3) w'(2) by (simp add: progress_def)
  with True w' w(2) that [of w'] show thesis by (simp add: enter_ring_def progress_def)
next
  case False
  then have "min r ring \<le> current \<or> min r ring = min (r - 1) ring" by linarith
  then have "ring_up C (min r ring) w" using w(2,3) ring_up_mono by metis
  with False that [of w] w progress_refl [OF w(1)] show thesis by (auto simp: enter_ring_def)
qed

lemma runtime_setup_ok:
  fixes C :: "'w :: len word runtime_env"
  assumes laws: "resource_laws R" and env: "runtime_env_up C" and ok: "process_ok C R w" and tid: "tid < length (rt_current_ring w)"
    and cur: "rt_current_ring w ! tid = current" "ring_up C current w" "current \<le> ring" "0 \<le> ring" and sv: "services C R ring w"
  obtains w' where "runtime_setup C R tid ring w = Some (Inr 0, w'\<lparr>rt_current_ring := (rt_current_ring w)[tid := ring]\<rparr>)" "progress C R 2 w w'" "ring_up C ring w'"
proof -
  let ?enter = "enter_ring current ring"
  obtain w0 where w0: "?enter SPAWN_RING_0 (ring0_setup C) w = Some w0" "progress C R 0 w w0" "process_ok C R w0" "ring_up C current w0" "ring_up C (min SPAWN_RING_0 ring) w0"
  proof (rule enter_ringE [OF ok cur(2), where r = SPAWN_RING_0 and n = 0 and ring = ring])
    show "ring_up C (min (SPAWN_RING_0 - 1) ring) w" using cur(4) by (simp add: spawn_rings min_def)
    show "\<exists>w'. ring0_setup C w = Some w' \<and> progress C R 0 w w' \<and> (ring_up C (SPAWN_RING_0 - 1) w' \<longrightarrow> ring_up C SPAWN_RING_0 w')"
      using ring0_ok [OF env, of w] progress_refl [OF ok] by (auto simp: spawn_rings)
  qed blast
  have e1: "\<exists>w'. ring1_setup C w0 = Some w' \<and> progress C R 0 w0 w' \<and> (ring_up C (SPAWN_RING_1 - 1) w' \<longrightarrow> ring_up C SPAWN_RING_1 w')"
    by (rule ring1_ok [OF env w0(3)]) (use ring_up_next(1) in blast)
  have "ring_up C (min (SPAWN_RING_1 - 1) ring) w0" using w0(5) by (simp add: spawn_rings)
  then obtain w1 where w1: "?enter SPAWN_RING_1 (ring1_setup C) w0 = Some w1" "progress C R 0 w0 w1" "process_ok C R w1" "ring_up C current w1" "ring_up C (min SPAWN_RING_1 ring) w1"
    by (rule enter_ringE [where f = "ring1_setup C", OF w0(3,4) _ e1])
  obtain v where "ring2_setup C w1 = Some v" "progress C R 0 w1 v" "mailboxes_are_initialized (re_pm C) (rt_pm v) = Some True"
    "portals_are_initialized (re_pm C) (rt_pm v) = Some True" by (rule ring2_ok [OF env w1(3)])
  with ring_up_next(2) [of C v] have e2: "\<exists>w'. ring2_setup C w1 = Some w' \<and> progress C R 0 w1 w' \<and> (ring_up C (SPAWN_RING_2 - 1) w' \<longrightarrow> ring_up C SPAWN_RING_2 w')"
    by auto
  have "ring_up C (min (SPAWN_RING_2 - 1) ring) w1" using w1(5) by (simp add: spawn_rings)
  then obtain w2 where w2: "?enter SPAWN_RING_2 (ring2_setup C) w1 = Some w2" "progress C R 0 w1 w2" "process_ok C R w2" "ring_up C current w2" "ring_up C (min SPAWN_RING_2 ring) w2"
    by (rule enter_ringE [where f = "ring2_setup C", OF w1(3,4) _ e2])
  have p2: "progress C R 0 w w2" using progress_trans [OF progress_trans [OF w0(2) w1(2)] w2(2)] by simp
  have r2: "2 \<le> pm_room R (rt_pm w2)" using sv p2 by (simp add: progress_def services_def)
  have l2: "linked (re_pm C) (rt_pm w2) = linked (re_pm C) (rt_pm w)" by (rule linked_cong) (use p2 in \<open>simp add: progress_def\<close>)
  have "ring_up C (min (SPAWN_RING_3 - 1) ring) w2" using w2(5) by (simp add: spawn_rings)
  then obtain w3 where w3: "?enter SPAWN_RING_3 (ring3_setup C R) w2 = Some w3" "progress C R 1 w2 w3" "process_ok C R w3" "ring_up C current w3" "ring_up C (min SPAWN_RING_3 ring) w3"
  proof (rule enter_ringE [OF w2(3,4), where n = 1])
    assume r: "current < SPAWN_RING_3" "SPAWN_RING_3 \<le> ring"
    have n: "nw_initialized (rt_names w2)" using w2(5) r by (simp add: ring_up_def spawn_rings min_def)
    have l: "linked (re_pm C) (rt_pm w2) VFS_SERVER_NAME (ve_port (re_vfs C))" "0 < pm_room R (rt_pm w2)" using sv r l2 r2 by (simp_all add: services_def)
    obtain v where "ring3_setup C R w2 = Some v" "progress C R 1 w2 v" "list_all rc_initialized (rs_server (rt_mem v))" "ca_initialized (vm_cache (rt_vmem v))"
      "ch_initialized (vw_client (rt_vfs v))" by (rule ring3_ok [OF laws env w2(3) n l])
    with ring_up_next(3) [of C v]
    show "\<exists>w'. ring3_setup C R w2 = Some w' \<and> progress C R 1 w2 w' \<and> (ring_up C (SPAWN_RING_3 - 1) w' \<longrightarrow> ring_up C SPAWN_RING_3 w')" by auto
  qed blast
  have r3: "1 \<le> pm_room R (rt_pm w3)" using r2 w3(2) by (simp add: progress_def)
  have l3: "linked (re_pm C) (rt_pm w3) = linked (re_pm C) (rt_pm w)" by (rule linked_cong) (use p2 w3(2) in \<open>simp add: progress_def\<close>)
  have "ring_up C (min (SPAWN_RING_4 - 1) ring) w3" using w3(5) by (simp add: spawn_rings)
  then obtain w4 where w4: "?enter SPAWN_RING_4 (ring4_setup C R) w3 = Some w4" "progress C R 1 w3 w4" "process_ok C R w4" "ring_up C current w4" "ring_up C (min SPAWN_RING_4 ring) w4"
  proof (rule enter_ringE [OF w3(3,4), where n = 1])
    assume r: "current < SPAWN_RING_4" "SPAWN_RING_4 \<le> ring"
    have n: "nw_initialized (rt_names w3)" using w3(5) r by (simp add: ring_up_def spawn_rings min_def)
    have l: "linked (re_pm C) (rt_pm w3) SYSV_SERVER_NAME (se_port (re_sysv C))" "0 < pm_room R (rt_pm w3)" using sv r l3 r3 by (simp_all add: services_def)
    obtain v where "ring4_setup C R w3 = Some v" "progress C R 1 w3 v" "ch_initialized (sw_client (rt_sysv v))" by (rule ring4_ok [OF laws env w3(3) n l])
    with ring_up_next(4) [of C v]
    show "\<exists>w'. ring4_setup C R w3 = Some w' \<and> progress C R 1 w3 w' \<and> (ring_up C (SPAWN_RING_4 - 1) w' \<longrightarrow> ring_up C SPAWN_RING_4 w')" by auto
  qed blast
  have e5: "\<exists>w'. ring5_setup C w4 = Some w' \<and> progress C R 0 w4 w' \<and> (ring_up C (SPAWN_RING_5 - 1) w' \<longrightarrow> ring_up C SPAWN_RING_5 w')"
    by (rule ring5_ok [OF env w4(3)]) (use ring_up_next(5) in blast)
  have "ring_up C (min (SPAWN_RING_5 - 1) ring) w4" using w4(5) by (simp add: spawn_rings)
  then obtain w5 where w5: "?enter SPAWN_RING_5 (ring5_setup C) w4 = Some w5" "progress C R 0 w4 w5" "process_ok C R w5" "ring_up C (min SPAWN_RING_5 ring) w5"
    by (rule enter_ringE [where f = "ring5_setup C", OF w4(3,4) _ e5])
  have p: "progress C R 2 w w5" using progress_trans [OF progress_trans [OF progress_trans [OF p2 w3(2)] w4(2)] w5(2)] by (simp add: numeral_2_eq_2)
  have "ring_up C ring w5" using w5(4) by (auto simp: ring_up_def spawn_rings min_def split: if_splits)
  moreover have "rt_current_ring w5 = rt_current_ring w" using p by (simp add: progress_def)
  then have "runtime_setup C R tid ring w = Some (Inr 0, w5\<lparr>rt_current_ring := (rt_current_ring w)[tid := ring]\<rparr>)"
    using tid cur w0(1) w1(1) w2(1) w3(1) w4(1) w5(1) by (simp add: runtime_setup_def)
  ultimately show thesis using that p by blast
qed

section \<open>Each ring is left\<close>

definition closes_ok :: "'p runtime_env \<Rightarrow> bool" where
  "closes_ok C \<longleftrightarrow> (\<forall>fd. pe_mclose (re_pm C) fd = Inr 0 \<and> pe_pclose (re_pm C) fd = Inr 0) \<and> (\<forall>x. 0 \<le> ne_mclose (pe_name (re_pm C)) x) \<and>
     (\<forall>x. 0 \<le> env_mclose (re_rmem C) x \<and> 0 \<le> env_pclose (re_rmem C) x) \<and>
     re_stdsync_cleanup C = 0 \<and> re_stdmailbox_cleanup C = 0 \<and> re_stdportal_cleanup C = 0 \<and> re_thread_join C = 0"

lemma close_frame:
  "nanvix_mailbox_close C R st k = (r, st') \<Longrightarrow> pm_mbx_initialized st' = pm_mbx_initialized st \<and> pm_prt_initialized st' = pm_prt_initialized st"
  "nanvix_portal_close C R st k = (r, st') \<Longrightarrow> pm_mbx_initialized st' = pm_mbx_initialized st \<and> pm_prt_initialized st' = pm_prt_initialized st"
  by (auto simp: nanvix_mailbox_close_def nanvix_portal_close_def set_mailbox_def set_portal_def free_mailbox_def free_portal_def
      Let_def split: sum.splits if_splits)

lemma conn_at_other: "conn_at v k = Some x \<Longrightarrow> conn_at v i = Some y \<Longrightarrow> k \<noteq> i \<Longrightarrow> conn_at (v(nat i := None)) k = Some x"
  by (auto simp: conn_at_def split: if_splits)

lemma channel_close_ok:
  assumes laws: "resource_laws R" and cl: "closes_ok C" and con: "connected (re_pm C) R st ch"
  obtains st' where "channel_close (re_pm C) R st ch = (Inr 0, st')" "pm_inv (re_pm C) R st'" "pm_names st' = pm_names st"
    "\<forall>c. connected (re_pm C) R st c \<and> apart c ch \<longrightarrow> connected (re_pm C) R st' c"
    "pm_mbx_initialized st' = pm_mbx_initialized st \<and> pm_prt_initialized st' = pm_prt_initialized st"
proof -
  let ?C = "re_pm C"
  obtain fd1 fd2 where fd: "conn_at (mbx_view R st) (ch_outbox ch) = Some (Outward fd1)" "conn_at (prt_view R st) (ch_outportal ch) = Some (Outward fd2)"
    and inv: "pm_inv ?C R st" using con by (auto simp: connected_def)
  obtain r1 st1 where m: "nanvix_mailbox_close ?C R st (ch_outbox ch) = (r1, st1)" by fastforce
  note s1 = mailbox_close_spec [OF laws inv m]
  have r1: "r1 = Inr 0" "mbx_view R st1 = (mbx_view R st)(nat (ch_outbox ch) := None)" using s1 fd(1) cl by (simp_all add: closed_def closes_ok_def)
  obtain r2 st2 where q: "nanvix_portal_close ?C R st1 (ch_outportal ch) = (r2, st2)" by fastforce
  note s2 = portal_close_spec [OF laws conjunct1 [OF s1] q]
  have r2: "r2 = Inr 0" "prt_view R st2 = (prt_view R st)(nat (ch_outportal ch) := None)" using s1 s2 fd(2) cl by (simp_all add: closed_def closes_ok_def)
  have "connected ?C R st2 c" if "connected ?C R st c" "apart c ch" for c
    using that s1 s2 r1 r2 fd by (auto simp: connected_def apart_def intro: conn_at_other)
  moreover have "channel_close ?C R st ch = (Inr 0, st2)" using m q r1 r2 by (simp add: channel_close_def)
  ultimately show thesis using that [of st2] s1 s2 close_frame(1) [OF m] close_frame(2) [OF q] by simp
qed

lemma cleanup_conns_all:
  assumes "closes_ok C"
  shows "\<exists>cs'. cleanup_conns (re_rmem C) cs = (Inr 0, cs') \<and> list_all (\<lambda>c. \<not> rc_initialized c) cs'"
proof -
  have "\<not> env_mclose (re_rmem C) x < 0" "\<not> env_pclose (re_rmem C) x < 0" for x using assms by (simp_all add: closes_ok_def not_less)
  then show ?thesis by (induction cs) auto
qed

text \<open>What is down after a clean-up.\<close>

definition ring_down :: "'p runtime_env \<Rightarrow> int \<Rightarrow> ('r, 'p) runtime \<Rightarrow> bool" where
  "ring_down C ring w \<longleftrightarrow>
     (SPAWN_RING_1 \<le> ring \<longrightarrow> \<not> nw_initialized (rt_names w)) \<and>
     (SPAWN_RING_2 \<le> ring \<longrightarrow> mailboxes_are_initialized (re_pm C) (rt_pm w) = Some False \<and> portals_are_initialized (re_pm C) (rt_pm w) = Some False) \<and>
     (SPAWN_RING_3 \<le> ring \<longrightarrow> list_all (\<lambda>c. \<not> rc_initialized c) (rs_server (rt_mem w)) \<and> \<not> ch_initialized (vw_client (rt_vfs w))) \<and>
     (SPAWN_RING_4 \<le> ring \<longrightarrow> \<not> ch_initialized (sw_client (rt_sysv w))) \<and>
     (SPAWN_RING_5 \<le> ring \<longrightarrow> \<not> rt_handler w)"

text \<open>The set-ups of the handler change nothing once its creator has entered ring 2; a loop that meets no exception changes nothing either.\<close>

lemma exception_handler_idle:
  assumes "runtime_env_up C" "process_ok C R w" "ring_up C SPAWN_RING_2 w"
  shows "nanvix_exception_handler C w = exception_loop C w"
proof -
  have u: "nw_initialized (rt_names w)" "mailboxes_are_initialized (re_pm C) (rt_pm w) = Some True" "portals_are_initialized (re_pm C) (rt_pm w) = Some True"
    using assms(3) by (simp_all add: ring_up_def spawn_rings)
  have "ring1_setup C w = Some w" using u(1) by (simp add: ring1_setup_def nanvix_name_setup_def)
  moreover have "ring2_setup C w = Some w"
    using u(2,3) by (simp add: ring2_setup_def nanvix_mailbox_setup_def nanvix_portal_setup_def mailboxes_are_initialized_def portals_are_initialized_def Let_def)
  ultimately show ?thesis by (simp add: nanvix_exception_handler_def ring0_ok [OF assms(1)])
qed

lemma ring5_down:
  assumes "closes_ok C" "re_exceptions C = Some []"
  shows "ring5_cleanup C w = Some (w\<lparr>rt_handler := False\<rparr>)"
  using assms by (simp add: ring5_cleanup_def exception_loop_def closes_ok_def)

lemma ring4_down:
  assumes laws: "resource_laws R" and env: "runtime_env_up C" "closes_ok C" and ok: "process_ok C R w" and n: "nw_initialized (rt_names w)"
  obtains w' where "ring4_cleanup C R w = Some w'" "process_ok C R w'" "rt_names w' = rt_names w" "\<not> ch_initialized (sw_client (rt_sysv w'))"
    "pm_mbx_initialized (rt_pm w') = pm_mbx_initialized (rt_pm w) \<and> pm_prt_initialized (rt_pm w') = pm_prt_initialized (rt_pm w)"
    "rt_vmem w' = rt_vmem w \<and> rt_vfs w' = rt_vfs w \<and> rt_handler w' = rt_handler w \<and> rt_current_ring w' = rt_current_ring w"
proof (cases "ch_initialized (sw_client (rt_sysv w))")
  case False
  let ?w = "w\<lparr>rt_sysv := (rt_sysv w)\<lparr>sw_pm := rt_pm w\<rparr>\<rparr>"
  have "ring4_cleanup C R w = Some ?w" using False by (simp add: ring4_cleanup_def nanvix_sysv_cleanup_def nanvix_sysv_is_initialized_def)
  moreover have "process_ok C R ?w" using ok by (simp add: process_ok_def)
  ultimately show thesis using that [of ?w] False by simp
next
  case True
  have on: "names_on (rt_pm w) = rt_pm w" by (rule names_on_same [OF n])
  have con: "connected (re_pm C) R (rt_pm w) (sw_client (rt_sysv w))" using ok True by (simp add: process_ok_def on)
  obtain st where c: "channel_close (re_pm C) R (rt_pm w) (sw_client (rt_sysv w)) = (Inr 0, st)" "pm_inv (re_pm C) R st" "pm_names st = rt_names w"
    "\<forall>c. connected (re_pm C) R (rt_pm w) c \<and> apart c (sw_client (rt_sysv w)) \<longrightarrow> connected (re_pm C) R st c"
    "pm_mbx_initialized st = pm_mbx_initialized (rt_pm w) \<and> pm_prt_initialized st = pm_prt_initialized (rt_pm w)"
    by (rule channel_close_ok [OF laws env(2) con])
  let ?w = "w\<lparr>rt_sysv := (rt_sysv w)\<lparr>sw_client := (sw_client (rt_sysv w))\<lparr>ch_initialized := False\<rparr>, sw_pm := st\<rparr>, rt_pm := st\<rparr>"
  have eq: "ring4_cleanup C R w = Some ?w"
    using c(1) True runtime_env_upD(2) [OF env(1)] by (simp add: ring4_cleanup_def nanvix_sysv_cleanup_def nanvix_sysv_is_initialized_def)
  have on': "names_on st = st" by (rule names_on_same) (simp add: c(3) n)
  have "process_ok C R ?w" using ok True c(2,4) by (simp add: process_ok_def on on')
  with that [OF eq] c(3,5) show thesis by simp
qed

lemma ring3_down:
  assumes laws: "resource_laws R" and env: "runtime_env_up C" "closes_ok C" and ok: "process_ok C R w" and n: "nw_initialized (rt_names w)"
  obtains w' where "ring3_cleanup C R w = Some w'" "process_ok C R w'" "rt_names w' = rt_names w" "\<not> ch_initialized (vw_client (rt_vfs w'))"
    "list_all (\<lambda>c. \<not> rc_initialized c) (rs_server (rt_mem w'))"
    "pm_mbx_initialized (rt_pm w') = pm_mbx_initialized (rt_pm w) \<and> pm_prt_initialized (rt_pm w') = pm_prt_initialized (rt_pm w)"
    "rt_sysv w' = rt_sysv w \<and> rt_handler w' = rt_handler w \<and> rt_current_ring w' = rt_current_ring w"
proof -
  obtain cs where cs: "cleanup_conns (re_rmem C) (rs_server (rt_mem w)) = (Inr 0, cs)" "list_all (\<lambda>c. \<not> rc_initialized c) cs"
    using cleanup_conns_all [OF env(2)] by blast
  let ?m = "(rt_mem w)\<lparr>rs_server := cs\<rparr>"
  have m: "nanvix_rmem_cleanup (re_rmem C) (rt_mem w) = Some (Inr 0, ?m)" using cs(1) runtime_env_upD(9) [OF env(1)] by (simp add: nanvix_rmem_cleanup_def)
  show thesis
  proof (cases "ch_initialized (vw_client (rt_vfs w))")
    case False
    let ?w = "set_rt_mem ?m (w\<lparr>rt_vfs := (rt_vfs w)\<lparr>vw_pm := rt_pm w\<rparr>\<rparr>)"
    have "ring3_cleanup C R w = Some ?w" using False m by (simp add: ring3_cleanup_def nanvix_vfs_cleanup_def Let_def)
    moreover have "process_ok C R ?w" using ok by (simp add: process_ok_def set_rt_mem_def)
    ultimately show thesis using that [of ?w] False cs(2) by (simp add: set_rt_mem_def)
  next
    case True
    have on: "names_on (rt_pm w) = rt_pm w" by (rule names_on_same [OF n])
    have con: "connected (re_pm C) R (rt_pm w) (vw_client (rt_vfs w))" using ok True by (simp add: process_ok_def on)
    obtain st where c: "channel_close (re_pm C) R (rt_pm w) (vw_client (rt_vfs w)) = (Inr 0, st)" "pm_inv (re_pm C) R st" "pm_names st = rt_names w"
      "\<forall>c. connected (re_pm C) R (rt_pm w) c \<and> apart c (vw_client (rt_vfs w)) \<longrightarrow> connected (re_pm C) R st c"
      "pm_mbx_initialized st = pm_mbx_initialized (rt_pm w) \<and> pm_prt_initialized st = pm_prt_initialized (rt_pm w)"
      by (rule channel_close_ok [OF laws env(2) con])
    let ?v = "w\<lparr>rt_vfs := (rt_vfs w)\<lparr>vw_client := (vw_client (rt_vfs w))\<lparr>ch_initialized := False\<rparr>, vw_pm := st\<rparr>, rt_pm := st\<rparr>"
    let ?w = "set_rt_mem ?m ?v"
    have eq: "ring3_cleanup C R w = Some ?w" using c(1) True m by (simp add: ring3_cleanup_def nanvix_vfs_cleanup_def Let_def)
    have on': "names_on st = st" by (rule names_on_same) (simp add: c(3) n)
    have "apart c (vw_client (rt_vfs w))" if "apart (vw_client (rt_vfs w)) c" for c using that by (auto simp: apart_def)
    then have "process_ok C R ?w" using ok True c(2,4) by (simp add: process_ok_def on on' set_rt_mem_def)
    with that [OF eq] c(3,5) cs(2) show thesis by (simp add: set_rt_mem_def)
  qed
qed

lemma ring2_down:
  assumes env: "runtime_env_up C" and ok: "process_ok C R w"
    and up: "mailboxes_are_initialized (re_pm C) (rt_pm w) = Some True" "portals_are_initialized (re_pm C) (rt_pm w) = Some True"
  obtains st where "ring2_cleanup C w = Some (w\<lparr>rt_pm := st\<rparr>)" "process_ok C R (w\<lparr>rt_pm := st\<rparr>)" "pm_names st = rt_names w"
    "mailboxes_are_initialized (re_pm C) st = Some False" "portals_are_initialized (re_pm C) st = Some False"
proof -
  let ?l = "nat (knode_get_num (re_pm C))"
  let ?st = "(rt_pm w)\<lparr>pm_prt_initialized := (pm_prt_initialized (rt_pm w))[?l := False], pm_mbx_initialized := (pm_mbx_initialized (rt_pm w))[?l := False]\<rparr>"
  note l = process_ok_local [OF env ok]
  have "ring2_cleanup C w = Some (w\<lparr>rt_pm := ?st\<rparr>)"
    using up l by (simp add: ring2_cleanup_def nanvix_portal_cleanup_def nanvix_mailbox_cleanup_def mailboxes_are_initialized_def)
  moreover have "process_ok C R (w\<lparr>rt_pm := ?st\<rparr>)" by (rule process_ok_flags [OF ok]) simp_all
  ultimately show thesis using that [of ?st] l by (simp add: mailboxes_are_initialized_def portals_are_initialized_def)
qed

lemma ring1_down:
  assumes "closes_ok C" "process_ok C R w"
  obtains n where "ring1_cleanup C w = Some (w\<lparr>rt_pm := (rt_pm w)\<lparr>pm_names := n\<rparr>\<rparr>)" "process_ok C R (w\<lparr>rt_pm := (rt_pm w)\<lparr>pm_names := n\<rparr>\<rparr>)"
    "\<not> nw_initialized n" "bindings n = bindings (rt_names w)"
proof -
  let ?n = "(rt_names w)\<lparr>nw_initialized := False\<rparr>"
  have "\<not> ne_mclose (pe_name (re_pm C)) x < 0" for x using assms(1) by (simp add: closes_ok_def not_less)
  then have "ring1_cleanup C w = Some (w\<lparr>rt_pm := (rt_pm w)\<lparr>pm_names := ?n\<rparr>\<rparr>)" by (simp add: ring1_cleanup_def nanvix_name_cleanup_def)
  moreover have "process_ok C R (w\<lparr>rt_pm := (rt_pm w)\<lparr>pm_names := ?n\<rparr>\<rparr>)" using assms(2) by (simp add: process_ok_def names_on_def)
  ultimately show thesis using that [of ?n] by simp
qed

lemma runtime_cleanup_ok:
  assumes laws: "resource_laws R" and env: "runtime_env_up C" "closes_ok C" and ok: "process_ok C R w"
    and tid: "tid < length (rt_current_ring w)" "rt_current_ring w ! tid = current" and up: "ring_up C current w"
    and h: "current < SPAWN_RING_5 \<or> re_exceptions C = Some []"
  obtains w' where "runtime_cleanup C R tid w = Some (Inr 0, w'\<lparr>rt_current_ring := (rt_current_ring w)[tid := - 1]\<rparr>)" "process_ok C R w'" "ring_down C current w'"
    "bindings (rt_names w') = bindings (rt_names w)"
proof -
  define w5 where "w5 = (if SPAWN_RING_5 \<le> current then w\<lparr>rt_handler := False\<rparr> else w)"
  have w5: "leave_ring current SPAWN_RING_5 (ring5_cleanup C) w = Some w5" "process_ok C R w5" "rt_pm w5 = rt_pm w" "rt_current_ring w5 = rt_current_ring w"
    "SPAWN_RING_5 \<le> current \<longrightarrow> \<not> rt_handler w5"
    using ring5_down [OF env(2)] h ok by (auto simp: w5_def leave_ring_def process_ok_def)
  have n: "nw_initialized (rt_names w)" if "SPAWN_RING_1 \<le> current" using up that by (simp add: ring_up_def)
  have n5: "nw_initialized (rt_names w5)" if "SPAWN_RING_1 \<le> current" using n [OF that] w5(3) by simp
  have "\<exists>w4. leave_ring current SPAWN_RING_4 (ring4_cleanup C R) w5 = Some w4 \<and> process_ok C R w4 \<and> rt_names w4 = rt_names w5 \<and>
    pm_mbx_initialized (rt_pm w4) = pm_mbx_initialized (rt_pm w5) \<and> pm_prt_initialized (rt_pm w4) = pm_prt_initialized (rt_pm w5) \<and>
    rt_handler w4 = rt_handler w5 \<and> rt_current_ring w4 = rt_current_ring w5 \<and> (SPAWN_RING_4 \<le> current \<longrightarrow> \<not> ch_initialized (sw_client (rt_sysv w4)))"
  proof (cases "SPAWN_RING_4 \<le> current")
    case True
    then have n5': "nw_initialized (rt_names w5)" using n5 by (simp add: spawn_rings)
    show ?thesis by (rule ring4_down [OF laws env w5(2) n5']) (use True in \<open>simp add: leave_ring_def\<close>)
  qed (use w5(2) in \<open>simp add: leave_ring_def\<close>)
  then obtain w4 where w4: "leave_ring current SPAWN_RING_4 (ring4_cleanup C R) w5 = Some w4" "process_ok C R w4" "rt_names w4 = rt_names w5"
    "pm_mbx_initialized (rt_pm w4) = pm_mbx_initialized (rt_pm w5)" "pm_prt_initialized (rt_pm w4) = pm_prt_initialized (rt_pm w5)"
    "rt_handler w4 = rt_handler w5" "rt_current_ring w4 = rt_current_ring w5" "SPAWN_RING_4 \<le> current \<longrightarrow> \<not> ch_initialized (sw_client (rt_sysv w4))" by blast
  have "\<exists>w3. leave_ring current SPAWN_RING_3 (ring3_cleanup C R) w4 = Some w3 \<and> process_ok C R w3 \<and> rt_names w3 = rt_names w4 \<and>
    pm_mbx_initialized (rt_pm w3) = pm_mbx_initialized (rt_pm w4) \<and> pm_prt_initialized (rt_pm w3) = pm_prt_initialized (rt_pm w4) \<and>
    rt_handler w3 = rt_handler w4 \<and> rt_current_ring w3 = rt_current_ring w4 \<and> rt_sysv w3 = rt_sysv w4 \<and>
    (SPAWN_RING_3 \<le> current \<longrightarrow> \<not> ch_initialized (vw_client (rt_vfs w3)) \<and> list_all (\<lambda>c. \<not> rc_initialized c) (rs_server (rt_mem w3)))"
  proof (cases "SPAWN_RING_3 \<le> current")
    case True
    then have n4: "nw_initialized (rt_names w4)" using n5 w4(3) by (simp add: spawn_rings)
    show ?thesis by (rule ring3_down [OF laws env w4(2) n4]) (use True in \<open>simp add: leave_ring_def\<close>)
  qed (use w4(2) in \<open>simp add: leave_ring_def\<close>)
  then obtain w3 where w3: "leave_ring current SPAWN_RING_3 (ring3_cleanup C R) w4 = Some w3" "process_ok C R w3" "rt_names w3 = rt_names w4"
    "pm_mbx_initialized (rt_pm w3) = pm_mbx_initialized (rt_pm w4)" "pm_prt_initialized (rt_pm w3) = pm_prt_initialized (rt_pm w4)"
    "rt_handler w3 = rt_handler w4" "rt_current_ring w3 = rt_current_ring w4" "rt_sysv w3 = rt_sysv w4"
    "SPAWN_RING_3 \<le> current \<longrightarrow> \<not> ch_initialized (vw_client (rt_vfs w3)) \<and> list_all (\<lambda>c. \<not> rc_initialized c) (rs_server (rt_mem w3))" by blast
  have "\<exists>st. leave_ring current SPAWN_RING_2 (ring2_cleanup C) w3 = Some (w3\<lparr>rt_pm := st\<rparr>) \<and> process_ok C R (w3\<lparr>rt_pm := st\<rparr>) \<and> pm_names st = rt_names w3 \<and>
    (SPAWN_RING_2 \<le> current \<longrightarrow> mailboxes_are_initialized (re_pm C) st = Some False \<and> portals_are_initialized (re_pm C) st = Some False)"
  proof (cases "SPAWN_RING_2 \<le> current")
    case True
    have "mailboxes_are_initialized (re_pm C) (rt_pm w3) = Some True" "portals_are_initialized (re_pm C) (rt_pm w3) = Some True"
      using up True w3(4,5) w4(4,5) w5(3) by (simp_all add: ring_defs)
    then show ?thesis by (rule ring2_down [OF env(1) w3(2)]) (use True in \<open>auto simp: leave_ring_def\<close>)
  qed (use w3(2) in \<open>auto simp: leave_ring_def intro!: exI [of _ "rt_pm w3"]\<close>)
  then obtain st where w2: "leave_ring current SPAWN_RING_2 (ring2_cleanup C) w3 = Some (w3\<lparr>rt_pm := st\<rparr>)" "process_ok C R (w3\<lparr>rt_pm := st\<rparr>)" "pm_names st = rt_names w3"
    "SPAWN_RING_2 \<le> current \<longrightarrow> mailboxes_are_initialized (re_pm C) st = Some False \<and> portals_are_initialized (re_pm C) st = Some False" by blast
  let ?w2 = "w3\<lparr>rt_pm := st\<rparr>"
  have "\<exists>n. leave_ring current SPAWN_RING_1 (ring1_cleanup C) ?w2 = Some (?w2\<lparr>rt_pm := st\<lparr>pm_names := n\<rparr>\<rparr>) \<and> process_ok C R (?w2\<lparr>rt_pm := st\<lparr>pm_names := n\<rparr>\<rparr>) \<and>
    bindings n = bindings (pm_names st) \<and> (SPAWN_RING_1 \<le> current \<longrightarrow> \<not> nw_initialized n)"
  proof (cases "SPAWN_RING_1 \<le> current")
    case True
    show ?thesis by (rule ring1_down [OF env(2) w2(2)]) (use True in \<open>auto simp: leave_ring_def\<close>)
  qed (use w2(2) in \<open>auto simp: leave_ring_def intro!: exI [of _ "pm_names st"]\<close>)
  then obtain n where w1: "leave_ring current SPAWN_RING_1 (ring1_cleanup C) ?w2 = Some (?w2\<lparr>rt_pm := st\<lparr>pm_names := n\<rparr>\<rparr>)"
    "process_ok C R (?w2\<lparr>rt_pm := st\<lparr>pm_names := n\<rparr>\<rparr>)" "bindings n = bindings (pm_names st)" "SPAWN_RING_1 \<le> current \<longrightarrow> \<not> nw_initialized n" by blast
  let ?w = "?w2\<lparr>rt_pm := st\<lparr>pm_names := n\<rparr>\<rparr>"
  have r: "rt_current_ring ?w = rt_current_ring w" using w5(4) w4(7) w3(7) by simp
  have "runtime_cleanup C R tid w = Some (Inr 0, ?w\<lparr>rt_current_ring := (rt_current_ring w)[tid := - 1]\<rparr>)"
    using tid w5(1) w4(1) w3(1) w2(1) w1(1) r env(2) by (simp add: runtime_cleanup_def ring0_cleanup_def closes_ok_def)
  moreover have "ring_down C current ?w"
    using w5(5) w4(6,8) w3(6,8,9) w2(4) w1(4) by (auto simp: ring_down_def mailboxes_are_initialized_def portals_are_initialized_def)
  moreover have "bindings (rt_names ?w) = bindings (rt_names w)" using w5(3) w4(3) w3(3) w2(3) w1(3) by simp
  ultimately show thesis using that w1(2) by blast
qed

section \<open>Stopping the servers\<close>

lemma name_exit_stops:
  assumes "name_env_up C" "nw_initialized w"
  obtains w' where "nanvix_name_shutdown C w = (Inr 0, w')" "\<not> nw_alive w'"
proof (cases "nw_alive w")
  case False
  with that [of w] assms show thesis by (simp add: nanvix_name_shutdown_def name_post_def name_env_upD(3))
next
  case True
  have "name_handle (ne_valid C) (nw_names w) (name_request C NAME_EXIT) = Some (nw_names w, None, True)" by (simp add: name_handle_def)
  then have "name_server_step (ne_valid C) (ne_mailbox C) (nw_names w) (name_request C NAME_EXIT) = Some (nw_names w, [], True)"
    by (simp add: name_server_step_def)
  with that [of "w\<lparr>nw_names := nw_names w, nw_alive := False\<rparr>"] True assms show thesis
    by (simp add: nanvix_name_shutdown_def name_post_def name_env_upD(3))
qed

text \<open>The exit requests: each server handles its own and leaves its loop, in whatever state it is.\<close>

lemma sysv_exit_stops:
  assumes "nanvix_sysv_is_initialized w" "\<And>m. channel_send (se_pm C) R (sw_pm w) (sw_client w) m = Some ()" "w' = w\<lparr>sw_alive := False\<rparr>"
  shows "nanvix_sysv_shutdown C R w = Some (Inr 0, w')"
  using assms by (cases "sw_alive w") (simp_all add: nanvix_sysv_shutdown_def sysv_step_def sysv_handle_def sysv_replies_def)

lemma vfs_exit_stops:
  assumes "ch_initialized (vw_client w)" "\<And>m. channel_send (ve_pm C) R (vw_pm w) (vw_client w) m = Some ()" "w' = w\<lparr>vw_alive := False\<rparr>"
  shows "nanvix_vfs_shutdown C R nconn w = Some (Inr 0, w')"
  using assms by (cases "vw_alive w") (simp_all add: nanvix_vfs_shutdown_def vfs_step_def vfs_handle_def)

lemma runtime_shutdown_ok:
  fixes C :: "'w :: len word runtime_env"
  assumes laws: "resource_laws R" and env: "runtime_env_up C" "\<forall>fd. env_mwrite_ok (re_rmem C) fd" and ok: "process_ok C R w"
    and tid: "tid < length (rt_current_ring w)" and cur: "rt_current_ring w ! tid = current" "ring_up C current w" "current \<le> SPAWN_RING_LAST"
    and sv: "services C R SPAWN_RING_LAST w" "one_server_each (rt_mem w)"
  obtains w' where "nanvix_shutdown C R tid True w = Some (Inr 0, w')" "\<not> nw_alive (rt_names w')" "\<not> vw_alive (rt_vfs w')" "\<not> sw_alive (rt_sysv w')"
    "list_all Not (rs_alive (rt_mem w'))"
proof -
  have last: "0 \<le> SPAWN_RING_LAST" by (simp add: spawn_rings)
  obtain v where s: "runtime_setup C R tid SPAWN_RING_LAST w = Some (Inr 0, v\<lparr>rt_current_ring := (rt_current_ring w)[tid := SPAWN_RING_LAST]\<rparr>)"
    "progress C R 2 w v" "ring_up C SPAWN_RING_LAST v"
    by (rule runtime_setup_ok [OF laws env(1) ok tid cur last sv(1)])
  let ?w1 = "v\<lparr>rt_current_ring := (rt_current_ring w)[tid := SPAWN_RING_LAST]\<rparr>"
  have up: "nw_initialized (rt_names v)" "ch_initialized (vw_client (rt_vfs v))" "ch_initialized (sw_client (rt_sysv v))"
    using s(3) by (simp_all add: ring_up_def spawn_rings)
  have on: "names_on (rt_pm v) = rt_pm v" by (rule names_on_same [OF up(1)])
  have con: "connected (re_pm C) R (rt_pm v) (vw_client (rt_vfs v))" "connected (re_pm C) R (rt_pm v) (sw_client (rt_sysv v))"
    using s(2) up by (simp_all add: progress_def process_ok_def on)
  note k = runtime_env_upD(1,2) [OF env(1)]
  have c1: "channel_send (re_pm C) R (rt_pm v) (sw_client (rt_sysv v)) m = Some ()" for m by (rule channel_send_ok [OF laws k(1) con(2)])
  have c2: "channel_send (re_pm C) R (rt_pm v) (vw_client (rt_vfs v)) m = Some ()" for m by (rule channel_send_ok [OF laws k(1) con(1)])
  let ?s = "(rt_sysv v)\<lparr>sw_pm := rt_pm v, sw_alive := False\<rparr>" and ?v = "(rt_vfs v)\<lparr>vw_pm := rt_pm v, vw_alive := False\<rparr>"
  let ?m = "(rt_mem v)\<lparr>rs_alive := replicate (length (rs_server (rt_mem v))) False\<rparr>"
  have x1: "nanvix_sysv_shutdown (re_sysv C) R ((rt_sysv v)\<lparr>sw_pm := rt_pm v\<rparr>) = Some (Inr 0, ?s)"
    by (rule sysv_exit_stops) (use up(3) c1 k(2) in \<open>simp_all add: nanvix_sysv_is_initialized_def\<close>)
  have x2: "nanvix_vfs_shutdown (re_vfs C) R (re_nconn C) ((rt_vfs v)\<lparr>vw_pm := rt_pm v\<rparr>) = Some (Inr 0, ?v)"
    by (rule vfs_exit_stops) (use up(2) c2 in simp_all)
  have "one_server_each (rt_mem v)" using s(2) sv(2) by (simp add: progress_def)
  then have x3: "nanvix_rmem_shutdown (re_rmem C) (rt_mem v) = Some (0, ?m)"
    using env(2) by (intro rmem_shutdown_stops) (simp_all add: one_server_each_def)
  have "name_env_up (pe_name (re_pm C))" using pm_kernel_upD(1) [OF k(1)] by (simp add: pm_env_up_def)
  then obtain n where x4: "nanvix_name_shutdown (pe_name (re_pm C)) (rt_names v) = (Inr 0, n)" "\<not> nw_alive n" by (rule name_exit_stops [OF _ up(1)])
  let ?w = "(set_rt_mem ?m (?w1\<lparr>rt_sysv := ?s, rt_pm := rt_pm v, rt_vfs := ?v, rt_pm := rt_pm v\<rparr>))\<lparr>rt_pm := (rt_pm v)\<lparr>pm_names := n\<rparr>\<rparr>"
  have "nanvix_shutdown C R tid True w = Some (Inr 0, ?w)"
    using s(1) x1 x2 x3 x4(1) by (simp add: nanvix_shutdown_def set_rt_mem_def)
  from that [OF this] x4(2) show thesis by (simp add: set_rt_mem_def list_all_iff)
qed

section \<open>A process at its start\<close>

definition runtime_env_ideal :: "64 word runtime_env" where
  "runtime_env_ideal = \<lparr>re_vfs = vfs_env_ideal, re_sysv = sysv_env_ideal, re_rmem = rmem_env_ideal, re_vm = vm_env_ideal,
     re_stdsync_setup = 0, re_stdmailbox_setup = 0, re_stdportal_setup = 0, re_stdsync_cleanup = 0, re_stdmailbox_cleanup = 0, re_stdportal_cleanup = 0,
     re_thread_create = 0, re_thread_join = 0, re_excp_resume = 0, re_exceptions = Some [], re_nconn = 8\<rparr>"

definition name_world_services :: name_world where
  "name_world_services = snd (the (nanvix_name_link name_env_ideal (name_world_linked VFS_SERVER_NAME) 7 (Some SYSV_SERVER_NAME)))"

definition runtime_fresh :: "(flags, 64 word) runtime" where
  "runtime_fresh = \<lparr>rt_current_ring = replicate 5 (- 1), rt_handler = False,
     rt_pm = pm_static plain_resource 8 8 (name_world_services\<lparr>nw_initialized := False\<rparr>),
     rt_vmem = vmem_static (rcache_static rmem_two), rt_vfs = world_boot vfs_server_opened, rt_sysv = sysv_world_boot\<rparr>"

lemma name_world_room:
  "nr_registration (nw_names (name_world_linked ''/vfs'')) < int NANVIX_PNAME_MAX \<and> 2 < length (procs (nw_names (name_world_linked ''/vfs''))) \<and>
    nodenum (procs (nw_names (name_world_linked ''/vfs'')) ! 2) < 0"
  by code_simp

lemma name_world_services_ok:
  "names_up (pe_name pm_env_client) name_world_services" "bindings name_world_services VFS_SERVER_NAME = Some (7, 4, 1)"
  "bindings name_world_services SYSV_SERVER_NAME = Some (7, 4, 1)"
proof -
  let ?w = "name_world_linked VFS_SERVER_NAME"
  have n: "name_ok VFS_SERVER_NAME" "VFS_SERVER_NAME \<noteq> ''/io0''" "name_ok SYSV_SERVER_NAME" "VFS_SERVER_NAME \<noteq> SYSV_SERVER_NAME" "SYSV_SERVER_NAME \<noteq> ''/io0''"
    by (simp_all add: VFS_SERVER_NAME_def SYSV_SERVER_NAME_def name_ok_def NANVIX_PROC_NAME_MAX_def)
  have e: "ne_valid name_env_ideal 7" "ne_node name_env_ideal = 7" "ne_inbox_port name_env_ideal = 4" "ne_valid (pe_name pm_env_client) = ne_valid name_env_ideal"
    by (simp_all add: name_env_ideal_def pm_env_client_def any_node_def)
  obtain w1 where w1: "nanvix_name_link name_env_ideal name_world_booted 7 (Some VFS_SERVER_NAME) = Some (Inr 0, w1)" "names_up name_env_ideal w1"
    "bindings w1 = (bindings name_world_booted)(VFS_SERVER_NAME \<mapsto> (7, 4, (case bindings name_world_booted VFS_SERVER_NAME of Some (_, _, c) \<Rightarrow> c + 1 | None \<Rightarrow> 1)))"
    by (rule name_link_names [OF name_env_ideal_up name_world_booted_up(1), of 7 VFS_SERVER_NAME])
      (use e name_world_booted_may_link [OF n(1,2)] in simp)
  have eq: "?w = w1" using w1(1) by (simp add: name_world_linked_def)
  have none: "bindings ?w SYSV_SERVER_NAME = None" using w1(3) n(4,5) by (simp add: eq name_world_booted_up(2) name_booted_abs)
  have "may_link name_env_ideal ?w SYSV_SERVER_NAME"
    using name_world_room n(3) none unfolding may_link_def VFS_SERVER_NAME_def [symmetric] by (simp add: exI [of _ 2])
  then obtain w2 where w2: "nanvix_name_link name_env_ideal ?w 7 (Some SYSV_SERVER_NAME) = Some (Inr 0, w2)" "names_up name_env_ideal w2"
    "bindings w2 = (bindings ?w)(SYSV_SERVER_NAME \<mapsto> (7, 4, (case bindings ?w SYSV_SERVER_NAME of Some (_, _, c) \<Rightarrow> c + 1 | None \<Rightarrow> 1)))"
    by - (rule name_link_names [OF name_env_ideal_up w1(2) [folded eq], of 7 SYSV_SERVER_NAME], use e in simp)
  have eq2: "name_world_services = w2" using w2(1) by (simp add: name_world_services_def)
  show "names_up (pe_name pm_env_client) name_world_services" using w2(2) e(4) by (simp add: eq2 names_up_def)
  show "bindings name_world_services SYSV_SERVER_NAME = Some (7, 4, 1)" using w2(3) none by (simp add: eq2)
  show "bindings name_world_services VFS_SERVER_NAME = Some (7, 4, 1)"
    using w2(3) n(4) name_world_linked_ok(2) [OF n(1,2)] by (simp add: eq2)
qed

lemma runtime_env_ideal_up: "runtime_env_up runtime_env_ideal" "closes_ok runtime_env_ideal" "\<forall>fd. env_mwrite_ok (re_rmem runtime_env_ideal) fd"
  "re_pm runtime_env_ideal = pm_env_client"
proof -
  have e: "ve_pm vfs_env_ideal = pm_env_client" "se_pm sysv_env_ideal = pm_env_client" "se_thread_ok sysv_env_ideal" by (simp_all add: vfs_env_ideal_def sysv_env_ideal_def)
  show "runtime_env_up runtime_env_ideal" using pm_env_client_up e
    by (simp add: runtime_env_up_def runtime_env_ideal_def) (simp add: pm_env_client_def name_env_ideal_def rmem_env_ideal_def)
  show "closes_ok runtime_env_ideal"
    using e by (simp add: closes_ok_def runtime_env_ideal_def) (simp add: pm_env_client_def pm_env_ideal_def name_env_ideal_def rmem_env_ideal_def)
  show "\<forall>fd. env_mwrite_ok (re_rmem runtime_env_ideal) fd" by (simp add: runtime_env_ideal_def rmem_env_ideal_def)
  show "re_pm runtime_env_ideal = pm_env_client" using e by (simp add: runtime_env_ideal_def)
qed

lemma runtime_fresh_ok: "process_ok runtime_env_ideal plain_resource runtime_fresh" "services runtime_env_ideal plain_resource 5 runtime_fresh"
  "length (rt_current_ring runtime_fresh) = 5" "rt_current_ring runtime_fresh ! 1 = - 1"
proof -
  let ?st = "pm_static plain_resource 8 8 name_world_services"
  have i: "nw_initialized name_world_services" using name_world_services_ok(1) by (simp add: names_up_def)
  then have r: "name_world_services\<lparr>nw_initialized := True\<rparr> = name_world_services" by simp
  have on: "names_on (rt_pm runtime_fresh) = ?st" using r by (simp add: names_on_def runtime_fresh_def pm_static_def Let_def)
  have "pm_inv pm_env_client plain_resource ?st" by (rule pm_static_inv [OF plain_resource_laws name_world_services_ok(1)])
  then show "process_ok runtime_env_ideal plain_resource runtime_fresh"
    unfolding process_ok_def on runtime_env_ideal_up(4) by (simp add: runtime_fresh_def world_boot_def sysv_world_boot_def)
  have "free_entries plain_resource (replicate 8 \<lparr>nb_resource = plain_clear, nb_fd = 0, nb_owner = 0, nb_name = []\<rparr>) = {..<8}"
    by (auto simp: free_entries_def conn_view_def conn_entry_def plain_clear_def)
  then have "pm_room plain_resource (rt_pm runtime_fresh) = 8" by (simp add: pm_room_def runtime_fresh_def pm_static_def Let_def)
  moreover have "linked pm_env_client (rt_pm runtime_fresh) VFS_SERVER_NAME 3" "linked pm_env_client (rt_pm runtime_fresh) SYSV_SERVER_NAME 4"
    using name_world_services_ok(2,3) by (simp_all add: linked_def runtime_fresh_def pm_static_def Let_def) (simp_all add: pm_env_client_def pm_env_ideal_def)
  moreover have "ve_port (re_vfs runtime_env_ideal) = 3" "se_port (re_sysv runtime_env_ideal) = 4" by (simp_all add: runtime_env_ideal_def vfs_env_ideal_def sysv_env_ideal_def)
  ultimately show "services runtime_env_ideal plain_resource 5 runtime_fresh" by (simp add: services_def runtime_env_ideal_up(4))
qed (simp_all add: runtime_fresh_def)

section \<open>Rings of threads that share the clients\<close>

lemma channel_close_frame:
  "channel_close C R st ch = (r, st') \<Longrightarrow> pm_mbx_initialized st' = pm_mbx_initialized st \<and> pm_prt_initialized st' = pm_prt_initialized st"
  by (auto simp: channel_close_def split: prod.split_asm if_split_asm dest!: close_frame)

text \<open>Leaving a ring changes the ring of no thread, and only ring 2 has the flags of the standard connectors.\<close>

lemma ring_cleanup_frame:
  "ring5_cleanup C w = Some w' \<Longrightarrow> rt_current_ring w' = rt_current_ring w \<and> pm_prt_initialized (rt_pm w') = pm_prt_initialized (rt_pm w)"
  "ring4_cleanup C R w = Some w' \<Longrightarrow> rt_current_ring w' = rt_current_ring w \<and> pm_prt_initialized (rt_pm w') = pm_prt_initialized (rt_pm w)"
  "ring3_cleanup C R w = Some w' \<Longrightarrow> rt_current_ring w' = rt_current_ring w \<and> pm_prt_initialized (rt_pm w') = pm_prt_initialized (rt_pm w)"
  "ring2_cleanup C w = Some w' \<Longrightarrow> rt_current_ring w' = rt_current_ring w \<and> portals_are_initialized (re_pm C) (rt_pm w') = Some False"
  "ring1_cleanup C w = Some w' \<Longrightarrow> rt_current_ring w' = rt_current_ring w \<and> pm_prt_initialized (rt_pm w') = pm_prt_initialized (rt_pm w) \<and> \<not> nw_initialized (rt_names w')"
      apply (auto simp: ring5_cleanup_def exception_loop_def bind_eq_Some_conv)[1]
     apply (auto simp: ring4_cleanup_def nanvix_sysv_cleanup_def bind_eq_Some_conv Let_def split: if_split_asm prod.split_asm dest!: channel_close_frame)[1]
    apply (auto simp: ring3_cleanup_def nanvix_vfs_cleanup_def nanvix_rmem_cleanup_def set_rt_mem_def bind_eq_Some_conv Let_def
      split: if_split_asm prod.split_asm dest!: channel_close_frame)[1]
   apply (auto simp: ring2_cleanup_def nanvix_portal_cleanup_def nanvix_mailbox_cleanup_def portals_are_initialized_def mailboxes_are_initialized_def
      arr_get_def arr_set_def bind_eq_Some_conv split: if_split_asm)[1]
  apply (auto simp: ring1_cleanup_def nanvix_name_cleanup_def bind_eq_Some_conv split: if_split_asm)[1]
  done

lemma leave_ringE:
  assumes "leave_ring current r f w = Some w'" "r \<le> current"
  shows "f w = Some w'"
  using assms by (simp add: leave_ring_def)

lemma cleanup_leaves_down:
  assumes "runtime_cleanup C R tid w = Some (r, w')" "SPAWN_RING_2 \<le> rt_current_ring w ! tid"
  shows "portals_are_initialized (re_pm C) (rt_pm w') = Some False" "\<not> nw_initialized (rt_names w')" "rt_current_ring w' = (rt_current_ring w)[tid := - 1]"
proof -
  let ?c = "rt_current_ring w ! tid"
  from assms(1) obtain w5 w4 w3 w2 w1 where s: "leave_ring ?c SPAWN_RING_5 (ring5_cleanup C) w = Some w5" "leave_ring ?c SPAWN_RING_4 (ring4_cleanup C R) w5 = Some w4"
    "leave_ring ?c SPAWN_RING_3 (ring3_cleanup C R) w4 = Some w3" "leave_ring ?c SPAWN_RING_2 (ring2_cleanup C) w3 = Some w2"
    "leave_ring ?c SPAWN_RING_1 (ring1_cleanup C) w2 = Some w1" "w' = w1\<lparr>rt_current_ring := (rt_current_ring w1)[tid := - 1]\<rparr>"
    by (auto simp: runtime_cleanup_def ring0_cleanup_def bind_eq_Some_conv arr_get_def arr_set_def split: if_split_asm)
  note d2 = ring_cleanup_frame(4) [OF leave_ringE [OF s(4) assms(2)]]
  have "SPAWN_RING_1 \<le> ?c" using assms(2) by (simp add: spawn_rings)
  note d1 = ring_cleanup_frame(5) [OF leave_ringE [OF s(5) this]]
  show "portals_are_initialized (re_pm C) (rt_pm w') = Some False" "\<not> nw_initialized (rt_names w')"
    using s(6) d1 d2 by (simp_all add: portals_are_initialized_def)
  have "rt_current_ring w5 = rt_current_ring w" using s(1) ring_cleanup_frame(1) [of C w w5] by (auto simp: leave_ring_def split: if_split_asm)
  moreover have "rt_current_ring w4 = rt_current_ring w5" using s(2) ring_cleanup_frame(2) [of C R w5 w4] by (auto simp: leave_ring_def split: if_split_asm)
  moreover have "rt_current_ring w3 = rt_current_ring w4" using s(3) ring_cleanup_frame(3) [of C R w4 w3] by (auto simp: leave_ring_def split: if_split_asm)
  ultimately show "rt_current_ring w' = (rt_current_ring w)[tid := - 1]" using s(6) d1 d2 by simp
qed

lemma cleanup_needs_portals:
  assumes "portals_are_initialized (re_pm C) (rt_pm w) = Some False" "SPAWN_RING_2 \<le> rt_current_ring w ! tid"
  shows "runtime_cleanup C R tid w = None"
proof (rule ccontr)
  let ?c = "rt_current_ring w ! tid"
  assume "runtime_cleanup C R tid w \<noteq> None"
  then obtain w5 w4 w3 w2 where s: "leave_ring ?c SPAWN_RING_5 (ring5_cleanup C) w = Some w5" "leave_ring ?c SPAWN_RING_4 (ring4_cleanup C R) w5 = Some w4"
    "leave_ring ?c SPAWN_RING_3 (ring3_cleanup C R) w4 = Some w3" "leave_ring ?c SPAWN_RING_2 (ring2_cleanup C) w3 = Some w2"
    by (auto simp: runtime_cleanup_def bind_eq_Some_conv arr_get_def split: if_split_asm)
  have "pm_prt_initialized (rt_pm w5) = pm_prt_initialized (rt_pm w)" using s(1) ring_cleanup_frame(1) [of C w w5] by (auto simp: leave_ring_def split: if_split_asm)
  moreover have "pm_prt_initialized (rt_pm w4) = pm_prt_initialized (rt_pm w5)" using s(2) ring_cleanup_frame(2) [of C R w5 w4] by (auto simp: leave_ring_def split: if_split_asm)
  moreover have "pm_prt_initialized (rt_pm w3) = pm_prt_initialized (rt_pm w4)" using s(3) ring_cleanup_frame(3) [of C R w4 w3] by (auto simp: leave_ring_def split: if_split_asm)
  ultimately have "portals_are_initialized (re_pm C) (rt_pm w3) = Some False" using assms(1) by (simp add: portals_are_initialized_def)
  then have "ring2_cleanup C w3 = None" by (simp add: ring2_cleanup_def nanvix_portal_cleanup_def)
  with leave_ringE [OF s(4) assms(2)] show False by simp
qed

lemma enter_ring_same: "ring \<le> current \<Longrightarrow> enter_ring current ring r f w = Some w"
  by (auto simp: enter_ring_def)

lemma runtime_setup_same:
  fixes C :: "'w :: len word runtime_env"
  assumes "tid < length (rt_current_ring w)" "0 \<le> ring" "ring \<le> rt_current_ring w ! tid"
  shows "runtime_setup C R tid ring w = Some (Inr 0, w)"
  using assms by (auto simp: runtime_setup_def enter_ring_same)

lemma ring_preds_ring [simp]:
  "process_ok C R (w\<lparr>rt_current_ring := r\<rparr>) = process_ok C R w" "ring_up C ring (w\<lparr>rt_current_ring := r\<rparr>) = ring_up C ring w"
  "ring_down C ring (w\<lparr>rt_current_ring := r\<rparr>) = ring_down C ring w"
  by (simp_all add: process_ok_def ring_up_def ring_down_def)

section \<open>Properties\<close>

text \<open>
  C28. Entering a ring. A negative ring is refused; a ring at or below the one that the thread is in changes nothing; for a higher
  ring, once the servers that it connects to have linked their names and while the tables have room, the set-up returns with
  every client of the rings up to it set up and connected, what other threads had set up still in place, and no name unlinked.
\<close>

theorem runtime_setup_correct:
  fixes C :: "'w :: len word runtime_env"
  assumes "resource_laws R" "runtime_env_up C" "process_ok C R w" "tid < length (rt_current_ring w)" "current = rt_current_ring w ! tid"
    "ring_up C current w" "current < ring \<longrightarrow> services C R ring w"
  shows "if ring < 0 then runtime_setup C R tid ring w = Some (Inl EINVAL, w)
    else if ring \<le> current then runtime_setup C R tid ring w = Some (Inr 0, w)
    else \<exists>w'. runtime_setup C R tid ring w = Some (Inr 0, w') \<and> process_ok C R w' \<and> ring_up C ring w' \<and> (\<forall>r. ring_up C r w \<longrightarrow> ring_up C r w') \<and>
      rt_current_ring w' = (rt_current_ring w)[tid := ring] \<and> bindings (rt_names w') = bindings (rt_names w)"
proof (cases "ring < 0 \<or> ring \<le> current")
  case True
  then show ?thesis using runtime_setup_same [of tid w ring C R] assms(4,5) by (auto simp: runtime_setup_def)
next
  case False
  then have c: "current \<le> ring" "0 \<le> ring" and sv: "services C R ring w" using assms(7) by simp_all
  obtain w' where "runtime_setup C R tid ring w = Some (Inr 0, w'\<lparr>rt_current_ring := (rt_current_ring w)[tid := ring]\<rparr>)" "progress C R 2 w w'" "ring_up C ring w'"
    by (rule runtime_setup_ok [OF assms(1-4) assms(5) [symmetric] assms(6) c sv])
  with False show ?thesis by (simp add: progress_def)
qed

theorem runtime_setup_correct_witness:
  "\<exists>w'. runtime_setup runtime_env_ideal plain_resource 1 5 runtime_fresh = Some (Inr 0, w') \<and> ring_up runtime_env_ideal 5 w'"
proof -
  have "1 < length (rt_current_ring runtime_fresh)" "- 1 = rt_current_ring runtime_fresh ! 1" using runtime_fresh_ok(3,4) by simp_all
  from runtime_setup_correct [OF plain_resource_laws runtime_env_ideal_up(1) runtime_fresh_ok(1) this, of 5] runtime_fresh_ok(2)
  show ?thesis by auto
qed



text \<open>
  The rings are kept per thread and the clients per process. When two threads are in ring 2 or above and one of them cleans up, the name client and the
  connectors are shut down for both: setting up its ring again changes nothing for the other thread, and its own clean-up aborts.
\<close>

theorem runtime_cleanup_breaks_other_threads:
  fixes C :: "'w :: len word runtime_env"
  assumes "runtime_cleanup C R tid w = Some (r, w')" "SPAWN_RING_2 \<le> rt_current_ring w ! tid"
    "other < length (rt_current_ring w)" "other \<noteq> tid" "ring = rt_current_ring w ! other" "SPAWN_RING_2 \<le> ring"
  shows "\<not> nw_initialized (rt_names w') \<and> portals_are_initialized (re_pm C) (rt_pm w') = Some False \<and>
    runtime_setup C R other ring w' = Some (Inr 0, w') \<and> runtime_cleanup C R other w' = None"
proof -
  note d = cleanup_leaves_down [OF assms(1,2)]
  have o: "rt_current_ring w' ! other = ring" "other < length (rt_current_ring w')" using d(3) assms(3-5) by simp_all
  moreover have "0 \<le> ring" using assms(6) by (simp add: spawn_rings)
  ultimately have "runtime_setup C R other ring w' = Some (Inr 0, w')" by (intro runtime_setup_same) simp_all
  moreover have "runtime_cleanup C R other w' = None" using cleanup_needs_portals [OF d(1)] o(1) assms(6) by simp
  ultimately show ?thesis using d(1,2) by simp
qed

lemma runtime_two_threads:
  obtains w w' where "runtime_cleanup runtime_env_ideal plain_resource 1 w = Some (Inr 0, w')" "rt_current_ring w ! 1 = 2" "rt_current_ring w ! 2 = 2"
    "length (rt_current_ring w) = 5"
proof -
  let ?C = runtime_env_ideal and ?R = "plain_resource" and ?f = runtime_fresh
  have s: "services ?C ?R 2 ?f" using runtime_fresh_ok(2) by (simp add: services_def spawn_rings)
  have l: "1 < length (rt_current_ring ?f)" using runtime_fresh_ok(3) by simp
  obtain v where v: "progress ?C ?R 2 ?f v" "ring_up ?C 2 v"
    by (rule runtime_setup_ok [OF plain_resource_laws runtime_env_ideal_up(1) runtime_fresh_ok(1) l runtime_fresh_ok(4) ring_up_0(2) _ _ s]) simp_all
  let ?w = "v\<lparr>rt_current_ring := (replicate 5 (- 1))[1 := 2, 2 := 2]\<rparr>"
  have p: "process_ok ?C ?R ?w" "1 < length (rt_current_ring ?w)" "rt_current_ring ?w ! 1 = 2" "ring_up ?C 2 ?w" using v by (simp_all add: progress_def)
  obtain w' where "runtime_cleanup ?C ?R 1 ?w = Some (Inr 0, w'\<lparr>rt_current_ring := (rt_current_ring ?w)[1 := - 1]\<rparr>)"
    by (rule runtime_cleanup_ok [OF plain_resource_laws runtime_env_ideal_up(1,2) p]) (simp add: spawn_rings)
  with that [of ?w] show thesis by simp
qed

theorem runtime_cleanup_breaks_other_threads_witness:
  "\<exists>w w'. runtime_cleanup runtime_env_ideal plain_resource 1 w = Some (Inr 0, w') \<and> runtime_cleanup runtime_env_ideal plain_resource 2 w' = None"
proof -
  obtain w w' where w: "runtime_cleanup runtime_env_ideal plain_resource 1 w = Some (Inr 0, w')" "rt_current_ring w ! 1 = 2" "rt_current_ring w ! 2 = 2"
    "length (rt_current_ring w) = 5" by (rule runtime_two_threads)
  have "SPAWN_RING_2 \<le> rt_current_ring w ! 1" "2 < length (rt_current_ring w)" "2 \<noteq> (1 :: nat)" "2 = rt_current_ring w ! 2" "SPAWN_RING_2 \<le> 2"
    using w by (simp_all add: spawn_rings)
  from runtime_cleanup_breaks_other_threads [OF w(1) this] w(1) show ?thesis by blast
qed

text \<open>
  C30. Shutting the system down. On the leader cluster every server, of the names, the file system, System V and the remote memory, whatever state it is in, is sent
  the request to exit and, by handling it, leaves its loop; on any other cluster the call changes nothing. There is one remote memory server per connection.
\<close>

theorem shutdown_stops_servers:
  fixes C :: "'w :: len word runtime_env"
  assumes "resource_laws R" "runtime_env_up C" "\<forall>fd. env_mwrite_ok (re_rmem C) fd" "process_ok C R w" "tid < length (rt_current_ring w)"
    "current = rt_current_ring w ! tid" "ring_up C current w" "current \<le> SPAWN_RING_LAST" "services C R SPAWN_RING_LAST w" "one_server_each (rt_mem w)"
  shows "nanvix_shutdown C R tid False w = Some (Inr 0, w) \<and>
    (\<exists>w'. nanvix_shutdown C R tid True w = Some (Inr 0, w') \<and> \<not> nw_alive (rt_names w') \<and> \<not> vw_alive (rt_vfs w') \<and> \<not> sw_alive (rt_sysv w') \<and>
      list_all Not (rs_alive (rt_mem w')))"
proof -
  obtain w' where "nanvix_shutdown C R tid True w = Some (Inr 0, w')" "\<not> nw_alive (rt_names w')" "\<not> vw_alive (rt_vfs w')" "\<not> sw_alive (rt_sysv w')"
    "list_all Not (rs_alive (rt_mem w'))"
    by (rule runtime_shutdown_ok [OF assms(1-5) assms(6) [symmetric] assms(7-10)])
  then show ?thesis by (auto simp: nanvix_shutdown_def)
qed

theorem shutdown_stops_servers_witness:
  "\<exists>w'. nanvix_shutdown runtime_env_ideal plain_resource 1 True runtime_fresh = Some (Inr 0, w') \<and> \<not> vw_alive (rt_vfs w')"
proof -
  have l: "1 < length (rt_current_ring runtime_fresh)" and s: "services runtime_env_ideal plain_resource SPAWN_RING_LAST runtime_fresh" and r: "- 1 \<le> SPAWN_RING_LAST"
    and m: "one_server_each (rt_mem runtime_fresh)"
    using runtime_fresh_ok(2,3) by (simp_all add: spawn_rings) (simp add: one_server_each_def runtime_fresh_def vmem_static_def rcache_static_def rmem_two_def)
  from shutdown_stops_servers [OF plain_resource_laws runtime_env_ideal_up(1,3) runtime_fresh_ok(1) l runtime_fresh_ok(4) [symmetric] ring_up_0(2) r s m]
  show ?thesis by blast
qed

end
