(* ===== verification/Spawn.thy ===== *)
theory Spawn
  imports Runtime "HOL-Library.Sublist"
begin

text \<open>
  Booting the system: the spawners of \<open>src/sbin/spawn/main.c\<close>, one per cluster, which create the servers ring by ring and meet at
  the barrier of \<open>src/sbin/spawn/barrier.c\<close> after each ring, the server threads, and the start-up of user programs in
  \<open>src/libruntime/crt1.c\<close>. Each thread is the list of the synchronising actions of its code, with loops unrolled over the
  server table; the system is a step relation on the positions of the threads, in any interleaving. An action is taken when what
  it waits for has happened and what it asserts holds. What opens the fence and the kernel's synchronisation objects, and whether the
  handler of exceptions of a thread ends, are parameters.
\<close>

section \<open>Programs\<close>

datatype ksync = ALL_TO_ONE | ONE_TO_ALL

datatype action =
    Ksync_create ksync | Ksync_open ksync | Ksync_unlink ksync | Ksync_close ksync | Ksync_wait ksync | Ksync_signal ksync
  | Fence_enter | Fence_leave
  | Sem_init | Sem_down | Sem_up
  | Thread_create nat | Thread_join nat
  | Runtime_setup int | Runtime_cleanup
  | Uassert bool
  | Serve
  | Set_pname | Main3 | Unlink_pname | Shutdown

text \<open>The barrier. The leader gathers the signals of the others on the first object and releases them on the second.\<close>

definition spawn_barrier_setup :: "bool \<Rightarrow> action list" where
  "spawn_barrier_setup leader =
     (if leader then [Ksync_create ALL_TO_ONE, Ksync_open ONE_TO_ALL] else [Ksync_create ONE_TO_ALL, Ksync_open ALL_TO_ONE])"

definition spawn_barrier_cleanup :: "bool \<Rightarrow> action list" where
  "spawn_barrier_cleanup leader =
     (if leader then [Ksync_unlink ALL_TO_ONE, Ksync_close ONE_TO_ALL] else [Ksync_close ALL_TO_ONE, Ksync_unlink ONE_TO_ALL])"

definition spawn_barrier_wait :: "bool \<Rightarrow> action list" where
  "spawn_barrier_wait leader =
     (if leader then [Ksync_wait ALL_TO_ONE, Ksync_signal ONE_TO_ALL] else [Ksync_signal ALL_TO_ONE, Ksync_wait ONE_TO_ALL])"

text \<open>Waiting on the fence is entering it and, once it opens, leaving it.\<close>

definition stdsync_fence :: "action list" where
  "stdsync_fence = [Fence_enter, Fence_leave]"

text \<open>
  The main functions of the servers. Each starts up, unblocks the spawner, serves requests until it is told to stop, and returns. The start-up of the
  file system, remote memory and System V servers can fail and then the thread aborts; the one of the name server cannot. The server that greets serves nothing.
\<close>

datatype main_function = Name_server | Vfs_server | Rmem_server | Sysv_server | Hello_server

definition name_server :: "action list" where "name_server = [Sem_up, Serve]"

definition do_server :: "bool \<Rightarrow> action list" where
  "do_server started = (if started then [Sem_up, Serve] else [Uassert False])"

definition hello_server :: "action list" where "hello_server = [Sem_up]"

fun server_main :: "main_function \<Rightarrow> bool \<Rightarrow> action list" where
  "server_main Name_server started = name_server"
| "server_main Hello_server started = hello_server"
| "server_main _ started = do_server started"

definition server :: "int \<Rightarrow> main_function \<Rightarrow> bool \<Rightarrow> action list" where
  "server ring main started =
     (if ring \<noteq> SPAWN_RING_X then [Runtime_setup ring] else []) @ server_main main started @
     (if ring \<noteq> SPAWN_RING_X then [Runtime_cleanup] else [])"

definition spawn_servers :: "int list \<Rightarrow> int \<Rightarrow> action list" where
  "spawn_servers servers ring =
     concat (map (\<lambda>i. if servers ! i = ring then [Thread_create i, Sem_down] else []) [0..<length servers])"

definition spawn_ring :: "bool \<Rightarrow> int list \<Rightarrow> int \<Rightarrow> action list" where
  "spawn_ring leader servers ring = spawn_servers servers ring @ spawn_barrier_wait leader"

definition spawner_main :: "nat \<Rightarrow> bool \<Rightarrow> int list \<Rightarrow> action list" where
  "spawner_main thread_max leader servers =
     [Uassert (length servers + 1 \<le> thread_max), Runtime_setup SPAWN_RING_0, Sem_init] @ spawn_barrier_setup leader @ stdsync_fence @
     concat (map (spawn_ring leader servers) [SPAWN_RING_FIRST..SPAWN_RING_LAST]) @
     stdsync_fence @ stdsync_fence @ stdsync_fence @
     map Thread_join [0..<length servers] @ spawn_barrier_wait leader @ spawn_barrier_cleanup leader @ [Runtime_cleanup]"

text \<open>A user program; only the one on the leader cluster shuts the servers down.\<close>

definition user_main :: "bool \<Rightarrow> action list" where
  "user_main leader =
     [Runtime_setup SPAWN_RING_FIRST] @ stdsync_fence @ stdsync_fence @ [Runtime_setup SPAWN_RING_LAST, Set_pname] @ stdsync_fence @
     [Main3, Unlink_pname] @ stdsync_fence @ (if leader then [Shutdown] else []) @ [Runtime_cleanup]"

section \<open>The system\<close>

datatype thread = Spawner nat | Server nat nat | User nat

text \<open>
  The rings and main functions of the servers of each spawner, the master first; the number of users, of whom the first is on the leader cluster; which
  servers start up; whether \<open>excp_pause\<close> fails, and so ends the handler of exceptions that a thread in ring 5 has created; and when the fence, the gathering and the releasing object let a thread through: given how often each thread entered
  the fence (each spawner signalled, the leader signalled) and how often the waiting thread went through before.
\<close>

record spawn_sys =
  sp_servers :: "int list list"
  sp_mains :: "main_function list list"
  sp_users :: nat
  sp_thread_max :: nat
  sp_starts :: "nat \<Rightarrow> nat \<Rightarrow> bool"
  sp_pause_fails :: "thread \<Rightarrow> bool"
  fence_opens :: "(thread \<Rightarrow> nat) \<Rightarrow> nat \<Rightarrow> bool"
  gather_opens :: "(nat \<Rightarrow> nat) \<Rightarrow> nat \<Rightarrow> bool"
  release_opens :: "nat \<Rightarrow> nat \<Rightarrow> bool"

abbreviation sp_nodes :: "spawn_sys \<Rightarrow> nat" where "sp_nodes S \<equiv> length (sp_servers S)"

fun program :: "spawn_sys \<Rightarrow> thread \<Rightarrow> action list" where
  "program S (Spawner n) = (if n < sp_nodes S then spawner_main (sp_thread_max S) (n = 0) (sp_servers S ! n) else [])"
| "program S (Server n i) = (if n < sp_nodes S \<and> i < length (sp_servers S ! n) then
     server (sp_servers S ! n ! i) (sp_mains S ! n ! i) (sp_starts S n i) else [])"
| "program S (User u) = (if u < sp_users S then user_main (u = 0) else [])"

type_synonym spawn_state = "thread \<Rightarrow> nat"

definition past :: "spawn_sys \<Rightarrow> spawn_state \<Rightarrow> thread \<Rightarrow> action list" where
  "past S s t = take (s t) (program S t)"

definition taken :: "spawn_sys \<Rightarrow> spawn_state \<Rightarrow> thread \<Rightarrow> action \<Rightarrow> nat" where
  "taken S s t a = count_list (past S s t) a"

definition ups :: "spawn_sys \<Rightarrow> spawn_state \<Rightarrow> nat \<Rightarrow> nat" where
  "ups S s n = length (filter (\<lambda>i. Sem_up \<in> set (past S s (Server n i))) [0..<length (sp_servers S ! n)])"

definition finished :: "spawn_sys \<Rightarrow> spawn_state \<Rightarrow> thread \<Rightarrow> bool" where
  "finished S s t \<longleftrightarrow> s t = length (program S t)"

fun started :: "spawn_sys \<Rightarrow> spawn_state \<Rightarrow> thread \<Rightarrow> bool" where
  "started S s (Server n i) = (Thread_create i \<in> set (past S s (Spawner n)))"
| "started S s t = True"

text \<open>What an action waits for. Leaving ring 5 joins the handler of exceptions.\<close>

fun opens :: "spawn_sys \<Rightarrow> spawn_state \<Rightarrow> thread \<Rightarrow> action \<Rightarrow> bool" where
  "opens S s t Fence_leave = fence_opens S (\<lambda>t'. taken S s t' Fence_enter) (taken S s t Fence_leave)"
| "opens S s t (Ksync_wait ALL_TO_ONE) = gather_opens S (\<lambda>m. taken S s (Spawner m) (Ksync_signal ALL_TO_ONE)) (taken S s t (Ksync_wait ALL_TO_ONE))"
| "opens S s t (Ksync_wait ONE_TO_ALL) = release_opens S (taken S s (Spawner 0) (Ksync_signal ONE_TO_ALL)) (taken S s t (Ksync_wait ONE_TO_ALL))"
| "opens S s (Spawner n) Sem_down = (taken S s (Spawner n) Sem_down < ups S s n)"
| "opens S s (Spawner n) (Thread_join i) = (started S s (Server n i) \<and> finished S s (Server n i))"
| "opens S s t Serve = (0 < taken S s (User 0) Shutdown)"
| "opens S s (User u) Runtime_cleanup = sp_pause_fails S (User u)"
| "opens S s (Server n i) Runtime_cleanup = (sp_servers S ! n ! i < SPAWN_RING_5 \<or> sp_pause_fails S (Server n i))"
| "opens S s t a = True"

text \<open>
  What an action asserts. Calls on the name server need it up and not yet shut down; a server links its name while it starts up. The set-up of
  ring 3 connects by name to the servers of remote memory and of the file system, the one of ring 4 to the System V server. A thread of ring 2 or
  above that cleans up closes the connectors of the whole process, so the next one to clean up aborts (\<open>runtime_cleanup_breaks_other_threads\<close>).
\<close>

definition server_up :: "spawn_sys \<Rightarrow> spawn_state \<Rightarrow> nat \<Rightarrow> nat \<Rightarrow> bool" where
  "server_up S s n i \<longleftrightarrow> Sem_up \<in> set (past S s (Server n i))"

definition all_servers :: "spawn_sys \<Rightarrow> (nat \<Rightarrow> nat \<Rightarrow> bool) \<Rightarrow> bool" where
  "all_servers S P \<longleftrightarrow> list_all (\<lambda>n. list_all (P n) [0..<length (sp_servers S ! n)]) [0..<sp_nodes S]"

definition some_server :: "spawn_sys \<Rightarrow> (nat \<Rightarrow> nat \<Rightarrow> bool) \<Rightarrow> bool" where
  "some_server S P \<longleftrightarrow> list_ex (\<lambda>n. list_ex (P n) [0..<length (sp_servers S ! n)]) [0..<sp_nodes S]"

definition names_answer :: "spawn_sys \<Rightarrow> spawn_state \<Rightarrow> bool" where
  "names_answer S s \<longleftrightarrow> some_server S (\<lambda>n i. sp_mains S ! n ! i = Name_server \<and> server_up S s n i) \<and> taken S s (User 0) Shutdown = 0"

fun links_name :: "main_function \<Rightarrow> bool" where
  "links_name Name_server = False"
| "links_name Hello_server = False"
| "links_name _ = True"

text \<open>The servers that the set-up of a ring connects to.\<close>

definition ring_needs :: "int \<Rightarrow> main_function \<Rightarrow> bool" where
  "ring_needs ring m \<longleftrightarrow> SPAWN_RING_3 \<le> ring \<and> m \<in> {Name_server, Rmem_server, Vfs_server} \<or> SPAWN_RING_4 \<le> ring \<and> m = Sysv_server"

fun asserts :: "spawn_sys \<Rightarrow> spawn_state \<Rightarrow> thread \<Rightarrow> action \<Rightarrow> bool" where
  "asserts S s t (Uassert b) = b"
| "asserts S s t (Runtime_setup ring) = (ring < SPAWN_RING_3 \<or>
     names_answer S s \<and> all_servers S (\<lambda>n i. ring_needs ring (sp_mains S ! n ! i) \<longrightarrow> server_up S s n i))"
| "asserts S s (Server n i) Sem_up = (links_name (sp_mains S ! n ! i) \<longrightarrow> names_answer S s)"
| "asserts S s t Set_pname = names_answer S s"
| "asserts S s t Unlink_pname = names_answer S s"
| "asserts S s (Server n i) Runtime_cleanup = (sp_servers S ! n ! i < SPAWN_RING_2 \<or>
     list_all (\<lambda>j. j \<noteq> i \<longrightarrow> SPAWN_RING_2 \<le> sp_servers S ! n ! j \<longrightarrow> taken S s (Server n j) Runtime_cleanup = 0) [0..<length (sp_servers S ! n)])"
| "asserts S s t a = True"

definition enabled :: "spawn_sys \<Rightarrow> spawn_state \<Rightarrow> thread \<Rightarrow> action \<Rightarrow> bool" where
  "enabled S s t a \<longleftrightarrow> opens S s t a \<and> asserts S s t a"

text \<open>A thread aborts when its next action waits for nothing and asserts what does not hold.\<close>

definition aborts :: "spawn_sys \<Rightarrow> spawn_state \<Rightarrow> thread \<Rightarrow> bool" where
  "aborts S s t \<longleftrightarrow> s t < length (program S t) \<and> started S s t \<and> opens S s t (program S t ! s t) \<and> \<not> asserts S s t (program S t ! s t)"

inductive spawn_step :: "spawn_sys \<Rightarrow> spawn_state \<Rightarrow> spawn_state \<Rightarrow> bool" for S where
  act: "s t < length (program S t) \<Longrightarrow> started S s t \<Longrightarrow> enabled S s t (program S t ! s t) \<Longrightarrow> spawn_step S s (s(t := Suc (s t)))"

inductive booted :: "spawn_sys \<Rightarrow> spawn_state \<Rightarrow> bool" for S where
  start: "booted S (\<lambda>_. 0)"
| step: "booted S s \<Longrightarrow> spawn_step S s s' \<Longrightarrow> booted S s'"

text \<open>A schedule, the threads that act one after the other; None when one of them cannot.\<close>

fun spawn_run :: "spawn_sys \<Rightarrow> thread list \<Rightarrow> spawn_state \<Rightarrow> spawn_state option" where
  "spawn_run S [] s = Some s"
| "spawn_run S (t # ts) s =
     (if s t < length (program S t) \<and> started S s t \<and> enabled S s t (program S t ! s t) then spawn_run S ts (s(t := Suc (s t))) else None)"

text \<open>The tables of the two targets.\<close>

definition unix64_servers :: "int list list" where
  "unix64_servers = [[SPAWN_RING_0, SPAWN_RING_1], [SPAWN_RING_1], [SPAWN_RING_1], [SPAWN_RING_3]]"

definition unix64_mains :: "main_function list list" where
  "unix64_mains = [[Name_server, Vfs_server], [Rmem_server], [Rmem_server], [Sysv_server]]"

definition mppa256_servers :: "int list list" where
  "mppa256_servers = [[SPAWN_RING_0, SPAWN_RING_3], [SPAWN_RING_1]]"

definition mppa256_mains :: "main_function list list" where
  "mppa256_mains = [[Name_server, Sysv_server], [Rmem_server]]"

section \<open>What a spawner has done at any position\<close>

lemma prefix_concat:
  assumes "prefix xs (concat (map f rs))"
  obtains k us where "xs = concat (map f (take k rs)) @ us" "k < length rs \<and> prefix us (f (rs ! k)) \<or> k = length rs \<and> us = []"
  using assms
proof (induction rs arbitrary: xs thesis)
  case Nil
  then show ?case by (metis concat.simps(1) list.map(1) list.size(3) prefix_bot.extremum_uniqueI self_append_conv take_Nil)
next
  case (Cons r rs)
  from Cons.prems(2) consider "prefix xs (f r)" | us where "xs = f r @ us" "prefix us (concat (map f rs))" by (auto simp: prefix_append)
  then show ?case
  proof cases
    case 1
    then show ?thesis using Cons.prems(1) [of 0 xs] by simp
  next
    case 2
    from Cons.IH [OF _ 2(2)] obtain k vs where "us = concat (map f (take k rs)) @ vs" "k < length rs \<and> prefix vs (f (rs ! k)) \<or> k = length rs \<and> vs = []" by blast
    with 2(1) Cons.prems(1) [of "Suc k" vs] show ?thesis by simp
  qed
qed

definition bar_first :: "bool \<Rightarrow> action" where
  "bar_first leader = (if leader then Ksync_wait ALL_TO_ONE else Ksync_signal ALL_TO_ONE)"

definition bar_second :: "bool \<Rightarrow> action" where
  "bar_second leader = (if leader then Ksync_signal ONE_TO_ALL else Ksync_wait ONE_TO_ALL)"

lemma barrier_wait_eq: "spawn_barrier_wait leader = [bar_first leader, bar_second leader]"
  by (simp add: spawn_barrier_wait_def bar_first_def bar_second_def)

definition rings :: "int list" where "rings = [SPAWN_RING_FIRST..SPAWN_RING_LAST]"

lemma rings_eq: "rings = [0, 1, 2, 3, 4, 5]" "length rings = 6" "k < 6 \<Longrightarrow> rings ! k = int k" "k \<le> 6 \<Longrightarrow> set (take k rings) = {0..<int k}"
proof -
  show r: "rings = [0, 1, 2, 3, 4, 5]" unfolding rings_def spawn_rings by code_simp
  show "length rings = 6" by (simp add: r)
  show "rings ! k = int k" if "k < 6"
    using that by (auto simp: r less_Suc_eq numeral_eq_Suc)
  show "set (take k rings) = {0..<int k}" if "k \<le> 6"
    using that by (auto simp: r le_Suc_eq numeral_eq_Suc)
qed

text \<open>The three parts of a spawner's program.\<close>

definition spawner_begin :: "nat \<Rightarrow> bool \<Rightarrow> int list \<Rightarrow> action list" where
  "spawner_begin m leader sv = [Uassert (length sv + 1 \<le> m), Runtime_setup SPAWN_RING_0, Sem_init] @ spawn_barrier_setup leader @ stdsync_fence"

definition spawner_end :: "bool \<Rightarrow> int list \<Rightarrow> action list" where
  "spawner_end leader sv = stdsync_fence @ stdsync_fence @ stdsync_fence @
     map Thread_join [0..<length sv] @ spawn_barrier_wait leader @ spawn_barrier_cleanup leader @ [Runtime_cleanup]"

lemma spawner_main_parts:
  "spawner_main m leader sv = spawner_begin m leader sv @ concat (map (spawn_ring leader sv) rings) @ spawner_end leader sv"
  by (simp add: spawner_main_def spawner_begin_def spawner_end_def rings_def)

lemma spawner_past_cases:
  assumes "prefix xs (spawner_main m leader sv)"
  obtains (begins) "prefix xs (spawner_begin m leader sv)"
  | (in_ring) k us where "k < 6" "xs = spawner_begin m leader sv @ concat (map (spawn_ring leader sv) (take k rings)) @ us" "prefix us (spawn_ring leader sv (int k))"
  | (ends) us where "xs = spawner_begin m leader sv @ concat (map (spawn_ring leader sv) rings) @ us" "prefix us (spawner_end leader sv)"
proof -
  let ?b = "spawner_begin m leader sv" and ?c = "concat (map (spawn_ring leader sv) rings)"
  from assms consider "prefix xs ?b" | us where "xs = ?b @ us" "prefix us ?c" | us where "xs = ?b @ ?c @ us" "prefix us (spawner_end leader sv)"
    by (auto simp: spawner_main_parts prefix_append)
  then show thesis
  proof cases
    case 2
    from 2(2) obtain k vs where k: "us = concat (map (spawn_ring leader sv) (take k rings)) @ vs"
      "k < length rings \<and> prefix vs (spawn_ring leader sv (rings ! k)) \<or> k = length rings \<and> vs = []" by (rule prefix_concat)
    from k(2) show thesis
    proof
      assume "k < length rings \<and> prefix vs (spawn_ring leader sv (rings ! k))"
      then have "k < 6" "prefix vs (spawn_ring leader sv (int k))" using rings_eq(2) rings_eq(3) [of k] by auto
      then show thesis using in_ring [of k vs] 2(1) k(1) by simp
    next
      assume "k = length rings \<and> vs = []"
      then show thesis using ends [of "[]"] 2(1) k(1) by simp
    qed
  qed (use begins ends in blast)+
qed

text \<open>The servers of a ring.\<close>

lemma set_spawn_servers: "set (spawn_servers sv r) \<subseteq> insert Sem_down {Thread_create i | i. i < length sv \<and> sv ! i = r}"
  by (auto simp: spawn_servers_def split: if_splits)

lemma set_spawn_ring: "set (spawn_ring leader sv r) \<subseteq> insert Sem_down {Thread_create i | i. i < length sv \<and> sv ! i = r} \<union> {bar_first leader, bar_second leader}"
  using set_spawn_servers [of sv r] by (auto simp: spawn_ring_def barrier_wait_eq)

definition barrier_act :: "action \<Rightarrow> bool" where
  "barrier_act a \<longleftrightarrow> a \<in> {Ksync_wait ALL_TO_ONE, Ksync_signal ALL_TO_ONE, Ksync_wait ONE_TO_ALL, Ksync_signal ONE_TO_ALL}"

lemma barrier_acts [simp]: "barrier_act (bar_first leader)" "barrier_act (bar_second leader)" "bar_first leader \<noteq> bar_second leader" "bar_second leader \<noteq> bar_first leader"
  by (simp_all add: barrier_act_def bar_first_def bar_second_def)

lemma no_barrier:
  assumes "barrier_act a"
  shows "count_list (spawn_servers sv r) a = 0" "count_list (spawner_begin m leader sv) a = 0"
proof -
  have "a \<notin> set (spawn_servers sv r)" using assms set_spawn_servers [of sv r] by (auto simp: barrier_act_def)
  then show "count_list (spawn_servers sv r) a = 0" by (simp add: count_list_0_iff)
  have "a \<notin> set (spawner_begin m leader sv)" using assms by (auto simp: spawner_begin_def spawn_barrier_setup_def stdsync_fence_def barrier_act_def)
  then show "count_list (spawner_begin m leader sv) a = 0" by (simp add: count_list_0_iff)
qed

lemma count_rings:
  "count_list (concat (map (spawn_ring leader sv) rs)) (bar_first leader) = length rs"
  "count_list (concat (map (spawn_ring leader sv) rs)) (bar_second leader) = length rs"
  by (induction rs) (simp_all add: spawn_ring_def barrier_wait_eq no_barrier)

text \<open>The barrier at the end of a ring is met only after the servers of the ring.\<close>

lemma in_ring_parts:
  assumes "prefix us (spawn_ring leader sv r)"
  shows "prefix us (spawn_servers sv r) \<or> us = spawn_servers sv r @ [bar_first leader] \<or> us = spawn_servers sv r @ [bar_first leader, bar_second leader]"
  using assms by (auto simp: spawn_ring_def barrier_wait_eq prefix_append prefix_Cons)

lemma in_ring_counts:
  assumes "prefix us (spawn_ring leader sv r)"
  shows "count_list us (bar_second leader) \<le> count_list us (bar_first leader)" "count_list us (bar_first leader) \<le> 1"
    "0 < count_list us (bar_first leader) \<Longrightarrow> prefix (spawn_servers sv r) us"
proof -
  have z: "count_list us a = 0" if "prefix us (spawn_servers sv r)" "barrier_act a" for a
  proof -
    from that(1) obtain zs where "spawn_servers sv r = us @ zs" by (auto simp: prefix_def)
    with no_barrier(1) [OF that(2), of sv r] show ?thesis by simp
  qed
  from in_ring_parts [OF assms] show "count_list us (bar_second leader) \<le> count_list us (bar_first leader)" "count_list us (bar_first leader) \<le> 1"
    "0 < count_list us (bar_first leader) \<Longrightarrow> prefix (spawn_servers sv r) us"
    by (auto simp: no_barrier z)
qed

text \<open>The servers whose start the spawner has waited for.\<close>

definition waited :: "action list \<Rightarrow> nat set" where
  "waited xs = {i. \<exists>ys zs. xs = ys @ Sem_down # zs \<and> Thread_create i \<in> set ys}"

lemma waited_append: "waited xs \<subseteq> waited (as @ xs @ bs)"
proof
  fix i assume "i \<in> waited xs"
  then obtain ys zs where "xs = ys @ Sem_down # zs" "Thread_create i \<in> set ys" by (auto simp: waited_def)
  then have "as @ xs @ bs = (as @ ys) @ Sem_down # (zs @ bs)" "Thread_create i \<in> set (as @ ys)" by auto
  then show "i \<in> waited (as @ xs @ bs)" unfolding waited_def by blast
qed

lemma waited_servers:
  assumes "i < length sv"
  shows "i \<in> waited (spawn_servers sv (sv ! i))"
proof -
  let ?f = "\<lambda>j. if sv ! j = sv ! i then [Thread_create j, Sem_down] else []"
  have "[0..<length sv] = [0..<i] @ i # [Suc i..<length sv]" 
    using assms by (metis upt_conv_Cons upt_add_eq_append le_add1 le_add_diff_inverse less_imp_le zero_le)
  then have "spawn_servers sv (sv ! i) = (concat (map ?f [0..<i]) @ [Thread_create i]) @ Sem_down # concat (map ?f [Suc i..<length sv])"
    by (simp add: spawn_servers_def)
  then show ?thesis unfolding waited_def by fastforce
qed

lemma waited_rings:
  assumes "i < length sv" "sv ! i \<in> set rs"
  shows "i \<in> waited (concat (map (spawn_ring leader sv) rs))"
proof -
  from assms(2) obtain as bs where "rs = as @ sv ! i # bs" by (meson split_list)
  then have "concat (map (spawn_ring leader sv) rs) = concat (map (spawn_ring leader sv) as) @ spawn_servers sv (sv ! i) @ spawn_barrier_wait leader @ concat (map (spawn_ring leader sv) bs)"
    by (simp add: spawn_ring_def)
  then show ?thesis using waited_servers [OF assms(1)] waited_append by (metis (no_types, lifting) subsetD)
qed


lemma waited_in: "i \<in> waited xs \<Longrightarrow> i \<in> waited (as @ xs)" "i \<in> waited xs \<Longrightarrow> i \<in> waited (xs @ bs)"
  using waited_append [of xs as "[]"] waited_append [of xs "[]" bs] by auto

lemma waited_prefix: "i \<in> waited xs \<Longrightarrow> prefix xs ys \<Longrightarrow> i \<in> waited ys"
  by (auto simp: prefix_def intro: waited_in)

lemma waited_snoc: "waited (xs @ [a]) = (if a = Sem_down then {i. Thread_create i \<in> set xs} \<union> waited xs else waited xs)"
proof -
  have "xs @ [a] = ys @ Sem_down # zs \<longleftrightarrow> a = Sem_down \<and> zs = [] \<and> xs = ys \<or> (\<exists>us. zs = us @ [a] \<and> xs = ys @ Sem_down # us)" for ys zs
    by (cases zs rule: rev_cases) auto
  then show ?thesis by (auto simp: waited_def)
qed

text \<open>What the position of a spawner says of the servers it has created and waited for, in terms of the barriers it has met.\<close>

lemma end_counts:
  assumes "prefix us (spawner_end leader sv)"
  shows "count_list us (bar_second leader) \<le> count_list us (bar_first leader)"
proof -
  define as where "as = stdsync_fence @ stdsync_fence @ stdsync_fence @ map Thread_join [0..<length sv]"
  define bs where "bs = spawn_barrier_cleanup leader @ [Runtime_cleanup]"
  have no: "a \<notin> set as" "a \<notin> set bs" if "barrier_act a" for a
    using that by (auto simp: as_def bs_def stdsync_fence_def spawn_barrier_cleanup_def barrier_act_def)
  have "spawner_end leader sv = as @ [bar_first leader, bar_second leader] @ bs"
    by (simp add: spawner_end_def as_def bs_def barrier_wait_eq)
  with assms consider "prefix us as" | "us = as @ [bar_first leader]" | vs where "us = as @ [bar_first leader, bar_second leader] @ vs" "prefix vs bs"
    by (auto simp: prefix_append prefix_Cons)
  then show ?thesis
  proof cases
    case 1
    then have "bar_second leader \<notin> set us" using no(1) [of "bar_second leader"] set_mono_prefix by fastforce
    then show ?thesis by (simp add: count_list_0_iff)
  next
    case 2
    then show ?thesis using no(1) [of "bar_second leader"] by (simp add: count_list_0_iff)
  next
    case 3
    then have "bar_second leader \<notin> set vs" using no(2) [of "bar_second leader"] set_mono_prefix by fastforce
    with 3 show ?thesis using no(1) [of "bar_second leader"] by (simp add: count_list_0_iff)
  qed
qed

lemma spawner_second_le_first:
  assumes "prefix xs (spawner_main m leader sv)"
  shows "count_list xs (bar_second leader) \<le> count_list xs (bar_first leader)"
  using assms
proof (cases rule: spawner_past_cases)
  case begins
  then have "count_list xs (bar_second leader) = 0"
    using no_barrier(2) [of "bar_second leader" m leader sv] by (auto simp: prefix_def)
  then show ?thesis by simp
next
  case (in_ring k us)
  then show ?thesis using in_ring_counts(1) by (simp add: no_barrier count_rings)
next
  case (ends us)
  then show ?thesis using end_counts by (simp add: no_barrier count_rings)
qed

lemma created_ring:
  assumes "prefix xs (spawner_main m leader sv)" "Thread_create j \<in> set xs"
  shows "j < length sv" "0 \<le> sv ! j" "sv ! j \<le> int (count_list xs (bar_second leader))"
proof -
  have in_rings: "j < length sv" "sv ! j \<in> set rs" if "Thread_create j \<in> set (concat (map (spawn_ring leader sv) rs))" for rs
    using that set_spawn_ring [of leader sv] by (fastforce simp: bar_first_def bar_second_def split: if_splits)+
  have no: "Thread_create j \<notin> set (spawner_begin m leader sv)" "Thread_create j \<notin> set (spawner_end leader sv)"
    by (auto simp: spawner_begin_def spawner_end_def spawn_barrier_setup_def spawn_barrier_wait_def spawn_barrier_cleanup_def stdsync_fence_def)
  from assms(1) have "j < length sv \<and> 0 \<le> sv ! j \<and> sv ! j \<le> int (count_list xs (bar_second leader))"
  proof (cases rule: spawner_past_cases)
    case begins
    then show ?thesis using assms(2) no(1) set_mono_prefix by blast
  next
    case (in_ring k us)
    from in_ring(2) assms(2) no(1) consider "Thread_create j \<in> set (concat (map (spawn_ring leader sv) (take k rings)))" | "Thread_create j \<in> set us" by auto
    then have "j < length sv \<and> sv ! j \<in> insert (int k) (set (take k rings))"
    proof cases
      case 1
      then show ?thesis using in_rings by blast
    next
      case 2
      then have "Thread_create j \<in> set (concat (map (spawn_ring leader sv) [int k]))" using in_ring(3) set_mono_prefix by fastforce
      then show ?thesis using in_rings [of "[int k]"] by auto
    qed
    then have "j < length sv \<and> 0 \<le> sv ! j \<and> sv ! j \<le> int k" using rings_eq(4) [of k] in_ring(1) by auto
    moreover have "k \<le> count_list xs (bar_second leader)" using in_ring(1) by (simp add: in_ring(2) count_rings rings_eq(2))
    ultimately show ?thesis by linarith
  next
    case (ends us)
    then have "Thread_create j \<in> set (concat (map (spawn_ring leader sv) rings))" using assms(2) no set_mono_prefix by fastforce
    from in_rings [OF this] have "j < length sv \<and> 0 \<le> sv ! j \<and> sv ! j \<le> 5" by (auto simp: rings_eq(1))
    moreover have "6 \<le> count_list xs (bar_second leader)" by (simp add: ends(1) count_rings rings_eq(2))
    ultimately show ?thesis by linarith
  qed
  then show "j < length sv" "0 \<le> sv ! j" "sv ! j \<le> int (count_list xs (bar_second leader))" by auto
qed

lemma all_rings_waited:
  assumes "i < length sv" "0 \<le> sv ! i" "sv ! i \<le> SPAWN_RING_LAST"
  shows "i \<in> waited (as @ concat (map (spawn_ring leader sv) rings) @ us)"
proof -
  have "sv ! i \<in> set rings" using assms(2,3) by (auto simp: rings_def spawn_rings)
  then show ?thesis using waited_rings [OF assms(1)] waited_append by blast
qed

lemma ring_waited:
  assumes "prefix xs (spawner_main m leader sv)" "i < length sv" "0 \<le> sv ! i" "sv ! i \<le> SPAWN_RING_LAST" "sv ! i < int (count_list xs (bar_first leader))"
  shows "i \<in> waited xs"
  using assms(1)
proof (cases rule: spawner_past_cases)
  case begins
  then have "count_list xs (bar_first leader) = 0"
    using no_barrier(2) [of "bar_first leader" m leader sv] by (auto simp: prefix_def)
  then show ?thesis using assms(3,5) by simp
next
  case (in_ring k us)
  let ?c = "concat (map (spawn_ring leader sv) (take k rings))"
  have n: "sv ! i < int k + int (count_list us (bar_first leader))"
    using assms(5) in_ring(1) by (simp add: in_ring(2) no_barrier count_rings rings_eq(2))
  show ?thesis
  proof (cases "sv ! i < int k")
    case True
    then have "sv ! i \<in> set (take k rings)" using assms(3) rings_eq(4) [of k] in_ring(1) by auto
    then show ?thesis unfolding in_ring(2) using waited_rings [OF assms(2)] waited_append by blast
  next
    case False
    then have "sv ! i = int k" "0 < count_list us (bar_first leader)" using n in_ring_counts(2) [OF in_ring(3)] by linarith+
    then have "i \<in> waited us" using waited_servers [OF assms(2)] in_ring_counts(3) [OF in_ring(3)] waited_prefix by simp
    then show ?thesis unfolding in_ring(2) by (intro waited_in(1))
  qed
next
  case (ends us)
  then show ?thesis using all_rings_waited [OF assms(2-4)] by blast
qed

lemma fence_waited:
  assumes "prefix xs (spawner_main m leader sv)" "i < length sv" "0 \<le> sv ! i" "sv ! i \<le> SPAWN_RING_LAST" "2 \<le> count_list xs Fence_enter"
  shows "i \<in> waited xs"
proof -
  have b: "count_list (spawner_begin m leader sv) Fence_enter = 1"
    by (simp add: spawner_begin_def spawn_barrier_setup_def stdsync_fence_def)
  have r: "count_list (concat (map (spawn_ring leader sv) rs)) Fence_enter = 0" for rs
    using set_spawn_ring [of leader sv] by (force simp: count_list_0_iff bar_first_def bar_second_def split: if_splits)
  from assms(1) show ?thesis
  proof (cases rule: spawner_past_cases)
    case begins
    then obtain zs where "spawner_begin m leader sv = xs @ zs" by (auto simp: prefix_def)
    then show ?thesis using b assms(5) by simp
  next
    case (in_ring k us)
    obtain zs where zs: "spawn_ring leader sv (int k) = us @ zs" using in_ring(3) by (auto simp: prefix_def)
    have "count_list us Fence_enter = 0" using r [of "[int k]"] zs by simp
    then show ?thesis using assms(5) b r by (simp add: in_ring(2))
  next
    case (ends us)
    then show ?thesis using all_rings_waited [OF assms(2-4)] by blast
  qed
qed

text \<open>A spawner is never more than one server ahead of those it has waited for.\<close>

definition creates :: "action list \<Rightarrow> nat" where
  "creates xs = length (filter (\<lambda>a. \<exists>i. a = Thread_create i) xs)"

definition paced :: "action list \<Rightarrow> bool" where
  "paced xs \<longleftrightarrow> creates xs = count_list xs Sem_down \<and> (\<forall>ys. prefix ys xs \<longrightarrow> creates ys \<le> count_list ys Sem_down + 1)"

lemma creates_simps [simp]: "creates [] = 0" "creates (xs @ ys) = creates xs + creates ys"
  "creates (a # xs) = (if \<exists>i. a = Thread_create i then 1 else 0) + creates xs"
  by (simp_all add: creates_def)

lemma paced_append: "paced xs \<Longrightarrow> paced ys \<Longrightarrow> paced (xs @ ys)"
  by (auto simp: paced_def prefix_append)

lemma paced_concat: "\<forall>x \<in> set xs. paced (f x) \<Longrightarrow> paced (concat (map f xs))"
  by (induction xs) (auto simp: paced_append, auto simp: paced_def)

lemma paced_other:
  assumes "Sem_down \<notin> set xs" "\<forall>i. Thread_create i \<notin> set xs"
  shows "paced xs"
proof -
  have "creates ys = 0" if "set ys \<subseteq> set xs" for ys using assms(2) that by (auto simp: creates_def filter_empty_conv)
  moreover have "set ys \<subseteq> set xs" if "prefix ys xs" for ys using that by (rule set_mono_prefix)
  ultimately show ?thesis using assms(1) unfolding paced_def by (auto simp: count_list_0_iff)
qed

lemma paced_parts:
  shows paced_servers: "paced (spawn_servers sv r)" and paced_wait: "paced (spawn_barrier_wait leader)"
    and paced_begin: "paced (spawner_begin m leader sv)" and paced_end: "paced (spawner_end leader sv)"
proof -
  show "paced (spawn_servers sv r)"
    unfolding spawn_servers_def by (rule paced_concat) (auto simp: paced_def prefix_Cons)
  show "paced (spawn_barrier_wait leader)" by (rule paced_other) (auto simp: spawn_barrier_wait_def)
  show "paced (spawner_begin m leader sv)" by (rule paced_other) (auto simp: spawner_begin_def spawn_barrier_setup_def stdsync_fence_def)
  show "paced (spawner_end leader sv)"
    by (rule paced_other) (auto simp: spawner_end_def spawn_barrier_wait_def spawn_barrier_cleanup_def stdsync_fence_def)
qed

lemma paced_rings: "paced (concat (map (spawn_ring leader sv) rs))"
  by (rule paced_concat) (simp add: spawn_ring_def paced_append paced_parts)

lemma paced_spawner: "paced (spawner_main m leader sv)"
  by (simp add: spawner_main_parts paced_append paced_parts paced_rings)

lemma card_created:
  assumes "prefix xs (spawner_main m leader sv)"
  shows "finite {i. Thread_create i \<in> set xs}" "card {i. Thread_create i \<in> set xs} \<le> count_list xs Sem_down + 1"
proof -
  let ?ys = "filter (\<lambda>a. \<exists>i. a = Thread_create i) xs"
  have img: "Thread_create ` {i. Thread_create i \<in> set xs} = set ?ys" by auto
  then show fin: "finite {i. Thread_create i \<in> set xs}" by (metis finite_imageD List.finite_set inj_onI action.inject(7))
  have "card {i. Thread_create i \<in> set xs} = card (set ?ys)"
    unfolding img [symmetric] by (rule card_image [symmetric]) (simp add: inj_on_def)
  also have "\<dots> \<le> creates xs" unfolding creates_def by (rule card_length)
  also have "\<dots> \<le> count_list xs Sem_down + 1" using paced_spawner [of m leader sv] assms by (auto simp: paced_def)
  finally show "card {i. Thread_create i \<in> set xs} \<le> count_list xs Sem_down + 1" .
qed


section \<open>Invariants of the running system\<close>

text \<open>
  What the fence and the kernel's synchronisation objects promise: the fence opens for the \<open>k\<close>-th time only after every
  participant has entered it that often, the leader's \<open>k\<close>-th wait returns only after every follower's \<open>k\<close>-th signal, and a
  follower's \<open>k\<close>-th wait only after the leader's \<open>k\<close>-th signal.
\<close>

definition participant :: "spawn_sys \<Rightarrow> thread \<Rightarrow> bool" where
  "participant S t \<longleftrightarrow> (\<exists>n < sp_nodes S. t = Spawner n) \<or> (\<exists>u < sp_users S. t = User u)"

definition sync_laws :: "spawn_sys \<Rightarrow> bool" where
  "sync_laws S \<longleftrightarrow>
     (\<forall>arrived k t. fence_opens S arrived k \<longrightarrow> participant S t \<longrightarrow> k < arrived t) \<and>
     (\<forall>signals k m. gather_opens S signals k \<longrightarrow> 0 < m \<longrightarrow> m < sp_nodes S \<longrightarrow> k < signals m) \<and>
     (\<forall>signals k. release_opens S signals k \<longrightarrow> k < signals)"

lemma sync_lawsD:
  assumes "sync_laws S"
  shows "fence_opens S arrived k \<Longrightarrow> participant S t \<Longrightarrow> k < arrived t"
    "gather_opens S signals k \<Longrightarrow> 0 < m \<Longrightarrow> m < sp_nodes S \<Longrightarrow> k < signals m"
    "release_opens S signal k \<Longrightarrow> k < signal"
  using assms unfolding sync_laws_def by blast+

lemma past_step:
  assumes "s t < length (program S t)"
  shows "past S (s(t := Suc (s t))) t = past S s t @ [program S t ! s t]" "t' \<noteq> t \<Longrightarrow> past S (s(t := Suc (s t))) t' = past S s t'"
  using assms by (simp_all add: past_def take_Suc_conv_app_nth)

lemma taken_step:
  assumes "s t < length (program S t)"
  shows "taken S (s(t := Suc (s t))) t' a = taken S s t' a + (if t' = t \<and> program S t ! s t = a then 1 else 0)"
  using past_step [where s = s and t = t, OF assms] by (cases "t' = t") (simp_all add: taken_def)

lemma past_prefix: "prefix (past S s t) (program S t)"
  by (simp add: past_def take_is_prefix)

lemma spawner_past: "n < sp_nodes S \<Longrightarrow> prefix (past S s (Spawner n)) (spawner_main (sp_thread_max S) (n = 0) (sp_servers S ! n))"
  using past_prefix [of S s "Spawner n"] by simp

text \<open>A synchronising action is taken at most as often as the one it waits for.\<close>

lemma follows_step:
  assumes "s t < length (program S t)" "enabled S s t (program S t ! s t)" "taken S s t' a \<le> taken S s p b"
    "\<And>t. enabled S s t a \<Longrightarrow> taken S s t a < taken S s p b"
  shows "taken S (s(t := Suc (s t))) t' a \<le> taken S (s(t := Suc (s t))) p b"
  using assms(3) assms(4) [of t] assms(2) unfolding taken_step [of s t S, OF assms(1)] by (cases "t' = t \<and> program S t ! s t = a") auto

declare enabled_def [simp]

definition spawn_inv :: "spawn_sys \<Rightarrow> spawn_state \<Rightarrow> bool" where
  "spawn_inv S s \<longleftrightarrow>
     (\<forall>t p. participant S p \<longrightarrow> taken S s t Fence_leave \<le> taken S s p Fence_enter) \<and>
     (\<forall>t m. 0 < m \<longrightarrow> m < sp_nodes S \<longrightarrow> taken S s t (Ksync_wait ALL_TO_ONE) \<le> taken S s (Spawner m) (Ksync_signal ALL_TO_ONE)) \<and>
     (\<forall>t. taken S s t (Ksync_wait ONE_TO_ALL) \<le> taken S s (Spawner 0) (Ksync_signal ONE_TO_ALL)) \<and>
     (\<forall>n i. 0 < s (Server n i) \<longrightarrow> Thread_create i \<in> set (past S s (Spawner n))) \<and>
     (\<forall>n i. n < sp_nodes S \<longrightarrow> i \<in> waited (past S s (Spawner n)) \<longrightarrow> Sem_up \<in> set (past S s (Server n i)))"

lemma spawn_invD:
  assumes "spawn_inv S s"
  shows "participant S p \<Longrightarrow> taken S s t Fence_leave \<le> taken S s p Fence_enter"
    "0 < m \<Longrightarrow> m < sp_nodes S \<Longrightarrow> taken S s t (Ksync_wait ALL_TO_ONE) \<le> taken S s (Spawner m) (Ksync_signal ALL_TO_ONE)"
    "taken S s t (Ksync_wait ONE_TO_ALL) \<le> taken S s (Spawner 0) (Ksync_signal ONE_TO_ALL)"
    "0 < s (Server n i) \<Longrightarrow> Thread_create i \<in> set (past S s (Spawner n))"
    "n < sp_nodes S \<Longrightarrow> i \<in> waited (past S s (Spawner n)) \<Longrightarrow> Sem_up \<in> set (past S s (Server n i))"
  using assms unfolding spawn_inv_def by blast+

lemma ups_eq: "ups S s n = card {i \<in> {0..<length (sp_servers S ! n)}. Sem_up \<in> set (past S s (Server n i))}"
  unfolding ups_def by (subst distinct_card [symmetric]) (auto intro: arg_cong [where f = card])

text \<open>When the semaphore lets the spawner through, every server it has created is up.\<close>

lemma down_all_up:
  assumes "spawn_inv S s" "n < sp_nodes S" "enabled S s (Spawner n) Sem_down" "Thread_create i \<in> set (past S s (Spawner n))"
  shows "Sem_up \<in> set (past S s (Server n i))"
proof -
  let ?C = "{i. Thread_create i \<in> set (past S s (Spawner n))}"
  let ?U = "{i \<in> {0..<length (sp_servers S ! n)}. Sem_up \<in> set (past S s (Server n i))}"
  note c = card_created [OF spawner_past [OF assms(2), of s]]
  have sub: "?U \<subseteq> ?C"
  proof
    fix i assume "i \<in> ?U"
    then have "0 < s (Server n i)" by (auto simp: past_def intro: ccontr)
    then show "i \<in> ?C" using spawn_invD(4) [OF assms(1)] by simp
  qed
  have "card ?C \<le> card ?U" using assms(3) c(2) unfolding ups_eq [symmetric] by (simp add: taken_def)
  then have "?U = ?C" using card_seteq [OF c(1) sub] by simp
  then show ?thesis using assms(4) by blast
qed

lemma spawn_inv_step:
  assumes "sync_laws S" "spawn_inv S s" "s t < length (program S t)" "started S s t" "enabled S s t (program S t ! s t)"
  shows "spawn_inv S (s(t := Suc (s t)))"
proof -
  let ?s = "s(t := Suc (s t))"
  have grows: "set (past S s t') \<subseteq> set (past S ?s t')" for t' using past_step [where s = s and t = t, OF assms(3)] by (cases "t' = t") auto
  have 1: "taken S ?s t' Fence_leave \<le> taken S ?s p Fence_enter" if "participant S p" for t' p
    by (rule follows_step [OF assms(3,5) spawn_invD(1) [OF assms(2) that]]) (use sync_lawsD(1) [OF assms(1)] that in force)
  have 2: "taken S ?s t' (Ksync_wait ALL_TO_ONE) \<le> taken S ?s (Spawner m) (Ksync_signal ALL_TO_ONE)" if "0 < m" "m < sp_nodes S" for t' m
    by (rule follows_step [OF assms(3,5) spawn_invD(2) [OF assms(2) that]]) (use sync_lawsD(2) [OF assms(1) _ that] in force)
  have 3: "taken S ?s t' (Ksync_wait ONE_TO_ALL) \<le> taken S ?s (Spawner 0) (Ksync_signal ONE_TO_ALL)" for t'
    by (rule follows_step [OF assms(3,5) spawn_invD(3) [OF assms(2)]]) (use sync_lawsD(3) [OF assms(1)] in simp)
  have 4: "Thread_create i \<in> set (past S ?s (Spawner n))" if "0 < ?s (Server n i)" for n i
  proof (cases "t = Server n i")
    case True
    then show ?thesis using assms(4) grows [of "Spawner n"] by auto
  next
    case False
    then show ?thesis using that spawn_invD(4) [OF assms(2), of n i] grows [of "Spawner n"] by auto
  qed
  have 5: "Sem_up \<in> set (past S ?s (Server n i))" if n: "n < sp_nodes S" and w: "i \<in> waited (past S ?s (Spawner n))" for n i
  proof -
    have "i \<in> waited (past S s (Spawner n)) \<or> enabled S s (Spawner n) Sem_down \<and> Thread_create i \<in> set (past S s (Spawner n))"
      using w assms(5) past_step [where s = s and t = t, OF assms(3)] by (cases "t = Spawner n") (auto simp: waited_snoc split: if_splits)
    then have "Sem_up \<in> set (past S s (Server n i))" using spawn_invD(5) [OF assms(2) n] down_all_up [OF assms(2) n] by blast
    then show ?thesis using grows by blast
  qed
  show ?thesis unfolding spawn_inv_def using 1 2 3 4 5 by blast
qed

lemma booted_inv:
  assumes "sync_laws S" "booted S s"
  shows "spawn_inv S s"
  using assms(2)
proof induction
  case start
  show ?case by (simp add: spawn_inv_def past_def taken_def waited_def)
next
  case (step s s')
  from step.hyps(2) show ?case by cases (use spawn_inv_step [OF assms(1) step.IH] in blast)
qed

text \<open>Any two spawners are in step: the barriers one has left, the other has reached.\<close>

lemma barriers_in_step:
  assumes "spawn_inv S s" "n < sp_nodes S" "m < sp_nodes S"
  shows "count_list (past S s (Spawner n)) (bar_second (n = 0)) \<le> count_list (past S s (Spawner m)) (bar_first (m = 0))"
proof -
  have 0: "count_list (past S s (Spawner 0)) (Ksync_signal ONE_TO_ALL) \<le> count_list (past S s (Spawner 0)) (Ksync_wait ALL_TO_ONE)"
    using spawner_second_le_first [OF spawner_past [of 0 S s]] assms(2) by (force simp: bar_first_def bar_second_def)
  have "count_list (past S s (Spawner n)) (bar_second (n = 0)) \<le> count_list (past S s (Spawner 0)) (Ksync_signal ONE_TO_ALL)"
    using spawn_invD(3) [OF assms(1), of "Spawner n"] by (auto simp: bar_second_def taken_def)
  also note 0
  also have "count_list (past S s (Spawner 0)) (Ksync_wait ALL_TO_ONE) \<le> count_list (past S s (Spawner m)) (bar_first (m = 0))"
    using spawn_invD(2) [OF assms(1), of m "Spawner 0"] assms(3) by (auto simp: bar_first_def taken_def)
  finally show ?thesis .
qed

lemma lower_rings_up:
  assumes "sync_laws S" "booted S s" "n < sp_nodes S" "m < sp_nodes S"
    and "Thread_create j \<in> set (past S s (Spawner n))"
    and "i < length (sp_servers S ! m)" "0 \<le> sp_servers S ! m ! i" "sp_servers S ! m ! i < sp_servers S ! n ! j" "sp_servers S ! n ! j \<le> SPAWN_RING_LAST"
  shows "server_up S s m i"
proof -
  note inv = booted_inv [OF assms(1,2)]
  have "sp_servers S ! m ! i < int (count_list (past S s (Spawner m)) (bar_first (m = 0)))"
    using created_ring(3) [OF spawner_past [OF assms(3)] assms(5)] barriers_in_step [OF inv assms(3,4)] assms(8) by linarith
  moreover have "sp_servers S ! m ! i \<le> SPAWN_RING_LAST" using assms(8,9) by simp
  ultimately have "i \<in> waited (past S s (Spawner m))" using ring_waited [OF spawner_past [OF assms(4)] assms(6,7)] by blast
  then show ?thesis unfolding server_up_def by (rule spawn_invD(5) [OF inv assms(4)])
qed

lemma second_fence_up:
  assumes "sync_laws S" "booted S s" "2 \<le> taken S s (User u) Fence_leave"
    and "m < sp_nodes S" "i < length (sp_servers S ! m)" "0 \<le> sp_servers S ! m ! i" "sp_servers S ! m ! i \<le> SPAWN_RING_LAST"
  shows "server_up S s m i"
proof -
  note inv = booted_inv [OF assms(1,2)]
  have "participant S (Spawner m)" using assms(4) by (auto simp: participant_def)
  then have "2 \<le> count_list (past S s (Spawner m)) Fence_enter"
    using spawn_invD(1) [OF inv, of "Spawner m" "User u"] assms(3) by (simp add: taken_def)
  then have "i \<in> waited (past S s (Spawner m))" by (rule fence_waited [OF spawner_past [OF assms(4)] assms(5-7)])
  then show ?thesis unfolding server_up_def by (rule spawn_invD(5) [OF inv assms(4)])
qed

text \<open>
  C31. Servers start in the order of the rings over the whole machine: in every interleaving, when a spawner of any cluster has
  created a server of some ring, every server of a lower ring on every cluster has started up and said so.
\<close>

theorem spawn_ring_order:
  assumes "sync_laws S" "booted S s" "n < sp_nodes S" "m < sp_nodes S"
    and "Thread_create j \<in> set (past S s (Spawner n))"
    and "i < length (sp_servers S ! m)" "0 \<le> sp_servers S ! m ! i" "sp_servers S ! m ! i < sp_servers S ! n ! j" "sp_servers S ! n ! j \<le> SPAWN_RING_LAST"
  shows "server_up S s m i"
  by (rule lower_rings_up [OF assms])

text \<open>
  C32. User code runs on a complete system: when a user program has passed the second fence of its start-up, and so before it
  sets up its runtime for all rings, takes its name and calls its main function, every server of the rings 0 to 5 on every
  cluster is up.
\<close>

theorem users_find_servers_up:
  assumes "sync_laws S" "booted S s" "2 \<le> taken S s (User u) Fence_leave \<or> Runtime_setup SPAWN_RING_LAST \<in> set (past S s (User u))"
    and "m < sp_nodes S" "i < length (sp_servers S ! m)" "0 \<le> sp_servers S ! m ! i" "sp_servers S ! m ! i \<le> SPAWN_RING_LAST"
  shows "server_up S s m i"
proof -
  let ?xs = "past S s (User u)"
  have p: "prefix ?xs (if u < sp_users S then user_main (u = 0) else [])" using past_prefix [of S s "User u"] by simp
  have "2 \<le> taken S s (User u) Fence_leave" if "Runtime_setup SPAWN_RING_LAST \<in> set ?xs"
    using that p by (auto simp: taken_def user_main_def stdsync_fence_def prefix_Cons prefix_append spawn_rings split: if_splits)
  then show ?thesis using second_fence_up [OF assms(1,2) _ assms(4-7)] assms(3) by blast
qed

lemma booted_run: "spawn_run S ts s = Some s' \<Longrightarrow> booted S s \<Longrightarrow> booted S s'"
  by (induction ts arbitrary: s) (auto simp del: enabled_def split: if_splits intro: booted.step spawn_step.act)

text \<open>A system of the smaller target with one user program, whose fence and synchronisation objects open as soon as they may.\<close>

definition mppa256_sys :: spawn_sys where
  "mppa256_sys = \<lparr>sp_servers = mppa256_servers, sp_mains = mppa256_mains, sp_users = 1, sp_thread_max = 5, sp_starts = (\<lambda>_ _. True), sp_pause_fails = (\<lambda>_. False),
     fence_opens = (\<lambda>arrived k. list_all (\<lambda>t. k < arrived t) [Spawner 0, Spawner 1, User 0]),
     gather_opens = (\<lambda>signals k. k < signals 1), release_opens = (\<lambda>signals k. k < signals)\<rparr>"

lemma mppa256_laws: "sync_laws mppa256_sys"
  by (auto simp: sync_laws_def mppa256_sys_def mppa256_servers_def participant_def less_Suc_eq numeral_eq_Suc)

definition mppa256_until_ring1 :: "thread list" where
  "mppa256_until_ring1 = replicate 6 (Spawner 0) @ replicate 6 (Spawner 1) @ replicate 2 (User 0) @ replicate 2 (Spawner 0) @
     replicate 2 (Server 0 0) @ [Spawner 0] @ replicate 2 (Spawner 1) @ replicate 2 (Spawner 0) @ replicate 2 (Spawner 1)"

definition mppa256_until_user :: "thread list" where
  "mppa256_until_user = mppa256_until_ring1 @ replicate 2 (Server 1 0) @ replicate 2 (Spawner 1) @ replicate 2 (Spawner 0) @
     replicate 2 (Spawner 1) @ replicate 3 (Spawner 0) @ replicate 2 (Server 0 1) @ [Spawner 0] @ replicate 2 (Spawner 1) @ replicate 2 (Spawner 0) @
     replicate 2 (Spawner 1) @ replicate 2 (Spawner 0) @ replicate 2 (Spawner 1) @ replicate 3 (Spawner 0) @ replicate 2 (Spawner 1) @ replicate 4 (User 0)"

lemma mppa256_runs:
  "(case spawn_run mppa256_sys mppa256_until_ring1 (\<lambda>_. 0) of Some s \<Rightarrow> Thread_create 0 \<in> set (past mppa256_sys s (Spawner 1)) | None \<Rightarrow> False)"
  "(case spawn_run mppa256_sys mppa256_until_user (\<lambda>_. 0) of
      Some s \<Rightarrow> 2 \<le> taken mppa256_sys s (User 0) Fence_leave \<and> Runtime_setup SPAWN_RING_LAST \<in> set (past mppa256_sys s (User 0)) | None \<Rightarrow> False)"
  by code_simp+

text \<open>The hypotheses hold on the way to the first server of ring 1, and until the user's runtime is set up.\<close>

theorem spawn_ring_order_witness:
  "\<exists>s. booted mppa256_sys s \<and> Thread_create 0 \<in> set (past mppa256_sys s (Spawner 1)) \<and> server_up mppa256_sys s 0 0"
proof -
  from mppa256_runs(1) obtain s where s: "booted mppa256_sys s" "Thread_create 0 \<in> set (past mppa256_sys s (Spawner 1))"
    using booted_run [OF _ booted.start] by (auto split: option.splits)
  have "server_up mppa256_sys s 0 0"
    by (rule spawn_ring_order [OF mppa256_laws s(1) _ _ s(2)]) (simp_all add: mppa256_sys_def mppa256_servers_def spawn_rings)
  with s show ?thesis by blast
qed

theorem users_find_servers_up_witness:
  "\<exists>s. booted mppa256_sys s \<and> Runtime_setup SPAWN_RING_LAST \<in> set (past mppa256_sys s (User 0)) \<and>
     server_up mppa256_sys s 0 0 \<and> server_up mppa256_sys s 0 1 \<and> server_up mppa256_sys s 1 0"
proof -
  from mppa256_runs(2) obtain s where s: "booted mppa256_sys s" "2 \<le> taken mppa256_sys s (User 0) Fence_leave"
    "Runtime_setup SPAWN_RING_LAST \<in> set (past mppa256_sys s (User 0))"
    using booted_run [OF _ booted.start] by (auto split: option.splits)
  have "server_up mppa256_sys s 0 0" "server_up mppa256_sys s 0 1" "server_up mppa256_sys s 1 0"
    by (rule users_find_servers_up [OF mppa256_laws s(1) disjI1 [OF s(2)]]; simp add: mppa256_sys_def mppa256_servers_def spawn_rings)+
  with s show ?thesis by blast
qed

end
