(* ===== verification/SpawnLive.thy ===== *)
theory SpawnLive
  imports Spawn
begin

text \<open>
  The boot of the system ends: no assertion of a thread of \<open>Spawn\<close> fails, from every reachable state the threads can go on until each has
  finished or is a user program that waits for a handler of exceptions that does not end, and no run is infinite. The proof looks at
  a state in which nobody can act and shows, from what each program has done before each of its blocking actions, that everybody is done.
\<close>

section \<open>Before an action\<close>

text \<open>\<open>xs\<close> is what a program does before some occurrence of an action.\<close>

definition before :: "action list \<Rightarrow> action \<Rightarrow> action list \<Rightarrow> bool" where
  "before xs a p \<longleftrightarrow> prefix (xs @ [a]) p"

lemma before_simps:
  "\<not> before xs a []"
  "before xs a (b # p) \<longleftrightarrow> xs = [] \<and> a = b \<or> (\<exists>us. xs = b # us \<and> before us a p)"
  by (cases xs; auto simp: before_def)+

lemma before_append: "before xs a (p @ q) \<longleftrightarrow> before xs a p \<or> (\<exists>us. xs = p @ us \<and> before us a q)"
  by (induction p arbitrary: xs) (auto simp: before_simps)

lemma before_none: "a \<notin> set p \<Longrightarrow> \<not> before xs a p"
  by (induction p arbitrary: xs) (auto simp: before_simps)

lemma before_concat:
  assumes "before xs a (concat (map f rs))"
  obtains k us where "k < length rs" "xs = concat (map f (take k rs)) @ us" "before us a (f (rs ! k))"
  using assms
proof (induction rs arbitrary: xs thesis)
  case (Cons r rs)
  from Cons.prems(2) consider "before xs a (f r)" | us where "xs = f r @ us" "before us a (concat (map f rs))" by (auto simp: before_append)
  then show ?case
  proof cases
    case 1
    then show ?thesis using Cons.prems(1) [of 0 xs] by simp
  next
    case 2
    from Cons.IH [OF _ 2(2)] obtain k vs where "k < length rs" "us = concat (map f (take k rs)) @ vs" "before vs a (f (rs ! k))" by blast
    with 2(1) Cons.prems(1) [of "Suc k" vs] show ?thesis by simp
  qed
qed (simp add: before_simps)

section \<open>Blocking actions of a spawner\<close>

lemmas spawner_parts = spawner_begin_def spawner_end_def spawn_barrier_setup_def spawn_barrier_cleanup_def stdsync_fence_def

lemma ring_no_fence: "a \<in> {Fence_enter, Fence_leave} \<Longrightarrow> a \<notin> set (concat (map (spawn_ring leader sv) rs))"
  using set_spawn_ring [of leader sv] by (force simp: bar_first_def bar_second_def split: if_splits)

lemma ring_fences [simp]: "a \<in> {Fence_enter, Fence_leave} \<Longrightarrow> count_list (concat (map (spawn_ring leader sv) rs)) a = 0"
  using ring_no_fence by (metis count_list_0_iff)

lemma joins_count [simp]: "\<forall>i. a \<noteq> Thread_join i \<Longrightarrow> count_list (map Thread_join is) a = 0"
  by (auto simp: count_list_0_iff)

lemma servers_count [simp]: "a \<in> {Fence_enter, Fence_leave} \<Longrightarrow> count_list (spawn_servers sv r) a = 0"
  using set_spawn_servers [of sv r] by (auto simp: count_list_0_iff)

lemma bar_neq [simp]:
  "bar_first leader \<noteq> Fence_enter" "bar_first leader \<noteq> Fence_leave" "bar_second leader \<noteq> Fence_enter" "bar_second leader \<noteq> Fence_leave"
  "Fence_enter \<noteq> bar_first leader" "Fence_leave \<noteq> bar_first leader" "Fence_enter \<noteq> bar_second leader" "Fence_leave \<noteq> bar_second leader"
  "bar_first leader \<noteq> Thread_join i" "bar_second leader \<noteq> Thread_join i" "Thread_join i \<noteq> bar_first leader" "Thread_join i \<noteq> bar_second leader"
  by (simp_all add: bar_first_def bar_second_def)

definition stage :: "bool \<Rightarrow> action list \<Rightarrow> nat \<times> nat \<times> nat \<times> nat" where
  "stage leader xs = (count_list xs Fence_enter, count_list xs Fence_leave, count_list xs (bar_first leader), count_list xs (bar_second leader))"

lemma stage_begin: "stage leader (spawner_begin m leader sv) = (1, 1, 0, 0)"
  by (simp add: stage_def no_barrier) (simp add: spawner_parts)

lemma stage_rings: "stage leader (concat (map (spawn_ring leader sv) rs)) = (0, 0, length rs, length rs)"
  by (simp add: stage_def count_rings)

lemma stage_append: "stage leader (xs @ ys) = (case (stage leader xs, stage leader ys) of ((a, b, c, d), (a', b', c', d')) \<Rightarrow> (a + a', b + b', c + c', d + d'))"
  by (simp add: stage_def)

text \<open>The final part of a spawner.\<close>

definition spawner_last :: "bool \<Rightarrow> action list" where
  "spawner_last leader = spawn_barrier_cleanup leader @ [Runtime_cleanup]"

lemma spawner_end_eq:
  "spawner_end leader sv = stdsync_fence @ stdsync_fence @ stdsync_fence @ map Thread_join [0..<length sv] @ [bar_first leader, bar_second leader] @ spawner_last leader"
  by (simp add: spawner_end_def spawner_last_def barrier_wait_eq)

lemma last_acts: "a \<in> set (spawner_last leader) \<Longrightarrow> a \<notin> {Fence_enter, Fence_leave, bar_first leader, bar_second leader, Sem_down} \<and> (\<forall>i. a \<noteq> Thread_join i)"
  by (auto simp: spawner_last_def spawn_barrier_cleanup_def bar_first_def bar_second_def split: if_splits)

lemma no_in_last: "barrier_act a \<or> a = Fence_leave \<or> a = Sem_down \<or> (\<exists>i. a = Thread_join i) \<Longrightarrow> \<not> before us a (spawner_last leader)"
  by (rule before_none) (auto simp: spawner_last_def spawn_barrier_cleanup_def barrier_act_def)

lemma stage_last: "stage leader (spawner_last leader) = (0, 0, 0, 0)"
  using last_acts [of _ leader] by (auto simp: stage_def count_list_0_iff)

lemma stage_end:
  "stage leader [] = (0, 0, 0, 0)" "stage leader stdsync_fence = (1, 1, 0, 0)" "stage leader (map Thread_join is) = (0, 0, 0, 0)"
  "stage leader [bar_first leader, bar_second leader] = (0, 0, 1, 1)"
  by (simp_all add: stage_def stdsync_fence_def)

lemmas stages = stage_append stage_begin stage_rings stage_last stage_end rings_eq(2)

lemma stage_spawner: "stage leader (spawner_main m leader sv) = (4, 4, 7, 7)"
  by (simp add: spawner_main_parts spawner_end_eq stages del: append.simps)

definition spawner_first :: "nat \<Rightarrow> bool \<Rightarrow> int list \<Rightarrow> action list" where
  "spawner_first m leader sv = [Uassert (length sv + 1 \<le> m), Runtime_setup SPAWN_RING_0, Sem_init] @ spawn_barrier_setup leader"

lemma spawner_main_eq:
  "spawner_main m leader sv = spawner_first m leader sv @ stdsync_fence @ concat (map (spawn_ring leader sv) rings) @ stdsync_fence @ stdsync_fence @ stdsync_fence @
      map Thread_join [0..<length sv] @ [bar_first leader, bar_second leader] @ spawner_last leader"
  by (simp add: spawner_main_parts spawner_end_eq spawner_begin_def spawner_first_def)

lemma stage_first: "stage leader (spawner_first m leader sv) = (0, 0, 0, 0)"
  by (auto simp: spawner_first_def spawn_barrier_setup_def stage_def bar_first_def bar_second_def)

text \<open>No part but the one meant has the action.\<close>

lemma no_in_parts:
  "barrier_act a \<or> a = Fence_leave \<or> a = Sem_down \<or> (\<exists>i. a = Thread_join i) \<Longrightarrow> \<not> before us a (spawner_first m leader sv)"
  "\<forall>i. a \<noteq> Thread_join i \<Longrightarrow> \<not> before us a (map Thread_join is)"
  "before us a stdsync_fence \<longleftrightarrow> us = [] \<and> a = Fence_enter \<or> us = [Fence_enter] \<and> a = Fence_leave"
  "before us a [b, c] \<longleftrightarrow> us = [] \<and> a = b \<or> us = [b] \<and> a = c"
proof -
  show "\<not> before us a (spawner_first m leader sv)" if "barrier_act a \<or> a = Fence_leave \<or> a = Sem_down \<or> (\<exists>i. a = Thread_join i)"
    using that by (intro before_none) (auto simp: spawner_first_def spawn_barrier_setup_def barrier_act_def)
  show "\<not> before us a (map Thread_join is)" if "\<forall>i. a \<noteq> Thread_join i" using that by (intro before_none) auto
qed (auto simp: stdsync_fence_def before_simps)

lemma not_in_rings:
  "\<not> before us Fence_leave (concat (map (spawn_ring leader sv) rs))" "\<not> before us (Thread_join i) (concat (map (spawn_ring leader sv) rs))"
proof -
  show "\<not> before us Fence_leave (concat (map (spawn_ring leader sv) rs))" by (rule before_none, rule ring_no_fence) simp
  show "\<not> before us (Thread_join i) (concat (map (spawn_ring leader sv) rs))"
    by (rule before_none) (use set_spawn_ring [of leader sv] in \<open>fastforce simp: bar_first_def bar_second_def split: if_splits\<close>)
qed

lemma in_rings:
  assumes "before us a (concat (map (spawn_ring leader sv) rings))"
  obtains k vs where "k < 6" "us = concat (map (spawn_ring leader sv) (take k rings)) @ vs" "before vs a (spawn_servers sv (int k))"
  | k where "k < 6" "us = concat (map (spawn_ring leader sv) (take k rings)) @ spawn_servers sv (int k)" "a = bar_first leader"
  | k where "k < 6" "us = concat (map (spawn_ring leader sv) (take k rings)) @ spawn_servers sv (int k) @ [bar_first leader]" "a = bar_second leader"
proof -
  from assms obtain k vs where k: "k < length rings" "us = concat (map (spawn_ring leader sv) (take k rings)) @ vs" "before vs a (spawn_ring leader sv (rings ! k))"
    by (rule before_concat)
  have k6: "k < 6" "rings ! k = int k" using k(1) rings_eq(2) rings_eq(3) [of k] by simp_all
  from k(3) consider "before vs a (spawn_servers sv (int k))" | "vs = spawn_servers sv (int k)" "a = bar_first leader"
    | "vs = spawn_servers sv (int k) @ [bar_first leader]" "a = bar_second leader"
    unfolding k6(2) spawn_ring_def barrier_wait_eq before_append no_in_parts(4) by auto
  then show thesis using that(1) [OF k6(1)] that(2) [OF k6(1)] that(3) [OF k6(1)] k(2) by cases blast+
qed

lemma stage_rest:
  "stage leader (spawn_servers sv r) = (0, 0, 0, 0)" "stage leader [Fence_enter] = (1, 0, 0, 0)" "stage leader [bar_first leader] = (0, 0, 1, 0)"
  by (simp_all add: stage_def no_barrier)

lemmas spawner_stages = stages stage_first stage_rest

text \<open>Where a spawner is when it waits on the fence, on either object of the barrier, or for a server to end.\<close>

lemma spawner_at_fence:
  assumes "before xs Fence_leave (spawner_main m leader sv)"
  shows "stage leader xs \<in> {(1, 0, 0, 0), (2, 1, 6, 6), (3, 2, 6, 6), (4, 3, 6, 6)}"
  using assms unfolding spawner_main_eq before_append
  using no_in_parts [where a = Fence_leave] not_in_rings(1) no_in_last [where a = Fence_leave]
  by (elim disjE exE conjE) (simp_all add: spawner_stages del: append.simps)

lemma spawner_at_first:
  assumes "before xs (bar_first leader) (spawner_main m leader sv)"
  shows "(\<exists>k<6. stage leader xs = (1, 1, k, k)) \<or> stage leader xs = (4, 4, 6, 6)"
proof -
  have r: "\<exists>k<6. stage leader us = (0, 0, k, k)" if "before us (bar_first leader) (concat (map (spawn_ring leader sv) rings))" for us
    using that
  proof (cases rule: in_rings)
    case (1 k vs)
    then show ?thesis using before_none [of "bar_first leader" "spawn_servers sv (int k)" vs] no_barrier(1) [of "bar_first leader" sv "int k"]
      by (simp add: count_list_0_iff)
  qed (auto simp: spawner_stages simp del: append.simps)
  from assms consider us where "xs = spawner_first m leader sv @ stdsync_fence @ us" "before us (bar_first leader) (concat (map (spawn_ring leader sv) rings))"
    | "xs = spawner_first m leader sv @ stdsync_fence @ concat (map (spawn_ring leader sv) rings) @ stdsync_fence @ stdsync_fence @ stdsync_fence @ map Thread_join [0..<length sv]"
    unfolding spawner_main_eq before_append by (auto simp: no_in_parts no_in_last)
  then show ?thesis
  proof cases
    case 1
    from r [OF 1(2)] show ?thesis by (auto simp: 1(1) spawner_stages simp del: append.simps)
  next
    case 2
    then show ?thesis by (simp add: spawner_stages del: append.simps)
  qed
qed

lemma spawner_at_second:
  assumes "before xs (bar_second leader) (spawner_main m leader sv)"
  shows "(\<exists>k<6. stage leader xs = (1, 1, Suc k, k)) \<or> stage leader xs = (4, 4, 7, 6)"
proof -
  have r: "\<exists>k<6. stage leader us = (0, 0, Suc k, k)" if "before us (bar_second leader) (concat (map (spawn_ring leader sv) rings))" for us
    using that
  proof (cases rule: in_rings)
    case (1 k vs)
    then show ?thesis using before_none [of "bar_second leader" "spawn_servers sv (int k)" vs] no_barrier(1) [of "bar_second leader" sv "int k"]
      by (simp add: count_list_0_iff)
  qed (auto simp: spawner_stages simp del: append.simps)
  from assms consider us where "xs = spawner_first m leader sv @ stdsync_fence @ us" "before us (bar_second leader) (concat (map (spawn_ring leader sv) rings))"
    | "xs = spawner_first m leader sv @ stdsync_fence @ concat (map (spawn_ring leader sv) rings) @ stdsync_fence @ stdsync_fence @ stdsync_fence @ map Thread_join [0..<length sv] @ [bar_first leader]"
    unfolding spawner_main_eq before_append by (auto simp: no_in_parts no_in_last)
  then show ?thesis
  proof cases
    case 1
    from r [OF 1(2)] show ?thesis by (auto simp: 1(1) spawner_stages simp del: append.simps)
  next
    case 2
    then show ?thesis by (simp add: spawner_stages del: append.simps)
  qed
qed

lemma spawner_at_join:
  assumes "before xs (Thread_join i) (spawner_main m leader sv)"
  shows "i < length sv" "stage leader xs = (4, 4, 6, 6)" "set (concat (map (spawn_ring leader sv) rings)) \<subseteq> set xs"
proof -
  have j: "i < length sv \<and> (\<exists>js. us = map Thread_join js)" if b: "before us (Thread_join i) (map Thread_join [0..<length sv])" for us
  proof -
    obtain zs where z: "map Thread_join [0..<length sv] = us @ Thread_join i # zs" using b by (auto simp: before_def prefix_def)
    have "Thread_join i \<in> set (map Thread_join [0..<length sv])" unfolding z by simp
    moreover have "us = map Thread_join (take (length us) [0..<length sv])" using arg_cong [OF z, of "take (length us)"] by (simp add: take_map)
    ultimately show ?thesis by auto
  qed
  from assms obtain us where us: "xs = spawner_first m leader sv @ stdsync_fence @ concat (map (spawn_ring leader sv) rings) @ stdsync_fence @ stdsync_fence @ stdsync_fence @ us"
    "before us (Thread_join i) (map Thread_join [0..<length sv])"
    unfolding spawner_main_eq before_append by (auto simp: no_in_parts no_in_last not_in_rings)
  from j [OF us(2)] obtain js where js: "i < length sv" "us = map Thread_join js" by blast
  show "i < length sv" by (rule js(1))
  show "stage leader xs = (4, 4, 6, 6)" by (simp add: us(1) js(2) spawner_stages del: append.simps)
  show "set (concat (map (spawn_ring leader sv) rings)) \<subseteq> set xs" unfolding us(1) set_append by blast
qed


text \<open>Before it waits for a server, a spawner has created one more than it has waited for, and no server twice.\<close>

definition exact :: "action list \<Rightarrow> bool" where
  "exact p \<longleftrightarrow> (\<forall>xs. before xs Sem_down p \<longrightarrow> creates xs = Suc (count_list xs Sem_down))"

lemma exact_append: "paced p \<Longrightarrow> exact p \<Longrightarrow> exact q \<Longrightarrow> exact (p @ q)"
  by (auto simp: exact_def paced_def before_append)

lemma exact_concat: "\<forall>x \<in> set xs. paced (f x) \<and> exact (f x) \<Longrightarrow> exact (concat (map f xs))"
  by (induction xs) (auto simp: exact_append, auto simp: exact_def before_simps)

lemma exact_other: "Sem_down \<notin> set p \<Longrightarrow> exact p"
  by (simp add: exact_def before_none)

lemma exact_spawner: "exact (spawner_main m leader sv)"
proof -
  have s: "exact (spawn_servers sv r)" for r
    unfolding spawn_servers_def by (rule exact_concat) (auto simp: paced_def exact_def before_simps prefix_Cons)
  have w: "exact (spawn_barrier_wait leader)" by (rule exact_other) (auto simp: spawn_barrier_wait_def)
  have "exact (concat (map (spawn_ring leader sv) rings))"
    by (rule exact_concat) (simp add: spawn_ring_def paced_append exact_append paced_servers paced_wait s w)
  moreover have "exact (spawner_begin m leader sv)" "exact (spawner_end leader sv)"
    by (rule exact_other, auto simp: spawner_parts spawn_barrier_wait_def)+
  ultimately show ?thesis by (simp add: spawner_main_parts exact_append paced_begin paced_rings)
qed

abbreviation is_create :: "action \<Rightarrow> bool" where "is_create a \<equiv> \<exists>i. a = Thread_create i"

lemma filter_create_ring: "filter is_create (spawn_ring leader sv r) = map Thread_create (filter (\<lambda>i. sv ! i = r) [0..<length sv])"
proof -
  have "filter is_create (concat (map (\<lambda>i. if sv ! i = r then [Thread_create i, Sem_down] else []) is)) = map Thread_create (filter (\<lambda>i. sv ! i = r) is)" for "is"
    by (induction "is") simp_all
  then show ?thesis by (simp add: spawn_ring_def spawn_servers_def spawn_barrier_wait_def)
qed

lemma distinct_creates: "distinct (filter is_create (spawner_main m leader sv))"
proof -
  have "distinct rs \<Longrightarrow> distinct (filter is_create (concat (map (spawn_ring leader sv) rs)))" for rs
    by (induction rs) (auto simp: filter_create_ring distinct_map inj_on_def, auto simp: spawn_ring_def spawn_servers_def spawn_barrier_wait_def split: if_splits)
  moreover have "filter is_create (spawner_begin m leader sv) = []" "filter is_create (spawner_end leader sv) = []"
    by (auto simp: filter_empty_conv spawner_parts spawn_barrier_wait_def)
  moreover have "distinct rings" by (simp add: rings_eq(1))
  ultimately show ?thesis by (simp only: spawner_main_parts filter_append append_Nil append_Nil2)
qed

lemma card_created_exact:
  assumes "before xs Sem_down (spawner_main m leader sv)"
  shows "card {i. Thread_create i \<in> set xs} = Suc (count_list xs Sem_down)"
proof -
  obtain zs where "spawner_main m leader sv = xs @ zs" using assms by (auto simp: before_def prefix_def)
  then have d: "distinct (filter is_create xs)" using distinct_creates [of m leader sv] by simp
  have "card {i. Thread_create i \<in> set xs} = card (Thread_create ` {i. Thread_create i \<in> set xs})" by (rule card_image [symmetric]) (simp add: inj_on_def)
  also have "Thread_create ` {i. Thread_create i \<in> set xs} = set (filter is_create xs)" by auto
  also have "card \<dots> = creates xs" unfolding creates_def by (rule distinct_card [OF d])
  also have "\<dots> = Suc (count_list xs Sem_down)" using exact_spawner assms by (simp add: exact_def)
  finally show ?thesis .
qed

lemma all_created:
  assumes "set (concat (map (spawn_ring leader sv) rings)) \<subseteq> set xs" "i < length sv" "0 \<le> sv ! i" "sv ! i \<le> SPAWN_RING_LAST"
  shows "Thread_create i \<in> set xs"
proof -
  have "sv ! i \<in> set rings" using assms(3,4) by (auto simp: rings_def spawn_rings)
  moreover have "Thread_create i \<in> set (spawn_ring leader sv (sv ! i))" using assms(2) by (force simp: spawn_ring_def spawn_servers_def)
  ultimately show ?thesis using assms(1) by auto
qed

section \<open>Blocking actions of users and servers\<close>

lemma user_at_fence:
  assumes "before xs Fence_leave (user_main leader)"
  shows "count_list xs Fence_enter = Suc (count_list xs Fence_leave)" "count_list xs Fence_leave < 4"
  using assms by (auto simp: user_main_def stdsync_fence_def before_simps before_append split: if_splits)

lemma user_done: "count_list (user_main leader) Fence_enter = 4" "Shutdown \<in> set (user_main True)"
  by (simp_all add: user_main_def stdsync_fence_def)

lemma user_at_cleanup:
  assumes "before xs Runtime_cleanup (user_main leader)"
  shows "count_list xs Fence_enter = 4" "leader \<Longrightarrow> Shutdown \<in> set xs" "Suc (length xs) = length (user_main leader)"
  using assms by (auto simp: user_main_def stdsync_fence_def before_simps before_append split: if_splits)

lemma user_at_name:
  assumes "before xs a (user_main leader)" "a \<in> {Runtime_setup SPAWN_RING_LAST, Set_pname, Unlink_pname}"
  shows "2 \<le> count_list xs Fence_leave" "count_list xs Fence_enter < 4"
  using assms by (auto simp: user_main_def stdsync_fence_def before_simps before_append spawn_rings split: if_splits)

lemma user_past_shutdown:
  assumes "prefix xs (user_main leader)" "Shutdown \<in> set xs"
  shows "count_list xs Fence_leave = 4"
  using assms by (auto simp: user_main_def stdsync_fence_def prefix_Cons prefix_append split: if_splits)

lemma server_prog:
  assumes "0 \<le> r" "r \<le> SPAWN_RING_LAST"
  shows "server r m True = (if m = Hello_server then [Runtime_setup r, Sem_up, Runtime_cleanup] else [Runtime_setup r, Sem_up, Serve, Runtime_cleanup])"
  using assms by (cases m) (simp_all add: server_def name_server_def do_server_def hello_server_def spawn_rings)


section \<open>States in which nobody can act\<close>

text \<open>
  What the progress of the boot needs: the fence and the objects open as soon as they may. \<open>boot_ok\<close> is about the tables of servers: there is a user
  program on the leader cluster and a name server, the threads of each cluster suffice, every server has a ring and starts (and, were it in ring 5, its handler
  of exceptions ends), the servers it connects to while it starts are in lower rings, and at most one server of a cluster is in ring 2 or above.
\<close>

definition sync_live :: "spawn_sys \<Rightarrow> bool" where
  "sync_live S \<longleftrightarrow>
     (\<forall>arrived k. (\<forall>t. participant S t \<longrightarrow> k < arrived t) \<longrightarrow> fence_opens S arrived k) \<and>
     (\<forall>signals k. (\<forall>m. 0 < m \<longrightarrow> m < sp_nodes S \<longrightarrow> k < signals m) \<longrightarrow> gather_opens S signals k) \<and>
     (\<forall>signals k. k < signals \<longrightarrow> release_opens S signals k)"

lemma sync_liveD:
  assumes "sync_live S"
  shows "\<not> fence_opens S arrived k \<Longrightarrow> \<exists>t. participant S t \<and> arrived t \<le> k"
    "\<not> gather_opens S signals k \<Longrightarrow> \<exists>m>0. m < sp_nodes S \<and> signals m \<le> k"
    "\<not> release_opens S signal k \<Longrightarrow> signal \<le> k"
  using assms unfolding sync_live_def by (meson not_less)+

definition starts_after :: "spawn_sys \<Rightarrow> int \<Rightarrow> main_function \<Rightarrow> bool" where
  "starts_after S ring m \<longleftrightarrow> all_servers S (\<lambda>n i. ring_needs ring (sp_mains S ! n ! i) \<or> links_name m \<and> sp_mains S ! n ! i = Name_server \<longrightarrow>
     sp_servers S ! n ! i < ring)"

definition boot_ok :: "spawn_sys \<Rightarrow> bool" where
  "boot_ok S \<longleftrightarrow> 0 < sp_users S \<and> some_server S (\<lambda>n i. sp_mains S ! n ! i = Name_server) \<and>
     list_all (\<lambda>n. length (sp_servers S ! n) < sp_thread_max S) [0..<sp_nodes S] \<and>
     all_servers S (\<lambda>n i. let ring = sp_servers S ! n ! i in
       0 \<le> ring \<and> ring \<le> SPAWN_RING_LAST \<and> sp_starts S n i \<and> (ring < SPAWN_RING_5 \<or> sp_pause_fails S (Server n i)) \<and>
       starts_after S ring (sp_mains S ! n ! i) \<and>
       list_all (\<lambda>j. j \<noteq> i \<longrightarrow> ring < SPAWN_RING_2 \<or> sp_servers S ! n ! j < SPAWN_RING_2) [0..<length (sp_servers S ! n)])"

lemma all_servers_iff: "all_servers S P \<longleftrightarrow> (\<forall>n < sp_nodes S. \<forall>i < length (sp_servers S ! n). P n i)"
  by (auto simp: all_servers_def list_all_iff)

lemma some_server_iff: "some_server S P \<longleftrightarrow> (\<exists>n < sp_nodes S. \<exists>i < length (sp_servers S ! n). P n i)"
  unfolding some_server_def list_ex_iff set_upt Bex_def atLeastLessThan_iff by blast

lemma boot_okD:
  assumes "boot_ok S"
  shows "0 < sp_nodes S" "0 < sp_users S" "\<exists>n < sp_nodes S. \<exists>i < length (sp_servers S ! n). sp_mains S ! n ! i = Name_server"
    "n < sp_nodes S \<Longrightarrow> length (sp_servers S ! n) < sp_thread_max S"
    "n < sp_nodes S \<Longrightarrow> i < length (sp_servers S ! n) \<Longrightarrow> 0 \<le> sp_servers S ! n ! i \<and> sp_servers S ! n ! i \<le> SPAWN_RING_LAST \<and> sp_starts S n i \<and>
      (sp_servers S ! n ! i < SPAWN_RING_5 \<or> sp_pause_fails S (Server n i)) \<and> starts_after S (sp_servers S ! n ! i) (sp_mains S ! n ! i) \<and>
      (\<forall>j < length (sp_servers S ! n). j \<noteq> i \<longrightarrow> sp_servers S ! n ! i < SPAWN_RING_2 \<or> sp_servers S ! n ! j < SPAWN_RING_2)"
proof -
  show n: "\<exists>n < sp_nodes S. \<exists>i < length (sp_servers S ! n). sp_mains S ! n ! i = Name_server" using assms by (simp add: boot_ok_def some_server_iff)
  from n show "0 < sp_nodes S" by linarith
  show "0 < sp_users S" using assms by (simp add: boot_ok_def)
  show "length (sp_servers S ! n) < sp_thread_max S" if "n < sp_nodes S" using assms that by (simp add: boot_ok_def list_all_iff)
  show "0 \<le> sp_servers S ! n ! i \<and> sp_servers S ! n ! i \<le> SPAWN_RING_LAST \<and> sp_starts S n i \<and>
      (sp_servers S ! n ! i < SPAWN_RING_5 \<or> sp_pause_fails S (Server n i)) \<and> starts_after S (sp_servers S ! n ! i) (sp_mains S ! n ! i) \<and>
      (\<forall>j < length (sp_servers S ! n). j \<noteq> i \<longrightarrow> sp_servers S ! n ! i < SPAWN_RING_2 \<or> sp_servers S ! n ! j < SPAWN_RING_2)"
    if "n < sp_nodes S" "i < length (sp_servers S ! n)"
    using assms that unfolding boot_ok_def all_servers_iff Let_def list_all_iff by auto
qed

section \<open>No assertion fails\<close>

text \<open>The servers are shut down after every participant has entered the last fence, and so after all of them are up.\<close>

lemma shutdown_late:
  assumes "sync_laws S" "booted S s" "0 < taken S s (User 0) Shutdown"
  shows "taken S s (User 0) Fence_leave = 4" "participant S p \<Longrightarrow> 4 \<le> taken S s p Fence_enter"
proof -
  have "Shutdown \<in> set (past S s (User 0))" using assms(3) by (simp add: taken_def count_list_0_iff flip: neq0_conv)
  moreover have "prefix (past S s (User 0)) (if 0 < sp_users S then user_main True else [])" using past_prefix [of S s "User 0"] by (simp split: if_splits)
  ultimately show f: "taken S s (User 0) Fence_leave = 4" using user_past_shutdown by (auto simp: taken_def split: if_splits)
  show "4 \<le> taken S s p Fence_enter" if "participant S p" using spawn_invD(1) [OF booted_inv [OF assms(1,2)] that, of "User 0"] f by simp
qed

lemma not_up_running:
  assumes "sync_laws S" "booted S s" "boot_ok S" "n < sp_nodes S" "i < length (sp_servers S ! n)" "\<not> server_up S s n i"
  shows "taken S s (User 0) Shutdown = 0"
  using shutdown_late(1) [OF assms(1,2)] second_fence_up [OF assms(1,2) _ assms(4,5), of 0] boot_okD(5) [OF assms(3-5)] assms(6) by fastforce

text \<open>The servers in lower rings that a server which starts needs.\<close>

lemma server_finds_lower:
  assumes "sync_laws S" "booted S s" "boot_ok S" "n < sp_nodes S" "i < length (sp_servers S ! n)" "Thread_create i \<in> set (past S s (Spawner n))"
    and "m < sp_nodes S" "j < length (sp_servers S ! m)"
      "ring_needs (sp_servers S ! n ! i) (sp_mains S ! m ! j) \<or> links_name (sp_mains S ! n ! i) \<and> sp_mains S ! m ! j = Name_server"
  shows "server_up S s m j"
proof -
  note n = boot_okD(5) [OF assms(3-5)] and m = boot_okD(5) [OF assms(3,7,8)]
  have "sp_servers S ! m ! j < sp_servers S ! n ! i" using n assms(7-9) unfolding starts_after_def all_servers_iff by blast
  then show ?thesis using lower_rings_up [OF assms(1,2,4,7,6,8)] n m by simp
qed

lemma server_names_answer:
  assumes "sync_laws S" "booted S s" "boot_ok S" "n < sp_nodes S" "i < length (sp_servers S ! n)" "Thread_create i \<in> set (past S s (Spawner n))"
    "\<not> server_up S s n i" "SPAWN_RING_3 \<le> sp_servers S ! n ! i \<or> links_name (sp_mains S ! n ! i)"
  shows "names_answer S s"
proof -
  obtain m j where m: "m < sp_nodes S" "j < length (sp_servers S ! m)" "sp_mains S ! m ! j = Name_server" using boot_okD(3) [OF assms(3)] by blast
  have "server_up S s m j" by (rule server_finds_lower [OF assms(1-6) m(1,2)]) (use m(3) assms(8) in \<open>auto simp: ring_needs_def\<close>)
  then show ?thesis using m not_up_running [OF assms(1-5,7)] unfolding names_answer_def some_server_iff by blast
qed

lemma user_asserts:
  assumes "sync_laws S" "booted S s" "boot_ok S" "u < sp_users S" "before (past S s (User u)) a (user_main (u = 0))"
  shows "asserts S s (User u) a"
proof (cases "a \<in> {Runtime_setup SPAWN_RING_LAST, Set_pname, Unlink_pname}")
  case True
  note f = user_at_name [OF assms(5) True]
  have up: "server_up S s m j" if "m < sp_nodes S" "j < length (sp_servers S ! m)" for m j
    by (rule second_fence_up [OF assms(1,2) _ that, of u]) (use f(1) boot_okD(5) [OF assms(3) that] in \<open>simp_all add: taken_def\<close>)
  have "participant S (User u)" using assms(4) by (auto simp: participant_def)
  then have "taken S s (User 0) Shutdown = 0" using shutdown_late(2) [OF assms(1,2)] f(2) by (force simp: taken_def)
  then have "names_answer S s" using up boot_okD(3) [OF assms(3)] unfolding names_answer_def some_server_iff by blast
  then show ?thesis using True up by (auto simp: all_servers_iff)
next
  case False
  have "a \<in> set (user_main (u = 0))" using assms(5) before_none by blast
  with False show ?thesis by (auto simp: user_main_def stdsync_fence_def spawn_rings split: if_splits)
qed

lemma server_asserts:
  assumes "sync_laws S" "booted S s" "boot_ok S" "n < sp_nodes S" "i < length (sp_servers S ! n)" "Thread_create i \<in> set (past S s (Spawner n))"
    "before (past S s (Server n i)) a (program S (Server n i))"
  shows "asserts S s (Server n i) a"
proof -
  let ?r = "sp_servers S ! n ! i" and ?m = "sp_mains S ! n ! i"
  note ok = boot_okD(5) [OF assms(3-5)]
  have "program S (Server n i) = server ?r ?m True" using ok assms(4,5) by simp
  then have b: "before (past S s (Server n i)) a (server ?r ?m True)" using assms(7) by (simp only:)
  have p: "server ?r ?m True = (if ?m = Hello_server then [Runtime_setup ?r, Sem_up, Runtime_cleanup] else [Runtime_setup ?r, Sem_up, Serve, Runtime_cleanup])"
    using ok by (intro server_prog) simp_all
  have down: "\<not> server_up S s n i" if "a = Runtime_setup ?r \<or> a = Sem_up"
    using that b unfolding p by (auto simp: server_up_def before_simps split: if_splits)
  from b consider "a = Runtime_setup ?r" | "a = Sem_up" | "a = Serve" | "a = Runtime_cleanup" unfolding p by (auto simp: before_simps split: if_splits)
  then show ?thesis
  proof cases
    case 1
    have "names_answer S s \<and> (\<forall>m < sp_nodes S. \<forall>j < length (sp_servers S ! m). ring_needs ?r (sp_mains S ! m ! j) \<longrightarrow> server_up S s m j)" if "SPAWN_RING_3 \<le> ?r"
      using server_names_answer [OF assms(1-6) down] server_finds_lower [OF assms(1-6)] that 1 by blast
    then show ?thesis using 1 by (auto simp: all_servers_iff not_less)
  next
    case 2
    then show ?thesis using server_names_answer [OF assms(1-6) down] by simp
  next
    case 4
    then show ?thesis using ok by (auto simp: list_all_iff)
  qed simp
qed

lemma spawner_asserts:
  assumes "boot_ok S" "n < sp_nodes S" "a \<in> set (spawner_main (sp_thread_max S) (n = 0) (sp_servers S ! n))"
  shows "asserts S s (Spawner n) a"
  using assms(3) boot_okD(4) [OF assms(1,2)]
  by (auto simp: spawner_main_def spawn_ring_def spawn_servers_def spawn_barrier_wait_def spawn_barrier_setup_def spawn_barrier_cleanup_def stdsync_fence_def
      spawn_rings split: if_splits)

lemma before_next:
  assumes "s t < length (program S t)"
  shows "before (past S s t) (program S t ! s t) (program S t)"
  using assms by (simp add: before_def past_def take_Suc_conv_app_nth [symmetric] take_is_prefix)

lemma never_aborts:
  assumes "sync_laws S" "boot_ok S" "booted S s" "s t < length (program S t)" "started S s t"
  shows "asserts S s t (program S t ! s t)"
proof -
  let ?a = "program S t ! s t"
  note b = before_next [of s t S, OF assms(4)]
  show ?thesis
  proof (cases t)
    case (Spawner n)
    then have n: "n < sp_nodes S" using assms(4) by (simp split: if_splits)
    have "?a \<in> set (spawner_main (sp_thread_max S) (n = 0) (sp_servers S ! n))" using nth_mem [OF assms(4)] n Spawner by simp
    then show ?thesis unfolding Spawner by (intro spawner_asserts [OF assms(2) n]) (simp add: Spawner)
  next
    case (Server n i)
    then have n: "n < sp_nodes S" "i < length (sp_servers S ! n)" using assms(4) by (auto split: if_splits)
    have "Thread_create i \<in> set (past S s (Spawner n))" using assms(5) Server by simp
    then show ?thesis using server_asserts [OF assms(1,3,2) n] b Server by blast
  next
    case (User u)
    then have u: "u < sp_users S" using assms(4) by (simp split: if_splits)
    then show ?thesis using user_asserts [OF assms(1,3,2) u, of ?a] b User by simp
  qed
qed

section \<open>Who waits\<close>

definition stuck :: "spawn_sys \<Rightarrow> spawn_state \<Rightarrow> bool" where
  "stuck S s \<longleftrightarrow> sync_live S \<and> boot_ok S \<and> spawn_inv S s \<and> (\<forall>t. s t \<le> length (program S t)) \<and>
     (\<forall>t. s t < length (program S t) \<longrightarrow> started S s t \<longrightarrow> \<not> opens S s t (program S t ! s t))"

lemma stuckD:
  assumes "stuck S s"
  shows "sync_live S" "boot_ok S" "spawn_inv S s" "s t \<le> length (program S t)"
  using assms by (simp_all add: stuck_def)

lemma stuck_blocked:
  assumes "stuck S s" "started S s t"
  obtains (ended) "past S s t = program S t" "finished S s t" | (blocked) a where "before (past S s t) a (program S t)" "\<not> opens S s t a"
proof (cases "s t < length (program S t)")
  case True
  note before_next [of s t S, OF True]
  then show ?thesis using True assms blocked by (simp add: stuck_def)
next
  case False
  then have "s t = length (program S t)" using stuckD(4) [OF assms(1), of t] by simp
  then show ?thesis using ended by (simp add: past_def finished_def)
qed

lemma servers_up:
  assumes "stuck S s" "n < sp_nodes S" "i < length (sp_servers S ! n)" "Thread_create i \<in> set (past S s (Spawner n))"
  shows "Sem_up \<in> set (past S s (Server n i))" "0 < taken S s (User 0) Shutdown \<Longrightarrow> finished S s (Server n i)"
proof -
  let ?r = "sp_servers S ! n ! i" and ?m = "sp_mains S ! n ! i"
  note ok = boot_okD(5) [OF stuckD(2) [OF assms(1)] assms(2,3)]
  have "program S (Server n i) = server ?r ?m True" using ok assms(2,3) by simp
  also have "\<dots> = (if ?m = Hello_server then [Runtime_setup ?r, Sem_up, Runtime_cleanup] else [Runtime_setup ?r, Sem_up, Serve, Runtime_cleanup])"
    using ok by (intro server_prog) simp_all
  finally have p: "program S (Server n i) = (if ?m = Hello_server then [Runtime_setup ?r, Sem_up, Runtime_cleanup] else [Runtime_setup ?r, Sem_up, Serve, Runtime_cleanup])" .
  have "started S s (Server n i)" using assms(4) by simp
  with assms(1) have "Sem_up \<in> set (past S s (Server n i)) \<and> (0 < taken S s (User 0) Shutdown \<longrightarrow> finished S s (Server n i))"
  proof (cases rule: stuck_blocked)
    case ended
    then show ?thesis unfolding p by auto
  next
    case (blocked a)
    have o: "opens S s (Server n i) (Runtime_setup ?r)" "opens S s (Server n i) Sem_up" "opens S s (Server n i) Runtime_cleanup" using ok by simp_all
    from blocked(1) have "a = Serve \<and> Sem_up \<in> set (past S s (Server n i)) \<or> a \<in> {Runtime_setup ?r, Sem_up, Runtime_cleanup}"
      unfolding p by (auto simp: before_simps split: if_splits)
    with blocked(2) o show ?thesis by auto
  qed
  then show "Sem_up \<in> set (past S s (Server n i))" "0 < taken S s (User 0) Shutdown \<Longrightarrow> finished S s (Server n i)" by auto
qed

text \<open>No spawner waits for a server to start.\<close>

lemma no_stuck_down:
  assumes "stuck S s" "n < sp_nodes S" "before (past S s (Spawner n)) Sem_down (program S (Spawner n))"
  shows "opens S s (Spawner n) Sem_down"
proof -
  let ?xs = "past S s (Spawner n)" and ?sv = "sp_servers S ! n"
  have b: "before ?xs Sem_down (spawner_main (sp_thread_max S) (n = 0) ?sv)" using assms(2,3) by simp
  have "{i. Thread_create i \<in> set ?xs} \<subseteq> {i \<in> {0..<length ?sv}. Sem_up \<in> set (past S s (Server n i))}"
    using created_ring(1) [OF spawner_past [OF assms(2)]] servers_up(1) [OF assms(1,2)] by auto
  then have "card {i. Thread_create i \<in> set ?xs} \<le> ups S s n"
    unfolding ups_eq by (rule card_mono [rotated]) simp
  then show ?thesis using card_created_exact [OF b] by (simp add: taken_def)
qed

lemma spawner_acts:
  "a \<in> set (spawner_main m leader sv) \<Longrightarrow> a \<noteq> Serve \<and> a \<noteq> (if leader then Ksync_wait ONE_TO_ALL else Ksync_wait ALL_TO_ONE) \<and> (\<forall>b. a = Uassert b \<longrightarrow> b = (length sv < m))"
  by (auto simp: spawner_main_def spawn_ring_def spawn_servers_def spawn_barrier_wait_def spawn_barrier_setup_def spawn_barrier_cleanup_def stdsync_fence_def split: if_splits)

lemma spawner_blocked:
  assumes "stuck S s" "n < sp_nodes S"
  obtains (ended) "past S s (Spawner n) = program S (Spawner n)"
  | (fence) p where "before (past S s (Spawner n)) Fence_leave (program S (Spawner n))" "participant S p" "taken S s p Fence_enter \<le> taken S s (Spawner n) Fence_leave"
  | (gather) m where "n = 0" "before (past S s (Spawner n)) (bar_first True) (program S (Spawner n))" "0 < m" "m < sp_nodes S"
      "taken S s (Spawner m) (bar_first False) \<le> taken S s (Spawner n) (bar_first True)"
  | (release) "n \<noteq> 0" "before (past S s (Spawner n)) (bar_second False) (program S (Spawner n))"
      "taken S s (Spawner 0) (bar_second True) \<le> taken S s (Spawner n) (bar_second False)"
  | (join) i where "before (past S s (Spawner n)) (Thread_join i) (program S (Spawner n))" "\<not> (started S s (Server n i) \<and> finished S s (Server n i))"
proof -
  have "started S s (Spawner n)" by simp
  with assms(1) show thesis
  proof (cases rule: stuck_blocked)
    case (blocked a)
    have "a \<in> set (program S (Spawner n))" using blocked(1) before_none by blast
    then have a: "a \<noteq> Serve" "n = 0 \<Longrightarrow> a \<noteq> Ksync_wait ONE_TO_ALL" "n \<noteq> 0 \<Longrightarrow> a \<noteq> Ksync_wait ALL_TO_ONE" "\<And>b. a = Uassert b \<Longrightarrow> b"
      using assms(2) boot_okD(4) [OF stuckD(2) [OF assms(1)] assms(2)] spawner_acts [of a "sp_thread_max S" "n = 0" "sp_servers S ! n"] by auto
    have live: "sync_live S" by (rule stuckD(1) [OF assms(1)])
    show thesis
    proof (cases a)
      case (Ksync_wait k)
      show thesis
      proof (cases k)
        case ALL_TO_ONE
        then obtain m where "0 < m" "m < sp_nodes S" "taken S s (Spawner m) (Ksync_signal ALL_TO_ONE) \<le> taken S s (Spawner n) (Ksync_wait ALL_TO_ONE)"
          using blocked(2) sync_liveD(2) [OF live] Ksync_wait by force
        moreover have "n = 0" using a(3) Ksync_wait ALL_TO_ONE by blast
        ultimately show thesis using gather [of m] blocked(1) unfolding Ksync_wait ALL_TO_ONE bar_first_def by simp
      next
        case ONE_TO_ALL
        then show thesis using release blocked a(2) sync_liveD(3) [OF live] Ksync_wait by (auto simp: bar_second_def)
      qed
    next
      case Fence_leave
      then obtain p where "participant S p" "taken S s p Fence_enter \<le> taken S s (Spawner n) Fence_leave"
        using blocked(2) sync_liveD(1) [OF live] by force
      then show thesis using fence [of p] blocked(1) Fence_leave by blast
    next
      case Sem_down
      then show thesis using no_stuck_down [OF assms] blocked by blast
    next
      case (Thread_join i)
      then show thesis using join [of i] blocked by auto
    qed (use blocked(2) a in auto)
  qed (use ended in blast)
qed

lemma user_blocked:
  assumes "stuck S s" "u < sp_users S"
  obtains (ended) "past S s (User u) = program S (User u)"
  | (fence) p where "before (past S s (User u)) Fence_leave (program S (User u))" "participant S p" "taken S s p Fence_enter \<le> taken S s (User u) Fence_leave"
  | (handler) "before (past S s (User u)) Runtime_cleanup (user_main (u = 0))" "\<not> sp_pause_fails S (User u)"
proof -
  have "started S s (User u)" by simp
  with assms(1) show thesis
  proof (cases rule: stuck_blocked)
    case (blocked a)
    have "a \<in> set (user_main (u = 0))" using blocked(1) before_none assms(2) by fastforce
    then consider "a = Fence_leave" | "a = Runtime_cleanup" using blocked(2) by (auto simp: user_main_def stdsync_fence_def split: if_splits)
    then show thesis
    proof cases
      case 1
      then obtain p where "participant S p" "taken S s p Fence_enter \<le> taken S s (User u) Fence_leave"
        using blocked(2) sync_liveD(1) [OF stuckD(1) [OF assms(1)]] by force
      then show thesis using fence [of p] blocked(1) 1 by blast
    next
      case 2
      then show thesis using handler blocked assms(2) by simp
    qed
  qed (use ended in blast)
qed


lemma stage_taken:
  "stage leader (past S s t) = (taken S s t Fence_enter, taken S s t Fence_leave, taken S s t (bar_first leader), taken S s t (bar_second leader))"
  by (simp add: stage_def taken_def)

text \<open>A thread that waits on the fence waits for a spawner that waits at the barrier.\<close>

definition at_barrier :: "spawn_sys \<Rightarrow> spawn_state \<Rightarrow> nat \<Rightarrow> bool" where
  "at_barrier S s n \<longleftrightarrow>
     (n = 0 \<and> before (past S s (Spawner n)) (bar_first True) (program S (Spawner n)) \<and>
        (\<exists>m>0. m < sp_nodes S \<and> taken S s (Spawner m) (bar_first False) \<le> taken S s (Spawner n) (bar_first True))) \<or>
     (n \<noteq> 0 \<and> before (past S s (Spawner n)) (bar_second False) (program S (Spawner n)) \<and>
        taken S s (Spawner 0) (bar_second True) \<le> taken S s (Spawner n) (bar_second False))"

lemma gather_stage:
  assumes "before (past S s (Spawner 0)) (bar_first True) (program S (Spawner 0))" "0 < sp_nodes S" "k = taken S s (Spawner 0) (bar_first True)"
  shows "taken S s (Spawner 0) (bar_second True) = k"
    "k < 6 \<and> taken S s (Spawner 0) Fence_enter = 1 \<and> taken S s (Spawner 0) Fence_leave = 1 \<or>
     k = 6 \<and> taken S s (Spawner 0) Fence_enter = 4 \<and> taken S s (Spawner 0) Fence_leave = 4"
proof -
  have "before (past S s (Spawner 0)) (bar_first True) (spawner_main (sp_thread_max S) True (sp_servers S ! 0))" using assms(1,2) by simp
  from spawner_at_first [OF this] assms(3) show "taken S s (Spawner 0) (bar_second True) = k"
    "k < 6 \<and> taken S s (Spawner 0) Fence_enter = 1 \<and> taken S s (Spawner 0) Fence_leave = 1 \<or>
     k = 6 \<and> taken S s (Spawner 0) Fence_enter = 4 \<and> taken S s (Spawner 0) Fence_leave = 4"
    by (auto simp: stage_taken)
qed

lemma release_stage:
  assumes "before (past S s (Spawner n)) (bar_second False) (program S (Spawner n))" "n \<noteq> 0" "n < sp_nodes S" "k = taken S s (Spawner n) (bar_second False)"
  shows "taken S s (Spawner n) (bar_first False) = Suc k"
    "k < 6 \<and> taken S s (Spawner n) Fence_enter = 1 \<and> taken S s (Spawner n) Fence_leave = 1 \<or>
     k = 6 \<and> taken S s (Spawner n) Fence_enter = 4 \<and> taken S s (Spawner n) Fence_leave = 4"
proof -
  have "before (past S s (Spawner n)) (bar_second False) (spawner_main (sp_thread_max S) False (sp_servers S ! n))" using assms(1-3) by simp
  from spawner_at_second [OF this] assms(4) show "taken S s (Spawner n) (bar_first False) = Suc k"
    "k < 6 \<and> taken S s (Spawner n) Fence_enter = 1 \<and> taken S s (Spawner n) Fence_leave = 1 \<or>
     k = 6 \<and> taken S s (Spawner n) Fence_enter = 4 \<and> taken S s (Spawner n) Fence_leave = 4"
    by (auto simp: stage_taken)
qed

lemma at_barrier_stage:
  assumes "at_barrier S s n" "n < sp_nodes S"
  shows "taken S s (Spawner n) Fence_enter \<in> {1, 4}"
  using assms(1) unfolding at_barrier_def
proof (elim disjE conjE)
  assume "n = 0" "before (past S s (Spawner n)) (bar_first True) (program S (Spawner n))"
  with gather_stage(2) [OF _ _ refl, of S s] assms(2) show ?thesis by auto
next
  assume "n \<noteq> 0" "before (past S s (Spawner n)) (bar_second False) (program S (Spawner n))"
  with release_stage(2) [OF _ _ assms(2) refl, of s] show ?thesis by auto
qed

lemma at_fence:
  assumes "before (past S s t) Fence_leave (program S t)" "participant S t"
  shows "taken S s t Fence_enter = Suc (taken S s t Fence_leave)" "taken S s t Fence_leave < 4"
proof -
  have "taken S s t Fence_enter = Suc (taken S s t Fence_leave) \<and> taken S s t Fence_leave < 4"
    using assms(2) unfolding participant_def
  proof (elim disjE exE conjE)
    fix n assume n: "n < sp_nodes S" "t = Spawner n"
    with assms(1) have "before (past S s (Spawner n)) Fence_leave (spawner_main (sp_thread_max S) (n = 0) (sp_servers S ! n))" by simp
    from spawner_at_fence [OF this] n(2) show ?thesis by (auto simp: stage_taken)
  next
    fix u assume u: "u < sp_users S" "t = User u"
    with assms(1) have "before (past S s (User u)) Fence_leave (user_main (u = 0))" by simp
    from user_at_fence [OF this] u(2) show ?thesis by (simp add: taken_def)
  qed
  then show "taken S s t Fence_enter = Suc (taken S s t Fence_leave)" "taken S s t Fence_leave < 4" by auto
qed

lemma fence_waits_for_barrier:
  assumes "stuck S s" "participant S t" "before (past S s t) Fence_leave (program S t)" "participant S p" "taken S s p Fence_enter \<le> taken S s t Fence_leave"
  shows "taken S s t Fence_leave = 1 \<and> (\<exists>n < sp_nodes S. at_barrier S s n)"
proof -
  note fence = spawn_invD(1) [OF stuckD(3) [OF assms(1)]]
  let ?j = "taken S s t Fence_leave"
  have p: "taken S s p Fence_enter = ?j" using fence [OF assms(4), of t] assms(5) by simp
  note lt = at_fence(2) [OF assms(3,2)]
  have not_at_fence: False if b: "before (past S s p) Fence_leave (program S p)" "participant S q" "taken S s q Fence_enter \<le> taken S s p Fence_leave" for q
    using at_fence(1) [OF b(1) assms(4)] fence [OF b(2), of t] b(3) p by simp
  from assms(4) consider n where "p = Spawner n" "n < sp_nodes S" | u where "p = User u" "u < sp_users S" by (auto simp: participant_def)
  then show ?thesis
  proof cases
    case 1
    from assms(1) 1(2) show ?thesis
    proof (cases rule: spawner_blocked)
      case ended
      then have "taken S s p Fence_enter = 4" using stage_spawner [of "n = 0" "sp_thread_max S" "sp_servers S ! n"] 1 by (simp add: taken_def stage_def)
      then show ?thesis using p lt by simp
    next
      case (fence q)
      then show ?thesis using not_at_fence 1(1) by blast
    next
      case (gather m)
      then have "at_barrier S s n" by (auto simp: at_barrier_def simp del: program.simps)
      from at_barrier_stage [OF this 1(2)] this show ?thesis using p lt 1 by auto
    next
      case release
      then have "at_barrier S s n" by (auto simp: at_barrier_def simp del: program.simps)
      from at_barrier_stage [OF this 1(2)] this show ?thesis using p lt 1 by auto
    next
      case (join i)
      then have "before (past S s p) (Thread_join i) (spawner_main (sp_thread_max S) (n = 0) (sp_servers S ! n))" using 1 by simp
      from spawner_at_join(2) [OF this] show ?thesis using p lt by (simp add: stage_taken)
    qed
  next
    case 2
    from assms(1) 2(2) show ?thesis
    proof (cases rule: user_blocked)
      case ended
      then have "taken S s p Fence_enter = 4" using user_done(1) [of "u = 0"] 2 by (simp add: taken_def)
      then show ?thesis using p lt by simp
    next
      case (fence q)
      then show ?thesis using not_at_fence 2(1) by blast
    next
      case handler
      then have "taken S s p Fence_enter = 4" using user_at_cleanup(1) 2(1) by (simp add: taken_def)
      then show ?thesis using p lt by simp
    qed
  qed
qed

text \<open>No spawner waits for a server to end, at either object of the barrier, or on the fence.\<close>

lemma user0_shut_down:
  assumes "stuck S s" "4 \<le> taken S s t Fence_leave"
  shows "0 < taken S s (User 0) Shutdown"
proof -
  have u: "0 < sp_users S" by (rule boot_okD(2) [OF stuckD(2) [OF assms(1)]])
  then have pu: "participant S (User 0)" by (auto simp: participant_def)
  from assms(1) u show ?thesis
  proof (cases rule: user_blocked)
    case ended
    then show ?thesis using user_done(2) u by (simp add: taken_def count_list_0_iff flip: neq0_conv del: count_notin)
  next
    case (fence p)
    from fence_waits_for_barrier [OF assms(1) pu fence] at_fence(1) [OF fence(1) pu] spawn_invD(1) [OF stuckD(3) [OF assms(1)] pu, of t] assms(2)
    show ?thesis by simp
  next
    case handler
    then show ?thesis using user_at_cleanup(2) by (simp add: taken_def count_list_0_iff flip: neq0_conv del: count_notin)
  qed
qed

lemma no_stuck_join:
  assumes "stuck S s" "n < sp_nodes S" "before (past S s (Spawner n)) (Thread_join i) (program S (Spawner n))"
  shows "started S s (Server n i) \<and> finished S s (Server n i)"
proof -
  have "before (past S s (Spawner n)) (Thread_join i) (spawner_main (sp_thread_max S) (n = 0) (sp_servers S ! n))" using assms(2,3) by simp
  note j = spawner_at_join [OF this]
  have c: "Thread_create i \<in> set (past S s (Spawner n))"
    using all_created [OF j(3,1)] boot_okD(5) [OF stuckD(2) [OF assms(1)] assms(2) j(1)] by simp
  have "0 < taken S s (User 0) Shutdown" by (rule user0_shut_down [OF assms(1), of "Spawner n"]) (use j(2) in \<open>simp add: stage_taken\<close>)
  then show ?thesis using servers_up(2) [OF assms(1,2) j(1) c] c by simp
qed


lemma no_stuck_gather:
  assumes "stuck S s" "before (past S s (Spawner 0)) (bar_first True) (program S (Spawner 0))" "0 < m" "m < sp_nodes S"
    and le: "taken S s (Spawner m) (bar_first False) \<le> taken S s (Spawner 0) (bar_first True)"
  shows False
proof -
  note inv = stuckD(3) [OF assms(1)]
  define k where "k = taken S s (Spawner 0) (bar_first True)"
  have n: "0 < sp_nodes S" using assms(4) by linarith
  note g = gather_stage [OF assms(2) n k_def]
  have m: "taken S s (Spawner m) (bar_first False) = k"
    using spawn_invD(2) [OF inv assms(3,4), of "Spawner 0"] le by (simp add: bar_first_def k_def)
  have pm: "participant S (Spawner m)" using assms(4) by (auto simp: participant_def)
  note fe = spawn_invD(1) [OF inv pm, of "Spawner 0"]
  have st: "stage False (past S s (Spawner m)) = (taken S s (Spawner m) Fence_enter, taken S s (Spawner m) Fence_leave, k, taken S s (Spawner m) (bar_second False))"
    by (simp add: stage_taken m)
  from assms(1,4) show False
  proof (cases rule: spawner_blocked)
    case ended
    then show False using stage_spawner [of False "sp_thread_max S" "sp_servers S ! m"] st g(2) assms(3,4) by simp
  next
    case (fence p)
    from fence_waits_for_barrier [OF assms(1) pm fence] have 1: "taken S s (Spawner m) Fence_leave = 1" by simp
    have "before (past S s (Spawner m)) Fence_leave (spawner_main (sp_thread_max S) False (sp_servers S ! m))" using fence(1) assms(3,4) by simp
    from spawner_at_fence [OF this] st 1 g(2) fe show False by auto
  next
    case release
    from release_stage(1) [OF release(2,1) assms(4) refl] m release(3) g(1) show False by simp
  next
    case (join i)
    then show False using no_stuck_join [OF assms(1,4)] by blast
  qed (use assms(3) in simp)
qed

lemma no_stuck_release:
  assumes "stuck S s" "n \<noteq> 0" "n < sp_nodes S" "before (past S s (Spawner n)) (bar_second False) (program S (Spawner n))"
    and le: "taken S s (Spawner 0) (bar_second True) \<le> taken S s (Spawner n) (bar_second False)"
  shows False
proof -
  note inv = stuckD(3) [OF assms(1)]
  define k where "k = taken S s (Spawner n) (bar_second False)"
  have n: "0 < sp_nodes S" using assms(3) by linarith
  note r = release_stage [OF assms(4,2,3) k_def]
  have l: "taken S s (Spawner 0) (bar_second True) = k"
    using spawn_invD(3) [OF inv, of "Spawner n"] le by (simp add: bar_second_def k_def)
  have p0: "participant S (Spawner 0)" using n by (auto simp: participant_def)
  note fe = spawn_invD(1) [OF inv p0, of "Spawner n"]
  have st: "stage True (past S s (Spawner 0)) = (taken S s (Spawner 0) Fence_enter, taken S s (Spawner 0) Fence_leave, taken S s (Spawner 0) (bar_first True), k)"
    by (simp add: stage_taken l)
  from assms(1) n show False
  proof (cases rule: spawner_blocked)
    case ended
    then show False using stage_spawner [of True "sp_thread_max S" "sp_servers S ! 0"] st r(2) n by simp
  next
    case (fence p)
    from fence_waits_for_barrier [OF assms(1) p0 fence] have 1: "taken S s (Spawner 0) Fence_leave = 1" by simp
    have "before (past S s (Spawner 0)) Fence_leave (spawner_main (sp_thread_max S) True (sp_servers S ! 0))" using fence(1) n by simp
    from spawner_at_fence [OF this] st 1 r(2) fe show False by auto
  next
    case (gather m)
    then show False using no_stuck_gather [OF assms(1)] by blast
  next
    case (join i)
    then show False using no_stuck_join [OF assms(1) n] by blast
  qed simp
qed

text \<open>
  So everybody has finished, but for the user programs whose handler of exceptions does not end: they have done all but their last action,
  which joins it.
\<close>

definition joins_handler :: "spawn_sys \<Rightarrow> spawn_state \<Rightarrow> thread \<Rightarrow> bool" where
  "joins_handler S s t \<longleftrightarrow> (\<exists>u < sp_users S. t = User u) \<and> \<not> sp_pause_fails S t \<and> Suc (s t) = length (program S t) \<and> program S t ! s t = Runtime_cleanup"

lemma stuck_finished:
  assumes "stuck S s"
  shows "finished S s t \<or> joins_handler S s t"
proof -
  have bar: "\<not> at_barrier S s n" if "n < sp_nodes S" for n
    using that no_stuck_gather [OF assms] no_stuck_release [OF assms] unfolding at_barrier_def by blast
  have fence: False if f: "participant S t" "before (past S s t) Fence_leave (program S t)" "participant S p" "taken S s p Fence_enter \<le> taken S s t Fence_leave" for t p
    using fence_waits_for_barrier [OF assms f] bar by blast
  have whole: "finished S s t" if "past S s t = program S t" for t
    using arg_cong [OF that, of length] stuckD(4) [OF assms, of t] by (simp add: past_def finished_def)
  have spawner: "past S s (Spawner n) = program S (Spawner n)" if n: "n < sp_nodes S" for n
  proof -
    have pn: "participant S (Spawner n)" using n by (auto simp: participant_def)
    from assms n show ?thesis
    proof (cases rule: spawner_blocked)
      case (fence p)
      then show ?thesis using fence_waits_for_barrier [OF assms pn] bar by blast
    qed (use no_stuck_gather no_stuck_release no_stuck_join assms n in blast)+
  qed
  have nodes: "0 < sp_nodes S" by (rule boot_okD(1) [OF stuckD(2) [OF assms]])
  have down: "0 < taken S s (User 0) Shutdown"
    by (rule user0_shut_down [OF assms, of "Spawner 0"])
      (use spawner [OF nodes] stage_spawner [of True "sp_thread_max S" "sp_servers S ! 0"] nodes in \<open>simp add: taken_def stage_def\<close>)
  show ?thesis
  proof (cases t)
    case (Spawner n)
    show ?thesis
    proof (cases "n < sp_nodes S")
      case True
      then show ?thesis using spawner whole Spawner by blast
    qed (use stuckD(4) [OF assms, of t] Spawner in \<open>simp add: finished_def\<close>)
  next
    case (User u)
    show ?thesis
    proof (cases "u < sp_users S")
      case True
      then have pu: "participant S (User u)" by (auto simp: participant_def)
      from assms True show ?thesis
      proof (cases rule: user_blocked)
        case handler
        have l: "length (past S s (User u)) = s (User u)" using stuckD(4) [OF assms, of "User u"] by (simp add: past_def)
        have "user_main (u = 0) ! length (past S s (User u)) = Runtime_cleanup"
          using handler(1) unfolding before_def prefix_def by (metis append.assoc append_Cons nth_append_length)
        then show ?thesis using handler(2) user_at_cleanup(3) [OF handler(1)] True User l by (simp add: joins_handler_def)
      qed (use whole User fence [OF pu] in blast)+
    qed (use stuckD(4) [OF assms, of t] User in \<open>simp add: finished_def\<close>)
  next
    case (Server n i)
    show ?thesis
    proof (cases "n < sp_nodes S \<and> i < length (sp_servers S ! n)")
      case True
      then have "set (concat (map (spawn_ring (n = 0) (sp_servers S ! n)) rings)) \<subseteq> set (past S s (Spawner n))"
        using spawner [of n] by (auto simp: spawner_main_parts)
      then have "Thread_create i \<in> set (past S s (Spawner n))"
        using all_created True boot_okD(5) [OF stuckD(2) [OF assms]] by blast
      then show ?thesis using servers_up(2) [OF assms _ _ _ down] True Server by blast
    qed (use stuckD(4) [OF assms, of t] Server in \<open>auto simp: finished_def\<close>)
  qed
qed

section \<open>The boot ends\<close>

lemma booted_bound: "booted S s \<Longrightarrow> s t \<le> length (program S t)"
proof (induction arbitrary: t rule: booted.induct)
  case (step s s')
  from step.hyps(2) show ?case by cases (use step.IH in auto)
qed simp

lemma booted_acts:
  assumes "sync_laws S" "sync_live S" "boot_ok S" "booted S s"
  shows "(\<forall>t. finished S s t \<or> joins_handler S s t) \<or> (\<exists>s'. spawn_step S s s')"
proof (rule disjCI)
  assume n: "\<nexists>s'. spawn_step S s s'"
  have "\<not> opens S s t (program S t ! s t)" if "s t < length (program S t)" "started S s t" for t
    using n never_aborts [OF assms(1,3,4) that] spawn_step.act [of s t S, OF that] by auto
  then have "stuck S s" using assms(2,3) booted_inv [OF assms(1,4)] booted_bound [OF assms(4)] by (simp add: stuck_def del: program.simps)
  then show "\<forall>t. finished S s t \<or> joins_handler S s t" by (intro allI stuck_finished)
qed

definition sp_threads :: "spawn_sys \<Rightarrow> thread set" where
  "sp_threads S = Spawner ` {..<sp_nodes S} \<union> (\<Union>n\<in>{..<sp_nodes S}. Server n ` {..<length (sp_servers S ! n)}) \<union> User ` {..<sp_users S}"

definition sp_left :: "spawn_sys \<Rightarrow> spawn_state \<Rightarrow> nat" where
  "sp_left S s = (\<Sum>t\<in>sp_threads S. length (program S t) - s t)"

lemma sp_left_step:
  assumes "spawn_step S s s'"
  shows "sp_left S s' < sp_left S s"
  using assms
proof cases
  case (act t)
  have fin: "finite (sp_threads S)" by (simp add: sp_threads_def)
  have "t \<in> sp_threads S" using act(2) by (cases t) (auto simp: sp_threads_def split: if_splits)
  then show ?thesis unfolding sp_left_def act(1) using act(2) by (intro sum_strict_mono_ex1 [OF fin]) (auto simp: fin simp del: program.simps)
qed


text \<open>
  C33. The boot and the shutdown of the whole machine end without a deadlock and without an abort. If the fence and the synchronisation objects open
  exactly as they promise, there is a user program on the leader cluster and a name server, the threads suffice, every server starts, each is in a higher ring than
  the servers it connects to, and no cluster has two servers of ring 2 or above, then no assertion of a thread fails in any reachable state, and in each
  either all threads are done or one of them can act; from every reachable state one is reachable in which all are done, and there is no infinite run. A
  thread is done when it has finished, or when it is a user program that has done everything but join its handler of exceptions, in whose loop \<open>excp_pause\<close> does not fail.
\<close>

theorem boot_completes:
  assumes "sync_laws S" "sync_live S" "boot_ok S" "booted S s"
  shows "(\<forall>t. \<not> aborts S s t) \<and> ((\<forall>t. finished S s t \<or> joins_handler S s t) \<or> (\<exists>s'. spawn_step S s s')) \<and>
    (\<exists>s'. (spawn_step S)\<^sup>*\<^sup>* s s' \<and> (\<forall>t. finished S s' t \<or> joins_handler S s' t)) \<and>
    (\<nexists>run. run 0 = s \<and> (\<forall>k. spawn_step S (run k) (run (Suc k))))"
proof (intro conjI)
  show "\<forall>t. \<not> aborts S s t" using never_aborts [OF assms(1,3,4)] unfolding aborts_def by blast
  show "(\<forall>t. finished S s t \<or> joins_handler S s t) \<or> (\<exists>s'. spawn_step S s s')" by (rule booted_acts [OF assms])
  show "\<exists>s'. (spawn_step S)\<^sup>*\<^sup>* s s' \<and> (\<forall>t. finished S s' t \<or> joins_handler S s' t)"
    using assms(4)
  proof (induction "sp_left S s" arbitrary: s rule: less_induct)
    case less
    from booted_acts [OF assms(1-3) less.prems] show ?case
    proof
      assume "\<exists>s'. spawn_step S s s'"
      then obtain s' where s': "spawn_step S s s'" by blast
      from less.hyps [OF sp_left_step [OF s'] booted.step [OF less.prems s']] s' show ?thesis by (meson converse_rtranclp_into_rtranclp)
    qed blast
  qed
  show "\<nexists>run. run 0 = s \<and> (\<forall>k. spawn_step S (run k) (run (Suc k)))"
  proof
    assume "\<exists>run. run 0 = s \<and> (\<forall>k. spawn_step S (run k) (run (Suc k)))"
    then obtain run where r: "\<And>k. spawn_step S (run k) (run (Suc k))" by blast
    have "sp_left S (run k) + k \<le> sp_left S (run 0)" for k
    proof (induction k)
      case (Suc k)
      from sp_left_step [OF r [of k]] Suc.IH show ?case by linarith
    qed simp
    from this [of "Suc (sp_left S (run 0))"] show False by simp
  qed
qed

text \<open>The hypotheses hold for the smaller target, from its start; nothing makes \<open>excp_pause\<close> fail there. The tables of the larger one are well formed too.\<close>

lemma mppa256_live: "sync_live mppa256_sys" "boot_ok mppa256_sys"
proof -
  have p: "participant mppa256_sys t \<longleftrightarrow> t \<in> {Spawner 0, Spawner 1, User 0}" for t
    by (auto simp: participant_def mppa256_sys_def mppa256_servers_def less_Suc_eq numeral_eq_Suc)
  show "sync_live mppa256_sys" unfolding sync_live_def p by (auto simp: mppa256_sys_def mppa256_servers_def)
  show "boot_ok mppa256_sys" by code_simp
qed

lemma unix64_boot_ok: "boot_ok (mppa256_sys\<lparr>sp_servers := unix64_servers, sp_mains := unix64_mains\<rparr>)"
  by code_simp

theorem boot_completes_witness:
  "\<exists>s. (spawn_step mppa256_sys)\<^sup>*\<^sup>* (\<lambda>_. 0) s \<and> (\<forall>t. finished mppa256_sys s t \<or> joins_handler mppa256_sys s t)"
  using boot_completes [OF mppa256_laws mppa256_live booted.start] by blast

end
