(* ===== verification/AddrRing.thy ===== *)
theory AddrRing
  imports Prelude
begin

text \<open>
  Circular lists in address order, the shape of the heap allocator's free list. A ring is a finite set of addresses with
  a successor function that never skips a member. Inserting an address between a member and its successor and removing
  the successor of a member keep a ring, every walk along the successors reaches every member, and an address outside
  the ring has exactly one place in it.
\<close>

definition between :: "'a :: linorder \<Rightarrow> 'a \<Rightarrow> 'a \<Rightarrow> bool" where
  "between a x b \<longleftrightarrow> (if a < b then a < x \<and> x < b else a < x \<or> x < b)"

definition ring :: "'a :: linorder set \<Rightarrow> ('a \<Rightarrow> 'a) \<Rightarrow> bool" where
  "ring F nx \<longleftrightarrow> finite F \<and> F \<noteq> {} \<and> (\<forall>a\<in>F. nx a \<in> F \<and> (\<forall>x\<in>F. \<not> between a x (nx a)))"

lemma ringD:
  assumes "ring F nx"
  shows ring_finite: "finite F" and ring_nonempty: "F \<noteq> {}" and ring_next: "a \<in> F \<Longrightarrow> nx a \<in> F"
    and ring_gap: "a \<in> F \<Longrightarrow> x \<in> F \<Longrightarrow> \<not> between a x (nx a)"
  using assms by (auto simp: ring_def)

lemma ring_single [simp]: "ring {a} nx \<longleftrightarrow> nx a = a"
  by (auto simp: ring_def between_def)

text \<open>Only a member that is alone is its own successor, and no two members have the same one.\<close>

lemma ring_self:
  assumes "ring F nx" "a \<in> F" "nx a = a"
  shows "F = {a}"
  using ring_gap [OF assms(1,2)] assms(2,3) by (auto simp: between_def) (metis neqE)

lemma ring_inj:
  assumes "ring F nx" "a \<in> F" "b \<in> F" "nx a = nx b"
  shows "a = b"
proof (rule ccontr)
  assume "a \<noteq> b"
  with ring_gap [OF assms(1,2,3)] ring_gap [OF assms(1,3,2)] ring_gap [OF assms(1,2) ring_next [OF assms(1,2)]] assms(4)
  show False by (auto simp: between_def split: if_splits)
qed

lemma ring_insert:
  assumes r: "ring F nx" and p: "p \<in> F" "x \<notin> F" "between p x (nx p)"
  shows "ring (insert x F) (nx(x := nx p, p := x))"
proof -
  let ?nx = "nx(x := nx p, p := x)"
  note n = ring_next [OF r p(1)] and g = ring_gap [OF r p(1)]
  have ne: "x \<noteq> p" "x \<noteq> nx p" using p n by auto
  have "?nx a \<in> insert x F \<and> (\<forall>y\<in>insert x F. \<not> between a y (?nx a))" if a: "a \<in> insert x F" for a
  proof -
    consider "a = x" | "a = p" | "a \<in> F" "a \<noteq> p" "a \<noteq> x" using a by auto
    then show ?thesis
    proof cases
      case 1
      have "\<not> between x y (nx p)" if "y \<in> F" for y using g [OF that] p(3) ne by (auto simp: between_def split: if_splits)
      with 1 ne n p(3) show ?thesis by (auto simp: between_def split: if_splits)
    next
      case 2
      have "\<not> between p y x" if "y \<in> F" for y using g [OF that] p(3) ne by (auto simp: between_def split: if_splits)
      with 2 ne p(3) show ?thesis by (auto simp: between_def split: if_splits)
    next
      case 3
      note m = ring_next [OF r 3(1)]
      have "\<not> between a x (nx a)"
        using ring_gap [OF r 3(1) p(1)] ring_gap [OF r 3(1) n] g [OF 3(1)] g [OF m] p(3) 3(2,3) ring_inj [OF r 3(1) p(1)] 
        by (auto simp: between_def not_less split: if_splits)
      with 3 m ring_gap [OF r 3(1)] show ?thesis by simp
    qed
  qed
  then show ?thesis using ring_finite [OF r] by (auto simp: ring_def)
qed

lemma ring_remove:
  assumes r: "ring F nx" and p: "q \<in> F" "p = nx q" "p \<noteq> q"
  shows "ring (F - {p}) (nx(q := nx p))"
proof -
  let ?nx = "nx(q := nx p)"
  have pF: "p \<in> F" using ring_next [OF r p(1)] p(2) by simp
  note g = ring_gap [OF r p(1)] and h = ring_gap [OF r pF] and n = ring_next [OF r pF]
  have np: "nx p \<noteq> p" using ring_self [OF r pF] p by auto
  have "?nx a \<in> F - {p} \<and> (\<forall>y\<in>F - {p}. \<not> between a y (?nx a))" if a: "a \<in> F - {p}" for a
  proof (cases "a = q")
    case True
    have "\<not> between q y (nx p)" if "y \<in> F" "y \<noteq> p" for y
      using g [OF that(1)] h [OF that(1)] h [OF p(1)] g [OF n] p(2,3) np that(2) by (auto simp: between_def split: if_splits)
    with True n np show ?thesis by auto
  next
    case False
    with a ring_inj [OF r _ p(1), of a] p(2) ring_next [OF r, of a] ring_gap [OF r, of a] show ?thesis by auto
  qed
  then show ?thesis using ring_finite [OF r] p by (auto simp: ring_def)
qed

lemma ring_cong: "\<forall>a\<in>F. nx a = nx' a \<Longrightarrow> ring F nx \<longleftrightarrow> ring F nx'"
  by (simp add: ring_def)

text \<open>The place of an address outside the ring.\<close>

lemma ring_place:
  assumes r: "ring F nx" and x: "x \<notin> F"
  obtains p where "p \<in> F" "between p x (nx p)"
proof (cases "\<exists>f\<in>F. f < x")
  case True
  let ?L = "{f\<in>F. f < x}"
  have L: "finite ?L" "?L \<noteq> {}" using ring_finite [OF r] True by auto
  then have m: "Max ?L \<in> F" "Max ?L < x" using Max_in [OF L] by auto
  have "nx (Max ?L) \<in> F" by (rule ring_next [OF r m(1)])
  then have "x < nx (Max ?L) \<or> nx (Max ?L) \<le> Max ?L"
    using x Max_ge [OF L(1), of "nx (Max ?L)"] by (cases "nx (Max ?L)" x rule: linorder_cases) auto
  then have "between (Max ?L) x (nx (Max ?L))" using m(2) by (auto simp: between_def)
  with that m(1) show thesis by blast
next
  case False
  let ?m = "Max F"
  have m: "?m \<in> F" using Max_in ring_finite [OF r] ring_nonempty [OF r] by blast
  have n: "nx ?m \<in> F" by (rule ring_next [OF r m])
  then have "nx ?m \<le> ?m" using ring_finite [OF r] by simp
  moreover have "x < nx ?m" using False n x by (metis linorder_cases)
  ultimately have "between ?m x (nx ?m)" by (auto simp: between_def)
  with that m show thesis by blast
qed

text \<open>Walking along the successors: what holds at one member and passes backwards along a step holds everywhere.\<close>

lemma ring_induct [consumes 3, case_names target step]:
  assumes r: "ring F nx" and a: "a \<in> F" and q: "q \<in> F" and base: "P q" and step: "\<And>b. b \<in> F \<Longrightarrow> b \<noteq> q \<Longrightarrow> P (nx b) \<Longrightarrow> P b"
  shows "P a"
  using a
proof (induction "card {z\<in>F. between a z q}" arbitrary: a rule: less_induct)
  case less
  show ?case
  proof (cases "a = q \<or> nx a = q")
    case True
    with base step [OF less.prems] show ?thesis by (cases "a = q") auto
  next
    case False
    note n = ring_next [OF r less.prems]
    have sub: "{z\<in>F. between (nx a) z q} \<subseteq> {z\<in>F. between a z q}" and mem: "nx a \<in> {z\<in>F. between a z q}"
      using ring_gap [OF r less.prems q] False n ring_self [OF r less.prems] q by (auto simp: between_def split: if_splits)
    have "nx a \<notin> {z\<in>F. between (nx a) z q}" using False by (auto simp: between_def)
    with sub mem have "{z\<in>F. between (nx a) z q} \<subset> {z\<in>F. between a z q}" by blast
    then have "card {z\<in>F. between (nx a) z q} < card {z\<in>F. between a z q}" using ring_finite [OF r] by (intro psubset_card_mono) auto
    from step [OF less.prems _ less.hyps [OF this n]] False show ?thesis by auto
  qed
qed

end
