(* ===== verification/Heap.thy ===== *)
theory Heap
  imports Vmem AddrRing
begin

text \<open>
  The heap allocator of the runtime, \<open>src/libruntime/posix/libc/stdlib/malloc.c\<close>, over the virtual memory manager. Free
  blocks form a circular list in address order that starts at a static block of size zero; memory comes from the
  manager by whole pages. Pointers and sizes are words of the width of the machine, zero the null pointer; the fields of
  the blocks are functions of the block's address, kept apart from the bytes. The kernel's macros on sizes and the address of the static block are
  the parameter \<open>heap_env\<close>.
\<close>

section \<open>State\<close>

record 'b heap_env =
  he_head :: 'b
  PAGE_SIZE :: 'b
  TRUNCATE :: "'b \<Rightarrow> 'b \<Rightarrow> 'b"
  WITHIN :: "'b \<Rightarrow> 'b \<Rightarrow> 'b \<Rightarrow> bool"

record 'b heap =
  bk_nextp :: "'b \<Rightarrow> 'b"
  bk_size :: "'b \<Rightarrow> 'b"
  hp_freep :: 'b
  hp_data :: "'b \<Rightarrow> byte"
  hp_vmem :: "'b vmem"

text \<open>A block's header is a pointer and a size.\<close>

definition BLOCK_STRUCT_SIZE :: "'w :: len word" where
  "BLOCK_STRUCT_SIZE = of_nat (2 * (LENGTH('w) div 8))"

definition BLOCK_META_SIZE :: "'w :: len word \<Rightarrow> 'w word" where
  "BLOCK_META_SIZE n = BLOCK_STRUCT_SIZE + n"

definition BLOCK_MIN_SIZE :: "'w :: len word" where
  "BLOCK_MIN_SIZE = BLOCK_META_SIZE 1"

section \<open>Operations\<close>

text \<open>
  The search for the place of a freed block. Both tests read the successor of the working block. The loop ends only if
  the list is well formed, hence the option.
\<close>

partial_function (option) free_search :: "('w :: len word \<Rightarrow> 'w word) \<Rightarrow> 'w word \<Rightarrow> 'w word \<Rightarrow> 'w word option" where
  "free_search nextp bp p =
     (if p = 0 then None
      else if p \<le> bp \<and> bp \<le> nextp p then Some p
      else if nextp p \<le> p \<and> (p < bp \<or> bp < nextp p) then Some p
      else free_search nextp bp (nextp p))"

text \<open>Adding a size to a pointer to a block counts in blocks, not in bytes.\<close>

definition block_end :: "'w :: len word heap \<Rightarrow> 'w word \<Rightarrow> 'w word" where
  "block_end h b = b + BLOCK_STRUCT_SIZE * bk_size h b"

definition merge_upper :: "'w :: len word heap \<Rightarrow> 'w word \<Rightarrow> 'w word \<Rightarrow> 'w word heap option" where
  "merge_upper h p bp =
     (if block_end h bp = bk_nextp h p
      then do { uassert (bk_nextp h p \<noteq> 0);
                Some (h\<lparr>bk_size := (bk_size h)(bp := bk_size h bp + bk_size h (bk_nextp h p)),
                        bk_nextp := (bk_nextp h)(bp := bk_nextp h (bk_nextp h p))\<rparr>) }
      else Some (h\<lparr>bk_nextp := (bk_nextp h)(bp := bk_nextp h p)\<rparr>))"

definition merge_lower :: "'w :: len word heap \<Rightarrow> 'w word \<Rightarrow> 'w word \<Rightarrow> 'w word heap" where
  "merge_lower h p bp =
     (if block_end h p = bp
      then h\<lparr>bk_size := (bk_size h)(p := bk_size h p + bk_size h bp), bk_nextp := (bk_nextp h)(p := bk_nextp h bp)\<rparr>
      else h\<lparr>bk_nextp := (bk_nextp h)(p := bp)\<rparr>)"

definition nanvix_free :: "'w :: len word heap \<Rightarrow> 'w word \<Rightarrow> 'w word heap option" where
  "nanvix_free h ptr =
     (if ptr = 0 then Some h
      else let bp = ptr - BLOCK_STRUCT_SIZE in do {
        p \<leftarrow> free_search (bk_nextp h) bp (hp_freep h);
        uassert (bp \<noteq> 0);
        h1 \<leftarrow> merge_upper h p bp;
        Some ((merge_lower h1 p bp)\<lparr>hp_freep := p\<rparr>) })"

definition expand :: "'w :: len word rmem_env \<Rightarrow> 'w word vm_env \<Rightarrow> 'w word heap_env \<Rightarrow> 'w word heap \<Rightarrow> 'w word \<Rightarrow> ('w word \<times> 'w word heap) option" where
  "expand E V H h sz =
     (let n = TRUNCATE H sz (PAGE_SIZE H) div PAGE_SIZE H in do {
        (p, vm) \<leftarrow> nanvix_vmem_alloc E V (hp_vmem h) n;
        let h1 = h\<lparr>hp_vmem := vm\<rparr>;
        if p = 0 then Some (0, h1)
        else do {
          h2 \<leftarrow> nanvix_free (h1\<lparr>bk_size := (bk_size h1)(p := n * PAGE_SIZE H)\<rparr>) (p + BLOCK_STRUCT_SIZE);
          Some (hp_freep h2, h2) } })"

text \<open>What is done with the block found: it leaves the list whole, or its end stays as a block of its own.\<close>

definition malloc_take :: "'w :: len word heap_env \<Rightarrow> 'w word heap \<Rightarrow> 'w word \<Rightarrow> 'w word \<Rightarrow> 'w word \<Rightarrow> 'w word \<times> 'w word heap" where
  "malloc_take H h bsize prevp p =
     (let h1 = (if WITHIN H (bk_size h p) bsize (bsize + BLOCK_MIN_SIZE)
         then h\<lparr>bk_nextp := (bk_nextp h)(prevp := bk_nextp h p)\<rparr>
         else let q = p + bsize;
                  sz = (bk_size h)(q := bk_size h p - bsize);
                  nx = (bk_nextp h)(prevp := q)
              in h\<lparr>bk_nextp := nx(q := nx p), bk_size := sz(p := bsize)\<rparr>)
      in (p + BLOCK_STRUCT_SIZE, h1\<lparr>hp_freep := prevp\<rparr>))"

partial_function (option) malloc_search :: "'w :: len word rmem_env \<Rightarrow> 'w word vm_env \<Rightarrow> 'w word heap_env \<Rightarrow> 'w word heap \<Rightarrow>
    'w word \<Rightarrow> 'w word \<Rightarrow> 'w word \<Rightarrow> ('w word \<times> 'w word heap) option" where
  "malloc_search E V H h bsize prevp p =
     (if p = 0 then None
      else if bsize \<le> bk_size h p then Some (malloc_take H h bsize prevp p)
      else if p = hp_freep h then
        do { (p', h') \<leftarrow> expand E V H h bsize;
             if p' = 0 then Some (0, h') else malloc_search E V H h' bsize p' (bk_nextp h' p') }
      else malloc_search E V H h bsize p (bk_nextp h p))"

text \<open>The list is created by the first call.\<close>

definition malloc_init :: "'w :: len word heap_env \<Rightarrow> 'w word heap \<Rightarrow> 'w word heap" where
  "malloc_init H h =
     (if hp_freep h = 0
      then h\<lparr>bk_nextp := (bk_nextp h)(he_head H := he_head H), hp_freep := he_head H, bk_size := (bk_size h)(he_head H := 0)\<rparr>
      else h)"

definition nanvix_malloc :: "'w :: len word rmem_env \<Rightarrow> 'w word vm_env \<Rightarrow> 'w word heap_env \<Rightarrow> 'w word heap \<Rightarrow> 'w word \<Rightarrow> ('w word \<times> 'w word heap) option" where
  "nanvix_malloc E V H h sz =
     (if sz = 0 then Some (0, h)
      else let h1 = malloc_init H h in
        malloc_search E V H h1 (BLOCK_META_SIZE sz) (hp_freep h1) (bk_nextp h1 (hp_freep h1)))"

text \<open>Copying bytes to or from the null pointer is a fault.\<close>

definition heap_copy :: "'w :: len word heap \<Rightarrow> 'w word \<Rightarrow> 'w word \<Rightarrow> 'w word \<Rightarrow> 'w word heap option" where
  "heap_copy h dst src n =
     do { uassert (dst \<noteq> 0 \<and> src \<noteq> 0);
          Some (h\<lparr>hp_data := (\<lambda>a. if a - dst < n then hp_data h (src + (a - dst)) else hp_data h a)\<rparr>) }"

definition nanvix_realloc :: "'w :: len word rmem_env \<Rightarrow> 'w word vm_env \<Rightarrow> 'w word heap_env \<Rightarrow> 'w word heap \<Rightarrow> 'w word \<Rightarrow> 'w word \<Rightarrow> ('w word \<times> 'w word heap) option" where
  "nanvix_realloc E V H h ptr sz =
     (if sz = 0 then Some (0, h)
      else do {
        (newptr, h1) \<leftarrow> nanvix_malloc E V H h sz;
        if ptr \<noteq> 0 then do {
          h2 \<leftarrow> heap_copy h1 newptr ptr sz;
          h3 \<leftarrow> nanvix_free h2 ptr;
          Some (newptr, h3) }
        else Some (newptr, h1) })"

text \<open>The static state.\<close>

definition heap_static :: "'w :: len word vmem \<Rightarrow> 'w word heap" where
  "heap_static vm = \<lparr>bk_nextp = (\<lambda>_. 0), bk_size = (\<lambda>_. 0), hp_freep = 0, hp_data = (\<lambda>_. 0), hp_vmem = vm\<rparr>"

section \<open>The layout of the blocks\<close>

lemma BLOCK_sizes:
  "unat (BLOCK_STRUCT_SIZE :: 'w :: len word) = 2 * (LENGTH('w) div 8)"
  "unat (BLOCK_MIN_SIZE :: 'w word) = unat (BLOCK_STRUCT_SIZE :: 'w word) + 1"
proof -
  have "0 < LENGTH('w)" by simp
  then have "2 * (LENGTH('w) div 8) + 1 \<le> LENGTH('w)" by linarith
  also have "LENGTH('w) < 2 ^ LENGTH('w)" by simp
  finally have lt: "2 * (LENGTH('w) div 8) + 1 < 2 ^ LENGTH('w)" .
  show s: "unat (BLOCK_STRUCT_SIZE :: 'w word) = 2 * (LENGTH('w) div 8)"
    unfolding BLOCK_STRUCT_SIZE_def unat_of_nat using lt by simp
  show "unat (BLOCK_MIN_SIZE :: 'w word) = unat (BLOCK_STRUCT_SIZE :: 'w word) + 1"
    using lt s by (simp add: BLOCK_MIN_SIZE_def BLOCK_META_SIZE_def unat_word_ariths)
qed

text \<open>
  Blocks lie in a range of addresses, are larger than their header and do not overlap.
\<close>

definition layout :: "nat \<Rightarrow> nat \<Rightarrow> 'w :: len word set \<Rightarrow> ('w word \<Rightarrow> 'w word) \<Rightarrow> bool" where
  "layout lo hi B sz \<longleftrightarrow> finite B \<and>
     (\<forall>a\<in>B. lo \<le> unat a \<and> unat a + unat (sz a) \<le> hi \<and> (BLOCK_STRUCT_SIZE :: 'w word) < sz a) \<and>
     (\<forall>a\<in>B. \<forall>b\<in>B. a < b \<longrightarrow> unat a + unat (sz a) \<le> unat b)"

lemma layoutD:
  assumes "layout lo hi B (sz :: 'w :: len word \<Rightarrow> 'w word)"
  shows layout_finite: "finite B"
    and layout_range: "a \<in> B \<Longrightarrow> lo \<le> unat a" "a \<in> B \<Longrightarrow> unat a + unat (sz a) \<le> hi" "a \<in> B \<Longrightarrow> (BLOCK_STRUCT_SIZE :: 'w word) < sz a"
    and layout_less: "a \<in> B \<Longrightarrow> b \<in> B \<Longrightarrow> a < b \<Longrightarrow> unat a + unat (sz a) \<le> unat b"
  using assms by (auto simp: layout_def)

lemma layout_disjoint:
  assumes "layout lo hi B sz" "a \<in> B" "b \<in> B" "a \<noteq> b"
  shows "{unat a ..< unat a + unat (sz a)} \<inter> {unat b ..< unat b + unat (sz b)} = {}"
  using layout_less [OF assms(1,2,3)] layout_less [OF assms(1,3,2)] assms(4) by (cases a b rule: linorder_cases) auto

lemma layout_cong: "\<forall>a\<in>B. sz a = sz' a \<Longrightarrow> layout lo hi B sz \<longleftrightarrow> layout lo hi B sz'"
  by (simp add: layout_def)

lemma layout_grow: "layout lo hi B sz \<Longrightarrow> hi \<le> hi' \<Longrightarrow> layout lo hi' B sz"
  unfolding layout_def by (meson le_trans)

text \<open>A block above all others.\<close>

lemma layout_above:
  assumes l: "layout lo hi B (sz :: 'w :: len word \<Rightarrow> 'w word)" and p: "hi \<le> unat p" "lo \<le> unat p" "unat p + unat s \<le> hi'" "(BLOCK_STRUCT_SIZE :: 'w word) < s"
  shows "p \<notin> B" "layout lo hi' (insert p B) (sz(p := s))"
proof -
  have s: "0 < unat (sz a)" if "a \<in> B" for a using layout_range(3) [OF l that] by (simp add: word_less_nat_alt)
  have lt: "a < p" if "a \<in> B" for a using layout_range(2) [OF l that] s [OF that] p(1) by (simp add: word_less_nat_alt)
  then show n: "p \<notin> B" by blast
  have r: "lo \<le> unat a \<and> unat a + unat (sz a) \<le> hi' \<and> (BLOCK_STRUCT_SIZE :: 'w word) < sz a" if "a \<in> B" for a
    using layout_range [OF l that] p(1,3) by simp
  have u: "unat a + unat (sz a) \<le> unat p" if "a \<in> B" for a using layout_range(2) [OF l that] p(1) by simp
  have np: "\<not> p < a" if "a \<in> B" for a using lt [OF that] by simp
  from n r u np p layout_less [OF l] layout_finite [OF l] show "layout lo hi' (insert p B) (sz(p := s))"
    by (auto simp: layout_def)
qed

text \<open>Splitting a block.\<close>

lemma layout_split:
  fixes p :: "'w :: len word"
  assumes l: "layout lo hi B sz" and p: "p \<in> B" "(BLOCK_STRUCT_SIZE :: 'w word) < n" "n < sz p" "(BLOCK_STRUCT_SIZE :: 'w word) < sz p - n" and hi: "hi \<le> 2 ^ LENGTH('w)"
  shows "p + n \<notin> B" "p < p + n" "unat (p + n) = unat p + unat n" "unat (sz p - n) = unat (sz p) - unat n"
    "layout lo hi (insert (p + n) B) (sz(p + n := sz p - n, p := n))"
proof -
  let ?q = "p + n"
  have np: "0 < unat n" using p(2) by (simp add: word_less_nat_alt)
  have ns: "unat n < unat (sz p)" using p(3) by (simp add: word_less_nat_alt)
  note r = layout_range [OF l p(1)]
  have "unat p + unat n < 2 ^ LENGTH('w)" using r(2) ns hi by linarith
  then show q: "unat ?q = unat p + unat n" by (simp add: unat_word_ariths)
  show d: "unat (sz p - n) = unat (sz p) - unat n" using p(3) by (simp add: unat_sub)
  show pq: "p < ?q" using q np by (simp add: word_less_nat_alt)
  have out: "unat a + unat (sz a) \<le> unat p \<or> unat p + unat (sz p) \<le> unat a" if "a \<in> B" "a \<noteq> p" for a
    using layout_less [OF l that(1) p(1)] layout_less [OF l p(1) that(1)] that(2) by (cases a p rule: linorder_cases) auto
  have pos: "0 < unat (sz a)" if "a \<in> B" for a using layout_range(3) [OF l that] by (simp add: word_less_nat_alt)
  show n: "?q \<notin> B"
  proof
    assume a: "?q \<in> B"
    have "?q \<noteq> p" using np by auto
    from out [OF a this] pos [OF a] q ns np show False by linarith
  qed
  let ?sz = "sz(?q := sz p - n, p := n)"
  have rng: "lo \<le> unat a \<and> unat a + unat (?sz a) \<le> hi \<and> (BLOCK_STRUCT_SIZE :: 'w word) < ?sz a" if "a \<in> insert ?q B" for a
    using that layout_range [OF l, of a] p q d r ns pq by auto
  have less: "unat a + unat (?sz a) \<le> unat b" if ab: "a \<in> insert ?q B" "b \<in> insert ?q B" "a < b" for a b
  proof -
    consider "a = p" "b = ?q" | "a = ?q" "b \<in> B" "b \<noteq> p" | "a = p" "b \<in> B" "b \<noteq> p" "b \<noteq> ?q" | "a \<in> B" "a \<noteq> p" "a \<noteq> ?q" "b = ?q" | "a \<in> B" "a \<noteq> p" "a \<noteq> ?q" "b \<in> B"
      using ab pq n by auto
    then show ?thesis
    proof cases
      case 2
      with out [of b] ab(3) q d ns pq show ?thesis by (auto simp: word_less_nat_alt)
    next
      case 3
      with layout_less [OF l p(1), of b] ab(3) ns pq show ?thesis by auto
    next
      case 4
      with out [of a] ab(3) q pq pos [of a] ns show ?thesis by (auto simp: word_less_nat_alt)
    qed (use q pq layout_less [OF l] ab(3) in auto)
  qed
  show "layout lo hi (insert ?q B) ?sz" using layout_finite [OF l] rng less by (simp add: layout_def)
qed

section \<open>What the heap needs of the page allocator\<close>

text \<open>Each grant starts at the break of before and ends below the break of after.\<close>

locale page_source =
  fixes alloc :: "'s \<Rightarrow> 'w :: len word \<Rightarrow> ('w word \<times> 's) option" and ready :: "'s \<Rightarrow> bool" and brk :: "'s \<Rightarrow> nat"
  assumes alloc_law: "ready s \<Longrightarrow> unat n < 2 ^ 30 \<Longrightarrow> \<exists>p s'. alloc s n = Some (p, s') \<and> ready s' \<and> brk s \<le> brk s' \<and>
      (p = 0 \<or> unat p = brk s \<and> unat p + unat n * RMEM_BLOCK_SIZE \<le> brk s')"
    and brk_bound: "ready s \<Longrightarrow> brk s \<le> 2 ^ LENGTH('w)"
begin

text \<open>Pages just granted are a block that overlaps none of those there.\<close>

lemma grant:
  assumes r: "ready s" and n: "unat n < 2 ^ 30" "unat sz' = unat n * RMEM_BLOCK_SIZE" "(BLOCK_STRUCT_SIZE :: 'w word) < sz'"
    and l: "layout lo (brk s) B sz" "lo \<le> brk s"
  obtains p s' where "alloc s n = Some (p, s')" "ready s'" "brk s \<le> brk s'" "layout lo (brk s') B sz"
    "p = 0 \<or> p \<notin> B \<and> layout lo (brk s') (insert p B) (sz(p := sz')) \<and> unat p = brk s \<and> unat p + unat sz' \<le> brk s'"
proof -
  from alloc_law [OF r n(1)] obtain p s' where a: "alloc s n = Some (p, s')" "ready s'" "brk s \<le> brk s'"
    "p = 0 \<or> unat p = brk s \<and> unat p + unat n * RMEM_BLOCK_SIZE \<le> brk s'" by blast
  have "p \<notin> B" "layout lo (brk s') (insert p B) (sz(p := sz'))" if "p \<noteq> 0"
    using layout_above [OF l(1), of p sz' "brk s'"] a(4) n(2,3) l(2) that by simp_all
  with a(4) n(2) have "p = 0 \<or> p \<notin> B \<and> layout lo (brk s') (insert p B) (sz(p := sz')) \<and> unat p = brk s \<and> unat p + unat sz' \<le> brk s'" by auto
  then show thesis by (rule that [OF a(1-3) layout_grow [OF l(1) a(3)]])
qed

end

definition vmem_ready :: "'w :: len word rmem_env \<Rightarrow> 'w word vm_env \<Rightarrow> 'w word vmem \<Rightarrow> bool" where
  "vmem_ready E V st \<longleftrightarrow> vmem_inv E st \<and> vmem_clean st \<and> 0 < unat (UBASE_VIRT V) \<and>
     unat (UBASE_VIRT V) + RMEM_TABLE_LENGTH * RMEM_BLOCK_SIZE \<le> 2 ^ LENGTH('w)"

definition vmem_brk :: "'w :: len word vm_env \<Rightarrow> 'w word vmem \<Rightarrow> nat" where
  "vmem_brk V st = unat (UBASE_VIRT V) + nat (vm_rbrk st) * RMEM_BLOCK_SIZE"

lemma RADDR_unat:
  fixes V :: "'w :: len word vm_env"
  assumes "vmem_ready E V st" "0 \<le> x" "x < int RMEM_TABLE_LENGTH"
  shows "unat (RADDR V x) = unat (UBASE_VIRT V) + nat x * RMEM_BLOCK_SIZE"
proof -
  have w: "32 \<le> LENGTH('w)" using vmem_inv_width assms(1) by (auto simp: vmem_ready_def)
  have "nat x < RMEM_TABLE_LENGTH" using assms(2,3) by simp
  then have "nat x * RMEM_BLOCK_SIZE < RMEM_TABLE_LENGTH * RMEM_BLOCK_SIZE" by (simp add: rmem_consts)
  then have "unat (UBASE_VIRT V) + unat (RADDR_INV V (RADDR V x)) < 2 ^ LENGTH('w)"
    using assms(1) unfolding RADDR_parts [OF w assms(2,3)] vmem_ready_def by linarith
  then have "unat (UBASE_VIRT V + RADDR_INV V (RADDR V x)) = unat (UBASE_VIRT V) + unat (RADDR_INV V (RADDR V x))"
    by (simp add: unat_word_ariths)
  then show ?thesis by (simp add: RADDR_parts [OF w assms(2,3)]) (simp add: RADDR_INV_def)
qed

lemma vmem_alloc_grant:
  fixes E :: "'w :: len word rmem_env"
  assumes r: "vmem_ready E V st" and n: "unat n < 2 ^ 30"
  shows "\<exists>p st'. nanvix_vmem_alloc E V st n = Some (p, st') \<and> vmem_ready E V st' \<and> vmem_brk V st \<le> vmem_brk V st' \<and>
    (p = 0 \<or> unat p = vmem_brk V st \<and> unat p + unat n * RMEM_BLOCK_SIZE \<le> vmem_brk V st')"
proof -
  have inv: "vmem_inv E st" "vmem_clean st" using r by (simp_all add: vmem_ready_def)
  note brk = vmem_inv_rbrk [OF inv(1)]
  consider "n = 0" | "n \<noteq> 0" "nat (vm_rbrk st) + unat n < RMEM_TABLE_LENGTH" | "n \<noteq> 0" "RMEM_TABLE_LENGTH \<le> nat (vm_rbrk st) + unat n" by linarith
  then show ?thesis
  proof cases
    case 1
    with r show ?thesis by (simp add: nanvix_vmem_alloc_def)
  next
    case 2
    have n': "unat n < 2 ^ 31" using n by simp
    obtain k st' where k: "nanvix_vmem_alloc E V st n = Some (if k = unat n then RADDR V (vm_rbrk st) else 0, st')"
      "vmem_inv E st'" "vmem_clean st'" "vm_rbrk st' = vm_rbrk st + int (unat n)"
      using vmem_alloc_ok [OF inv 2(1) n' refl 2(2)] by blast
    have "nat (vm_rbrk st') = nat (vm_rbrk st) + unat n" using k(4) brk(1) by linarith
    moreover have "unat (RADDR V (vm_rbrk st)) = unat (UBASE_VIRT V) + nat (vm_rbrk st) * RMEM_BLOCK_SIZE"
      using RADDR_unat [OF r] brk by simp
    ultimately show ?thesis using k r by (simp add: vmem_ready_def vmem_brk_def add_mult_distrib)
  next
    case 3
    have "int (unat n) < 2 ^ 30" using n by (metis of_nat_less_iff of_nat_numeral of_nat_power)
    then have u: "uint n < 2 ^ 30" "0 < uint n" using 3(1) by (simp_all add: unat_gt_0) (metis uint_0_iff uint_ge_0 order_le_less)
    moreover have "- (2 ^ 31) \<le> uint n" by (rule order_trans [OF _ uint_ge_0]) simp
    ultimately have s: "signed_take_bit 31 (uint n) = uint n" by (intro signed_take_bit_int_eq_self) simp_all
    have "int RMEM_TABLE_LENGTH \<le> vm_rbrk st + uint n" 
      using 3(2) brk(1) uint_nat [of n] by linarith
    then have "nanvix_vmem_expand st (uint n) = Some (Inl ENOMEM, st)"
      using u brk by (simp add: nanvix_vmem_expand_def RMEM_TABLE_LENGTH_def)
    then show ?thesis using 3(1) s r by (simp add: nanvix_vmem_alloc_def)
  qed
qed

interpretation pages: page_source "nanvix_vmem_alloc E V" "vmem_ready E V" "vmem_brk V" for E V
proof
  fix s :: "'a word vmem" assume r: "vmem_ready E V s"
  then have "nat (vm_rbrk s) \<le> RMEM_TABLE_LENGTH" using vmem_inv_rbrk [of E s] by (simp add: vmem_ready_def)
  then have "nat (vm_rbrk s) * RMEM_BLOCK_SIZE \<le> RMEM_TABLE_LENGTH * RMEM_BLOCK_SIZE" by (rule mult_le_mono1)
  moreover have "unat (UBASE_VIRT V) + RMEM_TABLE_LENGTH * RMEM_BLOCK_SIZE \<le> 2 ^ LENGTH('a)" using r by (simp add: vmem_ready_def)
  ultimately show "vmem_brk V s \<le> 2 ^ LENGTH('a)" unfolding vmem_brk_def by linarith
qed (rule vmem_alloc_grant)

section \<open>Invariant\<close>

text \<open>
  What the parameters are: the static block lies outside the pages of the heap, \<open>TRUNCATE\<close> rounds up to a multiple of
  the page size and \<open>WITHIN\<close> is the test of a half-open range.
\<close>

definition heap_env_ok :: "'w :: len word vm_env \<Rightarrow> 'w word heap_env \<Rightarrow> bool" where
  "heap_env_ok V H \<longleftrightarrow> he_head H \<noteq> 0 \<and>
     (unat (he_head H) < unat (UBASE_VIRT V) \<or> unat (UBASE_VIRT V) + RMEM_TABLE_LENGTH * RMEM_BLOCK_SIZE \<le> unat (he_head H)) \<and>
     unat (PAGE_SIZE H) = RMEM_BLOCK_SIZE \<and>
     (\<forall>x. unat x + RMEM_BLOCK_SIZE \<le> 2 ^ LENGTH('w) \<longrightarrow>
        unat (TRUNCATE H x (PAGE_SIZE H)) = (unat x + RMEM_BLOCK_SIZE - 1) div RMEM_BLOCK_SIZE * RMEM_BLOCK_SIZE) \<and>
     (\<forall>x a b. WITHIN H x a b \<longleftrightarrow> a \<le> x \<and> x < b)"

text \<open>
  The free blocks \<open>F\<close> are the members of the list and \<open>A\<close> are the blocks in use; together, without the static block, they
  are laid out in the pages granted. Before the first allocation there is no list.
\<close>

definition heap_inv :: "'w :: len word rmem_env \<Rightarrow> 'w word vm_env \<Rightarrow> 'w word heap_env \<Rightarrow> 'w word set \<Rightarrow> 'w word set \<Rightarrow> 'w word heap \<Rightarrow> bool" where
  "heap_inv E V H F A h \<longleftrightarrow> vmem_ready E V (hp_vmem h) \<and> A \<inter> F = {} \<and>
     layout (unat (UBASE_VIRT V)) (vmem_brk V (hp_vmem h)) (A \<union> (F - {he_head H})) (bk_size h) \<and>
     (if hp_freep h = 0 then F = {} \<and> A = {}
      else ring F (bk_nextp h) \<and> he_head H \<in> F \<and> hp_freep h \<in> F \<and> bk_size h (he_head H) = 0)"

text \<open>No free block is where a block of size \<open>s\<close> at \<open>bp\<close> is taken to end, nor is taken to end at \<open>bp\<close>.\<close>

definition clear_of :: "'w :: len word heap \<Rightarrow> 'w word set \<Rightarrow> 'w word \<Rightarrow> 'w word \<Rightarrow> bool" where
  "clear_of h F bp s \<longleftrightarrow> (\<forall>f\<in>F. bp + BLOCK_STRUCT_SIZE * s \<noteq> f \<and> block_end h f \<noteq> bp)"

lemma heap_invD:
  assumes "heap_inv E V H F A h"
  shows heap_inv_ready: "vmem_ready E V (hp_vmem h)" and heap_inv_disjoint: "A \<inter> F = {}"
    and heap_inv_layout: "layout (unat (UBASE_VIRT V)) (vmem_brk V (hp_vmem h)) (A \<union> (F - {he_head H})) (bk_size h)"
    and heap_inv_ring: "hp_freep h \<noteq> 0 \<Longrightarrow> ring F (bk_nextp h)" "hp_freep h \<noteq> 0 \<Longrightarrow> he_head H \<in> F" "hp_freep h \<noteq> 0 \<Longrightarrow> hp_freep h \<in> F"
      "hp_freep h \<noteq> 0 \<Longrightarrow> bk_size h (he_head H) = 0"
    and heap_inv_none: "hp_freep h = 0 \<Longrightarrow> F = {}" "hp_freep h = 0 \<Longrightarrow> A = {}"
  using assms by (auto simp: heap_inv_def)

lemma vmem_brk_range:
  assumes "vmem_ready E V st"
  shows "vmem_brk V st \<le> unat (UBASE_VIRT V) + RMEM_TABLE_LENGTH * RMEM_BLOCK_SIZE" "unat (UBASE_VIRT V) \<le> vmem_brk V st"
    "0 < unat (UBASE_VIRT V)"
proof -
  have "nat (vm_rbrk st) \<le> RMEM_TABLE_LENGTH" using vmem_inv_rbrk [of E st] assms by (simp add: vmem_ready_def)
  then show "vmem_brk V st \<le> unat (UBASE_VIRT V) + RMEM_TABLE_LENGTH * RMEM_BLOCK_SIZE" by (simp add: vmem_brk_def)
qed (use assms in \<open>simp_all add: vmem_brk_def vmem_ready_def\<close>)

lemma head_outside:
  assumes "heap_env_ok V H" "vmem_ready E V st" "unat (UBASE_VIRT V) \<le> unat a" "unat a < vmem_brk V st"
  shows "a \<noteq> he_head H"
  using assms vmem_brk_range [OF assms(2)] by (auto simp: heap_env_ok_def)

text \<open>Addresses in blocks: none is null or the static block, and none wraps.\<close>

lemma heap_block:
  fixes h :: "'w :: len word heap"
  assumes inv: "heap_inv E V H F A h" and env: "heap_env_ok V H" and a: "a \<in> A \<or> a \<in> F \<and> a \<noteq> he_head H"
  shows "a \<noteq> 0" "a \<noteq> he_head H" "unat (a + BLOCK_STRUCT_SIZE) = unat a + unat (BLOCK_STRUCT_SIZE :: 'w word)" "a + BLOCK_STRUCT_SIZE \<noteq> 0"
    "unat (UBASE_VIRT V) \<le> unat a" "unat a + unat (bk_size h a) \<le> vmem_brk V (hp_vmem h)" "(BLOCK_STRUCT_SIZE :: 'w word) < bk_size h a"
proof -
  have B: "a \<in> A \<union> (F - {he_head H})" using a by blast
  note l = layout_range [OF heap_inv_layout [OF inv] B] and b = vmem_brk_range [OF heap_inv_ready [OF inv]]
  have s: "unat (BLOCK_STRUCT_SIZE :: 'w word) < unat (bk_size h a)" using l(3) by (simp add: word_less_nat_alt)
  show "a \<noteq> he_head H" using head_outside [OF env heap_inv_ready [OF inv] l(1)] l(2) s by linarith
  have "unat a + unat (BLOCK_STRUCT_SIZE :: 'w word) < 2 ^ LENGTH('w)"
    using s l(2) pages.brk_bound [OF heap_inv_ready [OF inv]] by linarith
  then show u: "unat (a + BLOCK_STRUCT_SIZE) = unat a + unat (BLOCK_STRUCT_SIZE :: 'w word)" by (simp add: unat_word_ariths)
  show "a \<noteq> 0" using l(1) b(3) by auto
  show "a + BLOCK_STRUCT_SIZE \<noteq> 0"
  proof
    assume "a + BLOCK_STRUCT_SIZE = 0"
    then have "unat (a + BLOCK_STRUCT_SIZE) = 0" by simp
    with u l(1) b(3) show False by linarith
  qed
qed (use layout_range [OF heap_inv_layout [OF inv], of a] a in blast)+

lemma heap_free_nonnull:
  assumes "heap_inv E V H F A h" "heap_env_ok V H"
  shows "0 \<notin> F"
  using heap_block(1) [OF assms, of 0] assms(2) by (auto simp: heap_env_ok_def)

section \<open>Freeing\<close>

lemma free_search_ok:
  assumes r: "ring F nx" and F: "0 \<notin> F" "bp \<notin> F" "a \<in> F"
  obtains p where "p \<in> F" "between p bp (nx p)" "free_search nx bp a = Some p"
proof -
  obtain q where q: "q \<in> F" "between q bp (nx q)" by (rule ring_place [OF r F(2)])
  have stop: "free_search nx bp b = (if between b bp (nx b) then Some b else free_search nx bp (nx b))" if "b \<in> F" for b
    using that F ring_next [OF r that] by (subst free_search.simps) (auto simp: between_def)
  have "\<exists>p\<in>F. between p bp (nx p) \<and> free_search nx bp a = Some p"
    using r F(3) q(1)
  proof (induction rule: ring_induct)
    case target
    show ?case using q stop [OF q(1)] by auto
  next
    case (step b)
    then show ?case using stop [OF step(1)] by (cases "between b bp (nx b)") auto
  qed
  with that show thesis by blast
qed

lemma free_list_ok:
  assumes r: "ring F (bk_nextp h)" "0 \<notin> F" "hp_freep h \<in> F" and bp: "bp \<notin> F" "bp \<noteq> 0" "bp + BLOCK_STRUCT_SIZE \<noteq> 0" "clear_of h F bp (bk_size h bp)"
  obtains p where "p \<in> F" "ring (insert bp F) ((bk_nextp h)(bp := bk_nextp h p, p := bp))"
    "nanvix_free h (bp + BLOCK_STRUCT_SIZE) = Some (h\<lparr>bk_nextp := (bk_nextp h)(bp := bk_nextp h p, p := bp), hp_freep := p\<rparr>)"
proof -
  obtain p where p: "p \<in> F" "between p bp (bk_nextp h p)" "free_search (bk_nextp h) bp (hp_freep h) = Some p"
    by (rule free_search_ok [OF r(1,2) bp(1) r(3)])
  have "block_end h bp \<noteq> bk_nextp h p" "block_end h p \<noteq> bp"
    using bp(4) p(1) ring_next [OF r(1) p(1)] by (auto simp: clear_of_def block_end_def)
  then have "nanvix_free h (bp + BLOCK_STRUCT_SIZE) = Some (h\<lparr>bk_nextp := (bk_nextp h)(bp := bk_nextp h p, p := bp), hp_freep := p\<rparr>)"
    using p(3) bp by (simp add: nanvix_free_def merge_upper_def merge_lower_def block_end_def Let_def)
  with that [OF p(1) ring_insert [OF r(1) p(1) bp(1) p(2)]] show thesis .
qed

lemma heap_free_ok:
  assumes inv: "heap_inv E V H F A h" and env: "heap_env_ok V H" and bp: "bp \<in> A" "clear_of h F bp (bk_size h bp)"
  obtains p where "p \<in> F" "nanvix_free h (bp + BLOCK_STRUCT_SIZE) = Some (h\<lparr>bk_nextp := (bk_nextp h)(bp := bk_nextp h p, p := bp), hp_freep := p\<rparr>)"
    "heap_inv E V H (insert bp F) (A - {bp}) (h\<lparr>bk_nextp := (bk_nextp h)(bp := bk_nextp h p, p := bp), hp_freep := p\<rparr>)"
proof -
  have f: "hp_freep h \<noteq> 0" using heap_inv_none(2) [OF inv] bp(1) by auto
  note r = heap_inv_ring [OF inv f] and z = heap_free_nonnull [OF inv env] and l = heap_block [OF inv env disjI1 [OF bp(1)]]
  have nF: "bp \<notin> F" using heap_inv_disjoint [OF inv] bp(1) by blast
  obtain p where p: "p \<in> F" "ring (insert bp F) ((bk_nextp h)(bp := bk_nextp h p, p := bp))"
    "nanvix_free h (bp + BLOCK_STRUCT_SIZE) = Some (h\<lparr>bk_nextp := (bk_nextp h)(bp := bk_nextp h p, p := bp), hp_freep := p\<rparr>)"
    by (rule free_list_ok [OF r(1) z r(3) nF l(1,4) bp(2)])
  have "A - {bp} \<union> (insert bp F - {he_head H}) = A \<union> (F - {he_head H})" using bp(1) l(2) by auto
  then have "heap_inv E V H (insert bp F) (A - {bp}) (h\<lparr>bk_nextp := (bk_nextp h)(bp := bk_nextp h p, p := bp), hp_freep := p\<rparr>)"
    using inv p r f z by (auto simp: heap_inv_def)
  with that p(1,3) show thesis by blast
qed

text \<open>
  Any block, also one that is taken for a neighbour of a free block: the search ends at the free block below it, and the list
  stays a ring, without the block merged with and without the new one if that is merged.
\<close>

definition freed_size :: "'w :: len word heap \<Rightarrow> 'w word \<Rightarrow> 'w word \<Rightarrow> 'w word" where
  "freed_size h p bp = bk_size h bp + (if block_end h bp = bk_nextp h p then bk_size h (bk_nextp h p) else 0)"

definition freed_ring :: "'w :: len word heap \<Rightarrow> 'w word set \<Rightarrow> 'w word \<Rightarrow> 'w word \<Rightarrow> 'w word set" where
  "freed_ring h F p bp = (if block_end h p = bp then F else insert bp F) -
     (if block_end h bp = bk_nextp h p \<and> bk_nextp h p \<noteq> p then {bk_nextp h p} else {})"

lemma free_merge_ok:
  assumes r: "ring F (bk_nextp h)" "0 \<notin> F" "hp_freep h \<in> F" and bp: "bp \<notin> F" "bp \<noteq> 0" "bp + BLOCK_STRUCT_SIZE \<noteq> 0"
    and alone: "\<And>p. F = {p} \<Longrightarrow> block_end h p \<noteq> bp"
  obtains p h' where "p \<in> F" "between p bp (bk_nextp h p)" "nanvix_free h (bp + BLOCK_STRUCT_SIZE) = Some h'" "hp_freep h' = p"
    "ring (freed_ring h F p bp) (bk_nextp h')" "hp_data h' = hp_data h" "hp_vmem h' = hp_vmem h"
    "bk_size h' = (bk_size h)(bp := freed_size h p bp, p := (if block_end h p = bp then bk_size h p + freed_size h p bp else bk_size h p))"
proof -
  obtain p where p: "p \<in> F" "between p bp (bk_nextp h p)" "free_search (bk_nextp h) bp (hp_freep h) = Some p"
    by (rule free_search_ok [OF r(1,2) bp(1) r(3)])
  let ?f = "bk_nextp h p"
  have f: "?f \<in> F" by (rule ring_next [OF r(1) p(1)])
  then have ne: "?f \<noteq> 0" "bp \<noteq> p" "bp \<noteq> ?f" using r(2) p(1) bp(1) by auto
  define m where "m = (if block_end h bp = ?f then bk_nextp h ?f else ?f)"
  define h' where "h' = h\<lparr>bk_size := (bk_size h)(bp := freed_size h p bp, p := (if block_end h p = bp then bk_size h p + freed_size h p bp else bk_size h p)),
    bk_nextp := (bk_nextp h)(bp := m, p := (if block_end h p = bp then m else bp)), hp_freep := p\<rparr>"
  have run: "nanvix_free h (bp + BLOCK_STRUCT_SIZE) = Some h'"
    using p(3) bp(2,3) ne by (simp add: nanvix_free_def merge_upper_def merge_lower_def block_end_def h'_def m_def freed_size_def Let_def fun_upd_idem_iff fun_upd_twist)
  note i = ring_insert [OF r(1) p(1) bp(1) p(2)]
  have "ring (freed_ring h F p bp) ((bk_nextp h)(bp := m, p := (if block_end h p = bp then m else bp)))"
  proof (cases "?f = p")
    case True
    then have "F = {p}" by (rule ring_self [OF r(1) p(1)])
    with alone True i show ?thesis by (simp add: freed_ring_def m_def)
  next
    case other: False
    show ?thesis
    proof (cases "block_end h p = bp")
      case low: True
      show ?thesis
      proof (cases "block_end h bp = ?f")
        case True
        have "ring (F - {?f}) ((bk_nextp h)(p := bk_nextp h ?f))" by (rule ring_remove [OF r(1) p(1) refl other])
        also have "?this \<longleftrightarrow> ring (F - {?f}) ((bk_nextp h)(bp := bk_nextp h ?f, p := bk_nextp h ?f))" using bp(1) by (intro ring_cong) auto
        finally show ?thesis using low True other by (simp add: freed_ring_def m_def)
      next
        case False
        have "ring F ((bk_nextp h)(bp := ?f, p := ?f))" using r(1) bp(1) ring_cong [of F "(bk_nextp h)(bp := ?f, p := ?f)" "bk_nextp h"] by auto
        with low False show ?thesis by (simp add: freed_ring_def m_def)
      qed
    next
      case low: False
      show ?thesis
      proof (cases "block_end h bp = ?f")
        case True
        let ?nx = "(bk_nextp h)(bp := ?f, p := bp)"
        have "ring (insert bp F - {?f}) (?nx(bp := ?nx ?f))" using ne by (intro ring_remove [OF i]) auto
        moreover have "?nx(bp := ?nx ?f) = (bk_nextp h)(bp := bk_nextp h ?f, p := bp)" using ne other by auto
        ultimately show ?thesis using low True other by (simp add: freed_ring_def m_def)
      qed (use low i in \<open>simp add: freed_ring_def m_def\<close>)
    qed
  qed
  with that [OF p(1,2) run] show thesis by (simp add: h'_def)
qed

text \<open>Freeing in a heap: the static block is never merged into, and where nothing is merged the heap stays well formed.\<close>

lemma heap_head_end:
  assumes "heap_inv E V H F A h" "heap_env_ok V H" "bp \<in> A"
  shows "block_end h (he_head H) \<noteq> bp"
proof -
  have "hp_freep h \<noteq> 0" using heap_inv_none(2) [OF assms(1)] assms(3) by auto
  from heap_inv_ring(4) [OF assms(1) this] have "block_end h (he_head H) = he_head H" by (simp add: block_end_def)
  with heap_block(2) [OF assms(1,2) disjI1 [OF assms(3)]] show ?thesis by simp
qed

lemma heap_free_any:
  assumes inv: "heap_inv E V H F A h" and env: "heap_env_ok V H" and bp: "bp \<in> A"
  obtains p h' where "p \<in> F" "between p bp (bk_nextp h p)" "nanvix_free h (bp + BLOCK_STRUCT_SIZE) = Some h'" "hp_freep h' = p"
    "ring (freed_ring h F p bp) (bk_nextp h')" "hp_data h' = hp_data h" "hp_vmem h' = hp_vmem h"
    "bk_size h' = (bk_size h)(bp := freed_size h p bp, p := (if block_end h p = bp then bk_size h p + freed_size h p bp else bk_size h p))"
proof -
  have f: "hp_freep h \<noteq> 0" using heap_inv_none(2) [OF inv] bp by auto
  note r = heap_inv_ring [OF inv f] and l = heap_block [OF inv env disjI1 [OF bp]]
  have nF: "bp \<notin> F" using heap_inv_disjoint [OF inv] bp by blast
  have "block_end h p \<noteq> bp" if "F = {p}" for p using heap_head_end [OF assms] r(2) that by simp
  from free_merge_ok [OF r(1) heap_free_nonnull [OF inv env] r(3) nF l(1,4) this] that show thesis by blast
qed

lemma heap_freed:
  assumes inv: "heap_inv E V H F A h" and env: "heap_env_ok V H" and bp: "bp \<in> A"
    and h': "p \<in> F" "hp_freep h' = p" "hp_vmem h' = hp_vmem h" "ring (insert bp F) (bk_nextp h')" "bk_size h' = bk_size h"
  shows "heap_inv E V H (insert bp F) (A - {bp}) h'"
proof -
  have f: "hp_freep h \<noteq> 0" using heap_inv_none(2) [OF inv] bp by auto
  have "p \<noteq> 0" using heap_free_nonnull [OF inv env] h'(1) by auto
  moreover have "A - {bp} \<union> (insert bp F - {he_head H}) = A \<union> (F - {he_head H})" using bp heap_block(2) [OF inv env disjI1 [OF bp]] by auto
  ultimately show ?thesis using inv h' heap_inv_ring [OF inv f] by (auto simp: heap_inv_def)
qed

section \<open>Allocating\<close>

text \<open>A free block that is taken, whole or in part.\<close>

lemma malloc_take_ok:
  fixes h :: "'w :: len word heap"
  assumes inv: "heap_inv E V H F A h" "hp_freep h \<noteq> 0" and env: "heap_env_ok V H" and q: "q \<in> F" "p = bk_nextp h q"
    and n: "n \<le> bk_size h p" "(BLOCK_STRUCT_SIZE :: 'w word) < n" "unat n + unat (BLOCK_MIN_SIZE :: 'w word) < 2 ^ LENGTH('w)"
  obtains F' h' where "malloc_take H h n q p = (p + BLOCK_STRUCT_SIZE, h')" "heap_inv E V H F' (insert p A) h'" "p \<in> F" "p \<noteq> he_head H"
    "n \<le> bk_size h' p" "bk_size h' p \<le> bk_size h p" "\<forall>a\<in>A. bk_size h' a = bk_size h a" "hp_data h' = hp_data h" "hp_vmem h' = hp_vmem h"
proof -
  note r = heap_inv_ring [OF inv] and l = heap_inv_layout [OF inv(1)]
  have pF: "p \<in> F" using ring_next [OF r(1) q(1)] q(2) by simp
  have head: "p \<noteq> he_head H" using n(1,2) r(4) by (metis less_le_trans not_less word_zero_le)
  have pq: "p \<noteq> q" using ring_self [OF r(1) q(1)] q(2) head r(2) pF by auto
  have qz: "q \<noteq> 0" using heap_free_nonnull [OF inv(1) env] q(1) by auto
  have pA: "p \<notin> A" using heap_inv_disjoint [OF inv(1)] pF by blast
  have w: "WITHIN H x a b \<longleftrightarrow> a \<le> x \<and> x < b" for x a b using env by (simp add: heap_env_ok_def)
  show thesis
  proof (cases "bk_size h p < n + BLOCK_MIN_SIZE")
    case True
    let ?h = "h\<lparr>bk_nextp := (bk_nextp h)(q := bk_nextp h p), hp_freep := q\<rparr>"
    have "insert p A \<union> (F - {p} - {he_head H}) = A \<union> (F - {he_head H})" using pF head by blast
    moreover have "ring (F - {p}) ((bk_nextp h)(q := bk_nextp h p))" by (rule ring_remove [OF r(1) q pq])
    ultimately have "heap_inv E V H (F - {p}) (insert p A) ?h" using inv r q pF qz pq head by (auto simp: heap_inv_def)
    moreover have "malloc_take H h n q p = (p + BLOCK_STRUCT_SIZE, ?h)" using True n(1) by (simp add: malloc_take_def w)
    ultimately show thesis using that pF head n(1) by simp
  next
    case False
    let ?r = "p + n" and ?sz = "(bk_size h)(p + n := bk_size h p - n, p := n)" and ?nx = "(bk_nextp h)(q := p + n, p + n := bk_nextp h p)"
    let ?h = "h\<lparr>bk_nextp := ?nx, bk_size := ?sz, hp_freep := q\<rparr>"
    have u: "unat (n + BLOCK_MIN_SIZE) = unat n + unat (BLOCK_MIN_SIZE :: 'w word)" using n(3) by (simp add: unat_word_ariths)
    have m: "unat (BLOCK_MIN_SIZE :: 'w word) = unat (BLOCK_STRUCT_SIZE :: 'w word) + 1" by (rule BLOCK_sizes)
    have un: "unat n + unat (BLOCK_STRUCT_SIZE :: 'w word) < unat (bk_size h p)" using False u m by (simp add: word_less_nat_alt)
    then have np: "n < bk_size h p" by (simp add: word_less_nat_alt)
    then have "unat (bk_size h p - n) = unat (bk_size h p) - unat n" by (simp add: unat_sub)
    then have rest: "(BLOCK_STRUCT_SIZE :: 'w word) < bk_size h p - n" using un by (simp add: word_less_nat_alt)
    have B: "p \<in> A \<union> (F - {he_head H})" using pF head by blast
    note s = layout_split [OF l B n(2) np rest pages.brk_bound [OF heap_inv_ready [OF inv(1)]]]
    note b = heap_block [OF inv(1) env, of p]
    have rb: "unat ?r < vmem_brk V (hp_vmem h)" using s(3) b(6) pF head un by simp
    have rh: "?r \<noteq> he_head H" using head_outside [OF env heap_inv_ready [OF inv(1)] _ rb] s(3) b(5) pF head by simp
    have rF: "?r \<notin> F" "?r \<notin> A" using s(1) rh by auto
    have "?r < bk_nextp h p" if "p < bk_nextp h p"
    proof (cases "bk_nextp h p = he_head H")
      case True
      with that env vmem_brk_range [OF heap_inv_ready [OF inv(1)]] b(5) pF head rb show ?thesis
        by (auto simp: heap_env_ok_def word_less_nat_alt)
    next
      case False
      then have "bk_nextp h p \<in> A \<union> (F - {he_head H})" using ring_next [OF r(1) pF] by blast
      from layout_less [OF l B this that] s(3) un show ?thesis by (simp add: word_less_nat_alt)
    qed
    then have "between p ?r (bk_nextp h p)" using s(2) by (simp add: between_def)
    from ring_insert [OF r(1) pF rF(1) this] have i: "ring (insert ?r F) ((bk_nextp h)(?r := bk_nextp h p, p := ?r))" .
    have "q \<in> insert ?r F" "p = ((bk_nextp h)(?r := bk_nextp h p, p := ?r)) q" using q pq rF by auto
    from ring_remove [OF i this pq] have "ring (insert ?r F - {p}) ((bk_nextp h)(?r := bk_nextp h p, p := ?r, q := ?r))" by (simp only: fun_upd_same)
    also have "?this \<longleftrightarrow> ring (insert ?r F - {p}) ?nx" using pq rF q(1) by (intro ring_cong) auto
    finally have ring: "ring (insert ?r F - {p}) ?nx" .
    have "insert p A \<union> (insert ?r F - {p} - {he_head H}) = insert ?r (A \<union> (F - {he_head H}))" using pF head rh s(2) by auto
    then have "heap_inv E V H (insert ?r F - {p}) (insert p A) ?h"
      using inv r(2,4) q(1) qz pq head rh rF s(2,5) ring heap_inv_disjoint [OF inv(1)] by (auto simp: heap_inv_def)
    moreover have "malloc_take H h n q p = (p + BLOCK_STRUCT_SIZE, ?h)" using False pq by (simp add: malloc_take_def w Let_def)
    moreover have "\<forall>a\<in>A. ?sz a = bk_size h a" using pA rF by auto
    ultimately show thesis using that pF head n(1) by simp
  qed
qed

text \<open>More pages: the new block is free and follows the block that the list is entered at.\<close>

definition page_bytes :: "'w :: len word \<Rightarrow> 'w word" where
  "page_bytes n = of_nat ((unat n + RMEM_BLOCK_SIZE - 1) div RMEM_BLOCK_SIZE * RMEM_BLOCK_SIZE)"

definition next_pages :: "'w :: len word vm_env \<Rightarrow> 'w word heap \<Rightarrow> 'w word" where
  "next_pages V h = of_nat (vmem_brk V (hp_vmem h))"

lemma page_count:
  fixes n :: "'w :: len word"
  assumes env: "heap_env_ok V H" and n: "0 < unat n" "unat n + RMEM_BLOCK_SIZE \<le> 2 ^ 30" "32 \<le> LENGTH('w)"
  defines "k \<equiv> TRUNCATE H n (PAGE_SIZE H) div PAGE_SIZE H"
  shows "k * PAGE_SIZE H = page_bytes n" "unat k < 2 ^ 30" "unat (page_bytes n) = unat k * RMEM_BLOCK_SIZE" "n \<le> page_bytes n"
proof -
  let ?m = "(unat n + RMEM_BLOCK_SIZE - 1) div RMEM_BLOCK_SIZE"
  have p: "(2 :: nat) ^ 32 \<le> 2 ^ LENGTH('w)" by (rule power_increasing [OF n(3)]) simp
  have m: "?m * RMEM_BLOCK_SIZE \<le> unat n + RMEM_BLOCK_SIZE - 1" "unat n \<le> ?m * RMEM_BLOCK_SIZE" "?m \<le> unat n + RMEM_BLOCK_SIZE - 1"
    using n(1) by (simp_all add: rmem_consts)
  have t: "unat (TRUNCATE H n (PAGE_SIZE H)) = ?m * RMEM_BLOCK_SIZE" and ps: "unat (PAGE_SIZE H) = RMEM_BLOCK_SIZE"
    using env n(2) p unfolding heap_env_ok_def by (simp_all add: order_trans)
  have k: "unat k = ?m" unfolding k_def unat_div t ps by (simp add: rmem_consts)
  have lt: "?m * RMEM_BLOCK_SIZE < 2 ^ LENGTH('w)" 
  proof -
    have "unat n + RMEM_BLOCK_SIZE \<le> 1073741824" "4294967296 \<le> (2 :: nat) ^ LENGTH('w)" using n(2) p by simp_all
    then show ?thesis using m(1) by linarith
  qed
  show b: "unat (page_bytes n) = unat k * RMEM_BLOCK_SIZE" unfolding page_bytes_def unat_of_nat k using lt by simp
  show "k * PAGE_SIZE H = page_bytes n" using lt by (intro word_unat_eq_iff [THEN iffD2]) (simp add: b unat_word_ariths ps k)
  show "unat k < 2 ^ 30" unfolding k by (rule le_less_trans [OF m(3)]) (use n(1,2) in linarith)
  show "n \<le> page_bytes n" using b k m(2) by (simp add: word_le_nat_alt)
qed

lemma expand_ok:
  fixes h :: "'w :: len word heap"
  assumes inv: "heap_inv E V H F A h" "hp_freep h \<noteq> 0" and env: "heap_env_ok V H"
    and n: "(BLOCK_STRUCT_SIZE :: 'w word) < n" "unat n + RMEM_BLOCK_SIZE \<le> 2 ^ 30" and clear: "clear_of h F (next_pages V h) (page_bytes n)"
  obtains (refused) vm where "expand E V H h n = Some (0, h\<lparr>hp_vmem := vm\<rparr>)" "heap_inv E V H F A (h\<lparr>hp_vmem := vm\<rparr>)"
  | (granted) p h' where "expand E V H h n = Some (p, h')" "p \<noteq> 0" "p \<in> F" "hp_freep h' = p" "bk_nextp h' p = next_pages V h" "next_pages V h \<notin> A \<union> F"
      "heap_inv E V H (insert (next_pages V h) F) A h'" "bk_size h' = (bk_size h)(next_pages V h := page_bytes n)" "hp_data h' = hp_data h"
proof -
  note r = heap_inv_ring [OF inv] and l = heap_inv_layout [OF inv(1)] and ready = heap_inv_ready [OF inv(1)]
  have n0: "0 < unat n" and w: "32 \<le> LENGTH('w)" using n(1) vmem_inv_width ready by (auto simp: word_less_nat_alt vmem_ready_def)
  note k = page_count [OF env n0 n(2) w]
  let ?k = "TRUNCATE H n (PAGE_SIZE H) div PAGE_SIZE H" and ?B = "A \<union> (F - {he_head H})"
  have big: "(BLOCK_STRUCT_SIZE :: 'w word) < page_bytes n" using n(1) k(4) by simp
  obtain p vm where g: "nanvix_vmem_alloc E V (hp_vmem h) ?k = Some (p, vm)" "vmem_ready E V vm"
    "layout (unat (UBASE_VIRT V)) (vmem_brk V vm) ?B (bk_size h)"
    "p = 0 \<or> p \<notin> ?B \<and> layout (unat (UBASE_VIRT V)) (vmem_brk V vm) (insert p ?B) ((bk_size h)(p := page_bytes n)) \<and>
       unat p = vmem_brk V (hp_vmem h) \<and> unat p + unat (page_bytes n) \<le> vmem_brk V vm"
    by (rule pages.grant [OF ready k(2,3) big l vmem_brk_range(2) [OF ready]])
  show thesis
  proof (cases "p = 0")
    case True
    have "heap_inv E V H F A (h\<lparr>hp_vmem := vm\<rparr>)" using inv g(2,3) by (auto simp: heap_inv_def)
    moreover have "expand E V H h n = Some (0, h\<lparr>hp_vmem := vm\<rparr>)" using True g(1) by (simp add: expand_def Let_def)
    ultimately show thesis using refused by blast
  next
    case False
    with g(4) have g': "p \<notin> ?B" "layout (unat (UBASE_VIRT V)) (vmem_brk V vm) (insert p ?B) ((bk_size h)(p := page_bytes n))"
      "unat p = vmem_brk V (hp_vmem h)" "unat p + unat (page_bytes n) \<le> vmem_brk V vm" by simp_all
    have pn: "p = next_pages V h" by (simp add: next_pages_def flip: g'(3))
    let ?h = "h\<lparr>hp_vmem := vm, bk_size := (bk_size h)(p := page_bytes n)\<rparr>"
    have lt: "unat p < vmem_brk V vm" using g'(4) big by (simp add: word_less_nat_alt)
    have ph: "p \<noteq> he_head H" using head_outside [OF env g(2) _ lt] g'(3) vmem_brk_range(2) [OF ready] by simp
    have pF: "p \<notin> F" "p \<notin> A" using g'(1) ph by auto
    have inv': "heap_inv E V H F (insert p A) ?h"
      using inv r g(2) g'(2) pF ph by (auto simp: heap_inv_def)
    have "clear_of ?h F p (bk_size ?h p)" using clear pF pn by (auto simp: clear_of_def block_end_def)
    then obtain q where q: "q \<in> F" "nanvix_free ?h (p + BLOCK_STRUCT_SIZE) = Some (?h\<lparr>bk_nextp := (bk_nextp h)(p := bk_nextp h q, q := p), hp_freep := q\<rparr>)"
      "heap_inv E V H (insert p F) (insert p A - {p}) (?h\<lparr>bk_nextp := (bk_nextp h)(p := bk_nextp h q, q := p), hp_freep := q\<rparr>)"
      using heap_free_ok [OF inv' env, of p] by auto
    have A: "insert p A - {p} = A" using pF(2) by simp
    have "q \<noteq> 0" using heap_free_nonnull [OF inv(1) env] q(1) by auto
    moreover have "expand E V H h n = Some (q, ?h\<lparr>bk_nextp := (bk_nextp h)(p := bk_nextp h q, q := p), hp_freep := q\<rparr>)"
      using False g(1) q(2) k(1) by (simp add: expand_def Let_def)
    ultimately show thesis using granted q(1,3) pF unfolding A pn [symmetric] by simp
  qed
qed

text \<open>The walk from the block after the entry to the entry: it meets every free block, and stops at the first that fits.\<close>

lemma malloc_search_walk:
  assumes r: "ring F (bk_nextp h)" "0 \<notin> F" "hp_freep h \<in> F" and p: "p \<in> F"
    and grow: "grow = do { (p', h') \<leftarrow> expand E V H h n; if p' = 0 then Some (0, h') else malloc_search E V H h' n p' (bk_nextp h' p') }"
  shows "\<forall>q\<in>F. bk_nextp h q = p \<longrightarrow>
    (\<exists>q'\<in>F. n \<le> bk_size h (bk_nextp h q') \<and> malloc_search E V H h n q p = Some (malloc_take H h n q' (bk_nextp h q'))) \<or>
    malloc_search E V H h n q p = grow \<and> (\<forall>f\<in>F. f = p \<or> f = hp_freep h \<or> p \<noteq> hp_freep h \<and> between p f (hp_freep h) \<longrightarrow> bk_size h f < n)"
  using r(1) p r(3)
proof (induction rule: ring_induct)
  case target
  have "hp_freep h \<noteq> 0" using r by auto
  then have "malloc_search E V H h n q (hp_freep h) = (if n \<le> bk_size h (hp_freep h) then Some (malloc_take H h n q (hp_freep h)) else grow)" for q
    unfolding grow by (subst malloc_search.simps) simp
  then show ?case by (cases "n \<le> bk_size h (hp_freep h)") (force, simp add: not_le)
next
  case (step b)
  have b0: "b \<noteq> 0" using r(2) step(1) by auto
  show ?case
  proof (cases "n \<le> bk_size h b")
    case True
    then have "malloc_search E V H h n q b = Some (malloc_take H h n q b)" for q using b0 by (subst malloc_search.simps) simp
    with True show ?thesis by force
  next
    case False
    have "malloc_search E V H h n q b = malloc_search E V H h n b (bk_nextp h b)" for q
      using False b0 step(2) by (subst malloc_search.simps) simp
    moreover have "f = bk_nextp h b \<or> f = hp_freep h \<or> bk_nextp h b \<noteq> hp_freep h \<and> between (bk_nextp h b) f (hp_freep h)"
      if "f \<in> F" "between b f (hp_freep h)" for f
      using ring_gap [OF r(1) step(1) that(1)] ring_gap [OF r(1) step(1) r(3)] that(2) step(2) by (auto simp: between_def split: if_splits)
    moreover note step(3) [rule_format, OF step(1) refl]
    ultimately show ?thesis using False by (metis not_le)
  qed
qed

lemma malloc_search_ok:
  fixes h :: "'w :: len word heap"
  assumes inv: "heap_inv E V H F A h" "hp_freep h \<noteq> 0" and env: "heap_env_ok V H"
  obtains (found) q where "q \<in> F" "n \<le> bk_size h (bk_nextp h q)"
      "malloc_search E V H h n (hp_freep h) (bk_nextp h (hp_freep h)) = Some (malloc_take H h n q (bk_nextp h q))"
  | (full) "\<forall>f\<in>F. bk_size h f < n" "malloc_search E V H h n (hp_freep h) (bk_nextp h (hp_freep h)) =
      do { (p', h') \<leftarrow> expand E V H h n; if p' = 0 then Some (0, h') else malloc_search E V H h' n p' (bk_nextp h' p') }"
proof -
  note r = heap_inv_ring [OF inv] and z = heap_free_nonnull [OF inv(1) env]
  let ?p = "bk_nextp h (hp_freep h)"
  have p: "?p \<in> F" by (rule ring_next [OF r(1,3)])
  have all: "f = ?p \<or> f = hp_freep h \<or> ?p \<noteq> hp_freep h \<and> between ?p f (hp_freep h)" if "f \<in> F" for f
    using ring_gap [OF r(1,3) that] by (auto simp: between_def split: if_splits)
  from bspec [OF malloc_search_walk [OF r(1) z r(3) p refl, where n = n] r(3), THEN mp, OF refl] show thesis
  proof
    assume "\<exists>q'\<in>F. n \<le> bk_size h (bk_nextp h q') \<and> malloc_search E V H h n (hp_freep h) ?p = Some (malloc_take H h n q' (bk_nextp h q'))"
    with found show thesis by blast
  next
    assume "malloc_search E V H h n (hp_freep h) ?p =
        do { (p', h') \<leftarrow> expand E V H h n; if p' = 0 then Some (0, h') else malloc_search E V H h' n p' (bk_nextp h' p') } \<and>
      (\<forall>f\<in>F. f = ?p \<or> f = hp_freep h \<or> ?p \<noteq> hp_freep h \<and> between ?p f (hp_freep h) \<longrightarrow> bk_size h f < n)"
    with full all show thesis by blast
  qed
qed

text \<open>The first call creates the list.\<close>

lemma malloc_init_ok:
  assumes inv: "heap_inv E V H F A h" and env: "heap_env_ok V H"
  shows "heap_inv E V H (insert (he_head H) F) A (malloc_init H h)" "hp_freep (malloc_init H h) \<noteq> 0" "hp_data (malloc_init H h) = hp_data h"
    "hp_vmem (malloc_init H h) = hp_vmem h" "a \<noteq> he_head H \<Longrightarrow> bk_size (malloc_init H h) a = bk_size h a"
proof -
  have z: "he_head H \<noteq> 0" using env by (simp add: heap_env_ok_def)
  show "heap_inv E V H (insert (he_head H) F) A (malloc_init H h)"
    using inv z by (cases "hp_freep h = 0") (auto simp: heap_inv_def malloc_init_def insert_absorb layout_def)
qed (use env in \<open>auto simp: malloc_init_def heap_env_ok_def\<close>)

lemma malloc_ok:
  fixes h :: "'w :: len word heap"
  assumes inv: "heap_inv E V H F A h" and env: "heap_env_ok V H"
    and n: "n = BLOCK_META_SIZE sz" "sz \<noteq> 0" "unat sz + 2 * unat (BLOCK_MIN_SIZE :: 'w word) + RMEM_BLOCK_SIZE \<le> 2 ^ 30"
    and clear: "(\<exists>f\<in>F. n \<le> bk_size h f) \<or> clear_of (malloc_init H h) (insert (he_head H) F) (next_pages V h) (page_bytes n)"
  obtains (refused) h' where "nanvix_malloc E V H h sz = Some (0, h')" "heap_inv E V H (insert (he_head H) F) A h'" "\<forall>f\<in>F. bk_size h f < n"
      "\<forall>a\<in>A. bk_size h' a = bk_size h a" "hp_data h' = hp_data h" "unat n = unat sz + unat (BLOCK_STRUCT_SIZE :: 'w word)"
  | (block) p F' h' where "nanvix_malloc E V H h sz = Some (p + BLOCK_STRUCT_SIZE, h')" "heap_inv E V H F' (insert p A) h'" "p \<notin> A" "n \<le> bk_size h' p"
      "\<forall>a\<in>A. bk_size h' a = bk_size h a" "hp_data h' = hp_data h" "(\<exists>f\<in>F. n \<le> bk_size h f) \<longrightarrow> p \<in> F \<and> hp_vmem h' = hp_vmem h"
      "unat n = unat sz + unat (BLOCK_STRUCT_SIZE :: 'w word)"
proof -
  let ?h = "malloc_init H h" and ?F = "insert (he_head H) F"
  note i = malloc_init_ok [OF inv env] and ready = heap_inv_ready [OF inv]
  have w: "32 \<le> LENGTH('w)" using vmem_inv_width ready by (auto simp: vmem_ready_def)
  have p: "(2 :: nat) ^ 32 \<le> 2 ^ LENGTH('w)" by (rule power_increasing [OF w]) simp
  have n3: "unat sz + 2 * unat (BLOCK_MIN_SIZE :: 'w word) + RMEM_BLOCK_SIZE \<le> 1073741824" "4294967296 \<le> (2 :: nat) ^ LENGTH('w)" using n(3) p by simp_all
  have "unat (BLOCK_STRUCT_SIZE :: 'w word) + unat sz < 2 ^ LENGTH('w)" using n3 BLOCK_sizes(2) [where 'w = 'w] by linarith
  then have un: "unat n = unat sz + unat (BLOCK_STRUCT_SIZE :: 'w word)" by (simp add: n(1) BLOCK_META_SIZE_def unat_word_ariths)
  have "0 < unat sz" using n(2) by (simp add: unat_gt_0)
  then have nb: "(BLOCK_STRUCT_SIZE :: 'w word) < n" using un by (simp add: word_less_nat_alt)
  have nw: "unat n + unat (BLOCK_MIN_SIZE :: 'w word) < 2 ^ LENGTH('w)" using n3 un BLOCK_sizes(2) [where 'w = 'w] by linarith
  have np: "unat n + RMEM_BLOCK_SIZE \<le> 2 ^ 30" using n(3) un BLOCK_sizes(2) [where 'w = 'w] by linarith
  have A: "a \<noteq> he_head H" if "a \<in> A" for a using heap_block(2) [OF inv env] that by blast
  have m: "nanvix_malloc E V H h sz = malloc_search E V H ?h n (hp_freep ?h) (bk_nextp ?h (hp_freep ?h))"
    using n(1,2) by (simp add: nanvix_malloc_def Let_def)
  have same: "bk_size ?h f = bk_size h f" if "f \<in> F" for f using heap_inv_none(1) [OF inv] that by (auto simp: malloc_init_def)
  show thesis
  proof (cases rule: malloc_search_ok [OF i(1,2) env, where n = n, case_names found full])
    case (found q)
    let ?p = "bk_nextp ?h q"
    obtain F' h' where t: "malloc_take H ?h n q ?p = (?p + BLOCK_STRUCT_SIZE, h')" "heap_inv E V H F' (insert ?p A) h'" "?p \<in> ?F" "?p \<noteq> he_head H"
      "n \<le> bk_size h' ?p" "\<forall>a\<in>A. bk_size h' a = bk_size ?h a" "hp_data h' = hp_data ?h" "hp_vmem h' = hp_vmem ?h"
      by (rule malloc_take_ok [OF i(1,2) env found(1) refl found(2) nb nw])
    have "?p \<notin> A" using heap_inv_disjoint [OF i(1)] t(3) by blast
    from block [OF _ t(2) this t(5)] show thesis using m found(3) t i(3-5) A un by simp
  next
    case full
    then have none: "\<forall>f\<in>F. bk_size h f < n" using same by auto
    have np': "next_pages V ?h = next_pages V h" by (simp add: next_pages_def i(4))
    have cl: "clear_of ?h ?F (next_pages V ?h) (page_bytes n)" unfolding np' using clear none by (auto simp: not_le [symmetric])
    show thesis
    proof (cases rule: expand_ok [OF i(1,2) env nb np cl, case_names refused granted])
      case (refused vm)
      from that(1) [OF _ refused(2) none _ _ un] show thesis using m full(2) refused(1) i(3,5) A by simp
    next
      case (granted p' h1)
      let ?p = "next_pages V ?h"
      have f1: "hp_freep h1 \<noteq> 0" "p' \<in> insert ?p ?F" using granted by simp_all
      have fits: "n \<le> bk_size h1 ?p" using granted(8) page_count(4) [OF env _ np w] un n(2) by (simp add: unat_gt_0)
      obtain F' h' where t: "malloc_take H h1 n p' ?p = (?p + BLOCK_STRUCT_SIZE, h')" "heap_inv E V H F' (insert ?p A) h'" "?p \<in> insert ?p ?F" "?p \<noteq> he_head H"
        "n \<le> bk_size h' ?p" "\<forall>a\<in>A. bk_size h' a = bk_size h1 a" "hp_data h' = hp_data h1"
        by (rule malloc_take_ok [OF granted(7) f1(1) env f1(2) granted(5) [symmetric] fits nb nw])
      have "?p \<noteq> 0" using heap_free_nonnull [OF granted(7) env] by auto
      then have "malloc_search E V H h1 n p' ?p = Some (?p + BLOCK_STRUCT_SIZE, h')" using fits t(1) by (subst malloc_search.simps) simp
      then have "nanvix_malloc E V H h sz = Some (?p + BLOCK_STRUCT_SIZE, h')" using m full(2) granted(1,2,5) by simp
      moreover have "?p \<notin> A" using granted(6) by blast
      moreover have "\<forall>a\<in>A. bk_size h' a = bk_size h a" using t(6) granted(8) i(5) A \<open>?p \<notin> A\<close> by auto
      moreover have "\<not> (\<exists>f\<in>F. n \<le> bk_size h f)" using none by (auto simp: not_le)
      ultimately show thesis using block [OF _ t(2) _ t(5)] t(7) granted(9) i(3) un by simp
    qed
  qed
qed

section \<open>A start state\<close>

definition heap_env_ideal :: "64 word heap_env" where
  "heap_env_ideal = \<lparr>he_head = 0x1000, PAGE_SIZE = 4096, TRUNCATE = (\<lambda>x a. (x + a - 1) div a * a), WITHIN = (\<lambda>x a b. a \<le> x \<and> x < b)\<rparr>"

abbreviation rm64 :: "64 word rmem_env" where "rm64 \<equiv> rmem_env_ideal"
abbreviation vm64 :: "64 word vm_env" where "vm64 \<equiv> vm_env_ideal"
abbreviation he64 :: "64 word heap_env" where "he64 \<equiv> heap_env_ideal"

lemma BLOCK_STRUCT_64 [simp]: "(BLOCK_STRUCT_SIZE :: 64 word) = 16" "(BLOCK_MIN_SIZE :: 64 word) = 17" "BLOCK_META_SIZE (n :: 64 word) = 16 + n"
  by (simp_all add: BLOCK_STRUCT_SIZE_def BLOCK_MIN_SIZE_def BLOCK_META_SIZE_def)

lemma heap_env_ideal_ok [simp]: "heap_env_ok vm64 he64"
proof -
  have "unat ((x + 4096 - 1) div 4096 * 4096 :: 64 word) = (unat x + 4096 - 1) div 4096 * 4096" if "unat x + 4096 \<le> 2 ^ 64" for x :: "64 word"
  proof -
    have "x + 4096 - 1 = x + 4095" by simp
    moreover have "unat (x + 4095) = unat x + 4095" using that by (simp add: unat_word_ariths(1))
    ultimately have "unat (x + 4096 - 1) = unat x + 4095" by (simp only:)
    then have d: "unat ((x + 4096 - 1) div 4096) = (unat x + 4095) div 4096" by (simp add: unat_div)
    have "(unat x + 4095) div 4096 * 4096 \<le> unat x + 4095" by simp
    then have "(unat x + 4095) div 4096 * 4096 < 2 ^ 64" using that by linarith
    then show ?thesis unfolding unat_word_ariths(2) d by simp
  qed
  then show ?thesis by (simp add: heap_env_ok_def heap_env_ideal_def vm_env_ideal_def rmem_consts RMEM_TABLE_LENGTH_def)
qed

lemma heap_static_inv: "vmem_ready E V vm \<Longrightarrow> heap_inv E V H {} {} (heap_static vm)"
  by (simp add: heap_inv_def heap_static_def layout_def)

lemma heap_booted_ready [simp]: "vmem_ready rm64 vm64 vmem_booted"
  by (simp add: vmem_ready_def) (simp add: vm_env_ideal_def rmem_consts RMEM_TABLE_LENGTH_def)

text \<open>A first allocation brings a page and splits it, a second splits the rest.\<close>

definition heap_one :: "64 word vmem \<Rightarrow> 64 word heap" where
  "heap_one vm = \<lparr>bk_nextp = (\<lambda>_. 0)(0x80001000 := 0x1000, 0x1000 := 0x80001080, 0x80001080 := 0x1000),
     bk_size = (\<lambda>_. 0)(0x1000 := 0, 0x80001080 := 3968, 0x80001000 := 128), hp_freep = 0x1000, hp_data = (\<lambda>_. 0), hp_vmem = vm\<rparr>"

definition heap_two :: "64 word vmem \<Rightarrow> 64 word heap" where
  "heap_two vm = (heap_one vm)\<lparr>bk_nextp := (bk_nextp (heap_one vm))(0x1000 := 0x80001800, 0x80001800 := 0x1000),
     bk_size := (bk_size (heap_one vm))(0x80001800 := 2048, 0x80001080 := 1920)\<rparr>"

lemmas heap_eval = nanvix_malloc_def malloc_init_def malloc_take_def nanvix_free_def merge_upper_def merge_lower_def block_end_def heap_env_ideal_def Let_def

lemma heap_demo_page:
  obtains vm where "nanvix_vmem_alloc rm64 vm64 vmem_booted 1 = Some (0x80001000, vm)"
proof -
  obtain vm where vm: "nanvix_vmem_alloc rm64 vm64 vmem_booted 1 = Some (RADDR vm64 1, vm)" by (rule vmem_demo)
  moreover have "RADDR vm64 1 = 0x80001000" by (simp add: RADDR_def vm_env_ideal_def RMEM_BLOCK_SHIFT_def)
  ultimately show thesis using that by simp
qed

lemma heap_demo_one:
  assumes vm: "nanvix_vmem_alloc rm64 vm64 vmem_booted 1 = Some (0x80001000, vm)"
  shows "nanvix_malloc rm64 vm64 he64 (heap_static vmem_booted) 112 = Some (0x80001010, heap_one vm)"
  apply (simp add: heap_eval heap_static_def)
  apply (subst malloc_search.simps)
  apply (simp add: heap_eval expand_def vm)
  apply (subst free_search.simps)
  apply (simp add: heap_eval)
  apply (subst malloc_search.simps)
  apply (simp add: heap_eval heap_one_def)
  done

text \<open>The largest size there is: with its header it is fifteen bytes.\<close>

lemma heap_demo_wrap:
  assumes vm: "nanvix_vmem_alloc rm64 vm64 vmem_booted 1 = Some (0x80001000, vm)"
  shows "\<exists>h. nanvix_malloc rm64 vm64 he64 (heap_static vmem_booted) (- 1) = Some (0x80001010, h) \<and> bk_size h 0x80001000 = 15"
  apply (simp add: heap_eval heap_static_def)
  apply (subst malloc_search.simps)
  apply (simp add: heap_eval expand_def vm)
  apply (subst free_search.simps)
  apply (simp add: heap_eval)
  apply (subst malloc_search.simps)
  apply (simp add: heap_eval)
  done

lemma heap_demo_two: "nanvix_malloc rm64 vm64 he64 (heap_one vm) 1904 = Some (0x80001090, heap_two vm)"
  apply (simp add: heap_eval heap_one_def)
  apply (subst malloc_search.simps)
  apply (simp add: heap_eval heap_two_def heap_one_def)
  done

text \<open>Freeing the first: sixteen times its size away lies a free block, which is taken for its neighbour.\<close>

definition heap_bad :: "64 word vmem \<Rightarrow> 64 word heap" where
  "heap_bad vm = (heap_two vm)\<lparr>bk_nextp := (bk_nextp (heap_two vm))(0x80001000 := 0x1000, 0x1000 := 0x80001000),
     bk_size := (bk_size (heap_two vm))(0x80001000 := 2176)\<rparr>"

lemma heap_demo_free: "nanvix_free (heap_two vm) 0x80001010 = Some (heap_bad vm)"
  apply (simp add: nanvix_free_def heap_one_def heap_two_def)
  apply (subst free_search.simps)
  apply (simp add: heap_eval heap_bad_def heap_two_def heap_one_def)
  done

lemma heap_demo_again: "\<exists>h. nanvix_malloc rm64 vm64 he64 (heap_bad vm) 200 = Some (0x80001010, h)"
  apply (simp add: heap_eval heap_one_def heap_two_def heap_bad_def)
  apply (subst malloc_search.simps)
  apply (simp add: heap_eval)
  done

text \<open>The heap after the first allocation, and after one that leaves the blocks clear of each other.\<close>

definition heap_three :: "64 word vmem \<Rightarrow> 64 word heap" where
  "heap_three vm = (heap_one vm)\<lparr>bk_nextp := (bk_nextp (heap_one vm))(0x1000 := 0x80001478, 0x80001478 := 0x1000),
     bk_size := (bk_size (heap_one vm))(0x80001478 := 2952, 0x80001080 := 1016)\<rparr>"

lemma heap_demo_three: "nanvix_malloc rm64 vm64 he64 (heap_one vm) 1000 = Some (0x80001090, heap_three vm)"
  apply (simp add: heap_eval heap_one_def)
  apply (subst malloc_search.simps)
  apply (simp add: heap_eval heap_three_def heap_one_def)
  done

lemma heap_demo_inv:
  assumes vm: "nanvix_vmem_alloc rm64 vm64 vmem_booted 1 = Some (0x80001000, vm)"
  shows "heap_inv rm64 vm64 he64 {0x1000, 0x80001080} {0x80001000} (heap_one vm)"
    "heap_inv rm64 vm64 he64 {0x1000, 0x80001478} {0x80001000, 0x80001080} (heap_three vm)"
proof -
  have r: "vmem_ready rm64 vm64 vm" "0x80002000 \<le> vmem_brk vm64 vm"
    using pages.alloc_law [OF heap_booted_ready, of 1] vm by (simp_all add: rmem_consts)
  show "heap_inv rm64 vm64 he64 {0x1000, 0x80001080} {0x80001000} (heap_one vm)"
    using r by (simp add: heap_inv_def heap_one_def layout_def ring_def between_def vm_env_ideal_def heap_env_ideal_def)
  show "heap_inv rm64 vm64 he64 {0x1000, 0x80001478} {0x80001000, 0x80001080} (heap_three vm)"
    using r by (simp add: heap_inv_def heap_three_def heap_one_def layout_def ring_def between_def vm_env_ideal_def heap_env_ideal_def)
qed

section \<open>Reallocating\<close>

lemma heap_copy_byte:
  fixes h :: "'w :: len word heap"
  assumes "heap_copy h dst src n = Some h'" "unat dst + unat n \<le> 2 ^ LENGTH('w)"
  shows "i < n \<Longrightarrow> hp_data h' (dst + i) = hp_data h (src + i)"
    and "a < dst \<or> unat dst + unat n \<le> unat a \<Longrightarrow> hp_data h' a = hp_data h a"
proof -
  have h': "h' = h\<lparr>hp_data := (\<lambda>a. if a - dst < n then hp_data h (src + (a - dst)) else hp_data h a)\<rparr>"
    using assms(1) by (auto simp: heap_copy_def bind_eq_Some_conv)
  show "hp_data h' (dst + i) = hp_data h (src + i)" if "i < n" using that by (simp add: h')
  assume a: "a < dst \<or> unat dst + unat n \<le> unat a"
  have "\<not> a - dst < n"
  proof (cases "dst \<le> a")
    case True
    then have "unat (a - dst) = unat a - unat dst" by (rule unat_sub)
    with a True show ?thesis by (auto simp: word_less_nat_alt word_le_nat_alt)
  next
    case False
    then have "unat (a - dst) = 2 ^ LENGTH('w) + unat a - unat dst" by (simp add: unat_sub_if' word_le_nat_alt)
    with assms(2) show ?thesis by (auto simp: word_less_nat_alt)
  qed
  then show "hp_data h' a = hp_data h a" by (simp add: h')
qed

section \<open>Merging\<close>

text \<open>Counting in blocks, a block never ends where it really ends.\<close>

lemma block_end_wrong:
  fixes h :: "'w :: len word heap"
  assumes "bk_size h b \<noteq> 0" "8 \<le> LENGTH('w)"
  shows "block_end h b \<noteq> b + bk_size h b"
proof
  let ?s = "bk_size h b" and ?k = "2 * (LENGTH('w) div 8) - 1"
  assume "block_end h b = b + ?s"
  then have eq: "BLOCK_STRUCT_SIZE * ?s = ?s" by (simp add: block_end_def)
  have k: "2 * (LENGTH('w) div 8) = ?k + 1" using assms(2) by linarith
  have "of_nat (?k * unat ?s) + ?s = BLOCK_STRUCT_SIZE * ?s"
    unfolding BLOCK_STRUCT_SIZE_def by (subst (2) k) (simp add: distrib_right)
  with eq have "of_nat (?k * unat ?s) = (0 :: 'w word)" by simp
  then have "2 ^ LENGTH('w) dvd ?k * unat ?s" by (simp only: word_of_nat_eq_0_iff)
  moreover have "coprime (2 ^ LENGTH('w)) ?k" using assms(2) by simp
  ultimately have "2 ^ LENGTH('w) dvd unat ?s" by (simp only: coprime_dvd_mult_right_iff)
  then have "unat ?s = 0" by (meson unsigned_less nat_dvd_not_less not_gr_zero)
  with assms(1) show False by (simp add: unat_eq_0)
qed

lemma heap_block_end_wrong:
  fixes h :: "'w :: len word heap"
  assumes inv: "heap_inv E V H F A h" and env: "heap_env_ok V H" and a: "a \<in> A \<or> a \<in> F \<and> a \<noteq> he_head H"
  shows "block_end h a \<noteq> a + bk_size h a"
proof (rule block_end_wrong)
  show "bk_size h a \<noteq> 0" using heap_block(7) [OF assms] by auto
  have "32 \<le> LENGTH('w)" using vmem_inv_width heap_inv_ready [OF inv] by (auto simp: vmem_ready_def)
  then show "8 \<le> LENGTH('w)" by simp
qed

section \<open>Properties\<close>

text \<open>
  C26. Allocating, for a size that is with its header and a page at most \<open>2 ^ 30\<close> and when a free block is large enough or
  no free block is taken for a neighbour of the new pages. Zero bytes give the null pointer. Otherwise the call returns, and with a pointer that is not null the bytes
  asked for lie in a block that was in no use before and overlaps neither a block in use nor a block left free; no block in
  use changes its size, no byte changes, and the list stays well formed. The null pointer is returned only if no free block
  was large enough, and then nothing is lost; a free block that is large enough is used before more pages are asked for.
  A free block taken for a neighbour of the new pages would be merged with them although it is apart.
\<close>

theorem malloc_correct:
  fixes h :: "'w :: len word heap"
  assumes "heap_inv E V H F A h" "heap_env_ok V H" "unat sz + 2 * unat (BLOCK_MIN_SIZE :: 'w word) + RMEM_BLOCK_SIZE \<le> 2 ^ 30" "n = BLOCK_META_SIZE sz"
    and "(\<exists>f\<in>F. n \<le> bk_size h f) \<or> clear_of (malloc_init H h) (insert (he_head H) F) (next_pages V h) (page_bytes n)"
  shows "if sz = 0 then nanvix_malloc E V H h sz = Some (0, h)
    else \<exists>ptr h'. nanvix_malloc E V H h sz = Some (ptr, h') \<and> hp_data h' = hp_data h \<and> (\<forall>a\<in>A. bk_size h' a = bk_size h a) \<and>
      (if ptr = 0 then (\<forall>f\<in>F. bk_size h f < n) \<and> heap_inv E V H (insert (he_head H) F) A h'
       else \<exists>F' p. p = ptr - BLOCK_STRUCT_SIZE \<and> p \<notin> A \<and> heap_inv E V H F' (insert p A) h' \<and>
         unat ptr + unat sz \<le> unat p + unat (bk_size h' p) \<and>
         (\<forall>a\<in>A \<union> (F' - {he_head H}). {unat p..<unat p + unat (bk_size h' p)} \<inter> {unat a..<unat a + unat (bk_size h' a)} = {}) \<and>
         ((\<exists>f\<in>F. n \<le> bk_size h f) \<longrightarrow> p \<in> F \<and> hp_vmem h' = hp_vmem h))"
proof (cases "sz = 0")
  case False
  show ?thesis
  proof (cases rule: malloc_ok [OF assms(1,2,4) False assms(3,5), case_names refused block])
    case (refused h')
    with False show ?thesis by auto
  next
    case (block p F' h')
    let ?ptr = "p + BLOCK_STRUCT_SIZE"
    note b = heap_block [OF block(2) assms(2), of p]
    have "unat n \<le> unat (bk_size h' p)" using block(4) by (simp add: word_le_nat_alt)
    then have fits: "unat ?ptr + unat sz \<le> unat p + unat (bk_size h' p)" using b(3) block(8) by simp
    have dis: "{unat p..<unat p + unat (bk_size h' p)} \<inter> {unat a..<unat a + unat (bk_size h' a)} = {}" if "a \<in> A \<union> (F' - {he_head H})" for a
    proof -
      have "p \<noteq> a" using that block(3) heap_inv_disjoint [OF block(2)] by auto
      then show ?thesis using that by (intro layout_disjoint [OF heap_inv_layout [OF block(2)]]) auto
    qed
    have b4: "?ptr \<noteq> 0" using b(4) by simp
    have "p = ?ptr - BLOCK_STRUCT_SIZE" by simp
    with block(2,3,7) fits dis have "\<exists>F' q. q = ?ptr - BLOCK_STRUCT_SIZE \<and> q \<notin> A \<and> heap_inv E V H F' (insert q A) h' \<and>
      unat ?ptr + unat sz \<le> unat q + unat (bk_size h' q) \<and>
      (\<forall>a\<in>A \<union> (F' - {he_head H}). {unat q..<unat q + unat (bk_size h' q)} \<inter> {unat a..<unat a + unat (bk_size h' a)} = {}) \<and>
      ((\<exists>f\<in>F. n \<le> bk_size h f) \<longrightarrow> q \<in> F \<and> hp_vmem h' = hp_vmem h)" by blast
    then show ?thesis unfolding if_not_P [OF False]
      by (intro exI [of _ ?ptr] exI [of _ h'] conjI block(1,5,6)) (simp only: b4 if_False)
  qed
qed (simp add: nanvix_malloc_def)

theorem malloc_correct_witness:
  "\<exists>ptr h'. nanvix_malloc rm64 vm64 he64 (heap_static vmem_booted) 112 = Some (ptr, h') \<and>
    (if ptr = 0 then heap_inv rm64 vm64 he64 {0x1000} {} h' else \<exists>F'. heap_inv rm64 vm64 he64 F' {ptr - 16} h')"
proof -
  let ?h = "heap_static vmem_booted"
  have inv: "heap_inv rm64 vm64 he64 {} {} ?h" by (rule heap_static_inv) simp
  have n: "unat (112 :: 64 word) + 2 * unat (BLOCK_MIN_SIZE :: 64 word) + RMEM_BLOCK_SIZE \<le> 2 ^ 30" by (simp add: rmem_consts)
  have "next_pages vm64 ?h = 0x80001000" by (simp add: next_pages_def vmem_brk_def heap_static_def) (simp add: vm_env_ideal_def rmem_consts)
  moreover have "page_bytes (128 :: 64 word) = 4096" by (simp add: page_bytes_def rmem_consts)
  ultimately have c: "clear_of (malloc_init he64 ?h) (insert (he_head he64) {}) (next_pages vm64 ?h) (page_bytes (BLOCK_META_SIZE 112))"
    by (simp add: clear_of_def block_end_def malloc_init_def heap_static_def heap_env_ideal_def)
  have "he_head he64 = 0x1000" by (simp add: heap_env_ideal_def)
  with malloc_correct [OF inv heap_env_ideal_ok n refl disjI2 [OF c]] show ?thesis by (auto split: if_splits)
qed

text \<open>
  C27. Freeing, on every branch. The null pointer is ignored. For every block in use the call returns: the search ends at the
  free block \<open>p\<close> just below the block in address order, no byte and no page changes, and the list is a ring in address order
  again. If the free block above is where the block is taken to end, its size is added and it leaves the list; if the free
  block below is taken to end at the block, that one grows by the size and the block is not entered; these are the only
  sizes that change. If neither is the case the block becomes a member of the list and the heap is well formed. The blocks
  that are merged never adjoin each other, since the tests count the sizes in blocks: a merge is always wrong.
\<close>

theorem free_correct:
  fixes h :: "'w :: len word heap"
  assumes "heap_inv E V H F A h" "heap_env_ok V H" "bp \<in> A"
  shows "nanvix_free h 0 = Some h \<and>
    (\<exists>p h'. nanvix_free h (bp + BLOCK_STRUCT_SIZE) = Some h' \<and> p \<in> F \<and> between p bp (bk_nextp h p) \<and> hp_freep h' = p \<and>
       hp_data h' = hp_data h \<and> hp_vmem h' = hp_vmem h \<and>
       (let f = bk_nextp h p; up = (block_end h bp = f); low = (block_end h p = bp);
            s = bk_size h bp + (if up then bk_size h f else 0) in
        ring ((if low then F else insert bp F) - (if up \<and> f \<noteq> p then {f} else {})) (bk_nextp h') \<and>
        bk_size h' = (bk_size h)(bp := s, p := (if low then bk_size h p + s else bk_size h p)) \<and>
        (up \<longrightarrow> f \<noteq> bp + bk_size h bp) \<and> (low \<longrightarrow> bp \<noteq> p + bk_size h p) \<and>
        (\<not> up \<and> \<not> low \<longrightarrow> heap_inv E V H (insert bp F) (A - {bp}) h')))"
proof -
  obtain p h' where f: "p \<in> F" "between p bp (bk_nextp h p)" "nanvix_free h (bp + BLOCK_STRUCT_SIZE) = Some h'" "hp_freep h' = p"
    "ring (freed_ring h F p bp) (bk_nextp h')" "hp_data h' = hp_data h" "hp_vmem h' = hp_vmem h"
    "bk_size h' = (bk_size h)(bp := freed_size h p bp, p := (if block_end h p = bp then bk_size h p + freed_size h p bp else bk_size h p))"
    by (rule heap_free_any [OF assms])
  have "block_end h bp \<noteq> bp + bk_size h bp" "block_end h p = bp \<Longrightarrow> bp \<noteq> p + bk_size h p"
    using heap_block_end_wrong [OF assms(1,2), of bp] heap_block_end_wrong [OF assms(1,2), of p] heap_head_end [OF assms] f(1) assms(3) by auto
  moreover have "heap_inv E V H (insert bp F) (A - {bp}) h'" if "block_end h bp \<noteq> bk_nextp h p" "block_end h p \<noteq> bp"
    using heap_freed [OF assms f(1,4,7)] f(5,8) that by (simp add: freed_ring_def freed_size_def)
  ultimately show ?thesis using f by (intro conjI exI [of _ p] exI [of _ h']) (auto simp: nanvix_free_def Let_def freed_ring_def freed_size_def)
qed

theorem free_correct_witness:
  "\<exists>vm h'. nanvix_free (heap_one vm) 0x80001010 = Some h' \<and> hp_freep h' = 0x1000 \<and> heap_inv rm64 vm64 he64 {0x80001000, 0x1000, 0x80001080} {} h'"
proof -
  obtain vm where vm: "nanvix_vmem_alloc rm64 vm64 vmem_booted 1 = Some (0x80001000, vm)" by (rule heap_demo_page)
  from free_correct [OF heap_demo_inv(1) [OF vm] heap_env_ideal_ok, of "0x80001000"]
  obtain p h' where h: "nanvix_free (heap_one vm) 0x80001010 = Some h'" "p = 0x1000 \<or> p = 0x80001080" "between p 0x80001000 (bk_nextp (heap_one vm) p)"
    "hp_freep h' = p"
    "block_end (heap_one vm) 0x80001000 \<noteq> bk_nextp (heap_one vm) p \<and> block_end (heap_one vm) p \<noteq> 0x80001000 \<longrightarrow>
      heap_inv rm64 vm64 he64 {0x80001000, 0x1000, 0x80001080} {} h'"
    by (auto simp: Let_def)
  then have "p = 0x1000" by (auto simp: between_def heap_one_def)
  with h show ?thesis by (auto simp: block_end_def heap_one_def)
qed

text \<open>
  Reallocating. With the new block that the allocation returned, the bytes of the old block, as many as both hold, are at the
  start of the new one, the old block is freed, and no byte of any other block in use changes. If the allocation is refused, a
  pointer that is not null makes the copy write through the null pointer.
\<close>

theorem realloc_correct:
  fixes h :: "'w :: len word heap"
  assumes "heap_inv E V H F A h" "heap_env_ok V H" "sz \<noteq> 0" "bp \<in> A" "nanvix_malloc E V H h sz = Some (newptr, h1)"
    "\<forall>a\<in>A. bk_size h1 a = bk_size h a" "hp_data h1 = hp_data h"
    and "newptr \<noteq> 0 \<longrightarrow> newptr = p + BLOCK_STRUCT_SIZE \<and> p \<notin> A \<and> heap_inv E V H F1 (insert p A) h1 \<and>
      unat newptr + unat sz \<le> unat p + unat (bk_size h1 p) \<and> clear_of h1 F1 bp (bk_size h1 bp)"
  shows "nanvix_realloc E V H h 0 sz = Some (newptr, h1) \<and>
    (let ptr = bp + BLOCK_STRUCT_SIZE in
     if newptr = 0 then nanvix_realloc E V H h ptr sz = None
     else \<exists>h'. nanvix_realloc E V H h ptr sz = Some (newptr, h') \<and> heap_inv E V H (insert bp F1) (insert p A - {bp}) h' \<and>
       (\<forall>i. unat i < unat (bk_size h bp) - unat (BLOCK_STRUCT_SIZE :: 'w word) \<and> i < sz \<longrightarrow> hp_data h' (newptr + i) = hp_data h (ptr + i)) \<and>
       (\<forall>a\<in>A. \<forall>x. unat a \<le> unat x \<and> unat x < unat a + unat (bk_size h a) \<longrightarrow> hp_data h' x = hp_data h x))"
proof (cases "newptr = 0")
  case True
  with assms(1-5) heap_block(4) [OF assms(1,2)] show ?thesis by (simp add: nanvix_realloc_def heap_copy_def)
next
  case False
  let ?ptr = "bp + BLOCK_STRUCT_SIZE"
  from assms(8) False have n: "newptr = p + BLOCK_STRUCT_SIZE" "p \<notin> A" "heap_inv E V H F1 (insert p A) h1"
    "unat newptr + unat sz \<le> unat p + unat (bk_size h1 p)" "clear_of h1 F1 bp (bk_size h1 bp)" by blast+
  note b = heap_block [OF n(3) assms(2)]
  have ptr: "?ptr \<noteq> 0" using b(4) assms(4) by blast
  then obtain h2 where h2: "heap_copy h1 newptr ?ptr sz = Some h2" "heap_inv E V H F1 (insert p A) h2" "clear_of h2 F1 bp (bk_size h2 bp)"
    using False n(3,5) by (simp add: heap_copy_def heap_inv_def clear_of_def block_end_def)
  have hi: "unat newptr + unat sz \<le> 2 ^ LENGTH('w)"
    using n(4) b(6) [of p] pages.brk_bound [OF heap_inv_ready [OF n(3)]] by simp
  note c = heap_copy_byte [OF h2(1) hi]
  obtain q where q: "nanvix_free h2 ?ptr = Some (h2\<lparr>bk_nextp := (bk_nextp h2)(bp := bk_nextp h2 q, q := bp), hp_freep := q\<rparr>)"
    "heap_inv E V H (insert bp F1) (insert p A - {bp}) (h2\<lparr>bk_nextp := (bk_nextp h2)(bp := bk_nextp h2 q, q := bp), hp_freep := q\<rparr>)"
    by (rule heap_free_ok [OF h2(2) assms(2) _ h2(3)]) (use assms(4) in simp)
  have "hp_data h2 x = hp_data h x" if a: "a \<in> A" "unat a \<le> unat x" "unat x < unat a + unat (bk_size h a)" for a x
  proof -
    have "a \<noteq> p" using a(1) n(2) by blast
    then have "{unat a..<unat a + unat (bk_size h1 a)} \<inter> {unat p..<unat p + unat (bk_size h1 p)} = {}"
      using a(1) by (intro layout_disjoint [OF heap_inv_layout [OF n(3)]]) auto
    moreover have "unat x \<in> {unat a..<unat a + unat (bk_size h1 a)}" using a assms(6) by simp
    ultimately have "unat x \<notin> {unat p..<unat p + unat (bk_size h1 p)}" by blast
    then have "x < newptr \<or> unat newptr + unat sz \<le> unat x" using n(1,4) b(3) [of p] by (auto simp: word_less_nat_alt)
    then show ?thesis using c(2) assms(7) by simp
  qed
  moreover have "nanvix_realloc E V H h ?ptr sz = Some (newptr, h2\<lparr>bk_nextp := (bk_nextp h2)(bp := bk_nextp h2 q, q := bp), hp_freep := q\<rparr>)"
    using assms(3,5) ptr h2(1) q(1) by (simp add: nanvix_realloc_def)
  ultimately show ?thesis using assms(3,5,7) False q(2) c(1) by (simp add: nanvix_realloc_def Let_def)
qed

theorem realloc_correct_witness:
  "\<exists>vm h'. nanvix_realloc rm64 vm64 he64 (heap_one vm) 0x80001010 1000 = Some (0x80001090, h') \<and> hp_data h' 0x80001091 = hp_data (heap_one vm) 0x80001011"
proof -
  obtain vm where vm: "nanvix_vmem_alloc rm64 vm64 vmem_booted 1 = Some (0x80001000, vm)" by (rule heap_demo_page)
  have c: "clear_of (heap_three vm) {0x1000, 0x80001478} 0x80001000 (bk_size (heap_three vm) 0x80001000)"
    by (simp add: clear_of_def block_end_def heap_three_def heap_one_def)
  have e: "(0x80001000 :: 64 word) \<in> {0x80001000}" "(1000 :: 64 word) \<noteq> 0" "\<forall>a\<in>{0x80001000}. bk_size (heap_three vm) a = bk_size (heap_one vm) a"
    "hp_data (heap_three vm) = hp_data (heap_one vm)" by (simp_all add: heap_three_def heap_one_def)
  have "0x80001090 \<noteq> (0 :: 64 word) \<longrightarrow> 0x80001090 = (0x80001080 + BLOCK_STRUCT_SIZE :: 64 word) \<and> 0x80001080 \<notin> {0x80001000 :: 64 word} \<and>
    heap_inv rm64 vm64 he64 {0x1000, 0x80001478} (insert 0x80001080 {0x80001000}) (heap_three vm) \<and>
    unat (0x80001090 :: 64 word) + unat (1000 :: 64 word) \<le> unat (0x80001080 :: 64 word) + unat (bk_size (heap_three vm) 0x80001080) \<and>
    clear_of (heap_three vm) {0x1000, 0x80001478} 0x80001000 (bk_size (heap_three vm) 0x80001000)"
    using c heap_demo_inv(2) [OF vm] by (simp add: insert_commute) (simp add: heap_three_def)
  from realloc_correct [OF heap_demo_inv(1) [OF vm] heap_env_ideal_ok e(2,1) heap_demo_three e(3,4) this]
  obtain h' where h: "nanvix_realloc rm64 vm64 he64 (heap_one vm) 0x80001010 1000 = Some (0x80001090, h')"
    "\<forall>i. unat i < unat (bk_size (heap_one vm) 0x80001000) - 16 \<and> i < 1000 \<longrightarrow> hp_data h' (0x80001090 + i) = hp_data (heap_one vm) (0x80001010 + i)"
    by (auto simp: Let_def)
  from h(2) [rule_format, of 1] have "hp_data h' 0x80001091 = hp_data (heap_one vm) 0x80001011" by (simp add: heap_one_def)
  with h(1) show ?thesis by blast
qed

text \<open>
  A flaw of the merging test, which adds a number of bytes to a pointer to blocks: freed blocks are never merged with the
  blocks that adjoin them.
\<close>

theorem free_never_coalesces:
  fixes h :: "'w :: len word heap"
  assumes "8 \<le> LENGTH('w)"
  shows "(bk_size h bp \<noteq> 0 \<and> bk_nextp h p = bp + bk_size h bp \<longrightarrow> merge_upper h p bp = Some (h\<lparr>bk_nextp := (bk_nextp h)(bp := bk_nextp h p)\<rparr>)) \<and>
    (bk_size h p \<noteq> 0 \<and> bp = p + bk_size h p \<longrightarrow> merge_lower h p bp = h\<lparr>bk_nextp := (bk_nextp h)(p := bp)\<rparr>)"
  using block_end_wrong [of h] assms by (auto simp: merge_upper_def merge_lower_def)

theorem free_never_coalesces_witness:
  "merge_lower (heap_two vmem_booted) 0x80001000 0x80001080 =
    (heap_two vmem_booted)\<lparr>bk_nextp := (bk_nextp (heap_two vmem_booted))(0x80001000 := 0x80001080)\<rparr>"
  using free_never_coalesces [where h = "heap_two vmem_booted" and p = "0x80001000" and bp = "0x80001080"] by (simp add: heap_two_def heap_one_def)

text \<open>
  C35. The same flaw merges blocks that are apart: from the start of the program, two allocations, freeing the first and a third
  allocation return bytes that are still in use by the second.
\<close>

theorem malloc_returns_memory_in_use:
  "\<exists>p q r h1 h2 h3 h4. nanvix_malloc rmem_env_ideal vm_env_ideal heap_env_ideal (heap_static vmem_booted) 112 = Some (p, h1) \<and> p \<noteq> 0 \<and>
    nanvix_malloc rmem_env_ideal vm_env_ideal heap_env_ideal h1 1904 = Some (q, h2) \<and> q \<noteq> 0 \<and> nanvix_free h2 p = Some h3 \<and>
    nanvix_malloc rmem_env_ideal vm_env_ideal heap_env_ideal h3 200 = Some (r, h4) \<and> r \<noteq> 0 \<and>
    {unat r..<unat r + 200} \<inter> {unat q..<unat q + 1904} \<noteq> {}"
proof -
  obtain vm where vm: "nanvix_vmem_alloc rm64 vm64 vmem_booted 1 = Some (0x80001000, vm)" by (rule heap_demo_page)
  obtain h where h: "nanvix_malloc rm64 vm64 he64 (heap_bad vm) 200 = Some (0x80001010, h)" using heap_demo_again by blast
  show ?thesis
    by (rule exI [of _ "0x80001010"], rule exI [of _ "0x80001090"], rule exI [of _ "0x80001010"], rule exI [of _ "heap_one vm"],
        rule exI [of _ "heap_two vm"], rule exI [of _ "heap_bad vm"], rule exI [of _ h])
      (simp add: heap_demo_one [OF vm] heap_demo_two heap_demo_free h)
qed

text \<open>
  The size of a request with its header may wrap: a request for all of the address space is granted, with a block smaller
  than a header.
\<close>

theorem malloc_size_wraps:
  "\<exists>p h. nanvix_malloc rmem_env_ideal vm_env_ideal heap_env_ideal (heap_static vmem_booted) (- 1) = Some (p + BLOCK_STRUCT_SIZE, h) \<and>
    p + BLOCK_STRUCT_SIZE \<noteq> 0 \<and> bk_size h p < BLOCK_STRUCT_SIZE"
proof -
  obtain vm where "nanvix_vmem_alloc rm64 vm64 vmem_booted 1 = Some (0x80001000, vm)" by (rule heap_demo_page)
  from heap_demo_wrap [OF this] obtain h where
    "nanvix_malloc rm64 vm64 he64 (heap_static vmem_booted) (- 1) = Some (0x80001010, h)" "bk_size h 0x80001000 = 15" by blast
  then show ?thesis by (intro exI [of _ "0x80001000"] exI [of _ h]) simp
qed

end
