(* ===== verification/Spec2Isabelle.thy ===== *)
theory Spec2Isabelle
  imports SpawnLive Heap
begin

text \<open>
  Verification of the Nanvix multikernel services.

  \<^bold>\<open>The program.\<close> Nanvix runs its system services as servers on the clusters of a manycore. A server waits on its input mailbox,
  handles one request at a time, moves bulk data through portals, and answers on the mailbox of the client. The services are the name server
  (\<open>src/sys/pm/name\<close>), the System V server for semaphores, message queues and shared memory (\<open>src/sys/pm/sysv\<close>), the remote memory
  servers (\<open>src/sys/mm/rmem\<close>) and the file system server (\<open>src/sys/fs/vfs\<close>). The runtime library (\<open>src/libruntime\<close>) holds the
  client side: the stub that spreads pages over the remote memory servers, the page cache
  in front of it, the virtual memory over that and the heap over this, the calls of the name service, named mailboxes and portals over them, the
  calls of the file system and of System V objects over these, the rings in which a thread sets all of them up, and small utilities. The
  spawners (\<open>src/sbin/spawn\<close>) start the servers of every cluster in the order of the rings.

  \<^bold>\<open>How the parts interact.\<close> Clients find the servers by name and reach them over named mailboxes and portals. The servers keep the clients they serve in a connection table.
  The System V server keeps the contents of shared memory regions in remote pages, which it allocates through the stub, and so is itself a client of
  the remote memory servers; the page cache is another. The file system server runs its requests as file system processes over tables of open files
  and in-memory inodes, these over a MINIX file system, and this over the bytes of a RAM disk; the block cache lies beside it.

  \<^bold>\<open>The theories, and the code each models.\<close>

    \<^item> \<open>Prelude\<close>: results, search loops (\<open>first_index\<close>), assertions (\<open>uassert\<close>), array access and the lemmas the components share.
      \<open>Resource\<close> and \<open>Ipc\<close>: the interfaces of the microkernel's resource flags, mailboxes and portals. \<open>Slots\<close>, \<open>Refcount\<close> and
      \<open>Fifo\<close>: the contracts of tables of slots, of reference counts and of queues, as locales.

    \<^item> \<open>Connection\<close>: the connection table of \<open>common/connection.c\<close>. \<open>connection_history_counts\<close> reads every count off the history of the
      requests.

    \<^item> \<open>NameServer\<close>: \<open>pm/name/main.c\<close>. Table, handlers, dispatch loop. The invariant of the table for every sequence of requests, the
      naming each request establishes, and exactly when the server aborts. \<open>NameClient\<close>: \<open>libruntime/pm/name.c\<close> and \<open>pname.c\<close> composed with
      that server; the calls as operations on the map of names (\<open>bindings\<close>).

    \<^item> \<open>Named\<close>: the tables of named mailboxes and portals, \<open>libruntime/pm/mailbox.c\<close> and \<open>portal.c\<close>, over the kernel and the name client. Both
      tables satisfy the locale \<open>named_table\<close>; \<open>pm_calls_correct\<close> refines every call to a change of the view of the table and of the
      links of names. \<open>Channel\<close>: the output mailbox and portal that a client keeps to a server.

    \<^item> \<open>Bitmap\<close>: \<open>libruntime/utils/bitmap.c\<close> and the macros of \<open>utils.h\<close>, on 32-bit words. The least clear bit, the population count.

    \<^item> \<open>Sem\<close>, \<open>MsgBuf\<close>, \<open>Msg\<close>, \<open>Shm\<close>: the tables of the System V server (\<open>sem.c\<close>, \<open>buffer.c\<close>, \<open>msg.c\<close>, \<open>shm.c\<close>). Invariants, the
      refinement of message queues to first-in-first-out lists, the isolation of shared memory regions, life cycles and error branches.
      \<open>SysV\<close>: the handlers and the loop of \<open>sysv/main.c\<close> over all of them; the hazards outside of which it never aborts.
      \<open>SysVClient\<close>: the client calls of \<open>libruntime/pm/sysv/sysv.c\<close>, \<open>sem.c\<close> and \<open>msg.c\<close> composed with that server; queues end to end.
      \<open>ShmClient\<close>: \<open>sysv/shm.c\<close> of the runtime, the table of open regions and the transfers through the page cache, composed with the System V server
      and the remote memory servers; a region shared by two processes, and the refusals that go unreported.

    \<^item> \<open>RMem\<close>: the remote memory server (\<open>mm/rmem/main.c\<close>), refined to a map of owned pages. \<open>RMemStub\<close>: the client stub
      (\<open>libruntime/mm/stub.c\<close>) composed with the servers it calls, refined to one memory of pages. \<open>RCache\<close>: the page cache
      (\<open>libruntime/mm/cache.c\<close>) over the stub. \<open>Vmem\<close>: the virtual memory manager (\<open>libruntime/mm/manager.c\<close>) over the page cache; the
      pages that its table shows, transfers as reads and writes of them, allocation, release and the page fault handler.

    \<^item> \<open>Ramdisk\<close>, \<open>BCache\<close>: \<open>disk/ramdisk.c\<close> and \<open>bcache/bcache.c\<close>. The disk is a byte array; the cache shows every client the
      same contents of a block; when its eviction loop returns.

    \<^item> \<open>DiskLayout\<close>, \<open>Minix\<close>, \<open>MinixDir\<close>: \<open>include/fs/minix.h\<close> and \<open>minix/*.c\<close>. The structures of the disk as little-endian byte
      strings with their round trips, allocation of inodes and blocks, directories as maps from names to inode numbers (the locale
      \<open>directory\<close>, interpreted on the code's search, add and remove), making and mounting a file system.

    \<^item> \<open>Inode\<close>, \<open>FileSys\<close>, \<open>VfsDisk\<close>: \<open>inode.c\<close>, \<open>fprocess.c\<close>, \<open>file.c\<close>, \<open>fs.c\<close> and \<open>vfs.c\<close>. The tables of in-memory inodes,
      open files and processes with the invariant that ties their reference counts together (\<open>vfs_inv\<close>), each call refined to a change
      of the map of open descriptors (\<open>fd_view\<close>), start-up, opening by name, and the disk as seen through a descriptor.

    \<^item> \<open>VfsServer\<close>: \<open>fs/vfs/main.c\<close>. Handlers and loop; the server never aborts, refines its specification and answers every request.
      \<open>VfsClient\<close>: the client calls of \<open>libruntime/fs/vfs.c\<close> composed with that server, blocks and whole transfers.

    \<^item> \<open>AddrRing\<close>, \<open>Heap\<close>: circular lists in address order, and the allocator of \<open>libruntime/posix/libc/stdlib/malloc.c\<close> over the virtual memory
      manager, which it uses through the locale \<open>page_source\<close>. Freeing on every branch, merges included. Blocks in use and free blocks never overlap while no two blocks that are apart
      look adjacent to the merging test of \<open>nanvix_free\<close>; when they do, \<open>malloc_returns_memory_in_use\<close> shows the result.

    \<^item> \<open>Runtime\<close>: \<open>libruntime/init.c\<close> and \<open>shutdown.c\<close>. Entering and leaving the rings over all clients of the library, the handler of exceptions, whose loop
      the clean-up of ring 5 waits for, and the shutdown of the servers, each of which handles the request to exit that it is sent.

    \<^item> \<open>Spawn\<close>: \<open>sbin/spawn/main.c\<close>, \<open>barrier.c\<close> and the server tables, and \<open>libruntime/crt1.c\<close>. Spawners, servers and user programs as lists of
      synchronising actions, the system as a step relation over their positions; an action is taken when what it waits for has happened (\<open>opens\<close>) and
      what it asserts holds (\<open>asserts\<close>), and a thread whose assertion does not hold aborts. In every interleaving servers start in the order of the rings
      over all clusters, and user code runs only when all are up. \<open>SpawnLive\<close>: for server tables in which every server is in a higher ring than those it
      connects to, the boot and the shutdown never abort or deadlock, and every run of them ends.

  \<^bold>\<open>Conventions.\<close> Static variables of a component form a record, passed and returned. Fallible functions return \<open>errno + 'a\<close>; a negative
  return value of the code is \<open>Inl\<close>. A failed assertion, a panic, an access outside of an array, a use of a null pointer or a loop that does not end is
  \<open>None\<close>, so a theorem that a call returns \<open>Some\<close> shows that none of them happens. Unsigned integers whose width matters are words, signed ones
  \<open>int\<close>. The counters of semaphores, which requests can drive to the bounds of \<open>int\<close>, wrap (\<open>add_int\<close>); reference counts, which change by one, and file
  offsets are unbounded; the arguments of requests are arbitrary, so no theorem assumes a well-behaved client unless it says so.

  \<^bold>\<open>Parameters.\<close> Code outside of the repository is an argument: the resource flags \<open>R\<close> (laws \<open>resource_laws\<close>), mailboxes \<open>K\<close> and portals
  \<open>P\<close> (\<open>mailboxes_up\<close>, \<open>portals_up\<close>: open, transfer and close succeed). Where a client is composed with its server, the server's portal delivers the
  client's bytes only to a read that allows the client's node and the port of the portal that the client writes (\<open>portal_from\<close>). Further arguments are the environment \<open>E\<close> of the remote memory stub, the number of processes,
  the kernel calls under named mailboxes and portals (\<open>pm_env\<close>, laws \<open>pm_env_up\<close> and \<open>pm_kernel_up\<close>), the environments of the clients (\<open>name_env\<close>,
  \<open>vfs_env\<close>, \<open>sysv_env\<close>, \<open>shm_env\<close>), the size macros under the heap (\<open>heap_env\<close>, laws \<open>heap_env_ok\<close>), the standard connectors and threads under the
  runtime and the exceptions that its handler receives until \<open>excp_pause\<close> fails, if it does (\<open>runtime_env\<close>, laws \<open>runtime_env_up\<close> and \<open>closes_ok\<close>), the
  fence, the synchronisation objects and the failure of \<open>excp_pause\<close> in the boot (\<open>spawn_sys\<close>, laws \<open>sync_laws\<close> and, for progress, \<open>sync_live\<close>), the outcome of memory allocation, the clock, and fields left uninitialised (\<open>junk\<close>). Each has a concrete instance used by the witnesses.

  \<^bold>\<open>Loops and bounds.\<close> Searches over tables are searches of lists. The bitmap search and the directory scan are functions with termination
  proofs. The eviction loop of the block cache is a partial function, since it can run forever; \<open>bcache_evict_returns_iff\<close> says when it
  returns. The two loops of the heap over its free list are partial functions for the same reason; the theorems on allocating and freeing prove that
  they return. They bound a request by \<open>2 ^ 30\<close> bytes, far above the pages that the virtual memory has, so that counts of pages do not
  wrap. Server loops run over lists of requests: a theorem about every list covers every finite run. No definition uses fuel.

  \<^bold>\<open>Not modelled.\<close> The logging functions, the idle program and the test drivers have no state to verify. The delay in the set-up of
  the barrier is timing only. Timing statistics are kept only where the code reports them. The file name of an open request is the
  string that its array holds; the read beyond an array without a terminator is not modelled. In the boot, the actions of a thread are those that
  synchronise or can abort by their order; a kernel call that fails is not one of them.
\<close>

end
